(* ===== verification/Soprano_Prelude.thy ===== *)
theory Soprano_Prelude
  imports Main "HOL-Library.Word" "HOL-Library.Char_ord" "HOL-Library.List_Lexorder"
begin

text \<open>
  The prelude of the development: the names of the types every component uses (Qt strings, byte
  arrays, machine integers, URLs), the operations of Qt's string class that the sources call, and
  the lemmas about them that the components share.

  A QString is a list of characters. The model ranges over the characters U+0000 to U+00FF (the
  type \<^typ>\<open>char\<close>), for which the character classes and case mappings below are the ones of
  QChar. A QByteArray is a list of 8-bit words. A QUrl is identified with its fully encoded form
  (\<open>QUrl::toEncoded\<close>); what Qt's URL parser does with text is not defined here, it is a field of
  the record \<open>qt\<close> below, together with the other services of Qt that have no definition in this
  repository (number formatting of doubles, UTF-8, hashing of strings, comparison and conversion of variants of
  different types).
\<close>

named_theorems wire_simps \<open>equations that evaluate the binary encoders and decoders\<close>
named_theorems model_simps \<open>definitions of the model operations unfolded by the model proofs\<close>

type_synonym qstring = string
type_synonym byte = "8 word"
type_synonym qbytes = "byte list"
type_synonym u8 = "8 word"
type_synonym u16 = "16 word"
type_synonym u32 = "32 word"
type_synonym u64 = "64 word"

datatype qurl = QUrl (encoded: qstring)

definition url_isEmpty :: "qurl \<Rightarrow> bool" where
  "url_isEmpty u \<longleftrightarrow> encoded u = []"

section \<open>Character classes\<close>

definition ccode :: "char \<Rightarrow> nat" where
  "ccode c = of_char c"

lemma ccode_char_of [simp]: "n < 256 \<Longrightarrow> ccode (char_of n) = n"
  by (simp add: ccode_def)

lemma ccode_less [simp]: "ccode c < 256"
  by (simp add: ccode_def)

lemma ccode_inject [simp]: "ccode c = ccode d \<longleftrightarrow> c = d"
  by (simp add: ccode_def)

definition is_space :: "char \<Rightarrow> bool" where
  "is_space c \<longleftrightarrow> (let n = ccode c in (9 \<le> n \<and> n \<le> 13) \<or> n = 32 \<or> n = 133 \<or> n = 160)"

definition is_digit :: "char \<Rightarrow> bool" where
  "is_digit c \<longleftrightarrow> (let n = ccode c in 48 \<le> n \<and> n \<le> 57)"

definition char_toLower :: "char \<Rightarrow> char" where
  "char_toLower c = (let n = ccode c in
     if (65 \<le> n \<and> n \<le> 90) \<or> (192 \<le> n \<and> n \<le> 222 \<and> n \<noteq> 215) then char_of (n + 32) else c)"

definition char_toUpper :: "char \<Rightarrow> char" where
  "char_toUpper c = (let n = ccode c in
     if (97 \<le> n \<and> n \<le> 122) \<or> (224 \<le> n \<and> n \<le> 254 \<and> n \<noteq> 247) then char_of (n - 32) else c)"

definition toLower :: "qstring \<Rightarrow> qstring" where
  "toLower s = map char_toLower s"

definition toUpper :: "qstring \<Rightarrow> qstring" where
  "toUpper s = map char_toUpper s"

lemma char_toLower_idem [simp]: "char_toLower (char_toLower c) = char_toLower c"
proof -
  have "ccode c + 32 < 256" if "(65 \<le> ccode c \<and> ccode c \<le> 90) \<or> (192 \<le> ccode c \<and> ccode c \<le> 222 \<and> ccode c \<noteq> 215)"
    using that by auto
  then show ?thesis
    by (auto simp: char_toLower_def Let_def)
qed

lemma toLower_idem [simp]: "toLower (toLower s) = toLower s"
  by (simp add: toLower_def)

lemma toLower_Nil_iff [simp]: "toLower s = [] \<longleftrightarrow> s = []"
  by (simp add: toLower_def)

lemma toLower_append [simp]: "toLower (s @ t) = toLower s @ toLower t"
  by (simp add: toLower_def)

text \<open>The characters the text formats quote.\<close>

abbreviation bslash :: char where "bslash \<equiv> CHR 0x5C"
abbreviation dquote :: char where "dquote \<equiv> CHR 0x22"
abbreviation newline :: char where "newline \<equiv> CHR 0x0A"
abbreviation creturn :: char where "creturn \<equiv> CHR 0x0D"

section \<open>Searching, cutting and joining strings\<close>

text \<open>\<open>index_of p s from\<close> is QString::indexOf: the first position at or after \<open>from\<close> whose
  character satisfies \<open>p\<close>, \<open>None\<close> for the result -1.\<close>

fun index_from :: "(char \<Rightarrow> bool) \<Rightarrow> qstring \<Rightarrow> nat \<Rightarrow> nat option" where
  "index_from p [] i = None"
| "index_from p (c # cs) i = (if p c then Some i else index_from p cs (Suc i))"

definition index_of :: "(char \<Rightarrow> bool) \<Rightarrow> qstring \<Rightarrow> nat \<Rightarrow> nat option" where
  "index_of p s from = index_from p (drop from s) from"

definition mid :: "qstring \<Rightarrow> nat \<Rightarrow> nat \<Rightarrow> qstring" where
  "mid s pos n = take n (drop pos s)"

lemma index_from_append:
  "(\<forall>c\<in>set xs. \<not> p c) \<Longrightarrow> index_from p (xs @ ys) i = index_from p ys (i + length xs)"
  by (induction xs arbitrary: i) auto

lemma index_from_SomeD:
  "index_from p s i = Some k \<Longrightarrow> i \<le> k \<and> k < i + length s \<and> p (s ! (k - i)) \<and> (\<forall>j < k - i. \<not> p (s ! j))"
proof (induction p s i rule: index_from.induct)
  case (1 p i)
  then show ?case by simp
next
  case (2 p c cs i)
  show ?case
  proof (cases "p c")
    case True
    with "2.prems" show ?thesis by auto
  next
    case False
    with 2 have *: "Suc i \<le> k" "k < Suc i + length cs" "p (cs ! (k - Suc i))"
      "\<forall>j < k - Suc i. \<not> p (cs ! j)" by auto
    then have "k - i = Suc (k - Suc i)" by simp
    with * False show ?thesis
      by (auto simp: nth_Cons split: nat.split)
  qed
qed

lemma index_of_SomeD:
  assumes "index_of p s i = Some k"
  shows "i \<le> k" and "k < length s" and "p (s ! k)" and "\<forall>j. i \<le> j \<and> j < k \<longrightarrow> \<not> p (s ! j)"
proof -
  from assms have *: "i \<le> k \<and> k < i + length (drop i s) \<and> p (drop i s ! (k - i))
      \<and> (\<forall>j < k - i. \<not> p (drop i s ! j))"
    unfolding index_of_def by (rule index_from_SomeD)
  then show "i \<le> k" by simp
  from * show kl: "k < length s" by (simp split: nat_diff_split_asm)
  from * kl have "drop i s ! (k - i) = s ! (i + (k - i))" by (intro nth_drop) simp
  with * show "p (s ! k)" by (metis le_add_diff_inverse)
  show "\<forall>j. i \<le> j \<and> j < k \<longrightarrow> \<not> p (s ! j)"
  proof (intro allI impI)
    fix j assume j: "i \<le> j \<and> j < k"
    then have "j - i < k - i" by auto
    moreover have "\<forall>m < k - i. \<not> p (drop i s ! m)" using * by blast
    ultimately have "\<not> p (drop i s ! (j - i))" by blast
    moreover from j kl have "drop i s ! (j - i) = s ! (i + (j - i))" by (intro nth_drop) simp
    ultimately show "\<not> p (s ! j)" using j by (metis le_add_diff_inverse)
  qed
qed

lemma index_of_append:
  assumes "i = length pre" and "\<forall>c\<in>set xs. \<not> p c" and "p c"
  shows "index_of p (pre @ xs @ c # post) i = Some (i + length xs)"
  using assms by (simp add: index_of_def index_from_append)

lemma index_from_None: "(\<forall>c\<in>set s. \<not> p c) \<Longrightarrow> index_from p s i = None"
  by (induction s arbitrary: i) auto

lemma mid_append: "i = length pre \<Longrightarrow> n = length xs \<Longrightarrow> mid (pre @ xs @ post) i n = xs"
  by (simp add: mid_def)

text \<open>QString::split with a one-character separator, keeping empty parts, and QStringList::join.\<close>

fun split_on :: "char \<Rightarrow> qstring \<Rightarrow> qstring list" where
  "split_on d [] = [[]]"
| "split_on d (c # cs) =
     (if c = d then [] # split_on d cs
      else (case split_on d cs of [] \<Rightarrow> [[c]] | p # ps \<Rightarrow> (c # p) # ps))"

fun join_with :: "qstring \<Rightarrow> qstring list \<Rightarrow> qstring" where
  "join_with sep [] = []"
| "join_with sep [p] = p"
| "join_with sep (p # ps) = p @ sep @ join_with sep ps"

lemma split_on_not_Nil [simp]: "split_on d s \<noteq> []"
  by (induction s) (auto split: list.splits)

lemma split_on_no_sep: "\<forall>p\<in>set (split_on d s). d \<notin> set p"
proof (induction s)
  case Nil
  then show ?case by simp
next
  case (Cons c cs)
  then show ?case
    by (cases "split_on d cs") auto
qed

lemma split_on_append: "split_on d (s @ d # t) = split_on d s @ split_on d t"
proof (induction s)
  case Nil
  then show ?case by simp
next
  case (Cons c cs)
  then show ?case
    by (cases "split_on d cs") auto
qed

lemma join_split [simp]: "join_with [d] (split_on d s) = s"
proof (induction s)
  case Nil
  then show ?case by simp
next
  case (Cons c cs)
  then show ?case
    by (cases "split_on d cs" rule: remdups_adj.cases) auto
qed

lemma split_on_single: "d \<notin> set s \<Longrightarrow> split_on d s = [s]"
  by (induction s) auto

lemma join_append:
  "xs \<noteq> [] \<Longrightarrow> ys \<noteq> [] \<Longrightarrow> join_with sep (xs @ ys) = join_with sep xs @ sep @ join_with sep ys"
proof (induction xs)
  case Nil
  then show ?case by simp
next
  case (Cons x xs)
  then show ?case
    by (cases xs; cases ys) auto
qed

text \<open>QString::trimmed.\<close>

definition trimmed :: "qstring \<Rightarrow> qstring" where
  "trimmed s = rev (dropWhile is_space (rev (dropWhile is_space s)))"

lemma trimmed_no_space:
  assumes "s = [] \<or> (\<not> is_space (hd s) \<and> \<not> is_space (last s))"
  shows "trimmed s = s"
proof (cases "s = []")
  case True
  then show ?thesis by (simp add: trimmed_def)
next
  case False
  with assms have "dropWhile is_space s = s" "dropWhile is_space (rev s) = rev s"
    by (auto simp: dropWhile_eq_self_iff hd_rev)
  then show ?thesis by (simp add: trimmed_def)
qed

section \<open>Decimal numbers\<close>

text \<open>QString::number for integers and QString::toInt, toUInt, toLongLong, toULongLong: blanks at
  both ends are ignored, a sign may precede the digits, and a value outside the integer type is a
  failure.\<close>

definition digit :: "nat \<Rightarrow> char" where
  "digit n = char_of (48 + n)"

definition digit_val :: "char \<Rightarrow> nat" where
  "digit_val c = ccode c - 48"

fun show_nat :: "nat \<Rightarrow> qstring" where
  "show_nat n = (if n < 10 then [digit n] else show_nat (n div 10) @ [digit (n mod 10)])"

declare show_nat.simps [simp del]

definition digits_val :: "qstring \<Rightarrow> nat" where
  "digits_val s = foldl (\<lambda>a c. 10 * a + digit_val c) 0 s"

definition show_int :: "int \<Rightarrow> qstring" where
  "show_int z = (if z < 0 then CHR ''-'' # show_nat (nat (- z)) else show_nat (nat z))"

definition parse_nat :: "qstring \<Rightarrow> nat option" where
  "parse_nat s = (if s \<noteq> [] \<and> list_all is_digit s then Some (digits_val s) else None)"

definition parse_int :: "qstring \<Rightarrow> int option" where
  "parse_int s = (case trimmed s of
       [] \<Rightarrow> None
     | c # cs \<Rightarrow>
         (if c = CHR ''-'' then map_option (\<lambda>n. - int n) (parse_nat cs)
          else if c = CHR ''+'' then map_option int (parse_nat cs)
          else map_option int (parse_nat (c # cs))))"

definition parse_in :: "int \<Rightarrow> int \<Rightarrow> qstring \<Rightarrow> int option" where
  "parse_in lo hi s = (case parse_int s of None \<Rightarrow> None
     | Some z \<Rightarrow> if lo \<le> z \<and> z \<le> hi then Some z else None)"

lemma digit_is_digit [simp]: "n < 10 \<Longrightarrow> is_digit (digit n)"
  by (simp add: is_digit_def digit_def)

lemma digit_val_digit [simp]: "n < 10 \<Longrightarrow> digit_val (digit n) = n"
  by (simp add: digit_val_def digit_def)

lemma digits_val_snoc [simp]: "digits_val (s @ [c]) = 10 * digits_val s + digit_val c"
  by (simp add: digits_val_def)

lemma digits_val_Nil [simp]: "digits_val [] = 0"
  by (simp add: digits_val_def)

lemma digits_val_zeros: "digits_val (replicate k (digit 0) @ s) = digits_val s"
  by (induction k) (simp_all add: digits_val_def)

lemma show_nat_not_Nil [simp]: "show_nat n \<noteq> []"
  by (subst show_nat.simps) simp

lemma show_nat_digits: "list_all is_digit (show_nat n)"
proof (induction n rule: show_nat.induct)
  case (1 n)
  then show ?case by (subst show_nat.simps) simp
qed

lemma digits_val_show_nat [simp]: "digits_val (show_nat n) = n"
proof (induction n rule: show_nat.induct)
  case (1 n)
  show ?case
  proof (cases "n < 10")
    case True
    then show ?thesis
      by (subst show_nat.simps) (simp add: digits_val_def)
  next
    case False
    with 1 have "digits_val (show_nat (n div 10)) = n div 10" by simp
    with False show ?thesis by (subst show_nat.simps) simp
  qed
qed

lemma parse_nat_show_nat [simp]: "parse_nat (show_nat n) = Some n"
  using show_nat_digits by (simp add: parse_nat_def)

lemma length_show_nat: "n < 10 ^ Suc k \<Longrightarrow> length (show_nat n) \<le> Suc k"
proof (induction k arbitrary: n)
  case 0
  then show ?case by (subst show_nat.simps) simp
next
  case (Suc k)
  show ?case
  proof (cases "n < 10")
    case True
    then show ?thesis by (subst show_nat.simps) simp
  next
    case False
    from Suc.prems have "n div 10 < 10 ^ Suc k" by (simp add: less_mult_imp_div_less mult.commute)
    then have "length (show_nat (n div 10)) \<le> Suc k" by (rule Suc.IH)
    with False show ?thesis by (subst show_nat.simps) simp
  qed
qed

lemma is_digit_not_space: "is_digit c \<Longrightarrow> \<not> is_space c"
  by (auto simp: is_digit_def is_space_def Let_def)

lemma is_digit_not_sign: "is_digit c \<Longrightarrow> c \<noteq> CHR ''-'' \<and> c \<noteq> CHR ''+''"
  by (auto simp: is_digit_def Let_def ccode_def)

lemma trimmed_digits: "list_all is_digit s \<Longrightarrow> trimmed s = s"
  by (rule trimmed_no_space)
     (metis is_digit_not_space list_all_iff hd_in_set last_in_set)

lemma parse_int_digits:
  assumes "s \<noteq> []" and "list_all is_digit s"
  shows "parse_int s = Some (int (digits_val s))"
proof -
  from assms obtain c cs where s: "s = c # cs" by (cases s) auto
  with assms have "is_digit c" by simp
  then have "c \<noteq> CHR ''-''" "c \<noteq> CHR ''+''" using is_digit_not_sign by blast+
  with assms s show ?thesis
    by (simp add: parse_int_def trimmed_digits parse_nat_def)
qed

lemma parse_int_show_int [simp]: "parse_int (show_int z) = Some z"
proof (cases "z < 0")
  case False
  then show ?thesis
    using show_nat_digits by (simp add: show_int_def parse_int_digits)
next
  case True
  let ?s = "show_nat (nat (- z))"
  have "\<not> is_space (last ?s)"
    using show_nat_digits[of "nat (- z)"] by (auto simp: list_all_iff intro!: is_digit_not_space)
  then have "trimmed (CHR ''-'' # ?s) = CHR ''-'' # ?s"
    by (intro trimmed_no_space) (auto simp: is_space_def ccode_def)
  with True show ?thesis
    by (simp add: show_int_def parse_int_def)
qed

lemma parse_in_show_int: "lo \<le> z \<Longrightarrow> z \<le> hi \<Longrightarrow> parse_in lo hi (show_int z) = Some z"
  by (simp add: parse_in_def)

text \<open>\<open>pad k n\<close> is QString::arg with field width \<open>k\<close>, base 10 and fill character 0.\<close>

definition pad :: "nat \<Rightarrow> nat \<Rightarrow> qstring" where
  "pad k n = replicate (k - length (show_nat n)) (CHR ''0'') @ show_nat n"

lemma digit_0: "digit 0 = CHR ''0''"
  by (simp add: digit_def char_of_def bit_iff_odd)

lemma pad_digits: "list_all is_digit (pad k n)"
  using show_nat_digits[of n] by (auto simp: pad_def list_all_iff is_digit_def ccode_def)

lemma pad_not_Nil [simp]: "pad k n \<noteq> []"
  by (simp add: pad_def)

lemma digits_val_pad [simp]: "digits_val (pad k n) = n"
  using digits_val_zeros[of "k - length (show_nat n)" "show_nat n"]
  by (simp add: pad_def digit_0)

lemma parse_int_pad [simp]: "parse_int (pad k n) = Some (int n)"
  by (simp add: parse_int_digits pad_digits)

lemma length_pad: "n < 10 ^ Suc k \<Longrightarrow> length (pad (Suc k) n) = Suc k"
  using length_show_nat[of n k] by (simp add: pad_def)

section \<open>Values of QVariant\<close>

text \<open>A QTime is \<open>None\<close> when null, otherwise the milliseconds since midnight; a QDate is \<open>None\<close>
  when null, otherwise year, month and day; a QDateTime is a date and a time in UTC. A double is
  its 64-bit IEEE pattern.\<close>

type_synonym qtime = "int option"
type_synonym qdate = "(int \<times> int \<times> int) option"
type_synonym qdatetime = "qdate \<times> qtime"

datatype qvariant =
    VInvalid
  | VInt "32 word"
  | VLongLong "64 word"
  | VUInt "32 word"
  | VULongLong "64 word"
  | VBool bool
  | VDouble u64
  | VString qstring
  | VDate qdate
  | VTime qtime
  | VDateTime qdatetime
  | VByteArray qbytes
  | VUrl qurl

datatype vtype =
    TInvalid | TBool | TInt | TUInt | TLongLong | TULongLong | TDouble | TString | TByteArray
  | TDate | TTime | TDateTime | TUrl

fun variant_type :: "qvariant \<Rightarrow> vtype" where
  "variant_type VInvalid = TInvalid"
| "variant_type (VInt _) = TInt"
| "variant_type (VLongLong _) = TLongLong"
| "variant_type (VUInt _) = TUInt"
| "variant_type (VULongLong _) = TULongLong"
| "variant_type (VBool _) = TBool"
| "variant_type (VDouble _) = TDouble"
| "variant_type (VString _) = TString"
| "variant_type (VDate _) = TDate"
| "variant_type (VTime _) = TTime"
| "variant_type (VDateTime _) = TDateTime"
| "variant_type (VByteArray _) = TByteArray"
| "variant_type (VUrl _) = TUrl"

text \<open>The numbers of QVariant::Type.\<close>

fun vtype_code :: "vtype \<Rightarrow> nat" where
  "vtype_code TInvalid = 0" | "vtype_code TBool = 1" | "vtype_code TInt = 2"
| "vtype_code TUInt = 3" | "vtype_code TLongLong = 4" | "vtype_code TULongLong = 5"
| "vtype_code TDouble = 6" | "vtype_code TString = 10" | "vtype_code TByteArray = 12"
| "vtype_code TDate = 14" | "vtype_code TTime = 15" | "vtype_code TDateTime = 16"
| "vtype_code TUrl = 17"

text \<open>IEEE equality on the bit patterns: a NaN equals nothing, the two zeros are equal.\<close>

definition dbl_is_nan :: "u64 \<Rightarrow> bool" where
  "dbl_is_nan w \<longleftrightarrow> (unat w div 2 ^ 52) mod 2 ^ 11 = 2047 \<and> unat w mod 2 ^ 52 \<noteq> 0"

definition dbl_is_zero :: "u64 \<Rightarrow> bool" where
  "dbl_is_zero w \<longleftrightarrow> unat w mod 2 ^ 63 = 0"

definition dbl_eq :: "u64 \<Rightarrow> u64 \<Rightarrow> bool" where
  "dbl_eq a b \<longleftrightarrow> \<not> dbl_is_nan a \<and> \<not> dbl_is_nan b \<and> (a = b \<or> (dbl_is_zero a \<and> dbl_is_zero b))"

section \<open>QString::arg\<close>

text \<open>A place marker is a percent sign, an optional L and one or two digits. The text is cut into
  characters and markers, and every marker with the lowest number is replaced.\<close>

definition marker :: "qstring \<Rightarrow> (nat \<times> nat) option" where
  "marker s = (let l = (if take 1 s = ''L'' then 1 else 0); ds = takeWhile is_digit (take 2 (drop l s))
     in if ds = [] then None else Some (digits_val ds, l + length ds))"

datatype piece = Chr char | Marker nat qstring

function pieces :: "qstring \<Rightarrow> piece list" where
  "pieces [] = []"
| "pieces (c # cs) =
     (if c = CHR ''%'' then
        (case marker cs of
           None \<Rightarrow> Chr c # pieces cs
         | Some (n, k) \<Rightarrow> Marker n (c # take k cs) # pieces (drop k cs))
      else Chr c # pieces cs)"
  by pat_completeness auto
termination by (relation "measure length") auto

fun marker_number :: "piece \<Rightarrow> nat list" where
  "marker_number (Marker n t) = [n]"
| "marker_number (Chr c) = []"

fun fill :: "nat \<Rightarrow> qstring \<Rightarrow> piece \<Rightarrow> qstring" where
  "fill m a (Chr c) = [c]"
| "fill m a (Marker n t) = (if n = m then a else t)"

definition q_arg :: "qstring \<Rightarrow> qstring \<Rightarrow> qstring" where
  "q_arg s a = (case concat (map marker_number (pieces s)) of
       [] \<Rightarrow> s
     | n # ns \<Rightarrow> concat (map (fill (fold min ns n) a) (pieces s)))"

section \<open>Services of Qt\<close>

text \<open>
  What the sources take from Qt and this repository does not contain. Every definition that
  needs one of these takes a \<open>qt\<close> record; the laws a theorem relies on are named hypotheses
  (\<open>qt_url_ok\<close>, \<open>qt_utf8_ok\<close>, \<open>qt_base64_ok\<close>, \<open>qt_date_ok\<close>), each of them the documented
  behaviour of the Qt function. A double is its 64-bit IEEE pattern.
\<close>

record qt =
  url_fromEncoded :: "qstring \<Rightarrow> qurl"
  url_fromEncodedStrict :: "qstring \<Rightarrow> qurl"
  url_parse :: "qstring \<Rightarrow> qurl"
  url_isValid :: "qurl \<Rightarrow> bool"
  url_toString :: "qurl \<Rightarrow> qstring"
  str_toUtf8 :: "qstring \<Rightarrow> qbytes"
  str_fromUtf8 :: "qbytes \<Rightarrow> qstring"
  dbl_toString :: "u64 \<Rightarrow> qstring"
  dbl_parse :: "qstring \<Rightarrow> u64 option"
  toBase64 :: "qbytes \<Rightarrow> qstring"
  fromBase64 :: "qstring \<Rightarrow> qbytes"
  hash_string :: "qstring \<Rightarrow> u32"
  hash_url :: "qurl \<Rightarrow> u32"
  date_isValid :: "int \<Rightarrow> int \<Rightarrow> int \<Rightarrow> bool"
  variant_cross_eq :: "qvariant \<Rightarrow> qvariant \<Rightarrow> bool"
  variant_canConvert :: "qvariant \<Rightarrow> vtype \<Rightarrow> bool"
  variant_toInt :: "qvariant \<Rightarrow> 32 word \<times> bool"
  variant_toUInt :: "qvariant \<Rightarrow> 32 word \<times> bool"
  variant_toLongLong :: "qvariant \<Rightarrow> 64 word \<times> bool"
  variant_toULongLong :: "qvariant \<Rightarrow> 64 word \<times> bool"
  variant_toDouble :: "qvariant \<Rightarrow> u64 \<times> bool"
  variant_toBool :: "qvariant \<Rightarrow> bool"
  variant_toText :: "qvariant \<Rightarrow> qstring"
  variant_toByteArray :: "qvariant \<Rightarrow> qbytes"
  dt_toTime_t :: "qdatetime \<Rightarrow> u32"
  dt_fromTime_t :: "u32 \<Rightarrow> qdatetime"

text \<open>QUrl::fromEncoded inverts QUrl::toEncoded, in both parsing modes.\<close>

definition qt_url_ok :: "qt \<Rightarrow> bool" where
  "qt_url_ok q \<longleftrightarrow> (\<forall>u. url_fromEncoded q (encoded u) = u \<and> url_fromEncodedStrict q (encoded u) = u)"

text \<open>QString::fromUtf8 inverts QString::toUtf8.\<close>

definition qt_utf8_ok :: "qt \<Rightarrow> bool" where
  "qt_utf8_ok q \<longleftrightarrow> (\<forall>s. str_fromUtf8 q (str_toUtf8 q s) = s)"

text \<open>QByteArray::fromBase64 inverts QByteArray::toBase64.\<close>

definition qt_base64_ok :: "qt \<Rightarrow> bool" where
  "qt_base64_ok q \<longleftrightarrow> (\<forall>b. fromBase64 q (toBase64 q b) = b)"

text \<open>QDate::isValid accepts only calendar dates, and no year 0; \<open>int\<close> years.\<close>

definition qt_date_ok :: "qt \<Rightarrow> bool" where
  "qt_date_ok q \<longleftrightarrow> (\<forall>y m d. date_isValid q y m d \<longrightarrow>
     y \<noteq> 0 \<and> - (2 ^ 31) < y \<and> y < 2 ^ 31 \<and> 1 \<le> m \<and> m \<le> 12 \<and> 1 \<le> d \<and> d \<le> 31)"

text \<open>A concrete instance for the witnesses: URLs and strings are their own encodings, bytes and
  characters correspond one to one.\<close>

definition byte_of_char :: "char \<Rightarrow> byte" where
  "byte_of_char c = of_nat (of_char c)"

definition char_of_byte :: "byte \<Rightarrow> char" where
  "char_of_byte b = char_of (unat b)"

lemma char_of_byte_of_char [simp]: "char_of_byte (byte_of_char c) = c"
proof -
  have "(of_char c :: nat) < 256" by simp
  then have "unat (of_nat (of_char c) :: byte) = of_char c"
    by (simp add: unat_of_nat)
  then show ?thesis by (simp add: char_of_byte_def byte_of_char_def)
qed

lemma byte_of_char_of_byte [simp]: "byte_of_char (char_of_byte b) = b"
proof -
  have "unat b < 256" using unsigned_less[of b] by simp
  then show ?thesis by (simp add: char_of_byte_def byte_of_char_def)
qed

definition plain_qt :: qt where
  "plain_qt = \<lparr> url_fromEncoded = QUrl, url_fromEncodedStrict = QUrl,
     url_parse = QUrl, url_isValid = (\<lambda>u. \<not> url_isEmpty u), url_toString = encoded,
     str_toUtf8 = map byte_of_char, str_fromUtf8 = map char_of_byte,
     dbl_toString = (\<lambda>w. show_nat (unat w)),
     dbl_parse = (\<lambda>s. map_option of_nat (parse_nat s)),
     toBase64 = map char_of_byte, fromBase64 = map byte_of_char,
     hash_string = (\<lambda>s. foldl (\<lambda>h c. 31 * h + of_nat (of_char c)) 0 s),
     hash_url = (\<lambda>u. foldl (\<lambda>h c. 31 * h + of_nat (of_char c)) 0 (encoded u)),
     date_isValid = (\<lambda>y m d. y \<noteq> 0 \<and> \<bar>y\<bar> < 2 ^ 31 \<and> 1 \<le> m \<and> m \<le> 12 \<and> 1 \<le> d \<and> d \<le> 28),
     variant_cross_eq = (\<lambda>a b. False),
     variant_canConvert = (\<lambda>v t. variant_type v = t),
     variant_toInt = (\<lambda>v. case v of VInt i \<Rightarrow> (i, True) | _ \<Rightarrow> (0, False)),
     variant_toUInt = (\<lambda>v. case v of VUInt i \<Rightarrow> (i, True) | _ \<Rightarrow> (0, False)),
     variant_toLongLong = (\<lambda>v. case v of VLongLong i \<Rightarrow> (i, True) | _ \<Rightarrow> (0, False)),
     variant_toULongLong = (\<lambda>v. case v of VULongLong i \<Rightarrow> (i, True) | _ \<Rightarrow> (0, False)),
     variant_toDouble = (\<lambda>v. case v of VDouble i \<Rightarrow> (i, True) | _ \<Rightarrow> (0, False)),
     variant_toBool = (\<lambda>v. v = VBool True),
     variant_toText = (\<lambda>v. case v of VString s \<Rightarrow> s | _ \<Rightarrow> []),
     variant_toByteArray = (\<lambda>v. case v of VByteArray b \<Rightarrow> b | _ \<Rightarrow> []),
     dt_toTime_t = (\<lambda>dt. case dt of (_, Some t) \<Rightarrow> word_of_int (t div 1000) | _ \<Rightarrow> 0),
     dt_fromTime_t = (\<lambda>w. (Some (1970, 1, 1), Some (uint w mod 86400 * 1000))) \<rparr>"

lemma plain_qt_url_ok: "qt_url_ok plain_qt"
  by (simp add: qt_url_ok_def plain_qt_def)

lemma plain_qt_utf8_ok: "qt_utf8_ok plain_qt"
  by (simp add: qt_utf8_ok_def plain_qt_def o_def)

lemma plain_qt_base64_ok: "qt_base64_ok plain_qt"
  by (simp add: qt_base64_ok_def plain_qt_def o_def)

lemma plain_qt_date_ok: "qt_date_ok plain_qt"
  by (auto simp: qt_date_ok_def plain_qt_def)

lemmas plain_qt_ok = plain_qt_url_ok plain_qt_utf8_ok plain_qt_base64_ok plain_qt_date_ok

end
