(* ===== verification/Language_Tag.thy ===== *)
theory Language_Tag
  imports Soprano_Prelude "HOL-Library.Sublist"
begin

text \<open>
  RFC 4646 language tags (soprano/languagetag.cpp): the normalised tag, its six comparison
  operators, basic and extended filtering of RFC 4647, the priority lookup with its truncating
  fallback, and the syntax check. The tables of two- and three-letter codes that the constructor
  from QLocale enumerators reads are part of the model.
\<close>

section \<open>Data\<close>

text \<open>The private pointer \<open>d\<close> is null for the empty tag and holds the normalised string otherwise.\<close>

datatype language_tag = LanguageTag (ltag: "qstring option")

definition matchWildcard :: qstring where
  "matchWildcard = ''*''"

definition privateUse :: qstring where
  "privateUse = ''x''"

abbreviation langDelimiter :: char where
  "langDelimiter \<equiv> CHR ''-''"

definition normalizeString :: "qstring \<Rightarrow> qstring" where
  "normalizeString s = toLower s"

definition tag_of_string :: "qstring \<Rightarrow> language_tag" where
  "tag_of_string s = (let norm = normalizeString s in
     if norm \<noteq> [] then LanguageTag (Some norm) else LanguageTag None)"

definition tag_empty :: "language_tag \<Rightarrow> bool" where
  "tag_empty t \<longleftrightarrow> ltag t = None"

definition tag_toString :: "language_tag \<Rightarrow> qstring" where
  "tag_toString t = (case ltag t of Some n \<Rightarrow> n | None \<Rightarrow> [])"

definition subTags :: "language_tag \<Rightarrow> qstring list" where
  "subTags t = split_on langDelimiter (tag_toString t)"

text \<open>Every constructor normalises, so a tag is empty or a non-empty lower-case string.\<close>

definition tag_wf :: "language_tag \<Rightarrow> bool" where
  "tag_wf t \<longleftrightarrow> (case ltag t of None \<Rightarrow> True | Some n \<Rightarrow> n \<noteq> [] \<and> toLower n = n)"

lemma tag_of_string_wf [simp]: "tag_wf (tag_of_string s)"
  by (auto simp: tag_wf_def tag_of_string_def normalizeString_def Let_def)

lemma tag_of_string_toString [simp]: "tag_wf t \<Longrightarrow> tag_of_string (tag_toString t) = t"
  by (cases t) (auto simp: tag_wf_def tag_of_string_def normalizeString_def tag_toString_def
      split: option.splits)

lemma tag_toString_of_string [simp]: "tag_toString (tag_of_string s) = toLower s"
  by (cases "s = []") (auto simp: tag_toString_def tag_of_string_def normalizeString_def Let_def toLower_def)

lemma tag_toString_inject: "tag_wf a \<Longrightarrow> tag_wf b \<Longrightarrow> tag_toString a = tag_toString b \<longleftrightarrow> a = b"
  by (metis tag_of_string_toString)

lemma tag_empty_toString: "tag_wf t \<Longrightarrow> tag_empty t \<longleftrightarrow> tag_toString t = []"
  by (auto simp: tag_wf_def tag_empty_def tag_toString_def split: option.splits)

section \<open>Construction from QLocale\<close>

text \<open>Copied from the Qt source: one row per QLocale::Language and QLocale::Country enumerator. A
  row of the language table is three bytes, cut at its first NUL.\<close>

definition language_code_list :: "qstring list" where
  "language_code_list = [
    ''  '', ''  '', ''ab'', ''om'', ''aa'', ''af'', ''sq'', ''am'', ''ar'', ''hy'', ''as'',
    ''ay'', ''az'', ''ba'', ''eu'', ''bn'', ''dz'', ''bh'', ''bi'', ''br'', ''bg'', ''my'',
    ''be'', ''km'', ''ca'', ''zh'', ''co'', ''hr'', ''cs'', ''da'', ''nl'', ''en'', ''eo'',
    ''et'', ''fo'', ''fj'', ''fi'', ''fr'', ''fy'', ''gd'', ''gl'', ''ka'', ''de'', ''el'',
    ''kl'', ''gn'', ''gu'', ''ha'', ''he'', ''hi'', ''hu'', ''is'', ''id'', ''ia'', ''ie'',
    ''iu'', ''ik'', ''ga'', ''it'', ''ja'', ''jv'', ''kn'', ''ks'', ''kk'', ''rw'', ''ky'',
    ''ko'', ''ku'', ''rn'', ''lo'', ''la'', ''lv'', ''ln'', ''lt'', ''mk'', ''mg'', ''ms'',
    ''ml'', ''mt'', ''mi'', ''mr'', ''mo'', ''mn'', ''na'', ''ne'', ''nb'', ''oc'', ''or'',
    ''ps'', ''fa'', ''pl'', ''pt'', ''pa'', ''qu'', ''rm'', ''ro'', ''ru'', ''sm'', ''sg'',
    ''sa'', ''sr'', ''sh'', ''st'', ''tn'', ''sn'', ''sd'', ''si'', ''ss'', ''sk'', ''sl'',
    ''so'', ''es'', ''su'', ''sw'', ''sv'', ''tl'', ''tg'', ''ta'', ''tt'', ''te'', ''th'',
    ''bo'', ''ti'', ''to'', ''ts'', ''tr'', ''tk'', ''tw'', ''ug'', ''uk'', ''ur'', ''uz'',
    ''vi'', ''vo'', ''cy'', ''wo'', ''xh'', ''yi'', ''yo'', ''za'', ''zu'', ''nn'', ''bs'',
    ''dv'', ''gv'', ''kw'', ''ak'', ''kok'', ''gaa'', ''ig'', ''kam'', ''syr'', ''byn'', ''gez'',
    ''kfo'', ''sid'', ''cch'', ''tig'', ''kaj'', ''fur'', ''ve'', ''ee'', ''wa'', ''haw'',
    ''kcg'', ''ny'']"

definition country_code_list :: "qstring list" where
  "country_code_list = [
    ''  '', ''AF'', ''AL'', ''DZ'', ''AS'', ''AD'', ''AO'', ''AI'', ''AQ'', ''AG'', ''AR'',
    ''AM'', ''AW'', ''AU'', ''AT'', ''AZ'', ''BS'', ''BH'', ''BD'', ''BB'', ''BY'', ''BE'',
    ''BZ'', ''BJ'', ''BM'', ''BT'', ''BO'', ''BA'', ''BW'', ''BV'', ''BR'', ''IO'', ''BN'',
    ''BG'', ''BF'', ''BI'', ''KH'', ''CM'', ''CA'', ''CV'', ''KY'', ''CF'', ''TD'', ''CL'',
    ''CN'', ''CX'', ''CC'', ''CO'', ''KM'', ''CD'', ''CG'', ''CK'', ''CR'', ''CI'', ''HR'',
    ''CU'', ''CY'', ''CZ'', ''DK'', ''DJ'', ''DM'', ''DO'', ''TL'', ''EC'', ''EG'', ''SV'',
    ''GQ'', ''ER'', ''EE'', ''ET'', ''FK'', ''FO'', ''FJ'', ''FI'', ''FR'', ''FX'', ''GF'',
    ''PF'', ''TF'', ''GA'', ''GM'', ''GE'', ''DE'', ''GH'', ''GI'', ''GR'', ''GL'', ''GD'',
    ''GP'', ''GU'', ''GT'', ''GN'', ''GW'', ''GY'', ''HT'', ''HM'', ''HN'', ''HK'', ''HU'',
    ''IS'', ''IN'', ''ID'', ''IR'', ''IQ'', ''IE'', ''IL'', ''IT'', ''JM'', ''JP'', ''JO'',
    ''KZ'', ''KE'', ''KI'', ''KP'', ''KR'', ''KW'', ''KG'', ''LA'', ''LV'', ''LB'', ''LS'',
    ''LR'', ''LY'', ''LI'', ''LT'', ''LU'', ''MO'', ''MK'', ''MG'', ''MW'', ''MY'', ''MV'',
    ''ML'', ''MT'', ''MH'', ''MQ'', ''MR'', ''MU'', ''YT'', ''MX'', ''FM'', ''MD'', ''MC'',
    ''MN'', ''MS'', ''MA'', ''MZ'', ''MM'', ''NA'', ''NR'', ''NP'', ''NL'', ''AN'', ''NC'',
    ''NZ'', ''NI'', ''NE'', ''NG'', ''NU'', ''NF'', ''MP'', ''NO'', ''OM'', ''PK'', ''PW'',
    ''PS'', ''PA'', ''PG'', ''PY'', ''PE'', ''PH'', ''PN'', ''PL'', ''PT'', ''PR'', ''QA'',
    ''RE'', ''RO'', ''RU'', ''RW'', ''KN'', ''LC'', ''VC'', ''WS'', ''SM'', ''ST'', ''SA'',
    ''SN'', ''SC'', ''SL'', ''SG'', ''SK'', ''SI'', ''SB'', ''SO'', ''ZA'', ''GS'', ''ES'',
    ''LK'', ''SH'', ''PM'', ''SD'', ''SR'', ''SJ'', ''SZ'', ''SE'', ''CH'', ''SY'', ''TW'',
    ''TJ'', ''TZ'', ''TH'', ''TG'', ''TK'', ''TO'', ''TT'', ''TN'', ''TR'', ''TM'', ''TC'',
    ''TV'', ''UG'', ''UA'', ''AE'', ''GB'', ''US'', ''UM'', ''UY'', ''UZ'', ''VU'', ''VA'',
    ''VE'', ''VN'', ''VG'', ''VI'', ''WF'', ''EH'', ''YE'', ''YU'', ''ZM'', ''ZW'', ''CS'']"

text \<open>The guards of langToPtr and countryToPtr compare with Qt's last enumerator, not with the
  size of the table: \<open>None\<close> is a read outside of the array. A null pointer gives the empty
  string.\<close>

definition langToString :: "int \<Rightarrow> int \<Rightarrow> qstring option" where
  "langToString lastLanguage lang =
     (if lang < 0 \<or> lang > lastLanguage then Some []
      else if nat lang < length language_code_list then Some (language_code_list ! nat lang)
      else None)"

definition countryToString :: "int \<Rightarrow> int \<Rightarrow> qstring option" where
  "countryToString lastCountry country =
     (if country < 0 \<or> country > lastCountry then Some []
      else if nat country < length country_code_list then Some (country_code_list ! nat country)
      else None)"

text \<open>QLocale::AnyCountry is the enumerator 0.\<close>

definition tag_of_codes :: "int \<Rightarrow> int \<Rightarrow> int \<Rightarrow> int \<Rightarrow> language_tag option" where
  "tag_of_codes lastLanguage lastCountry lang country =
     (case langToString lastLanguage lang of
        None \<Rightarrow> None
      | Some langStr \<Rightarrow>
          if langStr \<noteq> [] \<and> langStr \<noteq> ''  '' then
            (case (if country \<noteq> 0 then countryToString lastCountry country else Some []) of
               None \<Rightarrow> None
             | Some countryStr \<Rightarrow>
                 Some (LanguageTag (Some (normalizeString
                   (if countryStr \<noteq> [] then langStr @ [langDelimiter] @ countryStr else langStr)))))
          else Some (LanguageTag None))"

text \<open>\<open>isC\<close>: the locale's language is QLocale::C; \<open>name\<close> is QLocale::name().\<close>

definition tag_of_locale :: "bool \<Rightarrow> qstring \<Rightarrow> language_tag" where
  "tag_of_locale isC name =
     (if isC then LanguageTag None
      else tag_of_string (map (\<lambda>c. if c = CHR ''_'' then langDelimiter else c) name))"

section \<open>Comparison operators\<close>

definition tag_eq :: "language_tag \<Rightarrow> language_tag \<Rightarrow> bool" where
  "tag_eq a b = (case (ltag a, ltag b) of
     (None, None) \<Rightarrow> True | (None, _) \<Rightarrow> False | (_, None) \<Rightarrow> False | (Some x, Some y) \<Rightarrow> x = y)"

definition tag_neq :: "language_tag \<Rightarrow> language_tag \<Rightarrow> bool" where
  "tag_neq a b = (case (ltag a, ltag b) of
     (None, None) \<Rightarrow> False | (None, _) \<Rightarrow> True | (_, None) \<Rightarrow> True | (Some x, Some y) \<Rightarrow> x \<noteq> y)"

definition tag_lt :: "language_tag \<Rightarrow> language_tag \<Rightarrow> bool" where
  "tag_lt a b = (case (ltag a, ltag b) of
     (None, None) \<Rightarrow> False | (None, _) \<Rightarrow> True | (_, None) \<Rightarrow> False | (Some x, Some y) \<Rightarrow> x < y)"

definition tag_le :: "language_tag \<Rightarrow> language_tag \<Rightarrow> bool" where
  "tag_le a b = (case (ltag a, ltag b) of
     (None, None) \<Rightarrow> True | (None, _) \<Rightarrow> True | (_, None) \<Rightarrow> False | (Some x, Some y) \<Rightarrow> x \<le> y)"

definition tag_gt :: "language_tag \<Rightarrow> language_tag \<Rightarrow> bool" where
  "tag_gt a b = (case (ltag a, ltag b) of
     (None, None) \<Rightarrow> False | (None, _) \<Rightarrow> False | (_, None) \<Rightarrow> True | (Some x, Some y) \<Rightarrow> x > y)"

definition tag_ge :: "language_tag \<Rightarrow> language_tag \<Rightarrow> bool" where
  "tag_ge a b = (case (ltag a, ltag b) of
     (None, None) \<Rightarrow> True | (None, _) \<Rightarrow> False | (_, None) \<Rightarrow> True | (Some x, Some y) \<Rightarrow> x \<ge> y)"

lemmas tag_cmp_defs = tag_eq_def tag_neq_def tag_lt_def tag_le_def tag_gt_def tag_ge_def

text \<open>The operators form a linear order, so the library's automation for orders applies to tags.\<close>

instantiation language_tag :: linorder
begin

definition less_eq_language_tag :: "language_tag \<Rightarrow> language_tag \<Rightarrow> bool" where
  "less_eq_language_tag a b = tag_le a b"

definition less_language_tag :: "language_tag \<Rightarrow> language_tag \<Rightarrow> bool" where
  "less_language_tag a b = tag_lt a b"

instance
  by standard
     (auto simp: less_eq_language_tag_def less_language_tag_def tag_lt_def tag_le_def
        language_tag.expand split: option.splits)

end

lemma tag_eq_iff [simp]: "tag_eq a b \<longleftrightarrow> a = b"
  by (cases a; cases b) (auto simp: tag_eq_def split: option.splits)

section \<open>Filtering (RFC 4647 section 3.3)\<close>

text \<open>Basic filtering on the strings.\<close>

definition matchBasic_str :: "qstring \<Rightarrow> qstring \<Rightarrow> bool" where
  "matchBasic_str tag rng =
     (if rng = matchWildcard then True
      else if length rng > length tag then False
      else if tag = rng then True
      else if length rng = length tag then False
      else take (length rng) tag = rng \<and> tag ! length rng = langDelimiter)"

text \<open>Basic filtering on the subtag lists, as the lookup uses it; the loop compares position by
  position.\<close>

fun subtags_agree :: "qstring list \<Rightarrow> qstring list \<Rightarrow> bool" where
  "subtags_agree tagSub [] = True"
| "subtags_agree [] (r # rs) = False"
| "subtags_agree (t # ts) (r # rs) = (if t \<noteq> r then False else subtags_agree ts rs)"

definition matchBasic_sub :: "qstring list \<Rightarrow> qstring list \<Rightarrow> bool" where
  "matchBasic_sub tagSub rangeSub =
     (if rangeSub = [] then False
      else if length rangeSub = 1 \<and> hd rangeSub = matchWildcard then True
      else if length rangeSub > length tagSub then False
      else subtags_agree tagSub rangeSub)"

text \<open>Extended filtering: \<open>ext_loop\<close> is the loop of steps 3A to 3E over the subtags after the
  first.\<close>

fun ext_loop :: "qstring list \<Rightarrow> qstring list \<Rightarrow> bool" where
  "ext_loop ts [] = True"
| "ext_loop ts (r # rs) =
     (if r = matchWildcard then ext_loop ts rs
      else (case ts of
              [] \<Rightarrow> False
            | t # ts' \<Rightarrow>
                if t = r then ext_loop ts' rs
                else if length t = 1 then False
                else ext_loop ts' (r # rs)))"

definition matchExtended_sub :: "qstring list \<Rightarrow> qstring list \<Rightarrow> bool" where
  "matchExtended_sub tagSub rangeSub =
     (if hd tagSub \<noteq> hd rangeSub \<and> hd rangeSub \<noteq> matchWildcard then False
      else ext_loop (tl tagSub) (tl rangeSub))"

definition matchExtended_tag :: "language_tag \<Rightarrow> language_tag \<Rightarrow> bool" where
  "matchExtended_tag tag rng =
     (if tag_eq tag rng then True else matchExtended_sub (subTags tag) (subTags rng))"

datatype match_filter = MatchFilterBasic | MatchFilterExtended

definition tag_matches :: "language_tag \<Rightarrow> language_tag \<Rightarrow> match_filter \<Rightarrow> bool" where
  "tag_matches tag rng scheme = (case scheme of
       MatchFilterBasic \<Rightarrow> matchBasic_str (tag_toString tag) (tag_toString rng)
     | MatchFilterExtended \<Rightarrow> matchExtended_tag tag rng)"


text \<open>The declarative reading of RFC 4647 section 3.3.2 after the first subtag: the non-wildcard
  subtags of the range occur in the tag in order, and only subtags longer than one character are
  skipped.\<close>

inductive ext_rel :: "qstring list \<Rightarrow> qstring list \<Rightarrow> bool" where
  finished: "ext_rel ts []"
| wildcard: "ext_rel ts rs \<Longrightarrow> ext_rel ts (matchWildcard # rs)"
| take_subtag: "ext_rel ts rs \<Longrightarrow> r \<noteq> matchWildcard \<Longrightarrow> ext_rel (r # ts) (r # rs)"
| skip_subtag: "ext_rel ts rs \<Longrightarrow> length t \<noteq> 1 \<Longrightarrow> ext_rel (t # ts) rs"

inductive_cases ext_rel_NilE: "ext_rel [] (r # rs)"
inductive_cases ext_rel_ConsE: "ext_rel (t # ts) (r # rs)"

lemma ext_rel_drop_wildcard: "ext_rel ts rs' \<Longrightarrow> rs' = matchWildcard # rs \<Longrightarrow> ext_rel ts rs"
  by (induction arbitrary: rs rule: ext_rel.induct) (auto intro: ext_rel.intros)

lemma ext_rel_drop_long:
  "ext_rel ts rs' \<Longrightarrow> rs' = r # rs \<Longrightarrow> length r \<noteq> 1 \<Longrightarrow> ext_rel ts rs"
proof (induction arbitrary: r rs rule: ext_rel.induct)
  case (finished ts)
  then show ?case by simp
next
  case (wildcard ts rs')
  then show ?case by (simp add: matchWildcard_def)
next
  case (take_subtag ts rs' r')
  then show ?case by (simp add: ext_rel.skip_subtag)
next
  case (skip_subtag ts rs' t)
  then show ?case by (simp add: ext_rel.skip_subtag)
qed

lemma ext_loop_sound: "ext_loop ts rs \<Longrightarrow> ext_rel ts rs"
proof (induction ts rs rule: ext_loop.induct)
  case (1 ts)
  show ?case by (rule ext_rel.finished)
next
  case (2 ts r rs)
  show ?case
  proof (cases "r = matchWildcard")
    case True
    with 2 show ?thesis by (simp add: ext_rel.wildcard)
  next
    case False
    with "2.prems" obtain t ts' where ts: "ts = t # ts'" by (cases ts) auto
    with 2 False show ?thesis
      by (cases "t = r") (simp_all add: ext_rel.take_subtag ext_rel.skip_subtag split: if_splits)
  qed
qed

lemma ext_loop_complete: "ext_rel ts rs \<Longrightarrow> ext_loop ts rs"
proof (induction ts rs rule: ext_loop.induct)
  case (1 ts)
  then show ?case by simp
next
  case (2 ts r rs)
  show ?case
  proof (cases "r = matchWildcard")
    case True
    with 2 show ?thesis by (auto dest: ext_rel_drop_wildcard)
  next
    case wild: False
    show ?thesis
    proof (cases ts)
      case Nil
      with 2 wild show ?thesis by (auto elim: ext_rel_NilE)
    next
      case (Cons t ts')
      have "ext_rel ts' rs" if "t = r"
        using "2.prems" that wild unfolding Cons
        by (auto elim!: ext_rel_ConsE dest: ext_rel_drop_long)
      moreover have "length t \<noteq> 1 \<and> ext_rel ts' (r # rs)" if "t \<noteq> r"
        using "2.prems" that wild unfolding Cons by (auto elim!: ext_rel_ConsE)
      ultimately show ?thesis
        using 2 wild Cons by auto
    qed
  qed
qed

lemma ext_rel_subseq: "ext_rel ts rs \<Longrightarrow> subseq (filter (\<lambda>r. r \<noteq> matchWildcard) rs) ts"
  by (induction rule: ext_rel.induct) auto

lemma subtags_agree_prefix: "subtags_agree ts rs \<longleftrightarrow> prefix rs ts"
  by (induction ts rs rule: subtags_agree.induct) auto

section \<open>Lookup (RFC 4647 section 3.4)\<close>

definition sub_match :: "match_filter \<Rightarrow> qstring list \<Rightarrow> qstring list \<Rightarrow> bool" where
  "sub_match scheme choiceSub tagSub = (case scheme of
       MatchFilterBasic \<Rightarrow> matchBasic_sub choiceSub tagSub
     | MatchFilterExtended \<Rightarrow> matchExtended_sub choiceSub tagSub)"

text \<open>A choice that is empty or the wildcard never matches: its subtag list is replaced by the
  empty list, which the inner loop skips.\<close>

definition split_choice :: "language_tag \<Rightarrow> qstring list" where
  "split_choice choice =
     (if tag_toString choice = [] \<or> tag_toString choice = matchWildcard then []
      else subTags choice)"

fun first_choice :: "match_filter \<Rightarrow> qstring list list \<Rightarrow> qstring list \<Rightarrow> nat \<Rightarrow> nat option" where
  "first_choice scheme [] tagSub i = None"
| "first_choice scheme (c # cs) tagSub i =
     (if c = [] then first_choice scheme cs tagSub (Suc i)
      else if sub_match scheme c tagSub then Some i
      else first_choice scheme cs tagSub (Suc i))"

text \<open>The truncation removes the last subtag, and single-character subtags that become last.\<close>

function truncate_subtags :: "qstring list \<Rightarrow> qstring list" where
  "truncate_subtags tagSub = (let u = butlast tagSub in
     if u \<noteq> [] \<and> length (last u) = 1 then truncate_subtags u else u)"
  by pat_completeness auto
termination
proof (relation "measure length", goal_cases)
  case 1
  show ?case by simp
next
  case (2 tagSub u)
  then show ?case by (cases tagSub) auto
qed

declare truncate_subtags.simps [simp del]

lemma truncate_shorter: "tagSub \<noteq> [] \<Longrightarrow> length (truncate_subtags tagSub) < length tagSub"
proof (induction tagSub rule: truncate_subtags.induct)
  case (1 tagSub)
  have shorter: "length (butlast tagSub) < length tagSub"
    using "1.prems" by simp
  show ?case
  proof (cases "butlast tagSub \<noteq> [] \<and> length (last (butlast tagSub)) = 1")
    case True
    with 1 have "length (truncate_subtags (butlast tagSub)) < length (butlast tagSub)" by simp
    with True shorter show ?thesis
      by (subst truncate_subtags.simps) (simp add: Let_def)
  next
    case False
    with shorter show ?thesis
      by (subst truncate_subtags.simps) (auto simp: Let_def)
  qed
qed

lemma truncate_Nil [simp]: "truncate_subtags [] = []"
  by (subst truncate_subtags.simps) simp

lemma truncate_prefix: "prefix (truncate_subtags tagSub) tagSub"
proof (induction tagSub rule: truncate_subtags.induct)
  case (1 tagSub)
  have "prefix (butlast tagSub) tagSub" by (rule prefixeq_butlast)
  with 1 show ?case
    by (subst truncate_subtags.simps) (auto simp: Let_def dest: prefix_order.trans)
qed

lemma truncate_last: "truncate_subtags tagSub \<noteq> [] \<Longrightarrow> length (last (truncate_subtags tagSub)) \<noteq> 1"
proof (induction tagSub rule: truncate_subtags.induct)
  case (1 tagSub)
  show ?case
  proof (cases "butlast tagSub \<noteq> [] \<and> length (last (butlast tagSub)) = 1")
    case True
    then have "truncate_subtags tagSub = truncate_subtags (butlast tagSub)"
      by (subst truncate_subtags.simps) (simp add: Let_def)
    with 1 True show ?thesis by simp
  next
    case False
    then have "truncate_subtags tagSub = butlast tagSub"
      by (subst truncate_subtags.simps) (auto simp: Let_def)
    with 1 False show ?thesis by auto
  qed
qed

text \<open>The do-while loop over one priority tag.\<close>

function lookup_tag :: "match_filter \<Rightarrow> bool \<Rightarrow> qstring list list \<Rightarrow> qstring list \<Rightarrow> nat option" where
  "lookup_tag scheme noFallback choices tagSub =
     (case first_choice scheme choices tagSub 0 of
        Some i \<Rightarrow> Some i
      | None \<Rightarrow>
          if noFallback then None
          else if truncate_subtags tagSub = [] then None
          else lookup_tag scheme noFallback choices (truncate_subtags tagSub))"
  by pat_completeness auto
termination
proof (relation "measure (\<lambda>(_, _, _, tagSub). length tagSub)", goal_cases)
  case 1
  show ?case by simp
next
  case (2 scheme noFallback choices tagSub)
  then have "tagSub \<noteq> []" by auto
  then show ?case by (simp add: truncate_shorter)
qed

declare lookup_tag.simps [simp del]

fun lookup_loop :: "match_filter \<Rightarrow> bool \<Rightarrow> qstring list list \<Rightarrow> language_tag list \<Rightarrow> nat option" where
  "lookup_loop scheme noFallback choices [] = None"
| "lookup_loop scheme noFallback choices (tag # tags) =
     (case lookup_tag scheme noFallback choices (subTags tag) of
        Some i \<Rightarrow> Some i
      | None \<Rightarrow> lookup_loop scheme noFallback choices tags)"

definition tag_lookup :: "language_tag list \<Rightarrow> language_tag list \<Rightarrow> bool \<Rightarrow> match_filter \<Rightarrow> int" where
  "tag_lookup choices priority noFallback scheme =
     (if choices = [] then -1
      else (case lookup_loop scheme noFallback (map split_choice choices) priority of
              Some i \<Rightarrow> int i | None \<Rightarrow> -1))"

definition tag_lookup1 :: "language_tag list \<Rightarrow> language_tag \<Rightarrow> bool \<Rightarrow> match_filter \<Rightarrow> int" where
  "tag_lookup1 choices priority noFallback scheme = tag_lookup choices [priority] noFallback scheme"

section \<open>Syntax check and presentation\<close>

definition is_alpha :: "char \<Rightarrow> bool" where
  "is_alpha c \<longleftrightarrow> (CHR ''A'' \<le> c \<and> c \<le> CHR ''Z'') \<or> (CHR ''a'' \<le> c \<and> c \<le> CHR ''z'')"

definition is_alnum :: "char \<Rightarrow> bool" where
  "is_alnum c \<longleftrightarrow> is_alpha c \<or> (CHR ''0'' \<le> c \<and> c \<le> CHR ''9'')"

text \<open>The loop of isValid over the subtags: \<open>s\<close> is the position, \<open>priv\<close> the privateUse flag.\<close>

fun valid_loop :: "nat \<Rightarrow> bool \<Rightarrow> qstring list \<Rightarrow> bool" where
  "valid_loop s priv [] = True"
| "valid_loop s priv (t # ts) =
     (if t = [] \<or> length t > 8 then False
      else if \<not> list_all (if s = 0 then is_alpha else is_alnum) t then False
      else if \<not> priv then
        (if length t = 1 \<and> ts = [] then False
         else valid_loop (Suc s) (t = privateUse) ts)
      else valid_loop (Suc s) True ts)"

definition tag_isValid :: "language_tag \<Rightarrow> bool" where
  "tag_isValid t = (if subTags t = [] then False else valid_loop 0 False (subTags t))"

definition pretty_subtag :: "qstring \<Rightarrow> qstring" where
  "pretty_subtag p =
     (if length p = 2 then toUpper p
      else if length p = 4 then char_toUpper (hd (toLower p)) # tl (toLower p)
      else toLower p)"

definition tag_toPrettyString :: "language_tag \<Rightarrow> qstring" where
  "tag_toPrettyString t = (case subTags t of [] \<Rightarrow> []
     | p # ps \<Rightarrow> join_with [langDelimiter] (toLower p # map pretty_subtag ps))"

text \<open>The locale name that toLocale passes to the QLocale constructor; \<open>None\<close> for the wildcard,
  where the default locale is returned.\<close>

fun locale_country :: "qstring list \<Rightarrow> qstring option" where
  "locale_country [] = None"
| "locale_country (p # ps) =
     (if p = privateUse then None
      else if length p = 2 then Some (toUpper p)
      else locale_country ps)"

definition tag_toLocale :: "language_tag \<Rightarrow> qstring option" where
  "tag_toLocale t =
     (if tag_toString t = matchWildcard then None
      else (case subTags t of [] \<Rightarrow> Some []
        | p # ps \<Rightarrow> (case locale_country ps of
             None \<Rightarrow> Some p | Some country \<Rightarrow> Some (p @ ''_'' @ country))))"


section \<open>Correctness of filtering\<close>

lemma split_prefix_iff:
  "prefix (split_on d rng) (split_on d tag) \<longleftrightarrow> tag = rng \<or> (\<exists>rest. tag = rng @ d # rest)"
proof
  assume "prefix (split_on d rng) (split_on d tag)"
  then obtain xs where xs: "split_on d tag = split_on d rng @ xs" by (auto simp: prefix_def)
  show "tag = rng \<or> (\<exists>rest. tag = rng @ d # rest)"
  proof (cases "xs = []")
    case True
    with xs show ?thesis by (metis append_Nil2 join_split)
  next
    case False
    have "tag = join_with [d] (split_on d rng @ xs)" using xs by (metis join_split)
    also have "\<dots> = rng @ d # join_with [d] xs" using False by (simp add: join_append)
    finally show ?thesis by blast
  qed
next
  assume "tag = rng \<or> (\<exists>rest. tag = rng @ d # rest)"
  then show "prefix (split_on d rng) (split_on d tag)"
    by (auto simp: split_on_append prefix_def)
qed

lemma split_is_wildcard:
  "length (split_on langDelimiter rng) = 1 \<and> hd (split_on langDelimiter rng) = matchWildcard
     \<longleftrightarrow> rng = matchWildcard"
proof
  assume *: "length (split_on langDelimiter rng) = 1 \<and> hd (split_on langDelimiter rng) = matchWildcard"
  then have "split_on langDelimiter rng = [matchWildcard]"
    by (cases "split_on langDelimiter rng") auto
  then show "rng = matchWildcard" by (metis join_split join_with.simps(2))
next
  assume "rng = matchWildcard"
  then show "length (split_on langDelimiter rng) = 1 \<and> hd (split_on langDelimiter rng) = matchWildcard"
    by (simp add: matchWildcard_def)
qed

lemma matchBasic_str_iff:
  "matchBasic_str tag rng \<longleftrightarrow>
     rng = matchWildcard \<or> tag = rng \<or> (\<exists>rest. tag = rng @ langDelimiter # rest)"
proof -
  have fwd: "\<exists>rest. tag = rng @ langDelimiter # rest"
    if "length rng < length tag" "take (length rng) tag = rng" "tag ! length rng = langDelimiter"
    using that by (metis id_take_nth_drop)
  have bwd: "length rng < length tag \<and> take (length rng) tag = rng \<and> tag ! length rng = langDelimiter"
    if "\<exists>rest. tag = rng @ langDelimiter # rest"
    using that by auto
  show ?thesis
  proof (cases "rng = matchWildcard \<or> tag = rng")
    case True
    then show ?thesis by (auto simp: matchBasic_str_def)
  next
    case False
    then have "matchBasic_str tag rng \<longleftrightarrow>
        length rng < length tag \<and> take (length rng) tag = rng \<and> tag ! length rng = langDelimiter"
      unfolding matchBasic_str_def by auto
    with False fwd bwd show ?thesis by blast
  qed
qed

lemma matchBasic_sub_iff:
  "rs \<noteq> [] \<Longrightarrow> matchBasic_sub ts rs \<longleftrightarrow> (length rs = 1 \<and> hd rs = matchWildcard) \<or> prefix rs ts"
  by (auto simp: matchBasic_sub_def subtags_agree_prefix dest: prefix_length_le)

text \<open>the two overloads of matchBasic agree. Filtering a tag string by a range string
  gives the same answer as filtering the tag's subtag list by the range's subtag list, for every
  tag and range, the wildcard and malformed strings included.\<close>

theorem matchBasic_overloads_agree:
  "matchBasic_str tag rng =
     matchBasic_sub (split_on langDelimiter tag) (split_on langDelimiter rng)"
proof -
  have "matchBasic_sub (split_on langDelimiter tag) (split_on langDelimiter rng) \<longleftrightarrow>
      rng = matchWildcard \<or> prefix (split_on langDelimiter rng) (split_on langDelimiter tag)"
    using matchBasic_sub_iff split_is_wildcard by simp
  then show ?thesis by (simp only: split_prefix_iff matchBasic_str_iff)
qed

text \<open>Claim C38: extended filtering decides the relation of RFC 4647 section 3.3.2. A tag matches a
  range exactly when they are equal, or the first subtags agree (or the range starts with the
  wildcard) and the rest of the range can be found in order in the rest of the tag, skipping
  only subtags that are not singletons; the greedy loop never misses a match.\<close>

theorem matchExtended_decides_rfc4647:
  "tag_matches tag rng MatchFilterExtended \<longleftrightarrow>
     tag = rng \<or>
     ((hd (subTags rng) = matchWildcard \<or> hd (subTags rng) = hd (subTags tag)) \<and>
      ext_rel (tl (subTags tag)) (tl (subTags rng)))"
  by (auto simp: tag_matches_def matchExtended_tag_def matchExtended_sub_def
      intro: ext_loop_sound ext_loop_complete)

lemma ext_rel_prefix: "prefix rs ts \<Longrightarrow> matchWildcard \<notin> set ts \<Longrightarrow> ext_rel ts rs"
proof (induction rs arbitrary: ts)
  case Nil
  show ?case by (rule ext_rel.finished)
next
  case (Cons r rs)
  then show ?case
    by (auto simp: prefix_def Cons_eq_append_conv intro!: ext_rel.take_subtag)
qed

text \<open>extended filtering accepts whatever basic filtering accepts, for tags without a
  wildcard subtag.\<close>

theorem basic_implies_extended:
  assumes "tag_matches tag rng MatchFilterBasic" and "matchWildcard \<notin> set (subTags tag)"
  shows "tag_matches tag rng MatchFilterExtended"
proof -
  from assms(1) have "matchBasic_sub (subTags tag) (subTags rng)"
    by (simp add: tag_matches_def matchBasic_overloads_agree subTags_def)
  then have "(length (subTags rng) = 1 \<and> hd (subTags rng) = matchWildcard) \<or> prefix (subTags rng) (subTags tag)"
    by (simp add: matchBasic_sub_iff subTags_def)
  then show ?thesis
  proof
    assume "length (subTags rng) = 1 \<and> hd (subTags rng) = matchWildcard"
    then have "tl (subTags rng) = []" by (cases "subTags rng") auto
    with \<open>length (subTags rng) = 1 \<and> hd (subTags rng) = matchWildcard\<close> show ?thesis
      by (simp add: matchExtended_decides_rfc4647 ext_rel.finished)
  next
    assume pre: "prefix (subTags rng) (subTags tag)"
    have "subTags rng \<noteq> []" by (simp add: subTags_def)
    with pre have "hd (subTags rng) = hd (subTags tag)" "prefix (tl (subTags rng)) (tl (subTags tag))"
      by (auto simp: prefix_def neq_Nil_conv)
    moreover from assms(2) have "matchWildcard \<notin> set (tl (subTags tag))"
      by (metis list.set_sel(2) list.sel(2))
    ultimately show ?thesis
      by (simp add: matchExtended_decides_rfc4647 ext_rel_prefix)
  qed
qed

theorem basic_implies_extended_witness:
  "tag_matches (tag_of_string ''de-DE-1996'') (tag_of_string ''de-DE'') MatchFilterExtended"
  by (rule basic_implies_extended) code_simp+


section \<open>Correctness of the lookup\<close>

text \<open>The ranges that one priority tag stands for, in the order they are tried.\<close>

function fallbacks :: "qstring list \<Rightarrow> qstring list list" where
  "fallbacks tagSub = tagSub #
     (if truncate_subtags tagSub = [] then [] else fallbacks (truncate_subtags tagSub))"
  by pat_completeness auto
termination
proof (relation "measure length", goal_cases)
  case 1
  show ?case by simp
next
  case (2 tagSub)
  then have "tagSub \<noteq> []" by auto
  then show ?case by (simp add: truncate_shorter)
qed

declare fallbacks.simps [simp del]

definition tried_ranges :: "bool \<Rightarrow> language_tag list \<Rightarrow> qstring list list" where
  "tried_ranges noFallback priority =
     concat (map (\<lambda>tag. if noFallback then [subTags tag] else fallbacks (subTags tag)) priority)"

definition eligible :: "match_filter \<Rightarrow> language_tag list \<Rightarrow> qstring list \<Rightarrow> nat \<Rightarrow> bool" where
  "eligible scheme choices rng i \<longleftrightarrow>
     i < length choices \<and> split_choice (choices ! i) \<noteq> [] \<and>
     sub_match scheme (split_choice (choices ! i)) rng"

text \<open>Every fallback is a non-empty prefix of the tag, and no truncated range ends in a singleton.\<close>

lemma fallbacks_prefix: "tagSub \<noteq> [] \<Longrightarrow> r \<in> set (fallbacks tagSub) \<Longrightarrow> prefix r tagSub \<and> r \<noteq> []"
proof (induction tagSub rule: fallbacks.induct)
  case (1 tagSub)
  show ?case
  proof (cases "r = tagSub")
    case True
    with 1 show ?thesis by simp
  next
    case False
    with "1.prems" have ne: "truncate_subtags tagSub \<noteq> []"
      and r: "r \<in> set (fallbacks (truncate_subtags tagSub))"
      by (subst (asm) fallbacks.simps, simp split: if_splits)+
    from "1.IH"[OF ne ne r] truncate_prefix[of tagSub] show ?thesis
      by (auto dest: prefix_order.trans)
  qed
qed

lemma fallbacks_last:
  "r \<in> set (fallbacks tagSub) \<Longrightarrow> r = tagSub \<or> length (last r) \<noteq> 1"
proof (induction tagSub rule: fallbacks.induct)
  case (1 tagSub)
  show ?case
  proof (cases "r = tagSub")
    case False
    with "1.prems" have ne: "truncate_subtags tagSub \<noteq> []"
      and r: "r \<in> set (fallbacks (truncate_subtags tagSub))"
      by (subst (asm) fallbacks.simps, simp split: if_splits)+
    from "1.IH"[OF ne r] truncate_last[OF ne] show ?thesis by blast
  qed simp
qed

lemma find_append:
  "List.find P (xs @ ys) = (case List.find P xs of Some x \<Rightarrow> Some x | None \<Rightarrow> List.find P ys)"
  by (induction xs) auto

text \<open>\<open>first_hit\<close> is what the loops compute: the first range in the list of tried ranges for which
  some choice matches, with the first such choice.\<close>

fun first_hit :: "match_filter \<Rightarrow> qstring list list \<Rightarrow> qstring list list \<Rightarrow> nat option" where
  "first_hit scheme choices [] = None"
| "first_hit scheme choices (r # rs) =
     (case first_choice scheme choices r 0 of Some i \<Rightarrow> Some i | None \<Rightarrow> first_hit scheme choices rs)"

lemma first_hit_append:
  "first_hit scheme choices (xs @ ys) =
     (case first_hit scheme choices xs of Some i \<Rightarrow> Some i | None \<Rightarrow> first_hit scheme choices ys)"
  by (induction xs) (auto split: option.splits)

lemma lookup_tag_first_hit:
  "lookup_tag scheme noFallback choices tagSub =
     first_hit scheme choices (if noFallback then [tagSub] else fallbacks tagSub)"
proof (induction scheme noFallback choices tagSub rule: lookup_tag.induct)
  case (1 scheme noFallback choices tagSub)
  show ?case
  proof (cases "first_choice scheme choices tagSub 0")
    case (Some i)
    then show ?thesis
      by (simp add: lookup_tag.simps[of _ _ _ tagSub] fallbacks.simps[of tagSub])
  next
    case None
    with 1 show ?thesis
      by (auto simp: lookup_tag.simps[of _ _ _ tagSub] fallbacks.simps[of tagSub])
  qed
qed

lemma lookup_loop_first_hit:
  "lookup_loop scheme noFallback choices priority =
     first_hit scheme choices (tried_ranges noFallback priority)"
  by (induction priority)
     (auto simp: tried_ranges_def lookup_tag_first_hit first_hit_append split: option.splits)

lemma first_choice_ge: "first_choice scheme cs r k = Some i \<Longrightarrow> k \<le> i"
  by (induction cs arbitrary: k) (fastforce split: if_splits)+

lemma first_choice_Some:
  "first_choice scheme cs r k = Some (k + n) \<longleftrightarrow>
     n < length cs \<and> cs ! n \<noteq> [] \<and> sub_match scheme (cs ! n) r \<and>
     (\<forall>j < n. \<not> (cs ! j \<noteq> [] \<and> sub_match scheme (cs ! j) r))"
proof (induction cs arbitrary: k n)
  case Nil
  then show ?case by simp
next
  case (Cons c cs)
  show ?case
  proof (cases "c \<noteq> [] \<and> sub_match scheme c r")
    case True
    then show ?thesis by (cases n) auto
  next
    case False
    then have eq: "first_choice scheme (c # cs) r k = first_choice scheme cs r (Suc k)" by auto
    show ?thesis
    proof (cases n)
      case 0
      with False eq show ?thesis by (auto dest: first_choice_ge)
    next
      case (Suc m)
      with Cons.IH[of "Suc k" m] False eq show ?thesis
        by (auto simp: less_Suc_eq_0_disj)
    qed
  qed
qed

lemma first_choice_None:
  "first_choice scheme cs r k = None \<longleftrightarrow> (\<forall>c\<in>set cs. \<not> (c \<noteq> [] \<and> sub_match scheme c r))"
  by (induction cs arbitrary: k) auto

lemma ex_split_Cons:
  "(\<exists>pre r post. x # rs = pre @ r # post \<and> Q pre r) \<longleftrightarrow>
     Q [] x \<or> (\<exists>pre r post. rs = pre @ r # post \<and> Q (x # pre) r)"
proof
  assume "\<exists>pre r post. x # rs = pre @ r # post \<and> Q pre r"
  then obtain pre r post where *: "x # rs = pre @ r # post" "Q pre r" by blast
  then show "Q [] x \<or> (\<exists>pre r post. rs = pre @ r # post \<and> Q (x # pre) r)"
    by (cases pre) auto
next
  assume "Q [] x \<or> (\<exists>pre r post. rs = pre @ r # post \<and> Q (x # pre) r)"
  then show "\<exists>pre r post. x # rs = pre @ r # post \<and> Q pre r"
    by (metis append_Cons append_Nil)
qed

lemma first_hit_Some:
  "first_hit scheme cs rs = Some i \<longleftrightarrow>
     (\<exists>pre r post. rs = pre @ r # post \<and> (\<forall>p\<in>set pre. first_choice scheme cs p 0 = None) \<and>
        first_choice scheme cs r 0 = Some i)"
proof (induction rs)
  case Nil
  then show ?case by simp
next
  case (Cons x rs)
  show ?case
    by (subst ex_split_Cons) (simp add: Cons split: option.splits)
qed

lemma first_hit_None:
  "first_hit scheme cs rs = None \<longleftrightarrow> (\<forall>r\<in>set rs. first_choice scheme cs r 0 = None)"
  by (induction rs) (auto split: option.splits)

lemma first_choice_None_eligible:
  "first_choice scheme (map split_choice choices) r 0 = None \<longleftrightarrow> (\<forall>i. \<not> eligible scheme choices r i)"
  by (simp add: first_choice_None eligible_def) (metis in_set_conv_nth)

lemma first_choice_Some_eligible:
  "first_choice scheme (map split_choice choices) r 0 = Some i \<longleftrightarrow>
     eligible scheme choices r i \<and> (\<forall>j < i. \<not> eligible scheme choices r j)"
  using first_choice_Some[of scheme "map split_choice choices" r 0 i]
  by (auto simp: eligible_def)

lemma tag_lookup_first_hit:
  "tag_lookup choices priority noFallback scheme =
     (case first_hit scheme (map split_choice choices) (tried_ranges noFallback priority) of
        Some i \<Rightarrow> int i | None \<Rightarrow> -1)"
proof (cases "choices = []")
  case True
  have "first_hit scheme [] rs = None" for rs by (induction rs) auto
  with True show ?thesis by (simp add: tag_lookup_def)
next
  case False
  then show ?thesis by (simp add: tag_lookup_def lookup_loop_first_hit)
qed

text \<open>Lookup returns the best choice. It returns index \<open>i\<close> exactly when some tried range
  (the priority tags in order, each followed by its truncations) is matched by choice \<open>i\<close>, no
  earlier range is matched by any choice and no earlier choice matches that range; it returns
  -1 exactly when no tried range is matched at all.\<close>

theorem lookup_finds_best_choice:
  "(tag_lookup choices priority noFallback scheme = int i \<longleftrightarrow>
      (\<exists>pre r post. tried_ranges noFallback priority = pre @ r # post \<and>
         (\<forall>p\<in>set pre. \<forall>j. \<not> eligible scheme choices p j) \<and>
         eligible scheme choices r i \<and> (\<forall>j < i. \<not> eligible scheme choices r j))) \<and>
   (tag_lookup choices priority noFallback scheme = -1 \<longleftrightarrow>
      (\<forall>r\<in>set (tried_ranges noFallback priority). \<forall>j. \<not> eligible scheme choices r j))"
proof -
  have "tag_lookup choices priority noFallback scheme = int i \<longleftrightarrow>
      first_hit scheme (map split_choice choices) (tried_ranges noFallback priority) = Some i"
    by (simp add: tag_lookup_first_hit split: option.splits)
  moreover have "tag_lookup choices priority noFallback scheme = -1 \<longleftrightarrow>
      first_hit scheme (map split_choice choices) (tried_ranges noFallback priority) = None"
    by (simp add: tag_lookup_first_hit split: option.splits)
  ultimately show ?thesis
    by (simp add: first_hit_Some first_hit_None first_choice_None_eligible first_choice_Some_eligible)
qed

theorem lookup_finds_best_choice_witness:
  "tag_lookup [tag_of_string ''en'', tag_of_string ''de''] [tag_of_string ''de-DE-x-a''] False
     MatchFilterBasic = int 1 \<and>
   (\<exists>pre r post. tried_ranges False [tag_of_string ''de-DE-x-a''] = pre @ r # post \<and>
      eligible MatchFilterBasic [tag_of_string ''en'', tag_of_string ''de''] r 1)"
proof -
  have "tag_lookup [tag_of_string ''en'', tag_of_string ''de''] [tag_of_string ''de-DE-x-a''] False
     MatchFilterBasic = int 1" by code_simp
  with lookup_finds_best_choice[of "[tag_of_string ''en'', tag_of_string ''de'']"
      "[tag_of_string ''de-DE-x-a'']" False MatchFilterBasic 1]
  show ?thesis by blast
qed

section \<open>Presentation and the code tables\<close>

lemma char_lower_upper: "char_toLower c = c \<Longrightarrow> char_toLower (char_toUpper c) = c"
proof -
  assume fixed: "char_toLower c = c"
  show ?thesis
  proof (cases "(97 \<le> ccode c \<and> ccode c \<le> 122) \<or> (224 \<le> ccode c \<and> ccode c \<le> 254 \<and> ccode c \<noteq> 247)")
    case True
    then have up: "char_toUpper c = char_of (ccode c - 32)" "ccode (char_of (ccode c - 32)) = ccode c - 32"
      by (auto simp: char_toUpper_def Let_def)
    with True have "char_toLower (char_toUpper c) = char_of (ccode c)"
      by (auto simp: char_toLower_def Let_def)
    then show ?thesis by (simp add: ccode_def)
  next
    case False
    then have "char_toUpper c = c" by (auto simp: char_toUpper_def Let_def)
    with fixed show ?thesis by simp
  qed
qed

lemma toLower_fixed_iff: "toLower s = s \<longleftrightarrow> (\<forall>c\<in>set s. char_toLower c = c)"
  unfolding toLower_def by (metis map_idI map_eq_conv map_ident)

lemma toLower_toUpper: "toLower s = s \<Longrightarrow> toLower (toUpper s) = s"
  by (auto simp: toLower_fixed_iff) (auto simp: toLower_def toUpper_def char_lower_upper intro: map_idI)

lemma toLower_pretty_subtag:
  assumes "toLower p = p"
  shows "toLower (pretty_subtag p) = p"
proof (cases "length p = 4")
  case True
  then obtain c cs where p: "p = c # cs" by (cases p) auto
  with assms have "char_toLower c = c" "toLower cs = cs" by (auto simp: toLower_def)
  then show ?thesis using p True assms
    by (simp add: pretty_subtag_def) (simp add: toLower_def char_lower_upper)
next
  case False
  with assms show ?thesis by (simp add: pretty_subtag_def toLower_toUpper)
qed

lemma toLower_join: "toLower (join_with sep ps) = join_with (toLower sep) (map toLower ps)"
  by (induction sep ps rule: join_with.induct) (simp_all add: toLower_def)

lemma join_with_superset: "p \<in> set ps \<Longrightarrow> c \<in> set p \<Longrightarrow> c \<in> set (join_with sep ps)"
  by (induction sep ps rule: join_with.induct) auto

lemma split_on_subset: "p \<in> set (split_on d s) \<Longrightarrow> c \<in> set p \<Longrightarrow> c \<in> set s"
  using join_with_superset[of p "split_on d s" c "[d]"] by simp

lemma toLower_split: "toLower s = s \<Longrightarrow> p \<in> set (split_on d s) \<Longrightarrow> toLower p = p"
  by (auto simp: toLower_fixed_iff dest: split_on_subset)

text \<open>the presentation of a tag is a tag for the same language. Reading back the pretty
  form of any tag the constructors build gives the tag itself.\<close>

theorem pretty_string_roundtrip:
  assumes "tag_wf t"
  shows "tag_of_string (tag_toPrettyString t) = t"
proof -
  let ?s = "tag_toString t"
  have low: "toLower ?s = ?s"
    using assms by (auto simp: tag_wf_def tag_toString_def toLower_def split: option.splits)
  obtain p ps where split: "split_on langDelimiter ?s = p # ps"
    by (metis split_on_not_Nil list.exhaust)
  with low have fixed: "\<forall>q\<in>set (p # ps). toLower q = q"
    by (metis toLower_split)
  then have "map (\<lambda>q. toLower (pretty_subtag q)) ps = ps"
    by (simp add: toLower_pretty_subtag map_idI)
  with fixed split have "toLower (tag_toPrettyString t) = join_with [langDelimiter] (p # ps)"
    by (simp add: tag_toPrettyString_def subTags_def toLower_join o_def)
       (simp add: toLower_def char_toLower_def ccode_def)
  also have "\<dots> = ?s" using split by (metis join_split)
  finally have "toLower (tag_toPrettyString t) = ?s" .
  then have "tag_of_string (tag_toPrettyString t) = tag_of_string ?s"
    by (simp add: tag_of_string_def normalizeString_def low)
  with assms show ?thesis by simp
qed

theorem pretty_string_roundtrip_witness:
  "tag_of_string (tag_toPrettyString (tag_of_string ''ZH-hans-cn'')) = tag_of_string ''zh-Hans-CN''"
  using pretty_string_roundtrip[of "tag_of_string ''ZH-hans-cn''"]
  by (simp add: tag_of_string_def normalizeString_def) code_simp

lemma language_rows:
  "list_all (\<lambda>r. r = ''  '' \<or> (r \<noteq> [] \<and> 1 < length r \<and> length r \<le> 3 \<and> list_all is_alpha r)) language_code_list"
  by code_simp

lemma country_rows:
  "list_all (\<lambda>r. length r = 2 \<and> list_all is_alpha r) (tl country_code_list)"
  by code_simp


lemma toLower_alpha: "is_alpha c \<Longrightarrow> is_alpha (char_toLower c)"
proof -
  assume "is_alpha c"
  then have "(65 \<le> ccode c \<and> ccode c \<le> 90) \<or> (97 \<le> ccode c \<and> ccode c \<le> 122)"
    by (auto simp: is_alpha_def less_eq_char_def ccode_def)
  then have "65 \<le> ccode (char_toLower c) \<and> ccode (char_toLower c) \<le> 90 \<or>
      97 \<le> ccode (char_toLower c) \<and> ccode (char_toLower c) \<le> 122"
    by (auto simp: char_toLower_def Let_def)
  then show ?thesis by (auto simp: is_alpha_def less_eq_char_def ccode_def)
qed

lemma alpha_not_delimiter: "is_alpha c \<Longrightarrow> c \<noteq> langDelimiter"
  by (auto simp: is_alpha_def less_eq_char_def)

lemma toLower_list_alpha: "list_all is_alpha r \<Longrightarrow> list_all is_alpha (toLower r)"
  by (auto simp: toLower_def list_all_iff toLower_alpha)

lemma list_alpha_no_delimiter: "list_all is_alpha r \<Longrightarrow> langDelimiter \<notin> set r"
  using alpha_not_delimiter by (auto simp: list_all_iff)

lemma list_alpha_alnum: "list_all is_alpha r \<Longrightarrow> list_all is_alnum r"
  by (auto simp: list_all_iff is_alnum_def)

text \<open>the code tables. With a Qt whose last enumerators lie inside the two tables, building
  a tag from a language and a country never reads outside of them, and every tag it builds is
  empty or passes the syntax check.\<close>

theorem tags_from_codes_are_valid:
  assumes "lastLanguage < int (length language_code_list)"
    and "lastCountry < int (length country_code_list)"
  shows "\<exists>t. tag_of_codes lastLanguage lastCountry lang country = Some t \<and> (tag_empty t \<or> tag_isValid t)"
proof -
  obtain l where l: "langToString lastLanguage lang = Some l"
    and l_row: "l = [] \<or> l \<in> set language_code_list"
  proof (cases "lang < 0 \<or> lang > lastLanguage")
    case True
    then show ?thesis using that by (auto simp: langToString_def)
  next
    case False
    with assms(1) that[of "language_code_list ! nat lang"] show ?thesis
      by (auto simp: langToString_def)
  qed
  obtain c where c: "(if country \<noteq> 0 then countryToString lastCountry country else Some []) = Some c"
    and c_row: "c = [] \<or> c \<in> set (tl country_code_list)"
  proof (cases "country \<le> 0 \<or> country > lastCountry")
    case True
    then show ?thesis using that[of "[]"] by (auto simp: countryToString_def)
  next
    case False
    with assms(2) have "nat country < length country_code_list" "0 < nat country" by auto
    then have "country_code_list ! nat country = tl country_code_list ! (nat country - 1)"
      and "nat country - 1 < length (tl country_code_list)"
      by (auto simp: nth_tl)
    then have "country_code_list ! nat country \<in> set (tl country_code_list)" by simp
    with False assms(2) that[of "country_code_list ! nat country"] show ?thesis
      by (auto simp: countryToString_def)
  qed
  show ?thesis
  proof (cases "l \<noteq> [] \<and> l \<noteq> ''  ''")
    case False
    with l c show ?thesis by (auto simp: tag_of_codes_def tag_empty_def)
  next
    case True
    with l_row language_rows have la: "list_all is_alpha l" "1 < length l" "length l \<le> 3"
      by (auto simp: list_all_iff)
    from c_row country_rows have ca: "list_all is_alpha c" "c = [] \<or> length c = 2"
      by (auto simp: list_all_iff)
    define t where "t = LanguageTag (Some (normalizeString
        (if c \<noteq> [] then l @ [langDelimiter] @ c else l)))"
    have t: "tag_of_codes lastLanguage lastCountry lang country = Some t"
      using l c True by (auto simp: tag_of_codes_def t_def)
    have "char_toLower langDelimiter = langDelimiter" by code_simp
    then have "toLower (langDelimiter # c) = langDelimiter # toLower c" by (simp add: toLower_def)
    then have "subTags t = (if c \<noteq> [] then [toLower l, toLower c] else [toLower l])"
      using la ca
      by (auto simp: t_def subTags_def tag_toString_def normalizeString_def split_on_append
          split_on_single toLower_list_alpha list_alpha_no_delimiter)
    moreover have len: "length (toLower l) = length l" "length (toLower c) = length c"
      by (simp_all add: toLower_def)
    moreover have "toLower l \<noteq> privateUse"
      using la(2) len(1) by (metis One_nat_def length_Cons list.size(3) nat_neq_iff privateUse_def)
    ultimately have "tag_isValid t"
      using la ca by (auto simp: tag_isValid_def toLower_list_alpha list_alpha_alnum)
    with t show ?thesis by blast
  qed
qed

theorem tags_from_codes_are_valid_witness:
  "\<exists>t. tag_of_codes 165 241 42 82 = Some t \<and> (tag_empty t \<or> tag_isValid t)"
  by (rule tags_from_codes_are_valid) code_simp+

end
