(* ===== verification/Date_Time.thy ===== *)
theory Date_Time
  imports Soprano_Prelude
begin

text \<open>
  Dates and times in XML Schema syntax (soprano/datetime.cpp): the three parsers with every
  failure branch, the three printers, and the round trips between them.
  The types of dates and times are those of the prelude; which dates QDate::isValid accepts is a
  field of \<open>qt\<close>.
\<close>

section \<open>QTime, QDate, QDateTime\<close>

definition mk_time :: "int \<Rightarrow> int \<Rightarrow> int \<Rightarrow> int \<Rightarrow> qtime" where
  "mk_time h m s ms =
     (if 0 \<le> h \<and> h < 24 \<and> 0 \<le> m \<and> m < 60 \<and> 0 \<le> s \<and> s < 60 \<and> 0 \<le> ms \<and> ms < 1000
      then Some (((h * 60 + m) * 60 + s) * 1000 + ms) else None)"

definition time_valid :: "qtime \<Rightarrow> bool" where
  "time_valid t \<longleftrightarrow> (case t of None \<Rightarrow> False | Some x \<Rightarrow> 0 \<le> x \<and> x < 86400000)"

definition addSecs :: "qtime \<Rightarrow> int \<Rightarrow> qtime" where
  "addSecs t secs = (case t of None \<Rightarrow> None | Some x \<Rightarrow> Some ((x + 1000 * secs) mod 86400000))"

definition mk_date :: "qt \<Rightarrow> int \<Rightarrow> int \<Rightarrow> int \<Rightarrow> qdate" where
  "mk_date q y m d = (if date_isValid q y m d then Some (y, m, d) else None)"

definition date_valid :: "qt \<Rightarrow> qdate \<Rightarrow> bool" where
  "date_valid q d \<longleftrightarrow> (case d of None \<Rightarrow> False | Some (y, m, d) \<Rightarrow> date_isValid q y m d)"

text \<open>QDateTime's constructor replaces a null time by midnight.\<close>

definition mk_datetime :: "qdate \<Rightarrow> qtime \<Rightarrow> qdatetime" where
  "mk_datetime d t = (d, (case t of None \<Rightarrow> Some 0 | Some x \<Rightarrow> Some x))"

definition null_datetime :: qdatetime where
  "null_datetime = (None, None)"

definition datetime_valid :: "qt \<Rightarrow> qdatetime \<Rightarrow> bool" where
  "datetime_valid q dt \<longleftrightarrow> date_valid q (fst dt) \<and> time_valid (snd dt)"

section \<open>Parsing\<close>

definition toInt :: "qstring \<Rightarrow> int option" where
  "toInt s = parse_in (- (2 ^ 31)) (2 ^ 31 - 1) s"

definition leftJustified :: "nat \<Rightarrow> char \<Rightarrow> qstring \<Rightarrow> qstring" where
  "leftJustified w f s = s @ replicate (w - length s) f"

text \<open>The timezone suffix: nothing or a Z (and anything after it), or a sign and hh:mm.\<close>

definition parse_zone :: "qstring \<Rightarrow> nat \<Rightarrow> qtime \<Rightarrow> qtime" where
  "parse_zone s pos t =
     (if pos = length s \<or> s ! pos = CHR ''Z'' then t
      else if length s \<noteq> pos + 6 then None
      else if s ! pos \<noteq> CHR ''+'' \<and> s ! pos \<noteq> CHR ''-'' then None
      else (case toInt (mid s (pos + 1) 2) of
              None \<Rightarrow> None
            | Some hh \<Rightarrow>
                (case toInt (mid s (pos + 4) 2) of
                   None \<Rightarrow> None
                 | Some mm \<Rightarrow>
                     let secs = 60 * (60 * hh + mm)
                     in if s ! pos = CHR ''+'' then addSecs t (- secs) else addSecs t secs)))"

text \<open>The fraction: \<open>pos\<close> moves behind the digits after a dot or a comma; \<open>None\<close> is a failure.\<close>

definition parse_fraction :: "qstring \<Rightarrow> (nat \<times> int) option" where
  "parse_fraction s =
     (if length s > 8 \<and> (s ! 8 = CHR ''.'' \<or> s ! 8 = CHR '','') then
        (let digits = takeWhile is_digit (drop 9 s)
         in map_option (\<lambda>z. (9 + length digits, z)) (toInt (leftJustified 3 (CHR ''0'') digits)))
      else Some (8, 0))"

definition fromTimeString :: "qstring \<Rightarrow> qtime" where
  "fromTimeString s =
     (if length s < 8 \<or> s ! 2 \<noteq> CHR '':'' \<or> s ! 5 \<noteq> CHR '':'' then None
      else (case toInt (mid s 0 2) of None \<Rightarrow> None | Some hh \<Rightarrow>
           (case toInt (mid s 3 2) of None \<Rightarrow> None | Some mm \<Rightarrow>
           (case toInt (mid s 6 2) of None \<Rightarrow> None | Some ss \<Rightarrow>
           (case parse_fraction s of None \<Rightarrow> None | Some (pos, z) \<Rightarrow>
              parse_zone s pos (mk_time hh mm ss z))))))"

text \<open>The year ends at the first dash after position 0. Without one, indexOf is -1: the year is the
  whole string, and month and day are read from the positions 0 and 3.\<close>

definition fromDateString :: "qt \<Rightarrow> qstring \<Rightarrow> qdate" where
  "fromDateString q s =
     (let dash = index_of (\<lambda>c. c = CHR ''-'') s 1;
          year = (case dash of Some k \<Rightarrow> mid s 0 k | None \<Rightarrow> s);
          pos = (case dash of Some k \<Rightarrow> k + 1 | None \<Rightarrow> 0)
      in case toInt year of None \<Rightarrow> None | Some y \<Rightarrow>
         (case toInt (mid s pos 2) of None \<Rightarrow> None | Some m \<Rightarrow>
         (case toInt (mid s (pos + 3) 2) of None \<Rightarrow> None | Some d \<Rightarrow> mk_date q y m d)))"

definition fromDateTimeString :: "qt \<Rightarrow> qstring \<Rightarrow> qdatetime" where
  "fromDateTimeString q s =
     (let pos = (case index_of (\<lambda>c. c = CHR ''T'') s 0 of
                   Some k \<Rightarrow> Some k | None \<Rightarrow> index_of (\<lambda>c. c = CHR '' '') s 0);
          date = fromDateString q (case pos of Some k \<Rightarrow> mid s 0 k | None \<Rightarrow> s)
      in if \<not> date_valid q date then null_datetime
         else (case pos of
                 None \<Rightarrow> mk_datetime date None
               | Some k \<Rightarrow>
                   if k > 0 then
                     (let time = fromTimeString (drop (k + 1) s)
                      in if \<not> time_valid time then null_datetime else mk_datetime date time)
                   else mk_datetime date None))"

section \<open>Printing\<close>

definition time_hour :: "int \<Rightarrow> nat" where "time_hour x = nat (x div 3600000)"
definition time_minute :: "int \<Rightarrow> nat" where "time_minute x = nat (x div 60000 mod 60)"
definition time_second :: "int \<Rightarrow> nat" where "time_second x = nat (x div 1000 mod 60)"
definition time_msec :: "int \<Rightarrow> nat" where "time_msec x = nat (x mod 1000)"

definition time_fraction :: "nat \<Rightarrow> qstring" where
  "time_fraction ms =
     (if ms > 0 then rev (dropWhile (\<lambda>c. c = CHR ''0'') (rev (CHR ''.'' # pad 3 ms))) else [])"

text \<open>A null QTime prints as the empty string, without a fraction.\<close>

definition time_toString :: "qtime \<Rightarrow> qstring" where
  "time_toString t = (case t of
       None \<Rightarrow> ''Z''
     | Some x \<Rightarrow> pad 2 (time_hour x) @ '':'' @ pad 2 (time_minute x) @ '':'' @
                 pad 2 (time_second x) @ time_fraction (time_msec x) @ ''Z'')"

text \<open>A null QDate has year, month and day 0.\<close>

definition date_toString :: "qdate \<Rightarrow> qstring" where
  "date_toString d = (case d of
       None \<Rightarrow> ''0000-00-00''
     | Some (y, m, d) \<Rightarrow>
         (if y < 0 then ''-'' else []) @ pad 4 (nat \<bar>y\<bar>) @ ''-'' @ pad 2 (nat m) @ ''-'' @ pad 2 (nat d))"

definition datetime_toString :: "qdatetime \<Rightarrow> qstring" where
  "datetime_toString dt = date_toString (fst dt) @ ''T'' @ time_toString (snd dt)"

section \<open>Round trips\<close>

lemma show_nat_small: "n < 10 \<Longrightarrow> show_nat n = [digit n]"
  by (subst show_nat.simps) simp

lemma show_nat_big: "10 \<le> n \<Longrightarrow> show_nat n = show_nat (n div 10) @ [digit (n mod 10)]"
  by (subst show_nat.simps) simp

lemma pad2: "n < 100 \<Longrightarrow> pad 2 n = [digit (n div 10), digit (n mod 10)]"
  by (cases "n < 10") (simp_all add: pad_def show_nat_small show_nat_big digit_0 less_mult_imp_div_less)

lemma pad3: "n < 1000 \<Longrightarrow> pad 3 n = [digit (n div 100), digit (n div 10 mod 10), digit (n mod 10)]"
proof -
  assume n: "n < 1000"
  consider "n < 10" | "10 \<le> n" "n < 100" | "100 \<le> n" by linarith
  then show ?thesis
  proof cases
    case 1
    then show ?thesis by (simp add: pad_def show_nat_small digit_0 numeral_3_eq_3)
  next
    case 2
    then have "n div 10 < 10" "n div 10 mod 10 = n div 10" by auto
    with 2 show ?thesis by (simp add: pad_def show_nat_small show_nat_big digit_0 numeral_3_eq_3)
  next
    case 3
    with n have "n div 10 div 10 < 10" "n div 10 div 10 = n div 100" "10 \<le> n div 10"
      by (auto simp: div_mult2_eq[symmetric])
    with 3 show ?thesis by (simp add: pad_def show_nat_small show_nat_big)
  qed
qed

lemma digit_inject [simp]: "m < 10 \<Longrightarrow> n < 10 \<Longrightarrow> digit m = digit n \<longleftrightarrow> m = n"
  by (metis digit_val_digit)

lemma toInt_digits:
  "s \<noteq> [] \<Longrightarrow> list_all is_digit s \<Longrightarrow> digits_val s < 2 ^ 31 \<Longrightarrow> toInt s = Some (int (digits_val s))"
  by (simp add: toInt_def parse_in_def parse_int_digits)

lemma toInt_two [simp]:
  "a < 10 \<Longrightarrow> b < 10 \<Longrightarrow> toInt [digit a, digit b] = Some (int (10 * a + b))"
  by (simp add: toInt_digits digits_val_def)

lemma toInt_three [simp]:
  "a < 10 \<Longrightarrow> b < 10 \<Longrightarrow> c < 10 \<Longrightarrow> toInt [digit a, digit b, digit c] = Some (int (100 * a + 10 * b + c))"
  by (simp add: toInt_digits digits_val_def)

text \<open>What the parser reads back from the printed fraction.\<close>

lemma fraction_digits:
  assumes "0 < ms" "ms < 1000"
  obtains ds where "time_fraction ms = CHR ''.'' # ds" and "list_all is_digit ds"
    and "toInt (leftJustified 3 (CHR ''0'') ds) = Some (int ms)"
proof -
  define a b c where abc: "a = ms div 100" "b = ms div 10 mod 10" "c = ms mod 10"
  from assms have lt: "a < 10" "b < 10" "c < 10" by (auto simp: abc)
  have ms: "ms = 100 * a + 10 * b + c"
  proof -
    have "ms = 10 * (ms div 10) + c" "ms div 10 = 10 * (ms div 10 div 10) + b" by (simp_all add: abc)
    moreover have "ms div 10 div 10 = a" by (simp add: abc div_mult2_eq[symmetric])
    ultimately show ?thesis by simp
  qed
  have pad: "pad 3 ms = [digit a, digit b, digit c]" using assms by (simp add: pad3 abc)
  have dot: "CHR ''.'' \<noteq> digit 0" by (simp add: digit_0)
  have frac: "time_fraction ms = CHR ''.'' # (if c \<noteq> 0 then [digit a, digit b, digit c]
      else if b \<noteq> 0 then [digit a, digit b] else [digit a])"
  proof -
    have "time_fraction ms = rev (dropWhile (\<lambda>x. x = digit 0) [digit c, digit b, digit a, CHR ''.''])"
      using assms pad by (simp add: time_fraction_def digit_0)
    moreover have "a \<noteq> 0" if "c = 0" "b = 0" using that ms assms by simp
    ultimately show ?thesis using lt dot by auto
  qed
  have "toInt (leftJustified 3 (CHR ''0'') (if c \<noteq> 0 then [digit a, digit b, digit c]
      else if b \<noteq> 0 then [digit a, digit b] else [digit a])) = Some (int ms)"
    using lt toInt_three[of a b c] toInt_three[of a b 0] toInt_three[of a 0 0]
    by (auto simp: leftJustified_def ms digit_0[symmetric] numeral_2_eq_2)
  with frac lt show ?thesis by (intro that) auto
qed

lemma mixed_radix:
  "x = a * 1000 + r \<Longrightarrow> a = b * 60 + s \<Longrightarrow> b = c * 60 + m \<Longrightarrow> x = ((c * 60 + m) * 60 + s) * 1000 + (r :: int)"
  by simp

lemma time_parts:
  assumes "0 \<le> x" "x < 86400000"
  shows "time_hour x < 24" "time_minute x < 60" "time_second x < 60" "time_msec x < 1000"
    and "x = ((int (time_hour x) * 60 + int (time_minute x)) * 60 + int (time_second x)) * 1000 + int (time_msec x)"
proof -
  show "time_hour x < 24" "time_minute x < 60" "time_second x < 60" "time_msec x < 1000"
    using assms by (auto simp: time_hour_def time_minute_def time_second_def time_msec_def nat_less_iff)
  have parts: "int (time_hour x) = x div 3600000" "int (time_minute x) = x div 60000 mod 60"
    "int (time_second x) = x div 1000 mod 60" "int (time_msec x) = x mod 1000"
    using assms by (simp_all add: time_hour_def time_minute_def time_second_def time_msec_def)
  have d1: "x div 60000 = x div 1000 div 60"
    using zdiv_zmult2_eq[of 60 x 1000] by simp
  have d2: "x div 3600000 = x div 1000 div 60 div 60"
    using zdiv_zmult2_eq[of 60 x 60000] by (simp add: d1)
  show "x = ((int (time_hour x) * 60 + int (time_minute x)) * 60 + int (time_second x)) * 1000 + int (time_msec x)"
    unfolding parts d1 d2 by (rule mixed_radix[of x "x div 1000" _ "x div 1000 div 60"]) simp_all
qed


lemma toInt_pad [simp]: "n < 2 ^ 31 \<Longrightarrow> toInt (pad k n) = Some (int n)"
  by (simp add: toInt_def parse_in_def)

text \<open>Eight leading characters \<open>hh:mm:ss\<close> and a printed fraction are read back, whatever zone text
  follows (the text must not start with a digit).\<close>

lemma parse_clock:
  assumes "h < 24" "m < 60" "s < 60" "ms < 1000" and z: "z = [] \<or> \<not> is_digit (hd z) \<and> hd z \<noteq> CHR ''.'' \<and> hd z \<noteq> CHR '',''"
  defines "body \<equiv> pad 2 h @ '':'' @ pad 2 m @ '':'' @ pad 2 s @ time_fraction ms"
  shows "fromTimeString (body @ z) = parse_zone (body @ z) (length body)
           (Some (((int h * 60 + int m) * 60 + int s) * 1000 + int ms))"
proof -
  let ?d = "\<lambda>n. [digit (n div 10), digit (n mod 10)]"
  have body: "body @ z = ?d h @ '':'' @ ?d m @ '':'' @ ?d s @ time_fraction ms @ z"
    using assms by (simp add: body_def pad2)
  have len: "length body = 8 + length (time_fraction ms)"
    using assms by (simp add: body_def pad2)
  have at8: "(body @ z) ! 8 = (time_fraction ms @ z) ! 0"
    and from9: "drop 9 (body @ z) = drop 1 (time_fraction ms @ z)"
    by (simp_all only: body append_Cons append_Nil nth_Cons_numeral drop_Cons_numeral) simp_all
  have parts: "mid (body @ z) 0 2 = ?d h" "mid (body @ z) 3 2 = ?d m" "mid (body @ z) 6 2 = ?d s"
    and colons: "(body @ z) ! 2 = CHR '':''" "(body @ z) ! 5 = CHR '':''"
    by (simp_all add: body mid_def)
  have ints: "toInt (?d n) = Some (int n)" if "n < 100" for n
    using that by simp
  have frac: "parse_fraction (body @ z) = Some (length body, int ms)"
  proof (cases "ms = 0")
    case True
    then have "time_fraction ms = []" by (simp add: time_fraction_def)
    with z True at8 show ?thesis
      by (cases z) (auto simp: parse_fraction_def len)
  next
    case False
    with assms obtain ds where ds: "time_fraction ms = CHR ''.'' # ds" "list_all is_digit ds"
      "toInt (leftJustified 3 (CHR ''0'') ds) = Some (int ms)"
      by (metis fraction_digits not_gr_zero)
    have "takeWhile is_digit (ds @ z) = ds"
      using ds(2) z by (cases z) (auto simp: list_all_iff takeWhile_append)
    then show ?thesis
      using ds at8 from9 by (simp add: parse_fraction_def len del: drop_append)
  qed
  have "mk_time (int h) (int m) (int s) (int ms) = Some (((int h * 60 + int m) * 60 + int s) * 1000 + int ms)"
    using assms by (simp add: mk_time_def)
  moreover have "8 \<le> length (body @ z)" by (simp add: len)
  ultimately show ?thesis
    using assms(1-4) frac ints[of h] ints[of m] ints[of s]
    by (simp add: fromTimeString_def parts colons)
qed

lemma time_roundtrip_core:
  assumes "time_valid t"
  shows "fromTimeString (time_toString t) = t"
proof -
  from assms obtain x where x: "t = Some x" "0 \<le> x" "x < 86400000"
    by (auto simp: time_valid_def split: option.splits)
  note tp = time_parts[OF x(2,3)]
  define body where "body = pad 2 (time_hour x) @ '':'' @ pad 2 (time_minute x) @ '':'' @
      pad 2 (time_second x) @ time_fraction (time_msec x)"
  have "time_toString t = body @ ''Z''" by (simp add: time_toString_def x body_def)
  moreover have "fromTimeString (body @ ''Z'') = parse_zone (body @ ''Z'') (length body) (Some x)"
    using parse_clock[OF tp(1-4), of "''Z''"] tp(5) by (simp add: body_def is_digit_def ccode_def)
  ultimately show ?thesis by (simp add: parse_zone_def x nth_append)
qed

text \<open>times survive printing and parsing: the text of every valid time of day, to the
  millisecond, parses back to that time.\<close>

theorem time_roundtrip:
  assumes "time_valid t"
  shows "fromTimeString (time_toString t) = t"
  using assms by (rule time_roundtrip_core)

theorem time_roundtrip_witness: "fromTimeString (time_toString (Some 45296007)) = Some 45296007"
  by (rule time_roundtrip) (simp add: time_valid_def)

text \<open>A timezone suffix shifts the clock time to UTC, around midnight as well: the text
  \<open>hh:mm:ss.fff+HH:MM\<close> denotes the time minus the offset, and \<open>-HH:MM\<close> the time plus the
  offset, modulo one day.\<close>

theorem time_with_zone:
  assumes "h < 24" "m < 60" "s < 60" "ms < 1000" "zh < 100" "zm < 100"
  shows "fromTimeString (pad 2 h @ '':'' @ pad 2 m @ '':'' @ pad 2 s @ time_fraction ms @
           (if east then ''+'' else ''-'') @ pad 2 zh @ '':'' @ pad 2 zm) =
         Some ((((int h * 60 + int m) * 60 + int s) * 1000 + int ms
           + (if east then - 1 else 1) * 60000 * (60 * int zh + int zm)) mod 86400000)"
proof -
  define sgn where "sgn = (if east then CHR ''+'' else CHR ''-'')"
  define z where "z = sgn # pad 2 zh @ '':'' @ pad 2 zm"
  define body where "body = pad 2 h @ '':'' @ pad 2 m @ '':'' @ pad 2 s @ time_fraction ms"
  let ?t = "((int h * 60 + int m) * 60 + int s) * 1000 + int ms"
  have "\<not> is_digit sgn" "sgn \<noteq> CHR ''.''" "sgn \<noteq> CHR '',''" "sgn \<noteq> CHR ''Z''"
    by (auto simp: sgn_def is_digit_def ccode_def)
  then have *: "fromTimeString (body @ z) = parse_zone (body @ z) (length body) (Some ?t)"
    using parse_clock[OF assms(1-4), of z] by (simp add: body_def z_def)
  have z_chars: "z = [sgn, digit (zh div 10), digit (zh mod 10), CHR '':'', digit (zm div 10), digit (zm mod 10)]"
    using assms by (simp add: z_def pad2)
  have "mid (body @ z) (Suc (length body)) 2 = pad 2 zh" "mid (body @ z) (length body + 4) 2 = pad 2 zm"
    using assms by (simp_all add: mid_def z_chars pad2)
  then have "parse_zone (body @ z) (length body) (Some ?t) =
      (if sgn = CHR ''+'' then addSecs (Some ?t) (- (60 * (60 * int zh + int zm)))
       else addSecs (Some ?t) (60 * (60 * int zh + int zm)))"
    using assms \<open>sgn \<noteq> CHR ''Z''\<close>
    by (auto simp: parse_zone_def nth_append z_chars) (simp_all add: sgn_def split: if_splits)
  with * show ?thesis
    by (cases east) (simp_all add: body_def z_def sgn_def addSecs_def algebra_simps)
qed

theorem time_with_zone_witness: "fromTimeString ''00:30:00.25+01:00'' = Some 84600250"
proof -
  have "''00:30:00.25+01:00'' = pad 2 0 @ '':'' @ pad 2 30 @ '':'' @ pad 2 0 @ time_fraction 250 @
      (if True then ''+'' else ''-'') @ pad 2 1 @ '':'' @ pad 2 0" by code_simp
  then show ?thesis using time_with_zone[of 0 30 0 250 1 0 True] by simp
qed


lemma date_roundtrip_core:
  assumes "qt_date_ok q" and "date_valid q d"
  shows "fromDateString q (date_toString d) = d"
proof -
  from assms(2) obtain y m dd where d: "d = Some (y, m, dd)" and v: "date_isValid q y m dd"
    by (auto simp: date_valid_def split: option.splits)
  from assms(1) v have r: "y \<noteq> 0" "- (2 ^ 31) < y" "y < 2 ^ 31" "1 \<le> m" "m \<le> 12" "1 \<le> dd" "dd \<le> 31"
    by (auto simp: qt_date_ok_def)
  define Y where "Y = (if y < 0 then ''-'' else []) @ pad 4 (nat \<bar>y\<bar>)"
  define rest where "rest = pad 2 (nat m) @ ''-'' @ pad 2 (nat dd)"
  have str: "date_toString d = Y @ CHR ''-'' # rest" by (simp add: date_toString_def d Y_def rest_def)
  have dig: "CHR ''-'' \<notin> set (pad k n)" for k n
    using pad_digits[of k n] by (auto simp: list_all_iff is_digit_def ccode_def)
  have "Y \<noteq> []" by (simp add: Y_def)
  then obtain c cs where Y: "Y = c # cs" by (cases Y) auto
  have "CHR ''-'' \<notin> set cs"
  proof (cases "y < 0")
    case True
    with Y dig show ?thesis by (auto simp: Y_def)
  next
    case False
    then have "Y = pad 4 (nat \<bar>y\<bar>)" by (simp add: Y_def)
    with Y dig[of 4 "nat \<bar>y\<bar>"] show ?thesis by simp
  qed
  then have dash: "index_of (\<lambda>c. c = CHR ''-'') (date_toString d) 1 = Some (length Y)"
    using index_of_append[of 1 "[c]" cs "\<lambda>c. c = CHR ''-''" "CHR ''-''" rest]
    by (auto simp: str Y)
  have year: "toInt Y = Some y"
  proof (cases "y < 0")
    case True
    have "\<not> is_space (last (pad 4 (nat \<bar>y\<bar>)))"
      using pad_digits[of 4 "nat \<bar>y\<bar>"]
      by (auto simp: list_all_iff intro!: is_digit_not_space)
    then have "trimmed (CHR ''-'' # pad 4 (nat \<bar>y\<bar>)) = CHR ''-'' # pad 4 (nat \<bar>y\<bar>)"
      by (intro trimmed_no_space) (auto simp: is_space_def ccode_def)
    with True r show ?thesis
      by (simp add: Y_def toInt_def parse_in_def parse_int_def parse_nat_def pad_digits)
  next
    case False
    with r show ?thesis by (simp add: Y_def nat_less_iff)
  qed
  have mm: "mid (date_toString d) (Suc (length Y)) 2 = pad 2 (nat m)"
    and dd: "mid (date_toString d) (4 + length Y) 2 = pad 2 (nat dd)"
    using r by (simp_all add: str rest_def mid_def pad2 nat_less_iff)
  have yy: "mid (date_toString d) 0 (length Y) = Y" by (simp add: str mid_def)
  show ?thesis
    using dash year mm dd yy r v
    by (simp add: fromDateString_def mk_date_def d nat_less_iff)
qed

text \<open>dates survive printing and parsing, years before the common era and beyond four
  digits included.\<close>

theorem date_roundtrip:
  assumes "qt_date_ok q" and "date_valid q d"
  shows "fromDateString q (date_toString d) = d"
  using assms by (rule date_roundtrip_core)

theorem date_roundtrip_witness:
  "fromDateString plain_qt (date_toString (Some (-44, 3, 15))) = Some (-44, 3, 15)"
  by (rule date_roundtrip[OF plain_qt_date_ok]) (simp add: date_valid_def plain_qt_def)

lemma datetime_roundtrip_core:
  assumes "qt_date_ok q" and "datetime_valid q dt"
  shows "fromDateTimeString q (datetime_toString dt) = dt"
proof -
  obtain d t where dt: "dt = (d, t)" by (cases dt)
  with assms(2) have v: "date_valid q d" "time_valid t" by (simp_all add: datetime_valid_def)
  then obtain x where x: "t = Some x" by (auto simp: time_valid_def split: option.splits)
  have "CHR ''T'' \<notin> set (pad k n)" for k n
    using pad_digits[of k n] by (auto simp: list_all_iff is_digit_def ccode_def)
  then have noT: "\<forall>c\<in>set (date_toString d). c \<noteq> CHR ''T''"
    by (auto simp: date_toString_def split: option.splits)
  have str: "datetime_toString dt = date_toString d @ CHR ''T'' # time_toString t"
    by (simp add: datetime_toString_def dt)
  have pos: "index_of (\<lambda>c. c = CHR ''T'') (datetime_toString dt) 0 = Some (length (date_toString d))"
    using index_of_append[of 0 "[]" "date_toString d" "\<lambda>c. c = CHR ''T''" "CHR ''T''"] noT
    by (simp add: str)
  have cut: "mid (datetime_toString dt) 0 (length (date_toString d)) = date_toString d"
    "drop (Suc (length (date_toString d))) (datetime_toString dt) = time_toString t"
    by (simp_all add: str mid_def)
  have "date_toString d \<noteq> []" by (auto simp: date_toString_def split: option.splits)
  with pos cut v x show ?thesis
    by (simp add: fromDateTimeString_def date_roundtrip_core[OF assms(1)] time_roundtrip_core
        mk_datetime_def dt Let_def)
qed

text \<open>datetimes survive printing and parsing.\<close>

theorem datetime_roundtrip:
  assumes "qt_date_ok q" and "datetime_valid q dt"
  shows "fromDateTimeString q (datetime_toString dt) = dt"
  using assms by (rule datetime_roundtrip_core)

theorem datetime_roundtrip_witness:
  "fromDateTimeString plain_qt (datetime_toString (Some (2011, 2, 28), Some 86399999)) =
     (Some (2011, 2, 28), Some 86399999)"
  by (rule datetime_roundtrip[OF plain_qt_date_ok])
     (simp add: datetime_valid_def date_valid_def time_valid_def plain_qt_def)

text \<open>Fractions of more than three digits, which XML Schema allows and the header of datetime.h
  announces, are read as a number of milliseconds: most are rejected, small ones change value.\<close>

lemma long_fraction_rejected:
  "fromTimeString ''12:00:00.1234Z'' = None \<and> fromTimeString ''12:00:00.0001Z'' = Some 43200001"
  by code_simp

end
