(* ===== verification/Vocabulary.thy ===== *)
theory Vocabulary
  imports Soprano_Prelude
begin

text \<open>
  The terms of the XML Schema and RDF vocabularies the core refers to (soprano/vocabulary/xsd.cpp,
  soprano/vocabulary/rdf.cpp): one constructor per accessor function, and the URI it returns.
\<close>

definition xsdNamespace :: qstring where
  "xsdNamespace = ''http://www.w3.org/2001/XMLSchema#''"

datatype xsd_term =
    XsdInt | XsdInteger | XsdNegativeInteger | XsdNonNegativeInteger | XsdDecimal | XsdShort
  | XsdLong | XsdUnsignedInt | XsdUnsignedShort | XsdUnsignedLong | XsdBoolean | XsdDouble
  | XsdFloat | XsdString | XsdDate | XsdTime | XsdDateTime | XsdBase64Binary

fun xsd_name :: "xsd_term \<Rightarrow> qstring" where
  "xsd_name XsdInt = ''int''"
| "xsd_name XsdInteger = ''integer''"
| "xsd_name XsdNegativeInteger = ''negativeInteger''"
| "xsd_name XsdNonNegativeInteger = ''nonNegativeInteger''"
| "xsd_name XsdDecimal = ''decimal''"
| "xsd_name XsdShort = ''short''"
| "xsd_name XsdLong = ''long''"
| "xsd_name XsdUnsignedInt = ''unsignedInt''"
| "xsd_name XsdUnsignedShort = ''unsignedShort''"
| "xsd_name XsdUnsignedLong = ''unsignedLong''"
| "xsd_name XsdBoolean = ''boolean''"
| "xsd_name XsdDouble = ''double''"
| "xsd_name XsdFloat = ''float''"
| "xsd_name XsdString = ''string''"
| "xsd_name XsdDate = ''date''"
| "xsd_name XsdTime = ''time''"
| "xsd_name XsdDateTime = ''dateTime''"
| "xsd_name XsdBase64Binary = ''base64Binary''"

definition xsd :: "xsd_term \<Rightarrow> qurl" where
  "xsd t = QUrl (xsdNamespace @ xsd_name t)"

lemma xsd_name_inject [simp]: "xsd_name s = xsd_name t \<longleftrightarrow> s = t"
  by (cases s; cases t) simp_all

lemma xsd_inject [simp]: "xsd s = xsd t \<longleftrightarrow> s = t"
  by (simp add: xsd_def)

lemma xsd_not_empty [simp]: "\<not> url_isEmpty (xsd t)"
  by (simp add: xsd_def url_isEmpty_def xsdNamespace_def)

definition rdfNamespace :: qstring where
  "rdfNamespace = ''http://www.w3.org/1999/02/22-rdf-syntax-ns#''"

datatype rdf_term =
    RdfAlt | RdfBag | RdfList | RdfProperty | RdfSeq | RdfStatement | RdfXMLLiteral | RdfFirst
  | RdfNil | RdfObject | RdfPredicate | RdfRest | RdfSubject | RdfType | RdfValue

fun rdf_name :: "rdf_term \<Rightarrow> qstring" where
  "rdf_name RdfAlt = ''Alt''"
| "rdf_name RdfBag = ''Bag''"
| "rdf_name RdfList = ''List''"
| "rdf_name RdfProperty = ''Property''"
| "rdf_name RdfSeq = ''Seq''"
| "rdf_name RdfStatement = ''Statement''"
| "rdf_name RdfXMLLiteral = ''XMLLiteral''"
| "rdf_name RdfFirst = ''first''"
| "rdf_name RdfNil = ''nil''"
| "rdf_name RdfObject = ''object''"
| "rdf_name RdfPredicate = ''predicate''"
| "rdf_name RdfRest = ''rest''"
| "rdf_name RdfSubject = ''subject''"
| "rdf_name RdfType = ''type''"
| "rdf_name RdfValue = ''value''"

definition rdf :: "rdf_term \<Rightarrow> qurl" where
  "rdf t = QUrl (rdfNamespace @ rdf_name t)"

lemma rdf_name_inject [simp]: "rdf_name s = rdf_name t \<longleftrightarrow> s = t"
  by (cases s; cases t) simp_all

lemma rdf_inject [simp]: "rdf s = rdf t \<longleftrightarrow> s = t"
  by (simp add: rdf_def)

lemma rdf_not_empty [simp]: "\<not> url_isEmpty (rdf t)"
  by (simp add: rdf_def url_isEmpty_def rdfNamespace_def)

lemma xsd_neq_rdf [simp]: "xsd s \<noteq> rdf t" "rdf t \<noteq> xsd s"
  by (simp_all add: xsd_def rdf_def xsdNamespace_def rdfNamespace_def)

end
