(* ===== verification/Literal_Value.thy ===== *)
theory Literal_Value
  imports Vocabulary Date_Time Language_Tag
begin

text \<open>
  Literal values (soprano/literalvalue.cpp): plain literals with a language, typed literals over a
  QVariant with a datatype URI, the constructors and assignments, the two tables between datatype
  URIs and variant types, printing, parsing, equality and hashing.

  The string cache of LiteralValueData holds the printed form once it was computed and is not part
  of the state: \<open>lit_toString\<close> is what it holds. The lazily filled datatype URI is: an empty URI in
  \<open>Typed\<close> is filled by \<open>dataTypeUri\<close>.
\<close>

section \<open>The type tables\<close>

definition xsdHash :: "(qurl \<times> vtype) list" where
  "xsdHash = [
     (xsd XsdInt, TInt), (xsd XsdInteger, TInt), (xsd XsdNegativeInteger, TInt),
     (xsd XsdNonNegativeInteger, TUInt), (xsd XsdDecimal, TInt), (xsd XsdShort, TInt),
     (xsd XsdLong, TLongLong), (xsd XsdUnsignedInt, TUInt), (xsd XsdUnsignedShort, TUInt),
     (xsd XsdUnsignedLong, TULongLong), (xsd XsdBoolean, TBool), (xsd XsdDouble, TDouble),
     (xsd XsdFloat, TDouble), (xsd XsdString, TString), (xsd XsdDate, TDate), (xsd XsdTime, TTime),
     (xsd XsdDateTime, TDateTime), (xsd XsdBase64Binary, TByteArray), (rdf RdfXMLLiteral, TString)]"

definition variantHash :: "(vtype \<times> qurl) list" where
  "variantHash = [
     (TInt, xsd XsdInt), (TLongLong, xsd XsdLong), (TUInt, xsd XsdUnsignedInt),
     (TULongLong, xsd XsdUnsignedLong), (TBool, xsd XsdBoolean), (TDouble, xsd XsdDouble),
     (TString, xsd XsdString), (TDate, xsd XsdDate), (TTime, xsd XsdTime),
     (TDateTime, xsd XsdDateTime), (TByteArray, xsd XsdBase64Binary)]"

definition typeFromDataTypeUri :: "qurl \<Rightarrow> vtype" where
  "typeFromDataTypeUri u = (case map_of xsdHash u of Some t \<Rightarrow> t | None \<Rightarrow> TInvalid)"

definition dataTypeUriFromType :: "vtype \<Rightarrow> qurl" where
  "dataTypeUriFromType t = (case map_of variantHash t of Some u \<Rightarrow> u | None \<Rightarrow> QUrl [])"

section \<open>Literal values\<close>

datatype literal_value =
    NullLiteral
  | Plain qstring language_tag
  | Typed qvariant qurl

fun lit_variant :: "literal_value \<Rightarrow> qvariant" where
  "lit_variant NullLiteral = VInvalid"
| "lit_variant (Plain s l) = VString s"
| "lit_variant (Typed v u) = v"

definition lit_type :: "literal_value \<Rightarrow> vtype" where
  "lit_type l = variant_type (lit_variant l)"

definition lit_isValid :: "literal_value \<Rightarrow> bool" where
  "lit_isValid l \<longleftrightarrow> lit_variant l \<noteq> VInvalid"

fun lit_isPlain :: "literal_value \<Rightarrow> bool" where
  "lit_isPlain NullLiteral = False"
| "lit_isPlain (Plain s l) = True"
| "lit_isPlain (Typed v u) = False"

fun lit_language :: "literal_value \<Rightarrow> language_tag" where
  "lit_language NullLiteral = LanguageTag None"
| "lit_language (Plain s l) = l"
| "lit_language (Typed v u) = LanguageTag None"

fun dataTypeUri :: "literal_value \<Rightarrow> qurl" where
  "dataTypeUri NullLiteral = QUrl []"
| "dataTypeUri (Plain s l) = QUrl []"
| "dataTypeUri (Typed v u) = (if url_isEmpty u then dataTypeUriFromType (variant_type v) else u)"

subsection \<open>Constructors and assignments\<close>

definition lit_of_variant :: "qvariant \<Rightarrow> literal_value" where
  "lit_of_variant v = (let type = dataTypeUriFromType (variant_type v) in
     if \<not> url_isEmpty type then Typed v type else NullLiteral)"

text \<open>The typed constructors leave the datatype URI empty.\<close>

definition lit_int :: "32 word \<Rightarrow> literal_value" where "lit_int i = Typed (VInt i) (QUrl [])"
definition lit_int64 :: "64 word \<Rightarrow> literal_value" where "lit_int64 i = Typed (VLongLong i) (QUrl [])"
definition lit_uint :: "32 word \<Rightarrow> literal_value" where "lit_uint i = Typed (VUInt i) (QUrl [])"
definition lit_uint64 :: "64 word \<Rightarrow> literal_value" where "lit_uint64 i = Typed (VULongLong i) (QUrl [])"
definition lit_bool :: "bool \<Rightarrow> literal_value" where "lit_bool b = Typed (VBool b) (QUrl [])"
definition lit_double :: "u64 \<Rightarrow> literal_value" where "lit_double x = Typed (VDouble x) (QUrl [])"
definition lit_string :: "qstring \<Rightarrow> literal_value" where "lit_string s = Typed (VString s) (QUrl [])"
definition lit_date :: "qdate \<Rightarrow> literal_value" where "lit_date d = Typed (VDate d) (QUrl [])"
definition lit_time :: "qtime \<Rightarrow> literal_value" where "lit_time t = Typed (VTime t) (QUrl [])"
definition lit_datetime :: "qdatetime \<Rightarrow> literal_value" where "lit_datetime t = Typed (VDateTime t) (QUrl [])"
definition lit_bytes :: "qbytes \<Rightarrow> literal_value" where "lit_bytes b = Typed (VByteArray b) (QUrl [])"

text \<open>Assigning an int or an unsigned int keeps the datatype URI when it denotes the same variant
  type; the other assignments forget it.\<close>

definition assign_int :: "literal_value \<Rightarrow> 32 word \<Rightarrow> literal_value" where
  "assign_int l i = (let dtUri = dataTypeUri l in
     if typeFromDataTypeUri dtUri = TInt then Typed (VInt i) dtUri else Typed (VInt i) (QUrl []))"

definition assign_uint :: "literal_value \<Rightarrow> 32 word \<Rightarrow> literal_value" where
  "assign_uint l i = (let dtUri = dataTypeUri l in
     if typeFromDataTypeUri dtUri = TUInt then Typed (VUInt i) dtUri else Typed (VUInt i) (QUrl []))"

definition assign_int64 :: "literal_value \<Rightarrow> 64 word \<Rightarrow> literal_value" where
  "assign_int64 l i = Typed (VLongLong i) (QUrl [])"

definition assign_string :: "literal_value \<Rightarrow> qstring \<Rightarrow> literal_value" where
  "assign_string l s = Typed (VString s) (QUrl [])"

definition assign_uint64 :: "literal_value \<Rightarrow> 64 word \<Rightarrow> literal_value" where
  "assign_uint64 l i = Typed (VULongLong i) (QUrl [])"

definition assign_bool :: "literal_value \<Rightarrow> bool \<Rightarrow> literal_value" where
  "assign_bool l b = Typed (VBool b) (QUrl [])"

definition assign_double :: "literal_value \<Rightarrow> u64 \<Rightarrow> literal_value" where
  "assign_double l x = Typed (VDouble x) (QUrl [])"

definition assign_date :: "literal_value \<Rightarrow> qdate \<Rightarrow> literal_value" where
  "assign_date l d = Typed (VDate d) (QUrl [])"

definition assign_time :: "literal_value \<Rightarrow> qtime \<Rightarrow> literal_value" where
  "assign_time l t = Typed (VTime t) (QUrl [])"

definition assign_datetime :: "literal_value \<Rightarrow> qdatetime \<Rightarrow> literal_value" where
  "assign_datetime l t = Typed (VDateTime t) (QUrl [])"

definition assign_bytes :: "literal_value \<Rightarrow> qbytes \<Rightarrow> literal_value" where
  "assign_bytes l b = Typed (VByteArray b) (QUrl [])"

definition createPlainLiteral :: "qstring \<Rightarrow> language_tag \<Rightarrow> literal_value" where
  "createPlainLiteral s lang = Plain s lang"

lemmas lit_ctor_defs = lit_int_def lit_int64_def lit_uint_def lit_uint64_def lit_bool_def
  lit_double_def lit_string_def lit_date_def lit_time_def lit_datetime_def lit_bytes_def

subsection \<open>Printing and conversions\<close>

fun variant_toString :: "qt \<Rightarrow> qvariant \<Rightarrow> qstring" where
  "variant_toString q (VInt i) = show_int (sint i)"
| "variant_toString q (VLongLong i) = show_int (sint i)"
| "variant_toString q (VUInt i) = show_nat (unat i)"
| "variant_toString q (VULongLong i) = show_nat (unat i)"
| "variant_toString q (VBool b) = (if b then ''true'' else ''false'')"
| "variant_toString q (VDouble x) = dbl_toString q x"
| "variant_toString q (VDate d) = date_toString d"
| "variant_toString q (VTime t) = time_toString t"
| "variant_toString q (VDateTime t) = datetime_toString t"
| "variant_toString q (VByteArray b) = toBase64 q b"
| "variant_toString q (VString s) = s"
| "variant_toString q (VUrl u) = url_toString q u"
| "variant_toString q VInvalid = []"

definition lit_toString :: "qt \<Rightarrow> literal_value \<Rightarrow> qstring" where
  "lit_toString q l = variant_toString q (lit_variant l)"

definition lit_toDate :: "qt \<Rightarrow> literal_value \<Rightarrow> qdate" where
  "lit_toDate q l = (case lit_variant l of VDate d \<Rightarrow> d | _ \<Rightarrow> fromDateString q (lit_toString q l))"

definition lit_toTime :: "qt \<Rightarrow> literal_value \<Rightarrow> qtime" where
  "lit_toTime q l = (case lit_variant l of VTime t \<Rightarrow> t | _ \<Rightarrow> fromTimeString (lit_toString q l))"

definition lit_toDateTime :: "qt \<Rightarrow> literal_value \<Rightarrow> qdatetime" where
  "lit_toDateTime q l = (case lit_variant l of VDateTime t \<Rightarrow> t | _ \<Rightarrow> fromDateTimeString q (lit_toString q l))"

text \<open>The remaining readers hand the variant to QVariant's own conversions; an empty literal is
  0, false or empty.\<close>

fun lit_is_type :: "vtype \<Rightarrow> literal_value \<Rightarrow> bool" where
  "lit_is_type t l \<longleftrightarrow> lit_type l = t"

definition lit_toInt :: "qt \<Rightarrow> literal_value \<Rightarrow> 32 word" where
  "lit_toInt q l = (if l = NullLiteral then 0 else fst (variant_toInt q (lit_variant l)))"

definition lit_toInt64 :: "qt \<Rightarrow> literal_value \<Rightarrow> 64 word" where
  "lit_toInt64 q l = (if l = NullLiteral then 0 else fst (variant_toLongLong q (lit_variant l)))"

definition lit_toUnsignedInt :: "qt \<Rightarrow> literal_value \<Rightarrow> 32 word" where
  "lit_toUnsignedInt q l = (if l = NullLiteral then 0 else fst (variant_toUInt q (lit_variant l)))"

definition lit_toUnsignedInt64 :: "qt \<Rightarrow> literal_value \<Rightarrow> 64 word" where
  "lit_toUnsignedInt64 q l = (if l = NullLiteral then 0 else fst (variant_toULongLong q (lit_variant l)))"

definition lit_toBool :: "qt \<Rightarrow> literal_value \<Rightarrow> bool" where
  "lit_toBool q l = (if l = NullLiteral then False else variant_toBool q (lit_variant l))"

definition lit_toDouble :: "qt \<Rightarrow> literal_value \<Rightarrow> u64" where
  "lit_toDouble q l = (if l = NullLiteral then 0 else fst (variant_toDouble q (lit_variant l)))"

definition lit_toByteArray :: "qt \<Rightarrow> literal_value \<Rightarrow> qbytes" where
  "lit_toByteArray q l = (if l = NullLiteral then [] else variant_toByteArray q (lit_variant l))"

subsection \<open>Equality and hash\<close>

text \<open>QVariant compares values of one type as that type does; for different types it tries to
  convert, which is \<open>variant_cross_eq\<close>.\<close>

fun variant_eq :: "qt \<Rightarrow> qvariant \<Rightarrow> qvariant \<Rightarrow> bool" where
  "variant_eq q (VDouble a) (VDouble b) = dbl_eq a b"
| "variant_eq q a b = (if variant_type a = variant_type b then a = b else variant_cross_eq q a b)"

definition lit_eq :: "qt \<Rightarrow> literal_value \<Rightarrow> literal_value \<Rightarrow> bool" where
  "lit_eq q a b =
     (if \<not> variant_eq q (lit_variant a) (lit_variant b) \<or> lit_isPlain a \<noteq> lit_isPlain b then False
      else if lit_isPlain a then tag_eq (lit_language a) (lit_language b)
      else dataTypeUri a = dataTypeUri b)"

definition lit_neq :: "qt \<Rightarrow> literal_value \<Rightarrow> literal_value \<Rightarrow> bool" where
  "lit_neq q a b =
     (if \<not> variant_eq q (lit_variant a) (lit_variant b) \<or> lit_isPlain a \<noteq> lit_isPlain b then True
      else if lit_isPlain a then tag_neq (lit_language a) (lit_language b)
      else dataTypeUri a \<noteq> dataTypeUri b)"

definition tag_hash :: "qt \<Rightarrow> language_tag \<Rightarrow> u32" where
  "tag_hash q t = hash_string q (tag_toString t)"

definition lit_hash :: "qt \<Rightarrow> literal_value \<Rightarrow> u32" where
  "lit_hash q l =
     (if lit_isPlain l then not (xor (hash_string q (lit_toString q l)) (tag_hash q (lit_language l)))
      else xor (hash_string q (lit_toString q l)) (hash_url q (dataTypeUri l)))"

subsection \<open>Parsing\<close>

definition toUInt :: "qstring \<Rightarrow> int option" where "toUInt s = parse_in 0 (2 ^ 32 - 1) s"
definition toLongLong :: "qstring \<Rightarrow> int option" where "toLongLong s = parse_in (- (2 ^ 63)) (2 ^ 63 - 1) s"
definition toULongLong :: "qstring \<Rightarrow> int option" where "toULongLong s = parse_in 0 (2 ^ 64 - 1) s"

definition lit_or_null :: "('a \<Rightarrow> literal_value) \<Rightarrow> 'a option \<Rightarrow> literal_value" where
  "lit_or_null f r = (case r of Some x \<Rightarrow> f x | None \<Rightarrow> NullLiteral)"

definition bool_of_string :: "qstring \<Rightarrow> bool option" where
  "bool_of_string s = (case toInt s of
       Some v \<Rightarrow> Some (v \<noteq> 0)
     | None \<Rightarrow>
         if toLower s = ''true'' \<or> toLower s = ''yes'' then Some True
         else if toLower s = ''false'' \<or> toLower s = ''no'' then Some False
         else None)"

fun fromString_type :: "qt \<Rightarrow> qstring \<Rightarrow> vtype \<Rightarrow> literal_value" where
  "fromString_type q s TString = lit_string s"
| "fromString_type q s TDateTime = (let d = fromDateTimeString q s in
     if datetime_valid q d then lit_datetime d else NullLiteral)"
| "fromString_type q s TInt = lit_or_null (lit_int \<circ> word_of_int) (toInt s)"
| "fromString_type q s TLongLong = lit_or_null (lit_int64 \<circ> word_of_int) (toLongLong s)"
| "fromString_type q s TUInt = lit_or_null (lit_uint \<circ> word_of_int) (toUInt s)"
| "fromString_type q s TULongLong = lit_or_null (lit_uint64 \<circ> word_of_int) (toULongLong s)"
| "fromString_type q s TDouble = lit_or_null lit_double (dbl_parse q s)"
| "fromString_type q s TDate = (let d = fromDateString q s in
     if date_valid q d then lit_date d else NullLiteral)"
| "fromString_type q s TTime = (let t = fromTimeString s in
     if time_valid t then lit_time t else NullLiteral)"
| "fromString_type q s TBool = lit_or_null lit_bool (bool_of_string s)"
| "fromString_type q s TByteArray = lit_bytes (fromBase64 q s)"
| "fromString_type q s _ = lit_string s"

fun set_dtUri :: "literal_value \<Rightarrow> qurl \<Rightarrow> literal_value" where
  "set_dtUri (Typed v _) u = Typed v u"
| "set_dtUri l u = l"

definition fromString_uri :: "qt \<Rightarrow> qstring \<Rightarrow> qurl \<Rightarrow> literal_value" where
  "fromString_uri q s type =
     (if url_isEmpty type \<and> s = [] then NullLiteral
      else (let v = fromString_type q s (typeFromDataTypeUri type)
            in if lit_isValid v then set_dtUri v type else v))"

text \<open>Variants whose type only has to be convertible to the one the datatype denotes. Int, UInt
  and Double are converted, other types have to fit exactly, and text is the fallback. An int given
  as xsd:dateTime is a time_t.\<close>

definition fromVariant_converted :: "qt \<Rightarrow> qvariant \<Rightarrow> vtype \<Rightarrow> literal_value \<times> bool" where
  "fromVariant_converted q v t =
     (if t = TInt then (let (x, ok) = variant_toInt q v in (assign_int NullLiteral x, ok))
      else if t = TUInt then (let (x, ok) = variant_toUInt q v in (assign_uint NullLiteral x, ok))
      else if t = TDouble then (let (x, ok) = variant_toDouble q v in (lit_double x, ok))
      else if variant_type v = t then (lit_of_variant v, True)
      else (NullLiteral, False))"

definition fromVariant :: "qt \<Rightarrow> qvariant \<Rightarrow> qurl \<Rightarrow> literal_value" where
  "fromVariant q v dataType =
     (let (time, timeOk) = variant_toInt q v;
          literalType = typeFromDataTypeUri dataType;
          (l, ok) = fromVariant_converted q v literalType
      in if dataType = xsd XsdDateTime \<and> variant_canConvert q v TInt \<and> timeOk
           then lit_datetime (dt_fromTime_t q time)
         else if variant_canConvert q v literalType \<and> lit_isValid l \<and> ok then set_dtUri l dataType
         else fromString_uri q (variant_toText q v) dataType)"

section \<open>Well-formed literals\<close>

text \<open>What the constructors and parsers build: the variant has a printable XML Schema type, and the
  datatype URI is empty, denotes the variant's type, or is unknown to the table and then the
  value is a string.\<close>

fun lit_wf :: "literal_value \<Rightarrow> bool" where
  "lit_wf NullLiteral = True"
| "lit_wf (Plain s l) = tag_wf l"
| "lit_wf (Typed v u) \<longleftrightarrow> v \<noteq> VInvalid \<and> variant_type v \<noteq> TUrl \<and>
     (url_isEmpty u \<or> typeFromDataTypeUri u = variant_type v \<or>
      (variant_type v = TString \<and> typeFromDataTypeUri u = TInvalid))"

lemma type_of_default_uri:
  "t \<noteq> TInvalid \<Longrightarrow> t \<noteq> TUrl \<Longrightarrow>
     typeFromDataTypeUri (dataTypeUriFromType t) = t \<and> \<not> url_isEmpty (dataTypeUriFromType t)"
  by (cases t) (simp_all add: typeFromDataTypeUri_def dataTypeUriFromType_def xsdHash_def variantHash_def)

lemma no_default_uri: "url_isEmpty (dataTypeUriFromType t) \<longleftrightarrow> t = TInvalid \<or> t = TUrl"
  by (cases t) (simp_all add: dataTypeUriFromType_def variantHash_def url_isEmpty_def[of "QUrl []"])

lemma typeFromDataTypeUri_empty [simp]: "typeFromDataTypeUri (QUrl []) = TInvalid"
  by (simp add: typeFromDataTypeUri_def xsdHash_def xsd_def rdf_def xsdNamespace_def rdfNamespace_def)

lemma typeFromDataTypeUri_not_url: "typeFromDataTypeUri u \<noteq> TUrl"
  by (auto simp: typeFromDataTypeUri_def xsdHash_def split: option.splits if_splits)

lemma url_isEmpty_iff: "url_isEmpty u \<longleftrightarrow> u = QUrl []"
  by (cases u) (simp add: url_isEmpty_def)

lemma variant_type_invalid [simp]: "variant_type v = TInvalid \<longleftrightarrow> v = VInvalid"
  by (cases v) simp_all

lemma literal_uri_consistent:
  assumes "lit_wf l" "lit_isValid l" "\<not> lit_isPlain l"
  shows "\<not> url_isEmpty (dataTypeUri l)"
    and "typeFromDataTypeUri (dataTypeUri l) = lit_type l \<or>
         (lit_type l = TString \<and> typeFromDataTypeUri (dataTypeUri l) = TInvalid)"
proof -
  from assms obtain v u where l: "l = Typed v u" and wf: "lit_wf (Typed v u)"
    by (cases l) (auto simp: lit_isValid_def)
  then have "typeFromDataTypeUri (dataTypeUriFromType (variant_type v)) = variant_type v"
    "\<not> url_isEmpty (dataTypeUriFromType (variant_type v))"
    using type_of_default_uri[of "variant_type v"] by auto
  with l wf show "\<not> url_isEmpty (dataTypeUri l)"
    "typeFromDataTypeUri (dataTypeUri l) = lit_type l \<or>
         (lit_type l = TString \<and> typeFromDataTypeUri (dataTypeUri l) = TInvalid)"
    by (auto simp: lit_type_def)
qed

text \<open>the type invariant of literals. Every constructor, every assignment, the parsers and
  the conversion from variants build well-formed literals, and the datatype a well-formed typed literal reports is never
  empty and denotes the type of its value, or is unknown and the value is a string.\<close>

theorem literals_well_formed:
  "lit_wf (lit_of_variant v) \<and> lit_wf (fromString_type q s t) \<and> lit_wf (fromString_uri q s u)
   \<and> lit_wf (fromVariant q v u)
   \<and> (lit_wf l \<longrightarrow> lit_wf (assign_int l i) \<and> lit_wf (assign_uint l j))
   \<and> (lit_wf l \<and> lit_isValid l \<and> \<not> lit_isPlain l \<longrightarrow>
        \<not> url_isEmpty (dataTypeUri l) \<and>
        (typeFromDataTypeUri (dataTypeUri l) = lit_type l \<or>
         (lit_type l = TString \<and> typeFromDataTypeUri (dataTypeUri l) = TInvalid)))"
proof (intro conjI impI)
  show "lit_wf (lit_of_variant v)"
    by (auto simp: lit_of_variant_def Let_def no_default_uri type_of_default_uri)
  show *: "lit_wf (fromString_type q s t)" for t
    by (cases t) (auto simp: lit_ctor_defs lit_or_null_def Let_def url_isEmpty_iff split: option.splits)
  have shape: "fromString_type q s t = NullLiteral \<or> (\<exists>v w. fromString_type q s t = Typed v w \<and>
      variant_type v = (if t = TInvalid \<or> t = TUrl then TString else t))" for s t
    by (cases t) (auto simp: lit_ctor_defs lit_or_null_def Let_def split: option.splits)
  show uri: "lit_wf (fromString_uri q s u)" for s
    using shape[of s "typeFromDataTypeUri u"] typeFromDataTypeUri_not_url[of u]
    by (auto simp: fromString_uri_def Let_def lit_isValid_def split: if_splits)
  have conv: "lit_isValid (fst (fromVariant_converted q v t)) \<Longrightarrow> t \<noteq> TUrl \<Longrightarrow>
      snd (fromVariant_converted q v t) \<Longrightarrow> \<exists>x w. fst (fromVariant_converted q v t) = Typed x w \<and>
        variant_type x = t \<and> x \<noteq> VInvalid" for t
    by (auto simp: fromVariant_converted_def assign_int_def assign_uint_def lit_double_def Let_def
        lit_of_variant_def lit_isValid_def split: prod.splits if_splits)
  show "lit_wf (fromVariant q v u)"
    using conv[of "typeFromDataTypeUri u"] typeFromDataTypeUri_not_url[of u]
      uri[of "variant_toText q v"]
    by (auto simp: fromVariant_def lit_datetime_def url_isEmpty_iff Let_def split: prod.splits)
  show "lit_wf (assign_int l i)" "lit_wf (assign_uint l j)"
    by (auto simp: assign_int_def assign_uint_def Let_def url_isEmpty_iff)
  assume "lit_wf l \<and> lit_isValid l \<and> \<not> lit_isPlain l"
  then show "\<not> url_isEmpty (dataTypeUri l)"
    "typeFromDataTypeUri (dataTypeUri l) = lit_type l \<or>
         (lit_type l = TString \<and> typeFromDataTypeUri (dataTypeUri l) = TInvalid)"
    using literal_uri_consistent[of l] by blast+
qed

theorem literals_well_formed_witness:
  "\<not> url_isEmpty (dataTypeUri (lit_int 3)) \<and> lit_wf (assign_int (Typed (VInt 3) (xsd XsdInteger)) 4)"
  using literals_well_formed[of VInvalid plain_qt "[]" TInvalid "QUrl []" "lit_int 3" 4 0]
    literals_well_formed[of VInvalid plain_qt "[]" TInvalid "QUrl []" "Typed (VInt 3) (xsd XsdInteger)" 4 0]
  by (simp add: lit_int_def lit_isValid_def url_isEmpty_def typeFromDataTypeUri_def xsdHash_def)

section \<open>Round trip through text\<close>

text \<open>The values whose printed form determines them: valid dates and times, and doubles that Qt's
  11-digit notation does not round.\<close>

fun variant_printable :: "qt \<Rightarrow> qvariant \<Rightarrow> bool" where
  "variant_printable q VInvalid = False"
| "variant_printable q (VUrl u) = False"
| "variant_printable q (VDouble x) \<longleftrightarrow> dbl_parse q (dbl_toString q x) = Some x"
| "variant_printable q (VDate d) \<longleftrightarrow> date_valid q d"
| "variant_printable q (VTime t) \<longleftrightarrow> time_valid t"
| "variant_printable q (VDateTime t) \<longleftrightarrow> datetime_valid q t"
| "variant_printable q _ = True"

lemma show_int_nat: "show_int (int n) = show_nat n"
  by (simp add: show_int_def)

lemma toInt_sint: "toInt (show_int (sint (i :: 32 word))) = Some (sint i)"
  using sint_greater_eq[of i] sint_less[of i] by (simp add: toInt_def parse_in_def)

lemma toLongLong_sint: "toLongLong (show_int (sint (i :: 64 word))) = Some (sint i)"
  using sint_greater_eq[of i] sint_less[of i] by (simp add: toLongLong_def parse_in_def)

lemma parse_int_show_nat [simp]: "parse_int (show_nat n) = Some (int n)"
  using parse_int_show_int[of "int n"] by (simp only: show_int_nat)

lemma toUInt_unat: "toUInt (show_nat (unat (i :: 32 word))) = Some (uint i)"
  using uint_lt2p[of i] by (simp add: toUInt_def parse_in_def)

lemma toULongLong_unat: "toULongLong (show_nat (unat (i :: 64 word))) = Some (uint i)"
  using uint_lt2p[of i] by (simp add: toULongLong_def parse_in_def)

lemma bool_of_string_words:
  "bool_of_string ''true'' = Some True" "bool_of_string ''false'' = Some False"
  by code_simp+

lemma fromString_toString:
  assumes "qt_date_ok q" "qt_base64_ok q" "variant_printable q v"
  shows "fromString_type q (variant_toString q v) (variant_type v) = Typed v (QUrl [])"
proof (cases v)
  case (VBool b)
  then show ?thesis by (cases b) (simp_all add: bool_of_string_words lit_ctor_defs lit_or_null_def)
next
  case (VDateTime t)
  with assms show ?thesis by (simp add: datetime_roundtrip_core lit_ctor_defs)
next
  case (VByteArray b)
  with assms show ?thesis by (simp add: qt_base64_ok_def lit_ctor_defs)
qed (use assms in \<open>simp_all add: lit_ctor_defs lit_or_null_def toInt_sint toLongLong_sint toUInt_unat
       toULongLong_unat date_roundtrip_core time_roundtrip_core\<close>)

lemma literal_text_roundtrip_core:
  assumes "qt_date_ok q" "qt_base64_ok q" "lit_wf (Typed v u)" "variant_printable q v"
  shows "fromString_uri q (lit_toString q (Typed v u)) (dataTypeUri (Typed v u)) =
           Typed v (dataTypeUri (Typed v u))"
proof -
  let ?u = "dataTypeUri (Typed v u)"
  have wf: "\<not> url_isEmpty ?u" "typeFromDataTypeUri ?u = variant_type v \<or>
      (variant_type v = TString \<and> typeFromDataTypeUri ?u = TInvalid)"
    using assms(3) literal_uri_consistent[of "Typed v u"] by (auto simp: lit_isValid_def lit_type_def)
  have "fromString_type q (variant_toString q v) (typeFromDataTypeUri ?u) = Typed v (QUrl [])"
    using wf(2) fromString_toString[OF assms(1,2,4)] by (auto simp: lit_string_def)
  with wf(1) assms(3) show ?thesis
    by (simp add: fromString_uri_def lit_toString_def lit_isValid_def)
qed

text \<open>literals survive the text form that serialisers and parsers exchange. Parsing the
  printed value of a well-formed typed literal under the datatype it reports gives an equal
  literal with that datatype, for integers of every width, booleans, strings, custom datatypes,
  dates, times, datetimes, base64 data and every double its notation represents.\<close>

theorem literal_text_roundtrip:
  assumes "qt_date_ok q" "qt_base64_ok q" "lit_wf (Typed v u)" "variant_printable q v"
  shows "fromString_uri q (lit_toString q (Typed v u)) (dataTypeUri (Typed v u)) =
           Typed v (dataTypeUri (Typed v u))"
  using assms by (rule literal_text_roundtrip_core)

theorem literal_text_roundtrip_witness:
  "fromString_uri plain_qt (lit_toString plain_qt (Typed (VInt (- 7)) (xsd XsdNegativeInteger)))
     (dataTypeUri (Typed (VInt (- 7)) (xsd XsdNegativeInteger))) =
   Typed (VInt (- 7)) (dataTypeUri (Typed (VInt (- 7)) (xsd XsdNegativeInteger)))"
  by (rule literal_text_roundtrip)
     (simp_all add: plain_qt_ok typeFromDataTypeUri_def xsdHash_def)

section \<open>Equality and hash\<close>

lemma variant_eq_same_type:
  "variant_type a = variant_type b \<Longrightarrow> variant_eq q a b \<longleftrightarrow>
     (case (a, b) of (VDouble x, VDouble y) \<Rightarrow> dbl_eq x y | _ \<Rightarrow> a = b)"
  by (cases a; cases b) auto

lemma tag_neq_iff: "tag_neq a b \<longleftrightarrow> \<not> tag_eq a b"
  unfolding tag_neq_def tag_eq_def by (auto split: option.splits)

lemma lit_neq_iff: "lit_neq q a b \<longleftrightarrow> \<not> lit_eq q a b"
  by (simp add: lit_neq_def lit_eq_def tag_neq_iff)

lemma lit_eq_wf:
  assumes "lit_wf a" "lit_wf b" "lit_isValid a" "lit_isValid b"
  shows "lit_eq q a b \<longleftrightarrow> lit_isPlain a = lit_isPlain b \<and> lit_language a = lit_language b \<and>
     dataTypeUri a = dataTypeUri b \<and> lit_type a = lit_type b \<and> variant_eq q (lit_variant a) (lit_variant b)"
proof (cases "lit_isPlain a \<or> lit_isPlain b")
  case True
  with assms show ?thesis
    by (cases a; cases b) (auto simp: lit_eq_def lit_type_def lit_isValid_def tag_eq_def)
next
  case False
  then have typed: "\<not> lit_isPlain a" "\<not> lit_isPlain b" by auto
  then have lang: "lit_language a = lit_language b" by (cases a; cases b) simp_all
  have ne: "lit_type a \<noteq> TInvalid" "lit_type b \<noteq> TInvalid"
    using assms(3,4) by (simp_all add: lit_type_def lit_isValid_def)
  have "lit_type a = lit_type b" if "dataTypeUri a = dataTypeUri b"
    using literal_uri_consistent(2)[OF assms(1,3) typed(1)]
      literal_uri_consistent(2)[OF assms(2,4) typed(2)] ne that by metis
  with lang typed show ?thesis by (simp add: lit_eq_def) blast
qed

lemma literal_hash_eq:
  assumes "lit_wf a" "lit_wf b" "lit_isValid a" "lit_isValid b" "lit_eq q a b" "lit_type a \<noteq> TDouble"
  shows "lit_hash q a = lit_hash q b"
proof -
  from assms have *: "lit_isPlain a = lit_isPlain b" "lit_language a = lit_language b"
     "dataTypeUri a = dataTypeUri b" "lit_type a = lit_type b" "variant_eq q (lit_variant a) (lit_variant b)"
    by (auto simp: lit_eq_wf)
  then have "lit_variant a = lit_variant b"
    using assms(6) by (cases "lit_variant a"; cases "lit_variant b") (auto simp: lit_type_def)
  with * show ?thesis by (simp add: lit_hash_def lit_toString_def)
qed

text \<open>equality of literals. For well-formed values, operator== holds exactly when both are
  plain or both typed, with the same language, the same datatype, the same variant type and
  equal values; Qt's conversions between variant types never decide it. operator!= is its
  negation. Equal values that are not doubles have the same hash, so literals are found in
  hash containers.\<close>

theorem literal_equality:
  assumes "lit_wf a" "lit_wf b" "lit_isValid a" "lit_isValid b"
  shows "(lit_eq q a b \<longleftrightarrow> lit_isPlain a = lit_isPlain b \<and> lit_language a = lit_language b \<and>
            dataTypeUri a = dataTypeUri b \<and> lit_type a = lit_type b \<and>
            variant_eq q (lit_variant a) (lit_variant b))
       \<and> (lit_neq q a b \<longleftrightarrow> \<not> lit_eq q a b)
       \<and> (lit_eq q a b \<and> lit_type a \<noteq> TDouble \<longrightarrow> lit_hash q a = lit_hash q b)"
  using lit_eq_wf[OF assms] lit_neq_iff literal_hash_eq[OF assms] by blast

theorem literal_equality_witness:
  "lit_hash plain_qt (lit_int 5) = lit_hash plain_qt (Typed (VInt 5) (xsd XsdInt))"
  using literal_equality[of "lit_int 5" "Typed (VInt 5) (xsd XsdInt)" plain_qt]
  by (simp add: lit_int_def url_isEmpty_def typeFromDataTypeUri_def xsdHash_def lit_isValid_def
      dataTypeUriFromType_def variantHash_def lit_type_def)

end
