(* ===== verification/Rdf_Node.thy ===== *)
theory Rdf_Node
  imports Literal_Value
begin

text \<open>
  RDF nodes and statements (soprano/node.cpp, soprano/statement.cpp): construction, type tests,
  access, equality, pattern matching, hashing and the N3 text of a node. The shared data pointer of
  a node is null for the empty node; the constructors map empty URIs, empty identifiers and invalid
  literals to it.
\<close>

section \<open>Nodes\<close>

datatype node =
    EmptyNode
  | ResourceNode qurl
  | BlankNode qstring
  | LiteralNode literal_value

datatype node_type = KEmpty | KResource | KLiteral | KBlank

fun node_kind :: "node \<Rightarrow> node_type" where
  "node_kind EmptyNode = KEmpty"
| "node_kind (ResourceNode u) = KResource"
| "node_kind (BlankNode i) = KBlank"
| "node_kind (LiteralNode l) = KLiteral"

text \<open>The numbers of Node::Type.\<close>

fun node_kind_code :: "node_type \<Rightarrow> nat" where
  "node_kind_code KEmpty = 0"
| "node_kind_code KResource = 1"
| "node_kind_code KLiteral = 2"
| "node_kind_code KBlank = 3"

definition node_of_url :: "qurl \<Rightarrow> node" where
  "node_of_url u = (if \<not> url_isEmpty u then ResourceNode u else EmptyNode)"

definition node_of_id :: "qstring \<Rightarrow> node" where
  "node_of_id i = (if i \<noteq> [] then BlankNode i else EmptyNode)"

definition node_of_literal :: "literal_value \<Rightarrow> node" where
  "node_of_literal l = (if lit_isValid l then LiteralNode l else EmptyNode)"

definition node_of_literal_lang :: "qt \<Rightarrow> literal_value \<Rightarrow> qstring \<Rightarrow> node" where
  "node_of_literal_lang q l lang =
     (if lit_isValid l then
        LiteralNode (if lang = [] then l else createPlainLiteral (lit_toString q l) (tag_of_string lang))
      else EmptyNode)"

definition createLiteralNode :: "qt \<Rightarrow> literal_value \<Rightarrow> qstring \<Rightarrow> node" where
  "createLiteralNode q l lang = node_of_literal (createPlainLiteral (lit_toString q l) (tag_of_string lang))"

definition node_isEmpty :: "node \<Rightarrow> bool" where "node_isEmpty n \<longleftrightarrow> node_kind n = KEmpty"
definition node_isValid :: "node \<Rightarrow> bool" where "node_isValid n \<longleftrightarrow> \<not> node_isEmpty n"
definition node_isLiteral :: "node \<Rightarrow> bool" where "node_isLiteral n \<longleftrightarrow> node_kind n = KLiteral"
definition node_isResource :: "node \<Rightarrow> bool" where "node_isResource n \<longleftrightarrow> node_kind n = KResource"
definition node_isBlank :: "node \<Rightarrow> bool" where "node_isBlank n \<longleftrightarrow> node_kind n = KBlank"

lemmas node_test_defs = node_isEmpty_def node_isValid_def node_isLiteral_def node_isResource_def node_isBlank_def

fun node_uri :: "node \<Rightarrow> qurl" where
  "node_uri (ResourceNode u) = u"
| "node_uri _ = QUrl []"

fun node_identifier :: "node \<Rightarrow> qstring" where
  "node_identifier (BlankNode i) = i"
| "node_identifier _ = []"

fun node_literal :: "node \<Rightarrow> literal_value" where
  "node_literal (LiteralNode l) = l"
| "node_literal _ = NullLiteral"

fun node_dataType :: "node \<Rightarrow> qurl" where
  "node_dataType (LiteralNode l) = dataTypeUri l"
| "node_dataType _ = QUrl []"

definition node_language :: "node \<Rightarrow> qstring" where
  "node_language n = tag_toString (lit_language (node_literal n))"

fun node_toString :: "qt \<Rightarrow> node \<Rightarrow> qstring" where
  "node_toString q EmptyNode = []"
| "node_toString q (ResourceNode u) = url_toString q u"
| "node_toString q (BlankNode i) = i"
| "node_toString q (LiteralNode l) = lit_toString q l"

subsection \<open>Equality, matching and hash\<close>

definition node_eq :: "qt \<Rightarrow> node \<Rightarrow> node \<Rightarrow> bool" where
  "node_eq q a b =
     (if node_kind a \<noteq> node_kind b then False
      else case node_kind a of
        KResource \<Rightarrow> node_uri a = node_uri b
      | KBlank \<Rightarrow> node_identifier a = node_identifier b
      | KLiteral \<Rightarrow> lit_eq q (node_literal a) (node_literal b)
      | KEmpty \<Rightarrow> True)"

definition node_neq :: "qt \<Rightarrow> node \<Rightarrow> node \<Rightarrow> bool" where
  "node_neq q a b =
     (if node_kind a \<noteq> node_kind b then True
      else case node_kind a of
        KResource \<Rightarrow> node_uri a \<noteq> node_uri b
      | KBlank \<Rightarrow> node_identifier a \<noteq> node_identifier b
      | KLiteral \<Rightarrow> lit_neq q (node_literal a) (node_literal b)
      | KEmpty \<Rightarrow> False)"

text \<open>The second argument is the pattern.\<close>

definition node_matches :: "qt \<Rightarrow> node \<Rightarrow> node \<Rightarrow> bool" where
  "node_matches q a other = (if node_isEmpty other then True else node_eq q a other)"

definition rotate_bits :: "nat \<Rightarrow> u32 \<Rightarrow> u32" where
  "rotate_bits k h = or (push_bit k h) (drop_bit (32 - k) h)"

definition node_hash :: "qt \<Rightarrow> node \<Rightarrow> u32" where
  "node_hash q n =
     (let hashVal = (case n of
           EmptyNode \<Rightarrow> 0
         | ResourceNode u \<Rightarrow> hash_url q u
         | LiteralNode l \<Rightarrow> lit_hash q l
         | BlankNode i \<Rightarrow> hash_string q i);
          typeInt = node_kind_code (node_kind n) mod 32
      in rotate_bits typeInt hashVal)"

section \<open>Statements\<close>

record statement =
  subject :: node
  predicate :: node
  object :: node
  context_node :: node

definition mk_statement :: "node \<Rightarrow> node \<Rightarrow> node \<Rightarrow> node \<Rightarrow> statement" where
  "mk_statement s p ob c = \<lparr> subject = s, predicate = p, object = ob, context_node = c \<rparr>"

definition empty_statement :: statement where
  "empty_statement = mk_statement EmptyNode EmptyNode EmptyNode EmptyNode"

definition stmt_eq :: "qt \<Rightarrow> statement \<Rightarrow> statement \<Rightarrow> bool" where
  "stmt_eq q a b \<longleftrightarrow> node_eq q (subject a) (subject b) \<and> node_eq q (predicate a) (predicate b) \<and>
     node_eq q (object a) (object b) \<and> node_eq q (context_node a) (context_node b)"

definition stmt_neq :: "qt \<Rightarrow> statement \<Rightarrow> statement \<Rightarrow> bool" where
  "stmt_neq q a b \<longleftrightarrow> node_neq q (subject a) (subject b) \<or> node_neq q (predicate a) (predicate b) \<or>
     node_neq q (object a) (object b) \<or> node_neq q (context_node a) (context_node b)"

definition stmt_matches :: "qt \<Rightarrow> statement \<Rightarrow> statement \<Rightarrow> bool" where
  "stmt_matches q a other \<longleftrightarrow> node_matches q (subject a) (subject other) \<and>
     node_matches q (predicate a) (predicate other) \<and> node_matches q (object a) (object other) \<and>
     node_matches q (context_node a) (context_node other)"

definition setSubject :: "node \<Rightarrow> statement \<Rightarrow> statement" where "setSubject n s = s\<lparr>subject := n\<rparr>"
definition setPredicate :: "node \<Rightarrow> statement \<Rightarrow> statement" where "setPredicate n s = s\<lparr>predicate := n\<rparr>"
definition setObject :: "node \<Rightarrow> statement \<Rightarrow> statement" where "setObject n s = s\<lparr>object := n\<rparr>"
definition setContext :: "node \<Rightarrow> statement \<Rightarrow> statement" where "setContext n s = s\<lparr>context_node := n\<rparr>"

definition stmt_isValid :: "statement \<Rightarrow> bool" where
  "stmt_isValid s =
     (let valid = (node_isResource (subject s) \<or> node_isBlank (subject s)) \<and>
                  node_isResource (predicate s) \<and> node_isValid (object s)
      in if node_isValid (context_node s) then valid \<and> node_isResource (context_node s) else valid)"

definition stmt_hash :: "qt \<Rightarrow> statement \<Rightarrow> u32" where
  "stmt_hash q s = xor (xor (xor (node_hash q (subject s)) (node_hash q (predicate s)))
     (node_hash q (object s))) (node_hash q (context_node s))"

section \<open>N3 text\<close>

definition resourceToN3 :: "qurl \<Rightarrow> qstring" where
  "resourceToN3 u = ''<'' @ encoded u @ ''>''"

definition blankToN3 :: "qstring \<Rightarrow> qstring" where
  "blankToN3 b = (if b = [] then b else ''_:'' @ b)"

definition escapeHash :: "(char \<times> qstring) list" where
  "escapeHash = [
     (bslash, [bslash, bslash]),
     (newline, [bslash, CHR ''n'']),
     (creturn, [bslash, CHR ''r'']),
     (CHR 0x08, [bslash, CHR ''b'']),
     (CHR 0x09, [bslash, CHR ''t'']),
     (CHR 0x0C, [bslash, CHR ''f'']),
     (dquote, [bslash, dquote]),
     (CHR 0x27, [bslash, CHR 0x27])]"

definition escape_char :: "char \<Rightarrow> qstring" where
  "escape_char ch = (case map_of escapeHash ch of Some e \<Rightarrow> e | None \<Rightarrow> [ch])"

definition escape_text :: "qstring \<Rightarrow> qstring" where
  "escape_text s = concat (map escape_char s)"

text \<open>The datatype text is looked up in a process-wide table keyed by the variant type; the table is
  threaded through as a state.\<close>

type_synonym type_cache = "vtype \<rightharpoonup> qstring"

definition literalToN3 :: "qt \<Rightarrow> literal_value \<Rightarrow> type_cache \<Rightarrow> qstring \<times> type_cache" where
  "literalToN3 q l typeHash =
     (let s = escape_text (lit_toString q l);
          quote = [dquote]
      in if lit_isPlain l then
           (if tag_empty (lit_language l) then (quote @ s @ quote, typeHash)
            else (quote @ s @ quote @ ''@'' @ tag_toString (lit_language l), typeHash))
         else
           (case typeHash (lit_type l) of
              None \<Rightarrow> let type = encoded (dataTypeUri l) in
                (quote @ s @ quote @ ''^^<'' @ type @ ''>'', typeHash(lit_type l \<mapsto> type))
            | Some type \<Rightarrow> (quote @ s @ quote @ ''^^<'' @ type @ ''>'', typeHash)))"

fun node_toN3 :: "qt \<Rightarrow> node \<Rightarrow> type_cache \<Rightarrow> qstring \<times> type_cache" where
  "node_toN3 q EmptyNode c = ([], c)"
| "node_toN3 q (ResourceNode u) c = (resourceToN3 u, c)"
| "node_toN3 q (BlankNode i) c = (blankToN3 i, c)"
| "node_toN3 q (LiteralNode l) c = literalToN3 q l c"

section \<open>Well-formed nodes\<close>

fun node_wf :: "node \<Rightarrow> bool" where
  "node_wf EmptyNode = True"
| "node_wf (ResourceNode u) \<longleftrightarrow> \<not> url_isEmpty u"
| "node_wf (BlankNode i) \<longleftrightarrow> i \<noteq> []"
| "node_wf (LiteralNode l) \<longleftrightarrow> lit_wf l \<and> lit_isValid l"

definition stmt_wf :: "statement \<Rightarrow> bool" where
  "stmt_wf s \<longleftrightarrow> node_wf (subject s) \<and> node_wf (predicate s) \<and> node_wf (object s) \<and> node_wf (context_node s)"

fun node_has_double :: "node \<Rightarrow> bool" where
  "node_has_double (LiteralNode l) \<longleftrightarrow> lit_type l = TDouble"
| "node_has_double _ \<longleftrightarrow> False"

lemma node_ctor_wf [simp]:
  "node_wf (node_of_url u)" "node_wf (node_of_id i)" "lit_wf l \<Longrightarrow> node_wf (node_of_literal l)"
  "lit_wf l \<Longrightarrow> node_wf (node_of_literal_lang q l lang)" "node_wf (createLiteralNode q l lang)"
  by (simp_all add: node_of_url_def node_of_id_def node_of_literal_def node_of_literal_lang_def
      createLiteralNode_def createPlainLiteral_def lit_isValid_def)

lemma node_eq_simps [simp]:
  "node_eq q EmptyNode n \<longleftrightarrow> n = EmptyNode" "node_eq q n EmptyNode \<longleftrightarrow> n = EmptyNode"
  "node_eq q (ResourceNode u) n \<longleftrightarrow> n = ResourceNode u" "node_eq q n (ResourceNode u) \<longleftrightarrow> n = ResourceNode u"
  "node_eq q (BlankNode i) n \<longleftrightarrow> n = BlankNode i" "node_eq q n (BlankNode i) \<longleftrightarrow> n = BlankNode i"
  "node_eq q (LiteralNode l) (LiteralNode m) \<longleftrightarrow> lit_eq q l m"
  by (cases n; auto simp: node_eq_def)+

lemma node_neq_iff: "node_neq q a b \<longleftrightarrow> \<not> node_eq q a b"
  by (cases a; cases b) (simp_all add: node_neq_def node_eq_def lit_neq_iff)

lemma stmt_neq_iff: "stmt_neq q a b \<longleftrightarrow> \<not> stmt_eq q a b"
  by (auto simp: stmt_neq_def stmt_eq_def node_neq_iff)

lemma dbl_eq_sym: "dbl_eq a b \<Longrightarrow> dbl_eq b a" by (auto simp: dbl_eq_def)
lemma dbl_eq_trans: "dbl_eq a b \<Longrightarrow> dbl_eq b c \<Longrightarrow> dbl_eq a c" by (auto simp: dbl_eq_def)

lemma variant_eq_sym: "variant_type a = variant_type b \<Longrightarrow> variant_eq q a b \<Longrightarrow> variant_eq q b a"
  by (cases a; cases b) (auto dest: dbl_eq_sym)

lemma variant_eq_trans:
  "variant_type a = variant_type b \<Longrightarrow> variant_type b = variant_type c \<Longrightarrow>
     variant_eq q a b \<Longrightarrow> variant_eq q b c \<Longrightarrow> variant_eq q a c"
  by (cases a; cases b; cases c) (auto dest: dbl_eq_trans)

lemma lit_eq_sym:
  assumes "lit_wf a" "lit_wf b" "lit_isValid a" "lit_isValid b" "lit_eq q a b"
  shows "lit_eq q b a"
  using assms variant_eq_sym[of "lit_variant a" "lit_variant b"]
  by (simp add: lit_eq_wf lit_type_def)

lemma lit_eq_trans:
  assumes "lit_wf a" "lit_wf b" "lit_wf c" "lit_isValid a" "lit_isValid b" "lit_isValid c"
    and "lit_eq q a b" "lit_eq q b c"
  shows "lit_eq q a c"
  using assms variant_eq_trans[of "lit_variant a" "lit_variant b" "lit_variant c"]
  by (simp add: lit_eq_wf lit_type_def)

lemma node_eq_sym: "node_wf a \<Longrightarrow> node_wf b \<Longrightarrow> node_eq q a b \<Longrightarrow> node_eq q b a"
  by (cases a; cases b) (auto intro: lit_eq_sym)

lemma node_eq_trans:
  "node_wf a \<Longrightarrow> node_wf b \<Longrightarrow> node_wf c \<Longrightarrow> node_eq q a b \<Longrightarrow> node_eq q b c \<Longrightarrow> node_eq q a c"
  by (cases a; cases b; cases c) (auto intro: lit_eq_trans)

lemma node_hash_eq:
  "node_wf a \<Longrightarrow> node_wf b \<Longrightarrow> node_eq q a b \<Longrightarrow> \<not> node_has_double a \<Longrightarrow> node_hash q a = node_hash q b"
  by (cases a; cases b) (auto simp: node_hash_def literal_hash_eq)

lemma stmt_hash_eq:
  assumes "stmt_wf a" "stmt_wf b" "stmt_eq q a b" "\<not> node_has_double (object a)"
    "\<not> node_has_double (subject a)" "\<not> node_has_double (predicate a)" "\<not> node_has_double (context_node a)"
  shows "stmt_hash q a = stmt_hash q b"
proof -
  have "node_hash q (f a) = node_hash q (f b)"
    if "node_wf (f a)" "node_wf (f b)" "node_eq q (f a) (f b)" "\<not> node_has_double (f a)" for f
    using that by (rule node_hash_eq)
  with assms show ?thesis by (simp add: stmt_wf_def stmt_eq_def stmt_hash_def)
qed

text \<open>A valid statement can hold a double in its object only.\<close>

lemma stmt_valid_doubles:
  assumes "stmt_isValid s"
  shows "\<not> node_has_double (subject s)" "\<not> node_has_double (predicate s)" "\<not> node_has_double (context_node s)"
  using assms
  by (cases "subject s"; cases "predicate s"; cases "context_node s";
      simp add: stmt_isValid_def node_test_defs)+

text \<open>equality of nodes and statements. On the values the constructors build, operator==
  of statements is symmetric and transitive, operator!= is its negation, validity does not distinguish
  equal statements, and equal valid statements whose object is not a double have the same hash, so a
  QSet of statements identifies them.\<close>

theorem statement_equality:
  assumes "stmt_wf a" "stmt_wf b" "stmt_wf c"
  shows "(stmt_eq q a b \<longrightarrow> stmt_eq q b a)
       \<and> (stmt_eq q a b \<and> stmt_eq q b c \<longrightarrow> stmt_eq q a c)
       \<and> (stmt_neq q a b \<longleftrightarrow> \<not> stmt_eq q a b)
       \<and> (stmt_eq q a b \<longrightarrow> stmt_isValid a = stmt_isValid b)
       \<and> (stmt_eq q a b \<and> stmt_isValid a \<and> \<not> node_has_double (object a) \<longrightarrow> stmt_hash q a = stmt_hash q b)"
proof (intro conjI impI)
  show "stmt_neq q a b \<longleftrightarrow> \<not> stmt_eq q a b" by (rule stmt_neq_iff)
  assume ab: "stmt_eq q a b"
  show "stmt_eq q b a"
    using ab assms(1,2) by (simp add: stmt_eq_def stmt_wf_def node_eq_sym)
  have kinds: "node_kind (f a) = node_kind (f b)" if "node_eq q (f a) (f b)" for f
    using that by (simp add: node_eq_def split: if_splits)
  show "stmt_isValid a = stmt_isValid b"
    using ab kinds[of subject] kinds[of predicate] kinds[of object] kinds[of context_node]
    by (simp add: stmt_isValid_def node_test_defs stmt_eq_def)
next
  assume "stmt_eq q a b \<and> stmt_eq q b c"
  then show "stmt_eq q a c"
    using assms unfolding stmt_eq_def stmt_wf_def by (metis node_eq_trans)
next
  assume "stmt_eq q a b \<and> stmt_isValid a \<and> \<not> node_has_double (object a)"
  then show "stmt_hash q a = stmt_hash q b"
    using assms stmt_valid_doubles[of a] by (intro stmt_hash_eq) auto
qed

theorem statement_equality_witness:
  "stmt_hash plain_qt (mk_statement (ResourceNode (QUrl ''a:b'')) (ResourceNode (QUrl ''a:p''))
       (LiteralNode (lit_int 5)) EmptyNode) =
   stmt_hash plain_qt (mk_statement (ResourceNode (QUrl ''a:b'')) (ResourceNode (QUrl ''a:p''))
       (LiteralNode (Typed (VInt 5) (xsd XsdInt))) EmptyNode)" (is "stmt_hash _ ?a = stmt_hash _ ?b")
proof -
  have wf: "stmt_wf ?a" "stmt_wf ?b"
    by (simp_all add: stmt_wf_def mk_statement_def url_isEmpty_def lit_int_def lit_isValid_def
        typeFromDataTypeUri_def xsdHash_def)
  have "lit_eq plain_qt (lit_int 5) (Typed (VInt 5) (xsd XsdInt))"
    by (simp add: lit_eq_def lit_int_def url_isEmpty_def dataTypeUriFromType_def variantHash_def)
  moreover have "stmt_isValid ?a" by (simp add: stmt_isValid_def mk_statement_def node_test_defs)
  ultimately show ?thesis
    using statement_equality[OF wf wf(2), of plain_qt]
    by (simp add: stmt_eq_def mk_statement_def lit_type_def lit_int_def)
qed

text \<open>matching against a pattern is invariant under equality on both sides: replacing a
  statement, or the pattern, by an equal one never changes the answer, and making a node of the
  pattern empty never loses a match. So the contents of a store may be identified up to operator==.\<close>

theorem matching_respects_equality:
  assumes "stmt_wf s" "stmt_wf s'" "stmt_wf p" "stmt_wf p'" "stmt_eq q s s'" "stmt_eq q p p'"
  shows "stmt_matches q s p = stmt_matches q s' p'
       \<and> stmt_matches q s empty_statement
       \<and> (stmt_matches q s p \<longrightarrow> stmt_matches q s (setSubject EmptyNode p) \<and>
            stmt_matches q s (setPredicate EmptyNode p) \<and> stmt_matches q s (setObject EmptyNode p) \<and>
            stmt_matches q s (setContext EmptyNode p))"
proof -
  have node: "node_matches q (f s) (f p) = node_matches q (f s') (f p')"
    if "node_wf (f s)" "node_wf (f s')" "node_wf (f p)" "node_wf (f p')"
      "node_eq q (f s) (f s')" "node_eq q (f p) (f p')" for f
  proof -
    have "node_isEmpty (f p) = node_isEmpty (f p')"
      using that(6) by (simp add: node_eq_def node_isEmpty_def split: if_splits)
    moreover have "node_eq q (f s) (f p) = node_eq q (f s') (f p')"
      using that by (meson node_eq_sym node_eq_trans)
    ultimately show ?thesis by (simp add: node_matches_def)
  qed
  have "stmt_matches q s p = stmt_matches q s' p'"
    using assms node[of subject] node[of predicate] node[of object] node[of context_node]
    by (simp add: stmt_matches_def stmt_wf_def stmt_eq_def)
  moreover have empty: "node_matches q n EmptyNode" for n by (simp add: node_matches_def node_isEmpty_def)
  moreover have "stmt_matches q s empty_statement"
    and "stmt_matches q s p \<longrightarrow> stmt_matches q s (setSubject EmptyNode p) \<and>
            stmt_matches q s (setPredicate EmptyNode p) \<and> stmt_matches q s (setObject EmptyNode p) \<and>
            stmt_matches q s (setContext EmptyNode p)"
    by (simp_all add: empty stmt_matches_def empty_statement_def mk_statement_def setSubject_def
        setPredicate_def setObject_def setContext_def)
  ultimately show ?thesis by blast
qed

theorem matching_respects_equality_witness:
  "stmt_matches plain_qt
     (mk_statement (ResourceNode (QUrl ''a:b'')) (ResourceNode (QUrl ''a:p'')) (LiteralNode (Typed (VInt 5) (xsd XsdInt))) EmptyNode)
     (mk_statement EmptyNode EmptyNode (LiteralNode (lit_int 5)) EmptyNode)"
   (is "stmt_matches _ ?s ?p")
proof -
  let ?s' = "mk_statement (ResourceNode (QUrl ''a:b'')) (ResourceNode (QUrl ''a:p'')) (LiteralNode (lit_int 5)) EmptyNode"
  have wf: "stmt_wf ?s" "stmt_wf ?s'" "stmt_wf ?p"
    by (simp_all add: stmt_wf_def mk_statement_def url_isEmpty_def lit_int_def lit_isValid_def
        typeFromDataTypeUri_def xsdHash_def)
  have "stmt_eq plain_qt ?s ?s'" "stmt_eq plain_qt ?p ?p"
    by (simp_all add: stmt_eq_def mk_statement_def lit_eq_def lit_int_def url_isEmpty_def
        dataTypeUriFromType_def variantHash_def)
  moreover have "stmt_matches plain_qt ?s' ?p"
    by (simp add: stmt_matches_def node_matches_def mk_statement_def node_isEmpty_def lit_eq_def lit_int_def)
  ultimately show ?thesis
    using matching_respects_equality[OF wf(1,2,3,3)] by simp
qed

text \<open>The type table: once a literal of some variant type was printed, every later literal of that
  variant type is printed with the first one's datatype, whatever its own datatype is.\<close>

lemma cached_datatype_wins:
  "let (_, c) = literalToN3 plain_qt (lit_int 5) Map.empty
   in fst (literalToN3 plain_qt (Typed (VInt 7) (xsd XsdInteger)) c) \<noteq>
      fst (literalToN3 plain_qt (Typed (VInt 7) (xsd XsdInteger)) Map.empty)"
  by code_simp

end
