(* ===== verification/Soprano_Error.thy ===== *)
theory Soprano_Error
  imports Soprano_Prelude
begin

text \<open>
  Errors (soprano/error.cpp, soprano/locator.cpp): error values with their codes and messages, parser
  errors with a position, and the error cache, which keeps the last error of every thread. Threads
  are the arguments of the cache operations; a cache is a map from threads to errors.
\<close>

section \<open>Codes\<close>

datatype error_code =
    ErrorNone | ErrorInvalidArgument | ErrorNotSupported | ErrorParsingFailed
  | ErrorPermissionDenied | ErrorTimeout | ErrorUnknown

fun error_code_num :: "error_code \<Rightarrow> int" where
  "error_code_num ErrorNone = 0"
| "error_code_num ErrorInvalidArgument = 1"
| "error_code_num ErrorNotSupported = 2"
| "error_code_num ErrorParsingFailed = 3"
| "error_code_num ErrorPermissionDenied = 4"
| "error_code_num ErrorTimeout = 5"
| "error_code_num ErrorUnknown = 4096"

definition errorMessages :: "qstring list" where
  "errorMessages = [''Success'', ''Invalid argument'', ''Unsupported operation'', ''Parsing failed'',
     ''Permission denied'', ''Timeout'']"

definition errorMessage :: "int \<Rightarrow> qstring" where
  "errorMessage code = (if 0 \<le> code \<and> code \<le> 5 then errorMessages ! nat code else ''Unknown error'')"

definition convertErrorCode :: "int \<Rightarrow> error_code" where
  "convertErrorCode code =
     (if 0 \<le> code \<and> code \<le> 5 then
        [ErrorNone, ErrorInvalidArgument, ErrorNotSupported, ErrorParsingFailed, ErrorPermissionDenied,
         ErrorTimeout] ! nat code
      else ErrorUnknown)"

lemma convertErrorCode_num [simp]: "convertErrorCode (error_code_num c) = c"
  by (cases c) (simp_all add: convertErrorCode_def)

section \<open>Errors\<close>

record locator =
  line :: int
  column :: int
  byte_pos :: int
  fileName :: qstring

definition no_locator :: locator where
  "no_locator = \<lparr> line = - 1, column = - 1, byte_pos = - 1, fileName = [] \<rparr>"

definition mk_locator :: "int \<Rightarrow> int \<Rightarrow> locator" where
  "mk_locator l c = \<lparr> line = l, column = c, byte_pos = - 1, fileName = [] \<rparr>"

text \<open>\<open>NoError\<close> is an error without data. The code of the other two is any int.\<close>

datatype error =
    NoError
  | GenericError qstring int
  | ParserError locator qstring int

definition mk_error :: "qstring \<Rightarrow> int \<Rightarrow> error" where
  "mk_error m c = GenericError (if m = [] \<and> c < error_code_num ErrorUnknown then errorMessage c else m) c"

definition mk_parser_error :: "locator \<Rightarrow> qstring \<Rightarrow> error" where
  "mk_parser_error l m = ParserError l m (error_code_num ErrorParsingFailed)"

fun err_message :: "error \<Rightarrow> qstring" where
  "err_message NoError = []"
| "err_message (GenericError m c) = m"
| "err_message (ParserError l m c) = m"

fun err_code :: "error \<Rightarrow> int" where
  "err_code NoError = 0"
| "err_code (GenericError m c) = c"
| "err_code (ParserError l m c) = c"

definition err_occurred :: "error \<Rightarrow> bool" where
  "err_occurred e \<longleftrightarrow> err_code e \<noteq> error_code_num ErrorNone"

fun isParserError :: "error \<Rightarrow> bool" where
  "isParserError (ParserError l m c) = True"
| "isParserError _ = False"

fun err_locator :: "error \<Rightarrow> locator" where
  "err_locator (ParserError l m c) = l"
| "err_locator _ = no_locator"

text \<open>The text the stream operators print.\<close>

definition err_print :: "error \<Rightarrow> qstring" where
  "err_print e =
     (if err_code e < error_code_num ErrorUnknown
        then errorMessage (err_code e) @ '' ('' @ show_int (err_code e) @ ''): '' else [])
     @ err_message e
     @ (if isParserError e
        then '' (line: '' @ show_int (line (err_locator e)) @ '', column: '' @
             show_int (column (err_locator e)) @ '')'' else [])"

section \<open>The error cache\<close>

type_synonym 't error_cache = "'t \<rightharpoonup> error"

definition lastError :: "'t \<Rightarrow> 't error_cache \<Rightarrow> error" where
  "lastError t c = (case c t of Some e \<Rightarrow> e | None \<Rightarrow> NoError)"

definition clearError :: "'t \<Rightarrow> 't error_cache \<Rightarrow> 't error_cache" where
  "clearError t c = c(t := None)"

definition setError :: "'t \<Rightarrow> error \<Rightarrow> 't error_cache \<Rightarrow> 't error_cache" where
  "setError t e c = (if err_occurred e then c(t \<mapsto> e) else clearError t c)"

definition setError_msg :: "'t \<Rightarrow> qstring \<Rightarrow> int \<Rightarrow> 't error_cache \<Rightarrow> 't error_cache" where
  "setError_msg t m code c = setError t (mk_error m code) c"

lemma lastError_set [simp]:
  "lastError t (setError u e c) = (if t = u then (if err_occurred e then e else NoError) else lastError t c)"
  by (auto simp: lastError_def setError_def clearError_def)

lemma lastError_clear [simp]: "lastError t (clearError u c) = (if t = u then NoError else lastError t c)"
  by (auto simp: lastError_def clearError_def)

lemma err_occurred_mk_error [simp]: "err_occurred (mk_error m c) \<longleftrightarrow> c \<noteq> 0"
  by (simp add: err_occurred_def mk_error_def)

lemma err_occurred_parser [simp]: "err_occurred (mk_parser_error l m)"
  by (simp add: err_occurred_def mk_parser_error_def)

text \<open>Calls made by several threads, in the order in which they take the mutex of the cache.\<close>

datatype cache_call = CSet error | CSetMsg qstring int | CClear

fun cache_step :: "'t \<times> cache_call \<Rightarrow> 't error_cache \<Rightarrow> 't error_cache" where
  "cache_step (t, CSet e) c = setError t e c"
| "cache_step (t, CSetMsg m code) c = setError_msg t m code c"
| "cache_step (t, CClear) c = clearError t c"

definition cache_run :: "('t \<times> cache_call) list \<Rightarrow> 't error_cache \<Rightarrow> 't error_cache" where
  "cache_run calls c = fold cache_step calls c"

fun call_result :: "cache_call \<Rightarrow> error" where
  "call_result (CSet e) = (if err_occurred e then e else NoError)"
| "call_result (CSetMsg m code) = (if code \<noteq> 0 then mk_error m code else NoError)"
| "call_result CClear = NoError"

lemma lastError_cache_step:
  "lastError t (cache_step (u, k) c) = (if t = u then call_result k else lastError t c)"
  by (cases k) (simp_all add: setError_msg_def)

lemma case_list_snoc: "(case xs @ [y] of [] \<Rightarrow> z | a # l \<Rightarrow> call_result (snd (last (a # l)))) = call_result (snd y)"
  by (cases xs) simp_all

text \<open>Claim C40: threads do not see each other's errors: after any interleaving of calls, the last
  error of a thread is the outcome of that thread's own last call, and is unchanged when the thread
  made none. It is an error exactly when its code is not ErrorNone.\<close>

theorem error_cache_isolates_threads:
  "lastError t (cache_run calls c) =
     (case filter (\<lambda>(u, _). u = t) calls of
        [] \<Rightarrow> lastError t c
      | own \<Rightarrow> call_result (snd (last own)))
   \<and> (err_occurred (lastError t (cache_run (calls @ [(t, k)]) c)) \<longleftrightarrow> call_result k \<noteq> NoError)"
proof
  show "lastError t (cache_run calls c) =
     (case filter (\<lambda>(u, _). u = t) calls of
        [] \<Rightarrow> lastError t c
      | own \<Rightarrow> call_result (snd (last own)))"
  proof (induction calls rule: rev_induct)
    case Nil
    then show ?case by (simp add: cache_run_def)
  next
    case (snoc a calls)
    obtain u k where a: "a = (u, k)" by (cases a)
    show ?case
    proof (cases "u = t")
      case True
      then have "filter (\<lambda>(u, _). u = t) (calls @ [a]) = filter (\<lambda>(u, _). u = t) calls @ [(t, k)]"
        by (simp add: a)
      then show ?thesis
        using True by (simp add: cache_run_def a lastError_cache_step case_list_snoc del: filter_append)
    next
      case False
      with snoc show ?thesis by (auto simp: cache_run_def a lastError_cache_step)
    qed
  qed
  show "err_occurred (lastError t (cache_run (calls @ [(t, k)]) c)) \<longleftrightarrow> call_result k \<noteq> NoError"
    by (cases k) (auto simp: cache_run_def setError_msg_def mk_error_def err_occurred_def)
qed

lemma cache_example:
  "lastError (0 :: nat) (cache_run [(0, CSetMsg [] 1), (1, CSetMsg ''x'' 4096), (1, CClear)] Map.empty) =
     GenericError ''Invalid argument'' 1"
  by code_simp

end
