(* ===== verification/Text_Escape.thy ===== *)
theory Text_Escape
  imports Soprano_Prelude
begin

text \<open>
  The step of the unescaping loops, which the N3 parser and the N-Quads parser share (both files define
  a function decodeLiteral), and the text such a loop computes.
\<close>

section \<open>One step of decodeLiteral\<close>

definition remove_at :: "nat \<Rightarrow> qstring \<Rightarrow> qstring" where
  "remove_at pos s = take pos s @ drop (pos + 1) s"

definition replace2_at :: "nat \<Rightarrow> char \<Rightarrow> qstring \<Rightarrow> qstring" where
  "replace2_at pos c s = take pos s @ [c] @ drop (pos + 2) s"

definition decode_at :: "nat \<Rightarrow> qstring \<Rightarrow> qstring" where
  "decode_at pos s =
     (if s ! (pos + 1) = bslash then remove_at pos s
      else if s ! (pos + 1) = CHR ''n'' then replace2_at pos newline s
      else if s ! (pos + 1) = CHR ''r'' then replace2_at pos creturn s
      else if s ! (pos + 1) = dquote then remove_at pos s
      else s)"

section \<open>The whole text\<close>

text \<open>What the loops compute: one pass over the text.\<close>

fun unescape :: "qstring \<Rightarrow> qstring" where
  "unescape [] = []"
| "unescape [c] = [c]"
| "unescape (c # d # cs) =
     (if c = bslash \<and> d = bslash then bslash # unescape cs
      else if c = bslash \<and> d = CHR ''n'' then newline # unescape cs
      else if c = bslash \<and> d = CHR ''r'' then creturn # unescape cs
      else if c = bslash \<and> d = dquote then dquote # unescape cs
      else c # unescape (d # cs))"

lemma unescape_plain: "c \<noteq> bslash \<Longrightarrow> unescape (c # t) = c # unescape t"
  by (cases t) auto

lemma decode_at_append:
  "decode_at (length pre) (pre @ bslash # d # t) =
     (if d = bslash then pre @ bslash # t else if d = CHR ''n'' then pre @ newline # t
      else if d = CHR ''r'' then pre @ creturn # t else if d = dquote then pre @ dquote # t
      else pre @ bslash # d # t)"
  by (simp add: decode_at_def remove_at_def replace2_at_def nth_append)

section \<open>Searching by one character\<close>

lemma index_of_skip: "i < length s \<Longrightarrow> \<not> p (s ! i) \<Longrightarrow> index_of p s i = index_of p s (Suc i)"
  by (simp add: index_of_def Cons_nth_drop_Suc[symmetric])

lemma index_of_here: "i < length s \<Longrightarrow> p (s ! i) \<Longrightarrow> index_of p s i = Some i"
  by (simp add: index_of_def Cons_nth_drop_Suc[symmetric])

lemma index_of_end: "length s \<le> i \<Longrightarrow> index_of p s i = None"
  by (simp add: index_of_def)

section \<open>Blanks\<close>

definition no_blank :: "qstring \<Rightarrow> bool" where
  "no_blank s \<longleftrightarrow> list_all (\<lambda>c. \<not> is_space c) s"

lemma space_chars [simp]: "is_space (CHR '' '')" "\<not> is_space (CHR ''.'')" "\<not> is_space (CHR ''<'')"
  "\<not> is_space (CHR ''_'')" "\<not> is_space dquote" "\<not> is_space (CHR ''#'')" "\<not> is_space (CHR ''>'')"
  "\<not> is_space (CHR '':'')" "\<not> is_space (CHR ''@'')" "\<not> is_space (CHR ''^'')"
  "is_space newline" "is_space creturn"
  by (simp_all add: is_space_def ccode_def)

end
