(* ===== verification/NQuads.thy ===== *)
theory NQuads
  imports Rdf_Node Soprano_Error Text_Escape
begin

text \<open>
  The N-Quads serialiser (serializers/nquads/nquadserializer.cpp) and parser
  (parsers/nquads/nquadparser.cpp): the escaping, the scanner of literals with its position
  arithmetic, the line and the document parser with every error and its locator.

  The unescaping loop of the parser does not end on every string, so it is a partial function whose
  value \<open>None\<close> is not returning; the parser built on it returns on every input
  (\<open>nq_parser_terminates\<close>).
\<close>

section \<open>Serialiser\<close>

definition replace_char :: "char \<Rightarrow> qstring \<Rightarrow> qstring \<Rightarrow> qstring" where
  "replace_char c r s = concat (map (\<lambda>x. if x = c then r else [x]) s)"

definition nq_escape :: "qstring \<Rightarrow> qstring" where
  "nq_escape val =
     replace_char dquote [bslash, dquote]
      (replace_char creturn [bslash, CHR ''r'']
       (replace_char newline [bslash, CHR ''n'']
        (replace_char bslash [bslash, bslash] val)))"

fun nq_serializeNode :: "qt \<Rightarrow> node \<Rightarrow> qstring" where
  "nq_serializeNode q (LiteralNode l) =
     [dquote] @ nq_escape (lit_toString q l) @ [dquote] @
     (if lit_is_type TString l \<and> node_language (LiteralNode l) \<noteq> []
      then ''@'' @ node_language (LiteralNode l)
      else ''^^<'' @ encoded (dataTypeUri l) @ ''>'')"
| "nq_serializeNode q (BlankNode i) = ''_:'' @ i"
| "nq_serializeNode q (ResourceNode u) = ''<'' @ encoded u @ ''>''"
| "nq_serializeNode q EmptyNode = []"

text \<open>The line without its end.\<close>

definition nq_serializeStatement :: "qt \<Rightarrow> statement \<Rightarrow> qstring" where
  "nq_serializeStatement q s =
     nq_serializeNode q (subject s) @ '' '' @ nq_serializeNode q (predicate s) @ '' '' @
     nq_serializeNode q (object s) @ '' '' @
     (if \<not> node_isEmpty (context_node s) then nq_serializeNode q (context_node s) @ '' '' else []) @ ''.''"

datatype rdf_serialization = SerializationNQuads | SerializationOther qstring

text \<open>The text written and the error left behind; false is returned with the error.\<close>

definition nq_serialize :: "qt \<Rightarrow> statement list \<Rightarrow> rdf_serialization \<Rightarrow> qstring \<times> error" where
  "nq_serialize q it serialization = (case serialization of
       SerializationNQuads \<Rightarrow> (concat (map (\<lambda>s. nq_serializeStatement q s @ [newline]) it), NoError)
     | SerializationOther mime \<Rightarrow>
         ([], mk_error (''Unsupported serialization '' @ mime) (error_code_num ErrorInvalidArgument)))"

section \<open>Scanner\<close>

text \<open>The number of backslashes directly before a position.\<close>

fun backslashes_before :: "qstring \<Rightarrow> nat \<Rightarrow> nat" where
  "backslashes_before s 0 = 0"
| "backslashes_before s (Suc pos) = (if s ! pos = bslash then Suc (backslashes_before s pos) else 0)"

definition isEscaped :: "qstring \<Rightarrow> nat \<Rightarrow> bool" where
  "isEscaped s pos \<longleftrightarrow> backslashes_before s pos mod 2 > 0"

text \<open>The do-while loop of findLiteralEnd. \<open>None\<close> is the position -1, which ends the loop because
  nothing precedes it.\<close>

function find_quote :: "qstring \<Rightarrow> nat \<Rightarrow> nat option" where
  "find_quote s pos =
     (case index_of (\<lambda>c. c = dquote) s (pos + 1) of
        None \<Rightarrow> None
      | Some k \<Rightarrow> if k < length s \<and> isEscaped s k then find_quote s k else Some k)"
  by pat_completeness auto
termination
proof (relation "measure (\<lambda>(s, pos). length s - pos)")
  fix s pos k
  assume "index_of (\<lambda>c. c = dquote) s (pos + 1) = Some k" "k < length s \<and> isEscaped s k"
  with index_of_SomeD(1)[OF this(1)] show "((s, k), s, pos) \<in> measure (\<lambda>(s, pos). length s - pos)"
    by auto
qed simp

declare find_quote.simps [simp del]

text \<open>After a position of -1 every path returns -1.\<close>

definition findLiteralEnd :: "qstring \<Rightarrow> nat \<Rightarrow> (nat \<times> bool) option" where
  "findLiteralEnd s offset = (case find_quote s offset of
       None \<Rightarrow> None
     | Some pos \<Rightarrow>
         if pos + 1 < length s then
           (if s ! (pos + 1) = CHR ''@'' then Some (pos, True)
            else if pos + 3 < length s \<and> (mid s (pos + 1) 3 = ''^^<'' \<or> is_space (s ! (pos + 1)))
              then Some (pos, False)
            else None)
         else None)"

partial_function (option) nq_decode_loop :: "qstring \<Rightarrow> nat \<Rightarrow> qstring option" where
  "nq_decode_loop s pos =
     (if pos < length s then
        (case index_of (\<lambda>c. c = bslash) s pos of
           None \<Rightarrow> Some s
         | Some k \<Rightarrow> if length s > k + 1 then nq_decode_loop (decode_at k s) (k + 1) else nq_decode_loop s k)
      else Some s)"

definition nq_decodeLiteral :: "qstring \<Rightarrow> qstring option" where
  "nq_decodeLiteral s = nq_decode_loop s 0"

section \<open>Parser\<close>

text \<open>A node and the new offset; the offset only moves when the text of a node was complete.\<close>

definition nq_parse_literal :: "qt \<Rightarrow> qstring \<Rightarrow> nat \<Rightarrow> (node \<times> nat) option" where
  "nq_parse_literal q s offset = (case findLiteralEnd s offset of
       None \<Rightarrow> Some (EmptyNode, offset)
     | Some (literalEndPos, hasLangTag) \<Rightarrow>
         (case nq_decodeLiteral (mid s (offset + 1) (literalEndPos - offset - 1)) of
            None \<Rightarrow> None
          | Some val \<Rightarrow>
              Some (if hasLangTag then
                (case index_of is_space s (literalEndPos + 1) of
                   None \<Rightarrow> (EmptyNode, offset)
                 | Some langEnd \<Rightarrow>
                     (node_of_literal (createPlainLiteral val
                        (tag_of_string (mid s (literalEndPos + 2) (langEnd - literalEndPos - 2)))), langEnd))
              else if length s > literalEndPos + 1 \<and> \<not> is_space (s ! (literalEndPos + 1)) then
                (case index_of (\<lambda>c. c = CHR ''>'') s (literalEndPos + 4) of
                   None \<Rightarrow> (EmptyNode, offset)
                 | Some literalTypeEnd \<Rightarrow>
                     (node_of_literal (fromString_uri q val
                        (url_fromEncoded q (mid s (literalEndPos + 4) (literalTypeEnd - literalEndPos - 4)))),
                      literalTypeEnd + 1))
              else (node_of_literal (createPlainLiteral val (LanguageTag None)), literalEndPos + 1))))"

definition nq_parseNode :: "qt \<Rightarrow> qstring \<Rightarrow> nat \<Rightarrow> (node \<times> nat) option" where
  "nq_parseNode q s offset =
     (if length s > offset then
        (if s ! offset = CHR ''<'' then
           (case index_of (\<lambda>c. c = CHR ''>'') s (offset + 1) of
              None \<Rightarrow> Some (EmptyNode, offset)
            | Some pos \<Rightarrow>
                Some (node_of_url (url_fromEncoded q (mid s (offset + 1) (pos - offset - 1))), pos + 1))
         else if s ! offset = CHR ''_'' \<and> length s > offset + 2 \<and> s ! (offset + 1) = CHR '':'' then
           (case index_of is_space s (offset + 2) of
              None \<Rightarrow> Some (EmptyNode, offset)
            | Some pos \<Rightarrow> Some (node_of_id (mid s (offset + 2) (pos - offset - 1)), pos))
         else if s ! offset = dquote then nq_parse_literal q s offset
         else Some (EmptyNode, offset))
      else Some (EmptyNode, offset))"

definition skip_space :: "qstring \<Rightarrow> nat \<Rightarrow> nat" where
  "skip_space s offset = offset + length (takeWhile is_space (drop offset s))"

datatype line_result = LineError error | LineStatement statement

definition nq_error :: "int \<Rightarrow> nat \<Rightarrow> qstring \<Rightarrow> line_result option" where
  "nq_error row col m = Some (LineError (mk_parser_error (mk_locator row (int col)) m))"

definition nq_parse_end :: "qstring \<Rightarrow> int \<Rightarrow> nat \<Rightarrow> statement \<Rightarrow> line_result option" where
  "nq_parse_end s row offset st =
     (let offset = skip_space s offset in
      if offset \<ge> length s then nq_error row offset ''Unexpected end of line''
      else if s ! offset \<noteq> CHR ''.'' then
        nq_error row (offset + 1) (''Expected '' @ [CHR 0x27, CHR 0x2E, CHR 0x27] @ '' instead of '' @ mid s offset 1)
      else Some (LineStatement st))"

definition nq_parse_context :: "qt \<Rightarrow> qstring \<Rightarrow> int \<Rightarrow> nat \<Rightarrow> node \<Rightarrow> node \<Rightarrow> node \<Rightarrow> line_result option" where
  "nq_parse_context q s row offset sub pred ob =
     (let offset = skip_space s offset in
      if offset \<ge> length s then nq_error row offset ''Unexpected end of line''
      else if s ! offset \<noteq> CHR ''.'' then
        (case nq_parseNode q s offset of
           None \<Rightarrow> None
         | Some (c, offset) \<Rightarrow>
             if \<not> node_isResource c then nq_error row (offset + 1) ''Context has to be a resource node''
             else nq_parse_end s row offset (mk_statement sub pred ob c))
      else nq_parse_end s row offset (mk_statement sub pred ob EmptyNode))"

definition nq_parseLine :: "qt \<Rightarrow> qstring \<Rightarrow> int \<Rightarrow> line_result option" where
  "nq_parseLine q s row = (case nq_parseNode q s 0 of
       None \<Rightarrow> None
     | Some (sub, offset) \<Rightarrow>
         if \<not> node_isResource sub \<and> \<not> node_isBlank sub
           then nq_error row (offset + 1) ''Subject has to be a resource or blank node''
         else (case nq_parseNode q s (skip_space s offset) of
            None \<Rightarrow> None
          | Some (pred, offset) \<Rightarrow>
              if \<not> node_isResource pred then nq_error row (offset + 1) ''Predicate has to be a resource node''
              else (case nq_parseNode q s (skip_space s offset) of
                 None \<Rightarrow> None
               | Some (ob, offset) \<Rightarrow>
                   if node_isEmpty ob then nq_error row (offset + 1) ''Need to have a valid object node''
                   else nq_parse_context q s row offset sub pred ob)))"

text \<open>QTextStream::readLine: lines end with LF or CR LF, the last one may be unterminated.\<close>

definition chop_cr :: "qstring \<Rightarrow> qstring" where
  "chop_cr l = (if l \<noteq> [] \<and> last l = creturn then butlast l else l)"

definition text_lines :: "qstring \<Rightarrow> qstring list" where
  "text_lines text =
     (let ls = split_on newline text
      in map chop_cr (if last ls = [] then butlast ls else ls))"

fun nq_parse_lines :: "qt \<Rightarrow> qstring list \<Rightarrow> int \<Rightarrow> (error + statement list) option" where
  "nq_parse_lines q [] row = Some (Inr [])"
| "nq_parse_lines q (l # ls) row =
     (if l \<noteq> [] \<and> hd l = CHR ''#'' then nq_parse_lines q ls (row + 1)
      else (case nq_parseLine q (trimmed l) row of
        None \<Rightarrow> None
      | Some (LineError e) \<Rightarrow> Some (Inl e)
      | Some (LineStatement s) \<Rightarrow>
          (if stmt_isValid s then map_option (map_sum id ((#) s)) (nq_parse_lines q ls (row + 1))
           else Some (Inl NoError))))"

text \<open>\<open>Inl\<close> is the invalid iterator with the error left behind.\<close>

definition nq_parseStream :: "qt \<Rightarrow> qstring \<Rightarrow> rdf_serialization \<Rightarrow> (error + statement list) option" where
  "nq_parseStream q text serialization = (case serialization of
       SerializationNQuads \<Rightarrow> nq_parse_lines q (text_lines text) 1
     | SerializationOther mime \<Rightarrow>
         Some (Inl (mk_error (''Unsupported serialization '' @ mime) (error_code_num ErrorInvalidArgument))))"

section \<open>Unescaping\<close>

text \<open>A backslash without a character after it stops the loop from ending.\<close>

fun no_lone_backslash :: "qstring \<Rightarrow> bool" where
  "no_lone_backslash [] = True"
| "no_lone_backslash [c] = (c \<noteq> bslash)"
| "no_lone_backslash (c # d # cs) =
     (if c = bslash \<and> d \<in> {bslash, CHR ''n'', CHR ''r'', dquote} then no_lone_backslash cs
      else no_lone_backslash (d # cs))"

lemma decode_loop_skip:
  assumes "c \<noteq> bslash"
  shows "nq_decode_loop (pre @ c # t) (length pre) = nq_decode_loop (pre @ c # t) (Suc (length pre))"
  using assms
  by (subst (1 2) nq_decode_loop.simps) (simp add: index_of_skip index_of_end nth_append)

lemma decode_loop_hit:
  "nq_decode_loop (pre @ bslash # d # t) (length pre) =
     nq_decode_loop (decode_at (length pre) (pre @ bslash # d # t)) (Suc (length pre))"
  by (subst nq_decode_loop.simps) (simp add: index_of_here nth_append)

lemma nq_decode_loop_unescape:
  "no_lone_backslash t \<Longrightarrow> nq_decode_loop (pre @ t) (length pre) = Some (pre @ unescape t)"
proof (induction t arbitrary: pre rule: unescape.induct)
  case 1
  then show ?case by (subst nq_decode_loop.simps) simp
next
  case (2 c)
  then show ?case
    using decode_loop_skip[of c pre "[]"] nq_decode_loop.simps[of "pre @ [c]" "Suc (length pre)"] by simp
next
  case (3 c d cs)
  show ?case
  proof (cases "c = bslash")
    case False
    with 3 have "nq_decode_loop ((pre @ [c]) @ d # cs) (length (pre @ [c])) = Some ((pre @ [c]) @ unescape (d # cs))"
      by (intro "3.IH"(5)) auto
    with False decode_loop_skip[of c pre "d # cs"] show ?thesis by simp
  next
    case True
    consider "d = bslash" | "d = CHR ''n''" | "d = CHR ''r''" | "d = dquote"
      | "d \<notin> {bslash, CHR ''n'', CHR ''r'', dquote}" by blast
    then show ?thesis
    proof cases
      case 1
      then show ?thesis using "3.IH"(1)[of "pre @ [bslash]"] "3.prems" True
        by (simp add: decode_loop_hit decode_at_append)
    next
      case 2
      then show ?thesis using "3.IH"(2)[of "pre @ [newline]"] "3.prems" True
        by (simp add: decode_loop_hit decode_at_append)
    next
      case 3
      then show ?thesis using "3.IH"(3)[of "pre @ [creturn]"] "3.prems" True
        by (simp add: decode_loop_hit decode_at_append)
    next
      case 4
      then show ?thesis using "3.IH"(4)[of "pre @ [dquote]"] "3.prems" True
        by (simp add: decode_loop_hit decode_at_append)
    next
      case 5
      then show ?thesis using "3.IH"(5)[of "pre @ [bslash]"] "3.prems" True
        by (simp add: decode_loop_hit decode_at_append)
    qed
  qed
qed

lemma nq_decodeLiteral_unescape: "no_lone_backslash s \<Longrightarrow> nq_decodeLiteral s = Some (unescape s)"
  using nq_decode_loop_unescape[of s "[]"] by (simp add: nq_decodeLiteral_def)

lemma nq_decode_loop_stuck:
  assumes "nq_decode_loop s pos = Some r"
  shows "\<not> (Suc pos = length s \<and> s ! pos = bslash)"
  using assms
proof (rule nq_decode_loop.raw_induct[rotated])
  fix f s pos r
  assume 1: "\<And>s pos r. f s pos = Some r \<Longrightarrow> \<not> (Suc pos = length s \<and> s ! pos = bslash)"
    "(if pos < length s then
        (case index_of (\<lambda>c. c = bslash) s pos of
           None \<Rightarrow> Some s
         | Some k \<Rightarrow> if length s > k + 1 then f (decode_at k s) (k + 1) else f s k)
      else Some s) = Some r"
  show "\<not> (Suc pos = length s \<and> s ! pos = bslash)"
  proof
    assume stuck: "Suc pos = length s \<and> s ! pos = bslash"
    then have "index_of (\<lambda>c. c = bslash) s pos = Some pos" by (intro index_of_here) auto
    with 1 stuck have "f s pos = Some r" by (simp split: if_splits)
    with 1 stuck show False by blast
  qed
qed

text \<open>A text that ends in a lone backslash is never decoded: the loop does not return.\<close>

lemma nq_decode_diverges: "nq_decodeLiteral [bslash] = None"
  using nq_decode_loop_stuck[of "[bslash]" 0] by (cases "nq_decode_loop [bslash] 0") (auto simp: nq_decodeLiteral_def)

section \<open>The scanner\<close>

abbreviation trailing_backslashes :: "qstring \<Rightarrow> nat" where
  "trailing_backslashes v \<equiv> backslashes_before v (length v)"

lemma backslashes_before_append [simp]: "n \<le> length xs \<Longrightarrow> backslashes_before (xs @ ys) n = backslashes_before xs n"
  by (induction n) (auto simp: nth_append)

lemma trailing_snoc [simp]:
  "backslashes_before (v @ [c]) (Suc (length v)) = (if c = bslash then Suc (trailing_backslashes v) else 0)"
  by simp

lemma trailing_all: "\<forall>x\<in>set v. x = bslash \<Longrightarrow> trailing_backslashes v = length v"
  by (induction v rule: rev_induct) auto

lemma trailing_Cons:
  "backslashes_before (c # v) (Suc (length v)) =
     (if \<forall>x\<in>set v. x = bslash then length v + (if c = bslash then 1 else 0) else trailing_backslashes v)"
proof (induction v rule: rev_induct)
  case Nil
  then show ?case by simp
next
  case (snoc x v)
  have "backslashes_before (c # v @ [x]) (Suc (length (v @ [x]))) =
      (if x = bslash then Suc (backslashes_before (c # v) (Suc (length v))) else 0)"
    using trailing_snoc[of "c # v" x] by simp
  with snoc trailing_snoc[of v x] show ?case by (simp del: backslashes_before.simps)
qed

lemma even_trailing_no_lone: "even (trailing_backslashes v) \<Longrightarrow> no_lone_backslash v"
proof (induction v rule: no_lone_backslash.induct)
  case 1
  then show ?case by simp
next
  case (2 c)
  then show ?case by (auto split: if_splits)
next
  case (3 c d cs)
  show ?case
  proof (cases "c = bslash \<and> d \<in> {bslash, CHR ''n'', CHR ''r'', dquote}")
    case True
    then have "even (trailing_backslashes cs)"
      using "3.prems" trailing_Cons[of c "d # cs"] trailing_Cons[of d cs]
      by (auto simp: trailing_all simp del: backslashes_before.simps split: if_splits)
    with True 3 show ?thesis by simp
  next
    case False
    then have "even (trailing_backslashes (d # cs))"
      using "3.prems" trailing_Cons[of c "d # cs"] trailing_Cons[of d cs]
      by (auto simp: trailing_all simp del: backslashes_before.simps split: if_splits)
    with False have "no_lone_backslash (d # cs)" by (rule "3.IH"(2))
    with False show ?thesis by (simp only: no_lone_backslash.simps if_False)
  qed
qed

lemma find_quote_Some:
  "find_quote s pos = Some k \<Longrightarrow> pos < k \<and> k < length s \<and> s ! k = dquote \<and> \<not> isEscaped s k"
proof (induction s pos rule: find_quote.induct)
  case (1 s pos)
  from "1.prems" obtain j where j: "index_of (\<lambda>c. c = dquote) s (pos + 1) = Some j"
    by (subst (asm) find_quote.simps) (auto split: option.splits)
  note pj = index_of_SomeD[OF j]
  show ?case
  proof (cases "j < length s \<and> isEscaped s j")
    case True
    with 1 j have "find_quote s j = Some k" by (subst (asm) (2) find_quote.simps) simp
    with 1 j True pj show ?thesis by fastforce
  next
    case False
    with "1.prems" j have "k = j" by (subst (asm) find_quote.simps) (simp split: if_splits)
    with False pj show ?thesis by auto
  qed
qed

lemma backslashes_before_drop:
  assumes "i < length s" "s ! i \<noteq> bslash"
  shows "Suc i + n \<le> length s \<Longrightarrow> backslashes_before s (Suc i + n) = backslashes_before (drop (Suc i) s) n"
proof (induction n)
  case 0
  with assms show ?case by simp
next
  case (Suc n)
  then show ?case by simp
qed

text \<open>The text between an opening quote and the end the scanner finds is one the decoder accepts.\<close>

lemma literal_text_no_lone:
  assumes "s ! offset = dquote" "find_quote s offset = Some k"
  shows "no_lone_backslash (mid s (offset + 1) (k - offset - 1))"
proof (rule even_trailing_no_lone)
  from find_quote_Some[OF assms(2)] have k: "offset < k" "k < length s" "even (backslashes_before s k)"
    by (auto simp: isEscaped_def)
  let ?n = "k - offset - 1" and ?v = "mid s (offset + 1) (k - offset - 1)"
  have "length ?v = ?n" using k by (simp add: mid_def)
  moreover have "backslashes_before s k = backslashes_before (drop (Suc offset) s) ?n"
    using backslashes_before_drop[of offset s ?n] k assms(1) by simp
  moreover have "backslashes_before (drop (Suc offset) s) ?n = backslashes_before ?v ?n"
  proof -
    have "drop (Suc offset) s = ?v @ drop ?n (drop (Suc offset) s)"
      unfolding mid_def Suc_eq_plus1 by (rule append_take_drop_id[symmetric])
    with \<open>length ?v = ?n\<close> backslashes_before_append[of ?n ?v "drop ?n (drop (Suc offset) s)"]
    show ?thesis by (metis order_refl)
  qed
  ultimately show "even (trailing_backslashes ?v)" using k by simp
qed

lemma nq_parse_literal_returns:
  assumes "s ! offset = dquote"
  shows "nq_parse_literal q s offset \<noteq> None"
proof (cases "findLiteralEnd s offset")
  case None
  then show ?thesis by (simp add: nq_parse_literal_def)
next
  case (Some p)
  obtain k lang where p: "p = (k, lang)" by (cases p)
  from Some p have "find_quote s offset = Some k"
    by (auto simp: findLiteralEnd_def split: option.splits if_splits)
  with assms have "no_lone_backslash (mid s (offset + 1) (k - offset - 1))"
    by (rule literal_text_no_lone)
  with Some p show ?thesis by (simp add: nq_parse_literal_def nq_decodeLiteral_unescape)
qed

lemma nq_parseNode_returns:
  obtains n off where "nq_parseNode q s offset = Some (n, off)"
proof -
  have "nq_parseNode q s offset \<noteq> None"
    using nq_parse_literal_returns by (simp add: nq_parseNode_def split: option.splits)
  with that show thesis by auto
qed

definition line_sound :: "line_result option \<Rightarrow> bool" where
  "line_sound r \<longleftrightarrow> (case r of None \<Rightarrow> False | Some (LineError e) \<Rightarrow> err_occurred e | Some (LineStatement s) \<Rightarrow> stmt_isValid s)"

lemma nq_error_sound: "line_sound (nq_error row col m)"
  by (simp add: line_sound_def nq_error_def)

lemma nq_parse_end_sound: "stmt_isValid st \<Longrightarrow> line_sound (nq_parse_end s row offset st)"
  by (auto simp: nq_parse_end_def Let_def nq_error_sound) (simp add: line_sound_def)

lemma nq_parse_context_sound:
  assumes "node_isResource sub \<or> node_isBlank sub" "node_isResource pred" "\<not> node_isEmpty ob"
  shows "line_sound (nq_parse_context q s row offset sub pred ob)"
proof -
  have "stmt_isValid (mk_statement sub pred ob EmptyNode)"
    "node_isResource c \<Longrightarrow> stmt_isValid (mk_statement sub pred ob c)" for c
    using assms by (simp_all add: stmt_isValid_def mk_statement_def node_test_defs)
  moreover obtain n off where "nq_parseNode q s (skip_space s offset) = Some (n, off)"
    by (rule nq_parseNode_returns)
  ultimately show ?thesis
    by (simp add: nq_parse_context_def Let_def nq_error_sound nq_parse_end_sound)
qed

lemma nq_parseLine_sound: "line_sound (nq_parseLine q s row)"
proof -
  obtain sub o1 where 1: "nq_parseNode q s 0 = Some (sub, o1)" by (rule nq_parseNode_returns)
  obtain pred o2 where 2: "nq_parseNode q s (skip_space s o1) = Some (pred, o2)" by (rule nq_parseNode_returns)
  obtain ob o3 where 3: "nq_parseNode q s (skip_space s o2) = Some (ob, o3)" by (rule nq_parseNode_returns)
  from 1 2 3 show ?thesis by (simp add: nq_parseLine_def nq_error_sound nq_parse_context_sound)
qed

lemma nq_parse_lines_total:
  "\<exists>r. nq_parse_lines q ls row = Some r \<and>
     (case r of Inl e \<Rightarrow> err_occurred e
      | Inr sl \<Rightarrow> (\<forall>s\<in>set sl. stmt_isValid s) \<and> length sl = length (filter (\<lambda>l. \<not> (l \<noteq> [] \<and> hd l = CHR ''#'')) ls))"
proof (induction ls arbitrary: row)
  case Nil
  then show ?case by simp
next
  case (Cons l ls)
  obtain r where r: "nq_parse_lines q ls (row + 1) = Some r"
    "case r of Inl e \<Rightarrow> err_occurred e
      | Inr sl \<Rightarrow> (\<forall>s\<in>set sl. stmt_isValid s) \<and> length sl = length (filter (\<lambda>l. \<not> (l \<noteq> [] \<and> hd l = CHR ''#'')) ls)"
    using Cons by blast
  show ?case
  proof (cases "l \<noteq> [] \<and> hd l = CHR ''#''")
    case True
    with r show ?thesis by (auto split: sum.splits)
  next
    case False
    consider e where "nq_parseLine q (trimmed l) row = Some (LineError e)" "err_occurred e"
      | st where "nq_parseLine q (trimmed l) row = Some (LineStatement st)" "stmt_isValid st"
      using nq_parseLine_sound[of q "trimmed l" row]
      by (auto simp: line_sound_def split: option.splits line_result.splits)
    then show ?thesis
    proof cases
      case 1
      with False show ?thesis by auto
    next
      case 2
      with False r show ?thesis by (cases r) auto
    qed
  qed
qed

text \<open>Claim C20: the N-Quads parser returns on every input, the unescaping loop included. When it
  delivers statements there is one for every line that is not a comment and every one is valid; when
  it does not, an error is left behind.\<close>

theorem nq_parser_terminates:
  "\<exists>r. nq_parseStream q text serialization = Some r \<and>
     (case r of
        Inl e \<Rightarrow> err_occurred e
      | Inr sl \<Rightarrow> list_all stmt_isValid sl \<and>
          length sl = length (filter (\<lambda>l. \<not> (l \<noteq> [] \<and> hd l = CHR ''#'')) (text_lines text)))"
  using nq_parse_lines_total[of q "text_lines text" 1]
  by (cases serialization) (auto simp: nq_parseStream_def list_all_iff split: sum.splits)

section \<open>Round trip\<close>

definition nq_esc_char :: "char \<Rightarrow> qstring" where
  "nq_esc_char c =
     (if c = bslash then [bslash, bslash] else if c = newline then [bslash, CHR ''n'']
      else if c = creturn then [bslash, CHR ''r''] else if c = dquote then [bslash, dquote] else [c])"

lemma replace_char_Nil [simp]: "replace_char c r [] = []"
  by (simp add: replace_char_def)

lemma replace_char_Cons [simp]: "replace_char c r (x # s) = (if x = c then r else [x]) @ replace_char c r s"
  by (simp add: replace_char_def)

lemma nq_escape_chars: "nq_escape s = concat (map nq_esc_char s)"
  by (induction s) (auto simp: nq_escape_def nq_esc_char_def)

lemma nq_escape_Nil [simp]: "nq_escape [] = []"
  by (simp add: nq_escape_chars)

lemma nq_escape_Cons [simp]: "nq_escape (c # s) = nq_esc_char c @ nq_escape s"
  by (simp add: nq_escape_chars)

lemma unescape_nq_escape [simp]: "unescape (nq_escape s) = s"
  by (induction s) (auto simp: nq_esc_char_def unescape_plain)

lemma no_lone_plain: "c \<noteq> bslash \<Longrightarrow> no_lone_backslash (c # t) = no_lone_backslash t"
  by (cases t) auto

lemma no_lone_nq_escape [simp]: "no_lone_backslash (nq_escape s)"
  by (induction s) (auto simp: nq_esc_char_def no_lone_plain)

lemma nq_escape_no_line_end: "newline \<notin> set (nq_escape s) \<and> creturn \<notin> set (nq_escape s)"
  by (induction s) (auto simp: nq_esc_char_def)

lemma find_quote_skip:
  assumes "Suc pos < length s" "s ! Suc pos \<noteq> dquote \<or> isEscaped s (Suc pos)"
  shows "find_quote s pos = find_quote s (Suc pos)"
proof (cases "s ! Suc pos = dquote")
  case True
  with assms have "index_of (\<lambda>c. c = dquote) s (Suc pos) = Some (Suc pos)" by (intro index_of_here) auto
  with assms True show ?thesis by (subst find_quote.simps) simp
next
  case False
  with assms have "index_of (\<lambda>c. c = dquote) s (Suc pos) = index_of (\<lambda>c. c = dquote) s (Suc (Suc pos))"
    by (intro index_of_skip) auto
  then show ?thesis by (subst (1 2) find_quote.simps) simp
qed

lemma find_quote_hit:
  assumes "Suc pos < length s" "s ! Suc pos = dquote" "\<not> isEscaped s (Suc pos)"
  shows "find_quote s pos = Some (Suc pos)"
  using assms index_of_here[of "Suc pos" s "\<lambda>c. c = dquote"] by (subst find_quote.simps) simp

lemma isEscaped_odd: "isEscaped s p \<longleftrightarrow> odd (backslashes_before s p)"
  by (simp add: isEscaped_def odd_iff_mod_2_eq_one)

text \<open>The scanner finds the closing quote of an escaped text.\<close>

lemma find_quote_escaped:
  assumes "p = Suc k" "length pre = p" "even (trailing_backslashes pre)"
  shows "find_quote (pre @ nq_escape v @ dquote # post) k = Some (p + length (nq_escape v))"
  using assms
proof (induction v arbitrary: pre p k)
  case Nil
  then have "\<not> isEscaped (pre @ dquote # post) p"
    by (simp add: isEscaped_odd del: backslashes_before.simps)
  with Nil show ?case by (simp add: find_quote_hit nth_append)
next
  case (Cons c v)
  let ?s = "pre @ nq_escape (c # v) @ dquote # post"
  consider (one) "nq_esc_char c = [c]" "c \<noteq> bslash" "c \<noteq> dquote"
    | (two) d where "nq_esc_char c = [bslash, d]"
    by (cases "c = bslash"; cases "c = newline"; cases "c = creturn"; cases "c = dquote")
       (auto simp: nq_esc_char_def)
  then show ?case
  proof cases
    case one
    have "find_quote ?s k = find_quote ?s p"
      using Cons.prems one by (simp add: find_quote_skip nth_append)
    moreover have "find_quote ((pre @ [c]) @ nq_escape v @ dquote # post) p = Some (Suc p + length (nq_escape v))"
    proof (rule Cons.IH)
      show "even (trailing_backslashes (pre @ [c]))"
        using trailing_snoc[of pre c] one(2) by (simp del: backslashes_before.simps)
    qed (use Cons.prems in auto)
    ultimately show ?thesis using one by simp
  next
    case two
    have "backslashes_before ?s (Suc p) = Suc (trailing_backslashes pre)"
      using Cons.prems two backslashes_before_append[of p pre "[bslash] @ d # nq_escape v @ dquote # post"]
      by (simp add: nth_append del: backslashes_before_append)
    then have "isEscaped ?s (Suc p)" using Cons.prems by (simp add: isEscaped_odd)
    then have "find_quote ?s k = find_quote ?s (Suc p)"
      using Cons.prems two find_quote_skip[of k ?s] find_quote_skip[of p ?s] by (simp add: nth_append)
    moreover have "find_quote ((pre @ [bslash, d]) @ nq_escape v @ dquote # post) (Suc p) =
        Some (Suc (Suc p) + length (nq_escape v))"
    proof (rule Cons.IH)
      show "even (trailing_backslashes (pre @ [bslash, d]))"
        using Cons.prems trailing_snoc[of "pre @ [bslash]" d] trailing_snoc[of pre bslash] by simp
    qed (use Cons.prems in auto)
    ultimately show ?thesis using two by simp
  qed
qed

text \<open>The texts a line can carry: encoded URIs without blanks and angle brackets, identifiers and language
  tags without blanks, and literal values whose printed form determines them.\<close>

definition uri_printable :: "qurl \<Rightarrow> bool" where
  "uri_printable u \<longleftrightarrow> no_blank (encoded u) \<and> CHR ''>'' \<notin> set (encoded u)"

fun nq_printable :: "qt \<Rightarrow> node \<Rightarrow> bool" where
  "nq_printable q EmptyNode = True"
| "nq_printable q (ResourceNode u) \<longleftrightarrow> \<not> url_isEmpty u \<and> uri_printable u"
| "nq_printable q (BlankNode i) \<longleftrightarrow> i \<noteq> [] \<and> no_blank i"
| "nq_printable q (LiteralNode NullLiteral) = False"
| "nq_printable q (LiteralNode (Plain s l)) \<longleftrightarrow> tag_wf l \<and> no_blank (tag_toString l) \<and> (s = [] \<longrightarrow> \<not> tag_empty l)"
| "nq_printable q (LiteralNode (Typed v u)) \<longleftrightarrow>
     lit_wf (Typed v u) \<and> variant_printable q v \<and> uri_printable (dataTypeUri (Typed v u))"

text \<open>What the parser makes of a printed node: a blank node's identifier takes the blank after it, a
  plain literal without language becomes a string typed with the empty URI.\<close>

fun nq_image :: "node \<Rightarrow> node" where
  "nq_image (BlankNode i) = BlankNode (i @ '' '')"
| "nq_image (LiteralNode (Plain s l)) = LiteralNode (if tag_empty l then Typed (VString s) (QUrl []) else Plain s l)"
| "nq_image (LiteralNode (Typed v u)) = LiteralNode (Typed v (dataTypeUri (Typed v u)))"
| "nq_image n = n"

lemma index_from_first:
  "\<forall>c\<in>set xs. \<not> p c \<Longrightarrow> p d \<Longrightarrow> index_from p (xs @ d # ys) i = Some (i + length xs)"
  by (simp add: index_from_append)

lemma index_of_first:
  assumes "i = length pre" "\<forall>c\<in>set xs. \<not> p c" "p d"
  shows "index_of p (pre @ xs @ d # ys) i = Some (i + length xs)"
  using assms by (simp add: index_of_def index_from_first)

lemma parse_printed_resource:
  assumes "qt_url_ok q" "uri_printable u" "\<not> url_isEmpty u"
  shows "nq_parseNode q (pre @ nq_serializeNode q (ResourceNode u) @ post) (length pre) =
           Some (ResourceNode u, length pre + length (nq_serializeNode q (ResourceNode u)))"
proof -
  let ?s = "pre @ ''<'' @ encoded u @ ''>'' @ post"
  have "index_of (\<lambda>c. c = CHR ''>'') ((pre @ ''<'') @ encoded u @ CHR ''>'' # post) (length pre + 1) =
      Some (length pre + 1 + length (encoded u))"
    by (rule index_of_first) (use assms(2) in \<open>auto simp: uri_printable_def\<close>)
  moreover have "mid ?s (length pre + 1) (length (encoded u)) = encoded u"
    using mid_append[of "length pre + 1" "pre @ ''<''" "length (encoded u)" "encoded u" "''>'' @ post"] by simp
  ultimately show ?thesis
    using assms(1,3) by (simp add: nq_parseNode_def nth_append node_of_url_def qt_url_ok_def)
qed

lemma parse_printed_blank:
  assumes "no_blank i" "i \<noteq> []"
  shows "nq_parseNode q (pre @ nq_serializeNode q (BlankNode i) @ '' '' @ post) (length pre) =
           Some (BlankNode (i @ '' ''), length pre + length (nq_serializeNode q (BlankNode i)))"
proof -
  let ?s = "pre @ ''_:'' @ i @ '' '' @ post"
  have blank: "is_space (CHR '' '')" by (simp add: is_space_def ccode_def)
  have "index_of is_space ((pre @ ''_:'') @ i @ CHR '' '' # post) (length pre + 2) =
      Some (length pre + 2 + length i)"
    by (rule index_of_first) (use assms(1) blank in \<open>auto simp: no_blank_def list_all_iff\<close>)
  moreover have "mid ?s (length pre + 2) (length i + 1) = i @ '' ''"
    using mid_append[of "length pre + 2" "pre @ ''_:''" "length i + 1" "i @ '' ''" post] by simp
  ultimately show ?thesis
    using assms(2) by (simp add: nq_parseNode_def nth_append node_of_id_def numeral_2_eq_2)
qed

text \<open>The scanner on a printed literal: the text, and behind the closing quote what was printed there.\<close>

lemma scan_printed_literal:
  assumes "s = pre @ [dquote] @ nq_escape v @ [dquote] @ rest"
  shows "find_quote s (length pre) = Some (length pre + 1 + length (nq_escape v))"
    and "nq_decodeLiteral (mid s (length pre + 1) (length (nq_escape v))) = Some v"
    and "drop (length pre + 2 + length (nq_escape v)) s = rest"
    and "length s = length pre + 2 + length (nq_escape v) + length rest"
    and "s ! length pre = dquote"
proof -
  have "even (trailing_backslashes (pre @ [dquote]))" by simp
  then show "find_quote s (length pre) = Some (length pre + 1 + length (nq_escape v))"
    using find_quote_escaped[of "length pre + 1" "length pre" "pre @ [dquote]" v rest] assms by simp
  have "mid s (length pre + 1) (length (nq_escape v)) = nq_escape v"
    using mid_append[of "length pre + 1" "pre @ [dquote]" "length (nq_escape v)" "nq_escape v" "dquote # rest"] assms
    by simp
  then show "nq_decodeLiteral (mid s (length pre + 1) (length (nq_escape v))) = Some v"
    by (simp add: nq_decodeLiteral_unescape)
qed (simp_all add: assms nth_append)

lemma nth_after: "drop n s = c # r \<Longrightarrow> n < length s \<and> s ! n = c"
  by (metis drop_eq_Nil list.discI not_le_imp_less nth_via_drop)

lemma mid_after: "drop n s = xs @ r \<Longrightarrow> mid s n (length xs) = xs"
  by (simp add: mid_def)

lemma index_of_after:
  "drop n s = xs @ d # r \<Longrightarrow> \<forall>c\<in>set xs. \<not> p c \<Longrightarrow> p d \<Longrightarrow> index_of p s n = Some (n + length xs)"
  by (simp add: index_of_def index_from_first)

lemma drop_more: "drop n s = c # r \<Longrightarrow> drop (Suc n) s = r"
  by (metis drop_Suc list.sel(3) tl_drop)

lemma parse_printed_tagged:
  fixes v :: qstring
  assumes "tag_wf l" "no_blank (tag_toString l)" "is_space c"
  defines "txt \<equiv> [dquote] @ nq_escape v @ [dquote] @ ''@'' @ tag_toString l"
  shows "nq_parseNode q (pre @ txt @ c # post) (length pre) =
           Some (LiteralNode (Plain v l), length pre + length txt)"
proof -
  define s where "s = pre @ [dquote] @ nq_escape v @ [dquote] @ CHR ''@'' # tag_toString l @ c # post"
  define e where "e = length pre + 1 + length (nq_escape v)"
  note scan = scan_printed_literal[OF s_def]
  from scan(3) have d1: "drop (Suc e) s = CHR ''@'' # tag_toString l @ c # post" by (simp add: e_def)
  from drop_more[OF this] have d2: "drop (Suc (Suc e)) s = tag_toString l @ c # post" .
  have at: "Suc e < length s" "s ! Suc e = CHR ''@''" using nth_after[OF d1] by auto
  have "findLiteralEnd s (length pre) = Some (e, True)"
    using scan(1) at by (simp add: findLiteralEnd_def e_def)
  moreover have "index_of is_space s (Suc e) = Some (Suc e + length (CHR ''@'' # tag_toString l))"
    using assms(2,3) d1
    by (intro index_of_after[where r = post and d = c]) (auto simp: no_blank_def list_all_iff is_space_def ccode_def)
  moreover have "mid s (Suc (Suc e)) (length (tag_toString l)) = tag_toString l"
    using d2 by (rule mid_after)
  ultimately have "nq_parse_literal q s (length pre) = Some (LiteralNode (Plain v l), e + 2 + length (tag_toString l))"
    using scan(2) assms(1)
    by (simp add: nq_parse_literal_def e_def createPlainLiteral_def node_of_literal_def lit_isValid_def)
  moreover have "s = pre @ txt @ c # post" by (simp add: s_def txt_def)
  moreover have "length pre < length s" using at e_def by simp
  ultimately show ?thesis
    using scan(5) by (simp add: nq_parseNode_def e_def txt_def)
qed

lemma parse_printed_typed:
  fixes v :: qstring
  assumes "qt_url_ok q" "uri_printable u" "fromString_uri q v u = Typed x w" "x \<noteq> VInvalid" "is_space c"
  defines "txt \<equiv> [dquote] @ nq_escape v @ [dquote] @ ''^^<'' @ encoded u @ ''>''"
  shows "nq_parseNode q (pre @ txt @ c # post) (length pre) =
           Some (LiteralNode (Typed x w), length pre + length txt)"
proof -
  define s where "s = pre @ [dquote] @ nq_escape v @ [dquote] @ ''^^<'' @ encoded u @ CHR ''>'' # c # post"
  define e where "e = length pre + 1 + length (nq_escape v)"
  note scan = scan_printed_literal[OF s_def]
  from scan(3) have d1: "drop (Suc e) s = ''^^<'' @ encoded u @ CHR ''>'' # c # post" by (simp add: e_def)
  have "drop (e + 4) s = drop 3 (drop (Suc e) s)" by (simp add: add.commute)
  also have "\<dots> = encoded u @ CHR ''>'' # c # post" unfolding d1 by simp
  finally have d4: "drop (e + 4) s = encoded u @ CHR ''>'' # c # post" .
  have at: "Suc e < length s" "s ! Suc e = CHR ''^''" using nth_after[of "Suc e" s] d1 by auto
  have len: "e + 3 < length s" using nth_after[of "e + 4" s] d4 by (cases "encoded u") auto
  have "mid s (Suc e) 3 = ''^^<''" using mid_after[of "Suc e" s "''^^<''"] d1 by (simp add: eval_nat_numeral)
  then have "findLiteralEnd s (length pre) = Some (e, False)"
    using scan(1) at len by (simp add: findLiteralEnd_def e_def)
  moreover have "index_of (\<lambda>c. c = CHR ''>'') s (e + 4) = Some (e + 4 + length (encoded u))"
    using d4 assms(2) by (intro index_of_after) (auto simp: uri_printable_def)
  moreover have "mid s (e + 4) (length (encoded u)) = encoded u"
    using d4 by (rule mid_after)
  moreover have "\<not> is_space (CHR ''^'')" by (simp add: is_space_def ccode_def)
  ultimately have "nq_parse_literal q s (length pre) = Some (LiteralNode (Typed x w), e + 5 + length (encoded u))"
    using scan(2) at assms(1,3,4)
    by (simp add: nq_parse_literal_def e_def qt_url_ok_def node_of_literal_def lit_isValid_def)
  moreover have "s = pre @ txt @ c # post" by (simp add: s_def txt_def)
  moreover have "length pre < length s" using at e_def by simp
  ultimately show ?thesis
    using scan(5) by (simp add: nq_parseNode_def e_def txt_def)
qed

lemma lit_is_type_simps [simp]:
  "lit_type (Plain s l) = TString" "lit_language (Typed v u) = LanguageTag None"
  by (simp_all add: lit_type_def)

lemma parse_printed_node:
  assumes ok: "qt_url_ok q" "qt_date_ok q" "qt_base64_ok q"
    and n: "nq_printable q n" "n \<noteq> EmptyNode"
  shows "nq_parseNode q (pre @ nq_serializeNode q n @ CHR '' '' # post) (length pre) =
           Some (nq_image n, length pre + length (nq_serializeNode q n))"
proof (cases n)
  case EmptyNode
  with n show ?thesis by simp
next
  case (ResourceNode u)
  with n ok show ?thesis
    using parse_printed_resource[of q u pre "CHR '' '' # post"] by simp
next
  case (BlankNode i)
  with n show ?thesis
    using parse_printed_blank[of i q pre post] by simp
next
  case (LiteralNode l)
  show ?thesis
  proof (cases l)
    case NullLiteral
    with n LiteralNode show ?thesis by simp
  next
    case (Plain s t)
    show ?thesis
    proof (cases "tag_empty t")
      case True
      with n LiteralNode Plain have t: "tag_toString t = []" "s \<noteq> []" by (auto simp: tag_empty_toString)
      have "fromString_uri q s (QUrl []) = Typed (VString s) (QUrl [])"
        using t by (simp add: fromString_uri_def lit_string_def lit_isValid_def)
      then show ?thesis
        using parse_printed_typed[of q "QUrl []" s "VString s" "QUrl []" "CHR '' ''" pre post] ok(1) t True
        by (simp add: LiteralNode Plain node_language_def lit_toString_def uri_printable_def no_blank_def)
    next
      case False
      with n LiteralNode Plain have t: "tag_wf t" "no_blank (tag_toString t)" "tag_toString t \<noteq> []"
        by (auto simp: tag_empty_toString)
      then show ?thesis
        using parse_printed_tagged[where l = t and c = "CHR '' ''" and pre = pre and v = s and post = post and q = q] False
        by (simp add: LiteralNode Plain node_language_def lit_toString_def)
    qed
  next
    case (Typed v u)
    with n LiteralNode have wf: "lit_wf (Typed v u)" "variant_printable q v" "uri_printable (dataTypeUri (Typed v u))"
      by simp_all
    then have "fromString_uri q (lit_toString q (Typed v u)) (dataTypeUri (Typed v u)) = Typed v (dataTypeUri (Typed v u))"
      using literal_text_roundtrip_core ok by blast
    from parse_printed_typed[OF ok(1) wf(3) this, of "CHR '' ''" pre post] wf(1)
    show ?thesis
      by (simp add: LiteralNode Typed node_language_def tag_toString_def del: dataTypeUri.simps)
  qed
qed

lemma parse_node_at:
  assumes "qt_url_ok q" "qt_date_ok q" "qt_base64_ok q" "nq_printable q n" "n \<noteq> EmptyNode"
    and "drop off s = nq_serializeNode q n @ CHR '' '' # post"
  shows "nq_parseNode q s off = Some (nq_image n, off + length (nq_serializeNode q n))"
    and "drop (off + length (nq_serializeNode q n)) s = CHR '' '' # post"
proof -
  have "off < length s" using assms(6) by (metis drop_eq_Nil append_is_Nil_conv list.discI not_le_imp_less)
  then have "length (take off s) = off" by simp
  moreover have "s = take off s @ nq_serializeNode q n @ CHR '' '' # post"
    using assms(6) by (metis append_take_drop_id)
  ultimately show "nq_parseNode q s off = Some (nq_image n, off + length (nq_serializeNode q n))"
    using parse_printed_node[OF assms(1-5), of "take off s" post] by simp
  show "drop (off + length (nq_serializeNode q n)) s = CHR '' '' # post"
    using assms(6) by (metis add.commute append_eq_conv_conj drop_drop)
qed

lemma printed_first:
  assumes "nq_printable q n" "n \<noteq> EmptyNode"
  obtains c r where "nq_serializeNode q n = c # r" "\<not> is_space c" "c \<noteq> CHR ''.''" "c \<noteq> CHR ''#''"
  using assms by (cases n) auto

lemma skip_blank:
  assumes "drop off s = CHR '' '' # t" "t \<noteq> []" "\<not> is_space (hd t)"
  shows "skip_space s off = Suc off" "drop (Suc off) s = t"
proof -
  show "drop (Suc off) s = t" using assms(1) by (rule drop_more)
  from assms(2,3) have "takeWhile is_space t = []" by (cases t) auto
  with assms(1) show "skip_space s off = Suc off" by (simp add: skip_space_def)
qed

lemma skip_to_node:
  assumes "drop off s = CHR '' '' # nq_serializeNode q n @ t" "nq_printable q n" "n \<noteq> EmptyNode"
  shows "skip_space s off = Suc off" "drop (Suc off) s = nq_serializeNode q n @ t"
  using skip_blank[OF assms(1)] printed_first[OF assms(2,3)] by (metis append_Cons list.discI list.sel(1))+

definition nq_image_stmt :: "statement \<Rightarrow> statement" where
  "nq_image_stmt s = mk_statement (nq_image (subject s)) (nq_image (predicate s)) (nq_image (object s))
     (nq_image (context_node s))"

definition nq_printable_stmt :: "qt \<Rightarrow> statement \<Rightarrow> bool" where
  "nq_printable_stmt q s \<longleftrightarrow> stmt_isValid s \<and> nq_printable q (subject s) \<and> nq_printable q (predicate s) \<and>
     nq_printable q (object s) \<and> nq_printable q (context_node s)"

lemma nq_image_kind [simp]: "node_kind (nq_image n) = node_kind n"
  by (cases n rule: nq_image.cases) auto

lemma parse_end_dot:
  "drop off s = CHR '' '' # ''.'' \<Longrightarrow> nq_parse_end s row off st = Some (LineStatement st)"
  using skip_blank[of off s "''.''"] nth_after[of "Suc off" s]
  by (simp add: nq_parse_end_def Let_def)

lemma parse_printed_line:
  assumes ok: "qt_url_ok q" "qt_date_ok q" "qt_base64_ok q" and p: "nq_printable_stmt q st"
  shows "nq_parseLine q (nq_serializeStatement q st) row = Some (LineStatement (nq_image_stmt st))"
proof -
  let ?S = "nq_serializeNode q (subject st)" and ?P = "nq_serializeNode q (predicate st)"
    and ?O = "nq_serializeNode q (object st)"
  define s where "s = nq_serializeStatement q st"
  define C where "C = (if \<not> node_isEmpty (context_node st) then nq_serializeNode q (context_node st) @ '' '' else []) @ ''.''"
  from p have pr: "nq_printable q (subject st)" "nq_printable q (predicate st)" "nq_printable q (object st)"
    "nq_printable q (context_node st)" and v: "stmt_isValid st" by (simp_all add: nq_printable_stmt_def)
  from v have ne: "subject st \<noteq> EmptyNode" "predicate st \<noteq> EmptyNode" "object st \<noteq> EmptyNode"
    and kinds: "node_isResource (subject st) \<or> node_isBlank (subject st)" "node_isResource (predicate st)"
      "\<not> node_isEmpty (object st)"
    and ctx: "\<not> node_isEmpty (context_node st) \<Longrightarrow> node_isResource (context_node st)"
    by (auto simp: stmt_isValid_def node_test_defs split: if_splits)
  have image: "node_isResource (nq_image n) = node_isResource n" "node_isBlank (nq_image n) = node_isBlank n"
    "node_isEmpty (nq_image n) = node_isEmpty n" for n by (simp_all add: node_test_defs)
  have "drop 0 s = ?S @ CHR '' '' # ?P @ CHR '' '' # ?O @ CHR '' '' # C"
    by (simp add: s_def nq_serializeStatement_def C_def)
  note s1 = parse_node_at[OF ok pr(1) ne(1) this]
  define o1 where "o1 = length ?S"
  from s1 have s1: "nq_parseNode q s 0 = Some (nq_image (subject st), o1)"
    "drop o1 s = CHR '' '' # ?P @ CHR '' '' # ?O @ CHR '' '' # C" by (simp_all add: o1_def)
  note k1 = skip_to_node[OF s1(2) pr(2) ne(2)]
  note s2 = parse_node_at[OF ok pr(2) ne(2) k1(2)]
  define o2 where "o2 = Suc o1 + length ?P"
  note k2 = skip_to_node[OF s2(2)[folded o2_def] pr(3) ne(3)]
  note s3 = parse_node_at[OF ok pr(3) ne(3) k2(2)]
  define o3 where "o3 = Suc o2 + length ?O"
  have tail: "nq_parse_context q s row o3 (nq_image (subject st)) (nq_image (predicate st)) (nq_image (object st)) =
      Some (LineStatement (nq_image_stmt st))"
  proof (cases "node_isEmpty (context_node st)")
    case True
    then have "context_node st = EmptyNode" by (cases "context_node st") (simp_all add: node_isEmpty_def)
    moreover have d: "drop o3 s = CHR '' '' # ''.''" using s3(2) True by (simp add: C_def o3_def)
    ultimately show ?thesis
      using skip_blank[OF d] nth_after[of "Suc o3" s] skip_blank[of o3 s "''.''"]
      by (auto simp: nq_parse_context_def Let_def nq_image_stmt_def nq_parse_end_def skip_space_def)
  next
    case False
    then have c: "context_node st \<noteq> EmptyNode" by (auto simp: node_isEmpty_def)
    have d: "drop o3 s = CHR '' '' # nq_serializeNode q (context_node st) @ CHR '' '' # ''.''"
      using s3(2) False by (simp add: C_def o3_def)
    note k3 = skip_to_node[OF d pr(4) c]
    note s4 = parse_node_at[OF ok pr(4) c k3(2)]
    obtain ch r where ch: "nq_serializeNode q (context_node st) = ch # r" "ch \<noteq> CHR ''.''"
      by (rule printed_first[OF pr(4) c])
    have "\<not> length s \<le> Suc o3" "s ! Suc o3 = ch"
      using nth_after[of "Suc o3" s] k3(2) ch by auto
    then show ?thesis
      using k3(1) s4(1) ch ctx[OF False] parse_end_dot[OF s4(2)]
      by (simp add: nq_parse_context_def Let_def image nq_image_stmt_def)
  qed
  have p2: "nq_parseNode q s (Suc o1) = Some (nq_image (predicate st), o2)" using s2(1) by (simp add: o2_def)
  have p3: "nq_parseNode q s (Suc o2) = Some (nq_image (object st), o3)" using s3(1) by (simp add: o3_def)
  show ?thesis
    using s1(1) k1(1) p2 k2(1) p3 kinds tail
    by (auto simp: nq_parseLine_def image s_def[symmetric])
qed

lemma no_blank_line: "no_blank s \<Longrightarrow> newline \<notin> set s"
  by (auto simp: no_blank_def list_all_iff)

lemma printed_node_no_newline: "nq_printable q n \<Longrightarrow> newline \<notin> set (nq_serializeNode q n)"
proof (induction q n rule: nq_printable.induct)
  case (2 q u)
  then show ?case by (auto simp: uri_printable_def dest: no_blank_line)
next
  case (3 q i)
  then show ?case by (auto dest: no_blank_line)
next
  case (5 q s l)
  then show ?case
    using nq_escape_no_line_end by (auto simp: node_language_def dest: no_blank_line)
next
  case (6 q v u)
  then show ?case
    using nq_escape_no_line_end
    by (auto simp: node_language_def tag_toString_def uri_printable_def simp del: dataTypeUri.simps dest: no_blank_line)
qed simp_all

lemma printed_line:
  assumes "nq_printable_stmt q st"
  shows "newline \<notin> set (nq_serializeStatement q st)"
    and "trimmed (nq_serializeStatement q st) = nq_serializeStatement q st"
    and "nq_serializeStatement q st \<noteq> []" "hd (nq_serializeStatement q st) \<noteq> CHR ''#''"
    and "chop_cr (nq_serializeStatement q st) = nq_serializeStatement q st"
proof -
  let ?s = "nq_serializeStatement q st"
  from assms have pr: "nq_printable q (subject st)" "nq_printable q (predicate st)" "nq_printable q (object st)"
    "nq_printable q (context_node st)" and v: "stmt_isValid st" by (simp_all add: nq_printable_stmt_def)
  then show "newline \<notin> set ?s"
    using printed_node_no_newline by (simp add: nq_serializeStatement_def)
  from v have "subject st \<noteq> EmptyNode" by (auto simp: stmt_isValid_def node_test_defs split: if_splits)
  with pr(1) obtain c r where c: "nq_serializeNode q (subject st) = c # r" "\<not> is_space c" "c \<noteq> CHR ''#''"
    by (rule printed_first)
  then obtain t where t: "?s = c # t" by (simp add: nq_serializeStatement_def)
  have l: "last ?s = CHR ''.''" by (simp add: nq_serializeStatement_def)
  show "?s \<noteq> []" "hd ?s \<noteq> CHR ''#''" using t c by simp_all
  show "trimmed ?s = ?s" using t l c by (intro trimmed_no_space) auto
  show "chop_cr ?s = ?s" using l by (auto simp: chop_cr_def)
qed

lemma split_on_document:
  "\<forall>l\<in>set ls. newline \<notin> set l \<Longrightarrow> split_on newline (concat (map (\<lambda>l. l @ [newline]) ls)) = ls @ [[]]"
proof (induction ls)
  case Nil
  then show ?case by simp
next
  case (Cons l ls)
  then have "split_on newline (l @ newline # concat (map (\<lambda>l. l @ [newline]) ls)) = [l] @ ls @ [[]]"
    by (subst split_on_append) (simp add: split_on_single)
  then show ?case by simp
qed

lemma nq_document_core:
  assumes ok: "qt_url_ok q" "qt_date_ok q" "qt_base64_ok q" and p: "\<forall>s\<in>set sts. nq_printable_stmt q s"
  shows "nq_parse_lines q (map (nq_serializeStatement q) sts) row = Some (Inr (map nq_image_stmt sts))"
  using p
proof (induction sts arbitrary: row)
  case Nil
  then show ?case by simp
next
  case (Cons st sts)
  then have st: "nq_printable_stmt q st" by simp
  have "stmt_isValid (nq_image_stmt st) = stmt_isValid st"
    by (simp add: stmt_isValid_def nq_image_stmt_def mk_statement_def node_test_defs)
  moreover have "stmt_isValid st" using st by (simp add: nq_printable_stmt_def)
  ultimately show ?case
    using Cons parse_printed_line[OF ok st, of row] printed_line[OF st] by simp
qed

text \<open>Claim C18: parsing the serialized N-Quads document of a list of printable statements succeeds and gives, in order, the image nq_image of
  each: a blank node's identifier with the blank that follows it, a plain literal without language as a string typed with the EMPTY URI, a
  typed literal with its datatype written out, and every other node (resources, plain literals with a language) as it was. Printable are valid
  statements with URIs without white space or >, blank identifiers and language tags without white space, literals that are well formed and
  print back, no null literal and no empty plain literal without language. So a document without blank nodes, plain literals without language
  and implicit datatypes comes back exactly (nq_image_exact).\<close>

theorem nq_document_roundtrip:
  assumes "qt_url_ok q" "qt_date_ok q" "qt_base64_ok q" "\<forall>s\<in>set sts. nq_printable_stmt q s"
  shows "nq_parseStream q (fst (nq_serialize q sts SerializationNQuads)) SerializationNQuads =
           Some (Inr (map nq_image_stmt sts))"
proof -
  let ?ls = "map (nq_serializeStatement q) sts"
  have "concat (map (\<lambda>s. nq_serializeStatement q s @ [newline]) sts) = concat (map (\<lambda>l. l @ [newline]) ?ls)"
    by (simp add: o_def)
  then have "split_on newline (fst (nq_serialize q sts SerializationNQuads)) = ?ls @ [[]]"
    using split_on_document[of ?ls] printed_line(1) assms(4) by (simp add: nq_serialize_def del: map_map)
  moreover have "map chop_cr ?ls = ?ls" using printed_line(5) assms(4) by simp
  ultimately show ?thesis
    using nq_document_core[OF assms, of 1]
    by (simp add: nq_parseStream_def text_lines_def del: map_map)
qed

definition nq_example :: "statement list" where
  "nq_example =
     [mk_statement (ResourceNode (QUrl ''a:s'')) (ResourceNode (QUrl ''a:p''))
        (LiteralNode (Plain [CHR ''a'', dquote, newline, bslash] (LanguageTag (Some ''en'')))) (ResourceNode (QUrl ''a:g'')),
      mk_statement (BlankNode ''b1'') (ResourceNode (QUrl ''a:p'')) (LiteralNode (Typed (VInt 7) (xsd XsdInteger))) EmptyNode]"

theorem nq_document_roundtrip_witness:
  "nq_parseStream plain_qt (fst (nq_serialize plain_qt nq_example SerializationNQuads)) SerializationNQuads =
     Some (Inr (map nq_image_stmt nq_example))"
proof (rule nq_document_roundtrip[OF plain_qt_url_ok plain_qt_date_ok plain_qt_base64_ok])
  have "uri_printable (xsd XsdInteger)" "encoded (xsd XsdInteger) \<noteq> []" by code_simp+
  then show "\<forall>s\<in>set nq_example. nq_printable_stmt plain_qt s"
    by (simp add: nq_example_def nq_printable_stmt_def mk_statement_def stmt_isValid_def node_test_defs
        uri_printable_def no_blank_def is_space_def ccode_def url_isEmpty_def tag_wf_def tag_empty_def
        tag_toString_def toLower_def char_toLower_def typeFromDataTypeUri_def xsdHash_def)
qed

text \<open>Statements without blank nodes, whose literals carry a language or an explicit datatype, come back
  exactly.\<close>

lemma nq_image_exact:
  "\<not> node_isBlank n \<Longrightarrow> (\<And>s l. n = LiteralNode (Plain s l) \<Longrightarrow> \<not> tag_empty l) \<Longrightarrow>
     (\<And>v u. n = LiteralNode (Typed v u) \<Longrightarrow> \<not> url_isEmpty u) \<Longrightarrow> nq_image n = n"
  by (cases n rule: nq_image.cases) (auto simp: node_isBlank_def)

text \<open>A line whose object is a plain literal followed by the final dot is refused: the scanner asks for
  three more characters behind the closing quote.\<close>

lemma plain_literal_before_dot_rejected:
  "nq_parseLine plain_qt (''<a:s> <a:p> '' @ [dquote, CHR ''v'', dquote] @ '' .'') 1 =
     nq_error 1 13 ''Need to have a valid object node''"
  by code_simp

end
