(* ===== verification/N3_Parser.thy ===== *)
theory N3_Parser
  imports Rdf_Node Soprano_Error Text_Escape
begin

text \<open>
  The parser for nodes in N3 notation (soprano/n3nodeparser.cpp). A QTextStream is the text that
  remains to be read; reading a character at the end gives NUL, reading a word skips blanks and stops
  before the next one. The parser of a datatype calls itself through the stream operator, with a
  fresh parser that has no prefixes and no flags.
\<close>

section \<open>Streams\<close>

type_synonym stream = qstring

definition read_char :: "stream \<Rightarrow> char \<times> stream" where
  "read_char s = (case s of [] \<Rightarrow> (CHR 0x00, []) | c # r \<Rightarrow> (c, r))"

definition skipWhiteSpace :: "stream \<Rightarrow> stream" where
  "skipWhiteSpace s = dropWhile is_space s"

definition read_word :: "stream \<Rightarrow> qstring \<times> stream" where
  "read_word s = (let r = dropWhile is_space s
     in (takeWhile (\<lambda>c. \<not> is_space c) r, dropWhile (\<lambda>c. \<not> is_space c) r))"

text \<open>scanStream: \<open>delim\<close> is NUL for the null character, which looks for a blank. The result says
  whether the delimiter was found; the text read so far and the rest of the stream.\<close>

fun scan_loop :: "char \<Rightarrow> nat \<Rightarrow> qstring \<Rightarrow> stream \<Rightarrow> bool \<times> qstring \<times> stream" where
  "scan_loop delim escapeCnt str [] = (False, str, [])"
| "scan_loop delim escapeCnt str (c # s) =
     (if (delim = CHR 0x00 \<and> is_space c) \<or> (c = delim \<and> escapeCnt = 0) then (True, str, s)
      else if c = bslash then scan_loop delim ((escapeCnt + 1) mod 2) (str @ [c]) s
      else scan_loop delim 0 (str @ [c]) s)"

definition scanStream :: "stream \<Rightarrow> qstring \<Rightarrow> char \<Rightarrow> bool \<times> qstring \<times> stream" where
  "scanStream s str delim = scan_loop delim 0 str s"

function n3_decode_loop :: "qstring \<Rightarrow> nat \<Rightarrow> qstring" where
  "n3_decode_loop s pos =
     (case index_of (\<lambda>c. c = bslash) s pos of
        None \<Rightarrow> s
      | Some k \<Rightarrow> if length s > k + 1 then n3_decode_loop (decode_at k s) (k + 1) else s)"
  by pat_completeness auto
termination
proof (relation "measure (\<lambda>(s, pos). length s - pos)")
  fix s pos k
  assume "index_of (\<lambda>c. c = bslash) s pos = Some k" "k + 1 < length s"
  with index_of_SomeD(1)[OF this(1)]
  show "((decode_at k s, k + 1), s, pos) \<in> measure (\<lambda>(s, pos). length s - pos)"
    by (auto simp: decode_at_def remove_at_def replace2_at_def)
qed simp

declare n3_decode_loop.simps [simp del]

definition n3_decodeLiteral :: "qstring \<Rightarrow> qstring" where
  "n3_decodeLiteral s = n3_decode_loop s 0"

section \<open>Parser\<close>

record n3_flags =
  StrictLiteralTypes :: bool
  StrictUris :: bool
  IgnorePrefixes :: bool

definition NoFlags :: n3_flags where
  "NoFlags = \<lparr> StrictLiteralTypes = False, StrictUris = False, IgnorePrefixes = False \<rparr>"

type_synonym n3_prefixes = "qstring \<rightharpoonup> qurl"

definition addNamespacePrefix :: "qstring \<Rightarrow> qurl \<Rightarrow> n3_prefixes \<Rightarrow> n3_prefixes" where
  "addNamespacePrefix bname ns p = p(bname \<mapsto> ns)"

text \<open>The characters of the class \<open>w\<close> of QRegExp, and the expression for prefixed names.\<close>

definition is_word_char :: "char \<Rightarrow> bool" where
  "is_word_char c \<longleftrightarrow> (let n = ccode c in
     (48 \<le> n \<and> n \<le> 57) \<or> (65 \<le> n \<and> n \<le> 90) \<or> n = 95 \<or> (97 \<le> n \<and> n \<le> 122) \<or>
     n \<in> {170, 178, 179, 181, 185, 186, 188, 189, 190} \<or> (192 \<le> n \<and> n \<noteq> 215 \<and> n \<noteq> 247))"

definition prefixed_uri :: "qstring \<Rightarrow> (qstring \<times> qstring) option" where
  "prefixed_uri token = (case split_on (CHR '':'') token of
       [a, b] \<Rightarrow> if a \<noteq> [] \<and> b \<noteq> [] \<and> list_all is_word_char a \<and> list_all is_word_char b then Some (a, b) else None
     | _ \<Rightarrow> None)"

text \<open>What a bare token denotes: \<open>a\<close>, then numbers and plain text, or prefixed names when literal
  types are strict. The node a boolean or an int token gets is assigned again by the double branch,
  whose else part makes every other token a plain literal.\<close>

definition n3_bool_node :: "qstring \<Rightarrow> node" where
  "n3_bool_node token =
     (if toLower token = ''false'' then node_of_literal (lit_bool False)
      else if toLower token = ''true'' then node_of_literal (lit_bool True) else EmptyNode)"

definition n3_int_node :: "qstring \<Rightarrow> node \<Rightarrow> node" where
  "n3_int_node token node = (case parse_in (- (2 ^ 31)) (2 ^ 31 - 1) token of
       Some v \<Rightarrow> node_of_literal (lit_int (word_of_int v)) | None \<Rightarrow> node)"

definition n3_double_node :: "qt \<Rightarrow> qstring \<Rightarrow> node \<Rightarrow> node" where
  "n3_double_node q token node = (case dbl_parse q token of
       Some x \<Rightarrow> node_of_literal (lit_double x)
     | None \<Rightarrow> node_of_literal (createPlainLiteral token (LanguageTag None)))"

definition n3_prefixed_node :: "qt \<Rightarrow> n3_prefixes \<Rightarrow> qstring \<Rightarrow> node" where
  "n3_prefixed_node q pfx token = (case prefixed_uri token of
       None \<Rightarrow> EmptyNode
     | Some (bname, local) \<Rightarrow>
         (let ns = (case pfx bname of Some u \<Rightarrow> u | None \<Rightarrow> QUrl [])
          in if url_isValid q ns then node_of_url (url_parse q (url_toString q ns @ local)) else EmptyNode))"

definition n3_token_node :: "qt \<Rightarrow> n3_flags \<Rightarrow> n3_prefixes \<Rightarrow> qstring \<Rightarrow> node" where
  "n3_token_node q flags pfx token =
     (if token = ''a'' then node_of_url (rdf RdfType)
      else if \<not> StrictLiteralTypes flags then
        n3_double_node q token (n3_int_node token (n3_bool_node token))
      else if \<not> IgnorePrefixes flags then n3_prefixed_node q pfx token
      else EmptyNode)"

text \<open>The error of a parse that yields no node: the first character read last, and the position.\<close>

definition n3_error :: "nat \<Rightarrow> stream \<Rightarrow> char \<Rightarrow> error" where
  "n3_error len0 s c = mk_parser_error (mk_locator 0 (int (len0 - length s)))
     (''Got '' @ [CHR 0x27, c, CHR 0x27] @ ''. Expected one of '' @ [CHR 0x27] @ ''<'' @ [CHR 0x27] @ '', '' @
      [CHR 0x27, dquote, CHR 0x27] @ '', '' @ [CHR 0x27] @ ''_'' @ [CHR 0x27] @ '', '' @
      [CHR 0x27] @ ''a'' @ [CHR 0x27] @ ''.'')"

definition n3_finish :: "nat \<Rightarrow> char \<Rightarrow> node \<Rightarrow> stream \<Rightarrow> node \<times> stream \<times> error" where
  "n3_finish len0 c node s = (node, s, if \<not> node_isValid node then n3_error len0 s c else NoError)"

lemma dropWhile_shorter: "length (dropWhile P s) \<le> length s"
  by (induction s) auto

lemma scan_loop_shorter: "scan_loop d e str s = (b, t, r) \<Longrightarrow> length r \<le> length s"
  by (induction d e str s rule: scan_loop.induct) (auto split: if_splits)

lemma skip_shorter: "skipWhiteSpace s0 = c # s \<Longrightarrow> length s < length s0"
  using dropWhile_shorter[of is_space s0] by (simp add: skipWhiteSpace_def)

lemma scan_shorter: "(b, t, r) = scanStream s str d \<Longrightarrow> length r \<le> length s"
  using scan_loop_shorter[of d 0 str s b t r] by (simp add: scanStream_def)

text \<open>\<open>len0\<close> is the length of the whole stream, for the positions in errors.\<close>

function n3_parseNode :: "qt \<Rightarrow> nat \<Rightarrow> n3_flags \<Rightarrow> n3_prefixes \<Rightarrow> stream \<Rightarrow> node \<times> stream \<times> error" where
  "n3_parseNode q len0 flags pfx s0 =
     (case skipWhiteSpace s0 of
        [] \<Rightarrow> (EmptyNode, [], NoError)
      | c # s \<Rightarrow>
          (if c = CHR ''<'' then
             (case scanStream s [] (CHR ''>'') of (found, str, r) \<Rightarrow>
                n3_finish len0 c
                  (if found then node_of_url ((if StrictUris flags then url_fromEncodedStrict q else url_fromEncoded q) str)
                   else EmptyNode) r)
           else if c = CHR ''_'' then
             (case read_char s of (c, r) \<Rightarrow>
                if c = CHR '':'' then (case read_word r of (str, r) \<Rightarrow> n3_finish len0 c (node_of_id str) r)
                else n3_finish len0 c EmptyNode r)
           else if c = dquote then
             (case scanStream s [] dquote of (found, str, r) \<Rightarrow>
                if \<not> found then n3_finish len0 c EmptyNode r
                else (let val = n3_decodeLiteral str in
                  (case r of
                     [] \<Rightarrow> n3_finish len0 c (node_of_literal (createPlainLiteral val (LanguageTag None))) []
                   | d # r \<Rightarrow>
                       if is_space d then n3_finish len0 c (node_of_literal (createPlainLiteral val (LanguageTag None))) r
                       else if d = CHR ''@'' then
                         (case read_word r of (lang, r) \<Rightarrow>
                            n3_finish len0 c (node_of_literal (createPlainLiteral val (tag_of_string lang))) r)
                       else if d = CHR ''^'' then
                         (case r of
                            [] \<Rightarrow> n3_finish len0 c EmptyNode []
                          | e # r \<Rightarrow>
                              if e = CHR ''^'' then
                                (case n3_parseNode q len0 NoFlags Map.empty r of (resNode, r', _) \<Rightarrow>
                                   n3_finish len0 c
                                     (if node_isResource resNode then node_of_literal (fromString_uri q val (node_uri resNode))
                                      else EmptyNode) r')
                              else n3_finish len0 c EmptyNode r)
                       else n3_finish len0 c EmptyNode r)))
           else
             (case scanStream s [c] (CHR 0x00) of (_, token, r) \<Rightarrow>
                n3_finish len0 c (n3_token_node q flags pfx token) r)))"
  by pat_completeness auto
termination
  by (relation "measure (\<lambda>(q, len0, flags, pfx, s). length s)") (auto dest!: skip_shorter scan_shorter)

declare n3_parseNode.simps [simp del]

definition fromN3 :: "qt \<Rightarrow> qstring \<Rightarrow> n3_flags \<Rightarrow> node" where
  "fromN3 q s flags = fst (n3_parseNode q (length s) flags Map.empty s)"

section \<open>Round trip\<close>

lemma n3_decode_loop_skip:
  assumes "c \<noteq> bslash"
  shows "n3_decode_loop (pre @ c # t) (length pre) = n3_decode_loop (pre @ c # t) (Suc (length pre))"
  using assms
  by (subst (1 2) n3_decode_loop.simps) (simp add: index_of_skip nth_append)

lemma n3_decode_loop_hit:
  "n3_decode_loop (pre @ bslash # d # t) (length pre) =
     n3_decode_loop (decode_at (length pre) (pre @ bslash # d # t)) (Suc (length pre))"
  by (subst n3_decode_loop.simps) (simp add: index_of_here nth_append)

lemma n3_decode_loop_unescape: "n3_decode_loop (pre @ t) (length pre) = pre @ unescape t"
proof (induction t arbitrary: pre rule: unescape.induct)
  case 1
  then show ?case by (simp add: n3_decode_loop.simps index_of_end)
next
  case (2 c)
  then show ?case
    by (subst n3_decode_loop.simps)
       (auto simp: index_of_def dest!: index_from_SomeD split: option.splits if_splits)
next
  case (3 c d cs)
  show ?case
  proof (cases "c = bslash")
    case False
    then have "n3_decode_loop ((pre @ [c]) @ d # cs) (length (pre @ [c])) = (pre @ [c]) @ unescape (d # cs)"
      by (intro "3.IH"(5)) auto
    with False n3_decode_loop_skip[of c pre "d # cs"] show ?thesis by simp
  next
    case True
    consider "d = bslash" | "d = CHR ''n''" | "d = CHR ''r''" | "d = dquote"
      | "d \<notin> {bslash, CHR ''n'', CHR ''r'', dquote}" by blast
    then show ?thesis
    proof cases
      case 1
      then show ?thesis using "3.IH"(1)[of "pre @ [bslash]"] True
        by (simp add: n3_decode_loop_hit decode_at_append)
    next
      case 2
      then show ?thesis using "3.IH"(2)[of "pre @ [newline]"] True
        by (simp add: n3_decode_loop_hit decode_at_append)
    next
      case 3
      then show ?thesis using "3.IH"(3)[of "pre @ [creturn]"] True
        by (simp add: n3_decode_loop_hit decode_at_append)
    next
      case 4
      then show ?thesis using "3.IH"(4)[of "pre @ [dquote]"] True
        by (simp add: n3_decode_loop_hit decode_at_append)
    next
      case 5
      then show ?thesis using "3.IH"(5)[of "pre @ [bslash]"] True
        by (simp add: n3_decode_loop_hit decode_at_append)
    qed
  qed
qed

lemma n3_decodeLiteral_unescape: "n3_decodeLiteral s = unescape s"
  using n3_decode_loop_unescape[of "[]" s] by (simp add: n3_decodeLiteral_def)

text \<open>The scanner reads an escaped text up to the quote behind it, and an unescaped one without
  backslashes up to the delimiter.\<close>

lemma escape_text_Cons: "escape_text (c # s) = escape_char c @ escape_text s"
  by (simp add: escape_text_def)

lemma escape_text_Nil: "escape_text [] = []"
  by (simp add: escape_text_def)

lemma escape_char_cases:
  obtains (plain) "escape_char c = [c]" "c \<noteq> bslash" "c \<noteq> dquote"
  | (quoted) d where "escape_char c = [bslash, d]"
proof (cases "c \<in> set (map fst escapeHash)")
  case True
  with quoted show thesis by (auto simp: escape_char_def escapeHash_def)
next
  case False
  with plain show thesis by (simp add: escape_char_def escapeHash_def)
qed

lemma scan_escaped:
  "scan_loop dquote 0 acc (escape_text s @ dquote # r) = (True, acc @ escape_text s, r)"
proof (induction s arbitrary: acc)
  case Nil
  then show ?case by (simp add: escape_text_Nil)
next
  case (Cons c s)
  show ?case
  proof (cases c rule: escape_char_cases)
    case plain
    with Cons show ?thesis by (simp add: escape_text_Cons)
  next
    case (quoted d)
    with Cons show ?thesis by (simp add: escape_text_Cons)
  qed
qed

lemma scan_plain:
  assumes "d \<noteq> CHR 0x00" "d \<notin> set s" "bslash \<notin> set s"
  shows "scan_loop d 0 acc (s @ d # r) = (True, acc @ s, r)"
  using assms by (induction s arbitrary: acc) auto

text \<open>The parser undoes four of the eight escapes of the printer.\<close>

definition n3_text :: "qstring \<Rightarrow> bool" where
  "n3_text s \<longleftrightarrow> list_all (\<lambda>c. c \<notin> {CHR 0x08, CHR 0x09, CHR 0x0C, CHR 0x27}) s"

lemma unescape_escape_text: "n3_text s \<Longrightarrow> unescape (escape_text s) = s"
proof (induction s)
  case Nil
  then show ?case by (simp add: escape_text_Nil)
next
  case (Cons c s)
  then show ?case
    by (auto simp: n3_text_def escape_text_Cons escape_char_def escapeHash_def unescape_plain split: if_splits)
qed

definition n3_uri :: "qurl \<Rightarrow> bool" where
  "n3_uri u \<longleftrightarrow> CHR ''>'' \<notin> set (encoded u) \<and> bslash \<notin> set (encoded u)"

fun n3_printable :: "qt \<Rightarrow> node \<Rightarrow> bool" where
  "n3_printable q EmptyNode = True"
| "n3_printable q (ResourceNode u) \<longleftrightarrow> \<not> url_isEmpty u \<and> n3_uri u"
| "n3_printable q (BlankNode i) \<longleftrightarrow> i \<noteq> [] \<and> no_blank i"
| "n3_printable q (LiteralNode NullLiteral) = False"
| "n3_printable q (LiteralNode (Plain s l)) \<longleftrightarrow> tag_wf l \<and> no_blank (tag_toString l) \<and> n3_text s"
| "n3_printable q (LiteralNode (Typed v u)) \<longleftrightarrow> lit_wf (Typed v u) \<and> variant_printable q v \<and>
     n3_uri (dataTypeUri (Typed v u)) \<and> n3_text (lit_toString q (Typed v u)) \<and> \<not> url_isEmpty u"

text \<open>The type table has no entry for the variant type, or the literal's own datatype.\<close>

fun cache_fits :: "type_cache \<Rightarrow> node \<Rightarrow> bool" where
  "cache_fits c (LiteralNode (Typed v u)) \<longleftrightarrow>
     (case c (variant_type v) of None \<Rightarrow> True | Some t \<Rightarrow> t = encoded (dataTypeUri (Typed v u)))"
| "cache_fits c n = True"

lemma read_word_all: "no_blank s \<Longrightarrow> read_word s = (s, [])"
  by (cases s) (auto simp: read_word_def no_blank_def list_all_iff Let_def takeWhile_eq_all_conv dropWhile_eq_Nil_conv)

lemma parse_n3_resource:
  assumes "qt_url_ok q" "\<not> url_isEmpty u" "n3_uri u"
  shows "n3_parseNode q m flags pfx (resourceToN3 u) = (ResourceNode u, [], NoError)"
proof -
  have "scanStream (encoded u @ ''>'') [] (CHR ''>'') = (True, encoded u, [])"
    using assms(3) scan_plain[of "CHR ''>''" "encoded u" "[]" "[]"] by (simp add: scanStream_def n3_uri_def)
  with assms show ?thesis
    by (subst n3_parseNode.simps)
       (simp add: resourceToN3_def skipWhiteSpace_def node_of_url_def qt_url_ok_def n3_finish_def node_test_defs)
qed

lemma n3_roundtrip_core:
  assumes ok: "qt_url_ok q" "qt_date_ok q" "qt_base64_ok q" and n: "n3_printable q n" and c: "cache_fits c n"
  shows "fst (n3_parseNode q m flags pfx (fst (node_toN3 q n c))) = n"
proof (cases n)
  case EmptyNode
  then show ?thesis by (subst n3_parseNode.simps) (simp add: skipWhiteSpace_def)
next
  case (ResourceNode u)
  with n ok show ?thesis by (simp add: parse_n3_resource)
next
  case (BlankNode i)
  with n show ?thesis
    by (subst n3_parseNode.simps)
       (simp add: blankToN3_def skipWhiteSpace_def read_char_def read_word_all n3_finish_def node_of_id_def)
next
  case (LiteralNode l)
  let ?e = "escape_text (lit_toString q l)"
  have scan: "scanStream (?e @ dquote # r) [] dquote = (True, ?e, r)" for r
    using scan_escaped[of "[]" "lit_toString q l" r] by (simp add: scanStream_def)
  have dec: "n3_text (lit_toString q l) \<Longrightarrow> n3_decodeLiteral ?e = lit_toString q l"
    by (simp add: n3_decodeLiteral_unescape unescape_escape_text)
  show ?thesis
  proof (cases l)
    case NullLiteral
    with n LiteralNode show ?thesis by simp
  next
    case (Plain s t)
    have l: "lit_toString q (Plain s t) = s" by (simp add: lit_toString_def)
    note scan = scan[unfolded Plain l] and dec = dec[unfolded Plain l]
    show ?thesis
    proof (cases "tag_empty t")
      case True
      then have "t = LanguageTag None" by (cases t) (simp add: tag_empty_def)
      with n scan dec True LiteralNode Plain show ?thesis
        by (subst n3_parseNode.simps)
           (simp add: literalToN3_def lit_toString_def skipWhiteSpace_def Let_def n3_finish_def
             createPlainLiteral_def node_of_literal_def lit_isValid_def)
    next
      case False
      with n scan dec LiteralNode Plain show ?thesis
        by (subst n3_parseNode.simps)
           (simp add: literalToN3_def lit_toString_def skipWhiteSpace_def Let_def n3_finish_def read_word_all
             createPlainLiteral_def node_of_literal_def lit_isValid_def)
    qed
  next
    case (Typed v u)
    let ?d = "dataTypeUri (Typed v u)"
    from n LiteralNode Typed have wf: "lit_wf (Typed v u)" "variant_printable q v" "n3_uri ?d"
      "n3_text (lit_toString q (Typed v u))" "\<not> url_isEmpty u"
      by (simp_all del: lit_wf.simps dataTypeUri.simps)
    then have d: "?d = u" by simp
    have parse: "fromString_uri q (lit_toString q (Typed v u)) u = Typed v u"
      using literal_text_roundtrip_core[OF ok(2,3) wf(1,2)] d by simp
    have printed: "fst (node_toN3 q n c) = [dquote] @ ?e @ [dquote] @ ''^^'' @ resourceToN3 u"
      using c d by (auto simp: LiteralNode Typed literalToN3_def Let_def lit_type_def resourceToN3_def
          simp del: dataTypeUri.simps split: option.splits)
    show ?thesis
      unfolding printed using scan[of "''^^'' @ resourceToN3 u"] dec wf d parse parse_n3_resource[OF ok(1) wf(5)]
      by (subst n3_parseNode.simps)
         (simp add: LiteralNode Typed skipWhiteSpace_def Let_def n3_finish_def node_of_literal_def lit_isValid_def
           node_test_defs del: dataTypeUri.simps)
  qed
qed

text \<open>Claim C19: the N3 text of a printable node is parsed back to the same node, whatever the flags and prefixes of the parser. Printable are the
  empty node, resources whose URI has no > and no backslash, blank nodes whose identifier has no white space, plain literals with a tag
  without white space, and typed literals with an explicit datatype whose value prints back, where the text of a literal has no tab,
  backspace, form feed or apostrophe; and the table of datatypes must not hold another datatype for the literal's variant type (cache_fits). A
  text with a tab does not come back: n3_tab_not_restored.\<close>

theorem n3_roundtrip:
  assumes "qt_url_ok q" "qt_date_ok q" "qt_base64_ok q" "n3_printable q n" "cache_fits c n"
  shows "fst (n3_parseNode q m flags pfx (fst (node_toN3 q n c))) = n"
  using assms by (rule n3_roundtrip_core)

theorem n3_roundtrip_witness:
  "fromN3 plain_qt (fst (node_toN3 plain_qt (LiteralNode (Plain [CHR ''a'', dquote, newline] (LanguageTag (Some ''en'')))) Map.empty))
     NoFlags = LiteralNode (Plain [CHR ''a'', dquote, newline] (LanguageTag (Some ''en'')))"
  unfolding fromN3_def
  by (rule n3_roundtrip[OF plain_qt_url_ok plain_qt_date_ok plain_qt_base64_ok])
     (simp_all add: tag_wf_def tag_toString_def no_blank_def n3_text_def is_space_def ccode_def
        toLower_def char_toLower_def)

text \<open>A tab is printed as an escape the parser does not know.\<close>

lemma n3_tab_not_restored:
  "fromN3 plain_qt (fst (node_toN3 plain_qt (LiteralNode (Plain [CHR 0x09] (LanguageTag None))) Map.empty)) NoFlags =
     LiteralNode (Plain [bslash, CHR ''t''] (LanguageTag None))"
  by code_simp

text \<open>Without strict literal types a boolean token becomes a plain literal, a decimal token a double.\<close>

lemma n3_boolean_token:
  assumes "dbl_parse q ''true'' = None"
  shows "fromN3 q ''true'' NoFlags = LiteralNode (Plain ''true'' (LanguageTag None))"
proof -
  have "scanStream ''rue'' ''t'' (CHR 0x00) = (False, ''true'', [])" by code_simp
  moreover have "parse_in (- (2 ^ 31)) (2 ^ 31 - 1) ''true'' = None" by code_simp
  ultimately show ?thesis
    using assms unfolding fromN3_def
    by (subst n3_parseNode.simps)
       (simp add: skipWhiteSpace_def is_space_def ccode_def n3_token_node_def NoFlags_def n3_double_node_def
          n3_int_node_def n3_finish_def node_of_literal_def createPlainLiteral_def lit_isValid_def)
qed

end
