(* ===== verification/Binding_Set.thy ===== *)
theory Binding_Set
  imports Rdf_Node "HOL-Library.AList"
begin

text \<open>
  Binding sets, the rows of query results (soprano/bindingset.cpp): a hash from names to positions, the
  list of names and the vector of values. The hash is an association list with distinct keys. Inserting
  a name twice appends a second value and moves the name to it.

  The locale \<open>keyed_store\<close> is the contract of a lookup after insertions; binding sets interpret it.
\<close>

section \<open>The contract of a keyed store\<close>

locale keyed_store =
  fixes inv :: "'s \<Rightarrow> bool"
    and lookup :: "'s \<Rightarrow> 'k \<Rightarrow> 'v option"
    and ins :: "'k \<Rightarrow> 'v \<Rightarrow> 's \<Rightarrow> 's"
  assumes inv_ins: "inv s \<Longrightarrow> inv (ins k v s)"
    and lookup_ins: "inv s \<Longrightarrow> lookup (ins k v s) j = (if j = k then Some v else lookup s j)"
begin

definition ins_all :: "('k \<times> 'v) list \<Rightarrow> 's \<Rightarrow> 's" where
  "ins_all xs s = fold (\<lambda>(k, v). ins k v) xs s"

lemma inv_ins_all: "inv s \<Longrightarrow> inv (ins_all xs s)"
  by (induction xs arbitrary: s) (auto simp: ins_all_def inv_ins)

lemma lookup_ins_all:
  "inv s \<Longrightarrow> lookup (ins_all xs s) k = (case map_of (rev xs) k of Some v \<Rightarrow> Some v | None \<Rightarrow> lookup s k)"
proof (induction xs rule: rev_induct)
  case Nil
  then show ?case by (simp add: ins_all_def)
next
  case (snoc x xs)
  obtain j v where x: "x = (j, v)" by (cases x)
  have "ins_all (xs @ [x]) s = ins j v (ins_all xs s)" by (simp add: ins_all_def x)
  with snoc show ?case by (simp add: lookup_ins inv_ins_all x)
qed

end

section \<open>Binding sets\<close>

record binding_set =
  bindingMap :: "(qstring \<times> nat) list"
  bindingNames :: "qstring list"
  bindingValues :: "node list"

definition empty_bindings :: binding_set where
  "empty_bindings = \<lparr> bindingMap = [], bindingNames = [], bindingValues = [] \<rparr>"

definition value_at :: "binding_set \<Rightarrow> int \<Rightarrow> node" where
  "value_at b offset =
     (if offset \<ge> 0 \<and> offset < int (length (bindingValues b)) then bindingValues b ! nat offset else EmptyNode)"

definition value_of :: "binding_set \<Rightarrow> qstring \<Rightarrow> node" where
  "value_of b name = (case map_of (bindingMap b) name of
       Some i \<Rightarrow> bindingValues b ! i | None \<Rightarrow> EmptyNode)"

definition bs_contains :: "binding_set \<Rightarrow> qstring \<Rightarrow> bool" where
  "bs_contains b name \<longleftrightarrow> map_of (bindingMap b) name \<noteq> None"

definition bs_count :: "binding_set \<Rightarrow> nat" where
  "bs_count b = length (bindingMap b)"

definition bs_insert :: "qstring \<Rightarrow> node \<Rightarrow> binding_set \<Rightarrow> binding_set" where
  "bs_insert name v b =
     \<lparr> bindingMap = AList.update name (length (bindingValues b)) (bindingMap b),
       bindingNames = bindingNames b @ [name],
       bindingValues = bindingValues b @ [v] \<rparr>"

text \<open>The assertions are compiled out; an offset out of range is \<open>None\<close>.\<close>

definition replace_at :: "int \<Rightarrow> node \<Rightarrow> binding_set \<Rightarrow> binding_set option" where
  "replace_at offset v b =
     (if offset \<ge> 0 \<and> offset < int (length (bindingValues b))
      then Some (b\<lparr>bindingValues := (bindingValues b)[nat offset := v]\<rparr>) else None)"

definition replace_name :: "qstring \<Rightarrow> node \<Rightarrow> binding_set \<Rightarrow> binding_set option" where
  "replace_name name v b = (case map_of (bindingMap b) name of
       Some i \<Rightarrow> replace_at (int i) v b | None \<Rightarrow> Some b)"

definition hash_eq :: "(qstring \<times> nat) list \<Rightarrow> (qstring \<times> nat) list \<Rightarrow> bool" where
  "hash_eq a b \<longleftrightarrow> length a = length b \<and> list_all (\<lambda>(k, v). map_of b k = Some v) a"

definition bs_eq :: "qt \<Rightarrow> binding_set \<Rightarrow> binding_set \<Rightarrow> bool" where
  "bs_eq q a b \<longleftrightarrow> hash_eq (bindingMap a) (bindingMap b) \<and> bindingNames a = bindingNames b \<and>
     list_all2 (node_eq q) (bindingValues a) (bindingValues b)"

definition bs_neq :: "qt \<Rightarrow> binding_set \<Rightarrow> binding_set \<Rightarrow> bool" where
  "bs_neq q a b \<longleftrightarrow> \<not> bs_eq q a b"

section \<open>Correctness\<close>

text \<open>The hash maps every name to the position of its last insertion.\<close>

definition bs_inv :: "binding_set \<Rightarrow> bool" where
  "bs_inv b \<longleftrightarrow> length (bindingNames b) = length (bindingValues b) \<and> distinct (map fst (bindingMap b)) \<and>
     (\<forall>name. map_of (bindingMap b) name =
        map_of (rev (zip (bindingNames b) [0..<length (bindingNames b)])) name)"

definition bs_lookup :: "binding_set \<Rightarrow> qstring \<Rightarrow> node option" where
  "bs_lookup b name = (if bs_contains b name then Some (value_of b name) else None)"

lemma map_of_rev_zip_less:
  "map_of (rev (zip ns [0..<length ns])) k = Some i \<Longrightarrow> i < length ns \<and> ns ! i = k"
  by (auto dest!: map_of_SomeD simp: in_set_zip)

lemma bs_inv_empty: "bs_inv empty_bindings"
  by (simp add: bs_inv_def empty_bindings_def)

lemma bs_inv_less:
  assumes "bs_inv b" "map_of (bindingMap b) k = Some i"
  shows "i < length (bindingValues b)"
proof -
  from assms have "map_of (rev (zip (bindingNames b) [0..<length (bindingNames b)])) k = Some i"
    unfolding bs_inv_def by metis
  with assms(1) map_of_rev_zip_less show ?thesis by (fastforce simp: bs_inv_def)
qed

lemma bs_inv_insert: "bs_inv b \<Longrightarrow> bs_inv (bs_insert k v b)"
  by (simp add: bs_inv_def bs_insert_def distinct_update update_conv')

lemma bs_lookup_insert: "bs_inv b \<Longrightarrow> bs_lookup (bs_insert k v b) j = (if j = k then Some v else bs_lookup b j)"
  using bs_inv_less[of b j]
  by (auto simp: bs_lookup_def bs_contains_def value_of_def bs_insert_def update_conv' nth_append
      split: option.splits)

interpretation bindings: keyed_store bs_inv bs_lookup bs_insert
  by unfold_locales (auto simp: bs_inv_insert bs_lookup_insert)

definition bs_of :: "(qstring \<times> node) list \<Rightarrow> binding_set" where
  "bs_of xs = fold (\<lambda>(k, v). bs_insert k v) xs empty_bindings"

lemma bs_of_ins_all: "bs_of xs = bindings.ins_all xs empty_bindings"
  by (simp add: bs_of_def bindings.ins_all_def)

lemma bs_of_inv: "bs_inv (bs_of xs)"
  by (simp add: bs_of_ins_all bindings.inv_ins_all bs_inv_empty)

lemma bs_of_lists: "bindingNames (bs_of xs) = map fst xs \<and> bindingValues (bs_of xs) = map snd xs"
proof (induction xs rule: rev_induct)
  case Nil
  then show ?case by (simp add: bs_of_def empty_bindings_def)
next
  case (snoc x xs)
  then show ?case by (cases x) (simp add: bs_of_def bs_insert_def)
qed

lemma bs_of_lookup: "bs_lookup (bs_of xs) k = map_of (rev xs) k"
proof -
  have "bs_lookup empty_bindings k = None"
    by (simp add: bs_lookup_def bs_contains_def empty_bindings_def)
  then show ?thesis
    using bindings.lookup_ins_all[OF bs_inv_empty, of xs k] by (simp add: bs_of_ins_all split: option.splits)
qed

text \<open>For a set of names inserted once each, the two counts of the class agree.\<close>

lemma bs_of_count: "bs_count (bs_of xs) = card (set (map fst xs))"
proof -
  have d: "distinct (map fst (bindingMap (bs_of xs)))" using bs_of_inv by (simp add: bs_inv_def)
  have "fst ` set (bindingMap (bs_of xs)) = {k. bs_lookup (bs_of xs) k \<noteq> None}"
    by (auto simp: bs_lookup_def bs_contains_def map_of_eq_None_iff)
  also have "\<dots> = fst ` set xs" by (auto simp: bs_of_lookup map_of_eq_None_iff)
  finally show ?thesis
    using d distinct_card[OF d] by (simp add: bs_count_def)
qed

text \<open>a binding set built by insertions is the list of its insertions: by position it gives
  every value, by name the value inserted last under that name, an absent name or position gives the
  empty node, and count is the number of different names, which is less than the number of values as
  soon as a name repeats.\<close>

theorem binding_set_lookup:
  "value_of (bs_of xs) name = (case map_of (rev xs) name of Some v \<Rightarrow> v | None \<Rightarrow> EmptyNode)
   \<and> (bs_contains (bs_of xs) name \<longleftrightarrow> name \<in> fst ` set xs)
   \<and> value_at (bs_of xs) i = (if 0 \<le> i \<and> i < int (length xs) then snd (xs ! nat i) else EmptyNode)
   \<and> bindingNames (bs_of xs) = map fst xs
   \<and> bs_count (bs_of xs) = card (set (map fst xs))"
proof (intro conjI)
  have look: "bs_lookup (bs_of xs) name = map_of (rev xs) name" by (rule bs_of_lookup)
  have "value_of (bs_of xs) name = (case bs_lookup (bs_of xs) name of Some v \<Rightarrow> v | None \<Rightarrow> EmptyNode)"
    by (simp add: bs_lookup_def bs_contains_def value_of_def split: option.splits)
  then show "value_of (bs_of xs) name = (case map_of (rev xs) name of Some v \<Rightarrow> v | None \<Rightarrow> EmptyNode)"
    by (simp add: look)
  have "bs_contains (bs_of xs) name \<longleftrightarrow> bs_lookup (bs_of xs) name \<noteq> None" by (simp add: bs_lookup_def)
  then show "bs_contains (bs_of xs) name \<longleftrightarrow> name \<in> fst ` set xs"
    by (simp only: look) (auto simp: map_of_eq_None_iff)
  show "value_at (bs_of xs) i = (if 0 \<le> i \<and> i < int (length xs) then snd (xs ! nat i) else EmptyNode)"
    using bs_of_lists[of xs] by (auto simp: value_at_def nat_less_iff)
qed (use bs_of_lists bs_of_count in blast)+

text \<open>replacing a value keeps the invariant and changes that binding only: reading the
  replaced name gives the new value, every other name keeps its value, and replacing an absent
  name does nothing.\<close>

theorem binding_set_replace:
  assumes "bs_inv b" and "replace_name name v b = Some b'"
  shows "bs_inv b' \<and> bs_lookup b' other =
     (if other = name \<and> bs_contains b name then Some v else bs_lookup b other)"
proof (cases "map_of (bindingMap b) name")
  case None
  with assms show ?thesis by (auto simp: replace_name_def bs_contains_def)
next
  case (Some i)
  note i = bs_inv_less[OF assms(1) Some]
  have b': "b' = b\<lparr>bindingValues := (bindingValues b)[i := v]\<rparr>"
    using assms(2) Some i by (simp add: replace_name_def replace_at_def)
  have inj: "j \<noteq> i" if "map_of (bindingMap b) other = Some j" "other \<noteq> name" for j
  proof -
    have m: "map_of (bindingMap b) k = map_of (rev (zip (bindingNames b) [0..<length (bindingNames b)])) k" for k
      using assms(1) unfolding bs_inv_def by metis
    have "bindingNames b ! j = other" "bindingNames b ! i = name"
      using map_of_rev_zip_less[of "bindingNames b"] m that(1) Some by auto
    with that(2) show ?thesis by auto
  qed
  have "bs_inv b'" using assms(1) by (simp add: bs_inv_def b')
  moreover have "bs_lookup b' other = (if other = name \<and> bs_contains b name then Some v else bs_lookup b other)"
    using Some i inj by (auto simp: bs_lookup_def bs_contains_def value_of_def b' nth_list_update split: option.splits)
  ultimately show ?thesis by blast
qed

theorem binding_set_replace_witness:
  "bs_lookup (the (replace_name ''x'' (BlankNode ''c'') (bs_of [(''x'', BlankNode ''a''), (''y'', BlankNode ''b'')]))) ''y'' =
     Some (BlankNode ''b'')"
proof -
  let ?b = "bs_of [(''x'', BlankNode ''a''), (''y'', BlankNode ''b'')]"
  have "replace_name ''x'' (BlankNode ''c'') ?b \<noteq> None" by code_simp
  then obtain b' where b': "replace_name ''x'' (BlankNode ''c'') ?b = Some b'" by auto
  then show ?thesis
    using binding_set_replace[OF bs_of_inv b', of "''y''"] by (simp add: bs_of_lookup)
qed

end
