(* ===== verification/Data_Stream.thy ===== *)
theory Data_Stream
  imports Binding_Set Soprano_Error
begin

text \<open>
  The wire format between client and server (soprano/datastream.cpp). Integers are written as they lie
  in memory, little-endian on the machines the code runs on; texts and URLs are byte arrays behind
  their length. Writers are modelled by the bytes they hand to the device, readers by what they take
  from the bytes that arrive: \<open>None\<close> is a failed read.

  The locale \<open>codec\<close> is the contract between a writer and a reader: reading what was written, with
  anything behind it, gives a value and leaves what was behind it. Every type of the format interprets
  it, the composite ones with the facts of their parts.
\<close>

section \<open>The contract of a writer and a reader\<close>

type_synonym 'a reader = "qbytes \<Rightarrow> ('a \<times> qbytes) option"

fun read_n :: "'a reader \<Rightarrow> nat \<Rightarrow> 'a list reader" where
  "read_n r 0 s = Some ([], s)"
| "read_n r (Suc n) s = (case r s of None \<Rightarrow> None
     | Some (x, s) \<Rightarrow> (case read_n r n s of None \<Rightarrow> None | Some (xs, s) \<Rightarrow> Some (x # xs, s)))"

locale codec =
  fixes enc :: "'a \<Rightarrow> qbytes"
    and dec :: "qbytes \<Rightarrow> ('b \<times> qbytes) option"
    and image :: "'a \<Rightarrow> 'b"
    and ok :: "'a \<Rightarrow> bool"
  assumes dec_enc: "ok a \<Longrightarrow> dec (enc a @ rest) = Some (image a, rest)"
begin

lemma dec_all: "ok a \<Longrightarrow> dec (enc a) = Some (image a, [])"
  using dec_enc[of a "[]"] by simp

text \<open>No message is the beginning of another one, so a stream of messages is cut in one way only.\<close>

lemma unique: "ok a \<Longrightarrow> ok b \<Longrightarrow> enc a @ r = enc b @ r' \<Longrightarrow> image a = image b \<and> r = r'"
  using dec_enc[of a r] dec_enc[of b r'] by simp

lemma dec_list:
  "\<forall>a\<in>set xs. ok a \<Longrightarrow> read_n dec (length xs) (concat (map enc xs) @ rest) = Some (map image xs, rest)"
  by (induction xs) (auto simp: dec_enc)

end

section \<open>Integers\<close>

definition byte_at :: "nat \<Rightarrow> nat \<Rightarrow> byte" where
  "byte_at i n = of_nat (n div 256 ^ i)"

definition le_bytes :: "nat \<Rightarrow> nat \<Rightarrow> qbytes" where
  "le_bytes k n = map (\<lambda>i. byte_at i n) [0..<k]"

definition le_value :: "qbytes \<Rightarrow> nat" where
  "le_value bs = foldr (\<lambda>b n. unat b + 256 * n) bs 0"

definition read_bytes :: "nat \<Rightarrow> qbytes reader" where
  "read_bytes k s = (if k \<le> length s then Some (take k s, drop k s) else None)"

lemma unat_byte_at: "unat (byte_at i n) = n div 256 ^ i mod 256"
  by (simp add: byte_at_def unat_of_nat)

lemma length_le_bytes [simp]: "length (le_bytes k n) = k"
  by (simp add: le_bytes_def)

lemma le_bytes_Suc: "le_bytes (Suc k) n = byte_at 0 n # le_bytes k (n div 256)"
proof -
  have "map (\<lambda>i. byte_at i n) (map Suc [0..<k]) = map (\<lambda>i. byte_at i (n div 256)) [0..<k]"
    by (simp add: byte_at_def div_mult2_eq)
  then show ?thesis
    by (simp add: le_bytes_def upt_conv_Cons map_Suc_upt[symmetric] del: upt_Suc)
qed

lemma le_value_bytes: "n < 256 ^ k \<Longrightarrow> le_value (le_bytes k n) = n"
proof (induction k arbitrary: n)
  case 0
  then show ?case by (simp add: le_bytes_def le_value_def)
next
  case (Suc k)
  from Suc.prems have "n div 256 < 256 ^ k" by (simp add: less_mult_imp_div_less)
  then have "le_value (le_bytes k (n div 256)) = n div 256" by (rule Suc.IH)
  then have "le_value (le_bytes (Suc k) n) = n mod 256 + 256 * (n div 256)"
    by (simp add: le_bytes_Suc le_value_def unat_byte_at)
  then show ?case by simp
qed

lemma read_bytes_append: "k = length xs \<Longrightarrow> read_bytes k (xs @ rest) = Some (xs, rest)"
  by (simp add: read_bytes_def)

definition read_le :: "nat \<Rightarrow> nat reader" where
  "read_le k s = (case read_bytes k s of None \<Rightarrow> None | Some (bs, s) \<Rightarrow> Some (le_value bs, s))"

lemma read_le_bytes: "n < 256 ^ k \<Longrightarrow> read_le k (le_bytes k n @ rest) = Some (n, rest)"
  by (simp add: read_le_def read_bytes_append le_value_bytes)

definition writeUnsignedInt8 :: "u8 \<Rightarrow> qbytes" where "writeUnsignedInt8 v = le_bytes 1 (unat v)"
definition writeUnsignedInt16 :: "u16 \<Rightarrow> qbytes" where "writeUnsignedInt16 v = le_bytes 2 (unat v)"
definition writeUnsignedInt32 :: "u32 \<Rightarrow> qbytes" where "writeUnsignedInt32 v = le_bytes 4 (unat v)"
definition writeInt32 :: "32 word \<Rightarrow> qbytes" where "writeInt32 v = le_bytes 4 (unat v)"
definition writeBool :: "bool \<Rightarrow> qbytes" where "writeBool b = writeUnsignedInt8 (if b then 1 else 0)"

definition readUnsignedInt8 :: "u8 reader" where
  "readUnsignedInt8 s = map_option (map_prod of_nat id) (read_le 1 s)"

definition readUnsignedInt16 :: "u16 reader" where
  "readUnsignedInt16 s = map_option (map_prod of_nat id) (read_le 2 s)"

definition readUnsignedInt32 :: "u32 reader" where
  "readUnsignedInt32 s = map_option (map_prod of_nat id) (read_le 4 s)"

definition readInt32 :: "32 word reader" where
  "readInt32 s = map_option (map_prod of_nat id) (read_le 4 s)"

definition readBool :: "bool reader" where
  "readBool s = map_option (map_prod (\<lambda>v. v \<noteq> 0) id) (readUnsignedInt8 s)"

interpretation uint8: codec writeUnsignedInt8 readUnsignedInt8 id "\<lambda>_. True"
  by unfold_locales
     (use unsigned_less[where 'b = 8 and 'a = nat] in \<open>simp add: writeUnsignedInt8_def readUnsignedInt8_def read_le_bytes\<close>)

interpretation uint16: codec writeUnsignedInt16 readUnsignedInt16 id "\<lambda>_. True"
  by unfold_locales
     (use unsigned_less[where 'b = 16 and 'a = nat] in \<open>simp add: writeUnsignedInt16_def readUnsignedInt16_def read_le_bytes\<close>)

interpretation uint32: codec writeUnsignedInt32 readUnsignedInt32 id "\<lambda>_. True"
  by unfold_locales
     (use unsigned_less[where 'b = 32 and 'a = nat] in \<open>simp add: writeUnsignedInt32_def readUnsignedInt32_def read_le_bytes\<close>)

interpretation int32: codec writeInt32 readInt32 id "\<lambda>_. True"
  by unfold_locales
     (use unsigned_less[where 'b = 32 and 'a = nat] in \<open>simp add: writeInt32_def readInt32_def read_le_bytes\<close>)

interpretation boolean: codec writeBool readBool id "\<lambda>_. True"
  by unfold_locales (simp add: writeBool_def readBool_def uint8.dec_enc)

lemmas int_dec_enc = uint8.dec_enc uint16.dec_enc uint32.dec_enc int32.dec_enc boolean.dec_enc

section \<open>Texts\<close>

definition writeByteArray :: "qbytes \<Rightarrow> qbytes" where
  "writeByteArray a = writeUnsignedInt32 (of_nat (length a)) @ a"

definition readByteArray :: "qbytes reader" where
  "readByteArray s = (case readUnsignedInt32 s of None \<Rightarrow> None
     | Some (len, s) \<Rightarrow> read_bytes (unat len) s)"

definition writeString :: "qt \<Rightarrow> qstring \<Rightarrow> qbytes" where
  "writeString q s = writeByteArray (str_toUtf8 q s)"

definition readString :: "qt \<Rightarrow> qstring reader" where
  "readString q s = map_option (map_prod (str_fromUtf8 q) id) (readByteArray s)"

text \<open>An encoded URL is ASCII: its characters are the bytes.\<close>

definition writeUrl :: "qurl \<Rightarrow> qbytes" where
  "writeUrl u = writeByteArray (map byte_of_char (encoded u))"

definition readUrl :: "qt \<Rightarrow> qurl reader" where
  "readUrl q s = map_option (map_prod (\<lambda>a. url_fromEncodedStrict q (map char_of_byte a)) id) (readByteArray s)"

text \<open>The length of a byte array is a 32-bit number.\<close>

definition fits :: "qbytes \<Rightarrow> bool" where
  "fits a \<longleftrightarrow> length a < 2 ^ 32"

definition str_ok :: "qt \<Rightarrow> qstring \<Rightarrow> bool" where
  "str_ok q s \<longleftrightarrow> qt_utf8_ok q \<and> fits (str_toUtf8 q s)"

definition url_ok :: "qt \<Rightarrow> qurl \<Rightarrow> bool" where
  "url_ok q u \<longleftrightarrow> qt_url_ok q \<and> fits (map byte_of_char (encoded u))"

interpretation byte_array: codec writeByteArray readByteArray id fits
  by unfold_locales
     (simp add: writeByteArray_def readByteArray_def uint32.dec_enc read_bytes_append fits_def unat_of_nat)

interpretation qtext: codec "writeString q" "readString q" id "str_ok q" for q
  by unfold_locales
     (simp add: writeString_def readString_def byte_array.dec_enc str_ok_def qt_utf8_ok_def)

interpretation url: codec writeUrl "readUrl q" id "url_ok q" for q
  by unfold_locales
     (simp add: writeUrl_def readUrl_def byte_array.dec_enc url_ok_def qt_url_ok_def o_def)

lemmas text_dec_enc = byte_array.dec_enc qtext.dec_enc url.dec_enc

section \<open>Errors\<close>

definition writeErrorCode :: "error_code \<Rightarrow> qbytes" where
  "writeErrorCode c = writeUnsignedInt16 (word_of_int (error_code_num c))"

definition readErrorCode :: "error_code reader" where
  "readErrorCode s = map_option (map_prod (\<lambda>v. convertErrorCode (uint v)) id) (readUnsignedInt16 s)"

definition writeLocator :: "qt \<Rightarrow> locator \<Rightarrow> qbytes" where
  "writeLocator q l = writeInt32 (word_of_int (line l)) @ writeInt32 (word_of_int (column l)) @
     writeInt32 (word_of_int (byte_pos l)) @ writeString q (fileName l)"

definition readLocator :: "qt \<Rightarrow> locator reader" where
  "readLocator q s = (case readInt32 s of None \<Rightarrow> None | Some (l, s) \<Rightarrow>
     (case readInt32 s of None \<Rightarrow> None | Some (c, s) \<Rightarrow>
     (case readInt32 s of None \<Rightarrow> None | Some (b, s) \<Rightarrow>
     (case readString q s of None \<Rightarrow> None | Some (f, s) \<Rightarrow>
        Some (\<lparr> line = sint l, column = sint c, byte_pos = sint b, fileName = f \<rparr>, s)))))"

definition writeError :: "qt \<Rightarrow> error \<Rightarrow> qbytes" where
  "writeError q e = writeBool (isParserError e) @ writeInt32 (word_of_int (err_code e)) @
     writeString q (err_message e) @ (if isParserError e then writeLocator q (err_locator e) else [])"

definition readError :: "qt \<Rightarrow> error reader" where
  "readError q s = (case readBool s of None \<Rightarrow> None | Some (parserError, s) \<Rightarrow>
     (case readInt32 s of None \<Rightarrow> None | Some (code, s) \<Rightarrow>
     (case readString q s of None \<Rightarrow> None | Some (message, s) \<Rightarrow>
        if parserError then
          (case readLocator q s of None \<Rightarrow> None
           | Some (loc, s) \<Rightarrow> Some (ParserError loc message (sint code), s))
        else Some (mk_error message (sint code), s))))"

definition int32_range :: "int \<Rightarrow> bool" where
  "int32_range z \<longleftrightarrow> - (2 ^ 31) \<le> z \<and> z < 2 ^ 31"

lemma sint_int32: "int32_range z \<Longrightarrow> sint (word_of_int z :: 32 word) = z"
  by (simp add: int32_range_def sint_sbintrunc' signed_take_bit_int_eq_self)

definition locator_ok :: "qt \<Rightarrow> locator \<Rightarrow> bool" where
  "locator_ok q l \<longleftrightarrow> int32_range (line l) \<and> int32_range (column l) \<and> int32_range (byte_pos l) \<and> str_ok q (fileName l)"

definition error_ok :: "qt \<Rightarrow> error \<Rightarrow> bool" where
  "error_ok q e \<longleftrightarrow> int32_range (err_code e) \<and> str_ok q (err_message e) \<and>
     (isParserError e \<longrightarrow> locator_ok q (err_locator e))"

text \<open>An error without data arrives as a generic one with code 0 and its standard message.\<close>

definition wire_error :: "error \<Rightarrow> error" where
  "wire_error e = (if isParserError e then e else mk_error (err_message e) (err_code e))"

interpretation error_code: codec writeErrorCode readErrorCode id "\<lambda>_. True"
proof
  fix c rest
  have "error_code_num c \<in> {0..<65536}" by (cases c) simp_all
  then have "uint (word_of_int (error_code_num c) :: u16) = error_code_num c"
    by (simp add: uint_word_of_int)
  then show "readErrorCode (writeErrorCode c @ rest) = Some (id c, rest)"
    by (simp add: writeErrorCode_def readErrorCode_def int_dec_enc)
qed

interpretation locator: codec "writeLocator q" "readLocator q" id "locator_ok q" for q
  by unfold_locales
     (simp add: writeLocator_def readLocator_def int_dec_enc text_dec_enc locator_ok_def sint_int32)

interpretation err: codec "writeError q" "readError q" wire_error "error_ok q" for q
proof
  fix e rest assume ok: "error_ok q e"
  then show "readError q (writeError q e @ rest) = Some (wire_error e, rest)"
    by (cases e)
       (simp_all add: writeError_def readError_def int_dec_enc text_dec_enc locator.dec_enc error_ok_def
          sint_int32 wire_error_def)
qed

lemma wire_error_occurred [simp]: "err_occurred (wire_error e) = err_occurred e"
  by (cases e) (simp_all add: wire_error_def err_occurred_def mk_error_def)

section \<open>Literals and nodes\<close>

text \<open>Strings, URLs, ints, booleans, byte arrays and datetimes travel without their datatype, datetimes
  as seconds; the other types as text with the datatype.\<close>

definition writeLiteralValue :: "qt \<Rightarrow> literal_value \<Rightarrow> qbytes" where
  "writeLiteralValue q l = writeBool (lit_isPlain l) @
     (if lit_isPlain l then writeString q (lit_toString q l) @ writeString q (tag_toString (lit_language l))
      else (let var = lit_variant l in
        writeInt32 (of_nat (vtype_code (variant_type var))) @
        (case var of
           VString s \<Rightarrow> writeString q s
         | VUrl u \<Rightarrow> writeUrl u
         | VInt i \<Rightarrow> writeInt32 i
         | VBool b \<Rightarrow> writeBool b
         | VByteArray a \<Rightarrow> writeByteArray a
         | VDateTime t \<Rightarrow> writeUnsignedInt32 (dt_toTime_t q t)
         | _ \<Rightarrow> writeString q (lit_toString q l) @ writeUrl (dataTypeUri l))))"

definition readLiteral_typed :: "qt \<Rightarrow> int \<Rightarrow> literal_value reader" where
  "readLiteral_typed q type s =
     (if type = int (vtype_code TString) then map_option (map_prod lit_string id) (readString q s)
      else if type = int (vtype_code TUrl) then map_option (map_prod (lit_of_variant \<circ> VUrl) id) (readUrl q s)
      else if type = int (vtype_code TInt) then map_option (map_prod lit_int id) (readInt32 s)
      else if type = int (vtype_code TBool) then map_option (map_prod lit_bool id) (readBool s)
      else if type = int (vtype_code TByteArray) then map_option (map_prod lit_bytes id) (readByteArray s)
      else if type = int (vtype_code TDateTime) then
        map_option (map_prod (lit_datetime \<circ> dt_fromTime_t q) id) (readUnsignedInt32 s)
      else (case readString q s of None \<Rightarrow> None | Some (str, s) \<Rightarrow>
        (case readUrl q s of None \<Rightarrow> None | Some (dt, s) \<Rightarrow> Some (fromString_uri q str dt, s))))"

definition readLiteralValue :: "qt \<Rightarrow> literal_value reader" where
  "readLiteralValue q s = (case readBool s of None \<Rightarrow> None | Some (plain, s) \<Rightarrow>
     if plain then
       (case readString q s of None \<Rightarrow> None | Some (v, s) \<Rightarrow>
       (case readString q s of None \<Rightarrow> None | Some (lang, s) \<Rightarrow>
          Some (createPlainLiteral v (tag_of_string lang), s)))
     else (case readInt32 s of None \<Rightarrow> None | Some (t, s) \<Rightarrow> readLiteral_typed q (sint t) s))"

text \<open>What arrives for a literal.\<close>

fun wire_literal :: "qt \<Rightarrow> literal_value \<Rightarrow> literal_value" where
  "wire_literal q (Typed (VString s) u) = lit_string s"
| "wire_literal q (Typed (VInt i) u) = lit_int i"
| "wire_literal q (Typed (VBool b) u) = lit_bool b"
| "wire_literal q (Typed (VByteArray a) u) = lit_bytes a"
| "wire_literal q (Typed (VDateTime t) u) = lit_datetime (dt_fromTime_t q (dt_toTime_t q t))"
| "wire_literal q (Typed v u) = Typed v (dataTypeUri (Typed v u))"
| "wire_literal q l = l"

fun wire_literal_ok :: "qt \<Rightarrow> literal_value \<Rightarrow> bool" where
  "wire_literal_ok q NullLiteral = False"
| "wire_literal_ok q (Plain s t) \<longleftrightarrow> tag_wf t \<and> str_ok q s \<and> str_ok q (tag_toString t)"
| "wire_literal_ok q (Typed v u) \<longleftrightarrow> lit_wf (Typed v u) \<and> variant_printable q v \<and> qt_date_ok q \<and> qt_base64_ok q \<and>
     str_ok q (lit_toString q (Typed v u)) \<and> url_ok q (dataTypeUri (Typed v u)) \<and>
     (case v of VByteArray a \<Rightarrow> fits a | _ \<Rightarrow> True)"

lemma sint_vtype_code [simp]: "sint (of_nat (vtype_code t) :: 32 word) = int (vtype_code t)"
  by (cases t) simp_all

lemmas codec_simps = int_dec_enc text_dec_enc

lemma literal_codec_text:
  assumes "wire_literal_ok q (Typed v u)"
    and "variant_type v \<notin> {TString, TUrl, TInt, TBool, TByteArray, TDateTime}"
  shows "readLiteralValue q (writeLiteralValue q (Typed v u) @ rest) = Some (Typed v (dataTypeUri (Typed v u)), rest)"
proof -
  have "vtype_code (variant_type v) \<notin> {10, 17, 2, 1, 12, 16}" using assms(2) by (cases v) simp_all
  moreover have "writeLiteralValue q (Typed v u) = writeBool False @ writeInt32 (of_nat (vtype_code (variant_type v))) @
      writeString q (lit_toString q (Typed v u)) @ writeUrl (dataTypeUri (Typed v u))"
    using assms(2) by (cases v) (simp_all add: writeLiteralValue_def)
  ultimately show ?thesis
    using assms(1) literal_text_roundtrip_core[of q v u]
    by (simp add: readLiteralValue_def readLiteral_typed_def codec_simps del: dataTypeUri.simps lit_wf.simps)
qed

lemma literal_codec:
  assumes "wire_literal_ok q l"
  shows "readLiteralValue q (writeLiteralValue q l @ rest) = Some (wire_literal q l, rest)"
proof (cases l)
  case NullLiteral
  with assms show ?thesis by simp
next
  case (Plain s t)
  with assms show ?thesis
    by (simp add: writeLiteralValue_def readLiteralValue_def codec_simps lit_toString_def createPlainLiteral_def)
next
  case (Typed v u)
  consider "variant_type v \<notin> {TString, TUrl, TInt, TBool, TByteArray, TDateTime}" | "variant_type v = TUrl"
    | "variant_type v \<in> {TString, TInt, TBool, TByteArray, TDateTime}" by blast
  then show ?thesis
  proof cases
    case 1
    with Typed assms literal_codec_text[of q v u rest] show ?thesis
      by (cases v) (simp_all del: dataTypeUri.simps)
  next
    case 2
    with Typed assms show ?thesis by simp
  next
    case 3
    with Typed assms show ?thesis
      by (cases v)
         (simp_all add: writeLiteralValue_def readLiteralValue_def readLiteral_typed_def codec_simps
            lit_toString_def lit_string_def)
  qed
qed

interpretation literal: codec "writeLiteralValue q" "readLiteralValue q" "wire_literal q" "wire_literal_ok q" for q
  by unfold_locales (rule literal_codec)

definition writeNode :: "qt \<Rightarrow> node \<Rightarrow> qbytes" where
  "writeNode q n = writeUnsignedInt8 (of_nat (node_kind_code (node_kind n))) @
     (case n of
        LiteralNode l \<Rightarrow> writeLiteralValue q l
      | ResourceNode u \<Rightarrow> writeUrl u
      | BlankNode i \<Rightarrow> writeString q i
      | EmptyNode \<Rightarrow> [])"

definition readNode :: "qt \<Rightarrow> node reader" where
  "readNode q s = (case readUnsignedInt8 s of None \<Rightarrow> None | Some (type, s) \<Rightarrow>
     if uint type = int (node_kind_code KLiteral) then map_option (map_prod node_of_literal id) (readLiteralValue q s)
     else if uint type = int (node_kind_code KResource) then map_option (map_prod node_of_url id) (readUrl q s)
     else if uint type = int (node_kind_code KBlank) then map_option (map_prod node_of_id id) (readString q s)
     else Some (EmptyNode, s))"

fun wire_node :: "qt \<Rightarrow> node \<Rightarrow> node" where
  "wire_node q (LiteralNode l) = LiteralNode (wire_literal q l)"
| "wire_node q n = n"

fun wire_node_ok :: "qt \<Rightarrow> node \<Rightarrow> bool" where
  "wire_node_ok q EmptyNode = True"
| "wire_node_ok q (ResourceNode u) \<longleftrightarrow> \<not> url_isEmpty u \<and> url_ok q u"
| "wire_node_ok q (BlankNode i) \<longleftrightarrow> i \<noteq> [] \<and> str_ok q i"
| "wire_node_ok q (LiteralNode l) \<longleftrightarrow> wire_literal_ok q l"

lemma wire_literal_valid:
  assumes "wire_literal_ok q l"
  shows "lit_isValid (wire_literal q l)"
proof (cases l)
  case (Typed v u)
  with assms show ?thesis by (cases v) (simp_all add: lit_isValid_def lit_ctor_defs)
qed (use assms in \<open>simp_all add: lit_isValid_def\<close>)

lemma node_codec:
  assumes "wire_node_ok q n"
  shows "readNode q (writeNode q n @ rest) = Some (wire_node q n, rest)"
proof (cases n)
  case (LiteralNode l)
  with assms wire_literal_valid[of q l] show ?thesis
    by (simp add: writeNode_def readNode_def codec_simps literal.dec_enc node_of_literal_def)
qed (use assms in \<open>simp_all add: writeNode_def readNode_def codec_simps node_of_url_def node_of_id_def\<close>)

interpretation node: codec "writeNode q" "readNode q" "wire_node q" "wire_node_ok q" for q
  by unfold_locales (rule node_codec)

section \<open>Statements and binding sets\<close>

definition writeStatement :: "qt \<Rightarrow> statement \<Rightarrow> qbytes" where
  "writeStatement q s = writeNode q (subject s) @ writeNode q (predicate s) @ writeNode q (object s) @
     writeNode q (context_node s)"

definition readStatement :: "qt \<Rightarrow> statement reader" where
  "readStatement q s = (case readNode q s of None \<Rightarrow> None | Some (a, s) \<Rightarrow>
     (case readNode q s of None \<Rightarrow> None | Some (b, s) \<Rightarrow>
     (case readNode q s of None \<Rightarrow> None | Some (c, s) \<Rightarrow>
     (case readNode q s of None \<Rightarrow> None | Some (d, s) \<Rightarrow> Some (mk_statement a b c d, s)))))"

definition wire_statement :: "qt \<Rightarrow> statement \<Rightarrow> statement" where
  "wire_statement q s = mk_statement (wire_node q (subject s)) (wire_node q (predicate s)) (wire_node q (object s))
     (wire_node q (context_node s))"

definition wire_statement_ok :: "qt \<Rightarrow> statement \<Rightarrow> bool" where
  "wire_statement_ok q s \<longleftrightarrow> wire_node_ok q (subject s) \<and> wire_node_ok q (predicate s) \<and>
     wire_node_ok q (object s) \<and> wire_node_ok q (context_node s)"

interpretation statement: codec "writeStatement q" "readStatement q" "wire_statement q" "wire_statement_ok q" for q
  by unfold_locales
     (simp add: writeStatement_def readStatement_def node.dec_enc wire_statement_ok_def wire_statement_def)

text \<open>The count written is the number of names, the entries written are as many as the hash has.\<close>

definition binding_entry :: "qt \<Rightarrow> binding_set \<Rightarrow> nat \<Rightarrow> qbytes" where
  "binding_entry q b i = writeString q (bindingNames b ! i) @ writeNode q (value_at b (int i))"

definition writeBindingSet :: "qt \<Rightarrow> binding_set \<Rightarrow> qbytes" where
  "writeBindingSet q b = writeUnsignedInt32 (of_nat (length (bindingNames b))) @
     concat (map (binding_entry q b) [0..<bs_count b])"

definition read_entry :: "qt \<Rightarrow> (qstring \<times> node) reader" where
  "read_entry q s = (case readString q s of None \<Rightarrow> None | Some (name, s) \<Rightarrow>
     (case readNode q s of None \<Rightarrow> None | Some (n, s) \<Rightarrow> Some ((name, n), s)))"

definition readBindingSet :: "qt \<Rightarrow> binding_set reader" where
  "readBindingSet q s = (case readUnsignedInt32 s of None \<Rightarrow> None | Some (nb, s) \<Rightarrow>
     (case read_n (read_entry q) (unat nb) s of None \<Rightarrow> None
      | Some (xs, s) \<Rightarrow> Some (bs_of xs, s)))"

definition entry_bytes :: "qt \<Rightarrow> qstring \<times> node \<Rightarrow> qbytes" where
  "entry_bytes q e = writeString q (fst e) @ writeNode q (snd e)"

definition entry_ok :: "qt \<Rightarrow> qstring \<times> node \<Rightarrow> bool" where
  "entry_ok q e \<longleftrightarrow> str_ok q (fst e) \<and> wire_node_ok q (snd e)"

interpretation entry: codec "entry_bytes q" "read_entry q" "map_prod id (wire_node q)" "entry_ok q" for q
  by unfold_locales
     (auto simp: entry_bytes_def read_entry_def text_dec_enc node.dec_enc entry_ok_def map_prod_def split: prod.splits)

lemma writeBindingSet_entries:
  assumes "distinct (map fst xs)"
  shows "writeBindingSet q (bs_of xs) = writeUnsignedInt32 (of_nat (length xs)) @ concat (map (entry_bytes q) xs)"
proof -
  have n: "bs_count (bs_of xs) = length xs"
    using assms bs_of_count[of xs] distinct_card[OF assms] by simp
  have "map (binding_entry q (bs_of xs)) [0..<length xs] = map (entry_bytes q) xs"
    using bs_of_lists[of xs]
    by (intro nth_equalityI) (simp_all add: binding_entry_def entry_bytes_def value_at_def)
  then show ?thesis
    using bs_of_lists[of xs] by (simp add: writeBindingSet_def n)
qed

text \<open>Claim C14: reading the bytes written for a statement, an error or a row of bindings with distinct names gives the wire image of the value
  and consumes none of the bytes that follow. Covered are values whose URIs and identifiers are not empty, whose literals are well formed and
  print to a text that parses back (doubles and dates included, no null literal, no URL variant), whose texts survive UTF-8 and whose sizes
  are below 2^32. The image keeps type and value of each literal, but drops a datatype other than the default from strings, ints, booleans,
  byte arrays and datetimes, drops milliseconds from datetimes, and makes an error that is no parser error a generic one. A row in which a
  name was inserted twice is not covered: it makes the reader consume what follows (duplicate_binding_desync).\<close>

theorem wire_roundtrip:
  assumes "wire_statement_ok q st" "error_ok q e" "distinct (map fst xs)" "\<forall>x\<in>set xs. entry_ok q x" "length xs < 2 ^ 32"
  shows "readStatement q (writeStatement q st @ rest) = Some (wire_statement q st, rest)
       \<and> readError q (writeError q e @ rest) = Some (wire_error e, rest)
       \<and> readBindingSet q (writeBindingSet q (bs_of xs) @ rest) = Some (bs_of (map (map_prod id (wire_node q)) xs), rest)"
proof (intro conjI)
  show "readBindingSet q (writeBindingSet q (bs_of xs) @ rest) = Some (bs_of (map (map_prod id (wire_node q)) xs), rest)"
    using entry.dec_list[OF assms(4), of rest] assms(5)
    by (simp add: readBindingSet_def writeBindingSet_entries[OF assms(3)] int_dec_enc unat_of_nat)
qed (use assms statement.dec_enc err.dec_enc in blast)+

theorem wire_roundtrip_witness:
  "readStatement plain_qt (writeStatement plain_qt (mk_statement (BlankNode ''b'') (ResourceNode (QUrl ''a:p''))
       (LiteralNode (Typed (VInt 7) (xsd XsdInteger))) EmptyNode) @ [1, 2]) =
   Some (mk_statement (BlankNode ''b'') (ResourceNode (QUrl ''a:p'')) (LiteralNode (lit_int 7)) EmptyNode, [1, 2])"
proof -
  let ?s = "mk_statement (BlankNode ''b'') (ResourceNode (QUrl ''a:p'')) (LiteralNode (Typed (VInt 7) (xsd XsdInteger))) EmptyNode"
  have fits: "str_ok plain_qt t" "url_ok plain_qt u" if "length t < 100" "length (encoded u) < 100" for t u
    using that plain_qt_utf8_ok plain_qt_url_ok by (simp_all add: str_ok_def url_ok_def fits_def plain_qt_def)
  have "length (encoded (xsd XsdInteger)) < 100" "length (lit_toString plain_qt (Typed (VInt 7) (xsd XsdInteger))) < 100"
    "encoded (xsd XsdInteger) \<noteq> []" by code_simp+
  then have "wire_statement_ok plain_qt ?s"
    using fits[of "[]"] fits[of _ "QUrl []"] plain_qt_date_ok plain_qt_base64_ok
    by (simp add: wire_statement_ok_def mk_statement_def url_isEmpty_def typeFromDataTypeUri_def xsdHash_def)
  moreover have "error_ok plain_qt NoError"
    using fits[of "[]" "QUrl []"] by (simp add: error_ok_def int32_range_def)
  ultimately show ?thesis
    using wire_roundtrip[of plain_qt ?s NoError "[]" "[1, 2]"]
    by (simp add: wire_statement_def mk_statement_def)
qed

lemma wire_literal_type:
  assumes "wire_literal_ok q l"
  shows "lit_type (wire_literal q l) = lit_type l"
proof (cases l)
  case (Typed v u)
  then show ?thesis by (cases v) (simp_all add: lit_type_def lit_ctor_defs)
qed (use assms in simp_all)

text \<open>A row in which a name was inserted twice announces two entries and carries one, so the reader runs
  into whatever follows it; at the end of the stream it fails.\<close>

lemma duplicate_binding_desync:
  assumes "entry_ok q (name, a)"
  shows "readBindingSet q (writeBindingSet q (bs_of [(name, a), (name, b)])) = None"
proof -
  let ?b = "bs_of [(name, a), (name, b)]"
  have *: "bindingNames ?b = [name, name]" "bs_count ?b = 1" "value_at ?b 0 = a"
    by (simp_all add: bs_of_def bs_insert_def empty_bindings_def bs_count_def value_at_def)
  have w: "writeBindingSet q ?b = writeUnsignedInt32 2 @ entry_bytes q (name, a)"
    using * by (simp add: writeBindingSet_def binding_entry_def entry_bytes_def)
  have empty: "read_entry q [] = None"
    by (simp add: read_entry_def readString_def readByteArray_def readUnsignedInt32_def read_le_def read_bytes_def)
  have "read_n (read_entry q) (Suc (Suc 0)) (entry_bytes q (name, a)) = None"
    using entry.dec_all[OF assms] by (simp add: empty)
  moreover have "unat (2 :: u32) = Suc (Suc 0)" by simp
  ultimately show ?thesis by (simp only: w readBindingSet_def int_dec_enc id_apply option.case prod.case)
qed

text \<open>An integer typed as xsd:integer arrives as an xsd:int, which is not equal to it.\<close>

lemma integer_arrives_as_int:
  assumes "wire_node_ok q (LiteralNode (Typed (VInt i) (xsd XsdInteger)))"
  shows "readNode q (writeNode q (LiteralNode (Typed (VInt i) (xsd XsdInteger)))) = Some (LiteralNode (lit_int i), [])
       \<and> \<not> node_eq q (LiteralNode (lit_int i)) (LiteralNode (Typed (VInt i) (xsd XsdInteger)))"
  using node.dec_all[OF assms]
  by (simp add: lit_eq_def lit_int_def dataTypeUriFromType_def variantHash_def url_isEmpty_iff xsd_def xsdNamespace_def)

end
