(* ===== verification/Statement_Graph.thy ===== *)
theory Statement_Graph
  imports Rdf_Node
begin

text \<open>
  Graphs in memory (soprano/graph.cpp): a QSet of statements with all its operations, and the iterator
  over the statements that match a pattern. A QSet identifies two statements when their hashes agree
  and operator== holds; the order in which it enumerates them is not specified, so it is a list whose
  order no result below depends on.

  The locale \<open>statement_set\<close> is the contract of a container of statements in terms of the statements
  it contains; what follows from it is proved inside it, and the graph interprets it.
\<close>

section \<open>Sets of statements\<close>

definition same_key :: "qt \<Rightarrow> statement \<Rightarrow> statement \<Rightarrow> bool" where
  "same_key q a b \<longleftrightarrow> stmt_hash q a = stmt_hash q b \<and> stmt_eq q a b"

type_synonym graph = "statement list"

definition graph_containsStatement :: "qt \<Rightarrow> statement \<Rightarrow> graph \<Rightarrow> bool" where
  "graph_containsStatement q s g \<longleftrightarrow> list_ex (\<lambda>x. same_key q x s) g"

definition graph_addStatement :: "qt \<Rightarrow> statement \<Rightarrow> graph \<Rightarrow> graph" where
  "graph_addStatement q s g = (if graph_containsStatement q s g then g else g @ [s])"

definition graph_addStatements :: "qt \<Rightarrow> statement list \<Rightarrow> graph \<Rightarrow> graph" where
  "graph_addStatements q ss g = fold (graph_addStatement q) (fold (graph_addStatement q) ss []) g"

definition graph_of_list :: "qt \<Rightarrow> statement list \<Rightarrow> graph" where
  "graph_of_list q ss = fold (graph_addStatement q) ss []"

definition graph_removeStatement :: "qt \<Rightarrow> statement \<Rightarrow> graph \<Rightarrow> graph" where
  "graph_removeStatement q s g = filter (\<lambda>x. \<not> same_key q x s) g"

definition graph_removeStatements :: "qt \<Rightarrow> statement list \<Rightarrow> graph \<Rightarrow> graph" where
  "graph_removeStatements q ss g = fold (graph_removeStatement q) (graph_of_list q ss) g"

definition graph_removeAllStatements :: "qt \<Rightarrow> statement \<Rightarrow> graph \<Rightarrow> graph" where
  "graph_removeAllStatements q p g = filter (\<lambda>x. \<not> stmt_matches q x p) g"

definition context_pattern :: "node \<Rightarrow> statement" where
  "context_pattern c = mk_statement EmptyNode EmptyNode EmptyNode c"

definition graph_removeContext :: "qt \<Rightarrow> node \<Rightarrow> graph \<Rightarrow> graph" where
  "graph_removeContext q c g = graph_removeAllStatements q (context_pattern c) g"

definition graph_containsAnyStatement :: "qt \<Rightarrow> statement \<Rightarrow> graph \<Rightarrow> bool" where
  "graph_containsAnyStatement q p g \<longleftrightarrow> list_ex (\<lambda>x. stmt_matches q x p) g"

definition graph_containsContext :: "qt \<Rightarrow> node \<Rightarrow> graph \<Rightarrow> bool" where
  "graph_containsContext q c g = graph_containsStatement q (context_pattern c) g"

definition graph_isEmpty :: "graph \<Rightarrow> bool" where "graph_isEmpty g \<longleftrightarrow> g = []"
definition graph_statementCount :: "graph \<Rightarrow> nat" where "graph_statementCount g = length g"

text \<open>A QSet of nodes, for the contexts.\<close>

definition node_set_insert :: "qt \<Rightarrow> node \<Rightarrow> node list \<Rightarrow> node list" where
  "node_set_insert q n ns = (if list_ex (\<lambda>m. node_hash q m = node_hash q n \<and> node_eq q m n) ns then ns else ns @ [n])"

definition graph_listContexts :: "qt \<Rightarrow> graph \<Rightarrow> node list" where
  "graph_listContexts q g =
     fold (\<lambda>s cs. if \<not> node_isEmpty (context_node s) then node_set_insert q (context_node s) cs else cs) g []"

definition graph_union :: "qt \<Rightarrow> graph \<Rightarrow> graph \<Rightarrow> graph" where
  "graph_union q g h = fold (graph_addStatement q) h g"

definition graph_minus :: "qt \<Rightarrow> graph \<Rightarrow> graph \<Rightarrow> graph" where
  "graph_minus q g h = fold (graph_removeStatement q) h g"

definition graph_eq :: "qt \<Rightarrow> graph \<Rightarrow> graph \<Rightarrow> bool" where
  "graph_eq q g h \<longleftrightarrow> length g = length h \<and> list_all (\<lambda>s. graph_containsStatement q s h) g"

section \<open>The iterator\<close>

record graph_iterator =
  it_graph :: graph
  it_filter :: statement
  it_first :: bool
  it_pos :: nat

definition graph_listStatements :: "statement \<Rightarrow> graph \<Rightarrow> graph_iterator" where
  "graph_listStatements p g = \<lparr> it_graph = g, it_filter = p, it_first = True, it_pos = 0 \<rparr>"

text \<open>The do-while loop: to the next position that matches, or the end.\<close>

function advance :: "qt \<Rightarrow> graph \<Rightarrow> statement \<Rightarrow> nat \<Rightarrow> nat" where
  "advance q g p i =
     (if Suc i < length g \<and> \<not> stmt_matches q (g ! Suc i) p then advance q g p (Suc i) else Suc i)"
  by pat_completeness auto
termination by (relation "measure (\<lambda>(q, g, p, i). length g - i)") auto

declare advance.simps [simp del]

text \<open>\<open>None\<close>: the test reads behind the end of the set.\<close>

definition graph_next :: "qt \<Rightarrow> graph_iterator \<Rightarrow> (bool \<times> graph_iterator) option" where
  "graph_next q it =
     (let g = it_graph it; p = it_filter it; i = it_pos it
      in if it_first it \<and> i \<ge> length g then None
         else let j = (if (\<not> it_first it \<or> \<not> stmt_matches q (g ! i) p) \<and> i < length g then advance q g p i else i)
              in Some (j < length g, it\<lparr>it_first := False, it_pos := j\<rparr>))"

definition graph_current :: "graph_iterator \<Rightarrow> statement" where
  "graph_current it = (if it_pos it < length (it_graph it) then it_graph it ! it_pos it else empty_statement)"

lemma advance_greater: "i < advance q g p i"
proof (induction q g p i rule: advance.induct)
  case (1 q g p i)
  then show ?case by (subst advance.simps) (auto dest: Suc_lessD)
qed

lemma graph_next_progress:
  assumes "graph_next q it = Some (True, it')"
  shows "(if it_first it' then 1 else 0) + (length (it_graph it') - it_pos it') <
         (if it_first it then 1 else 0) + (length (it_graph it) - it_pos it)"
proof (cases "it_first it")
  case True
  with assms advance_greater[of "it_pos it" q "it_graph it" "it_filter it"] show ?thesis
    by (auto simp: graph_next_def Let_def split: if_splits)
next
  case False
  with assms advance_greater[of "it_pos it" q "it_graph it" "it_filter it"] show ?thesis
    by (auto simp: graph_next_def Let_def split: if_splits)
qed

text \<open>A loop \<open>while (it.next()) use(it.current())\<close>.\<close>

function drain :: "qt \<Rightarrow> graph_iterator \<Rightarrow> statement list option" where
  "drain q it = (case graph_next q it of
       None \<Rightarrow> None
     | Some (False, it) \<Rightarrow> Some []
     | Some (True, it') \<Rightarrow> map_option ((#) (graph_current it')) (drain q it'))"
  by pat_completeness auto
termination
  by (relation "measure (\<lambda>(q, it). (if it_first it then 1 else 0) + (length (it_graph it) - it_pos it))")
     (auto dest: graph_next_progress)

declare drain.simps [simp del]

lemma advance_drop:
  "i < length g \<Longrightarrow>
     filter (\<lambda>s. stmt_matches q s p) (drop (Suc i) g) = filter (\<lambda>s. stmt_matches q s p) (drop (advance q g p i) g)
     \<and> (advance q g p i < length g \<longrightarrow> stmt_matches q (g ! advance q g p i) p) \<and> advance q g p i \<le> length g"
proof (induction q g p i rule: advance.induct)
  case (1 q g p i)
  show ?case
  proof (cases "Suc i < length g \<and> \<not> stmt_matches q (g ! Suc i) p")
    case True
    then have "drop (Suc i) g = g ! Suc i # drop (Suc (Suc i)) g" by (simp add: Cons_nth_drop_Suc)
    with 1 True show ?thesis by (subst (1 2 3 4) advance.simps) auto
  next
    case False
    with 1 show ?thesis by (subst (1 2 3 4) advance.simps) auto
  qed
qed

lemma drain_rest:
  assumes "\<not> it_first it" "it_pos it < length (it_graph it)"
  shows "drain q it = Some (filter (\<lambda>s. stmt_matches q s (it_filter it)) (drop (Suc (it_pos it)) (it_graph it)))"
  using assms
proof (induction q it rule: drain.induct)
  case (1 q it)
  let ?g = "it_graph it" and ?p = "it_filter it" and ?i = "it_pos it"
  let ?j = "advance q ?g ?p ?i" and ?it' = "it\<lparr>it_first := False, it_pos := advance q (it_graph it) (it_filter it) (it_pos it)\<rparr>"
  have nx: "graph_next q it = Some (?j < length ?g, ?it')"
    using "1.prems" by (simp add: graph_next_def Let_def)
  note adv = advance_drop[OF "1.prems"(2), of q ?p]
  show ?case
  proof (cases "?j < length ?g")
    case False
    with nx adv show ?thesis by (subst drain.simps) simp
  next
    case True
    with nx have "drain q ?it' = Some (filter (\<lambda>s. stmt_matches q s ?p) (drop (Suc ?j) ?g))"
      using "1.IH"[of "(True, ?it')" True ?it'] by simp
    moreover have "drop ?j ?g = ?g ! ?j # drop (Suc ?j) ?g" using True by (simp add: Cons_nth_drop_Suc)
    ultimately show ?thesis
      using True nx adv advance_greater[of ?i q ?g ?p] by (subst drain.simps) (simp add: graph_current_def)
  qed
qed

text \<open>Claim C33: iterating over a graph that is not empty yields exactly the statements that match the
  pattern, each once and in the order of the set; the iteration ends. On an empty graph the first call
  of next already reads behind the end.\<close>

theorem graph_iteration:
  "drain q (graph_listStatements p g) = (if g = [] then None else Some (filter (\<lambda>s. stmt_matches q s p) g))"
proof (cases g)
  case Nil
  then show ?thesis by (subst drain.simps) (simp add: graph_next_def graph_listStatements_def)
next
  case (Cons s g')
  let ?it = "\<lparr>it_graph = g, it_filter = p, it_first = False, it_pos = 0\<rparr>"
  have rest: "drain q ?it = Some (filter (\<lambda>s. stmt_matches q s p) g')"
    using drain_rest[of ?it q] Cons by simp
  show ?thesis
  proof (cases "stmt_matches q s p")
    case True
    then have "graph_next q (graph_listStatements p g) = Some (True, ?it)"
      by (simp add: graph_next_def graph_listStatements_def Cons)
    then show ?thesis using rest True Cons
      by (subst drain.simps) (simp add: graph_listStatements_def graph_current_def)
  next
    case False
    then have n: "graph_next q (graph_listStatements p g) =
        Some (advance q g p 0 < length g, ?it\<lparr>it_pos := advance q g p 0\<rparr>)"
      by (simp add: graph_next_def graph_listStatements_def Cons Let_def)
    have "graph_next q ?it = Some (advance q g p 0 < length g, ?it\<lparr>it_pos := advance q g p 0\<rparr>)"
      by (simp add: graph_next_def Cons Let_def)
    then have "drain q ?it = drain q (graph_listStatements p g)"
      using n advance_greater[of 0 q g p]
      by (subst (1 2) drain.simps) (simp add: graph_listStatements_def split: bool.split)
    with rest False Cons show ?thesis by simp
  qed
qed

section \<open>Graphs as sets\<close>

locale statement_set =
  fixes inv :: "'s \<Rightarrow> bool"
    and good :: "statement \<Rightarrow> bool"
    and same :: "statement \<Rightarrow> statement \<Rightarrow> bool"
    and holds :: "'s \<Rightarrow> statement \<Rightarrow> bool"
    and add :: "statement \<Rightarrow> 's \<Rightarrow> 's"
    and remove :: "statement \<Rightarrow> 's \<Rightarrow> 's"
  assumes inv_add: "inv g \<Longrightarrow> good s \<Longrightarrow> inv (add s g)"
    and inv_remove: "inv g \<Longrightarrow> good s \<Longrightarrow> inv (remove s g)"
    and holds_add: "inv g \<Longrightarrow> good s \<Longrightarrow> good t \<Longrightarrow> holds (add s g) t \<longleftrightarrow> holds g t \<or> same s t"
    and holds_remove: "inv g \<Longrightarrow> good s \<Longrightarrow> good t \<Longrightarrow> holds (remove s g) t \<longleftrightarrow> holds g t \<and> \<not> same s t"
begin

lemma add_all:
  "inv g \<Longrightarrow> \<forall>s\<in>set ss. good s \<Longrightarrow> good t \<Longrightarrow>
     inv (fold add ss g) \<and> (holds (fold add ss g) t \<longleftrightarrow> holds g t \<or> (\<exists>s\<in>set ss. same s t))"
  by (induction ss arbitrary: g) (auto simp: inv_add holds_add)

lemma remove_all:
  "inv g \<Longrightarrow> \<forall>s\<in>set ss. good s \<Longrightarrow> good t \<Longrightarrow>
     inv (fold remove ss g) \<and> (holds (fold remove ss g) t \<longleftrightarrow> holds g t \<and> \<not> (\<exists>s\<in>set ss. same s t))"
  by (induction ss arbitrary: g) (auto simp: inv_remove holds_remove)

lemma add_remove: "inv g \<Longrightarrow> good s \<Longrightarrow> good t \<Longrightarrow> \<not> same s t \<Longrightarrow> holds (remove s (add s g)) t \<longleftrightarrow> holds g t"
  by (simp add: inv_add holds_add holds_remove)

end

text \<open>A statement that is equal to itself: every well-formed one without a NaN.\<close>

definition good_statement :: "qt \<Rightarrow> statement \<Rightarrow> bool" where
  "good_statement q s \<longleftrightarrow> stmt_wf s \<and> stmt_eq q s s"

definition graph_inv :: "qt \<Rightarrow> graph \<Rightarrow> bool" where
  "graph_inv q g \<longleftrightarrow> (\<forall>s\<in>set g. good_statement q s) \<and> sorted_wrt (\<lambda>a b. \<not> same_key q a b) g"

lemma stmt_eq_sym: "stmt_wf a \<Longrightarrow> stmt_wf b \<Longrightarrow> stmt_eq q a b \<Longrightarrow> stmt_eq q b a"
  by (simp add: stmt_eq_def stmt_wf_def node_eq_sym)

lemma stmt_eq_trans: "stmt_wf a \<Longrightarrow> stmt_wf b \<Longrightarrow> stmt_wf c \<Longrightarrow> stmt_eq q a b \<Longrightarrow> stmt_eq q b c \<Longrightarrow> stmt_eq q a c"
  unfolding stmt_eq_def stmt_wf_def by (metis node_eq_trans)

lemma same_key_sym: "stmt_wf a \<Longrightarrow> stmt_wf b \<Longrightarrow> same_key q a b \<Longrightarrow> same_key q b a"
  by (auto simp: same_key_def stmt_eq_sym)

lemma same_key_trans:
  "stmt_wf a \<Longrightarrow> stmt_wf b \<Longrightarrow> stmt_wf c \<Longrightarrow> same_key q a b \<Longrightarrow> same_key q b c \<Longrightarrow> same_key q a c"
  by (auto simp: same_key_def intro: stmt_eq_trans)

lemma stmt_matches_left:
  assumes "stmt_wf a" "stmt_wf b" "stmt_wf p" "stmt_eq q a b"
  shows "stmt_matches q a p = stmt_matches q b p"
proof -
  have "node_matches q (f a) (f p) = node_matches q (f b) (f p)"
    if "node_wf (f a)" "node_wf (f b)" "node_wf (f p)" "node_eq q (f a) (f b)" for f
    using that by (auto simp: node_matches_def) (meson node_eq_sym node_eq_trans)+
  with assms show ?thesis by (simp add: stmt_matches_def stmt_wf_def stmt_eq_def)
qed

lemma contains_iff: "graph_containsStatement q s g \<longleftrightarrow> (\<exists>x\<in>set g. same_key q x s)"
  by (auto simp: graph_containsStatement_def list_ex_iff)

lemma sorted_wrt_snoc: "sorted_wrt P (xs @ [x]) \<longleftrightarrow> sorted_wrt P xs \<and> (\<forall>y\<in>set xs. P y x)"
  by (simp add: sorted_wrt_append)

interpretation graph: statement_set "graph_inv q" "good_statement q" "same_key q"
  "\<lambda>g t. graph_containsStatement q t g" "graph_addStatement q" "graph_removeStatement q" for q
proof
  fix g s t
  assume inv: "graph_inv q g" and s: "good_statement q s"
  then have wf: "\<forall>x\<in>set g. stmt_wf x" "stmt_wf s" by (auto simp: graph_inv_def good_statement_def)
  show "graph_inv q (graph_addStatement q s g)"
    using inv s by (auto simp: graph_inv_def graph_addStatement_def contains_iff sorted_wrt_snoc)
  show "graph_inv q (graph_removeStatement q s g)"
    using inv by (auto simp: graph_inv_def graph_removeStatement_def sorted_wrt_filter)
  assume t: "good_statement q t"
  then have wft: "stmt_wf t" by (simp add: good_statement_def)
  show "graph_containsStatement q t (graph_addStatement q s g) \<longleftrightarrow> graph_containsStatement q t g \<or> same_key q s t"
  proof (cases "graph_containsStatement q s g")
    case True
    then obtain x where "x \<in> set g" "same_key q x s" by (auto simp: contains_iff)
    moreover have "same_key q x t" if "same_key q s t" using same_key_trans calculation that wf wft by blast
    ultimately show ?thesis using True by (auto simp: graph_addStatement_def contains_iff)
  next
    case False
    then show ?thesis by (auto simp: graph_addStatement_def contains_iff)
  qed
  show "graph_containsStatement q t (graph_removeStatement q s g) \<longleftrightarrow> graph_containsStatement q t g \<and> \<not> same_key q s t"
    unfolding graph_removeStatement_def contains_iff
    using wf wft by (auto dest: same_key_sym) (meson same_key_sym same_key_trans)+
qed

lemma removeAll_contains:
  assumes "graph_inv q g" "stmt_wf p" "good_statement q t"
  shows "graph_containsStatement q t (graph_removeAllStatements q p g) \<longleftrightarrow>
     graph_containsStatement q t g \<and> \<not> stmt_matches q t p"
    and "graph_inv q (graph_removeAllStatements q p g)"
proof -
  have "stmt_matches q x p = stmt_matches q t p" if "x \<in> set g" "same_key q x t" for x
    using that assms by (intro stmt_matches_left) (auto simp: graph_inv_def good_statement_def same_key_def)
  then show "graph_containsStatement q t (graph_removeAllStatements q p g) \<longleftrightarrow>
     graph_containsStatement q t g \<and> \<not> stmt_matches q t p"
    by (auto simp: contains_iff graph_removeAllStatements_def)
  show "graph_inv q (graph_removeAllStatements q p g)"
    using assms(1) by (auto simp: graph_inv_def graph_removeAllStatements_def sorted_wrt_filter)
qed

lemma graph_of_list_contains:
  assumes "\<forall>s\<in>set ss. good_statement q s" "good_statement q t"
  shows "graph_containsStatement q t (graph_of_list q ss) \<longleftrightarrow> (\<exists>s\<in>set ss. same_key q s t)"
    and "graph_inv q (graph_of_list q ss)"
proof -
  have "graph_inv q []" by (simp add: graph_inv_def)
  from graph.add_all[OF this assms]
  show "graph_containsStatement q t (graph_of_list q ss) \<longleftrightarrow> (\<exists>s\<in>set ss. same_key q s t)"
    "graph_inv q (graph_of_list q ss)" by (auto simp: graph_of_list_def graph_containsStatement_def)
qed

text \<open>a graph is a set of statements up to operator==. Adding, removing, removing by pattern,
  union and difference change membership as the set operations do, keep every statement at most once,
  and adding changes the count by one exactly when the statement was new.\<close>

theorem graph_operations:
  assumes "graph_inv q g" "graph_inv q h" "good_statement q s" "good_statement q t" "stmt_wf p"
  shows "graph_containsStatement q t (graph_addStatement q s g) = (graph_containsStatement q t g \<or> same_key q s t)
       \<and> graph_containsStatement q t (graph_removeStatement q s g) = (graph_containsStatement q t g \<and> \<not> same_key q s t)
       \<and> graph_containsStatement q t (graph_removeAllStatements q p g) = (graph_containsStatement q t g \<and> \<not> stmt_matches q t p)
       \<and> graph_containsStatement q t (graph_union q g h) = (graph_containsStatement q t g \<or> graph_containsStatement q t h)
       \<and> graph_containsStatement q t (graph_minus q g h) = (graph_containsStatement q t g \<and> \<not> graph_containsStatement q t h)
       \<and> graph_inv q (graph_addStatement q s g) \<and> graph_inv q (graph_removeStatement q s g)
       \<and> graph_inv q (graph_removeAllStatements q p g) \<and> graph_inv q (graph_union q g h) \<and> graph_inv q (graph_minus q g h)
       \<and> graph_statementCount (graph_addStatement q s g) =
           graph_statementCount g + (if graph_containsStatement q s g then 0 else 1)"
proof -
  have "\<forall>x\<in>set h. good_statement q x" using assms(2) by (simp add: graph_inv_def)
  note u = graph.add_all[OF assms(1) this assms(4)] and m = graph.remove_all[OF assms(1) this assms(4)]
  show ?thesis
    using graph.holds_add[OF assms(1,3,4)] graph.holds_remove[OF assms(1,3,4)] graph.inv_add[OF assms(1,3)]
      graph.inv_remove[OF assms(1,3)] removeAll_contains[OF assms(1,5,4)] u m
    by (auto simp: graph_union_def graph_minus_def contains_iff graph_statementCount_def graph_addStatement_def)
qed

theorem graph_operations_witness:
  "graph_containsStatement plain_qt (mk_statement (BlankNode ''a'') (BlankNode ''b'') (BlankNode ''c'') EmptyNode)
     (graph_union plain_qt [mk_statement (BlankNode ''a'') (BlankNode ''b'') (BlankNode ''c'') EmptyNode] [])"
   (is "graph_containsStatement _ ?s _")
proof -
  have good: "good_statement plain_qt ?s"
    by (simp add: good_statement_def stmt_wf_def stmt_eq_def mk_statement_def)
  then have inv: "graph_inv plain_qt [?s]" "graph_inv plain_qt []" by (simp_all add: graph_inv_def)
  have "graph_containsStatement plain_qt ?s [?s]"
    using good by (simp add: contains_iff same_key_def good_statement_def)
  with graph_operations[OF inv good good, of empty_statement] show ?thesis
    by (simp add: empty_statement_def mk_statement_def stmt_wf_def)
qed

text \<open>The test for a context looks for the statement made of three empty nodes and the context, so for a
  graph of valid statements it never finds one.\<close>

lemma graph_containsContext_never:
  assumes "\<forall>s\<in>set g. stmt_isValid s"
  shows "\<not> graph_containsContext q c g"
proof -
  have "\<not> same_key q s (context_pattern c)" if "stmt_isValid s" for s
    using that by (auto simp: same_key_def stmt_eq_def context_pattern_def mk_statement_def stmt_isValid_def
        node_test_defs split: if_splits)
  with assms show ?thesis by (auto simp: graph_containsContext_def contains_iff)
qed

end
