(* ===== verification/Model_Stack.thy ===== *)
theory Model_Stack
  imports Statement_Graph Binding_Set Soprano_Error
begin

text \<open>
  Models and the filters stacked on them: the operations every model has (soprano/model.cpp), the
  forwarding filter (soprano/filtermodel.cpp), the filter that denies writing
  (soprano/util/readonlymodel.cpp) and the model that stands for a missing one
  (soprano/util/dummymodel.cpp).

  Storage backends are plugins outside the core: a model is a record of its virtual functions over a
  state of its own, and a filter maps the record of its parent to a new one. Every call may change the
  state, for all of them set the last error. Result iterators are the lists they deliver, \<open>None\<close> for
  the invalid iterator.
\<close>

section \<open>Models\<close>

record 's model =
  m_addStatement :: "statement \<Rightarrow> 's \<Rightarrow> error_code \<times> 's"
  m_removeStatement :: "statement \<Rightarrow> 's \<Rightarrow> error_code \<times> 's"
  m_removeAllStatements :: "statement \<Rightarrow> 's \<Rightarrow> error_code \<times> 's"
  m_createBlankNode :: "'s \<Rightarrow> node \<times> 's"
  m_containsStatement :: "statement \<Rightarrow> 's \<Rightarrow> bool \<times> 's"
  m_containsAnyStatement :: "statement \<Rightarrow> 's \<Rightarrow> bool \<times> 's"
  m_listStatements :: "statement \<Rightarrow> 's \<Rightarrow> statement list option \<times> 's"
  m_listContexts :: "'s \<Rightarrow> node list option \<times> 's"
  m_statementCount :: "'s \<Rightarrow> int \<times> 's"
  m_isEmpty :: "'s \<Rightarrow> bool \<times> 's"
  m_executeQuery :: "qstring \<Rightarrow> qstring \<Rightarrow> 's \<Rightarrow> binding_set list option \<times> 's"
  m_setError :: "error \<Rightarrow> 's \<Rightarrow> 's"
  m_lastError :: "'s \<Rightarrow> error"

subsection \<open>What model.cpp builds from the virtual functions\<close>

definition model_containsContext :: "'s model \<Rightarrow> node \<Rightarrow> 's \<Rightarrow> bool \<times> 's" where
  "model_containsContext M c \<sigma> = (case m_listStatements M (context_pattern c) \<sigma> of
     (it, \<sigma>) \<Rightarrow> ((case it of Some (x # xs) \<Rightarrow> True | _ \<Rightarrow> False), \<sigma>))"

definition model_listStatementsInContext :: "'s model \<Rightarrow> node \<Rightarrow> 's \<Rightarrow> statement list option \<times> 's" where
  "model_listStatementsInContext M c \<sigma> = m_listStatements M (context_pattern c) \<sigma>"

definition model_listAllStatements :: "'s model \<Rightarrow> 's \<Rightarrow> statement list option \<times> 's" where
  "model_listAllStatements M \<sigma> = m_listStatements M empty_statement \<sigma>"

text \<open>The loop goes on after an error and returns the last one.\<close>

fun removeStatements_loop :: "'s model \<Rightarrow> error_code \<Rightarrow> statement list \<Rightarrow> 's \<Rightarrow> error_code \<times> 's" where
  "removeStatements_loop M rc [] \<sigma> = (rc, \<sigma>)"
| "removeStatements_loop M rc (s # ss) \<sigma> = (case m_removeStatement M s \<sigma> of
     (c, \<sigma>) \<Rightarrow> removeStatements_loop M (if c \<noteq> ErrorNone then c else rc) ss \<sigma>)"

definition model_removeStatements :: "'s model \<Rightarrow> statement list \<Rightarrow> 's \<Rightarrow> error_code \<times> 's" where
  "model_removeStatements M ss \<sigma> = removeStatements_loop M ErrorNone ss \<sigma>"

definition model_removeContext :: "'s model \<Rightarrow> node \<Rightarrow> 's \<Rightarrow> error_code \<times> 's" where
  "model_removeContext M c \<sigma> =
     (if node_isValid c then m_removeAllStatements M (context_pattern c) \<sigma>
      else (ErrorInvalidArgument,
            m_setError M (mk_error ''Cannot remove the empty context'' (error_code_num ErrorInvalidArgument)) \<sigma>))"

definition model_removeEverything :: "'s model \<Rightarrow> 's \<Rightarrow> error_code \<times> 's" where
  "model_removeEverything M \<sigma> = m_removeAllStatements M empty_statement \<sigma>"

text \<open>The loop stops at the first error.\<close>

fun model_addStatements :: "'s model \<Rightarrow> statement list \<Rightarrow> 's \<Rightarrow> error_code \<times> 's" where
  "model_addStatements M [] \<sigma> = (ErrorNone, \<sigma>)"
| "model_addStatements M (s # ss) \<sigma> = (case m_addStatement M s \<sigma> of
     (c, \<sigma>) \<Rightarrow> if c \<noteq> ErrorNone then (c, \<sigma>) else model_addStatements M ss \<sigma>)"

section \<open>FilterModel\<close>

text \<open>The state of a filter is its parent's state and its own last error. Setting an error that is none
  clears the last error.\<close>

definition kept_error :: "error \<Rightarrow> error" where
  "kept_error e = (if err_occurred e then e else NoError)"

definition forward :: "'s model \<Rightarrow> ('s \<Rightarrow> 'r \<times> 's) \<Rightarrow> 's \<times> error \<Rightarrow> 'r \<times> ('s \<times> error)" where
  "forward M f st = (case f (fst st) of (r, \<sigma>) \<Rightarrow> (r, (\<sigma>, kept_error (m_lastError M \<sigma>))))"

definition filter_model :: "'s model \<Rightarrow> ('s \<times> error) model" where
  "filter_model M = \<lparr>
     m_addStatement = (\<lambda>s. forward M (m_addStatement M s)),
     m_removeStatement = (\<lambda>s. forward M (m_removeStatement M s)),
     m_removeAllStatements = (\<lambda>p. forward M (m_removeAllStatements M p)),
     m_createBlankNode = forward M (m_createBlankNode M),
     m_containsStatement = (\<lambda>s. forward M (m_containsStatement M s)),
     m_containsAnyStatement = (\<lambda>s. forward M (m_containsAnyStatement M s)),
     m_listStatements = (\<lambda>p. forward M (m_listStatements M p)),
     m_listContexts = forward M (m_listContexts M),
     m_statementCount = forward M (m_statementCount M),
     m_isEmpty = forward M (m_isEmpty M),
     m_executeQuery = (\<lambda>t l. forward M (m_executeQuery M t l)),
     m_setError = (\<lambda>e (\<sigma>, _). (\<sigma>, kept_error e)),
     m_lastError = snd \<rparr>"

section \<open>ReadOnlyModel\<close>

definition permission_denied :: error where
  "permission_denied = mk_error ''Soprano::Util::ReadOnlyModel - no write support'' (error_code_num ErrorPermissionDenied)"

definition deny :: "'r \<Rightarrow> 's \<times> error \<Rightarrow> 'r \<times> ('s \<times> error)" where
  "deny r st = (r, (fst st, permission_denied))"

definition read_only_model :: "'s model \<Rightarrow> ('s \<times> error) model" where
  "read_only_model M = (filter_model M)\<lparr>
     m_addStatement := (\<lambda>s. deny ErrorPermissionDenied),
     m_removeStatement := (\<lambda>s. deny ErrorPermissionDenied),
     m_removeAllStatements := (\<lambda>p. deny ErrorPermissionDenied),
     m_createBlankNode := deny EmptyNode \<rparr>"

section \<open>DummyModel\<close>

definition invalid_model_error :: error where
  "invalid_model_error = mk_error ''Invalid model'' (error_code_num ErrorNotSupported)"

definition refuse :: "'r \<Rightarrow> error \<Rightarrow> 'r \<times> error" where
  "refuse r _ = (r, invalid_model_error)"

definition dummy_model :: "error model" where
  "dummy_model = \<lparr>
     m_addStatement = (\<lambda>s. refuse ErrorNotSupported),
     m_removeStatement = (\<lambda>s. refuse ErrorNotSupported),
     m_removeAllStatements = (\<lambda>p. refuse ErrorNotSupported),
     m_createBlankNode = refuse EmptyNode,
     m_containsStatement = (\<lambda>s. refuse False),
     m_containsAnyStatement = (\<lambda>s. refuse False),
     m_listStatements = (\<lambda>p. refuse None),
     m_listContexts = refuse None,
     m_statementCount = refuse 0,
     m_isEmpty = refuse True,
     m_executeQuery = (\<lambda>t l. refuse None),
     m_setError = (\<lambda>e _. kept_error e),
     m_lastError = id \<rparr>"

section \<open>Sequences of calls\<close>

datatype model_call =
    CAdd statement | CRemove statement | CRemoveAll statement | CCreateBlank
  | CContains statement | CContainsAny statement | CList statement | CContexts | CCount | CIsEmpty
  | CQuery qstring qstring

datatype model_result =
    RCode error_code | RNode node | RBool bool | RStatements "statement list option"
  | RNodes "node list option" | RInt int | RRows "binding_set list option"

definition tag_result :: "('r \<Rightarrow> model_result) \<Rightarrow> 'r \<times> 's \<Rightarrow> model_result \<times> 's" where
  "tag_result f r = (f (fst r), snd r)"

fun call :: "'s model \<Rightarrow> model_call \<Rightarrow> 's \<Rightarrow> model_result \<times> 's" where
  "call M (CAdd s) \<sigma> = tag_result RCode (m_addStatement M s \<sigma>)"
| "call M (CRemove s) \<sigma> = tag_result RCode (m_removeStatement M s \<sigma>)"
| "call M (CRemoveAll p) \<sigma> = tag_result RCode (m_removeAllStatements M p \<sigma>)"
| "call M CCreateBlank \<sigma> = tag_result RNode (m_createBlankNode M \<sigma>)"
| "call M (CContains s) \<sigma> = tag_result RBool (m_containsStatement M s \<sigma>)"
| "call M (CContainsAny p) \<sigma> = tag_result RBool (m_containsAnyStatement M p \<sigma>)"
| "call M (CList p) \<sigma> = tag_result RStatements (m_listStatements M p \<sigma>)"
| "call M CContexts \<sigma> = tag_result RNodes (m_listContexts M \<sigma>)"
| "call M CCount \<sigma> = tag_result RInt (m_statementCount M \<sigma>)"
| "call M CIsEmpty \<sigma> = tag_result RBool (m_isEmpty M \<sigma>)"
| "call M (CQuery t l) \<sigma> = tag_result RRows (m_executeQuery M t l \<sigma>)"

fun run :: "'s model \<Rightarrow> model_call list \<Rightarrow> 's \<Rightarrow> (model_result \<times> error) list \<times> 's" where
  "run M [] \<sigma> = ([], \<sigma>)"
| "run M (c # cs) \<sigma> = (case call M c \<sigma> of (r, \<sigma>1) \<Rightarrow>
     (case run M cs \<sigma>1 of (rs, \<sigma>2) \<Rightarrow> ((r, m_lastError M \<sigma>1) # rs, \<sigma>2)))"

lemma tag_forward: "tag_result f (forward M g st) =
    (case tag_result f (g (fst st)) of (r, \<sigma>) \<Rightarrow> (r, (\<sigma>, kept_error (m_lastError M \<sigma>))))"
  by (simp add: tag_result_def forward_def split: prod.splits)

lemma filter_call:
  "call (filter_model M) c st = (case call M c (fst st) of (r, \<sigma>) \<Rightarrow> (r, (\<sigma>, kept_error (m_lastError M \<sigma>))))"
  by (cases c) (simp_all add: filter_model_def tag_forward)

lemma filter_lastError [simp]: "m_lastError (filter_model M) = snd"
  by (simp add: filter_model_def)

text \<open>a filter is transparent. For every sequence of calls a FilterModel gives the results its
  parent gives, leaves the parent in the same state, and after each call reports the parent's error;
  so any number of filters can be stacked without changing what is observed.\<close>

theorem filter_model_transparent:
  "run (filter_model M) calls (\<sigma>, e) =
     (map (map_prod id kept_error) (fst (run M calls \<sigma>)),
      (snd (run M calls \<sigma>),
       if calls = [] then e else kept_error (m_lastError M (snd (run M calls \<sigma>)))))"
proof (induction calls arbitrary: \<sigma> e)
  case Nil
  then show ?case by simp
next
  case (Cons c cs)
  obtain r \<sigma>1 where 1: "call M c \<sigma> = (r, \<sigma>1)" by (cases "call M c \<sigma>")
  obtain rs \<sigma>2 where 2: "run M cs \<sigma>1 = (rs, \<sigma>2)" by (cases "run M cs \<sigma>1")
  show ?case
    using 1 2 Cons[of \<sigma>1 "kept_error (m_lastError M \<sigma>1)"]
    by (cases cs) (simp_all add: filter_call)
qed

fun mutates :: "model_call \<Rightarrow> bool" where
  "mutates (CAdd s) = True"
| "mutates (CRemove s) = True"
| "mutates (CRemoveAll p) = True"
| "mutates CCreateBlank = True"
| "mutates _ = False"

definition denied :: "model_call \<Rightarrow> model_result" where
  "denied c = (if c = CCreateBlank then RNode EmptyNode else RCode ErrorPermissionDenied)"

text \<open>What a client of a read-only model observes: its reads reach the parent, its writes are refused.\<close>

fun read_only_view :: "'s model \<Rightarrow> model_call list \<Rightarrow> 's \<Rightarrow> (model_result \<times> error) list \<times> 's" where
  "read_only_view M [] \<sigma> = ([], \<sigma>)"
| "read_only_view M (c # cs) \<sigma> =
     (if mutates c then (case read_only_view M cs \<sigma> of (rs, \<sigma>2) \<Rightarrow> ((denied c, permission_denied) # rs, \<sigma>2))
      else (case call M c \<sigma> of (r, \<sigma>1) \<Rightarrow>
        (case read_only_view M cs \<sigma>1 of (rs, \<sigma>2) \<Rightarrow> ((r, kept_error (m_lastError M \<sigma>1)) # rs, \<sigma>2))))"

lemma read_only_call:
  "call (read_only_model M) c st =
     (if mutates c then (denied c, (fst st, permission_denied)) else call (filter_model M) c st)"
  by (cases c) (simp_all add: read_only_model_def deny_def tag_result_def denied_def)

lemma read_only_lastError [simp]: "m_lastError (read_only_model M) = snd"
  by (simp add: read_only_model_def)

lemma read_only_run:
  "fst (run (read_only_model M) calls (\<sigma>, e)) = fst (read_only_view M calls \<sigma>) \<and>
   fst (snd (run (read_only_model M) calls (\<sigma>, e))) = snd (read_only_view M calls \<sigma>)"
proof (induction calls arbitrary: \<sigma> e)
  case Nil
  then show ?case by simp
next
  case (Cons c cs)
  show ?case
  proof (cases "mutates c")
    case True
    with Cons[of \<sigma> permission_denied] show ?thesis
      by (cases "run (read_only_model M) cs (\<sigma>, permission_denied)"; cases "read_only_view M cs \<sigma>")
         (simp add: read_only_call)
  next
    case False
    obtain r \<sigma>1 where 1: "call M c \<sigma> = (r, \<sigma>1)" by (cases "call M c \<sigma>")
    with False Cons[of \<sigma>1 "kept_error (m_lastError M \<sigma>1)"] show ?thesis
      by (cases "run (read_only_model M) cs (\<sigma>1, kept_error (m_lastError M \<sigma>1))"; cases "read_only_view M cs \<sigma>1")
         (simp add: read_only_call filter_call)
  qed
qed

lemma read_only_view_contents:
  assumes "\<And>c \<sigma>. \<not> mutates c \<Longrightarrow> contents (snd (call M c \<sigma>)) = contents \<sigma>"
  shows "contents (snd (read_only_view M calls \<sigma>)) = contents \<sigma>"
proof (induction calls arbitrary: \<sigma>)
  case Nil
  then show ?case by simp
next
  case (Cons c cs)
  obtain r \<sigma>1 where 1: "call M c \<sigma> = (r, \<sigma>1)" by (cases "call M c \<sigma>")
  show ?case
    using assms[of c \<sigma>] 1 Cons[of \<sigma>] Cons[of \<sigma>1]
    by (cases "read_only_view M cs \<sigma>"; cases "read_only_view M cs \<sigma>1") simp
qed

text \<open>Claim C36: nothing gets through a ReadOnlyModel. Whatever sequence of calls a client makes, every
  write is answered with permission denied and never reaches the parent, every read gives what the
  parent gives, and the contents of the parent are the same afterwards, provided the parent's own
  reads do not change them.\<close>

theorem read_only_model_protects:
  assumes "\<And>c \<sigma>. \<not> mutates c \<Longrightarrow> contents (snd (call M c \<sigma>)) = contents \<sigma>"
  shows "fst (run (read_only_model M) calls (\<sigma>, e)) = fst (read_only_view M calls \<sigma>)
       \<and> contents (fst (snd (run (read_only_model M) calls (\<sigma>, e)))) = contents \<sigma>"
  using read_only_run[of M calls \<sigma> e] read_only_view_contents[of contents M calls \<sigma>] assms by simp

definition all_none :: "(model_result \<times> error) list \<Rightarrow> bool" where
  "all_none rs \<longleftrightarrow> list_all (\<lambda>r. fst r = RCode ErrorNone) rs"

fun last_failure :: "error_code \<Rightarrow> (model_result \<times> error) list \<Rightarrow> error_code" where
  "last_failure c [] = c"
| "last_failure c ((RCode d, _) # rs) = last_failure (if d \<noteq> ErrorNone then d else c) rs"
| "last_failure c (_ # rs) = last_failure c rs"

lemma run_CAdd_Cons:
  "run M (map CAdd (s # ss)) \<sigma> = (case m_addStatement M s \<sigma> of (c, \<sigma>1) \<Rightarrow>
     (case run M (map CAdd ss) \<sigma>1 of (rs, \<sigma>2) \<Rightarrow> ((RCode c, m_lastError M \<sigma>1) # rs, \<sigma>2)))"
  by (simp add: tag_result_def split: prod.splits)

lemma addStatements_ok:
  "all_none (fst (run M (map CAdd ss) \<sigma>)) \<Longrightarrow> model_addStatements M ss \<sigma> = (ErrorNone, snd (run M (map CAdd ss) \<sigma>))"
proof (induction ss arbitrary: \<sigma>)
  case Nil
  then show ?case by simp
next
  case (Cons s ss)
  obtain c \<sigma>1 where 1: "m_addStatement M s \<sigma> = (c, \<sigma>1)" by (cases "m_addStatement M s \<sigma>")
  obtain rs \<sigma>2 where 2: "run M (map CAdd ss) \<sigma>1 = (rs, \<sigma>2)" by (cases "run M (map CAdd ss) \<sigma>1")
  from Cons.prems 1 2 have "c = ErrorNone" "all_none rs" by (simp_all add: tag_result_def all_none_def)
  with 1 2 Cons.IH[of \<sigma>1] show ?case by (simp add: tag_result_def)
qed

lemma addStatements_fail:
  "all_none (fst (run M (map CAdd pre) \<sigma>)) \<Longrightarrow>
   m_addStatement M s (snd (run M (map CAdd pre) \<sigma>)) = (c, \<sigma>') \<Longrightarrow> c \<noteq> ErrorNone \<Longrightarrow>
   model_addStatements M (pre @ s # post) \<sigma> = (c, \<sigma>')"
proof (induction pre arbitrary: \<sigma>)
  case Nil
  then show ?case by simp
next
  case (Cons t pre)
  obtain d \<sigma>1 where 1: "m_addStatement M t \<sigma> = (d, \<sigma>1)" by (cases "m_addStatement M t \<sigma>")
  obtain rs \<sigma>2 where 2: "run M (map CAdd pre) \<sigma>1 = (rs, \<sigma>2)" by (cases "run M (map CAdd pre) \<sigma>1")
  from Cons.prems 1 2 have "d = ErrorNone" "all_none rs" "m_addStatement M s \<sigma>2 = (c, \<sigma>')"
    by (simp_all add: tag_result_def all_none_def)
  with 1 2 Cons.IH[of \<sigma>1] Cons.prems(3) show ?case by simp
qed

lemma removeStatements_loop_run:
  "removeStatements_loop M rc ss \<sigma> = (last_failure rc (fst (run M (map CRemove ss) \<sigma>)), snd (run M (map CRemove ss) \<sigma>))"
proof (induction ss arbitrary: rc \<sigma>)
  case Nil
  then show ?case by simp
next
  case (Cons s ss)
  obtain c \<sigma>1 where 1: "m_removeStatement M s \<sigma> = (c, \<sigma>1)" by (cases "m_removeStatement M s \<sigma>")
  obtain rs \<sigma>2 where 2: "run M (map CRemove ss) \<sigma>1 = (rs, \<sigma>2)" by (cases "run M (map CRemove ss) \<sigma>1")
  from 1 2 Cons[of "if c \<noteq> ErrorNone then c else rc" \<sigma>1] show ?case by (simp add: tag_result_def)
qed

text \<open>Claim C39: the bulk operations of Model on errors. addStatements attempts the statements in order, stops
  at the first one the model refuses and returns its code, so nothing behind it is attempted;
  removeStatements attempts all of them and returns the code of the last failure; removing the
  context of an empty node is refused and only sets the error.\<close>

theorem bulk_operations_errors:
  assumes "all_none (fst (run M (map CAdd pre) \<sigma>))"
    and "m_addStatement M s (snd (run M (map CAdd pre) \<sigma>)) = (c, \<sigma>')"
  shows "model_addStatements M pre \<sigma> = (ErrorNone, snd (run M (map CAdd pre) \<sigma>))
       \<and> (c \<noteq> ErrorNone \<longrightarrow> model_addStatements M (pre @ s # post) \<sigma> = (c, \<sigma>'))
       \<and> model_removeStatements M ss \<sigma> =
           (last_failure ErrorNone (fst (run M (map CRemove ss) \<sigma>)), snd (run M (map CRemove ss) \<sigma>))
       \<and> fst (model_removeContext M EmptyNode \<sigma>) = ErrorInvalidArgument"
  using addStatements_ok[OF assms(1)] addStatements_fail[OF assms]
  by (simp add: model_removeStatements_def removeStatements_loop_run model_removeContext_def node_test_defs)

theorem bulk_operations_errors_witness:
  "fst (model_addStatements dummy_model ([] @ empty_statement # [empty_statement]) NoError) = ErrorNotSupported"
proof -
  have "m_addStatement dummy_model empty_statement (snd (run dummy_model (map CAdd []) NoError)) =
      (ErrorNotSupported, invalid_model_error)" by (simp add: dummy_model_def refuse_def)
  moreover have "all_none (fst (run dummy_model (map CAdd []) NoError))" by (simp add: all_none_def)
  ultimately show ?thesis
    using bulk_operations_errors[of dummy_model "[]" NoError empty_statement ErrorNotSupported invalid_model_error
        "[empty_statement]" "[]"]
    by simp
qed

section \<open>The contract of a storage model\<close>

text \<open>What the filters rely on when they store something through their parent: its contents behave as a
  graph does. The names of the laws are the operations they describe.\<close>

locale store_model =
  fixes q :: qt
    and M :: "'s model"
    and contents :: "'s \<Rightarrow> graph"
  assumes add: "stmt_isValid s \<Longrightarrow>
      fst (m_addStatement M s \<sigma>) = ErrorNone \<and>
      contents (snd (m_addStatement M s \<sigma>)) = graph_addStatement q s (contents \<sigma>)"
    and remove: "fst (m_removeStatement M s \<sigma>) = ErrorNone \<and>
      contents (snd (m_removeStatement M s \<sigma>)) = graph_removeStatement q s (contents \<sigma>)"
    and removeAll: "fst (m_removeAllStatements M p \<sigma>) = ErrorNone \<and>
      contents (snd (m_removeAllStatements M p \<sigma>)) = graph_removeAllStatements q p (contents \<sigma>)"
    and list_matches: "fst (m_listStatements M p \<sigma>) = Some (filter (\<lambda>s. stmt_matches q s p) (contents \<sigma>))"
    and reads: "\<not> mutates c \<Longrightarrow> contents (snd (call M c \<sigma>)) = contents \<sigma>"
begin

lemma list_keeps: "contents (snd (m_listStatements M p \<sigma>)) = contents \<sigma>"
  using reads[of "CList p" \<sigma>] by (simp add: tag_result_def)

lemma query_keeps: "contents (snd (m_executeQuery M t l \<sigma>)) = contents \<sigma>"
  using reads[of "CQuery t l" \<sigma>] by (simp add: tag_result_def)

lemma containsContext:
  "fst (model_containsContext M c \<sigma>) \<longleftrightarrow> graph_containsAnyStatement q (context_pattern c) (contents \<sigma>)"
  using list_matches[of "context_pattern c" \<sigma>]
  by (cases "filter (\<lambda>s. stmt_matches q s (context_pattern c)) (contents \<sigma>)")
     (auto simp: model_containsContext_def graph_containsAnyStatement_def list_ex_iff filter_empty_conv
        split: prod.splits dest: filter_eq_ConsD)

lemma addStatements_contents:
  "\<forall>s\<in>set ss. stmt_isValid s \<Longrightarrow>
     fst (model_addStatements M ss \<sigma>) = ErrorNone \<and>
     contents (snd (model_addStatements M ss \<sigma>)) = fold (graph_addStatement q) ss (contents \<sigma>)"
proof (induction ss arbitrary: \<sigma>)
  case Nil
  then show ?case by simp
next
  case (Cons s ss)
  then show ?case using add[of s \<sigma>] by (cases "m_addStatement M s \<sigma>") simp
qed

text \<open>A filter over a store is a store.\<close>

lemma filtered: "store_model q (filter_model M) (contents \<circ> fst)"
proof
  fix s p c and st :: "'s \<times> error"
  show "stmt_isValid s \<Longrightarrow> fst (m_addStatement (filter_model M) s st) = ErrorNone \<and>
      (contents \<circ> fst) (snd (m_addStatement (filter_model M) s st)) = graph_addStatement q s ((contents \<circ> fst) st)"
    using add[of s "fst st"] by (auto simp: filter_model_def forward_def split: prod.splits)
  show "fst (m_removeStatement (filter_model M) s st) = ErrorNone \<and>
      (contents \<circ> fst) (snd (m_removeStatement (filter_model M) s st)) = graph_removeStatement q s ((contents \<circ> fst) st)"
    using remove[of s "fst st"] by (auto simp: filter_model_def forward_def split: prod.splits)
  show "fst (m_removeAllStatements (filter_model M) p st) = ErrorNone \<and>
      (contents \<circ> fst) (snd (m_removeAllStatements (filter_model M) p st)) =
        graph_removeAllStatements q p ((contents \<circ> fst) st)"
    using removeAll[of p "fst st"] by (auto simp: filter_model_def forward_def split: prod.splits)
  show "fst (m_listStatements (filter_model M) p st) =
      Some (filter (\<lambda>s. stmt_matches q s p) ((contents \<circ> fst) st))"
    using list_matches[of p "fst st"] by (auto simp: filter_model_def forward_def split: prod.splits)
  show "\<not> mutates c \<Longrightarrow> (contents \<circ> fst) (snd (call (filter_model M) c st)) = (contents \<circ> fst) st"
    using reads[of c "fst st"] by (auto simp: filter_call split: prod.splits)
qed

end

text \<open>A model that keeps its statements in a graph. Queries are answered by a function of the graph.\<close>

definition memory_model :: "qt \<Rightarrow> (qstring \<Rightarrow> graph \<Rightarrow> binding_set list option) \<Rightarrow> (graph \<times> error) model" where
  "memory_model q answer = \<lparr>
     m_addStatement = (\<lambda>s (g, e).
       if stmt_isValid s then (ErrorNone, (graph_addStatement q s g, NoError))
       else (ErrorInvalidArgument, (g, mk_error [] (error_code_num ErrorInvalidArgument)))),
     m_removeStatement = (\<lambda>s (g, e). (ErrorNone, (graph_removeStatement q s g, NoError))),
     m_removeAllStatements = (\<lambda>p (g, e). (ErrorNone, (graph_removeAllStatements q p g, NoError))),
     m_createBlankNode = (\<lambda>(g, e). (EmptyNode, (g, mk_error [] (error_code_num ErrorNotSupported)))),
     m_containsStatement = (\<lambda>s (g, e). (graph_containsStatement q s g, (g, NoError))),
     m_containsAnyStatement = (\<lambda>p (g, e). (graph_containsAnyStatement q p g, (g, NoError))),
     m_listStatements = (\<lambda>p (g, e). (Some (filter (\<lambda>s. stmt_matches q s p) g), (g, NoError))),
     m_listContexts = (\<lambda>(g, e). (Some (graph_listContexts q g), (g, NoError))),
     m_statementCount = (\<lambda>(g, e). (int (graph_statementCount g), (g, NoError))),
     m_isEmpty = (\<lambda>(g, e). (graph_isEmpty g, (g, NoError))),
     m_executeQuery = (\<lambda>t l (g, e). (answer t g, (g, NoError))),
     m_setError = (\<lambda>e (g, _). (g, kept_error e)),
     m_lastError = snd \<rparr>"

interpretation memory: store_model q "memory_model q answer" fst for q answer
proof
  fix s p c and \<sigma> :: "graph \<times> error"
  show "\<not> mutates c \<Longrightarrow> fst (snd (call (memory_model q answer) c \<sigma>)) = fst \<sigma>"
    by (cases c; cases \<sigma>) (simp_all add: memory_model_def tag_result_def)
qed (auto simp: memory_model_def)

theorem read_only_model_protects_witness:
  "fst (fst (snd (run (read_only_model (memory_model plain_qt (\<lambda>_ _. None)))
      [CAdd (mk_statement (BlankNode ''a'') (ResourceNode (QUrl ''p'')) (BlankNode ''b'') EmptyNode), CCount, CCreateBlank]
      (([], NoError), NoError)))) = []"
  using read_only_model_protects[of fst "memory_model plain_qt (\<lambda>_ _. None)"
      "[CAdd (mk_statement (BlankNode ''a'') (ResourceNode (QUrl ''p'')) (BlankNode ''b'') EmptyNode), CCount, CCreateBlank]"
      "([], NoError)" NoError] memory.reads
  by simp

end
