(* ===== verification/Nrl_Model.thy ===== *)
theory Nrl_Model
  imports Model_Stack
begin

text \<open>
  The NRL filter (soprano/nrlmodel.cpp): statements added under the cardinality restrictions the store
  declares for their predicate, graphs created and removed together with their metadata, and SPARQL
  queries completed with prefix declarations. It works on its parent through FilterModel's own
  functions, so its state is a filter's state and the settings.
\<close>

section \<open>Terms\<close>

definition nrlNamespace :: qstring where
  "nrlNamespace = ''http://www.semanticdesktop.org/ontologies/2007/08/15/nrl#''"

definition naoNamespace :: qstring where
  "naoNamespace = ''http://www.semanticdesktop.org/ontologies/2007/08/15/nao#''"

definition rdfsNamespace :: qstring where
  "rdfsNamespace = ''http://www.w3.org/2000/01/rdf-schema#''"

definition nrl :: "qstring \<Rightarrow> qurl" where "nrl name = QUrl (nrlNamespace @ name)"
definition nao :: "qstring \<Rightarrow> qurl" where "nao name = QUrl (naoNamespace @ name)"

section \<open>State\<close>

record 's nrl_model =
  nrl_filter :: "'s \<times> error"
  ignoreContext :: bool
  expandQueryPrefixes :: bool
  queryPrefixes :: "(qstring \<times> qurl) list"

definition new_nrl_model :: "'s \<Rightarrow> 's nrl_model" where
  "new_nrl_model \<sigma> = \<lparr> nrl_filter = (\<sigma>, NoError), ignoreContext = True, expandQueryPrefixes = False, queryPrefixes = [] \<rparr>"

definition setIgnoreContext :: "bool \<Rightarrow> 's nrl_model \<Rightarrow> 's nrl_model" where
  "setIgnoreContext b n = n\<lparr>ignoreContext := b\<rparr>"

text \<open>A call of FilterModel's function on the parent.\<close>

definition on_parent :: "('s \<times> error \<Rightarrow> 'r \<times> ('s \<times> error)) \<Rightarrow> 's nrl_model \<Rightarrow> 'r \<times> 's nrl_model" where
  "on_parent f n = (case f (nrl_filter n) of (r, st) \<Rightarrow> (r, n\<lparr>nrl_filter := st\<rparr>))"

section \<open>Query prefixes\<close>

definition starts_with :: "qstring \<Rightarrow> qstring \<Rightarrow> bool" where
  "starts_with p s \<longleftrightarrow> take (length p) s = p"

fun contains_text :: "qstring \<Rightarrow> qstring \<Rightarrow> bool" where
  "contains_text p [] = (p = [])"
| "contains_text p (c # s) = (starts_with p (c # s) \<or> contains_text p s)"

text \<open>The first of the four query forms, in any case.\<close>

fun query_form_pos :: "qstring \<Rightarrow> nat \<Rightarrow> nat option" where
  "query_form_pos [] i = None"
| "query_form_pos (c # s) i =
     (if list_ex (\<lambda>w. starts_with w (toLower (c # s))) [''select'', ''describe'', ''construct'', ''ask'']
      then Some i else query_form_pos s (Suc i))"

definition skip_blanks :: "qstring \<Rightarrow> qstring" where
  "skip_blanks s = dropWhile is_space s"

definition eat :: "qstring \<Rightarrow> qstring \<Rightarrow> qstring option" where
  "eat p s = (if starts_with p s then Some (drop (length p) s) else None)"

text \<open>The expression for a declaration at the beginning of a text: the word prefix in any case, the
  abbreviation, a colon and the namespace in brackets, with blanks between.\<close>

definition declaration_here :: "qstring \<Rightarrow> qstring \<Rightarrow> qstring \<Rightarrow> bool" where
  "declaration_here pre ns s \<longleftrightarrow>
     starts_with ''prefix'' (toLower (take 6 s)) \<and>
     (case eat pre (skip_blanks (drop 6 s)) of None \<Rightarrow> False | Some s \<Rightarrow>
     (case eat '':'' (skip_blanks s) of None \<Rightarrow> False | Some s \<Rightarrow>
       starts_with (''<'' @ ns @ ''>'') (skip_blanks s)))"

fun has_declaration :: "qstring \<Rightarrow> qstring \<Rightarrow> qstring \<Rightarrow> bool" where
  "has_declaration pre ns [] = False"
| "has_declaration pre ns (c # s) = (declaration_here pre ns (c # s) \<or> has_declaration pre ns s)"

definition declaration_text :: "qt \<Rightarrow> qstring \<Rightarrow> qurl \<Rightarrow> qstring" where
  "declaration_text q pre ns = ''prefix '' @ pre @ '': <'' @ url_toString q ns @ ''> ''"

definition insert_at :: "nat \<Rightarrow> qstring \<Rightarrow> qstring \<Rightarrow> qstring" where
  "insert_at pos t s = take pos s @ t @ drop pos s"

fun expand_prefixes :: "qt \<Rightarrow> nat \<Rightarrow> (qstring \<times> qurl) list \<Rightarrow> qstring \<Rightarrow> qstring" where
  "expand_prefixes q pos [] s = s"
| "expand_prefixes q pos ((pre, ns) # ps) s =
     expand_prefixes q pos ps
       (if contains_text (pre @ '':'') s \<and> \<not> has_declaration pre (url_toString q ns) s
        then insert_at pos (declaration_text q pre ns) s else s)"

definition expand_query :: "qt \<Rightarrow> 's nrl_model \<Rightarrow> qstring \<Rightarrow> qstring \<Rightarrow> qstring" where
  "expand_query q n query language =
     (if language = ''SPARQL'' \<and> expandQueryPrefixes n then
        (case query_form_pos query 0 of
           None \<Rightarrow> query
         | Some pos \<Rightarrow> expand_prefixes q pos (queryPrefixes n) query)
      else query)"

definition nrl_executeQuery ::
  "qt \<Rightarrow> 's model \<Rightarrow> qstring \<Rightarrow> qstring \<Rightarrow> 's nrl_model \<Rightarrow> binding_set list option \<times> 's nrl_model" where
  "nrl_executeQuery q M query language n =
     on_parent (m_executeQuery (filter_model M) (expand_query q n query language) language) n"

definition fixed_prefixes :: "(qstring \<times> qurl) list" where
  "fixed_prefixes = [(''rdf'', QUrl rdfNamespace), (''rdfs'', QUrl rdfsNamespace), (''xsd'', QUrl xsdNamespace),
     (''nrl'', QUrl nrlNamespace), (''nao'', QUrl naoNamespace)]"

definition add_prefix :: "qt \<Rightarrow> binding_set \<Rightarrow> (qstring \<times> qurl) list \<Rightarrow> (qstring \<times> qurl) list" where
  "add_prefix q row ps =
     (let ab = node_toString q (value_of row ''ab''); ns = url_parse q (node_toString q (value_of row ''ns''))
      in if map_of ps ab = None then ps @ [(ab, ns)] else ps)"

definition buildPrefixMap :: "qt \<Rightarrow> 's model \<Rightarrow> 's nrl_model \<Rightarrow> 's nrl_model" where
  "buildPrefixMap q M n =
     (let n = n\<lparr>queryPrefixes := fixed_prefixes\<rparr>;
          query = ''select ?ns ?ab where { ?g '' @ resourceToN3 (nao ''hasDefaultNamespace'') @
            '' ?ns . ?g '' @ resourceToN3 (nao ''hasDefaultNamespaceAbbreviation'') @ '' ?ab . }''
      in case nrl_executeQuery q M query ''SPARQL'' n of
           (None, n) \<Rightarrow> n
         | (Some rows, n) \<Rightarrow> n\<lparr>queryPrefixes := fold (add_prefix q) rows (queryPrefixes n)\<rparr>)"

definition setEnableQueryPrefixExpansion :: "qt \<Rightarrow> 's model \<Rightarrow> bool \<Rightarrow> 's nrl_model \<Rightarrow> 's nrl_model" where
  "setEnableQueryPrefixExpansion q M enable n =
     (if enable \<noteq> expandQueryPrefixes n then
        (let n = n\<lparr>expandQueryPrefixes := enable\<rparr>
         in if enable then buildPrefixMap q M n else n\<lparr>queryPrefixes := []\<rparr>)
      else n)"

section \<open>Cardinalities\<close>

definition cardinality_query :: "qt \<Rightarrow> node \<Rightarrow> qstring" where
  "cardinality_query q p =
     (let term = (\<lambda>t. ''{ <'' @ node_toString q p @ ''> <'' @ url_toString q (nrl t) @ ''> '')
      in ''select ?min ?max ?c where { '' @ term ''minCardinality'' @ ''?min } UNION '' @
         term ''maxCardinality'' @ ''?max } UNION '' @ term ''cardinality'' @ ''?c } }'')"

definition literal_int :: "qt \<Rightarrow> node \<Rightarrow> int" where
  "literal_int q n = sint (lit_toInt q (node_literal n))"

text \<open>The loop over the rows; -1 is no restriction.\<close>

fun cardinality_row :: "qt \<Rightarrow> binding_set \<Rightarrow> int \<times> int \<times> int \<Rightarrow> int \<times> int \<times> int" where
  "cardinality_row q row (mn, mx, c) =
     (let (mn, mx) = (if node_isLiteral (value_of row ''min'') then (literal_int q (value_of row ''min''), mx)
                      else if node_isLiteral (value_of row ''max'') then (mn, literal_int q (value_of row ''max''))
                      else (mn, mx))
      in (mn, mx, if node_isLiteral (value_of row ''c'') then literal_int q (value_of row ''c'') else c))"

definition cardinalities :: "qt \<Rightarrow> binding_set list \<Rightarrow> int \<times> int \<times> int" where
  "cardinalities q rows = fold (cardinality_row q) rows (- 1, - 1, - 1)"

definition reached_error :: error where
  "reached_error = mk_error ''Max cardinality for predicate reached'' (error_code_num ErrorUnknown)"

definition nrl_setError :: "error \<Rightarrow> 's nrl_model \<Rightarrow> 's nrl_model" where
  "nrl_setError e n = n\<lparr>nrl_filter := (fst (nrl_filter n), kept_error e)\<rparr>"

text \<open>The general case. With contexts, the pattern has the context in the place of the object.\<close>

definition add_up_to :: "qt \<Rightarrow> 's model \<Rightarrow> int \<Rightarrow> statement \<Rightarrow> 's nrl_model \<Rightarrow> error_code \<times> 's nrl_model" where
  "add_up_to q M mx s n =
     (let pattern = (if ignoreContext n then mk_statement (subject s) (predicate s) EmptyNode EmptyNode
                     else mk_statement (subject s) (predicate s) (context_node s) EmptyNode)
      in case on_parent (m_listStatements (filter_model M) pattern) n of (sit, n) \<Rightarrow>
           (let found = (case sit of None \<Rightarrow> [] | Some l \<Rightarrow> l);
                matching = filter (\<lambda>x. ignoreContext n \<or> node_eq q (context_node x) (context_node s)) found
            in if int (length matching) \<ge> mx then
                 (if length matching = 1 then
                    (case on_parent (m_removeStatement (filter_model M) (matching ! 0)) n of (_, n) \<Rightarrow>
                       on_parent (m_addStatement (filter_model M) s) n)
                  else (ErrorUnknown, nrl_setError reached_error n))
               else on_parent (m_addStatement (filter_model M) s) n))"

definition addNrlStatement :: "qt \<Rightarrow> 's model \<Rightarrow> statement \<Rightarrow> 's nrl_model \<Rightarrow> error_code \<times> 's nrl_model" where
  "addNrlStatement q M s n =
     (let query = cardinality_query q (predicate s)
      in case on_parent (m_executeQuery (filter_model M) query ''SPARQL'') n of
           (None, n) \<Rightarrow>
             (ErrorUnknown, nrl_setError (mk_error (''Query failed: '' @ [CHR 0x27] @ query @ [CHR 0x27])
                (error_code_num ErrorUnknown)) n)
         | (Some rows, n) \<Rightarrow>
             (case cardinalities q rows of (mn, mx, c) \<Rightarrow>
                if mn \<ge> 0 \<or> mx \<ge> 0 \<or> c \<ge> 0 then
                  (if c = 1 \<or> mx = 1 then
                     (let pattern = mk_statement (subject s) (predicate s) EmptyNode
                            (if ignoreContext n then EmptyNode else context_node s)
                      in case on_parent (m_removeAllStatements (filter_model M) pattern) n of (_, n) \<Rightarrow>
                           on_parent (m_addStatement (filter_model M) s) n)
                   else if mx > 1 \<or> c > 1 then add_up_to q M (if c > 1 then c else mx) s n
                   else on_parent (m_addStatement (filter_model M) s) n)
                else on_parent (m_addStatement (filter_model M) s) n))"

section \<open>Graphs\<close>

text \<open>The two generated URIs and the current time are arguments.\<close>

definition nrl_createGraph ::
  "'s model \<Rightarrow> qurl \<Rightarrow> qurl \<Rightarrow> qdatetime \<Rightarrow> qurl \<Rightarrow> 's nrl_model \<Rightarrow> (qurl \<times> qurl) \<times> 's nrl_model" where
  "nrl_createGraph M graph metadatagraph now type n =
     (let mg = node_of_url metadatagraph; g = node_of_url graph; F = filter_model M;
          add = (\<lambda>s n. snd (on_parent (m_addStatement F s) n));
          n = add (mk_statement mg (node_of_url (nrl ''coreGraphMetadataFor'')) g mg) n;
          n = add (mk_statement mg (node_of_url (rdf RdfType)) (node_of_url (nrl ''GraphMetadata'')) mg) n;
          n = add (mk_statement g (node_of_url (rdf RdfType)) (node_of_url type) mg) n;
          n = add (mk_statement g (node_of_url (nao ''created'')) (node_of_literal (lit_datetime now)) mg) n
      in ((graph, metadatagraph), n))"

definition metadata_query :: "qurl \<Rightarrow> qstring" where
  "metadata_query graph =
     ''select ?mg where { ?mg '' @ resourceToN3 (nrl ''coreGraphMetadataFor'') @ '' '' @ resourceToN3 graph @ '' . }''"

fun remove_contexts :: "'s model \<Rightarrow> node list \<Rightarrow> 's nrl_model \<Rightarrow> 's nrl_model" where
  "remove_contexts M [] n = n"
| "remove_contexts M (c # cs) n =
     remove_contexts M cs (snd (on_parent (m_removeAllStatements (filter_model M) (context_pattern c)) n))"

definition removeGraph :: "'s model \<Rightarrow> qurl \<Rightarrow> 's nrl_model \<Rightarrow> error_code \<times> 's nrl_model" where
  "removeGraph M graph n =
     (case on_parent (m_executeQuery (filter_model M) (metadata_query graph) ''SPARQL'') n of (rows, n) \<Rightarrow>
        (let metadataGraphs = map (\<lambda>r. value_at r 0) (case rows of None \<Rightarrow> [] | Some l \<Rightarrow> l);
             n = remove_contexts M metadataGraphs n
         in on_parent (m_removeAllStatements (filter_model M) (context_pattern (node_of_url graph))) n))"

definition nrl_removeAllStatements :: "'s model \<Rightarrow> statement \<Rightarrow> 's nrl_model \<Rightarrow> error_code \<times> 's nrl_model" where
  "nrl_removeAllStatements M s n =
     (if node_isValid (context_node s) \<and> \<not> node_isValid (subject s) \<and> \<not> node_isValid (predicate s) \<and>
         \<not> node_isValid (object s) then removeGraph M (node_uri (context_node s)) n
      else on_parent (m_removeAllStatements (filter_model M) s) n)"

section \<open>Correctness over a storage model\<close>

definition nrl_state :: "'s nrl_model \<Rightarrow> 's" where
  "nrl_state n = fst (nrl_filter n)"

definition value_pattern :: "bool \<Rightarrow> statement \<Rightarrow> statement" where
  "value_pattern ignore s = mk_statement (subject s) (predicate s) EmptyNode (if ignore then EmptyNode else context_node s)"

lemma node_matches_simps:
  "node_matches q n EmptyNode" "node_isResource n \<or> node_isBlank n \<Longrightarrow> node_matches q n n"
  by (cases n; simp add: node_matches_def node_test_defs)+

lemma stmt_isValid_parts:
  assumes "stmt_isValid s"
  shows "node_isResource (subject s) \<or> node_isBlank (subject s)" "node_isResource (predicate s)"
    "context_node s = EmptyNode \<or> node_isResource (context_node s)"
  using assms by (cases "context_node s"; auto simp: stmt_isValid_def node_test_defs split: if_splits)+

lemma valid_matches_value_pattern:
  assumes "stmt_isValid s"
  shows "stmt_matches q s (value_pattern ignore s)"
proof -
  have "node_matches q (subject s) (subject s)" "node_matches q (predicate s) (predicate s)"
    "node_matches q (context_node s) (context_node s)"
    using stmt_isValid_parts[OF assms] node_matches_simps(1)[of q EmptyNode]
      node_matches_simps(2)[of "subject s" q] node_matches_simps(2)[of "predicate s" q]
      node_matches_simps(2)[of "context_node s" q]
    by auto
  then show ?thesis
    by (simp add: stmt_matches_def value_pattern_def mk_statement_def node_matches_simps(1))
qed

lemma eq_valid_same_places:
  assumes "stmt_isValid s" "stmt_eq q x s"
  shows "subject x = subject s \<and> predicate x = predicate s \<and> context_node x = context_node s"
proof -
  have res: "a = b" if "node_eq q a b" "node_isResource b \<or> node_isBlank b" for a b
    using that by (cases b) (auto simp: node_test_defs)
  have emp: "a = b" if "node_eq q a b" "\<not> node_isValid b" for a b
    using that by (cases b) (auto simp: node_test_defs)
  show ?thesis
    using assms res emp by (auto simp: stmt_isValid_def stmt_eq_def Let_def split: if_splits)
qed

lemma eq_valid_matches:
  assumes "stmt_isValid s" "stmt_eq q x s"
  shows "stmt_matches q x (value_pattern ignore s)"
proof -
  have "stmt_matches q s (value_pattern ignore s)" using assms(1) by (rule valid_matches_value_pattern)
  with eq_valid_same_places[OF assms] show ?thesis
    by (simp add: stmt_matches_def value_pattern_def mk_statement_def node_matches_simps(1))
qed

lemma matches_context_pattern [simp]:
  "stmt_matches q x (context_pattern (ResourceNode u)) \<longleftrightarrow> context_node x = ResourceNode u"
  by (auto simp: stmt_matches_def context_pattern_def mk_statement_def node_matches_simps(1))
     (simp_all add: node_matches_def node_isEmpty_def)

context store_model
begin

lemma parent_call:
  assumes "f = forward M g"
  shows "fst (on_parent f n) = fst (g (nrl_state n))"
    and "nrl_state (snd (on_parent f n)) = snd (g (nrl_state n))"
    and "ignoreContext (snd (on_parent f n)) = ignoreContext n"
  using assms by (auto simp: on_parent_def forward_def nrl_state_def split: prod.splits)

lemma parent_add:
  assumes "stmt_isValid s"
  shows "fst (on_parent (m_addStatement (filter_model M) s) n) = ErrorNone"
    and "contents (nrl_state (snd (on_parent (m_addStatement (filter_model M) s) n))) =
         graph_addStatement q s (contents (nrl_state n))"
  using add[OF assms, of "nrl_state n"] parent_call[of _ "m_addStatement M s" n]
  by (simp_all add: filter_model_def)

lemma parent_removeAll:
  "fst (on_parent (m_removeAllStatements (filter_model M) p) n) = ErrorNone"
  "contents (nrl_state (snd (on_parent (m_removeAllStatements (filter_model M) p) n))) =
     graph_removeAllStatements q p (contents (nrl_state n))"
  using removeAll[of p "nrl_state n"] parent_call[of _ "m_removeAllStatements M p" n]
  by (simp_all add: filter_model_def)

lemma parent_list:
  "fst (on_parent (m_listStatements (filter_model M) p) n) =
     Some (filter (\<lambda>s. stmt_matches q s p) (contents (nrl_state n)))"
  "contents (nrl_state (snd (on_parent (m_listStatements (filter_model M) p) n))) = contents (nrl_state n)"
  "ignoreContext (snd (on_parent (m_listStatements (filter_model M) p) n)) = ignoreContext n"
  using list_matches[of p "nrl_state n"] list_keeps[of p "nrl_state n"] parent_call[of _ "m_listStatements M p" n]
  by (simp_all add: filter_model_def)

lemma parent_query:
  "fst (on_parent (m_executeQuery (filter_model M) t l) n) = fst (m_executeQuery M t l (nrl_state n))"
  "contents (nrl_state (snd (on_parent (m_executeQuery (filter_model M) t l) n))) = contents (nrl_state n)"
  "ignoreContext (snd (on_parent (m_executeQuery (filter_model M) t l) n)) = ignoreContext n"
  using query_keeps[of t l "nrl_state n"] parent_call[of _ "m_executeQuery M t l" n]
  by (simp_all add: filter_model_def)

text \<open>One value: whatever was there for the subject and predicate is replaced.\<close>

lemma single_value:
  assumes v: "stmt_isValid s"
    and rows: "fst (m_executeQuery M (cardinality_query q (predicate s)) ''SPARQL'' (nrl_state n)) = Some rows"
    and card: "cardinalities q rows = (mn, mx, c)" "c = 1 \<or> mx = 1"
  defines "P \<equiv> \<lambda>x. stmt_matches q x (value_pattern (ignoreContext n) s)"
  shows "fst (addNrlStatement q M s n) = ErrorNone"
    and "contents (nrl_state (snd (addNrlStatement q M s n))) = filter (\<lambda>x. \<not> P x) (contents (nrl_state n)) @ [s]"
proof -
  obtain n1 where n1: "on_parent (m_executeQuery (filter_model M) (cardinality_query q (predicate s)) ''SPARQL'') n = (Some rows, n1)"
    using parent_query(1)[of "cardinality_query q (predicate s)" "''SPARQL''" n] rows by (metis prod.collapse)
  then have k: "contents (nrl_state n1) = contents (nrl_state n)" "ignoreContext n1 = ignoreContext n"
    using parent_query(2,3)[of "cardinality_query q (predicate s)" "''SPARQL''" n] by simp_all
  let ?p = "value_pattern (ignoreContext n) s"
  obtain r n2 where n2: "on_parent (m_removeAllStatements (filter_model M) ?p) n1 = (r, n2)"
    by (metis prod.collapse)
  then have c2: "contents (nrl_state n2) = filter (\<lambda>x. \<not> P x) (contents (nrl_state n))"
    using parent_removeAll(2)[of ?p n1] k by (simp add: graph_removeAllStatements_def P_def)
  have res: "addNrlStatement q M s n = on_parent (m_addStatement (filter_model M) s) n2"
    using n1 n2 card k by (auto simp: addNrlStatement_def value_pattern_def)
  show "fst (addNrlStatement q M s n) = ErrorNone" using parent_add(1)[OF v] res by simp
  have "\<not> graph_containsStatement q s (filter (\<lambda>x. \<not> P x) (contents (nrl_state n)))"
    using eq_valid_matches[OF v] by (auto simp: contains_iff same_key_def P_def)
  then show "contents (nrl_state (snd (addNrlStatement q M s n))) = filter (\<lambda>x. \<not> P x) (contents (nrl_state n)) @ [s]"
    using parent_add(2)[OF v, of n2] res c2 by (simp add: graph_addStatement_def)
qed

text \<open>Several values, contexts ignored: the statement is added while there is room, refused afterwards.\<close>

lemma bounded_values:
  assumes v: "stmt_isValid s" and ign: "ignoreContext n"
    and rows: "fst (m_executeQuery M (cardinality_query q (predicate s)) ''SPARQL'' (nrl_state n)) = Some rows"
    and card: "cardinalities q rows = (mn, mx, c)" "c \<noteq> 1" "mx \<noteq> 1" "mx > 1 \<or> c > 1"
  defines "limit \<equiv> if c > 1 then c else mx"
    and "here \<equiv> \<lambda>g. length (filter (\<lambda>x. stmt_matches q x (value_pattern True s)) g)"
  shows "if int (here (contents (nrl_state n))) \<ge> limit
         then fst (addNrlStatement q M s n) = ErrorUnknown \<and>
              contents (nrl_state (snd (addNrlStatement q M s n))) = contents (nrl_state n)
         else fst (addNrlStatement q M s n) = ErrorNone \<and>
              contents (nrl_state (snd (addNrlStatement q M s n))) = graph_addStatement q s (contents (nrl_state n))"
proof -
  obtain n1 where n1: "on_parent (m_executeQuery (filter_model M) (cardinality_query q (predicate s)) ''SPARQL'') n = (Some rows, n1)"
    using parent_query(1)[of "cardinality_query q (predicate s)" "''SPARQL''" n] rows by (metis prod.collapse)
  then have k: "contents (nrl_state n1) = contents (nrl_state n)" "ignoreContext n1"
    using parent_query(2,3)[of "cardinality_query q (predicate s)" "''SPARQL''" n] ign by simp_all
  have res: "addNrlStatement q M s n = add_up_to q M limit s n1"
    using n1 card by (auto simp: addNrlStatement_def limit_def)
  let ?p = "value_pattern True s" and ?L = "filter (\<lambda>x. stmt_matches q x (value_pattern True s)) (contents (nrl_state n))"
  have pat: "mk_statement (subject s) (predicate s) EmptyNode EmptyNode = ?p" by (simp add: value_pattern_def)
  obtain n2 where n2: "on_parent (m_listStatements (filter_model M) ?p) n1 = (Some ?L, n2)"
    using parent_list(1)[of ?p n1] k by (metis prod.collapse)
  then have k2: "contents (nrl_state n2) = contents (nrl_state n)" "ignoreContext n2"
    using parent_list(2,3)[of ?p n1] k by simp_all
  have lim: "limit > 1" using card by (auto simp: limit_def)
  show ?thesis
  proof (cases "int (here (contents (nrl_state n))) \<ge> limit")
    case True
    then have "int (length ?L) \<ge> limit" "length ?L \<noteq> 1" using lim by (auto simp: here_def)
    then have "addNrlStatement q M s n = (ErrorUnknown, nrl_setError reached_error n2)"
      using res k k2 n2 pat by (simp add: add_up_to_def Let_def)
    with True k2 show ?thesis by (simp add: nrl_setError_def nrl_state_def)
  next
    case False
    then have "addNrlStatement q M s n = on_parent (m_addStatement (filter_model M) s) n2"
      using res k k2 n2 pat by (simp add: add_up_to_def Let_def here_def)
    with False k2 parent_add[OF v, of n2] show ?thesis by simp
  qed
qed

lemma remove_contexts_contents:
  "contents (nrl_state (remove_contexts M (map ResourceNode us) n)) =
     filter (\<lambda>x. context_node x \<notin> ResourceNode ` set us) (contents (nrl_state n))"
proof (induction us arbitrary: n)
  case Nil
  then show ?case by simp
next
  case (Cons u us)
  show ?case
    using Cons[of "snd (on_parent (m_removeAllStatements (filter_model M) (context_pattern (ResourceNode u))) n)"]
      parent_removeAll(2)[of "context_pattern (ResourceNode u)" n]
    by (simp add: graph_removeAllStatements_def conj_commute)
qed

lemma removeGraph_contents:
  assumes "fst (m_executeQuery M (metadata_query g) ''SPARQL'' (nrl_state n)) = Some rows"
    and "map (\<lambda>r. value_at r 0) rows = map ResourceNode us" "\<not> url_isEmpty g"
  shows "fst (removeGraph M g n) = ErrorNone"
    and "contents (nrl_state (snd (removeGraph M g n))) =
      filter (\<lambda>x. context_node x \<notin> ResourceNode ` set (g # us)) (contents (nrl_state n))"
proof -
  obtain n1 where n1: "on_parent (m_executeQuery (filter_model M) (metadata_query g) ''SPARQL'') n = (Some rows, n1)"
    using parent_query(1)[of "metadata_query g" "''SPARQL''" n] assms(1) by (metis prod.collapse)
  then have k: "contents (nrl_state n1) = contents (nrl_state n)"
    using parent_query(2)[of "metadata_query g" "''SPARQL''" n] by simp
  have res: "removeGraph M g n =
      on_parent (m_removeAllStatements (filter_model M) (context_pattern (ResourceNode g))) (remove_contexts M (map ResourceNode us) n1)"
    using n1 assms(2,3) by (simp add: removeGraph_def node_of_url_def)
  show "fst (removeGraph M g n) = ErrorNone" using res parent_removeAll(1) by simp
  show "contents (nrl_state (snd (removeGraph M g n))) =
      filter (\<lambda>x. context_node x \<notin> ResourceNode ` set (g # us)) (contents (nrl_state n))"
    using res parent_removeAll(2) remove_contexts_contents[of us n1] k
    by (simp add: graph_removeAllStatements_def conj_commute)
qed

end

text \<open>Claim C37: a predicate restricted to one value has one value. When the store answers the cardinality
  query with a cardinality or a maximum of 1, adding a valid statement succeeds, and afterwards it is
  the only statement with its subject and predicate (and its context, unless contexts are ignored);
  all others are untouched.\<close>

theorem nrl_single_value:
  assumes "store_model q M contents" "stmt_isValid s"
    and "fst (m_executeQuery M (cardinality_query q (predicate s)) ''SPARQL'' (nrl_state n)) = Some rows"
    and "cardinalities q rows = (mn, mx, c)" "c = 1 \<or> mx = 1"
  shows "fst (addNrlStatement q M s n) = ErrorNone
       \<and> contents (nrl_state (snd (addNrlStatement q M s n))) =
           filter (\<lambda>x. \<not> stmt_matches q x (value_pattern (ignoreContext n) s)) (contents (nrl_state n)) @ [s]
       \<and> filter (\<lambda>x. stmt_matches q x (value_pattern (ignoreContext n) s))
           (contents (nrl_state (snd (addNrlStatement q M s n)))) = [s]"
  using store_model.single_value[OF assms] valid_matches_value_pattern[OF assms(2)] by simp

text \<open>a predicate restricted to several values never exceeds its maximum, with contexts ignored:
  while there are fewer statements for the subject and predicate than the limit the statement is
  added, otherwise the call fails and nothing changes.\<close>

theorem nrl_bounded_values:
  assumes "store_model q M contents" "stmt_isValid s" "ignoreContext n"
    and "fst (m_executeQuery M (cardinality_query q (predicate s)) ''SPARQL'' (nrl_state n)) = Some rows"
    and "cardinalities q rows = (mn, mx, c)" "c \<noteq> 1" "mx \<noteq> 1" "mx > 1 \<or> c > 1"
    and "int (length (filter (\<lambda>x. stmt_matches q x (value_pattern True s)) (contents (nrl_state n)))) \<le> (if c > 1 then c else mx)"
  shows "int (length (filter (\<lambda>x. stmt_matches q x (value_pattern True s))
           (contents (nrl_state (snd (addNrlStatement q M s n)))))) \<le> (if c > 1 then c else mx)
       \<and> (fst (addNrlStatement q M s n) \<noteq> ErrorNone \<longrightarrow>
            contents (nrl_state (snd (addNrlStatement q M s n))) = contents (nrl_state n))"
proof -
  note b = store_model.bounded_values[OF assms(1-8)]
  have "length (filter P (graph_addStatement q s g)) \<le> Suc (length (filter P g))" for P g
    by (simp add: graph_addStatement_def)
  from this[of "\<lambda>x. stmt_matches q x (value_pattern True s)" "contents (nrl_state n)"] show ?thesis
    using b assms(9) by (auto split: if_splits)
qed

text \<open>the life of a graph. Creating a graph, adding any statements to it and removing it again
  leaves the store as it was, metadata included, when the graph's two URIs are new to the store and
  the store answers the metadata query with the graph's metadata graph.\<close>

theorem nrl_graph_lifecycle:
  assumes store: "store_model q M contents"
    and uris: "\<not> url_isEmpty g" "\<not> url_isEmpty mg" "\<not> url_isEmpty type"
    and fresh: "\<forall>x\<in>set (contents (nrl_state n)). context_node x \<notin> {ResourceNode g, ResourceNode mg}"
    and created: "n1 = snd (nrl_createGraph M g mg now type n)"
    and added: "contents (nrl_state n2) = fold (graph_addStatement q) ss (contents (nrl_state n1))"
    and data: "\<forall>s\<in>set ss. context_node s = ResourceNode g"
    and answer: "fst (m_executeQuery M (metadata_query g) ''SPARQL'' (nrl_state n2)) = Some [row]" "value_at row 0 = ResourceNode mg"
  shows "fst (removeGraph M g n2) = ErrorNone
       \<and> contents (nrl_state (snd (removeGraph M g n2))) = contents (nrl_state n)"
proof -
  define meta where "meta =
     [mk_statement (ResourceNode mg) (node_of_url (nrl ''coreGraphMetadataFor'')) (ResourceNode g) (ResourceNode mg),
      mk_statement (ResourceNode mg) (node_of_url (rdf RdfType)) (node_of_url (nrl ''GraphMetadata'')) (ResourceNode mg),
      mk_statement (ResourceNode g) (node_of_url (rdf RdfType)) (ResourceNode type) (ResourceNode mg),
      mk_statement (ResourceNode g) (node_of_url (nao ''created'')) (node_of_literal (lit_datetime now)) (ResourceNode mg)]"
  have valid: "\<forall>s\<in>set meta. stmt_isValid s"
    by (simp add: meta_def stmt_isValid_def mk_statement_def node_test_defs node_of_url_def url_isEmpty_def nrl_def nao_def
        rdf_def nrlNamespace_def naoNamespace_def rdfNamespace_def node_of_literal_def lit_isValid_def lit_datetime_def)
  have "contents (nrl_state n1) = fold (graph_addStatement q) meta (contents (nrl_state n))"
    using valid store_model.parent_add(2)[OF store] uris
    by (simp add: created nrl_createGraph_def meta_def node_of_url_def Let_def)
  then have all: "contents (nrl_state n2) = fold (graph_addStatement q) (meta @ ss) (contents (nrl_state n))"
    using added by simp
  have ctx: "\<forall>s\<in>set (meta @ ss). context_node s \<in> {ResourceNode g, ResourceNode mg}"
    using data by (auto simp: meta_def mk_statement_def)
  have "\<forall>s\<in>set xs. \<not> P s \<Longrightarrow> filter P (fold (graph_addStatement q) xs h) = filter P h" for P xs h
    by (induction xs arbitrary: h) (auto simp: graph_addStatement_def)
  from this[of "meta @ ss" "\<lambda>x. context_node x \<notin> {ResourceNode g, ResourceNode mg}"] ctx all fresh
  have "filter (\<lambda>x. context_node x \<notin> {ResourceNode g, ResourceNode mg}) (contents (nrl_state n2)) = contents (nrl_state n)"
    by (simp add: filter_True)
  with store_model.removeGraph_contents[OF store answer(1), of "[mg]"] answer(2) uris(1) show ?thesis
    by simp
qed

section \<open>Instances\<close>

definition nrl_example_model :: "node \<Rightarrow> (graph \<times> error) model" where
  "nrl_example_model v = memory_model plain_qt (\<lambda>_ _. Some [bs_of [(''c'', v)]])"

definition nrl_example_statement :: statement where
  "nrl_example_statement = mk_statement (ResourceNode (QUrl ''a:s'')) (ResourceNode (QUrl ''a:p'')) (BlankNode ''o'') EmptyNode"

lemma nrl_example_store: "store_model plain_qt (nrl_example_model v) fst"
  unfolding nrl_example_model_def by (rule memory.store_model_axioms)

lemma nrl_example_query: "fst (m_executeQuery (nrl_example_model v) t l \<sigma>) = Some [bs_of [(''c'', v)]]"
  by (simp add: nrl_example_model_def memory_model_def split: prod.splits)

lemma nrl_example_row: "value_of (bs_of [(''c'', v)]) name = (if name = ''c'' then v else EmptyNode)"
  "value_at (bs_of [(''c'', v)]) 0 = v"
  by (simp_all add: bs_of_def bs_insert_def value_of_def value_at_def empty_bindings_def)

lemma nrl_example_valid: "stmt_isValid nrl_example_statement"
  by (simp add: nrl_example_statement_def stmt_isValid_def mk_statement_def node_test_defs)

lemma nrl_example_cardinalities:
  "cardinalities plain_qt [bs_of [(''c'', LiteralNode (lit_int k))]] = (- 1, - 1, sint k)"
  by (simp add: cardinalities_def nrl_example_row node_test_defs literal_int_def lit_toInt_def lit_int_def plain_qt_def)

theorem nrl_single_value_witness:
  "fst (nrl_state (snd (addNrlStatement plain_qt (nrl_example_model (LiteralNode (lit_int 1))) nrl_example_statement
      (new_nrl_model ([], NoError))))) = [nrl_example_statement]"
  using nrl_single_value[where n = "new_nrl_model ([], NoError)", OF nrl_example_store nrl_example_valid
      nrl_example_query nrl_example_cardinalities[of 1]]
  by (simp add: nrl_state_def new_nrl_model_def)

theorem nrl_bounded_values_witness:
  "length (filter (\<lambda>x. stmt_matches plain_qt x (value_pattern True nrl_example_statement))
     (fst (nrl_state (snd (addNrlStatement plain_qt (nrl_example_model (LiteralNode (lit_int 2))) nrl_example_statement
        (new_nrl_model ([nrl_example_statement], NoError))))))) \<le> 2"
proof -
  have "length (filter (\<lambda>x. stmt_matches plain_qt x (value_pattern True nrl_example_statement))
      (fst (nrl_state (new_nrl_model ([nrl_example_statement], NoError))))) \<le> 1"
    by (simp add: nrl_state_def new_nrl_model_def)
  then show ?thesis
    using nrl_bounded_values[where n = "new_nrl_model ([nrl_example_statement], NoError)", OF nrl_example_store
        nrl_example_valid _ nrl_example_query nrl_example_cardinalities[of 2]]
    by (simp add: new_nrl_model_def)
qed

theorem nrl_graph_lifecycle_witness:
  "let M = nrl_example_model (ResourceNode (QUrl ''u:m''));
       n = new_nrl_model ([nrl_example_statement], NoError);
       n1 = snd (nrl_createGraph M (QUrl ''u:g'') (QUrl ''u:m'') (None, Some 0) (QUrl ''u:t'') n)
   in fst (nrl_state (snd (removeGraph M (QUrl ''u:g'') n1))) = [nrl_example_statement]"
proof -
  let ?M = "nrl_example_model (ResourceNode (QUrl ''u:m''))" and ?n = "new_nrl_model ([nrl_example_statement], NoError)"
  let ?n1 = "snd (nrl_createGraph ?M (QUrl ''u:g'') (QUrl ''u:m'') (None, Some 0) (QUrl ''u:t'') ?n)"
  have "fst (removeGraph ?M (QUrl ''u:g'') ?n1) = ErrorNone \<and> fst (nrl_state (snd (removeGraph ?M (QUrl ''u:g'') ?n1))) = fst (nrl_state ?n)"
    by (rule nrl_graph_lifecycle[OF nrl_example_store _ _ _ _ refl _ _ nrl_example_query, where ss = "[]"])
       (simp_all add: url_isEmpty_def nrl_state_def new_nrl_model_def nrl_example_row nrl_example_statement_def mk_statement_def)
  then show ?thesis by (simp add: Let_def nrl_state_def new_nrl_model_def)
qed

text \<open>Removing the context of a blank node: the context's URI is empty, so the pattern that reaches the
  store matches everything.\<close>

lemma blank_context_removes_everything:
  assumes "store_model q M contents"
    and "fst (m_executeQuery M (metadata_query (QUrl [])) ''SPARQL'' (nrl_state n)) = Some []"
  shows "contents (nrl_state (snd (nrl_removeAllStatements M (context_pattern (BlankNode b)) n))) = []"
proof -
  obtain n1 where n1: "on_parent (m_executeQuery (filter_model M) (metadata_query (QUrl [])) ''SPARQL'') n = (Some [], n1)"
    using store_model.parent_query(1)[OF assms(1), of "metadata_query (QUrl [])" "''SPARQL''" n] assms(2)
    by (metis prod.collapse)
  have "nrl_removeAllStatements M (context_pattern (BlankNode b)) n =
      on_parent (m_removeAllStatements (filter_model M) (context_pattern EmptyNode)) n1"
    using n1 by (simp add: nrl_removeAllStatements_def removeGraph_def context_pattern_def mk_statement_def
        node_test_defs node_of_url_def url_isEmpty_def)
  then show ?thesis
    using store_model.parent_removeAll(2)[OF assms(1), of "context_pattern EmptyNode" n1]
    by (simp add: graph_removeAllStatements_def stmt_matches_def context_pattern_def mk_statement_def
        node_matches_simps(1))
qed

text \<open>With contexts, the limit is not enforced: the search has the context in the place of the object, so
  it finds nothing unless the context is itself a value.\<close>

lemma context_limit_not_enforced:
  assumes store: "store_model q M contents" and v: "stmt_isValid s" and ctx: "\<not> ignoreContext n"
    and none: "\<forall>x\<in>set (contents (nrl_state n)). \<not> node_matches q (object x) (context_node s)"
    and lim: "limit > 0"
  shows "contents (nrl_state (snd (add_up_to q M limit s n))) = graph_addStatement q s (contents (nrl_state n))"
proof -
  let ?p = "mk_statement (subject s) (predicate s) (context_node s) EmptyNode"
  obtain n1 where n1: "on_parent (m_listStatements (filter_model M) ?p) n = (Some [], n1)"
    using store_model.parent_list(1)[OF store, of ?p n] none
    by (metis (mono_tags, lifting) filter_False mk_statement_def prod.collapse statement.select_convs(3) stmt_matches_def)
  then have "contents (nrl_state n1) = contents (nrl_state n)"
    using store_model.parent_list(2)[OF store, of ?p n] by simp
  with n1 ctx lim store_model.parent_add(2)[OF store v, of n1] show ?thesis
    by (simp add: add_up_to_def Let_def)
qed

end
