(* ===== verification/Rw_Lock.thy ===== *)
theory Rw_Lock
  imports Main "HOL-Library.Multiset"
begin

text \<open>
  The read-write lock of the thread-safe model (soprano/util/extreadwritelock.cpp), as a state machine.
  A step is what a thread does between taking the internal mutex and releasing it, where waiting on a
  condition releases it: a call that finds the lock taken puts its thread to sleep, and a thread that
  was woken runs the rest of its call, which tests the condition again. The hash from threads to the
  number of read locks they hold is a multiset. \<open>pc\<close> and \<open>writer\<close> say where each thread is and who was
  given the write lock; the code keeps the former in the two wait conditions and does not record the
  latter.
\<close>

section \<open>State and operations\<close>

datatype thread_pc = Running | AsleepWrite | WokenWrite | AsleepRead | WokenRead

record 't rw =
  accessCount :: int
  writerWaiting :: int
  readerWaiting :: int
  currentReaders :: "'t multiset"
  pc :: "'t \<Rightarrow> thread_pc"
  writer :: "'t option"

definition rw_init :: "'t rw" where
  "rw_init = \<lparr> accessCount = 0, writerWaiting = 0, readerWaiting = 0, currentReaders = {#},
     pc = (\<lambda>_. Running), writer = None \<rparr>"

text \<open>One turn of the loop of lockForWrite: sleep, or take the lock.\<close>

definition write_turn :: "'t \<Rightarrow> 't rw \<Rightarrow> 't rw" where
  "write_turn t s =
     (if accessCount s \<noteq> 0 then s\<lparr>writerWaiting := writerWaiting s + 1, pc := (pc s)(t := AsleepWrite)\<rparr>
      else s\<lparr>accessCount := accessCount s - 1, pc := (pc s)(t := Running), writer := Some t\<rparr>)"

definition lockForWrite :: "'t \<Rightarrow> 't rw \<Rightarrow> 't rw" where
  "lockForWrite t s = write_turn t s"

definition resumeWrite :: "'t \<Rightarrow> 't rw \<Rightarrow> 't rw" where
  "resumeWrite t s = write_turn t (s\<lparr>writerWaiting := writerWaiting s - 1\<rparr>)"

definition read_turn :: "'t \<Rightarrow> 't rw \<Rightarrow> 't rw" where
  "read_turn t s =
     (if accessCount s < 0 \<or> writerWaiting s \<noteq> 0 then
        s\<lparr>readerWaiting := readerWaiting s + 1, pc := (pc s)(t := AsleepRead)\<rparr>
      else s\<lparr>currentReaders := add_mset t (currentReaders s), accessCount := accessCount s + 1,
             pc := (pc s)(t := Running)\<rparr>)"

text \<open>A thread that already reads gets another read lock at once, also when writers wait.\<close>

definition lockForRead :: "'t \<Rightarrow> 't rw \<Rightarrow> 't rw" where
  "lockForRead t s =
     (if t \<in># currentReaders s then
        s\<lparr>currentReaders := add_mset t (currentReaders s), accessCount := accessCount s + 1\<rparr>
      else read_turn t s)"

definition resumeRead :: "'t \<Rightarrow> 't rw \<Rightarrow> 't rw" where
  "resumeRead t s = read_turn t (s\<lparr>readerWaiting := readerWaiting s - 1\<rparr>)"

text \<open>unlock up to the wake-up: the new state, and whether the lock became free.\<close>

definition release :: "'t \<Rightarrow> 't rw \<Rightarrow> 't rw \<times> bool" where
  "release t s =
     (if accessCount s > 0 then
        (s\<lparr>currentReaders := currentReaders s - {#t#}, accessCount := accessCount s - 1\<rparr>, accessCount s - 1 = 0)
      else if accessCount s < 0 then
        (s\<lparr>accessCount := accessCount s + 1, writer := (if accessCount s + 1 = 0 then None else writer s)\<rparr>,
         accessCount s + 1 = 0)
      else (s, False))"

definition wake_writer :: "'t option \<Rightarrow> 't rw \<Rightarrow> 't rw" where
  "wake_writer w s = (case w of None \<Rightarrow> s | Some t \<Rightarrow> s\<lparr>pc := (pc s)(t := WokenWrite)\<rparr>)"

definition wake_all :: "('t \<Rightarrow> thread_pc) \<Rightarrow> 't \<Rightarrow> thread_pc" where
  "wake_all p t = (if p t = AsleepRead then WokenRead else p t)"

definition wake_readers :: "'t rw \<Rightarrow> 't rw" where
  "wake_readers s = s\<lparr>pc := wake_all (pc s)\<rparr>"

text \<open>\<open>w\<close> is the sleeping writer that wakeOne picks.\<close>

definition wake_up :: "'t option \<Rightarrow> 't rw \<Rightarrow> 't rw" where
  "wake_up w s =
     (if writerWaiting s \<noteq> 0 then wake_writer w s
      else if readerWaiting s \<noteq> 0 then wake_readers s else s)"

definition unlock :: "'t \<Rightarrow> 't option \<Rightarrow> 't rw \<Rightarrow> 't rw" where
  "unlock t w s = (case release t s of (s, unlocked) \<Rightarrow> if unlocked then wake_up w s else s)"

text \<open>wakeOne wakes a sleeping writer if there is one.\<close>

definition wake_choice :: "'t rw \<Rightarrow> 't option \<Rightarrow> bool" where
  "wake_choice s w \<longleftrightarrow> (case w of Some t \<Rightarrow> pc s t = AsleepWrite | None \<Rightarrow> \<forall>t. pc s t \<noteq> AsleepWrite)"

section \<open>Steps\<close>

text \<open>The guards are what the lock asks of its callers: a thread calls it when it is not inside another call,
  asks for the write lock when it holds nothing, for a read lock when it does not hold the write lock,
  and unlocks what it holds.\<close>

datatype 't rw_event =
    CallWrite 't | CallRead 't | ResumeWrite 't | ResumeRead 't | CallUnlock 't

inductive rw_step :: "'t rw \<Rightarrow> 't rw_event \<Rightarrow> 't rw \<Rightarrow> bool" where
  call_write: "pc s t = Running \<Longrightarrow> writer s \<noteq> Some t \<Longrightarrow> t \<notin># currentReaders s \<Longrightarrow>
     rw_step s (CallWrite t) (lockForWrite t s)"
| call_read: "pc s t = Running \<Longrightarrow> writer s \<noteq> Some t \<Longrightarrow> rw_step s (CallRead t) (lockForRead t s)"
| resume_write: "pc s t = WokenWrite \<Longrightarrow> rw_step s (ResumeWrite t) (resumeWrite t s)"
| resume_read: "pc s t = WokenRead \<Longrightarrow> rw_step s (ResumeRead t) (resumeRead t s)"
| call_unlock: "pc s t = Running \<Longrightarrow> writer s = Some t \<or> t \<in># currentReaders s \<Longrightarrow> wake_choice s w \<Longrightarrow>
     rw_step s (CallUnlock t) (unlock t w s)"

inductive_cases rw_stepE: "rw_step s e s'"

inductive rw_reach :: "'t rw \<Rightarrow> bool" where
  init: "rw_reach rw_init"
| step: "rw_reach s \<Longrightarrow> rw_step s e s' \<Longrightarrow> rw_reach s'"

section \<open>Invariant\<close>

definition writers_at :: "('t \<Rightarrow> thread_pc) \<Rightarrow> 't set" where
  "writers_at p = {t. p t = AsleepWrite \<or> p t = WokenWrite}"

definition readers_at :: "('t \<Rightarrow> thread_pc) \<Rightarrow> 't set" where
  "readers_at p = {t. p t = AsleepRead \<or> p t = WokenRead}"

abbreviation waiting_writers :: "'t rw \<Rightarrow> 't set" where
  "waiting_writers s \<equiv> writers_at (pc s)"

abbreviation waiting_readers :: "'t rw \<Rightarrow> 't set" where
  "waiting_readers s \<equiv> readers_at (pc s)"

definition counts_ok :: "'t rw \<Rightarrow> bool" where
  "counts_ok s \<longleftrightarrow> finite (waiting_writers s) \<and> finite (waiting_readers s) \<and>
     writerWaiting s = int (card (waiting_writers s)) \<and> readerWaiting s = int (card (waiting_readers s))"

definition exclusion :: "'t rw \<Rightarrow> bool" where
  "exclusion s \<longleftrightarrow> (case writer s of
       None \<Rightarrow> accessCount s = int (size (currentReaders s))
     | Some t \<Rightarrow> accessCount s = - 1 \<and> currentReaders s = {#}) \<and>
     (\<forall>t. pc s t \<noteq> Running \<longrightarrow> t \<notin># currentReaders s \<and> writer s \<noteq> Some t)"

definition wakeups_ok :: "'t rw \<Rightarrow> bool" where
  "wakeups_ok s \<longleftrightarrow>
     (accessCount s = 0 \<and> waiting_writers s \<noteq> {} \<longrightarrow> (\<exists>t. pc s t = WokenWrite)) \<and>
     ((\<exists>t. pc s t = AsleepRead) \<longrightarrow> accessCount s < 0 \<or> waiting_writers s \<noteq> {})"

definition rw_inv :: "'t rw \<Rightarrow> bool" where
  "rw_inv s \<longleftrightarrow> counts_ok s \<and> exclusion s \<and> wakeups_ok s"

lemmas rw_inv_defs = rw_inv_def counts_ok_def exclusion_def wakeups_ok_def

lemma at_init [simp]: "writers_at (\<lambda>_. Running) = {}" "readers_at (\<lambda>_. Running) = {}"
  by (simp_all add: writers_at_def readers_at_def)

lemma writers_at_upd [simp]:
  "writers_at (p(t := q)) =
     (if q = AsleepWrite \<or> q = WokenWrite then insert t (writers_at p) else writers_at p - {t})"
  by (auto simp: writers_at_def)

lemma readers_at_upd [simp]:
  "readers_at (p(t := q)) =
     (if q = AsleepRead \<or> q = WokenRead then insert t (readers_at p) else readers_at p - {t})"
  by (auto simp: readers_at_def)

lemma at_mem [simp]:
  "t \<in> writers_at p \<longleftrightarrow> p t = AsleepWrite \<or> p t = WokenWrite"
  "t \<in> readers_at p \<longleftrightarrow> p t = AsleepRead \<or> p t = WokenRead"
  by (simp_all add: writers_at_def readers_at_def)

lemma at_wake_all [simp]:
  "writers_at (wake_all p) = writers_at p" "readers_at (wake_all p) = readers_at p"
  by (auto simp: writers_at_def readers_at_def wake_all_def)

lemma wake_all_is [simp]:
  "wake_all p t = AsleepRead \<longleftrightarrow> False" "wake_all p t = WokenWrite \<longleftrightarrow> p t = WokenWrite"
  "wake_all p t = Running \<longleftrightarrow> p t = Running"
  by (auto simp: wake_all_def)

text \<open>The release leaves every thread where it is; it is the wake-up that moves them.\<close>

lemma release_keeps [simp]:
  "pc (fst (release t s)) = pc s" "writerWaiting (fst (release t s)) = writerWaiting s"
  "readerWaiting (fst (release t s)) = readerWaiting s"
  by (simp_all add: release_def)

lemma wake_choice_release [simp]: "wake_choice (fst (release t s)) w = wake_choice s w"
  by (cases w) (simp_all add: wake_choice_def)

lemma release_free: "snd (release t s) \<Longrightarrow> accessCount (fst (release t s)) = 0"
  by (simp add: release_def split: if_splits)

lemma release_taken:
  "\<not> snd (release t s) \<Longrightarrow> accessCount s \<noteq> 0 \<Longrightarrow> accessCount (fst (release t s)) \<noteq> 0"
  "\<not> snd (release t s) \<Longrightarrow> accessCount s < 0 \<Longrightarrow> accessCount (fst (release t s)) < 0"
  by (auto simp: release_def split: if_splits)

lemma unlock_split: "unlock t w s = (if snd (release t s) then wake_up w (fst (release t s)) else fst (release t s))"
  by (simp add: unlock_def split: prod.splits)

lemma rw_inv_init: "rw_inv rw_init"
  by (simp add: rw_inv_defs rw_init_def)

section \<open>The invariant is kept\<close>

subsection \<open>The counters agree with the threads that wait\<close>

lemma int_card_remove: "finite A \<Longrightarrow> t \<in> A \<Longrightarrow> int (card (A - {t})) = int (card A) - 1"
  by (metis card_Suc_Diff1 of_nat_Suc add_diff_cancel_left')

lemma counts_write:
  assumes "counts_ok s"
  shows "pc s t = Running \<Longrightarrow> counts_ok (lockForWrite t s)"
    and "pc s t = WokenWrite \<Longrightarrow> counts_ok (resumeWrite t s)"
  using assms
  by (auto simp: counts_ok_def lockForWrite_def resumeWrite_def write_turn_def int_card_remove insert_absorb
      simp del: card_Diff_singleton card_Diff_insert)

lemma counts_read:
  assumes "counts_ok s"
  shows "pc s t = Running \<Longrightarrow> counts_ok (lockForRead t s)"
    and "pc s t = WokenRead \<Longrightarrow> counts_ok (resumeRead t s)"
  using assms
  by (auto simp: counts_ok_def lockForRead_def resumeRead_def read_turn_def int_card_remove insert_absorb
      simp del: card_Diff_singleton card_Diff_insert)

lemma counts_wake_up: "counts_ok s \<Longrightarrow> wake_choice s w \<Longrightarrow> counts_ok (wake_up w s)"
  by (cases w) (auto simp: counts_ok_def wake_up_def wake_writer_def wake_readers_def wake_choice_def insert_absorb)

lemma counts_unlock: "counts_ok s \<Longrightarrow> wake_choice s w \<Longrightarrow> counts_ok (unlock t w s)"
  unfolding unlock_split
  by (auto intro!: counts_wake_up) (simp_all add: counts_ok_def)

subsection \<open>Writers exclude everybody\<close>

lemma exclusion_write:
  assumes "exclusion s"
  shows "pc s t = Running \<Longrightarrow> writer s \<noteq> Some t \<Longrightarrow> t \<notin># currentReaders s \<Longrightarrow> exclusion (lockForWrite t s)"
    and "pc s t = WokenWrite \<Longrightarrow> exclusion (resumeWrite t s)"
  using assms
  by (auto simp: exclusion_def lockForWrite_def resumeWrite_def write_turn_def split: option.splits)

lemma exclusion_read:
  assumes "exclusion s"
  shows "pc s t = Running \<Longrightarrow> writer s \<noteq> Some t \<Longrightarrow> exclusion (lockForRead t s)"
    and "pc s t = WokenRead \<Longrightarrow> exclusion (resumeRead t s)"
  using assms
  by (auto simp: exclusion_def lockForRead_def resumeRead_def read_turn_def split: option.splits)

lemma exclusion_release:
  assumes "exclusion s" and "writer s = Some t \<or> t \<in># currentReaders s"
  shows "exclusion (fst (release t s))"
  using assms
  by (auto simp: exclusion_def release_def size_Diff_singleton dest: in_diffD split: option.splits if_splits)

lemma exclusion_wake_up: "exclusion s \<Longrightarrow> wake_choice s w \<Longrightarrow> exclusion (wake_up w s)"
  by (cases w) (auto simp: exclusion_def wake_up_def wake_writer_def wake_readers_def wake_choice_def split: option.splits)

lemma exclusion_unlock:
  assumes "exclusion s" and "writer s = Some t \<or> t \<in># currentReaders s" and "wake_choice s w"
  shows "exclusion (unlock t w s)"
  using assms by (simp add: unlock_split exclusion_wake_up exclusion_release)

subsection \<open>No wake-up is lost\<close>

lemma wakeups_write:
  assumes "wakeups_ok s"
  shows "pc s t = Running \<Longrightarrow> wakeups_ok (lockForWrite t s)"
    and "pc s t = WokenWrite \<Longrightarrow> wakeups_ok (resumeWrite t s)"
  using assms
  by (auto simp: wakeups_ok_def lockForWrite_def resumeWrite_def write_turn_def)

text \<open>A reader that takes the lock found no waiting writer, so it needs no wake-up for the state it leaves.\<close>

lemma wakeups_read_turn:
  assumes "finite (waiting_writers s)" and "writerWaiting s = int (card (waiting_writers s))"
    and "accessCount s = 0 \<and> waiting_writers s \<noteq> {} \<longrightarrow> (\<exists>t. pc s t = WokenWrite)"
    and "(\<exists>t. pc s t = AsleepRead) \<longrightarrow> accessCount s < 0 \<or> waiting_writers s \<noteq> {}"
    and "pc s t \<notin> {AsleepWrite, WokenWrite}"
  shows "wakeups_ok (read_turn t s)"
proof (cases "accessCount s < 0 \<or> writerWaiting s \<noteq> 0")
  case True
  with assms show ?thesis by (auto simp: wakeups_ok_def read_turn_def)
next
  case False
  then have none: "waiting_writers s = {}" "\<not> accessCount s < 0" using assms(1,2) by auto
  then have "\<not> (\<exists>t. pc s t = AsleepRead)" using assms(4) by auto
  with none False show ?thesis by (auto simp: wakeups_ok_def read_turn_def)
qed

lemma wakeups_read:
  assumes "wakeups_ok s" and "counts_ok s"
  shows "pc s t = Running \<Longrightarrow> t \<notin># currentReaders s \<Longrightarrow> wakeups_ok (lockForRead t s)"
    and "pc s t = WokenRead \<Longrightarrow> wakeups_ok (resumeRead t s)"
proof -
  assume "pc s t = Running" "t \<notin># currentReaders s"
  with wakeups_read_turn [of s t] assms show "wakeups_ok (lockForRead t s)"
    unfolding lockForRead_def counts_ok_def wakeups_ok_def [of s] by auto
next
  assume "pc s t = WokenRead"
  with wakeups_read_turn [of "s\<lparr>readerWaiting := readerWaiting s - 1\<rparr>" t] assms show "wakeups_ok (resumeRead t s)"
    unfolding resumeRead_def counts_ok_def wakeups_ok_def [of s] by auto
qed

lemma wakeups_reread:
  assumes "wakeups_ok s" and "exclusion s" and "t \<in># currentReaders s"
  shows "wakeups_ok (lockForRead t s)"
proof -
  have "writer s = None \<and> accessCount s = int (size (currentReaders s))"
    using assms(2,3) by (auto simp: exclusion_def split: option.splits)
  with assms(1,3) show ?thesis by (auto simp: lockForRead_def wakeups_ok_def)
qed

lemma wakeups_wake_up:
  assumes "counts_ok s" and "wake_choice s w" and "accessCount s = 0"
  shows "wakeups_ok (wake_up w s)"
proof (cases "writerWaiting s = 0")
  case True
  then have none: "waiting_writers s = {}" using assms(1) by (metis card_0_eq counts_ok_def of_nat_eq_0_iff)
  show ?thesis
  proof (cases "readerWaiting s = 0")
    case True
    then have "waiting_readers s = {}" using assms(1) by (metis card_0_eq counts_ok_def of_nat_eq_0_iff)
    then have "\<not> (\<exists>t. pc s t = AsleepRead)" by (auto simp: readers_at_def)
    with none True \<open>writerWaiting s = 0\<close> show ?thesis by (simp add: wakeups_ok_def wake_up_def)
  next
    case False
    with none \<open>writerWaiting s = 0\<close> show ?thesis by (simp add: wakeups_ok_def wake_up_def wake_readers_def)
  qed
next
  case False
  then obtain t where t: "t \<in> waiting_writers s" using assms(1) by (fastforce simp: counts_ok_def)
  show ?thesis
  proof (cases w)
    case None
    then have "pc s t = WokenWrite" using assms(2) t by (auto simp: wake_choice_def)
    with False None t show ?thesis by (auto simp: wakeups_ok_def wake_up_def wake_writer_def)
  next
    case (Some u)
    with False show ?thesis by (auto simp: wakeups_ok_def wake_up_def wake_writer_def)
  qed
qed

lemma wakeups_unlock:
  assumes "wakeups_ok s" and "counts_ok s" and "wake_choice s w" and "accessCount s \<noteq> 0"
  shows "wakeups_ok (unlock t w s)"
proof (cases "snd (release t s)")
  case True
  have "counts_ok (fst (release t s))" "wake_choice (fst (release t s)) w"
    using assms(2,3) by (simp_all add: counts_ok_def)
  then show ?thesis using wakeups_wake_up release_free True by (metis unlock_split)
next
  case False
  with release_taken [OF False] assms(1,4) show ?thesis by (auto simp: unlock_split wakeups_ok_def)
qed

subsection \<open>Reachable states\<close>

lemma holder_counted: "exclusion s \<Longrightarrow> writer s = Some t \<or> t \<in># currentReaders s \<Longrightarrow> accessCount s \<noteq> 0"
  by (auto simp: exclusion_def split: option.splits)

lemma rw_inv_step: "rw_step s e s' \<Longrightarrow> rw_inv s \<Longrightarrow> rw_inv s'"
proof (induction rule: rw_step.induct)
  case (call_read s t)
  then show ?case
    by (cases "t \<in># currentReaders s") (auto simp: rw_inv_def counts_read exclusion_read wakeups_read wakeups_reread)
next
  case (call_unlock s t w)
  then show ?case
    using holder_counted [of s t] by (auto simp: rw_inv_def counts_unlock exclusion_unlock wakeups_unlock)
qed (auto simp: rw_inv_def counts_write counts_read exclusion_write exclusion_read wakeups_write wakeups_read)

lemma rw_reach_inv: "rw_reach s \<Longrightarrow> rw_inv s"
  by (induction rule: rw_reach.induct) (auto simp: rw_inv_init intro: rw_inv_step)

lemma exclusion_core:
  "rw_reach s \<Longrightarrow> case writer s of None \<Rightarrow> accessCount s = int (size (currentReaders s))
     | Some t \<Rightarrow> accessCount s = - 1 \<and> currentReaders s = {#}"
  by (drule rw_reach_inv) (simp add: rw_inv_def exclusion_def)

section \<open>Properties\<close>

text \<open>Claim C21: In every reachable state the lock is held by one writer and no reader, or by
  readers only, and accessCount says which: -1 for a writer, else the number of read locks. A call of
  another thread while a writer holds the lock puts that thread to sleep, and so does a call of lockForWrite while somebody reads.\<close>

theorem rw_lock_exclusion:
  assumes "rw_reach s"
  shows "case writer s of
       None \<Rightarrow> accessCount s = int (size (currentReaders s)) \<and>
         (\<forall>t. currentReaders s \<noteq> {#} \<longrightarrow> pc (lockForWrite t s) t = AsleepWrite)
     | Some _ \<Rightarrow> accessCount s = - 1 \<and> currentReaders s = {#} \<and>
         (\<forall>t. pc (lockForWrite t s) t = AsleepWrite \<and> pc (lockForRead t s) t = AsleepRead)"
  using exclusion_core [OF assms]
  by (auto simp: lockForWrite_def write_turn_def lockForRead_def read_turn_def split: option.splits)

text \<open>A run of two writers and a reader: thread 1 holds the write lock, 2 and 3 sleep.\<close>

definition contended :: "nat rw" where
  "contended = lockForRead 3 (lockForWrite 2 (lockForWrite 1 rw_init))"

lemmas rw_run_defs = contended_def lockForRead_def read_turn_def lockForWrite_def write_turn_def rw_init_def

lemma contended_reached: "rw_reach contended"
  unfolding contended_def
  by (rule rw_reach.step [OF rw_reach.step [OF rw_reach.step [OF rw_reach.init call_write] call_write] call_read])
    (simp_all add: rw_run_defs)

lemma rw_lock_exclusion_witness:
  "accessCount contended = - 1 \<and> pc (lockForRead 4 contended) 4 = AsleepRead"
  using rw_lock_exclusion [OF contended_reached] by (simp add: rw_run_defs)

text \<open>Claim C22: No wake-up is lost: whenever a thread waits, either some thread that is not
  inside a call of the lock holds it (and will unlock it), or some woken thread takes the lock with its
  next step. So the lock never stays free with everybody asleep, whatever threads come between an unlock
  and the thread it woke.\<close>

theorem rw_lock_progress:
  assumes "rw_reach s" and "pc s t \<noteq> Running"
  shows "(\<exists>u. pc s u = Running \<and> (writer s = Some u \<or> u \<in># currentReaders s)) \<or>
    (\<exists>u s'. rw_step s (ResumeWrite u) s' \<and> writer s' = Some u) \<or>
    (\<exists>u s'. rw_step s (ResumeRead u) s' \<and> u \<in># currentReaders s')"
proof (cases "accessCount s = 0")
  case False
  then obtain u where u: "writer s = Some u \<or> u \<in># currentReaders s"
    using exclusion_core [OF assms(1)] by (cases "writer s") (auto elim: multiset_nonemptyE)
  then have "pc s u = Running" using rw_reach_inv [OF assms(1)] by (auto simp: rw_inv_def exclusion_def)
  with u show ?thesis by blast
next
  case True
  have inv: "counts_ok s" "wakeups_ok s" using rw_reach_inv [OF assms(1)] by (simp_all add: rw_inv_def)
  show ?thesis
  proof (cases "waiting_writers s = {}")
    case False
    then obtain u where "pc s u = WokenWrite" using inv(2) True by (auto simp: wakeups_ok_def)
    then have "rw_step s (ResumeWrite u) (resumeWrite u s)" "writer (resumeWrite u s) = Some u"
      using True by (auto intro!: resume_write) (simp add: resumeWrite_def write_turn_def)
    then show ?thesis by blast
  next
    case none: True
    then have "pc s t = WokenRead" "writerWaiting s = 0"
      using inv True assms(2) by (auto simp: wakeups_ok_def counts_ok_def writers_at_def) (metis thread_pc.exhaust)
    then have "rw_step s (ResumeRead t) (resumeRead t s)" "t \<in># currentReaders (resumeRead t s)"
      using True by (auto intro!: resume_read) (simp add: resumeRead_def read_turn_def)
    then show ?thesis by blast
  qed
qed

lemma rw_lock_progress_witness:
  "(\<exists>u. pc contended u = Running \<and> (writer contended = Some u \<or> u \<in># currentReaders contended)) \<or>
    (\<exists>u s'. rw_step contended (ResumeWrite u) s' \<and> writer s' = Some u) \<or>
    (\<exists>u s'. rw_step contended (ResumeRead u) s' \<and> u \<in># currentReaders s')"
  by (rule rw_lock_progress [OF contended_reached, of 2]) (simp add: rw_run_defs)

text \<open>The guard of the unlock step is needed, and the code does not enforce it: when another thread than
  the one that took the read lock unlocks it (an iterator of the model closed in another thread), the
  hash keeps the reader, and its next lockForRead gets in while a writer holds the lock.\<close>

lemma foreign_unlock_breaks_exclusion:
  assumes "t \<noteq> u"
  shows "let s = lockForRead t (lockForWrite u (unlock u None (lockForRead t rw_init)))
    in writer s = Some u \<and> t \<in># currentReaders s \<and> pc s t = Running \<and> accessCount s = 0"
  using assms
  by (simp add: rw_run_defs unlock_def release_def wake_up_def Let_def)

end
