(* ===== verification/Async_Model.thy ===== *)
theory Async_Model
  imports Model_Stack
begin

text \<open>
  The asynchronous model (soprano/util/asyncmodel.cpp, asynccommand.cpp, asynciteratorbackend.cpp): every
  request becomes a command. In single-threaded mode the commands wait in a queue that the event loop
  works off, one command per timer event, and commands that write wait until all iterators are closed;
  reading commands may overtake them. In multi-threaded mode the commands go to a thread pool.

  An event is what the event loop, the client or a pool thread does next; a run is a sequence of events.
\<close>

section \<open>Commands\<close>

datatype command =
    AddStatementCommand "statement list" | RemoveStatementCommand "statement list"
  | RemoveAllStatementsCommand statement | CreateBlankNodeCommand
  | IsEmptyCommand | StatementCountCommand
  | ContainsStatementCommand statement | ContainsAnyStatementCommand statement
  | ListStatementsCommand statement | ListContextsCommand | ExecuteQueryCommand qstring qstring

datatype command_type = ReadCommand | WriteCommand

fun command_kind :: "command \<Rightarrow> command_type" where
  "command_kind (AddStatementCommand ss) = WriteCommand"
| "command_kind (RemoveStatementCommand ss) = WriteCommand"
| "command_kind (RemoveAllStatementsCommand p) = WriteCommand"
| "command_kind CreateBlankNodeCommand = WriteCommand"
| "command_kind _ = ReadCommand"

text \<open>The call a command makes on the model. The asynchronous model is a filter, so a call reaches its
  parent through FilterModel.\<close>

fun command_call :: "'s model \<Rightarrow> command \<Rightarrow> 's \<times> error \<Rightarrow> model_result \<times> ('s \<times> error)" where
  "command_call M (AddStatementCommand ss) st = tag_result RCode (model_addStatements (filter_model M) ss st)"
| "command_call M (RemoveStatementCommand ss) st = tag_result RCode (model_removeStatements (filter_model M) ss st)"
| "command_call M (RemoveAllStatementsCommand p) st = tag_result RCode (m_removeAllStatements (filter_model M) p st)"
| "command_call M CreateBlankNodeCommand st = tag_result RNode (m_createBlankNode (filter_model M) st)"
| "command_call M IsEmptyCommand st = tag_result RBool (m_isEmpty (filter_model M) st)"
| "command_call M StatementCountCommand st = tag_result RInt (m_statementCount (filter_model M) st)"
| "command_call M (ContainsStatementCommand s) st = tag_result RBool (m_containsStatement (filter_model M) s st)"
| "command_call M (ContainsAnyStatementCommand p) st = tag_result RBool (m_containsAnyStatement (filter_model M) p st)"
| "command_call M (ListStatementsCommand p) st = tag_result RStatements (m_listStatements (filter_model M) p st)"
| "command_call M ListContextsCommand st = tag_result RNodes (m_listContexts (filter_model M) st)"
| "command_call M (ExecuteQueryCommand t l) st = tag_result RRows (m_executeQuery (filter_model M) t l st)"

section \<open>State\<close>

datatype async_mode = SingleThreaded | MultiThreaded

text \<open>The registered iterators, each with the number of the request it answers. A request that lists
  something registers two: the iterator that the model's own listing function wraps around its parent's,
  and the one the command wraps around that.\<close>

datatype handle = SyncHandle | SyncQueryHandle | AsyncHandle

record 's async =
  mode :: async_mode
  commandQueue :: "(nat \<times> command) list"
  openIterators :: "(nat \<times> handle) list"
  timers :: nat
  pool :: "(nat \<times> command) list"
  base :: "'s \<times> error"
  answers :: "(nat \<times> command \<times> model_result \<times> error) list"

definition new_async :: "'s \<Rightarrow> 's async" where
  "new_async \<sigma> = \<lparr> mode = SingleThreaded, commandQueue = [], openIterators = [], timers = 0, pool = [],
     base = (\<sigma>, NoError), answers = [] \<rparr>"

definition singleShot :: "'s async \<Rightarrow> 's async" where
  "singleShot s = s\<lparr>timers := timers s + 1\<rparr>"

section \<open>Iterators\<close>

definition addIterator :: "nat \<times> handle \<Rightarrow> 's async \<Rightarrow> 's async" where
  "addIterator h s = (if mode s = SingleThreaded then s\<lparr>openIterators := openIterators s @ [h]\<rparr> else s)"

text \<open>AsyncIteratorHandle::remove: an iterator that is no longer registered does nothing.\<close>

definition remove_handle :: "nat \<times> handle \<Rightarrow> 's async \<Rightarrow> 's async" where
  "remove_handle h s =
     (if mode s = SingleThreaded \<and> h \<in> set (openIterators s)
      then singleShot (s\<lparr>openIterators := removeAll h (openIterators s)\<rparr>) else s)"

text \<open>Closing: the wrapper around a query result does not deregister, that happens when it is destroyed.\<close>

definition close_iterator :: "nat \<Rightarrow> 's async \<Rightarrow> 's async" where
  "close_iterator i s = remove_handle (i, AsyncHandle) (remove_handle (i, SyncHandle) s)"

definition destroy_iterator :: "nat \<Rightarrow> 's async \<Rightarrow> 's async" where
  "destroy_iterator i s = remove_handle (i, SyncQueryHandle) (close_iterator i s)"

text \<open>The listing functions of the model register their iterator.\<close>

fun listing_handles :: "command \<Rightarrow> handle list" where
  "listing_handles (ListStatementsCommand p) = [SyncHandle]"
| "listing_handles ListContextsCommand = [SyncHandle]"
| "listing_handles (ExecuteQueryCommand t l) = [SyncQueryHandle]"
| "listing_handles _ = []"

definition register_all :: "nat \<Rightarrow> handle list \<Rightarrow> 's async \<Rightarrow> 's async" where
  "register_all i hs s = fold (\<lambda>h. addIterator (i, h)) hs s"

definition async_call :: "'s model \<Rightarrow> nat \<Rightarrow> command \<Rightarrow> 's async \<Rightarrow> model_result \<times> 's async" where
  "async_call M i c s = (case command_call M c (base s) of
     (r, st) \<Rightarrow> (r, register_all i (listing_handles c) (s\<lparr>base := st\<rparr>)))"

section \<open>Executing commands\<close>

definition execute :: "'s model \<Rightarrow> nat \<Rightarrow> command \<Rightarrow> 's async \<Rightarrow> 's async" where
  "execute M i c s = (case async_call M i c s of (r, s) \<Rightarrow>
     (let s = (if listing_handles c = [] then s else addIterator (i, AsyncHandle) s)
      in s\<lparr>answers := answers s @ [(i, c, r, snd (base s))]\<rparr>))"

definition enqueueCommand :: "nat \<Rightarrow> command \<Rightarrow> 's async \<Rightarrow> 's async" where
  "enqueueCommand i c s =
     (if mode s = SingleThreaded then singleShot (s\<lparr>commandQueue := commandQueue s @ [(i, c)]\<rparr>)
      else s\<lparr>pool := pool s @ [(i, c)]\<rparr>)"

definition runnable :: "'s async \<Rightarrow> nat \<times> command \<Rightarrow> bool" where
  "runnable s q \<longleftrightarrow> openIterators s = [] \<or> command_kind (snd q) = ReadCommand"

text \<open>The loop over the queue: the first command that may run, and the queue without it.\<close>

fun pick :: "(nat \<times> command \<Rightarrow> bool) \<Rightarrow> (nat \<times> command) list \<Rightarrow> ((nat \<times> command) \<times> (nat \<times> command) list) option" where
  "pick P [] = None"
| "pick P (x # xs) = (if P x then Some (x, xs) else map_option (map_prod id ((#) x)) (pick P xs))"

definition executeNextCommand :: "'s model \<Rightarrow> 's async \<Rightarrow> 's async" where
  "executeNextCommand M s = (case pick (runnable s) (commandQueue s) of
       None \<Rightarrow> s
     | Some ((i, c), rest) \<Rightarrow>
         (let s = (execute M i c s)\<lparr>commandQueue := rest\<rparr>
          in if rest \<noteq> [] then singleShot s else s))"

section \<open>Events\<close>

datatype async_event =
    Submit nat command | TimerFires | PoolRuns nat | Listing nat command
  | CloseIterator nat | DestroyIterator nat | SetMode async_mode

definition fire :: "'s model \<Rightarrow> 's async \<Rightarrow> 's async" where
  "fire M s = (if timers s = 0 then s else executeNextCommand M (s\<lparr>timers := timers s - 1\<rparr>))"

definition pool_run :: "'s model \<Rightarrow> nat \<Rightarrow> 's async \<Rightarrow> 's async" where
  "pool_run M k s =
     (if k < length (pool s) then
        (case pool s ! k of (i, c) \<Rightarrow> execute M i c (s\<lparr>pool := take k (pool s) @ drop (Suc k) (pool s)\<rparr>))
      else s)"

fun async_step :: "'s model \<Rightarrow> async_event \<Rightarrow> 's async \<Rightarrow> 's async" where
  "async_step M (Submit i c) s = enqueueCommand i c s"
| "async_step M TimerFires s = fire M s"
| "async_step M (PoolRuns k) s = pool_run M k s"
| "async_step M (Listing i c) s = snd (async_call M i c s)"
| "async_step M (CloseIterator i) s = close_iterator i s"
| "async_step M (DestroyIterator i) s = destroy_iterator i s"
| "async_step M (SetMode m) s = s\<lparr>mode := m\<rparr>"

definition async_run :: "'s model \<Rightarrow> async_event list \<Rightarrow> 's async \<Rightarrow> 's async" where
  "async_run M es s = fold (async_step M) es s"

section \<open>The queue\<close>

lemma pick_None: "pick P xs = None \<longleftrightarrow> (\<forall>x\<in>set xs. \<not> P x)"
  by (induction xs) auto

lemma pick_Some:
  "pick P xs = Some (x, ys) \<Longrightarrow>
     P x \<and> (\<exists>pre post. xs = pre @ x # post \<and> ys = pre @ post \<and> (\<forall>y\<in>set pre. \<not> P y))"
proof (induction xs arbitrary: ys)
  case (Cons a xs)
  show ?case
  proof (cases "P a")
    case True
    with Cons.prems have "x = a" "a # xs = [] @ a # xs" "ys = [] @ xs" by auto
    with True show ?thesis by (metis empty_iff list.set(1))
  next
    case False
    with Cons.prems obtain zs where z: "pick P xs = Some (x, zs)" "ys = a # zs" by auto
    obtain pre post where "xs = pre @ x # post" "zs = pre @ post" "\<forall>y\<in>set pre. \<not> P y" and x: "P x"
      using Cons.IH[OF z(1)] by blast
    then have "a # xs = (a # pre) @ x # post" "ys = (a # pre) @ post" "\<forall>y\<in>set (a # pre). \<not> P y"
      using False z(2) by auto
    with x show ?thesis by blast
  qed
qed simp

text \<open>Registering and running keep queue, mode, pool and timers.\<close>

lemma addIterator_keeps [simp]:
  "mode (addIterator h s) = mode s" "commandQueue (addIterator h s) = commandQueue s"
  "timers (addIterator h s) = timers s" "pool (addIterator h s) = pool s" "answers (addIterator h s) = answers s"
  "base (addIterator h s) = base s"
  by (simp_all add: addIterator_def)

lemma register_all_simps [simp]:
  "register_all i [] s = s" "register_all i (h # hs) s = register_all i hs (addIterator (i, h) s)"
  by (simp_all add: register_all_def)

lemma register_all_keeps [simp]:
  "mode (register_all i hs s) = mode s" "commandQueue (register_all i hs s) = commandQueue s"
  "timers (register_all i hs s) = timers s" "pool (register_all i hs s) = pool s"
  "answers (register_all i hs s) = answers s" "base (register_all i hs s) = base s"
  by (induction hs arbitrary: s) simp_all

lemma addIterator_open: "openIterators (addIterator h s) = [] \<Longrightarrow> openIterators s = []"
  by (simp add: addIterator_def split: if_splits)

lemma register_all_open: "openIterators (register_all i hs s) = [] \<Longrightarrow> openIterators s = []"
  by (induction hs arbitrary: s) (simp, metis addIterator_open register_all_simps(2))

lemma async_call_keeps [simp]:
  "mode (snd (async_call M i c s)) = mode s" "commandQueue (snd (async_call M i c s)) = commandQueue s"
  "timers (snd (async_call M i c s)) = timers s" "pool (snd (async_call M i c s)) = pool s"
  "answers (snd (async_call M i c s)) = answers s"
  by (simp_all add: async_call_def split: prod.splits)

lemma async_call_open: "openIterators (snd (async_call M i c s)) = [] \<Longrightarrow> openIterators s = []"
  by (auto simp: async_call_def split: prod.splits dest!: register_all_open)

lemma execute_keeps [simp]:
  "mode (execute M i c s) = mode s" "commandQueue (execute M i c s) = commandQueue s"
  "timers (execute M i c s) = timers s" "pool (execute M i c s) = pool s"
  using async_call_keeps[of M i c s] by (auto simp: execute_def Let_def simp del: async_call_keeps split: prod.splits)

lemma execute_answers: "\<exists>r e. answers (execute M i c s) = answers s @ [(i, c, r, e)]"
  using async_call_keeps[of M i c s] by (auto simp: execute_def Let_def simp del: async_call_keeps split: prod.splits)

text \<open>What a closed iterator changes.\<close>

lemma remove_handle_keeps [simp]:
  "mode (remove_handle h s) = mode s" "commandQueue (remove_handle h s) = commandQueue s"
  "pool (remove_handle h s) = pool s" "answers (remove_handle h s) = answers s" "base (remove_handle h s) = base s"
  by (simp_all add: remove_handle_def singleShot_def)

lemma remove_handle_timer: "remove_handle h s = s \<or> timers (remove_handle h s) > 0"
  by (simp add: remove_handle_def singleShot_def)

lemma remove_handle_timers: "timers s \<le> timers (remove_handle h s)"
  by (simp add: remove_handle_def singleShot_def)

text \<open>The effect of a timer event: nothing, or the first command that may run.\<close>

lemma runnable_timers [simp]: "runnable (s\<lparr>timers := n\<rparr>) = runnable s"
  by (simp add: runnable_def fun_eq_iff)

lemma fire_cases:
  obtains (idle) "timers s = 0" "fire M s = s"
  | (blocked) "\<forall>x\<in>set (commandQueue s). \<not> runnable s x" "fire M s = s\<lparr>timers := timers s - 1\<rparr>"
  | (runs) i c pre post r e where "commandQueue s = pre @ (i, c) # post" "runnable s (i, c)"
      "\<forall>y\<in>set pre. \<not> runnable s y" "commandQueue (fire M s) = pre @ post"
      "answers (fire M s) = answers s @ [(i, c, r, e)]" "mode (fire M s) = mode s" "pool (fire M s) = pool s"
      "pre @ post \<noteq> [] \<Longrightarrow> timers (fire M s) > 0" "timers s > 0"
proof -
  let ?s = "s\<lparr>timers := timers s - 1\<rparr>"
  consider (idle) "timers s = 0" | (blocked) "timers s \<noteq> 0" "pick (runnable s) (commandQueue s) = None"
    | (runs) x rest where "timers s \<noteq> 0" "pick (runnable s) (commandQueue s) = Some (x, rest)"
    by (cases "pick (runnable s) (commandQueue s)") auto
  then show thesis
  proof cases
    case idle
    then show ?thesis using that(1) by (simp add: fire_def)
  next
    case blocked
    then have "fire M s = ?s" by (simp add: fire_def executeNextCommand_def)
    then show ?thesis using that(2) blocked(2) pick_None by metis
  next
    case runs
    obtain i c where x: "x = (i, c)" by (cases x)
    obtain pre post where q: "commandQueue s = pre @ (i, c) # post" "rest = pre @ post"
        "\<forall>y\<in>set pre. \<not> runnable s y" "runnable s (i, c)"
      using pick_Some[OF runs(2)] by (auto simp: x)
    obtain r e where "answers (execute M i c ?s) = answers s @ [(i, c, r, e)]"
      using execute_answers[of M i c ?s] by auto
    then show ?thesis
      using that(3)[OF q(1) q(4) q(3), of r e] runs q(2)
      by (auto simp: fire_def executeNextCommand_def x singleShot_def Let_def)
  qed
qed

section \<open>Runs in single-threaded mode\<close>

fun keeps_mode :: "async_event \<Rightarrow> bool" where
  "keeps_mode (SetMode m) = False"
| "keeps_mode _ = True"

fun submitted :: "async_event list \<Rightarrow> (nat \<times> command) list" where
  "submitted [] = []"
| "submitted (Submit i c # es) = (i, c) # submitted es"
| "submitted (_ # es) = submitted es"

definition executed :: "'s async \<Rightarrow> (nat \<times> command) list" where
  "executed s = map (\<lambda>(i, c, _). (i, c)) (answers s)"

definition of_kind :: "command_type \<Rightarrow> (nat \<times> command) list \<Rightarrow> (nat \<times> command) list" where
  "of_kind k qs = filter (\<lambda>q. command_kind (snd q) = k) qs"

text \<open>The invariant: no command is waiting for a timer event that will not come.\<close>

definition async_inv :: "'s async \<Rightarrow> bool" where
  "async_inv s \<longleftrightarrow> mode s = SingleThreaded \<and> pool s = [] \<and>
     ((\<exists>x\<in>set (commandQueue s). runnable s x) \<longrightarrow> timers s > 0)"

lemma async_inv_remove: "async_inv s \<Longrightarrow> async_inv (remove_handle h s)"
  using remove_handle_timer[of h s] by (auto simp: async_inv_def)

lemma async_inv_call: "async_inv s \<Longrightarrow> async_inv (snd (async_call M i c s))"
  using async_call_open[of M i c s] by (auto simp: async_inv_def runnable_def)

lemma async_inv_fire: "async_inv s \<Longrightarrow> async_inv (fire M s)"
proof (cases rule: fire_cases[of s M])
  case (runs i c pre post r e)
  assume "async_inv s"
  with runs show ?thesis by (cases "pre @ post = []") (simp_all add: async_inv_def)
qed (simp_all add: async_inv_def)

lemma async_inv_step: "async_inv s \<Longrightarrow> keeps_mode e \<Longrightarrow> async_inv (async_step M e s)"
proof (induction M e s rule: async_step.induct)
  case (1 M i c s)
  then show ?case by (simp add: async_inv_def enqueueCommand_def singleShot_def)
next
  case (3 M k s)
  then show ?case by (simp add: async_inv_def pool_run_def)
qed (simp_all add: async_inv_fire async_inv_call async_inv_remove close_iterator_def destroy_iterator_def)

lemma async_inv_run: "async_inv s \<Longrightarrow> list_all keeps_mode es \<Longrightarrow> async_inv (async_run M es s)"
  unfolding async_run_def by (induction es arbitrary: s) (simp_all add: async_inv_step)

lemma async_inv_new: "async_inv (new_async \<sigma>)"
  by (simp add: async_inv_def new_async_def)

text \<open>Commands of one kind leave the queue in its order.\<close>

definition served :: "command_type \<Rightarrow> 's async \<Rightarrow> (nat \<times> command) list" where
  "served k s = of_kind k (executed s) @ of_kind k (commandQueue s)"

lemma command_type_cases: "(k :: command_type) = ReadCommand \<or> k = WriteCommand"
  by (cases k) simp_all

lemma no_kind_before:
  assumes "\<forall>y\<in>set pre. \<not> runnable s y" and "runnable s (i, c)"
  shows "of_kind (command_kind c) pre = []"
  using assms by (cases "openIterators s = []") (auto simp: runnable_def of_kind_def filter_empty_conv)

lemma served_fire: "served k (fire M s) = served k s"
proof (cases rule: fire_cases[of s M])
  case (runs i c pre post r e)
  with no_kind_before[OF runs(3,2)] show ?thesis
    by (cases "command_kind c = k") (auto simp: served_def executed_def of_kind_def)
qed (simp_all add: served_def executed_def)

lemma served_step:
  assumes "async_inv s" "keeps_mode e"
  shows "served k (async_step M e s) = served k s @ of_kind k (submitted [e])"
  using assms
proof (induction M e s rule: async_step.induct)
  case (1 M i c s)
  then show ?case by (simp add: served_def executed_def of_kind_def enqueueCommand_def async_inv_def singleShot_def)
next
  case (2 M s)
  then show ?case by (simp add: served_fire of_kind_def)
next
  case (3 M j s)
  then show ?case by (simp add: pool_run_def async_inv_def of_kind_def)
qed (simp_all add: served_def executed_def of_kind_def close_iterator_def destroy_iterator_def)

lemma submitted_append: "submitted (xs @ ys) = submitted xs @ submitted ys"
  by (induction xs rule: submitted.induct) simp_all

lemma served_run:
  "async_inv s \<Longrightarrow> list_all keeps_mode es \<Longrightarrow>
     served k (async_run M es s) = served k s @ of_kind k (submitted es)"
proof (induction es arbitrary: s)
  case (Cons e es)
  then show ?case
    using submitted_append[of "[e]" es]
    by (simp add: async_run_def async_inv_step served_step of_kind_def)
qed (simp add: async_run_def of_kind_def)

section \<open>Properties\<close>

lemma writes_wait:
  assumes "async_inv s" "keeps_mode e"
  shows "openIterators s = [] \<or>
    filter (\<lambda>(i, c, _). command_kind c = WriteCommand) (drop (length (answers s)) (answers (async_step M e s))) = []"
  using assms
proof (cases e)
  case TimerFires
  then show ?thesis
    by (cases rule: fire_cases[of s M]) (auto simp: runnable_def)
qed (simp_all add: async_inv_def enqueueCommand_def singleShot_def pool_run_def close_iterator_def destroy_iterator_def)

text \<open>Claim C28: In single-threaded mode commands of one kind are executed in the order of their
  submission, each once: at any time those executed and those waiting, in this order, are those
  submitted. A command that writes is executed only while no iterator is open, whatever events come
  between; commands that read may overtake it.\<close>

theorem async_order:
  fixes M :: "'s model"
  assumes "list_all keeps_mode es" "keeps_mode e"
  shows "let s = async_run M es (new_async \<sigma>) in
     of_kind k (executed s) @ of_kind k (commandQueue s) = of_kind k (submitted es) \<and>
     (openIterators s = [] \<or>
      filter (\<lambda>(i, c, _). command_kind c = WriteCommand) (drop (length (answers s)) (answers (async_step M e s))) = [])"
proof -
  have "served k (new_async \<sigma> :: 's async) = []"
    by (simp add: served_def executed_def of_kind_def new_async_def)
  with served_run[OF async_inv_new assms(1), of k M \<sigma>] writes_wait[OF async_inv_run[OF async_inv_new assms(1)] assms(2)]
  show ?thesis by (simp add: Let_def served_def)
qed

lemma reads_drain:
  "async_inv s \<Longrightarrow> of_kind WriteCommand (commandQueue s) = [] \<Longrightarrow>
     executed ((fire M ^^ length (commandQueue s)) s) = executed s @ commandQueue s"
proof (induction "length (commandQueue s)" arbitrary: s)
  case (Suc n)
  show ?case
  proof (cases rule: fire_cases[of s M])
    case (runs i c pre post r e)
    have "list_all (runnable s) (commandQueue s)"
      using Suc.prems(2) by (auto simp: runnable_def of_kind_def filter_empty_conv list_all_iff intro: command_type.exhaust)
    with runs have q: "commandQueue s = (i, c) # commandQueue (fire M s)" by (cases pre) auto
    then have "executed ((fire M ^^ length (commandQueue (fire M s))) (fire M s)) = executed (fire M s) @ commandQueue (fire M s)"
      using Suc.hyps(2) Suc.prems by (intro Suc.hyps(1)) (auto simp: async_inv_fire of_kind_def split: if_splits)
    then show ?thesis using q runs(5) by (simp add: funpow_Suc_right executed_def del: funpow.simps)
  next
    case idle
    with Suc.prems Suc.hyps(2) show ?thesis
      by (cases "commandQueue s") (auto simp: async_inv_def runnable_def of_kind_def split: if_splits intro: command_type.exhaust)
  next
    case blocked
    with Suc.prems Suc.hyps(2) show ?thesis
      by (cases "commandQueue s") (auto simp: runnable_def of_kind_def split: if_splits intro: command_type.exhaust)
  qed
qed simp

text \<open>Claim C29: No command is forgotten: while a waiting command may run, a timer event is due,
  and it executes one and shortens the queue. When only reading commands wait, as many timer events
  as there are commands answer all of them in order, with iterators open or not.\<close>

theorem async_no_stall:
  fixes M :: "'s model"
  assumes "list_all keeps_mode es" and "s = async_run M es (new_async \<sigma>)"
    and "x \<in> set (commandQueue s)" and "runnable s x"
  shows "timers s > 0 \<and> length (executed (fire M s)) = Suc (length (executed s)) \<and>
     Suc (length (commandQueue (fire M s))) = length (commandQueue s) \<and>
     (of_kind WriteCommand (commandQueue s) = [] \<longrightarrow>
        executed ((fire M ^^ length (commandQueue s)) s) = executed s @ commandQueue s)"
proof -
  have inv: "async_inv s" using async_inv_run[OF async_inv_new assms(1)] assms(2) by simp
  then have "timers s > 0" using assms(3,4) by (auto simp: async_inv_def)
  moreover have "length (executed (fire M s)) = Suc (length (executed s)) \<and>
      Suc (length (commandQueue (fire M s))) = length (commandQueue s)"
    using \<open>timers s > 0\<close> assms(3,4) by (cases rule: fire_cases[of s M]) (auto simp: executed_def)
  ultimately show ?thesis using reads_drain[OF inv] by simp
qed

text \<open>An example: an iterator is opened, a writing and a reading command are submitted, and the timer
  fires; the reading command is answered, the writing one waits until the iterator is closed.\<close>

definition async_example :: "async_event list" where
  "async_example = [Submit 1 (ListStatementsCommand empty_statement), TimerFires,
     Submit 2 (RemoveStatementCommand [empty_statement]), Submit 3 IsEmptyCommand, TimerFires]"

lemma async_example_modes: "list_all keeps_mode async_example" "keeps_mode (CloseIterator 1)"
  by (simp_all add: async_example_def)

abbreviation async_example_state :: "error async" where
  "async_example_state \<equiv> async_run dummy_model async_example (new_async NoError)"

lemma async_example_queue:
  "commandQueue async_example_state = [(2, RemoveStatementCommand [empty_statement])]"
  by code_simp

lemma async_order_witness:
  "of_kind ReadCommand (executed async_example_state) =
     [(1, ListStatementsCommand empty_statement), (3, IsEmptyCommand)]"
  using async_order[OF async_example_modes, where \<sigma> = NoError and M = dummy_model and k = ReadCommand]
  by (simp add: async_example_queue of_kind_def Let_def) (simp add: async_example_def)

lemma async_no_stall_witness:
  "timers (async_step dummy_model (CloseIterator 1) async_example_state) > 0"
proof -
  let ?es = "async_example @ [CloseIterator 1]"
  let ?s = "async_run dummy_model ?es (new_async NoError)"
  have modes: "list_all keeps_mode ?es" using async_example_modes by simp
  have "commandQueue ?s = [(2, RemoveStatementCommand [empty_statement])]" "openIterators ?s = []"
    by code_simp+
  then have "(2, RemoveStatementCommand [empty_statement]) \<in> set (commandQueue ?s)"
    "runnable ?s (2, RemoveStatementCommand [empty_statement])" by (simp_all add: runnable_def)
  from async_no_stall[OF modes refl this] have "timers ?s > 0" by (rule conjunct1)
  then show ?thesis by (simp add: async_run_def)
qed

text \<open>A query result is different from the other iterators: closing it does not deregister it, so a
  writing command waits until the iterator is destroyed.\<close>

lemma closed_query_blocks_writes:
  "let s = async_run dummy_model [Listing 1 (ExecuteQueryCommand [] []), CloseIterator 1,
             Submit 2 (RemoveStatementCommand []), TimerFires, TimerFires] (new_async NoError)
   in executed s = [] \<and> executed (async_run dummy_model [Submit 3 IsEmptyCommand, DestroyIterator 1, TimerFires] s) = [(2, RemoveStatementCommand [])]"
  by code_simp

end
