(* ===== verification/Async_Iterator.thy ===== *)
theory Async_Iterator
  imports Soprano_Error
begin

text \<open>
  The iterators of the asynchronous model in multi-threaded mode (AsyncIteratorBase in
  soprano/util/asynciteratorbackend.h): a worker thread reads the model's iterator into a bounded
  cache, the client's thread takes elements out of it. A step is what one of the two does between
  taking the mutex and releasing it or waiting; the worker's local variable and the elements its
  iterator still has are part of the state, \<open>got\<close> is what the client has received so far.
\<close>

section \<open>State\<close>

datatype worker_pc = WStart | WTest | WTop | WAsleep | WWoken | WFill | WAfter | WDone
datatype client_pc = CIdle | CAsleep | CWoken | CClosed

record 'a chan =
  rest :: "('a \<times> error) list"
  cache :: "'a list"
  m_error :: error
  atEnd :: bool
  haveNext :: bool
  worker :: worker_pc
  client :: client_pc
  got :: "'a list"

definition s_cacheSize :: nat where "s_cacheSize = 10"

definition new_chan :: "('a \<times> error) list \<Rightarrow> 'a chan" where
  "new_chan items = \<lparr> rest = items, cache = [], m_error = NoError, atEnd = False, haveNext = False,
     worker = WStart, client = CIdle, got = [] \<rparr>"

definition wake_worker :: "'a chan \<Rightarrow> 'a chan" where
  "wake_worker s = (if worker s = WAsleep then s\<lparr>worker := WWoken\<rparr> else s)"

definition wake_client :: "'a chan \<Rightarrow> 'a chan" where
  "wake_client s = (if client s = CAsleep then s\<lparr>client := CWoken\<rparr> else s)"

section \<open>The worker: iterate\<close>

definition iterate_start :: "'a chan \<Rightarrow> 'a chan" where
  "iterate_start s = s\<lparr>atEnd := False, worker := WTest\<rparr>"

definition iterate_test :: "'a chan \<Rightarrow> 'a chan" where
  "iterate_test s = s\<lparr>worker := (if atEnd s then WDone else WTop)\<rparr>"

definition iterate_top :: "'a chan \<Rightarrow> 'a chan" where
  "iterate_top s =
     (if length (cache s) \<ge> s_cacheSize then s\<lparr>worker := WAsleep\<rparr> else s\<lparr>haveNext := False, worker := WFill\<rparr>)"

definition iterate_resume :: "'a chan \<Rightarrow> 'a chan" where
  "iterate_resume s = s\<lparr>haveNext := False, worker := WFill\<rparr>"

text \<open>One turn of the inner loop: the iterator's next element goes to the cache.\<close>

definition iterate_fill :: "'a chan \<Rightarrow> 'a chan" where
  "iterate_fill s = (case rest s of
       [] \<Rightarrow> s\<lparr>worker := WAfter\<rparr>
     | (a, e) # r \<Rightarrow>
         (let s = s\<lparr>rest := r, cache := cache s @ [a]\<rparr>
          in if err_occurred e then s\<lparr>m_error := e, haveNext := False, worker := WAfter\<rparr>
             else if length (cache s) \<ge> s_cacheSize then s\<lparr>haveNext := True, worker := WAfter\<rparr>
             else s))"

definition iterate_after :: "'a chan \<Rightarrow> 'a chan" where
  "iterate_after s = wake_client (s\<lparr>atEnd := \<not> haveNext s, worker := WTest\<rparr>)"

section \<open>The client: getNext and stopIterating\<close>

definition stopIterating :: "'a chan \<Rightarrow> 'a chan" where
  "stopIterating s = wake_worker (s\<lparr>atEnd := True, client := CClosed\<rparr>)"

text \<open>The end of getNext. A client whose next returned false closes the iterator (Iterator::next).\<close>

definition getNext_finish :: "'a chan \<Rightarrow> 'a chan" where
  "getNext_finish s =
     (if err_occurred (m_error s) then stopIterating s
      else case cache s of
        a # c \<Rightarrow> s\<lparr>cache := c, got := got s @ [a], client := CIdle\<rparr>
      | [] \<Rightarrow> stopIterating s)"

definition getNext :: "'a chan \<Rightarrow> 'a chan" where
  "getNext s =
     (if cache s = [] \<and> \<not> atEnd s then (wake_worker s)\<lparr>client := CAsleep\<rparr> else getNext_finish s)"

section \<open>Steps\<close>

datatype chan_event = Start | Test | Top | Resume | Fill | After | Next | NextResume | Close

fun chan_step :: "chan_event \<Rightarrow> 'a chan \<Rightarrow> 'a chan option" where
  "chan_step Start s = (if worker s = WStart then Some (iterate_start s) else None)"
| "chan_step Test s = (if worker s = WTest then Some (iterate_test s) else None)"
| "chan_step Top s = (if worker s = WTop then Some (iterate_top s) else None)"
| "chan_step Resume s = (if worker s = WWoken then Some (iterate_resume s) else None)"
| "chan_step Fill s = (if worker s = WFill then Some (iterate_fill s) else None)"
| "chan_step After s = (if worker s = WAfter then Some (iterate_after s) else None)"
| "chan_step Next s = (if client s = CIdle then Some (getNext s) else None)"
| "chan_step NextResume s = (if client s = CWoken then Some (getNext_finish s) else None)"
| "chan_step Close s = (if client s = CIdle then Some (stopIterating s) else None)"

text \<open>Runs in which the client reads to the end: it closes only when next has returned false.\<close>

inductive chan_reach :: "('a \<times> error) list \<Rightarrow> 'a chan \<Rightarrow> bool" for items where
  init: "chan_reach items (new_chan items)"
| step: "chan_reach items s \<Longrightarrow> e \<noteq> Close \<Longrightarrow> chan_step e s = Some s' \<Longrightarrow> chan_reach items s'"

section \<open>What always holds\<close>

text \<open>Elements go from the iterator through the cache to the client, none twice and none out of order.\<close>

definition chan_safe :: "('a \<times> error) list \<Rightarrow> 'a chan \<Rightarrow> bool" where
  "chan_safe items s \<longleftrightarrow>
     (\<exists>taken. items = taken @ rest s \<and> got s @ cache s = map fst taken \<and>
        (err_occurred (m_error s) \<longrightarrow> (\<exists>a. (a, m_error s) \<in> set taken))) \<and>
     (worker s = WFill \<longrightarrow> \<not> haveNext s)"

lemmas chan_defs = iterate_start_def iterate_test_def iterate_top_def iterate_resume_def iterate_fill_def
  iterate_after_def getNext_def getNext_finish_def stopIterating_def wake_worker_def wake_client_def

lemma no_error [simp]: "\<not> err_occurred NoError"
  by (simp add: err_occurred_def)

lemma chan_safe_init: "chan_safe items (new_chan items)"
  by (simp add: chan_safe_def new_chan_def)

lemma chan_safe_step:
  assumes "chan_safe items s" and "chan_step e s = Some s'"
  shows "chan_safe items s'"
proof -
  obtain taken where t: "items = taken @ rest s" "got s @ cache s = map fst taken"
      "err_occurred (m_error s) \<longrightarrow> (\<exists>a. (a, m_error s) \<in> set taken)" and h: "worker s = WFill \<longrightarrow> \<not> haveNext s"
    using assms(1) by (auto simp: chan_safe_def)
  show ?thesis
  proof (cases "e = Fill \<and> rest s \<noteq> []")
    case True
    then obtain a x r where r: "rest s = (a, x) # r" by (cases "rest s") auto
    have "items = (taken @ [(a, x)]) @ r" "got s @ cache s @ [a] = map fst (taken @ [(a, x)])"
      using t r by simp_all
    with t show ?thesis
      using True assms(2) r t(3) h unfolding chan_safe_def
      by (intro conjI exI[where x = "taken @ [(a, x)]"]) (auto simp: chan_defs Let_def split: if_splits)
  next
    case False
    with assms(2) t h show ?thesis
      by (cases e) (auto simp: chan_safe_def chan_defs split: if_splits list.splits intro!: exI[where x = taken])
  qed
qed

lemma chan_reach_safe: "chan_reach items s \<Longrightarrow> chan_safe items s"
  by (induction rule: chan_reach.induct) (auto intro: chan_safe_init chan_safe_step)

text \<open>Every step lowers a measure, so no run is infinite.\<close>

fun worker_rank :: "'a chan \<Rightarrow> nat" where
  "worker_rank s = (case worker s of
       WStart \<Rightarrow> 10 | WTest \<Rightarrow> if atEnd s then 2 else 8 | WTop \<Rightarrow> 7 | WAsleep \<Rightarrow> 6 | WWoken \<Rightarrow> 5 | WFill \<Rightarrow> 4
     | WAfter \<Rightarrow> if haveNext s then 9 else 3 | WDone \<Rightarrow> 0)"

fun client_rank :: "'a chan \<Rightarrow> nat" where
  "client_rank s = (case client s of CIdle \<Rightarrow> 3 | CAsleep \<Rightarrow> 2 | CWoken \<Rightarrow> 1 | CClosed \<Rightarrow> 0)"

definition chan_measure :: "'a chan \<Rightarrow> nat" where
  "chan_measure s = 9 * length (rest s) + 3 * length (cache s) + worker_rank s + client_rank s"

lemma chan_measure_step:
  assumes "chan_safe items s" and "chan_step e s = Some s'"
  shows "chan_measure s' < chan_measure s"
proof (cases e)
  case Fill
  with assms show ?thesis
    by (cases "rest s") (auto simp: chan_safe_def chan_measure_def chan_defs Let_def split: if_splits)
next
  case Next
  with assms show ?thesis
    by (cases "client s"; cases "worker s"; cases "cache s")
      (auto simp: chan_measure_def chan_defs split: if_splits)
next
  case NextResume
  with assms show ?thesis
    by (cases "client s"; cases "worker s"; cases "cache s")
      (auto simp: chan_measure_def chan_defs split: if_splits)
next
  case Close
  with assms show ?thesis
    by (cases "client s"; cases "worker s") (auto simp: chan_measure_def chan_defs split: if_splits)
next
  case After
  with assms show ?thesis
    by (cases "client s") (auto simp: chan_measure_def chan_defs split: if_splits)
qed (use assms in \<open>auto simp: chan_measure_def chan_defs split: if_splits\<close>)

section \<open>Results that fit into the cache\<close>

text \<open>With no more elements than the cache holds, the worker fills it at most once.\<close>

definition short_inv :: "('a \<times> error) list \<Rightarrow> 'a chan \<Rightarrow> bool" where
  "short_inv items s \<longleftrightarrow> chan_safe items s \<and>
     (haveNext s \<longrightarrow> rest s = []) \<and>
     (worker s = WAfter \<and> \<not> haveNext s \<longrightarrow> rest s = [] \<or> err_occurred (m_error s)) \<and>
     (atEnd s \<longrightarrow> rest s = [] \<or> err_occurred (m_error s)) \<and>
     (worker s = WDone \<longrightarrow> atEnd s) \<and>
     (err_occurred (m_error s) \<longrightarrow> worker s = WAfter \<and> \<not> haveNext s \<or> worker s = WTest \<and> atEnd s \<or> worker s = WDone) \<and>
     (client s = CAsleep \<longrightarrow> worker s \<noteq> WAsleep \<and> worker s \<noteq> WDone \<and> \<not> atEnd s \<and>
        (worker s \<in> {WStart, WTest, WTop} \<longrightarrow> cache s = []) \<and>
        (worker s = WAfter \<and> haveNext s \<longrightarrow> cache s \<noteq> [] \<or> rest s = [])) \<and>
     (client s = CWoken \<longrightarrow> cache s \<noteq> [] \<or> atEnd s \<or> rest s = []) \<and>
     (client s = CClosed \<longrightarrow> err_occurred (m_error s) \<or> cache s = [] \<and> rest s = []) \<and>
     (client s = CClosed \<longrightarrow> worker s \<noteq> WAsleep)"

lemma short_inv_init: "short_inv items (new_chan items)"
  by (simp add: short_inv_def chan_safe_init) (simp add: new_chan_def)

lemma short_cache:
  assumes "chan_safe items s" and "length items \<le> s_cacheSize" and "length (cache s) \<ge> s_cacheSize"
  shows "rest s = []"
proof -
  obtain taken where t: "items = taken @ rest s" "got s @ cache s = map fst taken"
    using assms(1) by (auto simp: chan_safe_def)
  have "length (got s) + length (cache s) + length (rest s) = length items"
    using arg_cong[OF t(2), of length] t(1) by simp
  with assms(2,3) have "length (rest s) = 0" by linarith
  then show ?thesis by simp
qed

text \<open>The three ends of getNext: it waits, closes, or delivers.\<close>

lemma short_sleep:
  assumes "short_inv items s" and "client s = CIdle" and "cache s = []" and "\<not> atEnd s"
  shows "short_inv items ((wake_worker s)\<lparr>client := CAsleep\<rparr>)"
  using assms by (cases "worker s") (auto simp: short_inv_def chan_safe_def wake_worker_def)

lemma short_stop:
  assumes "short_inv items s" and "err_occurred (m_error s) \<or> cache s = [] \<and> rest s = []"
  shows "short_inv items (stopIterating s)"
  using assms by (cases "worker s") (auto simp: short_inv_def chan_safe_def stopIterating_def wake_worker_def)

lemma short_finish:
  assumes "short_inv items s" and "client s = CIdle \<and> (cache s \<noteq> [] \<or> atEnd s) \<or> client s = CWoken"
  shows "short_inv items (getNext_finish s)"
proof (cases "err_occurred (m_error s)")
  case True
  with short_stop[OF assms(1)] show ?thesis by (simp add: getNext_finish_def)
next
  case False
  show ?thesis
  proof (cases "cache s")
    case Nil
    then have "rest s = []" using assms False by (auto simp: short_inv_def)
    with short_stop[OF assms(1)] Nil False show ?thesis by (simp add: getNext_finish_def)
  next
    case (Cons a c)
    with assms(1) False show ?thesis by (simp add: short_inv_def chan_safe_def getNext_finish_def)
  qed
qed

lemma short_inv_step:
  assumes "short_inv items s" and "length items \<le> s_cacheSize" and "e \<noteq> Close" and "chan_step e s = Some s'"
  shows "short_inv items s'"
proof -
  have safe: "chan_safe items s'" using assms(1) chan_safe_step[OF _ assms(4)] by (simp add: short_inv_def)
  have full: "length (cache s') \<ge> s_cacheSize \<longrightarrow> rest s' = []" using short_cache[OF safe assms(2)] by blast
  show ?thesis
  proof (cases e)
    case Fill
    then have s': "s' = iterate_fill s" "worker s = WFill" using assms(4) by (auto split: if_splits)
    have h: "\<not> haveNext s" "\<not> err_occurred (m_error s)"
      using assms(1) s'(2) by (auto simp: short_inv_def chan_safe_def)
    show ?thesis
    proof (cases "rest s")
      case Nil
      then have "s' = s\<lparr>worker := WAfter\<rparr>" using s' by (simp add: iterate_fill_def)
      with assms(1) safe h Nil s'(2) show ?thesis by (simp add: short_inv_def)
    next
      case (Cons b r)
      then obtain a x where "rest s = (a, x) # r" by (cases b) simp
      with assms(1) safe full h s' show ?thesis
        by (cases "err_occurred x"; cases "s_cacheSize \<le> Suc (length (cache s))")
          (simp_all add: short_inv_def iterate_fill_def Let_def)
    qed
  next
    case Next
    then have s': "client s = CIdle" "s' = getNext s" using assms(4) by (auto split: if_splits)
    show ?thesis
    proof (cases "cache s = [] \<and> \<not> atEnd s")
      case True
      with short_sleep[OF assms(1)] s' show ?thesis by (simp add: getNext_def)
    next
      case False
      then have "getNext s = getNext_finish s" by (simp only: getNext_def if_False)
      with short_finish[OF assms(1)] False s' show ?thesis by metis
    qed
  next
    case NextResume
    then have "client s = CWoken" "s' = getNext_finish s" using assms(4) by (auto split: if_splits)
    with short_finish[OF assms(1)] show ?thesis by metis
  next
    case Start
    then have "worker s = WStart" "s' = iterate_start s" using assms(4) by (simp_all split: if_splits)
    with assms(1) safe show ?thesis
      by (cases "client s") (simp_all add: short_inv_def iterate_start_def, blast+)
  next
    case Test
    then have "worker s = WTest" "s' = iterate_test s" using assms(4) by (simp_all split: if_splits)
    with assms(1) safe show ?thesis
      by (cases "client s"; cases "atEnd s") (simp_all add: short_inv_def iterate_test_def split: if_splits)
  next
    case Top
    then have "worker s = WTop" "s' = iterate_top s" using assms(4) by (simp_all split: if_splits)
    with assms(1) safe show ?thesis
      by (cases "client s") (simp_all add: short_inv_def iterate_top_def s_cacheSize_def split: if_splits)
  next
    case Resume
    then have "worker s = WWoken" "s' = iterate_resume s" using assms(4) by (simp_all split: if_splits)
    with assms(1) safe show ?thesis
      by (cases "client s") (simp_all add: short_inv_def iterate_resume_def, blast+)
  next
    case After
    then have "worker s = WAfter" "s' = iterate_after s" using assms(4) by (simp_all split: if_splits)
    with assms(1) safe show ?thesis
      by (cases "client s"; cases "haveNext s") (simp_all add: short_inv_def iterate_after_def wake_client_def split: if_splits)
  qed (use assms(3) in simp)
qed

lemma short_reach: "chan_reach items s \<Longrightarrow> length items \<le> s_cacheSize \<Longrightarrow> short_inv items s"
  by (induction rule: chan_reach.induct) (auto intro: short_inv_init short_inv_step)

section \<open>Properties\<close>

lemma chan_enabled:
  assumes "short_inv items s" and "client s \<noteq> CClosed \<or> worker s \<noteq> WDone"
  shows "\<exists>e s'. e \<noteq> Close \<and> chan_step e s = Some s'"
proof (cases "client s = CIdle \<or> client s = CWoken")
  case True
  then have "chan_step Next s \<noteq> None \<or> chan_step NextResume s \<noteq> None" by auto
  then show ?thesis by fastforce
next
  case False
  then have "worker s \<noteq> WAsleep \<and> worker s \<noteq> WDone"
    using assms by (cases "client s") (auto simp: short_inv_def)
  then obtain e where "e \<in> {Start, Test, Top, Resume, Fill, After}" "chan_step e s \<noteq> None"
    by (cases "worker s") force+
  then show ?thesis by fastforce
qed

text \<open>Claim C26: Whatever the order of steps and the length of the result, the client receives the
  model's elements in their order, each at most once and none invented; elements wait in the cache, and
  an error shown to the client is one of the iterator's. Every step lowers a measure, so neither thread
  works or waits in circles.\<close>

theorem async_iterator_safe:
  assumes "chan_reach items s" and "chan_step e s = Some s'"
  shows "items = take (length items - length (rest s)) items @ rest s \<and>
     got s @ cache s = map fst (take (length items - length (rest s)) items) \<and>
     (err_occurred (m_error s) \<longrightarrow> m_error s \<in> set (map snd items)) \<and>
     chan_measure s' < chan_measure s"
proof -
  obtain taken where "items = taken @ rest s" "got s @ cache s = map fst taken"
      "err_occurred (m_error s) \<longrightarrow> (\<exists>a. (a, m_error s) \<in> set taken)"
    using chan_reach_safe[OF assms(1)] by (auto simp: chan_safe_def)
  moreover from this have "take (length items - length (rest s)) items = taken" by (metis append_eq_conv_conj diff_add_inverse2 length_append)
  ultimately show ?thesis
    using chan_measure_step[OF chan_reach_safe[OF assms(1)] assms(2)] by force
qed

text \<open>Claim C27: A result of at most ten elements, the size of the cache, reaches the client
  completely: as long as the client has not been told the end or the worker has not finished, one of the
  two can take a step, whatever the order of their steps; and when both are done, the client has all
  elements, or the error that ended the iteration.\<close>

theorem async_iterator_complete:
  assumes "chan_reach items s" and "length items \<le> s_cacheSize"
  shows "(if client s = CClosed \<and> worker s = WDone
          then (if err_occurred (m_error s) then m_error s \<in> set (map snd items) else got s = map fst items)
          else (\<exists>e s'. e \<noteq> Close \<and> chan_step e s = Some s' \<and> chan_measure s' < chan_measure s))
     \<and> (client s = CClosed \<longrightarrow> err_occurred (m_error s) \<or> got s = map fst items)"
proof -
  have inv: "short_inv items s" using short_reach[OF assms] .
  obtain taken where t: "items = taken @ rest s" "got s @ cache s = map fst taken"
      "err_occurred (m_error s) \<longrightarrow> (\<exists>a. (a, m_error s) \<in> set taken)"
    using chan_reach_safe[OF assms(1)] by (auto simp: chan_safe_def)
  have closed: "client s = CClosed \<Longrightarrow> \<not> err_occurred (m_error s) \<Longrightarrow> got s = map fst items"
    using inv t by (auto simp: short_inv_def)
  moreover have "err_occurred (m_error s) \<Longrightarrow> m_error s \<in> set (map snd items)" using t by force
  moreover have "\<not> (client s = CClosed \<and> worker s = WDone) \<Longrightarrow>
      \<exists>e s'. e \<noteq> Close \<and> chan_step e s = Some s' \<and> chan_measure s' < chan_measure s"
    using chan_enabled[OF inv] chan_measure_step[OF chan_reach_safe[OF assms(1)]] by (metis (no_types))
  ultimately show ?thesis by auto
qed

text \<open>Runs as sequences of events.\<close>

fun chan_run :: "chan_event list \<Rightarrow> 'a chan \<Rightarrow> 'a chan option" where
  "chan_run [] s = Some s"
| "chan_run (e # es) s = (case chan_step e s of None \<Rightarrow> None | Some s \<Rightarrow> chan_run es s)"

lemma chan_run_reach:
  "chan_reach items s \<Longrightarrow> Close \<notin> set es \<Longrightarrow> chan_run es s = Some s' \<Longrightarrow> chan_reach items s'"
proof (induction es arbitrary: s)
  case (Cons e es)
  then obtain s1 where s1: "chan_step e s = Some s1" "chan_run es s1 = Some s'" by (auto split: option.splits)
  have "e \<noteq> Close" using Cons.prems by auto
  with Cons.prems(1) s1(1) have "chan_reach items s1" by (metis chan_reach.step)
  with Cons s1 show ?case by simp
qed simp

definition two_items :: "(nat \<times> error) list" where "two_items = [(1, NoError), (2, NoError)]"

definition two_events :: "chan_event list" where
  "two_events = [Next, Start, Test, Top, Fill, Fill, Fill, After, NextResume, Next, Test]"

lemma two_items_run: "chan_reach two_items (the (chan_run two_events (new_chan two_items)))"
proof -
  have "chan_run two_events (new_chan two_items) \<noteq> None" by code_simp
  then obtain s where "chan_run two_events (new_chan two_items) = Some s" by auto
  with chan_run_reach[OF chan_reach.init _ this] show ?thesis by (simp only: option.sel) (simp add: two_events_def)
qed

lemma async_iterator_safe_witness:
  "got (the (chan_run two_events (new_chan two_items))) @ cache (the (chan_run two_events (new_chan two_items))) =
     map fst (take 2 two_items)"
proof -
  let ?s = "the (chan_run two_events (new_chan two_items))"
  have "chan_step Next ?s \<noteq> None" by code_simp
  then obtain s' where "chan_step Next ?s = Some s'" by auto
  from async_iterator_safe[OF two_items_run this]
  have "got ?s @ cache ?s = map fst (take (length two_items - length (rest ?s)) two_items)" by blast
  moreover have "length two_items - length (rest ?s) = 2" by code_simp
  ultimately show ?thesis by simp
qed

lemma async_iterator_complete_witness:
  "got (the (chan_run (two_events @ [Next]) (new_chan two_items))) = [1, 2]"
proof -
  let ?s = "the (chan_run (two_events @ [Next]) (new_chan two_items))"
  have "chan_run (two_events @ [Next]) (new_chan two_items) \<noteq> None" by code_simp
  then obtain s where s: "chan_run (two_events @ [Next]) (new_chan two_items) = Some s" by auto
  have r: "chan_reach two_items s" by (rule chan_run_reach[OF chan_reach.init _ s]) (simp add: two_events_def)
  have "client ?s = CClosed" "\<not> err_occurred (m_error ?s)" by code_simp+
  with async_iterator_complete[OF r] s show ?thesis by (simp add: two_items_def s_cacheSize_def)
qed

section \<open>Longer results\<close>

text \<open>With one element more the client can miss it: the worker leaves its inner loop with a full cache
  and releases the mutex; the client takes all ten elements, finds the cache empty and waits; the worker
  wakes it for the elements that are gone already, and the client, which tests the cache only once after
  waiting, takes that for the end.\<close>

definition race :: "chan_event list" where
  "race = [Start, Test, Top] @ replicate 10 Fill @ replicate 11 Next @ [After, NextResume]"

lemma race_loses_elements:
  "map_option (\<lambda>s. (client s = CClosed, length (got s), map fst (rest s), err_occurred (m_error s)))
     (chan_run race (new_chan (map (\<lambda>i. (i, NoError)) [0..<11]))) = Some (True, 10, [10 :: nat], False)"
  by code_simp

text \<open>A client that closes the iterator early leaves the worker asleep for ever when more elements follow:
  the woken worker puts one more into the full cache, overwrites the request to stop and waits again.
  The iterator of the model is never closed.\<close>

definition early_close :: "chan_event list" where
  "early_close = [Start, Test, Top] @ replicate 10 Fill @ [After, Test, Top, Close, Resume, Fill, After, Test, Top]"

lemma early_close_leaks_worker:
  "case chan_run early_close (new_chan (map (\<lambda>i. (i, NoError)) [0..<12])) of
     None \<Rightarrow> False
   | Some s \<Rightarrow> worker s = WAsleep \<and> client s = CClosed \<and>
       list_all (\<lambda>e. chan_step e s = None) [Start, Test, Top, Resume, Fill, After, Next, NextResume, Close]"
  by code_simp

end
