(* ===== verification/Result_Iterator.thy ===== *)
theory Result_Iterator
  imports Rdf_Node Binding_Set Soprano_Error
begin

text \<open>
  Result iterators (soprano/iterator.h): the front a caller holds and the backends behind it. A backend
  is a record of functions over a state of its own; \<open>None\<close> is a call that does not come back. The front
  keeps a backend, or none when it is invalid, and its own last error.

  The locale \<open>delivers\<close> is the contract of a backend that delivers a list: the lists kept in memory
  (soprano/util/simplestatementiterator.cpp, simplenodeiterator.cpp) interpret it, and every adapter of
  statementiterator.cpp and queryresultiterator.cpp passes it on from the iterator it wraps.
\<close>

section \<open>Backends and fronts\<close>

record ('b, 'a) backend =
  b_next :: "'b \<Rightarrow> (bool \<times> 'b) option"
  b_current :: "'b \<Rightarrow> ('a \<times> 'b) option"
  b_close :: "'b \<Rightarrow> 'b option"
  b_error :: "'b \<Rightarrow> error"

type_synonym 'b front = "'b option \<times> error"

definition new_iterator :: "'b \<Rightarrow> 'b front" where "new_iterator b = (Some b, NoError)"
definition invalid_iterator :: "'b front" where "invalid_iterator = (None, NoError)"

definition it_isValid :: "'b front \<Rightarrow> bool" where "it_isValid it \<longleftrightarrow> fst it \<noteq> None"

definition invalid_iterator_error :: error where
  "invalid_iterator_error = mk_error ''Invalid iterator.'' (error_code_num ErrorUnknown)"

definition kept :: "error \<Rightarrow> error" where
  "kept e = (if err_occurred e then e else NoError)"

definition it_close :: "('b, 'a) backend \<Rightarrow> 'b front \<Rightarrow> 'b front option" where
  "it_close B it = (case fst it of
       None \<Rightarrow> Some it
     | Some b \<Rightarrow> map_option (\<lambda>b. (Some b, kept (b_error B b))) (b_close B b))"

text \<open>The end closes the backend. The error is the one next left.\<close>

definition it_next :: "('b, 'a) backend \<Rightarrow> 'b front \<Rightarrow> (bool \<times> 'b front) option" where
  "it_next B it = (case fst it of
       None \<Rightarrow> Some (False, (None, invalid_iterator_error))
     | Some b \<Rightarrow> (case b_next B b of
         None \<Rightarrow> None
       | Some (hasNext, b) \<Rightarrow>
           if hasNext then Some (True, (Some b, kept (b_error B b)))
           else map_option (\<lambda>c. (False, (Some c, kept (b_error B b)))) (b_close B b)))"

definition it_current :: "('b, 'a) backend \<Rightarrow> 'a \<Rightarrow> 'b front \<Rightarrow> ('a \<times> 'b front) option" where
  "it_current B none it = (case fst it of
       None \<Rightarrow> Some (none, (None, invalid_iterator_error))
     | Some b \<Rightarrow> map_option (\<lambda>(x, b). (x, (Some b, kept (b_error B b)))) (b_current B b))"

text \<open>The loop of allElements; a backend may have no end.\<close>

partial_function (option) read_all :: "('b, 'a) backend \<Rightarrow> 'a \<Rightarrow> 'b front \<Rightarrow> ('a list \<times> 'b front) option" where
  "read_all B none it = (case it_next B it of
       None \<Rightarrow> None
     | Some (hasNext, it) \<Rightarrow>
         if \<not> hasNext then Some ([], it)
         else (case it_current B none it of
             None \<Rightarrow> None
           | Some (x, it) \<Rightarrow> Option.bind (read_all B none it) (\<lambda>(xs, it). Some (x # xs, it))))"

definition allElements :: "('b, 'a) backend \<Rightarrow> 'a \<Rightarrow> 'b front \<Rightarrow> ('a list \<times> 'b front) option" where
  "allElements B none it =
     (if it_isValid it then
        (case read_all B none it of
           None \<Rightarrow> None
         | Some (xs, it) \<Rightarrow> map_option (\<lambda>it. (xs, it)) (it_close B it))
      else Some ([], it))"

section \<open>The contract of a backend that delivers a list\<close>

text \<open>\<open>at b h xs\<close>: the current element is \<open>h\<close> and \<open>xs\<close> are to come. After the end the backend may be
  closed, and closed again.\<close>

locale delivers =
  fixes B :: "('b, 'a) backend"
    and at :: "'b \<Rightarrow> 'a option \<Rightarrow> 'a list \<Rightarrow> bool"
    and ended :: "'b \<Rightarrow> bool"
    and closed :: "'b \<Rightarrow> bool"
  assumes more: "at b h (x # xs) \<Longrightarrow> \<exists>b'. b_next B b = Some (True, b') \<and> at b' (Some x) xs"
    and last: "at b h [] \<Longrightarrow> \<exists>b'. b_next B b = Some (False, b') \<and> ended b'"
    and here: "at b (Some x) xs \<Longrightarrow> \<exists>b'. b_current B b = Some (x, b') \<and> at b' (Some x) xs"
    and close_ended: "ended b \<Longrightarrow> \<exists>b'. b_close B b = Some b' \<and> closed b'"
    and close_closed: "closed b \<Longrightarrow> \<exists>b'. b_close B b = Some b' \<and> closed b'"
begin

lemma front_more: "at b h (x # xs) \<Longrightarrow> \<exists>b' e'. it_next B (Some b, e) = Some (True, (Some b', e')) \<and> at b' (Some x) xs"
  using more[of b h x xs] by (auto simp: it_next_def)

lemma front_last: "at b h [] \<Longrightarrow> \<exists>b' e'. it_next B (Some b, e) = Some (False, (Some b', e')) \<and> closed b'"
  using last[of b h] close_ended by (fastforce simp: it_next_def)

lemma front_here: "at b (Some x) xs \<Longrightarrow> \<exists>b' e'. it_current B d (Some b, e) = Some (x, (Some b', e')) \<and> at b' (Some x) xs"
  using here[of b x xs] by (auto simp: it_current_def)

lemma front_close: "closed b \<Longrightarrow> \<exists>b' e'. it_close B (Some b, e) = Some (Some b', e') \<and> closed b'"
  using close_closed[of b] by (auto simp: it_close_def)

lemma read_all_list: "at b h xs \<Longrightarrow> \<exists>b' e'. read_all B d (Some b, e) = Some (xs, (Some b', e')) \<and> closed b'"
proof (induction xs arbitrary: b h e)
  case Nil
  then show ?case using front_last[of b h e] by (subst read_all.simps) auto
next
  case (Cons x xs)
  obtain b1 e1 where 1: "it_next B (Some b, e) = Some (True, (Some b1, e1))" "at b1 (Some x) xs"
    using front_more[OF Cons.prems, of e] by blast
  obtain b2 e2 where 2: "it_current B d (Some b1, e1) = Some (x, (Some b2, e2))" "at b2 (Some x) xs"
    using front_here[OF 1(2)] by blast
  obtain b3 e3 where 3: "read_all B d (Some b2, e2) = Some (xs, (Some b3, e3))" "closed b3"
    using Cons.IH[OF 2(2)] by blast
  show ?case by (subst read_all.simps) (simp add: 1(1) 2(1) 3)
qed

lemma all_elements: "at b h xs \<Longrightarrow> \<exists>b' e'. allElements B d (Some b, e) = Some (xs, (Some b', e')) \<and> closed b'"
proof -
  assume "at b h xs"
  then obtain b1 e1 where 1: "read_all B d (Some b, e) = Some (xs, (Some b1, e1))" "closed b1"
    using read_all_list by blast
  show ?thesis using 1(1) front_close[OF 1(2), of e1] by (auto simp: allElements_def it_isValid_def)
qed

end

section \<open>Lists in memory\<close>

text \<open>The iterators of util over a list: a position in the list, and whether next was called.\<close>

record 'a simple =
  elements :: "'a list"
  position :: nat
  first :: bool

definition simple_of :: "'a list \<Rightarrow> 'a simple" where
  "simple_of xs = \<lparr> elements = xs, position = 0, first = True \<rparr>"

definition simple_next :: "'a simple \<Rightarrow> bool \<times> 'a simple" where
  "simple_next b =
     (let p = (if \<not> first b \<and> position b \<noteq> length (elements b) then position b + 1 else position b)
      in (p \<noteq> length (elements b), b\<lparr>position := p, first := False\<rparr>))"

definition simple_current :: "'a \<Rightarrow> 'a simple \<Rightarrow> 'a" where
  "simple_current none b = (if position b \<noteq> length (elements b) then elements b ! position b else none)"

definition simple_backend :: "'a \<Rightarrow> ('a simple, 'a) backend" where
  "simple_backend none = \<lparr>
     b_next = (\<lambda>b. Some (simple_next b)),
     b_current = (\<lambda>b. Some (simple_current none b, b)),
     b_close = Some,
     b_error = (\<lambda>_. NoError) \<rparr>"

definition simple_at :: "'a simple \<Rightarrow> 'a option \<Rightarrow> 'a list \<Rightarrow> bool" where
  "simple_at b h xs \<longleftrightarrow>
     (if first b then position b = 0 \<and> h = None \<and> xs = elements b
      else position b < length (elements b) \<and> h = Some (elements b ! position b) \<and>
           xs = drop (Suc (position b)) (elements b))"

lemma simple_at_of: "simple_at (simple_of xs) None xs"
  by (simp add: simple_at_def simple_of_def)

interpretation simple: delivers "simple_backend none" simple_at "\<lambda>_. True" "\<lambda>_. True" for none
proof
  fix b :: "'a simple" and h x xs
  assume at: "simple_at b h (x # xs)"
  show "\<exists>b'. b_next (simple_backend none) b = Some (True, b') \<and> simple_at b' (Some x) xs"
  proof (cases "first b")
    case True
    then show ?thesis
      using at by (cases "elements b") (auto simp: simple_at_def simple_backend_def simple_next_def)
  next
    case False
    then have d: "drop (Suc (position b)) (elements b) = x # xs" using at by (simp add: simple_at_def)
    then have "Suc (position b) < length (elements b)" by (metis drop_all list.distinct(1) not_le_imp_less)
    then show ?thesis
      using False d at Cons_nth_drop_Suc[of "Suc (position b)" "elements b"]
      by (auto simp: simple_at_def simple_backend_def simple_next_def)
  qed
next
  fix b :: "'a simple" and h
  assume "simple_at b h []"
  then show "\<exists>b'. b_next (simple_backend none) b = Some (False, b') \<and> True"
    by (auto simp: simple_at_def simple_backend_def simple_next_def split: if_splits)
next
  fix b :: "'a simple" and x xs
  assume "simple_at b (Some x) xs"
  then show "\<exists>b'. b_current (simple_backend none) b = Some (x, b') \<and> simple_at b' (Some x) xs"
    by (auto simp: simple_at_def simple_backend_def simple_current_def split: if_splits)
qed (simp_all add: simple_backend_def)

section \<open>Adapters\<close>

text \<open>An adapter is a backend whose state is the front it wraps.\<close>

definition adapted :: "('b, 'a) backend \<Rightarrow> ('b front \<Rightarrow> ('c \<times> 'b front) option) \<Rightarrow> ('b front, 'c) backend" where
  "adapted B cur = \<lparr> b_next = it_next B, b_current = cur, b_close = it_close B, b_error = snd \<rparr>"

datatype which = SUBJECT | PREDICATE | OBJECT | CONTEXT

fun part_of :: "which \<Rightarrow> statement \<Rightarrow> node" where
  "part_of SUBJECT s = subject s"
| "part_of PREDICATE s = predicate s"
| "part_of OBJECT s = object s"
| "part_of CONTEXT s = context_node s"

definition statement_nodes :: "('b, statement) backend \<Rightarrow> which \<Rightarrow> ('b front, node) backend" where
  "statement_nodes B w = adapted B (\<lambda>it. map_option (\<lambda>(s, it). (part_of w s, it)) (it_current B empty_statement it))"

definition iterate_part :: "'b front \<Rightarrow> 'b front front" where
  "iterate_part it = new_iterator it"

text \<open>A query result asks its backend directly: the error of the front stays. Backends answer a binding
  from their current row.\<close>

definition q_current :: "('b, binding_set) backend \<Rightarrow> (binding_set \<Rightarrow> 'c) \<Rightarrow> 'c \<Rightarrow> 'b front \<Rightarrow> ('c \<times> 'b front) option" where
  "q_current B f none it = (case fst it of
       None \<Rightarrow> Some (none, it)
     | Some b \<Rightarrow> map_option (\<lambda>(x, b). (f x, (Some b, snd it))) (b_current B b))"

definition bindings_by_name :: "('b, binding_set) backend \<Rightarrow> qstring \<Rightarrow> ('b front, node) backend" where
  "bindings_by_name B name = adapted B (q_current B (\<lambda>r. value_of r name) EmptyNode)"

definition bindings_by_offset :: "('b, binding_set) backend \<Rightarrow> int \<Rightarrow> ('b front, node) backend" where
  "bindings_by_offset B offset =
     (if offset \<noteq> - 1 then adapted B (q_current B (\<lambda>r. value_at r offset) EmptyNode)
      else bindings_by_name B [])"

definition fill_template :: "qstring \<Rightarrow> qstring \<Rightarrow> qstring \<Rightarrow> qstring \<Rightarrow> statement \<Rightarrow> binding_set \<Rightarrow> statement" where
  "fill_template sb pb ob cb s r =
     (let s = (if cb \<noteq> [] then setContext (value_of r cb) s else s);
          s = (if sb \<noteq> [] then setSubject (value_of r sb) s else s);
          s = (if pb \<noteq> [] then setPredicate (value_of r pb) s else s)
      in if ob \<noteq> [] then setObject (value_of r ob) s else s)"

definition constructed :: "('b, binding_set) backend \<Rightarrow> statement \<Rightarrow> qstring \<Rightarrow> qstring \<Rightarrow> qstring \<Rightarrow> qstring \<Rightarrow> ('b front, statement) backend" where
  "constructed B t sb pb ob cb =
     adapted B (q_current B (fill_template sb pb ob cb t) (fill_template sb pb ob cb t empty_bindings))"

text \<open>The query result iterators wrap a valid iterator only.\<close>

definition iterate_result :: "'b front \<Rightarrow> 'b front front" where
  "iterate_result it = (if it_isValid it then new_iterator it else invalid_iterator)"

section \<open>Adapters keep the contract\<close>

definition adapted_at :: "('b \<Rightarrow> 'a option \<Rightarrow> 'a list \<Rightarrow> bool) \<Rightarrow> ('a \<Rightarrow> 'c) \<Rightarrow> 'b front \<Rightarrow> 'c option \<Rightarrow> 'c list \<Rightarrow> bool" where
  "adapted_at at f it h ys \<longleftrightarrow>
     (\<exists>b k xs. fst it = Some b \<and> at b k xs \<and> h = map_option f k \<and> ys = map f xs)"

definition front_closed :: "('b \<Rightarrow> bool) \<Rightarrow> 'b front \<Rightarrow> bool" where
  "front_closed closed it \<longleftrightarrow> (\<exists>b. fst it = Some b \<and> closed b)"

lemma adapted_at_new: "at b h xs \<Longrightarrow> adapted_at at f (Some b, e) (map_option f h) (map f xs)"
  unfolding adapted_at_def by (intro exI conjI) simp_all

lemma adapted_atI: "at b (Some x) xs \<Longrightarrow> adapted_at at f (Some b, e) (Some (f x)) (map f xs)"
  using adapted_at_new[where at = at and h = "Some x"] by simp

lemma adapter:
  assumes D: "delivers B at ended closed"
    and cur: "\<And>b b' x e. b_current B b = Some (x, b') \<Longrightarrow> \<exists>e'. cur (Some b, e) = Some (f x, (Some b', e'))"
  shows "delivers (adapted B cur) (adapted_at at f) (front_closed closed) (front_closed closed)"
proof -
  have close: "front_closed closed it \<Longrightarrow> \<exists>it'. b_close (adapted B cur) it = Some it' \<and> front_closed closed it'" for it
    using delivers.front_close[OF D, of "the (fst it)" "snd it"]
    by (cases it) (fastforce simp: adapted_def front_closed_def)
  show ?thesis
proof (unfold_locales, goal_cases)
  case (1 it h y ys)
  then obtain b k x xs where "fst it = Some b" "at b k (x # xs)" "y = f x" "ys = map f xs"
    by (auto simp: adapted_at_def Cons_eq_map_conv)
  then show ?case
    using delivers.front_more[OF D, of b k x xs "snd it"]
    by (cases it) (auto simp: adapted_def intro!: adapted_atI)
next
  case (2 it h)
  then obtain b k where "fst it = Some b" "at b k []" by (auto simp: adapted_at_def)
  then show ?case
    using delivers.front_last[OF D, of b k "snd it"]
    by (cases it) (auto simp: adapted_def front_closed_def)
next
  case (3 it y ys)
  then obtain b k xs where "fst it = Some b" "at b k xs" "Some y = map_option f k" "ys = map f xs"
    unfolding adapted_at_def by blast
  then obtain x where b: "fst it = Some b" "at b (Some x) xs" "y = f x" "ys = map f xs"
    by (cases k) auto
  then obtain b' where "b_current B b = Some (x, b')" "at b' (Some x) xs"
    using delivers.here[OF D] by blast
  then show ?case
    using b cur[of b x b' "snd it"] by (cases it) (auto simp: adapted_def intro!: adapted_atI)
qed (rule close, assumption)+
qed


lemma q_current_some:
  "b_current B b = Some (x, b') \<Longrightarrow> \<exists>e'. q_current B f d (Some b, e) = Some (f x, (Some b', e'))"
  by (simp add: q_current_def)

lemma statement_nodes_delivers:
  assumes D: "delivers B at ended closed"
  shows "delivers (statement_nodes B w) (adapted_at at (part_of w)) (front_closed closed) (front_closed closed)"
  unfolding statement_nodes_def by (rule adapter[OF D]) (auto simp: it_current_def)

lemma query_adapter:
  assumes D: "delivers B at ended closed"
  shows "delivers (adapted B (q_current B f d)) (adapted_at at f) (front_closed closed) (front_closed closed)"
  by (rule adapter[OF D]) (rule q_current_some)

lemma adapter_all:
  assumes D: "delivers C (adapted_at at f) (front_closed closed) (front_closed closed)" and a: "at b h xs"
  shows "\<exists>b' e1 e2. allElements C d (new_iterator (Some b, e)) = Some (map f xs, (Some (Some b', e1), e2)) \<and> closed b'"
  using delivers.all_elements[OF D adapted_at_new[where at = at, OF a], of d e NoError]
  by (fastforce simp: new_iterator_def front_closed_def)

text \<open>Claim C31: reading an adapter to its end gives what it derives from every element of the iterator it wraps,
  in order: the chosen part of each statement, a column of a result by name or number, the statements
  built from a template and the bindings of each row; and the wrapped backend is closed.\<close>

theorem adapters_deliver:
  assumes "delivers B at ended closed" "at b h sts" "delivers Q qat qended qclosed" "qat r k rows" "offset \<noteq> - 1"
  shows "(\<exists>b' e1 e2. allElements (statement_nodes B w) EmptyNode (iterate_part (Some b, e))
             = Some (map (part_of w) sts, (Some (Some b', e1), e2)) \<and> closed b')
       \<and> (\<exists>r' e1 e2. allElements (bindings_by_name Q name) EmptyNode (iterate_result (Some r, e))
             = Some (map (\<lambda>x. value_of x name) rows, (Some (Some r', e1), e2)) \<and> qclosed r')
       \<and> (\<exists>r' e1 e2. allElements (bindings_by_offset Q offset) EmptyNode (iterate_result (Some r, e))
             = Some (map (\<lambda>x. value_at x offset) rows, (Some (Some r', e1), e2)) \<and> qclosed r')
       \<and> (\<exists>r' e1 e2. allElements (constructed Q t sb pb ob cb) empty_statement (iterate_result (Some r, e))
             = Some (map (fill_template sb pb ob cb t) rows, (Some (Some r', e1), e2)) \<and> qclosed r')"
proof -
  have v: "iterate_result (Some r, e) = new_iterator (Some r, e)" by (simp add: iterate_result_def it_isValid_def)
  note st = adapter_all[OF statement_nodes_delivers[OF assms(1)] assms(2)]
  note rows = adapter_all[OF query_adapter[OF assms(3)] assms(4)]
  show ?thesis
    unfolding v iterate_part_def bindings_by_name_def bindings_by_offset_def if_P[OF assms(5)] constructed_def
    by (intro conjI st rows)
qed

theorem adapters_deliver_witness:
  "\<exists>b' e1 e2. allElements (statement_nodes (simple_backend empty_statement) OBJECT) EmptyNode
       (iterate_part (Some (simple_of [mk_statement EmptyNode EmptyNode (BlankNode ''x'') EmptyNode]), NoError))
     = Some ([BlankNode ''x''], (Some (Some b', e1), e2))"
  using adapters_deliver[OF simple.delivers_axioms simple_at_of simple.delivers_axioms simple_at_of[of "[]"], where offset = 0
      and e = NoError and w = OBJECT and sts = "[mk_statement EmptyNode EmptyNode (BlankNode ''x'') EmptyNode]"]
  by (auto simp: mk_statement_def)

end
