(* ===== verification/Soprano_Types.thy ===== *)
theory Soprano_Types
  imports Soprano_Prelude
begin

text \<open>
  The names of serializations and query languages (soprano/sopranotypes.cpp, sopranotypes.h). An enumeration is its
  numbers, for they travel over the wire and are combined to flags.
\<close>

section \<open>Serializations\<close>

text \<open>The unknown and the user-defined serialization share the number 0.\<close>

definition SERIALIZATION_UNKNOWN :: int where "SERIALIZATION_UNKNOWN = 0"
definition SERIALIZATION_RDFXML :: int where "SERIALIZATION_RDFXML = 1"
definition SERIALIZATION_N3 :: int where "SERIALIZATION_N3 = 2"
definition SERIALIZATION_NTRIPLES :: int where "SERIALIZATION_NTRIPLES = 4"
definition SERIALIZATION_TURTLE :: int where "SERIALIZATION_TURTLE = 8"
definition SERIALIZATION_TRIG :: int where "SERIALIZATION_TRIG = 16"
definition SERIALIZATION_NQUADS :: int where "SERIALIZATION_NQUADS = 32"

lemmas serialization_codes = SERIALIZATION_UNKNOWN_def SERIALIZATION_RDFXML_def SERIALIZATION_N3_def SERIALIZATION_NTRIPLES_def
  SERIALIZATION_TURTLE_def SERIALIZATION_TRIG_def SERIALIZATION_NQUADS_def

definition known_serializations :: "int list" where
  "known_serializations = [SERIALIZATION_RDFXML, SERIALIZATION_N3, SERIALIZATION_NTRIPLES, SERIALIZATION_TURTLE,
     SERIALIZATION_TRIG, SERIALIZATION_NQUADS]"

definition serializationMimeType :: "int \<Rightarrow> qstring \<Rightarrow> qstring" where
  "serializationMimeType s user =
     (if s = SERIALIZATION_RDFXML then ''application/rdf+xml''
      else if s = SERIALIZATION_N3 then ''text/rdf+n3''
      else if s = SERIALIZATION_NTRIPLES then ''application/n-triples''
      else if s = SERIALIZATION_TURTLE then ''application/x-turtle''
      else if s = SERIALIZATION_TRIG then ''application/x-trig''
      else if s = SERIALIZATION_NQUADS then ''application/x-nquads''
      else if s = SERIALIZATION_UNKNOWN then user
      else [])"

definition mimeTypeToSerialization :: "qstring \<Rightarrow> int" where
  "mimeTypeToSerialization m =
     (if m = ''application/rdf+xml'' \<or> m = ''text/rdf'' \<or> toLower m = ''rdf+xml'' \<or> toLower m = ''rdfxml'' then SERIALIZATION_RDFXML
      else if m = ''application/rdf+n3'' \<or> m = ''text/rdf+n3'' \<or> m = ''text/n3'' \<or> toLower m = ''n3'' then SERIALIZATION_N3
      else if m = ''application/n-triples'' \<or> toLower m = ''ntriples'' \<or> toLower m = ''n-triples'' then SERIALIZATION_NTRIPLES
      else if m = ''application/x-turtle'' \<or> m = ''application/turtle'' \<or> toLower m = ''turtle'' then SERIALIZATION_TURTLE
      else if m = ''application/x-trig'' \<or> m = ''application/trig'' \<or> toLower m = ''trig'' then SERIALIZATION_TRIG
      else if m = ''application/x-nquads'' \<or> toLower m = ''nquads'' \<or> toLower m = ''n-quads'' then SERIALIZATION_NQUADS
      else SERIALIZATION_UNKNOWN)"

lemma mime_type_roundtrip: "list_all (\<lambda>s. mimeTypeToSerialization (serializationMimeType s user) = s) known_serializations"
proof -
  have "serializationMimeType s user = serializationMimeType s []" if "s \<noteq> SERIALIZATION_UNKNOWN" for s
    using that by (simp add: serializationMimeType_def)
  moreover have "list_all (\<lambda>s. mimeTypeToSerialization (serializationMimeType s []) = s) known_serializations" by code_simp
  ultimately show ?thesis by (simp add: known_serializations_def serialization_codes)
qed

section \<open>Query languages\<close>

text \<open>The query language travels as its number and the name of a user-defined one.\<close>

definition queryLanguageToString :: "u16 \<Rightarrow> qstring \<Rightarrow> qstring" where
  "queryLanguageToString lang user =
     (if lang = 0 then ''none'' else if lang = 1 then ''SPARQL'' else if lang = 2 then ''RDQL''
      else if lang = 4 then ''SERQL'' else if lang = 8 then ''SPARQL_NO_INFERENCE'' else user)"

definition queryLanguageFromString :: "qstring \<Rightarrow> u16" where
  "queryLanguageFromString s =
     (let ql = toUpper s in
      if ql = ''SPARQL'' then 1 else if ql = ''RDQL'' then 2 else if ql = ''SERQL'' then 4
      else if ql = ''SPARQL_NO_INFERENCE'' then 8 else 0x1000)"

lemma query_language_roundtrip:
  "lang \<in> {1, 2, 4, 8} \<Longrightarrow> queryLanguageFromString (queryLanguageToString lang user) = lang"
proof -
  have "queryLanguageFromString ''SPARQL'' = 1" "queryLanguageFromString ''RDQL'' = 2" "queryLanguageFromString ''SERQL'' = 4"
    "queryLanguageFromString ''SPARQL_NO_INFERENCE'' = 8" by code_simp+
  then show "lang \<in> {1, 2, 4, 8} \<Longrightarrow> ?thesis" by (auto simp: queryLanguageToString_def)
qed

text \<open>No language is read as one of the user.\<close>

lemma no_language_is_user: "queryLanguageFromString (queryLanguageToString 0 user) = 0x1000"
  by (simp add: queryLanguageToString_def) code_simp

end
