(* ===== verification/Server_Protocol.thy ===== *)
theory Server_Protocol
  imports Data_Stream Model_Stack Soprano_Types
begin

text \<open>
  The server's side of a connection (soprano/server: serverconnection.cpp, modelpool.cpp and the models
  of servercore.cpp). A connection reads a command from the bytes that arrived, carries it out and
  answers; a handler maps the bytes behind the command code and the server's state to the reply, the
  bytes it left unread and the new state. \<open>None\<close> is a thread that does not come back: the search for
  an unused random number.

  The storage backend is outside the server: all its models are one record of functions over stores,
  one store for each name. An open iterator is what it has still to deliver and its current element.
\<close>

section \<open>Commands\<close>

definition PROTOCOL_VERSION :: u32 where "PROTOCOL_VERSION = 5"

definition COMMAND_CREATE_MODEL :: u16 where "COMMAND_CREATE_MODEL = 0x1"
definition COMMAND_MODEL_ADD_STATEMENT :: u16 where "COMMAND_MODEL_ADD_STATEMENT = 0x2"
definition COMMAND_MODEL_REMOVE_STATEMENT :: u16 where "COMMAND_MODEL_REMOVE_STATEMENT = 0x3"
definition COMMAND_MODEL_REMOVE_ALL_STATEMENTS :: u16 where "COMMAND_MODEL_REMOVE_ALL_STATEMENTS = 0x4"
definition COMMAND_MODEL_LIST_STATEMENTS :: u16 where "COMMAND_MODEL_LIST_STATEMENTS = 0x5"
definition COMMAND_MODEL_CONTAINS_STATEMENT :: u16 where "COMMAND_MODEL_CONTAINS_STATEMENT = 0x6"
definition COMMAND_MODEL_CONTAINS_ANY_STATEMENT :: u16 where "COMMAND_MODEL_CONTAINS_ANY_STATEMENT = 0x7"
definition COMMAND_MODEL_LIST_CONTEXTS :: u16 where "COMMAND_MODEL_LIST_CONTEXTS = 0x8"
definition COMMAND_MODEL_STATEMENT_COUNT :: u16 where "COMMAND_MODEL_STATEMENT_COUNT = 0x9"
definition COMMAND_MODEL_IS_EMPTY :: u16 where "COMMAND_MODEL_IS_EMPTY = 0x10"
definition COMMAND_MODEL_QUERY :: u16 where "COMMAND_MODEL_QUERY = 0x11"
definition COMMAND_ITERATOR_NEXT :: u16 where "COMMAND_ITERATOR_NEXT = 0x12"
definition COMMAND_ITERATOR_CURRENT_STATEMENT :: u16 where "COMMAND_ITERATOR_CURRENT_STATEMENT = 0x13"
definition COMMAND_ITERATOR_CURRENT_NODE :: u16 where "COMMAND_ITERATOR_CURRENT_NODE = 0x14"
definition COMMAND_ITERATOR_CURRENT_BINDINGSET :: u16 where "COMMAND_ITERATOR_CURRENT_BINDINGSET = 0x15"
definition COMMAND_ITERATOR_CLOSE :: u16 where "COMMAND_ITERATOR_CLOSE = 0x16"
definition COMMAND_ITERATOR_QUERY_TYPE :: u16 where "COMMAND_ITERATOR_QUERY_TYPE = 0x17"
definition COMMAND_ITERATOR_QUERY_BOOL_VALUE :: u16 where "COMMAND_ITERATOR_QUERY_BOOL_VALUE = 0x18"
definition COMMAND_SUPPORTED_FEATURES :: u16 where "COMMAND_SUPPORTED_FEATURES = 0x19"
definition COMMAND_SUPPORTS_PROTOCOL_VERSION :: u16 where "COMMAND_SUPPORTS_PROTOCOL_VERSION = 0x20"
definition COMMAND_MODEL_CREATE_BLANK_NODE :: u16 where "COMMAND_MODEL_CREATE_BLANK_NODE = 0x21"
definition COMMAND_REMOVE_MODEL :: u16 where "COMMAND_REMOVE_MODEL = 0x22"

lemmas command_codes = COMMAND_CREATE_MODEL_def COMMAND_MODEL_ADD_STATEMENT_def COMMAND_MODEL_REMOVE_STATEMENT_def
  COMMAND_MODEL_REMOVE_ALL_STATEMENTS_def COMMAND_MODEL_LIST_STATEMENTS_def COMMAND_MODEL_CONTAINS_STATEMENT_def
  COMMAND_MODEL_CONTAINS_ANY_STATEMENT_def COMMAND_MODEL_LIST_CONTEXTS_def COMMAND_MODEL_STATEMENT_COUNT_def
  COMMAND_MODEL_IS_EMPTY_def COMMAND_MODEL_QUERY_def COMMAND_ITERATOR_NEXT_def COMMAND_ITERATOR_CURRENT_STATEMENT_def
  COMMAND_ITERATOR_CURRENT_NODE_def COMMAND_ITERATOR_CURRENT_BINDINGSET_def COMMAND_ITERATOR_CLOSE_def
  COMMAND_ITERATOR_QUERY_TYPE_def COMMAND_ITERATOR_QUERY_BOOL_VALUE_def COMMAND_SUPPORTED_FEATURES_def
  COMMAND_SUPPORTS_PROTOCOL_VERSION_def COMMAND_MODEL_CREATE_BLANK_NODE_def COMMAND_REMOVE_MODEL_def

section \<open>State\<close>

record 'a cursor =
  upcoming :: "'a list"
  here :: "'a option"

definition open_cursor :: "'a list \<Rightarrow> 'a cursor" where
  "open_cursor xs = \<lparr> upcoming = xs, here = None \<rparr>"

definition cursor_next :: "'a cursor \<Rightarrow> bool \<times> 'a cursor" where
  "cursor_next c = (case upcoming c of
       [] \<Rightarrow> (False, c\<lparr>here := None\<rparr>)
     | x # xs \<Rightarrow> (True, \<lparr> upcoming = xs, here = Some x \<rparr>))"

definition cursor_current :: "'a \<Rightarrow> 'a cursor \<Rightarrow> 'a" where
  "cursor_current d c = (case here c of None \<Rightarrow> d | Some x \<Rightarrow> x)"

text \<open>What the backend provides: the functions of its models, the names it creates models for, the
  contents of a new model, its features.\<close>

record 's core =
  backend_model :: "'s model"
  creatable :: "qstring \<Rightarrow> bool"
  new_store :: 's
  features :: "u32 option"

record 's server =
  core :: "'s core"
  modelIdMap :: "u32 \<rightharpoonup> qstring"
  modelNameMap :: "qstring \<rightharpoonup> u32"
  stores :: "qstring \<Rightarrow> 's"
  randoms :: "u32 list"
  openStatementIterators :: "u32 \<rightharpoonup> statement cursor"
  openNodeIterators :: "u32 \<rightharpoonup> node cursor"
  openQueryIterators :: "u32 \<rightharpoonup> binding_set cursor"
  conn_closed :: bool

definition new_server :: "'s core \<Rightarrow> u32 list \<Rightarrow> 's server" where
  "new_server k rs = \<lparr> core = k, modelIdMap = Map.empty, modelNameMap = Map.empty, stores = (\<lambda>_. new_store k),
     randoms = rs, openStatementIterators = Map.empty, openNodeIterators = Map.empty,
     openQueryIterators = Map.empty, conn_closed = False \<rparr>"

text \<open>The loop of generateUniqueId, over the random numbers to come.\<close>

fun fresh_id :: "(u32 \<Rightarrow> bool) \<Rightarrow> u32 list \<Rightarrow> (u32 \<times> u32 list) option" where
  "fresh_id used [] = None"
| "fresh_id used (r # rs) = (if used r then fresh_id used rs else Some (r, rs))"

section \<open>The model pool\<close>

definition idForModelName :: "qstring \<Rightarrow> 's server \<Rightarrow> (u32 \<times> 's server) option" where
  "idForModelName name s = (case modelNameMap s name of
       Some i \<Rightarrow> Some (i, s)
     | None \<Rightarrow>
         if creatable (core s) name then
           (case fresh_id (\<lambda>i. modelIdMap s i \<noteq> None) (randoms s) of
              None \<Rightarrow> None
            | Some (i, rs) \<Rightarrow> Some (i, s\<lparr>modelIdMap := (modelIdMap s)(i \<mapsto> name),
                modelNameMap := (modelNameMap s)(name \<mapsto> i), randoms := rs\<rparr>))
         else Some (0, s))"

definition modelById :: "u32 \<Rightarrow> 's server \<Rightarrow> qstring option" where
  "modelById i s = modelIdMap s i"

text \<open>Looking up a name that is not in the map yields 0. ServerCore::removeModel deletes the model and
  its data.\<close>

definition pool_removeModel :: "qstring \<Rightarrow> 's server \<Rightarrow> 's server" where
  "pool_removeModel name s =
     (let i = (case modelNameMap s name of None \<Rightarrow> 0 | Some i \<Rightarrow> i)
      in s\<lparr>modelIdMap := (modelIdMap s)(i := None), modelNameMap := (modelNameMap s)(name := None)\<rparr>)"

definition core_removeModel :: "qstring \<Rightarrow> 's server \<Rightarrow> 's server" where
  "core_removeModel name s = s\<lparr>stores := (stores s)(name := new_store (core s))\<rparr>"

section \<open>Handlers\<close>

type_synonym 's handler = "qbytes \<Rightarrow> 's server \<Rightarrow> (qbytes \<times> qbytes \<times> 's server) option"

text \<open>A read that fails has used up what arrived and leaves the variable as it was.\<close>

definition read_or :: "'a \<Rightarrow> 'a reader \<Rightarrow> qbytes \<Rightarrow> 'a \<times> qbytes" where
  "read_or d r inp = (case r inp of None \<Rightarrow> (d, []) | Some x \<Rightarrow> x)"

definition plain_error :: "qstring \<Rightarrow> error" where
  "plain_error m = mk_error m (error_code_num ErrorUnknown)"

definition invalid_model_id :: error where "invalid_model_id = plain_error ''Invalid model id''"
definition invalid_iterator_id :: error where "invalid_iterator_id = plain_error ''Invalid iterator ID.''"

text \<open>A call on a store, and the error it left.\<close>

definition at_store :: "qstring \<Rightarrow> ('s \<Rightarrow> 'r \<times> 's) \<Rightarrow> 's server \<Rightarrow> 'r \<times> 's server" where
  "at_store name f s = (case f (stores s name) of (r, \<sigma>) \<Rightarrow> (r, s\<lparr>stores := (stores s)(name := \<sigma>)\<rparr>))"

definition store_error :: "qstring \<Rightarrow> 's server \<Rightarrow> error" where
  "store_error name s = m_lastError (backend_model (core s)) (stores s name)"

text \<open>A command for a model whose reply is a value and an error. For an unknown model the arguments are
  not read.\<close>

definition model_command ::
  "qt \<Rightarrow> 'a \<Rightarrow> 'a reader \<Rightarrow> ('r \<Rightarrow> qbytes) \<Rightarrow> 'r \<Rightarrow> ('s model \<Rightarrow> 'a \<Rightarrow> 's \<Rightarrow> 'r \<times> 's) \<Rightarrow> 's handler" where
  "model_command q d arg put bad f inp s =
     (case read_or 0 readUnsignedInt32 inp of (i, inp) \<Rightarrow>
      (case modelById i s of
         None \<Rightarrow> Some (put bad @ writeError q invalid_model_id, inp, s)
       | Some name \<Rightarrow>
          (case read_or d arg inp of (a, inp) \<Rightarrow>
           (case at_store name (f (backend_model (core s)) a) s of (r, s) \<Rightarrow>
              Some (put r @ writeError q (store_error name s), inp, s)))))"

definition no_argument :: "unit reader" where "no_argument inp = Some ((), inp)"

definition srv_addStatement :: "qt \<Rightarrow> 's handler" where
  "srv_addStatement q = model_command q empty_statement (readStatement q) writeErrorCode ErrorInvalidArgument m_addStatement"

definition srv_removeStatement :: "qt \<Rightarrow> 's handler" where
  "srv_removeStatement q = model_command q empty_statement (readStatement q) writeErrorCode ErrorInvalidArgument m_removeStatement"

definition srv_removeAllStatements :: "qt \<Rightarrow> 's handler" where
  "srv_removeAllStatements q =
     model_command q empty_statement (readStatement q) writeErrorCode ErrorInvalidArgument m_removeAllStatements"

definition srv_containsStatement :: "qt \<Rightarrow> 's handler" where
  "srv_containsStatement q = model_command q empty_statement (readStatement q) writeBool False m_containsStatement"

definition srv_containsAnyStatement :: "qt \<Rightarrow> 's handler" where
  "srv_containsAnyStatement q = model_command q empty_statement (readStatement q) writeBool False m_containsAnyStatement"

text \<open>The count is sent as a 32-bit number.\<close>

definition srv_statementCount :: "qt \<Rightarrow> 's handler" where
  "srv_statementCount q =
     model_command q () no_argument (\<lambda>n. writeInt32 (word_of_int n)) (- 1) (\<lambda>M _. m_statementCount M)"

definition srv_isEmpty :: "qt \<Rightarrow> 's handler" where
  "srv_isEmpty q = model_command q () no_argument writeBool False (\<lambda>M _. m_isEmpty M)"

definition srv_createBlankNode :: "qt \<Rightarrow> 's handler" where
  "srv_createBlankNode q = model_command q () no_argument (writeNode q) EmptyNode (\<lambda>M _. m_createBlankNode M)"

section \<open>Iterators\<close>

definition used_iterator_id :: "'s server \<Rightarrow> u32 \<Rightarrow> bool" where
  "used_iterator_id s i \<longleftrightarrow> openStatementIterators s i \<noteq> None \<or> openNodeIterators s i \<noteq> None \<or> openQueryIterators s i \<noteq> None"

definition generateUniqueId :: "'s server \<Rightarrow> (u32 \<times> 's server) option" where
  "generateUniqueId s = map_option (\<lambda>(i, rs). (i, s\<lparr>randoms := rs\<rparr>)) (fresh_id (used_iterator_id s) (randoms s))"

text \<open>A listing command: the iterator gets a number, an invalid one the number 0.\<close>

definition map_iterator ::
  "(u32 \<Rightarrow> 'a list \<Rightarrow> 's server \<Rightarrow> 's server) \<Rightarrow> 'a list option \<Rightarrow> 's server \<Rightarrow> (u32 \<times> 's server) option" where
  "map_iterator ins it s = (case it of
       None \<Rightarrow> Some (0, s)
     | Some xs \<Rightarrow> map_option (\<lambda>(i, s). (i, ins i xs s)) (generateUniqueId s))"

definition listing_command ::
  "qt \<Rightarrow> 'a \<Rightarrow> 'a reader \<Rightarrow> (u32 \<Rightarrow> 'b list \<Rightarrow> 's server \<Rightarrow> 's server) \<Rightarrow>
     ('s model \<Rightarrow> 'a \<Rightarrow> 's \<Rightarrow> 'b list option \<times> 's) \<Rightarrow> 's handler" where
  "listing_command q d arg ins f inp s =
     (case read_or 0 readUnsignedInt32 inp of (i, inp) \<Rightarrow>
      (case modelById i s of
         None \<Rightarrow> Some (writeUnsignedInt32 0 @ writeError q invalid_model_id, inp, s)
       | Some name \<Rightarrow>
          (case read_or d arg inp of (a, inp) \<Rightarrow>
           (case at_store name (f (backend_model (core s)) a) s of (it, s) \<Rightarrow>
             map_option (\<lambda>(k, s). (writeUnsignedInt32 k @ writeError q (store_error name s), inp, s))
               (map_iterator ins it s)))))"

definition insert_statements :: "u32 \<Rightarrow> statement list \<Rightarrow> 's server \<Rightarrow> 's server" where
  "insert_statements i xs s = s\<lparr>openStatementIterators := (openStatementIterators s)(i \<mapsto> open_cursor xs)\<rparr>"

definition insert_nodes :: "u32 \<Rightarrow> node list \<Rightarrow> 's server \<Rightarrow> 's server" where
  "insert_nodes i xs s = s\<lparr>openNodeIterators := (openNodeIterators s)(i \<mapsto> open_cursor xs)\<rparr>"

definition insert_rows :: "u32 \<Rightarrow> binding_set list \<Rightarrow> 's server \<Rightarrow> 's server" where
  "insert_rows i xs s = s\<lparr>openQueryIterators := (openQueryIterators s)(i \<mapsto> open_cursor xs)\<rparr>"

definition srv_listStatements :: "qt \<Rightarrow> 's handler" where
  "srv_listStatements q = listing_command q empty_statement (readStatement q) insert_statements m_listStatements"

definition srv_listContexts :: "qt \<Rightarrow> 's handler" where
  "srv_listContexts q = listing_command q () no_argument insert_nodes (\<lambda>M _. m_listContexts M)"

definition read_query :: "qt \<Rightarrow> (qstring \<times> u16 \<times> qstring) reader" where
  "read_query q inp =
     (case read_or [] (readString q) inp of (text, inp) \<Rightarrow>
      (case read_or 0 readUnsignedInt16 inp of (lang, inp) \<Rightarrow>
      (case read_or [] (readString q) inp of (user, inp) \<Rightarrow> Some ((text, lang, user), inp))))"

definition srv_query :: "qt \<Rightarrow> 's handler" where
  "srv_query q = listing_command q ([], 0, []) (read_query q) insert_rows
     (\<lambda>M (text, lang, user). m_executeQuery M text (queryLanguageToString lang user))"

text \<open>Iterators over lists leave no error.\<close>

definition srv_iteratorNext :: "qt \<Rightarrow> 's handler" where
  "srv_iteratorNext q inp s =
     (case read_or 0 readUnsignedInt32 inp of (i, inp) \<Rightarrow>
       Some (case openStatementIterators s i of
         Some c \<Rightarrow> (case cursor_next c of (b, c) \<Rightarrow>
           (writeBool b @ writeError q NoError, inp, s\<lparr>openStatementIterators := (openStatementIterators s)(i \<mapsto> c)\<rparr>))
       | None \<Rightarrow> (case openNodeIterators s i of
         Some c \<Rightarrow> (case cursor_next c of (b, c) \<Rightarrow>
           (writeBool b @ writeError q NoError, inp, s\<lparr>openNodeIterators := (openNodeIterators s)(i \<mapsto> c)\<rparr>))
       | None \<Rightarrow> (case openQueryIterators s i of
         Some c \<Rightarrow> (case cursor_next c of (b, c) \<Rightarrow>
           (writeBool b @ writeError q NoError, inp, s\<lparr>openQueryIterators := (openQueryIterators s)(i \<mapsto> c)\<rparr>))
       | None \<Rightarrow> (writeBool False @ writeError q invalid_iterator_id, inp, s)))))"

definition current_command :: "qt \<Rightarrow> ('a \<Rightarrow> qbytes) \<Rightarrow> 'a \<Rightarrow> ('s server \<Rightarrow> u32 \<rightharpoonup> 'a) \<Rightarrow> 's handler" where
  "current_command q put bad get inp s =
     (case read_or 0 readUnsignedInt32 inp of (i, inp) \<Rightarrow>
       Some (case get s i of
           Some x \<Rightarrow> (put x @ writeError q NoError, inp, s)
         | None \<Rightarrow> (put bad @ writeError q invalid_iterator_id, inp, s)))"

text \<open>A query iterator that is not a graph has no current statement.\<close>

definition srv_statementIteratorCurrent :: "qt \<Rightarrow> 's handler" where
  "srv_statementIteratorCurrent q = current_command q (writeStatement q) empty_statement
     (\<lambda>s i. case openStatementIterators s i of
        Some c \<Rightarrow> Some (cursor_current empty_statement c)
      | None \<Rightarrow> map_option (\<lambda>_. empty_statement) (openQueryIterators s i))"

definition srv_nodeIteratorCurrent :: "qt \<Rightarrow> 's handler" where
  "srv_nodeIteratorCurrent q = current_command q (writeNode q) EmptyNode
     (\<lambda>s i. map_option (cursor_current EmptyNode) (openNodeIterators s i))"

definition srv_queryIteratorCurrent :: "qt \<Rightarrow> 's handler" where
  "srv_queryIteratorCurrent q = current_command q (writeBindingSet q) empty_bindings
     (\<lambda>s i. map_option (cursor_current empty_bindings) (openQueryIterators s i))"

text \<open>All results modelled are tables of bindings: type 3, and no truth value.\<close>

definition srv_queryIteratorType :: "qt \<Rightarrow> 's handler" where
  "srv_queryIteratorType q = current_command q writeUnsignedInt8 0 (\<lambda>s i. map_option (\<lambda>_. 3) (openQueryIterators s i))"

definition srv_queryIteratorBoolValue :: "qt \<Rightarrow> 's handler" where
  "srv_queryIteratorBoolValue q = current_command q writeBool False (\<lambda>s i. map_option (\<lambda>_. False) (openQueryIterators s i))"

definition srv_iteratorClose :: "qt \<Rightarrow> 's handler" where
  "srv_iteratorClose q inp s =
     (case read_or 0 readUnsignedInt32 inp of (i, inp) \<Rightarrow>
       Some (if openStatementIterators s i \<noteq> None then
               (writeError q NoError, inp, s\<lparr>openStatementIterators := (openStatementIterators s)(i := None)\<rparr>)
             else if openNodeIterators s i \<noteq> None then
               (writeError q NoError, inp, s\<lparr>openNodeIterators := (openNodeIterators s)(i := None)\<rparr>)
             else if openQueryIterators s i \<noteq> None then
               (writeError q NoError, inp, s\<lparr>openQueryIterators := (openQueryIterators s)(i := None)\<rparr>)
             else (writeError q invalid_iterator_id, inp, s)))"

section \<open>The server itself\<close>

definition srv_createModel :: "qt \<Rightarrow> 's handler" where
  "srv_createModel q inp s = (case read_or [] (readString q) inp of (name, inp) \<Rightarrow>
     map_option (\<lambda>(i, s). (writeUnsignedInt32 i @ writeError q NoError, inp, s)) (idForModelName name s))"

definition srv_removeModel :: "qt \<Rightarrow> 's handler" where
  "srv_removeModel q inp s = (case read_or [] (readString q) inp of (name, inp) \<Rightarrow>
     Some (writeError q NoError, inp, core_removeModel name (pool_removeModel name s)))"

definition srv_supportedFeatures :: "qt \<Rightarrow> 's handler" where
  "srv_supportedFeatures q inp s = Some (case features (core s) of
       Some f \<Rightarrow> (writeUnsignedInt32 f @ writeError q NoError, inp, s)
     | None \<Rightarrow> (writeUnsignedInt32 0 @ writeError q (plain_error ''No backend available''), inp, s))"

definition srv_supportsProtocolVersion :: "'s handler" where
  "srv_supportsProtocolVersion inp s = (case read_or 0 readUnsignedInt32 inp of (v, inp) \<Rightarrow>
     Some (writeBool (v = PROTOCOL_VERSION), inp, s))"

section \<open>The command loop\<close>

text \<open>The switch of \<open>_s_readNextCommand\<close>; an unknown command closes the connection.\<close>

definition handlers :: "qt \<Rightarrow> (u16 \<times> 's handler) list" where
  "handlers q = [
     (COMMAND_ITERATOR_NEXT, srv_iteratorNext q),
     (COMMAND_ITERATOR_CURRENT_BINDINGSET, srv_queryIteratorCurrent q),
     (COMMAND_SUPPORTS_PROTOCOL_VERSION, srv_supportsProtocolVersion),
     (COMMAND_CREATE_MODEL, srv_createModel q),
     (COMMAND_REMOVE_MODEL, srv_removeModel q),
     (COMMAND_SUPPORTED_FEATURES, srv_supportedFeatures q),
     (COMMAND_MODEL_ADD_STATEMENT, srv_addStatement q),
     (COMMAND_MODEL_REMOVE_STATEMENT, srv_removeStatement q),
     (COMMAND_MODEL_REMOVE_ALL_STATEMENTS, srv_removeAllStatements q),
     (COMMAND_MODEL_LIST_STATEMENTS, srv_listStatements q),
     (COMMAND_MODEL_CONTAINS_STATEMENT, srv_containsStatement q),
     (COMMAND_MODEL_CONTAINS_ANY_STATEMENT, srv_containsAnyStatement q),
     (COMMAND_MODEL_LIST_CONTEXTS, srv_listContexts q),
     (COMMAND_MODEL_STATEMENT_COUNT, srv_statementCount q),
     (COMMAND_MODEL_IS_EMPTY, srv_isEmpty q),
     (COMMAND_MODEL_QUERY, srv_query q),
     (COMMAND_ITERATOR_CURRENT_STATEMENT, srv_statementIteratorCurrent q),
     (COMMAND_ITERATOR_CURRENT_NODE, srv_nodeIteratorCurrent q),
     (COMMAND_ITERATOR_CLOSE, srv_iteratorClose q),
     (COMMAND_ITERATOR_QUERY_TYPE, srv_queryIteratorType q),
     (COMMAND_ITERATOR_QUERY_BOOL_VALUE, srv_queryIteratorBoolValue q),
     (COMMAND_MODEL_CREATE_BLANK_NODE, srv_createBlankNode q)]"

definition readNextCommand :: "qt \<Rightarrow> 's handler" where
  "readNextCommand q inp s =
     (case read_or 0 readUnsignedInt16 inp of (command, inp) \<Rightarrow>
      (case map_of (handlers q) command of
         None \<Rightarrow> Some ([], inp, s\<lparr>conn_closed := True\<rparr>)
       | Some h \<Rightarrow> h inp s))"

end
