(* ===== verification/Client_Protocol.thy ===== *)
theory Client_Protocol
  imports Server_Protocol Result_Iterator
begin

text \<open>
  The client's side of a connection (client/clientconnection.cpp), and the model and the iterators built on
  it (clientmodel.cpp, client*iteratorbackend.cpp). A request writes a command with its arguments, waits
  for the answer of the server and reads a value and an error.

  A link is the socket between the two with what is on its way in both directions. \<open>None\<close> is a request
  that does not come back: a read of bytes that never arrive. A socket that was closed is not reopened.
\<close>

section \<open>The link\<close>

record 's link =
  srv :: "'s server"
  to_server :: qbytes
  to_client :: qbytes
  has_socket :: bool
  is_open :: bool
  socket_failed :: bool
  conn_error :: error

definition new_link :: "'s server \<Rightarrow> 's link" where
  "new_link s = \<lparr> srv = s, to_server = [], to_client = [], has_socket = True, is_open = True,
     socket_failed = False, conn_error = NoError \<rparr>"

text \<open>The bytes that arrived wake the server once. When it does not come back, nothing is answered.\<close>

definition serve :: "qt \<Rightarrow> 's link \<Rightarrow> 's link" where
  "serve q l =
     (if conn_closed (srv l) then l
      else (case readNextCommand q (to_server l) (srv l) of
          None \<Rightarrow> l
        | Some (reply, rest, s) \<Rightarrow> l\<lparr>srv := s, to_server := rest, to_client := to_client l @ reply\<rparr>))"

definition close_with :: "qstring \<Rightarrow> 's link \<Rightarrow> 's link" where
  "close_with m l = l\<lparr>conn_error := mk_error m (error_code_num ErrorTimeout), is_open := False, to_client := []\<rparr>"

text \<open>The end of the stream makes a socket readable too.\<close>

definition ready_read :: "'s link \<Rightarrow> bool" where
  "ready_read l \<longleftrightarrow> to_client l \<noteq> [] \<or> conn_closed (srv l)"

text \<open>A read of too few bytes waits for more, or fails at the end of the stream; then the variable is
  as it was, and the error of the socket stays.\<close>

definition receive :: "'a \<Rightarrow> 'a reader \<Rightarrow> 's link \<Rightarrow> ('a \<times> 's link) option" where
  "receive d rd l = (case rd (to_client l) of
       Some (x, rest) \<Rightarrow> Some (x, l\<lparr>to_client := rest\<rparr>)
     | None \<Rightarrow> if conn_closed (srv l) then Some (d, l\<lparr>to_client := [], socket_failed := True\<rparr>) else None)"

text \<open>Every request: \<open>absent\<close> is its value without a socket, \<open>failed\<close> after a failed write or a timeout.\<close>

definition request ::
  "qt \<Rightarrow> ('s link \<Rightarrow> 'r) \<Rightarrow> 'r \<Rightarrow> qbytes \<Rightarrow> 'r \<Rightarrow> 'r reader \<Rightarrow> 's link \<Rightarrow> ('r \<times> 's link) option" where
  "request q absent failed msg d rd l =
     (if \<not> has_socket l then Some (absent l, l)
      else if \<not> is_open l \<or> socket_failed l then Some (failed, close_with ''Write error'' l)
      else (let l = serve q (l\<lparr>to_server := to_server l @ msg\<rparr>)
        in if \<not> ready_read l then Some (failed, close_with ''Command timed out.'' l)
           else (case receive d rd l of
               None \<Rightarrow> None
             | Some (v, l) \<Rightarrow> (case receive NoError (readError q) l of
                   None \<Rightarrow> None
                 | Some (e, l) \<Rightarrow> Some (v, l\<lparr>conn_error := kept_error e\<rparr>)))))"

section \<open>The requests\<close>

text \<open>Ids travel as unsigned numbers and are signed ones at the client. A variable that C++ leaves
  uninitialised is 0 here.\<close>

definition command_bytes :: "u16 \<Rightarrow> qbytes" where "command_bytes c = writeUnsignedInt16 c"

definition on_id :: "u16 \<Rightarrow> u32 \<Rightarrow> qbytes" where "on_id c i = command_bytes c @ writeUnsignedInt32 i"

definition client_createModel :: "qt \<Rightarrow> qstring \<Rightarrow> 's link \<Rightarrow> (u32 \<times> 's link) option" where
  "client_createModel q name =
     request q (\<lambda>_. 0) 0 (command_bytes COMMAND_CREATE_MODEL @ writeString q name) 0 readUnsignedInt32"

definition client_removeModel :: "qt \<Rightarrow> qstring \<Rightarrow> 's link \<Rightarrow> (unit \<times> 's link) option" where
  "client_removeModel q name =
     request q (\<lambda>_. ()) () (command_bytes COMMAND_REMOVE_MODEL @ writeString q name) () no_argument"

definition client_supportedFeatures :: "qt \<Rightarrow> 's link \<Rightarrow> (u32 \<times> 's link) option" where
  "client_supportedFeatures q = request q (\<lambda>_. 0) 0 (command_bytes COMMAND_SUPPORTED_FEATURES) 0 readUnsignedInt32"

text \<open>Without a socket the code of the last error is the result.\<close>

definition last_code :: "'s link \<Rightarrow> error_code" where
  "last_code l = convertErrorCode (err_code (conn_error l))"

definition statement_command ::
  "qt \<Rightarrow> u16 \<Rightarrow> ('s link \<Rightarrow> 'r) \<Rightarrow> 'r \<Rightarrow> 'r \<Rightarrow> 'r reader \<Rightarrow> u32 \<Rightarrow> statement \<Rightarrow> 's link \<Rightarrow> ('r \<times> 's link) option" where
  "statement_command q c absent failed d rd i s = request q absent failed (on_id c i @ writeStatement q s) d rd"

definition client_addStatement :: "qt \<Rightarrow> u32 \<Rightarrow> statement \<Rightarrow> 's link \<Rightarrow> (error_code \<times> 's link) option" where
  "client_addStatement q =
     statement_command q COMMAND_MODEL_ADD_STATEMENT last_code ErrorUnknown ErrorNone readErrorCode"

definition client_removeStatement :: "qt \<Rightarrow> u32 \<Rightarrow> statement \<Rightarrow> 's link \<Rightarrow> (error_code \<times> 's link) option" where
  "client_removeStatement q =
     statement_command q COMMAND_MODEL_REMOVE_STATEMENT last_code ErrorUnknown ErrorNone readErrorCode"

definition client_removeAllStatements :: "qt \<Rightarrow> u32 \<Rightarrow> statement \<Rightarrow> 's link \<Rightarrow> (error_code \<times> 's link) option" where
  "client_removeAllStatements q =
     statement_command q COMMAND_MODEL_REMOVE_ALL_STATEMENTS last_code ErrorUnknown ErrorNone readErrorCode"

definition client_containsStatement :: "qt \<Rightarrow> u32 \<Rightarrow> statement \<Rightarrow> 's link \<Rightarrow> (bool \<times> 's link) option" where
  "client_containsStatement q =
     statement_command q COMMAND_MODEL_CONTAINS_STATEMENT (\<lambda>_. False) False False readBool"

definition client_containsAnyStatement :: "qt \<Rightarrow> u32 \<Rightarrow> statement \<Rightarrow> 's link \<Rightarrow> (bool \<times> 's link) option" where
  "client_containsAnyStatement q =
     statement_command q COMMAND_MODEL_CONTAINS_ANY_STATEMENT (\<lambda>_. False) False False readBool"

definition client_listStatements :: "qt \<Rightarrow> u32 \<Rightarrow> statement \<Rightarrow> 's link \<Rightarrow> (u32 \<times> 's link) option" where
  "client_listStatements q =
     statement_command q COMMAND_MODEL_LIST_STATEMENTS (\<lambda>_. 0) 0 0 readUnsignedInt32"

definition client_listContexts :: "qt \<Rightarrow> u32 \<Rightarrow> 's link \<Rightarrow> (u32 \<times> 's link) option" where
  "client_listContexts q i = request q (\<lambda>_. 0) 0 (on_id COMMAND_MODEL_LIST_CONTEXTS i) 0 readUnsignedInt32"

definition client_executeQuery :: "qt \<Rightarrow> u32 \<Rightarrow> qstring \<Rightarrow> u16 \<Rightarrow> qstring \<Rightarrow> 's link \<Rightarrow> (u32 \<times> 's link) option" where
  "client_executeQuery q i query lang user =
     request q (\<lambda>_. 0) 0 (on_id COMMAND_MODEL_QUERY i @ writeString q query @ writeUnsignedInt16 lang @ writeString q user)
       0 readUnsignedInt32"

definition read_count :: "int reader" where
  "read_count inp = map_option (map_prod sint id) (readInt32 inp)"

definition client_statementCount :: "qt \<Rightarrow> u32 \<Rightarrow> 's link \<Rightarrow> (int \<times> 's link) option" where
  "client_statementCount q i = request q (\<lambda>_. - 1) (- 1) (on_id COMMAND_MODEL_STATEMENT_COUNT i) 0 read_count"

definition client_isEmpty :: "qt \<Rightarrow> u32 \<Rightarrow> 's link \<Rightarrow> (bool \<times> 's link) option" where
  "client_isEmpty q i = request q (\<lambda>_. False) False (on_id COMMAND_MODEL_IS_EMPTY i) False readBool"

definition client_createBlankNode :: "qt \<Rightarrow> u32 \<Rightarrow> 's link \<Rightarrow> (node \<times> 's link) option" where
  "client_createBlankNode q i =
     request q (\<lambda>_. EmptyNode) EmptyNode (on_id COMMAND_MODEL_CREATE_BLANK_NODE i) EmptyNode (readNode q)"

definition client_iteratorNext :: "qt \<Rightarrow> u32 \<Rightarrow> 's link \<Rightarrow> (bool \<times> 's link) option" where
  "client_iteratorNext q i = request q (\<lambda>_. False) False (on_id COMMAND_ITERATOR_NEXT i) False readBool"

definition client_nodeIteratorCurrent :: "qt \<Rightarrow> u32 \<Rightarrow> 's link \<Rightarrow> (node \<times> 's link) option" where
  "client_nodeIteratorCurrent q i =
     request q (\<lambda>_. EmptyNode) EmptyNode (on_id COMMAND_ITERATOR_CURRENT_NODE i) EmptyNode (readNode q)"

definition client_statementIteratorCurrent :: "qt \<Rightarrow> u32 \<Rightarrow> 's link \<Rightarrow> (statement \<times> 's link) option" where
  "client_statementIteratorCurrent q i = request q (\<lambda>_. empty_statement) empty_statement
     (on_id COMMAND_ITERATOR_CURRENT_STATEMENT i) empty_statement (readStatement q)"

definition client_queryIteratorCurrent :: "qt \<Rightarrow> u32 \<Rightarrow> 's link \<Rightarrow> (binding_set \<times> 's link) option" where
  "client_queryIteratorCurrent q i = request q (\<lambda>_. empty_bindings) empty_bindings
     (on_id COMMAND_ITERATOR_CURRENT_BINDINGSET i) empty_bindings (readBindingSet q)"

definition client_queryIteratorCurrentStatement :: "qt \<Rightarrow> u32 \<Rightarrow> 's link \<Rightarrow> (statement \<times> 's link) option" where
  "client_queryIteratorCurrentStatement q i = request q (\<lambda>_. empty_statement) empty_statement
     (on_id COMMAND_ITERATOR_CURRENT_STATEMENT i) empty_statement (readStatement q)"

definition client_queryIteratorType :: "qt \<Rightarrow> u32 \<Rightarrow> 's link \<Rightarrow> (u8 \<times> 's link) option" where
  "client_queryIteratorType q i = request q (\<lambda>_. 0) 0 (on_id COMMAND_ITERATOR_QUERY_TYPE i) 0 readUnsignedInt8"

definition client_queryIteratorBoolValue :: "qt \<Rightarrow> u32 \<Rightarrow> 's link \<Rightarrow> (bool \<times> 's link) option" where
  "client_queryIteratorBoolValue q i =
     request q (\<lambda>_. False) False (on_id COMMAND_ITERATOR_QUERY_BOOL_VALUE i) False readBool"

definition client_iteratorClose :: "qt \<Rightarrow> u32 \<Rightarrow> 's link \<Rightarrow> (unit \<times> 's link) option" where
  "client_iteratorClose q i = request q (\<lambda>_. ()) () (on_id COMMAND_ITERATOR_CLOSE i) () no_argument"

text \<open>The answer to the version check carries no error.\<close>

definition client_checkProtocolVersion :: "qt \<Rightarrow> 's link \<Rightarrow> (bool \<times> 's link) option" where
  "client_checkProtocolVersion q l =
     (if \<not> has_socket l then Some (False, l)
      else if \<not> is_open l \<or> socket_failed l then Some (False, close_with ''Write error'' l)
      else (let l = serve q (l\<lparr>to_server := to_server l @ on_id COMMAND_SUPPORTS_PROTOCOL_VERSION PROTOCOL_VERSION\<rparr>)
        in if \<not> ready_read l then Some (False, close_with ''Command timed out.'' l)
           else map_option (\<lambda>(reply, l). (reply, l\<lparr>conn_error :=
               if reply then NoError else plain_error (''Server does not support protocol version '' @ ''5'')\<rparr>))
             (receive False readBool l)))"

section \<open>ClientModel\<close>

text \<open>The model keeps the ids of its open iterators, to close them when it is destroyed. Its connection
  may be gone.\<close>

record 's remote =
  connection :: "'s link option"
  modelId :: u32
  openIterators :: "u32 list"
  model_error :: error

definition new_remote :: "u32 \<Rightarrow> 's link \<Rightarrow> 's remote" where
  "new_remote i l = \<lparr> connection = Some l, modelId = i, openIterators = [], model_error = NoError \<rparr>"

definition not_connected :: error where "not_connected = plain_error ''Not connected to server.''"

definition via :: "'r \<Rightarrow> (u32 \<Rightarrow> 's link \<Rightarrow> ('r \<times> 's link) option) \<Rightarrow> 's remote \<Rightarrow> ('r \<times> 's remote) option" where
  "via bad f r = (case connection r of
       None \<Rightarrow> Some (bad, r\<lparr>model_error := not_connected\<rparr>)
     | Some l \<Rightarrow> map_option (\<lambda>(v, l). (v, r\<lparr>connection := Some l, model_error := kept_error (conn_error l)\<rparr>))
         (f (modelId r) l))"

definition cm_addStatement :: "qt \<Rightarrow> statement \<Rightarrow> 's remote \<Rightarrow> (error_code \<times> 's remote) option" where
  "cm_addStatement q s = via ErrorUnknown (\<lambda>i. client_addStatement q i s)"

definition cm_removeStatement :: "qt \<Rightarrow> statement \<Rightarrow> 's remote \<Rightarrow> (error_code \<times> 's remote) option" where
  "cm_removeStatement q s = via ErrorUnknown (\<lambda>i. client_removeStatement q i s)"

definition cm_removeAllStatements :: "qt \<Rightarrow> statement \<Rightarrow> 's remote \<Rightarrow> (error_code \<times> 's remote) option" where
  "cm_removeAllStatements q p = via ErrorUnknown (\<lambda>i. client_removeAllStatements q i p)"

definition cm_statementCount :: "qt \<Rightarrow> 's remote \<Rightarrow> (int \<times> 's remote) option" where
  "cm_statementCount q = via (- 1) (client_statementCount q)"

definition cm_containsStatement :: "qt \<Rightarrow> statement \<Rightarrow> 's remote \<Rightarrow> (bool \<times> 's remote) option" where
  "cm_containsStatement q s = via False (\<lambda>i. client_containsStatement q i s)"

definition cm_containsAnyStatement :: "qt \<Rightarrow> statement \<Rightarrow> 's remote \<Rightarrow> (bool \<times> 's remote) option" where
  "cm_containsAnyStatement q p = via False (\<lambda>i. client_containsAnyStatement q i p)"

definition cm_createBlankNode :: "qt \<Rightarrow> 's remote \<Rightarrow> (node \<times> 's remote) option" where
  "cm_createBlankNode q = via EmptyNode (client_createBlankNode q)"

text \<open>isEmpty is not overridden: StorageModel counts.\<close>

definition cm_isEmpty :: "qt \<Rightarrow> 's remote \<Rightarrow> (bool \<times> 's remote) option" where
  "cm_isEmpty q r = map_option (map_prod (\<lambda>n. n = 0) id) (cm_statementCount q r)"

text \<open>A listing gives the id of an iterator, or none after an error. Ids above 0 are recorded.\<close>

definition cm_listing :: "(u32 \<Rightarrow> 's link \<Rightarrow> (u32 \<times> 's link) option) \<Rightarrow> 's remote \<Rightarrow> (u32 option \<times> 's remote) option" where
  "cm_listing f r = (case connection r of
       None \<Rightarrow> Some (None, r\<lparr>model_error := not_connected\<rparr>)
     | Some l \<Rightarrow> (case f (modelId r) l of
         None \<Rightarrow> None
       | Some (i, l) \<Rightarrow>
           (let r = r\<lparr>connection := Some l,
                      openIterators := (if sint i > 0 then openIterators r @ [i] else openIterators r),
                      model_error := kept_error (conn_error l)\<rparr>
            in Some (if err_occurred (model_error r) then None else Some i, r))))"

definition cm_listStatements :: "qt \<Rightarrow> statement \<Rightarrow> 's remote \<Rightarrow> (u32 option \<times> 's remote) option" where
  "cm_listStatements q p = cm_listing (\<lambda>i. client_listStatements q i p)"

definition cm_listContexts :: "qt \<Rightarrow> 's remote \<Rightarrow> (u32 option \<times> 's remote) option" where
  "cm_listContexts q = cm_listing (client_listContexts q)"

definition cm_executeQuery :: "qt \<Rightarrow> qstring \<Rightarrow> u16 \<Rightarrow> qstring \<Rightarrow> 's remote \<Rightarrow> (u32 option \<times> 's remote) option" where
  "cm_executeQuery q query lang user = cm_listing (\<lambda>i. client_executeQuery q i query lang user)"

definition cm_closeIterator :: "qt \<Rightarrow> u32 \<Rightarrow> 's remote \<Rightarrow> 's remote option" where
  "cm_closeIterator q i r = (case connection r of
       None \<Rightarrow> Some (r\<lparr>model_error := not_connected\<rparr>)
     | Some l \<Rightarrow>
         if i \<in> set (openIterators r) then
           map_option (\<lambda>(_, l). r\<lparr>connection := Some l, openIterators := removeAll i (openIterators r),
               model_error := kept_error (conn_error l)\<rparr>) (client_iteratorClose q i l)
         else Some (r\<lparr>model_error := NoError\<rparr>))"

text \<open>The destructor closes the open iterators of a connection that is up.\<close>

fun close_all :: "qt \<Rightarrow> u32 list \<Rightarrow> 's link \<Rightarrow> 's link option" where
  "close_all q [] l = Some l"
| "close_all q (i # is) l = (case client_iteratorClose q i l of None \<Rightarrow> None | Some (_, l) \<Rightarrow> close_all q is l)"

definition cm_destroy :: "qt \<Rightarrow> 's remote \<Rightarrow> 's link option option" where
  "cm_destroy q r = (case connection r of
       None \<Rightarrow> Some None
     | Some l \<Rightarrow> if has_socket l \<and> is_open l then map_option Some (close_all q (openIterators r) l) else Some (Some l))"

section \<open>The iterators of the client\<close>

text \<open>An iterator of a model that was deleted does nothing. A call on a model whose connection is gone
  has no result: the code follows a null pointer. A query result keeps its current row.\<close>

record 's client_iterator =
  it_model :: "'s remote option"
  it_id :: u32
  it_error :: error
  it_row :: binding_set

definition new_client_iterator :: "u32 \<Rightarrow> 's remote \<Rightarrow> 's client_iterator" where
  "new_client_iterator i r = \<lparr> it_model = Some r, it_id = i, it_error = NoError, it_row = empty_bindings \<rparr>"

definition connection_closed :: error where "connection_closed = plain_error ''Connection to server closed.''"

definition on_iterator ::
  "'r \<Rightarrow> (u32 \<Rightarrow> 's link \<Rightarrow> ('r \<times> 's link) option) \<Rightarrow> 's client_iterator \<Rightarrow> ('r \<times> 's client_iterator) option" where
  "on_iterator bad f it = (case it_model it of
       None \<Rightarrow> Some (bad, it\<lparr>it_error := connection_closed\<rparr>)
     | Some r \<Rightarrow> (case connection r of
         None \<Rightarrow> None
       | Some l \<Rightarrow> map_option (\<lambda>(v, l). (v, it\<lparr>it_model := Some (r\<lparr>connection := Some l\<rparr>),
             it_error := kept_error (conn_error l)\<rparr>)) (f (it_id it) l)))"

definition ci_next :: "qt \<Rightarrow> 's client_iterator \<Rightarrow> (bool \<times> 's client_iterator) option" where
  "ci_next q = on_iterator False (client_iteratorNext q)"

definition ci_close :: "qt \<Rightarrow> 's client_iterator \<Rightarrow> 's client_iterator option" where
  "ci_close q it = (case it_model it of
       None \<Rightarrow> Some (it\<lparr>it_error := connection_closed\<rparr>)
     | Some r \<Rightarrow> map_option (\<lambda>r. it\<lparr>it_model := Some r, it_error := kept_error (model_error r)\<rparr>)
         (cm_closeIterator q (it_id it) r))"

definition ci_statement :: "qt \<Rightarrow> 's client_iterator \<Rightarrow> (statement \<times> 's client_iterator) option" where
  "ci_statement q = on_iterator empty_statement (client_statementIteratorCurrent q)"

definition ci_node :: "qt \<Rightarrow> 's client_iterator \<Rightarrow> (node \<times> 's client_iterator) option" where
  "ci_node q = on_iterator EmptyNode (client_nodeIteratorCurrent q)"

text \<open>Closing a query result leaves the connection's error, not the model's.\<close>

definition cr_close :: "qt \<Rightarrow> 's client_iterator \<Rightarrow> 's client_iterator option" where
  "cr_close q it = (case it_model it of
       None \<Rightarrow> Some (it\<lparr>it_error := connection_closed\<rparr>)
     | Some r \<Rightarrow> (case cm_closeIterator q (it_id it) r of
         None \<Rightarrow> None
       | Some r \<Rightarrow> (case connection r of
           None \<Rightarrow> None
         | Some l \<Rightarrow> Some (it\<lparr>it_model := Some r, it_error := kept_error (conn_error l)\<rparr>))))"

definition cr_next :: "qt \<Rightarrow> 's client_iterator \<Rightarrow> (bool \<times> 's client_iterator) option" where
  "cr_next q it = (case ci_next q it of
       None \<Rightarrow> None
     | Some (b, it') \<Rightarrow>
         if it_model it = None then Some (b, it')
         else if b then
           map_option (\<lambda>(row, it). (True, it\<lparr>it_row := row\<rparr>)) (on_iterator empty_bindings (client_queryIteratorCurrent q) it')
         else Some (False, it'\<lparr>it_row := empty_bindings\<rparr>))"

definition cr_current :: "'s client_iterator \<Rightarrow> (binding_set \<times> 's client_iterator) option" where
  "cr_current it = Some (case it_model it of
       None \<Rightarrow> (empty_bindings, it\<lparr>it_error := connection_closed\<rparr>)
     | Some r \<Rightarrow> (it_row it, it))"

definition cr_currentStatement :: "qt \<Rightarrow> 's client_iterator \<Rightarrow> (statement \<times> 's client_iterator) option" where
  "cr_currentStatement q = on_iterator empty_statement (client_queryIteratorCurrentStatement q)"

definition cr_binding_name :: "qstring \<Rightarrow> 's client_iterator \<Rightarrow> (node \<times> 's client_iterator) option" where
  "cr_binding_name name it = map_option (map_prod (\<lambda>row. value_of row name) id) (cr_current it)"

definition cr_binding_offset :: "int \<Rightarrow> 's client_iterator \<Rightarrow> (node \<times> 's client_iterator) option" where
  "cr_binding_offset offset it = map_option (map_prod (\<lambda>row. value_at row offset) id) (cr_current it)"

definition cr_bindingCount :: "'s client_iterator \<Rightarrow> (nat \<times> 's client_iterator) option" where
  "cr_bindingCount it = map_option (map_prod bs_count id) (cr_current it)"

definition cr_bindingNames :: "'s client_iterator \<Rightarrow> (qstring list \<times> 's client_iterator) option" where
  "cr_bindingNames it = map_option (map_prod bindingNames id) (cr_current it)"

definition cr_is_type :: "qt \<Rightarrow> u8 \<Rightarrow> 's client_iterator \<Rightarrow> (bool \<times> 's client_iterator) option" where
  "cr_is_type q t = on_iterator False (\<lambda>i l. map_option (map_prod (\<lambda>u. u = t) id) (client_queryIteratorType q i l))"

definition cr_isGraph :: "qt \<Rightarrow> 's client_iterator \<Rightarrow> (bool \<times> 's client_iterator) option" where
  "cr_isGraph q = cr_is_type q 1"

definition cr_isBool :: "qt \<Rightarrow> 's client_iterator \<Rightarrow> (bool \<times> 's client_iterator) option" where
  "cr_isBool q = cr_is_type q 2"

definition cr_isBinding :: "qt \<Rightarrow> 's client_iterator \<Rightarrow> (bool \<times> 's client_iterator) option" where
  "cr_isBinding q = cr_is_type q 3"

text \<open>The truth value leaves the error of the model, which the request did not set.\<close>

definition cr_boolValue :: "qt \<Rightarrow> 's client_iterator \<Rightarrow> (bool \<times> 's client_iterator) option" where
  "cr_boolValue q it = map_option (\<lambda>(b, it'). (b, case it_model it of
       None \<Rightarrow> it' | Some r \<Rightarrow> it'\<lparr>it_error := kept_error (model_error r)\<rparr>))
     (on_iterator False (client_queryIteratorBoolValue q) it)"

definition remote_statements :: "qt \<Rightarrow> ('s client_iterator, statement) backend" where
  "remote_statements q = \<lparr> b_next = ci_next q, b_current = ci_statement q, b_close = ci_close q, b_error = it_error \<rparr>"

definition remote_nodes :: "qt \<Rightarrow> ('s client_iterator, node) backend" where
  "remote_nodes q = \<lparr> b_next = ci_next q, b_current = ci_node q, b_close = ci_close q, b_error = it_error \<rparr>"

definition remote_rows :: "qt \<Rightarrow> ('s client_iterator, binding_set) backend" where
  "remote_rows q = \<lparr> b_next = cr_next q, b_current = cr_current, b_close = cr_close q, b_error = it_error \<rparr>"

definition open_remote :: "(u32 option \<times> 's remote) \<Rightarrow> 's client_iterator front" where
  "open_remote x = (case x of (None, r) \<Rightarrow> invalid_iterator | (Some i, r) \<Rightarrow> new_iterator (new_client_iterator i r))"

end
