(* ===== verification/Remote_Model.thy ===== *)
theory Remote_Model
  imports Client_Protocol
begin

text \<open>
  The two sides of a connection together: a model used through a connection is the model at the server,
  up to what the wire format keeps of nodes.

  Both facts are proved once for a codec: \<open>answered\<close>, a request whose answer was written by the codec's
  writer, and \<open>model_command_run\<close>, a command whose argument was.
\<close>

section \<open>One request\<close>

definition clean :: "'s link \<Rightarrow> bool" where
  "clean l \<longleftrightarrow> has_socket l \<and> is_open l \<and> \<not> socket_failed l \<and> to_server l = [] \<and> to_client l = [] \<and> \<not> conn_closed (srv l)"

definition with_store :: "qstring \<Rightarrow> 's \<Rightarrow> 's server \<Rightarrow> 's server" where
  "with_store name \<sigma> s = s\<lparr>stores := (stores s)(name := \<sigma>)\<rparr>"

definition after :: "'s server \<Rightarrow> error \<Rightarrow> 's link \<Rightarrow> 's link" where
  "after s e l = l\<lparr>srv := s, conn_error := kept_error (wire_error e)\<rparr>"

lemma with_store_fields [simp]:
  "conn_closed (with_store name \<sigma> s) = conn_closed s" "modelIdMap (with_store name \<sigma> s) = modelIdMap s"
  "core (with_store name \<sigma> s) = core s" "stores (with_store name \<sigma> s) name = \<sigma>"
  "randoms (with_store name \<sigma> s) = randoms s"
  "openStatementIterators (with_store name \<sigma> s) = openStatementIterators s"
  "openNodeIterators (with_store name \<sigma> s) = openNodeIterators s"
  "openQueryIterators (with_store name \<sigma> s) = openQueryIterators s"
  "with_store name \<sigma>2 (with_store name \<sigma> s) = with_store name \<sigma>2 s"
  by (simp_all add: with_store_def)

lemma after_fields [simp]:
  "srv (after s e l) = s" "conn_error (after s e l) = kept_error (wire_error e)" "after s2 e2 (after s e l) = after s2 e2 l"
  by (simp_all add: after_def)

lemma clean_after [simp]: "clean l \<Longrightarrow> clean (after s e l) = (\<not> conn_closed s)"
  by (simp add: clean_def after_def)

lemma kept_kept [simp]: "kept_error (kept_error e) = kept_error e"
  by (simp add: kept_error_def err_occurred_def)

lemma kept_occurred [simp]: "err_occurred (kept_error e) = err_occurred e"
  by (simp add: kept_error_def err_occurred_def)

lemma writeError_not_empty [simp]: "writeError q e \<noteq> []"
  by (simp add: writeError_def writeBool_def writeUnsignedInt8_def le_bytes_def)

interpretation count: codec "\<lambda>n. writeInt32 (word_of_int n)" read_count "\<lambda>n. sint (word_of_int n :: 32 word)" "\<lambda>_. True"
  by unfold_locales (simp add: read_count_def int32.dec_enc)

interpretation nothing: codec "\<lambda>_. []" no_argument id "\<lambda>_. True"
  by unfold_locales (simp add: no_argument_def)

context codec
begin

lemma answered:
  assumes l: "clean l" and run: "readNextCommand q msg (srv l) = Some (enc v @ writeError q e, [], s)"
    and up: "\<not> conn_closed s" and v: "ok v" and e: "error_ok q e"
  shows "request q absent failed msg d dec l = Some (image v, after s e l)"
  using l run up dec_enc[OF v] err.dec_enc[OF e, of "[]"]
  by (simp add: request_def clean_def serve_def ready_read_def receive_def after_def Let_def)

lemma model_command_run:
  assumes h: "map_of (handlers q) c = Some (model_command q d dec put bad f)" and name: "modelIdMap s i = Some name"
    and a: "ok a" and f: "f (backend_model (core s)) (image a) (stores s name) = (r, \<sigma>)"
  shows "readNextCommand q (on_id c i @ enc a) s
           = Some (put r @ writeError q (m_lastError (backend_model (core s)) \<sigma>), [], with_store name \<sigma> s)"
  using h name f dec_all[OF a]
  by (simp add: readNextCommand_def read_or_def on_id_def command_bytes_def uint16.dec_enc model_command_def
      uint32.dec_enc modelById_def at_store_def store_error_def with_store_def)

end

text \<open>A command of a model whose answer is a value: its argument and its answer have codecs, and the server
  has a handler for it. Each such command of the protocol interprets the locale.\<close>

locale model_rpc =
  arg: codec write_arg read_arg arg_image arg_ok + ans: codec put get ans_image ans_ok
  for write_arg :: "'a \<Rightarrow> qbytes" and read_arg :: "'b reader" and arg_image arg_ok
    and put :: "'r \<Rightarrow> qbytes" and get :: "'v reader" and ans_image ans_ok +
  fixes q :: qt and c :: u16 and none :: 'b and bad :: 'r and op :: "'s model \<Rightarrow> 'b \<Rightarrow> 's \<Rightarrow> 'r \<times> 's"
  assumes handled: "map_of (handlers q) c = Some (model_command q none read_arg put bad op)"
begin

lemma rpc:
  assumes l: "clean l" "modelIdMap (srv l) i = Some name" and M: "M = backend_model (core (srv l))"
    and run: "arg_ok a" "op M (arg_image a) (stores (srv l) name) = (v, \<sigma>)" "ans_ok v" "error_ok q (m_lastError M \<sigma>)"
  shows "request q absent failed (on_id c i @ write_arg a) d get l
           = Some (ans_image v, after (with_store name \<sigma> (srv l)) (m_lastError M \<sigma>) l)"
  by (rule ans.answered[OF l(1) arg.model_command_run[OF handled l(2) run(1), folded M, OF run(2)] _ run(3,4)])
     (use l(1) in \<open>simp add: clean_def\<close>)

end

lemmas handler_codes = handlers_def command_codes srv_addStatement_def srv_removeStatement_def
  srv_removeAllStatements_def srv_containsStatement_def srv_containsAnyStatement_def srv_statementCount_def
  srv_isEmpty_def srv_createBlankNode_def

interpretation add: model_rpc "writeStatement q" "readStatement q" "wire_statement q" "wire_statement_ok q"
    writeErrorCode readErrorCode id "\<lambda>_. True" q COMMAND_MODEL_ADD_STATEMENT empty_statement ErrorInvalidArgument m_addStatement for q
  by unfold_locales (simp add: handler_codes)

interpretation remove: model_rpc "writeStatement q" "readStatement q" "wire_statement q" "wire_statement_ok q"
    writeErrorCode readErrorCode id "\<lambda>_. True" q COMMAND_MODEL_REMOVE_STATEMENT empty_statement ErrorInvalidArgument m_removeStatement for q
  by unfold_locales (simp add: handler_codes)

interpretation remove_all: model_rpc "writeStatement q" "readStatement q" "wire_statement q" "wire_statement_ok q"
    writeErrorCode readErrorCode id "\<lambda>_. True" q COMMAND_MODEL_REMOVE_ALL_STATEMENTS empty_statement ErrorInvalidArgument
    m_removeAllStatements for q
  by unfold_locales (simp add: handler_codes)

interpretation contains: model_rpc "writeStatement q" "readStatement q" "wire_statement q" "wire_statement_ok q"
    writeBool readBool id "\<lambda>_. True" q COMMAND_MODEL_CONTAINS_STATEMENT empty_statement False m_containsStatement for q
  by unfold_locales (simp add: handler_codes)

interpretation contains_any: model_rpc "writeStatement q" "readStatement q" "wire_statement q" "wire_statement_ok q"
    writeBool readBool id "\<lambda>_. True" q COMMAND_MODEL_CONTAINS_ANY_STATEMENT empty_statement False m_containsAnyStatement for q
  by unfold_locales (simp add: handler_codes)

interpretation counting: model_rpc "\<lambda>_. []" no_argument id "\<lambda>_. True"
    "\<lambda>n. writeInt32 (word_of_int n)" read_count "\<lambda>n. sint (word_of_int n :: 32 word)" "\<lambda>_. True"
    q COMMAND_MODEL_STATEMENT_COUNT "()" "- 1" "\<lambda>M _. m_statementCount M" for q
  by unfold_locales (simp add: handler_codes)

interpretation emptiness: model_rpc "\<lambda>_. []" no_argument id "\<lambda>_. True"
    writeBool readBool id "\<lambda>_. True" q COMMAND_MODEL_IS_EMPTY "()" False "\<lambda>M _. m_isEmpty M" for q
  by unfold_locales (simp add: handler_codes)

interpretation blank: model_rpc "\<lambda>_. []" no_argument id "\<lambda>_. True"
    "writeNode q" "readNode q" "wire_node q" "wire_node_ok q" q COMMAND_MODEL_CREATE_BLANK_NODE "()" EmptyNode
    "\<lambda>M _. m_createBlankNode M" for q
  by unfold_locales (simp add: handler_codes)

section \<open>Calls whose answer is a value\<close>

text \<open>What the client of a remote model calls, and what it sees of the answer.\<close>

fun remote_call :: "qt \<Rightarrow> model_call \<Rightarrow> 's remote \<Rightarrow> (model_result \<times> 's remote) option" where
  "remote_call q (CAdd s) r = map_option (map_prod RCode id) (cm_addStatement q s r)"
| "remote_call q (CRemove s) r = map_option (map_prod RCode id) (cm_removeStatement q s r)"
| "remote_call q (CRemoveAll p) r = map_option (map_prod RCode id) (cm_removeAllStatements q p r)"
| "remote_call q CCreateBlank r = map_option (map_prod RNode id) (cm_createBlankNode q r)"
| "remote_call q (CContains s) r = map_option (map_prod RBool id) (cm_containsStatement q s r)"
| "remote_call q (CContainsAny p) r = map_option (map_prod RBool id) (cm_containsAnyStatement q p r)"
| "remote_call q CCount r = map_option (map_prod RInt id) (cm_statementCount q r)"
| "remote_call q CIsEmpty r = map_option (map_prod RBool id) (cm_isEmpty q r)"
| "remote_call q c r = None"

text \<open>What happens at the server: the nodes arrive as their wire images, isEmpty is asked as a count, and
  the result travels back.\<close>

fun seen_call :: "qt \<Rightarrow> model_call \<Rightarrow> model_call" where
  "seen_call q (CAdd s) = CAdd (wire_statement q s)"
| "seen_call q (CRemove s) = CRemove (wire_statement q s)"
| "seen_call q (CRemoveAll p) = CRemoveAll (wire_statement q p)"
| "seen_call q (CContains s) = CContains (wire_statement q s)"
| "seen_call q (CContainsAny p) = CContainsAny (wire_statement q p)"
| "seen_call q CIsEmpty = CCount"
| "seen_call q c = c"

fun seen_result :: "qt \<Rightarrow> model_call \<Rightarrow> model_result \<Rightarrow> model_result" where
  "seen_result q CIsEmpty (RInt n) = RBool (sint (word_of_int n :: 32 word) = 0)"
| "seen_result q c (RInt n) = RInt (sint (word_of_int n :: 32 word))"
| "seen_result q c (RNode n) = RNode (wire_node q n)"
| "seen_result q c r = r"

text \<open>The call can travel: its statement and its answer have a wire format.\<close>

fun call_ok :: "qt \<Rightarrow> model_call \<Rightarrow> bool" where
  "call_ok q (CAdd s) = wire_statement_ok q s"
| "call_ok q (CRemove s) = wire_statement_ok q s"
| "call_ok q (CRemoveAll p) = wire_statement_ok q p"
| "call_ok q (CContains s) = wire_statement_ok q s"
| "call_ok q (CContainsAny p) = wire_statement_ok q p"
| "call_ok q (CList p) = False"
| "call_ok q CContexts = False"
| "call_ok q (CQuery t g) = False"
| "call_ok q c = True"

fun result_ok :: "qt \<Rightarrow> model_result \<Rightarrow> bool" where
  "result_ok q (RNode n) = wire_node_ok q n"
| "result_ok q r = True"

lemma via_answered:
  "connection r = Some l \<Longrightarrow> f (modelId r) l = Some (v, after s e l) \<Longrightarrow>
     via bad f r = Some (v, r\<lparr>connection := Some (after s e l), model_error := kept_error (wire_error e)\<rparr>)"
  by (simp add: via_def)

lemma request_id: "on_id c i @ [] = on_id c i" by simp

lemmas requests = client_addStatement_def client_removeStatement_def client_removeAllStatements_def
  client_containsStatement_def client_containsAnyStatement_def client_createBlankNode_def client_statementCount_def
  client_isEmpty_def statement_command_def

lemmas wrappers = cm_addStatement_def cm_removeStatement_def cm_removeAllStatements_def cm_containsStatement_def
  cm_containsAnyStatement_def cm_createBlankNode_def cm_statementCount_def cm_isEmpty_def

lemma tag_result_iff: "tag_result f p = (r, s) \<longleftrightarrow> (\<exists>v. p = (v, s) \<and> r = f v)"
  by (cases p) (auto simp: tag_result_def)

lemma remote_call_answered:
  assumes r: "connection r = Some l" and l: "clean l" "modelIdMap (srv l) (modelId r) = Some name" "M = backend_model (core (srv l))"
    and ok: "call_ok q c" and run: "call M (seen_call q c) (stores (srv l) name) = (v, \<sigma>)"
    and returned: "result_ok q v" "error_ok q (m_lastError M \<sigma>)"
  shows "remote_call q c r = Some (seen_result q c v,
      r\<lparr>connection := Some (after (with_store name \<sigma> (srv l)) (m_lastError M \<sigma>) l),
        model_error := kept_error (wire_error (m_lastError M \<sigma>))\<rparr>)"
proof (cases c)
  case (CAdd s)
  then show ?thesis using ok run returned add.rpc[OF l, of q s]
    by (auto simp: wrappers requests tag_result_iff via_answered[OF r])
next
  case (CRemove s)
  then show ?thesis using ok run returned remove.rpc[OF l, of q s]
    by (auto simp: wrappers requests tag_result_iff via_answered[OF r])
next
  case (CRemoveAll s)
  then show ?thesis using ok run returned remove_all.rpc[OF l, of q s]
    by (auto simp: wrappers requests tag_result_iff via_answered[OF r])
next
  case (CContains s)
  then show ?thesis using ok run returned contains.rpc[OF l, of q s]
    by (auto simp: wrappers requests tag_result_iff via_answered[OF r])
next
  case (CContainsAny s)
  then show ?thesis using ok run returned contains_any.rpc[OF l, of q s]
    by (auto simp: wrappers requests tag_result_iff via_answered[OF r])
next
  case CCreateBlank
  then show ?thesis using run returned blank.rpc[OF l, where q = q]
    by (auto simp: wrappers requests tag_result_iff via_answered[OF r])
next
  case CCount
  then show ?thesis using run returned counting.rpc[OF l, where q = q]
    by (auto simp: wrappers requests tag_result_iff via_answered[OF r])
next
  case CIsEmpty
  then show ?thesis using run returned counting.rpc[OF l, where q = q]
    by (auto simp: wrappers requests tag_result_iff via_answered[OF r])
qed (use ok in auto)

section \<open>Sequences of calls\<close>

fun remote_run :: "qt \<Rightarrow> model_call list \<Rightarrow> 's remote \<Rightarrow> ((model_result \<times> error) list \<times> 's remote) option" where
  "remote_run q [] r = Some ([], r)"
| "remote_run q (c # cs) r = (case remote_call q c r of
     None \<Rightarrow> None
   | Some (v, r1) \<Rightarrow> map_option (\<lambda>(vs, r2). ((v, model_error r1) # vs, r2)) (remote_run q cs r1))"

definition travels :: "qt \<Rightarrow> model_call list \<Rightarrow> (model_result \<times> error) list \<Rightarrow> bool" where
  "travels q cs vs \<longleftrightarrow> list_all2 (\<lambda>c (v, e). call_ok q c \<and> result_ok q v \<and> error_ok q e) cs vs"

definition received :: "qt \<Rightarrow> model_call list \<Rightarrow> (model_result \<times> error) list \<Rightarrow> (model_result \<times> error) list" where
  "received q cs vs = map2 (\<lambda>c (v, e). (seen_result q c v, kept_error (wire_error e))) cs vs"

lemma with_store_same [simp]: "with_store name (stores s name) s = s"
  by (simp add: with_store_def)

text \<open>Claim C2: a model used through a connection is the model at the server. For every sequence of
  additions, removals, tests, counts and new blank nodes the client gets, call by call, the wire images of
  the results and the errors the backend's model gives on the wire images of the statements; afterwards the
  store at the server is the backend's, nothing else at the server changed, and no byte is left in
  either direction.\<close>

theorem remote_model_refines:
  assumes "connection r = Some l" "clean l" "modelIdMap (srv l) (modelId r) = Some name" "M = backend_model (core (srv l))"
    and "run M (map (seen_call q) cs) (stores (srv l) name) = (vs, \<sigma>)" "travels q cs vs"
  shows "\<exists>r' l'. remote_run q cs r = Some (received q cs vs, r') \<and> connection r' = Some l' \<and> clean l' \<and>
           srv l' = with_store name \<sigma> (srv l)"
  using assms
proof (induction cs arbitrary: r l vs)
  case Nil
  then have "srv l = with_store name \<sigma> (srv l)" by auto
  with Nil show ?case by (auto simp: received_def)
next
  case (Cons c cs)
  obtain v \<sigma>1 where 1: "call M (seen_call q c) (stores (srv l) name) = (v, \<sigma>1)"
    by (cases "call M (seen_call q c) (stores (srv l) name)")
  obtain vs1 where 2: "run M (map (seen_call q) cs) \<sigma>1 = (vs1, \<sigma>)" "vs = (v, m_lastError M \<sigma>1) # vs1"
    using Cons.prems(5) 1 by (auto split: prod.splits)
  have ok: "call_ok q c" "result_ok q v" "error_ok q (m_lastError M \<sigma>1)" "travels q cs vs1"
    using Cons.prems(6) 2(2) by (simp_all add: travels_def)
  define l1 where "l1 = after (with_store name \<sigma>1 (srv l)) (m_lastError M \<sigma>1) l"
  define r1 where "r1 = r\<lparr>connection := Some l1, model_error := kept_error (wire_error (m_lastError M \<sigma>1))\<rparr>"
  have call: "remote_call q c r = Some (seen_result q c v, r1)"
    unfolding r1_def l1_def
    by (rule remote_call_answered[OF Cons.prems(1-4) ok(1) 1 ok(2,3)])
  have "clean l1" using Cons.prems(2) by (simp add: l1_def) (simp add: clean_def)
  then obtain r' l' where "remote_run q cs r1 = Some (received q cs vs1, r')" "connection r' = Some l'" "clean l'"
      "srv l' = with_store name \<sigma> (srv l)"
    using Cons.IH[of r1 l1 vs1] Cons.prems(3,4) 2(1) ok(4) by (auto simp: r1_def l1_def)
  then show ?case using call 2(2) by (simp add: received_def r1_def)
qed

text \<open>A server with one model, for the examples.\<close>

definition example_row :: binding_set where
  "example_row = bs_of [(''x'', BlankNode ''b'')]"

definition example_core :: "(graph \<times> error) core" where
  "example_core = \<lparr> backend_model = memory_model plain_qt (\<lambda>_ _. Some [example_row]), creatable = (\<lambda>_. True),
     new_store = ([], NoError), features = Some 0 \<rparr>"

definition example_server :: "u32 list \<Rightarrow> (graph \<times> error) server" where
  "example_server rs = (new_server example_core rs)\<lparr>modelIdMap := [7 \<mapsto> ''m''], modelNameMap := [''m'' \<mapsto> 7]\<rparr>"

definition example_statement :: statement where
  "example_statement = mk_statement (BlankNode ''a'') (ResourceNode (QUrl ''p'')) (BlankNode ''b'') EmptyNode"

lemma example_server_fields [simp]:
  "modelIdMap (example_server rs) 7 = Some ''m''" "\<not> conn_closed (example_server rs)"
  "core (example_server rs) = example_core" "stores (example_server rs) n = ([], NoError)"
  "openStatementIterators (example_server rs) = Map.empty" "openNodeIterators (example_server rs) = Map.empty"
  "openQueryIterators (example_server rs) = Map.empty" "randoms (example_server rs) = rs"
  "backend_model example_core = memory_model plain_qt (\<lambda>_ _. Some [example_row])"
  by (simp_all add: example_server_def new_server_def example_core_def)

lemma plain_fits: "length t < 100 \<Longrightarrow> str_ok plain_qt t" "length (encoded u) < 100 \<Longrightarrow> url_ok plain_qt u"
  using plain_qt_utf8_ok plain_qt_url_ok by (simp_all add: str_ok_def url_ok_def fits_def plain_qt_def)

lemma plain_no_error: "error_ok plain_qt NoError"
  using plain_fits(1)[of "[]"] by (simp add: error_ok_def int32_range_def)

lemma example_statement_ok [simp]: "wire_statement_ok plain_qt example_statement"
  "wire_statement plain_qt example_statement = example_statement"
  using plain_fits(1)[of "''a''"] plain_fits(1)[of "''b''"] plain_fits(2)[of "QUrl ''p''"]
  by (simp_all add: example_statement_def wire_statement_ok_def wire_statement_def mk_statement_def url_isEmpty_def)

lemma new_link_fields [simp]: "clean (new_link s) = (\<not> conn_closed s)" "srv (new_link s) = s"
  "connection (new_remote i l) = Some l" "modelId (new_remote i l) = i" "openIterators (new_remote i l) = []"
  by (simp_all add: clean_def new_link_def new_remote_def)

theorem remote_model_refines_witness:
  "\<exists>r' l'. remote_run plain_qt [CAdd example_statement, CCount, CIsEmpty] (new_remote 7 (new_link (example_server [])))
       = Some ([(RCode ErrorNone, NoError), (RInt 1, NoError), (RBool False, NoError)], r')
     \<and> connection r' = Some l' \<and> clean l' \<and> fst (stores (srv l') ''m'') = [example_statement]"
proof -
  let ?l = "new_link (example_server [])" and ?cs = "[CAdd example_statement, CCount, CIsEmpty]"
  let ?M = "memory_model plain_qt (\<lambda>_ _. Some [example_row])"
  have run: "run ?M (map (seen_call plain_qt) ?cs) (stores (srv ?l) ''m'')
      = ([(RCode ErrorNone, NoError), (RInt 1, NoError), (RInt 1, NoError)], ([example_statement], NoError))"
    by (simp add: memory_model_def tag_result_def) code_simp
  show ?thesis
    using remote_model_refines[of "new_remote 7 ?l" ?l "''m''" ?M plain_qt ?cs _ "([example_statement], NoError)", OF _ _ _ _ run]
    by (fastforce simp: travels_def received_def plain_no_error kept_error_def wire_error_def)
qed

end
