(* ===== verification/Remote_Iterator.thy ===== *)
theory Remote_Iterator
  imports Remote_Model
begin

text \<open>
  Listings through a connection: the iterators of the client over the iterators the server keeps open. The
  locale \<open>remote_slot\<close> is what a kind of iterator needs at the server, a place where a cursor is kept under an
  id and commands that move, read and close it; statements, nodes and rows interpret it, and each gives a
  backend that delivers the wire images of the list at the server.
\<close>

section \<open>A cursor at the server\<close>

definition unused :: "u32 \<Rightarrow> 's server \<Rightarrow> bool" where
  "unused i s \<longleftrightarrow> openStatementIterators s i = None \<and> openNodeIterators s i = None \<and> openQueryIterators s i = None"

definition put_statements :: "u32 \<Rightarrow> statement cursor \<Rightarrow> 's server \<Rightarrow> 's server" where
  "put_statements i c s = s\<lparr>openStatementIterators := (openStatementIterators s)(i \<mapsto> c)\<rparr>"

definition put_nodes :: "u32 \<Rightarrow> node cursor \<Rightarrow> 's server \<Rightarrow> 's server" where
  "put_nodes i c s = s\<lparr>openNodeIterators := (openNodeIterators s)(i \<mapsto> c)\<rparr>"

definition put_rows :: "u32 \<Rightarrow> binding_set cursor \<Rightarrow> 's server \<Rightarrow> 's server" where
  "put_rows i c s = s\<lparr>openQueryIterators := (openQueryIterators s)(i \<mapsto> c)\<rparr>"

text \<open>A command with an id only.\<close>

definition on_cursor :: "qt \<Rightarrow> u16 \<Rightarrow> u32 \<Rightarrow> 's server \<Rightarrow> (qbytes \<times> qbytes \<times> 's server) option" where
  "on_cursor q c i s = readNextCommand q (on_id c i) s"

locale remote_slot = codec put get image ok
  for put :: "'a \<Rightarrow> qbytes" and get :: "'b reader" and image :: "'a \<Rightarrow> 'b" and ok :: "'a \<Rightarrow> bool" +
  fixes q :: qt and slot :: "u32 \<Rightarrow> 'a cursor \<Rightarrow> 's server \<Rightarrow> 's server" and code :: u16 and none :: 'a
  assumes slot_open [simp]: "conn_closed (slot i c s) = conn_closed s"
    and slot_next: "unused i s \<Longrightarrow> cursor_next c = (b, c') \<Longrightarrow>
      on_cursor q COMMAND_ITERATOR_NEXT i (slot i c s) = Some (writeBool b @ writeError q NoError, [], slot i c' s)"
    and slot_current: "unused i s \<Longrightarrow>
      on_cursor q code i (slot i c s) = Some (put (cursor_current none c) @ writeError q NoError, [], slot i c s)"
    and slot_close: "unused i s \<Longrightarrow>
      on_cursor q COMMAND_ITERATOR_CLOSE i (slot i c s) = Some (writeError q NoError, [], s)"
begin

lemma next_answered:
  assumes "clean l" "unused i s" "srv l = slot i c s" "cursor_next c = (b, c')" "error_ok q NoError"
  shows "client_iteratorNext q i l = Some (b, after (slot i c' s) NoError l)"
  using boolean.answered[OF assms(1) slot_next[OF assms(2,4), folded assms(3), unfolded on_cursor_def] _ _ assms(5)]
    assms(1,3) by (simp add: client_iteratorNext_def clean_def)

lemma current_answered:
  assumes "clean l" "unused i s" "srv l = slot i c s" "cursor_current none c = x" "ok x" "error_ok q NoError"
  shows "request q a f (on_id code i) d get l = Some (image x, after (slot i c s) NoError l)"
  using answered[OF assms(1) slot_current[OF assms(2), of c, folded assms(3), unfolded on_cursor_def assms(4)] _ assms(5,6)]
    assms(1,3) by (simp add: clean_def)

lemma close_answered:
  assumes "clean l" "unused i s" "srv l = slot i c s" "error_ok q NoError"
  shows "client_iteratorClose q i l = Some ((), after s NoError l)"
proof -
  have "readNextCommand q (on_id COMMAND_ITERATOR_CLOSE i) (srv l) = Some (writeError q NoError, [], s)"
    using slot_close[OF assms(2), of c] assms(3) by (simp add: on_cursor_def)
  moreover have "\<not> conn_closed s" using assms(1,3) by (simp add: clean_def)
  ultimately show ?thesis
    using nothing.answered[OF assms(1), where e = NoError and s = s] assms(4) by (simp add: client_iteratorClose_def)
qed

end

lemma fun_upd_none: "m i = None \<Longrightarrow> m(i := None) = m"
  by (rule fun_upd_idem)

lemmas cursor_commands = on_cursor_def readNextCommand_def read_or_def on_id_def command_bytes_def uint16.dec_enc
  uint32.dec_all handlers_def command_codes

interpretation statements: remote_slot "writeStatement q" "readStatement q" "wire_statement q" "wire_statement_ok q" q
    put_statements COMMAND_ITERATOR_CURRENT_STATEMENT empty_statement for q
  by unfold_locales
     (simp_all add: cursor_commands put_statements_def unused_def srv_iteratorNext_def
       srv_statementIteratorCurrent_def current_command_def srv_iteratorClose_def fun_upd_none)

interpretation nodes: remote_slot "writeNode q" "readNode q" "wire_node q" "wire_node_ok q" q
    put_nodes COMMAND_ITERATOR_CURRENT_NODE EmptyNode for q
  by unfold_locales
     (simp_all add: cursor_commands put_nodes_def unused_def srv_iteratorNext_def
       srv_nodeIteratorCurrent_def current_command_def srv_iteratorClose_def fun_upd_none)

section \<open>The iterator at the client\<close>

text \<open>An open iterator: the cursor at the server, everything else there as in \<open>s\<close>. \<open>ids\<close> are the open
  iterators the model has recorded.\<close>

definition remote_open :: "(u32 \<Rightarrow> 'a cursor \<Rightarrow> 's server \<Rightarrow> 's server) \<Rightarrow> 's server \<Rightarrow> u32 \<Rightarrow> u32 list \<Rightarrow> 'a cursor \<Rightarrow>
    's client_iterator \<Rightarrow> bool" where
  "remote_open slot s i ids c it \<longleftrightarrow> (\<exists>r l. it_model it = Some r \<and> it_id it = i \<and> connection r = Some l \<and>
     openIterators r = ids \<and> clean l \<and> srv l = slot i c s)"

definition remote_at :: "(u32 \<Rightarrow> 'a cursor \<Rightarrow> 's server \<Rightarrow> 's server) \<Rightarrow> ('a \<Rightarrow> 'b) \<Rightarrow> ('a \<Rightarrow> bool) \<Rightarrow> 's server \<Rightarrow> u32 \<Rightarrow> u32 list \<Rightarrow>
    's client_iterator \<Rightarrow> 'b option \<Rightarrow> 'b list \<Rightarrow> bool" where
  "remote_at slot img ok s i ids it h ys \<longleftrightarrow> (\<exists>c. remote_open slot s i ids c it \<and> h = map_option img (here c) \<and>
     ys = map img (upcoming c) \<and> list_all ok (upcoming c) \<and> pred_option ok (here c))"

definition remote_ended :: "(u32 \<Rightarrow> 'a cursor \<Rightarrow> 's server \<Rightarrow> 's server) \<Rightarrow> 's server \<Rightarrow> u32 \<Rightarrow> u32 list \<Rightarrow> 's client_iterator \<Rightarrow> bool" where
  "remote_ended slot s i ids it \<longleftrightarrow> (\<exists>c. remote_open slot s i ids c it)"

lemma remote_atI: "remote_open slot s i ids c it \<Longrightarrow> list_all ok (upcoming c) \<Longrightarrow> pred_option ok (here c) \<Longrightarrow>
    remote_at slot img ok s i ids it (map_option img (here c)) (map img (upcoming c))"
  unfolding remote_at_def by (intro exI conjI) simp_all

text \<open>A closed one: the server as it was, the id no longer recorded.\<close>

definition remote_closed :: "'s server \<Rightarrow> u32 \<Rightarrow> u32 list \<Rightarrow> 's client_iterator \<Rightarrow> bool" where
  "remote_closed s i ids it \<longleftrightarrow> (\<exists>r l. it_model it = Some r \<and> it_id it = i \<and> connection r = Some l \<and>
     openIterators r = removeAll i ids \<and> clean l \<and> srv l = s)"

lemma on_iterator_answered:
  "it_model it = Some r \<Longrightarrow> connection r = Some l \<Longrightarrow> f (it_id it) l = Some (v, after s e l) \<Longrightarrow>
     on_iterator bad f it = Some (v, it\<lparr>it_model := Some (r\<lparr>connection := Some (after s e l)\<rparr>),
       it_error := kept_error (wire_error e)\<rparr>)"
  by (simp add: on_iterator_def)

context remote_slot
begin

lemma ci_next_open:
  assumes o: "remote_open slot s i ids c it" and u: "unused i s" "error_ok q NoError" and n: "cursor_next c = (b, c')"
  shows "\<exists>it'. ci_next q it = Some (b, it') \<and> remote_open slot s i ids c' it'"
proof -
  obtain r l where it: "it_model it = Some r" "it_id it = i" "connection r = Some l" "openIterators r = ids" "clean l"
      "srv l = slot i c s"
    using o by (auto simp: remote_open_def)
  have "\<not> conn_closed s" using it(5,6) by (simp add: clean_def)
  then show ?thesis
    using on_iterator_answered[OF it(1,3), of "client_iteratorNext q", OF next_answered[OF it(5) u(1) it(6) n u(2), folded it(2)]] it
    by (simp add: ci_next_def remote_open_def)
qed

lemma current_open:
  assumes o: "remote_open slot s i ids c it" and u: "unused i s" "error_ok q NoError" and x: "here c = Some x" "ok x"
  shows "\<exists>it'. on_iterator d (\<lambda>i. request q (\<lambda>_. d) d (on_id code i) d get) it = Some (image x, it') \<and>
           remote_open slot s i ids c it'"
proof -
  obtain r l where it: "it_model it = Some r" "it_id it = i" "connection r = Some l" "openIterators r = ids" "clean l"
      "srv l = slot i c s"
    using o by (auto simp: remote_open_def)
  have h: "cursor_current none c = x" using x(1) by (simp add: cursor_current_def)
  have "\<not> conn_closed s" using it(5,6) by (simp add: clean_def)
  then show ?thesis
    using on_iterator_answered[OF it(1,3), of "\<lambda>i. request q (\<lambda>_. d) d (on_id code i) d get",
        OF current_answered[OF it(5) u(1) it(6) h x(2) u(2), folded it(2)]] it
    by (simp add: remote_open_def)
qed

lemma ci_close_open:
  assumes o: "remote_ended slot s i ids it" and u: "unused i s" "error_ok q NoError" "i \<in> set ids"
  shows "\<exists>it'. ci_close q it = Some it' \<and> remote_closed s i ids it'"
proof -
  obtain r l c where it: "it_model it = Some r" "it_id it = i" "connection r = Some l" "openIterators r = ids" "clean l"
      "srv l = slot i c s"
    using o by (auto simp: remote_ended_def remote_open_def)
  have "\<not> conn_closed s" using it(5,6) by (simp add: clean_def)
  then show ?thesis
    using close_answered[OF it(5) u(1) it(6) u(2)] it u(3)
    by (simp add: ci_close_def cm_closeIterator_def remote_closed_def)
qed

end

lemma ci_close_closed: "remote_closed s i ids it \<Longrightarrow> \<exists>it'. ci_close q it = Some it' \<and> remote_closed s i ids it'"
  by (fastforce simp: remote_closed_def ci_close_def cm_closeIterator_def)

context remote_slot
begin

text \<open>An iterator that asks for the current element each time.\<close>

lemma delivers_list:
  assumes B: "b_next B = ci_next q" "b_close B = ci_close q"
      "b_current B = on_iterator d (\<lambda>i. request q (\<lambda>_. d) d (on_id code i) d get)"
    and u: "unused i s" "error_ok q NoError" "i \<in> set ids"
  shows "delivers B (remote_at slot image ok s i ids) (remote_ended slot s i ids) (remote_closed s i ids)"
proof (unfold_locales, goal_cases)
  case (1 it h y ys)
  then obtain c where c: "remote_open slot s i ids c it" "y # ys = map image (upcoming c)" "list_all ok (upcoming c)"
    by (auto simp: remote_at_def)
  then obtain x xs where x: "upcoming c = x # xs" "y = image x" "ys = map image xs" "ok x" "list_all ok xs"
    by (cases "upcoming c") auto
  then have n: "cursor_next c = (True, \<lparr> upcoming = xs, here = Some x \<rparr>)" by (simp add: cursor_next_def)
  then show ?case using ci_next_open[OF c(1) u(1,2) n] x remote_atI[where c = "\<lparr> upcoming = xs, here = Some x \<rparr>"]
    by (fastforce simp: B)
next
  case (2 it h)
  then obtain c where c: "remote_open slot s i ids c it" "upcoming c = []"
    by (auto simp: remote_at_def)
  then show ?case using ci_next_open[OF c(1) u(1,2)] by (auto simp: B remote_ended_def cursor_next_def)
next
  case (3 it y ys)
  then obtain c where c: "remote_open slot s i ids c it" "Some y = map_option image (here c)" "ys = map image (upcoming c)"
      "list_all ok (upcoming c)" "pred_option ok (here c)"
    by (auto simp: remote_at_def)
  then obtain x where "here c = Some x" "y = image x" "ok x" by (cases "here c") auto
  then show ?case using current_open[OF c(1) u(1,2), of x d] c remote_atI[where c = c] by (fastforce simp: B)
next
  case (4 it)
  then show ?case using ci_close_open[OF 4 u] by (simp add: B)
next
  case (5 it)
  then show ?case using ci_close_closed[OF 5] by (simp add: B)
qed

end

lemma remote_statements_deliver:
  "unused i s \<Longrightarrow> error_ok q NoError \<Longrightarrow> i \<in> set ids \<Longrightarrow>
     delivers (remote_statements q) (remote_at put_statements (wire_statement q) (wire_statement_ok q) s i ids)
       (remote_ended put_statements s i ids) (remote_closed s i ids)"
  by (rule statements.delivers_list)
     (simp_all add: remote_statements_def ci_statement_def client_statementIteratorCurrent_def[abs_def])

lemma remote_nodes_deliver:
  "unused i s \<Longrightarrow> error_ok q NoError \<Longrightarrow> i \<in> set ids \<Longrightarrow>
     delivers (remote_nodes q) (remote_at put_nodes (wire_node q) (wire_node_ok q) s i ids)
       (remote_ended put_nodes s i ids) (remote_closed s i ids)"
  by (rule nodes.delivers_list)
     (simp_all add: remote_nodes_def ci_node_def client_nodeIteratorCurrent_def[abs_def])

section \<open>Listings\<close>

definition listed :: "qstring \<Rightarrow> 's \<Rightarrow> u32 list \<Rightarrow> 's server \<Rightarrow> 's server" where
  "listed name \<sigma> rs s = (with_store name \<sigma> s)\<lparr>randoms := rs\<rparr>"

lemma listed_fields [simp]: "unused k (listed name \<sigma> rs s) = unused k s" "conn_closed (listed name \<sigma> rs s) = conn_closed s"
  by (simp_all add: listed_def unused_def with_store_def)

text \<open>A listing command: an argument with a codec, and a place for the new cursor.\<close>

locale listing_rpc = codec write_arg read_arg arg_image arg_ok
  for write_arg :: "'a \<Rightarrow> qbytes" and read_arg :: "'b reader" and arg_image arg_ok +
  fixes q :: qt and c :: u16 and none :: 'b and op :: "'s model \<Rightarrow> 'b \<Rightarrow> 's \<Rightarrow> 'r list option \<times> 's"
    and slot :: "u32 \<Rightarrow> 'r cursor \<Rightarrow> 's server \<Rightarrow> 's server"
  assumes handled: "map_of (handlers q) c = Some (listing_command q none read_arg (\<lambda>k xs. slot k (open_cursor xs)) op)"
    and slot_keeps: "core (slot k x s) = core s" "stores (slot k x s) = stores s" "conn_closed (slot k x s) = conn_closed s"
begin

lemma listing_run:
  assumes "modelIdMap s i = Some name" "M = backend_model (core s)" "arg_ok a"
    and "op M (arg_image a) (stores s name) = (Some xs, \<sigma>)" "randoms s = k # rs" "unused k s"
  shows "readNextCommand q (on_id c i @ write_arg a) s
           = Some (writeUnsignedInt32 k @ writeError q (m_lastError M \<sigma>), [], slot k (open_cursor xs) (listed name \<sigma> rs s))"
proof -
  have free: "\<not> used_iterator_id (with_store name \<sigma> s) k"
    using assms(6) by (simp add: used_iterator_id_def unused_def)
  then have "generateUniqueId (with_store name \<sigma> s) = Some (k, listed name \<sigma> rs s)"
    using assms(5) by (simp add: generateUniqueId_def listed_def with_store_def)
  then show ?thesis
    using assms(1-4) dec_all[OF assms(3)]
    by (simp add: readNextCommand_def read_or_def on_id_def command_bytes_def uint16.dec_enc handled listing_command_def
        uint32.dec_enc modelById_def at_store_def store_error_def map_iterator_def slot_keeps listed_def
        with_store_def[symmetric])
qed

text \<open>The model gets the id, records it, and the new iterator is at the beginning of the list.\<close>

lemma listing_opens:
  assumes r: "connection r = Some l" "clean l" "modelIdMap (srv l) (modelId r) = Some name" "M = backend_model (core (srv l))"
    and run: "arg_ok a" "op M (arg_image a) (stores (srv l) name) = (Some xs, \<sigma>)" "randoms (srv l) = k # rs" "unused k (srv l)"
    and e: "error_ok q (m_lastError M \<sigma>)" "\<not> err_occurred (m_lastError M \<sigma>)" and k: "sint k > 0"
    and f: "f (modelId r) l = request q (\<lambda>_. 0) 0 (on_id c (modelId r) @ write_arg a) 0 readUnsignedInt32 l"
  shows "\<exists>r'. cm_listing f r = Some (Some k, r') \<and>
           remote_open slot (listed name \<sigma> rs (srv l)) k (openIterators r @ [k]) (open_cursor xs) (new_client_iterator k r')"
proof -
  have up: "\<not> conn_closed (srv l)" using r(2) by (simp add: clean_def)
  have "f (modelId r) l = Some (k, after (slot k (open_cursor xs) (listed name \<sigma> rs (srv l))) (m_lastError M \<sigma>) l)"
    unfolding f using uint32.answered[OF r(2) listing_run[OF r(3,4) run], of "\<lambda>_. 0" 0 0] up e(1)
    by (simp add: slot_keeps)
  then show ?thesis
    using r(1,2) e(2) k up
    by (simp add: cm_listing_def remote_open_def new_client_iterator_def slot_keeps)
qed

end

lemma insert_puts:
  "insert_statements = (\<lambda>k xs. put_statements k (open_cursor xs))" "insert_nodes = (\<lambda>k xs. put_nodes k (open_cursor xs))"
  "insert_rows = (\<lambda>k xs. put_rows k (open_cursor xs))"
  by (simp_all add: fun_eq_iff insert_statements_def insert_nodes_def insert_rows_def put_statements_def put_nodes_def put_rows_def)

interpretation listing_statements: listing_rpc "writeStatement q" "readStatement q" "wire_statement q" "wire_statement_ok q"
    q COMMAND_MODEL_LIST_STATEMENTS empty_statement m_listStatements put_statements for q
  by unfold_locales
     (simp_all add: handlers_def command_codes srv_listStatements_def insert_puts put_statements_def)

interpretation listing_contexts: listing_rpc "\<lambda>_. []" no_argument id "\<lambda>_. True"
    q COMMAND_MODEL_LIST_CONTEXTS "()" "\<lambda>M _. m_listContexts M" put_nodes for q
  by unfold_locales
     (simp_all add: handlers_def command_codes srv_listContexts_def insert_puts put_nodes_def)

section \<open>Rows of query results\<close>

definition row_entries :: "binding_set \<Rightarrow> (qstring \<times> node) list" where
  "row_entries b = zip (bindingNames b) (bindingValues b)"

definition row_ok :: "qt \<Rightarrow> binding_set \<Rightarrow> bool" where
  "row_ok q b \<longleftrightarrow> b = bs_of (row_entries b) \<and> distinct (map fst (row_entries b)) \<and>
     list_all (entry_ok q) (row_entries b) \<and> length (row_entries b) < 2 ^ 32"

definition wire_row :: "qt \<Rightarrow> binding_set \<Rightarrow> binding_set" where
  "wire_row q b = bs_of (map (map_prod id (wire_node q)) (row_entries b))"

interpretation row: codec "writeBindingSet q" "readBindingSet q" "wire_row q" "row_ok q" for q
proof
  fix b rest assume "row_ok q b"
  then have b: "b = bs_of (row_entries b)" "distinct (map fst (row_entries b))" "\<forall>x\<in>set (row_entries b). entry_ok q x"
      "length (row_entries b) < 2 ^ 32"
    by (simp_all add: row_ok_def list_all_iff)
  have "readBindingSet q (writeBindingSet q (bs_of (row_entries b)) @ rest) = Some (wire_row q b, rest)"
    using entry.dec_list[OF b(3), of rest] b(4)
    by (simp add: readBindingSet_def writeBindingSet_entries[OF b(2)] uint32.dec_enc unat_of_nat wire_row_def)
  then show "readBindingSet q (writeBindingSet q b @ rest) = Some (wire_row q b, rest)" using b(1) by simp
qed

interpretation rows: remote_slot "writeBindingSet q" "readBindingSet q" "wire_row q" "row_ok q" q
    put_rows COMMAND_ITERATOR_CURRENT_BINDINGSET empty_bindings for q
  by unfold_locales
     (simp_all add: cursor_commands put_rows_def unused_def srv_iteratorNext_def
       srv_queryIteratorCurrent_def current_command_def srv_iteratorClose_def fun_upd_none)

definition row_at :: "qt \<Rightarrow> 's server \<Rightarrow> u32 \<Rightarrow> u32 list \<Rightarrow> 's client_iterator \<Rightarrow> binding_set option \<Rightarrow> binding_set list \<Rightarrow> bool" where
  "row_at q s i ids it h ys \<longleftrightarrow> remote_at put_rows (wire_row q) (row_ok q) s i ids it h ys \<and> (h = None \<or> h = Some (it_row it))"

lemma remote_open_row [simp]: "remote_open slot s i ids c (it\<lparr>it_row := r\<rparr>) = remote_open slot s i ids c it"
  by (simp add: remote_open_def)

lemma remote_open_model: "remote_open slot s i ids c it \<Longrightarrow> \<exists>r. it_model it = Some r"
  by (auto simp: remote_open_def)

lemma cr_next_row:
  assumes o: "remote_open put_rows s i ids c it" and u: "unused i s" "error_ok q NoError" and c: "upcoming c = x # xs" "row_ok q x"
  shows "\<exists>it'. cr_next q it = Some (True, it'\<lparr>it_row := wire_row q x\<rparr>) \<and>
           remote_open put_rows s i ids \<lparr> upcoming = xs, here = Some x \<rparr> it'"
proof -
  have n: "cursor_next c = (True, \<lparr> upcoming = xs, here = Some x \<rparr>)" using c by (simp add: cursor_next_def)
  obtain it1 where 1: "ci_next q it = Some (True, it1)" "remote_open put_rows s i ids \<lparr> upcoming = xs, here = Some x \<rparr> it1"
    using rows.ci_next_open[OF o u n] by blast
  obtain it2 where 2: "on_iterator empty_bindings (client_queryIteratorCurrent q) it1 = Some (wire_row q x, it2)"
      "remote_open put_rows s i ids \<lparr> upcoming = xs, here = Some x \<rparr> it2"
    using rows.current_open[OF 1(2) u _ c(2), of empty_bindings] by (auto simp: client_queryIteratorCurrent_def[abs_def])
  show ?thesis using 1(1) 2 remote_open_model[OF o] by (auto simp: cr_next_def)
qed

lemma cr_next_end:
  assumes o: "remote_open put_rows s i ids c it" and u: "unused i s" "error_ok q NoError" and c: "upcoming c = []"
  shows "\<exists>it'. cr_next q it = Some (False, it') \<and> remote_ended put_rows s i ids it'"
proof -
  have n: "cursor_next c = (False, c\<lparr>here := None\<rparr>)" using c by (simp add: cursor_next_def)
  show ?thesis using rows.ci_next_open[OF o u n] remote_open_model[OF o] by (auto simp: cr_next_def remote_ended_def)
qed

lemma remote_closed_error: "remote_closed s i ids (it\<lparr>it_error := e\<rparr>) = remote_closed s i ids it"
  by (simp add: remote_closed_def)

text \<open>Closing a result leaves another error than closing the other iterators, nothing else.\<close>

lemma cr_close_ci:
  assumes "ci_close q it = Some it'" "remote_closed s i ids it'"
  shows "\<exists>it'. cr_close q it = Some it' \<and> remote_closed s i ids it'"
proof (cases "it_model it")
  case None
  then show ?thesis using assms by (auto simp: ci_close_def remote_closed_def)
next
  case (Some r)
  then show ?thesis
    using assms by (cases "cm_closeIterator q (it_id it) r") (auto simp: ci_close_def cr_close_def remote_closed_def)
qed

lemma remote_rows_deliver:
  assumes u: "unused i s" "error_ok q NoError" "i \<in> set ids"
  shows "delivers (remote_rows q) (row_at q s i ids) (remote_ended put_rows s i ids) (remote_closed s i ids)"
proof (unfold_locales, goal_cases)
  case (1 it h y ys)
  then obtain c where c: "remote_open put_rows s i ids c it" "y # ys = map (wire_row q) (upcoming c)" "list_all (row_ok q) (upcoming c)"
    by (auto simp: row_at_def remote_at_def)
  then obtain x xs where x: "upcoming c = x # xs" "y = wire_row q x" "ys = map (wire_row q) xs" "row_ok q x" "list_all (row_ok q) xs"
    by (cases "upcoming c") auto
  obtain it' where "cr_next q it = Some (True, it'\<lparr>it_row := wire_row q x\<rparr>)"
      "remote_open put_rows s i ids \<lparr> upcoming = xs, here = Some x \<rparr> it'"
    using cr_next_row[OF c(1) u(1,2) x(1,4)] by blast
  then show ?case
    using x remote_atI[of put_rows s i ids "\<lparr> upcoming = xs, here = Some x \<rparr>" "it'\<lparr>it_row := wire_row q x\<rparr>" "row_ok q" "wire_row q"]
    by (simp add: remote_rows_def row_at_def)
next
  case (2 it h)
  then obtain c where "remote_open put_rows s i ids c it" "upcoming c = []"
    by (auto simp: row_at_def remote_at_def)
  then show ?case using cr_next_end u by (auto simp: remote_rows_def)
next
  case (3 it y ys)
  then obtain r where "it_model it = Some r" by (auto simp: row_at_def remote_at_def remote_open_def)
  then show ?case using 3 by (auto simp: remote_rows_def cr_current_def row_at_def)
next
  case (4 it)
  then show ?case using rows.ci_close_open[OF 4 u] cr_close_ci by (fastforce simp: remote_rows_def)
next
  case (5 it)
  then show ?case using ci_close_closed[OF 5] cr_close_ci by (fastforce simp: remote_rows_def)
qed

definition write_query :: "qt \<Rightarrow> qstring \<times> u16 \<times> qstring \<Rightarrow> qbytes" where
  "write_query q x = (case x of (query, lang, user) \<Rightarrow> writeString q query @ writeUnsignedInt16 lang @ writeString q user)"

interpretation query: codec "write_query q" "read_query q" id "\<lambda>(query, lang, user). str_ok q query \<and> str_ok q user" for q
  by unfold_locales
     (auto simp: write_query_def read_query_def read_or_def uint16.dec_enc qtext.dec_enc)

interpretation listing_rows: listing_rpc "write_query q" "read_query q" id "\<lambda>(query, lang, user). str_ok q query \<and> str_ok q user"
    q COMMAND_MODEL_QUERY "([], 0, [])" "\<lambda>M (text, lang, user). m_executeQuery M text (queryLanguageToString lang user)" put_rows for q
  by unfold_locales
     (simp_all add: handlers_def command_codes srv_query_def insert_puts put_rows_def)

section \<open>Listings read to the end\<close>

definition all_statements :: "qt \<Rightarrow> statement \<Rightarrow> 's remote \<Rightarrow> (statement list \<times> 's client_iterator front) option" where
  "all_statements q p r = Option.bind (cm_listStatements q p r)
     (\<lambda>x. allElements (remote_statements q) empty_statement (open_remote x))"

definition all_contexts :: "qt \<Rightarrow> 's remote \<Rightarrow> (node list \<times> 's client_iterator front) option" where
  "all_contexts q r = Option.bind (cm_listContexts q r) (\<lambda>x. allElements (remote_nodes q) EmptyNode (open_remote x))"

definition all_rows :: "qt \<Rightarrow> qstring \<Rightarrow> u16 \<Rightarrow> qstring \<Rightarrow> 's remote \<Rightarrow> (binding_set list \<times> 's client_iterator front) option" where
  "all_rows q query lang user r = Option.bind (cm_executeQuery q query lang user r)
     (\<lambda>x. allElements (remote_rows q) empty_bindings (open_remote x))"

text \<open>Afterwards: the model and its connection behind the iterator, the server as given, no id recorded.\<close>

definition settled :: "'s server \<Rightarrow> u32 list \<Rightarrow> 's client_iterator \<Rightarrow> bool" where
  "settled s ids it \<longleftrightarrow> (\<exists>r l. it_model it = Some r \<and> connection r = Some l \<and> clean l \<and> srv l = s \<and> openIterators r = ids)"

lemma remote_closed_settled: "remote_closed s i (ids @ [i]) it \<Longrightarrow> i \<notin> set ids \<Longrightarrow> settled s ids it"
  by (auto simp: remote_closed_def settled_def)

lemma read_listing:
  assumes L: "L = Some (Some k, r')" and o: "remote_open slot s k (ids @ [k]) (open_cursor xs) (new_client_iterator k r')"
    and D: "delivers B A E (remote_closed s k (ids @ [k]))" and fresh: "k \<notin> set ids"
    and A: "\<And>it. remote_open slot s k (ids @ [k]) (open_cursor xs) it \<Longrightarrow> A it None ys"
  shows "\<exists>it e. Option.bind L (\<lambda>x. allElements B d (open_remote x)) = Some (ys, (Some it, e)) \<and> settled s ids it"
proof -
  obtain it e where "allElements B d (Some (new_client_iterator k r'), NoError) = Some (ys, (Some it, e))"
      "remote_closed s k (ids @ [k]) it"
    using delivers.all_elements[OF D A[OF o]] by blast
  then show ?thesis using L remote_closed_settled[OF _ fresh] by (auto simp: open_remote_def new_iterator_def)
qed

lemma open_at:
  assumes "remote_open slot s i ids (open_cursor xs) it" "list_all ok xs"
  shows "remote_at slot img ok s i ids it None (map img xs)"
  using remote_atI[OF assms(1), of ok img] assms(2) by (simp add: open_cursor_def)

lemma all_contexts_complete:
  assumes r: "connection r = Some l" "clean l" "modelIdMap (srv l) (modelId r) = Some name" "M = backend_model (core (srv l))"
    and new: "randoms (srv l) = k # rs" "unused k (srv l)" "sint k > 0" "k \<notin> set (openIterators r)" and q: "error_ok q NoError"
    and run: "m_listContexts M (stores (srv l) name) = (Some xs, \<sigma>)"
    and e: "error_ok q (m_lastError M \<sigma>)" "\<not> err_occurred (m_lastError M \<sigma>)" and ok: "list_all (wire_node_ok q) xs"
  shows "\<exists>it e. all_contexts q r = Some (map (wire_node q) xs, (Some it, e)) \<and>
           settled (listed name \<sigma> rs (srv l)) (openIterators r) it"
proof -
  obtain r' where o: "cm_listing (client_listContexts q) r = Some (Some k, r')"
      "remote_open put_nodes (listed name \<sigma> rs (srv l)) k (openIterators r @ [k]) (open_cursor xs) (new_client_iterator k r')"
    using listing_contexts.listing_opens[OF r _ _ new(1,2) e new(3), where f = "client_listContexts q" and xs = xs] run
    by (auto simp: client_listContexts_def)
  have "unused k (listed name \<sigma> rs (srv l))" "k \<in> set (openIterators r @ [k])" using new(2) by simp_all
  note D = remote_nodes_deliver[OF this(1) q this(2)]
  show ?thesis
    unfolding all_contexts_def cm_listContexts_def
    by (rule read_listing[OF o D new(4)]) (rule open_at[OF _ ok])
qed

text \<open>Claim C17: a listing through a connection is the listing at the server. Reading to the end what
  listStatements or executeQuery return gives the wire images of exactly the statements, or rows, the
  backend's model lists for the wire image of the pattern, or the query, in their order; afterwards the
  server keeps no iterator of the listing and the client's model records none, so nothing leaks.\<close>

theorem remote_listing_complete:
  assumes "connection r = Some l" "clean l" "modelIdMap (srv l) (modelId r) = Some name" "M = backend_model (core (srv l))"
    and "randoms (srv l) = k # rs" "unused k (srv l)" "sint k > 0" "k \<notin> set (openIterators r)" "error_ok q NoError"
    and "wire_statement_ok q p" "m_listStatements M (wire_statement q p) (stores (srv l) name) = (Some xs, \<sigma>)"
    and "error_ok q (m_lastError M \<sigma>)" "\<not> err_occurred (m_lastError M \<sigma>)" "list_all (wire_statement_ok q) xs"
    and "str_ok q query" "str_ok q user"
    and "m_executeQuery M query (queryLanguageToString lang user) (stores (srv l) name) = (Some rows, \<sigma>')"
    and "error_ok q (m_lastError M \<sigma>')" "\<not> err_occurred (m_lastError M \<sigma>')" "list_all (row_ok q) rows"
  shows "(\<exists>it e. all_statements q p r = Some (map (wire_statement q) xs, (Some it, e)) \<and>
            settled (listed name \<sigma> rs (srv l)) (openIterators r) it)
       \<and> (\<exists>it e. all_rows q query lang user r = Some (map (wire_row q) rows, (Some it, e)) \<and>
            settled (listed name \<sigma>' rs (srv l)) (openIterators r) it)"
proof
  note r = assms(1-4) and new = assms(5-8) and q = assms(9)
  have u: "unused k (listed name x rs (srv l))" "k \<in> set (openIterators r @ [k])" for x using new(2) by simp_all
  obtain r' where o: "cm_listing (\<lambda>i. client_listStatements q i p) r = Some (Some k, r')"
      "remote_open put_statements (listed name \<sigma> rs (srv l)) k (openIterators r @ [k]) (open_cursor xs) (new_client_iterator k r')"
    using listing_statements.listing_opens[OF r assms(10,11) new(1,2) assms(12,13) new(3), where f = "\<lambda>i. client_listStatements q i p"]
    by (auto simp: client_listStatements_def statement_command_def)
  show "\<exists>it e. all_statements q p r = Some (map (wire_statement q) xs, (Some it, e)) \<and>
          settled (listed name \<sigma> rs (srv l)) (openIterators r) it"
    unfolding all_statements_def cm_listStatements_def
    by (rule read_listing[OF o remote_statements_deliver[OF u(1) q u(2)] new(4)]) (rule open_at[OF _ assms(14)])
  obtain r2 where o2: "cm_listing (\<lambda>i. client_executeQuery q i query lang user) r = Some (Some k, r2)"
      "remote_open put_rows (listed name \<sigma>' rs (srv l)) k (openIterators r @ [k]) (open_cursor rows) (new_client_iterator k r2)"
    using listing_rows.listing_opens[OF r _ _ new(1,2) assms(18,19) new(3), where f = "\<lambda>i. client_executeQuery q i query lang user"
        and a = "(query, lang, user)" and xs = rows] assms(15-17)
    by (auto simp: client_executeQuery_def write_query_def)
  show "\<exists>it e. all_rows q query lang user r = Some (map (wire_row q) rows, (Some it, e)) \<and>
          settled (listed name \<sigma>' rs (srv l)) (openIterators r) it"
    unfolding all_rows_def cm_executeQuery_def
    by (rule read_listing[OF o2 remote_rows_deliver[OF u(1) q u(2)] new(4)])
       (auto simp: row_at_def intro!: open_at[OF _ assms(20)])
qed

lemma example_row_ok: "row_ok plain_qt example_row" "wire_row plain_qt example_row = example_row"
proof -
  have e: "row_entries example_row = [(''x'', BlankNode ''b'')]" by code_simp
  show "row_ok plain_qt example_row"
    using plain_fits(1)[of "''x''"] plain_fits(1)[of "''b''"] by (simp add: row_ok_def e entry_ok_def) (simp add: example_row_def)
  show "wire_row plain_qt example_row = example_row" by (simp add: wire_row_def e) (simp add: example_row_def)
qed

theorem remote_listing_complete_witness:
  "(\<exists>it e. all_statements plain_qt empty_statement (new_remote 7 (new_link (with_store ''m'' ([example_statement], NoError) (example_server [5]))))
      = Some ([example_statement], (Some it, e)))
   \<and> (\<exists>it e. all_rows plain_qt ''ask'' 1 [] (new_remote 7 (new_link (with_store ''m'' ([example_statement], NoError) (example_server [5]))))
      = Some ([example_row], (Some it, e)))"
proof -
  let ?s = "with_store ''m'' ([example_statement], NoError) (example_server [5])"
  let ?M = "memory_model plain_qt (\<lambda>_ _. Some [example_row])"
  have p: "wire_statement_ok plain_qt empty_statement"
    by (simp add: wire_statement_ok_def empty_statement_def mk_statement_def)
  have w: "wire_statement plain_qt empty_statement = empty_statement" by code_simp
  have "stmt_matches plain_qt example_statement empty_statement" by code_simp
  then have 1: "m_listStatements ?M (wire_statement plain_qt empty_statement) (stores ?s ''m'') = (Some [example_statement], ([example_statement], NoError))"
    by (simp add: memory_model_def w)
  have 2: "m_executeQuery ?M ''ask'' (queryLanguageToString 1 []) (stores ?s ''m'') = (Some [example_row], ([example_statement], NoError))"
    by (simp add: memory_model_def)
  have none: "m_lastError ?M ([example_statement], NoError) = NoError" by (simp add: memory_model_def)
  show ?thesis
    using remote_listing_complete[of "new_remote 7 (new_link ?s)" "new_link ?s" "''m''" ?M 5 "[]" plain_qt empty_statement
        "[example_statement]" "([example_statement], NoError)" "''ask''" "[]" 1 "[example_row]" "([example_statement], NoError)"]
      p 1 2 plain_no_error plain_fits(1)[of "''ask''"] plain_fits(1)[of "[]"] example_row_ok
    by (auto simp: none unused_def err_occurred_def)
qed

section \<open>Where the protocol fails\<close>

text \<open>The server answers a command for an unknown model without reading its argument: the bytes stay and are
  taken for the next command.\<close>

lemma unknown_model_leaves_payload:
  assumes "modelIdMap s i = None"
  shows "readNextCommand q (on_id COMMAND_MODEL_ADD_STATEMENT i @ writeStatement q st) s
           = Some (writeErrorCode ErrorInvalidArgument @ writeError q invalid_model_id, writeStatement q st, s)"
  using assms
  by (simp add: readNextCommand_def read_or_def on_id_def command_bytes_def uint16.dec_enc handler_codes
      model_command_def uint32.dec_enc modelById_def)

text \<open>A random number 0 is a valid id at the server, but the client neither records nor closes it.\<close>

lemma zero_id_not_recorded:
  assumes "f (modelId r) l = Some (0, l')" "connection r = Some l"
  shows "\<exists>x r'. cm_listing f r = Some (x, r') \<and> openIterators r' = openIterators r"
  using assms by (simp add: cm_listing_def)

text \<open>The truth value of a query leaves the error of the model, not that of the request.\<close>

lemma bool_value_error:
  "it_model it = Some r \<Longrightarrow> cr_boolValue q it = Some (b, it') \<Longrightarrow> it_error it' = kept_error (model_error r)"
  by (auto simp: cr_boolValue_def)

end
