(* ===== verification/Inference_Rule.thy ===== *)
theory Inference_Rule
  imports Rdf_Node Binding_Set
begin

text \<open>
  The rules of the inference model (soprano/inference: nodepattern.cpp, statementpattern.cpp,
  inferencerule.cpp, inferenceruleset.cpp, sil.cpp, and how inferenceruleparser.cpp reads a node): patterns, the SPARQL text
  of a rule, and the statements a row of its result stands for.
\<close>

section \<open>Patterns\<close>

record node_pattern =
  variable :: bool
  np_node :: node
  np_name :: qstring

definition empty_np :: node_pattern where
  "empty_np = \<lparr> variable = False, np_node = EmptyNode, np_name = [] \<rparr>"

definition np_of_node :: "node \<Rightarrow> node_pattern" where
  "np_of_node n = \<lparr> variable = False, np_node = n, np_name = [] \<rparr>"

definition np_of_var :: "qstring \<Rightarrow> node_pattern" where
  "np_of_var v = \<lparr> variable = True, np_node = EmptyNode, np_name = v \<rparr>"

definition np_match :: "qt \<Rightarrow> node_pattern \<Rightarrow> node \<Rightarrow> bool" where
  "np_match q p n \<longleftrightarrow> variable p \<or> node_eq q n (np_node p)"

definition createSparqlNodePattern :: "qt \<Rightarrow> binding_set \<Rightarrow> node_pattern \<Rightarrow> qstring" where
  "createSparqlNodePattern q bindings p =
     (if variable p then
        (if \<not> bs_contains bindings (np_name p) then ''?'' @ np_name p
         else ''<'' @ node_toString q (value_of bindings (np_name p)) @ ''>'')
      else if node_isLiteral (np_node p) then
        (if node_language (np_node p) \<noteq> []
         then q_arg (q_arg (dquote # ''%1'' @ dquote # ''@%2'') (node_toString q (np_node p))) (node_language (np_node p))
         else q_arg (q_arg (dquote # ''%1'' @ dquote # ''^^<%2>'') (node_toString q (np_node p)))
                (url_toString q (node_dataType (np_node p))))
      else if node_isResource (np_node p) then ''<'' @ encoded (node_uri (np_node p)) @ ''>''
      else ''_:'' @ node_toString q (np_node p))"

definition np_isValid :: "node_pattern \<Rightarrow> bool" where
  "np_isValid p \<longleftrightarrow> variable p \<and> np_name p \<noteq> [] \<or> node_isValid (np_node p)"

record statement_pattern =
  sp_subject :: node_pattern
  sp_predicate :: node_pattern
  sp_object :: node_pattern

definition mk_sp :: "node_pattern \<Rightarrow> node_pattern \<Rightarrow> node_pattern \<Rightarrow> statement_pattern" where
  "mk_sp s p ob = \<lparr> sp_subject = s, sp_predicate = p, sp_object = ob \<rparr>"

definition sp_match :: "qt \<Rightarrow> statement_pattern \<Rightarrow> statement \<Rightarrow> bool" where
  "sp_match q p s \<longleftrightarrow> np_match q (sp_subject p) (subject s) \<and> np_match q (sp_predicate p) (predicate s) \<and>
     np_match q (sp_object p) (object s)"

definition createSparqlGraphPattern :: "qt \<Rightarrow> binding_set \<Rightarrow> statement_pattern \<Rightarrow> qstring" where
  "createSparqlGraphPattern q bindings p =
     q_arg (q_arg (q_arg ''%1 %2 %3'' (createSparqlNodePattern q bindings (sp_subject p)))
       (createSparqlNodePattern q bindings (sp_predicate p))) (createSparqlNodePattern q bindings (sp_object p))"

definition sp_isValid :: "statement_pattern \<Rightarrow> bool" where
  "sp_isValid p \<longleftrightarrow> np_isValid (sp_subject p) \<and> np_isValid (sp_predicate p) \<and> np_isValid (sp_object p)"

section \<open>Rules\<close>

record rule =
  preconditions :: "statement_pattern list"
  effect :: statement_pattern
  bindingStatement :: statement

definition new_rule :: rule where
  "new_rule = \<lparr> preconditions = [], effect = mk_sp empty_np empty_np empty_np, bindingStatement = empty_statement \<rparr>"

definition addPrecondition :: "statement_pattern \<Rightarrow> rule \<Rightarrow> rule" where
  "addPrecondition p r = r\<lparr>preconditions := preconditions r @ [p]\<rparr>"

definition setEffect :: "statement_pattern \<Rightarrow> rule \<Rightarrow> rule" where
  "setEffect p r = r\<lparr>effect := p\<rparr>"

definition bindToStatement :: "statement \<Rightarrow> rule \<Rightarrow> rule" where
  "bindToStatement s r = r\<lparr>bindingStatement := s\<rparr>"

definition rule_match :: "qt \<Rightarrow> rule \<Rightarrow> statement \<Rightarrow> bool" where
  "rule_match q r s \<longleftrightarrow> list_ex (\<lambda>p. sp_match q p s) (preconditions r)"

definition rule_isValid :: "rule \<Rightarrow> bool" where
  "rule_isValid r \<longleftrightarrow> preconditions r \<noteq> [] \<and> sp_isValid (effect r)"

definition bind_var :: "node_pattern \<Rightarrow> node \<Rightarrow> binding_set \<Rightarrow> binding_set" where
  "bind_var p n b = (if variable p then bs_insert (np_name p) n b else b)"

text \<open>The variables of a pattern bound to the parts of a statement, in the order of the insertions.\<close>

definition bind_pattern :: "statement_pattern \<Rightarrow> statement \<Rightarrow> binding_set \<Rightarrow> binding_set" where
  "bind_pattern p s b = bind_var (sp_object p) (object s) (bind_var (sp_predicate p) (predicate s)
     (bind_var (sp_subject p) (subject s) b))"

definition patterns_text :: "qt \<Rightarrow> binding_set \<Rightarrow> statement_pattern list \<Rightarrow> qstring" where
  "patterns_text q b ps = concat (map (\<lambda>p. createSparqlGraphPattern q b p @ '' . '') ps)"

text \<open>The effect cannot become a valid statement with these bindings.\<close>

definition effect_invalid :: "rule \<Rightarrow> binding_set \<Rightarrow> bool" where
  "effect_invalid r b \<longleftrightarrow>
     variable (sp_subject (effect r)) \<and> bs_contains b (np_name (sp_subject (effect r))) \<and>
       node_isLiteral (value_of b (np_name (sp_subject (effect r)))) \<or>
     variable (sp_predicate (effect r)) \<and> bs_contains b (np_name (sp_predicate (effect r))) \<and>
       \<not> node_isResource (value_of b (np_name (sp_predicate (effect r))))"

definition drop_nth :: "nat \<Rightarrow> 'a list \<Rightarrow> 'a list" where
  "drop_nth i xs = take i xs @ drop (Suc i) xs"

text \<open>One subquery for every precondition the bound statement matches: the other preconditions with its
  bindings.\<close>

definition subqueries :: "qt \<Rightarrow> rule \<Rightarrow> qstring list" where
  "subqueries q r = concat (map (\<lambda>i.
     (let p = preconditions r ! i; b = bind_pattern p (bindingStatement r) empty_bindings
      in if \<not> sp_match q p (bindingStatement r) \<or> effect_invalid r b then []
         else [patterns_text q b (drop_nth i (preconditions r))])) [0..<length (preconditions r)])"

definition createSparqlQuery :: "qt \<Rightarrow> bool \<Rightarrow> rule \<Rightarrow> qstring" where
  "createSparqlQuery q bindStatement r =
     (let query =
        (if \<not> bindStatement \<or> \<not> stmt_isValid (bindingStatement r) then patterns_text q empty_bindings (preconditions r)
         else (let sub = subqueries q r
           in if length sub > 1 then ''{ '' @ join_with '' } UNION { '' sub @ '' }''
              else if length sub > 0 then sub ! 0 else []))
      in if query \<noteq> [] then ''SELECT * WHERE { '' @ query @ ''}'' else [])"

definition bind_node :: "node_pattern \<Rightarrow> binding_set \<Rightarrow> node" where
  "bind_node p b = (if variable p then value_of b (np_name p) else np_node p)"

definition bindStatementPattern :: "statement_pattern \<Rightarrow> binding_set \<Rightarrow> statement" where
  "bindStatementPattern p b =
     mk_statement (bind_node (sp_subject p) b) (bind_node (sp_predicate p) b) (bind_node (sp_object p) b) EmptyNode"

text \<open>The row had a value for a variable of the pattern.\<close>

definition np_bound :: "binding_set \<Rightarrow> node_pattern \<Rightarrow> bool" where
  "np_bound b p \<longleftrightarrow> variable p \<and> node_isValid (value_of b (np_name p))"

definition sp_bound :: "binding_set \<Rightarrow> statement_pattern \<Rightarrow> bool" where
  "sp_bound b p \<longleftrightarrow> np_bound b (sp_subject p) \<or> np_bound b (sp_predicate p) \<or> np_bound b (sp_object p)"

definition mergeBindingStatement :: "rule \<Rightarrow> binding_set \<Rightarrow> binding_set" where
  "mergeBindingStatement r bindings =
     fold (\<lambda>p bs. if sp_bound bindings p then bs else bind_pattern p (bindingStatement r) bs) (preconditions r) bindings"

definition bindEffect :: "rule \<Rightarrow> binding_set \<Rightarrow> statement" where
  "bindEffect r b = bindStatementPattern (effect r) (mergeBindingStatement r b)"

definition bindPreconditions :: "rule \<Rightarrow> binding_set \<Rightarrow> statement list" where
  "bindPreconditions r b = map (\<lambda>p. bindStatementPattern p (mergeBindingStatement r b)) (preconditions r)"

section \<open>Rule sets\<close>

text \<open>A QHash of rules; the order in which it gives its values is that of the list here.\<close>

type_synonym rule_set = "(qstring \<times> rule) list"

definition rs_insert :: "qstring \<Rightarrow> rule \<Rightarrow> rule_set \<Rightarrow> rule_set" where
  "rs_insert name r rs = AList.update name r rs"

definition rs_count :: "rule_set \<Rightarrow> nat" where "rs_count rs = length rs"

text \<open>\<open>None\<close>: the index is out of range, which QList::at does not check.\<close>

definition rs_at :: "rule_set \<Rightarrow> nat \<Rightarrow> rule option" where
  "rs_at rs i = (if i < length rs then Some (snd (rs ! i)) else None)"

definition rs_rule :: "rule_set \<Rightarrow> qstring \<Rightarrow> rule" where
  "rs_rule rs name = (case map_of rs name of None \<Rightarrow> new_rule | Some r \<Rightarrow> r)"

definition allRules :: "rule_set \<Rightarrow> rule list" where "allRules rs = map snd rs"
definition ruleNames :: "rule_set \<Rightarrow> qstring list" where "ruleNames rs = map fst rs"

section \<open>Reading a node of a rule\<close>

fun find_text :: "qstring \<Rightarrow> qstring \<Rightarrow> nat option" where
  "find_text t [] = (if t = [] then Some 0 else None)"
| "find_text t (c # cs) = (if take (length t) (c # cs) = t then Some 0 else map_option Suc (find_text t cs))"

text \<open>The result and its success flag. For a blank node the flag keeps the value it had.\<close>

definition parseNodePattern :: "qt \<Rightarrow> (qstring \<rightharpoonup> qurl) \<Rightarrow> bool \<Rightarrow> qstring \<Rightarrow> node_pattern \<times> bool" where
  "parseNodePattern q pfx success s =
     (if s ! 0 = CHR ''?'' then (np_of_var (drop 1 s), True)
      else if s ! 0 = CHR ''<'' then (np_of_node (node_of_url (url_parse q (mid s 1 (length s - 2)))), True)
      else if s ! 0 = CHR ''_'' \<and> length s > 2 \<and> s ! 1 = CHR '':'' then (np_of_node (node_of_id (drop 2 s)), success)
      else if s ! 0 = dquote \<or> s ! 0 = CHR 0x27 then
        (case find_text (s ! 0 # ''^^<'') s of
           Some (Suc p) \<Rightarrow> (np_of_node (node_of_literal (fromString_uri q (mid s 1 p)
               (url_parse q (mid s (Suc p + 4) (length s - Suc p - 5))))), True)
         | _ \<Rightarrow> (case find_text (s ! 0 # ''@'') s of
             Some (Suc p) \<Rightarrow>
               (let lang = mid s (Suc p + 2) (length s - Suc p - 3)
                in (np_of_node (node_of_literal (createPlainLiteral (mid s 1 (length s - 1 - length lang))
                      (tag_of_string lang))), True))
           | _ \<Rightarrow> (np_of_node (node_of_literal (createPlainLiteral (mid s 1 (length s - 2)) (tag_of_string []))), True)))
      else (case toInt s of
          Some v \<Rightarrow> (np_of_node (node_of_literal (lit_int (word_of_int v))), True)
        | None \<Rightarrow> (case find_text '':'' s of
            None \<Rightarrow> (case pfx s of
                None \<Rightarrow> (empty_np, False)
              | Some u \<Rightarrow> (np_of_node (node_of_url (url_parse q (url_toString q u @ s))), True))
          | Some i \<Rightarrow> (case pfx (take i s) of
                None \<Rightarrow> (empty_np, False)
              | Some u \<Rightarrow> (np_of_node (node_of_url (url_parse q (url_toString q u @ drop (i + 1) s))), True)))))"

end
