(* ===== verification/Inference_Model.thy ===== *)
theory Inference_Model
  imports Inference_Rule Model_Stack
begin

text \<open>
  The inference model (soprano/inference/inferencemodel.cpp, sil.cpp): a filter that applies rules to what
  is added, keeps every inferred statement in a graph of its own together with what it was inferred
  from, and removes it when a source is removed.

  The recursion of inference need not end, so its depth is bounded by fuel: a run is \<open>Inl st\<close>, interrupted at
  depth 0 in the state \<open>st\<close>, or \<open>Inr\<close> a result. Random URIs are numbered by a counter in the state.
\<close>

section \<open>The SIL vocabulary\<close>

definition silNamespace :: qstring where "silNamespace = ''http://soprano.org/sil#''"

definition sil_InferenceMetaData :: qurl where "sil_InferenceMetaData = QUrl (silNamespace @ ''InferenceMetaData'')"
definition sil_InferenceGraph :: qurl where "sil_InferenceGraph = QUrl (silNamespace @ ''InferenceGraph'')"
definition sil_sourceStatement :: qurl where "sil_sourceStatement = QUrl (silNamespace @ ''sourceStatement'')"
definition sil_context :: qurl where "sil_context = QUrl (silNamespace @ ''context'')"

abbreviation "type_node \<equiv> ResourceNode (rdf RdfType)"
abbreviation "meta_node \<equiv> ResourceNode sil_InferenceMetaData"
abbreviation "graph_node \<equiv> ResourceNode sil_InferenceGraph"
abbreviation "source_node \<equiv> ResourceNode sil_sourceStatement"

section \<open>State\<close>

record 's inference =
  inf_parent :: 's
  inf_error :: error
  inf_rules :: "rule list"
  compressedStatements :: bool
  optimizedQueries :: bool
  uri_count :: nat

definition new_inference :: "'s \<Rightarrow> 's inference" where
  "new_inference \<sigma> = \<lparr> inf_parent = \<sigma>, inf_error = NoError, inf_rules = [], compressedStatements = True,
     optimizedQueries = False, uri_count = 0 \<rparr>"

definition setCompressedSourceStatements :: "bool \<Rightarrow> 's inference \<Rightarrow> 's inference" where
  "setCompressedSourceStatements b st = st\<lparr>compressedStatements := b\<rparr>"

definition setOptimizedQueriesEnabled :: "bool \<Rightarrow> 's inference \<Rightarrow> 's inference" where
  "setOptimizedQueriesEnabled b st = st\<lparr>optimizedQueries := b\<rparr>"

definition addRule :: "rule \<Rightarrow> 's inference \<Rightarrow> 's inference" where
  "addRule r st = st\<lparr>inf_rules := inf_rules st @ [r]\<rparr>"

definition setRules :: "rule list \<Rightarrow> 's inference \<Rightarrow> 's inference" where
  "setRules rs st = st\<lparr>inf_rules := rs\<rparr>"

text \<open>The statement as a text; a literal.\<close>

definition compressStatement :: "qt \<Rightarrow> statement \<Rightarrow> node" where
  "compressStatement q s =
     (let t = q_arg (q_arg ''<%1> <%2> '' (node_toString q (subject s))) (node_toString q (predicate s));
          e = (if node_isLiteral (object s)
               then q_arg (q_arg (dquote # ''%1'' @ dquote # ''^^<%2>'') (node_toString q (object s)))
                      (url_toString q (node_dataType (object s)))
               else ''<'' @ node_toString q (object s) @ ''>'')
      in node_of_literal (lit_string (t @ e)))"

text \<open>The braces around the identifier are cut off.\<close>

definition createRandomUri :: "(nat \<Rightarrow> qstring) \<Rightarrow> 's inference \<Rightarrow> qurl \<times> 's inference" where
  "createRandomUri uuid st =
     (let uid = uuid (uri_count st)
      in (QUrl (''inference://localhost#'' @ mid uid 1 (length uid - 2)), st\<lparr>uri_count := Suc (uri_count st)\<rparr>))"

text \<open>A call on the parent model whose result nobody looks at.\<close>

definition parent_add :: "'s model \<Rightarrow> statement \<Rightarrow> 's inference \<Rightarrow> 's inference" where
  "parent_add M s st = st\<lparr>inf_parent := snd (m_addStatement M s (inf_parent st))\<rparr>"

definition storeUncompressedSourceStatement ::
  "'s model \<Rightarrow> (nat \<Rightarrow> qstring) \<Rightarrow> statement \<Rightarrow> 's inference \<Rightarrow> qurl \<times> 's inference" where
  "storeUncompressedSourceStatement M uuid s st =
     (case createRandomUri uuid st of (u, st) \<Rightarrow>
      (let st = parent_add M (mk_statement (node_of_url u) type_node (node_of_url (rdf RdfStatement)) meta_node) st;
           st = parent_add M (mk_statement (node_of_url u) (node_of_url (rdf RdfSubject)) (subject s) meta_node) st;
           st = parent_add M (mk_statement (node_of_url u) (node_of_url (rdf RdfPredicate)) (predicate s) meta_node) st;
           st = parent_add M (mk_statement (node_of_url u) (node_of_url (rdf RdfObject)) (object s) meta_node) st
       in (u, if node_isValid (context_node s)
              then parent_add M (mk_statement (node_of_url u) (node_of_url sil_context) (context_node s) meta_node) st
              else st)))"

section \<open>Inference\<close>

definition add_source :: "qt \<Rightarrow> 's model \<Rightarrow> (nat \<Rightarrow> qstring) \<Rightarrow> qurl \<Rightarrow> statement \<Rightarrow> 's inference \<Rightarrow> 's inference" where
  "add_source q M uuid g s st =
     (if compressedStatements st
      then parent_add M (mk_statement (node_of_url g) source_node (compressStatement q s) meta_node) st
      else (case storeUncompressedSourceStatement M uuid s st of
          (u, st) \<Rightarrow> parent_add M (mk_statement (node_of_url g) source_node (node_of_url u) meta_node) st))"

text \<open>One row of the result of a rule's query: a new statement with its graph, or nothing.\<close>

definition infer_row :: "qt \<Rightarrow> 's model \<Rightarrow> (nat \<Rightarrow> qstring) \<Rightarrow> rule \<Rightarrow> binding_set \<Rightarrow> 's inference \<Rightarrow>
    statement list \<times> 's inference" where
  "infer_row q M uuid r b st =
     (let s = bindEffect r b
      in if stmt_isValid s then
           (case m_containsAnyStatement M s (inf_parent st) of (present, \<sigma>) \<Rightarrow>
             (let st = st\<lparr>inf_parent := \<sigma>\<rparr>
              in if present then ([], st)
                 else (case createRandomUri uuid st of (g, st) \<Rightarrow>
                   (let s = setContext (node_of_url g) s;
                        st = parent_add M s st;
                        st = parent_add M (mk_statement (node_of_url g) type_node graph_node meta_node) st
                    in ([s], fold (add_source q M uuid g) (bindPreconditions r b) st)))))
         else ([], st))"

fun infer_rows :: "qt \<Rightarrow> 's model \<Rightarrow> (nat \<Rightarrow> qstring) \<Rightarrow> rule \<Rightarrow> binding_set list \<Rightarrow> 's inference \<Rightarrow>
    statement list \<times> 's inference" where
  "infer_rows q M uuid r [] st = ([], st)"
| "infer_rows q M uuid r (b # bs) st = (case infer_row q M uuid r b st of (ss, st) \<Rightarrow>
     (case infer_rows q M uuid r bs st of (ts, st) \<Rightarrow> (ss @ ts, st)))"

type_synonym 's run = "'s inference + (nat \<times> 's inference)"

text \<open>A loop that adds up the counts, and stops where a step was interrupted.\<close>

fun sum_loop :: "('x \<Rightarrow> 's inference \<Rightarrow> 's run) \<Rightarrow> 'x list \<Rightarrow> 's inference \<Rightarrow> 's run" where
  "sum_loop f [] st = Inr (0, st)"
| "sum_loop f (x # xs) st = (case f x st of
     Inl st \<Rightarrow> Inl st
   | Inr (c, st) \<Rightarrow> (case sum_loop f xs st of Inl st \<Rightarrow> Inl st | Inr (d, st) \<Rightarrow> Inr (c + d, st)))"

text \<open>The rules that match a statement are bound to it and applied by \<open>rec\<close>.\<close>

definition infer_matching :: "qt \<Rightarrow> (rule \<Rightarrow> 's inference \<Rightarrow> 's run) \<Rightarrow> statement \<Rightarrow> nat \<Rightarrow> 's inference \<Rightarrow> 's run" where
  "infer_matching q rec s i st =
     (let r = inf_rules st ! i
      in if rule_match q r s then
           (let r = bindToStatement s r in rec r (st\<lparr>inf_rules := (inf_rules st)[i := r]\<rparr>))
         else Inr (0, st))"

definition inferStatement :: "qt \<Rightarrow> (rule \<Rightarrow> 's inference \<Rightarrow> 's run) \<Rightarrow> statement \<Rightarrow> 's inference \<Rightarrow> 's run" where
  "inferStatement q rec s st = sum_loop (infer_matching q rec s) [0..<length (inf_rules st)] st"

definition rows_of :: "'a list option \<Rightarrow> 'a list" where
  "rows_of it = (case it of None \<Rightarrow> [] | Some xs \<Rightarrow> xs)"

primrec inferRule :: "nat \<Rightarrow> qt \<Rightarrow> 's model \<Rightarrow> (nat \<Rightarrow> qstring) \<Rightarrow> bool \<Rightarrow> rule \<Rightarrow> 's inference \<Rightarrow> 's run" where
  "inferRule 0 q M uuid recurse r st = Inl st"
| "inferRule (Suc n) q M uuid recurse r st =
     (let query = createSparqlQuery q (optimizedQueries st) r
      in if query = [] then Inr (0, st)
         else (case m_executeQuery M query ''SPARQL'' (inf_parent st) of (it, \<sigma>) \<Rightarrow>
           (case infer_rows q M uuid r (rows_of it) (st\<lparr>inf_parent := \<sigma>\<rparr>) of (ss, st) \<Rightarrow>
             if recurse \<and> ss \<noteq> [] then
               (case sum_loop (inferStatement q (inferRule n q M uuid True)) ss st of
                  Inl st \<Rightarrow> Inl st
                | Inr (c, st) \<Rightarrow> Inr (length ss + c, st))
             else Inr (length ss, st))))"

text \<open>Every rule is applied without a bound statement.\<close>

definition perform_rule :: "nat \<Rightarrow> qt \<Rightarrow> 's model \<Rightarrow> (nat \<Rightarrow> qstring) \<Rightarrow> nat \<Rightarrow> 's inference \<Rightarrow> 's run" where
  "perform_rule n q M uuid i st =
     (let r = bindToStatement empty_statement (inf_rules st ! i)
      in inferRule n q M uuid True r (st\<lparr>inf_rules := (inf_rules st)[i := r]\<rparr>))"

definition performInference :: "nat \<Rightarrow> qt \<Rightarrow> 's model \<Rightarrow> (nat \<Rightarrow> qstring) \<Rightarrow> 's inference \<Rightarrow> 's run" where
  "performInference n q M uuid st = sum_loop (perform_rule n q M uuid) [0..<length (inf_rules st)] st"

text \<open>A call that FilterModel forwards.\<close>

definition inf_forward :: "'s model \<Rightarrow> ('s \<Rightarrow> 'r \<times> 's) \<Rightarrow> 's inference \<Rightarrow> 'r \<times> 's inference" where
  "inf_forward M f st = (case f (inf_parent st) of (r, \<sigma>) \<Rightarrow>
     (r, st\<lparr>inf_parent := \<sigma>, inf_error := kept_error (m_lastError M \<sigma>)\<rparr>))"

definition inf_addStatement :: "nat \<Rightarrow> qt \<Rightarrow> 's model \<Rightarrow> (nat \<Rightarrow> qstring) \<Rightarrow> statement \<Rightarrow> 's inference \<Rightarrow>
    's inference + (error_code \<times> 's inference)" where
  "inf_addStatement n q M uuid s st =
     (case inf_forward M (m_addStatement M s) st of (e, st) \<Rightarrow>
       if e = ErrorNone then
         (case inferStatement q (inferRule n q M uuid True) s st of Inl st \<Rightarrow> Inl st | Inr (c, st) \<Rightarrow> Inr (e, st))
       else Inr (e, st))"

section \<open>Removal\<close>

definition parent_list :: "'s model \<Rightarrow> statement \<Rightarrow> 's inference \<Rightarrow> statement list \<times> 's inference" where
  "parent_list M p st = (case m_listStatements M p (inf_parent st) of (it, \<sigma>) \<Rightarrow> (rows_of it, st\<lparr>inf_parent := \<sigma>\<rparr>))"

definition node_set :: "qt \<Rightarrow> node list \<Rightarrow> node list" where
  "node_set q ns = fold (node_set_insert q) ns []"

definition node_set_common :: "qt \<Rightarrow> node list \<Rightarrow> node list \<Rightarrow> node list" where
  "node_set_common q a b = filter (\<lambda>n. list_ex (\<lambda>m. node_hash q m = node_hash q n \<and> node_eq q m n) b) a"

definition source_query :: "qt \<Rightarrow> node \<Rightarrow> qstring" where
  "source_query q n = q_arg (q_arg ''SELECT ?g WHERE { ?g <%1> <%2> . }'' (url_toString q sil_sourceStatement)) (node_toString q n)"

fun graphs_of :: "qt \<Rightarrow> 's model \<Rightarrow> node list \<Rightarrow> 's inference \<Rightarrow> node list \<times> 's inference" where
  "graphs_of q M [] st = ([], st)"
| "graphs_of q M (n # ns) st = (case m_executeQuery M (source_query q n) ''SPARQL'' (inf_parent st) of (it, \<sigma>) \<Rightarrow>
     (case graphs_of q M ns (st\<lparr>inf_parent := \<sigma>\<rparr>) of (gs, st) \<Rightarrow> (map (\<lambda>b. value_at b 0) (rows_of it) @ gs, st)))"

definition inferedGraphsForStatement :: "qt \<Rightarrow> 's model \<Rightarrow> statement \<Rightarrow> 's inference \<Rightarrow> node list \<times> 's inference" where
  "inferedGraphsForStatement q M s st =
     (if compressedStatements st then
        (case parent_list M (mk_statement EmptyNode source_node (compressStatement q s) meta_node) st of
           (ss, st) \<Rightarrow> (map subject ss, st))
      else
        (case parent_list M (mk_statement EmptyNode (node_of_url (rdf RdfSubject)) (subject s) EmptyNode) st of (a, st) \<Rightarrow>
        (case parent_list M (mk_statement EmptyNode (node_of_url (rdf RdfPredicate)) (predicate s) EmptyNode) st of (b, st) \<Rightarrow>
        (case parent_list M (mk_statement EmptyNode (node_of_url (rdf RdfObject)) (object s) EmptyNode) st of (c, st) \<Rightarrow>
          graphs_of q M (node_set_common q (node_set_common q (node_set q (map subject a)) (node_set q (map subject b)))
            (node_set q (map subject c))) st))))"

type_synonym 's removal = "'s inference + (error_code \<times> 's inference)"

text \<open>A loop that stops at the first error.\<close>

fun err_loop :: "('x \<Rightarrow> 's inference \<Rightarrow> 's removal) \<Rightarrow> 'x list \<Rightarrow> 's inference \<Rightarrow> 's removal" where
  "err_loop f [] st = Inr (ErrorNone, st)"
| "err_loop f (x # xs) st = (case f x st of
     Inl st \<Rightarrow> Inl st
   | Inr (c, st) \<Rightarrow> if c \<noteq> ErrorNone then Inr (c, st) else err_loop f xs st)"

definition filter_removeAll :: "'s model \<Rightarrow> statement \<Rightarrow> 's inference \<Rightarrow> 's removal" where
  "filter_removeAll M p st = Inr (inf_forward M (m_removeAllStatements M p) st)"

definition inf_removeAllStatements :: "'s model \<Rightarrow> (statement \<Rightarrow> 's inference \<Rightarrow> 's removal) \<Rightarrow> statement \<Rightarrow> 's inference \<Rightarrow> 's removal" where
  "inf_removeAllStatements M remove p st =
     (if \<not> node_isLiteral (object p) then
        (case parent_list M p st of (ss, st) \<Rightarrow> err_loop remove ss st)
      else Inr (ErrorNone, st))"

text \<open>Model::removeContext on this model.\<close>

definition inf_removeContext :: "'s model \<Rightarrow> (statement \<Rightarrow> 's inference \<Rightarrow> 's removal) \<Rightarrow> node \<Rightarrow> 's inference \<Rightarrow> 's removal" where
  "inf_removeContext M remove c st =
     (if node_isValid c then inf_removeAllStatements M remove (context_pattern c) st
      else Inr (ErrorInvalidArgument,
        st\<lparr>inf_error := mk_error ''Cannot remove the empty context'' (error_code_num ErrorInvalidArgument)\<rparr>))"

definition remove_graph :: "'s model \<Rightarrow> (statement \<Rightarrow> 's inference \<Rightarrow> 's removal) \<Rightarrow> node \<Rightarrow> 's inference \<Rightarrow> 's removal" where
  "remove_graph M remove g st =
     (case (if compressedStatements st then Inr (ErrorNone, st)
            else (case parent_list M (mk_statement g source_node EmptyNode meta_node) st of
                (ss, st) \<Rightarrow> err_loop (filter_removeAll M) (map (\<lambda>s. mk_statement (object s) EmptyNode EmptyNode meta_node) ss) st)) of
        Inl st \<Rightarrow> Inl st
      | Inr (c, st) \<Rightarrow> if c \<noteq> ErrorNone then Inr (c, st)
          else (case filter_removeAll M (mk_statement g EmptyNode EmptyNode meta_node) st of
              Inl st \<Rightarrow> Inl st
            | Inr (c, st) \<Rightarrow> if c \<noteq> ErrorNone then Inr (c, st) else inf_removeContext M remove g st))"

primrec inf_removeStatement :: "nat \<Rightarrow> qt \<Rightarrow> 's model \<Rightarrow> statement \<Rightarrow> 's inference \<Rightarrow> 's removal" where
  "inf_removeStatement 0 q M s st = Inl st"
| "inf_removeStatement (Suc n) q M s st =
     (case inf_forward M (m_removeStatement M s) st of (c, st) \<Rightarrow>
       if c \<noteq> ErrorNone then Inr (c, st)
       else (case inferedGraphsForStatement q M s st of
           (gs, st) \<Rightarrow> err_loop (remove_graph M (inf_removeStatement n q M)) gs st))"

definition clear_query :: "qt \<Rightarrow> qstring" where
  "clear_query q = q_arg (q_arg ''select ?g where { ?g <%1> <%2> . }'' (url_toString q (rdf RdfType))) (url_toString q sil_InferenceGraph)"

definition clearInference :: "qt \<Rightarrow> 's model \<Rightarrow> 's inference \<Rightarrow> 's inference" where
  "clearInference q M st =
     (case m_executeQuery M (clear_query q) ''SPARQL'' (inf_parent st) of (it, \<sigma>) \<Rightarrow>
       st\<lparr>inf_parent := snd (model_removeContext M meta_node
         (fold (\<lambda>b \<sigma>. snd (model_removeContext M (value_at b 0) \<sigma>)) (rows_of it) \<sigma>))\<rparr>)"

end
