(* ===== verification/Inference_Query.thy ===== *)
theory Inference_Query
  imports Inference_Model
begin

text \<open>
  What the query of a rule means, and a store that answers it. A row solves a rule when every precondition,
  with the row's values for its variables, is a statement of the store in some graph. The locale
  \<open>rule_store\<close> is the contract of a store that answers the queries of given rules with all rows that
  solve them; the store in memory with a solver for patterns interprets it.
\<close>

section \<open>Instances\<close>

definition inst_node :: "(qstring \<Rightarrow> node) \<Rightarrow> node_pattern \<Rightarrow> node" where
  "inst_node f p = (if variable p then f (np_name p) else np_node p)"

definition inst :: "(qstring \<Rightarrow> node) \<Rightarrow> statement_pattern \<Rightarrow> statement" where
  "inst f p = mk_statement (inst_node f (sp_subject p)) (inst_node f (sp_predicate p)) (inst_node f (sp_object p)) EmptyNode"

lemma inst_fields [simp]:
  "subject (inst f p) = inst_node f (sp_subject p)" "predicate (inst f p) = inst_node f (sp_predicate p)"
  "object (inst f p) = inst_node f (sp_object p)" "context_node (inst f p) = EmptyNode"
  by (simp_all add: inst_def mk_statement_def)

definition np_vars :: "node_pattern \<Rightarrow> qstring list" where
  "np_vars p = (if variable p then [np_name p] else [])"

definition sp_vars :: "statement_pattern \<Rightarrow> qstring list" where
  "sp_vars p = np_vars (sp_subject p) @ np_vars (sp_predicate p) @ np_vars (sp_object p)"

definition holds :: "graph \<Rightarrow> statement \<Rightarrow> bool" where
  "holds g t \<longleftrightarrow> (\<exists>s\<in>set g. subject s = subject t \<and> predicate s = predicate t \<and> object s = object t)"

definition solves :: "graph \<Rightarrow> statement_pattern list \<Rightarrow> (qstring \<Rightarrow> node) \<Rightarrow> bool" where
  "solves g ps f \<longleftrightarrow> (\<forall>p\<in>set ps. holds g (inst f p))"

definition vars_of :: "statement_pattern list \<Rightarrow> qstring list" where
  "vars_of ps = concat (map sp_vars ps)"

lemma bind_inst: "bindStatementPattern p b = inst (value_of b) p"
  by (simp add: bindStatementPattern_def inst_def bind_node_def inst_node_def)

lemma inst_cong: "(\<And>v. v \<in> set (sp_vars p) \<Longrightarrow> f v = f' v) \<Longrightarrow> inst f p = inst f' p"
  by (simp add: inst_def inst_node_def sp_vars_def np_vars_def)

lemma solves_cong: "(\<And>v. v \<in> set (vars_of ps) \<Longrightarrow> f v = f' v) \<Longrightarrow> solves g ps f = solves g ps f'"
proof -
  assume "\<And>v. v \<in> set (vars_of ps) \<Longrightarrow> f v = f' v"
  then have "\<forall>p\<in>set ps. inst f p = inst f' p" by (auto simp: vars_of_def intro!: inst_cong)
  then show ?thesis by (simp add: solves_def)
qed

lemma holds_mono: "set g \<subseteq> set g' \<Longrightarrow> holds g t \<Longrightarrow> holds g' t"
  by (auto simp: holds_def)

lemma solves_mono: "set g \<subseteq> set g' \<Longrightarrow> solves g ps f \<Longrightarrow> solves g' ps f"
  by (auto simp: solves_def intro: holds_mono)

text \<open>The variables of a solution have valid values when the statements of the store are valid.\<close>

lemma solution_valid:
  assumes "solves g ps f" "\<forall>s\<in>set g. stmt_isValid s" "p \<in> set ps" "v \<in> set (sp_vars p)"
  shows "node_isValid (f v)"
proof -
  obtain s where s: "s \<in> set g" "subject s = subject (inst f p)" "predicate s = predicate (inst f p)" "object s = object (inst f p)"
    using assms(1,3) by (auto simp: solves_def holds_def)
  have "stmt_isValid s" using assms(2) s(1) by simp
  then have "node_isValid (subject s) \<and> node_isValid (predicate s) \<and> node_isValid (object s)"
    by (auto simp: stmt_isValid_def Let_def node_test_defs split: if_splits)
  then show ?thesis
    using s assms(4) by (auto simp: inst_node_def sp_vars_def np_vars_def split: if_splits)
qed

text \<open>Then nothing of the bound statement is merged into a row.\<close>

lemma bind_var_const: "np_vars p = [] \<Longrightarrow> bind_var p n b = b"
  by (simp add: np_vars_def bind_var_def split: if_splits)

lemma merge_step:
  "sp_vars p \<noteq> [] \<longrightarrow> sp_bound b p \<Longrightarrow> (if sp_bound b p then bs else bind_pattern p s bs) = bs"
  by (auto simp: sp_vars_def bind_pattern_def bind_var_const)

lemma merge_nothing:
  assumes "\<forall>p\<in>set (preconditions r). sp_vars p \<noteq> [] \<longrightarrow> sp_bound b p"
  shows "mergeBindingStatement r b = b"
proof -
  have "fold (\<lambda>p bs. if sp_bound b p then bs else bind_pattern p s bs) ps c = c"
    if "\<forall>p\<in>set ps. sp_vars p \<noteq> [] \<longrightarrow> sp_bound b p" for ps s c
    using that by (induction ps arbitrary: c) (auto simp: merge_step)
  then show ?thesis using assms by (simp add: mergeBindingStatement_def)
qed

lemma merge_solution:
  assumes "solves g (preconditions r) (value_of b)" "\<forall>s\<in>set g. stmt_isValid s"
  shows "mergeBindingStatement r b = b"
proof (rule merge_nothing, intro ballI impI)
  fix p assume p: "p \<in> set (preconditions r)" "sp_vars p \<noteq> []"
  then obtain v where v: "v \<in> set (sp_vars p)" by (cases "sp_vars p") auto
  have "node_isValid (value_of b v)" by (rule solution_valid[OF assms p(1) v])
  then show "sp_bound b p" using v by (auto simp: sp_vars_def np_vars_def sp_bound_def np_bound_def split: if_splits)
qed

section \<open>The contract of a store that answers rules\<close>

locale rule_store = store_model q M contents
  for q :: qt and M :: "'s model" and contents :: "'s \<Rightarrow> graph" +
  fixes rules :: "rule list"
  assumes contains_any: "fst (m_containsAnyStatement M p \<sigma>) = graph_containsAnyStatement q p (contents \<sigma>)"
    and query_rows: "r \<in> set rules \<Longrightarrow> \<exists>bs. fst (m_executeQuery M (createSparqlQuery q False r) ''SPARQL'' \<sigma>) = Some bs \<and>
      (\<forall>b\<in>set bs. solves (contents \<sigma>) (preconditions r) (value_of b)) \<and>
      (\<forall>f. solves (contents \<sigma>) (preconditions r) f \<longrightarrow> (\<exists>b\<in>set bs. \<forall>v\<in>set (vars_of (preconditions r)). value_of b v = f v))"
begin

lemma contains_keeps: "contents (snd (m_containsAnyStatement M p \<sigma>)) = contents \<sigma>"
  using reads[of "CContainsAny p" \<sigma>] by (simp add: tag_result_def)

end

section \<open>A solver\<close>

text \<open>A node of a statement against a pattern, with the values so far.\<close>

definition unify_node :: "node_pattern \<Rightarrow> node \<Rightarrow> (qstring \<times> node) list \<Rightarrow> (qstring \<times> node) list option" where
  "unify_node p n e =
     (if variable p then
        (case map_of e (np_name p) of None \<Rightarrow> Some ((np_name p, n) # e) | Some m \<Rightarrow> if m = n then Some e else None)
      else if np_node p = n then Some e else None)"

definition unify :: "statement_pattern \<Rightarrow> statement \<Rightarrow> (qstring \<times> node) list \<Rightarrow> (qstring \<times> node) list option" where
  "unify p s e = Option.bind (unify_node (sp_subject p) (subject s) e) (\<lambda>e.
     Option.bind (unify_node (sp_predicate p) (predicate s) e) (unify_node (sp_object p) (object s)))"

fun solve :: "statement_pattern list \<Rightarrow> graph \<Rightarrow> (qstring \<times> node) list \<Rightarrow> (qstring \<times> node) list list" where
  "solve [] g e = [e]"
| "solve (p # ps) g e = concat (map (\<lambda>s. case unify p s e of None \<Rightarrow> [] | Some e \<Rightarrow> solve ps g e) g)"

definition answer_rule :: "rule \<Rightarrow> graph \<Rightarrow> binding_set list" where
  "answer_rule r g = map (\<lambda>e. bs_of (rev e)) (solve (preconditions r) g [])"

text \<open>The store knows its rules by their texts.\<close>

definition answer_rules :: "qt \<Rightarrow> rule list \<Rightarrow> qstring \<Rightarrow> graph \<Rightarrow> binding_set list option" where
  "answer_rules q rs t g = map_option (\<lambda>r. answer_rule r g) (find (\<lambda>r. createSparqlQuery q False r = t) rs)"

text \<open>\<open>e'\<close> extends \<open>e\<close>; the values of \<open>e\<close> as a substitution.\<close>

definition env :: "(qstring \<times> node) list \<Rightarrow> qstring \<Rightarrow> node" where
  "env e v = (case map_of e v of None \<Rightarrow> EmptyNode | Some n \<Rightarrow> n)"

lemma value_of_env: "value_of (bs_of (rev e)) v = env e v"
proof -
  have "value_of (bs_of (rev e)) v = (case bs_lookup (bs_of (rev e)) v of Some n \<Rightarrow> n | None \<Rightarrow> EmptyNode)"
    by (simp add: bs_lookup_def bs_contains_def value_of_def split: option.splits)
  then show ?thesis by (simp add: bs_of_lookup env_def split: option.splits)
qed

definition np_is :: "(qstring \<times> node) list \<Rightarrow> node_pattern \<Rightarrow> node \<Rightarrow> bool" where
  "np_is e p n \<longleftrightarrow> (if variable p then map_of e (np_name p) = Some n else np_node p = n)"

lemma np_is_mono: "map_of e \<subseteq>\<^sub>m map_of e' \<Longrightarrow> np_is e p n \<Longrightarrow> np_is e' p n"
  by (auto simp: np_is_def map_le_def dom_def)

lemma unify_node_sound: "unify_node p n e = Some e' \<Longrightarrow> np_is e' p n \<and> map_of e \<subseteq>\<^sub>m map_of e'"
  by (auto simp: unify_node_def np_is_def map_le_def split: if_splits option.splits)

definition agrees :: "(qstring \<times> node) list \<Rightarrow> (qstring \<Rightarrow> node) \<Rightarrow> bool" where
  "agrees e f \<longleftrightarrow> (\<forall>v m. map_of e v = Some m \<longrightarrow> f v = m)"

lemma unify_node_complete:
  assumes "agrees e f"
  shows "\<exists>e'. unify_node p (inst_node f p) e = Some e' \<and> agrees e' f \<and> set (np_vars p) \<subseteq> dom (map_of e') \<and>
           dom (map_of e) \<subseteq> dom (map_of e')"
proof (cases "variable p")
  case False
  then show ?thesis using assms by (simp add: unify_node_def inst_node_def np_vars_def)
next
  case True
  then show ?thesis
    using assms by (cases "map_of e (np_name p)") (auto simp: unify_node_def inst_node_def np_vars_def agrees_def)
qed

lemma unify_sound:
  assumes "unify p s e = Some e'"
  shows "np_is e' (sp_subject p) (subject s) \<and> np_is e' (sp_predicate p) (predicate s) \<and> np_is e' (sp_object p) (object s) \<and>
         map_of e \<subseteq>\<^sub>m map_of e'"
proof -
  obtain e1 e2 where u: "unify_node (sp_subject p) (subject s) e = Some e1" "unify_node (sp_predicate p) (predicate s) e1 = Some e2"
      "unify_node (sp_object p) (object s) e2 = Some e'"
    using assms by (auto simp: unify_def bind_eq_Some_conv)
  note s1 = unify_node_sound[OF u(1)] and s2 = unify_node_sound[OF u(2)] and s3 = unify_node_sound[OF u(3)]
  have le: "map_of e1 \<subseteq>\<^sub>m map_of e'" using s2 s3 map_le_trans by blast
  show ?thesis
    using s1 s2 s3 np_is_mono[OF le] np_is_mono[of e2 e'] map_le_trans[OF _ le] by blast
qed

lemma unify_complete:
  assumes t: "subject s = subject (inst f p)" "predicate s = predicate (inst f p)" "object s = object (inst f p)"
    and e: "agrees e f"
  shows "\<exists>e'. unify p s e = Some e' \<and> agrees e' f \<and> set (sp_vars p) \<subseteq> dom (map_of e') \<and> dom (map_of e) \<subseteq> dom (map_of e')"
proof -
  obtain e1 where 1: "unify_node (sp_subject p) (subject s) e = Some e1" "agrees e1 f"
      "set (np_vars (sp_subject p)) \<subseteq> dom (map_of e1)" "dom (map_of e) \<subseteq> dom (map_of e1)"
    using unify_node_complete[OF e, of "sp_subject p"] t(1) by auto
  obtain e2 where 2: "unify_node (sp_predicate p) (predicate s) e1 = Some e2" "agrees e2 f"
      "set (np_vars (sp_predicate p)) \<subseteq> dom (map_of e2)" "dom (map_of e1) \<subseteq> dom (map_of e2)"
    using unify_node_complete[OF 1(2), of "sp_predicate p"] t(2) by auto
  obtain e3 where 3: "unify_node (sp_object p) (object s) e2 = Some e3" "agrees e3 f"
      "set (np_vars (sp_object p)) \<subseteq> dom (map_of e3)" "dom (map_of e2) \<subseteq> dom (map_of e3)"
    using unify_node_complete[OF 2(2), of "sp_object p"] t(3) by auto
  have "set (sp_vars p) \<subseteq> dom (map_of e3)" using 1(3) 2(3,4) 3(3,4) unfolding sp_vars_def set_append by blast
  then show ?thesis using 1(1,4) 2(1,4) 3(1,2,4) by (auto simp: unify_def)
qed

lemma np_is_env: "np_is e p n \<Longrightarrow> n = inst_node (env e) p"
  by (simp add: np_is_def inst_node_def env_def split: if_splits)

lemma holdsI: "s \<in> set g \<Longrightarrow> subject s = subject t \<Longrightarrow> predicate s = predicate t \<Longrightarrow> object s = object t \<Longrightarrow> holds g t"
  by (auto simp: holds_def)

lemma solve_step: "e' \<in> set (solve (p # ps) g e) \<longleftrightarrow> (\<exists>s\<in>set g. \<exists>e1. unify p s e = Some e1 \<and> e' \<in> set (solve ps g e1))"
  by (force split: option.splits)

lemma solve_sound: "e' \<in> set (solve ps g e) \<Longrightarrow> map_of e \<subseteq>\<^sub>m map_of e' \<and> solves g ps (env e')"
proof (induction ps arbitrary: e)
  case Nil
  then show ?case by (simp add: solves_def)
next
  case (Cons p ps)
  then obtain s e1 where s: "s \<in> set g" "unify p s e = Some e1" "e' \<in> set (solve ps g e1)"
    unfolding solve_step by blast
  note IH = Cons.IH[OF s(3)] and u = unify_sound[OF s(2)]
  have le: "map_of e1 \<subseteq>\<^sub>m map_of e'" using IH by blast
  have "holds g (inst (env e') p)"
    using u np_is_env[OF np_is_mono[OF le]] by (intro holdsI[OF s(1)]) auto
  then show ?case using u IH map_le_trans by (auto simp: solves_def)
qed

lemma solve_complete:
  assumes "solves g ps f" "agrees e f"
  shows "\<exists>e'\<in>set (solve ps g e). agrees e' f \<and> set (vars_of ps) \<subseteq> dom (map_of e') \<and> dom (map_of e) \<subseteq> dom (map_of e')"
  using assms
proof (induction ps arbitrary: e)
  case Nil
  then show ?case by (simp add: vars_of_def)
next
  case (Cons p ps)
  have "holds g (inst f p)" using Cons.prems(1) by (simp add: solves_def)
  then obtain s where s: "s \<in> set g" "subject s = subject (inst f p)" "predicate s = predicate (inst f p)" "object s = object (inst f p)"
    unfolding holds_def by blast
  obtain e1 where 1: "unify p s e = Some e1" "agrees e1 f" "set (sp_vars p) \<subseteq> dom (map_of e1)"
      "dom (map_of e) \<subseteq> dom (map_of e1)"
    using unify_complete[OF s(2-4) Cons.prems(2)] by blast
  have "solves g ps f" using Cons.prems(1) by (simp add: solves_def)
  then obtain e' where 2: "e' \<in> set (solve ps g e1)" "agrees e' f"
      "set (vars_of ps) \<subseteq> dom (map_of e')" "dom (map_of e1) \<subseteq> dom (map_of e')"
    using Cons.IH[of e1] 1(2) by blast
  have "e' \<in> set (solve (p # ps) g e)" unfolding solve_step using s(1) 1(1) 2(1) by blast
  moreover have "set (vars_of (p # ps)) \<subseteq> dom (map_of e')" using 1(3) 2(3,4) by (auto simp: vars_of_def)
  ultimately show ?case using 1(4) 2(2,4) by blast
qed

lemma answer_rule_rows:
  "(\<forall>b\<in>set (answer_rule r g). solves g (preconditions r) (value_of b)) \<and>
   (\<forall>f. solves g (preconditions r) f \<longrightarrow> (\<exists>b\<in>set (answer_rule r g). \<forall>v\<in>set (vars_of (preconditions r)). value_of b v = f v))"
proof (intro conjI ballI allI impI)
  fix b assume "b \<in> set (answer_rule r g)"
  then obtain e where e: "e \<in> set (solve (preconditions r) g [])" "b = bs_of (rev e)" by (auto simp: answer_rule_def)
  have "value_of b = env e" by (rule ext) (simp add: e(2) value_of_env)
  then show "solves g (preconditions r) (value_of b)" using solve_sound[OF e(1)] by simp
next
  fix f assume "solves g (preconditions r) f"
  then obtain e where e: "e \<in> set (solve (preconditions r) g [])" "agrees e f" "set (vars_of (preconditions r)) \<subseteq> dom (map_of e)"
    using solve_complete[of g "preconditions r" f "[]"] by (auto simp: agrees_def)
  have "\<forall>v\<in>set (vars_of (preconditions r)). value_of (bs_of (rev e)) v = f v"
    using e(2,3) by (auto simp: value_of_env env_def agrees_def dom_def split: option.splits)
  then show "\<exists>b\<in>set (answer_rule r g). \<forall>v\<in>set (vars_of (preconditions r)). value_of b v = f v"
    using e(1) by (auto simp: answer_rule_def)
qed

text \<open>The rules a store can tell by their texts.\<close>

definition told_apart :: "qt \<Rightarrow> rule list \<Rightarrow> rule list" where
  "told_apart q rs = filter (\<lambda>r. map_option preconditions (find (\<lambda>r'. createSparqlQuery q False r' = createSparqlQuery q False r) rs)
     = Some (preconditions r)) rs"

interpretation memory_rules: rule_store q "memory_model q (answer_rules q rs)" fst "told_apart q rs" for q rs
proof (intro rule_store.intro memory.store_model_axioms rule_store_axioms.intro, goal_cases)
  case (1 p \<sigma>)
  then show ?case by (cases \<sigma>) (simp add: memory_model_def)
next
  case (2 r \<sigma>)
  then obtain r' where r': "find (\<lambda>r'. createSparqlQuery q False r' = createSparqlQuery q False r) rs = Some r'"
      "preconditions r' = preconditions r"
    by (auto simp: told_apart_def)
  obtain g e where \<sigma>: "\<sigma> = (g, e)" by (cases \<sigma>)
  show ?case
    using answer_rule_rows[of r' g] r'
    by (simp add: \<sigma> memory_model_def answer_rules_def)
qed

end
