(* ===== verification/Inference_Closure.thy ===== *)
theory Inference_Closure
  imports Inference_Query
begin

text \<open>
  What inference computes: for rules that cannot fire on the model's own metadata, a run ends, and the
  store then contains exactly the deductive closure of what it contained before.

  An instance of a rule is bad when its preconditions are in the store and its effect is not. Applying a
  rule leaves no bad instance of the rule, and every run leaves no bad instance it did not find: statements it
  adds are handled before it returns. The number of triples still missing bounds the depth of recursion.
\<close>

section \<open>Deduction\<close>

definition triple :: "statement \<Rightarrow> node \<times> node \<times> node" where
  "triple s = (subject s, predicate s, object s)"

inductive derives :: "rule list \<Rightarrow> (node \<times> node \<times> node) set \<Rightarrow> node \<times> node \<times> node \<Rightarrow> bool" for rs B where
  given: "t \<in> B \<Longrightarrow> derives rs B t"
| apply_rule: "r \<in> set rs \<Longrightarrow> (\<And>p. p \<in> set (preconditions r) \<Longrightarrow> derives rs B (triple (inst f p))) \<Longrightarrow>
    stmt_isValid (inst f (effect r)) \<Longrightarrow> derives rs B (triple (inst f (effect r)))"

lemma holds_triple: "holds g t \<longleftrightarrow> triple t \<in> triple ` set g"
  unfolding holds_def triple_def image_iff prod.inject by metis

text \<open>What the model itself writes about its graphs, and patterns that do not match it.\<close>

definition meta_statement :: "statement \<Rightarrow> bool" where
  "meta_statement s \<longleftrightarrow> predicate s = source_node \<or> predicate s = type_node \<and> object s = graph_node"

definition rejects :: "node_pattern \<Rightarrow> node \<Rightarrow> bool" where
  "rejects p n \<longleftrightarrow> \<not> variable p \<and> np_node p \<noteq> n"

definition separated :: "statement_pattern \<Rightarrow> bool" where
  "separated p \<longleftrightarrow> rejects (sp_predicate p) source_node \<and>
     (rejects (sp_predicate p) type_node \<or> rejects (sp_object p) graph_node)"

definition rule_good :: "rule \<Rightarrow> bool" where
  "rule_good r \<longleftrightarrow> preconditions r \<noteq> [] \<and> list_all separated (preconditions r) \<and> separated (effect r) \<and>
     list_all (\<lambda>v. v \<in> set (vars_of (preconditions r))) (sp_vars (effect r))"

definition np_consts :: "node_pattern \<Rightarrow> node list" where
  "np_consts p = (if variable p then [] else [np_node p])"

definition sp_consts :: "statement_pattern \<Rightarrow> node list" where
  "sp_consts p = np_consts (sp_subject p) @ np_consts (sp_predicate p) @ np_consts (sp_object p)"

text \<open>Nodes on which equality of the code is identity: all resources and blank nodes, and literals of
  which no two have the same value.\<close>

definition universe :: "qt \<Rightarrow> rule list \<Rightarrow> node set \<Rightarrow> bool" where
  "universe q rs N \<longleftrightarrow> finite N \<and> (\<forall>a\<in>N. \<forall>b\<in>N. node_eq q a b \<longleftrightarrow> a = b) \<and> (\<forall>r\<in>set rs. set (sp_consts (effect r)) \<subseteq> N)"

definition graph_over :: "node set \<Rightarrow> graph \<Rightarrow> bool" where
  "graph_over N g \<longleftrightarrow> (\<forall>s\<in>set g. stmt_isValid s \<and>
     (\<not> meta_statement s \<longrightarrow> subject s \<in> N \<and> predicate s \<in> N \<and> object s \<in> N))"

definition missing :: "node set \<Rightarrow> graph \<Rightarrow> nat" where
  "missing N g = card (N \<times> N \<times> N - triple ` set g)"

definition bad :: "rule list \<Rightarrow> graph \<Rightarrow> rule \<Rightarrow> (qstring \<Rightarrow> node) \<Rightarrow> bool" where
  "bad rs g r f \<longleftrightarrow> r \<in> set rs \<and> solves g (preconditions r) f \<and> stmt_isValid (inst f (effect r)) \<and> \<not> holds g (inst f (effect r))"

lemma separated_not_meta: "separated p \<Longrightarrow> meta_statement s \<Longrightarrow> triple s \<noteq> triple (inst f p)"
  by (auto simp: separated_def rejects_def meta_statement_def triple_def inst_node_def)

lemma solution_source:
  assumes "solves g ps f" "list_all separated ps" "p \<in> set ps"
  shows "\<exists>s\<in>set g. \<not> meta_statement s \<and> triple s = triple (inst f p)"
proof -
  have "triple (inst f p) \<in> triple ` set g" using assms(1,3) by (simp add: solves_def holds_triple)
  then obtain s where s: "s \<in> set g" "triple s = triple (inst f p)" by auto
  then show ?thesis using separated_not_meta[of p s f] assms(2,3) by (auto simp: list_all_iff)
qed

lemma solution_in:
  assumes "solves g ps f" "list_all separated ps" "graph_over N g" "v \<in> set (vars_of ps)"
  shows "f v \<in> N"
proof -
  obtain p where p: "p \<in> set ps" "v \<in> set (sp_vars p)" using assms(4) by (auto simp: vars_of_def)
  obtain s where s: "s \<in> set g" "\<not> meta_statement s" "triple s = triple (inst f p)"
    using solution_source[OF assms(1,2) p(1)] by blast
  have "subject s \<in> N \<and> predicate s \<in> N \<and> object s \<in> N" using assms(3) s(1,2) by (simp add: graph_over_def)
  then show ?thesis
    using s(3) p(2) by (auto simp: triple_def sp_vars_def np_vars_def inst_node_def split: if_splits)
qed

lemma effect_in:
  assumes "solves g (preconditions r) f" "rule_good r" "graph_over N g" "set (sp_consts (effect r)) \<subseteq> N"
  shows "triple (inst f (effect r)) \<in> N \<times> N \<times> N"
proof -
  have "f v \<in> N" if "v \<in> set (sp_vars (effect r))" for v
    using solution_in[OF assms(1) _ assms(3)] assms(2) that by (simp add: rule_good_def list_all_iff)
  then show ?thesis
    using assms(4) by (auto simp: triple_def inst_node_def sp_vars_def np_vars_def sp_consts_def np_consts_def split: if_splits)
qed

lemma missing_mono: "finite N \<Longrightarrow> set g \<subseteq> set g' \<Longrightarrow> missing N g' \<le> missing N g"
  unfolding missing_def by (rule card_mono) auto

lemma missing_less:
  assumes "finite N" "set g \<subseteq> set g'" "t \<in> N \<times> N \<times> N" "t \<notin> triple ` set g" "t \<in> triple ` set g'"
  shows "missing N g' < missing N g"
  unfolding missing_def by (rule psubset_card_mono) (use assms in auto)

text \<open>Covered by the graph, and in it, is the same over the universe.\<close>

lemma universe_matches:
  assumes "universe q rs N" "triple s \<in> N \<times> N \<times> N" "triple t \<in> N \<times> N \<times> N" "stmt_isValid t" "context_node t = EmptyNode"
  shows "stmt_matches q s t \<longleftrightarrow> triple s = triple t"
proof -
  have "\<not> node_isEmpty (subject t) \<and> \<not> node_isEmpty (predicate t) \<and> \<not> node_isEmpty (object t)"
    using assms(4) by (auto simp: stmt_isValid_def Let_def node_test_defs split: if_splits)
  then show ?thesis
    using assms by (auto simp: universe_def stmt_matches_def node_matches_def triple_def node_isEmpty_def)
qed

lemma node_eq_resource: "node_eq q a (ResourceNode u) \<longleftrightarrow> a = ResourceNode u" "node_eq q (ResourceNode u) a \<longleftrightarrow> a = ResourceNode u"
  by (cases a; auto simp: node_eq_def)+

lemma meta_matches: "meta_statement s \<Longrightarrow> stmt_matches q s t \<Longrightarrow> stmt_isValid t \<Longrightarrow> meta_statement t"
  by (cases "predicate t"; cases "object t")
     (auto simp: meta_statement_def stmt_matches_def node_matches_def stmt_isValid_def Let_def node_test_defs node_eq_resource
       split: if_splits)

lemma covered_holds:
  assumes "universe q rs N" "graph_over N g" "triple t \<in> N \<times> N \<times> N" "stmt_isValid t" "context_node t = EmptyNode" "\<not> meta_statement t"
  shows "graph_containsAnyStatement q t g \<longleftrightarrow> holds g t"
proof -
  have "stmt_matches q s t \<longleftrightarrow> triple s = triple t" if s: "s \<in> set g" for s
  proof (cases "meta_statement s")
    case True
    then have "triple s \<noteq> triple t" using assms(6) by (auto simp: triple_def meta_statement_def)
    then show ?thesis using meta_matches[OF True _ assms(4)] assms(6) by blast
  next
    case False
    then have "triple s \<in> N \<times> N \<times> N" using assms(2) s by (simp add: graph_over_def triple_def)
    then show ?thesis by (rule universe_matches[OF assms(1) _ assms(3-5)])
  qed
  then show ?thesis unfolding graph_containsAnyStatement_def list_ex_iff holds_triple image_iff by metis
qed

section \<open>Loops\<close>

lemma sum_loop_rule:
  assumes step: "\<And>x st. x \<in> set xs \<Longrightarrow> I st \<Longrightarrow> \<exists>c st'. f x st = Inr (c, st') \<and> I st' \<and> T st st' \<and> K x st'"
    and T: "\<And>st. T st st" "\<And>a b c. T a b \<Longrightarrow> T b c \<Longrightarrow> T a c" and K: "\<And>x a b. K x a \<Longrightarrow> T a b \<Longrightarrow> K x b"
    and I: "I st"
  shows "\<exists>c st'. sum_loop f xs st = Inr (c, st') \<and> I st' \<and> T st st' \<and> (\<forall>x\<in>set xs. K x st')"
  using step I
proof (induction xs arbitrary: st)
  case Nil
  then show ?case using T(1) by simp
next
  case (Cons x xs)
  obtain c st1 where 1: "f x st = Inr (c, st1)" "I st1" "T st st1" "K x st1"
    using Cons.prems(1)[of x st] Cons.prems(2) by auto
  obtain d st2 where 2: "sum_loop f xs st1 = Inr (d, st2)" "I st2" "T st1 st2" "\<forall>x\<in>set xs. K x st2"
    using Cons.IH[OF Cons.prems(1) 1(2)] by auto
  show ?case using 1 2 T(2)[OF 1(3) 2(3)] K[OF 1(4) 2(3)] by simp
qed

section \<open>One row\<close>

definition core_of :: "rule \<Rightarrow> statement_pattern list \<times> statement_pattern" where
  "core_of r = (preconditions r, effect r)"

definition settings_ok :: "rule list \<Rightarrow> 's inference \<Rightarrow> bool" where
  "settings_ok rs st \<longleftrightarrow> compressedStatements st \<and> \<not> optimizedQueries st \<and> map core_of (inf_rules st) = map core_of rs"

text \<open>What stays when the parent's store or the counter changes.\<close>

lemma settings_ok_updates [simp]:
  "settings_ok rs (st\<lparr>inf_parent := x\<rparr>) = settings_ok rs st" "settings_ok rs (st\<lparr>uri_count := n\<rparr>) = settings_ok rs st"
  by (simp_all add: settings_ok_def)

lemma compress_valid [simp]: "node_isValid (compressStatement q s)" "node_kind (compressStatement q s) \<noteq> KEmpty"
  by (simp_all add: compressStatement_def Let_def node_of_literal_def lit_string_def lit_isValid_def node_test_defs)

lemma sil_nodes [simp]: "node_of_url sil_InferenceGraph = graph_node" "node_isResource (node_of_url (QUrl (c # cs)))"
  by (simp_all add: node_of_url_def url_isEmpty_def sil_InferenceGraph_def silNamespace_def node_test_defs)

context rule_store
begin

abbreviation graph_in :: "'s inference \<Rightarrow> graph" where "graph_in st \<equiv> contents (inf_parent st)"

lemma parent_add_graph: "stmt_isValid s \<Longrightarrow> graph_in (parent_add M s st) = graph_addStatement q s (graph_in st)"
  using add[of s "inf_parent st"] by (simp add: parent_add_def)

lemma parent_add_settings [simp]: "settings_ok rs (parent_add M s st) = settings_ok rs st"
    "inf_rules (parent_add M s st) = inf_rules st" "compressedStatements (parent_add M s st) = compressedStatements st"
  by (simp_all add: parent_add_def)

text \<open>Metadata: it may be added, nothing else.\<close>

definition meta_step :: "'s inference \<Rightarrow> 's inference \<Rightarrow> bool" where
  "meta_step st st' \<longleftrightarrow> set (graph_in st) \<subseteq> set (graph_in st') \<and> inf_rules st' = inf_rules st \<and>
     compressedStatements st' = compressedStatements st \<and> optimizedQueries st' = optimizedQueries st \<and>
     (\<forall>s\<in>set (graph_in st'). s \<in> set (graph_in st) \<or> stmt_isValid s \<and> meta_statement s)"

lemma meta_step_refl [simp]: "meta_step st st" by (simp add: meta_step_def)

lemma meta_step_trans: "meta_step a b \<Longrightarrow> meta_step b c \<Longrightarrow> meta_step a c"
  unfolding meta_step_def by (metis subset_trans)

lemma parent_add_meta: "stmt_isValid s \<Longrightarrow> meta_statement s \<Longrightarrow> meta_step st (parent_add M s st)"
  by (auto simp: meta_step_def parent_add_graph graph_addStatement_def) (simp_all add: parent_add_def)

lemma add_sources_meta:
  "node_isResource (node_of_url u) \<Longrightarrow> compressedStatements st \<Longrightarrow> meta_step st (fold (add_source q M uuid u) ss st)"
proof (induction ss arbitrary: st)
  case Nil
  then show ?case by simp
next
  case (Cons s ss)
  let ?m = "mk_statement (node_of_url u) source_node (compressStatement q s) meta_node"
  have "meta_step st (parent_add M ?m st)"
    using Cons.prems(1) by (intro parent_add_meta) (simp_all add: mk_statement_def stmt_isValid_def meta_statement_def node_test_defs)
  moreover have "meta_step (parent_add M ?m st) (fold (add_source q M uuid u) ss (parent_add M ?m st))"
    using Cons by simp
  moreover have "fold (add_source q M uuid u) (s # ss) st = fold (add_source q M uuid u) ss (parent_add M ?m st)"
    using Cons.prems(2) by (simp add: add_source_def)
  ultimately show ?case using meta_step_trans by metis
qed

text \<open>A state the inference works on: its settings, its graph over the universe, and everything in it deduced
  from \<open>B\<close>.\<close>

definition ok :: "node set \<Rightarrow> (node \<times> node \<times> node) set \<Rightarrow> 's inference \<Rightarrow> bool" where
  "ok N B st \<longleftrightarrow> settings_ok rules st \<and> graph_over N (graph_in st) \<and>
     (\<forall>s\<in>set (graph_in st). meta_statement s \<or> derives rules B (triple s))"

lemma meta_step_ok: "meta_step a b \<Longrightarrow> ok N B a \<Longrightarrow> ok N B b"
  unfolding ok_def meta_step_def settings_ok_def graph_over_def by metis

lemma solution_derives:
  assumes "ok N B st" "rule_good r" "solves (graph_in st) (preconditions r) f" "p \<in> set (preconditions r)"
  shows "derives rules B (triple (inst f p))"
proof -
  obtain s where "s \<in> set (graph_in st)" "\<not> meta_statement s" "triple s = triple (inst f p)"
    using solution_source[OF assms(3) _ assms(4)] assms(2) by (auto simp: rule_good_def)
  then show ?thesis using assms(1) unfolding ok_def by metis
qed

lemma effect_not_meta: "rule_good r \<Longrightarrow> \<not> meta_statement (inst f (effect r))"
  using separated_not_meta by (auto simp: rule_good_def)

lemma context_contained:
  assumes "graph_containsStatement q (setContext c t) g" "context_node t = EmptyNode"
  shows "graph_containsAnyStatement q t g"
proof -
  have "stmt_matches q x t" if "same_key q x (setContext c t)" for x
    using that assms(2) by (simp add: same_key_def stmt_eq_def setContext_def stmt_matches_def node_matches_def node_isEmpty_def)
  then show ?thesis using assms(1) by (auto simp: graph_containsStatement_def graph_containsAnyStatement_def list_ex_iff)
qed

text \<open>Adding an effect that is not there, and its metadata.\<close>

lemma add_effect:
  assumes ok: "ok N B st" and t: "stmt_isValid t" "context_node t = EmptyNode" "\<not> meta_statement t" "triple t \<in> N \<times> N \<times> N"
    and d: "derives rules B (triple t)" and new: "\<not> graph_containsAnyStatement q t (graph_in st)"
    and c: "node_isResource c"
  defines "s \<equiv> setContext c t"
  shows "ok N B (parent_add M s st)" "graph_in (parent_add M s st) = graph_in st @ [s]" "\<not> meta_statement s"
proof -
  have v: "stmt_isValid s" using t(1,2) c by (auto simp: s_def stmt_isValid_def setContext_def Let_def node_test_defs)
  show g: "graph_in (parent_add M s st) = graph_in st @ [s]"
    using parent_add_graph[OF v] context_contained[of c t "graph_in st"] new t(2) by (auto simp: s_def graph_addStatement_def)
  show m: "\<not> meta_statement s" using t(3) by (simp add: s_def meta_statement_def setContext_def)
  have "triple s = triple t" by (simp add: s_def triple_def setContext_def)
  then show "ok N B (parent_add M s st)"
    using ok v t(4) d by (auto simp: ok_def g graph_over_def triple_def)
qed

text \<open>A rule of the model is one of the given rules, whatever it is bound to.\<close>

lemma infer_row_ok:
  assumes u: "universe q rules N" and ok: "ok N B st" and r: "r \<in> set rules" "core_of r' = core_of r" "rule_good r"
    and sol: "solves (graph_in st) (preconditions r) (value_of b)"
    and run: "infer_row q M uuid r' b st = (ss, st')"
  defines "e \<equiv> inst (value_of b) (effect r)"
  shows "ok N B st' \<and> set (graph_in st) \<subseteq> set (graph_in st') \<and> (stmt_isValid e \<longrightarrow> holds (graph_in st') e) \<and>
    (\<forall>s\<in>set (graph_in st'). s \<in> set (graph_in st) \<or> s \<in> set ss \<or> meta_statement s) \<and>
    (\<forall>s\<in>set ss. \<not> meta_statement s \<and> s \<in> set (graph_in st')) \<and> (ss \<noteq> [] \<longrightarrow> missing N (graph_in st') < missing N (graph_in st))"
proof -
  let ?g = "graph_in st"
  have over: "graph_over N ?g" and valid: "\<forall>s\<in>set ?g. stmt_isValid s" using ok by (auto simp: ok_def graph_over_def)
  have pre: "preconditions r' = preconditions r" "effect r' = effect r" using r(2) by (simp_all add: core_of_def)
  have e: "bindEffect r' b = e"
    using merge_solution[of ?g r' b] sol valid by (simp add: bindEffect_def pre bind_inst e_def)
  have N: "triple e \<in> N \<times> N \<times> N"
    unfolding e_def using effect_in[OF sol r(3) over] u r(1) by (simp add: universe_def)
  have m: "\<not> meta_statement e" unfolding e_def by (rule effect_not_meta[OF r(3)])
  show ?thesis
  proof (cases "stmt_isValid e")
    case False
    then show ?thesis using run ok by (simp add: infer_row_def e)
  next
    case True
    obtain present \<sigma> where c: "m_containsAnyStatement M e (inf_parent st) = (present, \<sigma>)" by (cases "m_containsAnyStatement M e (inf_parent st)")
    have cg: "contents \<sigma> = ?g" and cp: "present = graph_containsAnyStatement q e ?g"
      using contains_keeps[of e "inf_parent st"] contains_any[of e "inf_parent st"] c by simp_all
    have ch: "graph_containsAnyStatement q e ?g = holds ?g e"
      by (rule covered_holds[OF u over N True _ m]) (simp add: e_def)
    show ?thesis
    proof (cases present)
      case p: True
      then show ?thesis using run ok c ch cp cg by (auto simp: infer_row_def e True ok_def)
    next
      case p: False
      obtain w st2 where w: "createRandomUri uuid (st\<lparr>inf_parent := \<sigma>\<rparr>) = (w, st2)" by (cases "createRandomUri uuid (st\<lparr>inf_parent := \<sigma>\<rparr>)")
      have wr: "node_isResource (node_of_url w)" and st2: "st2 = st\<lparr>inf_parent := \<sigma>, uri_count := Suc (uri_count st)\<rparr>"
        using w by (auto simp: createRandomUri_def Let_def)
      have ok2: "ok N B st2" and g2: "graph_in st2 = ?g" using ok cg by (simp_all add: st2 ok_def)
      have d: "derives rules B (triple e)"
        unfolding e_def using solution_derives[OF ok r(3) sol] True e_def r(1) by (intro derives.apply_rule) auto
      define s3 where "s3 = setContext (node_of_url w) e"
      have new: "\<not> graph_containsAnyStatement q e (graph_in st2)" using cp p g2 by simp
      note a = add_effect[OF ok2 True _ m N d new wr, folded s3_def]
      have a1: "ok N B (parent_add M s3 st2)" "graph_in (parent_add M s3 st2) = ?g @ [s3]" "\<not> meta_statement s3"
        using a g2 by (simp_all add: e_def)
      let ?m = "mk_statement (node_of_url w) type_node graph_node meta_node"
      have m1: "meta_step (parent_add M s3 st2) (parent_add M ?m (parent_add M s3 st2))"
        using wr by (intro parent_add_meta) (simp_all add: mk_statement_def stmt_isValid_def meta_statement_def node_test_defs)
      have st': "ss = [s3]" "st' = fold (add_source q M uuid w) (bindPreconditions r' b) (parent_add M ?m (parent_add M s3 st2))"
        using run c p w True by (simp_all add: infer_row_def e s3_def Let_def)
      have comp: "compressedStatements (parent_add M ?m (parent_add M s3 st2))" using ok2 by (simp add: ok_def settings_ok_def)
      have ms: "meta_step (parent_add M s3 st2) st'"
        unfolding st'(2) by (rule meta_step_trans[OF m1 add_sources_meta[OF wr comp]])
      have sub: "set (?g @ [s3]) \<subseteq> set (graph_in st')" using ms a1(2) by (simp add: meta_step_def)
      have t3: "triple s3 = triple e" by (simp add: s3_def triple_def setContext_def)
      have "s3 \<in> set (graph_in st')" using sub by simp
      then have h: "triple e \<in> triple ` set (graph_in st')" unfolding t3[symmetric] by (rule imageI)
      have notin: "triple e \<notin> triple ` set ?g" using ch cp p by (simp add: holds_triple)
      have "finite N" using u by (simp add: universe_def)
      then have "missing N (graph_in st') < missing N ?g"
        using missing_less[OF _ _ N notin h] sub by simp
      moreover have "\<forall>s\<in>set (graph_in st'). s \<in> set ?g \<or> s \<in> set ss \<or> meta_statement s"
        using ms a1(2) by (auto simp: meta_step_def st'(1))
      ultimately show ?thesis using meta_step_ok[OF ms a1(1)] sub h a1(3) by (simp add: holds_triple st'(1))
    qed
  qed
qed

text \<open>All rows of a result: their effects are in the store, and what is new are the statements returned.\<close>

lemma infer_rows_ok:
  assumes u: "universe q rules N" and r: "r \<in> set rules" "core_of r' = core_of r" "rule_good r"
  shows "ok N B st \<Longrightarrow> \<forall>b\<in>set bs. solves (graph_in st) (preconditions r) (value_of b) \<Longrightarrow>
    infer_rows q M uuid r' bs st = (ss, st') \<Longrightarrow>
    ok N B st' \<and> set (graph_in st) \<subseteq> set (graph_in st') \<and>
    (\<forall>b\<in>set bs. stmt_isValid (inst (value_of b) (effect r)) \<longrightarrow> holds (graph_in st') (inst (value_of b) (effect r))) \<and>
    (\<forall>s\<in>set (graph_in st'). s \<in> set (graph_in st) \<or> s \<in> set ss \<or> meta_statement s) \<and>
    (\<forall>s\<in>set ss. \<not> meta_statement s \<and> s \<in> set (graph_in st')) \<and> (ss \<noteq> [] \<longrightarrow> missing N (graph_in st') < missing N (graph_in st))"
proof (induction bs arbitrary: st ss)
  case Nil
  then show ?case by simp
next
  case (Cons b bs)
  have fin: "finite N" using u by (simp add: universe_def)
  obtain ss1 st1 where 1: "infer_row q M uuid r' b st = (ss1, st1)" by (cases "infer_row q M uuid r' b st")
  obtain ss2 st2 where 2: "infer_rows q M uuid r' bs st1 = (ss2, st2)" by (cases "infer_rows q M uuid r' bs st1")
  have e: "ss = ss1 @ ss2" "st' = st2" using Cons.prems(3) 1 2 by simp_all
  have "solves (graph_in st) (preconditions r) (value_of b)" using Cons.prems(2) by simp
  note row = infer_row_ok[OF u Cons.prems(1) r this 1]
  have "\<forall>b\<in>set bs. solves (graph_in st1) (preconditions r) (value_of b)"
    using Cons.prems(2) row solves_mono by auto
  note rest = Cons.IH[OF _ this 2[folded e(2)]]
  have r1: "ok N B st1" using row by blast
  note rest = rest[OF r1]
  have sub: "set (graph_in st1) \<subseteq> set (graph_in st')" and sub0: "set (graph_in st) \<subseteq> set (graph_in st1)" using rest row by blast+
  have "ss \<noteq> [] \<longrightarrow> missing N (graph_in st') < missing N (graph_in st)"
    using row rest missing_mono[OF fin sub] missing_mono[OF fin sub0] by (auto simp: e(1))
  then show ?case using row rest sub sub0 holds_mono[OF sub] by (auto simp: e(1))
qed

end

section \<open>Runs\<close>

text \<open>A step adds statements, but no bad instance.\<close>

definition grows :: "rule list \<Rightarrow> graph \<Rightarrow> graph \<Rightarrow> bool" where
  "grows rs g g' \<longleftrightarrow> set g \<subseteq> set g' \<and> (\<forall>r f. bad rs g' r f \<longrightarrow> bad rs g r f)"

definition uses :: "rule \<Rightarrow> (qstring \<Rightarrow> node) \<Rightarrow> statement \<Rightarrow> bool" where
  "uses r f s \<longleftrightarrow> (\<exists>p\<in>set (preconditions r). triple s = triple (inst f p))"

definition handled :: "rule list \<Rightarrow> statement \<Rightarrow> graph \<Rightarrow> bool" where
  "handled rs s g \<longleftrightarrow> (\<forall>r f. bad rs g r f \<longrightarrow> \<not> uses r f s)"

lemma grows_refl: "grows rs g g" by (simp add: grows_def)
lemma grows_trans: "grows rs a b \<Longrightarrow> grows rs b c \<Longrightarrow> grows rs a c" by (auto simp: grows_def)
lemma handled_grows: "handled rs s a \<Longrightarrow> grows rs a b \<Longrightarrow> handled rs s b" by (auto simp: handled_def grows_def)

lemma satisfied_grows: "\<forall>f. \<not> bad rs a r f \<Longrightarrow> grows rs a b \<Longrightarrow> \<forall>f. \<not> bad rs b r f" by (auto simp: grows_def)

lemma bad_smaller: "bad rs g' r f \<Longrightarrow> set g \<subseteq> set g' \<Longrightarrow> solves g (preconditions r) f \<Longrightarrow> bad rs g r f"
  by (auto simp: bad_def dest: holds_mono)

text \<open>After the new statements are handled, a bad instance was there before they came.\<close>

lemma handled_all:
  assumes good: "\<forall>r\<in>set rs. rule_good r" and sub: "set g \<subseteq> set g1" and new: "\<forall>s\<in>set g1. s \<in> set g \<or> s \<in> set ss \<or> meta_statement s"
    and g: "grows rs g1 g'" and h: "\<forall>s\<in>set ss. handled rs s g'"
  shows "grows rs g g'"
proof -
  have "bad rs g r f" if b: "bad rs g' r f" for r f
  proof -
    have b1: "bad rs g1 r f" using g b by (simp add: grows_def)
    have r: "rule_good r" using good b by (simp add: bad_def)
    have "holds g (inst f p)" if p: "p \<in> set (preconditions r)" for p
    proof -
      obtain s where s: "s \<in> set g1" "\<not> meta_statement s" "triple s = triple (inst f p)"
        using solution_source[of g1 "preconditions r" f p] b1 r p by (auto simp: bad_def rule_good_def)
      have "s \<notin> set ss" using h b s(3) p by (auto simp: handled_def uses_def)
      then have "s \<in> set g" using new s(1,2) by blast
      then show ?thesis unfolding holds_triple s(3)[symmetric] by (rule imageI)
    qed
    then have "solves g (preconditions r) f" by (simp add: solves_def)
    then show ?thesis using bad_smaller[OF b1 sub] by simp
  qed
  then show ?thesis using sub g by (auto simp: grows_def)
qed

lemma core_nth: "map core_of xs = map core_of ys \<Longrightarrow> i < length ys \<Longrightarrow> i < length xs \<and> core_of (xs ! i) = core_of (ys ! i)"
  by (metis length_map nth_map)

lemma core_bind [simp]: "core_of (bindToStatement s r) = core_of r"
  by (simp add: core_of_def bindToStatement_def)

lemma map_core_bind: "map core_of (rs[i := bindToStatement s (rs ! i)]) = map core_of rs"
proof (cases "i < length rs")
  case True
  then show ?thesis by (simp add: map_update) (metis list_update_id nth_map)
next
  case False
  then show ?thesis by (simp add: list_update_beyond)
qed

lemma settings_ok_bind:
  "settings_ok rs st \<Longrightarrow> settings_ok rs (st\<lparr>inf_rules := (inf_rules st)[i := bindToStatement s (inf_rules st ! i)]\<rparr>)"
  by (simp add: settings_ok_def map_core_bind)

lemma uses_matches:
  assumes "uses r f s" "core_of r' = core_of r" "universe q rs N" "subject s \<in> N" "predicate s \<in> N" "object s \<in> N"
  shows "rule_match q r' s"
proof -
  obtain p where p: "p \<in> set (preconditions r')" "triple s = triple (inst f p)"
    using assms(1,2) by (auto simp: uses_def core_of_def)
  have "sp_match q p s"
    using p(2) assms(3-6) by (auto simp: sp_match_def np_match_def triple_def inst_node_def universe_def split: if_splits)
  then show ?thesis using p(1) by (auto simp: rule_match_def list_ex_iff)
qed

context rule_store
begin

definition working :: "nat \<Rightarrow> node set \<Rightarrow> (node \<times> node \<times> node) set \<Rightarrow> statement list \<Rightarrow> 's inference \<Rightarrow> bool" where
  "working n N B ss st \<longleftrightarrow> ok N B st \<and> missing N (graph_in st) < n \<and> (\<forall>s\<in>set ss. s \<in> set (graph_in st) \<and> \<not> meta_statement s)"

text \<open>What the recursion guarantees for a rule.\<close>

definition rule_done :: "nat \<Rightarrow> node set \<Rightarrow> (node \<times> node \<times> node) set \<Rightarrow> (rule \<Rightarrow> 's inference \<Rightarrow> 's run) \<Rightarrow> bool" where
  "rule_done n N B rec \<longleftrightarrow> (\<forall>r r' st. r \<in> set rules \<longrightarrow> core_of r' = core_of r \<longrightarrow> working n N B [] st \<longrightarrow>
     (\<exists>c st'. rec r' st = Inr (c, st') \<and> ok N B st' \<and> grows rules (graph_in st) (graph_in st') \<and>
        (\<forall>f. \<not> bad rules (graph_in st') r f)))"

lemma working_grows:
  "working n N B ss st \<Longrightarrow> finite N \<Longrightarrow> ok N B st' \<Longrightarrow> grows rules (graph_in st) (graph_in st') \<Longrightarrow> working n N B ss st'"
  using missing_mono[of N "graph_in st" "graph_in st'"] by (auto simp: working_def grows_def)

lemma infer_matching_done:
  assumes rec: "rule_done n N B rec" and u: "universe q rules N" and i: "i < length rules" and w: "working n N B [s] st"
  shows "\<exists>c st'. infer_matching q rec s i st = Inr (c, st') \<and> working n N B [s] st' \<and> grows rules (graph_in st) (graph_in st') \<and>
    (\<forall>f. bad rules (graph_in st') (rules ! i) f \<longrightarrow> \<not> uses (rules ! i) f s)"
proof -
  let ?r = "inf_rules st ! i" and ?st = "st\<lparr>inf_rules := (inf_rules st)[i := bindToStatement s (inf_rules st ! i)]\<rparr>"
  have ok: "ok N B st" and s: "s \<in> set (graph_in st)" "\<not> meta_statement s" using w by (simp_all add: working_def)
  have core: "core_of ?r = core_of (rules ! i)"
    using core_nth[of "inf_rules st" rules i] i ok by (simp add: ok_def settings_ok_def)
  have "subject s \<in> N \<and> predicate s \<in> N \<and> object s \<in> N" using ok s by (simp add: ok_def graph_over_def)
  note match = uses_matches[OF _ core u]
  show ?thesis
  proof (cases "rule_match q ?r s")
    case False
    then have "\<not> uses (rules ! i) f s" for f using match \<open>subject s \<in> N \<and> _\<close> by blast
    then show ?thesis using False w by (simp add: infer_matching_def grows_refl)
  next
    case True
    have ok': "working n N B [] ?st"
      using w settings_ok_bind[of rules st i s] by (simp add: working_def ok_def)
    obtain c st' where st': "rec (bindToStatement s ?r) ?st = Inr (c, st')" "ok N B st'" "grows rules (graph_in ?st) (graph_in st')"
        "\<forall>f. \<not> bad rules (graph_in st') (rules ! i) f"
      using rec ok' i core unfolding rule_done_def by (metis core_bind nth_mem)
    have "finite N" using u by (simp add: universe_def)
    then have "working n N B [s] st'" using working_grows[OF w _ st'(2)] st'(3) by simp
    then show ?thesis using True st' by (simp add: infer_matching_def)
  qed
qed

lemma inferStatement_done:
  assumes rec: "rule_done n N B rec" and u: "universe q rules N" and w: "working n N B [s] st"
  shows "\<exists>c st'. inferStatement q rec s st = Inr (c, st') \<and> working n N B [s] st' \<and> grows rules (graph_in st) (graph_in st') \<and>
    handled rules s (graph_in st')"
proof -
  have len: "length (inf_rules st) = length rules"
    using w unfolding working_def ok_def settings_ok_def by (metis length_map)
  have "\<exists>c st'. sum_loop (infer_matching q rec s) [0..<length rules] st = Inr (c, st') \<and> working n N B [s] st' \<and>
      grows rules (graph_in st) (graph_in st') \<and>
      (\<forall>i\<in>set [0..<length rules]. \<forall>f. bad rules (graph_in st') (rules ! i) f \<longrightarrow> \<not> uses (rules ! i) f s)"
    by (rule sum_loop_rule[where I = "working n N B [s]" and T = "\<lambda>a b. grows rules (graph_in a) (graph_in b)"])
       (use infer_matching_done[OF rec u] w in \<open>auto simp: grows_refl intro: grows_trans simp: grows_def\<close>)
  then obtain c st' where st': "inferStatement q rec s st = Inr (c, st')" "working n N B [s] st'"
      "grows rules (graph_in st) (graph_in st')"
      "\<And>i f. i < length rules \<Longrightarrow> bad rules (graph_in st') (rules ! i) f \<Longrightarrow> \<not> uses (rules ! i) f s"
    unfolding inferStatement_def len by auto
  have "\<not> uses r f s" if b: "bad rules (graph_in st') r f" for r f
  proof -
    have "r \<in> set rules" using b by (simp add: bad_def)
    then obtain i where "i < length rules" "r = rules ! i" by (auto simp: in_set_conv_nth)
    then show ?thesis using st'(4) b by simp
  qed
  then show ?thesis using st'(1-3) by (auto simp: handled_def)
qed

lemma query_not_empty: "preconditions r \<noteq> [] \<Longrightarrow> createSparqlQuery q b r \<noteq> []" if "\<not> b"
  using that by (cases "preconditions r") (simp_all add: createSparqlQuery_def patterns_text_def Let_def)

lemma query_core: "core_of r' = core_of r \<Longrightarrow> createSparqlQuery q False r' = createSparqlQuery q False r"
  by (simp add: createSparqlQuery_def core_of_def)

text \<open>Fuel above the number of missing triples is enough.\<close>

lemma inferRule_done:
  assumes u: "universe q rules N" and good: "\<forall>r\<in>set rules. rule_good r"
  shows "rule_done n N B (inferRule n q M uuid True)"
proof (induction n)
  case 0
  then show ?case by (simp add: rule_done_def working_def)
next
  case (Suc n)
  have "\<exists>c st'. inferRule (Suc n) q M uuid True r' st = Inr (c, st') \<and> ok N B st' \<and> grows rules (graph_in st) (graph_in st') \<and>
        (\<forall>f. \<not> bad rules (graph_in st') r f)"
    if r: "r \<in> set rules" and core: "core_of r' = core_of r" and w: "working (Suc n) N B [] st" for r r' st
  proof -
    have fin: "finite N" using u by (simp add: universe_def)
    have rg: "rule_good r" using good r by simp
    have ok: "ok N B st" and opt: "\<not> optimizedQueries st" using w by (auto simp: working_def ok_def settings_ok_def)
    let ?t = "createSparqlQuery q False r"
    have ne: "createSparqlQuery q False r' = ?t" "?t \<noteq> []"
      using query_core[OF core] rg query_not_empty[of False r] by (simp_all add: rule_good_def)
    obtain bs where bs: "fst (m_executeQuery M ?t ''SPARQL'' (inf_parent st)) = Some bs"
        "\<forall>b\<in>set bs. solves (graph_in st) (preconditions r) (value_of b)"
        "\<forall>f. solves (graph_in st) (preconditions r) f \<longrightarrow> (\<exists>b\<in>set bs. \<forall>v\<in>set (vars_of (preconditions r)). value_of b v = f v)"
      using query_rows[OF r, of "inf_parent st"] by blast
    obtain \<sigma> where \<sigma>: "m_executeQuery M ?t ''SPARQL'' (inf_parent st) = (Some bs, \<sigma>)" "contents \<sigma> = graph_in st"
      using bs(1) query_keeps[of ?t "''SPARQL''" "inf_parent st"] by (cases "m_executeQuery M ?t ''SPARQL'' (inf_parent st)") auto
    let ?st0 = "st\<lparr>inf_parent := \<sigma>\<rparr>"
    obtain ss st1 where rows: "infer_rows q M uuid r' bs ?st0 = (ss, st1)" by (cases "infer_rows q M uuid r' bs ?st0")
    have ok0: "ok N B ?st0" "\<forall>b\<in>set bs. solves (graph_in ?st0) (preconditions r) (value_of b)"
      using ok bs(2) \<sigma>(2) by (simp_all add: ok_def)
    note R = infer_rows_ok[OF u r core rg ok0 rows, simplified, unfolded \<sigma>(2)]
    have ok1: "ok N B st1" and sub: "set (graph_in st) \<subseteq> set (graph_in st1)" using R by simp_all
    have sat: "\<not> bad rules g r f" if g: "grows rules (graph_in st) g" "set (graph_in st1) \<subseteq> set g" for g f
    proof
      assume b: "bad rules g r f"
      then have "solves (graph_in st) (preconditions r) f" using g(1) by (auto simp: grows_def bad_def)
      then obtain row where row: "row \<in> set bs" "\<forall>v\<in>set (vars_of (preconditions r)). value_of row v = f v" using bs(3) by blast
      have "inst (value_of row) (effect r) = inst f (effect r)"
        using row(2) rg by (intro inst_cong) (auto simp: rule_good_def list_all_iff)
      then have "holds (graph_in st1) (inst f (effect r))" using R row(1) b by (auto simp: bad_def)
      then show False using b holds_mono[OF g(2)] by (simp add: bad_def)
    qed
    have unfold: "inferRule (Suc n) q M uuid True r' st = (if ss \<noteq> [] then
        (case sum_loop (inferStatement q (inferRule n q M uuid True)) ss st1 of
           Inl st \<Rightarrow> Inl st | Inr (c, st) \<Rightarrow> Inr (length ss + c, st)) else Inr (0, st1))"
      using opt ne \<sigma>(1) rows by (simp add: rows_of_def)
    show ?thesis
    proof (cases "ss = []")
      case True
      have "grows rules (graph_in st) (graph_in st1)"
        by (rule handled_all[OF good sub, where ss = "[]"]) (use R True grows_refl in auto)
      then show ?thesis using unfold True ok1 sat[of "graph_in st1"] by simp
    next
      case False
      have w1: "working n N B ss st1" using R False w ok1 by (auto simp: working_def)
      have "\<exists>c st'. sum_loop (inferStatement q (inferRule n q M uuid True)) ss st1 = Inr (c, st') \<and> working n N B ss st' \<and>
          grows rules (graph_in st1) (graph_in st') \<and> (\<forall>s\<in>set ss. handled rules s (graph_in st'))"
      proof (rule sum_loop_rule[where I = "working n N B ss" and T = "\<lambda>a b. grows rules (graph_in a) (graph_in b)"])
        fix s st2 assume s: "s \<in> set ss" and w2: "working n N B ss st2"
        then have "working n N B [s] st2" by (simp add: working_def)
        then obtain c st3 where st3: "inferStatement q (inferRule n q M uuid True) s st2 = Inr (c, st3)" "working n N B [s] st3"
            "grows rules (graph_in st2) (graph_in st3)" "handled rules s (graph_in st3)"
          using inferStatement_done[OF Suc.IH u] by blast
        then have "working n N B ss st3" using working_grows[OF w2 fin _ st3(3)] by (simp add: working_def)
        then show "\<exists>c st'. inferStatement q (inferRule n q M uuid True) s st2 = Inr (c, st') \<and> working n N B ss st' \<and>
            grows rules (graph_in st2) (graph_in st') \<and> handled rules s (graph_in st')"
          using st3 by blast
      qed (use w1 grows_refl grows_trans handled_grows in blast)+
      then obtain c st' where st': "sum_loop (inferStatement q (inferRule n q M uuid True)) ss st1 = Inr (c, st')" "working n N B ss st'"
          "grows rules (graph_in st1) (graph_in st')" "\<forall>s\<in>set ss. handled rules s (graph_in st')" by blast
      have new: "\<forall>s\<in>set (graph_in st1). s \<in> set (graph_in st) \<or> s \<in> set ss \<or> meta_statement s" using R by blast
      have g: "grows rules (graph_in st) (graph_in st')" by (rule handled_all[OF good sub new st'(3,4)])
      have "set (graph_in st1) \<subseteq> set (graph_in st')" using st'(3) by (simp add: grows_def)
      then show ?thesis using unfold False st'(1,2) g sat[OF g] by (simp add: working_def)
    qed
  qed
  then show ?case by (simp add: rule_done_def)
qed

lemma perform_done:
  assumes u: "universe q rules N" and good: "\<forall>r\<in>set rules. rule_good r" and w: "working n N B [] st"
  shows "\<exists>c st'. performInference n q M uuid st = Inr (c, st') \<and> ok N B st' \<and> grows rules (graph_in st) (graph_in st') \<and>
    (\<forall>r f. \<not> bad rules (graph_in st') r f)"
proof -
  have fin: "finite N" using u by (simp add: universe_def)
  have len: "length (inf_rules st) = length rules"
    using w unfolding working_def ok_def settings_ok_def by (metis length_map)
  have "\<exists>c st'. sum_loop (perform_rule n q M uuid) [0..<length rules] st = Inr (c, st') \<and> working n N B [] st' \<and>
      grows rules (graph_in st) (graph_in st') \<and> (\<forall>i\<in>set [0..<length rules]. \<forall>f. \<not> bad rules (graph_in st') (rules ! i) f)"
  proof (rule sum_loop_rule[where I = "working n N B []" and T = "\<lambda>a b. grows rules (graph_in a) (graph_in b)"])
    fix i st assume i: "i \<in> set [0..<length rules]" and w: "working n N B [] st"
    let ?r = "bindToStatement empty_statement (inf_rules st ! i)"
    let ?st = "st\<lparr>inf_rules := (inf_rules st)[i := ?r]\<rparr>"
    have core: "core_of ?r = core_of (rules ! i)"
      using core_nth[of "inf_rules st" rules i] i w by (simp add: working_def ok_def settings_ok_def)
    have w': "working n N B [] ?st" using w settings_ok_bind[of rules st i empty_statement] by (simp add: working_def ok_def)
    have "rules ! i \<in> set rules" using i by simp
    then obtain c st' where "inferRule n q M uuid True ?r ?st = Inr (c, st')" "ok N B st'" "grows rules (graph_in ?st) (graph_in st')"
        "\<forall>f. \<not> bad rules (graph_in st') (rules ! i) f"
      using inferRule_done[OF u good, of n B uuid] w' core unfolding rule_done_def by metis
    then show "\<exists>c st'. perform_rule n q M uuid i st = Inr (c, st') \<and> working n N B [] st' \<and>
        grows rules (graph_in st) (graph_in st') \<and> (\<forall>f. \<not> bad rules (graph_in st') (rules ! i) f)"
      using working_grows[OF w fin] by (simp add: perform_rule_def)
  qed (use w grows_refl grows_trans satisfied_grows in blast)+
  then obtain c st' where st': "performInference n q M uuid st = Inr (c, st')" "working n N B [] st'"
      "grows rules (graph_in st) (graph_in st')" "\<And>i f. i < length rules \<Longrightarrow> \<not> bad rules (graph_in st') (rules ! i) f"
    unfolding performInference_def len by auto
  have "\<not> bad rules (graph_in st') r f" for r f
    using st'(4) by (auto simp: in_set_conv_nth bad_def)
  then show ?thesis using st'(1-3) by (auto simp: working_def)
qed

text \<open>Without bad instances the store is the deductive closure.\<close>

lemma closure_exact:
  assumes ok: "ok N (triple ` set g) st" and sub: "set g \<subseteq> set (graph_in st)" and closed: "\<forall>r f. \<not> bad rules (graph_in st) r f"
    and s: "\<not> meta_statement s"
  shows "holds (graph_in st) s \<longleftrightarrow> derives rules (triple ` set g) (triple s)"
proof
  assume "holds (graph_in st) s"
  then obtain x where x: "x \<in> set (graph_in st)" "triple x = triple s" by (auto simp: holds_triple)
  have "\<not> meta_statement x" using s x(2) by (auto simp: meta_statement_def triple_def)
  then show "derives rules (triple ` set g) (triple s)" using ok x unfolding ok_def by metis
next
  have "t \<in> triple ` set (graph_in st)" if "derives rules (triple ` set g) t" for t
    using that
  proof induction
    case (given t)
    then show ?case using sub by auto
  next
    case (apply_rule r f)
    then have "solves (graph_in st) (preconditions r) f" by (simp add: solves_def holds_triple)
    then have "holds (graph_in st) (inst f (effect r))" using closed apply_rule.hyps(1,3) by (auto simp: bad_def)
    then show ?case by (simp add: holds_triple)
  qed
  then show "derives rules (triple ` set g) (triple s) \<Longrightarrow> holds (graph_in st) s" by (simp add: holds_triple)
qed

text \<open>Adding a statement to a store without bad instances.\<close>

lemma add_done:
  assumes u: "universe q rules N" and good: "\<forall>r\<in>set rules. rule_good r" and closed: "\<forall>r f. \<not> bad rules (graph_in st) r f"
    and s: "stmt_isValid s" "\<not> meta_statement s" "subject s \<in> N" "predicate s \<in> N" "object s \<in> N"
    and ok: "ok N B st" and B: "triple s \<in> B" and n: "missing N (graph_in st) < n"
  shows "\<exists>st'. inf_addStatement n q M uuid s st = Inr (ErrorNone, st') \<and> ok N B st' \<and>
    insert s (set (graph_in st)) \<subseteq> set (graph_in st') \<and> (\<forall>r f. \<not> bad rules (graph_in st') r f)"
proof -
  obtain \<sigma> where \<sigma>: "m_addStatement M s (inf_parent st) = (ErrorNone, \<sigma>)" "contents \<sigma> = graph_addStatement q s (graph_in st)"
    using add[OF s(1), of "inf_parent st"] by (cases "m_addStatement M s (inf_parent st)") auto
  define st1 where "st1 = st\<lparr>inf_parent := \<sigma>, inf_error := kept_error (m_lastError M \<sigma>)\<rparr>"
  have same: "x = s" if "same_key q x s" "x \<in> set (graph_in st)" for x
  proof -
    have x: "stmt_isValid x" "\<not> meta_statement x \<longrightarrow> subject x \<in> N \<and> predicate x \<in> N \<and> object x \<in> N"
      using ok that(2) by (auto simp: ok_def graph_over_def)
    have e: "stmt_eq q x s" using that(1) by (simp add: same_key_def)
    have "stmt_matches q x s" using e by (simp add: stmt_eq_def stmt_matches_def node_matches_def)
    then have "\<not> meta_statement x" using meta_matches s(1,2) by blast
    then have "triple x = triple s" using x(2) e u s(3-5) by (auto simp: stmt_eq_def universe_def triple_def)
    moreover have "context_node x = context_node s"
      using e x(1) s(1) by (cases "context_node s"; cases "context_node x")
        (auto simp: stmt_eq_def stmt_isValid_def node_test_defs node_eq_def Let_def)
    ultimately show "x = s" by (cases x; cases s) (simp add: triple_def)
  qed
  have g1: "set (graph_in st1) = insert s (set (graph_in st))"
  proof (cases "graph_containsStatement q s (graph_in st)")
    case True
    then obtain x where "x \<in> set (graph_in st)" "same_key q x s" by (auto simp: graph_containsStatement_def list_ex_iff)
    then have "s \<in> set (graph_in st)" using same by blast
    then show ?thesis using True by (auto simp: st1_def \<sigma>(2) graph_addStatement_def)
  qed (simp add: st1_def \<sigma>(2) graph_addStatement_def)
  have ok1: "ok N B st1"
    using ok s B g1 by (auto simp: ok_def graph_over_def settings_ok_def intro: derives.given) (simp_all add: st1_def)
  have "set (graph_in st) \<subseteq> set (graph_in st1)" "finite N" using g1 u by (auto simp: universe_def)
  then have "missing N (graph_in st1) < n"
    using n missing_mono[of N "graph_in st" "graph_in st1"] by linarith
  then have "working n N B [s] st1" using ok1 g1 s(2) by (simp add: working_def)
  then obtain c st' where st': "inferStatement q (inferRule n q M uuid True) s st1 = Inr (c, st')" "working n N B [s] st'"
      "grows rules (graph_in st1) (graph_in st')" "handled rules s (graph_in st')"
    using inferStatement_done[OF inferRule_done[OF u good] u] by blast
  have "grows rules (graph_in st) (graph_in st')"
    by (rule handled_all[OF good _ _ st'(3), where ss = "[s]"]) (use g1 st'(4) in auto)
  then have "\<forall>r f. \<not> bad rules (graph_in st') r f" using closed by (auto simp: grows_def)
  moreover have "insert s (set (graph_in st)) \<subseteq> set (graph_in st')" using st'(3) g1 by (auto simp: grows_def)
  moreover have "inf_addStatement n q M uuid s st = Inr (ErrorNone, st')"
    using \<sigma>(1) st'(1) by (simp add: inf_addStatement_def inf_forward_def st1_def)
  ultimately show ?thesis using st'(2) by (auto simp: working_def)
qed

end

section \<open>The closure\<close>

definition parts :: "statement \<Rightarrow> node list" where "parts s = [subject s, predicate s, object s]"

text \<open>The nodes inference can meet, and that the code tells them apart.\<close>

definition inference_nodes :: "rule list \<Rightarrow> graph \<Rightarrow> node list" where
  "inference_nodes rs g = concat (map parts (filter (\<lambda>s. \<not> meta_statement s) g)) @ concat (map (\<lambda>r. sp_consts (effect r)) rs)"

definition told_apart_nodes :: "qt \<Rightarrow> node list \<Rightarrow> bool" where
  "told_apart_nodes q ns \<longleftrightarrow> list_all (\<lambda>a. list_all (\<lambda>b. node_eq q a b = (a = b)) ns) ns"

lemma universe_nodes: "told_apart_nodes q (inference_nodes rs g) \<Longrightarrow> universe q rs (set (inference_nodes rs g))"
  by (auto simp: universe_def told_apart_nodes_def list_all_iff inference_nodes_def)

lemma graph_over_nodes: "list_all stmt_isValid g \<Longrightarrow> graph_over (set (inference_nodes rs g)) g"
  by (force simp: graph_over_def list_all_iff inference_nodes_def parts_def)

lemma missing_bound: "missing (set ns) g \<le> length ns ^ 3"
proof -
  have "missing (set ns) g \<le> card (set ns \<times> set ns \<times> set ns)" unfolding missing_def by (rule card_mono) auto
  also have "\<dots> = card (set ns) ^ 3" by (simp add: card_cartesian_product power3_eq_cube)
  also have "\<dots> \<le> length ns ^ 3" by (rule power_mono) (simp_all add: card_length)
  finally show ?thesis .
qed



end
