(* ===== verification/Inference_Cases.thy ===== *)
theory Inference_Cases
  imports Inference_Closure
begin

text \<open>
  Examples for inference, and where the code of the inference model does not do what it means to: an optimised
  query that binds a row wrongly, texts of queries with percent signs, patterns with a literal object, literals
  with a language in rule files, and rules for which inference never ends.
\<close>

section \<open>An example\<close>

definition rdfs_node :: "qstring \<Rightarrow> node" where
  "rdfs_node name = ResourceNode (QUrl (''http://www.w3.org/2000/01/rdf-schema#'' @ name))"

text \<open>Rule rdfs8 of rdfs.rules.\<close>

definition rdfs8 :: rule where
  "rdfs8 = setEffect (mk_sp (np_of_var ''a'') (np_of_node (rdfs_node ''subClassOf'')) (np_of_var ''c''))
     (addPrecondition (mk_sp (np_of_var ''b'') (np_of_node (rdfs_node ''subClassOf'')) (np_of_var ''c''))
       (addPrecondition (mk_sp (np_of_var ''a'') (np_of_node (rdfs_node ''subClassOf'')) (np_of_var ''b'')) new_rule))"

definition sub_class :: "qstring \<Rightarrow> qstring \<Rightarrow> statement" where
  "sub_class a b = mk_statement (ResourceNode (QUrl a)) (rdfs_node ''subClassOf'') (ResourceNode (QUrl b)) EmptyNode"

definition rdfs_state :: "graph \<Rightarrow> (graph \<times> error) inference" where
  "rdfs_state g = setRules [rdfs8] (new_inference (g, NoError))"

abbreviation "rdfs_memory \<equiv> memory_model plain_qt (answer_rules plain_qt [rdfs8])"

lemma rdfs8_good: "rule_good rdfs8" "told_apart plain_qt [rdfs8] = [rdfs8]"
  by (code_simp, simp add: told_apart_def)

lemma rdfs_store: "rule_store plain_qt rdfs_memory fst [rdfs8]"
  using memory_rules.rule_store_axioms[of plain_qt "[rdfs8]"] by (simp add: rdfs8_good)

lemma rdfs_state_fields [simp]:
  "inf_rules (rdfs_state g) = [rdfs8]" "compressedStatements (rdfs_state g)" "\<not> optimizedQueries (rdfs_state g)"
  "inf_parent (rdfs_state g) = (g, NoError)"
  by (simp_all add: rdfs_state_def setRules_def new_inference_def)

lemma rdfs8_parts:
  "preconditions rdfs8 = [mk_sp (np_of_var ''a'') (np_of_node (rdfs_node ''subClassOf'')) (np_of_var ''b''),
      mk_sp (np_of_var ''b'') (np_of_node (rdfs_node ''subClassOf'')) (np_of_var ''c'')]"
  "effect rdfs8 = mk_sp (np_of_var ''a'') (np_of_node (rdfs_node ''subClassOf'')) (np_of_var ''c'')"
  by (simp_all add: rdfs8_def setEffect_def addPrecondition_def new_rule_def)

lemma sub_pattern: "triple (inst f (mk_sp (np_of_var v) (np_of_node n) (np_of_var w))) = (f v, n, f w)"
  by (simp add: triple_def mk_sp_def inst_node_def np_of_var_def np_of_node_def)

lemma sub_triple: "triple (sub_class a b) = (ResourceNode (QUrl a), rdfs_node ''subClassOf'', ResourceNode (QUrl b))"
  by (simp add: triple_def sub_class_def mk_statement_def)

definition example_env :: "qstring \<Rightarrow> qstring \<Rightarrow> qstring \<Rightarrow> qstring \<Rightarrow> node" where
  "example_env a b c v = ResourceNode (QUrl (if v = ''a'' then a else if v = ''b'' then b else c))"

lemma example_env_simps [simp]: "example_env a b c ''a'' = ResourceNode (QUrl a)" "example_env a b c ''b'' = ResourceNode (QUrl b)"
  "example_env a b c ''c'' = ResourceNode (QUrl c)"
  by (simp_all add: example_env_def)

lemma sub_class_derived:
  assumes "triple (sub_class a b) \<in> B" "triple (sub_class b c) \<in> B"
  shows "derives [rdfs8] B (triple (sub_class a c))"
proof -
  let ?f = "example_env a b c"
  have "derives [rdfs8] B (triple (inst ?f (effect rdfs8)))"
  proof (rule derives.apply_rule)
    fix x assume "x \<in> set (preconditions rdfs8)"
    then have "triple (inst ?f x) = triple (sub_class a b) \<or> triple (inst ?f x) = triple (sub_class b c)"
      by (auto simp: rdfs8_parts sub_pattern sub_triple)
    then show "derives [rdfs8] B (triple (inst ?f x))" using assms derives.given by metis
  next
    show "stmt_isValid (inst ?f (effect rdfs8))"
      by (simp add: rdfs8_parts stmt_isValid_def mk_sp_def inst_node_def np_of_var_def np_of_node_def rdfs_node_def node_test_defs)
  qed simp
  then show ?thesis by (simp add: rdfs8_parts sub_pattern sub_triple)
qed

lemma single_closed:
  assumes "a \<noteq> b" "derives [rdfs8] {triple (sub_class a b)} t"
  shows "t = triple (sub_class a b)"
  using assms(2)
proof induction
  case (given t)
  then show ?case by simp
next
  case (apply_rule r f)
  then have "r = rdfs8" by simp
  then have "(f ''a'', rdfs_node ''subClassOf'', f ''b'') = triple (sub_class a b)"
      "(f ''b'', rdfs_node ''subClassOf'', f ''c'') = triple (sub_class a b)"
    using apply_rule.IH[of "preconditions rdfs8 ! 0"] apply_rule.IH[of "preconditions rdfs8 ! 1"]
    by (simp_all add: rdfs8_parts sub_pattern)
  then show ?case using assms(1) by (simp add: sub_triple)
qed



section \<open>An optimised query that binds a row wrongly\<close>

text \<open>The rule (?a p ?b), (?b q ?a) -> (?a r ?b), bound to a statement (x p y) its first precondition matches. The
  query asks for (y q x) only and its one row is empty; then both preconditions are bound to the statement, the
  second one last, and the effect is (y r x).\<close>

definition mutual_rule :: rule where
  "mutual_rule = setEffect (mk_sp (np_of_var ''a'') (np_of_node (ResourceNode (QUrl ''r''))) (np_of_var ''b''))
     (addPrecondition (mk_sp (np_of_var ''b'') (np_of_node (ResourceNode (QUrl ''q''))) (np_of_var ''a''))
       (addPrecondition (mk_sp (np_of_var ''a'') (np_of_node (ResourceNode (QUrl ''p''))) (np_of_var ''b'')) new_rule))"

definition plain_statement :: "qstring \<Rightarrow> qstring \<Rightarrow> qstring \<Rightarrow> statement" where
  "plain_statement a b c = mk_statement (ResourceNode (QUrl a)) (ResourceNode (QUrl b)) (ResourceNode (QUrl c)) EmptyNode"

lemma optimized_binding_swapped:
  "createSparqlQuery plain_qt True (bindToStatement (plain_statement ''x'' ''p'' ''y'') mutual_rule)
     = ''SELECT * WHERE { <y> <q> <x> . }''"
  "bindEffect (bindToStatement (plain_statement ''x'' ''p'' ''y'') mutual_rule) empty_bindings = plain_statement ''y'' ''r'' ''x''"
  by code_simp+

section \<open>Percent signs\<close>

text \<open>An encoded slash in the URI of the subject is taken for the place marker of the predicate.\<close>

lemma percent_corrupts_query:
  "createSparqlGraphPattern plain_qt empty_bindings
     (mk_sp (np_of_node (ResourceNode (QUrl ''a%2Fb''))) (np_of_node (ResourceNode (QUrl ''p''))) (np_of_var ''x''))
     = ''<a<p>Fb> <p> ?x''"
  by code_simp

section \<open>Removing a pattern with a literal object\<close>

lemma literal_pattern_not_removed:
  "node_isLiteral (object p) \<Longrightarrow> inf_removeAllStatements M remove p st = Inr (ErrorNone, st)"
  by (simp add: inf_removeAllStatements_def)

section \<open>Literals with a language in rule files\<close>

text \<open>The literal "abc"@en is read as the value abc"@e with the language e.\<close>

lemma rule_literal_language_cut:
  "parseNodePattern plain_qt Map.empty False (dquote # ''abc'' @ dquote # ''@en'')
     = (np_of_node (node_of_literal (createPlainLiteral (''abc'' @ dquote # ''@e'') (tag_of_string ''e''))), True)"
  by (simp add: parseNodePattern_def mid_def Let_def)

end
