(* ===== verification/Inference_Divergence.thy ===== *)
theory Inference_Divergence
  imports Inference_Cases
begin

text \<open>
  Inference that never ends. Rule rdfs2 of rdfs.rules, (?x ?p ?y), (?p rdfs:domain ?c) -> (?x rdf:type ?c), also matches
  what the model writes about its own graphs. As soon as the store has a domain of rdf:type, as the RDF Schema
  vocabulary itself states it, every inferred graph is an instance of that domain, which is inferred in a
  new graph, and so on: a run is interrupted at every depth.
\<close>

definition rdfs2 :: rule where
  "rdfs2 = setEffect (mk_sp (np_of_var ''x'') (np_of_node type_node) (np_of_var ''c''))
     (addPrecondition (mk_sp (np_of_var ''p'') (np_of_node (rdfs_node ''domain'')) (np_of_var ''c''))
       (addPrecondition (mk_sp (np_of_var ''x'') (np_of_var ''p'') (np_of_var ''y'')) new_rule))"

lemma rdfs2_parts:
  "preconditions rdfs2 = [mk_sp (np_of_var ''x'') (np_of_var ''p'') (np_of_var ''y''),
      mk_sp (np_of_var ''p'') (np_of_node (rdfs_node ''domain'')) (np_of_var ''c'')]"
  "effect rdfs2 = mk_sp (np_of_var ''x'') (np_of_node type_node) (np_of_var ''c'')"
  by (simp_all add: rdfs2_def setEffect_def addPrecondition_def new_rule_def)

definition random_node :: "(nat \<Rightarrow> qstring) \<Rightarrow> nat \<Rightarrow> node" where
  "random_node uuid k = node_of_url (QUrl (''inference://localhost#'' @ mid (uuid k) 1 (length (uuid k) - 2)))"

lemma same_resources: "stmt_eq q x (mk_statement w (ResourceNode p) (ResourceNode o') m) \<Longrightarrow> node_isResource w \<Longrightarrow>
    triple x = (w, ResourceNode p, ResourceNode o')"
  by (cases w) (auto simp: stmt_eq_def mk_statement_def node_eq_resource triple_def node_test_defs)

text \<open>What covers a statement with a blank node or a resource in every place but the object.\<close>

lemma node_eq_subject: "node_isResource u \<or> node_isBlank u \<Longrightarrow> node_eq q a u \<longleftrightarrow> a = u"
  by (cases a; cases u; auto simp: node_eq_def node_test_defs)

lemma covers_exactly:
  assumes "stmt_matches q s t" "triple t = (u, ResourceNode p, ResourceNode c)" "node_isResource u \<or> node_isBlank u"
  shows "triple s = (u, ResourceNode p, ResourceNode c)"
  using assms node_eq_subject[OF assms(3)]
  by (auto simp: stmt_matches_def node_matches_def triple_def node_eq_resource node_test_defs)

lemma random_uri: "createRandomUri uuid st = (w, st') \<Longrightarrow>
    node_of_url w = random_node uuid (uri_count st) \<and> st' = st\<lparr>uri_count := Suc (uri_count st)\<rparr> \<and> node_isResource (node_of_url w)"
  by (auto simp: createRandomUri_def random_node_def Let_def)

context rule_store
begin

definition same_settings :: "'s inference \<Rightarrow> 's inference \<Rightarrow> bool" where
  "same_settings a b \<longleftrightarrow> inf_rules b = inf_rules a \<and> compressedStatements b = compressedStatements a \<and> optimizedQueries b = optimizedQueries a"

lemma add_sources_graph:
  "node_isResource w \<Longrightarrow> w = node_of_url u \<Longrightarrow> compressedStatements st \<Longrightarrow>
    (let st' = fold (add_source q M uuid u) ss st in same_settings st st' \<and> uri_count st' = uri_count st \<and>
      set (graph_in st) \<subseteq> set (graph_in st') \<and>
      (\<forall>x\<in>set (graph_in st'). x \<in> set (graph_in st) \<or> stmt_isValid x \<and> meta_statement x \<and> subject x = w))"
proof (induction ss arbitrary: st)
  case Nil
  then show ?case by (simp add: same_settings_def)
next
  case (Cons s ss)
  let ?m = "mk_statement w source_node (compressStatement q s) meta_node"
  have v: "stmt_isValid ?m" "meta_statement ?m" "subject ?m = w"
    using Cons.prems(1) by (simp_all add: mk_statement_def stmt_isValid_def meta_statement_def node_test_defs)
  have e: "fold (add_source q M uuid u) (s # ss) st = fold (add_source q M uuid u) ss (parent_add M ?m st)"
    using Cons.prems(2,3) by (simp add: add_source_def)
  have g: "set (graph_in (parent_add M ?m st)) \<subseteq> insert ?m (set (graph_in st))" "set (graph_in st) \<subseteq> set (graph_in (parent_add M ?m st))"
    by (auto simp: parent_add_graph[OF v(1)] graph_addStatement_def)
  have p: "same_settings st (parent_add M ?m st)" "uri_count (parent_add M ?m st) = uri_count st"
    by (simp_all add: same_settings_def parent_add_def)
  show ?case
    unfolding e using Cons.IH[of "parent_add M ?m st"] Cons.prems p g v
    by (simp add: Let_def same_settings_def) blast
qed

lemma infer_row_shape:
  assumes valid: "\<forall>s\<in>set (graph_in st). stmt_isValid s" and comp: "compressedStatements st" and core: "core_of r' = core_of r"
    and sol: "solves (graph_in st) (preconditions r) (value_of b)" and run: "infer_row q M uuid r' b st = (ss, st')"
  defines "e \<equiv> inst (value_of b) (effect r)" and "w \<equiv> random_node uuid (uri_count st)"
  shows "same_settings st st' \<and> (\<forall>s\<in>set (graph_in st'). stmt_isValid s) \<and> set (graph_in st) \<subseteq> set (graph_in st') \<and>
    (if ss = [] then graph_in st' = graph_in st \<and> uri_count st' = uri_count st \<and>
        (stmt_isValid e \<longrightarrow> graph_containsAnyStatement q e (graph_in st))
     else (\<exists>s. ss = [s] \<and> triple s = triple e) \<and> uri_count st' = Suc (uri_count st) \<and>
        (w, type_node, graph_node) \<in> triple ` set (graph_in st') \<and>
        (\<forall>x\<in>set (graph_in st'). x \<in> set (graph_in st) \<or> x \<in> set ss \<or> meta_statement x \<and> subject x = w))"
proof -
  have pre: "preconditions r' = preconditions r" "effect r' = effect r" using core by (simp_all add: core_of_def)
  have e: "bindEffect r' b = e"
    using merge_solution[of "graph_in st" r' b] sol valid by (simp add: bindEffect_def pre bind_inst e_def)
  show ?thesis
  proof (cases "stmt_isValid e")
    case False
    then show ?thesis using run valid by (auto simp: infer_row_def e same_settings_def)
  next
    case True
    obtain present \<sigma> where c: "m_containsAnyStatement M e (inf_parent st) = (present, \<sigma>)" by (cases "m_containsAnyStatement M e (inf_parent st)")
    have cg: "contents \<sigma> = graph_in st" and cp: "present = graph_containsAnyStatement q e (graph_in st)"
      using contains_keeps[of e "inf_parent st"] contains_any[of e "inf_parent st"] c by simp_all
    show ?thesis
    proof (cases present)
      case p: True
      then show ?thesis using run valid c cp cg by (auto simp: infer_row_def e True same_settings_def)
    next
      case p: False
      obtain u st2 where u: "createRandomUri uuid (st\<lparr>inf_parent := \<sigma>\<rparr>) = (u, st2)" by (cases "createRandomUri uuid (st\<lparr>inf_parent := \<sigma>\<rparr>)")
      have w: "node_of_url u = w" "node_isResource w" and st2: "st2 = st\<lparr>inf_parent := \<sigma>, uri_count := Suc (uri_count st)\<rparr>"
        using random_uri[OF u] by (auto simp: w_def)
      define s3 where "s3 = setContext w e"
      have v3: "stmt_isValid s3" "triple s3 = triple e"
        using True w(2) by (auto simp: s3_def stmt_isValid_def setContext_def Let_def node_test_defs triple_def e_def)
      have g3: "graph_in (parent_add M s3 st2) = graph_in st @ [s3]"
        using parent_add_graph[OF v3(1)] context_contained[of w e "graph_in st"] cp p cg
        by (auto simp: s3_def st2 graph_addStatement_def e_def)
      let ?m = "mk_statement w type_node graph_node meta_node"
      have vm: "stmt_isValid ?m" "meta_statement ?m" "subject ?m = w" "triple ?m = (w, type_node, graph_node)"
        using w(2) by (simp_all add: mk_statement_def stmt_isValid_def meta_statement_def node_test_defs triple_def)
      let ?st4 = "parent_add M ?m (parent_add M s3 st2)"
      have g4: "set (graph_in ?st4) \<subseteq> insert ?m (insert s3 (set (graph_in st)))" "insert s3 (set (graph_in st)) \<subseteq> set (graph_in ?st4)"
        by (auto simp: parent_add_graph[OF vm(1)] graph_addStatement_def g3)
      have m4: "\<exists>x\<in>set (graph_in ?st4). triple x = (w, type_node, graph_node)"
      proof (cases "graph_containsStatement q ?m (graph_in (parent_add M s3 st2))")
        case True
        then obtain x where x: "x \<in> set (graph_in (parent_add M s3 st2))" "stmt_eq q x ?m"
          by (auto simp: graph_containsStatement_def list_ex_iff same_key_def)
        have "graph_in ?st4 = graph_in (parent_add M s3 st2)" using True by (simp add: parent_add_graph[OF vm(1)] graph_addStatement_def)
        moreover have "triple x = (w, type_node, graph_node)" using x(2) w(2) by (rule same_resources)
        ultimately show ?thesis using x(1) by auto
      next
        case False
        then show ?thesis using vm(4) by (auto simp: parent_add_graph[OF vm(1)] graph_addStatement_def)
      qed
      have st': "ss = [s3]" "st' = fold (add_source q M uuid u) (bindPreconditions r' b) ?st4"
        using run c p u True by (simp_all add: infer_row_def e s3_def w(1) Let_def)
      have comp4: "compressedStatements ?st4" using comp by (simp add: st2)
      note fold = add_sources_graph[OF w(2) w(1)[symmetric] comp4, of uuid "bindPreconditions r' b", folded st'(2), unfolded Let_def]
      have "same_settings st st'" "uri_count st' = Suc (uri_count st)"
        using fold by (simp_all add: same_settings_def st2 parent_add_def)
      moreover have "(w, type_node, graph_node) \<in> triple ` set (graph_in st')"
        using m4 fold by (auto simp: image_iff) (metis subsetD)
      moreover have "\<forall>x\<in>set (graph_in st'). x \<in> set (graph_in st) \<or> x = s3 \<or> meta_statement x \<and> subject x = w"
        using fold g4(1) vm(2,3) by blast
      moreover have "\<forall>x\<in>set (graph_in st'). stmt_isValid x" using fold g4(1) vm(1) v3(1) valid by blast
      moreover have "set (graph_in st) \<subseteq> set (graph_in st')" using fold g4(2) by blast
      ultimately show ?thesis using v3(2) by (simp add: st'(1))
    qed
  qed
qed

text \<open>All rows: nothing happened, or a new graph was described whose URI was not used before.\<close>

lemma infer_rows_shape:
  "\<forall>s\<in>set (graph_in st). stmt_isValid s \<Longrightarrow> compressedStatements st \<Longrightarrow> core_of r' = core_of r \<Longrightarrow>
   \<forall>b\<in>set bs. solves (graph_in st) (preconditions r) (value_of b) \<Longrightarrow> infer_rows q M uuid r' bs st = (ss, st') \<Longrightarrow>
   same_settings st st' \<and> (\<forall>s\<in>set (graph_in st'). stmt_isValid s) \<and> set (graph_in st) \<subseteq> set (graph_in st') \<and>
   uri_count st \<le> uri_count st' \<and>
   (\<forall>s\<in>set ss. \<exists>b\<in>set bs. triple s = triple (inst (value_of b) (effect r))) \<and>
   (\<forall>x\<in>set (graph_in st'). x \<in> set (graph_in st) \<or> x \<in> set ss \<or>
      meta_statement x \<and> (\<exists>j<uri_count st'. uri_count st \<le> j \<and> subject x = random_node uuid j)) \<and>
   (if ss = [] then graph_in st' = graph_in st \<and>
        (\<forall>b\<in>set bs. stmt_isValid (inst (value_of b) (effect r)) \<longrightarrow> graph_containsAnyStatement q (inst (value_of b) (effect r)) (graph_in st))
    else \<exists>j<uri_count st'. uri_count st \<le> j \<and> (random_node uuid j, type_node, graph_node) \<in> triple ` set (graph_in st'))"
proof (induction bs arbitrary: st ss)
  case Nil
  then show ?case by (simp add: same_settings_def)
next
  case (Cons b bs)
  obtain s1 st1 where 1: "infer_row q M uuid r' b st = (s1, st1)" by (cases "infer_row q M uuid r' b st")
  obtain s2 st2 where 2: "infer_rows q M uuid r' bs st1 = (s2, st2)" by (cases "infer_rows q M uuid r' bs st1")
  have ss: "ss = s1 @ s2" and st2: "st2 = st'" using Cons.prems(5) 1 2 by simp_all
  let ?e = "inst (value_of b) (effect r)" and ?w = "random_node uuid (uri_count st)"
  have "solves (graph_in st) (preconditions r) (value_of b)" using Cons.prems(4) by simp
  note row = infer_row_shape[OF Cons.prems(1,2,3) this 1]
  have 3: "\<forall>s\<in>set (graph_in st1). stmt_isValid s" "compressedStatements st1"
      "\<forall>b\<in>set bs. solves (graph_in st1) (preconditions r) (value_of b)" and sub: "set (graph_in st) \<subseteq> set (graph_in st1)"
    using row Cons.prems(2,4) solves_mono by (auto simp: same_settings_def)
  note rest = Cons.IH[OF 3(1,2) Cons.prems(3) 3(3) 2[unfolded st2]]
  have same: "same_settings st st'" using row rest by (simp add: same_settings_def)
  have cnt: "uri_count st \<le> uri_count st1" "uri_count st1 \<le> uri_count st'" using row rest by (auto split: if_splits)
  have subs: "set (graph_in st1) \<subseteq> set (graph_in st')" and v: "\<forall>s\<in>set (graph_in st'). stmt_isValid s" using rest by simp_all
  have t1: "\<forall>s\<in>set s1. triple s = triple ?e" using row by (auto split: if_splits)
  have x1: "\<forall>x\<in>set (graph_in st1). x \<in> set (graph_in st) \<or> x \<in> set s1 \<or> s1 \<noteq> [] \<and> meta_statement x \<and> subject x = ?w"
    using row by (auto split: if_splits)
  have c1: "s1 \<noteq> [] \<Longrightarrow> uri_count st < uri_count st'" using row cnt by auto
  have x2: "\<forall>x\<in>set (graph_in st'). x \<in> set (graph_in st1) \<or> x \<in> set s2 \<or>
      meta_statement x \<and> (\<exists>j<uri_count st'. uri_count st1 \<le> j \<and> subject x = random_node uuid j)" using rest by blast
  have X: "x \<in> set (graph_in st) \<or> x \<in> set ss \<or> meta_statement x \<and> (\<exists>j<uri_count st'. uri_count st \<le> j \<and> subject x = random_node uuid j)"
    if "x \<in> set (graph_in st')" for x
    using x1 x2 c1 cnt that unfolding ss set_append by (metis Un_iff le_trans order_refl)
  have t2: "\<forall>s\<in>set ss. \<exists>b\<in>set (b # bs). triple s = triple (inst (value_of b) (effect r))"
    using t1 rest unfolding ss by auto
  have last: "if ss = [] then graph_in st' = graph_in st \<and>
        (\<forall>b\<in>set (b # bs). stmt_isValid (inst (value_of b) (effect r)) \<longrightarrow> graph_containsAnyStatement q (inst (value_of b) (effect r)) (graph_in st))
    else \<exists>j<uri_count st'. uri_count st \<le> j \<and> (random_node uuid j, type_node, graph_node) \<in> triple ` set (graph_in st')"
  proof (cases "s1 = []")
    case True
    then show ?thesis using row rest cnt by (auto simp: ss)
  next
    case False
    then have "(?w, type_node, graph_node) \<in> triple ` set (graph_in st')" using row subs by auto
    then show ?thesis using False c1 by (auto simp: ss)
  qed
  show ?case using same v sub subs cnt t2 X last by auto
qed

section \<open>Rule rdfs2 and a domain of rdf:type\<close>

text \<open>There is a graph that is not an instance of the domain \<open>c\<close> yet, and the URIs to come are new.\<close>

definition diverging :: "(nat \<Rightarrow> qstring) \<Rightarrow> qurl \<Rightarrow> 's inference \<Rightarrow> bool" where
  "diverging uuid c st \<longleftrightarrow> compressedStatements st \<and> \<not> optimizedQueries st \<and> map core_of (inf_rules st) = [core_of rdfs2] \<and>
     (\<forall>s\<in>set (graph_in st). stmt_isValid s \<and> (\<forall>k\<ge>uri_count st. subject s \<noteq> random_node uuid k)) \<and>
     (type_node, rdfs_node ''domain'', ResourceNode c) \<in> triple ` set (graph_in st) \<and>
     (\<exists>u. (u, type_node, graph_node) \<in> triple ` set (graph_in st) \<and> (u, type_node, ResourceNode c) \<notin> triple ` set (graph_in st))"

lemma rdfs2_solution:
  "solves g (preconditions rdfs2) f \<longleftrightarrow>
     (f ''x'', f ''p'', f ''y'') \<in> triple ` set g \<and> (f ''p'', rdfs_node ''domain'', f ''c'') \<in> triple ` set g"
  "triple (inst f (effect rdfs2)) = (f ''x'', type_node, f ''c'')"
  by (simp_all add: solves_def rdfs2_parts holds_triple triple_def mk_sp_def inst_node_def np_of_var_def np_of_node_def)

lemma diverging_step:
  assumes rules: "rules = [rdfs2]" and d: "diverging uuid c st" and c: "c \<noteq> sil_InferenceGraph"
    and inj: "inj (random_node uuid)" and core: "core_of r = core_of rdfs2"
  shows "\<exists>ss st'. ss \<noteq> [] \<and> diverging uuid c st' \<and>
    inferRule (Suc n) q M uuid True r st = (case sum_loop (inferStatement q (inferRule n q M uuid True)) ss st' of
       Inl st \<Rightarrow> Inl st | Inr (c, st) \<Rightarrow> Inr (length ss + c, st))"
proof -
  let ?g = "triple ` set (graph_in st)" and ?t = "createSparqlQuery q False rdfs2"
  have set: "compressedStatements st" "\<not> optimizedQueries st" "map core_of (inf_rules st) = [core_of rdfs2]"
    and old: "\<And>s k. s \<in> set (graph_in st) \<Longrightarrow> uri_count st \<le> k \<Longrightarrow> subject s \<noteq> random_node uuid k"
    and dom: "(type_node, rdfs_node ''domain'', ResourceNode c) \<in> ?g"
    using d by (simp_all add: diverging_def)
  have valid: "\<forall>s\<in>set (graph_in st). stmt_isValid s" using d by (simp add: diverging_def)
  obtain u where u: "(u, type_node, graph_node) \<in> ?g" "(u, type_node, ResourceNode c) \<notin> ?g" using d by (auto simp: diverging_def)
  have ub: "node_isResource u \<or> node_isBlank u"
    using u(1) valid by (auto simp: triple_def stmt_isValid_def Let_def node_test_defs split: if_splits)
  have ne: "createSparqlQuery q False r = ?t" "?t \<noteq> []"
    using query_core[OF core] query_not_empty[of False rdfs2] by (simp_all add: rdfs2_parts)
  obtain bs where bs: "fst (m_executeQuery M ?t ''SPARQL'' (inf_parent st)) = Some bs"
      "\<forall>b\<in>set bs. solves (graph_in st) (preconditions rdfs2) (value_of b)"
      "\<And>f. solves (graph_in st) (preconditions rdfs2) f \<Longrightarrow> \<exists>b\<in>set bs. \<forall>v\<in>set (vars_of (preconditions rdfs2)). value_of b v = f v"
    using query_rows[of rdfs2 "inf_parent st"] rules by auto
  obtain \<sigma> where \<sigma>: "m_executeQuery M ?t ''SPARQL'' (inf_parent st) = (Some bs, \<sigma>)" "contents \<sigma> = graph_in st"
    using bs(1) query_keeps[of ?t "''SPARQL''" "inf_parent st"] by (cases "m_executeQuery M ?t ''SPARQL'' (inf_parent st)") auto
  let ?st0 = "st\<lparr>inf_parent := \<sigma>\<rparr>"
  obtain ss st1 where rows: "infer_rows q M uuid r bs ?st0 = (ss, st1)" by (cases "infer_rows q M uuid r bs ?st0")
  have R0: "\<forall>s\<in>set (graph_in ?st0). stmt_isValid s" "compressedStatements ?st0"
      "\<forall>b\<in>set bs. solves (graph_in ?st0) (preconditions rdfs2) (value_of b)"
    using valid set(1) bs(2) \<sigma>(2) by simp_all
  note R = infer_rows_shape[OF R0(1,2) core R0(3) rows, simplified, unfolded \<sigma>(2)]
  have same: "same_settings ?st0 st1" and v1: "\<forall>s\<in>set (graph_in st1). stmt_isValid s" and sub: "set (graph_in st) \<subseteq> set (graph_in st1)"
    and cnt: "uri_count st \<le> uri_count st1" and eff: "\<forall>s\<in>set ss. \<exists>b\<in>set bs. triple s = triple (inst (value_of b) (effect rdfs2))"
    and new: "\<forall>x\<in>set (graph_in st1). x \<in> set (graph_in st) \<or> x \<in> set ss \<or>
      meta_statement x \<and> (\<exists>j<uri_count st1. uri_count st \<le> j \<and> subject x = random_node uuid j)"
    using R by blast+
  let ?f = "\<lambda>v. if v = ''x'' then u else if v = ''p'' then type_node else if v = ''y'' then graph_node else ResourceNode c"
  have "solves (graph_in st) (preconditions rdfs2) ?f" using u(1) dom by (simp add: rdfs2_solution)
  then obtain b where b: "b \<in> set bs" "\<forall>v\<in>set (vars_of (preconditions rdfs2)). value_of b v = ?f v" using bs(3) by blast
  have bt: "triple (inst (value_of b) (effect rdfs2)) = (u, type_node, ResourceNode c)"
    unfolding rdfs2_solution(2) using b(2)
    by (simp add: vars_of_def rdfs2_parts(1) sp_vars_def np_vars_def mk_sp_def np_of_var_def np_of_node_def)
  have bv: "stmt_isValid (inst (value_of b) (effect rdfs2))"
    using ub bt by (auto simp: triple_def stmt_isValid_def Let_def node_test_defs)
  have some: "ss \<noteq> []"
  proof
    assume "ss = []"
    then have "graph_containsAnyStatement q (inst (value_of b) (effect rdfs2)) (graph_in st)" using R b(1) bv \<sigma>(2) by simp
    then obtain s where "s \<in> set (graph_in st)" "stmt_matches q s (inst (value_of b) (effect rdfs2))"
      by (auto simp: graph_containsAnyStatement_def list_ex_iff)
    then have "(u, type_node, ResourceNode c) \<in> ?g" using covers_exactly[OF _ bt ub] by (metis imageI)
    then show False using u(2) by simp
  qed
  have inferred: "\<exists>s\<in>set (graph_in st). subject s = subject x" if x: "x \<in> set ss" for x
  proof -
    obtain b where "b \<in> set bs" "triple x = triple (inst (value_of b) (effect rdfs2))" using bspec[OF eff x] by (elim bexE)
    then have "(subject x, value_of b ''p'', value_of b ''y'') \<in> ?g"
      using bs(2) rdfs2_solution(2)[of "value_of b"] unfolding rdfs2_solution(1) by (simp add: triple_def)
    then show ?thesis by (auto simp: triple_def)
  qed
  obtain j where j: "j < uri_count st1" "uri_count st \<le> j" "(random_node uuid j, type_node, graph_node) \<in> triple ` set (graph_in st1)"
    using R some by auto
  have fresh: "subject x \<noteq> random_node uuid k" if "x \<in> set (graph_in st1)" "uri_count st1 \<le> k" for x k
  proof -
    have "subject s \<noteq> random_node uuid k" if "s \<in> set (graph_in st)" for s using old that \<open>uri_count st1 \<le> k\<close> cnt by simp
    moreover have "random_node uuid j \<noteq> random_node uuid k" if "j < uri_count st1" for j
      using inj that \<open>uri_count st1 \<le> k\<close> by (metis injD leD)
    ultimately show ?thesis using new inferred that(1) by metis
  qed
  have not_yet: "(random_node uuid j, type_node, ResourceNode c) \<notin> triple ` set (graph_in st1)"
  proof
    assume "(random_node uuid j, type_node, ResourceNode c) \<in> triple ` set (graph_in st1)"
    then obtain x where x: "x \<in> set (graph_in st1)" "subject x = random_node uuid j" "predicate x = type_node" "object x = ResourceNode c"
      by (auto simp: triple_def)
    have "\<not> meta_statement x"
      using x(3,4) c by (simp add: meta_statement_def) (simp add: sil_sourceStatement_def silNamespace_def rdf_def rdfNamespace_def)
    then show False using new old inferred x(1,2) j(2) by metis
  qed
  have "diverging uuid c st1"
    using same set v1 fresh dom sub j(3) not_yet unfolding diverging_def same_settings_def by auto
  moreover have "inferRule (Suc n) q M uuid True r st = (case sum_loop (inferStatement q (inferRule n q M uuid True)) ss st1 of
       Inl st \<Rightarrow> Inl st | Inr (c, st) \<Rightarrow> Inr (length ss + c, st))"
    using set(2) ne \<sigma>(1) rows some by (simp add: rows_of_def)
  ultimately show ?thesis using some by blast
qed

lemma inference_diverges:
  assumes rules: "rules = [rdfs2]" and c: "c \<noteq> sil_InferenceGraph" and inj: "inj (random_node uuid)"
  shows "diverging uuid c st \<Longrightarrow> core_of r = core_of rdfs2 \<Longrightarrow> \<exists>st'. inferRule n q M uuid True r st = Inl st'"
proof (induction n arbitrary: st r)
  case 0
  then show ?case by simp
next
  case (Suc n)
  obtain ss st1 where 1: "ss \<noteq> []" "diverging uuid c st1"
      "inferRule (Suc n) q M uuid True r st = (case sum_loop (inferStatement q (inferRule n q M uuid True)) ss st1 of
         Inl st \<Rightarrow> Inl st | Inr (c, st) \<Rightarrow> Inr (length ss + c, st))"
    using diverging_step[OF rules Suc.prems(1) c inj Suc.prems(2)] by blast
  obtain s ts where ss: "ss = s # ts" using 1(1) by (cases ss) auto
  obtain r1 where r1: "inf_rules st1 = [r1]" "core_of r1 = core_of rdfs2" using 1(2) by (auto simp: diverging_def)
  have m: "rule_match q r1 s"
    using r1(2) by (simp add: core_of_def rule_match_def rdfs2_parts sp_match_def np_match_def mk_sp_def np_of_var_def)
  have "diverging uuid c (st1\<lparr>inf_rules := [bindToStatement s r1]\<rparr>)" using 1(2) r1 by (simp add: diverging_def)
  then obtain st2 where "inferRule n q M uuid True (bindToStatement s r1) (st1\<lparr>inf_rules := [bindToStatement s r1]\<rparr>) = Inl st2"
    using Suc.IH r1(2) by (metis core_bind)
  then have "inferStatement q (inferRule n q M uuid True) s st1 = Inl st2"
    using m by (simp add: inferStatement_def r1(1) infer_matching_def Let_def)
  then show ?case using 1(3) ss by simp
qed

end

text \<open>A store that has seen inference before, with the domain of rdf:type: no depth is enough.\<close>

definition typed_graph :: graph where
  "typed_graph = [mk_statement type_node (rdfs_node ''domain'') (rdfs_node ''Resource'') EmptyNode,
     mk_statement (ResourceNode (QUrl ''inference://localhost#0'')) type_node graph_node meta_node]"

definition typed_state :: "(graph \<times> error) inference" where
  "typed_state = setRules [rdfs2] (new_inference (typed_graph, NoError))"

definition counted_uuid :: "nat \<Rightarrow> qstring" where
  "counted_uuid k = CHR ''{'' # replicate k (CHR ''u'') @ [CHR ''}'']"

lemma counted_node: "random_node counted_uuid k = ResourceNode (QUrl (''inference://localhost#'' @ replicate k (CHR ''u'')))"
  by (simp add: random_node_def counted_uuid_def mid_def node_of_url_def url_isEmpty_def)

lemma counted_inj: "inj (random_node counted_uuid)"
  by (rule injI) (simp add: counted_node)

lemma rdfs2_store: "rule_store plain_qt (memory_model plain_qt (answer_rules plain_qt [rdfs2])) fst [rdfs2]"
proof -
  have "told_apart plain_qt [rdfs2] = [rdfs2]" by (simp add: told_apart_def)
  then show ?thesis using memory_rules.rule_store_axioms[of plain_qt "[rdfs2]"] by simp
qed

lemma typed_parts: "\<forall>s\<in>set typed_graph. stmt_isValid s"
  "triple ` set typed_graph = {(type_node, rdfs_node ''domain'', rdfs_node ''Resource''),
      (ResourceNode (QUrl ''inference://localhost#0''), type_node, graph_node)}"
proof -
  have "list_all stmt_isValid typed_graph" by code_simp
  then show "\<forall>s\<in>set typed_graph. stmt_isValid s" by (simp add: list_all_iff)
  show "triple ` set typed_graph = {(type_node, rdfs_node ''domain'', rdfs_node ''Resource''),
      (ResourceNode (QUrl ''inference://localhost#0''), type_node, graph_node)}"
    by (simp add: typed_graph_def triple_def mk_statement_def)
qed

lemma typed_fresh:
  assumes "s \<in> set typed_graph"
  shows "subject s \<noteq> random_node counted_uuid k"
proof -
  have "triple s \<in> triple ` set typed_graph" using assms by (rule imageI)
  then have "subject s = type_node \<or> subject s = ResourceNode (QUrl ''inference://localhost#0'')"
    unfolding typed_parts(2) by (auto simp: triple_def)
  then show ?thesis by (cases k) (auto simp: counted_node rdf_def rdfNamespace_def)
qed

lemma typed_diverging:
  "rule_store.diverging fst counted_uuid (QUrl (''http://www.w3.org/2000/01/rdf-schema#'' @ ''Resource'')) typed_state"
proof -
  have fields: "compressedStatements typed_state" "\<not> optimizedQueries typed_state" "inf_rules typed_state = [rdfs2]"
      "fst (inf_parent typed_state) = typed_graph"
    by (simp_all add: typed_state_def setRules_def new_inference_def)
  have graph: "type_node \<noteq> ResourceNode (QUrl ''inference://localhost#0'')" by (simp add: rdf_def rdfNamespace_def)
  have r: "ResourceNode (QUrl (''http://www.w3.org/2000/01/rdf-schema#'' @ ''Resource'')) = rdfs_node ''Resource''"
    by (simp only: rdfs_node_def)
  have "\<exists>u. (u, type_node, graph_node) \<in> triple ` set typed_graph \<and> (u, type_node, rdfs_node ''Resource'') \<notin> triple ` set typed_graph"
    by (rule exI[of _ "ResourceNode (QUrl ''inference://localhost#0'')"])
       (simp add: typed_parts(2) rdf_def rdfNamespace_def rdfs_node_def sil_InferenceGraph_def silNamespace_def)
  moreover have "(type_node, rdfs_node ''domain'', rdfs_node ''Resource'') \<in> triple ` set typed_graph" by (simp add: typed_parts(2))
  ultimately show ?thesis
    unfolding rule_store.diverging_def[OF rdfs2_store] fields r using typed_parts(1) typed_fresh fields(1,2) by simp
qed

theorem rdfs_inference_never_ends:
  "\<exists>st'. performInference n plain_qt (memory_model plain_qt (answer_rules plain_qt [rdfs2])) counted_uuid typed_state = Inl st'"
proof -
  let ?c = "QUrl (''http://www.w3.org/2000/01/rdf-schema#'' @ ''Resource'')" and ?r = "bindToStatement empty_statement rdfs2"
  have rules: "inf_rules typed_state = [rdfs2]" by (simp add: typed_state_def setRules_def)
  have c: "?c \<noteq> sil_InferenceGraph" by (simp add: sil_InferenceGraph_def silNamespace_def)
  have "rule_store.diverging fst counted_uuid ?c (typed_state\<lparr>inf_rules := [?r]\<rparr>)"
    using typed_diverging rules unfolding rule_store.diverging_def[OF rdfs2_store] by simp
  then obtain st' where "inferRule n plain_qt (memory_model plain_qt (answer_rules plain_qt [rdfs2])) counted_uuid True ?r
      (typed_state\<lparr>inf_rules := [?r]\<rparr>) = Inl st'"
    using rule_store.inference_diverges[OF rdfs2_store refl c counted_inj] core_bind by blast
  then show ?thesis using rules by (simp add: performInference_def perform_rule_def)
qed

end
