(* ===== verification/Rule_Parser.thy ===== *)
theory Rule_Parser
  imports Inference_Divergence
begin

text \<open>
  The parser for rule files (soprano/inference/inferenceruleparser.cpp) and the standard rule sets (inferenceruleset.cpp). A regular
  expression is the texts it matches; where QRegExp may match a text in several ways, which one it takes is a parameter. A rule
  written in the usual way is read as it is meant, and the rules of rules/rdfs.rules are.
\<close>

section \<open>The expressions\<close>

definition is_quote :: "char \<Rightarrow> bool" where
  "is_quote c \<longleftrightarrow> c = dquote \<or> c = CHR 0x27"

definition word_char :: "char \<Rightarrow> bool" where
  "word_char c \<longleftrightarrow> (let n = ccode c in is_digit c \<or> (65 \<le> n \<and> n \<le> 90) \<or> n = 95 \<or> (97 \<le> n \<and> n \<le> 122) \<or>
     n \<in> {170, 178, 179, 181, 185, 186, 188, 189, 190} \<or> (192 \<le> n \<and> n \<noteq> 215 \<and> n \<noteq> 247))"

definition is_words :: "qstring \<Rightarrow> bool" where
  "is_words t \<longleftrightarrow> t \<noteq> [] \<and> list_all word_char t"

definition is_variable :: "qstring \<Rightarrow> bool" where
  "is_variable t \<longleftrightarrow> (case t of [] \<Rightarrow> False | c # v \<Rightarrow> c = CHR ''?'' \<and> is_words v)"

definition uri_char :: "char \<Rightarrow> bool" where
  "uri_char c \<longleftrightarrow> c \<noteq> CHR ''<'' \<and> c \<noteq> CHR ''>'' \<and> \<not> is_space c"

definition is_uri_ref :: "qstring \<Rightarrow> bool" where
  "is_uri_ref t \<longleftrightarrow> 2 < length t \<and> hd t = CHR ''<'' \<and> last t = CHR ''>'' \<and> list_all uri_char (butlast (tl t))"

definition is_underscored :: "qstring \<Rightarrow> bool" where
  "is_underscored t \<longleftrightarrow> (case t of [] \<Rightarrow> False | c # v \<Rightarrow> c = CHR ''_'' \<and> is_words v)"

definition is_prefixed :: "qstring \<Rightarrow> bool" where
  "is_prefixed t \<longleftrightarrow> (case dropWhile word_char t of [] \<Rightarrow> False | c # v \<Rightarrow> takeWhile word_char t \<noteq> [] \<and> c = CHR '':'' \<and> is_words v)"

definition is_quoted :: "qstring \<Rightarrow> bool" where
  "is_quoted t \<longleftrightarrow> (case t of [] \<Rightarrow> False | c # v \<Rightarrow> is_quote c \<and> takeWhile (\<lambda>c. \<not> is_quote c) v \<noteq> [] \<and>
     (case dropWhile (\<lambda>c. \<not> is_quote c) v of
        [] \<Rightarrow> False
      | d # r \<Rightarrow> r = [] \<or> (hd r = CHR ''@'' \<and> is_words (tl r)) \<or> (take 2 r = ''^^'' \<and> is_uri_ref (drop 2 r))))"

definition is_integer :: "qstring \<Rightarrow> bool" where
  "is_integer t \<longleftrightarrow> t \<noteq> [] \<and> list_all is_digit t"

text \<open>s_nodePattern.\<close>

definition node_text :: "qstring \<Rightarrow> bool" where
  "node_text t \<longleftrightarrow> is_variable t \<or> is_uri_ref t \<or> is_underscored t \<or> is_prefixed t \<or> is_quoted t \<or> is_integer t"

text \<open>Going on with what is left of a text, for every way to cut off a beginning.\<close>

definition cuts :: "(qstring \<Rightarrow> bool) \<Rightarrow> qstring \<Rightarrow> (qstring \<times> qstring) list" where
  "cuts f t = filter (\<lambda>(a, r). f a) (map (\<lambda>i. (take i t, drop i t)) [0..<Suc (length t)])"

definition going_on :: "(qstring \<Rightarrow> bool) \<Rightarrow> qstring \<Rightarrow> (qstring \<Rightarrow> qstring \<Rightarrow> 'b list) \<Rightarrow> 'b list" where
  "going_on f t k = concat (map (\<lambda>(a, r). k a r) (cuts f t))"

text \<open>statementPattern: the nodes and what is left of the text, for every way to match its beginning.\<close>

type_synonym captures = "qstring \<times> qstring \<times> qstring"

definition all_blank :: "qstring \<Rightarrow> bool" where "all_blank t \<longleftrightarrow> list_all is_space t"

definition closing :: "captures \<Rightarrow> qstring \<Rightarrow> (captures \<times> qstring) list" where
  "closing m t = (case t of [] \<Rightarrow> [] | d # r \<Rightarrow> if d = CHR '')'' then [(m, r)] else [])"

definition statement_matches :: "qstring \<Rightarrow> (captures \<times> qstring) list" where
  "statement_matches t = (case t of [] \<Rightarrow> [] | c0 # t \<Rightarrow> if c0 \<noteq> CHR ''('' then [] else
     going_on node_text t (\<lambda>a t. going_on all_blank t (\<lambda>_ t. going_on node_text t (\<lambda>b t. going_on all_blank t (\<lambda>_ t. going_on node_text t (\<lambda>c t.
       going_on all_blank t (\<lambda>_ t. closing (a, b, c) t)))))))"

lemma cuts_iff: "(a, r) \<in> set (cuts f t) \<longleftrightarrow> f a \<and> t = a @ r"
proof
  assume "(a, r) \<in> set (cuts f t)"
  then have "f a \<and> (\<exists>i. a = take i t \<and> r = drop i t)" unfolding cuts_def set_filter set_map by blast
  then show "f a \<and> t = a @ r" by auto
next
  assume h: "f a \<and> t = a @ r"
  then have "(a, r) = (take (length a) t, drop (length a) t)" "length a \<in> set [0..<Suc (length t)]" by auto
  then have "(a, r) \<in> (\<lambda>i. (take i t, drop i t)) ` set [0..<Suc (length t)]" by (rule image_eqI)
  then show "(a, r) \<in> set (cuts f t)" using h unfolding cuts_def set_filter set_map by simp
qed

lemma going_on_iff: "x \<in> set (going_on f t k) \<longleftrightarrow> (\<exists>a r. f a \<and> t = a @ r \<and> x \<in> set (k a r))"
proof -
  have "x \<in> set (going_on f t k) \<longleftrightarrow> (\<exists>(a, r)\<in>set (cuts f t). x \<in> set (k a r))" by (auto simp: going_on_def)
  also have "\<dots> \<longleftrightarrow> (\<exists>a r. (a, r) \<in> set (cuts f t) \<and> x \<in> set (k a r))" by blast
  finally show ?thesis unfolding cuts_iff by blast
qed

lemma going_on_intro: "f a \<Longrightarrow> x \<in> set (k a r) \<Longrightarrow> x \<in> set (going_on f (a @ r) k)"
  unfolding going_on_iff by blast

lemma closing_iff: "x \<in> set (closing m t) \<longleftrightarrow> (\<exists>r. t = CHR '')'' # r \<and> x = (m, r))"
  by (cases t) (auto simp: closing_def)

lemma statement_matches_iff:
  "((a, b, c), r) \<in> set (statement_matches t) \<longleftrightarrow> node_text a \<and> node_text b \<and> node_text c \<and>
     (\<exists>u v w. all_blank u \<and> all_blank v \<and> all_blank w \<and> t = CHR ''('' # a @ u @ b @ v @ c @ w @ CHR '')'' # r)"
proof (cases t)
  case (Cons c0 t')
  show ?thesis
  proof
    assume "((a, b, c), r) \<in> set (statement_matches t)"
    then show "node_text a \<and> node_text b \<and> node_text c \<and> (\<exists>u v w. all_blank u \<and> all_blank v \<and> all_blank w \<and> t = CHR ''('' # a @ u @ b @ v @ c @ w @ CHR '')'' # r)"
      unfolding Cons statement_matches_def list.case by (cases "c0 = CHR ''(''") (auto simp: going_on_iff closing_iff)
  next
    assume "node_text a \<and> node_text b \<and> node_text c \<and> (\<exists>u v w. all_blank u \<and> all_blank v \<and> all_blank w \<and> t = CHR ''('' # a @ u @ b @ v @ c @ w @ CHR '')'' # r)"
    then obtain u v w where h: "node_text a" "node_text b" "node_text c" "all_blank u" "all_blank v" "all_blank w" "t = CHR ''('' # a @ u @ b @ v @ c @ w @ CHR '')'' # r"
      by blast
    show "((a, b, c), r) \<in> set (statement_matches t)"
      unfolding h(7) statement_matches_def list.case using h(1-6) by (simp add: going_on_intro closing_iff)
  qed
qed (simp add: statement_matches_def)

text \<open>The match at a position, by the choice of QRegExp.\<close>

type_synonym choice = "(captures \<times> qstring) list \<Rightarrow> nat"

definition chosen :: "choice \<Rightarrow> qstring \<Rightarrow> (captures \<times> qstring) option" where
  "chosen pick t = (case statement_matches t of [] \<Rightarrow> None | ms \<Rightarrow> Some (ms ! (pick ms mod length ms)))"

definition match_places :: "nat \<Rightarrow> qstring \<Rightarrow> nat list" where
  "match_places pos ln = filter (\<lambda>i. statement_matches (drop i ln) \<noteq> []) [pos..<Suc (length ln)]"

definition pattern_indexIn :: "nat \<Rightarrow> qstring \<Rightarrow> nat option" where
  "pattern_indexIn pos ln = (case match_places pos ln of [] \<Rightarrow> None | i # is \<Rightarrow> Some i)"

definition pattern_lastIndexIn :: "qstring \<Rightarrow> nat option" where
  "pattern_lastIndexIn ln = (case rev (match_places 0 ln) of [] \<Rightarrow> None | i # is \<Rightarrow> Some i)"

text \<open>prefixLine: the prefix and the URI.\<close>

definition match_prefixLine :: "qstring \<Rightarrow> (qstring \<times> qstring) option" where
  "match_prefixLine ln =
     (let r = drop 6 ln; k = takeWhile (\<lambda>c. \<not> is_space c) (dropWhile is_space r);
          r2 = dropWhile (\<lambda>c. \<not> is_space c) (dropWhile is_space r); u = dropWhile is_space r2 in
      if toLower (take 6 ln) = ''prefix'' \<and> takeWhile is_space r \<noteq> [] \<and> 1 < length k \<and> last k = CHR '':'' \<and> takeWhile is_space r2 \<noteq> [] \<and>
         2 < length u \<and> hd u = CHR ''<'' \<and> last u = CHR ''>'' \<and> list_all (\<lambda>c. \<not> is_space c) u
      then Some (butlast k, butlast (tl u)) else None)"

text \<open>ruleLine: the name of the rule. Groups in parentheses, separated by commas, an arrow, one more group.\<close>

definition skip_group :: "qstring \<Rightarrow> qstring option" where
  "skip_group t = (case t of [] \<Rightarrow> None | c # r \<Rightarrow>
     if c \<noteq> CHR ''('' \<or> takeWhile (\<lambda>c. c \<noteq> CHR '')'') r = [] then None
     else (case dropWhile (\<lambda>c. c \<noteq> CHR '')'') r of [] \<Rightarrow> None | d # r \<Rightarrow> Some r))"

lemma skip_group_shorter: "skip_group t = Some r \<Longrightarrow> length r < length t"
proof -
  assume s: "skip_group t = Some r"
  then obtain c u where t: "t = c # u" by (cases t) (simp_all add: skip_group_def)
  with s obtain d where "dropWhile (\<lambda>c. c \<noteq> CHR '')'') u = d # r" by (auto simp: skip_group_def split: if_splits list.splits)
  with length_dropWhile_le[of "\<lambda>c. c \<noteq> CHR '')''" u] show ?thesis by (simp add: t)
qed

function skip_groups :: "qstring \<Rightarrow> qstring option" where
  "skip_groups t = (case dropWhile is_space t of
       [] \<Rightarrow> Some t
     | c # r \<Rightarrow> if c \<noteq> CHR '','' then Some t
         else (case skip_group (dropWhile is_space r) of None \<Rightarrow> None | Some r \<Rightarrow> skip_groups r))"
  by pat_completeness auto
termination
proof (relation "measure length")
  fix t c r r'
  assume a: "dropWhile is_space t = c # r" "skip_group (dropWhile is_space r) = Some r'"
  have "length (c # r) \<le> length t" unfolding a(1)[symmetric] by (rule length_dropWhile_le)
  moreover have "length r' < length r" using skip_group_shorter[OF a(2)] length_dropWhile_le[of is_space r] by simp
  ultimately show "(r', t) \<in> measure length" by simp
qed simp

declare skip_groups.simps [simp del]

definition match_ruleLine :: "qstring \<Rightarrow> qstring option" where
  "match_ruleLine ln = (case ln of [] \<Rightarrow> None | c # r \<Rightarrow> if c \<noteq> CHR ''['' then None else
     (let r = dropWhile is_space r; name = takeWhile word_char r in
      case drop (length name) r of [] \<Rightarrow> None | d # r \<Rightarrow> if name = [] \<or> d \<noteq> CHR '':'' then None else
        (case skip_group (dropWhile is_space r) of None \<Rightarrow> None | Some r \<Rightarrow>
         (case skip_groups r of None \<Rightarrow> None | Some r \<Rightarrow>
          (let r = dropWhile is_space r in if take 2 r \<noteq> ''->'' then None else
           (case skip_group (dropWhile is_space (drop 2 r)) of None \<Rightarrow> None | Some r \<Rightarrow> if dropWhile is_space r = '']'' then Some name else None))))))"

section \<open>The parser\<close>

record rule_parser =
  rp_rules :: rule_set
  rp_prefixes :: "qstring \<rightharpoonup> qurl"

definition new_rule_parser :: rule_parser where "new_rule_parser = \<lparr> rp_rules = [], rp_prefixes = Map.empty \<rparr>"

text \<open>Without a match the captured texts are empty, and the null character ends an empty string.\<close>

definition parse_capture :: "qt \<Rightarrow> (qstring \<rightharpoonup> qurl) \<Rightarrow> bool \<Rightarrow> qstring \<Rightarrow> node_pattern \<times> bool" where
  "parse_capture q pfx noise s =
     (if s = [] then (case pfx [] of None \<Rightarrow> (empty_np, False) | Some u \<Rightarrow> (np_of_node (node_of_url (url_parse q (url_toString q u))), True))
      else parseNodePattern q pfx noise s)"

text \<open>\<open>noise\<close> is what the flags hold that a blank node does not set.\<close>

definition parseMatchedStatementPattern :: "qt \<Rightarrow> (qstring \<rightharpoonup> qurl) \<Rightarrow> bool \<Rightarrow> captures \<Rightarrow> statement_pattern \<times> bool" where
  "parseMatchedStatementPattern q pfx noise m = (case m of (a, b, c) \<Rightarrow>
     (mk_sp (fst (parse_capture q pfx noise a)) (fst (parse_capture q pfx noise b)) (fst (parse_capture q pfx noise c)),
      snd (parse_capture q pfx noise a) \<and> snd (parse_capture q pfx noise b) \<and> snd (parse_capture q pfx noise c)))"

lemma chosen_match: "chosen pick t = Some x \<Longrightarrow> x \<in> set (statement_matches t)"
proof -
  assume c: "chosen pick t = Some x"
  then have "statement_matches t \<noteq> []" "x = statement_matches t ! (pick (statement_matches t) mod length (statement_matches t))"
    by (auto simp: chosen_def split: list.splits)
  then show ?thesis by (metis length_greater_0_conv mod_less_divisor nth_mem)
qed

lemma chosen_shorter: "chosen pick t = Some (m, r) \<Longrightarrow> length r < length t"
proof -
  assume c: "chosen pick t = Some (m, r)"
  obtain x y z where m: "m = (x, y, z)" by (cases m)
  show ?thesis using chosen_match[OF c] unfolding m statement_matches_iff by auto
qed

lemma index_bounds: "pattern_indexIn pos ln = Some i \<Longrightarrow> pos \<le> i \<and> i \<le> length ln"
proof -
  assume "pattern_indexIn pos ln = Some i"
  then have "i \<in> set (match_places pos ln)" by (auto simp: pattern_indexIn_def split: list.splits)
  then show ?thesis by (auto simp: match_places_def)
qed

text \<open>The loop over the preconditions: from match to match, up to the effect. None: one of them cannot be read.\<close>

function parse_conditions :: "qt \<Rightarrow> choice \<Rightarrow> bool \<Rightarrow> (qstring \<rightharpoonup> qurl) \<Rightarrow> qstring \<Rightarrow> nat \<Rightarrow> nat \<Rightarrow> statement_pattern list option" where
  "parse_conditions q pick noise pfx ln effectPos pos = (case pattern_indexIn pos ln of
       None \<Rightarrow> Some []
     | Some i \<Rightarrow>
         if \<not> i < effectPos then Some []
         else (case chosen pick (drop i ln) of
             None \<Rightarrow> Some []
           | Some (m, r) \<Rightarrow> (case parseMatchedStatementPattern q pfx noise m of
                 (p, True) \<Rightarrow> map_option ((#) p) (parse_conditions q pick noise pfx ln effectPos (length ln - length r))
               | (p, False) \<Rightarrow> None)))"
  by pat_completeness auto
termination
proof (relation "measure (\<lambda>(q, pick, noise, pfx, ln, effectPos, pos). Suc (length ln) - pos)", goal_cases)
  case (2 q pick noise pfx ln effectPos pos i x m r p b)
  then have "length r < length ln - i" "pos \<le> i" "i \<le> length ln" using chosen_shorter[of pick "drop i ln" m r] index_bounds[of pos ln i] by auto
  then show ?case by simp
qed simp

declare parse_conditions.simps [simp del]

text \<open>A rule, or an invalid one; only a rule that can be read is kept.\<close>

definition rp_parseRule :: "qt \<Rightarrow> choice \<Rightarrow> bool \<Rightarrow> qstring \<Rightarrow> rule_parser \<Rightarrow> rule \<times> rule_parser" where
  "rp_parseRule q pick noise ln st = (case match_ruleLine ln of
       None \<Rightarrow> (new_rule, st)
     | Some name \<Rightarrow>
         (case (case pattern_lastIndexIn ln of
               None \<Rightarrow> (0, parseMatchedStatementPattern q (rp_prefixes st) noise ([], [], []))
             | Some i \<Rightarrow> (i, parseMatchedStatementPattern q (rp_prefixes st) noise (fst (the (chosen pick (drop i ln)))))) of
            (effectPos, (e, success)) \<Rightarrow>
              if \<not> success then (new_rule, st)
              else (case parse_conditions q pick noise (rp_prefixes st) ln effectPos 0 of
                  None \<Rightarrow> (new_rule, st)
                | Some ps \<Rightarrow> (let r = fold addPrecondition ps (setEffect e new_rule) in (r, st\<lparr>rp_rules := rs_insert name r (rp_rules st)\<rparr>)))))"

fun parse_file_lines :: "qt \<Rightarrow> choice \<Rightarrow> bool \<Rightarrow> qstring list \<Rightarrow> rule_parser \<Rightarrow> bool \<times> rule_parser" where
  "parse_file_lines q pick noise [] st = (True, st)"
| "parse_file_lines q pick noise (l # ls) st =
     (let ln = trimmed l in
      if ln = [] \<or> hd ln = CHR ''#'' then parse_file_lines q pick noise ls st
      else (case match_prefixLine ln of
          Some (k, u) \<Rightarrow> parse_file_lines q pick noise ls (st\<lparr>rp_prefixes := (rp_prefixes st)(k \<mapsto> url_parse q u)\<rparr>)
        | None \<Rightarrow> (case rp_parseRule q pick noise ln st of (r, st) \<Rightarrow>
            if \<not> rule_isValid r then (False, st) else parse_file_lines q pick noise ls st)))"

text \<open>\<open>files\<close>: the lines of the files that can be read.\<close>

definition rp_parseFile :: "qt \<Rightarrow> choice \<Rightarrow> bool \<Rightarrow> (qstring \<rightharpoonup> qstring list) \<Rightarrow> qstring \<Rightarrow> rule_parser \<Rightarrow> bool \<times> rule_parser" where
  "rp_parseFile q pick noise files path st = (case files path of Some ls \<Rightarrow> parse_file_lines q pick noise ls st | None \<Rightarrow> (False, st))"

definition rp_addPrefix :: "qstring \<Rightarrow> qurl \<Rightarrow> rule_parser \<Rightarrow> rule_parser" where
  "rp_addPrefix k u st = st\<lparr>rp_prefixes := (rp_prefixes st)(k \<mapsto> u)\<rparr>"

definition rp_clear :: "rule_parser \<Rightarrow> rule_parser" where
  "rp_clear st = st\<lparr>rp_rules := [], rp_prefixes := Map.empty\<rparr>"

text \<open>RuleSet::standardRuleSet.\<close>

datatype standard_rules = RDFS_rules | NRL_rules

fun rules_path :: "standard_rules \<Rightarrow> qstring" where
  "rules_path RDFS_rules = ''/soprano/rules/rdfs.rules''"
| "rules_path NRL_rules = ''/soprano/rules/nrl.rules''"

fun standardRuleSet :: "qt \<Rightarrow> choice \<Rightarrow> bool \<Rightarrow> (qstring \<rightharpoonup> qstring list) \<Rightarrow> qstring list \<Rightarrow> standard_rules \<Rightarrow> rule_set" where
  "standardRuleSet q pick noise files [] std = []"
| "standardRuleSet q pick noise files (d # ds) std =
     (case rp_parseFile q pick noise files (d @ rules_path std) new_rule_parser of
        (True, st) \<Rightarrow> rp_rules st
      | (False, st) \<Rightarrow> standardRuleSet q pick noise files ds std)"


section \<open>Rules as they are written\<close>

text \<open>Nodes without quotes, blanks and parentheses: everything but literals in quotes.\<close>

definition plain_char :: "char \<Rightarrow> bool" where
  "plain_char c \<longleftrightarrow> \<not> is_space c \<and> \<not> is_quote c \<and> c \<noteq> CHR ''('' \<and> c \<noteq> CHR '')''"

definition plain_node :: "qstring \<Rightarrow> bool" where
  "plain_node t \<longleftrightarrow> node_text t \<and> list_all plain_char t"

definition statement_text :: "captures \<Rightarrow> qstring" where
  "statement_text m = (case m of (a, b, c) \<Rightarrow> CHR ''('' # a @ '' '' @ b @ '' '' @ c @ '')'')"

definition plain_captures :: "captures \<Rightarrow> bool" where
  "plain_captures m \<longleftrightarrow> (case m of (a, b, c) \<Rightarrow> plain_node a \<and> plain_node b \<and> plain_node c)"

lemma word_char_plain: "word_char c \<Longrightarrow> plain_char c"
proof -
  assume w: "word_char c"
  have "ccode c \<notin> {9, 10, 11, 12, 13, 32, 133, 160, 34, 39, 40, 41}" using w by (auto simp: word_char_def is_digit_def Let_def)
  moreover have "ccode CHR ''('' = 40" "ccode CHR '')'' = 41" "ccode dquote = 34" "ccode CHR 0x27 = 39" by (simp_all add: ccode_def)
  ultimately show ?thesis by (auto simp: plain_char_def is_space_def is_quote_def Let_def)
qed

lemma node_not_empty: "node_text t \<Longrightarrow> t \<noteq> []"
  by (auto simp: node_text_def is_variable_def is_uri_ref_def is_underscored_def is_prefixed_def is_quoted_def is_integer_def)

lemma words_plain: "is_words t \<Longrightarrow> list_all plain_char t"
  by (auto simp: is_words_def list_all_iff word_char_plain)

text \<open>Without quotes a node has no blank, and a parenthesis only between angle brackets.\<close>

lemma unquoted_node:
  assumes "node_text t" "list_all (\<lambda>c. \<not> is_quote c) t"
  shows "list_all (\<lambda>c. \<not> is_space c) t \<and> (is_uri_ref t \<or> CHR '')'' \<notin> set t)"
proof -
  have p: "list_all plain_char v \<Longrightarrow> list_all (\<lambda>c. \<not> is_space c) v \<and> CHR '')'' \<notin> set v" for v
    by (auto simp: plain_char_def list_all_iff)
  have sp: "\<not> is_space CHR ''?''" "\<not> is_space CHR ''_''" "\<not> is_space CHR ''<''" "\<not> is_space CHR ''>''" "\<not> is_space CHR '':''"
    by (simp_all add: is_space_def ccode_def)
  consider (var) "is_variable t" | (ref) "is_uri_ref t" | (under) "is_underscored t" | (pref) "is_prefixed t" | (quot) "is_quoted t" | (num) "is_integer t"
    using assms(1) unfolding node_text_def by blast
  then show ?thesis
  proof cases
    case var
    then obtain v where "t = CHR ''?'' # v" "is_words v" by (auto simp: is_variable_def split: list.splits)
    then show ?thesis using p[OF words_plain] sp by auto
  next
    case ref
    then have l: "2 < length t" "hd t = CHR ''<''" "last t = CHR ''>''" "list_all uri_char (butlast (tl t))" by (auto simp: is_uri_ref_def)
    have "tl t \<noteq> []" using l(1) by (cases t) auto
    then have t: "t = hd t # butlast (tl t) @ [last t]" by (cases t) auto
    have "list_all (\<lambda>c. \<not> is_space c) (hd t # butlast (tl t) @ [last t])"
      using l(2-4) sp by (auto simp: uri_char_def list_all_iff)
    then show ?thesis using ref t by metis
  next
    case under
    then obtain v where "t = CHR ''_'' # v" "is_words v" by (auto simp: is_underscored_def split: list.splits)
    then show ?thesis using p[OF words_plain] sp by auto
  next
    case pref
    then obtain v where v: "dropWhile word_char t = CHR '':'' # v" "is_words v" by (auto simp: is_prefixed_def split: list.splits)
    have "list_all plain_char (takeWhile word_char t)" using word_char_plain set_takeWhileD by (fastforce simp: list_all_iff)
    then have "list_all (\<lambda>c. \<not> is_space c) (takeWhile word_char t @ CHR '':'' # v) \<and> CHR '')'' \<notin> set (takeWhile word_char t @ CHR '':'' # v)"
      using p[OF words_plain[OF v(2)]] p[of "takeWhile word_char t"] sp by auto
    then show ?thesis using takeWhile_dropWhile_id[of word_char t] v(1) by metis
  next
    case quot
    then show ?thesis using assms(2) by (auto simp: is_quoted_def split: list.splits)
  next
    case num
    then have "list_all word_char t" by (auto simp: is_integer_def list_all_iff word_char_def)
    then have "list_all plain_char t" by (auto simp: list_all_iff word_char_plain)
    then show ?thesis using p by blast
  qed
qed

text \<open>What comes before a blank, for two cuts of a text.\<close>

lemma before_blank:
  assumes "x @ u = a @ CHR '' '' # v" "list_all (\<lambda>c. \<not> is_space c) x" "list_all (\<lambda>c. \<not> is_space c) a"
  obtains a' where "a = x @ a'" "u = a' @ CHR '' '' # v"
proof -
  from assms(1) obtain w where "x = a @ w \<and> w @ u = CHR '' '' # v \<or> x @ w = a \<and> u = w @ CHR '' '' # v"
    by (auto simp: append_eq_append_conv2)
  then show ?thesis
  proof
    assume h: "x = a @ w \<and> w @ u = CHR '' '' # v"
    show ?thesis
    proof (cases w)
      case Nil
      then show ?thesis using h by (intro that[of "[]"]) simp_all
    next
      case (Cons c w')
      then have "c = CHR '' ''" using h by simp
      then have "CHR '' '' \<in> set x" using h Cons by simp
      moreover have "is_space CHR '' ''" by (simp add: is_space_def ccode_def)
      ultimately show ?thesis using assms(2) by (auto simp: list_all_iff)
    qed
  next
    assume "x @ w = a \<and> u = w @ CHR '' '' # v"
    then show ?thesis by (intro that[of w]) simp_all
  qed
qed

lemma space_blank: "is_space CHR '' ''" by (simp add: is_space_def ccode_def)

text \<open>The blanks after a part of a node: none, or the one that ends the node.\<close>

lemma blanks_here:
  assumes "all_blank w" "w @ u = a' @ CHR '' '' # b @ v" "list_all plain_char a'" "b \<noteq> []" "list_all plain_char b"
  shows "(w = [] \<and> u = a' @ CHR '' '' # b @ v) \<or> (w = '' '' \<and> a' = [] \<and> u = b @ v)"
proof (cases w)
  case (Cons c w')
  then have c: "is_space c" "all_blank w'" using assms(1) by (simp_all add: all_blank_def)
  have a: "a' = []"
  proof (cases a')
    case (Cons d a'')
    then show ?thesis using assms(2,3) c(1) \<open>w = c # w'\<close> by (simp add: plain_char_def)
  qed simp
  obtain d b' where b: "b = d # b'" using assms(4) by (cases b) auto
  have "w' = []"
  proof (cases w')
    case (Cons e w'')
    then show ?thesis using assms(2,5) c(2) \<open>w = c # w'\<close> a b by (simp add: all_blank_def plain_char_def)
  qed simp
  then show ?thesis using assms(2) Cons a by simp
qed (use assms(2) in simp)

lemma no_closing_here:
  assumes "all_blank w" "w @ CHR '')'' # r = a' @ CHR '' '' # b @ v" "list_all plain_char a'" "b \<noteq> []" "list_all plain_char b"
  shows False
  using blanks_here[OF assms]
proof
  assume "w = [] \<and> CHR '')'' # r = a' @ CHR '' '' # b @ v"
  then show False using assms(3) by (cases a') (auto simp: plain_char_def)
next
  assume "w = '' '' \<and> a' = [] \<and> CHR '')'' # r = b @ v"
  then show False using assms(4,5) by (cases b) (auto simp: plain_char_def)
qed

text \<open>So a statement of such nodes can be read in one way only.\<close>

abbreviation unquoted :: "qstring \<Rightarrow> bool" where
  "unquoted t \<equiv> list_all (\<lambda>c. \<not> is_quote c) t"

lemma plain_unquoted: "list_all plain_char t \<Longrightarrow> unquoted t \<and> list_all (\<lambda>c. \<not> is_space c) t"
  by (auto simp: plain_char_def list_all_iff)

lemma last_node:
  assumes z: "node_text z" "unquoted z" and c: "plain_node c"
    and eq: "z @ w @ CHR '')'' # r = c @ CHR '')'' # rest" and w: "all_blank w"
  shows "z = c \<and> r = rest"
proof -
  have zs: "list_all (\<lambda>c. \<not> is_space c) z" "is_uri_ref z \<or> CHR '')'' \<notin> set z" using unquoted_node[OF z] by auto
  have cp: "node_text c" "list_all plain_char c" using c by (simp_all add: plain_node_def)
  then have cc: "CHR '')'' \<notin> set c" by (auto simp: list_all_iff plain_char_def)
  from eq obtain v where "z = c @ v \<and> v @ w @ CHR '')'' # r = CHR '')'' # rest \<or> z @ v = c \<and> w @ CHR '')'' # r = v @ CHR '')'' # rest"
    by (auto simp: append_eq_append_conv2)
  then show ?thesis
  proof
    assume h: "z = c @ v \<and> v @ w @ CHR '')'' # r = CHR '')'' # rest"
    show ?thesis
    proof (cases v)
      case Nil
      then have "w = [] \<and> r = rest" using h w by (cases w) (auto simp: all_blank_def is_space_def ccode_def)
      then show ?thesis using h Nil by simp
    next
      case (Cons d v')
      then have "d = CHR '')''" using h by simp
      then have "CHR '')'' \<in> set z" using h Cons by simp
      then have u: "is_uri_ref z" using zs(2) by simp
      have ne: "c \<noteq> []" using node_not_empty[OF cp(1)] .
      have hd: "hd c = CHR ''<''" using u h ne by (simp add: is_uri_ref_def)
      have "is_uri_ref c"
        using cp(1) hd ne by (cases c) (auto simp: node_text_def is_variable_def is_underscored_def is_prefixed_def is_quoted_def
            is_integer_def is_quote_def is_digit_def word_char_def ccode_def is_words_def Let_def split: list.splits)
      then have l: "c = butlast c @ [CHR ''>'']" "2 < length c" using ne append_butlast_last_id[OF ne] by (auto simp: is_uri_ref_def)
      have "CHR ''>'' \<in> set (butlast (tl z))"
      proof -
        obtain c' where c': "c = hd c # c' @ [CHR ''>'']" using l by (cases "butlast c") auto
        have "tl z = c' @ CHR ''>'' # v" using h c' by (metis append_Cons append_Nil append_assoc list.sel(3))
        then show ?thesis using Cons by (simp add: butlast_append)
      qed
      then show ?thesis using u by (auto simp: is_uri_ref_def list_all_iff uri_char_def)
    qed
  next
    assume h: "z @ v = c \<and> w @ CHR '')'' # r = v @ CHR '')'' # rest"
    then have v: "list_all plain_char v" using cp(2) by auto
    have "v = []"
    proof (cases v)
      case (Cons d v')
      then show ?thesis using h v w by (cases w) (auto simp: plain_char_def all_blank_def)
    qed simp
    then show ?thesis using h w by (cases w) (auto simp: all_blank_def is_space_def ccode_def)
  qed
qed

text \<open>A node that stops inside the node it begins in leaves the next two nodes no room.\<close>

lemma node_step:
  assumes x: "node_text x" "unquoted x" and a: "list_all plain_char a" and b: "b \<noteq> []" "list_all plain_char b" and u: "all_blank u"
    and eq: "x @ u @ t = a @ CHR '' '' # b @ v"
  obtains (node) "x = a" "u = '' ''" "t = b @ v"
    | (part) a' where "list_all plain_char a'" "u = []" "t = a' @ CHR '' '' # b @ v"
proof -
  obtain a' where a': "a = x @ a'" "u @ t = a' @ CHR '' '' # b @ v"
    using before_blank[OF eq] unquoted_node[OF x] plain_unquoted[OF a] by metis
  have p: "list_all plain_char a'" using a a'(1) by simp
  from blanks_here[OF u a'(2) p b] show ?thesis
  proof
    assume "u = [] \<and> t = a' @ CHR '' '' # b @ v"
    then show ?thesis using p by (intro part[of a']) simp_all
  next
    assume "u = '' '' \<and> a' = [] \<and> t = b @ v"
    then show ?thesis using a'(1) by (intro node) simp_all
  qed
qed

lemma no_room:
  assumes z: "node_text z" "unquoted z" and a: "list_all plain_char a" and b: "b \<noteq> []" "list_all plain_char b" and w: "all_blank w"
  shows "z @ w @ CHR '')'' # r \<noteq> a @ CHR '' '' # b @ v"
proof
  assume eq: "z @ w @ CHR '')'' # r = a @ CHR '' '' # b @ v"
  show False
  proof (rule node_step[OF z a b w eq], goal_cases)
    case node: 1
    then show False using b by (cases b) (auto simp: plain_char_def)
  next
    case part: (2 a')
    then show False using no_closing_here[of "[]" r a' b v] b by (simp add: all_blank_def)
  qed
qed

lemma statement_unique:
  assumes m: "plain_captures m" and q: "unquoted rest"
    and h: "((x, y, z), r) \<in> set (statement_matches (statement_text m @ rest))"
  shows "(x, y, z) = m \<and> r = rest"
proof -
  obtain a b c where abc: "m = (a, b, c)" by (cases m)
  have pa: "plain_node a" "plain_node b" "plain_node c" using m by (simp_all add: plain_captures_def abc)
  have p: "list_all plain_char a" "list_all plain_char b" "list_all plain_char c" "a \<noteq> []" "b \<noteq> []" "c \<noteq> []"
    using pa node_not_empty by (auto simp: plain_node_def)
  obtain u v w where n: "node_text x" "node_text y" "node_text z" and s: "all_blank u" "all_blank v" "all_blank w"
    and eq: "x @ u @ y @ v @ z @ w @ CHR '')'' # r = a @ CHR '' '' # b @ CHR '' '' # c @ CHR '')'' # rest"
    using h unfolding statement_matches_iff abc statement_text_def by auto
  have "unquoted (a @ CHR '' '' # b @ CHR '' '' # c @ CHR '')'' # rest)"
    using plain_unquoted[OF p(1)] plain_unquoted[OF p(2)] plain_unquoted[OF p(3)] q by (simp add: is_quote_def)
  then have nq: "unquoted x" "unquoted y" "unquoted z" unfolding eq[symmetric] by simp_all
  show ?thesis
  proof (rule node_step[OF n(1) nq(1) p(1) p(5) p(2) s(1) eq], goal_cases)
    case node: 1
    show ?thesis
    proof (rule node_step[OF n(2) nq(2) p(2) p(6) p(3) s(2) node(3)], goal_cases)
      case node2: 1
      show ?thesis using last_node[OF n(3) nq(3) pa(3) node2(3) s(3)] node node2 by (simp add: abc)
    next
      case part: (2 b')
      then show ?thesis using no_room[OF n(3) nq(3) part(1) p(6) p(3) s(3)] by blast
    qed
  next
    case part: (2 a')
    show ?thesis
    proof (rule node_step[OF n(2) nq(2) part(1) p(5) p(2) s(2) part(3)], goal_cases)
      case node: 1
      then show ?thesis using no_room[OF n(3) nq(3) p(2) p(6) p(3) s(3)] by blast
    next
      case part: (2 a'')
      then show ?thesis using no_room[OF n(3) nq(3) part(1) p(5) p(2) s(3)] by blast
    qed
  qed
qed

text \<open>The nodes of a rule, how they are written and what they mean under the prefixes.\<close>

datatype rule_node = RVar qstring | RRef qstring | RName qstring qstring | RNumber nat

fun node_written :: "rule_node \<Rightarrow> qstring" where
  "node_written (RVar v) = CHR ''?'' # v"
| "node_written (RRef u) = CHR ''<'' # u @ ''>''"
| "node_written (RName p n) = p @ CHR '':'' # n"
| "node_written (RNumber n) = show_nat n"

fun node_meant :: "qt \<Rightarrow> (qstring \<rightharpoonup> qurl) \<Rightarrow> rule_node \<Rightarrow> node_pattern" where
  "node_meant q pfx (RVar v) = np_of_var v"
| "node_meant q pfx (RRef u) = np_of_node (node_of_url (url_parse q u))"
| "node_meant q pfx (RName p n) = np_of_node (node_of_url (url_parse q (url_toString q (the (pfx p)) @ n)))"
| "node_meant q pfx (RNumber n) = np_of_node (node_of_literal (lit_int (word_of_int (int n))))"

text \<open>The prefix that is an underscore is the mark of a blank node.\<close>

fun written_wf :: "(qstring \<rightharpoonup> qurl) \<Rightarrow> rule_node \<Rightarrow> bool" where
  "written_wf pfx (RVar v) \<longleftrightarrow> is_words v"
| "written_wf pfx (RRef u) \<longleftrightarrow> u \<noteq> [] \<and> list_all uri_char u \<and> list_all plain_char u"
| "written_wf pfx (RName p n) \<longleftrightarrow> is_words p \<and> is_words n \<and> p \<noteq> ''_'' \<and> pfx p \<noteq> None"
| "written_wf pfx (RNumber n) \<longleftrightarrow> n < 2 ^ 31"

lemma mark_plain: "plain_char CHR ''?''" "plain_char CHR ''<''" "plain_char CHR ''>''" "plain_char CHR '':''"
  by (simp_all add: plain_char_def is_space_def is_quote_def ccode_def)

lemma not_word: "\<not> word_char CHR '':''" "\<not> word_char CHR ''?''" "\<not> word_char CHR ''<''" "\<not> word_char dquote" "\<not> word_char CHR 0x27"
    "\<not> word_char CHR ''-''" "\<not> word_char CHR ''+''"
  by (simp_all add: word_char_def is_digit_def ccode_def)

lemma digit_word: "is_digit c \<Longrightarrow> word_char c"
  by (simp add: word_char_def)

lemma written_plain: "written_wf pfx x \<Longrightarrow> plain_node (node_written x)"
proof (cases x)
  case (RVar v)
  assume "written_wf pfx x"
  then show ?thesis using words_plain by (simp add: RVar plain_node_def node_text_def is_variable_def mark_plain)
next
  case (RRef u)
  assume "written_wf pfx x"
  then have "is_uri_ref (node_written x)" by (simp add: RRef is_uri_ref_def butlast_append Suc_less_eq2 neq_Nil_conv)
  then show ?thesis using \<open>written_wf pfx x\<close> by (simp add: RRef plain_node_def node_text_def mark_plain)
next
  case (RName p n)
  assume wf: "written_wf pfx x"
  then have "dropWhile word_char (p @ CHR '':'' # n) = CHR '':'' # n" "takeWhile word_char (p @ CHR '':'' # n) = p"
    using not_word by (auto simp: RName is_words_def list_all_iff dropWhile_append takeWhile_append)
  then have "is_prefixed (node_written x)" using wf by (simp add: RName is_prefixed_def is_words_def)
  then show ?thesis using wf words_plain by (simp add: RName plain_node_def node_text_def mark_plain)
next
  case (RNumber n)
  have "list_all plain_char (show_nat n)" using show_nat_digits[of n] by (auto simp: list_all_iff intro: word_char_plain digit_word)
  then show ?thesis using show_nat_digits by (simp add: RNumber plain_node_def node_text_def is_integer_def)
qed

lemma find_colon: "list_all word_char p \<Longrightarrow> find_text '':'' (p @ CHR '':'' # n) = Some (length p)"
  using not_word by (induction p) auto

lemma toInt_not_digits:
  assumes "c \<noteq> CHR ''-''" "c \<noteq> CHR ''+''" "\<not> is_space c" "\<not> is_space (last (c # s))" "\<not> list_all is_digit (c # s)"
  shows "toInt (c # s) = None"
proof -
  have "trimmed (c # s) = c # s" using assms(3,4) by (intro trimmed_no_space) simp
  then have "parse_int (c # s) = None" using assms(1,2,5) by (auto simp: parse_int_def parse_nat_def)
  then show ?thesis by (simp add: toInt_def parse_in_def)
qed

lemma written_read: "written_wf pfx x \<Longrightarrow> parse_capture q pfx noise (node_written x) = (node_meant q pfx x, True)"
proof (cases x)
  case (RVar v)
  then show ?thesis by (simp add: parse_capture_def parseNodePattern_def)
next
  case (RRef u)
  then show ?thesis by (simp add: parse_capture_def parseNodePattern_def mid_def)
next
  case (RName p n)
  assume wf: "written_wf pfx x"
  then obtain c p' where p: "p = c # p'" "word_char c" "list_all word_char p'" by (cases p) (auto simp: RName is_words_def)
  have c: "c \<noteq> CHR ''?''" "c \<noteq> CHR ''<''" "c \<noteq> dquote" "c \<noteq> CHR 0x27" "c \<noteq> CHR ''-''" "c \<noteq> CHR ''+''" "\<not> is_space c"
    using p(2) not_word word_char_plain[OF p(2)] by (auto simp: plain_char_def)
  have blank: "\<not> (c = CHR ''_'' \<and> (p' @ CHR '':'' # n) ! 0 = CHR '':'')"
  proof
    assume a: "c = CHR ''_'' \<and> (p' @ CHR '':'' # n) ! 0 = CHR '':''"
    have "p' \<noteq> []" using wf a by (auto simp: RName p)
    then show False using a p(3) not_word by (cases p') auto
  qed
  have n: "n \<noteq> []" "\<not> is_space (last n)" using wf word_char_plain by (auto simp: RName is_words_def list_all_iff plain_char_def)
  have "toInt (c # p' @ CHR '':'' # n) = None"
    using c n by (intro toInt_not_digits) (auto simp: is_digit_def ccode_def)
  moreover have "find_text '':'' (c # p' @ CHR '':'' # n) = Some (length p)" using find_colon[of p n] p by simp
  ultimately show ?thesis using wf c blank
    by (auto simp: RName p parse_capture_def parseNodePattern_def)
next
  case (RNumber n)
  assume wf: "written_wf pfx x"
  have d: "list_all is_digit (show_nat n)" by (rule show_nat_digits)
  obtain c s where s: "show_nat n = c # s" by (cases "show_nat n") (use show_nat_not_Nil in auto)
  have "word_char c" using d s by (simp add: digit_word)
  then have c: "c \<noteq> CHR ''?''" "c \<noteq> CHR ''<''" "c \<noteq> dquote" "c \<noteq> CHR 0x27" "c \<noteq> CHR ''_''"
    using not_word d s by (auto simp: is_digit_def ccode_def)
  have "toInt (show_nat n) = Some (int n)" using toInt_digits[of "show_nat n"] d wf by (simp add: RNumber)
  then show ?thesis using c unfolding RNumber node_written.simps by (simp add: s parse_capture_def parseNodePattern_def)
qed

section \<open>Reading a rule back\<close>

type_synonym rule_statement = "rule_node \<times> rule_node \<times> rule_node"

fun captures_of :: "rule_statement \<Rightarrow> captures" where
  "captures_of (a, b, c) = (node_written a, node_written b, node_written c)"

fun statement_meant :: "qt \<Rightarrow> (qstring \<rightharpoonup> qurl) \<Rightarrow> rule_statement \<Rightarrow> statement_pattern" where
  "statement_meant q pfx (a, b, c) = mk_sp (node_meant q pfx a) (node_meant q pfx b) (node_meant q pfx c)"

fun statement_wf :: "(qstring \<rightharpoonup> qurl) \<Rightarrow> rule_statement \<Rightarrow> bool" where
  "statement_wf pfx (a, b, c) \<longleftrightarrow> written_wf pfx a \<and> written_wf pfx b \<and> written_wf pfx c"

lemma captures_plain: "statement_wf pfx s \<Longrightarrow> plain_captures (captures_of s)"
  by (cases s) (auto simp: plain_captures_def intro: written_plain)

lemma statement_read:
  "statement_wf pfx s \<Longrightarrow> parseMatchedStatementPattern q pfx noise (captures_of s) = (statement_meant q pfx s, True)"
  by (cases s) (simp add: parseMatchedStatementPattern_def written_read)

text \<open>A parenthesis begins nothing but a statement.\<close>

lemma no_match_here: "t = [] \<or> hd t \<noteq> CHR ''('' \<Longrightarrow> statement_matches t = []"
  by (cases t) (auto simp: statement_matches_def)

lemma statement_text_parts:
  assumes "plain_captures m"
  obtains t where "statement_text m = CHR ''('' # t @ '')''" "CHR ''('' \<notin> set t" "CHR '')'' \<notin> set t" "t \<noteq> []" "unquoted (statement_text m)"
proof -
  obtain a b c where m: "m = (a, b, c)" by (cases m)
  have "list_all plain_char (a @ b @ c)" "a \<noteq> []" using assms by (auto simp: m plain_captures_def plain_node_def node_not_empty)
  then have "CHR ''('' \<notin> set (a @ b @ c)" "CHR '')'' \<notin> set (a @ b @ c)" "unquoted (a @ b @ c)" "a \<noteq> []"
    by (auto simp: list_all_iff plain_char_def)
  then show ?thesis by (intro that[of "a @ '' '' @ b @ '' '' @ c"]) (auto simp: m statement_text_def is_quote_def ccode_def)
qed

lemma chosen_here:
  assumes "plain_captures m" "unquoted rest"
  shows "chosen pick (statement_text m @ rest) = Some (m, rest)"
proof -
  obtain a b c where m: "m = (a, b, c)" by (cases m)
  have "all_blank []" "all_blank '' ''" "statement_text (a, b, c) @ rest = CHR ''('' # a @ '' '' @ b @ '' '' @ c @ [] @ CHR '')'' # rest"
    by (simp_all add: all_blank_def space_blank statement_text_def)
  then have form: "\<exists>u v w. all_blank u \<and> all_blank v \<and> all_blank w \<and> statement_text (a, b, c) @ rest = CHR ''('' # a @ u @ b @ v @ c @ w @ CHR '')'' # rest"
    by blast
  then have "(m, rest) \<in> set (statement_matches (statement_text m @ rest))"
    unfolding m statement_matches_iff using assms(1) form by (auto simp: m plain_captures_def plain_node_def)
  moreover have "x = (m, rest)" if "x \<in> set (statement_matches (statement_text m @ rest))" for x
    using statement_unique[OF assms] that by (cases x) auto
  ultimately obtain l where l: "statement_matches (statement_text m @ rest) = l" "l \<noteq> []" "\<forall>x\<in>set l. x = (m, rest)" by fastforce
  then have "l ! (pick l mod length l) = (m, rest)" by (simp add: nth_mem)
  then show ?thesis using l(1,2) by (cases l) (simp_all add: chosen_def)
qed

lemma matches_here: "plain_captures m \<Longrightarrow> unquoted rest \<Longrightarrow> statement_matches (statement_text m @ rest) \<noteq> []"
  using chosen_here[of m rest "\<lambda>_. 0"] by (auto simp: chosen_def split: list.splits)

text \<open>A text in which no statement begins, whatever follows it.\<close>

definition gap :: "qstring \<Rightarrow> bool" where
  "gap g \<longleftrightarrow> unquoted g \<and> (\<forall>rest i. unquoted rest \<longrightarrow> i < length g \<longrightarrow> statement_matches (drop i g @ rest) = [])"

lemma gap_unquoted: "gap g \<Longrightarrow> unquoted g"
  by (simp add: gap_def)

lemma gap_plain: "CHR ''('' \<notin> set g \<Longrightarrow> unquoted g \<Longrightarrow> gap g"
  unfolding gap_def
proof (intro conjI allI impI no_match_here)
  fix rest :: qstring and i
  assume "CHR ''('' \<notin> set g" "i < length g"
  then show "drop i g @ rest = [] \<or> hd (drop i g @ rest) \<noteq> CHR ''(''" by (metis hd_append2 hd_drop_conv_nth drop_eq_Nil not_le nth_mem)
qed

lemma gap_append: "gap g \<Longrightarrow> gap h \<Longrightarrow> gap (g @ h)"
  unfolding gap_def
proof (intro conjI allI impI)
  fix rest i
  assume g: "unquoted g \<and> (\<forall>rest i. unquoted rest \<longrightarrow> i < length g \<longrightarrow> statement_matches (drop i g @ rest) = [])"
    and h: "unquoted h \<and> (\<forall>rest i. unquoted rest \<longrightarrow> i < length h \<longrightarrow> statement_matches (drop i h @ rest) = [])"
    and r: "unquoted rest" "i < length (g @ h)"
  show "statement_matches (drop i (g @ h) @ rest) = []"
  proof (cases "i < length g")
    case True
    then show ?thesis using g h r by simp
  next
    case False
    then show ?thesis using h r by simp
  qed
qed simp

text \<open>A group that holds no node.\<close>

lemma gap_no_node: "gap ''(x)''"
proof -
  have "statement_matches (CHR ''('' # CHR ''x'' # CHR '')'' # rest) = []" if rest: "unquoted rest" for rest
  proof (rule ccontr)
    assume "statement_matches (CHR ''('' # CHR ''x'' # CHR '')'' # rest) \<noteq> []"
    then obtain m where "m \<in> set (statement_matches (CHR ''('' # CHR ''x'' # CHR '')'' # rest))" by (meson last_in_set)
    then obtain a b c r where "((a, b, c), r) \<in> set (statement_matches (CHR ''('' # CHR ''x'' # CHR '')'' # rest))" by (metis prod.collapse)
    then obtain t where n: "node_text a" and t: "CHR ''x'' # CHR '')'' # rest = a @ t" unfolding statement_matches_iff by auto
    have "\<not> node_text ''x''"
      by (simp add: node_text_def is_variable_def is_uri_ref_def is_underscored_def is_prefixed_def is_quoted_def is_integer_def is_quote_def is_digit_def word_char_def ccode_def)
    obtain w where w: "a = CHR ''x'' # w" "CHR '')'' # rest = w @ t" using t node_not_empty[OF n] by (cases a) auto
    have "w \<noteq> []" using n w(1) \<open>\<not> node_text ''x''\<close> by auto
    then obtain v where a: "a = CHR ''x'' # CHR '')'' # v" using w by (cases w) auto
    have "unquoted (a @ t)" using rest unfolding t[symmetric] by (simp add: is_quote_def)
    then have "is_uri_ref a \<or> CHR '')'' \<notin> set a" using unquoted_node[OF n] by simp
    then show False by (simp add: a is_uri_ref_def)
  qed
  then have "statement_matches (drop i ''(x)'' @ rest) = []" if "unquoted rest" "i < 3" for rest i
    using that by (cases i; cases "i - 1"; cases "i - 2") (auto simp: no_match_here)
  then show ?thesis by (simp add: gap_def is_quote_def)
qed

lemma places_skip:
  assumes "gap g" "unquoted rest" "ln = before @ g @ rest"
  shows "match_places (length before) ln = match_places (length (before @ g)) ln"
proof -
  have "[length before..<Suc (length ln)] = [length before..<length (before @ g)] @ [length (before @ g)..<Suc (length ln)]"
    using upt_add_eq_append[of "length before" "length (before @ g)" "Suc (length rest)"] by (simp add: assms(3) add.assoc del: upt_Suc)
  moreover have "statement_matches (drop i ln) = []" if "i \<in> set [length before..<length (before @ g)]" for i
  proof -
    have "i - length before < length g" "drop i ln = drop (i - length before) g @ rest" using that by (auto simp: assms(3))
    then show ?thesis using assms(1,2) by (simp add: gap_def)
  qed
  then have "filter (\<lambda>i. statement_matches (drop i ln) \<noteq> []) [length before..<length (before @ g)] = []" by (auto simp: filter_empty_conv)
  ultimately show ?thesis by (simp add: match_places_def)
qed

lemma places_end: "gap g \<Longrightarrow> ln = before @ g \<Longrightarrow> match_places (length before) ln = []"
  using places_skip[of g "[]" ln before] by (simp add: match_places_def no_match_here)

lemma places_statement:
  assumes "plain_captures m" "unquoted rest" "ln = before @ statement_text m @ rest"
  shows "match_places (length before) ln = length before # match_places (length (before @ statement_text m)) ln"
proof -
  obtain t where t: "statement_text m = CHR ''('' # t @ '')''" "gap (t @ '')'')"
    by (rule statement_text_parts[OF assms(1)]) (simp add: gap_plain)
  have "[length before..<Suc (length ln)] = length before # [Suc (length before)..<Suc (length ln)]"
    by (rule upt_conv_Cons) (simp add: assms(3))
  moreover have "statement_matches (drop (length before) ln) \<noteq> []" using matches_here[OF assms(1,2)] by (simp add: assms(3))
  ultimately have "match_places (length before) ln = length before # match_places (length (before @ ''('')) ln"
    by (simp only: match_places_def filter.simps length_append list.size if_True simp_thms) simp
  also have "match_places (length (before @ ''('')) ln = match_places (length ((before @ ''('') @ t @ '')'')) ln"
    by (rule places_skip) (use t assms(2) in \<open>simp_all add: assms(3)\<close>)
  finally show ?thesis by (simp add: t)
qed

abbreviation statement_written :: "rule_statement \<Rightarrow> qstring" where
  "statement_written s \<equiv> statement_text (captures_of s)"

abbreviation gaps_written :: "(qstring \<times> rule_statement) list \<Rightarrow> qstring" where
  "gaps_written gs \<equiv> concat (map (\<lambda>(g, s). g @ statement_written s) gs)"

lemma written_unquoted: "statement_wf pfx s \<Longrightarrow> unquoted (statement_written s)"
  by (rule statement_text_parts[OF captures_plain]) auto

lemma gaps_unquoted: "list_all (\<lambda>(g, s). gap g \<and> statement_wf pfx s) gs \<Longrightarrow> unquoted (gaps_written gs)"
proof (induction gs)
  case (Cons x gs)
  then show ?case using written_unquoted[of pfx "snd x"] by (simp add: case_prod_beta gap_unquoted)
qed simp

lemma statement_text_nonempty: "0 < length (statement_text m)"
  by (cases m) (simp add: statement_text_def)

lemma index_of_statement:
  assumes "gap g" "plain_captures m" "unquoted rest" "ln = before @ g @ statement_text m @ rest"
  shows "pattern_indexIn (length before) ln = Some (length (before @ g))"
  using places_skip[of g "statement_text m @ rest" ln before] places_statement[of m rest ln "before @ g"] assms
    statement_text_parts[OF assms(2), of "unquoted (statement_text m)"]
  by (simp add: pattern_indexIn_def)

lemma conditions_read:
  assumes "ln = before @ gaps_written gs @ g @ statement_written e @ tail"
    and "list_all (\<lambda>(g, s). gap g \<and> statement_wf pfx s) gs" "gap g" "statement_wf pfx e" "gap tail"
  shows "parse_conditions q pick noise pfx ln (length (before @ gaps_written gs @ g)) (length before) = Some (map (statement_meant q pfx \<circ> snd) gs)"
  using assms(1,2)
proof (induction gs arbitrary: before)
  case Nil
  then have "pattern_indexIn (length before) ln = Some (length (before @ g))"
    using index_of_statement[OF assms(3) captures_plain[OF assms(4)]] assms(5) by (simp add: gap_unquoted)
  then show ?case by (subst parse_conditions.simps) simp
next
  case (Cons x gs)
  obtain h s where x: "x = (h, s)" by (cases x)
  let ?rest = "gaps_written gs @ g @ statement_written e @ tail" and ?here = "before @ h @ statement_written s"
  have wf: "gap h" "statement_wf pfx s" "list_all (\<lambda>(g, s). gap g \<and> statement_wf pfx s) gs" using Cons.prems(2) by (simp_all add: x)
  have ln: "ln = before @ h @ statement_written s @ ?rest" using Cons.prems(1) by (simp add: x)
  have rest: "unquoted ?rest" using gaps_unquoted[OF wf(3)] written_unquoted[OF assms(4)] assms(3,5) by (simp add: gap_unquoted)
  have "pattern_indexIn (length before) ln = Some (length (before @ h))"
    by (rule index_of_statement[OF wf(1) captures_plain[OF wf(2)] rest ln])
  moreover have "chosen pick (drop (length (before @ h)) ln) = Some (captures_of s, ?rest)"
    using chosen_here[OF captures_plain[OF wf(2)] rest] by (simp add: ln)
  moreover have "length ln - length ?rest = length ?here" by (simp add: ln)
  moreover have "parse_conditions q pick noise pfx ln (length (?here @ gaps_written gs @ g)) (length ?here) = Some (map (statement_meant q pfx \<circ> snd) gs)"
    by (rule Cons.IH) (use ln wf(3) in simp_all)
  moreover have "length (?here @ gaps_written gs @ g) = length (before @ gaps_written (x # gs) @ g)" by (simp add: x)
  moreover have "length (before @ h) < length (before @ gaps_written (x # gs) @ g)" using statement_text_nonempty by (simp add: x)
  ultimately show ?case using statement_read[OF wf(2)]
    by (subst parse_conditions.simps) (simp only: option.case if_True if_False simp_thms prod.case bool.case option.map x list.map o_apply snd_conv)
qed

lemma last_of_statements:
  assumes "ln = before @ statement_written e @ tail" "statement_wf pfx e" "gap tail"
  shows "pattern_lastIndexIn ln = Some (length before)"
proof -
  have "match_places (length before) ln = [length before]"
    using places_statement[OF captures_plain[OF assms(2)], of tail ln before] places_end[of tail ln "before @ statement_written e"] assms
    by (simp add: gap_unquoted)
  moreover have "[0..<Suc (length ln)] = [0..<length before] @ [length before..<Suc (length ln)]"
    using upt_add_eq_append[of 0 "length before" "Suc (length (statement_written e @ tail))"] by (simp add: assms(1) add.assoc del: upt_Suc)
  then have "match_places 0 ln = filter (\<lambda>i. statement_matches (drop i ln) \<noteq> []) [0..<length before] @ match_places (length before) ln"
    by (simp add: match_places_def del: upt_Suc)
  ultimately show ?thesis by (simp add: pattern_lastIndexIn_def)
qed

text \<open>The line of a rule.\<close>

definition commas_written :: "rule_statement list \<Rightarrow> qstring" where
  "commas_written ss = concat (map (\<lambda>s. '', '' @ statement_written s) ss)"

definition rule_written :: "qstring \<Rightarrow> qstring \<Rightarrow> rule_statement \<Rightarrow> rule_statement list \<Rightarrow> rule_statement \<Rightarrow> qstring" where
  "rule_written name blanks s ss e =
     CHR ''['' # name @ CHR '':'' # blanks @ statement_written s @ commas_written ss @ '' -> '' @ statement_written e @ '']''"

definition rule_meant :: "qt \<Rightarrow> (qstring \<rightharpoonup> qurl) \<Rightarrow> rule_statement list \<Rightarrow> rule_statement \<Rightarrow> rule" where
  "rule_meant q pfx ss e = \<lparr> preconditions = map (statement_meant q pfx) ss, effect = statement_meant q pfx e, bindingStatement = empty_statement \<rparr>"

lemma group_skipped:
  assumes "statement_wf pfx s"
  shows "skip_group (statement_written s @ r) = Some r" "hd (statement_written s @ r) = CHR ''(''" "statement_written s @ r \<noteq> []"
    "dropWhile is_space (statement_written s @ r) = statement_written s @ r"
proof -
  obtain t where t: "statement_written s = CHR ''('' # t @ '')''" "CHR '')'' \<notin> set t" "t \<noteq> []"
    by (rule statement_text_parts[OF captures_plain[OF assms]]) blast
  have "takeWhile (\<lambda>c. c \<noteq> CHR '')'') (t @ CHR '')'' # r) = t" "dropWhile (\<lambda>c. c \<noteq> CHR '')'') (t @ CHR '')'' # r) = CHR '')'' # r"
    using t(2) by (auto simp: takeWhile_append dropWhile_append)
  then show "skip_group (statement_written s @ r) = Some r" using t(3) by (simp add: skip_group_def t(1))
  show "hd (statement_written s @ r) = CHR ''(''" "statement_written s @ r \<noteq> []"
    "dropWhile is_space (statement_written s @ r) = statement_written s @ r" by (simp_all add: t(1) is_space_def ccode_def)
qed

lemma groups_skipped:
  "list_all (statement_wf pfx) ss \<Longrightarrow> skip_groups (commas_written ss @ '' -> '' @ r) = Some ('' -> '' @ r)"
proof (induction ss)
  case Nil
  show ?case by (subst skip_groups.simps) (simp add: commas_written_def space_blank, simp add: is_space_def ccode_def)
next
  case (Cons s ss)
  have "commas_written (s # ss) @ '' -> '' @ r = CHR '','' # CHR '' '' # statement_written s @ (commas_written ss @ '' -> '' @ r)"
    by (simp add: commas_written_def)
  moreover have "\<not> is_space CHR '',''" by (simp add: is_space_def ccode_def)
  ultimately show ?case using Cons group_skipped[of pfx s]
    by (subst skip_groups.simps) (simp add: space_blank)
qed

lemma spaces_skipped: "all_blank w \<Longrightarrow> dropWhile is_space (w @ r) = dropWhile is_space r"
  by (induction w) (simp_all add: all_blank_def)

lemma ruleLine_steps:
  assumes "dropWhile is_space t = n @ CHR '':'' # t1" "takeWhile word_char (n @ CHR '':'' # t1) = n" "n \<noteq> []"
    and "skip_group (dropWhile is_space t1) = Some t2" "skip_groups t2 = Some t3" "dropWhile is_space t3 = ''->'' @ t4"
    and "skip_group (dropWhile is_space t4) = Some t5" "dropWhile is_space t5 = '']''"
  shows "match_ruleLine (CHR ''['' # t) = Some n"
  using assms by (simp add: match_ruleLine_def)

lemma rule_line:
  assumes "is_words name" "all_blank blanks" "statement_wf pfx s" "list_all (statement_wf pfx) ss" "statement_wf pfx e"
  shows "match_ruleLine (rule_written name blanks s ss e) = Some name"
proof -
  let ?cs = "commas_written ss @ '' -> '' @ statement_written e @ '']''"
  have m: "\<not> is_space CHR ''-''" "\<not> is_space CHR '']''" by (simp_all add: is_space_def ccode_def)
  show ?thesis unfolding rule_written_def
  proof (rule ruleLine_steps[where ?t1.0 = "blanks @ statement_written s @ ?cs" and ?t2.0 = ?cs and ?t5.0 = "'']''"])
    show "dropWhile is_space (name @ CHR '':'' # blanks @ statement_written s @ ?cs) = name @ CHR '':'' # blanks @ statement_written s @ ?cs"
      using assms(1) word_char_plain by (cases name) (auto simp: is_words_def plain_char_def)
    show "takeWhile word_char (name @ CHR '':'' # blanks @ statement_written s @ ?cs) = name"
      using assms(1) not_word by (auto simp: is_words_def list_all_iff takeWhile_append)
    show "name \<noteq> []" using assms(1) by (simp add: is_words_def)
    show "skip_group (dropWhile is_space (blanks @ statement_written s @ ?cs)) = Some ?cs"
      unfolding spaces_skipped[OF assms(2)] group_skipped(4)[OF assms(3)] by (rule group_skipped(1)[OF assms(3)])
    show "skip_groups ?cs = Some ('' -> '' @ statement_written e @ '']'')" by (rule groups_skipped[OF assms(4)])
    show "dropWhile is_space ('' -> '' @ statement_written e @ '']'') = ''->'' @ CHR '' '' # statement_written e @ '']''" using m space_blank by simp
    show "skip_group (dropWhile is_space (CHR '' '' # statement_written e @ '']'')) = Some '']''"
      using space_blank group_skipped(4)[OF assms(5)] group_skipped(1)[OF assms(5)] by simp
    show "dropWhile is_space '']'' = '']''" using m by simp
  qed
qed

lemma preconditions_added: "fold addPrecondition ps r = r\<lparr>preconditions := preconditions r @ ps\<rparr>"
  by (induction ps arbitrary: r) (simp_all add: addPrecondition_def)

text \<open>What is read are the statements the line holds: the last one is the effect.\<close>

lemma statements_read:
  assumes ln: "ln = gaps_written gs @ g @ statement_written e @ tail" and name: "match_ruleLine ln = Some name"
    and gaps: "list_all (\<lambda>(g, s). gap g \<and> statement_wf (rp_prefixes st) s) gs" "gap g" "gap tail" and e: "statement_wf (rp_prefixes st) e"
  shows "rp_parseRule q pick noise ln st = (rule_meant q (rp_prefixes st) (map snd gs) e,
    st\<lparr>rp_rules := rs_insert name (rule_meant q (rp_prefixes st) (map snd gs) e) (rp_rules st)\<rparr>)"
proof -
  let ?pos = "length (gaps_written gs @ g)" and ?pfx = "rp_prefixes st"
  have "pattern_lastIndexIn ln = Some ?pos"
    by (rule last_of_statements[where tail = tail]) (use ln e gaps(3) in simp_all)
  moreover have "chosen pick (drop ?pos ln) = Some (captures_of e, tail)"
    using chosen_here[OF captures_plain[OF e] gap_unquoted[OF gaps(3)]] by (simp add: ln)
  moreover have "parse_conditions q pick noise ?pfx ln ?pos 0 = Some (map (statement_meant q ?pfx) (map snd gs))"
    using conditions_read[of ln "[]" gs g e tail ?pfx q pick noise] ln gaps e by simp
  ultimately show ?thesis
    using name statement_read[OF e] unfolding rp_parseRule_def
    by (simp add: preconditions_added rule_meant_def setEffect_def new_rule_def Let_def del: map_map)
qed

lemma rule_read:
  assumes name: "is_words name" and blanks: "all_blank blanks"
    and wf: "statement_wf (rp_prefixes st) s" "list_all (statement_wf (rp_prefixes st)) ss" "statement_wf (rp_prefixes st) e"
  shows "rp_parseRule q pick noise (rule_written name blanks s ss e) st =
    (rule_meant q (rp_prefixes st) (s # ss) e, st\<lparr>rp_rules := rs_insert name (rule_meant q (rp_prefixes st) (s # ss) e) (rp_rules st)\<rparr>)"
proof -
  have "gap name" using name word_char_plain by (intro gap_plain) (auto simp: is_words_def list_all_iff plain_char_def)
  moreover have "\<not> is_space CHR ''(''" "is_quote c \<Longrightarrow> \<not> is_space c" for c by (auto simp: is_quote_def is_space_def ccode_def)
  then have "gap blanks" using blanks by (intro gap_plain) (auto simp: all_blank_def list_all_iff)
  moreover have "gap ''[''" "gap '':''" "gap '', ''" by (simp_all add: gap_plain is_quote_def)
  ultimately have nb: "gap (''['' @ name @ '':'' @ blanks)" "gap '', ''" by (simp_all only: gap_append)
  have "rp_parseRule q pick noise (rule_written name blanks s ss e) st =
    (rule_meant q (rp_prefixes st) (map snd ((''['' @ name @ '':'' @ blanks, s) # map (Pair '', '') ss)) e,
     st\<lparr>rp_rules := rs_insert name (rule_meant q (rp_prefixes st) (map snd ((''['' @ name @ '':'' @ blanks, s) # map (Pair '', '') ss)) e) (rp_rules st)\<rparr>)"
  proof (rule statements_read[where g = "'' -> ''" and tail = "'']''"])
    show "match_ruleLine (rule_written name blanks s ss e) = Some name" using rule_line[OF name blanks wf] .
    show "list_all (\<lambda>(g, s). gap g \<and> statement_wf (rp_prefixes st) s) ((''['' @ name @ '':'' @ blanks, s) # map (Pair '', '') ss)"
      using nb wf by (auto simp: list_all_iff)
  qed (use wf in \<open>simp_all add: rule_written_def commas_written_def o_def gap_plain is_quote_def\<close>)
  then show ?thesis by (simp add: o_def)
qed

section \<open>Rule files\<close>

text \<open>A file line by line, as it is written and what it does: blanks, comments, prefixes, and rules.\<close>

datatype file_item =
    FBlank qstring
  | FComment qstring
  | FPrefix qstring qstring
  | FRule qstring qstring rule_statement "rule_statement list" rule_statement qstring

fun item_written :: "file_item \<Rightarrow> qstring" where
  "item_written (FBlank w) = w"
| "item_written (FComment t) = CHR ''#'' # t"
| "item_written (FPrefix k u) = ''PREFIX '' @ k @ '': <'' @ u @ ''>''"
| "item_written (FRule name blanks s ss e w) = rule_written name blanks s ss e @ w"

fun item_wf :: "qt \<Rightarrow> (qstring \<rightharpoonup> qurl) \<Rightarrow> file_item \<Rightarrow> bool" where
  "item_wf q pfx (FBlank w) \<longleftrightarrow> all_blank w"
| "item_wf q pfx (FComment t) \<longleftrightarrow> True"
| "item_wf q pfx (FPrefix k u) \<longleftrightarrow> k \<noteq> [] \<and> u \<noteq> [] \<and> list_all (\<lambda>c. \<not> is_space c) (k @ u)"
| "item_wf q pfx (FRule name blanks s ss e w) \<longleftrightarrow> is_words name \<and> all_blank blanks \<and> statement_wf pfx s \<and> list_all (statement_wf pfx) ss \<and>
     statement_wf pfx e \<and> all_blank w \<and> rule_isValid (rule_meant q pfx (s # ss) e)"

fun item_step :: "qt \<Rightarrow> file_item \<Rightarrow> rule_parser \<Rightarrow> rule_parser" where
  "item_step q (FBlank w) st = st"
| "item_step q (FComment t) st = st"
| "item_step q (FPrefix k u) st = st\<lparr>rp_prefixes := (rp_prefixes st)(k \<mapsto> url_parse q u)\<rparr>"
| "item_step q (FRule name blanks s ss e w) st =
     st\<lparr>rp_rules := rs_insert name (rule_meant q (rp_prefixes st) (s # ss) e) (rp_rules st)\<rparr>"

fun file_wf :: "qt \<Rightarrow> file_item list \<Rightarrow> rule_parser \<Rightarrow> bool" where
  "file_wf q [] st \<longleftrightarrow> True"
| "file_wf q (x # xs) st \<longleftrightarrow> item_wf q (rp_prefixes st) x \<and> file_wf q xs (item_step q x st)"

lemma trimmed_blank: "all_blank w \<Longrightarrow> trimmed w = []"
proof -
  assume "all_blank w"
  then have "dropWhile is_space w = []" by (simp add: all_blank_def list_all_iff)
  then show ?thesis by (simp only: trimmed_def rev.simps dropWhile.simps)
qed

lemma trimmed_end:
  assumes "all_blank w" "t \<noteq> []" "\<not> is_space (hd t)" "\<not> is_space (last t)"
  shows "trimmed (t @ w) = t"
proof -
  have "dropWhile is_space (t @ w) = t @ w" using assms(2,3) by (cases t) simp_all
  moreover have "all_blank (rev w)" using assms(1) by (simp add: all_blank_def)
  then have "dropWhile is_space (rev w @ rev t) = rev t"
    using spaces_skipped[of "rev w" "rev t"] assms(2,4) by (cases "rev t") (auto simp: hd_rev[symmetric])
  ultimately show ?thesis by (simp add: trimmed_def)
qed

lemma trimmed_hd: "\<not> is_space c \<Longrightarrow> \<exists>s. trimmed (c # t) = c # s"
proof -
  assume c: "\<not> is_space c"
  have "dropWhile is_space (rev t @ [c]) = dropWhile is_space (rev t) @ [c]" for t using c by (induction t rule: rev_induct) auto
  then show ?thesis using c by (simp add: trimmed_def)
qed

lemma rule_not_prefix: "match_prefixLine (CHR ''['' # t) = None"
proof -
  have "toLower (take 6 (CHR ''['' # t)) \<noteq> ''prefix''" by (auto simp: toLower_def char_toLower_def ccode_def)
  then show ?thesis by (simp add: match_prefixLine_def)
qed

lemma prefix_line:
  assumes "item_wf q pfx (FPrefix k u)"
  shows "match_prefixLine (item_written (FPrefix k u)) = Some (k, u)"
proof -
  have h: "k \<noteq> []" "u \<noteq> []" "\<And>c. c \<in> set k \<Longrightarrow> \<not> is_space c" "\<And>c. c \<in> set u \<Longrightarrow> \<not> is_space c" using assms by (auto simp: list_all_iff)
  have m: "\<not> is_space CHR '':''" "\<not> is_space CHR ''<''" "\<not> is_space CHR ''>''" by (simp_all add: is_space_def ccode_def)
  let ?r = "k @ CHR '':'' # CHR '' '' # CHR ''<'' # u @ ''>''"
  have "dropWhile is_space ?r = ?r" using h(1,3) by (cases k) auto
  moreover have "takeWhile (\<lambda>c. \<not> is_space c) ?r = k @ '':''" "dropWhile (\<lambda>c. \<not> is_space c) ?r = CHR '' '' # CHR ''<'' # u @ ''>''"
    using h(3) m space_blank by (auto simp: takeWhile_append dropWhile_append)
  moreover have "toLower ''PREFIX'' = ''prefix''" by code_simp
  ultimately show ?thesis using h m space_blank
    by (simp add: match_prefixLine_def Let_def butlast_append list_all_iff Suc_less_eq2)
qed

lemma lines_read:
  assumes "file_wf q items st"
  shows "parse_file_lines q pick noise (map item_written items) st = (True, fold (item_step q) items st)"
  using assms
proof (induction items arbitrary: st)
  case (Cons x items)
  show ?case
  proof (cases x)
    case (FBlank w)
    then show ?thesis using Cons by (simp add: trimmed_blank)
  next
    case (FComment t)
    have "\<not> is_space CHR ''#''" by (simp add: is_space_def ccode_def)
    then obtain s where "trimmed (CHR ''#'' # t) = CHR ''#'' # s" using trimmed_hd by blast
    then show ?thesis using Cons by (simp add: FComment)
  next
    case (FPrefix k u)
    have "trimmed (item_written x) = item_written x" by (rule trimmed_no_space) (simp add: FPrefix is_space_def ccode_def)
    moreover have "item_written x \<noteq> []" "hd (item_written x) \<noteq> CHR ''#''" by (simp_all add: FPrefix)
    moreover have "match_prefixLine (item_written x) = Some (k, u)" using prefix_line Cons.prems unfolding FPrefix by simp
    ultimately show ?thesis using Cons.IH[of "item_step q x st"] Cons.prems by (simp add: FPrefix del: item_written.simps)
  next
    case (FRule name blanks s ss e w)
    let ?t = "rule_written name blanks s ss e"
    have b: "\<not> is_space CHR ''[''" "\<not> is_space CHR '']''" by (simp_all add: is_space_def ccode_def)
    have t: "?t \<noteq> []" "hd ?t = CHR ''[''" "last ?t = CHR '']''" by (simp_all add: rule_written_def)
    have "trimmed (?t @ w) = ?t" by (rule trimmed_end) (use Cons.prems b t in \<open>simp_all add: FRule\<close>)
    moreover have "match_prefixLine ?t = None" using rule_not_prefix by (simp add: rule_written_def)
    ultimately show ?thesis using Cons t rule_read[of name blanks st s ss e q pick noise] by (simp add: FRule)
  qed
qed simp

text \<open>Claim C15: A rule file that is written in the usual way - blanks, comments, prefixes, rules of variables, resources, prefixed names and numbers whose
  prefixes are known by then - is read completely, into the rules and prefixes it means, whatever matches QRegExp prefers.
\<close>

theorem rule_file_roundtrip:
  assumes "files path = Some (map item_written items)" "file_wf q items st"
  shows "rp_parseFile q pick noise files path st = (True, fold (item_step q) items st)"
  using assms lines_read by (simp add: rp_parseFile_def)

text \<open>The file rules/rdfs.rules, line by line.\<close>

definition rdfs_items :: "file_item list" where
  "rdfs_items = [
    FComment ''------------------------------------------------------------------'',
    FComment '' RDFS rule set v0.1.'',
    FComment '' This is a direct implementation of the RDFS closure rules.'',
    FComment '' It is based on the Jena RDFS ruleset but RDFS Axioms have been removed.'',
    FComment '' $Id: $'',
    FComment ''------------------------------------------------------------------'',
    FBlank '''',
    FComment ''------------------------------------------------------------------'',
    FComment '' RDFS Closure rules'',
    FComment ''------------------------------------------------------------------'',
    FBlank '''',
    FComment '' The following block extends over the Jena syntax by introducing SPARQL-style prefix definitions'',
    FPrefix ''rdf'' ''http://www.w3.org/1999/02/22-rdf-syntax-ns#'',
    FPrefix ''rdfs'' ''http://www.w3.org/2000/01/rdf-schema#'',
    FBlank '''',
    FComment '' This floowing rule is disable becasue 1. it is not very interesting and 2. Soprano does not support multiple effects in a rule'',
    FComment ''[rdf1and4: (?x ?p ?y) -> (?p rdf:type rdf:Property), (?x rdf:type rdfs:Resource), (?y rdf:type rdfs:Resource)]'',
    FBlank '''',
    FRule ''rdfs7b'' '' '' (RVar ''a'', RName ''rdf'' ''type'', RName ''rdfs'' ''Class'') [] (RVar ''a'', RName ''rdfs'' ''subClassOf'', RName ''rdfs'' ''Resource'') '' '',
    FBlank '''',
    FRule ''rdfs2'' ''  '' (RVar ''x'', RVar ''p'', RVar ''y'') [(RVar ''p'', RName ''rdfs'' ''domain'', RVar ''c'')] (RVar ''x'', RName ''rdf'' ''type'', RVar ''c'') '' '',
    FRule ''rdfs3'' ''  '' (RVar ''x'', RVar ''p'', RVar ''y'') [(RVar ''p'', RName ''rdfs'' ''range'', RVar ''c'')] (RVar ''y'', RName ''rdf'' ''type'', RVar ''c'') '' '',
    FRule ''rdfs5a'' '' '' (RVar ''a'', RName ''rdfs'' ''subPropertyOf'', RVar ''b'') [(RVar ''b'', RName ''rdfs'' ''subPropertyOf'', RVar ''c'')] (RVar ''a'', RName ''rdfs'' ''subPropertyOf'', RVar ''c'') '' '',
    FRule ''rdfs5b'' '' '' (RVar ''a'', RName ''rdf'' ''type'', RName ''rdf'' ''Property'') [] (RVar ''a'', RName ''rdfs'' ''subPropertyOf'', RVar ''a'') '' '',
    FRule ''rdfs6'' ''  '' (RVar ''a'', RVar ''p'', RVar ''b'') [(RVar ''p'', RName ''rdfs'' ''subPropertyOf'', RVar ''q'')] (RVar ''a'', RVar ''q'', RVar ''b'') '' '',
    FRule ''rdfs7'' ''  '' (RVar ''a'', RName ''rdf'' ''type'', RName ''rdfs'' ''Class'') [] (RVar ''a'', RName ''rdfs'' ''subClassOf'', RVar ''a'') '''',
    FRule ''rdfs8'' ''  '' (RVar ''a'', RName ''rdfs'' ''subClassOf'', RVar ''b'') [(RVar ''b'', RName ''rdfs'' ''subClassOf'', RVar ''c'')] (RVar ''a'', RName ''rdfs'' ''subClassOf'', RVar ''c'') '' '',
    FRule ''rdfs9'' ''  '' (RVar ''x'', RName ''rdfs'' ''subClassOf'', RVar ''y'') [(RVar ''a'', RName ''rdf'' ''type'', RVar ''x'')] (RVar ''a'', RName ''rdf'' ''type'', RVar ''y'') '' '',
    FRule ''rdfs10'' '' '' (RVar ''x'', RName ''rdf'' ''type'', RName ''rdfs'' ''ContainerMembershipProperty'') [] (RVar ''x'', RName ''rdfs'' ''subPropertyOf'', RName ''rdfs'' ''member'') '' '']"

definition rdfs_lines :: "qstring list" where
  "rdfs_lines = [
    ''#------------------------------------------------------------------'',
    ''# RDFS rule set v0.1.'',
    ''# This is a direct implementation of the RDFS closure rules.'',
    ''# It is based on the Jena RDFS ruleset but RDFS Axioms have been removed.'',
    ''# $Id: $'',
    ''#------------------------------------------------------------------'',
    '''',
    ''#------------------------------------------------------------------'',
    ''# RDFS Closure rules'',
    ''#------------------------------------------------------------------'',
    '''',
    ''# The following block extends over the Jena syntax by introducing SPARQL-style prefix definitions'',
    ''PREFIX rdf: <http://www.w3.org/1999/02/22-rdf-syntax-ns#>'',
    ''PREFIX rdfs: <http://www.w3.org/2000/01/rdf-schema#>'',
    '''',
    ''# This floowing rule is disable becasue 1. it is not very interesting and 2. Soprano does not support multiple effects in a rule'',
    ''#[rdf1and4: (?x ?p ?y) -> (?p rdf:type rdf:Property), (?x rdf:type rdfs:Resource), (?y rdf:type rdfs:Resource)]'',
    '''',
    ''[rdfs7b: (?a rdf:type rdfs:Class) -> (?a rdfs:subClassOf rdfs:Resource)] '',
    '''',
    ''[rdfs2:  (?x ?p ?y), (?p rdfs:domain ?c) -> (?x rdf:type ?c)] '',
    ''[rdfs3:  (?x ?p ?y), (?p rdfs:range ?c) -> (?y rdf:type ?c)] '',
    ''[rdfs5a: (?a rdfs:subPropertyOf ?b), (?b rdfs:subPropertyOf ?c) -> (?a rdfs:subPropertyOf ?c)] '',
    ''[rdfs5b: (?a rdf:type rdf:Property) -> (?a rdfs:subPropertyOf ?a)] '',
    ''[rdfs6:  (?a ?p ?b), (?p rdfs:subPropertyOf ?q) -> (?a ?q ?b)] '',
    ''[rdfs7:  (?a rdf:type rdfs:Class) -> (?a rdfs:subClassOf ?a)]'',
    ''[rdfs8:  (?a rdfs:subClassOf ?b), (?b rdfs:subClassOf ?c) -> (?a rdfs:subClassOf ?c)] '',
    ''[rdfs9:  (?x rdfs:subClassOf ?y), (?a rdf:type ?x) -> (?a rdf:type ?y)] '',
    ''[rdfs10: (?x rdf:type rdfs:ContainerMembershipProperty) -> (?x rdfs:subPropertyOf rdfs:member)] '']"

lemma rdfs_lines_written: "map item_written rdfs_items = rdfs_lines"
  by code_simp

lemma rdfs_items_wf: "file_wf plain_qt rdfs_items new_rule_parser"
  by code_simp

theorem rule_file_roundtrip_witness:
  "rp_parseFile plain_qt (\<lambda>ms. length ms - 1) False [''rdfs.rules'' \<mapsto> rdfs_lines] ''rdfs.rules'' new_rule_parser =
     (True, fold (item_step plain_qt) rdfs_items new_rule_parser)"
  by (rule rule_file_roundtrip[OF _ rdfs_items_wf]) (simp add: rdfs_lines_written)

text \<open>So the parser yields the rules other theories speak of.\<close>

lemma rdfs_rules_read:
  "map fst (rp_rules (fold (item_step plain_qt) rdfs_items new_rule_parser)) =
     [''rdfs7b'', ''rdfs2'', ''rdfs3'', ''rdfs5a'', ''rdfs5b'', ''rdfs6'', ''rdfs7'', ''rdfs8'', ''rdfs9'', ''rdfs10'']"
  "map_of (rp_rules (fold (item_step plain_qt) rdfs_items new_rule_parser)) ''rdfs2'' = Some rdfs2"
  "map_of (rp_rules (fold (item_step plain_qt) rdfs_items new_rule_parser)) ''rdfs8'' = Some rdfs8"
  by code_simp+

section \<open>Faults\<close>

text \<open>An effect that the pattern does not match: the last precondition becomes the effect, and the rule is kept.\<close>

lemma precondition_becomes_effect:
  "fst (rp_parseRule q pick noise (''[r: '' @ statement_written s @ '', '' @ statement_written t @ '' -> (x)]'') st) = rule_meant q (rp_prefixes st) [s] t"
  if "statement_wf (rp_prefixes st) s" "statement_wf (rp_prefixes st) t"
proof -
  let ?ln = "''[r: '' @ statement_written s @ '', '' @ statement_written t @ '' -> (x)]''"
  have "gap '' -> ''" "gap '']''" by (simp_all add: gap_plain is_quote_def)
  then have tail: "gap ('' -> '' @ ''(x)'' @ '']'')" by (intro gap_append gap_no_node)
  have m: "\<not> is_space CHR ''r''" "word_char CHR ''r''" "\<not> is_space CHR ''-''" "\<not> is_space CHR '']''" "\<not> is_space CHR ''(''"
    by (simp_all add: is_space_def word_char_def ccode_def)
  have "match_ruleLine (CHR ''['' # ''r: '' @ statement_written s @ '', '' @ statement_written t @ '' -> (x)]'') = Some ''r''"
  proof (rule ruleLine_steps[where ?t1.0 = "'' '' @ statement_written s @ '', '' @ statement_written t @ '' -> (x)]''" and ?t4.0 = "'' (x)]''" and ?t5.0 = "'']''"])
    show "skip_group (dropWhile is_space ('' '' @ statement_written s @ '', '' @ statement_written t @ '' -> (x)]'')) = Some ('', '' @ statement_written t @ '' -> (x)]'')"
      using space_blank group_skipped(1,4)[OF that(1)] by simp
    show "skip_groups ('', '' @ statement_written t @ '' -> (x)]'') = Some '' -> (x)]''"
      using groups_skipped[of "rp_prefixes st" "[t]" "''(x)]''"] that(2) by (simp add: commas_written_def)
  qed (use m not_word space_blank in \<open>simp_all add: skip_group_def\<close>)
  then have "match_ruleLine ?ln = Some ''r''" by simp
  then have "rp_parseRule q pick noise ?ln st = (rule_meant q (rp_prefixes st) (map snd [(''[r: '', s)]) t, st\<lparr>rp_rules := rs_insert ''r'' (rule_meant q (rp_prefixes st) (map snd [(''[r: '', s)]) t) (rp_rules st)\<rparr>)"
    using that tail by (intro statements_read[where g = "'', ''" and tail = "'' -> '' @ ''(x)'' @ '']''"]) (simp_all add: gap_plain is_quote_def)
  then show ?thesis by simp
qed

text \<open>A precondition that the pattern does not match is left out, and the rule fires too often.\<close>

lemma precondition_lost:
  "fst (rp_parseRule q pick noise (''[r: (x), '' @ statement_written s @ '' -> '' @ statement_written t @ '']'') st) = rule_meant q (rp_prefixes st) [s] t"
  if "statement_wf (rp_prefixes st) s" "statement_wf (rp_prefixes st) t"
proof -
  let ?ln = "''[r: (x), '' @ statement_written s @ '' -> '' @ statement_written t @ '']''"
  have "gap ''[r: ''" "gap '', ''" by (simp_all add: gap_plain is_quote_def)
  then have front: "gap (''[r: '' @ ''(x)'' @ '', '')" by (intro gap_append gap_no_node)
  have m: "\<not> is_space CHR ''r''" "word_char CHR ''r''" "\<not> is_space CHR ''-''" "\<not> is_space CHR '']''" "\<not> is_space CHR ''(''"
    by (simp_all add: is_space_def word_char_def ccode_def)
  have "match_ruleLine (CHR ''['' # ''r: (x), '' @ statement_written s @ '' -> '' @ statement_written t @ '']'') = Some ''r''"
  proof (rule ruleLine_steps[where ?t1.0 = "'' (x), '' @ statement_written s @ '' -> '' @ statement_written t @ '']''" and ?t4.0 = "'' '' @ statement_written t @ '']''" and ?t5.0 = "'']''"])
    show "skip_groups ('', '' @ statement_written s @ '' -> '' @ statement_written t @ '']'') = Some ('' -> '' @ statement_written t @ '']'')"
      using groups_skipped[of "rp_prefixes st" "[s]"] that(1) by (simp add: commas_written_def)
    show "skip_group (dropWhile is_space ('' '' @ statement_written t @ '']'')) = Some '']''"
      using space_blank group_skipped(1,4)[OF that(2)] by simp
  qed (use m not_word space_blank in \<open>simp_all add: skip_group_def\<close>)
  then have "match_ruleLine ?ln = Some ''r''" by simp
  then have "rp_parseRule q pick noise ?ln st = (rule_meant q (rp_prefixes st) (map snd [(''[r: (x), '', s)]) t, st\<lparr>rp_rules := rs_insert ''r'' (rule_meant q (rp_prefixes st) (map snd [(''[r: (x), '', s)]) t) (rp_rules st)\<rparr>)"
    using that front by (intro statements_read[where g = "'' -> ''" and tail = "'']''"]) (simp_all add: gap_plain is_quote_def)
  then show ?thesis by simp
qed

text \<open>A blank node is matched as a prefixed name, and no one sets its success flag: whether the rule is read depends on the stack.\<close>

lemma blank_node_flag_unset:
  "snd (parseMatchedStatementPattern q pfx noise (''_:b'', ''?p'', ''?x'')) = noise"
  by (simp add: parseMatchedStatementPattern_def parse_capture_def parseNodePattern_def)

text \<open>The form of a blank node in the pattern cannot be read as one: without a colon it is looked up as a prefix.\<close>

lemma underscored_not_read:
  "node_text ''_b''" "parse_capture q Map.empty noise ''_b'' = (empty_np, False)"
  by (code_simp, simp add: parse_capture_def parseNodePattern_def toInt_def parse_in_def parse_int_def parse_nat_def trimmed_def is_space_def is_digit_def ccode_def)

text \<open>Blanks between nodes are optional: two numbers are also what a number of two digits is matched as.\<close>

lemma nodes_run_together:
  "((''?x'', ''1'', ''2''), []) \<in> set (statement_matches ''(?x 12)'')"
  unfolding statement_matches_iff by (intro conjI exI[of _ "'' ''"] exI[of _ "[]"]) code_simp+

end
