(* ===== verification/Mutex_Model.thy ===== *)
theory Mutex_Model
  imports Rw_Lock Model_Stack Result_Iterator
begin

text \<open>
  The mutex model (soprano/util/mutexmodel.cpp, mutexiteratorbase.h, mutex*iteratorbackend.cpp): a filter
  that takes a lock around every call of its parent, and keeps a read lock as long as an iterator is
  open. Threads run it as a step relation: a step is what lies between two points where a thread can be
  held up or another thread can come in between, so a call is split into asking for the lock, being in
  the parent, and leaving. The thread that opened an iterator and the state it was opened in are kept for
  the properties.
\<close>

section \<open>The two locks\<close>

text \<open>QMutex: not recursive, a thread that locks it again waits for itself.\<close>

record 't qmutex =
  mutex_owner :: "'t option"
  mutex_waiting :: "'t set"

definition mutex_lock :: "'t \<Rightarrow> 't qmutex \<Rightarrow> 't qmutex" where
  "mutex_lock t m = (if mutex_owner m = None then m\<lparr>mutex_owner := Some t, mutex_waiting := mutex_waiting m - {t}\<rparr>
     else m\<lparr>mutex_waiting := insert t (mutex_waiting m)\<rparr>)"

definition mutex_unlock :: "'t qmutex \<Rightarrow> 't qmutex" where
  "mutex_unlock m = m\<lparr>mutex_owner := None\<rparr>"

text \<open>The mode chooses the lock; the other one is not used.\<close>

datatype 't protection =
    PlainMultiThreading "'t qmutex" | ReadWriteMultiThreading "'t rw" | ReadWriteSingleThreading

definition plain_mode :: "'t protection" where
  "plain_mode = PlainMultiThreading \<lparr> mutex_owner = None, mutex_waiting = {} \<rparr>"

definition read_write_mode :: "'t protection" where
  "read_write_mode = ReadWriteMultiThreading rw_init"

fun mm_lockForWrite :: "'t \<Rightarrow> 't protection \<Rightarrow> 't protection" where
  "mm_lockForWrite t (PlainMultiThreading m) = PlainMultiThreading (mutex_lock t m)"
| "mm_lockForWrite t (ReadWriteMultiThreading l) = ReadWriteMultiThreading (lockForWrite t l)"
| "mm_lockForWrite t ReadWriteSingleThreading = ReadWriteSingleThreading"

fun mm_lockForRead :: "'t \<Rightarrow> 't protection \<Rightarrow> 't protection" where
  "mm_lockForRead t (PlainMultiThreading m) = PlainMultiThreading (mutex_lock t m)"
| "mm_lockForRead t (ReadWriteMultiThreading l) = ReadWriteMultiThreading (lockForRead t l)"
| "mm_lockForRead t ReadWriteSingleThreading = ReadWriteSingleThreading"

text \<open>\<open>w\<close> is the writer that is woken, if one is.\<close>

fun mm_unlock :: "'t \<Rightarrow> 't option \<Rightarrow> 't protection \<Rightarrow> 't protection" where
  "mm_unlock t w (PlainMultiThreading m) = PlainMultiThreading (mutex_unlock m)"
| "mm_unlock t w (ReadWriteMultiThreading l) = ReadWriteMultiThreading (unlock t w l)"
| "mm_unlock t w ReadWriteSingleThreading = ReadWriteSingleThreading"

text \<open>A thread that waits in one of the lock functions, and one that may go on there.\<close>

fun asleep :: "'t protection \<Rightarrow> 't \<Rightarrow> bool" where
  "asleep (PlainMultiThreading m) t = (t \<in> mutex_waiting m)"
| "asleep (ReadWriteMultiThreading l) t = (pc l t \<noteq> Running)"
| "asleep ReadWriteSingleThreading t = False"

fun may_resume :: "'t protection \<Rightarrow> 't \<Rightarrow> bool" where
  "may_resume (PlainMultiThreading m) t = (t \<in> mutex_waiting m \<and> mutex_owner m = None)"
| "may_resume (ReadWriteMultiThreading l) t = (pc l t = WokenWrite \<or> pc l t = WokenRead)"
| "may_resume ReadWriteSingleThreading t = False"

fun mm_resume :: "'t \<Rightarrow> 't protection \<Rightarrow> 't protection" where
  "mm_resume t (PlainMultiThreading m) = PlainMultiThreading (mutex_lock t m)"
| "mm_resume t (ReadWriteMultiThreading l) =
     ReadWriteMultiThreading (if pc l t = WokenWrite then resumeWrite t l else resumeRead t l)"
| "mm_resume t ReadWriteSingleThreading = ReadWriteSingleThreading"

fun may_wake :: "'t protection \<Rightarrow> 't option \<Rightarrow> bool" where
  "may_wake (ReadWriteMultiThreading l) w = wake_choice l w"
| "may_wake _ w = True"

section \<open>Iterators\<close>

text \<open>The wrapper of an iterator. \<open>it_model\<close>: the pointer to the mutex model is not null. A call gives, beside its
  result, whether the model was asked to remove the iterator.\<close>

record 'b mutex_it =
  m_iterator :: "'b front"
  it_model :: bool
  it_error :: error

definition new_mutex_it :: "'b front \<Rightarrow> 'b mutex_it" where
  "new_mutex_it it = \<lparr> m_iterator = it, it_model = True, it_error = NoError \<rparr>"

definition setModelGone :: "'b mutex_it \<Rightarrow> 'b mutex_it" where
  "setModelGone b = b\<lparr>it_model := False\<rparr>"

definition mi_remove :: "'b mutex_it \<Rightarrow> bool \<times> 'b mutex_it" where
  "mi_remove b = (it_model b, if it_model b then b\<lparr>it_model := False\<rparr> else b)"

definition mi_next :: "('b, 'a) backend \<Rightarrow> 'b mutex_it \<Rightarrow> (bool \<times> 'b mutex_it) option" where
  "mi_next B b = map_option (\<lambda>(h, it). (h, b\<lparr>m_iterator := it, it_error := snd it\<rparr>)) (it_next B (m_iterator b))"

definition mi_current :: "('b, 'a) backend \<Rightarrow> 'a \<Rightarrow> 'b mutex_it \<Rightarrow> ('a \<times> 'b mutex_it) option" where
  "mi_current B none b = map_option (\<lambda>(x, it). (x, b\<lparr>m_iterator := it, it_error := snd it\<rparr>)) (it_current B none (m_iterator b))"

definition mi_close :: "('b, 'a) backend \<Rightarrow> 'b mutex_it \<Rightarrow> (bool \<times> 'b mutex_it) option" where
  "mi_close B b = map_option (\<lambda>it. mi_remove (b\<lparr>m_iterator := it, it_error := snd it\<rparr>)) (it_close B (m_iterator b))"

text \<open>The wrapper as a backend for the front that the caller gets.\<close>

definition mutex_backend :: "('b, 'a) backend \<Rightarrow> 'a \<Rightarrow> ('b mutex_it, 'a) backend" where
  "mutex_backend B none = \<lparr> b_next = mi_next B, b_current = mi_current B none,
     b_close = (\<lambda>b. map_option snd (mi_close B b)), b_error = it_error \<rparr>"

text \<open>A wrapped iterator delivers what the iterator it wraps delivers.\<close>

definition wrapped_at :: "('b \<Rightarrow> 'a option \<Rightarrow> 'a list \<Rightarrow> bool) \<Rightarrow> 'b mutex_it \<Rightarrow> 'a option \<Rightarrow> 'a list \<Rightarrow> bool" where
  "wrapped_at at b h xs \<longleftrightarrow> (\<exists>c. fst (m_iterator b) = Some c \<and> at c h xs)"

lemma mutex_backend_delivers:
  assumes D: "delivers B at ended closed"
  shows "delivers (mutex_backend B none) (wrapped_at at) (\<lambda>b. front_closed closed (m_iterator b)) (\<lambda>b. front_closed closed (m_iterator b))"
proof -
  have close: "\<exists>b'. b_close (mutex_backend B none) b = Some b' \<and> front_closed closed (m_iterator b')"
    if closed: "front_closed closed (m_iterator b)" for b
  proof -
    obtain c e where b: "m_iterator b = (Some c, e)" "closed c" using closed by (cases "m_iterator b") (auto simp: front_closed_def)
    then show ?thesis
      using delivers.front_close[OF D b(2), of e]
      by (cases "it_model b") (auto simp: mutex_backend_def mi_close_def mi_remove_def front_closed_def)
  qed
  show ?thesis
  proof (unfold_locales, goal_cases)
    case (1 b h x xs)
    then obtain c e where b: "m_iterator b = (Some c, e)" "at c h (x # xs)" by (cases "m_iterator b") (auto simp: wrapped_at_def)
    then show ?case using delivers.front_more[OF D b(2), of e] by (auto simp: mutex_backend_def mi_next_def wrapped_at_def)
  next
    case (2 b h)
    then obtain c e where b: "m_iterator b = (Some c, e)" "at c h []" by (cases "m_iterator b") (auto simp: wrapped_at_def)
    then show ?case using delivers.front_last[OF D b(2), of e] by (auto simp: mutex_backend_def mi_next_def front_closed_def)
  next
    case (3 b x xs)
    then obtain c e where b: "m_iterator b = (Some c, e)" "at c (Some x) xs" by (cases "m_iterator b") (auto simp: wrapped_at_def)
    then show ?case using delivers.front_here[OF D b(2), of none e] by (auto simp: mutex_backend_def mi_current_def wrapped_at_def)
  qed (rule close, assumption)+
qed

section \<open>Calls\<close>

datatype stage = Idle | Locking model_call | Inside model_call | Leaving bool

record ('s, 't) mutexed =
  protection :: "'t protection"
  mm_parent :: "'s \<times> error"
  openIterators :: "nat list"
  handles :: nat
  handle_model :: "nat \<Rightarrow> bool"
  stages :: "'t \<Rightarrow> stage"
  opened_by :: "nat \<Rightarrow> 't"
  opened_in :: "nat \<Rightarrow> 's"

definition new_mutexed :: "'t protection \<Rightarrow> 's \<Rightarrow> 't \<Rightarrow> ('s, 't) mutexed" where
  "new_mutexed p \<sigma> t = \<lparr> protection = p, mm_parent = (\<sigma>, NoError), openIterators = [], handles = 0,
     handle_model = (\<lambda>_. False), stages = (\<lambda>_. Idle), opened_by = (\<lambda>_. t), opened_in = (\<lambda>_. \<sigma>) \<rparr>"

text \<open>createBlankNode is not overridden: it reaches the parent without a lock.\<close>

definition locked :: "model_call \<Rightarrow> bool" where
  "locked c \<longleftrightarrow> c \<noteq> CCreateBlank"

definition writes :: "model_call \<Rightarrow> bool" where
  "writes c \<longleftrightarrow> locked c \<and> mutates c"

definition set_stage :: "'t \<Rightarrow> stage \<Rightarrow> ('s, 't) mutexed \<Rightarrow> ('s, 't) mutexed" where
  "set_stage t x st = st\<lparr>stages := (stages st)(t := x)\<rparr>"

definition mm_begin :: "'t \<Rightarrow> model_call \<Rightarrow> ('s, 't) mutexed \<Rightarrow> ('s, 't) mutexed" where
  "mm_begin t c st =
     (if \<not> locked c then set_stage t (Inside c) st
      else set_stage t (Locking c)
        (st\<lparr>protection := (if writes c then mm_lockForWrite t (protection st) else mm_lockForRead t (protection st))\<rparr>))"

text \<open>A listing or a query gave an iterator.\<close>

fun valid_iterator :: "model_result \<Rightarrow> bool" where
  "valid_iterator (RStatements it) = (it \<noteq> None)"
| "valid_iterator (RNodes it) = (it \<noteq> None)"
| "valid_iterator (RRows it) = (it \<noteq> None)"
| "valid_iterator _ = False"

definition mm_call :: "'s model \<Rightarrow> 't \<Rightarrow> model_call \<Rightarrow> ('s, 't) mutexed \<Rightarrow> ('s, 't) mutexed" where
  "mm_call M t c st =
     (case call (filter_model M) c (mm_parent st) of (r, \<sigma>) \<Rightarrow>
       (let st = st\<lparr>mm_parent := \<sigma>\<rparr>; h = handles st
        in if valid_iterator r then
             set_stage t Idle (st\<lparr>openIterators := openIterators st @ [h], handles := Suc h,
               handle_model := (handle_model st)(h := True), opened_by := (opened_by st)(h := t),
               opened_in := (opened_in st)(h := fst \<sigma>)\<rparr>)
           else if locked c then set_stage t (Leaving (writes c)) st
           else set_stage t Idle st))"

definition mm_leave :: "'t \<Rightarrow> 't option \<Rightarrow> ('s, 't) mutexed \<Rightarrow> ('s, 't) mutexed" where
  "mm_leave t w st = set_stage t Idle (st\<lparr>protection := mm_unlock t w (protection st)\<rparr>)"

text \<open>close and the destructor of an iterator, up to the unlock of removeIterator.\<close>

definition mm_closeIterator :: "'t \<Rightarrow> nat \<Rightarrow> ('s, 't) mutexed \<Rightarrow> ('s, 't) mutexed" where
  "mm_closeIterator t h st =
     (if handle_model st h then
        set_stage t (Leaving False) (st\<lparr>openIterators := removeAll h (openIterators st), handle_model := (handle_model st)(h := False)\<rparr>)
      else st)"

definition mm_destroy :: "('s, 't) mutexed \<Rightarrow> ('s, 't) mutexed" where
  "mm_destroy st = st\<lparr>handle_model := (\<lambda>h. if h \<in> set (openIterators st) then False else handle_model st h)\<rparr>"

definition own_iterators :: "('s, 't) mutexed \<Rightarrow> 't \<Rightarrow> nat" where
  "own_iterators st t = length (filter (\<lambda>h. opened_by st h = t) (openIterators st))"

text \<open>Threads close the iterators they opened, and close them before they write.\<close>

inductive mm_step :: "'s model \<Rightarrow> ('s, 't) mutexed \<Rightarrow> ('s, 't) mutexed \<Rightarrow> bool" for M where
  begin_call: "stages st t = Idle \<Longrightarrow> (writes c \<Longrightarrow> own_iterators st t = 0) \<Longrightarrow> mm_step M st (mm_begin t c st)"
| go_on: "stages st t = Locking c \<Longrightarrow> may_resume (protection st) t \<Longrightarrow>
     mm_step M st (st\<lparr>protection := mm_resume t (protection st)\<rparr>)"
| enter: "stages st t = Locking c \<Longrightarrow> \<not> asleep (protection st) t \<Longrightarrow> mm_step M st (set_stage t (Inside c) st)"
| in_parent: "stages st t = Inside c \<Longrightarrow> mm_step M st (mm_call M t c st)"
| leave: "stages st t = Leaving b \<Longrightarrow> may_wake (protection st) w \<Longrightarrow> mm_step M st (mm_leave t w st)"
| close_iterator: "stages st t = Idle \<Longrightarrow> opened_by st h = t \<Longrightarrow> mm_step M st (mm_closeIterator t h st)"

inductive mm_reach :: "'s model \<Rightarrow> ('s, 't) mutexed \<Rightarrow> ('s, 't) mutexed \<Rightarrow> bool" for M st0 where
  start: "mm_reach M st0 st0"
| step: "mm_reach M st0 st \<Longrightarrow> mm_step M st st' \<Longrightarrow> mm_reach M st0 st'"

section \<open>What a thread holds\<close>

fun held :: "'t protection \<Rightarrow> 't \<Rightarrow> nat" where
  "held (PlainMultiThreading m) t = (if mutex_owner m = Some t then 1 else 0)"
| "held (ReadWriteMultiThreading l) t = count (currentReaders l) t + (if writer l = Some t then 1 else 0)"
| "held ReadWriteSingleThreading t = 0"

fun is_read_write :: "'t protection \<Rightarrow> bool" where
  "is_read_write (ReadWriteMultiThreading l) = True"
| "is_read_write _ = False"

fun rw_writer :: "'t protection \<Rightarrow> 't \<Rightarrow> bool" where
  "rw_writer (ReadWriteMultiThreading l) t = (writer l = Some t)"
| "rw_writer _ t = False"

fun waits_for :: "bool \<Rightarrow> 't protection \<Rightarrow> 't \<Rightarrow> bool" where
  "waits_for b (ReadWriteMultiThreading l) t =
     (if b then pc l t = AsleepWrite \<or> pc l t = WokenWrite else pc l t = AsleepRead \<or> pc l t = WokenRead)"
| "waits_for b _ t = True"

fun sound :: "'t protection \<Rightarrow> bool" where
  "sound (PlainMultiThreading m) = True"
| "sound (ReadWriteMultiThreading l) = rw_inv l"
| "sound ReadWriteSingleThreading = False"

text \<open>An operation of one thread leaves the others what they have.\<close>

definition view :: "'t protection \<Rightarrow> 't \<Rightarrow> nat \<times> bool \<times> bool \<times> bool \<times> bool" where
  "view p t = (held p t, asleep p t, rw_writer p t, waits_for True p t, waits_for False p t)"

lemmas lock_defs = lockForWrite_def lockForRead_def resumeWrite_def resumeRead_def write_turn_def read_turn_def mutex_lock_def
  mutex_unlock_def

lemma others_lock:
  assumes "sound p" "u \<noteq> t" "\<not> rw_writer p t"
  shows "view (mm_lockForWrite t p) u = view p u" "view (mm_lockForRead t p) u = view p u" "view (mm_resume t p) u = view p u"
  using assms
  by (cases p; auto simp: view_def lock_defs rw_inv_def exclusion_def split: option.splits)+

lemma rw_inv_writer: "rw_inv l \<Longrightarrow> writer l = Some t \<Longrightarrow> accessCount l = - 1 \<and> currentReaders l = {#}"
  by (simp add: rw_inv_def exclusion_def)

lemma rw_inv_free: "rw_inv l \<Longrightarrow> writer l = None \<Longrightarrow> accessCount l = int (size (currentReaders l))"
  by (simp add: rw_inv_def exclusion_def)

lemma rw_inv_held: "rw_inv l \<Longrightarrow> t \<in># currentReaders l \<or> writer l = Some t \<Longrightarrow> pc l t = Running \<and> accessCount l \<noteq> 0"
  by (cases "writer l") (auto simp: rw_inv_def exclusion_def)

lemma lockForWrite_own:
  assumes "sound p" "\<not> asleep p t" "\<not> rw_writer p t" "is_read_write p \<Longrightarrow> held p t = 0"
  shows "sound (mm_lockForWrite t p) \<and> is_read_write (mm_lockForWrite t p) = is_read_write p \<and>
    (if asleep (mm_lockForWrite t p) t
     then held (mm_lockForWrite t p) t = held p t \<and> \<not> rw_writer (mm_lockForWrite t p) t \<and> waits_for True (mm_lockForWrite t p) t
     else held (mm_lockForWrite t p) t = Suc (held p t) \<and> rw_writer (mm_lockForWrite t p) t = is_read_write p)"
proof (cases p)
  case (ReadWriteMultiThreading l)
  then have "rw_step l (CallWrite t) (lockForWrite t l)" "rw_inv l" using assms by (auto intro!: rw_step.call_write simp: count_eq_zero_iff)
  then have "rw_inv (lockForWrite t l)" by (rule rw_inv_step)
  then show ?thesis using assms ReadWriteMultiThreading
    by (auto simp: lock_defs rw_inv_def exclusion_def)
qed (use assms in \<open>auto simp: lock_defs\<close>)

lemma lockForRead_own:
  assumes "sound p" "\<not> asleep p t" "\<not> rw_writer p t"
  shows "sound (mm_lockForRead t p) \<and> is_read_write (mm_lockForRead t p) = is_read_write p \<and> \<not> rw_writer (mm_lockForRead t p) t \<and>
    (if asleep (mm_lockForRead t p) t then held (mm_lockForRead t p) t = held p t \<and> waits_for False (mm_lockForRead t p) t
     else held (mm_lockForRead t p) t = Suc (held p t))"
proof (cases p)
  case (ReadWriteMultiThreading l)
  then have "rw_step l (CallRead t) (lockForRead t l)" "rw_inv l" using assms by (auto intro!: rw_step.call_read)
  then have "rw_inv (lockForRead t l)" by (rule rw_inv_step)
  then show ?thesis using assms ReadWriteMultiThreading
    by (auto simp: lock_defs)
qed (use assms in \<open>auto simp: lock_defs\<close>)

lemma resume_own:
  assumes "sound p" "may_resume p t" "waits_for b p t"
  shows "sound (mm_resume t p) \<and> is_read_write (mm_resume t p) = is_read_write p \<and>
    (if asleep (mm_resume t p) t
     then held (mm_resume t p) t = held p t \<and> \<not> rw_writer (mm_resume t p) t \<and> waits_for b (mm_resume t p) t
     else held (mm_resume t p) t = Suc (held p t) \<and> rw_writer (mm_resume t p) t = (is_read_write p \<and> b))"
proof (cases p)
  case (ReadWriteMultiThreading l)
  note p = this
  have inv: "rw_inv l" using assms p by simp
  have none: "t \<notin># currentReaders l" "writer l \<noteq> Some t" using rw_inv_held[OF inv, of t] assms(2) p by auto
  show ?thesis
  proof (cases "pc l t = WokenWrite")
    case True
    then have "rw_inv (resumeWrite t l)" using rw_inv_step[OF rw_step.resume_write inv] by blast
    then show ?thesis using p assms(3) True none by (auto simp: lock_defs split: if_splits)
  next
    case False
    then have r: "pc l t = WokenRead" using assms(2) p by simp
    then have "rw_inv (resumeRead t l)" using rw_inv_step[OF rw_step.resume_read inv] by blast
    then show ?thesis using p assms(3) r none by (auto simp: lock_defs split: if_splits)
  qed
qed (use assms in \<open>auto simp: lock_defs\<close>)

lemma wake_up_view:
  "currentReaders (wake_up w l) = currentReaders l" "writer (wake_up w l) = writer l"
  "wake_choice l w \<Longrightarrow> pc (wake_up w l) u = Running \<longleftrightarrow> pc l u = Running"
  "wake_choice l w \<Longrightarrow> (pc (wake_up w l) u = AsleepWrite \<or> pc (wake_up w l) u = WokenWrite) = (pc l u = AsleepWrite \<or> pc l u = WokenWrite)"
  "wake_choice l w \<Longrightarrow> (pc (wake_up w l) u = AsleepRead \<or> pc (wake_up w l) u = WokenRead) = (pc l u = AsleepRead \<or> pc l u = WokenRead)"
  by (auto simp: wake_up_def wake_writer_def wake_readers_def wake_all_def wake_choice_def split: option.splits)

lemma unlock_view:
  assumes "rw_inv l" "t \<in># currentReaders l \<or> writer l = Some t" "wake_choice l w"
  shows "currentReaders (unlock t w l) = currentReaders l - {#t#}" "writer (unlock t w l) = None"
    "view (ReadWriteMultiThreading (unlock t w l)) u =
       (count (currentReaders l - {#t#}) u, pc l u \<noteq> Running, False, waits_for True (ReadWriteMultiThreading l) u,
        waits_for False (ReadWriteMultiThreading l) u)"
proof -
  have r: "currentReaders (fst (release t l)) = currentReaders l - {#t#}" "writer (fst (release t l)) = None"
    using assms(1,2) rw_inv_writer[OF assms(1)] rw_inv_free[OF assms(1)] by (cases "writer l"; force simp: release_def)+
  then show 1: "currentReaders (unlock t w l) = currentReaders l - {#t#}" "writer (unlock t w l) = None"
    by (simp_all add: unlock_split wake_up_view)
  show "view (ReadWriteMultiThreading (unlock t w l)) u =
       (count (currentReaders l - {#t#}) u, pc l u \<noteq> Running, False, waits_for True (ReadWriteMultiThreading l) u,
        waits_for False (ReadWriteMultiThreading l) u)"
    using 1 assms(3) by (simp add: view_def unlock_split wake_up_view)
qed

lemma unlock_own:
  assumes "sound p" "held p t > 0" "\<not> asleep p t" "may_wake p w"
  shows "sound (mm_unlock t w p) \<and> is_read_write (mm_unlock t w p) = is_read_write p \<and> \<not> asleep (mm_unlock t w p) t \<and>
    held (mm_unlock t w p) t = held p t - 1 \<and> \<not> rw_writer (mm_unlock t w p) t"
proof (cases p)
  case (ReadWriteMultiThreading l)
  have h: "t \<in># currentReaders l \<or> writer l = Some t" using assms(2) ReadWriteMultiThreading by (auto split: if_splits)
  have inv: "rw_inv l" using assms(1) ReadWriteMultiThreading by simp
  have "rw_step l (CallUnlock t) (unlock t w l)" using assms h ReadWriteMultiThreading by (auto intro!: rw_step.call_unlock)
  then have "rw_inv (unlock t w l)" using inv by (rule rw_inv_step)
  then show ?thesis
    using unlock_view(1,2)[OF inv h, of w] unlock_view(3)[OF inv h, of w t] rw_inv_writer[OF inv] assms ReadWriteMultiThreading by (auto simp: view_def)
qed (use assms in \<open>auto simp: lock_defs split: if_splits\<close>)

lemma unlock_others:
  assumes "sound p" "held p t > 0" "may_wake p w" "u \<noteq> t"
  shows "view (mm_unlock t w p) u = view p u"
proof (cases p)
  case (ReadWriteMultiThreading l)
  have h: "t \<in># currentReaders l \<or> writer l = Some t" using assms(2) ReadWriteMultiThreading by (auto split: if_splits)
  have inv: "rw_inv l" using assms(1) ReadWriteMultiThreading by simp
  have "writer l \<noteq> Some u" using h assms(4) rw_inv_writer[OF inv] by auto
  then show ?thesis using unlock_view(2)[OF inv h, of w] unlock_view(3)[OF inv h, of w u] assms(3,4) ReadWriteMultiThreading by (simp add: view_def)
qed (use assms in \<open>auto simp: view_def lock_defs split: if_splits\<close>)

section \<open>The invariant\<close>

fun stage_holds :: "bool \<Rightarrow> stage \<Rightarrow> nat" where
  "stage_holds a Idle = 0"
| "stage_holds a (Locking c) = (if a then 0 else 1)"
| "stage_holds a (Inside c) = (if locked c then 1 else 0)"
| "stage_holds a (Leaving b) = 1"

fun write_stage :: "stage \<Rightarrow> bool" where
  "write_stage Idle = False"
| "write_stage (Locking c) = writes c"
| "write_stage (Inside c) = writes c"
| "write_stage (Leaving b) = b"

text \<open>What a thread holds of the lock is what its stage and its iterators account for.\<close>

definition thread_ok :: "'t protection \<Rightarrow> 't \<Rightarrow> nat \<Rightarrow> stage \<Rightarrow> bool" where
  "thread_ok p t n x \<longleftrightarrow> held p t = n + stage_holds (asleep p t) x \<and>
     (asleep p t \<longrightarrow> (\<exists>c. x = Locking c)) \<and> (\<forall>c. x = Locking c \<longrightarrow> locked c \<and> (asleep p t \<longrightarrow> waits_for (writes c) p t)) \<and>
     (is_read_write p \<longrightarrow> rw_writer p t = (write_stage x \<and> \<not> asleep p t))"

definition mm_inv :: "('s, 't) mutexed \<Rightarrow> bool" where
  "mm_inv st \<longleftrightarrow> sound (protection st) \<and> (\<forall>t. thread_ok (protection st) t (own_iterators st t) (stages st t)) \<and>
     distinct (openIterators st) \<and> (\<forall>h. handle_model st h \<longleftrightarrow> h \<in> set (openIterators st)) \<and>
     (\<forall>h\<in>set (openIterators st). h < handles st)"

lemma thread_ok_view: "view p' u = view p u \<Longrightarrow> is_read_write p' = is_read_write p \<Longrightarrow> thread_ok p' u n x = thread_ok p u n x"
proof -
  assume v: "view p' u = view p u" and r: "is_read_write p' = is_read_write p"
  have "waits_for b p' u = waits_for b p u" for b using v by (cases b) (simp_all add: view_def)
  then show ?thesis using v r by (simp add: view_def thread_ok_def)
qed

lemma set_stage_fields [simp]:
  "protection (set_stage t x st) = protection st" "openIterators (set_stage t x st) = openIterators st"
  "handles (set_stage t x st) = handles st" "handle_model (set_stage t x st) = handle_model st"
  "stages (set_stage t x st) = (stages st)(t := x)" "mm_parent (set_stage t x st) = mm_parent st"
  "opened_by (set_stage t x st) = opened_by st" "opened_in (set_stage t x st) = opened_in st"
  by (simp_all add: set_stage_def)

lemma own_set_stage [simp]: "own_iterators (set_stage t x st) = own_iterators st"
    "own_iterators (st\<lparr>protection := p\<rparr>) = own_iterators st" "own_iterators (st\<lparr>mm_parent := \<sigma>\<rparr>) = own_iterators st"
  by (simp_all add: own_iterators_def fun_eq_iff)

lemma mm_inv_lock:
  assumes "mm_inv st" "sound p" "is_read_write p = is_read_write (protection st)" "\<And>u. u \<noteq> t \<Longrightarrow> view p u = view (protection st) u"
    and "thread_ok p t (own_iterators st t) x"
  shows "mm_inv (set_stage t x (st\<lparr>protection := p\<rparr>))"
proof -
  have "thread_ok p u (own_iterators st u) (((stages st)(t := x)) u)" for u
    using assms(1,5) thread_ok_view[OF assms(4) assms(3), of u] by (cases "u = t") (auto simp: mm_inv_def)
  then show ?thesis using assms(1,2) by (simp add: mm_inv_def)
qed

lemma thread_idle:
  assumes "mm_inv st" "stages st t = Idle"
  shows "held (protection st) t = own_iterators st t" "\<not> asleep (protection st) t" "\<not> rw_writer (protection st) t"
  using assms by (auto simp: mm_inv_def thread_ok_def) (cases "protection st"; auto)

lemma mm_inv_begin:
  assumes "mm_inv st" "stages st t = Idle" "writes c \<Longrightarrow> own_iterators st t = 0"
  shows "mm_inv (mm_begin t c st)"
proof -
  note idle = thread_idle[OF assms(1,2)]
  have s: "sound (protection st)" using assms(1) by (simp add: mm_inv_def)
  show ?thesis
  proof (cases "locked c")
    case False
    then have "thread_ok (protection st) t (own_iterators st t) (Inside c)" using idle by (simp add: thread_ok_def writes_def)
    then show ?thesis using mm_inv_lock[OF assms(1) s refl refl, of t "Inside c"] False by (simp add: mm_begin_def)
  next
    case l: True
    show ?thesis
    proof (cases "writes c")
      case True
      then show ?thesis
        using l lockForWrite_own[OF s idle(2,3)] others_lock(1)[OF s _ idle(3)] idle(1) assms(3)
        by (auto simp: mm_begin_def thread_ok_def intro!: mm_inv_lock[OF assms(1)] split: if_splits)
    next
      case False
      then show ?thesis
        using l lockForRead_own[OF s idle(2,3)] others_lock(2)[OF s _ idle(3)] idle(1)
        by (auto simp: mm_begin_def thread_ok_def intro!: mm_inv_lock[OF assms(1)] split: if_splits)
    qed
  qed
qed

lemma mm_inv_go_on:
  assumes "mm_inv st" "stages st t = Locking c" "may_resume (protection st) t"
  shows "mm_inv (st\<lparr>protection := mm_resume t (protection st)\<rparr>)"
proof -
  have s: "sound (protection st)" and ok: "thread_ok (protection st) t (own_iterators st t) (Locking c)"
    using assms(1,2) unfolding mm_inv_def by metis+
  have a: "asleep (protection st) t" using assms(3) by (cases "protection st") auto
  have w: "waits_for (writes c) (protection st) t" "\<not> rw_writer (protection st) t"
    using ok a by (cases "protection st"; auto simp: thread_ok_def)+
  have "thread_ok (mm_resume t (protection st)) t (own_iterators st t) (Locking c)"
    using resume_own[OF s assms(3) w(1)] ok a by (auto simp: thread_ok_def split: if_splits)
  then have "mm_inv (set_stage t (Locking c) (st\<lparr>protection := mm_resume t (protection st)\<rparr>))"
    using resume_own[OF s assms(3) w(1)] others_lock(3)[OF s _ w(2)] by (intro mm_inv_lock[OF assms(1)]) auto
  then show ?thesis using assms(2) by (simp add: set_stage_def fun_upd_idem)
qed

lemma mm_inv_enter:
  assumes "mm_inv st" "stages st t = Locking c" "\<not> asleep (protection st) t"
  shows "mm_inv (set_stage t (Inside c) st)"
proof -
  have s: "sound (protection st)" and ok: "thread_ok (protection st) t (own_iterators st t) (Locking c)"
    using assms(1,2) unfolding mm_inv_def by metis+
  have "thread_ok (protection st) t (own_iterators st t) (Inside c)" using ok assms(3) by (simp add: thread_ok_def)
  then show ?thesis using mm_inv_lock[OF assms(1) s refl refl, of t "Inside c"] by simp
qed

lemma mm_inv_leave:
  assumes "mm_inv st" "stages st t = Leaving b" "may_wake (protection st) w"
  shows "mm_inv (mm_leave t w st)"
proof -
  have s: "sound (protection st)" and ok: "thread_ok (protection st) t (own_iterators st t) (Leaving b)"
    using assms(1,2) unfolding mm_inv_def by metis+
  have h: "held (protection st) t > 0" "\<not> asleep (protection st) t" using ok by (auto simp: thread_ok_def)
  show ?thesis
    using unlock_own[OF s h assms(3)] unlock_others[OF s h(1) assms(3)] ok
    by (auto simp: mm_leave_def thread_ok_def intro!: mm_inv_lock[OF assms(1)])
qed

text \<open>A thread that goes on with what it holds, when an iterator is opened or closed.\<close>

lemma mm_inv_iterators:
  assumes inv: "mm_inv st" and same: "protection st' = protection st" "stages st' = (stages st)(t := x)"
    and handles: "distinct (openIterators st')" "\<And>h. handle_model st' h \<longleftrightarrow> h \<in> set (openIterators st')"
      "\<And>h. h \<in> set (openIterators st') \<Longrightarrow> h < handles st'"
    and own: "\<And>u. u \<noteq> t \<Longrightarrow> own_iterators st' u = own_iterators st u"
    and ok: "thread_ok (protection st) t (own_iterators st' t) x"
  shows "mm_inv st'"
proof -
  have "thread_ok (protection st') u (own_iterators st' u) (stages st' u)" for u
    using inv ok own[of u] same by (cases "u = t") (auto simp: mm_inv_def)
  then show ?thesis using inv handles same by (simp add: mm_inv_def)
qed

lemma own_open:
  "h \<notin> set (openIterators st) \<Longrightarrow>
    own_iterators (set_stage t x (st\<lparr>openIterators := openIterators st @ [h], handles := n, handle_model := m,
      opened_by := (opened_by st)(h := t), opened_in := s\<rparr>)) u = own_iterators st u + (if u = t then 1 else 0)"
proof -
  assume h: "h \<notin> set (openIterators st)"
  have "filter (\<lambda>k. (if k = h then t else opened_by st k) = u) (openIterators st) = filter (\<lambda>k. opened_by st k = u) (openIterators st)"
    using h by (intro filter_cong) auto
  then show ?thesis by (auto simp: own_iterators_def)
qed

lemma length_filter_removeAll:
  "distinct xs \<Longrightarrow> h \<in> set xs \<Longrightarrow> length (filter P xs) = length (filter P (removeAll h xs)) + (if P h then 1 else 0)"
proof (induction xs)
  case (Cons x xs)
  then show ?case by (cases "x = h") (simp_all add: removeAll_id)
qed simp

lemma own_close:
  assumes "distinct (openIterators st)" "h \<in> set (openIterators st)"
  shows "own_iterators st u = own_iterators (st\<lparr>openIterators := removeAll h (openIterators st), handle_model := m\<rparr>) u
    + (if opened_by st h = u then 1 else 0)"
  using length_filter_removeAll[OF assms, of "\<lambda>h. opened_by st h = u"] by (simp add: own_iterators_def)

lemma mm_inv_close:
  assumes inv: "mm_inv st" and t: "stages st t = Idle" "opened_by st h = t"
  shows "mm_inv (mm_closeIterator t h st)"
proof (cases "handle_model st h")
  case False
  then show ?thesis using inv by (simp add: mm_closeIterator_def)
next
  case True
  let ?st = "st\<lparr>openIterators := removeAll h (openIterators st), handle_model := (handle_model st)(h := False)\<rparr>"
  have d: "distinct (openIterators st)" "h \<in> set (openIterators st)" using inv True by (simp_all add: mm_inv_def)
  note own = own_close[OF d, where m = "(handle_model st)(h := False)"]
  have "own_iterators ?st t = own_iterators st t - 1" "own_iterators st t \<noteq> 0" using own[of t] t(2) by auto
  then have "thread_ok (protection st) t (own_iterators ?st t) (Leaving False)"
    using thread_idle[OF inv t(1)] by (simp add: thread_ok_def)
  then have "mm_inv (set_stage t (Leaving False) ?st)"
    using own t(2) d inv by (intro mm_inv_iterators[OF inv, where t = t and x = "Leaving False"]) (auto simp: mm_inv_def distinct_removeAll)
  then show ?thesis using True by (simp add: mm_closeIterator_def)
qed

lemma valid_iterator_reads: "valid_iterator (fst (call M c \<sigma>)) \<Longrightarrow> \<not> mutates c"
  by (cases c) (simp_all add: tag_result_def)

lemma mm_inv_call:
  assumes inv: "mm_inv st" and t: "stages st t = Inside c"
  shows "mm_inv (mm_call M t c st)"
proof -
  have s: "sound (protection st)" and ok: "thread_ok (protection st) t (own_iterators st t) (Inside c)"
    using inv t unfolding mm_inv_def by metis+
  obtain r \<sigma> where r: "call (filter_model M) c (mm_parent st) = (r, \<sigma>)" by (cases "call (filter_model M) c (mm_parent st)")
  let ?st = "st\<lparr>mm_parent := \<sigma>\<rparr>"
  have inv': "mm_inv ?st" using inv by (simp add: mm_inv_def)
  show ?thesis
  proof (cases "valid_iterator r")
    case True
    then have c: "locked c" "\<not> writes c" using valid_iterator_reads[of "filter_model M" c "mm_parent st"] r
      by (auto simp: writes_def locked_def)
    have new: "handles st \<notin> set (openIterators st)" using inv by (auto simp: mm_inv_def)
    have "thread_ok (protection st) t (Suc (own_iterators st t)) Idle" using ok c by (auto simp: thread_ok_def)
    then show ?thesis
      using True r new inv own_open[of "handles st" ?st t Idle]
      by (auto simp: mm_call_def Let_def mm_inv_def less_SucI intro!: mm_inv_iterators[OF inv', where t = t and x = Idle])
  next
    case v: False
    show ?thesis
    proof (cases "locked c")
      case True
      then have "thread_ok (protection ?st) t (own_iterators ?st t) (Leaving (writes c))" using ok by (simp add: thread_ok_def)
      then show ?thesis using mm_inv_lock[OF inv', of "protection st" t "Leaving (writes c)"] s r v True
        by (simp add: mm_call_def Let_def)
    next
      case False
      then have "thread_ok (protection ?st) t (own_iterators ?st t) Idle" using ok by (simp add: thread_ok_def writes_def)
      then show ?thesis using mm_inv_lock[OF inv', of "protection st" t Idle] s r v False
        by (simp add: mm_call_def Let_def)
    qed
  qed
qed

lemma mm_inv_step: "mm_step M st st' \<Longrightarrow> mm_inv st \<Longrightarrow> mm_inv st'"
  by (induction rule: mm_step.induct)
     (auto intro: mm_inv_begin mm_inv_go_on mm_inv_enter mm_inv_call mm_inv_leave mm_inv_close)

lemma mm_inv_new: "mm_inv (new_mutexed plain_mode \<sigma> t)" "mm_inv (new_mutexed read_write_mode \<sigma> t)"
  using rw_inv_init
  by (auto simp: mm_inv_def new_mutexed_def plain_mode_def read_write_mode_def thread_ok_def own_iterators_def rw_init_def)

lemma mm_reach_inv: "mm_reach M st0 st \<Longrightarrow> mm_inv st0 \<Longrightarrow> mm_inv st"
  by (induction rule: mm_reach.induct) (auto intro: mm_inv_step)

section \<open>Protection\<close>

lemma held_alone:
  assumes "sound p" "held p t > 0" "is_read_write p \<Longrightarrow> rw_writer p t"
  shows "held p t = 1 \<and> (u \<noteq> t \<longrightarrow> held p u = 0)"
proof (cases p)
  case (ReadWriteMultiThreading l)
  then show ?thesis using assms rw_inv_writer[of l t] by auto
qed (use assms in \<open>auto split: if_splits\<close>)

text \<open>A thread that holds the lock for itself is alone: no other thread holds it, and no iterator is open.\<close>

lemma call_alone:
  assumes inv: "mm_inv st" and t: "stages st t = Inside c" "locked c" "is_read_write (protection st) \<Longrightarrow> writes c"
  shows "openIterators st = []" "u \<noteq> t \<Longrightarrow> stages st u = Inside d \<Longrightarrow> \<not> locked d"
proof -
  have ok: "thread_ok (protection st) u (own_iterators st u) (stages st u)" for u using inv by (simp add: mm_inv_def)
  have h: "held (protection st) t = Suc (own_iterators st t)" "is_read_write (protection st) \<Longrightarrow> rw_writer (protection st) t"
    using ok[of t] t by (auto simp: thread_ok_def)
  have alone: "held (protection st) t = 1 \<and> (u \<noteq> t \<longrightarrow> held (protection st) u = 0)" for u
    using held_alone[of "protection st" t u] h inv by (simp add: mm_inv_def)
  have own: "own_iterators st u = 0" for u using alone[of u] h(1) ok[of u] by (cases "u = t") (auto simp: thread_ok_def)
  show "openIterators st = []"
  proof (cases "openIterators st")
    case (Cons h hs)
    then show ?thesis using own[of "opened_by st h"] by (simp add: own_iterators_def)
  qed
  show "u \<noteq> t \<Longrightarrow> stages st u = Inside d \<Longrightarrow> \<not> locked d"
    using alone[of u] ok[of u] by (auto simp: thread_ok_def split: if_splits)
qed

lemma call_contents:
  assumes "store_model q M contents" "\<forall>\<sigma>. contents (snd (m_createBlankNode M \<sigma>)) = contents \<sigma>" "\<not> writes c"
  shows "contents (fst (snd (call (filter_model M) c \<sigma>))) = contents (fst \<sigma>)"
proof -
  have "contents (snd (call M c (fst \<sigma>))) = contents (fst \<sigma>)"
  proof (cases "c = CCreateBlank")
    case True
    then show ?thesis using assms(2) by (simp add: tag_result_def)
  next
    case False
    then show ?thesis using store_model.reads[OF assms(1)] assms(3) by (simp add: writes_def locked_def)
  qed
  then show ?thesis by (cases "call M c (fst \<sigma>)") (simp add: filter_call)
qed

definition snapshots :: "('s \<Rightarrow> graph) \<Rightarrow> ('s, 't) mutexed \<Rightarrow> bool" where
  "snapshots contents st \<longleftrightarrow> (\<forall>h\<in>set (openIterators st). contents (opened_in st h) = contents (fst (mm_parent st)))"

lemma snapshots_call:
  assumes "store_model q M contents" "\<forall>\<sigma>. contents (snd (m_createBlankNode M \<sigma>)) = contents \<sigma>"
    and inv: "mm_inv st" and t: "stages st t = Inside c" and s: "snapshots contents st"
  shows "snapshots contents (mm_call M t c st)"
proof -
  obtain r \<sigma> where r: "call (filter_model M) c (mm_parent st) = (r, \<sigma>)" by (cases "call (filter_model M) c (mm_parent st)")
  show ?thesis
  proof (cases "writes c")
    case True
    then have "openIterators st = []" using call_alone(1)[OF inv t] by (simp add: writes_def)
    then show ?thesis using r by (auto simp: mm_call_def Let_def snapshots_def)
  next
    case False
    then have "contents (fst \<sigma>) = contents (fst (mm_parent st))" using call_contents[OF assms(1,2), of c "mm_parent st"] r by simp
    moreover have "handles st \<notin> set (openIterators st)" using inv by (auto simp: mm_inv_def)
    ultimately show ?thesis using s r by (auto simp: mm_call_def Let_def snapshots_def)
  qed
qed

lemma snapshots_step:
  assumes "store_model q M contents" "\<forall>\<sigma>. contents (snd (m_createBlankNode M \<sigma>)) = contents \<sigma>"
  shows "mm_step M st st' \<Longrightarrow> mm_inv st \<Longrightarrow> snapshots contents st \<Longrightarrow>
    snapshots contents st' \<and> is_read_write (protection st') = is_read_write (protection st)"
proof (induction rule: mm_step.induct)
  case (begin_call st t c)
  then show ?case by (cases "protection st") (auto simp: mm_begin_def snapshots_def)
next
  case (go_on st t c)
  then show ?case by (cases "protection st") (auto simp: snapshots_def)
next
  case (enter st t c)
  then show ?case by (simp add: snapshots_def)
next
  case (in_parent st t c)
  then show ?case using snapshots_call[OF assms, of st t c] by (auto simp: mm_call_def Let_def split: prod.splits)
next
  case (leave st t b w)
  then show ?case by (cases "protection st") (auto simp: mm_leave_def snapshots_def)
next
  case (close_iterator st t h)
  then show ?case by (auto simp: mm_closeIterator_def snapshots_def)
qed

lemma mm_reach_all:
  assumes "store_model q M contents" "\<forall>\<sigma>. contents (snd (m_createBlankNode M \<sigma>)) = contents \<sigma>"
    and "mode = plain_mode \<or> mode = read_write_mode"
  shows "mm_reach M (new_mutexed mode \<sigma> t0) st \<Longrightarrow>
    mm_inv st \<and> snapshots contents st \<and> is_read_write (protection st) = is_read_write mode"
proof (induction rule: mm_reach.induct)
  case start
  then show ?case using assms(3) mm_inv_new by (auto simp: snapshots_def new_mutexed_def)
next
  case (step st st')
  then show ?case using snapshots_step[OF assms(1,2)] mm_inv_step by blast
qed

text \<open>Claim C3: the mutex model protects its parent. In every reachable state of any number of threads, a thread that is
  in a writing call of the parent is the only one in a locked call and no iterator is open; in the plain
  mode this holds for every locked call; and an open iterator reads the statements the store had when
  it was opened.\<close>

theorem mutex_model_protects:
  assumes "store_model q M contents" "\<forall>\<sigma>. contents (snd (m_createBlankNode M \<sigma>)) = contents \<sigma>"
    and "mode = plain_mode \<or> mode = read_write_mode" "mm_reach M (new_mutexed mode \<sigma> t0) st"
  shows "(stages st t = Inside c \<and> locked c \<and> (writes c \<or> mode = plain_mode) \<longrightarrow>
       openIterators st = [] \<and> (\<forall>u d. u \<noteq> t \<and> stages st u = Inside d \<longrightarrow> \<not> locked d)) \<and>
    (\<forall>h\<in>set (openIterators st). contents (opened_in st h) = contents (fst (mm_parent st)))"
proof -
  have r: "mm_inv st" "snapshots contents st" "is_read_write (protection st) = is_read_write mode"
    using mm_reach_all[OF assms] by blast+
  have "openIterators st = [] \<and> (\<forall>u d. u \<noteq> t \<and> stages st u = Inside d \<longrightarrow> \<not> locked d)"
    if c: "stages st t = Inside c" "locked c" "writes c \<or> mode = plain_mode"
  proof -
    have w: "is_read_write (protection st) \<Longrightarrow> writes c" using c(3) r(3) by (auto simp: plain_mode_def)
    then show ?thesis using call_alone[OF r(1) c(1,2) w] by blast
  qed
  then show ?thesis using r(2) by (simp add: snapshots_def)
qed

section \<open>Examples\<close>

abbreviation "example_store \<equiv> memory_model plain_qt (\<lambda>_ _. None)"

lemma reach_call:
  assumes r: "mm_reach M st0 st" and t: "stages st t = Idle" "writes c \<Longrightarrow> own_iterators st t = 0"
    and got: "locked c \<Longrightarrow> \<not> asleep (protection (mm_begin t c st)) t"
  shows "mm_reach M st0 (if locked c then set_stage t (Inside c) (mm_begin t c st) else mm_begin t c st)"
proof (cases "locked c")
  case True
  have "mm_reach M st0 (mm_begin t c st)" by (rule mm_reach.step[OF r mm_step.begin_call[OF t]])
  moreover have "stages (mm_begin t c st) t = Locking c" using True by (simp add: mm_begin_def)
  ultimately have "mm_reach M st0 (set_stage t (Inside c) (mm_begin t c st))"
    by (rule mm_reach.step[OF _ mm_step.enter]) (rule got[OF True])
  then show ?thesis using True by simp
next
  case False
  then show ?thesis using mm_reach.step[OF r mm_step.begin_call[OF t]] by simp
qed

definition adding :: "(graph \<times> error, nat) mutexed" where
  "adding = set_stage 0 (Inside (CAdd empty_statement)) (mm_begin 0 (CAdd empty_statement) (new_mutexed read_write_mode ([], NoError) 0))"

lemma adding_fields:
  "stages adding 0 = Inside (CAdd empty_statement)" "stages adding (Suc n) = Idle" "writes (CAdd empty_statement)" "locked (CAdd empty_statement)"
  by (simp_all add: adding_def set_stage_def mm_begin_def new_mutexed_def writes_def locked_def)

lemma adding_reached: "mm_reach example_store (new_mutexed read_write_mode ([], NoError) 0) adding"
proof -
  let ?st = "new_mutexed read_write_mode ([], NoError) 0 :: (graph \<times> error, nat) mutexed"
  have "stages ?st 0 = Idle" "own_iterators ?st 0 = 0" "\<not> asleep (protection (mm_begin 0 (CAdd empty_statement) ?st)) 0"
    by (simp_all add: new_mutexed_def own_iterators_def mm_begin_def writes_def locked_def read_write_mode_def lock_defs rw_init_def set_stage_def)
  then show ?thesis
    using reach_call[OF mm_reach.start[of example_store ?st], of 0 "CAdd empty_statement"] by (simp add: adding_def adding_fields)
qed

theorem mutex_model_protects_witness:
  "openIterators adding = [] \<and> \<not> (\<exists>u d. u \<noteq> 0 \<and> stages adding u = Inside d \<and> locked d)"
proof -
  have blank: "\<forall>\<sigma>. fst (snd (m_createBlankNode example_store \<sigma>)) = fst \<sigma>" by (auto simp: memory_model_def)
  have mode: "read_write_mode = plain_mode \<or> read_write_mode = read_write_mode" by simp
  show ?thesis
    using mutex_model_protects[OF memory.store_model_axioms blank mode adding_reached, of 0 "CAdd empty_statement"]
    unfolding adding_fields(1) using adding_fields(3,4) by iprover
qed

section \<open>What is not protected\<close>

text \<open>createBlankNode enters the parent while another thread is in addStatement.\<close>

lemma createBlankNode_unprotected:
  "\<exists>st. mm_reach example_store (new_mutexed read_write_mode ([], NoError) (0::nat)) st \<and>
     stages st 0 = Inside (CAdd empty_statement) \<and> stages st 1 = Inside CCreateBlank"
proof -
  have "mm_reach example_store (new_mutexed read_write_mode ([], NoError) 0) (mm_begin 1 CCreateBlank adding)"
    using reach_call[OF adding_reached, of 1 CCreateBlank] adding_fields(2)[of 0] by (simp add: locked_def writes_def)
  then show ?thesis using adding_fields(1) by (intro exI[of _ "mm_begin 1 CCreateBlank adding"]) (simp add: mm_begin_def locked_def)
qed

text \<open>Two readers are in listings at the same time, and both go on to append to the list of open iterators,
  which no lock of its own guards.\<close>

lemma open_iterators_unguarded:
  "\<exists>st. mm_reach example_store (new_mutexed read_write_mode ([], NoError) (0::nat)) st \<and>
     stages st 0 = Inside CContexts \<and> stages st 1 = Inside CContexts"
proof -
  let ?st0 = "new_mutexed read_write_mode ([], NoError) 0 :: (graph \<times> error, nat) mutexed"
  let ?st1 = "set_stage 0 (Inside CContexts) (mm_begin 0 CContexts ?st0)"
  let ?st2 = "set_stage 1 (Inside CContexts) (mm_begin 1 CContexts ?st1)"
  have l: "locked CContexts" "\<not> writes CContexts" by (simp_all add: locked_def writes_def)
  note defs = new_mutexed_def mm_begin_def l read_write_mode_def lock_defs rw_init_def set_stage_def
  have "mm_reach example_store ?st0 ?st1"
    using reach_call[OF mm_reach.start[of example_store ?st0], of 0 CContexts] l by (simp add: defs)
  then have "mm_reach example_store ?st0 ?st2"
    using reach_call[of example_store ?st0 ?st1 1 CContexts] l by (simp add: defs)
  moreover have "stages ?st2 0 = Inside CContexts" "stages ?st2 1 = Inside CContexts" by (simp_all add: defs)
  ultimately show ?thesis by blast
qed

end
