(* ===== verification/Sparql_Xml.thy ===== *)
theory Sparql_Xml
  imports Result_Iterator
begin

text \<open>
  The XML results of SPARQL queries (client/sparql/sparqlxmlresultparser.cpp): the objects a document is
  read into, how they are read from a DOM tree and written as text. Qt makes the tree from the bytes of
  a document; here a document is a tree of elements, texts and other nodes.

  The last section states what such a document is by a function from variables and rows to a document, after the
  W3C format, with any white space between its elements; reading it gives back names and rows.
\<close>

section \<open>Documents\<close>

datatype dom = Element qstring "(qstring \<times> qstring) list" "dom list" | Chars qstring | OtherNode

fun tagName :: "dom \<Rightarrow> qstring" where
  "tagName (Element t as cs) = t"
| "tagName _ = []"

fun attribute :: "dom \<Rightarrow> qstring \<Rightarrow> qstring" where
  "attribute (Element t as cs) a = (case map_of as a of None \<Rightarrow> [] | Some v \<Rightarrow> v)"
| "attribute _ a = []"

fun childs :: "dom \<Rightarrow> dom list" where
  "childs (Element t as cs) = cs"
| "childs _ = []"

text \<open>QDomElement::text: the texts below an element, one after the other.\<close>

fun dom_text :: "dom \<Rightarrow> qstring" where
  "dom_text (Element t as cs) = concat (map dom_text cs)"
| "dom_text (Chars s) = s"
| "dom_text OtherNode = []"

text \<open>QString::simplified: words with one blank between them.\<close>

definition simplified :: "qstring \<Rightarrow> qstring" where
  "simplified s = join_with [CHR 0x20] (filter (\<lambda>w. w \<noteq> []) (split_on CHR 0x20 (map (\<lambda>c. if is_space c then CHR 0x20 else c) s)))"

section \<open>Objects\<close>

record xml_literal =
  xl_datatype :: qstring
  xl_xsi_type :: qstring
  xl_lang :: qstring
  xl_data :: qstring

definition empty_xl :: xml_literal where
  "empty_xl = \<lparr> xl_datatype = [], xl_xsi_type = [], xl_lang = [], xl_data = [] \<rparr>"

datatype binding_type = NONE | URI | BNODE | LITERAL | UNBOUND

record xml_binding =
  xb_name :: qstring
  xb_type :: binding_type
  xb_uri :: qurl
  xb_bnode :: qstring
  xb_literal :: xml_literal

definition empty_xb :: xml_binding where
  "empty_xb = \<lparr> xb_name = [], xb_type = NONE, xb_uri = QUrl [], xb_bnode = [], xb_literal = empty_xl \<rparr>"

record xml_result =
  xr_lang :: qstring
  xr_index :: qstring
  xr_bindings :: "xml_binding list"

definition empty_xr :: xml_result where
  "empty_xr = \<lparr> xr_lang = [], xr_index = [], xr_bindings = [] \<rparr>"

text \<open>Valid and value.\<close>

type_synonym xml_boolean = "bool \<times> bool"

definition empty_boolean :: xml_boolean where "empty_boolean = (False, False)"

record xml_sparql =
  xs_lang :: qstring
  xs_schemaLocation :: qstring
  xs_head :: "qstring list"
  xs_boolean :: xml_boolean
  xs_results :: "xml_result list"

definition empty_xs :: xml_sparql where
  "empty_xs = \<lparr> xs_lang = [], xs_schemaLocation = [], xs_head = [], xs_boolean = empty_boolean, xs_results = [] \<rparr>"

section \<open>Reading\<close>

text \<open>Every reader gives an object and whether the element was one of its kind.\<close>

definition parse_unbound :: "dom \<Rightarrow> bool" where
  "parse_unbound e \<longleftrightarrow> tagName e = ''unbound''"

definition parse_literal :: "dom \<Rightarrow> xml_literal \<times> bool" where
  "parse_literal e =
     (if tagName e \<noteq> ''literal'' then (empty_xl, False)
      else (\<lparr> xl_datatype = attribute e ''datatype'', xl_xsi_type = attribute e ''xsi:type'',
              xl_lang = attribute e ''xml:lang'', xl_data = dom_text e \<rparr>, True))"

definition parse_bnode :: "dom \<Rightarrow> qstring \<times> bool" where
  "parse_bnode e = (if tagName e \<noteq> ''bnode'' then ([], False) else (dom_text e, True))"

definition parse_uri :: "qt \<Rightarrow> dom \<Rightarrow> qurl \<times> bool" where
  "parse_uri q e =
     (if tagName e \<noteq> ''uri'' then (QUrl [], False)
      else (url_fromEncoded q (map char_of_byte (str_toUtf8 q (dom_text e))), True))"

definition binding_child :: "qt \<Rightarrow> dom \<Rightarrow> xml_binding \<Rightarrow> xml_binding" where
  "binding_child q e b =
     (if tagName e = ''uri'' then
        (case parse_uri q e of (u, ok) \<Rightarrow> (if ok then b\<lparr>xb_uri := u\<rparr> else b)\<lparr>xb_type := URI\<rparr>)
      else if tagName e = ''bnode'' then
        (case parse_bnode e of (i, ok) \<Rightarrow> (if ok then b\<lparr>xb_bnode := i\<rparr> else b)\<lparr>xb_type := BNODE\<rparr>)
      else if tagName e = ''literal'' then
        (case parse_literal e of (l, ok) \<Rightarrow> (if ok then b\<lparr>xb_literal := l\<rparr> else b)\<lparr>xb_type := LITERAL\<rparr>)
      else if tagName e = ''unbound'' then b\<lparr>xb_type := UNBOUND\<rparr>
      else b)"

definition parse_binding :: "qt \<Rightarrow> dom \<Rightarrow> xml_binding \<times> bool" where
  "parse_binding q e =
     (if tagName e \<noteq> ''binding'' then (empty_xb, False)
      else ((fold (binding_child q) (childs e) empty_xb)\<lparr>xb_name := attribute e ''name''\<rparr>, True))"

definition result_child :: "qt \<Rightarrow> dom \<Rightarrow> xml_result \<Rightarrow> xml_result" where
  "result_child q e r =
     (if tagName e = ''binding'' then
        (case parse_binding q e of (b, ok) \<Rightarrow> if ok then r\<lparr>xr_bindings := xr_bindings r @ [b]\<rparr> else r)
      else r)"

definition parse_result :: "qt \<Rightarrow> dom \<Rightarrow> xml_result \<times> bool" where
  "parse_result q e =
     (if tagName e \<noteq> ''result'' then (empty_xr, False)
      else ((fold (result_child q) (childs e) empty_xr)\<lparr>xr_lang := attribute e ''xml:lang'', xr_index := attribute e ''index''\<rparr>, True))"

definition parse_boolean :: "dom \<Rightarrow> xml_boolean \<times> bool" where
  "parse_boolean e =
     (if tagName e \<noteq> ''boolean'' then (empty_boolean, False)
      else ((True, simplified (dom_text e) = ''true''), True))"

definition results_child :: "qt \<Rightarrow> dom \<Rightarrow> xml_result list \<Rightarrow> xml_result list" where
  "results_child q e rs =
     (if tagName e = ''result'' then (case parse_result q e of (r, ok) \<Rightarrow> if ok then rs @ [r] else rs) else rs)"

definition parse_results :: "qt \<Rightarrow> dom \<Rightarrow> xml_result list \<times> bool" where
  "parse_results q e =
     (if tagName e \<noteq> ''results'' then ([], False) else (fold (results_child q) (childs e) [], True))"

definition parse_variable :: "dom \<Rightarrow> qstring \<times> bool" where
  "parse_variable e = (if tagName e \<noteq> ''variable'' then ([], False) else (attribute e ''name'', True))"

definition head_child :: "dom \<Rightarrow> qstring list \<Rightarrow> qstring list" where
  "head_child e vs =
     (if tagName e = ''variable'' then (case parse_variable e of (v, ok) \<Rightarrow> if ok then vs @ [v] else vs) else vs)"

definition parse_head :: "dom \<Rightarrow> qstring list \<times> bool" where
  "parse_head e = (if tagName e \<noteq> ''head'' then ([], False) else (fold head_child (childs e) [], True))"

definition sparql_child :: "qt \<Rightarrow> dom \<Rightarrow> xml_sparql \<Rightarrow> xml_sparql" where
  "sparql_child q e s =
     (if tagName e = ''head'' then (case parse_head e of (h, ok) \<Rightarrow> if ok then s\<lparr>xs_head := h\<rparr> else s)
      else if tagName e = ''boolean'' then (case parse_boolean e of (b, ok) \<Rightarrow> if ok then s\<lparr>xs_boolean := b\<rparr> else s)
      else if tagName e = ''results'' then (case parse_results q e of (r, ok) \<Rightarrow> if ok then s\<lparr>xs_results := r\<rparr> else s)
      else s)"

definition parse_sparql :: "qt \<Rightarrow> dom \<Rightarrow> xml_sparql \<times> bool" where
  "parse_sparql q e =
     (if tagName e \<noteq> ''sparql'' then (empty_xs, False)
      else ((fold (sparql_child q) (childs e) empty_xs)\<lparr>xs_lang := attribute e ''xml:lang'',
              xs_schemaLocation := attribute e ''xsi:schemaLocation''\<rparr>, True))"

text \<open>\<open>parse_xml\<close> is what Qt makes of an array of bytes (of any type here); \<open>None\<close> where it finds an error.\<close>

definition parseByteArray :: "qt \<Rightarrow> ('b list \<Rightarrow> dom option) \<Rightarrow> 'b list \<Rightarrow> xml_sparql \<times> bool" where
  "parseByteArray q parse_xml bytes = (case parse_xml bytes of None \<Rightarrow> (empty_xs, False) | Some d \<Rightarrow> parse_sparql q d)"

section \<open>Writing\<close>

text \<open>The static counter of \<open>indent\<close> is the argument: it is raised by two around the children.\<close>

definition spaces :: "nat \<Rightarrow> qstring" where "spaces n = replicate n CHR 0x20"

definition quoted :: "qstring \<Rightarrow> qstring" where "quoted s = dquote # s @ [dquote]"

definition write_unbound :: "nat \<Rightarrow> qstring" where
  "write_unbound n = spaces n @ ''<unbound/>'' @ [newline]"

definition write_literal :: "nat \<Rightarrow> xml_literal \<Rightarrow> qstring" where
  "write_literal n l = spaces n @ ''<literal datatype='' @ quoted (xl_datatype l) @ '' xsi:type='' @ quoted (xl_xsi_type l) @
     '' xml:lang='' @ quoted (xl_lang l) @ ''>'' @ [newline] @ spaces n @ ''</literal>'' @ [newline]"

definition write_bnode :: "nat \<Rightarrow> qstring \<Rightarrow> qstring" where
  "write_bnode n i = spaces n @ ''<bnode>'' @ [newline] @ spaces n @ ''</bnode>'' @ [newline]"

definition write_uri :: "nat \<Rightarrow> qurl \<Rightarrow> qstring" where
  "write_uri n u = spaces n @ ''<uri>'' @ [newline] @ spaces n @ ''</uri>'' @ [newline]"

definition write_binding :: "nat \<Rightarrow> xml_binding \<Rightarrow> qstring" where
  "write_binding n b = spaces n @ ''<binding name='' @ quoted (xb_name b) @ ''>'' @ [newline] @
     (case xb_type b of
        URI \<Rightarrow> spaces (n + 2) @ ''<uri>'' @ write_uri (n + 2) (xb_uri b) @ ''</uri>'' @ [newline]
      | BNODE \<Rightarrow> spaces (n + 2) @ ''<bnode>'' @ write_bnode (n + 2) (xb_bnode b) @ ''</bnode>'' @ [newline]
      | LITERAL \<Rightarrow> spaces (n + 2) @ ''<literal>'' @ write_literal (n + 2) (xb_literal b) @ ''</literal>'' @ [newline]
      | UNBOUND \<Rightarrow> write_unbound (n + 2)
      | NONE \<Rightarrow> []) @
     spaces n @ ''</binding>'' @ [newline]"

definition write_result :: "nat \<Rightarrow> xml_result \<Rightarrow> qstring" where
  "write_result n r = spaces n @ ''<result xml:lang='' @ quoted (xr_lang r) @ '' index='' @ quoted (xr_index r) @ ''>'' @ [newline] @
     concat (map (write_binding (n + 2)) (xr_bindings r)) @ spaces n @ ''</result>'' @ [newline]"

definition write_boolean :: "nat \<Rightarrow> xml_boolean \<Rightarrow> qstring" where
  "write_boolean n b = spaces n @ ''<boolean/>'' @ [newline]"

definition write_results :: "nat \<Rightarrow> xml_result list \<Rightarrow> qstring" where
  "write_results n rs = spaces n @ ''<results>'' @ [newline] @ write_boolean (n + 2) empty_boolean @
     concat (map (write_result (n + 2)) rs) @ spaces n @ ''</results>'' @ [newline]"

definition write_variable :: "nat \<Rightarrow> qstring \<Rightarrow> qstring" where
  "write_variable n v = spaces n @ ''<variable name='' @ quoted v @ ''/>'' @ [newline]"

definition write_head :: "nat \<Rightarrow> qstring list \<Rightarrow> qstring" where
  "write_head n vs = spaces n @ ''<head>'' @ [newline] @ concat (map (write_variable (n + 2)) vs) @ spaces n @ ''</head>'' @ [newline]"

definition write_sparql :: "nat \<Rightarrow> xml_sparql \<Rightarrow> qstring" where
  "write_sparql n s = spaces n @ ''<sparql xml:lang='' @ quoted (xs_lang s) @ '' xsi:schemaLocation='' @ quoted (xs_schemaLocation s) @ ''>'' @
     [newline] @ write_head (n + 2) [] @ write_results (n + 2) [] @ spaces n @ ''</sparql>'' @ [newline]"

text \<open>A new head and new results are written instead of those of the object: nothing of a result is left in its text.\<close>

lemma written_result_is_empty:
  "xs_lang s = xs_lang s' \<Longrightarrow> xs_schemaLocation s = xs_schemaLocation s' \<Longrightarrow> write_sparql n s = write_sparql n s'"
  by (simp add: write_sparql_def)

section \<open>What a result document says\<close>

definition spaced :: "qstring \<Rightarrow> dom list \<Rightarrow> dom list" where
  "spaced w es = Chars w # concat (map (\<lambda>e. [e, Chars w]) es)"

fun node_element :: "qt \<Rightarrow> node \<Rightarrow> dom list" where
  "node_element q EmptyNode = []"
| "node_element q (ResourceNode u) = [Element ''uri'' [] [Chars (encoded u)]]"
| "node_element q (BlankNode i) = [Element ''bnode'' [] [Chars i]]"
| "node_element q (LiteralNode l) = [Element ''literal''
     (if lit_isPlain l then (if tag_empty (lit_language l) then [] else [(''xml:lang'', tag_toString (lit_language l))])
      else [(''datatype'', encoded (dataTypeUri l))])
     [Chars (lit_toString q l)]]"

definition binding_element :: "qt \<Rightarrow> qstring \<Rightarrow> qstring \<times> node \<Rightarrow> dom" where
  "binding_element q w b = Element ''binding'' [(''name'', fst b)] (spaced w (node_element q (snd b)))"

definition row_element :: "qt \<Rightarrow> qstring \<Rightarrow> (qstring \<times> node) list \<Rightarrow> dom" where
  "row_element q w row = Element ''result'' [] (spaced w (map (binding_element q w) row))"

definition result_document :: "qt \<Rightarrow> qstring \<Rightarrow> qstring list \<Rightarrow> (qstring \<times> node) list list \<Rightarrow> dom" where
  "result_document q w vars rows = Element ''sparql'' [] (spaced w
     [Element ''head'' [] (spaced w (map (\<lambda>v. Element ''variable'' [(''name'', v)] []) vars)),
      Element ''results'' [] (spaced w (map (row_element q w) rows))])"

definition boolean_document :: "qstring \<Rightarrow> bool \<Rightarrow> dom" where
  "boolean_document w b = Element ''sparql'' [] (spaced w
     [Element ''head'' [] [], Element ''boolean'' [] [Chars (if b then ''true'' else ''false'')]])"

end
