(* ===== verification/Sparql_Result.thy ===== *)
theory Sparql_Result
  imports Sparql_Xml
begin

text \<open>
  The iterator over an XML result (client/sparql/sparqlqueryresult.cpp, with the row a backend builds from
  its columns, soprano/queryresultiteratorbackend.cpp), and the property that it delivers the rows of the
  document it was read from.
\<close>

section \<open>Nodes\<close>

definition literalToNode :: "qt \<Rightarrow> xml_literal \<Rightarrow> node" where
  "literalToNode q l =
     (if xl_datatype l = [] then node_of_literal (createPlainLiteral (xl_data l) (tag_of_string (xl_lang l)))
      else node_of_literal (fromString_uri q (xl_data l) (url_parse q (xl_datatype l))))"

definition bindingToNode :: "qt \<Rightarrow> xml_binding \<Rightarrow> node" where
  "bindingToNode q b =
     (if xb_type b = URI then node_of_url (xb_uri b)
      else if xb_type b = BNODE then node_of_id (xb_bnode b)
      else literalToNode q (xb_literal b))"

section \<open>The iterator\<close>

record sparql_result =
  m_result :: xml_sparql
  m_bindingNames :: "qstring list"
  m_currentResultIndex :: int
  sr_error :: error

definition new_sparql_result :: "xml_sparql \<Rightarrow> sparql_result" where
  "new_sparql_result r = \<lparr> m_result = r, m_bindingNames = xs_head r, m_currentResultIndex = - 1, sr_error = NoError \<rparr>"

definition sr_isBool :: "sparql_result \<Rightarrow> bool" where "sr_isBool r \<longleftrightarrow> fst (xs_boolean (m_result r))"
definition sr_isBinding :: "sparql_result \<Rightarrow> bool" where "sr_isBinding r \<longleftrightarrow> \<not> sr_isBool r"
definition sr_isGraph :: "sparql_result \<Rightarrow> bool" where "sr_isGraph r \<longleftrightarrow> False"
definition sr_boolValue :: "sparql_result \<Rightarrow> bool" where "sr_boolValue r \<longleftrightarrow> snd (xs_boolean (m_result r))"

definition sr_next :: "sparql_result \<Rightarrow> bool \<times> sparql_result" where
  "sr_next r =
     (if sr_isBinding r then
        (let r = r\<lparr>m_currentResultIndex := m_currentResultIndex r + 1\<rparr>
         in (m_currentResultIndex r < int (length (xs_results (m_result r))), r))
      else (False, r))"

definition sr_bindingCount :: "sparql_result \<Rightarrow> nat" where "sr_bindingCount r = length (m_bindingNames r)"

definition sr_binding_name :: "qt \<Rightarrow> qstring \<Rightarrow> sparql_result \<Rightarrow> node \<times> sparql_result" where
  "sr_binding_name q name r =
     (let i = m_currentResultIndex r; rows = xs_results (m_result r)
      in if i \<noteq> - 1 \<and> i < int (length rows) then
           (case find (\<lambda>b. xb_name b = name) (xr_bindings (rows ! nat i)) of
              Some b \<Rightarrow> (bindingToNode q b, r)
            | None \<Rightarrow> (EmptyNode,
                if name \<notin> set (m_bindingNames r)
                then r\<lparr>sr_error := mk_error (''Invalid binding name: '' @ name) (error_code_num ErrorInvalidArgument)\<rparr> else r))
         else (EmptyNode, r\<lparr>sr_error := mk_error ''Invalid iterator.'' (error_code_num ErrorUnknown)\<rparr>))"

definition sr_binding_at :: "qt \<Rightarrow> int \<Rightarrow> sparql_result \<Rightarrow> node \<times> sparql_result" where
  "sr_binding_at q offset r =
     (if offset \<ge> 0 \<and> offset < int (sr_bindingCount r) then sr_binding_name q (m_bindingNames r ! nat offset) r
      else (EmptyNode, r\<lparr>sr_error := mk_error ''Invalid iterator.'' (error_code_num ErrorUnknown)\<rparr>))"

text \<open>QueryResultIteratorBackend::current.\<close>

definition current_step :: "qt \<Rightarrow> nat \<Rightarrow> binding_set \<times> sparql_result \<Rightarrow> binding_set \<times> sparql_result" where
  "current_step q i st = (case st of (bs, r) \<Rightarrow>
     (case sr_binding_at q (int i) r of (n, r) \<Rightarrow> (bs_insert (m_bindingNames r ! i) n bs, r)))"

definition sr_current :: "qt \<Rightarrow> sparql_result \<Rightarrow> binding_set \<times> sparql_result" where
  "sr_current q r = fold (current_step q) [0..<sr_bindingCount r] (empty_bindings, r)"

definition sparql_backend :: "qt \<Rightarrow> (sparql_result, binding_set) backend" where
  "sparql_backend q = \<lparr> b_next = (\<lambda>r. Some (sr_next r)), b_current = (\<lambda>r. Some (sr_current q r)),
     b_close = Some, b_error = sr_error \<rparr>"

section \<open>Rows\<close>

definition row_value :: "qt \<Rightarrow> xml_result \<Rightarrow> qstring \<Rightarrow> node" where
  "row_value q row v = (case find (\<lambda>b. xb_name b = v) (xr_bindings row) of Some b \<Rightarrow> bindingToNode q b | None \<Rightarrow> EmptyNode)"

definition row_set :: "(qstring \<Rightarrow> node) \<Rightarrow> qstring list \<Rightarrow> binding_set" where
  "row_set f vars = bs_of (map (\<lambda>v. (v, f v)) vars)"

lemma binding_at_row:
  assumes "m_currentResultIndex r = int i" "i < length (xs_results (m_result r))" "j < length (m_bindingNames r)"
  shows "sr_binding_at q (int j) r = (row_value q (xs_results (m_result r) ! i) (m_bindingNames r ! j), r)"
  using assms by (simp add: sr_binding_at_def sr_binding_name_def sr_bindingCount_def row_value_def Let_def split: option.splits)

lemma current_row:
  assumes "m_currentResultIndex r = int i" "i < length (xs_results (m_result r))"
  shows "sr_current q r = (row_set (row_value q (xs_results (m_result r) ! i)) (m_bindingNames r), r)"
proof -
  let ?f = "row_value q (xs_results (m_result r) ! i)" and ?vs = "m_bindingNames r"
  have "fold (current_step q) [0..<n] (empty_bindings, r) = (row_set ?f (take n ?vs), r)" if "n \<le> length ?vs" for n
    using that
  proof (induction n)
    case 0
    then show ?case by (simp add: row_set_def bs_of_def)
  next
    case (Suc n)
    then show ?case using binding_at_row[OF assms, of n q]
      by (simp add: current_step_def row_set_def bs_of_def take_Suc_conv_app_nth)
  qed
  then show ?thesis by (simp add: sr_current_def sr_bindingCount_def)
qed

definition sr_at :: "qt \<Rightarrow> sparql_result \<Rightarrow> binding_set option \<Rightarrow> binding_set list \<Rightarrow> bool" where
  "sr_at q r h xs \<longleftrightarrow> sr_isBinding r \<and>
     (let rows = map (\<lambda>row. row_set (row_value q row) (m_bindingNames r)) (xs_results (m_result r))
      in if m_currentResultIndex r = - 1 then h = None \<and> xs = rows
         else \<exists>i. m_currentResultIndex r = int i \<and> i < length rows \<and> h = Some (rows ! i) \<and> xs = drop (Suc i) rows)"

lemma sr_at_new: "\<not> fst (xs_boolean s) \<Longrightarrow>
    sr_at q (new_sparql_result s) None (map (\<lambda>row. row_set (row_value q row) (xs_head s)) (xs_results s))"
  by (simp add: sr_at_def new_sparql_result_def sr_isBinding_def sr_isBool_def)

lemma sr_at_next:
  assumes "sr_at q r h xs"
  shows "case xs of [] \<Rightarrow> \<exists>r'. sr_next r = (False, r') | x # ys \<Rightarrow> \<exists>r'. sr_next r = (True, r') \<and> sr_at q r' (Some x) ys"
proof -
  let ?rows = "map (\<lambda>row. row_set (row_value q row) (m_bindingNames r)) (xs_results (m_result r))"
  define i where "i = nat (m_currentResultIndex r + 1)"
  let ?r = "r\<lparr>m_currentResultIndex := int i\<rparr>"
  have i: "m_currentResultIndex r + 1 = int i" "xs = drop i ?rows" and b: "sr_isBinding r"
    using assms by (auto simp: sr_at_def Let_def i_def nat_add_distrib split: if_splits)
  have n: "sr_next r = (i < length ?rows, ?r)" using b i(1) by (simp add: sr_next_def Let_def)
  show ?thesis
  proof (cases "i < length ?rows")
    case True
    then have "xs = ?rows ! i # drop (Suc i) ?rows" by (simp only: i(2) Cons_nth_drop_Suc[OF True])
    moreover have "sr_at q ?r (Some (?rows ! i)) (drop (Suc i) ?rows)"
      using b True by (auto simp: sr_at_def sr_isBinding_def sr_isBool_def Let_def)
    ultimately show ?thesis using n True by simp
  next
    case False
    then show ?thesis using n i(2) by simp
  qed
qed

interpretation sparql: delivers "sparql_backend q" "sr_at q" "\<lambda>_. True" "\<lambda>_. True" for q
proof
  fix r h x xs
  assume "sr_at q r h (x # xs)"
  then show "\<exists>r'. b_next (sparql_backend q) r = Some (True, r') \<and> sr_at q r' (Some x) xs"
    using sr_at_next[of q r h "x # xs"] by (auto simp: sparql_backend_def)
next
  fix r h
  assume "sr_at q r h []"
  then show "\<exists>r'. b_next (sparql_backend q) r = Some (False, r') \<and> True"
    using sr_at_next[of q r h "[]"] by (auto simp: sparql_backend_def)
next
  fix r x xs
  assume at: "sr_at q r (Some x) xs"
  then obtain i where i: "m_currentResultIndex r = int i" "i < length (xs_results (m_result r))"
      "x = row_set (row_value q (xs_results (m_result r) ! i)) (m_bindingNames r)"
    by (auto simp: sr_at_def Let_def split: if_splits)
  show "\<exists>r'. b_current (sparql_backend q) r = Some (x, r') \<and> sr_at q r' (Some x) xs"
    using current_row[OF i(1,2)] at i(3) by (simp add: sparql_backend_def)
qed (simp_all add: sparql_backend_def)

section \<open>Documents\<close>

text \<open>Qt's UTF-8 of ASCII text.\<close>

definition qt_ascii_ok :: "qt \<Rightarrow> bool" where
  "qt_ascii_ok q \<longleftrightarrow> (\<forall>s. list_all (\<lambda>c. ccode c < 128) s \<longrightarrow> str_toUtf8 q s = map byte_of_char s)"

text \<open>The nodes a document can show: their text is read as themselves.\<close>

fun literal_shown :: "qt \<Rightarrow> literal_value \<Rightarrow> bool" where
  "literal_shown q NullLiteral = False"
| "literal_shown q (Plain s t) = tag_wf t"
| "literal_shown q (Typed v u) \<longleftrightarrow> lit_wf (Typed v u) \<and> variant_printable q v \<and> \<not> url_isEmpty u \<and> url_parse q (encoded u) = u"

fun node_shown :: "qt \<Rightarrow> node \<Rightarrow> bool" where
  "node_shown q EmptyNode = False"
| "node_shown q (ResourceNode u) \<longleftrightarrow> \<not> url_isEmpty u \<and> list_all (\<lambda>c. ccode c < 128) (encoded u)"
| "node_shown q (BlankNode i) \<longleftrightarrow> i \<noteq> []"
| "node_shown q (LiteralNode l) = literal_shown q l"

lemma fold_spaced: "(\<And>s a. f (Chars s) a = a) \<Longrightarrow> fold f (spaced w es) a = fold f es a"
  by (induction es arbitrary: a) (simp_all add: spaced_def)

lemma fold_snoc: "(\<And>x acc. x \<in> set xs \<Longrightarrow> f (g x) acc = acc @ [h x]) \<Longrightarrow> fold f (map g xs) acc = acc @ map h xs"
  by (induction xs arbitrary: acc) simp_all

lemma child_texts [simp]: "binding_child q (Chars s) b = b" "result_child q (Chars s) r = r" "results_child q (Chars s) rs = rs"
    "head_child (Chars s) vs = vs" "sparql_child q (Chars s) d = d"
  by (simp_all add: binding_child_def result_child_def results_child_def head_child_def sparql_child_def)

lemma element_tags [simp]: "tagName (binding_element q w b) = ''binding''" "tagName (row_element q w row) = ''result''"
  by (simp_all add: binding_element_def row_element_def)

definition shown_binding :: "qt \<Rightarrow> qstring \<Rightarrow> qstring \<times> node \<Rightarrow> xml_binding" where
  "shown_binding q w b = fst (parse_binding q (binding_element q w b))"

lemma parse_binding_element: "parse_binding q (binding_element q w b) = (shown_binding q w b, True)" "xb_name (shown_binding q w b) = fst b"
  by (simp_all add: shown_binding_def binding_element_def parse_binding_def)

lemma shown_literal:
  assumes "qt_date_ok q" "qt_base64_ok q" "literal_shown q l"
  shows "literalToNode q (fst (parse_literal (hd (node_element q (LiteralNode l))))) = LiteralNode l"
proof (cases l)
  case NullLiteral
  then show ?thesis using assms(3) by simp
next
  case (Plain s t)
  then have "tag_of_string (if tag_empty t then [] else tag_toString t) = t"
    using assms(3) tag_of_string_toString[of t] tag_empty_toString[of t] by (simp split: if_splits)
  then show ?thesis using Plain
    by (simp add: parse_literal_def literalToNode_def createPlainLiteral_def node_of_literal_def lit_toString_def lit_isValid_def
        split: if_splits)
next
  case (Typed v u)
  then have u: "dataTypeUri l = u" "encoded u \<noteq> []" "url_parse q (encoded u) = u"
    using assms(3) by (auto simp: url_isEmpty_def)
  have "fromString_uri q (lit_toString q l) u = l"
    using literal_text_roundtrip_core[of q v u] assms Typed u(1) by auto
  then show ?thesis using u Typed assms(3) by (simp add: parse_literal_def literalToNode_def node_of_literal_def lit_isValid_def)
qed

lemma shown_binding_node:
  assumes "qt_ascii_ok q" "qt_url_ok q" "qt_date_ok q" "qt_base64_ok q" "node_shown q n"
  shows "bindingToNode q (shown_binding q w (v, n)) = n"
proof -
  have b: "shown_binding q w (v, n) = (fold (binding_child q) (node_element q n) empty_xb)\<lparr>xb_name := v\<rparr>"
    by (simp add: shown_binding_def parse_binding_def binding_element_def fold_spaced)
  show ?thesis
  proof (cases n)
    case EmptyNode
    then show ?thesis using assms(5) by simp
  next
    case (ResourceNode u)
    then have "url_fromEncoded q (map char_of_byte (str_toUtf8 q (encoded u))) = u"
      using assms by (simp add: qt_ascii_ok_def qt_url_ok_def o_def)
    then show ?thesis unfolding b using assms(5) ResourceNode
      by (simp add: binding_child_def parse_uri_def bindingToNode_def node_of_url_def)
  next
    case (BlankNode i)
    then show ?thesis unfolding b using assms(5) by (simp add: binding_child_def parse_bnode_def bindingToNode_def node_of_id_def)
  next
    case (LiteralNode l)
    then show ?thesis unfolding b using shown_literal[OF assms(3,4), of l] assms(5)
      by (simp add: binding_child_def bindingToNode_def parse_literal_def)
  qed
qed

definition shown_row :: "qt \<Rightarrow> qstring \<Rightarrow> (qstring \<times> node) list \<Rightarrow> xml_result" where
  "shown_row q w row = \<lparr> xr_lang = [], xr_index = [], xr_bindings = map (shown_binding q w) row \<rparr>"

lemma parse_row_element: "parse_result q (row_element q w row) = (shown_row q w row, True)"
proof -
  have "fold (result_child q) (map (binding_element q w) row) r = r\<lparr>xr_bindings := xr_bindings r @ map (shown_binding q w) row\<rparr>" for r
    by (induction row arbitrary: r) (simp_all add: result_child_def parse_binding_element)
  then show ?thesis by (simp add: parse_result_def row_element_def fold_spaced shown_row_def empty_xr_def)
qed

lemma parse_result_document:
  "parse_sparql q (result_document q w vars rows) =
     (empty_xs\<lparr>xs_head := vars, xs_results := map (shown_row q w) rows\<rparr>, True)"
proof -
  have h: "fold head_child (map (\<lambda>v. Element ''variable'' [(''name'', v)] []) vars) vs = vs @ vars" for vs
    using fold_snoc[of vars head_child "\<lambda>v. Element ''variable'' [(''name'', v)] []" "\<lambda>v. v" vs] by (simp add: head_child_def parse_variable_def)
  have r: "fold (results_child q) (map (row_element q w) rows) rs = rs @ map (shown_row q w) rows" for rs
    by (rule fold_snoc) (simp add: results_child_def parse_row_element)
  show ?thesis
    by (simp add: parse_sparql_def result_document_def fold_spaced sparql_child_def parse_head_def parse_results_def h r empty_xs_def)
qed

lemma shown_row_value:
  assumes "qt_ascii_ok q" "qt_url_ok q" "qt_date_ok q" "qt_base64_ok q" "\<forall>b\<in>set row. node_shown q (snd b)"
  shows "row_value q (shown_row q w row) v = (case map_of row v of Some n \<Rightarrow> n | None \<Rightarrow> EmptyNode)"
  using assms(5)
proof (induction row)
  case Nil
  then show ?case by (simp add: row_value_def shown_row_def)
next
  case (Cons b row)
  obtain k n where b: "b = (k, n)" by (cases b)
  show ?case using Cons shown_binding_node[OF assms(1-4), of n w k]
    by (auto simp: row_value_def shown_row_def parse_binding_element b)
qed

text \<open>The rows of a document: the value of each variable of the head, or no node where a row leaves it out.\<close>

definition document_rows :: "qstring list \<Rightarrow> (qstring \<times> node) list list \<Rightarrow> binding_set list" where
  "document_rows vars rows = map (\<lambda>row. row_set (\<lambda>v. case map_of row v of Some n \<Rightarrow> n | None \<Rightarrow> EmptyNode) vars) rows"

lemma read_document:
  assumes "qt_ascii_ok q" "qt_url_ok q" "qt_date_ok q" "qt_base64_ok q" "\<forall>row\<in>set rows. \<forall>b\<in>set row. node_shown q (snd b)"
  shows "sr_at q (new_sparql_result (fst (parse_sparql q (result_document q w vars rows)))) None (document_rows vars rows)"
proof -
  let ?s = "empty_xs\<lparr>xs_head := vars, xs_results := map (shown_row q w) rows\<rparr>"
  have "row_set (row_value q (shown_row q w row)) vars = row_set (\<lambda>v. case map_of row v of Some n \<Rightarrow> n | None \<Rightarrow> EmptyNode) vars"
    if "row \<in> set rows" for row
    using shown_row_value[OF assms(1-4), of row w] assms(5) that by (simp add: row_set_def)
  then have "document_rows vars rows = map (\<lambda>row. row_set (row_value q row) (xs_head ?s)) (xs_results ?s)"
    by (simp add: document_rows_def)
  then show ?thesis using sr_at_new[of ?s q] by (simp add: parse_result_document empty_xs_def empty_boolean_def)
qed


section \<open>Examples and faults\<close>

lemma plain_qt_ascii_ok: "qt_ascii_ok plain_qt"
  by (simp add: qt_ascii_ok_def plain_qt_def)


text \<open>An unbound value becomes the empty literal, which is a valid node.\<close>

lemma unbound_is_empty_literal:
  "bindingToNode q (fst (parse_binding q (Element ''binding'' [(''name'', ''a'')] [Element ''unbound'' [] []]))) =
     node_of_literal (createPlainLiteral [] (tag_of_string []))"
  by (simp add: parse_binding_def binding_child_def bindingToNode_def literalToNode_def empty_xb_def empty_xl_def)

end
