(* ===== verification/Sparql_Model.thy ===== *)
theory Sparql_Model
  imports Sparql_Result Model_Stack
begin

text \<open>
  The model over a SPARQL endpoint (client/sparql/sparqlmodel.cpp, sparqlprotocol.cpp): the texts of its queries, the
  requests under way, and the calls of a model made of them. The network, the XML reader and the parsers of
  graphs are arguments. A type parameter stands for the bytes of a response.
\<close>

section \<open>Texts\<close>

text \<open>The table of datatypes of toN3 goes through.\<close>

definition node_or_variable :: "qt \<Rightarrow> qstring \<Rightarrow> node \<Rightarrow> type_cache \<Rightarrow> qstring \<times> type_cache" where
  "node_or_variable q v n tc = (if node_isValid n then node_toN3 q n tc else (v, tc))"

definition constructGraphPattern :: "qt \<Rightarrow> statement \<Rightarrow> bool \<Rightarrow> type_cache \<Rightarrow> qstring \<times> type_cache" where
  "constructGraphPattern q s withContext tc =
     (case (if withContext then node_or_variable q ''?g'' (context_node s) tc else ([], tc)) of (g, tc) \<Rightarrow>
      (case node_or_variable q ''?s'' (subject s) tc of (a, tc) \<Rightarrow>
      (case node_or_variable q ''?p'' (predicate s) tc of (b, tc) \<Rightarrow>
      (case node_or_variable q ''?o'' (object s) tc of (c, tc) \<Rightarrow>
        ((if withContext then ''graph '' @ g @ '' { '' else []) @ a @ '' '' @ b @ '' '' @ c @ (if withContext then '' }'' else []), tc)))))"

definition contexts_text :: qstring where
  "contexts_text = ''select distinct ?g where { graph ?g {?s ?p ?o}}''"

section \<open>Requests\<close>

text \<open>A reply: the status of HTTP, whether the transport failed, its error text, and the body.\<close>

record 'b reply =
  status :: int
  failed :: bool
  error_text :: qstring
  body :: "'b list"

text \<open>The requests under way. \<open>emitted\<close> are the signals for requests nobody blocks on.\<close>

record 'b protocol =
  m_path :: qstring
  next_request :: int
  sent :: "(int \<times> qstring \<times> qstring) list"
  m_results :: "int \<rightharpoonup> bool"
  m_resultsData :: "int \<rightharpoonup> 'b list"
  m_loops :: "int set"
  p_error :: error
  emitted :: "(int \<times> bool \<times> 'b list) list"

definition new_protocol :: "'b protocol" where
  "new_protocol = \<lparr> m_path = ''/sparql'', next_request = 1, sent = [], m_results = Map.empty, m_resultsData = Map.empty,
     m_loops = {}, p_error = NoError, emitted = [] \<rparr>"

definition sp_setPath :: "qstring \<Rightarrow> 'b protocol \<Rightarrow> 'b protocol" where
  "sp_setPath path st = st\<lparr>m_path := path\<rparr>"

definition sp_query :: "qstring \<Rightarrow> 'b protocol \<Rightarrow> int \<times> 'b protocol" where
  "sp_query text st =
     (let i = next_request st
      in (i, st\<lparr>next_request := i + 1, sent := sent st @ [(i, m_path st, text)], m_resultsData := (m_resultsData st)(i \<mapsto> [])\<rparr>))"

definition respond_error :: "'b reply \<Rightarrow> error" where
  "respond_error r = mk_error (q_arg (q_arg ''Server did respond with %2 (%3)'' (show_int (status r))) (error_text r)) (error_code_num ErrorUnknown)"

definition sp_requestFinished :: "int \<Rightarrow> 'b reply \<Rightarrow> 'b protocol \<Rightarrow> 'b protocol" where
  "sp_requestFinished i r st =
     (if m_resultsData st i \<noteq> None then
        (let st = st\<lparr>m_resultsData := (m_resultsData st)(i \<mapsto> body r)\<rparr>;
             err = failed r \<or> status r \<noteq> 200;
             st = st\<lparr>p_error := if status r \<noteq> 200 then respond_error r else NoError\<rparr>
         in if i \<in> m_loops st then st\<lparr>m_loops := m_loops st - {i}, m_results := (m_results st)(i \<mapsto> err)\<rparr>
            else st\<lparr>emitted := emitted st @ [(i, err, body r)], m_results := (m_results st)(i := None),
                   m_resultsData := (m_resultsData st)(i := None)\<rparr>)
      else st)"

definition sp_waitForRequest :: "int \<Rightarrow> 'b protocol \<Rightarrow> 'b protocol" where
  "sp_waitForRequest i st = st\<lparr>m_loops := insert i (m_loops st)\<rparr>"

text \<open>After the loop: a request with no entry in the results counts as a success.\<close>

definition sp_blockingResult :: "int \<Rightarrow> 'b protocol \<Rightarrow> 'b list \<times> 'b protocol" where
  "sp_blockingResult i st =
     (let data = (if m_results st i = Some True then [] else (case m_resultsData st i of None \<Rightarrow> [] | Some d \<Rightarrow> d))
      in (data, st\<lparr>m_loops := m_loops st - {i}, m_results := (m_results st)(i := None), m_resultsData := (m_resultsData st)(i := None)\<rparr>))"

text \<open>cancel ends the loops. \<open>i\<close> is the request that was running, which QHttp reports as failed.\<close>

definition sp_cancel :: "int option \<Rightarrow> qstring \<Rightarrow> 'b protocol \<Rightarrow> 'b protocol" where
  "sp_cancel i e st =
     (let st = (case i of None \<Rightarrow> st | Some i \<Rightarrow> sp_requestFinished i \<lparr> status = 0, failed = True, error_text = e, body = [] \<rparr> st)
      in st\<lparr>m_loops := {}\<rparr>)"

section \<open>The model\<close>

record ('b, 'w) endpoint =
  answer_to :: "qstring \<Rightarrow> qstring \<Rightarrow> 'w \<Rightarrow> 'b reply \<times> 'w"
  read_xml :: "'b list \<Rightarrow> dom option"
  rdfxml_parser :: "('b list \<Rightarrow> statement list option) option"
  turtle_parser :: "('b list \<Rightarrow> statement list option) option"

datatype sparql_command = QueryCommand | ListStatementsCommand statement | ListContextsCommand

datatype sparql_answer = XmlAnswer sparql_result | GraphAnswer "statement list"

datatype async_result =
    AsyncError error | AsyncQuery "sparql_answer option" | AsyncStatements "statement list option" | AsyncNodes "node list option"

record ('b, 'w) sparql_model =
  client :: "'b protocol"
  commands :: "int \<rightharpoonup> sparql_command"
  async_results :: "(int \<times> async_result) list"
  sm_error :: error
  n3_types :: type_cache
  network :: 'w

definition new_sparql_model :: "'w \<Rightarrow> ('b, 'w) sparql_model" where
  "new_sparql_model w = \<lparr> client = new_protocol, commands = Map.empty, async_results = [], sm_error = NoError,
     n3_types = Map.empty, network = w \<rparr>"

definition blockingQuery :: "('b, 'w) endpoint \<Rightarrow> qstring \<Rightarrow> ('b, 'w) sparql_model \<Rightarrow> 'b list \<times> ('b, 'w) sparql_model" where
  "blockingQuery E text st =
     (case sp_query text (client st) of (i, c) \<Rightarrow>
       (case answer_to E (m_path c) text (network st) of (r, w) \<Rightarrow>
         (case sp_blockingResult i (sp_requestFinished i r (sp_waitForRequest i c)) of (data, c) \<Rightarrow>
           (data, st\<lparr>client := c, network := w\<rparr>))))"

definition sm_setError :: "error \<Rightarrow> ('b, 'w) sparql_model \<Rightarrow> ('b, 'w) sparql_model" where
  "sm_setError e st = st\<lparr>sm_error := kept_error e\<rparr>"

definition sm_pattern :: "qt \<Rightarrow> statement \<Rightarrow> bool \<Rightarrow> ('b, 'w) sparql_model \<Rightarrow> qstring \<times> ('b, 'w) sparql_model" where
  "sm_pattern q s c st = (case constructGraphPattern q s c (n3_types st) of (t, tc) \<Rightarrow> (t, st\<lparr>n3_types := tc\<rparr>))"

definition iteratorFromData :: "qt \<Rightarrow> ('b, 'w) endpoint \<Rightarrow> 'b list \<Rightarrow> sparql_answer option" where
  "iteratorFromData q E data =
     (case parseByteArray q (read_xml E) data of (r, ok) \<Rightarrow>
       if ok then Some (XmlAnswer (new_sparql_result r))
       else (case rdfxml_parser E of
           None \<Rightarrow> None
         | Some parse \<Rightarrow> (case parse data of
             Some ss \<Rightarrow> Some (GraphAnswer ss)
           | None \<Rightarrow> (case turtle_parser E of
               None \<Rightarrow> None
             | Some parse \<Rightarrow> map_option GraphAnswer (parse data)))))"

definition sm_executeQuery :: "qt \<Rightarrow> ('b, 'w) endpoint \<Rightarrow> qstring \<Rightarrow> qstring \<Rightarrow> ('b, 'w) sparql_model \<Rightarrow>
    sparql_answer option \<times> ('b, 'w) sparql_model" where
  "sm_executeQuery q E text language st =
     (if language \<noteq> ''SPARQL'' then
        (None, sm_setError (mk_error (''Unsupported query language: '' @ language) (error_code_num ErrorInvalidArgument)) st)
      else (case blockingQuery E text st of (data, st) \<Rightarrow>
        (let st = sm_setError (p_error (client st)) st
         in if \<not> err_occurred (sm_error st) \<and> data \<noteq> [] then (iteratorFromData q E data, st) else (None, st))))"

text \<open>The columns of an answer as statements or nodes; a graph has no bindings.\<close>

definition column :: "node \<Rightarrow> qstring \<Rightarrow> qstring" where
  "column n v = (if node_isValid n then [] else v)"

definition answer_statements :: "qt \<Rightarrow> statement \<Rightarrow> sparql_answer option \<Rightarrow> statement list option" where
  "answer_statements q p a =
     (let s = column (subject p) ''s''; pr = column (predicate p) ''p''; ob = column (object p) ''o''; g = column (context_node p) ''g''
      in case a of
        None \<Rightarrow> None
      | Some (XmlAnswer r) \<Rightarrow> map_option fst (allElements (constructed (sparql_backend q) p s pr ob g) empty_statement (iterate_result (new_iterator r)))
      | Some (GraphAnswer ss) \<Rightarrow> Some (map (\<lambda>_. fill_template s pr ob g p empty_bindings) ss))"

definition answer_contexts :: "qt \<Rightarrow> sparql_answer option \<Rightarrow> node list option" where
  "answer_contexts q a = (case a of
       None \<Rightarrow> None
     | Some (XmlAnswer r) \<Rightarrow> map_option fst (allElements (bindings_by_name (sparql_backend q) ''g'') EmptyNode (iterate_result (new_iterator r)))
     | Some (GraphAnswer ss) \<Rightarrow> Some (map (\<lambda>_. EmptyNode) ss))"

definition answer_bool :: "sparql_answer option \<Rightarrow> bool" where
  "answer_bool a = (case a of Some (XmlAnswer r) \<Rightarrow> sr_boolValue r | _ \<Rightarrow> False)"

definition invalid_argument :: "qstring \<Rightarrow> error" where
  "invalid_argument m = mk_error m (error_code_num ErrorInvalidArgument)"

text \<open>A request whose response is not read.\<close>

definition sm_update :: "('b, 'w) endpoint \<Rightarrow> qstring \<Rightarrow> ('b, 'w) sparql_model \<Rightarrow> error_code \<times> ('b, 'w) sparql_model" where
  "sm_update E text st = (case blockingQuery E text st of (data, st) \<Rightarrow>
     (convertErrorCode (err_code (p_error (client st))), sm_setError (p_error (client st)) st))"

definition sm_addStatement :: "qt \<Rightarrow> ('b, 'w) endpoint \<Rightarrow> statement \<Rightarrow> ('b, 'w) sparql_model \<Rightarrow> error_code \<times> ('b, 'w) sparql_model" where
  "sm_addStatement q E s st =
     (if \<not> stmt_isValid s then (ErrorInvalidArgument, sm_setError (invalid_argument ''Cannot add invalid statement.'') st)
      else if \<not> node_isValid (context_node s) then
        (ErrorInvalidArgument, sm_setError (invalid_argument ''No support for the default context.'') st)
      else (case sm_pattern q s True st of (t, st) \<Rightarrow> sm_update E (q_arg ''INSERT INTO %1'' t) st))"

definition sm_listContexts :: "qt \<Rightarrow> ('b, 'w) endpoint \<Rightarrow> ('b, 'w) sparql_model \<Rightarrow> node list option \<times> ('b, 'w) sparql_model" where
  "sm_listContexts q E st = (case sm_executeQuery q E contexts_text ''SPARQL'' st of (a, st) \<Rightarrow> (answer_contexts q a, st))"

definition ask :: "qt \<Rightarrow> ('b, 'w) endpoint \<Rightarrow> qstring \<Rightarrow> ('b, 'w) sparql_model \<Rightarrow> bool \<times> ('b, 'w) sparql_model" where
  "ask q E text st = (case sm_executeQuery q E text ''SPARQL'' st of (a, st) \<Rightarrow> (answer_bool a, st))"

definition sm_containsStatement :: "qt \<Rightarrow> ('b, 'w) endpoint \<Rightarrow> statement \<Rightarrow> ('b, 'w) sparql_model \<Rightarrow> bool \<times> ('b, 'w) sparql_model" where
  "sm_containsStatement q E s st =
     (if \<not> stmt_isValid s then (False, sm_setError (invalid_argument ''Cannot call containsStatement on invalid statements'') st)
      else if node_isValid (context_node s) then
        (case sm_pattern q s True st of (t, st) \<Rightarrow> ask q E (q_arg ''ask { %1 }'' t) st)
      else (case sm_pattern q s False st of (t, st) \<Rightarrow> (case sm_pattern q s True st of (g, st) \<Rightarrow>
        ask q E (q_arg (q_arg ''ask { %1 . OPTIONAL { %2 } . FILTER(!bound(?g)) . }'' t) g) st)))"

definition sm_containsAnyStatement :: "qt \<Rightarrow> ('b, 'w) endpoint \<Rightarrow> statement \<Rightarrow> ('b, 'w) sparql_model \<Rightarrow> bool \<times> ('b, 'w) sparql_model" where
  "sm_containsAnyStatement q E s st = (case sm_pattern q s True st of (t, st) \<Rightarrow> ask q E (q_arg ''ask { %1 }'' t) st)"

definition sm_listStatements :: "qt \<Rightarrow> ('b, 'w) endpoint \<Rightarrow> statement \<Rightarrow> ('b, 'w) sparql_model \<Rightarrow> statement list option \<times> ('b, 'w) sparql_model" where
  "sm_listStatements q E p st = (case sm_pattern q p True st of (t, st) \<Rightarrow>
     (case sm_executeQuery q E (q_arg ''select * where { %1 }'' t) ''SPARQL'' st of (a, st) \<Rightarrow> (answer_statements q p a, st)))"

definition sm_removeStatement :: "qt \<Rightarrow> ('b, 'w) endpoint \<Rightarrow> statement \<Rightarrow> ('b, 'w) sparql_model \<Rightarrow> error_code \<times> ('b, 'w) sparql_model" where
  "sm_removeStatement q E s st =
     (if \<not> node_isValid (context_node s) then
        (ErrorInvalidArgument, sm_setError (invalid_argument ''No support for the default context.'') st)
      else (case sm_pattern q s True st of (t, st) \<Rightarrow> sm_update E (q_arg ''delete from %2'' t) st))"

fun sm_remove_loop :: "qt \<Rightarrow> ('b, 'w) endpoint \<Rightarrow> statement list \<Rightarrow> ('b, 'w) sparql_model \<Rightarrow> error_code \<times> ('b, 'w) sparql_model" where
  "sm_remove_loop q E [] st = (ErrorNone, st)"
| "sm_remove_loop q E (s # ss) st = (case sm_removeStatement q E s st of (c, st) \<Rightarrow>
     if c \<noteq> ErrorNone then (c, st) else sm_remove_loop q E ss st)"

definition sm_removeAllStatements :: "qt \<Rightarrow> ('b, 'w) endpoint \<Rightarrow> statement \<Rightarrow> ('b, 'w) sparql_model \<Rightarrow> error_code \<times> ('b, 'w) sparql_model" where
  "sm_removeAllStatements q E p st =
     (if stmt_isValid p \<and> node_isValid (context_node p) then sm_removeStatement q E p st
      else (case sm_listStatements q E p st of (it, st) \<Rightarrow>
        sm_remove_loop q E (case it of None \<Rightarrow> [] | Some ss \<Rightarrow> ss) st))"

definition not_supported :: "qstring \<Rightarrow> error" where
  "not_supported m = mk_error m (error_code_num ErrorNotSupported)"

definition sm_statementCount :: "('b, 'w) sparql_model \<Rightarrow> int \<times> ('b, 'w) sparql_model" where
  "sm_statementCount st = (- 1, sm_setError (not_supported ''No statement count supported.'') st)"

definition sm_isEmpty :: "('b, 'w) sparql_model \<Rightarrow> bool \<times> ('b, 'w) sparql_model" where
  "sm_isEmpty st = (False, sm_setError (not_supported ''No isEmpty support.'') st)"

definition sm_createBlankNode :: "('b, 'w) sparql_model \<Rightarrow> node \<times> ('b, 'w) sparql_model" where
  "sm_createBlankNode st = (EmptyNode, sm_setError (not_supported ''Creating blank nodes not supported.'') st)"

section \<open>Asynchronous requests\<close>

definition sm_request :: "sparql_command \<Rightarrow> qstring \<Rightarrow> ('b, 'w) sparql_model \<Rightarrow> ('b, 'w) sparql_model" where
  "sm_request c text st = (case sp_query text (client st) of (i, cl) \<Rightarrow>
     st\<lparr>client := cl, commands := (commands st)(i \<mapsto> c)\<rparr>)"

text \<open>The language is not looked at.\<close>

definition executeQueryAsync :: "qstring \<Rightarrow> qstring \<Rightarrow> ('b, 'w) sparql_model \<Rightarrow> ('b, 'w) sparql_model" where
  "executeQueryAsync text language st = sm_request QueryCommand text st"

definition listStatementsAsync :: "qt \<Rightarrow> statement \<Rightarrow> ('b, 'w) sparql_model \<Rightarrow> ('b, 'w) sparql_model" where
  "listStatementsAsync q p st = (case sm_pattern q p True st of (t, st) \<Rightarrow>
     sm_request (ListStatementsCommand p) (q_arg ''select * where { %1 }'' t) st)"

definition listContextsAsync :: "('b, 'w) sparql_model \<Rightarrow> ('b, 'w) sparql_model" where
  "listContextsAsync st = sm_request ListContextsCommand contexts_text st"

fun command_result :: "qt \<Rightarrow> ('b, 'w) endpoint \<Rightarrow> sparql_command \<Rightarrow> 'b list \<Rightarrow> async_result" where
  "command_result q E QueryCommand data = AsyncQuery (iteratorFromData q E data)"
| "command_result q E (ListStatementsCommand p) data = AsyncStatements (answer_statements q p (iteratorFromData q E data))"
| "command_result q E ListContextsCommand data = AsyncNodes (answer_contexts q (iteratorFromData q E data))"

definition slotRequestFinished :: "qt \<Rightarrow> ('b, 'w) endpoint \<Rightarrow> int \<Rightarrow> bool \<Rightarrow> 'b list \<Rightarrow> ('b, 'w) sparql_model \<Rightarrow> ('b, 'w) sparql_model" where
  "slotRequestFinished q E i err data st = (case commands st i of
       None \<Rightarrow> st
     | Some c \<Rightarrow> st\<lparr>async_results := async_results st @
           [(i, if err then AsyncError (p_error (client st)) else command_result q E c data)],
         commands := (commands st)(i := None)\<rparr>)"

text \<open>A reply from the network: the signal the protocol emits runs the slot of the model.\<close>

definition deliver_reply :: "qt \<Rightarrow> ('b, 'w) endpoint \<Rightarrow> int \<Rightarrow> 'b reply \<Rightarrow> ('b, 'w) sparql_model \<Rightarrow> ('b, 'w) sparql_model" where
  "deliver_reply q E i r st =
     (let c = sp_requestFinished i r (client st); new = drop (length (emitted (client st))) (emitted c)
      in fold (\<lambda>(i, err, data). slotRequestFinished q E i err data) new (st\<lparr>client := c\<rparr>))"

end
