(* ===== verification/Sparql_Store.thy ===== *)
theory Sparql_Store
  imports Sparql_Model
begin

text \<open>
  The SPARQL model against the store behind its endpoint. The locale \<open>sparql_endpoint\<close> says what the endpoint owes:
  the answers to the texts the model sends, for the statements of the named graphs, matched term by term. An
  endpoint over a store in memory satisfies it. The calls of the model then are operations of the store.
\<close>

section \<open>The contract of an endpoint\<close>

definition pattern_text :: "qt \<Rightarrow> statement \<Rightarrow> qstring" where
  "pattern_text q p = fst (constructGraphPattern q p True Map.empty)"

definition select_text :: "qt \<Rightarrow> statement \<Rightarrow> qstring" where
  "select_text q p = q_arg ''select * where { %1 }'' (pattern_text q p)"

definition ask_text :: "qt \<Rightarrow> statement \<Rightarrow> qstring" where
  "ask_text q p = q_arg ''ask { %1 }'' (pattern_text q p)"

definition insert_text :: "qt \<Rightarrow> statement \<Rightarrow> qstring" where
  "insert_text q s = q_arg ''INSERT INTO %1'' (pattern_text q s)"

definition delete_text :: "qt \<Rightarrow> statement \<Rightarrow> qstring" where
  "delete_text q s = q_arg ''delete from %2'' (pattern_text q s)"

text \<open>A statement of a named graph with the terms of the pattern.\<close>

definition fits :: "node \<Rightarrow> node \<Rightarrow> bool" where
  "fits p n \<longleftrightarrow> node_isValid p \<longrightarrow> n = p"

definition answers :: "statement \<Rightarrow> statement \<Rightarrow> bool" where
  "answers p s \<longleftrightarrow> node_isValid (context_node s) \<and> fits (subject p) (subject s) \<and> fits (predicate p) (predicate s) \<and>
     fits (object p) (object s) \<and> fits (context_node p) (context_node s)"

definition binding_of :: "node \<Rightarrow> qstring \<Rightarrow> node \<Rightarrow> (qstring \<times> node) list" where
  "binding_of p v n = (if node_isValid p then [] else [(v, n)])"

definition select_row :: "statement \<Rightarrow> statement \<Rightarrow> (qstring \<times> node) list" where
  "select_row p s = binding_of (context_node p) ''g'' (context_node s) @ binding_of (subject p) ''s'' (subject s) @
     binding_of (predicate p) ''p'' (predicate s) @ binding_of (object p) ''o'' (object s)"

definition select_vars :: "statement \<Rightarrow> qstring list" where
  "select_vars p = map fst (select_row p empty_statement)"

definition fine :: "'b reply \<Rightarrow> bool" where
  "fine r \<longleftrightarrow> status r = 200 \<and> \<not> failed r"

locale sparql_endpoint =
  fixes q :: qt and E :: "('b, 'w) endpoint" and contents :: "'w \<Rightarrow> graph" and known :: "statement set"
  assumes select_answer: "p \<in> known \<Longrightarrow> \<exists>r w' sp. answer_to E path (select_text q p) w = (r, w') \<and> fine r \<and> body r \<noteq> [] \<and>
      contents w' = contents w \<and>
      read_xml E (body r) = Some (result_document q sp (select_vars p) (map (select_row p) (filter (answers p) (contents w))))"
    and ask_answer: "p \<in> known \<Longrightarrow> \<exists>r w' sp. answer_to E path (ask_text q p) w = (r, w') \<and> fine r \<and> body r \<noteq> [] \<and>
      contents w' = contents w \<and> read_xml E (body r) = Some (boolean_document sp (list_ex (answers p) (contents w)))"
    and insert_answer: "s \<in> known \<Longrightarrow> stmt_isValid s \<Longrightarrow> node_isValid (context_node s) \<Longrightarrow>
      \<exists>r w'. answer_to E path (insert_text q s) w = (r, w') \<and> fine r \<and> contents w' = graph_addStatement q s (contents w)"
    and delete_answer: "s \<in> known \<Longrightarrow> node_isValid (context_node s) \<Longrightarrow>
      \<exists>r w'. answer_to E path (delete_text q s) w = (r, w') \<and> fine r \<and> contents w' = graph_removeStatement q s (contents w)"

section \<open>Requests\<close>

lemma blocking_fine:
  assumes "answer_to E (m_path (client st)) text (network st) = (r, w)" "fine r"
  shows "\<exists>c. blockingQuery E text st = (body r, st\<lparr>client := c, network := w\<rparr>) \<and> p_error c = NoError \<and>
    m_path c = m_path (client st)"
  using assms
  by (intro exI[of _ "client (snd (blockingQuery E text st))"])
     (simp add: blockingQuery_def sp_query_def sp_waitForRequest_def sp_requestFinished_def sp_blockingResult_def fine_def Let_def)

text \<open>A reply with another status is an error of the call, whatever its body is.\<close>

lemma blocking_refused:
  assumes "answer_to E (m_path (client st)) text (network st) = (r, w)" "status r \<noteq> 200"
  shows "\<exists>c. blockingQuery E text st = ([], st\<lparr>client := c, network := w\<rparr>) \<and> p_error c = respond_error r"
  using assms
  by (intro exI[of _ "client (snd (blockingQuery E text st))"])
     (simp add: blockingQuery_def sp_query_def sp_waitForRequest_def sp_requestFinished_def sp_blockingResult_def Let_def)

lemma no_error_kept [simp]: "kept_error NoError = NoError" "\<not> err_occurred NoError"
  by (simp_all add: kept_error_def err_occurred_def)

lemma executeQuery_fine:
  assumes "answer_to E (m_path (client st)) text (network st) = (r, w)" "fine r" "body r \<noteq> []"
  shows "\<exists>c. sm_executeQuery q E text ''SPARQL'' st =
      (iteratorFromData q E (body r), st\<lparr>client := c, network := w, sm_error := NoError\<rparr>) \<and> m_path c = m_path (client st)"
  using blocking_fine[OF assms(1,2)] assms(3) by (auto simp: sm_executeQuery_def sm_setError_def Let_def)

lemma update_fine:
  assumes "answer_to E (m_path (client st)) text (network st) = (r, w)" "fine r"
  shows "\<exists>c. sm_update E text st = (ErrorNone, st\<lparr>client := c, network := w, sm_error := NoError\<rparr>) \<and> m_path c = m_path (client st)"
proof -
  have "convertErrorCode (err_code NoError) = ErrorNone" by (simp add: convertErrorCode_def)
  then show ?thesis using blocking_fine[OF assms] by (auto simp: sm_update_def sm_setError_def)
qed

section \<open>Answers\<close>

lemma value_of_bs_of: "value_of (bs_of xs) v = (case map_of (rev xs) v of Some n \<Rightarrow> n | None \<Rightarrow> EmptyNode)"
proof -
  have "value_of (bs_of xs) v = (case bs_lookup (bs_of xs) v of Some n \<Rightarrow> n | None \<Rightarrow> EmptyNode)"
    by (simp add: bs_lookup_def bs_contains_def value_of_def split: option.splits)
  then show ?thesis by (simp add: bs_of_lookup)
qed

lemma select_row_filled:
  assumes "answers p s"
  shows "fill_template (column (subject p) ''s'') (column (predicate p) ''p'') (column (object p) ''o'') (column (context_node p) ''g'') p
     (row_set (\<lambda>v. case map_of (select_row p s) v of Some n \<Rightarrow> n | None \<Rightarrow> EmptyNode) (select_vars p)) = s"
proof -
  have v: "select_vars p = column_names" if "column_names = (if node_isValid (context_node p) then [] else [''g'']) @
      (if node_isValid (subject p) then [] else [''s'']) @ (if node_isValid (predicate p) then [] else [''p'']) @
      (if node_isValid (object p) then [] else [''o''])" for column_names
    using that by (simp add: select_vars_def select_row_def binding_of_def)
  show ?thesis
    unfolding v[OF refl] using assms
    by (cases "node_isValid (context_node p)"; cases "node_isValid (subject p)"; cases "node_isValid (predicate p)"; cases "node_isValid (object p)")
       (simp_all add: fill_template_def column_def row_set_def value_of_bs_of select_row_def binding_of_def answers_def fits_def
          setContext_def setSubject_def setPredicate_def setObject_def Let_def)
qed

lemma answer_statements_document:
  assumes "qt_ascii_ok q" "qt_url_ok q" "qt_date_ok q" "qt_base64_ok q"
    and "read_xml E b = Some (result_document q sp (select_vars p) (map (select_row p) ss))"
    and "\<forall>s\<in>set ss. answers p s \<and> (\<forall>n\<in>{subject s, predicate s, object s, context_node s}. node_shown q n)"
  shows "answer_statements q p (iteratorFromData q E b) = Some ss"
proof -
  let ?r = "new_sparql_result (fst (parse_sparql q (result_document q sp (select_vars p) (map (select_row p) ss))))"
  let ?f = "fill_template (column (subject p) ''s'') (column (predicate p) ''p'') (column (object p) ''o'') (column (context_node p) ''g'') p"
  have it: "iteratorFromData q E b = Some (XmlAnswer ?r)" by (simp add: iteratorFromData_def parseByteArray_def assms(5) parse_result_document)
  have shown: "\<forall>row\<in>set (map (select_row p) ss). \<forall>b\<in>set row. node_shown q (snd b)"
    using assms(6) by (auto simp: select_row_def binding_of_def split: if_splits)
  have at: "sr_at q ?r None (document_rows (select_vars p) (map (select_row p) ss))" by (rule read_document[OF assms(1-4) shown])
  have "map ?f (document_rows (select_vars p) (map (select_row p) ss)) = ss"
    using assms(6) by (auto simp: document_rows_def select_row_filled intro: map_idI)
  then show ?thesis
    using adapter_all[where d = empty_statement and e = NoError, OF query_adapter[where f = ?f and d = "?f empty_bindings", OF sparql.delivers_axioms] at]
    by (auto simp: it answer_statements_def constructed_def iterate_result_def it_isValid_def new_iterator_def Let_def)
qed

lemma answer_bool_document: "read_xml E b = Some (boolean_document sp v) \<Longrightarrow> answer_bool (iteratorFromData q E b) = v"
proof -
  assume r: "read_xml E b = Some (boolean_document sp v)"
  have "simplified ''true'' = ''true''" "simplified ''false'' = ''false''" by code_simp+
  then show ?thesis
    by (simp add: iteratorFromData_def parseByteArray_def r boolean_document_def parse_sparql_def fold_spaced sparql_child_def parse_head_def
        parse_boolean_def empty_xs_def answer_bool_def sr_boolValue_def new_sparql_result_def)
qed

section \<open>Calls\<close>

definition same_types :: "qt \<Rightarrow> statement \<Rightarrow> ('b, 'w) sparql_model \<Rightarrow> bool" where
  "same_types q p st \<longleftrightarrow> fst (constructGraphPattern q p True (n3_types st)) = pattern_text q p"

lemma pattern_sent: "same_types q p st \<Longrightarrow> \<exists>tc. sm_pattern q p True st = (pattern_text q p, st\<lparr>n3_types := tc\<rparr>)"
  by (cases "constructGraphPattern q p True (n3_types st)") (auto simp: same_types_def sm_pattern_def)

definition store_shown :: "qt \<Rightarrow> graph \<Rightarrow> bool" where
  "store_shown q g \<longleftrightarrow> (\<forall>s\<in>set g. node_isValid (context_node s) \<longrightarrow>
     (\<forall>n\<in>{subject s, predicate s, object s, context_node s}. node_shown q n))"

context sparql_endpoint
begin

lemma list_answers:
  assumes "qt_ascii_ok q" "qt_url_ok q" "qt_date_ok q" "qt_base64_ok q" "p \<in> known" "same_types q p st" "store_shown q (contents (network st))"
  shows "\<exists>st'. sm_listStatements q E p st = (Some (filter (answers p) (contents (network st))), st') \<and> sm_error st' = NoError \<and>
    contents (network st') = contents (network st)"
proof -
  obtain tc where tc: "sm_pattern q p True st = (pattern_text q p, st\<lparr>n3_types := tc\<rparr>)" using pattern_sent[OF assms(6)] by blast
  obtain r w sp where r: "answer_to E (m_path (client st)) (select_text q p) (network st) = (r, w)" "fine r" "body r \<noteq> []"
      "contents w = contents (network st)"
      "read_xml E (body r) = Some (result_document q sp (select_vars p) (map (select_row p) (filter (answers p) (contents (network st)))))"
    using select_answer[OF assms(5)] by blast
  obtain c where c: "sm_executeQuery q E (select_text q p) ''SPARQL'' (st\<lparr>n3_types := tc\<rparr>) =
      (iteratorFromData q E (body r), st\<lparr>n3_types := tc, client := c, network := w, sm_error := NoError\<rparr>)"
    using executeQuery_fine[of E "st\<lparr>n3_types := tc\<rparr>" "select_text q p" r w q] r(1-3) by auto
  have "answer_statements q p (iteratorFromData q E (body r)) = Some (filter (answers p) (contents (network st)))"
    using assms(7) by (intro answer_statements_document[OF assms(1-4) r(5)]) (auto simp: store_shown_def answers_def)
  then show ?thesis using r(4) c by (simp add: sm_listStatements_def tc select_text_def)
qed

lemma ask_answers:
  assumes "p \<in> known" "same_types q p st"
  shows "\<exists>st'. sm_containsAnyStatement q E p st = (list_ex (answers p) (contents (network st)), st') \<and> sm_error st' = NoError \<and>
    contents (network st') = contents (network st)"
proof -
  obtain tc where tc: "sm_pattern q p True st = (pattern_text q p, st\<lparr>n3_types := tc\<rparr>)" using pattern_sent[OF assms(2)] by blast
  obtain r w sp where r: "answer_to E (m_path (client st)) (ask_text q p) (network st) = (r, w)" "fine r" "body r \<noteq> []"
      "contents w = contents (network st)" "read_xml E (body r) = Some (boolean_document sp (list_ex (answers p) (contents (network st))))"
    using ask_answer[OF assms(1)] by blast
  obtain c where "sm_executeQuery q E (ask_text q p) ''SPARQL'' (st\<lparr>n3_types := tc\<rparr>) =
      (iteratorFromData q E (body r), st\<lparr>n3_types := tc, client := c, network := w, sm_error := NoError\<rparr>)"
    using executeQuery_fine[of E "st\<lparr>n3_types := tc\<rparr>" "ask_text q p" r w q] r(1-3) by auto
  then show ?thesis using r(4) answer_bool_document[OF r(5)] by (simp add: sm_containsAnyStatement_def ask_def tc ask_text_def)
qed

lemma contains_any: "stmt_isValid p \<Longrightarrow> node_isValid (context_node p) \<Longrightarrow> sm_containsStatement q E p st = sm_containsAnyStatement q E p st"
  by (simp add: sm_containsStatement_def sm_containsAnyStatement_def)

lemma add_stores:
  assumes "p \<in> known" "same_types q p st" "stmt_isValid p" "node_isValid (context_node p)"
  shows "\<exists>st'. sm_addStatement q E p st = (ErrorNone, st') \<and> sm_error st' = NoError \<and>
    contents (network st') = graph_addStatement q p (contents (network st))"
proof -
  obtain tc where tc: "sm_pattern q p True st = (pattern_text q p, st\<lparr>n3_types := tc\<rparr>)" using pattern_sent[OF assms(2)] by blast
  obtain r w where r: "answer_to E (m_path (client st)) (insert_text q p) (network st) = (r, w)" "fine r"
      "contents w = graph_addStatement q p (contents (network st))"
    using insert_answer[OF assms(1,3,4)] by blast
  show ?thesis
    using update_fine[of E "st\<lparr>n3_types := tc\<rparr>" "insert_text q p" r w] r assms(3,4)
    by (auto simp: sm_addStatement_def tc insert_text_def)
qed

lemma remove_removes:
  assumes "p \<in> known" "same_types q p st" "node_isValid (context_node p)"
  shows "\<exists>st'. sm_removeStatement q E p st = (ErrorNone, st') \<and> sm_error st' = NoError \<and>
    contents (network st') = graph_removeStatement q p (contents (network st))"
proof -
  obtain tc where tc: "sm_pattern q p True st = (pattern_text q p, st\<lparr>n3_types := tc\<rparr>)" using pattern_sent[OF assms(2)] by blast
  obtain r w where r: "answer_to E (m_path (client st)) (delete_text q p) (network st) = (r, w)" "fine r"
      "contents w = graph_removeStatement q p (contents (network st))"
    using delete_answer[OF assms(1,3)] by blast
  show ?thesis
    using update_fine[of E "st\<lparr>n3_types := tc\<rparr>" "delete_text q p" r w] r assms(3)
    by (auto simp: sm_removeStatement_def tc delete_text_def)
qed

end

section \<open>An endpoint over a store in memory\<close>

definition ok_reply :: "'b list \<Rightarrow> 'b reply" where
  "ok_reply b = \<lparr> status = 200, failed = False, error_text = [], body = b \<rparr>"

definition memory_answer :: "qt \<Rightarrow> statement list \<Rightarrow> qstring \<Rightarrow> graph \<Rightarrow> dom reply \<times> graph" where
  "memory_answer q ps text g =
     (case find (\<lambda>p. select_text q p = text) ps of
        Some p \<Rightarrow> (ok_reply [result_document q [] (select_vars p) (map (select_row p) (filter (answers p) g))], g)
      | None \<Rightarrow> (case find (\<lambda>p. ask_text q p = text) ps of
          Some p \<Rightarrow> (ok_reply [boolean_document [] (list_ex (answers p) g)], g)
        | None \<Rightarrow> (case find (\<lambda>p. insert_text q p = text) ps of
            Some p \<Rightarrow> (ok_reply [], graph_addStatement q p g)
          | None \<Rightarrow> (case find (\<lambda>p. delete_text q p = text) ps of
              Some p \<Rightarrow> (ok_reply [], graph_removeStatement q p g)
            | None \<Rightarrow> (\<lparr> status = 400, failed = False, error_text = [], body = [] \<rparr>, g)))))"

definition memory_endpoint :: "qt \<Rightarrow> statement list \<Rightarrow> (dom, graph) endpoint" where
  "memory_endpoint q ps = \<lparr> answer_to = (\<lambda>path. memory_answer q ps),
     read_xml = (\<lambda>b. case b of [d] \<Rightarrow> Some d | _ \<Rightarrow> None), rdfxml_parser = None, turtle_parser = None \<rparr>"

text \<open>The statements that are told apart by the texts of their patterns.\<close>

definition known_patterns :: "qt \<Rightarrow> statement list \<Rightarrow> statement set" where
  "known_patterns q ps = {p \<in> set ps. \<forall>p'\<in>set ps. pattern_text q p' = pattern_text q p \<longrightarrow> p' = p}"

lemma texts:
  "select_text q p = ''select * where { '' @ pattern_text q p @ '' }''" "ask_text q p = ''ask { '' @ pattern_text q p @ '' }''"
  "insert_text q p = ''INSERT INTO '' @ pattern_text q p" "delete_text q p = ''delete from '' @ pattern_text q p"
proof -
  have "pieces ''select * where { %1 }'' = map Chr ''select * where { '' @ [Marker 1 ''%1''] @ map Chr '' }''"
    "pieces ''ask { %1 }'' = map Chr ''ask { '' @ [Marker 1 ''%1''] @ map Chr '' }''"
    "pieces ''INSERT INTO %1'' = map Chr ''INSERT INTO '' @ [Marker 1 ''%1'']"
    "pieces ''delete from %2'' = map Chr ''delete from '' @ [Marker 2 ''%2'']" by code_simp+
  then show "select_text q p = ''select * where { '' @ pattern_text q p @ '' }''" "ask_text q p = ''ask { '' @ pattern_text q p @ '' }''"
    "insert_text q p = ''INSERT INTO '' @ pattern_text q p" "delete_text q p = ''delete from '' @ pattern_text q p"
    by (simp_all add: select_text_def ask_text_def insert_text_def delete_text_def q_arg_def)
qed

lemma find_known: "p \<in> known_patterns q ps \<Longrightarrow> (\<And>p'. f p' = f p \<longleftrightarrow> pattern_text q p' = pattern_text q p) \<Longrightarrow> find (\<lambda>p'. f p' = f p) ps = Some p"
  by (induction ps) (auto simp: known_patterns_def)

lemma find_False: "find (\<lambda>p. False) ps = None"
  by (simp add: find_None_iff)

lemma text_kinds: "select_text q a \<noteq> ask_text q b" "select_text q a \<noteq> insert_text q b" "select_text q a \<noteq> delete_text q b"
    "ask_text q a \<noteq> insert_text q b" "ask_text q a \<noteq> delete_text q b" "insert_text q a \<noteq> delete_text q b"
  by (simp_all add: texts)

interpretation memory_sparql: sparql_endpoint q "memory_endpoint q ps" "\<lambda>g. g" "known_patterns q ps" for q ps
proof
  fix p path w assume p: "p \<in> known_patterns q ps"
  note [simp] = memory_endpoint_def memory_answer_def ok_reply_def fine_def
  have f: "find (\<lambda>p'. select_text q p' = select_text q p) ps = Some p" by (rule find_known[OF p]) (simp add: texts)
  show "\<exists>r w' sp. answer_to (memory_endpoint q ps) path (select_text q p) w = (r, w') \<and> fine r \<and> body r \<noteq> [] \<and> w' = w \<and>
      read_xml (memory_endpoint q ps) (body r) = Some (result_document q sp (select_vars p) (map (select_row p) (filter (answers p) w)))"
    by (auto simp: f)
  have f: "find (\<lambda>p'. ask_text q p' = ask_text q p) ps = Some p" by (rule find_known[OF p]) (simp add: texts)
  show "\<exists>r w' sp. answer_to (memory_endpoint q ps) path (ask_text q p) w = (r, w') \<and> fine r \<and> body r \<noteq> [] \<and> w' = w \<and>
      read_xml (memory_endpoint q ps) (body r) = Some (boolean_document sp (list_ex (answers p) w))"
    by (auto simp: f find_False text_kinds text_kinds[symmetric])
  have f: "find (\<lambda>p'. insert_text q p' = insert_text q p) ps = Some p" by (rule find_known[OF p]) (simp add: texts)
  show "\<exists>r w'. answer_to (memory_endpoint q ps) path (insert_text q p) w = (r, w') \<and> fine r \<and> w' = graph_addStatement q p w"
    by (auto simp: f find_False text_kinds text_kinds[symmetric])
  have f: "find (\<lambda>p'. delete_text q p' = delete_text q p) ps = Some p" by (rule find_known[OF p]) (simp add: texts)
  show "\<exists>r w'. answer_to (memory_endpoint q ps) path (delete_text q p) w = (r, w') \<and> fine r \<and> w' = graph_removeStatement q p w"
    by (auto simp: f find_False text_kinds text_kinds[symmetric])
qed

section \<open>The model is the store behind the endpoint\<close>


definition sparql_example :: statement where
  "sparql_example = mk_statement (ResourceNode (QUrl ''a'')) (ResourceNode (QUrl ''p'')) (LiteralNode (lit_string ''v'')) (ResourceNode (QUrl ''g''))"


section \<open>Faults\<close>

text \<open>The text of a statement without context is put together by two replacements; a percent sign in its first part is taken for the
  place of the second.\<close>

lemma percent_corrupts_ask:
  "q_arg (q_arg ''ask { %1 . OPTIONAL { %2 } . FILTER(!bound(?g)) . }'' ''<a%2Fb> <p> ?o'') ''graph ?g { x }''
     = ''ask { <agraph ?g { x }Fb> <p> ?o . OPTIONAL { graph ?g { x } } . FILTER(!bound(?g)) . }''"
  by code_simp

end
