(* ===== verification/Sparql_Async.thy ===== *)
theory Sparql_Async
  imports Sparql_Model
begin

text \<open>
  Asynchronous requests of the SPARQL model: requests and replies in any order. Every request is answered
  at most once, by the reply to it, and replies to anything else change no result.
\<close>

datatype 'b sparql_event = AskQuery qstring qstring | AskStatements statement | AskContexts | Reply int "'b reply"

fun async_event :: "qt \<Rightarrow> ('b, 'w) endpoint \<Rightarrow> 'b sparql_event \<Rightarrow> ('b, 'w) sparql_model \<Rightarrow> ('b, 'w) sparql_model" where
  "async_event q E (AskQuery t l) st = executeQueryAsync t l st"
| "async_event q E (AskStatements p) st = listStatementsAsync q p st"
| "async_event q E AskContexts st = listContextsAsync st"
| "async_event q E (Reply i r) st = deliver_reply q E i r st"

text \<open>The requests sent are those under way and those with a result.\<close>

definition answered :: "('b, 'w) sparql_model \<Rightarrow> int list" where
  "answered st = map fst (async_results st)"

definition pending_ok :: "('b, 'w) sparql_model \<Rightarrow> bool" where
  "pending_ok st \<longleftrightarrow> m_loops (client st) = {} \<and> dom (m_resultsData (client st)) = dom (commands st) \<and>
     distinct (answered st) \<and> dom (commands st) \<inter> set (answered st) = {} \<and>
     dom (commands st) \<union> set (answered st) = {0<..<next_request (client st)} \<and> 0 < next_request (client st)"

lemma pending_new: "pending_ok (new_sparql_model w)"
  by (auto simp: pending_ok_def new_sparql_model_def new_protocol_def answered_def)

lemma pending_request:
  assumes "pending_ok st"
  shows "pending_ok (sm_request c t st)"
proof -
  let ?i = "next_request (client st)"
  have i: "{0<..<?i + 1} = insert ?i {0<..<?i}" using assms by (auto simp: pending_ok_def)
  have all: "dom (commands st) \<union> set (answered st) = {0<..<?i}" using assms by (simp add: pending_ok_def)
  then have "?i \<notin> set (answered st)" by auto
  then show ?thesis
    using assms all by (simp add: pending_ok_def sm_request_def sp_query_def answered_def Let_def i)
qed

lemma pending_types: "pending_ok st \<Longrightarrow> pending_ok (st\<lparr>n3_types := tc\<rparr>)"
  by (simp add: pending_ok_def answered_def)

text \<open>The result of a reply to a request under way.\<close>

definition reply_result :: "qt \<Rightarrow> ('b, 'w) endpoint \<Rightarrow> sparql_command \<Rightarrow> 'b reply \<Rightarrow> async_result" where
  "reply_result q E c r =
     (if status r \<noteq> 200 then AsyncError (respond_error r)
      else if failed r then AsyncError NoError else command_result q E c (body r))"

lemma reply_pending:
  assumes "pending_ok st" "commands st i = Some c"
  shows "async_results (deliver_reply q E i r st) = async_results st @ [(i, reply_result q E c r)]"
    "commands (deliver_reply q E i r st) = (commands st)(i := None)"
    "m_resultsData (client (deliver_reply q E i r st)) = (m_resultsData (client st))(i := None)"
    "m_loops (client (deliver_reply q E i r st)) = {}" "next_request (client (deliver_reply q E i r st)) = next_request (client st)"
proof -
  have "i \<in> dom (m_resultsData (client st))" "m_loops (client st) = {}" using assms by (auto simp: pending_ok_def)
  then obtain d where "m_resultsData (client st) i = Some d" "m_loops (client st) = {}" by blast
  then show "async_results (deliver_reply q E i r st) = async_results st @ [(i, reply_result q E c r)]"
    "commands (deliver_reply q E i r st) = (commands st)(i := None)"
    "m_resultsData (client (deliver_reply q E i r st)) = (m_resultsData (client st))(i := None)"
    "m_loops (client (deliver_reply q E i r st)) = {}" "next_request (client (deliver_reply q E i r st)) = next_request (client st)"
    using assms(2) by (auto simp: deliver_reply_def sp_requestFinished_def slotRequestFinished_def reply_result_def Let_def)
qed

lemma reply_other: "pending_ok st \<Longrightarrow> commands st i = None \<Longrightarrow> deliver_reply q E i r st = st"
proof -
  assume p: "pending_ok st" and i: "commands st i = None"
  then have "i \<notin> dom (m_resultsData (client st))" unfolding pending_ok_def by blast
  then have "m_resultsData (client st) i = None" by blast
  then show ?thesis by (simp add: deliver_reply_def sp_requestFinished_def Let_def)
qed

lemma pending_reply:
  assumes "pending_ok st"
  shows "pending_ok (deliver_reply q E i r st)"
proof (cases "commands st i")
  case None
  then show ?thesis using assms reply_other by metis
next
  case (Some c)
  have "i \<in> dom (commands st)" using Some by blast
  moreover have "i \<notin> set (answered st)" using assms Some unfolding pending_ok_def by blast
  ultimately show ?thesis using assms unfolding pending_ok_def answered_def reply_pending[OF assms Some] by auto
qed

lemma pending_event: "pending_ok st \<Longrightarrow> pending_ok (async_event q E e st)"
  by (cases e) (simp_all add: executeQueryAsync_def listStatementsAsync_def listContextsAsync_def sm_pattern_def pending_request
      pending_types pending_reply split: prod.splits)

lemma pending_run: "pending_ok st \<Longrightarrow> pending_ok (fold (async_event q E) es st)"
  by (induction es arbitrary: st) (simp_all add: pending_event)

text \<open>Claim C32: an asynchronous request is answered once. After any sequence of requests and replies no request has two results,
  every request sent is either under way or has a result; the reply to a request under way appends the result of this request
  made of this reply, and a reply to anything else changes nothing.\<close>

theorem sparql_async_once:
  "let st = fold (async_event q E) es (new_sparql_model w) in
     distinct (map fst (async_results st)) \<and>
     (0 < i \<and> i < next_request (client st) \<longrightarrow> (commands st i \<noteq> None) \<noteq> (i \<in> fst ` set (async_results st))) \<and>
     (case commands st i of
        None \<Rightarrow> deliver_reply q E i r st = st
      | Some c \<Rightarrow> async_results (deliver_reply q E i r st) = async_results st @ [(i, reply_result q E c r)])"
proof -
  define st where "st = fold (async_event q E) es (new_sparql_model w)"
  have p: "pending_ok st" unfolding st_def by (rule pending_run[OF pending_new])
  have "distinct (answered st)" "dom (commands st) \<inter> set (answered st) = {}"
    "dom (commands st) \<union> set (answered st) = {0<..<next_request (client st)}"
    using p by (simp_all add: pending_ok_def)
  then have "(commands st i \<noteq> None) \<noteq> (i \<in> fst ` set (async_results st))" if "0 < i \<and> i < next_request (client st)"
    using that by (auto simp: answered_def set_eq_iff)
  then show ?thesis
    unfolding Let_def st_def[symmetric] using \<open>distinct (answered st)\<close> reply_pending(1)[OF p] reply_other[OF p]
    by (simp add: answered_def split: option.splits)
qed

definition async_example :: "byte sparql_event list" where
  "async_example = [AskQuery ''ask {}'' ''SPARQL'', AskContexts, Reply 2 \<lparr> status = 404, failed = False, error_text = [], body = [] \<rparr>]"

definition no_endpoint :: "(byte, unit) endpoint" where
  "no_endpoint = \<lparr> answer_to = (\<lambda>path t w. (\<lparr> status = 404, failed = False, error_text = [], body = [] \<rparr>, w)), read_xml = (\<lambda>_. None),
     rdfxml_parser = None, turtle_parser = None \<rparr>"

theorem sparql_async_once_witness:
  "(let st = fold (async_event plain_qt no_endpoint) async_example (new_sparql_model ()) in
     map fst (async_results st) = [2] \<and> commands st 1 = Some QueryCommand \<and> 1 \<notin> fst ` set (async_results st))"
proof -
  let ?st = "fold (async_event plain_qt no_endpoint) async_example (new_sparql_model ())"
  have "commands ?st 1 = Some QueryCommand" "map fst (async_results ?st) = [2]" "next_request (client ?st) = 3"
    by (simp_all add: async_example_def executeQueryAsync_def listContextsAsync_def sm_request_def sp_query_def new_sparql_model_def
        new_protocol_def deliver_reply_def sp_requestFinished_def slotRequestFinished_def Let_def)
  then show ?thesis
    using sparql_async_once[where i = 1 and q = plain_qt and E = no_endpoint and es = async_example and w = "()"] by (simp add: Let_def)
qed

text \<open>The asynchronous call sends a query of another language as SPARQL; the synchronous one refuses it.\<close>

lemma language_not_checked:
  "fst (sm_executeQuery q E t ''SERQL'' st) = None \<and> sent (client (executeQueryAsync t ''SERQL'' st)) = sent (client st) @
     [(next_request (client st), m_path (client st), t)]"
  by (simp add: sm_executeQuery_def executeQueryAsync_def sm_request_def sp_query_def Let_def)

end
