(* ===== verification/Clucene_Doc.thy ===== *)
theory Clucene_Doc
  imports Model_Stack "HOL-Library.Multiset"
begin

text \<open>
  The documents of the full text index (index/clucenedocumentwrapper.cpp, cluceneutils.cpp): a resource is a document, its
  properties are fields of it, and the texts of its literals are the fields the default search looks at.

  CLucene is a library of its own: the record \<open>clucene\<close> holds the functions the index calls, over documents,
  parsed queries and the state of the library (the directory and what is open on it). A call that may throw
  returns a sum. The locale \<open>lucene_document\<close> says what a document is: a multiset of fields.
\<close>

section \<open>The library\<close>

text \<open>The way a field is indexed; all of it is stored or not.\<close>

datatype index_mode = NotIndexed | Tokenized | Untokenized

record lucene_field =
  field_name :: qstring
  stringValue :: qstring
  field_stored :: bool
  field_mode :: index_mode

definition isIndexed :: "lucene_field \<Rightarrow> bool" where
  "isIndexed f \<longleftrightarrow> field_mode f \<noteq> NotIndexed"

text \<open>CLuceneError: its number and text.\<close>

type_synonym lucene_error = "int \<times> qstring"
type_synonym ('l, 'a) lucene_call = "'l \<Rightarrow> (lucene_error + 'a) \<times> 'l"

record ('d, 'q, 'l) clucene =
  doc_new :: 'd
  doc_add :: "lucene_field \<Rightarrow> 'd \<Rightarrow> 'd"
  doc_getValues :: "qstring \<Rightarrow> 'd \<Rightarrow> qstring list option"
  doc_removeFields :: "qstring \<Rightarrow> 'd \<Rightarrow> 'd"
  doc_get :: "qstring \<Rightarrow> 'd \<Rightarrow> qstring option"
  doc_fields :: "'d \<Rightarrow> lucene_field list"
  indexExists :: "'l \<Rightarrow> bool"
  isLocked :: "'l \<Rightarrow> bool"
  unlock_directory :: "'l \<Rightarrow> 'l"
  getDirectory :: "qstring \<Rightarrow> bool \<Rightarrow> ('l, bool) lucene_call"
  open_reader :: "('l, unit) lucene_call"
  close_reader :: "('l, unit) lucene_call"
  open_writer :: "bool \<Rightarrow> ('l, unit) lucene_call"
  close_writer :: "('l, unit) lucene_call"
  open_searcher :: "('l, unit) lucene_call"
  close_searcher :: "('l, unit) lucene_call"
  termDocs :: "qstring \<Rightarrow> qstring \<Rightarrow> ('l, nat list) lucene_call"
  document :: "nat \<Rightarrow> ('l, 'd) lucene_call"
  deleteDocuments :: "qstring \<Rightarrow> qstring \<Rightarrow> ('l, unit) lucene_call"
  deleteDocument :: "nat \<Rightarrow> ('l, unit) lucene_call"
  numDocs :: "('l, nat) lucene_call"
  maxDoc :: "('l, nat) lucene_call"
  addDocument :: "'d \<Rightarrow> ('l, unit) lucene_call"
  optimize_index :: "('l, unit) lucene_call"
  parse_query :: "nat \<Rightarrow> qstring \<Rightarrow> qstring \<Rightarrow> lucene_error + 'q option"
  search_index :: "'q \<Rightarrow> ('l, ('d \<times> u64) list option) lucene_call"

section \<open>Fields\<close>

definition idFieldName :: qstring where "idFieldName = ''id''"
definition textFieldName :: qstring where "textFieldName = ''text''"
definition bnodeIdPrefix :: qstring where "bnodeIdPrefix = ''!''"

definition isPropertyField :: "qstring \<Rightarrow> bool" where
  "isPropertyField f \<longleftrightarrow> idFieldName \<noteq> f \<and> textFieldName \<noteq> f"

definition exceptionToError :: "lucene_error \<Rightarrow> error" where
  "exceptionToError e = mk_error (''CLucene index error: '' @ [CHR 0x27] @ snd e @ [CHR 0x27]) (error_code_num ErrorUnknown + fst e)"

definition property_field :: "qstring \<Rightarrow> qstring \<Rightarrow> bool \<Rightarrow> lucene_field" where
  "property_field f t isUri = \<lparr> field_name = f, stringValue = t, field_stored = True,
     field_mode = (if isUri then Untokenized else Tokenized) \<rparr>"

definition text_field :: "qstring \<Rightarrow> lucene_field" where
  "text_field t = \<lparr> field_name = textFieldName, stringValue = t, field_stored = False, field_mode = Tokenized \<rparr>"

definition id_field :: "qstring \<Rightarrow> lucene_field" where
  "id_field i = \<lparr> field_name = idFieldName, stringValue = i, field_stored = True, field_mode = Untokenized \<rparr>"

section \<open>CLuceneDocumentWrapper\<close>

definition addProperty :: "('d, 'q, 'l) clucene \<Rightarrow> qstring \<Rightarrow> qstring \<Rightarrow> bool \<Rightarrow> 'd \<Rightarrow> 'd" where
  "addProperty C f t isUri d =
     (let d = doc_add C (property_field f t isUri) d in if \<not> isUri then doc_add C (text_field t) d else d)"

definition addID :: "('d, 'q, 'l) clucene \<Rightarrow> qstring \<Rightarrow> 'd \<Rightarrow> 'd" where
  "addID C i d = doc_add C (id_field i) d"

text \<open>The values of the field that stay are added again, then the texts of all properties.\<close>

definition keep_value :: "('d, 'q, 'l) clucene \<Rightarrow> qstring \<Rightarrow> qstring \<Rightarrow> bool \<Rightarrow> qstring \<Rightarrow> 'd \<Rightarrow> 'd" where
  "keep_value C f t isUri v d = (if v \<noteq> t then addProperty C f v isUri d else d)"

definition keep_text :: "('d, 'q, 'l) clucene \<Rightarrow> lucene_field \<Rightarrow> 'd \<Rightarrow> 'd" where
  "keep_text C x d = (if isPropertyField (field_name x) then doc_add C (text_field (stringValue x)) d else d)"

definition removeProperty :: "('d, 'q, 'l) clucene \<Rightarrow> qstring \<Rightarrow> qstring \<Rightarrow> bool \<Rightarrow> 'd \<Rightarrow> 'd" where
  "removeProperty C f t isUri d =
     (let d = (case doc_getValues C f d of
                 None \<Rightarrow> d
               | Some vs \<Rightarrow> fold (keep_value C f t isUri) vs (doc_removeFields C f d))
      in if \<not> isUri then (let d = doc_removeFields C textFieldName d in fold (keep_text C) (doc_fields C d) d) else d)"

text \<open>The loop ends at a value that is found; past the last one it reads a null pointer (\<open>None\<close>).\<close>

definition hasProperty :: "('d, 'q, 'l) clucene \<Rightarrow> qstring \<Rightarrow> qstring \<Rightarrow> 'd \<Rightarrow> bool option" where
  "hasProperty C f t d = (case doc_getValues C f d of
       None \<Rightarrow> Some False
     | Some vs \<Rightarrow> if t \<in> set vs then Some True else None)"

definition numberOfPropertyFields :: "('d, 'q, 'l) clucene \<Rightarrow> 'd \<Rightarrow> int" where
  "numberOfPropertyFields C d = max 0 (int (length (doc_fields C d)) - 1)"

definition docEmpty :: "('d, 'q, 'l) clucene \<Rightarrow> 'd \<Rightarrow> bool" where
  "docEmpty C d \<longleftrightarrow> length (filter (\<lambda>x. field_name x \<noteq> idFieldName \<and> field_name x \<noteq> textFieldName) (doc_fields C d)) = 0"

section \<open>What a document holds\<close>

type_synonym content = "lucene_field multiset"

definition content :: "('d, 'q, 'l) clucene \<Rightarrow> 'd \<Rightarrow> content" where
  "content C d = mset (doc_fields C d)"

definition properties :: "content \<Rightarrow> (qstring \<times> qstring) multiset" where
  "properties c = {#(field_name x, stringValue x). x \<in># {#x \<in># c. isPropertyField (field_name x)#}#}"

definition texts :: "content \<Rightarrow> qstring multiset" where
  "texts c = {#stringValue x. x \<in># {#x \<in># c. field_name x = textFieldName#}#}"

definition ids :: "content \<Rightarrow> qstring multiset" where
  "ids c = {#stringValue x. x \<in># {#x \<in># c. field_name x = idFieldName#}#}"

text \<open>A document of the resource with this identifier.\<close>

definition document_of :: "qstring \<Rightarrow> content \<Rightarrow> bool" where
  "document_of i c \<longleftrightarrow> {#x \<in># c. field_name x = idFieldName#} = {#id_field i#}"

lemma field_names [simp]:
  "field_name (property_field f t u) = f" "field_name (text_field t) = textFieldName" "field_name (id_field i) = idFieldName"
  "stringValue (property_field f t u) = t" "stringValue (text_field t) = t" "stringValue (id_field i) = i"
  "idFieldName \<noteq> textFieldName" "textFieldName \<noteq> idFieldName" "\<not> isPropertyField idFieldName" "\<not> isPropertyField textFieldName"
  by (simp_all add: property_field_def text_field_def id_field_def idFieldName_def textFieldName_def isPropertyField_def)

lemma propertyField_neq: "isPropertyField f \<Longrightarrow> f \<noteq> idFieldName \<and> f \<noteq> textFieldName"
  by (auto simp: isPropertyField_def)

lemma content_add [simp]:
  "properties (add_mset x c) = (if isPropertyField (field_name x) then {#(field_name x, stringValue x)#} else {#}) + properties c"
  "texts (add_mset x c) = (if field_name x = textFieldName then {#stringValue x#} else {#}) + texts c"
  "properties {#} = {#}" "texts {#} = {#}"
  by (simp_all add: properties_def texts_def)

lemma document_of_add [simp]:
  "field_name x \<noteq> idFieldName \<Longrightarrow> document_of i (add_mset x c) = document_of i c"
  by (simp add: document_of_def)

lemma document_of_filter:
  assumes "n \<noteq> idFieldName"
  shows "document_of i {#x \<in># c. field_name x \<noteq> n#} = document_of i c"
proof -
  have "{#x \<in># {#x \<in># c. field_name x \<noteq> n#}. field_name x = idFieldName#} = {#x \<in># c. field_name x = idFieldName#}"
    using assms by (auto simp: filter_filter_mset intro: filter_mset_cong)
  then show ?thesis by (simp add: document_of_def)
qed

lemma filter_none: "{#x \<in># c. P x#} = {#} \<longleftrightarrow> (\<forall>x \<in># c. \<not> P x)"
  by (induction c) auto

lemma filter_all: "(\<And>x. x \<in># c \<Longrightarrow> P x) \<Longrightarrow> {#x \<in># c. P x#} = c"
  by (induction c) auto

section \<open>The contract of documents\<close>

locale lucene_document =
  fixes C :: "('d, 'q, 'l) clucene"
  assumes new: "content C (doc_new C) = {#}"
    and add: "content C (doc_add C x d) = add_mset x (content C d)"
    and removeFields: "content C (doc_removeFields C n d) = {#x \<in># content C d. field_name x \<noteq> n#}"
    and getValues: "(case doc_getValues C n d of None \<Rightarrow> {#} | Some vs \<Rightarrow> mset vs) =
      {#stringValue x. x \<in># {#x \<in># content C d. field_name x = n#}#}"
    and get: "(case doc_get C n d of None \<Rightarrow> {#x \<in># content C d. field_name x = n#} = {#}
      | Some v \<Rightarrow> v \<in># {#stringValue x. x \<in># {#x \<in># content C d. field_name x = n#}#})"
begin

lemma add_id: "content C (addID C i (doc_new C)) = {#id_field i#}"
  by (simp add: addID_def add new)

lemma content_addProperty:
  "content C (addProperty C f t isUri d) =
     (if isUri then {#} else {#text_field t#}) + {#property_field f t isUri#} + content C d"
  by (simp add: addProperty_def Let_def add)

lemma properties_addProperty [simp]:
  "isPropertyField f \<Longrightarrow> properties (content C (addProperty C f t isUri d)) = add_mset (f, t) (properties (content C d))"
  by (simp add: content_addProperty)

lemma texts_addProperty [simp]:
  "isPropertyField f \<Longrightarrow> texts (content C (addProperty C f t isUri d)) = (if isUri then {#} else {#t#}) + texts (content C d)"
  by (auto simp: content_addProperty isPropertyField_def)

lemma document_addProperty [simp]:
  "isPropertyField f \<Longrightarrow> document_of i (content C (addProperty C f t isUri d)) = document_of i (content C d)"
  by (auto simp: content_addProperty dest!: propertyField_neq)

lemma keep_values:
  assumes f: "isPropertyField f"
  shows "properties (content C (fold (keep_value C f t isUri) vs d)) =
           {#(f, v). v \<in># {#v \<in># mset vs. v \<noteq> t#}#} + properties (content C d)"
    and "document_of i (content C (fold (keep_value C f t isUri) vs d)) = document_of i (content C d)"
  by (induction vs arbitrary: d) (simp_all add: keep_value_def f)

lemma keep_texts:
  shows "properties (content C (fold (keep_text C) xs d)) = properties (content C d)"
    and "texts (content C (fold (keep_text C) xs d)) = {#v. (f, v) \<in># properties (mset xs)#} + texts (content C d)"
    and "document_of i (content C (fold (keep_text C) xs d)) = document_of i (content C d)"
  by (induction xs arbitrary: d) (simp_all add: keep_text_def add)

text \<open>Removing a property removes its pair, however often it is there, and nothing else.\<close>

lemma rest_and_kept:
  assumes "isPropertyField f"
  shows "{#(f, v). v \<in># {#v \<in># {#stringValue x. x \<in># {#x \<in># c. field_name x = f#}#}. v \<noteq> t#}#} +
      properties {#x \<in># c. field_name x \<noteq> f#} = {#p \<in># properties c. p \<noteq> (f, t)#}"
  by (induction c) (use assms in \<open>auto simp: properties_def\<close>)

lemma properties_no_text: "properties {#x \<in># c. field_name x \<noteq> textFieldName#} = properties c"
  by (induction c) (auto simp: properties_def isPropertyField_def)

lemma texts_no_text: "texts {#x \<in># c. field_name x \<noteq> textFieldName#} = {#}"
  by (induction c) (auto simp: texts_def)

lemma no_property:
  assumes "{#stringValue x. x \<in># {#x \<in># c. field_name x = f#}#} = {#}"
  shows "{#p \<in># properties c. p \<noteq> (f, t)#} = properties c"
proof -
  have "{#x \<in># c. field_name x = f#} = {#}" using assms by simp
  then have "x \<in># c \<Longrightarrow> field_name x \<noteq> f" for x by (simp add: filter_none)
  then have "p \<in># properties c \<Longrightarrow> p \<noteq> (f, t)" for p by (auto simp: properties_def)
  then show ?thesis by (rule filter_all)
qed

lemma properties_values_removed:
  assumes f: "isPropertyField f"
  shows "properties (content C (case doc_getValues C f d of None \<Rightarrow> d
      | Some vs \<Rightarrow> fold (keep_value C f t isUri) vs (doc_removeFields C f d))) = {#p \<in># properties (content C d). p \<noteq> (f, t)#}"
proof (cases "doc_getValues C f d")
  case None
  then show ?thesis using getValues[of f d] no_property[of f "content C d" t] by simp
next
  case (Some vs)
  then have "mset vs = {#stringValue x. x \<in># {#x \<in># content C d. field_name x = f#}#}" using getValues[of f d] by simp
  then show ?thesis using Some rest_and_kept[OF f, of t "content C d"] by (simp add: keep_values[OF f] removeFields)
qed

lemma properties_removeProperty [simp]:
  assumes f: "isPropertyField f"
  shows "properties (content C (removeProperty C f t isUri d)) = {#p \<in># properties (content C d). p \<noteq> (f, t)#}"
  using properties_values_removed[OF f, where t = t and isUri = isUri and d = d]
  by (simp add: removeProperty_def Let_def keep_texts removeFields properties_no_text)

lemma document_removeProperty [simp]:
  assumes f: "isPropertyField f"
  shows "document_of i (content C (removeProperty C f t isUri d)) = document_of i (content C d)"
  using propertyField_neq[OF f]
  by (auto simp: removeProperty_def Let_def keep_texts keep_values[OF f] removeFields document_of_filter split: option.split)

text \<open>After a literal is removed the text is that of all properties, resources among them.\<close>

lemma texts_removeProperty:
  assumes f: "isPropertyField f"
  shows "texts (content C (removeProperty C f t False d)) = {#v. (p, v) \<in># properties (content C (removeProperty C f t False d))#}"
proof -
  let ?d = "case doc_getValues C f d of None \<Rightarrow> d | Some vs \<Rightarrow> fold (keep_value C f t False) vs (doc_removeFields C f d)"
  let ?e = "doc_removeFields C textFieldName ?d"
  have "removeProperty C f t False d = fold (keep_text C) (doc_fields C ?e) ?e" by (simp add: removeProperty_def Let_def)
  then show ?thesis
    by (simp add: keep_texts removeFields texts_no_text flip: content_def)
qed

lemma docEmpty: "docEmpty C d \<longleftrightarrow> properties (content C d) = {#}"
  by (auto simp: docEmpty_def properties_def content_def isPropertyField_def filter_none filter_empty_conv)

end

end
