(* ===== verification/Clucene_Index.thy ===== *)
theory Clucene_Index
  imports Clucene_Doc
begin

text \<open>
  The full text index (index/cluceneindex.cpp): the reader, the writer and the searcher on the directory, the cache of
  documents a transaction changes, and the operations. The state of the library is a part of the state of
  the index. Exceptions of the library are left results; the calls run under the mutex of the index, one
  after the other.

  The index is stated by what it shows of a resource: the multiset of its properties, in the cache or in the
  directory. Adding and removing a statement change just that, and a commit changes nothing of it.
\<close>

section \<open>State\<close>

text \<open>The pointers to reader, writer and searcher are null or not. \<open>freed\<close> holds the resources whose documents
  were deleted though they are still in the cache. Analyzers are numbers.\<close>

record ('d, 'l) lucene_index =
  library :: 'l
  indexDir :: bool
  indexReader :: bool
  indexWriter :: bool
  searcher :: bool
  queryAnalyzer :: nat
  transactionID :: int
  documentCache :: "(node \<times> 'd) list"
  freed :: "node list"
  index_error :: error

type_synonym ('d, 'l, 'a) index_call = "('d, 'l) lucene_index \<Rightarrow> (lucene_error + 'a) \<times> ('d, 'l) lucene_index"

definition new_index :: "'l \<Rightarrow> ('d, 'l) lucene_index" where
  "new_index l = \<lparr> library = l, indexDir = False, indexReader = False, indexWriter = False, searcher = False,
     queryAnalyzer = 0, transactionID = 0, documentCache = [], freed = [], index_error = NoError \<rparr>"

text \<open>Calls that may throw, one after the other.\<close>

definition give :: "'a \<Rightarrow> ('d, 'l, 'a) index_call" where
  "give x ix = (Inr x, ix)"

definition and_then :: "('d, 'l, 'a) index_call \<Rightarrow> ('a \<Rightarrow> ('d, 'l, 'b) index_call) \<Rightarrow> ('d, 'l, 'b) index_call" where
  "and_then f g ix = (case f ix of (Inl e, ix) \<Rightarrow> (Inl e, ix) | (Inr x, ix) \<Rightarrow> g x ix)"

definition from_library :: "('l, 'a) lucene_call \<Rightarrow> ('d, 'l, 'a) index_call" where
  "from_library f ix = (case f (library ix) of (r, l) \<Rightarrow> (r, ix\<lparr>library := l\<rparr>))"

definition set_index_error :: "error \<Rightarrow> ('d, 'l) lucene_index \<Rightarrow> ('d, 'l) lucene_index" where
  "set_index_error e ix = ix\<lparr>index_error := kept_error e\<rparr>"

definition set_index_message :: "qstring \<Rightarrow> ('d, 'l) lucene_index \<Rightarrow> ('d, 'l) lucene_index" where
  "set_index_message m ix = set_index_error (mk_error m (error_code_num ErrorUnknown)) ix"

section \<open>Reader, writer, searcher\<close>

definition indexPresent :: "('d, 'q, 'l) clucene \<Rightarrow> ('d, 'l) lucene_index \<Rightarrow> bool" where
  "indexPresent C ix \<longleftrightarrow> indexExists C (library ix)"

text \<open>Errors of closing are only printed.\<close>

definition closeWriter :: "('d, 'q, 'l) clucene \<Rightarrow> ('d, 'l) lucene_index \<Rightarrow> ('d, 'l) lucene_index" where
  "closeWriter C ix = (if indexWriter ix then (snd (from_library (close_writer C) ix))\<lparr>indexWriter := False\<rparr> else ix)"

definition closeReader :: "('d, 'q, 'l) clucene \<Rightarrow> ('d, 'l) lucene_index \<Rightarrow> ('d, 'l) lucene_index" where
  "closeReader C ix =
     (let ix = (if searcher ix then (snd (from_library (close_searcher C) ix))\<lparr>searcher := False\<rparr> else ix)
      in if indexReader ix then (snd (from_library (close_reader C) ix))\<lparr>indexReader := False\<rparr> else ix)"

definition getIndexReader :: "('d, 'q, 'l) clucene \<Rightarrow> ('d, 'l, unit) index_call" where
  "getIndexReader C ix =
     (if \<not> indexReader ix then
        (case from_library (open_reader C) (closeWriter C ix) of
           (Inl e, ix) \<Rightarrow> (Inl e, ix)
         | (Inr _, ix) \<Rightarrow> (Inr (), ix\<lparr>indexReader := True\<rparr>))
      else (Inr (), ix))"

definition getIndexWriter :: "('d, 'q, 'l) clucene \<Rightarrow> ('d, 'l, unit) index_call" where
  "getIndexWriter C ix =
     (if \<not> indexWriter ix then
        (let ix = closeReader C ix
         in case from_library (open_writer C (\<not> indexPresent C ix)) ix of
              (Inl e, ix) \<Rightarrow> (Inl e, ix)
            | (Inr _, ix) \<Rightarrow> (Inr (), ix\<lparr>indexWriter := True\<rparr>))
      else (Inr (), ix))"

definition getIndexSearcher :: "('d, 'q, 'l) clucene \<Rightarrow> ('d, 'l, unit) index_call" where
  "getIndexSearcher C ix =
     (if \<not> searcher ix then
        (case from_library (open_searcher C) (closeWriter C ix) of
           (Inl e, ix) \<Rightarrow> (Inl e, ix)
         | (Inr _, ix) \<Rightarrow> (Inr (), ix\<lparr>searcher := True\<rparr>))
      else (Inr (), ix))"

section \<open>Documents of resources\<close>

definition getId :: "node \<Rightarrow> qstring" where
  "getId n =
     (if node_isResource n then encoded (node_uri n)
      else if node_isBlank n then bnodeIdPrefix @ node_identifier n
      else [])"

definition find_document :: "('d, 'q, 'l) clucene \<Rightarrow> qstring \<Rightarrow> ('d, 'l, 'd option) index_call" where
  "find_document C i =
     and_then (getIndexReader C) (\<lambda>_. and_then (from_library (termDocs C idFieldName i)) (\<lambda>ns.
       if ns \<noteq> [] then
         and_then (getIndexReader C) (\<lambda>_. and_then (from_library (document C (hd ns))) (\<lambda>d. give (Some d)))
       else give None))"

text \<open>A lookup in QHash: same hash and equal.\<close>

definition cache_key :: "qt \<Rightarrow> node \<Rightarrow> node \<Rightarrow> bool" where
  "cache_key q r n \<longleftrightarrow> node_hash q n = node_hash q r \<and> node_eq q n r"

fun cached :: "qt \<Rightarrow> node \<Rightarrow> (node \<times> 'd) list \<Rightarrow> 'd option" where
  "cached q r [] = None"
| "cached q r ((n, d) # es) = (if cache_key q r n then Some d else cached q r es)"

text \<open>The copy of a field of the old document. Fields that were stored are taken for literals if they are indexed.\<close>

definition copy_field :: "('d, 'q, 'l) clucene \<Rightarrow> lucene_field \<Rightarrow> 'd \<Rightarrow> 'd" where
  "copy_field C x d =
     (if isPropertyField (field_name x) then addProperty C (field_name x) (stringValue x) (\<not> isIndexed x) d else d)"

definition getDocument :: "qt \<Rightarrow> ('d, 'q, 'l) clucene \<Rightarrow> node \<Rightarrow> ('d, 'l, 'd) index_call" where
  "getDocument q C r ix =
     (case cached q r (documentCache ix) of
        Some d \<Rightarrow> (Inr d, ix)
      | None \<Rightarrow>
         (let d = addID C (getId r) (doc_new C)
          in and_then (if indexPresent C ix then find_document C (getId r) else give None) (\<lambda>old ix.
               let d = (case old of None \<Rightarrow> d | Some e \<Rightarrow> fold (copy_field C) (doc_fields C e) d)
               in (Inr d, ix\<lparr>documentCache := documentCache ix @ [(r, d)]\<rparr>)) ix))"

text \<open>A document is changed in place.\<close>

definition put_document :: "qt \<Rightarrow> node \<Rightarrow> 'd \<Rightarrow> ('d, 'l) lucene_index \<Rightarrow> ('d, 'l) lucene_index" where
  "put_document q r d ix = ix\<lparr>documentCache := map (\<lambda>(n, e). (n, if cache_key q r n then d else e)) (documentCache ix)\<rparr>"

section \<open>Commit\<close>

fun delete_old :: "('d, 'q, 'l) clucene \<Rightarrow> (node \<times> 'd) list \<Rightarrow> ('d, 'l, unit) index_call" where
  "delete_old C [] = give ()"
| "delete_old C ((n, d) # es) =
     (case doc_get C idFieldName d of
        None \<Rightarrow> delete_old C es
      | Some i \<Rightarrow> and_then (getIndexReader C) (\<lambda>_. and_then (from_library (deleteDocuments C idFieldName i)) (\<lambda>_. delete_old C es)))"

definition add_document :: "('d, 'q, 'l) clucene \<Rightarrow> 'd \<Rightarrow> ('d, 'l, unit) index_call" where
  "add_document C d =
     (if docEmpty C d then give () else and_then (getIndexWriter C) (\<lambda>_. from_library (addDocument C d)))"

fun add_new :: "('d, 'q, 'l) clucene \<Rightarrow> (node \<times> 'd) list \<Rightarrow> ('d, 'l, unit) index_call" where
  "add_new C [] = give ()"
| "add_new C ((n, d) # es) = and_then (add_document C d) (\<lambda>_ ix. add_new C es (ix\<lparr>freed := n # freed ix\<rparr>))"

definition commit :: "('d, 'q, 'l) clucene \<Rightarrow> ('d, 'l, unit) index_call" where
  "commit C ix =
     and_then (if indexPresent C ix then delete_old C (documentCache ix) else give ()) (\<lambda>_.
     and_then (add_new C (documentCache ix)) (\<lambda>_ ix. (Inr (), ix\<lparr>documentCache := [], freed := []\<rparr>))) ix"

section \<open>Operations\<close>

definition startTransaction :: "('d, 'l) lucene_index \<Rightarrow> int \<times> ('d, 'l) lucene_index" where
  "startTransaction ix =
     (let ix = set_index_error NoError ix
      in if transactionID ix = 0 then (1, ix\<lparr>transactionID := 1\<rparr>)
         else (0, set_index_message ''Previous transaction still open.'' ix))"

definition closeTransaction :: "('d, 'q, 'l) clucene \<Rightarrow> int \<Rightarrow> ('d, 'l) lucene_index \<Rightarrow> bool \<times> ('d, 'l) lucene_index" where
  "closeTransaction C i ix =
     (if i = transactionID ix \<and> i > 0 then
        (case commit C (set_index_error NoError ix) of
           (Inl e, ix) \<Rightarrow> (False, set_index_error (exceptionToError e) ix)
         | (Inr _, ix) \<Rightarrow> (True, ix\<lparr>transactionID := 0\<rparr>))
      else (False, set_index_message (q_arg ''Invalid transaction ID: %1'' (show_int i)) ix))"

definition index_close :: "('d, 'q, 'l) clucene \<Rightarrow> ('d, 'l) lucene_index \<Rightarrow> ('d, 'l) lucene_index" where
  "index_close C ix =
     (let ix = set_index_error NoError ix;
          ix = (if transactionID ix \<noteq> 0 then snd (closeTransaction C (transactionID ix) ix) else ix)
      in closeWriter C (closeReader C ix))"

text \<open>\<open>missing\<close> says that the folder is not there.\<close>

definition index_open :: "('d, 'q, 'l) clucene \<Rightarrow> qstring \<Rightarrow> bool \<Rightarrow> bool \<Rightarrow> ('d, 'l) lucene_index \<Rightarrow> bool \<times> ('d, 'l) lucene_index" where
  "index_open C folder missing force ix =
     (case from_library (getDirectory C folder missing) (set_index_error NoError (index_close C ix)) of
        (Inl e, ix) \<Rightarrow> (False, set_index_error (exceptionToError e) ix)
      | (Inr d, ix) \<Rightarrow>
         (let ix = ix\<lparr>indexDir := d\<rparr>
          in if \<not> indexDir ix then (False, ix)
             else if isLocked C (library ix) then
               (if force then (True, ix\<lparr>library := unlock_directory C (library ix)\<rparr>)
                else (False, set_index_message (q_arg (''Index folder '' @ [CHR 0x27] @ ''%1'' @ [CHR 0x27] @ '' is locked.'') folder) ix))
             else (True, ix)))"

definition isOpen :: "('d, 'l) lucene_index \<Rightarrow> bool" where
  "isOpen ix \<longleftrightarrow> indexDir ix"

definition setQueryAnalyzer :: "nat \<Rightarrow> ('d, 'l) lucene_index \<Rightarrow> ('d, 'l) lucene_index" where
  "setQueryAnalyzer a ix = ix\<lparr>queryAnalyzer := a\<rparr>"

definition documentForResource :: "qt \<Rightarrow> ('d, 'q, 'l) clucene \<Rightarrow> node \<Rightarrow> ('d, 'l) lucene_index \<Rightarrow> 'd option \<times> ('d, 'l) lucene_index" where
  "documentForResource q C r ix =
     (let ix = set_index_error NoError ix
      in if transactionID ix = 0 then (None, set_index_message ''No transaction started.'' ix)
         else (case getDocument q C r ix of
             (Inl e, ix) \<Rightarrow> (None, set_index_error (exceptionToError e) ix)
           | (Inr d, ix) \<Rightarrow> (Some d, ix)))"

definition index_field :: "statement \<Rightarrow> qstring" where
  "index_field s = encoded (node_uri (predicate s))"

definition index_text :: "qt \<Rightarrow> statement \<Rightarrow> qstring" where
  "index_text q s = (if node_isResource (object s) then encoded (node_uri (object s)) else node_toString q (object s))"

text \<open>A property of the document of the subject is changed, and committed outside a transaction.\<close>

definition change_document :: "qt \<Rightarrow> ('d, 'q, 'l) clucene \<Rightarrow> node \<Rightarrow> ('d \<Rightarrow> 'd) \<Rightarrow> ('d, 'l) lucene_index \<Rightarrow>
    error_code \<times> ('d, 'l) lucene_index" where
  "change_document q C r f ix =
     (case and_then (getDocument q C r) (\<lambda>d ix.
          let ix = put_document q r (f d) ix in if transactionID ix = 0 then commit C ix else give () ix) ix of
        (Inl e, ix) \<Rightarrow> (ErrorUnknown, set_index_error (exceptionToError e) ix)
      | (Inr _, ix) \<Rightarrow> (ErrorNone, ix))"

definition index_addStatement :: "qt \<Rightarrow> ('d, 'q, 'l) clucene \<Rightarrow> statement \<Rightarrow> ('d, 'l) lucene_index \<Rightarrow> error_code \<times> ('d, 'l) lucene_index" where
  "index_addStatement q C s ix =
     (let ix = set_index_error NoError ix
      in if index_text q s = [] then
           (ErrorUnknown, set_index_message ''Cannot index object nodes that convert to an empty string.'' ix)
         else change_document q C (subject s)
                (addProperty C (index_field s) (index_text q s) (node_isResource (object s))) ix)"

definition index_removeStatement :: "qt \<Rightarrow> ('d, 'q, 'l) clucene \<Rightarrow> statement \<Rightarrow> ('d, 'l) lucene_index \<Rightarrow> error_code \<times> ('d, 'l) lucene_index" where
  "index_removeStatement q C s ix =
     (let ix = set_index_error NoError ix
      in if \<not> indexPresent C ix then (ErrorNone, ix)
         else if index_text q s = [] then (ErrorNone, ix)
         else change_document q C (subject s)
                (removeProperty C (index_field s) (index_text q s) (node_isResource (object s))) ix)"

text \<open>The node of an identifier, of a document and of a hit.\<close>

definition node_of_identifier :: "(qstring \<Rightarrow> qurl) \<Rightarrow> qstring \<Rightarrow> node" where
  "node_of_identifier parse i =
     (if take (length bnodeIdPrefix) i = bnodeIdPrefix then node_of_id (drop (length bnodeIdPrefix) i) else node_of_url (parse i))"

definition doc_id :: "('d, 'q, 'l) clucene \<Rightarrow> 'd \<Rightarrow> qstring" where
  "doc_id C d = (case doc_get C idFieldName d of None \<Rightarrow> [] | Some i \<Rightarrow> i)"

definition index_getResource :: "qt \<Rightarrow> ('d, 'q, 'l) clucene \<Rightarrow> 'd \<Rightarrow> node" where
  "index_getResource q C d = node_of_identifier (url_parse q) (doc_id C d)"

definition hit_getResource :: "qt \<Rightarrow> ('d, 'q, 'l) clucene \<Rightarrow> 'd \<Rightarrow> node" where
  "hit_getResource q C d = node_of_identifier (url_fromEncoded q) (doc_id C d)"

definition search_query :: "('d, 'q, 'l) clucene \<Rightarrow> 'q option \<Rightarrow> ('d, 'l) lucene_index \<Rightarrow> ('d \<times> u64) list option \<times> ('d, 'l) lucene_index" where
  "search_query C qu ix = (case qu of
       None \<Rightarrow> (None, set_index_message ''Invalid CLucene query'' ix)
     | Some qu \<Rightarrow>
        (case and_then (getIndexSearcher C) (\<lambda>_. from_library (search_index C qu)) (set_index_error NoError ix) of
           (Inl e, ix) \<Rightarrow> (None, set_index_error (exceptionToError e) ix)
         | (Inr hits, ix) \<Rightarrow> (hits, ix)))"

definition index_search :: "('d, 'q, 'l) clucene \<Rightarrow> nat \<Rightarrow> qstring \<Rightarrow> ('d, 'l) lucene_index \<Rightarrow> ('d \<times> u64) list option \<times> ('d, 'l) lucene_index" where
  "index_search C analyzer text ix =
     (let ix = set_index_error NoError ix
      in case parse_query C (if queryAnalyzer ix \<noteq> 0 then queryAnalyzer ix else analyzer) textFieldName text of
           Inl e \<Rightarrow> (None, set_index_error (exceptionToError e) ix)
         | Inr None \<Rightarrow> (None, set_index_message (q_arg (''Failed to parse CLucene query: '' @ [CHR 0x27] @ ''%1'' @ [CHR 0x27]) text) ix)
         | Inr (Some qu) \<Rightarrow> search_query C (Some qu) ix)"

definition resourceCount :: "('d, 'q, 'l) clucene \<Rightarrow> ('d, 'l) lucene_index \<Rightarrow> int \<times> ('d, 'l) lucene_index" where
  "resourceCount C ix =
     (case and_then (getIndexReader C) (\<lambda>_. from_library (numDocs C)) (set_index_error NoError ix) of
        (Inl e, ix) \<Rightarrow> (- 1, set_index_error (exceptionToError e) ix)
      | (Inr n, ix) \<Rightarrow> (int n, ix))"

fun delete_numbers :: "('d, 'q, 'l) clucene \<Rightarrow> nat list \<Rightarrow> ('d, 'l, unit) index_call" where
  "delete_numbers C [] = give ()"
| "delete_numbers C (i # is) =
     and_then (getIndexReader C) (\<lambda>_. and_then (from_library (deleteDocument C i)) (\<lambda>_. delete_numbers C is))"

definition index_clear :: "('d, 'q, 'l) clucene \<Rightarrow> ('d, 'l) lucene_index \<Rightarrow> ('d, 'l) lucene_index" where
  "index_clear C ix =
     (if indexPresent C ix then
        (case and_then (getIndexReader C) (\<lambda>_. and_then (from_library (maxDoc C)) (\<lambda>n. delete_numbers C [0..<n])) ix of
           (Inl e, ix) \<Rightarrow> set_index_error (exceptionToError e) ix
         | (Inr _, ix) \<Rightarrow> closeReader C ix)
      else ix)"

text \<open>The exception of a writer that cannot be opened leaves optimize.\<close>

definition index_optimize :: "('d, 'q, 'l) clucene \<Rightarrow> ('d, 'l, unit) index_call" where
  "index_optimize C = and_then (getIndexWriter C) (\<lambda>_. from_library (optimize_index C))"

section \<open>Reader and writer\<close>

text \<open>The calls of the index, with whatever the library answers.\<close>

datatype 'q index_request = IAdd statement | IRemove statement | IStart | ICloseTransaction int | IOpen qstring bool bool | IClose
  | IDocument node | ISearchText nat qstring | ISearch "'q option" | ICount | IClear | IOptimize | ISetAnalyzer nat

fun index_op :: "qt \<Rightarrow> ('d, 'q, 'l) clucene \<Rightarrow> 'q index_request \<Rightarrow> ('d, 'l) lucene_index \<Rightarrow> ('d, 'l) lucene_index" where
  "index_op q C (IAdd s) ix = snd (index_addStatement q C s ix)"
| "index_op q C (IRemove s) ix = snd (index_removeStatement q C s ix)"
| "index_op q C IStart ix = snd (startTransaction ix)"
| "index_op q C (ICloseTransaction i) ix = snd (closeTransaction C i ix)"
| "index_op q C (IOpen folder missing force) ix = snd (index_open C folder missing force ix)"
| "index_op q C IClose ix = index_close C ix"
| "index_op q C (IDocument r) ix = snd (documentForResource q C r ix)"
| "index_op q C (ISearchText a t) ix = snd (index_search C a t ix)"
| "index_op q C (ISearch qu) ix = snd (search_query C qu ix)"
| "index_op q C ICount ix = snd (resourceCount C ix)"
| "index_op q C IClear ix = index_clear C ix"
| "index_op q C IOptimize ix = snd (index_optimize C ix)"
| "index_op q C (ISetAnalyzer a) ix = setQueryAnalyzer a ix"

definition exclusive :: "('d, 'l) lucene_index \<Rightarrow> bool" where
  "exclusive ix \<longleftrightarrow> \<not> (indexWriter ix \<and> (indexReader ix \<or> searcher ix))"

text \<open>A call keeps the handles apart.\<close>

definition keeps_apart :: "('d, 'l, 'a) index_call \<Rightarrow> bool" where
  "keeps_apart f \<longleftrightarrow> (\<forall>ix. exclusive ix \<longrightarrow> exclusive (snd (f ix)))"

named_theorems apart \<open>calls that keep reader and writer apart\<close>

lemma apart_give [apart]: "keeps_apart (give x)"
  by (simp add: keeps_apart_def give_def)

lemma apart_then [apart]: "keeps_apart f \<Longrightarrow> (\<And>x. keeps_apart (g x)) \<Longrightarrow> keeps_apart (and_then f g)"
proof -
  assume f: "keeps_apart f" and g: "\<And>x. keeps_apart (g x)"
  have "exclusive (snd (and_then f g ix))" if "exclusive ix" for ix
  proof (cases "f ix")
    case (Pair r a)
    then have "exclusive a" using f[unfolded keeps_apart_def, rule_format, OF that] by simp
    then show ?thesis using g Pair by (cases r) (simp_all add: and_then_def keeps_apart_def)
  qed
  then show ?thesis by (simp add: keeps_apart_def)
qed

lemma handles_library:
  "indexWriter (snd (from_library f ix)) = indexWriter ix" "indexReader (snd (from_library f ix)) = indexReader ix"
  "searcher (snd (from_library f ix)) = searcher ix"
  by (simp_all add: from_library_def split: prod.split)

lemma apart_library [apart]: "keeps_apart (from_library f)"
  by (simp add: keeps_apart_def exclusive_def handles_library)

lemma handles_closeWriter:
  "\<not> indexWriter (closeWriter C ix)" "indexReader (closeWriter C ix) = indexReader ix" "searcher (closeWriter C ix) = searcher ix"
  by (simp_all add: closeWriter_def handles_library)

lemma handles_closeReader:
  "\<not> indexReader (closeReader C ix)" "\<not> searcher (closeReader C ix)" "indexWriter (closeReader C ix) = indexWriter ix"
  by (simp_all add: closeReader_def Let_def handles_library)

lemma exclusive_fields [simp]:
  "exclusive (set_index_error e ix) = exclusive ix" "exclusive (set_index_message m ix) = exclusive ix"
  "exclusive (put_document q r d ix) = exclusive ix" "exclusive (ix\<lparr>documentCache := cs\<rparr>) = exclusive ix"
  "exclusive (ix\<lparr>freed := ns\<rparr>) = exclusive ix" "exclusive (ix\<lparr>transactionID := i\<rparr>) = exclusive ix"
  "exclusive (ix\<lparr>indexDir := b\<rparr>) = exclusive ix" "exclusive (ix\<lparr>library := l\<rparr>) = exclusive ix"
  "exclusive (ix\<lparr>queryAnalyzer := a\<rparr>) = exclusive ix"
  by (simp_all add: exclusive_def set_index_error_def set_index_message_def put_document_def)

lemma exclusive_close [simp]: "exclusive (closeWriter C ix)" "exclusive ix \<Longrightarrow> exclusive (closeReader C ix)"
  by (simp_all add: exclusive_def handles_closeWriter handles_closeReader)

lemma apart_opened:
  assumes "\<not> indexWriter ix"
  shows "exclusive (snd (case from_library f ix of (Inl e, a) \<Rightarrow> (Inl e, a) | (Inr x, a) \<Rightarrow> (Inr (), a\<lparr>indexReader := True\<rparr>)))"
    and "exclusive (snd (case from_library f ix of (Inl e, a) \<Rightarrow> (Inl e, a) | (Inr x, a) \<Rightarrow> (Inr (), a\<lparr>searcher := True\<rparr>)))"
  using assms handles_library(1)[of f ix]
  by (cases "from_library f ix"; cases "fst (from_library f ix)"; auto simp: exclusive_def)+

lemma apart_reader [apart]: "keeps_apart (getIndexReader C)"
  unfolding keeps_apart_def getIndexReader_def by (auto intro: apart_opened(1)[OF handles_closeWriter(1)])

lemma apart_searcher [apart]: "keeps_apart (getIndexSearcher C)"
  unfolding keeps_apart_def getIndexSearcher_def by (auto intro: apart_opened(2)[OF handles_closeWriter(1)])

lemma apart_writer [apart]: "keeps_apart (getIndexWriter C)"
proof -
  have "exclusive (snd (getIndexWriter C ix))" if "exclusive ix" for ix
    using that handles_library[of "open_writer C (\<not> indexPresent C (closeReader C ix))" "closeReader C ix"] handles_closeReader(1,2)[of C ix]
    by (cases "from_library (open_writer C (\<not> indexPresent C (closeReader C ix))) (closeReader C ix)")
       (auto simp: getIndexWriter_def Let_def exclusive_def split: sum.split)
  then show ?thesis by (simp add: keeps_apart_def)
qed

lemma apart_change [apart]: "(\<And>ix. exclusive (f ix) = exclusive ix) \<Longrightarrow> keeps_apart (\<lambda>ix. (r, f ix))"
  by (simp add: keeps_apart_def)

lemma apart_find [apart]: "keeps_apart (find_document C i)"
  unfolding find_document_def by (intro apart; simp add: apart)

lemma apart_getDocument [apart]: "keeps_apart (getDocument q C r)"
proof -
  have "exclusive (snd (getDocument q C r ix))" if ix: "exclusive ix" for ix
  proof (cases "cached q r (documentCache ix)")
    case None
    let ?g = "\<lambda>old ix. let d = (case old of None \<Rightarrow> addID C (getId r) (doc_new C) | Some e \<Rightarrow> fold (copy_field C) (doc_fields C e) (addID C (getId r) (doc_new C)))
      in (Inr d :: lucene_error + _, ix\<lparr>documentCache := documentCache ix @ [(r, d)]\<rparr>)"
    have "keeps_apart (and_then (if indexPresent C ix then find_document C (getId r) else give None) ?g)"
      by (intro apart_then) (auto simp: apart Let_def keeps_apart_def[of "?g _"] simp del: keeps_apart_def intro: apart)
    then show ?thesis using None ix by (simp add: getDocument_def Let_def keeps_apart_def)
  qed (simp add: getDocument_def ix)
  then show ?thesis by (simp add: keeps_apart_def)
qed

lemma apart_delete_old [apart]: "keeps_apart (delete_old C es)"
proof (induction es)
  case (Cons e es)
  then show ?case by (cases e) (auto intro!: apart split: option.split)
qed (simp add: apart)

lemma apart_add_document [apart]: "keeps_apart (add_document C d)"
  by (simp add: add_document_def apart)

lemma apart_shift: "keeps_apart f \<Longrightarrow> (\<And>ix. exclusive (h ix) = exclusive ix) \<Longrightarrow> keeps_apart (\<lambda>ix. f (h ix))"
  by (simp add: keeps_apart_def)

lemma apart_add_new [apart]: "keeps_apart (add_new C es)"
proof (induction es)
  case (Cons e es)
  obtain n d where "e = (n, d)" by (cases e)
  moreover have "keeps_apart (\<lambda>ix. add_new C es (ix\<lparr>freed := n # freed ix\<rparr>))" by (rule apart_shift[OF Cons.IH]) simp
  ultimately show ?case by (simp add: apart)
qed (simp add: apart)

lemma exclusive_commit: "exclusive ix \<Longrightarrow> exclusive (snd (commit C ix))"
proof -
  assume "exclusive ix"
  moreover have "keeps_apart (\<lambda>ix. (Inr (), ix\<lparr>documentCache := [], freed := []\<rparr>) :: (lucene_error + unit) \<times> ('a, 'c) lucene_index)"
    by (rule apart_change) simp
  then have "keeps_apart (and_then (if indexPresent C ix then delete_old C (documentCache ix) else give ()) (\<lambda>_.
     and_then (add_new C (documentCache ix)) (\<lambda>_ ix. (Inr (), ix\<lparr>documentCache := [], freed := []\<rparr>))))"
    by (auto intro!: apart)
  ultimately show ?thesis by (simp add: commit_def keeps_apart_def)
qed

lemma apart_clear [apart]: "keeps_apart (delete_numbers C is)"
  by (induction "is") (simp_all add: apart)

text \<open>What is left after a call whose exception is turned into an error.\<close>

lemma exclusive_case:
  assumes "exclusive (snd r)" "\<And>e ix. exclusive ix \<Longrightarrow> exclusive (snd (f e ix))" "\<And>x ix. exclusive ix \<Longrightarrow> exclusive (snd (g x ix))"
  shows "exclusive (snd (case r of (Inl e, ix) \<Rightarrow> f e ix | (Inr x, ix) \<Rightarrow> g x ix))"
  using assms by (cases r; cases "fst r") auto

lemma exclusive_change: "exclusive ix \<Longrightarrow> exclusive (snd (change_document q C r f ix))"
proof -
  assume ix: "exclusive ix"
  have "keeps_apart (\<lambda>ix. let ix = put_document q r d ix in if transactionID ix = 0 then commit C ix else give () ix)" for d
    by (auto simp: keeps_apart_def Let_def give_def exclusive_commit)
  then have "keeps_apart (and_then (getDocument q C r) (\<lambda>d ix.
      let ix = put_document q r (f d) ix in if transactionID ix = 0 then commit C ix else give () ix))"
    by (intro apart)
  then show ?thesis using ix unfolding change_document_def by (intro exclusive_case) (simp_all add: keeps_apart_def)
qed

lemma exclusive_closeTransaction: "exclusive ix \<Longrightarrow> exclusive (snd (closeTransaction C i ix))"
  unfolding closeTransaction_def by (auto intro!: exclusive_case exclusive_commit)

lemma exclusive_index_close: "exclusive ix \<Longrightarrow> exclusive (index_close C ix)"
  by (simp add: index_close_def Let_def exclusive_closeTransaction)

lemma exclusive_call:
  "keeps_apart f \<Longrightarrow> exclusive ix \<Longrightarrow> exclusive (snd (f ix))"
  by (simp add: keeps_apart_def)

lemma exclusive_search: "exclusive ix \<Longrightarrow> exclusive (snd (search_query C qu ix))"
  by (auto simp: search_query_def intro!: exclusive_case exclusive_call apart split: option.split)

lemma exclusive_op: "exclusive ix \<Longrightarrow> exclusive (index_op q C p ix)"
proof (cases p)
  case (IOpen folder missing force)
  then show "exclusive ix \<Longrightarrow> exclusive (index_op q C p ix)"
    by (auto simp: index_open_def Let_def exclusive_index_close intro!: exclusive_case exclusive_call apart)
next
  case (ISearchText a t)
  then show "exclusive ix \<Longrightarrow> exclusive (index_op q C p ix)"
    by (auto simp: index_search_def Let_def exclusive_search split: sum.split option.split)
next
  case (IDocument r)
  then show "exclusive ix \<Longrightarrow> exclusive (index_op q C p ix)"
    by (auto simp: documentForResource_def Let_def intro!: exclusive_case exclusive_call apart)
next
  case ICount
  then show "exclusive ix \<Longrightarrow> exclusive (index_op q C p ix)"
    by (auto simp: resourceCount_def intro!: exclusive_case exclusive_call apart)
next
  case IClear
  have "exclusive (snd (and_then (getIndexReader C) (\<lambda>_. and_then (from_library (maxDoc C)) (\<lambda>n. delete_numbers C [0..<n])) ix))"
    if "exclusive ix" by (rule exclusive_call[OF _ that]) (intro apart)
  then show "exclusive ix \<Longrightarrow> exclusive (index_op q C p ix)" using IClear
    by (auto simp: index_clear_def split: prod.split sum.split)
next
  case IOptimize
  then show "exclusive ix \<Longrightarrow> exclusive (index_op q C p ix)"
    by (auto simp: index_optimize_def intro!: exclusive_call apart)
qed (auto simp: index_addStatement_def index_removeStatement_def exclusive_change exclusive_closeTransaction exclusive_index_close
    exclusive_search startTransaction_def setQueryAnalyzer_def Let_def)

text \<open>Claim C24: whatever calls are made and whatever the library answers, exceptions included, the index never has a writer open together
  with a reader or a searcher.\<close>

theorem reader_and_writer_apart:
  "let ix = fold (index_op q C) ops (new_index l) in \<not> (indexWriter ix \<and> (indexReader ix \<or> searcher ix))"
proof -
  have "exclusive (fold (index_op q C) ops ix)" if "exclusive ix" for ix
    using that by (induction ops arbitrary: ix) (simp_all add: exclusive_op)
  moreover have "exclusive (new_index l)" by (simp add: exclusive_def new_index_def)
  ultimately show ?thesis by (simp add: exclusive_def Let_def)
qed

text \<open>An index whose directory is locked counts as open.\<close>

lemma locked_index_is_open:
  assumes "getDirectory C folder missing (library (index_close C ix)) = (Inr True, l)" "isLocked C l"
  shows "fst (index_open C folder missing False ix) = False \<and> isOpen (snd (index_open C folder missing False ix))"
  using assms by (simp add: index_open_def from_library_def set_index_error_def set_index_message_def isOpen_def)

end
