(* ===== verification/Clucene_Store.thy ===== *)
theory Clucene_Store
  imports Clucene_Index
begin

text \<open>
  The index against its directory. The locale \<open>lucene_directory\<close> says what CLucene's readers, writers and searchers do with
  the documents of a directory, as far as the index relies on it: a reader deletes and a writer adds, what they
  did is in the directory when they are closed, and a searcher sees the directory as it was when it was opened.
  A directory in memory satisfies it.
\<close>

section \<open>What is in a directory\<close>

text \<open>The documents of a reader are numbered, deleted ones keep their number.\<close>

record lucene_view =
  v_exists :: bool
  v_reading :: bool
  v_writing :: bool
  v_searching :: bool
  v_docs :: "content option list"
  v_committed :: "content multiset"
  v_seen :: "content multiset"

fun live :: "content option list \<Rightarrow> content multiset" where
  "live [] = {#}"
| "live (None # cs) = live cs"
| "live (Some c # cs) = add_mset c (live cs)"

definition contents :: "lucene_view \<Rightarrow> content multiset" where
  "contents v = live (v_docs v)"

definition has_term :: "qstring \<Rightarrow> qstring \<Rightarrow> content \<Rightarrow> bool" where
  "has_term f t c \<longleftrightarrow> (\<exists>x \<in># c. field_name x = f \<and> stringValue x = t \<and> field_mode x = Untokenized)"

text \<open>Every field of the name is one term.\<close>

definition only_terms :: "qstring \<Rightarrow> content multiset \<Rightarrow> bool" where
  "only_terms f cs \<longleftrightarrow> (\<forall>c \<in># cs. \<forall>x \<in># c. field_name x = f \<longrightarrow> field_mode x = Untokenized)"

definition numbers :: "(content \<Rightarrow> bool) \<Rightarrow> content option list \<Rightarrow> nat list" where
  "numbers P cs = filter (\<lambda>n. case cs ! n of None \<Rightarrow> False | Some c \<Rightarrow> P c) [0..<length cs]"

definition deleted :: "(content \<Rightarrow> bool) \<Rightarrow> content option list \<Rightarrow> content option list" where
  "deleted P cs = map (\<lambda>x. case x of None \<Rightarrow> None | Some c \<Rightarrow> if P c then None else Some c) cs"

text \<open>A document as it is read: the stored fields, with the information whether they are indexed.\<close>

definition read_as :: "content \<Rightarrow> content \<Rightarrow> bool" where
  "read_as c d \<longleftrightarrow> {#(field_name x, stringValue x, isIndexed x). x \<in># d#} =
     {#(field_name x, stringValue x, isIndexed x). x \<in># {#x \<in># c. field_stored x#}#}"

lemma live_append [simp]: "live (xs @ ys) = live xs + live ys"
  by (induction xs rule: live.induct) auto

lemma live_deleted [simp]: "live (deleted P cs) = {#c \<in># live cs. \<not> P c#}"
  by (induction cs rule: live.induct) (auto simp: deleted_def)

lemma in_live: "c \<in># live cs \<longleftrightarrow> Some c \<in> set cs"
  by (induction cs rule: live.induct) auto

lemma live_None [simp]: "live (replicate n None) = {#}"
  by (induction n) auto

section \<open>The contract\<close>

locale lucene_directory = lucene_document C for C :: "('d, 'q, 'l) clucene" +
  fixes view :: "'l \<Rightarrow> lucene_view"
    and matching :: "'q \<Rightarrow> content \<Rightarrow> bool"
  assumes exists: "indexExists C l = v_exists (view l)"
    and absent: "\<not> v_exists (view l) \<Longrightarrow> v_committed (view l) = {#} \<and> \<not> v_reading (view l) \<and> \<not> v_writing (view l)"
    and idle: "\<not> v_reading (view l) \<Longrightarrow> \<not> v_writing (view l) \<Longrightarrow> contents (view l) = v_committed (view l)"
    and open_reader: "v_exists (view l) \<Longrightarrow> \<not> v_reading (view l) \<Longrightarrow> \<not> v_writing (view l) \<Longrightarrow>
      \<exists>l' cs. open_reader C l = (Inr (), l') \<and> view l' = (view l)\<lparr>v_reading := True, v_docs := cs\<rparr> \<and> live cs = v_committed (view l)"
    and close_reader: "v_reading (view l) \<Longrightarrow>
      \<exists>l' cs. close_reader C l = (Inr (), l') \<and> live cs = contents (view l) \<and>
        view l' = (view l)\<lparr>v_reading := False, v_docs := cs, v_committed := contents (view l)\<rparr>"
    and open_writer: "\<not> v_reading (view l) \<Longrightarrow> \<not> v_writing (view l) \<Longrightarrow>
      \<exists>l' cs. open_writer C (\<not> v_exists (view l)) l = (Inr (), l') \<and>
        view l' = (view l)\<lparr>v_exists := True, v_writing := True, v_docs := cs\<rparr> \<and> live cs = v_committed (view l)"
    and close_writer: "v_writing (view l) \<Longrightarrow>
      \<exists>l' cs. close_writer C l = (Inr (), l') \<and> live cs = contents (view l) \<and>
        view l' = (view l)\<lparr>v_writing := False, v_docs := cs, v_committed := contents (view l)\<rparr>"
    and open_searcher: "v_exists (view l) \<Longrightarrow> \<not> v_writing (view l) \<Longrightarrow> \<not> v_searching (view l) \<Longrightarrow>
      \<exists>l'. open_searcher C l = (Inr (), l') \<and> view l' = (view l)\<lparr>v_searching := True, v_seen := v_committed (view l)\<rparr>"
    and close_searcher: "v_searching (view l) \<Longrightarrow>
      \<exists>l' cs. close_searcher C l = (Inr (), l') \<and> view l' = (view l)\<lparr>v_searching := False, v_seen := cs\<rparr>"
    and termDocs: "v_reading (view l) \<Longrightarrow> only_terms f (contents (view l)) \<Longrightarrow>
      \<exists>l'. termDocs C f t l = (Inr (numbers (has_term f t) (v_docs (view l))), l') \<and> view l' = view l"
    and document: "v_reading (view l) \<Longrightarrow> n < length (v_docs (view l)) \<Longrightarrow> v_docs (view l) ! n = Some c \<Longrightarrow>
      \<exists>l' d. document C n l = (Inr d, l') \<and> view l' = view l \<and> read_as c (content C d)"
    and deleteDocuments: "v_reading (view l) \<Longrightarrow> only_terms f (contents (view l)) \<Longrightarrow>
      \<exists>l'. deleteDocuments C f t l = (Inr (), l') \<and> view l' = (view l)\<lparr>v_docs := deleted (has_term f t) (v_docs (view l))\<rparr>"
    and deleteDocument: "v_reading (view l) \<Longrightarrow> n < length (v_docs (view l)) \<Longrightarrow>
      \<exists>l'. deleteDocument C n l = (Inr (), l') \<and> view l' = (view l)\<lparr>v_docs := (v_docs (view l))[n := None]\<rparr>"
    and maxDoc: "v_reading (view l) \<Longrightarrow> \<exists>l'. maxDoc C l = (Inr (length (v_docs (view l))), l') \<and> view l' = view l"
    and numDocs: "v_reading (view l) \<Longrightarrow> \<exists>l'. numDocs C l = (Inr (size (contents (view l))), l') \<and> view l' = view l"
    and addDocument: "v_writing (view l) \<Longrightarrow>
      \<exists>l' cs. addDocument C d l = (Inr (), l') \<and> view l' = (view l)\<lparr>v_docs := cs\<rparr> \<and> live cs = add_mset (content C d) (contents (view l))"
    and optimize: "v_writing (view l) \<Longrightarrow>
      \<exists>l' cs. optimize_index C l = (Inr (), l') \<and> view l' = (view l)\<lparr>v_docs := cs\<rparr> \<and> live cs = contents (view l)"
    and search: "v_searching (view l) \<Longrightarrow>
      \<exists>l' hits cs. search_index C qu l = (Inr (Some hits), l') \<and> view l' = view l \<and>
        mset cs = {#c \<in># v_seen (view l). matching qu c#} \<and> list_all2 read_as cs (map (content C \<circ> fst) hits)"

section \<open>The invariant of the index\<close>

text \<open>A node that can be a subject. No URI begins with the prefix of blank nodes.\<close>

definition subject_node :: "node \<Rightarrow> bool" where
  "subject_node n \<longleftrightarrow> node_isResource n \<and> take 1 (encoded (node_uri n)) \<noteq> bnodeIdPrefix \<or> node_isBlank n"

definition well_stored :: "content \<Rightarrow> bool" where
  "well_stored c \<longleftrightarrow> (\<forall>x \<in># c. isPropertyField (field_name x) \<longrightarrow> field_stored x)"

definition index_handles :: "('l \<Rightarrow> lucene_view) \<Rightarrow> ('d, 'l) lucene_index \<Rightarrow> bool" where
  "index_handles view ix \<longleftrightarrow>
     v_reading (view (library ix)) = indexReader ix \<and> v_writing (view (library ix)) = indexWriter ix \<and>
     v_searching (view (library ix)) = searcher ix \<and> \<not> (indexWriter ix \<and> (indexReader ix \<or> searcher ix)) \<and>
     (indexReader ix \<or> indexWriter ix \<longrightarrow> v_exists (view (library ix)))"

definition documents_ok :: "content multiset \<Rightarrow> bool" where
  "documents_ok cs \<longleftrightarrow> (\<forall>c \<in># cs. well_stored c \<and> (\<exists>i. document_of i c)) \<and> (\<forall>i. size {#c \<in># cs. document_of i c#} \<le> 1)"

definition cache_ok :: "('d, 'q, 'l) clucene \<Rightarrow> (node \<times> 'd) list \<Rightarrow> bool" where
  "cache_ok C es \<longleftrightarrow> distinct (map fst es) \<and>
     (\<forall>(n, d) \<in> set es. subject_node n \<and> document_of (getId n) (content C d) \<and> well_stored (content C d))"

definition index_inv :: "('d, 'q, 'l) clucene \<Rightarrow> ('l \<Rightarrow> lucene_view) \<Rightarrow> ('d, 'l) lucene_index \<Rightarrow> bool" where
  "index_inv C view ix \<longleftrightarrow> index_handles view ix \<and> documents_ok (contents (view (library ix))) \<and> cache_ok C (documentCache ix)"

text \<open>What the index shows of a resource.\<close>

definition stored_properties :: "qstring \<Rightarrow> content multiset \<Rightarrow> (qstring \<times> qstring) multiset" where
  "stored_properties i cs = sum_mset (image_mset properties {#c \<in># cs. document_of i c#})"

definition index_shows :: "qt \<Rightarrow> ('d, 'q, 'l) clucene \<Rightarrow> ('l \<Rightarrow> lucene_view) \<Rightarrow> ('d, 'l) lucene_index \<Rightarrow> node \<Rightarrow> (qstring \<times> qstring) multiset" where
  "index_shows q C view ix n = (case cached q n (documentCache ix) of
       Some d \<Rightarrow> properties (content C d)
     | None \<Rightarrow> stored_properties (getId n) (contents (view (library ix))))"

text \<open>Only handles and numbers have changed.\<close>

definition same_contents :: "('d, 'q, 'l) clucene \<Rightarrow> ('l \<Rightarrow> lucene_view) \<Rightarrow> ('d, 'l) lucene_index \<Rightarrow> ('d, 'l) lucene_index \<Rightarrow> bool" where
  "same_contents C view ix ix' \<longleftrightarrow> index_inv C view ix' \<and> contents (view (library ix')) = contents (view (library ix)) \<and>
     documentCache ix' = documentCache ix \<and> transactionID ix' = transactionID ix \<and> index_error ix' = index_error ix \<and>
     (v_exists (view (library ix)) \<longrightarrow> v_exists (view (library ix')))"

section \<open>Identifiers\<close>

lemma getId_inj: "subject_node a \<Longrightarrow> subject_node b \<Longrightarrow> getId a = getId b \<longleftrightarrow> a = b"
  by (cases a; cases b) (auto simp: subject_node_def getId_def node_test_defs bnodeIdPrefix_def intro: qurl.expand dest!: sym[of "_ # _"])

lemma cache_key_iff: "subject_node a \<Longrightarrow> subject_node b \<Longrightarrow> cache_key q a b \<longleftrightarrow> a = b"
  by (cases a; cases b) (auto simp: subject_node_def cache_key_def node_test_defs node_eq_def)

lemma document_of_unique: "document_of i c \<Longrightarrow> document_of j c \<Longrightarrow> i = j"
  by (auto simp: document_of_def id_field_def)

lemma document_id_only: "document_of i c \<Longrightarrow> x \<in># c \<Longrightarrow> field_name x = idFieldName \<Longrightarrow> x = id_field i"
proof -
  assume d: "document_of i c" and x: "x \<in># c" "field_name x = idFieldName"
  have "x \<in># {#x \<in># c. field_name x = idFieldName#}" using x by simp
  then show ?thesis unfolding d[unfolded document_of_def] by simp
qed

lemma has_id_term: "document_of j c \<Longrightarrow> has_term idFieldName i c \<longleftrightarrow> i = j"
proof -
  assume d: "document_of j c"
  then have "set_mset {#x \<in># c. field_name x = idFieldName#} = {id_field j}" by (simp add: document_of_def)
  then have e: "x \<in># c \<and> field_name x = idFieldName \<longleftrightarrow> x = id_field j" for x by auto
  have "has_term idFieldName i c \<longleftrightarrow>
      (\<exists>x. (x \<in># c \<and> field_name x = idFieldName) \<and> stringValue x = i \<and> field_mode x = Untokenized)"
    by (auto simp: has_term_def)
  also have "\<dots> \<longleftrightarrow> i = j" unfolding e by (auto simp: id_field_def)
  finally show "has_term idFieldName i c \<longleftrightarrow> i = j" .
qed

section \<open>Readers, writers and searchers keep the contents\<close>

context lucene_directory begin

lemma same_refl: "index_inv C view ix \<Longrightarrow> same_contents C view ix ix"
  by (simp add: same_contents_def)

lemma same_trans: "same_contents C view a b \<Longrightarrow> same_contents C view b c \<Longrightarrow> same_contents C view a c"
  by (simp add: same_contents_def)

lemma same_shows: "same_contents C view a b \<Longrightarrow> index_shows q C view b n = index_shows q C view a n"
  by (auto simp: same_contents_def index_shows_def split: option.split)

lemma closeWriter:
  assumes "index_inv C view ix"
  shows "same_contents C view ix (closeWriter C ix) \<and> \<not> indexWriter (closeWriter C ix) \<and>
    indexReader (closeWriter C ix) = indexReader ix \<and> searcher (closeWriter C ix) = searcher ix"
proof (cases "indexWriter ix")
  case True
  then have "v_writing (view (library ix))" using assms by (simp add: index_inv_def index_handles_def)
  from close_writer[OF this] show ?thesis using True assms
    by (auto simp: closeWriter_def from_library_def same_contents_def index_inv_def index_handles_def contents_def)
qed (use assms in \<open>simp add: closeWriter_def same_refl\<close>)

lemma closeSearcher:
  assumes "index_inv C view ix" "searcher ix"
  shows "same_contents C view ix ((snd (from_library (close_searcher C) ix))\<lparr>searcher := False\<rparr>)"
proof -
  have "v_searching (view (library ix))" using assms by (simp add: index_inv_def index_handles_def)
  from close_searcher[OF this] show ?thesis using assms
    by (auto simp: from_library_def same_contents_def index_inv_def index_handles_def contents_def)
qed

lemma closeReader:
  assumes "index_inv C view ix"
  shows "same_contents C view ix (closeReader C ix) \<and> \<not> indexReader (closeReader C ix) \<and> \<not> searcher (closeReader C ix) \<and>
    indexWriter (closeReader C ix) = indexWriter ix \<and>
    (indexReader ix \<longrightarrow> v_committed (view (library (closeReader C ix))) = contents (view (library ix)))"
proof -
  define jx where "jx = (if searcher ix then (snd (from_library (close_searcher C) ix))\<lparr>searcher := False\<rparr> else ix)"
  have j: "same_contents C view ix jx" "\<not> searcher jx" "indexReader jx = indexReader ix" "indexWriter jx = indexWriter ix"
    using assms closeSearcher same_refl by (auto simp: jx_def from_library_def split: prod.splits)
  have inv: "index_inv C view jx" using j(1) by (simp add: same_contents_def)
  have c: "closeReader C ix = (if indexReader jx then (snd (from_library (close_reader C) jx))\<lparr>indexReader := False\<rparr> else jx)"
    by (simp add: closeReader_def jx_def Let_def)
  show ?thesis
  proof (cases "indexReader jx")
    case True
    then have "v_reading (view (library jx))" using inv by (simp add: index_inv_def index_handles_def)
    from close_reader[OF this] show ?thesis using True inv j
      by (auto simp: c from_library_def same_contents_def index_inv_def index_handles_def contents_def)
  qed (use j c in simp)
qed

lemma getIndexReader:
  assumes "index_inv C view ix" "v_exists (view (library ix))"
  shows "\<exists>ix'. getIndexReader C ix = (Inr (), ix') \<and> same_contents C view ix ix' \<and> indexReader ix'"
proof (cases "indexReader ix")
  case False
  define jx where "jx = closeWriter C ix"
  have j: "same_contents C view ix jx" "\<not> indexWriter jx" "\<not> indexReader jx" "index_inv C view jx" "v_exists (view (library jx))"
    using closeWriter[OF assms(1)] False assms(2) by (simp_all add: jx_def same_contents_def)
  then have v: "\<not> v_reading (view (library jx))" "\<not> v_writing (view (library jx))" by (simp_all add: index_inv_def index_handles_def)
  from open_reader[OF j(5) v] idle[OF v] show ?thesis using False j
    by (auto simp: getIndexReader_def from_library_def same_contents_def index_inv_def index_handles_def contents_def
        simp flip: jx_def)
qed (use assms same_refl in \<open>simp add: getIndexReader_def\<close>)

lemma getIndexWriter:
  assumes "index_inv C view ix"
  shows "\<exists>ix'. getIndexWriter C ix = (Inr (), ix') \<and> same_contents C view ix ix' \<and> indexWriter ix' \<and> v_exists (view (library ix'))"
proof (cases "indexWriter ix")
  case False
  define jx where "jx = closeReader C ix"
  have j: "same_contents C view ix jx" "\<not> indexWriter jx" "\<not> indexReader jx" "\<not> searcher jx" "index_inv C view jx"
    using closeReader[OF assms] False by (simp_all add: jx_def same_contents_def)
  then have v: "\<not> v_reading (view (library jx))" "\<not> v_writing (view (library jx))" by (simp_all add: index_inv_def index_handles_def)
  from open_writer[OF v] idle[OF v] show ?thesis using False j
    by (auto simp: getIndexWriter_def Let_def indexPresent_def exists from_library_def same_contents_def index_inv_def
        index_handles_def contents_def simp flip: jx_def)
qed (use assms same_refl in \<open>auto simp: getIndexWriter_def index_inv_def index_handles_def\<close>)

lemma getIndexSearcher:
  assumes "index_inv C view ix" "v_exists (view (library ix))"
  shows "\<exists>ix'. getIndexSearcher C ix = (Inr (), ix') \<and> same_contents C view ix ix' \<and> searcher ix' \<and>
    (\<not> searcher ix \<longrightarrow> \<not> indexReader ix \<longrightarrow> v_seen (view (library ix')) = contents (view (library ix)))"
proof (cases "searcher ix")
  case False
  define jx where "jx = closeWriter C ix"
  have j: "same_contents C view ix jx" "\<not> indexWriter jx" "indexReader jx = indexReader ix" "\<not> searcher jx" "index_inv C view jx"
      "v_exists (view (library jx))"
    using closeWriter[OF assms(1)] False assms(2) by (simp_all add: jx_def same_contents_def)
  then have v: "\<not> v_writing (view (library jx))" "\<not> v_searching (view (library jx))"
    "\<not> indexReader ix \<Longrightarrow> v_committed (view (library jx)) = contents (view (library jx))"
    using idle[of "library jx"] by (auto simp: index_inv_def index_handles_def)
  from open_searcher[OF j(6) v(1,2)] v(3) show ?thesis using False j
    by (auto simp: getIndexSearcher_def from_library_def same_contents_def index_inv_def index_handles_def contents_def
        simp flip: jx_def)
qed (use assms same_refl in \<open>simp add: getIndexSearcher_def\<close>)

end

section \<open>Finding a document\<close>

lemma documents_ids:
  assumes "documents_ok cs" "c \<in># cs"
  shows "has_term idFieldName i c \<longleftrightarrow> document_of i c"
proof -
  obtain j where j: "document_of j c" using assms by (auto simp: documents_ok_def)
  show ?thesis unfolding has_id_term[OF j, of i] using j document_of_unique[OF _ j, of i] by blast
qed

lemma documents_only_ids: "documents_ok cs \<Longrightarrow> only_terms idFieldName cs"
proof -
  assume d: "documents_ok cs"
  have "field_mode x = Untokenized" if c: "c \<in># cs" and x: "x \<in># c" "field_name x = idFieldName" for c x
  proof -
    obtain i where "document_of i c" using d c by (auto simp: documents_ok_def)
    from document_id_only[OF this x] show ?thesis by (simp add: id_field_def)
  qed
  then show ?thesis by (auto simp: only_terms_def)
qed

lemma numbers_some: "n \<in> set (numbers P cs) \<Longrightarrow> n < length cs \<and> (\<exists>c. cs ! n = Some c \<and> P c \<and> c \<in># live cs)"
  by (auto simp: numbers_def in_live in_set_conv_nth split: option.splits)

lemma numbers_none: "numbers P cs = [] \<longleftrightarrow> (\<forall>c \<in># live cs. \<not> P c)"
proof
  assume "numbers P cs = []"
  then have "\<forall>n < length cs. case cs ! n of None \<Rightarrow> True | Some c \<Rightarrow> \<not> P c"
    by (auto simp: numbers_def filter_empty_conv split: option.splits)
  then show "\<forall>c \<in># live cs. \<not> P c" by (metis in_live in_set_conv_nth option.simps(5))
next
  assume "\<forall>c \<in># live cs. \<not> P c"
  then show "numbers P cs = []" using numbers_some[of _ P cs] by (cases "numbers P cs") auto
qed

lemma unique_document:
  assumes "documents_ok cs" "c \<in># cs" "document_of i c"
  shows "{#c \<in># cs. document_of i c#} = {#c#}"
proof -
  have "c \<in># {#c \<in># cs. document_of i c#}" "size {#c \<in># cs. document_of i c#} \<le> 1"
    using assms by (auto simp: documents_ok_def)
  then obtain m where "{#c \<in># cs. document_of i c#} = add_mset c m" "size {#c \<in># cs. document_of i c#} \<le> 1"
    using multi_member_split[of c "{#c \<in># cs. document_of i c#}"] by blast
  then show ?thesis by simp
qed

lemma stored_one: "documents_ok cs \<Longrightarrow> c \<in># cs \<Longrightarrow> document_of i c \<Longrightarrow> stored_properties i cs = properties c"
  by (simp add: stored_properties_def unique_document)

lemma stored_none: "(\<And>c. c \<in># cs \<Longrightarrow> \<not> document_of i c) \<Longrightarrow> stored_properties i cs = {#}"
  by (simp add: stored_properties_def filter_none[THEN iffD2])

text \<open>What is read from the directory has the properties that were stored.\<close>

definition named :: "(qstring \<times> qstring \<times> bool) multiset \<Rightarrow> (qstring \<times> qstring) multiset" where
  "named m = {#(f, t). (f, t, b) \<in># {#p \<in># m. isPropertyField (fst p)#}#}"

lemma properties_named: "properties c = named {#(field_name x, stringValue x, isIndexed x). x \<in># c#}"
  by (induction c) (auto simp: named_def)

lemma properties_stored: "well_stored c \<Longrightarrow> properties {#x \<in># c. field_stored x#} = properties c"
  by (induction c) (auto simp: well_stored_def)

lemma read_properties: "read_as c d \<Longrightarrow> well_stored c \<Longrightarrow> properties d = properties c"
  using properties_stored[of c] by (simp add: properties_named read_as_def)

context lucene_directory begin

lemma from_view:
  assumes "index_inv C view ix" "f (library ix) = (r, l')" "view l' = view (library ix)"
  shows "from_library f ix = (r, ix\<lparr>library := l'\<rparr>) \<and> same_contents C view ix (ix\<lparr>library := l'\<rparr>)"
  using assms by (simp add: from_library_def same_contents_def index_inv_def index_handles_def)

lemma find_document:
  assumes inv: "index_inv C view ix" and ex: "v_exists (view (library ix))"
  shows "\<exists>old ix'. find_document C i ix = (Inr old, ix') \<and> same_contents C view ix ix' \<and>
    stored_properties i (contents (view (library ix))) = (case old of None \<Rightarrow> {#} | Some d \<Rightarrow> properties (content C d))"
proof -
  let ?cs = "contents (view (library ix))"
  have ok: "documents_ok ?cs" using inv by (simp add: index_inv_def)
  obtain a where a: "getIndexReader C ix = (Inr (), a)" "same_contents C view ix a" "indexReader a"
    using getIndexReader[OF inv ex] by blast
  have ia: "index_inv C view a" and ca: "contents (view (library a)) = ?cs" and ea: "v_exists (view (library a))"
    using a(2) ex by (simp_all add: same_contents_def)
  have ra: "v_reading (view (library a))" using ia a(3) by (simp add: index_inv_def index_handles_def)
  let ?ns = "numbers (has_term idFieldName i) (v_docs (view (library a)))"
  obtain l where l: "termDocs C idFieldName i (library a) = (Inr ?ns, l)" "view l = view (library a)"
    using termDocs[OF ra, of idFieldName i] documents_only_ids[OF ok] ca by auto
  define b where "b = a\<lparr>library := l\<rparr>"
  have b: "from_library (termDocs C idFieldName i) a = (Inr ?ns, b)" "same_contents C view a b" "indexReader b" "view (library b) = view (library a)"
    using from_view[of a "termDocs C idFieldName i", OF ia l] a(3) l(2) by (simp_all add: b_def)
  have step: "find_document C i ix = (if ?ns \<noteq> [] then and_then (getIndexReader C) (\<lambda>_. and_then (from_library (document C (hd ?ns))) (\<lambda>d. give (Some d))) b
      else give None b)"
    by (simp add: find_document_def and_then_def a(1) b(1))
  show ?thesis
  proof (cases "?ns = []")
    case True
    then have "\<forall>c \<in># ?cs. \<not> document_of i c" using ca documents_ids[OF ok] by (simp add: numbers_none flip: contents_def)
    then have "stored_properties i ?cs = {#}" by (intro stored_none) blast
    then show ?thesis using True step same_trans[OF a(2) b(2)] by (intro exI[of _ None] exI[of _ b]) (simp add: give_def)
  next
    case False
    then obtain c where n: "hd ?ns < length (v_docs (view (library a)))" "v_docs (view (library a)) ! hd ?ns = Some c"
        "has_term idFieldName i c" "c \<in># ?cs"
      using numbers_some[OF hd_in_set[OF False]] ca by (auto simp: contents_def)
    have "v_reading (view (library b))" using ra b(4) by simp
    from document[OF this, of "hd ?ns" c] n(1,2) b(4) obtain l' d
      where d: "document C (hd ?ns) (library b) = (Inr d, l')" "view l' = view (library b)" "read_as c (content C d)" by auto
    have ib: "index_inv C view b" using b(2) by (simp add: same_contents_def)
    note e = from_view[of b "document C (hd ?ns)", OF ib d(1,2)]
    have "properties (content C d) = stored_properties i ?cs"
      using read_properties[OF d(3)] stored_one[OF ok n(4)] documents_ids[OF ok n(4)] n(3,4) ok by (simp add: documents_ok_def)
    then show ?thesis
      using False step b(3) e same_trans[OF a(2) same_trans[OF b(2)]]
      by (intro exI[of _ "Some d"] exI[of _ "b\<lparr>library := l'\<rparr>"]) (simp add: and_then_def getIndexReader_def give_def)
  qed
qed

lemma well_stored_add: "well_stored (add_mset x c) \<longleftrightarrow> (isPropertyField (field_name x) \<longrightarrow> field_stored x) \<and> well_stored c"
  by (auto simp: well_stored_def)

lemma stored_fields [simp]: "field_stored (property_field f t u)" by (simp add: property_field_def)

lemma well_stored_addProperty [simp]: "well_stored (content C (addProperty C f t u d)) = well_stored (content C d)"
  by (simp add: content_addProperty well_stored_add)

lemma well_stored_filter: "well_stored c \<Longrightarrow> well_stored {#x \<in># c. P x#}"
  by (simp add: well_stored_def)

lemma well_stored_kept: "well_stored (content C (fold (keep_value C f t u) vs d)) = well_stored (content C d)"
  by (induction vs arbitrary: d) (simp_all add: keep_value_def)

lemma well_stored_texts: "well_stored (content C (fold (keep_text C) xs d)) = well_stored (content C d)"
  by (induction xs arbitrary: d) (simp_all add: keep_text_def add well_stored_add)

lemma well_stored_removeProperty: "well_stored (content C d) \<Longrightarrow> well_stored (content C (removeProperty C f t u d))"
  by (auto simp: removeProperty_def Let_def well_stored_kept well_stored_texts removeFields intro!: well_stored_filter split: option.split)

lemma copied:
  shows "properties (content C (fold (copy_field C) xs d)) = properties (mset xs) + properties (content C d)"
    and "document_of i (content C (fold (copy_field C) xs d)) = document_of i (content C d)"
    and "well_stored (content C (fold (copy_field C) xs d)) = well_stored (content C d)"
  by (induction xs arbitrary: d) (simp_all add: copy_field_def)

end

section \<open>The cache\<close>

lemma cached_map_of: "cache_ok C es \<Longrightarrow> subject_node r \<Longrightarrow> cached q r es = map_of es r"
proof (induction es)
  case (Cons e es)
  obtain n d where e: "e = (n, d)" by (cases e)
  have "subject_node n" "cache_ok C es" using Cons.prems by (auto simp: cache_ok_def e)
  then show ?case using Cons by (simp add: e cache_key_iff)
qed simp

lemma map_of_put:
  assumes "cache_ok C es" "subject_node r" "n \<in> fst ` set es \<or> n \<noteq> r"
  shows "map_of (map (\<lambda>(n, e). (n, if cache_key q r n then d else e)) es) n = (if n = r then Some d else map_of es n)"
  using assms
proof (induction es)
  case (Cons e es)
  obtain m x where e: "e = (m, x)" by (cases e)
  have "subject_node m" "cache_ok C es" using Cons.prems by (auto simp: cache_ok_def e)
  moreover have "n = m \<or> n \<in> fst ` set es \<or> n \<noteq> r" using Cons.prems(3) by (auto simp: e)
  ultimately show ?case using Cons by (cases "n = m") (auto simp: e cache_key_iff)
qed simp

lemma map_of_keys: "fst \<circ> (\<lambda>(n, e). (n, f n e)) = fst"
  by auto

context lucene_directory begin

lemma getDocument:
  assumes inv: "index_inv C view ix" and r: "subject_node r"
  shows "\<exists>d ix'. getDocument q C r ix = (Inr d, ix') \<and> index_inv C view ix' \<and> cached q r (documentCache ix') = Some d \<and>
    properties (content C d) = index_shows q C view ix r \<and>
    (\<forall>n. subject_node n \<longrightarrow> index_shows q C view ix' n = index_shows q C view ix n) \<and>
    transactionID ix' = transactionID ix \<and> index_error ix' = index_error ix \<and>
    (v_exists (view (library ix)) \<longrightarrow> v_exists (view (library ix')))"
proof (cases "cached q r (documentCache ix)")
  case (Some d)
  then show ?thesis using inv by (simp add: getDocument_def index_shows_def)
next
  case None
  have c: "cache_ok C (documentCache ix)" and ok: "documents_ok (contents (view (library ix)))" using inv by (simp_all add: index_inv_def)
  let ?new = "addID C (getId r) (doc_new C)"
  obtain old jx where old: "(if indexPresent C ix then find_document C (getId r) else give None) ix = (Inr old, jx)"
      "same_contents C view ix jx"
      "stored_properties (getId r) (contents (view (library ix))) = (case old of None \<Rightarrow> {#} | Some d \<Rightarrow> properties (content C d))"
  proof (cases "v_exists (view (library ix))")
    case True
    then show thesis using find_document[OF inv True, of "getId r"] that by (auto simp: indexPresent_def exists)
  next
    case False
    then have "contents (view (library ix)) = {#}" using absent[OF False] idle[of "library ix"] by simp
    then show thesis using False that[of None ix] inv same_refl by (simp add: indexPresent_def exists give_def stored_properties_def)
  qed
  let ?d = "case old of None \<Rightarrow> ?new | Some e \<Rightarrow> fold (copy_field C) (doc_fields C e) ?new"
  define kx where "kx = jx\<lparr>documentCache := documentCache jx @ [(r, ?d)]\<rparr>"
  have g: "getDocument q C r ix = (Inr ?d, kx)"
    using None old(1) by (simp add: getDocument_def Let_def and_then_def kx_def)
  have new_doc: "document_of (getId r) (content C ?new)" "well_stored (content C ?new)" "properties (content C ?new) = {#}"
    by (simp_all add: add_id document_of_def well_stored_def)
  have d: "document_of (getId r) (content C ?d)" "well_stored (content C ?d)" "properties (content C ?d) = index_shows q C view ix r"
    using old(3) None new_doc by (auto simp: copied index_shows_def content_def[symmetric] split: option.splits)
  have fresh: "r \<notin> fst ` set (documentCache ix)" using None unfolding cached_map_of[OF c r] by (simp add: map_of_eq_None_iff)
  have j: "documentCache jx = documentCache ix" "index_inv C view jx" "contents (view (library jx)) = contents (view (library ix))"
    using old(2) by (simp_all add: same_contents_def)
  have k: "cache_ok C (documentCache kx)" using c fresh d r by (auto simp: kx_def j(1) cache_ok_def)
  then have inv': "index_inv C view kx" using j by (simp add: kx_def index_inv_def index_handles_def)
  have shown: "index_shows q C view kx n = index_shows q C view ix n" if n: "subject_node n" for n
  proof (cases "n = r")
    case True
    then show ?thesis using d(3) fresh None unfolding index_shows_def cached_map_of[OF k n] cached_map_of[OF c n]
      by (simp add: kx_def j map_of_append map_add_def map_of_eq_None_iff[THEN iffD2])
  next
    case False
    then show ?thesis unfolding index_shows_def cached_map_of[OF k n] cached_map_of[OF c n]
      by (simp add: kx_def j map_add_def split: option.split)
  qed
  have "cached q r (documentCache kx) = Some ?d"
    using fresh unfolding cached_map_of[OF k r] by (simp add: kx_def j map_add_def map_of_eq_None_iff[THEN iffD2])
  then show ?thesis using g inv' d shown old(2) by (intro exI[of _ ?d] exI[of _ kx]) (auto simp: kx_def same_contents_def)
qed

lemma put_document:
  assumes inv: "index_inv C view ix" and r: "subject_node r" and d: "cached q r (documentCache ix) = Some e"
    and e: "document_of (getId r) (content C d)" "well_stored (content C d)"
  shows "index_inv C view (put_document q r d ix) \<and>
    (\<forall>n. subject_node n \<longrightarrow> index_shows q C view (put_document q r d ix) n =
      (if n = r then properties (content C d) else index_shows q C view ix n))"
proof
  have c: "cache_ok C (documentCache ix)" using inv by (simp add: index_inv_def)
  have r_in: "r \<in> fst ` set (documentCache ix)"
    using d unfolding cached_map_of[OF c r] by (metis map_of_eq_None_iff option.distinct(1))
  have k: "cache_ok C (documentCache (put_document q r d ix))"
    using c e r by (auto simp: cache_ok_def put_document_def map_of_keys cache_key_iff split: if_splits)
  then show "index_inv C view (put_document q r d ix)" using inv by (simp add: index_inv_def index_handles_def put_document_def)
  show "\<forall>n. subject_node n \<longrightarrow> index_shows q C view (put_document q r d ix) n =
      (if n = r then properties (content C d) else index_shows q C view ix n)"
  proof (intro allI impI)
    fix n assume n: "subject_node n"
    have "map_of (documentCache (put_document q r d ix)) n = (if n = r then Some d else map_of (documentCache ix) n)"
      using map_of_put[OF c r, of n q d] r_in unfolding put_document_def by (cases "n = r") simp_all
    then show "index_shows q C view (put_document q r d ix) n = (if n = r then properties (content C d) else index_shows q C view ix n)"
      unfolding index_shows_def cached_map_of[OF k n] cached_map_of[OF c n] by (simp add: put_document_def split: option.split)
  qed
qed

end

section \<open>Commit\<close>

lemma documents_subset: "documents_ok cs \<Longrightarrow> ds \<subseteq># cs \<Longrightarrow> documents_ok ds"
proof -
  assume ok: "documents_ok cs" and sub: "ds \<subseteq># cs"
  have "size {#c \<in># ds. document_of i c#} \<le> 1" for i
    using size_mset_mono[OF multiset_filter_mono[OF sub]] ok unfolding documents_ok_def by (meson order_trans)
  then show ?thesis using ok mset_subset_eqD[OF sub] by (auto simp: documents_ok_def)
qed

lemma documents_filter: "documents_ok cs \<Longrightarrow> documents_ok {#c \<in># cs. P c#}"
  by (erule documents_subset) simp

lemma documents_add:
  assumes "documents_ok cs" "document_of i c" "well_stored c" "\<forall>c \<in># cs. \<not> document_of i c"
  shows "documents_ok (add_mset c cs)"
proof -
  have "{#c \<in># cs. document_of i c#} = {#}" using assms(4) by (simp add: filter_none)
  then have "size {#x \<in># add_mset c cs. document_of j x#} \<le> 1" for j
    using assms(1,2) document_of_unique[of i c j] by (cases "j = i") (auto simp: documents_ok_def)
  then show ?thesis using assms by (auto simp: documents_ok_def)
qed

lemma stored_add:
  assumes "document_of j c"
  shows "stored_properties i (add_mset c cs) = (if i = j then properties c else {#}) + stored_properties i cs"
  using assms document_of_unique[of i c j] by (cases "i = j") (auto simp: stored_properties_def)

context lucene_directory begin

lemma doc_get_id: "document_of i (content C d) \<Longrightarrow> doc_get C idFieldName d = Some i"
  using get[of idFieldName d] by (auto simp: document_of_def split: option.splits)

definition forgets :: "(node \<times> 'd) list \<Rightarrow> content \<Rightarrow> bool" where
  "forgets es c \<longleftrightarrow> (\<exists>(n, d) \<in> set es. document_of (getId n) c)"

lemma delete_old:
  assumes "index_inv C view ix" "v_exists (view (library ix))" "cache_ok C es"
  shows "\<exists>ix'. delete_old C es ix = (Inr (), ix') \<and> index_inv C view ix' \<and> v_exists (view (library ix')) \<and>
    contents (view (library ix')) = {#c \<in># contents (view (library ix)). \<not> forgets es c#} \<and>
    documentCache ix' = documentCache ix \<and> transactionID ix' = transactionID ix \<and> index_error ix' = index_error ix"
  using assms
proof (induction es arbitrary: ix)
  case Nil
  then show ?case by (simp add: give_def forgets_def)
next
  case (Cons e es)
  obtain n d where e: "e = (n, d)" by (cases e)
  have es: "cache_ok C es" and d: "document_of (getId n) (content C d)" using Cons.prems(3) by (auto simp: cache_ok_def e)
  obtain a where a: "getIndexReader C ix = (Inr (), a)" "same_contents C view ix a" "indexReader a"
    using getIndexReader[OF Cons.prems(1,2)] by blast
  have ia: "index_inv C view a" and ok: "documents_ok (contents (view (library a)))" and ea: "v_exists (view (library a))"
    using a(2) Cons.prems(2) unfolding same_contents_def index_inv_def by auto
  have ra: "v_reading (view (library a))" using ia a(3) by (simp add: index_inv_def index_handles_def)
  obtain l where l: "deleteDocuments C idFieldName (getId n) (library a) = (Inr (), l)"
      "view l = (view (library a))\<lparr>v_docs := deleted (has_term idFieldName (getId n)) (v_docs (view (library a)))\<rparr>"
    using deleteDocuments[OF ra documents_only_ids[OF ok]] by blast
  define b where "b = a\<lparr>library := l\<rparr>"
  have "contents (view l) = {#c \<in># contents (view (library a)). \<not> has_term idFieldName (getId n) c#}"
    by (simp add: l(2) contents_def)
  also have "\<dots> = {#c \<in># contents (view (library a)). \<not> document_of (getId n) c#}"
    using documents_ids[OF ok] by (intro filter_mset_cong) auto
  finally have cb: "contents (view (library b)) = {#c \<in># contents (view (library ix)). \<not> document_of (getId n) c#}"
    using a(2) by (simp add: b_def same_contents_def)
  have ib: "index_inv C view b" "v_exists (view (library b))"
    using ia ea documents_filter[OF ok] cb a(2) by (simp_all add: b_def index_inv_def index_handles_def l(2) same_contents_def)
  have step: "delete_old C (e # es) ix = delete_old C es b"
    by (simp add: e doc_get_id[OF d] and_then_def a(1) from_library_def l(1) b_def)
  have all: "{#c \<in># contents (view (library b)). \<not> forgets es c#} = {#c \<in># contents (view (library ix)). \<not> forgets (e # es) c#}"
    unfolding cb by (auto simp: filter_filter_mset forgets_def e intro: filter_mset_cong)
  show ?case using Cons.IH[OF ib es] a(2) unfolding step all by (simp add: b_def same_contents_def)
qed

end

context lucene_directory begin

text \<open>The documents that are not empty are added; no document of their resources is there.\<close>

lemma add_document:
  assumes inv: "index_inv C view ix" and d: "document_of i (content C d)" "well_stored (content C d)"
    and absent: "\<forall>c \<in># contents (view (library ix)). \<not> document_of i c"
  shows "\<exists>ix'. add_document C d ix = (Inr (), ix') \<and> index_inv C view ix' \<and>
    (\<forall>j. stored_properties j (contents (view (library ix'))) =
       (if j = i then properties (content C d) else stored_properties j (contents (view (library ix))))) \<and>
    (\<forall>j. j \<noteq> i \<longrightarrow> (\<forall>c \<in># contents (view (library ix)). \<not> document_of j c) \<longrightarrow> (\<forall>c \<in># contents (view (library ix')). \<not> document_of j c)) \<and>
    (indexWriter ix \<or> \<not> docEmpty C d \<longrightarrow> indexWriter ix') \<and>
    documentCache ix' = documentCache ix \<and> transactionID ix' = transactionID ix \<and> index_error ix' = index_error ix \<and>
    (v_exists (view (library ix)) \<longrightarrow> v_exists (view (library ix')))"
proof (cases "docEmpty C d")
  case True
  then have "properties (content C d) = {#}" by (simp add: docEmpty)
  moreover have "stored_properties i (contents (view (library ix))) = {#}" using absent by (intro stored_none) blast
  ultimately show ?thesis using True inv by (simp add: add_document_def give_def)
next
  case False
  obtain a where a: "getIndexWriter C ix = (Inr (), a)" "same_contents C view ix a" "indexWriter a" "v_exists (view (library a))"
    using getIndexWriter[OF inv] by blast
  have ia: "index_inv C view a" and ok: "documents_ok (contents (view (library a)))"
    and ca: "contents (view (library a)) = contents (view (library ix))"
    using a(2) unfolding same_contents_def index_inv_def by auto
  have "v_writing (view (library a))" using ia a(3) by (simp add: index_inv_def index_handles_def)
  from addDocument[OF this, of d] obtain l cs where l: "addDocument C d (library a) = (Inr (), l)"
      "view l = (view (library a))\<lparr>v_docs := cs\<rparr>" "live cs = add_mset (content C d) (contents (view (library ix)))"
    using ca by auto
  define b where "b = a\<lparr>library := l\<rparr>"
  have cb: "contents (view (library b)) = add_mset (content C d) (contents (view (library ix)))"
    by (simp add: b_def l contents_def)
  have "documents_ok (contents (view (library b)))" unfolding cb by (rule documents_add[OF ok[unfolded ca] d absent])
  then have ib: "index_inv C view b" using ia by (simp add: b_def index_inv_def index_handles_def l(2))
  have "stored_properties i (contents (view (library ix))) = {#}" using absent by (intro stored_none) blast
  then have st: "stored_properties j (contents (view (library b))) =
      (if j = i then properties (content C d) else stored_properties j (contents (view (library ix))))" for j
    unfolding cb stored_add[OF d(1)] by simp
  have others: "\<forall>c \<in># contents (view (library b)). \<not> document_of j c"
    if "j \<noteq> i" "\<forall>c \<in># contents (view (library ix)). \<not> document_of j c" for j
    using that document_of_unique[OF d(1), of j] unfolding cb by auto
  have "add_document C d ix = (Inr (), b)"
    using False by (simp add: add_document_def and_then_def a(1) from_library_def l(1) b_def)
  moreover have "indexWriter b" "v_exists (view (library b))" "documentCache b = documentCache ix"
      "transactionID b = transactionID ix" "index_error b = index_error ix"
    using a by (simp_all add: b_def l(2) same_contents_def)
  ultimately show ?thesis using ib st others by (intro exI[of _ b]) simp
qed

lemma add_new:
  assumes "index_inv C view ix" "cache_ok C es" "\<forall>c \<in># contents (view (library ix)). \<not> forgets es c"
  shows "\<exists>ix'. add_new C es ix = (Inr (), ix') \<and> index_inv C view ix' \<and>
    (\<forall>n. subject_node n \<longrightarrow> stored_properties (getId n) (contents (view (library ix'))) =
       (case map_of es n of Some d \<Rightarrow> properties (content C d) | None \<Rightarrow> stored_properties (getId n) (contents (view (library ix))))) \<and>
    (indexWriter ix \<or> (\<exists>(n, d) \<in> set es. \<not> docEmpty C d) \<longrightarrow> indexWriter ix') \<and>
    documentCache ix' = documentCache ix \<and> transactionID ix' = transactionID ix \<and> index_error ix' = index_error ix \<and>
    (v_exists (view (library ix)) \<longrightarrow> v_exists (view (library ix')))"
  using assms
proof (induction es arbitrary: ix)
  case Nil
  then show ?case by (simp add: give_def)
next
  case (Cons e es)
  obtain n d where e: "e = (n, d)" by (cases e)
  have es: "cache_ok C es" "n \<notin> fst ` set es" and n: "subject_node n"
    and d: "document_of (getId n) (content C d)" "well_stored (content C d)"
    using Cons.prems(2) by (auto simp: cache_ok_def e)
  have "\<forall>c \<in># contents (view (library ix)). \<not> document_of (getId n) c" using Cons.prems(3) by (auto simp: forgets_def e)
  from add_document[OF Cons.prems(1) d this] obtain a where a: "add_document C d ix = (Inr (), a)" "index_inv C view a"
      "\<And>j. stored_properties j (contents (view (library a))) =
         (if j = getId n then properties (content C d) else stored_properties j (contents (view (library ix))))"
      "\<And>j. j \<noteq> getId n \<Longrightarrow> (\<forall>c \<in># contents (view (library ix)). \<not> document_of j c) \<Longrightarrow> (\<forall>c \<in># contents (view (library a)). \<not> document_of j c)"
      "indexWriter ix \<or> \<not> docEmpty C d \<Longrightarrow> indexWriter a"
      "documentCache a = documentCache ix" "transactionID a = transactionID ix" "index_error a = index_error ix"
      "v_exists (view (library ix)) \<Longrightarrow> v_exists (view (library a))"
    by blast
  define b where "b = a\<lparr>freed := n # freed a\<rparr>"
  have b: "index_inv C view b" "library b = library a" "indexWriter b = indexWriter a" "documentCache b = documentCache a"
      "transactionID b = transactionID a" "index_error b = index_error a"
    using a(2) by (simp_all add: b_def index_inv_def index_handles_def)
  have "\<forall>c \<in># contents (view (library b)). \<not> document_of (getId m) c" if m: "(m, x) \<in> set es" for m x
  proof -
    have "subject_node m" "m \<noteq> n" using Cons.prems(2) m es(2) by (auto simp: cache_ok_def e image_iff)
    then have "getId m \<noteq> getId n" using getId_inj n by blast
    moreover have "\<forall>c \<in># contents (view (library ix)). \<not> document_of (getId m) c"
      using Cons.prems(3) m by (auto simp: forgets_def e)
    ultimately show ?thesis unfolding b(2) by (rule a(4))
  qed
  then have "\<forall>c \<in># contents (view (library b)). \<not> forgets es c" by (auto simp: forgets_def)
  from Cons.IH[OF b(1) es(1) this] obtain ix' where ix': "add_new C es b = (Inr (), ix')" "index_inv C view ix'"
      "\<And>m. subject_node m \<Longrightarrow> stored_properties (getId m) (contents (view (library ix'))) =
         (case map_of es m of Some d \<Rightarrow> properties (content C d) | None \<Rightarrow> stored_properties (getId m) (contents (view (library b))))"
      "indexWriter b \<or> (\<exists>(n, d) \<in> set es. \<not> docEmpty C d) \<Longrightarrow> indexWriter ix'"
      "documentCache ix' = documentCache b" "transactionID ix' = transactionID b" "index_error ix' = index_error b"
      "v_exists (view (library b)) \<Longrightarrow> v_exists (view (library ix'))"
    by blast
  have "stored_properties (getId m) (contents (view (library ix'))) =
      (case map_of (e # es) m of Some d \<Rightarrow> properties (content C d) | None \<Rightarrow> stored_properties (getId m) (contents (view (library ix))))"
    if m: "subject_node m" for m
  proof (cases "m = n")
    case True
    then have "map_of es m = None" using es(2) by (simp add: map_of_eq_None_iff)
    then show ?thesis using ix'(3)[OF m] True by (simp add: e b(2) a(3))
  next
    case False
    then show ?thesis using getId_inj[OF m n] by (simp add: ix'(3) m e b(2) a(3) split: option.split)
  qed
  moreover have "add_new C (e # es) ix = (Inr (), ix')" by (simp add: e and_then_def a(1) ix'(1) flip: b_def)
  ultimately show ?case using ix' a b by (intro exI[of _ ix']) (auto simp: e)
qed

end

context lucene_directory begin

lemma kept_documents:
  assumes "cache_ok C es" "subject_node n" "n \<notin> fst ` set es"
  shows "stored_properties (getId n) {#c \<in># cs. \<not> forgets es c#} = stored_properties (getId n) cs"
proof -
  have "\<not> forgets es c" if c: "document_of (getId n) c" for c
  proof
    assume "forgets es c"
    then obtain m d where m: "(m, d) \<in> set es" "document_of (getId m) c" by (auto simp: forgets_def)
    then have "subject_node m" using assms(1) by (auto simp: cache_ok_def)
    then have "m = n" using document_of_unique[OF c m(2)] getId_inj[OF assms(2)] by auto
    then show False using m(1) assms(3) by force
  qed
  then have "{#c \<in># {#c \<in># cs. \<not> forgets es c#}. document_of (getId n) c#} = {#c \<in># cs. document_of (getId n) c#}"
    by (auto simp: filter_filter_mset intro: filter_mset_cong)
  then show ?thesis by (simp add: stored_properties_def)
qed

lemma commit_keeps:
  assumes inv: "index_inv C view ix"
  shows "\<exists>ix'. commit C ix = (Inr (), ix') \<and> index_inv C view ix' \<and> documentCache ix' = [] \<and>
    (\<forall>n. subject_node n \<longrightarrow> index_shows q C view ix' n = index_shows q C view ix n) \<and>
    ((\<exists>(n, d) \<in> set (documentCache ix). \<not> docEmpty C d) \<longrightarrow> indexWriter ix') \<and>
    transactionID ix' = transactionID ix \<and> index_error ix' = index_error ix \<and>
    (v_exists (view (library ix)) \<longrightarrow> v_exists (view (library ix')))"
proof -
  let ?es = "documentCache ix"
  have c: "cache_ok C ?es" using inv by (simp add: index_inv_def)
  obtain a where a: "(if indexPresent C ix then delete_old C ?es else give ()) ix = (Inr (), a)" "index_inv C view a"
      "contents (view (library a)) = {#c \<in># contents (view (library ix)). \<not> forgets ?es c#}"
      "documentCache a = ?es" "transactionID a = transactionID ix" "index_error a = index_error ix"
      "v_exists (view (library ix)) \<Longrightarrow> v_exists (view (library a))"
  proof (cases "v_exists (view (library ix))")
    case True
    then show thesis using delete_old[OF inv True c] that by (auto simp: indexPresent_def exists)
  next
    case False
    then have "contents (view (library ix)) = {#}" using absent[OF False] idle[of "library ix"] by simp
    then show thesis using that[of ix] False inv by (simp add: indexPresent_def exists give_def)
  qed
  have "\<forall>c \<in># contents (view (library a)). \<not> forgets ?es c" by (simp add: a(3))
  from add_new[OF a(2) c this] obtain b where b: "add_new C ?es a = (Inr (), b)" "index_inv C view b"
      "\<And>n. subject_node n \<Longrightarrow> stored_properties (getId n) (contents (view (library b))) =
         (case map_of ?es n of Some d \<Rightarrow> properties (content C d) | None \<Rightarrow> stored_properties (getId n) (contents (view (library a))))"
      "(\<exists>(n, d) \<in> set ?es. \<not> docEmpty C d) \<Longrightarrow> indexWriter b"
      "transactionID b = transactionID a" "index_error b = index_error a"
      "v_exists (view (library a)) \<Longrightarrow> v_exists (view (library b))"
    by blast
  define e where "e = b\<lparr>documentCache := [], freed := []\<rparr>"
  have "commit C ix = (Inr (), e)" by (simp add: commit_def and_then_def a(1,4) b(1) e_def)
  moreover have "index_inv C view e" using b(2) by (simp add: e_def index_inv_def index_handles_def cache_ok_def)
  moreover have "index_shows q C view e n = index_shows q C view ix n" if n: "subject_node n" for n
  proof (cases "map_of ?es n")
    case None
    then have "n \<notin> fst ` set ?es" by (simp add: map_of_eq_None_iff)
    then show ?thesis using kept_documents[OF c n, of "contents (view (library ix))"] b(3)[OF n] None
      by (simp add: index_shows_def cached_map_of[OF c n] e_def a(3))
  qed (use b(3)[OF n] in \<open>simp add: index_shows_def cached_map_of[OF c n] e_def\<close>)
  ultimately show ?thesis using a b by (intro exI[of _ e]) (simp add: e_def)
qed

text \<open>A change of the document of a resource changes what is shown of it, and nothing else.\<close>

lemma change_document:
  assumes inv: "index_inv C view ix" and r: "subject_node r"
    and f: "\<And>d. document_of (getId r) (content C d) \<Longrightarrow> document_of (getId r) (content C (f d))"
      "\<And>d. well_stored (content C d) \<Longrightarrow> well_stored (content C (f d))"
    and g: "\<And>d. properties (content C (f d)) = g (properties (content C d))"
  shows "\<exists>ix'. change_document q C r f ix = (ErrorNone, ix') \<and> index_inv C view ix' \<and> index_error ix' = index_error ix \<and>
    transactionID ix' = transactionID ix \<and> (transactionID ix = 0 \<longrightarrow> documentCache ix' = []) \<and>
    (v_exists (view (library ix)) \<longrightarrow> v_exists (view (library ix'))) \<and>
    (transactionID ix = 0 \<longrightarrow> g (index_shows q C view ix r) \<noteq> {#} \<longrightarrow> indexWriter ix') \<and>
    (\<forall>n. subject_node n \<longrightarrow> index_shows q C view ix' n =
      (if n = r then g (index_shows q C view ix r) else index_shows q C view ix n))"
proof -
  obtain d a where a: "getDocument q C r ix = (Inr d, a)" "index_inv C view a" "cached q r (documentCache a) = Some d"
      "properties (content C d) = index_shows q C view ix r"
      "\<And>n. subject_node n \<Longrightarrow> index_shows q C view a n = index_shows q C view ix n"
      "transactionID a = transactionID ix" "index_error a = index_error ix"
      "v_exists (view (library ix)) \<Longrightarrow> v_exists (view (library a))"
    using getDocument[OF inv r, of q] by blast
  have ca: "cache_ok C (documentCache a)" using a(2) by (simp add: index_inv_def)
  have "(r, d) \<in> set (documentCache a)" using a(3) unfolding cached_map_of[OF ca r] by (rule map_of_SomeD)
  then have d: "document_of (getId r) (content C d)" "well_stored (content C d)" using ca by (auto simp: cache_ok_def)
  define b where "b = put_document q r (f d) a"
  have b: "index_inv C view b" "library b = library a" "transactionID b = transactionID a" "index_error b = index_error a"
      "\<And>n. subject_node n \<Longrightarrow> index_shows q C view b n = (if n = r then properties (content C (f d)) else index_shows q C view a n)"
    using put_document[OF a(2) r a(3) f(1)[OF d(1)] f(2)[OF d(2)]] by (simp_all add: b_def put_document_def)
  have "(r, f d) \<in> set (documentCache b)"
    using \<open>(r, d) \<in> set (documentCache a)\<close> cache_key_iff[OF r r] by (force simp: b_def put_document_def)
  then have w: "g (index_shows q C view ix r) \<noteq> {#} \<Longrightarrow> \<exists>(n, d) \<in> set (documentCache b). \<not> docEmpty C d"
    using g[of d] a(4) by (intro bexI[of _ "(r, f d)"]) (simp_all add: docEmpty)
  have s: "change_document q C r f ix = (case (if transactionID b = 0 then commit C b else give () b) of
      (Inl e, ix) \<Rightarrow> (ErrorUnknown, set_index_error (exceptionToError e) ix) | (Inr _, ix) \<Rightarrow> (ErrorNone, ix))"
    by (simp add: change_document_def and_then_def a(1) b_def Let_def)
  show ?thesis
  proof (cases "transactionID ix = 0")
    case True
    obtain e where e: "commit C b = (Inr (), e)" "index_inv C view e" "documentCache e = []"
        "\<And>n. subject_node n \<Longrightarrow> index_shows q C view e n = index_shows q C view b n"
        "(\<exists>(n, d) \<in> set (documentCache b). \<not> docEmpty C d) \<Longrightarrow> indexWriter e"
        "transactionID e = transactionID b" "index_error e = index_error b"
        "v_exists (view (library b)) \<Longrightarrow> v_exists (view (library e))"
      using commit_keeps[OF b(1), of q] by blast
    then show ?thesis using True s a b w r g by (intro exI[of _ e]) simp
  next
    case False
    then show ?thesis using s a b r g by (intro exI[of _ b]) (simp add: give_def)
  qed
qed

end

section \<open>The operations\<close>

lemma index_error_inv [simp]:
  "index_inv C view (set_index_error e ix) = index_inv C view ix" "index_inv C view (set_index_message m ix) = index_inv C view ix"
  by (simp_all add: set_index_error_def set_index_message_def index_inv_def index_handles_def)

lemma index_error_shows [simp]:
  "index_shows q C view (set_index_error e ix) n = index_shows q C view ix n"
  "library (set_index_error e ix) = library ix" "transactionID (set_index_error e ix) = transactionID ix"
  "documentCache (set_index_error e ix) = documentCache ix"
  by (simp_all add: set_index_error_def index_shows_def split: option.split)

lemma no_index_error [simp]: "index_error (set_index_error NoError ix) = NoError"
  by (simp add: set_index_error_def kept_error_def)

text \<open>The new value of what is shown of the subject.\<close>

definition shown_after :: "qt \<Rightarrow> ('d, 'q, 'l) clucene \<Rightarrow> ('l \<Rightarrow> lucene_view) \<Rightarrow> ('d, 'l) lucene_index \<Rightarrow> node \<Rightarrow>
    ((qstring \<times> qstring) multiset \<Rightarrow> (qstring \<times> qstring) multiset) \<Rightarrow> ('d, 'l) lucene_index \<Rightarrow> bool" where
  "shown_after q C view ix r g ix' \<longleftrightarrow> index_inv C view ix' \<and> index_error ix' = NoError \<and> transactionID ix' = transactionID ix \<and>
     (transactionID ix = 0 \<longrightarrow> documentCache ix' = []) \<and> (v_exists (view (library ix)) \<longrightarrow> v_exists (view (library ix'))) \<and>
     (\<forall>n. subject_node n \<longrightarrow> index_shows q C view ix' n = (if n = r then g (index_shows q C view ix n) else index_shows q C view ix n))"

context lucene_directory begin

lemma addStatement_shown:
  assumes "index_inv C view ix" "subject_node (subject s)" "isPropertyField (index_field s)" "index_text q s \<noteq> []"
  shows "\<exists>ix'. index_addStatement q C s ix = (ErrorNone, ix') \<and>
    shown_after q C view ix (subject s) (add_mset (index_field s, index_text q s)) ix' \<and>
    (v_exists (view (library ix)) \<longrightarrow> v_exists (view (library ix'))) \<and> (transactionID ix = 0 \<longrightarrow> indexWriter ix')"
proof -
  let ?f = "addProperty C (index_field s) (index_text q s) (node_isResource (object s))"
  have inv: "index_inv C view (set_index_error NoError ix)" using assms(1) by simp
  show ?thesis
    using change_document[OF inv assms(2), where q = q and f = ?f and g = "add_mset (index_field s, index_text q s)"] assms(3,4)
    by (auto simp: index_addStatement_def Let_def shown_after_def)
qed

lemma removeStatement_shown:
  assumes "index_inv C view ix" "subject_node (subject s)" "isPropertyField (index_field s)" "index_text q s \<noteq> []"
    and "v_exists (view (library ix))"
  shows "\<exists>ix'. index_removeStatement q C s ix = (ErrorNone, ix') \<and>
    shown_after q C view ix (subject s) (filter_mset (\<lambda>p. p \<noteq> (index_field s, index_text q s))) ix' \<and> v_exists (view (library ix'))"
proof -
  let ?f = "removeProperty C (index_field s) (index_text q s) (node_isResource (object s))"
  have inv: "index_inv C view (set_index_error NoError ix)" using assms(1) by simp
  show ?thesis
    using change_document[OF inv assms(2), where q = q and f = ?f and g = "filter_mset (\<lambda>p. p \<noteq> (index_field s, index_text q s))"]
      assms(3-5) well_stored_removeProperty
    by (auto simp: index_removeStatement_def Let_def shown_after_def indexPresent_def exists)
qed

text \<open>Nothing is removed where there is no index and no document is in the cache.\<close>

lemma removeStatement_any:
  assumes "index_inv C view ix" "subject_node (subject s)" "isPropertyField (index_field s)" "index_text q s \<noteq> []"
    and "v_exists (view (library ix)) \<or> documentCache ix = []"
  shows "\<exists>ix'. index_removeStatement q C s ix = (ErrorNone, ix') \<and>
    shown_after q C view ix (subject s) (filter_mset (\<lambda>p. p \<noteq> (index_field s, index_text q s))) ix' \<and>
    (v_exists (view (library ix')) \<or> documentCache ix' = [])"
proof (cases "v_exists (view (library ix))")
  case True
  then show ?thesis using removeStatement_shown[OF assms(1-4) True] by auto
next
  case False
  then have "contents (view (library ix)) = {#}" using absent[OF False] idle[of "library ix"] by simp
  then have "index_shows q C view ix n = {#}" for n using assms(5) False by (simp add: index_shows_def stored_properties_def)
  then show ?thesis using False assms(1,5)
    by (simp add: index_removeStatement_def Let_def indexPresent_def exists shown_after_def)
qed

lemma closeTransaction_shown:
  assumes "index_inv C view ix" "transactionID ix = i" "0 < i"
  shows "\<exists>ix'. closeTransaction C i ix = (True, ix') \<and> index_inv C view ix' \<and> index_error ix' = NoError \<and> transactionID ix' = 0 \<and>
    documentCache ix' = [] \<and> (\<forall>n. subject_node n \<longrightarrow> index_shows q C view ix' n = index_shows q C view ix n) \<and>
    (v_exists (view (library ix)) \<longrightarrow> v_exists (view (library ix')))"
proof -
  have inv: "index_inv C view (set_index_error NoError ix)" using assms(1) by simp
  obtain a where a: "commit C (set_index_error NoError ix) = (Inr (), a)" "index_inv C view a" "documentCache a = []"
      "\<And>n. subject_node n \<Longrightarrow> index_shows q C view a n = index_shows q C view ix n" "index_error a = NoError"
      "v_exists (view (library ix)) \<Longrightarrow> v_exists (view (library a))"
    using commit_keeps[OF inv, of q] by auto
  then show ?thesis using assms(2,3)
    by (intro exI[of _ "a\<lparr>transactionID := 0\<rparr>"])
       (simp add: closeTransaction_def index_inv_def index_handles_def index_shows_def)
qed

text \<open>A search through a new searcher, when no reader holds back what it has deleted.\<close>

lemma read_ids: "read_as c d \<Longrightarrow> document_of i c \<Longrightarrow> ids d = {#i#}"
proof -
  assume r: "read_as c d" and c: "document_of i c"
  have i: "ids c = {#t. (f, t, b) \<in># {#p \<in># {#(field_name x, stringValue x, isIndexed x). x \<in># c#}. fst p = idFieldName#}#}" for c
    by (induction c) (auto simp: ids_def)
  have "{#x \<in># {#x \<in># c. field_stored x#}. field_name x = idFieldName#} = {#x \<in># {#x \<in># c. field_name x = idFieldName#}. field_stored x#}"
    by (simp add: filter_filter_mset conj_commute)
  then have "ids {#x \<in># c. field_stored x#} = {#i#}" using c by (simp add: ids_def document_of_def id_field_def)
  moreover have "ids d = ids {#x \<in># c. field_stored x#}" using r unfolding i read_as_def by simp
  ultimately show "ids d = {#i#}" by simp
qed

lemma doc_id_read: "read_as c (content C d) \<Longrightarrow> document_of i c \<Longrightarrow> doc_id C d = i"
  using read_ids[of c "content C d" i] get[of idFieldName d]
  by (auto simp: doc_id_def ids_def split: option.splits)

lemma hit_ids:
  assumes "list_all2 read_as cs (map (content C) ds)" "\<forall>c \<in> set cs. \<exists>i. document_of i c"
  shows "{#doc_id C d. d \<in># mset ds#} = sum_mset (image_mset ids (mset cs))"
  using assms
proof (induction cs arbitrary: ds)
  case (Cons c cs)
  then obtain d es where ds: "ds = d # es" "read_as c (content C d)" "list_all2 read_as cs (map (content C) es)"
    by (cases ds) auto
  obtain i where i: "document_of i c" using Cons.prems(2) by auto
  then have "ids c = {#i#}" by (simp add: document_of_def ids_def)
  then show ?case using Cons.IH[OF ds(3)] Cons.prems(2) doc_id_read[OF ds(2) i] by (simp add: ds(1))
qed simp

lemma search_new:
  assumes inv: "index_inv C view ix" and ex: "v_exists (view (library ix))" and new: "\<not> searcher ix" "\<not> indexReader ix"
  shows "\<exists>hits ix'. search_query C (Some qu) ix = (Some hits, ix') \<and> index_inv C view ix' \<and> index_error ix' = NoError \<and>
    {#doc_id C d. (d, w) \<in># mset hits#} = sum_mset (image_mset ids {#c \<in># contents (view (library ix)). matching qu c#})"
proof -
  have inv0: "index_inv C view (set_index_error NoError ix)" using inv by simp
  obtain a where a: "getIndexSearcher C (set_index_error NoError ix) = (Inr (), a)" "same_contents C view (set_index_error NoError ix) a"
      "searcher a" "v_seen (view (library a)) = contents (view (library ix))"
    using getIndexSearcher[OF inv0] ex new by (auto simp: set_index_error_def)
  have ia: "index_inv C view a" using a(2) by (simp add: same_contents_def)
  then have "v_searching (view (library a))" using a(3) by (simp add: index_inv_def index_handles_def)
  from search[OF this, of qu] obtain l hits cs where l: "search_index C qu (library a) = (Inr (Some hits), l)" "view l = view (library a)"
      "mset cs = {#c \<in># contents (view (library ix)). matching qu c#}" "list_all2 read_as cs (map (content C \<circ> fst) hits)"
    using a(4) by auto
  note b = from_view[of a "search_index C qu", OF ia l(1,2)]
  have "set cs \<subseteq> set_mset (contents (view (library ix)))" using l(3) by (metis multiset_filter_subset set_mset_mono set_mset_mset)
  then have "\<forall>c \<in> set cs. \<exists>i. document_of i c" using inv by (auto simp: documents_ok_def index_inv_def)
  then have "{#doc_id C d. d \<in># mset (map fst hits)#} = sum_mset (image_mset ids (mset cs))"
    using hit_ids[of cs "map fst hits"] l(4) by simp
  moreover have "{#doc_id C d. d \<in># mset (map fst hits)#} = {#doc_id C d. (d, w) \<in># mset hits#}"
    by (simp add: image_mset.compositionality comp_def case_prod_beta')
  ultimately show ?thesis using a b l(3)
    by (intro exI[of _ hits] exI[of _ "a\<lparr>library := l\<rparr>"])
       (auto simp: search_query_def and_then_def same_contents_def)
qed

end

section \<open>Clearing\<close>

lemma live_update: "live (cs[i := None]) \<subseteq># live cs"
proof (induction cs arbitrary: i rule: live.induct)
  case (2 cs)
  then show ?case by (cases i) auto
next
  case (3 c cs)
  then show ?case by (cases i) (auto intro: subset_mset.order_trans)
qed simp

lemma all_deleted: "n \<le> length cs \<Longrightarrow> fold (\<lambda>i cs. cs[i := None]) [0..<n] cs = replicate n None @ drop n cs"
proof (induction n)
  case (Suc n)
  then have "drop n cs = cs ! n # drop (Suc n) cs" by (simp add: Cons_nth_drop_Suc)
  then show ?case using Suc by (simp add: list_update_append replicate_append_same)
qed simp

context lucene_directory begin

lemma delete_numbers:
  assumes "index_inv C view ix" "indexReader ix" "\<forall>i \<in> set is. i < length (v_docs (view (library ix)))"
  shows "\<exists>ix'. delete_numbers C is ix = (Inr (), ix') \<and> index_inv C view ix' \<and> indexReader ix' \<and>
    v_docs (view (library ix')) = fold (\<lambda>i cs. cs[i := None]) is (v_docs (view (library ix))) \<and>
    documentCache ix' = documentCache ix \<and> transactionID ix' = transactionID ix \<and> index_error ix' = index_error ix"
  using assms
proof (induction "is" arbitrary: ix)
  case (Cons i "is")
  have "v_reading (view (library ix))" using Cons.prems(1,2) by (simp add: index_inv_def index_handles_def)
  from deleteDocument[OF this, of i] Cons.prems(3) obtain l where l: "deleteDocument C i (library ix) = (Inr (), l)"
      "view l = (view (library ix))\<lparr>v_docs := (v_docs (view (library ix)))[i := None]\<rparr>" by auto
  have "documents_ok (contents (view l))"
    using documents_subset[OF _ live_update] Cons.prems(1) by (simp add: l(2) contents_def index_inv_def)
  then have "index_inv C view (ix\<lparr>library := l\<rparr>)" using Cons.prems(1) by (simp add: l(2) index_inv_def index_handles_def)
  then show ?case using Cons.IH[of "ix\<lparr>library := l\<rparr>"] Cons.prems(2,3) l
    by (simp add: and_then_def getIndexReader_def from_library_def)
qed (simp add: give_def)

lemma index_cleared:
  assumes inv: "index_inv C view ix"
  shows "index_inv C view (index_clear C ix) \<and> contents (view (library (index_clear C ix))) = {#} \<and>
    documentCache (index_clear C ix) = documentCache ix \<and> transactionID (index_clear C ix) = transactionID ix"
proof (cases "v_exists (view (library ix))")
  case False
  then show ?thesis using absent[OF False] idle[of "library ix"] inv by (simp add: index_clear_def indexPresent_def exists)
next
  case True
  obtain a where a: "getIndexReader C ix = (Inr (), a)" "same_contents C view ix a" "indexReader a"
    using getIndexReader[OF inv True] by blast
  have ia: "index_inv C view a" using a(2) by (simp add: same_contents_def)
  then have "v_reading (view (library a))" using a(3) by (simp add: index_inv_def index_handles_def)
  from maxDoc[OF this] obtain l where l: "maxDoc C (library a) = (Inr (length (v_docs (view (library a)))), l)" "view l = view (library a)"
    by blast
  note b = from_view[of a "maxDoc C", OF ia l]
  have ib: "index_inv C view (a\<lparr>library := l\<rparr>)" using b by (simp add: same_contents_def)
  obtain c where c: "delete_numbers C [0..<length (v_docs (view (library a)))] (a\<lparr>library := l\<rparr>) = (Inr (), c)" "index_inv C view c"
      "live (v_docs (view (library c))) = {#}" "documentCache c = documentCache a" "transactionID c = transactionID a"
    using delete_numbers[OF ib, of "[0..<length (v_docs (view (library a)))]"] a(3) l(2) all_deleted[OF order_refl, of "v_docs (view (library a))"]
    by auto
  have "index_clear C ix = closeReader C c"
    using True by (simp add: index_clear_def indexPresent_def exists and_then_def a(1) b c(1))
  then show ?thesis using closeReader[OF c(2)] c a(2) by (simp add: same_contents_def contents_def)
qed

end

end
