(* ===== verification/Clucene_Memory.thy ===== *)
theory Clucene_Memory
  imports Clucene_Store
begin

text \<open>
  A directory in memory that satisfies the contract of the index: documents are lists of fields, a query is the text it looks
  for. It shows that the contract can be met, and the faults of the index are shown on it.
\<close>

section \<open>The directory\<close>

type_synonym fields = "lucene_field list"

datatype handle = NoHandle | Reading "fields option list" | Writing "fields list"

record memory_directory =
  md_index :: "(fields list \<times> handle) option"
  md_searcher :: "fields list option"

definition lucene_failure :: "lucene_error" where
  "lucene_failure = (1, ''IO error'')"

definition with_handle :: "(fields list \<Rightarrow> handle \<Rightarrow> ('a \<times> fields list \<times> handle) option) \<Rightarrow> (memory_directory, 'a) lucene_call" where
  "with_handle f l = (case md_index l of
       None \<Rightarrow> (Inl lucene_failure, l)
     | Some (ds, h) \<Rightarrow> (case f ds h of None \<Rightarrow> (Inl lucene_failure, l) | Some (r, i) \<Rightarrow> (Inr r, l\<lparr>md_index := Some i\<rparr>)))"

definition reading :: "(fields option list \<Rightarrow> ('a \<times> fields option list) option) \<Rightarrow> (memory_directory, 'a) lucene_call" where
  "reading f = with_handle (\<lambda>ds h. case h of
       Reading cs \<Rightarrow> map_option (\<lambda>(r, cs). (r, ds, Reading cs)) (f cs)
     | _ \<Rightarrow> None)"

definition writing :: "(fields list \<Rightarrow> fields list) \<Rightarrow> (memory_directory, unit) lucene_call" where
  "writing f = with_handle (\<lambda>ds h. case h of Writing cs \<Rightarrow> Some ((), ds, Writing (f cs)) | _ \<Rightarrow> None)"

definition somes :: "'a option list \<Rightarrow> 'a list" where
  "somes xs = concat (map (\<lambda>x. case x of None \<Rightarrow> [] | Some y \<Rightarrow> [y]) xs)"

definition read_field :: "lucene_field \<Rightarrow> lucene_field" where
  "read_field x = x\<lparr>field_mode := (if isIndexed x then Tokenized else NotIndexed)\<rparr>"

definition read_document :: "fields \<Rightarrow> fields" where
  "read_document d = map read_field (filter field_stored d)"

definition fields_term :: "qstring \<Rightarrow> qstring \<Rightarrow> fields \<Rightarrow> bool" where
  "fields_term f t d \<longleftrightarrow> list_ex (\<lambda>x. field_name x = f \<and> stringValue x = t \<and> field_mode x = Untokenized) d"

definition has_text :: "qstring \<Rightarrow> fields \<Rightarrow> bool" where
  "has_text t d \<longleftrightarrow> list_ex (\<lambda>x. field_name x = textFieldName \<and> stringValue x = t) d"

definition values_of :: "qstring \<Rightarrow> fields \<Rightarrow> qstring list" where
  "values_of n d = map stringValue (filter (\<lambda>x. field_name x = n) d)"

definition option_numbers :: "('a \<Rightarrow> bool) \<Rightarrow> 'a option list \<Rightarrow> nat list" where
  "option_numbers P cs = filter (\<lambda>n. case cs ! n of None \<Rightarrow> False | Some c \<Rightarrow> P c) [0..<length cs]"

definition memory_clucene :: "(fields, qstring, memory_directory) clucene" where
  "memory_clucene = \<lparr>
     doc_new = [],
     doc_add = (#),
     doc_getValues = (\<lambda>n d. if values_of n d = [] then None else Some (values_of n d)),
     doc_removeFields = (\<lambda>n. filter (\<lambda>x. field_name x \<noteq> n)),
     doc_get = (\<lambda>n d. case values_of n d of [] \<Rightarrow> None | v # _ \<Rightarrow> Some v),
     doc_fields = (\<lambda>d. d),
     indexExists = (\<lambda>l. md_index l \<noteq> None),
     isLocked = (\<lambda>l. case md_index l of Some (_, h) \<Rightarrow> h \<noteq> NoHandle | None \<Rightarrow> False),
     unlock_directory = (\<lambda>l. l),
     getDirectory = (\<lambda>_ _ l. (Inr True, l)),
     open_reader = with_handle (\<lambda>ds h. if h = NoHandle then Some ((), ds, Reading (map Some ds)) else None),
     close_reader = with_handle (\<lambda>ds h. case h of Reading cs \<Rightarrow> Some ((), somes cs, NoHandle) | _ \<Rightarrow> None),
     open_writer = (\<lambda>new l. if new then (Inr (), l\<lparr>md_index := Some ([], Writing [])\<rparr>)
       else with_handle (\<lambda>ds h. if h = NoHandle then Some ((), ds, Writing ds) else None) l),
     close_writer = with_handle (\<lambda>ds h. case h of Writing cs \<Rightarrow> Some ((), cs, NoHandle) | _ \<Rightarrow> None),
     open_searcher = (\<lambda>l. case md_index l of
         None \<Rightarrow> (Inl lucene_failure, l)
       | Some (ds, _) \<Rightarrow> (Inr (), l\<lparr>md_searcher := Some ds\<rparr>)),
     close_searcher = (\<lambda>l. (Inr (), l\<lparr>md_searcher := None\<rparr>)),
     termDocs = (\<lambda>f t. reading (\<lambda>cs. Some (option_numbers (fields_term f t) cs, cs))),
     document = (\<lambda>n. reading (\<lambda>cs. if n < length cs then map_option (\<lambda>d. (read_document d, cs)) (cs ! n) else None)),
     deleteDocuments = (\<lambda>f t. reading (\<lambda>cs. Some ((), map (\<lambda>x. case x of None \<Rightarrow> None
       | Some d \<Rightarrow> if fields_term f t d then None else Some d) cs))),
     deleteDocument = (\<lambda>n. reading (\<lambda>cs. if n < length cs then Some ((), cs[n := None]) else None)),
     numDocs = reading (\<lambda>cs. Some (length (somes cs), cs)),
     maxDoc = reading (\<lambda>cs. Some (length cs, cs)),
     addDocument = (\<lambda>d. writing ((#) d)),
     optimize_index = writing (\<lambda>cs. cs),
     parse_query = (\<lambda>_ _ t. Inr (Some t)),
     search_index = (\<lambda>t l. case md_searcher l of
         None \<Rightarrow> (Inl lucene_failure, l)
       | Some ds \<Rightarrow> (Inr (Some (map (\<lambda>d. (read_document d, 0)) (filter (has_text t) ds))), l)) \<rparr>"

section \<open>The contract\<close>

definition memory_docs :: "memory_directory \<Rightarrow> content option list" where
  "memory_docs l = (case md_index l of
       None \<Rightarrow> []
     | Some (ds, NoHandle) \<Rightarrow> map (\<lambda>d. Some (mset d)) ds
     | Some (ds, Reading cs) \<Rightarrow> map (map_option mset) cs
     | Some (ds, Writing cs) \<Rightarrow> map (\<lambda>d. Some (mset d)) cs)"

definition memory_view :: "memory_directory \<Rightarrow> lucene_view" where
  "memory_view l = \<lparr> v_exists = (md_index l \<noteq> None),
     v_reading = (case md_index l of Some (ds, Reading cs) \<Rightarrow> True | _ \<Rightarrow> False),
     v_writing = (case md_index l of Some (ds, Writing cs) \<Rightarrow> True | _ \<Rightarrow> False),
     v_searching = (md_searcher l \<noteq> None),
     v_docs = memory_docs l,
     v_committed = (case md_index l of None \<Rightarrow> {#} | Some (ds, h) \<Rightarrow> mset (map mset ds)),
     v_seen = (case md_searcher l of None \<Rightarrow> {#} | Some ds \<Rightarrow> mset (map mset ds)) \<rparr>"

definition memory_matching :: "qstring \<Rightarrow> content \<Rightarrow> bool" where
  "memory_matching t c \<longleftrightarrow> t \<in># texts c"

lemma live_map: "live (map (\<lambda>d. Some (mset d)) ds) = mset (map mset ds)"
  by (induction ds) auto

lemma live_map_option: "live (map (map_option mset) cs) = mset (map mset (somes cs))"
  by (induction cs) (auto simp: somes_def split: option.split)

lemma has_term_fields: "has_term f t (mset d) = fields_term f t d"
  by (auto simp: has_term_def fields_term_def list_ex_iff)

lemma matching_fields: "memory_matching t (mset d) = has_text t d"
  by (auto simp: memory_matching_def has_text_def texts_def list_ex_iff)

lemma numbers_options: "numbers (has_term f t) (map (map_option mset) cs) = option_numbers (fields_term f t) cs"
  unfolding numbers_def option_numbers_def
  by (rule filter_cong) (auto simp: has_term_fields split: option.split)

lemma deleted_options: "deleted (has_term f t) (map (map_option mset) cs) =
    map (map_option mset) (map (\<lambda>x. case x of None \<Rightarrow> None | Some d \<Rightarrow> if fields_term f t d then None else Some d) cs)"
  by (simp add: deleted_def has_term_fields split: option.split)

lemma read_document_as: "read_as (mset d) (mset (read_document d))"
  by (induction d) (auto simp: read_as_def read_document_def read_field_def isIndexed_def)

lemma read_documents_as: "list_all2 read_as (map mset ds) (map (mset \<circ> read_document) ds)"
  by (simp add: list_all2_map1 list_all2_map2 list_all2_same read_document_as)

lemma filter_mset_docs: "{#c \<in># mset (map mset ds). memory_matching t c#} = mset (map mset (filter (has_text t) ds))"
  by (induction ds) (auto simp: matching_fields)

lemma memory_is_document: "lucene_document memory_clucene"
proof
  fix n d
  show "(case doc_getValues memory_clucene n d of None \<Rightarrow> {#} | Some vs \<Rightarrow> mset vs) =
      {#stringValue x. x \<in># {#x \<in># content memory_clucene d. field_name x = n#}#}"
    by (simp add: memory_clucene_def content_def values_of_def filter_empty_conv)
  show "case doc_get memory_clucene n d of None \<Rightarrow> {#x \<in># content memory_clucene d. field_name x = n#} = {#}
      | Some v \<Rightarrow> v \<in># {#stringValue x. x \<in># {#x \<in># content memory_clucene d. field_name x = n#}#}"
  proof (cases "values_of n d")
    case Nil
    then have "\<forall>x \<in> set d. field_name x \<noteq> n" by (simp add: values_of_def filter_empty_conv)
    then show ?thesis using Nil by (simp add: memory_clucene_def content_def filter_none)
  next
    case (Cons v vs)
    then have "v \<in> set (values_of n d)" by simp
    then show ?thesis using Cons by (auto simp: memory_clucene_def content_def values_of_def)
  qed
qed (simp_all add: memory_clucene_def content_def)

lemmas memory_defs = memory_clucene_def memory_view_def memory_docs_def contents_def with_handle_def reading_def writing_def

lemma lookup_some: "n < length cs \<Longrightarrow> map (map_option mset) cs ! n = Some c \<Longrightarrow> \<exists>d. cs ! n = Some d \<and> c = mset d"
  by (cases "cs ! n") auto

lemma size_options: "size (live (map (map_option mset) cs)) = length (somes cs)"
  by (simp add: live_map_option)

interpretation memory_directory: lucene_directory memory_clucene memory_view memory_matching
proof (intro lucene_directory.intro memory_is_document lucene_directory_axioms.intro)
  fix l :: memory_directory
  show "indexExists memory_clucene l = v_exists (memory_view l)" by (simp add: memory_defs)
  show "v_committed (memory_view l) = {#} \<and> \<not> v_reading (memory_view l) \<and> \<not> v_writing (memory_view l)"
    if "\<not> v_exists (memory_view l)" using that by (cases "md_index l") (auto simp: memory_defs)
  show "contents (memory_view l) = v_committed (memory_view l)" if "\<not> v_reading (memory_view l)" "\<not> v_writing (memory_view l)"
    using that by (cases "md_index l") (auto simp: memory_defs live_map split: handle.splits)
  show "\<exists>l' cs. open_reader memory_clucene l = (Inr (), l') \<and> memory_view l' = (memory_view l)\<lparr>v_reading := True, v_docs := cs\<rparr> \<and>
      live cs = v_committed (memory_view l)"
    if "v_exists (memory_view l)" "\<not> v_reading (memory_view l)" "\<not> v_writing (memory_view l)"
    using that by (cases "md_index l") (auto simp: memory_defs live_map comp_def split: handle.splits)
  show "\<exists>l' cs. close_reader memory_clucene l = (Inr (), l') \<and> live cs = contents (memory_view l) \<and>
      memory_view l' = (memory_view l)\<lparr>v_reading := False, v_docs := cs, v_committed := contents (memory_view l)\<rparr>"
    if "v_reading (memory_view l)"
    using that by (cases "md_index l") (auto simp: memory_defs live_map live_map_option split: handle.splits)
  show "\<exists>l' cs. open_writer memory_clucene (\<not> v_exists (memory_view l)) l = (Inr (), l') \<and>
        memory_view l' = (memory_view l)\<lparr>v_exists := True, v_writing := True, v_docs := cs\<rparr> \<and> live cs = v_committed (memory_view l)"
    if "\<not> v_reading (memory_view l)" "\<not> v_writing (memory_view l)"
    using that by (cases "md_index l") (auto simp: memory_defs live_map split: handle.splits)
  show "\<exists>l' cs. close_writer memory_clucene l = (Inr (), l') \<and> live cs = contents (memory_view l) \<and>
      memory_view l' = (memory_view l)\<lparr>v_writing := False, v_docs := cs, v_committed := contents (memory_view l)\<rparr>"
    if "v_writing (memory_view l)"
    using that by (cases "md_index l") (auto simp: memory_defs live_map split: handle.splits)
  show "\<exists>l'. open_searcher memory_clucene l = (Inr (), l') \<and> memory_view l' = (memory_view l)\<lparr>v_searching := True, v_seen := v_committed (memory_view l)\<rparr>"
    if "v_exists (memory_view l)" "\<not> v_writing (memory_view l)" "\<not> v_searching (memory_view l)"
    using that by (cases "md_index l") (auto simp: memory_defs)
  show "\<exists>l' cs. close_searcher memory_clucene l = (Inr (), l') \<and> memory_view l' = (memory_view l)\<lparr>v_searching := False, v_seen := cs\<rparr>"
    if "v_searching (memory_view l)" using that by (auto simp: memory_defs)
  show "\<exists>l'. termDocs memory_clucene f t l = (Inr (numbers (has_term f t) (v_docs (memory_view l))), l') \<and> memory_view l' = memory_view l"
    if "v_reading (memory_view l)" for f t
    using that by (cases "md_index l") (auto simp: memory_defs numbers_options split: handle.splits)
  show "\<exists>l' d. document memory_clucene n l = (Inr d, l') \<and> memory_view l' = memory_view l \<and> read_as c (content memory_clucene d)"
    if d: "v_reading (memory_view l)" "n < length (v_docs (memory_view l))" "v_docs (memory_view l) ! n = Some c" for n c
  proof -
    obtain ds cs where i: "md_index l = Some (ds, Reading cs)" using d(1)
      by (cases "md_index l") (auto simp: memory_view_def split: handle.splits)
    then obtain d where "cs ! n = Some d" "c = mset d" "n < length cs"
      using d(2,3) lookup_some[of n cs c] by (auto simp: memory_defs)
    then show ?thesis by (simp add: memory_defs content_def i read_document_as)
  qed
  show "\<exists>l'. deleteDocuments memory_clucene f t l = (Inr (), l') \<and>
      memory_view l' = (memory_view l)\<lparr>v_docs := deleted (has_term f t) (v_docs (memory_view l))\<rparr>"
    if "v_reading (memory_view l)" for f t
    using that by (cases "md_index l") (auto simp: memory_defs deleted_options simp del: map_map split: handle.splits)
  show "\<exists>l'. deleteDocument memory_clucene n l = (Inr (), l') \<and> memory_view l' = (memory_view l)\<lparr>v_docs := (v_docs (memory_view l))[n := None]\<rparr>"
    if "v_reading (memory_view l)" "n < length (v_docs (memory_view l))" for n
    using that by (cases "md_index l") (auto simp: memory_defs map_update split: handle.splits)
  show "\<exists>l'. maxDoc memory_clucene l = (Inr (length (v_docs (memory_view l))), l') \<and> memory_view l' = memory_view l"
    if "v_reading (memory_view l)"
    using that by (cases "md_index l") (auto simp: memory_defs split: handle.splits)
  show "\<exists>l'. numDocs memory_clucene l = (Inr (size (contents (memory_view l))), l') \<and> memory_view l' = memory_view l"
    if "v_reading (memory_view l)"
    using that by (cases "md_index l") (auto simp: memory_defs size_options split: handle.splits)
  show "\<exists>l' cs. addDocument memory_clucene d l = (Inr (), l') \<and> memory_view l' = (memory_view l)\<lparr>v_docs := cs\<rparr> \<and>
      live cs = add_mset (content memory_clucene d) (contents (memory_view l))"
    if "v_writing (memory_view l)" for d
    using that by (cases "md_index l") (auto simp: memory_defs content_def split: handle.splits)
  show "\<exists>l' cs. optimize_index memory_clucene l = (Inr (), l') \<and> memory_view l' = (memory_view l)\<lparr>v_docs := cs\<rparr> \<and> live cs = contents (memory_view l)"
    if "v_writing (memory_view l)"
    using that by (cases "md_index l") (auto simp: memory_defs split: handle.splits)
  show "\<exists>l' hits cs. search_index memory_clucene qu l = (Inr (Some hits), l') \<and> memory_view l' = memory_view l \<and>
        mset cs = {#c \<in># v_seen (memory_view l). memory_matching qu c#} \<and> list_all2 read_as cs (map (content memory_clucene \<circ> fst) hits)"
    if d: "v_searching (memory_view l)" for qu
  proof -
    obtain ds where ds: "md_searcher l = Some ds" using d by (auto simp: memory_view_def)
    show ?thesis using filter_mset_docs[of qu ds] read_documents_as[of "filter (has_text qu) ds"]
      by (simp add: memory_defs content_def comp_def ds) (intro exI[of _ "map mset (filter (has_text qu) ds)"], simp)
  qed
qed

section \<open>What the index promises\<close>

text \<open>Claim C5: over a library that keeps its contract, and for a statement about a resource or blank node whose predicate is a property field and
  whose text is not empty: addStatement succeeds without an error and adds the field and text to what the index shows of the subject;
  removeStatement, provided the index exists on disk (v_exists), succeeds and takes away every entry with this field and text; closing an open
  transaction succeeds, empties the cache and changes nothing that is shown. No call changes what is shown of other resources. Before the
  index exists on disk, as in the first transaction, a removal fails: removal_in_first_transaction.\<close>

theorem index_refines:
  assumes "lucene_directory C view matching" "index_inv C view ix"
    and "subject_node (subject s)" "isPropertyField (index_field s)" "index_text q s \<noteq> []"
  shows "(\<exists>ix'. index_addStatement q C s ix = (ErrorNone, ix') \<and>
      shown_after q C view ix (subject s) (add_mset (index_field s, index_text q s)) ix') \<and>
    (v_exists (view (library ix)) \<longrightarrow> (\<exists>ix'. index_removeStatement q C s ix = (ErrorNone, ix') \<and>
      shown_after q C view ix (subject s) (filter_mset (\<lambda>p. p \<noteq> (index_field s, index_text q s))) ix')) \<and>
    (0 < transactionID ix \<longrightarrow> (\<exists>ix'. closeTransaction C (transactionID ix) ix = (True, ix') \<and> index_inv C view ix' \<and>
      transactionID ix' = 0 \<and> documentCache ix' = [] \<and>
      (\<forall>n. subject_node n \<longrightarrow> index_shows q C view ix' n = index_shows q C view ix n)))"
  using lucene_directory.addStatement_shown[OF assms] lucene_directory.removeStatement_shown[OF assms]
    lucene_directory.closeTransaction_shown[OF assms(1,2) refl, where q = q] by blast

lemma new_index_inv: "index_inv memory_clucene memory_view (new_index \<lparr> md_index = None, md_searcher = None \<rparr>)"
  by (simp add: index_inv_def index_handles_def documents_ok_def cache_ok_def new_index_def memory_view_def contents_def memory_docs_def)

definition index_example :: "qstring \<Rightarrow> statement" where
  "index_example t = mk_statement (ResourceNode (QUrl ''a'')) (ResourceNode (QUrl ''p'')) (LiteralNode (Plain t (LanguageTag None))) EmptyNode"

definition empty_index :: "(fields, memory_directory) lucene_index" where
  "empty_index = new_index \<lparr> md_index = None, md_searcher = None \<rparr>"

lemma index_example_text: "index_text plain_qt (index_example t) = t" "index_field (index_example t) = ''p''"
  by (simp_all add: index_text_def index_field_def index_example_def mk_statement_def node_test_defs lit_toString_def)

lemma index_example_ok:
  "subject (index_example t) = ResourceNode (QUrl ''a'')" "subject_node (subject (index_example t))" "isPropertyField (index_field (index_example t))"
  unfolding index_example_text
  by (simp_all add: index_example_def mk_statement_def subject_node_def node_test_defs bnodeIdPrefix_def isPropertyField_def
      idFieldName_def textFieldName_def)

theorem index_refines_witness:
  "\<exists>ix'. index_addStatement plain_qt memory_clucene (index_example ''x'') empty_index = (ErrorNone, ix') \<and>
     index_shows plain_qt memory_clucene memory_view ix' (ResourceNode (QUrl ''a'')) = {#(''p'', ''x'')#}"
proof -
  have e: "index_shows plain_qt memory_clucene memory_view empty_index (ResourceNode (QUrl ''a'')) = {#}"
    by (simp add: index_shows_def empty_index_def new_index_def stored_properties_def contents_def memory_view_def memory_docs_def)
  have "index_text plain_qt (index_example ''x'') \<noteq> []" by (simp add: index_example_text)
  from index_refines[OF memory_directory.lucene_directory_axioms new_index_inv index_example_ok(2,3) this] obtain ix' where
    "index_addStatement plain_qt memory_clucene (index_example ''x'') empty_index = (ErrorNone, ix')"
    "shown_after plain_qt memory_clucene memory_view empty_index (ResourceNode (QUrl ''a'')) (add_mset (''p'', ''x'')) ix'"
    unfolding index_example_text index_example_ok(1) empty_index_def by blast
  then show ?thesis using e index_example_ok(2)[of "''x''"] by (auto simp: shown_after_def index_example_ok(1))
qed

text \<open>Claim C25: a search over a searcher that was not open before finds exactly the resources whose documents match the query, every
  document once, when no reader is open.\<close>

theorem index_search_complete:
  assumes "lucene_directory C view matching" "index_inv C view ix" "v_exists (view (library ix))"
    and "\<not> searcher ix" "\<not> indexReader ix"
  shows "\<exists>hits ix'. search_query C (Some qu) ix = (Some hits, ix') \<and> index_inv C view ix' \<and> index_error ix' = NoError \<and>
    {#doc_id C d. (d, w) \<in># mset hits#} = sum_mset (image_mset ids {#c \<in># contents (view (library ix)). matching qu c#})"
  by (rule lucene_directory.search_new[OF assms])

definition found :: "qstring \<Rightarrow> (fields, memory_directory) lucene_index \<Rightarrow> qstring list" where
  "found t ix = (case fst (index_search memory_clucene 1 t ix) of None \<Rightarrow> [] | Some hits \<Rightarrow> map (\<lambda>(d, w). doc_id memory_clucene d) hits)"

definition add_example :: "qstring \<Rightarrow> (fields, memory_directory) lucene_index \<Rightarrow> (fields, memory_directory) lucene_index" where
  "add_example t ix = snd (index_addStatement plain_qt memory_clucene (index_example t) ix)"

definition remove_example :: "qstring \<Rightarrow> (fields, memory_directory) lucene_index \<Rightarrow> (fields, memory_directory) lucene_index" where
  "remove_example t ix = snd (index_removeStatement plain_qt memory_clucene (index_example t) ix)"

lemma example_inv: "index_inv memory_clucene memory_view (add_example ''x'' empty_index)"
proof -
  have "index_text plain_qt (index_example ''x'') \<noteq> []" by (simp add: index_example_text)
  from memory_directory.addStatement_shown[OF new_index_inv index_example_ok(2,3) this] show ?thesis
    by (auto simp: add_example_def shown_after_def empty_index_def)
qed

lemma example_state:
  "v_exists (memory_view (library (add_example ''x'' empty_index)))" "\<not> searcher (add_example ''x'' empty_index)"
  "\<not> indexReader (add_example ''x'' empty_index)" "fst (search_query memory_clucene (Some ''x'') (add_example ''x'' empty_index)) \<noteq> None"
  by code_simp+

theorem index_search_complete_witness:
  "\<exists>hits ix'. search_query memory_clucene (Some ''x'') (add_example ''x'' empty_index) = (Some hits, ix') \<and> index_error ix' = NoError"
  using index_search_complete[OF memory_directory.lucene_directory_axioms example_inv example_state(1-3), of "''x''"] by blast

section \<open>Faults\<close>

text \<open>The last property of a resource is removed by a reader that stays open: a search still finds the resource.\<close>

lemma removed_is_found:
  "found ''x'' (remove_example ''x'' (add_example ''x'' empty_index)) = [''a'']"
  by code_simp

text \<open>Before the first commit a removal is skipped, though the statement is in the cache.\<close>

lemma removal_in_first_transaction:
  "found ''x'' (snd (closeTransaction memory_clucene 1 (remove_example ''x'' (add_example ''x'' (snd (startTransaction empty_index)))))) = [''a'']"
  by code_simp

end
