(* ===== verification/Index_Filter.thy ===== *)
theory Index_Filter
  imports Clucene_Memory N3_Parser Result_Iterator
begin

text \<open>
  The model with a full text index (index/indexfiltermodel.cpp) and the iterators over hits (index/indexqueryhititeratorbackend.cpp,
  queryhitwrapperresultiteratorbackend.cpp). The filter stores a statement in its parent and, when the
  object is a literal with a text or the predicate is one that is always indexed, in the index. Some of its calls to
  the index are collected in a transaction.

  The locale \<open>indexed_store\<close> puts the contracts of the parent and of the directory together. The index mirrors the store: it shows
  of every resource the properties of its statements that are to be indexed.
\<close>

section \<open>State\<close>

text \<open>The filter has the state of its parent and its own error. The sets of predicates are lists.\<close>

record ('s, 'd, 'l) index_model =
  if_filter :: "'s \<times> error"
  if_index :: "('d, 'l) lucene_index"
  deleteIndex :: bool
  forceIndexPredicates :: "qurl list"
  indexOnlyPredicates :: "qurl list"
  transactionCacheSize :: int
  transactionCacheId :: int
  transactionCacheCount :: int

definition new_index_model :: "'s \<Rightarrow> ('d, 'l) lucene_index \<Rightarrow> ('s, 'd, 'l) index_model" where
  "new_index_model \<sigma> ix = \<lparr> if_filter = (\<sigma>, NoError), if_index = ix, deleteIndex = False, forceIndexPredicates = [],
     indexOnlyPredicates = [], transactionCacheSize = 1, transactionCacheId = 0, transactionCacheCount = 0 \<rparr>"

definition open_index_model :: "('d, 'q, 'l) clucene \<Rightarrow> qstring \<Rightarrow> bool \<Rightarrow> 's \<Rightarrow> 'l \<Rightarrow> ('s, 'd, 'l) index_model" where
  "open_index_model C folder missing \<sigma> l =
     (new_index_model \<sigma> (snd (index_open C folder missing False (new_index l))))\<lparr>deleteIndex := True\<rparr>"

definition if_destroy :: "('d, 'q, 'l) clucene \<Rightarrow> ('s, 'd, 'l) index_model \<Rightarrow> ('s, 'd, 'l) index_model" where
  "if_destroy C st = (if deleteIndex st then st\<lparr>if_index := index_close C (if_index st)\<rparr> else st)"

definition if_setError :: "error \<Rightarrow> ('s, 'd, 'l) index_model \<Rightarrow> ('s, 'd, 'l) index_model" where
  "if_setError e st = st\<lparr>if_filter := (fst (if_filter st), kept_error e)\<rparr>"

definition if_parent :: "('s \<times> error \<Rightarrow> 'r \<times> ('s \<times> error)) \<Rightarrow> ('s, 'd, 'l) index_model \<Rightarrow> 'r \<times> ('s, 'd, 'l) index_model" where
  "if_parent f st = (case f (if_filter st) of (r, fs) \<Rightarrow> (r, st\<lparr>if_filter := fs\<rparr>))"

section \<open>Transactions\<close>

definition if_startTransaction :: "('s, 'd, 'l) index_model \<Rightarrow> ('s, 'd, 'l) index_model" where
  "if_startTransaction st =
     (let st = (if transactionCacheSize st > 1 \<and> transactionCacheId st = 0 then
                  (case startTransaction (if_index st) of
                     (i, ix) \<Rightarrow> st\<lparr>if_index := ix, transactionCacheId := i, transactionCacheCount := 0\<rparr>)
                else st)
      in st\<lparr>transactionCacheCount := transactionCacheCount st + 1\<rparr>)"

definition if_closeTransaction :: "('d, 'q, 'l) clucene \<Rightarrow> ('s, 'd, 'l) index_model \<Rightarrow> ('s, 'd, 'l) index_model" where
  "if_closeTransaction C st =
     (if transactionCacheCount st \<ge> transactionCacheSize st \<and> transactionCacheId st \<noteq> 0 then
        st\<lparr>if_index := snd (closeTransaction C (transactionCacheId st) (if_index st)), transactionCacheCount := 0, transactionCacheId := 0\<rparr>
      else st)"

definition setTransactionCacheSize :: "('d, 'q, 'l) clucene \<Rightarrow> int \<Rightarrow> ('s, 'd, 'l) index_model \<Rightarrow> ('s, 'd, 'l) index_model" where
  "setTransactionCacheSize C n st = if_closeTransaction C (st\<lparr>transactionCacheSize := max 1 n\<rparr>)"

section \<open>Statements\<close>

definition storeStatement :: "('s, 'd, 'l) index_model \<Rightarrow> statement \<Rightarrow> bool" where
  "storeStatement st s \<longleftrightarrow> node_uri (predicate s) \<notin> set (indexOnlyPredicates st)"

definition indexStatement :: "qt \<Rightarrow> ('s, 'd, 'l) index_model \<Rightarrow> statement \<Rightarrow> bool" where
  "indexStatement q st s \<longleftrightarrow>
     node_isLiteral (object s) \<and> node_toString q (object s) \<noteq> [] \<or> node_uri (predicate s) \<in> set (forceIndexPredicates st)"

text \<open>A call of the index in a transaction. The error of the index is read after the transaction was closed.\<close>

definition update_index :: "('d, 'q, 'l) clucene \<Rightarrow> (('d, 'l) lucene_index \<Rightarrow> error_code \<times> ('d, 'l) lucene_index) \<Rightarrow>
    ('s, 'd, 'l) index_model \<Rightarrow> error_code \<times> ('s, 'd, 'l) index_model" where
  "update_index C f st =
     (let st = if_startTransaction st
      in case f (if_index st) of (c, ix) \<Rightarrow>
        (let st = if_closeTransaction C (st\<lparr>if_index := ix\<rparr>)
         in (c, if c \<noteq> ErrorNone then if_setError (index_error (if_index st)) st else st)))"

definition if_addStatement :: "qt \<Rightarrow> ('d, 'q, 'l) clucene \<Rightarrow> 's model \<Rightarrow> statement \<Rightarrow> ('s, 'd, 'l) index_model \<Rightarrow>
    error_code \<times> ('s, 'd, 'l) index_model" where
  "if_addStatement q C M s st =
     (let store = storeStatement st s
      in case (if store then if_parent (m_containsStatement (filter_model M) s) st else (False, st)) of (present, st) \<Rightarrow>
        if \<not> store \<or> \<not> present then
          (case (if store then if_parent (m_addStatement (filter_model M) s) st else (ErrorNone, st)) of (c, st) \<Rightarrow>
             if c = ErrorNone \<and> indexStatement q st s then update_index C (index_addStatement q C s) st else (c, st))
        else (ErrorNone, st))"

definition if_removeStatement :: "qt \<Rightarrow> ('d, 'q, 'l) clucene \<Rightarrow> 's model \<Rightarrow> statement \<Rightarrow> ('s, 'd, 'l) index_model \<Rightarrow>
    error_code \<times> ('s, 'd, 'l) index_model" where
  "if_removeStatement q C M s st = (case if_parent (m_removeStatement (filter_model M) s) st of (c, st) \<Rightarrow>
     if c = ErrorNone \<and> indexStatement q st s then update_index C (index_removeStatement q C s) st else (c, st))"

fun unindex_loop :: "qt \<Rightarrow> ('d, 'q, 'l) clucene \<Rightarrow> statement list \<Rightarrow> ('s, 'd, 'l) index_model \<Rightarrow> error_code \<times> ('s, 'd, 'l) index_model" where
  "unindex_loop q C [] st = (ErrorNone, st)"
| "unindex_loop q C (s # ss) st =
     (case (if indexStatement q st s then update_index C (index_removeStatement q C s) st else (ErrorNone, st)) of (c, st) \<Rightarrow>
        if c \<noteq> ErrorNone then (c, st) else unindex_loop q C ss st)"

text \<open>The statements are listed by the parent itself, before it removes them.\<close>

definition if_removeAllStatements :: "qt \<Rightarrow> ('d, 'q, 'l) clucene \<Rightarrow> 's model \<Rightarrow> statement \<Rightarrow> ('s, 'd, 'l) index_model \<Rightarrow>
    error_code \<times> ('s, 'd, 'l) index_model" where
  "if_removeAllStatements q C M p st =
     (case m_listStatements M p (fst (if_filter st)) of (it, \<sigma>) \<Rightarrow>
      (case unindex_loop q C (case it of None \<Rightarrow> [] | Some ss \<Rightarrow> ss) (st\<lparr>if_filter := (\<sigma>, snd (if_filter st))\<rparr>) of (c, st) \<Rightarrow>
         if c \<noteq> ErrorNone then (c, st) else if_parent (m_removeAllStatements (filter_model M) p) st))"

section \<open>Queries\<close>

text \<open>A hit as a row of results.\<close>

definition hit_row :: "qt \<Rightarrow> ('d, 'q, 'l) clucene \<Rightarrow> 'd \<times> u64 \<Rightarrow> binding_set" where
  "hit_row q C h = bs_insert ''score'' (node_of_literal (lit_double (snd h)))
     (bs_insert ''resource'' (hit_getResource q C (fst h)) empty_bindings)"

text \<open>The names of the languages SPARQL and so on are those of queryLanguageToString; \<open>an\<close> is the analyzer of the index.\<close>

definition if_executeQuery :: "qt \<Rightarrow> ('d, 'q, 'l) clucene \<Rightarrow> nat \<Rightarrow> 's model \<Rightarrow> qstring \<Rightarrow> qstring \<Rightarrow> ('s, 'd, 'l) index_model \<Rightarrow>
    binding_set list option \<times> ('s, 'd, 'l) index_model" where
  "if_executeQuery q C an M query language st =
     (if toLower language = ''lucene'' then
        (let st = if_closeTransaction C (st\<lparr>transactionCacheCount := transactionCacheSize st\<rparr>);
             st = if_setError NoError st
         in case index_search C an query (if_index st) of (hits, ix) \<Rightarrow>
           (let st = st\<lparr>if_index := ix\<rparr>
            in case hits of
                 None \<Rightarrow> (None, if_setError (index_error ix) st)
               | Some hs \<Rightarrow> (Some (map (hit_row q C) hs), st)))
      else if_parent (m_executeQuery (filter_model M) query language) st)"

definition resource_text :: "qt \<Rightarrow> node \<Rightarrow> qstring" where
  "resource_text q n = fst (node_toN3 q n Map.empty)"

definition literals_query :: "qt \<Rightarrow> qurl list \<Rightarrow> node \<Rightarrow> qstring" where
  "literals_query q force res =
     ''select distinct ?p ?o where { '' @ resource_text q res @ '' ?p ?o . FILTER('' @
     join_with '' || '' ((''(isLiteral(?o) && str(?o)!='' @ [CHR 0x27, CHR 0x27] @ '')'') #
       map (\<lambda>p. q_arg ''?p = %1'' (resource_text q (ResourceNode p))) force) @ '') . }''"

definition index_row :: "qt \<Rightarrow> ('d, 'q, 'l) clucene \<Rightarrow> node \<Rightarrow> binding_set \<Rightarrow> ('d, 'l) lucene_index \<Rightarrow> ('d, 'l) lucene_index" where
  "index_row q C res row ix =
     snd (index_addStatement q C (mk_statement res (value_of row ''p'') (value_of row ''o'') EmptyNode) ix)"

definition rebuild_resource :: "qt \<Rightarrow> ('d, 'q, 'l) clucene \<Rightarrow> 's model \<Rightarrow> binding_set \<Rightarrow> ('s, 'd, 'l) index_model \<Rightarrow> ('s, 'd, 'l) index_model" where
  "rebuild_resource q C M row st =
     (case startTransaction (if_index st) of (i, ix) \<Rightarrow>
      (case if_parent (m_executeQuery (filter_model M) (literals_query q (forceIndexPredicates st) (value_of row ''r'')) ''SPARQL'')
              (st\<lparr>if_index := ix\<rparr>) of (rows, st) \<Rightarrow>
        (let ix = fold (index_row q C (value_of row ''r'')) (case rows of None \<Rightarrow> [] | Some rs \<Rightarrow> rs) (if_index st)
         in st\<lparr>if_index := snd (closeTransaction C i ix)\<rparr>)))"

definition rebuildIndex :: "qt \<Rightarrow> ('d, 'q, 'l) clucene \<Rightarrow> 's model \<Rightarrow> ('s, 'd, 'l) index_model \<Rightarrow> ('s, 'd, 'l) index_model" where
  "rebuildIndex q C M st =
     (let st = if_closeTransaction C st;
          st = st\<lparr>if_index := index_clear C (if_index st)\<rparr>
      in case if_parent (m_executeQuery (filter_model M) ''select distinct ?r where { ?r ?p ?o . }'' ''SPARQL'') st of
           (rows, st) \<Rightarrow> fold (rebuild_resource q C M) (case rows of None \<Rightarrow> [] | Some rs \<Rightarrow> rs) st)"

definition optimizeIndex :: "('d, 'q, 'l) clucene \<Rightarrow> ('s, 'd, 'l) index_model \<Rightarrow> (lucene_error + unit) \<times> ('s, 'd, 'l) index_model" where
  "optimizeIndex C st = (case index_optimize C (if_index st) of (r, ix) \<Rightarrow> (r, st\<lparr>if_index := ix\<rparr>))"

section \<open>Settings\<close>

definition set_insert :: "'a \<Rightarrow> 'a list \<Rightarrow> 'a list" where
  "set_insert x xs = (if x \<in> set xs then xs else xs @ [x])"

definition addIndexOnlyPredicate :: "qurl \<Rightarrow> ('s, 'd, 'l) index_model \<Rightarrow> ('s, 'd, 'l) index_model" where
  "addIndexOnlyPredicate p st = st\<lparr>indexOnlyPredicates := set_insert p (indexOnlyPredicates st)\<rparr>"

definition setIndexOnlyPredicates :: "qurl list \<Rightarrow> ('s, 'd, 'l) index_model \<Rightarrow> ('s, 'd, 'l) index_model" where
  "setIndexOnlyPredicates ps st = st\<lparr>indexOnlyPredicates := fold set_insert ps []\<rparr>"

definition addForceIndexPredicate :: "qurl \<Rightarrow> ('s, 'd, 'l) index_model \<Rightarrow> ('s, 'd, 'l) index_model" where
  "addForceIndexPredicate p st = st\<lparr>forceIndexPredicates := set_insert p (forceIndexPredicates st)\<rparr>"

definition setForceIndexPredicates :: "qurl list \<Rightarrow> ('s, 'd, 'l) index_model \<Rightarrow> ('s, 'd, 'l) index_model" where
  "setForceIndexPredicates ps st = st\<lparr>forceIndexPredicates := fold set_insert ps []\<rparr>"

section \<open>Texts in queries\<close>

definition lucene_special :: "qstring" where
  "lucene_special = ''-+&|!(){}[]^'' @ [dquote] @ ''~:'' @ [bslash]"

definition encodeStringForLuceneQuery :: "qstring \<Rightarrow> qstring" where
  "encodeStringForLuceneQuery s = concat (map (\<lambda>c. if c \<in> set lucene_special then [bslash, c] else [c]) s)"

definition encodeUriForLuceneQuery :: "qurl \<Rightarrow> qstring" where
  "encodeUriForLuceneQuery u = encodeStringForLuceneQuery (encoded u)"

section \<open>The index as a mirror of the store\<close>

definition to_index :: "qt \<Rightarrow> ('s, 'd, 'l) index_model \<Rightarrow> node \<Rightarrow> graph \<Rightarrow> (qstring \<times> qstring) multiset" where
  "to_index q st n g = {#(index_field s, index_text q s). s \<in># {#s \<in># mset g. subject s = n \<and> indexStatement q st s#}#}"

definition index_mirrors :: "qt \<Rightarrow> ('d, 'q, 'l) clucene \<Rightarrow> ('l \<Rightarrow> lucene_view) \<Rightarrow> ('s \<Rightarrow> graph) \<Rightarrow> ('s, 'd, 'l) index_model \<Rightarrow> bool" where
  "index_mirrors q C view stored st \<longleftrightarrow> index_inv C view (if_index st) \<and>
     (\<forall>n. subject_node n \<longrightarrow> index_shows q C view (if_index st) n = to_index q st n (stored (fst (if_filter st))))"

text \<open>The transaction of the filter is the one of the index, and it has fewer calls in it than are cached.\<close>

definition cache_settled :: "('s, 'd, 'l) index_model \<Rightarrow> bool" where
  "cache_settled st \<longleftrightarrow> transactionID (if_index st) = transactionCacheId st \<and> 1 \<le> transactionCacheSize st \<and>
     (if transactionCacheId st = 0 then documentCache (if_index st) = []
      else transactionCacheId st = 1 \<and> 1 \<le> transactionCacheCount st \<and> transactionCacheCount st < transactionCacheSize st)"

definition index_started :: "('l \<Rightarrow> lucene_view) \<Rightarrow> ('d, 'l) lucene_index \<Rightarrow> bool" where
  "index_started view ix \<longleftrightarrow> v_exists (view (library ix)) \<or> documentCache ix = []"

definition statement_ok :: "qt \<Rightarrow> ('s, 'd, 'l) index_model \<Rightarrow> statement \<Rightarrow> bool" where
  "statement_ok q st s \<longleftrightarrow> stmt_isValid s \<and> subject_node (subject s) \<and> isPropertyField (index_field s) \<and>
     (indexStatement q st s \<longrightarrow> index_text q s \<noteq> [])"

text \<open>What a call of the filter leaves alone.\<close>

definition same_settings :: "('s, 'd, 'l) index_model \<Rightarrow> ('s, 'd, 'l) index_model \<Rightarrow> bool" where
  "same_settings st st' \<longleftrightarrow> forceIndexPredicates st' = forceIndexPredicates st \<and> indexOnlyPredicates st' = indexOnlyPredicates st \<and>
     transactionCacheSize st' = transactionCacheSize st"

lemma same_indexStatement: "same_settings st st' \<Longrightarrow> indexStatement q st' s = indexStatement q st s"
  by (simp add: same_settings_def indexStatement_def)

lemma same_to_index: "same_settings st st' \<Longrightarrow> to_index q st' n g = to_index q st n g"
  by (simp add: to_index_def same_indexStatement)

context lucene_directory begin

lemma update_shown:
  assumes inv: "index_inv C view (if_index st)" and settled: "cache_settled st"
    and f: "\<And>ix. index_inv C view ix \<Longrightarrow> (index_started view (if_index st) \<Longrightarrow> index_started view ix) \<Longrightarrow>
      \<exists>ix'. f ix = (ErrorNone, ix') \<and> shown_after q C view ix r g ix' \<and> (K \<longrightarrow> index_started view ix \<longrightarrow> index_started view ix')"
  shows "\<exists>st'. update_index C f st = (ErrorNone, st') \<and> if_filter st' = if_filter st \<and> same_settings st st' \<and> cache_settled st' \<and>
    index_inv C view (if_index st') \<and> (K \<longrightarrow> index_started view (if_index st) \<longrightarrow> index_started view (if_index st')) \<and>
    (\<forall>n. subject_node n \<longrightarrow> index_shows q C view (if_index st') n =
      (if n = r then g (index_shows q C view (if_index st) n) else index_shows q C view (if_index st) n))"
proof -
  define a where "a = if_startTransaction st"
  have a: "if_filter a = if_filter st" "same_settings st a" "library (if_index a) = library (if_index st)"
      "documentCache (if_index a) = documentCache (if_index st)" "transactionID (if_index a) = transactionCacheId a"
      "transactionCacheId a = 0 \<or> transactionCacheId a = 1 \<and> 1 \<le> transactionCacheCount a \<and> transactionCacheCount a \<le> transactionCacheSize st"
      "index_inv C view (if_index a)"
    using settled inv
    by (auto simp: a_def if_startTransaction_def startTransaction_def Let_def cache_settled_def same_settings_def set_index_error_def
        index_inv_def index_handles_def split: if_splits)
  have sh: "index_shows q C view (if_index a) n = index_shows q C view (if_index st) n" for n
    by (simp add: index_shows_def a(3,4) split: option.split)
  have "index_started view (if_index st) \<Longrightarrow> index_started view (if_index a)" by (simp add: index_started_def a(3,4))
  from f[OF a(7) this] obtain ix where ix: "f (if_index a) = (ErrorNone, ix)" "shown_after q C view (if_index a) r g ix"
      "K \<Longrightarrow> index_started view (if_index st) \<Longrightarrow> index_started view ix"
    by (auto simp: index_started_def a(3,4))
  define b where "b = a\<lparr>if_index := ix\<rparr>"
  have u: "update_index C f st = (ErrorNone, if_closeTransaction C b)" by (simp add: update_index_def Let_def ix(1) b_def flip: a_def)
  have ib: "index_inv C view ix" and tb: "transactionID ix = transactionCacheId a"
    and cb: "transactionCacheId a = 0 \<Longrightarrow> documentCache ix = []"
    and shb: "\<And>n. subject_node n \<Longrightarrow> index_shows q C view ix n =
       (if n = r then g (index_shows q C view (if_index st) n) else index_shows q C view (if_index st) n)"
    using ix(2) a(5) by (simp_all add: shown_after_def sh)
  show ?thesis
  proof (cases "transactionCacheCount b \<ge> transactionCacheSize b \<and> transactionCacheId b \<noteq> 0")
    case True
    then have one: "transactionCacheId a = 1" using a(6) by (auto simp: b_def)
    obtain c where c: "closeTransaction C 1 ix = (True, c)" "index_inv C view c" "transactionID c = 0" "documentCache c = []"
        "\<And>n. subject_node n \<Longrightarrow> index_shows q C view c n = index_shows q C view ix n"
      using closeTransaction_shown[OF ib, of 1 q] tb one by auto
    have "if_closeTransaction C b = b\<lparr>if_index := c, transactionCacheCount := 0, transactionCacheId := 0\<rparr>"
      using True c(1) one by (simp add: if_closeTransaction_def b_def)
    then show ?thesis using u c a(1,2) settled shb by (simp add: cache_settled_def same_settings_def index_started_def b_def)
  next
    case False
    have "if_closeTransaction C b = b" unfolding if_closeTransaction_def by (rule if_not_P[OF False])
    then show ?thesis using u a ib tb cb shb ix(3) settled False
      by (auto simp: cache_settled_def same_settings_def b_def)
  qed
qed

end

text \<open>The store and the directory together.\<close>

locale indexed_store = store: store_model q M stored + index: lucene_directory C view matching
  for q :: qt and M :: "'s model" and stored :: "'s \<Rightarrow> graph"
    and C :: "('d, 'q, 'l) clucene" and view :: "'l \<Rightarrow> lucene_view" and matching :: "'q \<Rightarrow> content \<Rightarrow> bool" +
  assumes contains: "fst (m_containsStatement M s \<sigma>) = graph_containsStatement q s (stored \<sigma>)"
begin

lemma index_add:
  assumes "index_inv C view (if_index st)" "cache_settled st" "statement_ok q st s" "indexStatement q st s"
  shows "\<exists>st'. update_index C (index_addStatement q C s) st = (ErrorNone, st') \<and> if_filter st' = if_filter st \<and> same_settings st st' \<and>
    cache_settled st' \<and> index_inv C view (if_index st') \<and>
    (\<forall>n. subject_node n \<longrightarrow> index_shows q C view (if_index st') n =
      (if n = subject s then add_mset (index_field s, index_text q s) (index_shows q C view (if_index st) n)
       else index_shows q C view (if_index st) n))"
proof -
  have s: "subject_node (subject s)" "isPropertyField (index_field s)" "index_text q s \<noteq> []"
    using assms(3,4) by (auto simp: statement_ok_def)
  have "\<exists>ix'. index_addStatement q C s ix = (ErrorNone, ix') \<and>
      shown_after q C view ix (subject s) (add_mset (index_field s, index_text q s)) ix' \<and>
      (False \<longrightarrow> index_started view ix \<longrightarrow> index_started view ix')"
    if "index_inv C view ix" for ix
    using index.addStatement_shown[OF that s] by auto
  from index.update_shown[OF assms(1,2) this] show ?thesis by blast
qed

lemma index_remove:
  assumes "index_inv C view (if_index st)" "cache_settled st" "statement_ok q st s" "indexStatement q st s" "index_started view (if_index st)"
  shows "\<exists>st'. update_index C (index_removeStatement q C s) st = (ErrorNone, st') \<and> if_filter st' = if_filter st \<and> same_settings st st' \<and>
    cache_settled st' \<and> index_inv C view (if_index st') \<and> index_started view (if_index st') \<and>
    (\<forall>n. subject_node n \<longrightarrow> index_shows q C view (if_index st') n =
      {#p \<in># index_shows q C view (if_index st) n. (n, p) \<noteq> (subject s, index_field s, index_text q s)#})"
proof -
  have s: "subject_node (subject s)" "isPropertyField (index_field s)" "index_text q s \<noteq> []"
    using assms(3,4) by (auto simp: statement_ok_def)
  let ?g = "filter_mset (\<lambda>p. p \<noteq> (index_field s, index_text q s))"
  have "\<exists>ix'. index_removeStatement q C s ix = (ErrorNone, ix') \<and> shown_after q C view ix (subject s) ?g ix' \<and>
      (True \<longrightarrow> index_started view ix \<longrightarrow> index_started view ix')"
    if "index_inv C view ix" "index_started view (if_index st) \<Longrightarrow> index_started view ix" for ix
    using index.removeStatement_any[OF that(1) s] that(2)[OF assms(5)] by (auto simp: index_started_def)
  from index.update_shown[OF assms(1,2) this] obtain st' where
    "update_index C (index_removeStatement q C s) st = (ErrorNone, st')" "if_filter st' = if_filter st" "same_settings st st'"
    "cache_settled st'" "index_inv C view (if_index st')" "index_started view (if_index st')"
    "\<And>n. subject_node n \<Longrightarrow> index_shows q C view (if_index st') n =
      (if n = subject s then ?g (index_shows q C view (if_index st) n) else index_shows q C view (if_index st) n)"
    using assms(5) by blast
  moreover have "(if n = subject s then ?g m else m) = {#p \<in># m. (n, p) \<noteq> (subject s, index_field s, index_text q s)#}" for n m
    by (cases "n = subject s") (auto intro: filter_mset_cong)
  ultimately show ?thesis by (intro exI[of _ st']) simp
qed

lemma parent_call:
  assumes "f (fst (if_filter st)) = (r, \<sigma>)"
  shows "if_parent (forward M f) st = (r, st\<lparr>if_filter := (\<sigma>, kept_error (m_lastError M \<sigma>))\<rparr>)"
  using assms by (simp add: if_parent_def forward_def)

end

lemma to_index_append: "to_index q st n (g @ [s]) =
    (if subject s = n \<and> indexStatement q st s then {#(index_field s, index_text q s)#} else {#}) + to_index q st n g"
  by (simp add: to_index_def)

context indexed_store begin

lemma add_statement:
  assumes m: "index_mirrors q C view stored st" and settled: "cache_settled st"
    and s: "statement_ok q st s" "storeStatement st s"
  shows "\<exists>st'. if_addStatement q C M s st = (ErrorNone, st') \<and> index_mirrors q C view stored st' \<and> cache_settled st' \<and> same_settings st st' \<and>
    stored (fst (if_filter st')) = graph_addStatement q s (stored (fst (if_filter st)))"
proof -
  let ?g = "stored (fst (if_filter st))"
  obtain p \<sigma>1 where p: "m_containsStatement M s (fst (if_filter st)) = (p, \<sigma>1)" by (cases "m_containsStatement M s (fst (if_filter st))")
  have p': "p = graph_containsStatement q s ?g" "stored \<sigma>1 = ?g"
    using contains[of s "fst (if_filter st)"] store.reads[of "CContains s" "fst (if_filter st)"] by (simp_all add: p tag_result_def)
  define a where "a = st\<lparr>if_filter := (\<sigma>1, kept_error (m_lastError M \<sigma>1))\<rparr>"
  have ca: "if_parent (m_containsStatement (filter_model M) s) st = (p, a)"
    using parent_call[of "m_containsStatement M s", OF p] by (simp add: filter_model_def a_def)
  show ?thesis
  proof (cases p)
    case True
    then have "if_addStatement q C M s st = (ErrorNone, a)" using s(2) ca by (simp add: if_addStatement_def)
    then show ?thesis using True p' m settled
      by (simp add: a_def graph_addStatement_def index_mirrors_def cache_settled_def same_settings_def to_index_def indexStatement_def)
  next
    case False
    obtain c \<sigma>2 where c: "m_addStatement M s (fst (if_filter a)) = (c, \<sigma>2)" by (cases "m_addStatement M s (fst (if_filter a))")
    have c': "c = ErrorNone" "stored \<sigma>2 = ?g @ [s]"
      using store.add[of s "fst (if_filter a)"] s(1) False p' c by (simp_all add: statement_ok_def a_def graph_addStatement_def)
    define b where "b = a\<lparr>if_filter := (\<sigma>2, kept_error (m_lastError M \<sigma>2))\<rparr>"
    have cb: "if_parent (m_addStatement (filter_model M) s) a = (ErrorNone, b)"
      using parent_call[of "m_addStatement M s", OF c] c'(1) by (simp add: filter_model_def b_def)
    have b: "same_settings st b" "if_index b = if_index st" "cache_settled b" "index_inv C view (if_index b)"
        "stored (fst (if_filter b)) = ?g @ [s]" "statement_ok q b s" "indexStatement q b s = indexStatement q st s"
      using settled m s(1) c'(2)
      by (simp_all add: b_def a_def same_settings_def cache_settled_def index_mirrors_def statement_ok_def indexStatement_def)
    have u: "if_addStatement q C M s st = (if indexStatement q b s then update_index C (index_addStatement q C s) b else (ErrorNone, b))"
      using s(2) ca cb False by (simp add: if_addStatement_def)
    have shown: "index_shows q C view (if_index b) n = to_index q st n ?g" if "subject_node n" for n
      using m that by (simp add: index_mirrors_def b(2))
    have new: "stored (fst (if_filter b)) = graph_addStatement q s ?g" using False p' by (simp add: b(5) graph_addStatement_def)
    show ?thesis
    proof (cases "indexStatement q b s")
      case True
      obtain e where e: "update_index C (index_addStatement q C s) b = (ErrorNone, e)" "if_filter e = if_filter b" "same_settings b e"
          "cache_settled e" "index_inv C view (if_index e)"
          "\<And>n. subject_node n \<Longrightarrow> index_shows q C view (if_index e) n =
            (if n = subject s then add_mset (index_field s, index_text q s) (index_shows q C view (if_index b) n)
             else index_shows q C view (if_index b) n)"
        using index_add[OF b(4,3,6) True] by blast
      have ss: "same_settings st e" using b(1) e(3) by (simp add: same_settings_def)
      have "index_mirrors q C view stored e"
        using True e(5,6) b(7) shown by (auto simp: index_mirrors_def e(2) b(5) same_to_index[OF ss] same_indexStatement[OF ss] to_index_append)
      then show ?thesis using u True e ss new by (intro exI[of _ e]) simp
    next
      case no: False
      have "index_mirrors q C view stored b"
        using no b(4,7) shown by (simp add: index_mirrors_def b(5) same_to_index[OF b(1)] same_indexStatement[OF b(1)] to_index_append)
      then show ?thesis using u no b new by (intro exI[of _ b]) simp
    qed
  qed
qed

end

text \<open>No two statements to be indexed that only the store tells apart: removing \<open>s\<close> removes just those with its subject, field and text.\<close>

definition told_apart :: "qt \<Rightarrow> ('s, 'd, 'l) index_model \<Rightarrow> (statement \<Rightarrow> bool) \<Rightarrow> statement list \<Rightarrow> graph \<Rightarrow> bool" where
  "told_apart q st gone ss g \<longleftrightarrow> (\<forall>t \<in> set g. indexStatement q st t \<longrightarrow>
     (gone t \<longleftrightarrow> (\<exists>s \<in> set ss. indexStatement q st s \<and> subject s = subject t \<and> index_field s = index_field t \<and> index_text q s = index_text q t)))"

lemma to_index_kept:
  assumes "told_apart q st gone ss g"
  shows "to_index q st n (filter (\<lambda>t. \<not> gone t) g) =
    {#p \<in># to_index q st n g. \<forall>s \<in> set ss. indexStatement q st s \<longrightarrow> (n, p) \<noteq> (subject s, index_field s, index_text q s)#}"
  using assms
proof (induction g)
  case (Cons t g)
  have g: "told_apart q st gone ss g" using Cons.prems by (simp add: told_apart_def)
  have t: "indexStatement q st t \<Longrightarrow> gone t \<longleftrightarrow>
      (\<exists>s \<in> set ss. indexStatement q st s \<and> subject s = subject t \<and> index_field s = index_field t \<and> index_text q s = index_text q t)"
    using Cons.prems by (simp add: told_apart_def)
  show ?case
  proof (cases "subject t = n \<and> indexStatement q st t")
    case True
    then have i: "to_index q st n (t # g) = add_mset (index_field t, index_text q t) (to_index q st n g)" by (simp add: to_index_def)
    have "gone t \<longleftrightarrow> \<not> (\<forall>s \<in> set ss. indexStatement q st s \<longrightarrow> (n, index_field t, index_text q t) \<noteq> (subject s, index_field s, index_text q s))"
      using t True by auto
    then show ?thesis using Cons.IH[OF g] True by (cases "gone t") (auto simp: i to_index_def)
  next
    case False
    then have i: "to_index q st n (t # g) = to_index q st n g" "to_index q st n (filter (\<lambda>t. \<not> gone t) (t # g)) = to_index q st n (filter (\<lambda>t. \<not> gone t) g)"
      by (auto simp: to_index_def)
    show ?thesis unfolding i by (rule Cons.IH[OF g])
  qed
qed (simp add: to_index_def)

context indexed_store begin

lemma unindexed:
  assumes "index_inv C view (if_index st)" "cache_settled st" "index_started view (if_index st)" "list_all (statement_ok q st) ss"
  shows "\<exists>st'. unindex_loop q C ss st = (ErrorNone, st') \<and> if_filter st' = if_filter st \<and> same_settings st st' \<and>
    cache_settled st' \<and> index_inv C view (if_index st') \<and> index_started view (if_index st') \<and>
    (\<forall>n. subject_node n \<longrightarrow> index_shows q C view (if_index st') n =
      {#p \<in># index_shows q C view (if_index st) n. \<forall>s \<in> set ss. indexStatement q st s \<longrightarrow> (n, p) \<noteq> (subject s, index_field s, index_text q s)#})"
  using assms
proof (induction ss arbitrary: st)
  case Nil
  then show ?case by (simp add: same_settings_def)
next
  case (Cons s ss)
  have s: "statement_ok q st s" "list_all (statement_ok q st) ss" using Cons.prems(4) by simp_all
  show ?case
  proof (cases "indexStatement q st s")
    case True
    obtain a where a: "update_index C (index_removeStatement q C s) st = (ErrorNone, a)" "if_filter a = if_filter st" "same_settings st a"
        "cache_settled a" "index_inv C view (if_index a)" "index_started view (if_index a)"
        "\<And>n. subject_node n \<Longrightarrow> index_shows q C view (if_index a) n =
          {#p \<in># index_shows q C view (if_index st) n. (n, p) \<noteq> (subject s, index_field s, index_text q s)#}"
      using index_remove[OF Cons.prems(1,2) s(1) True Cons.prems(3)] by blast
    have "list_all (statement_ok q a) ss" using s(2) by (simp add: list_all_iff statement_ok_def same_indexStatement[OF a(3)])
    from Cons.IH[OF a(5,4,6) this] obtain b where b: "unindex_loop q C ss a = (ErrorNone, b)" "if_filter b = if_filter a" "same_settings a b"
        "cache_settled b" "index_inv C view (if_index b)" "index_started view (if_index b)"
        "\<And>n. subject_node n \<Longrightarrow> index_shows q C view (if_index b) n =
          {#p \<in># index_shows q C view (if_index a) n. \<forall>s \<in> set ss. indexStatement q a s \<longrightarrow> (n, p) \<noteq> (subject s, index_field s, index_text q s)#}"
      by blast
    have "index_shows q C view (if_index b) n =
        {#p \<in># index_shows q C view (if_index st) n. \<forall>s \<in> set (s # ss). indexStatement q st s \<longrightarrow> (n, p) \<noteq> (subject s, index_field s, index_text q s)#}"
      if n: "subject_node n" for n
      unfolding b(7)[OF n] a(7)[OF n] filter_filter_mset same_indexStatement[OF a(3)]
      using True by (intro filter_mset_cong) auto
    then show ?thesis using True a b by (intro exI[of _ b]) (simp add: same_settings_def)
  next
    case False
    then show ?thesis using Cons.IH[OF Cons.prems(1-3) s(2)] by simp
  qed
qed

end

context indexed_store begin

lemma remove_statement:
  assumes m: "index_mirrors q C view stored st" and settled: "cache_settled st" and started: "index_started view (if_index st)"
    and s: "statement_ok q st s" and apart: "told_apart q st (\<lambda>t. Statement_Graph.same_key q t s) [s] (stored (fst (if_filter st)))"
  shows "\<exists>st'. if_removeStatement q C M s st = (ErrorNone, st') \<and> index_mirrors q C view stored st' \<and> cache_settled st' \<and> same_settings st st' \<and>
    stored (fst (if_filter st')) = graph_removeStatement q s (stored (fst (if_filter st)))"
proof -
  let ?g = "stored (fst (if_filter st))"
  obtain c \<sigma> where c: "m_removeStatement M s (fst (if_filter st)) = (c, \<sigma>)" by (cases "m_removeStatement M s (fst (if_filter st))")
  have c': "c = ErrorNone" "stored \<sigma> = filter (\<lambda>t. \<not> Statement_Graph.same_key q t s) ?g"
    using store.remove[of s "fst (if_filter st)"] by (simp_all add: c graph_removeStatement_def)
  define b where "b = st\<lparr>if_filter := (\<sigma>, kept_error (m_lastError M \<sigma>))\<rparr>"
  have cb: "if_parent (m_removeStatement (filter_model M) s) st = (ErrorNone, b)"
    using parent_call[of "m_removeStatement M s", OF c] c'(1) by (simp add: filter_model_def b_def)
  have b: "same_settings st b" "if_index b = if_index st" "cache_settled b" "index_inv C view (if_index b)" "statement_ok q b s"
      "indexStatement q b s = indexStatement q st s" "list_all (statement_ok q b) [s]" "index_started view (if_index b)"
    using settled m s started
    by (simp_all add: b_def same_settings_def cache_settled_def index_mirrors_def statement_ok_def indexStatement_def)
  have shown: "index_shows q C view (if_index b) n = to_index q st n ?g" if "subject_node n" for n
    using m that by (simp add: index_mirrors_def b(2))
  have fb: "fst (if_filter b) = \<sigma>" by (simp add: b_def)
  have u: "if_removeStatement q C M s st = unindex_loop q C [s] b"
    by (simp add: if_removeStatement_def cb split: prod.split)
  obtain e where e: "unindex_loop q C [s] b = (ErrorNone, e)" "if_filter e = if_filter b" "same_settings b e"
      "cache_settled e" "index_inv C view (if_index e)"
      "\<And>n. subject_node n \<Longrightarrow> index_shows q C view (if_index e) n =
        {#p \<in># index_shows q C view (if_index b) n. \<forall>s \<in> set [s]. indexStatement q b s \<longrightarrow> (n, p) \<noteq> (subject s, index_field s, index_text q s)#}"
    using unindexed[OF b(4,3,8,7)] by blast
  have ss: "same_settings st e" using b(1) e(3) by (simp add: same_settings_def)
  have "index_mirrors q C view stored e"
    using e(5) unfolding index_mirrors_def same_to_index[OF ss]
    by (simp add: e(2,6) shown fb c'(2) to_index_kept[OF apart] same_indexStatement[OF b(1)])
  then show ?thesis using u e(1,2,4) ss c'(2) by (intro exI[of _ e]) (simp add: b_def graph_removeStatement_def)
qed

lemma remove_matching:
  assumes m: "index_mirrors q C view stored st" and settled: "cache_settled st" and started: "index_started view (if_index st)"
    and ok: "list_all (statement_ok q st) (stored (fst (if_filter st)))"
    and apart: "told_apart q st (\<lambda>t. stmt_matches q t p) (filter (\<lambda>t. stmt_matches q t p) (stored (fst (if_filter st)))) (stored (fst (if_filter st)))"
  shows "\<exists>st'. if_removeAllStatements q C M p st = (ErrorNone, st') \<and> index_mirrors q C view stored st' \<and> cache_settled st' \<and> same_settings st st' \<and>
    stored (fst (if_filter st')) = graph_removeAllStatements q p (stored (fst (if_filter st)))"
proof -
  let ?g = "stored (fst (if_filter st))"
  let ?ss = "filter (\<lambda>t. stmt_matches q t p) ?g"
  obtain it \<sigma> where l: "m_listStatements M p (fst (if_filter st)) = (it, \<sigma>)" by (cases "m_listStatements M p (fst (if_filter st))")
  have l': "it = Some ?ss" "stored \<sigma> = ?g"
    using store.list_matches[of p "fst (if_filter st)"] store.list_keeps[of p "fst (if_filter st)"] by (simp_all add: l)
  define b where "b = st\<lparr>if_filter := (\<sigma>, snd (if_filter st))\<rparr>"
  have b: "same_settings st b" "if_index b = if_index st" "cache_settled b" "index_inv C view (if_index b)" "list_all (statement_ok q b) ?ss"
      "index_started view (if_index b)"
    using settled m ok started
    by (simp_all add: b_def same_settings_def cache_settled_def index_mirrors_def statement_ok_def indexStatement_def list_all_iff)
  obtain e where e: "unindex_loop q C ?ss b = (ErrorNone, e)" "if_filter e = if_filter b" "same_settings b e"
      "cache_settled e" "index_inv C view (if_index e)"
      "\<And>n. subject_node n \<Longrightarrow> index_shows q C view (if_index e) n =
        {#x \<in># index_shows q C view (if_index b) n. \<forall>s \<in> set ?ss. indexStatement q b s \<longrightarrow> (n, x) \<noteq> (subject s, index_field s, index_text q s)#}"
    using unindexed[OF b(4,3,6,5)] by blast
  have ge: "stored (fst (if_filter e)) = ?g" by (simp add: e(2) b_def l'(2))
  obtain c \<sigma>' where c: "m_removeAllStatements M p (fst (if_filter e)) = (c, \<sigma>')" by (cases "m_removeAllStatements M p (fst (if_filter e))")
  have c': "c = ErrorNone" "stored \<sigma>' = filter (\<lambda>t. \<not> stmt_matches q t p) ?g"
    using store.removeAll[of p "fst (if_filter e)"] ge by (simp_all add: c graph_removeAllStatements_def)
  define d where "d = e\<lparr>if_filter := (\<sigma>', kept_error (m_lastError M \<sigma>'))\<rparr>"
  have "if_parent (m_removeAllStatements (filter_model M) p) e = (ErrorNone, d)"
    using parent_call[of "m_removeAllStatements M p", OF c] c'(1) by (simp add: filter_model_def d_def)
  then have u: "if_removeAllStatements q C M p st = (ErrorNone, d)"
    using e(1) by (simp add: if_removeAllStatements_def l l'(1) flip: b_def)
  have ss: "same_settings st d" using b(1) e(3) by (simp add: same_settings_def d_def)
  have shown: "index_shows q C view (if_index b) n = to_index q st n ?g" if "subject_node n" for n
    using m that by (simp add: index_mirrors_def b(2))
  have "index_mirrors q C view stored d"
    using e(5) unfolding index_mirrors_def same_to_index[OF ss]
    by (simp add: d_def e(6) shown c'(2) to_index_kept[OF apart] same_indexStatement[OF b(1)])
  moreover have "cache_settled d" using e(4) by (simp add: d_def cache_settled_def)
  ultimately show ?thesis using u ss c'(2) by (intro exI[of _ d]) (simp add: d_def graph_removeAllStatements_def)
qed

end

interpretation memory_indexed: indexed_store q "memory_model q answer" fst memory_clucene memory_view memory_matching for q answer
  by (intro indexed_store.intro indexed_store_axioms.intro memory.store_model_axioms memory_directory.lucene_directory_axioms)
     (auto simp: memory_model_def)

text \<open>Claim C4: for a store that behaves as a graph and a full text index over a library that keeps its contract, where the index shows of every
  resource the properties of its statements that are to be indexed and the filter's cache is settled: adding a valid statement that the filter
  stores, whose subject is a resource or blank node, whose predicate is a property field and whose text is not empty when it is to be indexed,
  succeeds, acts on the store as on a graph and keeps index and store in step, inside and outside of transactions. Removing such a statement,
  or all that match a pattern when every stored statement is such a one, does so too under two more conditions: the index exists on disk or no
  document waits in its cache (index_started), and the index tells apart what the store tells apart: a stored statement that is indexed goes
  exactly when its subject, field and text are those of an indexed statement that is removed (told_apart). Without them it fails:
  removed_from_one_graph and removal_in_first_transaction are the counterexamples.\<close>

theorem index_mirrors_store:
  assumes "indexed_store q M stored C view matching" "index_mirrors q C view stored st" "cache_settled st"
  shows "(statement_ok q st s \<and> storeStatement st s \<longrightarrow>
      (\<exists>st'. if_addStatement q C M s st = (ErrorNone, st') \<and> index_mirrors q C view stored st' \<and> cache_settled st' \<and>
         stored (fst (if_filter st')) = graph_addStatement q s (stored (fst (if_filter st))))) \<and>
    (index_started view (if_index st) \<and> statement_ok q st s \<and>
       told_apart q st (\<lambda>t. Statement_Graph.same_key q t s) [s] (stored (fst (if_filter st))) \<longrightarrow>
      (\<exists>st'. if_removeStatement q C M s st = (ErrorNone, st') \<and> index_mirrors q C view stored st' \<and> cache_settled st' \<and>
         stored (fst (if_filter st')) = graph_removeStatement q s (stored (fst (if_filter st))))) \<and>
    (index_started view (if_index st) \<and> list_all (statement_ok q st) (stored (fst (if_filter st))) \<and>
       told_apart q st (\<lambda>t. stmt_matches q t p) (filter (\<lambda>t. stmt_matches q t p) (stored (fst (if_filter st)))) (stored (fst (if_filter st))) \<longrightarrow>
      (\<exists>st'. if_removeAllStatements q C M p st = (ErrorNone, st') \<and> index_mirrors q C view stored st' \<and> cache_settled st' \<and>
         stored (fst (if_filter st')) = graph_removeAllStatements q p (stored (fst (if_filter st)))))"
  using indexed_store.add_statement[OF assms, of s] indexed_store.remove_statement[OF assms, of s]
    indexed_store.remove_matching[OF assms, of p] by blast

type_synonym memory_indexed_model = "(graph \<times> error, fields, memory_directory) index_model"

definition no_answer :: "qstring \<Rightarrow> graph \<Rightarrow> binding_set list option" where
  "no_answer t g = None"

definition empty_indexed :: memory_indexed_model where
  "empty_indexed = new_index_model ([], NoError) empty_index"

lemma empty_indexed_mirrors: "index_mirrors plain_qt memory_clucene memory_view fst empty_indexed" "cache_settled empty_indexed"
  using new_index_inv
  by (auto simp: index_mirrors_def empty_indexed_def new_index_model_def empty_index_def to_index_def cache_settled_def index_shows_def
      new_index_def stored_properties_def contents_def memory_view_def memory_docs_def)

theorem index_mirrors_store_witness:
  "\<exists>st'. if_addStatement plain_qt memory_clucene (memory_model plain_qt no_answer) (index_example ''x'') empty_indexed = (ErrorNone, st') \<and>
     index_mirrors plain_qt memory_clucene memory_view fst st' \<and> fst (fst (if_filter st')) = [index_example ''x'']"
proof -
  have "stmt_isValid (index_example ''x'')" by (simp add: index_example_def mk_statement_def stmt_isValid_def node_test_defs)
  then have s: "statement_ok plain_qt empty_indexed (index_example ''x'')"
    using index_example_ok[of "''x''"] index_example_text(1)[of "''x''"] by (simp add: statement_ok_def)
  have t: "storeStatement empty_indexed (index_example ''x'')" by (simp add: storeStatement_def empty_indexed_def new_index_model_def)
  have g: "graph_addStatement plain_qt (index_example ''x'') (fst (fst (if_filter empty_indexed))) = [index_example ''x'']"
    by (simp add: graph_addStatement_def graph_containsStatement_def empty_indexed_def new_index_model_def)
  show ?thesis
    using index_mirrors_store[OF memory_indexed.indexed_store_axioms empty_indexed_mirrors, of "index_example ''x''" no_answer] s t g by auto
qed

section \<open>Faults\<close>

definition if_add :: "(fields, qstring, memory_directory) clucene \<Rightarrow> statement \<Rightarrow> memory_indexed_model \<Rightarrow> memory_indexed_model" where
  "if_add C s st = snd (if_addStatement plain_qt C (memory_model plain_qt no_answer) s st)"

definition if_found :: "qstring \<Rightarrow> memory_indexed_model \<Rightarrow> nat" where
  "if_found t st = (case fst (if_executeQuery plain_qt memory_clucene 1 (memory_model plain_qt no_answer) t ''lucene'' st) of
     None \<Rightarrow> 0 | Some rows \<Rightarrow> length rows)"

definition in_graph :: "qstring \<Rightarrow> statement \<Rightarrow> statement" where
  "in_graph g s = setContext (ResourceNode (QUrl g)) s"

text \<open>A statement is in two graphs and removed from one: the index forgets it. The document has it with another text, so the
  removal is written.\<close>

lemma removed_from_one_graph:
  "let st = if_add memory_clucene (index_example ''y'') (if_add memory_clucene (in_graph ''g'' (index_example ''x''))
         (if_add memory_clucene (in_graph ''h'' (index_example ''x'')) empty_indexed));
       st' = snd (if_removeStatement plain_qt memory_clucene (memory_model plain_qt no_answer) (in_graph ''g'' (index_example ''x'')) st)
   in if_found ''x'' st = 1 \<and> if_found ''x'' st' = 0 \<and> length (fst (fst (if_filter st'))) = 2"
  by code_simp

text \<open>A statement whose predicate is always indexed and whose object has no text is stored, and the call fails.\<close>

lemma empty_text_fails:
  "case if_addStatement plain_qt memory_clucene (memory_model plain_qt no_answer) (index_example [])
      (addForceIndexPredicate (QUrl ''p'') empty_indexed) of (c, st) \<Rightarrow> c = ErrorUnknown \<and> fst (fst (if_filter st)) = [index_example []]"
  by code_simp

text \<open>A commit fails once: its transaction stays open in the index, and nothing is committed any more.\<close>

lemma failed_commit_stays:
  "let broken = memory_clucene\<lparr>open_writer := (\<lambda>_ l. (Inl lucene_failure, l))\<rparr>;
       st = if_add broken (index_example ''y'') (if_add broken (index_example ''x'') (setTransactionCacheSize memory_clucene 2 empty_indexed));
       st' = if_add memory_clucene (index_example ''w'') (if_add memory_clucene (index_example ''v'') st)
   in transactionCacheId st = 0 \<and> transactionID (if_index st) = 1 \<and> if_found ''w'' st' = 0"
  by code_simp

text \<open>The index is rebuilt while a transaction is open: its document is kept, and gets every property again.\<close>

definition rebuild_answer :: "qstring \<Rightarrow> graph \<Rightarrow> binding_set list option" where
  "rebuild_answer t g = Some (if t = ''select distinct ?r where { ?r ?p ?o . }''
     then map (\<lambda>s. bs_of [(''r'', subject s)]) g else map (\<lambda>s. bs_of [(''p'', predicate s), (''o'', object s)]) g)"

lemma rebuild_doubles:
  "let st = if_add memory_clucene (index_example ''x'') (setTransactionCacheSize memory_clucene 5 empty_indexed);
       st' = rebuildIndex plain_qt memory_clucene (memory_model plain_qt rebuild_answer) st
   in map (\<lambda>(n, d). length (values_of ''p'' d)) (documentCache (if_index st')) = [2]"
  by code_simp

text \<open>The wildcards of the query language are not escaped.\<close>

lemma wildcards_not_encoded: "encodeStringForLuceneQuery ''a*b?'' = ''a*b?''"
  by code_simp

text \<open>A resource that is a property becomes a text when its document is read again, though it was not one before.\<close>

lemma resource_becomes_text:
  "let s = mk_statement (ResourceNode (QUrl ''a'')) (ResourceNode (QUrl ''t'')) (ResourceNode (QUrl ''u'')) EmptyNode;
       st = if_add memory_clucene s (addForceIndexPredicate (QUrl ''t'') empty_indexed);
       st' = if_add memory_clucene (index_example ''x'') st
   in if_found ''u'' st = 0 \<and> if_found ''u'' st' = 1"
  by code_simp

end
