(* ===== verification/Index_Hits.thy ===== *)
theory Index_Hits
  imports Index_Filter
begin

text \<open>
  The iterators over the hits of a search (index/indexqueryhit.cpp, indexqueryhititeratorbackend.cpp,
  queryhitwrapperresultiteratorbackend.cpp): the one over CLucene's hits and the one that makes rows of a
  query result of them. They satisfy the contract of a backend, so reading them to the end gives one row per hit.
\<close>

section \<open>Hits\<close>

record query_hit =
  hit_resource :: node
  hit_score :: u64

definition empty_hit :: query_hit where
  "empty_hit = \<lparr> hit_resource = EmptyNode, hit_score = 0 \<rparr>"

record 'd hit_iterator =
  m_hits :: "('d \<times> u64) list option"
  m_currentDocId :: int
  hit_error :: error

definition new_hit_iterator :: "('d \<times> u64) list \<Rightarrow> 'd hit_iterator" where
  "new_hit_iterator hs = \<lparr> m_hits = Some hs, m_currentDocId = - 1, hit_error = NoError \<rparr>"

definition hit_failed :: "qstring \<Rightarrow> 'd hit_iterator \<Rightarrow> 'd hit_iterator" where
  "hit_failed m h = h\<lparr>hit_error := mk_error m (error_code_num ErrorUnknown)\<rparr>"

definition hits_next :: "'d hit_iterator \<Rightarrow> bool \<times> 'd hit_iterator" where
  "hits_next h = (case m_hits h of
       None \<Rightarrow> (False, hit_failed ''Invalid iterator'' h)
     | Some hs \<Rightarrow> (let h = h\<lparr>m_currentDocId := m_currentDocId h + 1\<rparr> in (m_currentDocId h < int (length hs), h)))"

text \<open>Before the first call of next there is no document to read.\<close>

definition hits_current :: "qt \<Rightarrow> ('d, 'q, 'l) clucene \<Rightarrow> 'd hit_iterator \<Rightarrow> (query_hit \<times> 'd hit_iterator) option" where
  "hits_current q C h = (case m_hits h of
       None \<Rightarrow> Some (empty_hit, hit_failed ''Invalid iterator'' h)
     | Some hs \<Rightarrow>
         if m_currentDocId h < int (length hs) then
           (if m_currentDocId h < 0 then None
            else (case hs ! nat (m_currentDocId h) of (d, w) \<Rightarrow>
              Some (\<lparr> hit_resource = hit_getResource q C d, hit_score = w \<rparr>, h\<lparr>hit_error := NoError\<rparr>)))
         else Some (empty_hit, hit_failed ''Iterator at end.'' h))"

definition hits_close :: "'d hit_iterator \<Rightarrow> 'd hit_iterator" where
  "hits_close h = h\<lparr>hit_error := NoError, m_hits := None\<rparr>"

definition hits_backend :: "qt \<Rightarrow> ('d, 'q, 'l) clucene \<Rightarrow> ('d hit_iterator, query_hit) backend" where
  "hits_backend q C = \<lparr> b_next = (\<lambda>h. Some (hits_next h)), b_current = hits_current q C,
     b_close = (\<lambda>h. Some (hits_close h)), b_error = hit_error \<rparr>"

section \<open>Rows\<close>

definition bindingNames :: "qstring list" where
  "bindingNames = [''resource'', ''score'']"

definition hit_value :: "int \<Rightarrow> query_hit \<Rightarrow> node" where
  "hit_value i h = (if i = 0 then hit_resource h else if i = 1 then node_of_literal (lit_double (hit_score h)) else EmptyNode)"

text \<open>The columns that are not there are empty without asking the iterator.\<close>

definition wrapper_at :: "qt \<Rightarrow> ('d, 'q, 'l) clucene \<Rightarrow> int \<Rightarrow> 'd hit_iterator front \<Rightarrow> (node \<times> 'd hit_iterator front) option" where
  "wrapper_at q C i it =
     (if i = 0 \<or> i = 1 then map_option (\<lambda>(h, it). (hit_value i h, it)) (it_current (hits_backend q C) empty_hit it)
      else Some (EmptyNode, it))"

definition wrapper_named :: "qt \<Rightarrow> ('d, 'q, 'l) clucene \<Rightarrow> qstring \<Rightarrow> 'd hit_iterator front \<Rightarrow> (node \<times> 'd hit_iterator front) option" where
  "wrapper_named q C n it =
     (if n = bindingNames ! 0 then wrapper_at q C 0 it else if n = bindingNames ! 1 then wrapper_at q C 1 it else Some (EmptyNode, it))"

fun wrapper_columns :: "qt \<Rightarrow> ('d, 'q, 'l) clucene \<Rightarrow> nat list \<Rightarrow> binding_set \<Rightarrow> 'd hit_iterator front \<Rightarrow>
    (binding_set \<times> 'd hit_iterator front) option" where
  "wrapper_columns q C [] bs it = Some (bs, it)"
| "wrapper_columns q C (i # is) bs it = (case wrapper_at q C (int i) it of
     None \<Rightarrow> None
   | Some (n, it) \<Rightarrow> wrapper_columns q C is (bs_insert (bindingNames ! i) n bs) it)"

definition wrapper_backend :: "qt \<Rightarrow> ('d, 'q, 'l) clucene \<Rightarrow> ('d hit_iterator front, binding_set) backend" where
  "wrapper_backend q C = adapted (hits_backend q C) (wrapper_columns q C [0..<length bindingNames] empty_bindings)"

section \<open>Every hit is delivered\<close>

definition as_hit :: "qt \<Rightarrow> ('d, 'q, 'l) clucene \<Rightarrow> 'd \<times> u64 \<Rightarrow> query_hit" where
  "as_hit q C h = \<lparr> hit_resource = hit_getResource q C (fst h), hit_score = snd h \<rparr>"

definition hits_at :: "qt \<Rightarrow> ('d, 'q, 'l) clucene \<Rightarrow> 'd hit_iterator \<Rightarrow> query_hit option \<Rightarrow> query_hit list \<Rightarrow> bool" where
  "hits_at q C h x xs \<longleftrightarrow> (\<exists>hs. m_hits h = Some hs \<and>
     (if m_currentDocId h = - 1 then x = None \<and> xs = map (as_hit q C) hs
      else \<exists>i. m_currentDocId h = int i \<and> i < length hs \<and> x = Some (as_hit q C (hs ! i)) \<and> xs = drop (Suc i) (map (as_hit q C) hs)))"

lemma hits_at_new: "hits_at q C (new_hit_iterator hs) None (map (as_hit q C) hs)"
  by (simp add: hits_at_def new_hit_iterator_def)

lemma hits_at_next:
  assumes "hits_at q C h x xs"
  shows "case xs of [] \<Rightarrow> \<exists>h'. hits_next h = (False, h') | y # ys \<Rightarrow> \<exists>h'. hits_next h = (True, h') \<and> hits_at q C h' (Some y) ys"
proof -
  obtain hs where hs: "m_hits h = Some hs" using assms by (auto simp: hits_at_def)
  define i where "i = nat (m_currentDocId h + 1)"
  have i: "m_currentDocId h + 1 = int i" "xs = drop i (map (as_hit q C) hs)"
    using assms hs by (auto simp: hits_at_def i_def nat_add_distrib split: if_splits)
  let ?h = "h\<lparr>m_currentDocId := int i\<rparr>"
  have n: "hits_next h = (i < length hs, ?h)" using hs i(1) by (simp add: hits_next_def Let_def)
  show ?thesis
  proof (cases "i < length hs")
    case True
    then have "xs = as_hit q C (hs ! i) # drop (Suc i) (map (as_hit q C) hs)"
      using Cons_nth_drop_Suc[of i "map (as_hit q C) hs"] by (simp add: i(2))
    moreover have "hits_at q C ?h (Some (as_hit q C (hs ! i))) (drop (Suc i) (map (as_hit q C) hs))"
      using True hs by (auto simp: hits_at_def)
    ultimately show ?thesis using n True by simp
  next
    case False
    then show ?thesis using n i(2) by simp
  qed
qed

lemma hits_at_current:
  assumes "hits_at q C h (Some x) xs"
  shows "\<exists>h'. hits_current q C h = Some (x, h') \<and> hits_at q C h' (Some x) xs"
proof -
  obtain hs i where i: "m_hits h = Some hs" "m_currentDocId h = int i" "i < length hs" "x = as_hit q C (hs ! i)"
    using assms by (auto simp: hits_at_def split: if_splits)
  then have "hits_current q C h = Some (x, h\<lparr>hit_error := NoError\<rparr>)"
    by (simp add: hits_current_def as_hit_def split: prod.split)
  then show ?thesis using assms by (auto simp: hits_at_def)
qed

interpretation hits: delivers "hits_backend q C" "hits_at q C" "\<lambda>_. True" "\<lambda>_. True" for q C
proof
  fix h x y ys
  assume "hits_at q C h x (y # ys)"
  then show "\<exists>h'. b_next (hits_backend q C) h = Some (True, h') \<and> hits_at q C h' (Some y) ys"
    using hits_at_next[of q C h x "y # ys"] by (auto simp: hits_backend_def)
next
  fix h x
  assume "hits_at q C h x []"
  then show "\<exists>h'. b_next (hits_backend q C) h = Some (False, h') \<and> True"
    using hits_at_next[of q C h x "[]"] by (auto simp: hits_backend_def)
qed (simp_all add: hits_backend_def hits_at_current)

definition hit_bindings :: "query_hit \<Rightarrow> binding_set" where
  "hit_bindings h = bs_insert ''score'' (hit_value 1 h) (bs_insert ''resource'' (hit_value 0 h) empty_bindings)"

definition wrapper_has :: "qt \<Rightarrow> ('d, 'q, 'l) clucene \<Rightarrow> 'd hit_iterator front \<Rightarrow> binding_set option \<Rightarrow> binding_set list \<Rightarrow> bool" where
  "wrapper_has q C it x xs \<longleftrightarrow> (\<exists>h y ys. fst it = Some h \<and> hits_at q C h y ys \<and> x = map_option hit_bindings y \<and> xs = map hit_bindings ys)"

definition wrapper_done :: "'d hit_iterator front \<Rightarrow> bool" where
  "wrapper_done it \<longleftrightarrow> fst it \<noteq> None"

lemma wrapper_hasI: "hits_at q C h y ys \<Longrightarrow> wrapper_has q C (Some h, e) (map_option hit_bindings y) (map hit_bindings ys)"
  by (auto simp: wrapper_has_def)

lemma wrapper_close: "wrapper_done it \<Longrightarrow> \<exists>it'. it_close (hits_backend q C) it = Some it' \<and> wrapper_done it'"
  by (cases it) (auto simp: wrapper_done_def it_close_def hits_backend_def)

interpretation hit_rows: delivers "wrapper_backend q C" "wrapper_has q C" wrapper_done wrapper_done for q C
proof
  fix it x y ys
  assume "wrapper_has q C it x (y # ys)"
  then obtain h a b bs e where h: "it = (Some h, e)" "hits_at q C h a (b # bs)" "y = hit_bindings b" "ys = map hit_bindings bs"
    by (cases it) (auto simp: wrapper_has_def)
  obtain h' e' where "it_next (hits_backend q C) it = Some (True, (Some h', e'))" "hits_at q C h' (Some b) bs"
    using hits.front_more[OF h(2), of e] h(1) by blast
  then show "\<exists>it'. b_next (wrapper_backend q C) it = Some (True, it') \<and> wrapper_has q C it' (Some y) ys"
    using h(3,4) wrapper_hasI[of q C h' "Some b" bs e'] by (simp add: wrapper_backend_def adapted_def)
next
  fix it x
  assume "wrapper_has q C it x []"
  then obtain h a e where h: "it = (Some h, e)" "hits_at q C h a []" by (cases it) (auto simp: wrapper_has_def)
  then show "\<exists>it'. b_next (wrapper_backend q C) it = Some (False, it') \<and> wrapper_done it'"
    using hits.front_last[OF h(2), of e] by (auto simp: wrapper_backend_def adapted_def wrapper_done_def)
next
  fix it x xs
  assume "wrapper_has q C it (Some x) xs"
  then obtain h y as e where it: "it = (Some h, e)" "hits_at q C h y as" "Some x = map_option hit_bindings y" "xs = map hit_bindings as"
    by (cases it) (auto simp: wrapper_has_def)
  then obtain a where h: "it = (Some h, e)" "hits_at q C h (Some a) as" "x = hit_bindings a" "xs = map hit_bindings as"
    by (cases y) auto
  obtain h1 e1 where 1: "it_current (hits_backend q C) empty_hit it = Some (a, (Some h1, e1))" "hits_at q C h1 (Some a) as"
    using hits.front_here[OF h(2), of empty_hit e] h(1) by blast
  obtain h2 e2 where 2: "it_current (hits_backend q C) empty_hit (Some h1, e1) = Some (a, (Some h2, e2))" "hits_at q C h2 (Some a) as"
    using hits.front_here[OF 1(2), of empty_hit e1] by blast
  have "wrapper_columns q C [0..<length bindingNames] empty_bindings it = Some (x, (Some h2, e2))"
    by (simp add: bindingNames_def upt_rec[of 0] upt_rec[of 1] wrapper_at_def 1(1) 2(1) h(3) hit_bindings_def)
  then show "\<exists>it'. b_current (wrapper_backend q C) it = Some (x, it') \<and> wrapper_has q C it' (Some x) xs"
    using h(3,4) wrapper_hasI[OF 2(2), of e2] by (simp add: wrapper_backend_def adapted_def)
qed (simp_all only: wrapper_backend_def adapted_def backend.simps wrapper_close)

text \<open>The rows of executeQuery are what reading its iterator to the end gives.\<close>

lemma hit_bindings_row: "hit_bindings (as_hit q C h) = hit_row q C h"
  by (simp add: hit_bindings_def as_hit_def hit_row_def hit_value_def)

lemma all_hit_rows:
  "\<exists>it e. allElements (wrapper_backend q C) empty_bindings (new_iterator (new_iterator (new_hit_iterator hs))) =
     Some (map (hit_row q C) hs, (Some it, e))"
proof -
  have "wrapper_has q C (new_iterator (new_hit_iterator hs)) None (map hit_bindings (map (as_hit q C) hs))"
    using wrapper_hasI[OF hits_at_new[of q C hs], of NoError] by (simp add: new_iterator_def)
  from hit_rows.all_elements[OF this, of empty_bindings NoError] show ?thesis
    by (auto simp: new_iterator_def hit_bindings_row)
qed

end
