(* ===== verification/Backend_Settings.thy ===== *)
theory Backend_Settings
  imports Soprano_Prelude
begin

text \<open>
  Settings and features of backends (soprano/backend.cpp): the list of settings with its readers and the reference into it, against a
  map from options to values, and the test of features. Options and features are flags, numbers as in sopranotypes.h.
\<close>

section \<open>Settings\<close>

abbreviation BackendOptionNone :: int where "BackendOptionNone \<equiv> 0"
abbreviation BackendOptionStorageMemory :: int where "BackendOptionStorageMemory \<equiv> 1"
abbreviation BackendOptionStorageDir :: int where "BackendOptionStorageDir \<equiv> 4"
abbreviation BackendOptionHost :: int where "BackendOptionHost \<equiv> 8"
abbreviation BackendOptionPort :: int where "BackendOptionPort \<equiv> 16"
abbreviation BackendOptionUsername :: int where "BackendOptionUsername \<equiv> 32"
abbreviation BackendOptionPassword :: int where "BackendOptionPassword \<equiv> 64"
abbreviation BackendOptionUser :: int where "BackendOptionUser \<equiv> 0x1000"

record setting =
  setting_option :: int
  userOptionName :: qstring
  set_value :: qvariant

definition mk_setting :: "int \<Rightarrow> qstring \<Rightarrow> qvariant \<Rightarrow> setting" where
  "mk_setting opt name v = \<lparr> setting_option = opt, userOptionName = name, set_value = v \<rparr>"

definition empty_setting :: setting where "empty_setting = mk_setting BackendOptionNone [] VInvalid"
definition flag_setting :: "int \<Rightarrow> setting" where "flag_setting opt = mk_setting opt [] (VBool True)"
definition option_setting :: "int \<Rightarrow> qvariant \<Rightarrow> setting" where "option_setting opt v = mk_setting opt [] v"
definition user_setting :: "qstring \<Rightarrow> qvariant \<Rightarrow> setting" where "user_setting name v = mk_setting BackendOptionUser name v"

definition is_setting :: "int \<Rightarrow> qstring \<Rightarrow> setting \<Rightarrow> bool" where
  "is_setting opt name s \<longleftrightarrow> setting_option s = opt \<and> (opt = BackendOptionUser \<longrightarrow> userOptionName s = name)"

fun isOptionInSettings :: "setting list \<Rightarrow> int \<Rightarrow> qstring \<Rightarrow> bool" where
  "isOptionInSettings [] opt name = False"
| "isOptionInSettings (s # ss) opt name = (if is_setting opt name s then True else isOptionInSettings ss opt name)"

text \<open>The reference: a position in the list, which gets a new setting at its end when there is none.\<close>

fun setting_position :: "setting list \<Rightarrow> int \<Rightarrow> qstring \<Rightarrow> nat option" where
  "setting_position [] opt name = None"
| "setting_position (s # ss) opt name = (if is_setting opt name s then Some 0 else map_option Suc (setting_position ss opt name))"

definition settingInSettings_ref :: "setting list \<Rightarrow> int \<Rightarrow> qstring \<Rightarrow> nat \<times> setting list" where
  "settingInSettings_ref ss opt name = (case setting_position ss opt name of
     Some i \<Rightarrow> (i, ss)
   | None \<Rightarrow> (length ss, ss @ [if opt = BackendOptionUser then user_setting name VInvalid else option_setting opt VInvalid]))"

definition setValue :: "nat \<Rightarrow> qvariant \<Rightarrow> setting list \<Rightarrow> setting list" where
  "setValue i v ss = ss[i := (ss ! i)\<lparr>set_value := v\<rparr>]"

fun settingInSettings :: "setting list \<Rightarrow> int \<Rightarrow> qstring \<Rightarrow> setting" where
  "settingInSettings [] opt name = empty_setting"
| "settingInSettings (s # ss) opt name = (if is_setting opt name s then s else settingInSettings ss opt name)"

fun valueInSettingsWithDefault :: "setting list \<Rightarrow> int \<Rightarrow> qvariant \<Rightarrow> qvariant" where
  "valueInSettingsWithDefault [] opt d = d"
| "valueInSettingsWithDefault (s # ss) opt d = (if setting_option s = opt then set_value s else valueInSettingsWithDefault ss opt d)"

fun valueInSettings_user :: "setting list \<Rightarrow> qstring \<Rightarrow> qvariant \<Rightarrow> qvariant" where
  "valueInSettings_user [] name d = d"
| "valueInSettings_user (s # ss) name d =
     (if setting_option s = BackendOptionUser \<and> userOptionName s = name then set_value s else valueInSettings_user ss name d)"

definition valueInSettings :: "setting list \<Rightarrow> int \<Rightarrow> qstring \<Rightarrow> qvariant" where
  "valueInSettings ss opt name =
     (if opt = BackendOptionUser then valueInSettings_user ss name VInvalid else valueInSettingsWithDefault ss opt VInvalid)"

section \<open>Settings as a map\<close>

text \<open>The key of a setting: only user options have a name.\<close>

definition setting_key :: "int \<Rightarrow> qstring \<Rightarrow> int \<times> qstring" where
  "setting_key opt name = (opt, if opt = BackendOptionUser then name else [])"

definition settings_map :: "setting list \<Rightarrow> int \<times> qstring \<rightharpoonup> qvariant" where
  "settings_map ss = map_of (map (\<lambda>s. (setting_key (setting_option s) (userOptionName s), set_value s)) ss)"

lemma is_setting_key: "is_setting opt name s \<longleftrightarrow> setting_key (setting_option s) (userOptionName s) = setting_key opt name"
  by (auto simp: is_setting_def setting_key_def)

lemma settings_map_simps [simp]:
  "settings_map [] = Map.empty"
  "settings_map (s # ss) k = (if setting_key (setting_option s) (userOptionName s) = k then Some (set_value s) else settings_map ss k)"
  by (auto simp: settings_map_def)

lemma isOption_map: "isOptionInSettings ss opt name \<longleftrightarrow> settings_map ss (setting_key opt name) \<noteq> None"
  by (induction ss) (auto simp: is_setting_key)

lemma value_map: "valueInSettings ss opt name = (case settings_map ss (setting_key opt name) of Some v \<Rightarrow> v | None \<Rightarrow> VInvalid)"
proof -
  have user: "valueInSettings_user ss name d = (case settings_map ss (setting_key BackendOptionUser name) of Some v \<Rightarrow> v | None \<Rightarrow> d)" for d
    by (induction ss) (auto simp: setting_key_def)
  have other: "opt \<noteq> BackendOptionUser \<Longrightarrow> valueInSettingsWithDefault ss opt d = (case settings_map ss (setting_key opt name) of Some v \<Rightarrow> v | None \<Rightarrow> d)" for d
    by (induction ss) (auto simp: setting_key_def)
  show ?thesis using user other by (simp add: valueInSettings_def)
qed

lemma setting_map: "set_value (settingInSettings ss opt name) = (case settings_map ss (setting_key opt name) of Some v \<Rightarrow> v | None \<Rightarrow> VInvalid)"
  by (induction ss) (auto simp: is_setting_key empty_setting_def mk_setting_def)

lemma position_less: "setting_position ss opt name = Some i \<Longrightarrow> i < length ss"
  by (induction ss arbitrary: i) (auto split: if_splits)

lemma set_at_position:
  "setting_position ss opt name = Some i \<Longrightarrow> settings_map (setValue i v ss) = (settings_map ss)(setting_key opt name \<mapsto> v)"
proof (induction ss arbitrary: i)
  case (Cons s ss)
  show ?case
  proof (cases "is_setting opt name s")
    case True
    then show ?thesis using Cons.prems by (auto simp: setValue_def is_setting_key fun_eq_iff)
  next
    case False
    then obtain j where j: "setting_position ss opt name = Some j" "i = Suc j" using Cons.prems by auto
    have "setValue i v (s # ss) = s # setValue j v ss" by (simp add: setValue_def j(2))
    then show ?thesis using Cons.IH[OF j(1)] False by (intro ext) (auto simp: is_setting_key)
  qed
qed simp

lemma no_position: "setting_position ss opt name = None \<longleftrightarrow> settings_map ss (setting_key opt name) = None"
  by (induction ss) (auto simp: is_setting_key)

lemma settings_map_append: "settings_map (ss @ [s]) k =
    (case settings_map ss k of Some v \<Rightarrow> Some v | None \<Rightarrow> settings_map [s] k)"
  by (induction ss) auto

lemma set_new:
  assumes "setting_position ss opt name = None"
  shows "settings_map (setValue (length ss) v (snd (settingInSettings_ref ss opt name))) = (settings_map ss)(setting_key opt name \<mapsto> v)"
proof -
  let ?s = "mk_setting opt (if opt = BackendOptionUser then name else []) v"
  have "setValue (length ss) v (snd (settingInSettings_ref ss opt name)) = ss @ [?s]"
    using assms by (simp add: settingInSettings_ref_def setValue_def user_setting_def option_setting_def mk_setting_def)
  moreover have "settings_map (ss @ [?s]) = (settings_map ss)(setting_key opt name \<mapsto> v)"
    using assms by (auto simp: fun_eq_iff settings_map_append no_position setting_key_def mk_setting_def split: option.splits)
  ultimately show ?thesis by simp
qed

text \<open>a list of settings is a map from options to values, the first setting of an option counting. The readers look the
  option up, user options by their name; setting a value through the reference changes this option only, and adds it
  when it was not there.\<close>

theorem settings_are_a_map:
  "(isOptionInSettings ss opt name \<longleftrightarrow> settings_map ss (setting_key opt name) \<noteq> None) \<and>
   valueInSettings ss opt name = (case settings_map ss (setting_key opt name) of Some v \<Rightarrow> v | None \<Rightarrow> VInvalid) \<and>
   set_value (settingInSettings ss opt name) = valueInSettings ss opt name \<and>
   (case settingInSettings_ref ss opt name of (i, ss') \<Rightarrow>
      i < length ss' \<and> settings_map (setValue i v ss') = (settings_map ss)(setting_key opt name \<mapsto> v))"
proof -
  have "case settingInSettings_ref ss opt name of (i, ss') \<Rightarrow>
      i < length ss' \<and> settings_map (setValue i v ss') = (settings_map ss)(setting_key opt name \<mapsto> v)"
  proof (cases "setting_position ss opt name")
    case None
    then show ?thesis using set_new[OF None, of v] by (simp add: settingInSettings_ref_def)
  next
    case (Some i)
    then show ?thesis using set_at_position[OF Some, of v] position_less[OF Some] by (simp add: settingInSettings_ref_def)
  qed
  then show ?thesis using isOption_map value_map setting_map by simp
qed

section \<open>Features\<close>

abbreviation BackendFeatureAddStatement :: int where "BackendFeatureAddStatement \<equiv> 1"
abbreviation BackendFeatureQuery :: int where "BackendFeatureQuery \<equiv> 8"
abbreviation BackendFeatureUser :: int where "BackendFeatureUser \<equiv> 0x1000"

definition supportsFeatures :: "int \<Rightarrow> qstring list \<Rightarrow> int \<Rightarrow> qstring list \<Rightarrow> bool" where
  "supportsFeatures supported supportedUser features user =
     (if and supported features = 0 then False
      else if and features BackendFeatureUser \<noteq> 0 then list_all (\<lambda>f. f \<in> set supportedUser) user
      else True)"

text \<open>One of the features asked for is enough.\<close>

lemma one_feature_is_enough: "supportsFeatures BackendFeatureAddStatement [] (or BackendFeatureAddStatement BackendFeatureQuery) []"
  by code_simp

lemma no_features_unsupported: "\<not> supportsFeatures supported users 0 []"
  by (simp add: supportsFeatures_def)

end
