(* ===== verification/Odbc_Result.thy ===== *)
theory Odbc_Result
  imports Result_Iterator
begin

text \<open>
  Rows of the Virtuoso server (backends/virtuoso/odbcqueryresult.cpp, virtuosotools.cpp, the constants of virtuosoodbcext.h): the
  columns of a result, fetching a row, reading the bytes of a cell through a buffer of 100 bytes, and the node a cell
  stands for. The ODBC driver is a record of its calls over the state of a statement handle. The locale \<open>odbc_driver\<close> is its contract;
  a result kept in memory satisfies it.
\<close>

section \<open>The driver\<close>

datatype fetch = FetchedRow | NoDataFound | FetchFailed

text \<open>The fields of SQLGetDescField the code asks for.\<close>

datatype desc_field = DV_TYPE | DT_DT_TYPE | BOX_FLAGS | LITERAL_LANG | LITERAL_TYPE

text \<open>\<open>sqlGetData col size\<close> gives the bytes it put into a buffer of \<open>size\<close> bytes, without the terminating null, and the
  indicator: the number of bytes that were to be read, or -1 for a null value. A call that does not succeed is \<open>None\<close>.
  \<open>sqlDescribeCol\<close> gets the size of the buffer for the name. \<open>sqlGetDiag\<close> is the list of the texts of all diagnostic records.\<close>

record 'h odbc =
  sqlNumResultCols :: "'h \<Rightarrow> nat option"
  sqlDescribeCol :: "nat \<Rightarrow> nat \<Rightarrow> 'h \<Rightarrow> (qbytes \<times> int) option"
  sqlFetch :: "'h \<Rightarrow> fetch \<times> 'h"
  sqlGetData :: "nat \<Rightarrow> int \<Rightarrow> 'h \<Rightarrow> (qbytes \<times> int) option \<times> 'h"
  sqlRowDesc :: "'h \<Rightarrow> bool"
  sqlDescInt :: "nat \<Rightarrow> desc_field \<Rightarrow> 'h \<Rightarrow> int option"
  sqlDescText :: "nat \<Rightarrow> desc_field \<Rightarrow> nat \<Rightarrow> 'h \<Rightarrow> (qbytes \<times> int) option"
  sqlGetDiag :: "'h \<Rightarrow> qbytes list"

definition latin1 :: "qbytes \<Rightarrow> qstring" where
  "latin1 bs = map char_of_byte bs"

text \<open>A C string ends at the first null.\<close>

definition c_string :: "qbytes \<Rightarrow> qbytes" where
  "c_string bs = takeWhile (\<lambda>b. b \<noteq> 0) bs"

text \<open>The last record is kept.\<close>

definition convertSqlError :: "qbytes list \<Rightarrow> qstring \<Rightarrow> error" where
  "convertSqlError diag extra =
     (let msg = (if diag = [] then [] else ''iODBC Error: '' @ latin1 (last diag))
      in if msg = [] then mk_error ''Failed to retrieve error information from iODBC'' (error_code_num ErrorUnknown)
         else mk_error (if extra \<noteq> [] then extra @ '' ('' @ msg @ '')'' else msg) (error_code_num ErrorUnknown))"

section \<open>Results\<close>

record 'h query_result =
  hstmt :: 'h
  m_columns :: "qstring list"
  m_columTypes :: "int list"
  qr_error :: error

definition new_query_result :: "'h \<Rightarrow> 'h query_result" where
  "new_query_result h = \<lparr> hstmt = h, m_columns = [], m_columTypes = [], qr_error = NoError \<rparr>"

definition qr_fail :: "'h odbc \<Rightarrow> qstring \<Rightarrow> 'h query_result \<Rightarrow> 'h query_result" where
  "qr_fail O' extra r = r\<lparr>qr_error := convertSqlError (sqlGetDiag O' (hstmt r)) extra\<rparr>"

text \<open>The loop over the columns stops at one that cannot be described.\<close>

fun describe_loop :: "'h odbc \<Rightarrow> nat list \<Rightarrow> 'h query_result \<Rightarrow> 'h query_result" where
  "describe_loop O' [] r = r"
| "describe_loop O' (c # cs) r = (case sqlDescribeCol O' c 50 (hstmt r) of
     Some (name, t) \<Rightarrow>
       describe_loop O' cs (r\<lparr>m_columns := m_columns r @ [latin1 (c_string name)], m_columTypes := m_columTypes r @ [t]\<rparr>)
   | None \<Rightarrow> qr_fail O' ''SQLDescribeCol failed'' r)"

definition resultColumns :: "'h odbc \<Rightarrow> 'h query_result \<Rightarrow> qstring list \<times> 'h query_result" where
  "resultColumns O' r =
     (let r = (if m_columns r = [] then
                 (case sqlNumResultCols O' (hstmt r) of
                    None \<Rightarrow> qr_fail O' [] r
                  | Some n \<Rightarrow> describe_loop O' [1..<Suc n] (r\<lparr>qr_error := NoError\<rparr>))
               else r)
      in (m_columns r, r))"

definition fetchRow :: "'h odbc \<Rightarrow> 'h query_result \<Rightarrow> bool \<times> 'h query_result" where
  "fetchRow O' r = (case sqlFetch O' (hstmt r) of (f, h) \<Rightarrow>
     (let r = r\<lparr>hstmt := h\<rparr> in
      case f of
        NoDataFound \<Rightarrow> (False, r\<lparr>qr_error := NoError\<rparr>)
      | FetchFailed \<Rightarrow> (False, qr_fail O' ''SQLFetch failed'' r)
      | FetchedRow \<Rightarrow> (True, r)))"

text \<open>The types of character data without a bound: SQL_LONGVARCHAR, SQL_LONGVARBINARY, SQL_WLONGVARCHAR.\<close>

definition isBlob :: "nat \<Rightarrow> 'h query_result \<Rightarrow> bool" where
  "isBlob col r \<longleftrightarrow> m_columTypes r ! (col - 1) \<in> {- 1, - 4, - 10}"

section \<open>The bytes of a cell\<close>

text \<open>The result is the contents of the buffer, \<open>None\<close> for the null pointer, and the length. A value longer than 99 bytes
  is read in two calls; the second writes over the null of the first, and the length is what the second call reports.
  The size of its buffer is an int.\<close>

definition bufSize :: int where "bufSize = 100"

definition to_int :: "int \<Rightarrow> int" where
  "to_int n = sint (word_of_int n :: 32 word)"

lemma to_int_small: "- (2 ^ 31) \<le> n \<Longrightarrow> n < 2 ^ 31 \<Longrightarrow> to_int n = n"
  unfolding to_int_def sint_sbintrunc' by (subst signed_take_bit_int_eq_self) auto

definition getCharData :: "'h odbc \<Rightarrow> nat \<Rightarrow> 'h query_result \<Rightarrow> (qbytes option \<times> int) option \<times> 'h query_result" where
  "getCharData O' col r = (case sqlGetData O' col bufSize (hstmt r) of
     (None, h) \<Rightarrow> (None, qr_fail O' ''SQLGetData failed'' (r\<lparr>hstmt := h\<rparr>))
   | (Some (bs, n), h) \<Rightarrow>
      (let r = r\<lparr>hstmt := h\<rparr> in
       if n = - 1 \<or> n = 0 then (Some (None, 0), r\<lparr>qr_error := NoError\<rparr>)
       else if n > bufSize - 1 then
         (let len = to_int (n - (bufSize - 1) + 1) in
          case sqlGetData O' col len (hstmt r) of
            (Some (bs', n'), h) \<Rightarrow> (Some (Some (take (nat (bufSize - 1)) (bs @ [0]) @ bs'), n'), r\<lparr>hstmt := h, qr_error := NoError\<rparr>)
          | (None, h) \<Rightarrow> (None, qr_fail O' ''SQLGetData failed'' (r\<lparr>hstmt := h\<rparr>)))
       else (Some (Some bs, n), r\<lparr>qr_error := NoError\<rparr>)))"

section \<open>Nodes\<close>

abbreviation VIRTUOSO_DV_STRING :: int where "VIRTUOSO_DV_STRING \<equiv> 182"
abbreviation VIRTUOSO_DV_RDF :: int where "VIRTUOSO_DV_RDF \<equiv> 246"
abbreviation VIRTUOSO_DV_LONG_INT :: int where "VIRTUOSO_DV_LONG_INT \<equiv> 189"
abbreviation VIRTUOSO_DV_SINGLE_FLOAT :: int where "VIRTUOSO_DV_SINGLE_FLOAT \<equiv> 190"
abbreviation VIRTUOSO_DV_DOUBLE_FLOAT :: int where "VIRTUOSO_DV_DOUBLE_FLOAT \<equiv> 191"
abbreviation VIRTUOSO_DV_NUMERIC :: int where "VIRTUOSO_DV_NUMERIC \<equiv> 219"
abbreviation VIRTUOSO_DV_IRI_ID :: int where "VIRTUOSO_DV_IRI_ID \<equiv> 243"

definition date_types :: "int set" where
  "date_types = {128, 129, 210, 211}"

definition fakeBooleanTypeString :: qstring where
  "fakeBooleanTypeString = ''sopranofakes:/booleanHackUntilVirtuosoProblemIsResolved''"

definition fakeBase64BinaryTypeString :: qstring where
  "fakeBase64BinaryTypeString = ''sopranofakes:/base64BinaryHackUntilVirtuosoProblemIsResolved''"

text \<open>strncmp with equality as the result: at most \<open>n\<close> bytes are compared.\<close>

fun strncmp_eq :: "nat \<Rightarrow> qbytes \<Rightarrow> qbytes \<Rightarrow> bool" where
  "strncmp_eq 0 xs ys = True"
| "strncmp_eq (Suc n) [] [] = True"
| "strncmp_eq (Suc n) (x # xs) (y # ys) = (x = y \<and> strncmp_eq n xs ys)"
| "strncmp_eq (Suc n) _ _ = False"

definition ascii :: "qstring \<Rightarrow> qbytes" where
  "ascii s = map byte_of_char s"

text \<open>The null pointer reads as an empty text.\<close>

definition data_bytes :: "qbytes option \<Rightarrow> qbytes" where
  "data_bytes d = (case d of None \<Rightarrow> [] | Some bs \<Rightarrow> c_string bs)"

definition has_flag :: "int \<Rightarrow> int \<Rightarrow> bool" where
  "has_flag flags f \<longleftrightarrow> flags div f mod 2 = 1"

definition string_node :: "qt \<Rightarrow> int \<Rightarrow> qbytes option \<Rightarrow> node" where
  "string_node q boxFlags data =
     (let bs = data_bytes data in
      if has_flag boxFlags 1 then
        (if data \<noteq> None \<and> take 2 bs = ascii ''_:'' then node_of_id (str_fromUtf8 q (drop 2 bs))
         else node_of_url (url_fromEncodedStrict q (latin1 bs)))
      else if data \<noteq> None \<and> take 9 bs = ascii ''nodeID://'' then node_of_id (latin1 (drop 9 bs))
      else if has_flag boxFlags 2 then node_of_literal (createPlainLiteral (str_fromUtf8 q bs) (LanguageTag None))
      else node_of_literal (createPlainLiteral (latin1 bs) (LanguageTag None)))"

definition typed_node :: "qt \<Rightarrow> qbytes \<Rightarrow> int \<Rightarrow> qbytes option \<Rightarrow> node" where
  "typed_node q typeBuf typeBufLen data =
     (let bs = data_bytes data; typeStr = c_string typeBuf; n = nat typeBufLen in
      if strncmp_eq n typeStr (ascii fakeBooleanTypeString) then node_of_literal (lit_bool (bs = ascii ''true''))
      else node_of_literal (fromString_uri q (str_fromUtf8 q bs)
        (if strncmp_eq n typeStr (ascii fakeBase64BinaryTypeString) then xsd XsdBase64Binary
         else url_fromEncodedStrict q (latin1 (take n typeBuf)))))"

definition space_to_T :: "qstring \<Rightarrow> qstring" where
  "space_to_T s = map (\<lambda>c. if c = CHR 0x20 then CHR ''T'' else c) s"

definition date_node :: "qt \<Rightarrow> int \<Rightarrow> qbytes option \<Rightarrow> node" where
  "date_node q t data =
     (let type = (if t = 2 then TDate else if t = 3 then TTime else TDateTime)
      in node_of_literal (fromString_type q (space_to_T (str_fromUtf8 q (data_bytes data))) type))"

definition getData :: "qt \<Rightarrow> 'h odbc \<Rightarrow> nat \<Rightarrow> 'h query_result \<Rightarrow> node \<times> 'h query_result" where
  "getData q O' col r = (case getCharData O' col r of
     (None, r) \<Rightarrow> (EmptyNode, r)
   | (Some (data, n), r) \<Rightarrow>
      (let text = str_fromUtf8 q (data_bytes data) in
       if \<not> sqlRowDesc O' (hstmt r) then (EmptyNode, qr_fail O' ''SQLGetStmtAttr failed'' r)
       else (case sqlDescInt O' col DV_TYPE (hstmt r) of
         None \<Rightarrow> (EmptyNode, qr_fail O' ''SQLGetDescField SQL_DESC_COL_DV_TYPE failed'' r)
       | Some dvtype \<Rightarrow>
          (if dvtype = VIRTUOSO_DV_STRING then
             (case sqlDescInt O' col BOX_FLAGS (hstmt r) of
                None \<Rightarrow> (EmptyNode, qr_fail O' ''SQLGetDescField failed'' r)
              | Some boxFlags \<Rightarrow> (string_node q boxFlags data, r))
           else if dvtype = VIRTUOSO_DV_RDF then
             (case sqlDescText O' col LITERAL_TYPE 100 (hstmt r) of
                Some (typeBuf, typeBufLen) \<Rightarrow> (typed_node q typeBuf typeBufLen data, r)
              | None \<Rightarrow> (case sqlDescText O' col LITERAL_LANG 100 (hstmt r) of
                  Some (langBuf, langBufLen) \<Rightarrow>
                    (node_of_literal (createPlainLiteral text (tag_of_string (latin1 (take (nat langBufLen) langBuf)))), r)
                | None \<Rightarrow> (EmptyNode, qr_fail O' ''SQLGetDescField SQL_DESC_COL_LITERAL_* failed'' r)))
           else if dvtype = VIRTUOSO_DV_LONG_INT then (node_of_literal (fromString_type q text TInt), r)
           else if dvtype = VIRTUOSO_DV_SINGLE_FLOAT then (node_of_literal (fromString_uri q text (xsd XsdFloat)), r)
           else if dvtype = VIRTUOSO_DV_DOUBLE_FLOAT then (node_of_literal (fromString_type q text TDouble), r)
           else if dvtype = VIRTUOSO_DV_NUMERIC then (node_of_literal (fromString_uri q text (xsd XsdDecimal)), r)
           else if dvtype \<in> date_types then
             (case sqlDescInt O' col DT_DT_TYPE (hstmt r) of
                None \<Rightarrow> (EmptyNode, qr_fail O' ''SQLGetDescField SQL_DESC_COL_DT_DT_TYPE failed'' r)
              | Some t \<Rightarrow> (date_node q t data, r))
           else if dvtype = VIRTUOSO_DV_IRI_ID then
             (node_of_literal (lit_string (latin1 (take (nat n) (case data of None \<Rightarrow> [] | Some bs \<Rightarrow> bs)))), r)
           else if dvtype = 204 then (EmptyNode, r)
           else (EmptyNode, r\<lparr>qr_error := mk_error (q_arg ''Internal Error: Unknown result type %1'' (show_int dvtype))
                   (error_code_num ErrorUnknown)\<rparr>)))))"


section \<open>The contract of a driver\<close>

text \<open>A cell: its bytes, \<open>None\<close> when it is null, and its descriptor.\<close>

record cell =
  cell_data :: "qbytes option"
  cell_dv :: int
  cell_flags :: int
  cell_dt :: int
  cell_type :: "qbytes option"
  cell_lang :: "qbytes option"

fun cell_int :: "desc_field \<Rightarrow> cell \<Rightarrow> int option" where
  "cell_int DV_TYPE c = Some (cell_dv c)"
| "cell_int BOX_FLAGS c = Some (cell_flags c)"
| "cell_int DT_DT_TYPE c = Some (cell_dt c)"
| "cell_int _ c = None"

fun cell_text :: "desc_field \<Rightarrow> cell \<Rightarrow> qbytes option" where
  "cell_text LITERAL_TYPE c = cell_type c"
| "cell_text LITERAL_LANG c = cell_lang c"
| "cell_text _ c = None"

text \<open>The columns of a statement handle, the row it is at, the rows to come, and how many bytes of each column of the row
  were read. SQLGetData goes on where its last call ended; it fails when a value was read to its end.\<close>

locale odbc_driver =
  fixes O' :: "'h odbc"
    and col_names :: "'h \<Rightarrow> (qbytes \<times> int) list"
    and row_at :: "'h \<Rightarrow> cell list"
    and rows_left :: "'h \<Rightarrow> cell list list"
    and bytes_read :: "'h \<Rightarrow> nat \<Rightarrow> nat"
  assumes num_columns: "sqlNumResultCols O' h = Some (length (col_names h))"
    and describe_column: "c < length (col_names h) \<Longrightarrow> length (fst (col_names h ! c)) < sz \<Longrightarrow>
      sqlDescribeCol O' (Suc c) sz h = Some (col_names h ! c)"
    and fetch_row: "rows_left h = row # rows \<Longrightarrow> \<exists>h'. sqlFetch O' h = (FetchedRow, h') \<and> row_at h' = row \<and>
      rows_left h' = rows \<and> bytes_read h' = (\<lambda>_. 0) \<and> col_names h' = col_names h"
    and fetch_end: "rows_left h = [] \<Longrightarrow> \<exists>h'. sqlFetch O' h = (NoDataFound, h') \<and> rows_left h' = [] \<and> col_names h' = col_names h"
    and get_null: "c < length (row_at h) \<Longrightarrow> cell_data (row_at h ! c) = None \<Longrightarrow>
      \<exists>h' bs. sqlGetData O' (Suc c) n h = (Some (bs, - 1), h') \<and> row_at h' = row_at h \<and> rows_left h' = rows_left h \<and>
        bytes_read h' = bytes_read h \<and> col_names h' = col_names h"
    and get_data: "c < length (row_at h) \<Longrightarrow> cell_data (row_at h ! c) = Some bs \<Longrightarrow> bytes_read h (Suc c) = k \<Longrightarrow> 0 < n \<Longrightarrow>
      k = 0 \<or> k < length bs \<Longrightarrow>
      \<exists>h'. sqlGetData O' (Suc c) n h = (Some (take (nat (n - 1)) (drop k bs), int (length bs - k)), h') \<and>
        row_at h' = row_at h \<and> rows_left h' = rows_left h \<and>
        bytes_read h' = (bytes_read h)(Suc c := min (length bs) (k + nat (n - 1))) \<and> col_names h' = col_names h"
    and row_descriptor: "sqlRowDesc O' h"
    and field_int: "c < length (row_at h) \<Longrightarrow> f \<in> {DV_TYPE, BOX_FLAGS, DT_DT_TYPE} \<Longrightarrow> sqlDescInt O' (Suc c) f h = cell_int f (row_at h ! c)"
    and field_text: "c < length (row_at h) \<Longrightarrow> f \<in> {LITERAL_TYPE, LITERAL_LANG} \<Longrightarrow>
      (\<And>t. cell_text f (row_at h ! c) = Some t \<Longrightarrow> length t < sz) \<Longrightarrow>
      sqlDescText O' (Suc c) f sz h = map_option (\<lambda>t. (t, int (length t))) (cell_text f (row_at h ! c))"

text \<open>What is kept of a handle while the cells of its row are read.\<close>

definition cell_small :: "cell \<Rightarrow> bool" where
  "cell_small c \<longleftrightarrow> length (data_bytes (cell_data c)) < 2 ^ 31 \<and> (\<forall>bs. cell_data c = Some bs \<longrightarrow> length bs < 2 ^ 31) \<and>
     (\<forall>t. cell_type c = Some t \<longrightarrow> length t < 100) \<and> (\<forall>t. cell_lang c = Some t \<longrightarrow> length t < 100)"

text \<open>The node of a cell, with the length the reader is left with.\<close>

definition cell_buffer :: "cell \<Rightarrow> qbytes option" where
  "cell_buffer c = (if cell_data c = Some [] then None else cell_data c)"

definition cell_length :: "cell \<Rightarrow> int" where
  "cell_length c = (case cell_data c of None \<Rightarrow> 0 | Some bs \<Rightarrow> if length bs > 99 then int (length bs) - 99 else int (length bs))"

definition cell_node :: "qt \<Rightarrow> cell \<Rightarrow> node" where
  "cell_node q c =
     (let data = cell_buffer c; text = str_fromUtf8 q (data_bytes data); t = cell_dv c in
      if t = VIRTUOSO_DV_STRING then string_node q (cell_flags c) data
      else if t = VIRTUOSO_DV_RDF then
        (case cell_type c of
           Some ty \<Rightarrow> typed_node q ty (int (length ty)) data
         | None \<Rightarrow> (case cell_lang c of
             Some l \<Rightarrow> node_of_literal (createPlainLiteral text (tag_of_string (latin1 l)))
           | None \<Rightarrow> EmptyNode))
      else if t = VIRTUOSO_DV_LONG_INT then node_of_literal (fromString_type q text TInt)
      else if t = VIRTUOSO_DV_SINGLE_FLOAT then node_of_literal (fromString_uri q text (xsd XsdFloat))
      else if t = VIRTUOSO_DV_DOUBLE_FLOAT then node_of_literal (fromString_type q text TDouble)
      else if t = VIRTUOSO_DV_NUMERIC then node_of_literal (fromString_uri q text (xsd XsdDecimal))
      else if t \<in> date_types then date_node q (cell_dt c) data
      else if t = VIRTUOSO_DV_IRI_ID then
        node_of_literal (lit_string (latin1 (take (nat (cell_length c)) (case data of None \<Rightarrow> [] | Some bs \<Rightarrow> bs))))
      else EmptyNode)"

definition cell_readable :: "cell \<Rightarrow> bool" where
  "cell_readable c \<longleftrightarrow> cell_small c \<and>
     cell_dv c \<in> {VIRTUOSO_DV_STRING, VIRTUOSO_DV_RDF, VIRTUOSO_DV_LONG_INT, VIRTUOSO_DV_SINGLE_FLOAT, VIRTUOSO_DV_DOUBLE_FLOAT,
       VIRTUOSO_DV_NUMERIC, VIRTUOSO_DV_IRI_ID, 204} \<union> date_types \<and>
     (cell_dv c = VIRTUOSO_DV_RDF \<longrightarrow> cell_type c \<noteq> None \<or> cell_lang c \<noteq> None)"

definition same_row :: "('h \<Rightarrow> (qbytes \<times> int) list) \<Rightarrow> ('h \<Rightarrow> cell list) \<Rightarrow> ('h \<Rightarrow> cell list list) \<Rightarrow> 'h \<Rightarrow> 'h \<Rightarrow> bool" where
  "same_row names at left h h' \<longleftrightarrow> names h' = names h \<and> at h' = at h \<and> left h' = left h"

lemma same_row_refl [simp]: "same_row names at left h h"
  by (simp add: same_row_def)

lemma same_row_trans: "same_row names at left h h' \<Longrightarrow> same_row names at left h' h'' \<Longrightarrow> same_row names at left h h''"
  by (simp add: same_row_def)

context odbc_driver
begin

text \<open>The bytes of a cell arrive complete, for every length.\<close>

lemma char_data:
  assumes "c < length (row_at (hstmt r))" "cell_small (row_at (hstmt r) ! c)" "bytes_read (hstmt r) (Suc c) = 0"
  shows "\<exists>h'. getCharData O' (Suc c) r = (Some (cell_buffer (row_at (hstmt r) ! c), cell_length (row_at (hstmt r) ! c)), r\<lparr>hstmt := h', qr_error := NoError\<rparr>) \<and>
    same_row col_names row_at rows_left (hstmt r) h' \<and> (\<forall>i. i \<noteq> Suc c \<longrightarrow> bytes_read h' i = bytes_read (hstmt r) i)"
proof (cases "cell_data (row_at (hstmt r) ! c)")
  case None
  then show ?thesis using get_null[OF assms(1) None, of bufSize]
    by (auto simp: getCharData_def cell_buffer_def cell_length_def same_row_def)
next
  case (Some bs)
  have small: "length bs < 2 ^ 31" using assms(2) Some by (simp add: cell_small_def)
  obtain h1 where h1: "sqlGetData O' (Suc c) bufSize (hstmt r) = (Some (take 99 bs, int (length bs)), h1)"
      "row_at h1 = row_at (hstmt r)" "rows_left h1 = rows_left (hstmt r)" "col_names h1 = col_names (hstmt r)"
      "bytes_read h1 = (bytes_read (hstmt r))(Suc c := min (length bs) 99)"
    using get_data[OF assms(1) Some assms(3), of bufSize] by (auto simp: bufSize_def)
  show ?thesis
  proof (cases "length bs > 99")
    case False
    then show ?thesis using h1 Some
      by (cases bs) (auto simp: getCharData_def bufSize_def cell_buffer_def cell_length_def same_row_def)
  next
    case True
    have len: "to_int (int (length bs) - 98) = int (length bs) - 98" using True small by (intro to_int_small) auto
    have c1: "c < length (row_at h1)" "cell_data (row_at h1 ! c) = Some bs" "bytes_read h1 (Suc c) = 99"
      using assms(1) Some h1 True by simp_all
    obtain h2 where h2: "sqlGetData O' (Suc c) (int (length bs) - 98) h1 = (Some (drop 99 bs, int (length bs - 99)), h2)"
        "row_at h2 = row_at h1" "rows_left h2 = rows_left h1" "col_names h2 = col_names h1"
        "bytes_read h2 = (bytes_read h1)(Suc c := length bs)"
      using get_data[OF c1, of "int (length bs) - 98"] True by (auto simp: nat_diff_distrib)
    have buf: "take 99 (take 99 bs @ [0]) @ drop 99 bs = bs" using True by (simp add: take_append)
    have g: "getCharData O' (Suc c) r = (Some (Some bs, int (length bs) - 99), r\<lparr>hstmt := h2, qr_error := NoError\<rparr>)"
      using True h1(1) h2(1) buf by (simp add: getCharData_def len Let_def bufSize_def of_nat_diff) auto
    have "cell_buffer (row_at (hstmt r) ! c) = Some bs" "cell_length (row_at (hstmt r) ! c) = int (length bs) - 99"
      using True Some by (auto simp: cell_buffer_def cell_length_def)
    then show ?thesis using g h1(2-5) h2(2-5) by (auto simp: same_row_def)
  qed
qed

end

context odbc_driver
begin

lemma get_node:
  assumes "c < length (row_at (hstmt r))" "cell_readable (row_at (hstmt r) ! c)" "bytes_read (hstmt r) (Suc c) = 0"
  shows "\<exists>h'. getData q O' (Suc c) r = (cell_node q (row_at (hstmt r) ! c), r\<lparr>hstmt := h', qr_error := NoError\<rparr>) \<and>
    same_row col_names row_at rows_left (hstmt r) h' \<and> (\<forall>i. i \<noteq> Suc c \<longrightarrow> bytes_read h' i = bytes_read (hstmt r) i)"
proof -
  let ?c = "row_at (hstmt r) ! c"
  have small: "cell_small ?c" and known: "cell_dv ?c \<in> {VIRTUOSO_DV_STRING, VIRTUOSO_DV_RDF, VIRTUOSO_DV_LONG_INT,
      VIRTUOSO_DV_SINGLE_FLOAT, VIRTUOSO_DV_DOUBLE_FLOAT, VIRTUOSO_DV_NUMERIC, VIRTUOSO_DV_IRI_ID, 204} \<union> date_types"
    and rdf: "cell_dv ?c = VIRTUOSO_DV_RDF \<Longrightarrow> cell_type ?c \<noteq> None \<or> cell_lang ?c \<noteq> None"
    using assms(2) unfolding cell_readable_def by blast+
  obtain h' where h': "getCharData O' (Suc c) r = (Some (cell_buffer ?c, cell_length ?c), r\<lparr>hstmt := h', qr_error := NoError\<rparr>)"
      "same_row col_names row_at rows_left (hstmt r) h'" "\<forall>i. i \<noteq> Suc c \<longrightarrow> bytes_read h' i = bytes_read (hstmt r) i"
    using char_data[OF assms(1) small assms(3)] by blast
  have at: "row_at h' = row_at (hstmt r)" "c < length (row_at h')" using h'(2) assms(1) by (simp_all add: same_row_def)
  have ints: "sqlDescInt O' (Suc c) DV_TYPE h' = Some (cell_dv ?c)" "sqlDescInt O' (Suc c) BOX_FLAGS h' = Some (cell_flags ?c)"
      "sqlDescInt O' (Suc c) DT_DT_TYPE h' = Some (cell_dt ?c)"
    using field_int[OF at(2)] at(1) by simp_all
  have texts: "sqlDescText O' (Suc c) LITERAL_TYPE 100 h' = map_option (\<lambda>t. (t, int (length t))) (cell_type ?c)"
      "sqlDescText O' (Suc c) LITERAL_LANG 100 h' = map_option (\<lambda>t. (t, int (length t))) (cell_lang ?c)"
    using field_text[OF at(2), of LITERAL_TYPE 100] field_text[OF at(2), of LITERAL_LANG 100] small at(1) by (auto simp: cell_small_def)
  have "getData q O' (Suc c) r = (cell_node q ?c, r\<lparr>hstmt := h', qr_error := NoError\<rparr>)"
    using known rdf
    by (simp add: getData_def h'(1) row_descriptor ints texts cell_node_def Let_def)
       (auto simp: texts date_types_def split: option.splits)
  then show ?thesis using h'(2,3) by blast
qed

end

section \<open>What the cells stand for\<close>

text \<open>How the server shows the nodes. Blank nodes come as IRIs with the prefix \<open>_:\<close> or as strings with the prefix
  \<open>nodeID://\<close>, booleans and binary data under a datatype of their own.\<close>

definition mk_cell :: "qbytes option \<Rightarrow> int \<Rightarrow> int \<Rightarrow> cell" where
  "mk_cell d dv flags = \<lparr> cell_data = d, cell_dv = dv, cell_flags = flags, cell_dt = 0, cell_type = None, cell_lang = None \<rparr>"

inductive represents :: "qt \<Rightarrow> cell \<Rightarrow> node \<Rightarrow> bool" for q where
  iri: "encoded u \<noteq> [] \<Longrightarrow> take 2 (encoded u) \<noteq> ''_:'' \<Longrightarrow> CHR 0x00 \<notin> set (encoded u) \<Longrightarrow>
    represents q (mk_cell (Some (ascii (encoded u))) VIRTUOSO_DV_STRING 1) (ResourceNode u)"
| blank_iri: "i \<noteq> [] \<Longrightarrow> 0 \<notin> set (str_toUtf8 q i) \<Longrightarrow>
    represents q (mk_cell (Some (ascii ''_:'' @ str_toUtf8 q i)) VIRTUOSO_DV_STRING 1) (BlankNode i)"
| blank_id: "i \<noteq> [] \<Longrightarrow> CHR 0x00 \<notin> set i \<Longrightarrow>
    represents q (mk_cell (Some (ascii (''nodeID://'' @ i))) VIRTUOSO_DV_STRING 0) (BlankNode i)"
| plain: "0 \<notin> set (str_toUtf8 q s) \<Longrightarrow> take 9 (str_toUtf8 q s) \<noteq> ascii ''nodeID://'' \<Longrightarrow>
    represents q (mk_cell (Some (str_toUtf8 q s)) VIRTUOSO_DV_STRING 2) (LiteralNode (Plain s (LanguageTag None)))"
| plain_lang: "0 \<notin> set (str_toUtf8 q s) \<Longrightarrow> tag_wf t \<Longrightarrow> \<not> tag_empty t \<Longrightarrow>
    represents q ((mk_cell (Some (str_toUtf8 q s)) VIRTUOSO_DV_RDF 0)\<lparr>cell_lang := Some (ascii (tag_toString t))\<rparr>) (LiteralNode (Plain s t))"
| boolean: "represents q ((mk_cell (Some (ascii (if b then ''true'' else ''false''))) VIRTUOSO_DV_RDF 0)
      \<lparr>cell_type := Some (ascii fakeBooleanTypeString)\<rparr>) (LiteralNode (lit_bool b))"
| binary: "represents q ((mk_cell (Some (str_toUtf8 q s)) VIRTUOSO_DV_RDF 0)\<lparr>cell_type := Some (ascii fakeBase64BinaryTypeString)\<rparr>) (LiteralNode l)"
    if "0 \<notin> set (str_toUtf8 q s)" "fromString_uri q s (xsd XsdBase64Binary) = l" "lit_isValid l"
| typed: "represents q ((mk_cell (Some (str_toUtf8 q s)) VIRTUOSO_DV_RDF 0)\<lparr>cell_type := Some (ascii (encoded u))\<rparr>) (LiteralNode l)"
    if "0 \<notin> set (str_toUtf8 q s)" "encoded u \<noteq> []" "CHR 0x00 \<notin> set (encoded u)" "take (length (encoded u)) fakeBooleanTypeString \<noteq> encoded u"
      "take (length (encoded u)) fakeBase64BinaryTypeString \<noteq> encoded u" "fromString_uri q s u = l" "lit_isValid l"
| integer: "represents q (mk_cell (Some (str_toUtf8 q (show_int (sint i)))) VIRTUOSO_DV_LONG_INT 0) (LiteralNode (lit_int i))"
    if "0 \<notin> set (str_toUtf8 q (show_int (sint i)))"

inductive_cases representsE: "represents q c n"

lemma c_string_id [simp]: "0 \<notin> set bs \<Longrightarrow> c_string bs = bs"
  unfolding c_string_def by (induction bs) auto

lemma latin1_ascii [simp]: "latin1 (ascii s) = s"
  by (simp add: latin1_def ascii_def o_def)

lemma ascii_inj [simp]: "ascii a = ascii b \<longleftrightarrow> a = b"
  using latin1_ascii by metis

lemma byte_of_char_0: "byte_of_char c = 0 \<longleftrightarrow> c = CHR 0x00"
proof
  assume "byte_of_char c = 0"
  then have "c = char_of_byte 0" by (metis char_of_byte_of_char)
  moreover have "char_of_byte 0 = CHR 0x00" by code_simp
  ultimately show "c = CHR 0x00" by simp
next
  have "byte_of_char (CHR 0x00) = 0" by code_simp
  then show "c = CHR 0x00 \<Longrightarrow> byte_of_char c = 0" by simp
qed

lemma zero_in_ascii [simp]: "0 \<in> set (ascii s) \<longleftrightarrow> CHR 0x00 \<in> set s"
  unfolding ascii_def using byte_of_char_0 by force

lemma take_ascii [simp]: "take n (ascii s) = ascii (take n s)" and drop_ascii [simp]: "drop n (ascii s) = ascii (drop n s)"
  and ascii_append: "ascii (s @ t) = ascii s @ ascii t" and length_ascii [simp]: "length (ascii s) = length s"
  by (simp_all add: ascii_def take_map drop_map)

lemma ascii_Nil [simp]: "ascii s = [] \<longleftrightarrow> s = []" "ascii [] = []"
  by (simp_all add: ascii_def)

lemma strncmp_prefix: "strncmp_eq (length xs) xs ys \<longleftrightarrow> take (length xs) ys = xs"
proof (induction xs arbitrary: ys)
  case (Cons x xs)
  then show ?case by (cases ys) auto
qed simp

lemma strncmp_ascii: "strncmp_eq (length s) (ascii s) (ascii t) \<longleftrightarrow> take (length s) t = s"
  using strncmp_prefix[of "ascii s" "ascii t"] by simp

lemma fake_types [simp]: "CHR 0x00 \<notin> set fakeBooleanTypeString" "CHR 0x00 \<notin> set fakeBase64BinaryTypeString"
  by code_simp+

lemma buffer_bytes [simp]: "data_bytes (cell_buffer c) = data_bytes (cell_data c)"
  by (auto simp: cell_buffer_def data_bytes_def c_string_def)

lemma data_bytes_simps [simp]: "data_bytes None = []" "data_bytes (Some bs) = c_string bs"
  by (simp_all add: data_bytes_def)

lemma flags [simp]: "has_flag 1 1" "\<not> has_flag 0 1" "\<not> has_flag 2 1" "has_flag 2 2"
  by (simp_all add: has_flag_def)

lemmas cell_node_defs = cell_node_def mk_cell_def string_node_def typed_node_def Let_def

text \<open>The node read from a cell is the node the server shows by it.\<close>

lemma cell_node_represents:
  assumes "qt_url_ok q" "qt_utf8_ok q" "represents q c n"
  shows "cell_node q c = n"
  using assms(3)
proof cases
  case (iri u)
  then have "ascii (encoded u) \<noteq> []" by simp
  with iri show ?thesis using assms(1)
    by (simp add: cell_node_defs cell_buffer_def node_of_url_def url_isEmpty_def qt_url_ok_def)
next
  case (blank_iri i)
  then show ?thesis using assms(2)
    by (simp add: cell_node_defs cell_buffer_def node_of_id_def qt_utf8_ok_def ascii_append[symmetric])
next
  case (blank_id i)
  then show ?thesis by (simp add: cell_node_defs cell_buffer_def node_of_id_def)
next
  case (plain s)
  have "str_fromUtf8 q [] = s" if "str_toUtf8 q s = []" using assms(2) that by (metis qt_utf8_ok_def)
  with plain show ?thesis using assms(2)
    by (auto simp: cell_node_defs cell_buffer_def node_of_literal_def lit_isValid_def createPlainLiteral_def qt_utf8_ok_def)
next
  case (plain_lang s t)
  have "str_fromUtf8 q [] = s" if "str_toUtf8 q s = []" using assms(2) that by (metis qt_utf8_ok_def)
  with plain_lang show ?thesis using assms(2) tag_of_string_toString[of t]
    by (auto simp: cell_node_defs node_of_literal_def lit_isValid_def createPlainLiteral_def qt_utf8_ok_def)
next
  case (boolean b)
  then show ?thesis
    by (cases b) (auto simp: cell_node_defs node_of_literal_def lit_isValid_def lit_bool_def strncmp_ascii)
next
  case (binary s l)
  have "take (length fakeBase64BinaryTypeString) fakeBooleanTypeString \<noteq> fakeBase64BinaryTypeString" by code_simp
  then show ?thesis using binary assms(2)
    by (auto simp: cell_node_defs node_of_literal_def qt_utf8_ok_def strncmp_ascii)
next
  case (typed s u l)
  then show ?thesis using assms
    by (auto simp: cell_node_defs node_of_literal_def qt_utf8_ok_def qt_url_ok_def strncmp_ascii)
next
  case (integer i)
  have "toInt (show_int (sint i)) = Some (sint i)"
    using sint_ge[of i] sint_lt[of i] by (simp add: toInt_def parse_in_show_int)
  then show ?thesis using integer assms(2)
    by (simp add: cell_node_defs node_of_literal_def lit_isValid_def lit_int_def lit_or_null_def qt_utf8_ok_def)
qed

text \<open>Faults: what the reader takes for something else.\<close>

lemma decimal_is_lost: "cell_node plain_qt (mk_cell (Some (ascii ''1.5'')) VIRTUOSO_DV_NUMERIC 0) = EmptyNode"
  by code_simp

lemma text_becomes_blank_node:
  "cell_node plain_qt (mk_cell (Some (ascii ''nodeID://x'')) VIRTUOSO_DV_STRING 2) = BlankNode ''x''"
  by code_simp

lemma short_type_is_boolean:
  "cell_node plain_qt ((mk_cell (Some (ascii ''text'')) VIRTUOSO_DV_RDF 0)\<lparr>cell_type := Some (ascii ''sopranofakes:/b'')\<rparr>) = LiteralNode (lit_bool False)"
  by code_simp

lemma long_iri_id_is_cut:
  assumes "length bs > 99"
  shows "cell_node q (mk_cell (Some bs) VIRTUOSO_DV_IRI_ID 0) = LiteralNode (lit_string (latin1 (take (length bs - 99) bs)))"
proof -
  have "bs \<noteq> []" using assms by auto
  then show ?thesis using assms
    by (simp add: cell_node_defs date_types_def cell_buffer_def cell_length_def node_of_literal_def lit_isValid_def lit_string_def nat_diff_distrib)
qed

end
