(* ===== verification/Virtuoso_Result.thy ===== *)
theory Virtuoso_Result
  imports Odbc_Result
begin

text \<open>
  The iterator over a result of the Virtuoso server (backends/virtuoso/virtuosoqueryresultiteratorbackend.cpp): telling boolean,
  graph and method call results from bindings, the cache of the current row, and closing. The Turtle parser of graph results is an
  argument. With the contract of a driver the iterator delivers the rows of the server.
\<close>

section \<open>The iterator\<close>

datatype result_type = UnknownResult | GraphResult | AskResult | BindingResult | MethodCallResult

record 'h virtuoso_result =
  m_queryResult :: "'h query_result option"
  vr_names :: "qstring list"
  bindingCache :: "node list"
  bindingCachedFlags :: "bool list"
  m_resultType :: result_type
  askResult :: bool
  graphIterator :: "statement simple front"
  m_methodCallResultIterated :: bool
  vr_emptyGraphs :: bool
  vr_error :: error

definition vr_setError :: "error \<Rightarrow> 'h virtuoso_result \<Rightarrow> 'h virtuoso_result" where
  "vr_setError e b = b\<lparr>vr_error := kept e\<rparr>"

definition defaultGraphString :: qstring where
  "defaultGraphString = ''sopranofakes:/DEFAULTGRAPH''"

definition openlinkVirtualGraphString :: qstring where
  "openlinkVirtualGraphString = ''http://www.openlinksw.com/schemas/virtrdf#''"

definition defaultGraph :: "qt \<Rightarrow> qurl" where
  "defaultGraph q = url_fromEncodedStrict q defaultGraphString"

definition openlinkVirtualGraph :: "qt \<Rightarrow> qurl" where
  "openlinkVirtualGraph q = url_fromEncodedStrict q openlinkVirtualGraphString"

text \<open>\<open>noise\<close> is what the member \<open>askResult\<close> holds before it is set: the constructor does not set it for other results.\<close>

definition blank_result :: "bool \<Rightarrow> bool \<Rightarrow> qstring list \<Rightarrow> 'h query_result \<Rightarrow> 'h virtuoso_result" where
  "blank_result noise emptyGraphs names r = \<lparr> m_queryResult = Some r, vr_names = names,
     bindingCache = replicate (length names) EmptyNode, bindingCachedFlags = replicate (length names) False,
     m_resultType = UnknownResult, askResult = noise, graphIterator = invalid_iterator, m_methodCallResultIterated = False,
     vr_emptyGraphs = emptyGraphs, vr_error = NoError \<rparr>"

text \<open>A Turtle parser gives an iterator, or an invalid one, and its error.\<close>

type_synonym turtle = "(qstring \<Rightarrow> statement list option \<times> error) option"

definition read_ask :: "qt \<Rightarrow> 'h odbc \<Rightarrow> 'h virtuoso_result \<Rightarrow> 'h query_result \<Rightarrow> 'h virtuoso_result" where
  "read_ask q O' b r = (case fetchRow O' r of
     (True, r) \<Rightarrow> (case getData q O' 1 r of (n, r) \<Rightarrow>
       b\<lparr>m_queryResult := Some r, m_resultType := AskResult, askResult := (lit_toInt q (node_literal n) \<noteq> 0)\<rparr>)
   | (False, r) \<Rightarrow> b\<lparr>m_queryResult := Some r, m_resultType := AskResult, askResult := False\<rparr>)"

definition read_single :: "qt \<Rightarrow> 'h odbc \<Rightarrow> turtle \<Rightarrow> 'h virtuoso_result \<Rightarrow> 'h query_result \<Rightarrow> 'h virtuoso_result" where
  "read_single q O' turtle b r = (case fetchRow O' r of
     (True, r) \<Rightarrow> (case getData q O' 1 r of (n, r) \<Rightarrow>
       (let b = b\<lparr>m_queryResult := Some r\<rparr> in
        if err_occurred (qr_error r) then vr_setError (qr_error r) b
        else if isBlob 1 r then
          (let b = b\<lparr>m_resultType := GraphResult\<rparr> in
           case turtle of
             Some parse \<Rightarrow> (case parse (node_toString q n) of (ss, e) \<Rightarrow>
               vr_setError e (b\<lparr>graphIterator := (case ss of Some xs \<Rightarrow> new_iterator (simple_of xs) | None \<Rightarrow> invalid_iterator)\<rparr>))
           | None \<Rightarrow> vr_setError (mk_error ''Failed to load Turtle parser for graph data from Virtuoso server'' (error_code_num ErrorUnknown)) b)
        else b\<lparr>m_resultType := MethodCallResult, m_methodCallResultIterated := False,
               bindingCache := (bindingCache b)[0 := n], bindingCachedFlags := (bindingCachedFlags b)[0 := True]\<rparr>))
   | (False, r) \<Rightarrow> vr_setError (qr_error r) (b\<lparr>m_queryResult := Some r\<rparr>))"

definition new_virtuoso_result :: "qt \<Rightarrow> 'h odbc \<Rightarrow> turtle \<Rightarrow> bool \<Rightarrow> bool \<Rightarrow> 'h query_result \<Rightarrow> 'h virtuoso_result" where
  "new_virtuoso_result q O' turtle noise emptyGraphs r = (case resultColumns O' r of (names, r) \<Rightarrow>
     (let b = blank_result noise emptyGraphs names r in
      if names = [''__ASK_RETVAL''] then read_ask q O' b r
      else if names = [''callret-0''] \<or> names = [''fmtaggret-''] then read_single q O' turtle b r
      else b\<lparr>m_resultType := BindingResult\<rparr>))"

text \<open>The loop over the columns of a row: every value goes to the cache, and an error ends it.\<close>

fun cache_row :: "qt \<Rightarrow> 'h odbc \<Rightarrow> nat list \<Rightarrow> 'h virtuoso_result \<Rightarrow> 'h query_result \<Rightarrow> bool \<times> 'h virtuoso_result" where
  "cache_row q O' [] b r = (True, b\<lparr>m_queryResult := Some r\<rparr>)"
| "cache_row q O' (i # is) b r = (case getData q O' (i + 1) r of (n, r) \<Rightarrow>
     (let b = b\<lparr>bindingCache := (bindingCache b)[i := n], bindingCachedFlags := (bindingCachedFlags b)[i := True]\<rparr> in
      if err_occurred (qr_error r) then (False, vr_setError (qr_error r) (b\<lparr>m_queryResult := Some r\<rparr>))
      else cache_row q O' is b r))"

definition vr_bindingCount :: "'h virtuoso_result \<Rightarrow> nat" where
  "vr_bindingCount b = length (vr_names b)"

definition vr_next :: "qt \<Rightarrow> 'h odbc \<Rightarrow> 'h virtuoso_result \<Rightarrow> (bool \<times> 'h virtuoso_result) option" where
  "vr_next q O' b = (case m_resultType b of
     AskResult \<Rightarrow> Some (False, b)
   | GraphResult \<Rightarrow> map_option (\<lambda>(go, it). (go, b\<lparr>graphIterator := it\<rparr>)) (it_next (simple_backend empty_statement) (graphIterator b))
   | BindingResult \<Rightarrow>
      (let b = b\<lparr>bindingCachedFlags := replicate (length (bindingCachedFlags b)) False\<rparr> in
       case m_queryResult b of
         None \<Rightarrow> Some (False, b)
       | Some r \<Rightarrow> (case fetchRow O' r of
           (True, r) \<Rightarrow> Some (cache_row q O' [0..<vr_bindingCount b] b r)
         | (False, r) \<Rightarrow> Some (False, b\<lparr>m_queryResult := Some r\<rparr>)))
   | MethodCallResult \<Rightarrow> Some (\<not> m_methodCallResultIterated b, b\<lparr>m_methodCallResultIterated := True\<rparr>)
   | UnknownResult \<Rightarrow> Some (False, b))"

definition vr_isGraph :: "'h virtuoso_result \<Rightarrow> bool" where
  "vr_isGraph b \<longleftrightarrow> m_resultType b = GraphResult \<or> (m_resultType b = BindingResult \<and> vr_names b = [''S'', ''P'', ''O''])"

definition vr_isBinding :: "'h virtuoso_result \<Rightarrow> bool" where
  "vr_isBinding b \<longleftrightarrow> m_resultType b = BindingResult \<or> m_resultType b = MethodCallResult"

definition vr_isBool :: "'h virtuoso_result \<Rightarrow> bool" where "vr_isBool b \<longleftrightarrow> m_resultType b = AskResult"
definition vr_boolValue :: "'h virtuoso_result \<Rightarrow> bool" where "vr_boolValue b = askResult b"

definition vr_binding_at :: "qt \<Rightarrow> 'h odbc \<Rightarrow> int \<Rightarrow> 'h virtuoso_result \<Rightarrow> node \<times> 'h virtuoso_result" where
  "vr_binding_at q O' offset b = (case m_queryResult b of
     Some r \<Rightarrow>
       (if vr_isBinding b \<and> offset < int (vr_bindingCount b) \<and> offset \<ge> 0 then
          (if \<not> bindingCachedFlags b ! nat offset then
             (case getData q O' (nat offset + 1) r of (n, r) \<Rightarrow>
               (let b = vr_setError (qr_error r) (b\<lparr>m_queryResult := Some r\<rparr>);
                    n = (if vr_emptyGraphs b \<and> node_eq q n (node_of_url (defaultGraph q)) then EmptyNode else n)
                in (n, b\<lparr>bindingCache := (bindingCache b)[nat offset := n], bindingCachedFlags := (bindingCachedFlags b)[nat offset := True]\<rparr>)))
           else (bindingCache b ! nat offset, b))
        else (EmptyNode, b))
   | None \<Rightarrow> (EmptyNode, b))"

text \<open>The table of names keeps the last column of a name.\<close>

definition column_of :: "qstring \<Rightarrow> 'h virtuoso_result \<Rightarrow> nat option" where
  "column_of name b = map_of (rev (zip (vr_names b) [0..<vr_bindingCount b])) name"

definition vr_binding :: "qt \<Rightarrow> 'h odbc \<Rightarrow> qstring \<Rightarrow> 'h virtuoso_result \<Rightarrow> node \<times> 'h virtuoso_result" where
  "vr_binding q O' name b = (case column_of name b of
     Some i \<Rightarrow> vr_binding_at q O' (int i) b
   | None \<Rightarrow> (EmptyNode, vr_setError (mk_error (q_arg ''Invalid binding name: %1'' name) (error_code_num ErrorInvalidArgument)) b))"

definition vr_currentStatement :: "qt \<Rightarrow> 'h odbc \<Rightarrow> 'h virtuoso_result \<Rightarrow> statement \<times> 'h virtuoso_result" where
  "vr_currentStatement q O' b =
     (if m_resultType b = GraphResult then
        (case it_current (simple_backend empty_statement) empty_statement (graphIterator b) of
           Some (s, it) \<Rightarrow> (s, b\<lparr>graphIterator := it\<rparr>)
         | None \<Rightarrow> (empty_statement, b))
      else if vr_isGraph b then
        (case vr_binding_at q O' 0 b of (s, b) \<Rightarrow> (case vr_binding_at q O' 1 b of (p, b) \<Rightarrow> (case vr_binding_at q O' 2 b of (ob, b) \<Rightarrow>
          (mk_statement s p ob EmptyNode, b))))
      else (empty_statement, b))"

definition vr_close :: "'h virtuoso_result \<Rightarrow> 'h virtuoso_result option" where
  "vr_close b = map_option (\<lambda>it. b\<lparr>graphIterator := it, m_queryResult := None\<rparr>) (it_close (simple_backend empty_statement) (graphIterator b))"

text \<open>QueryResultIteratorBackend::current.\<close>

definition vr_current_step :: "qt \<Rightarrow> 'h odbc \<Rightarrow> nat \<Rightarrow> binding_set \<times> 'h virtuoso_result \<Rightarrow> binding_set \<times> 'h virtuoso_result" where
  "vr_current_step q O' i st = (case st of (bs, b) \<Rightarrow>
     (case vr_binding_at q O' (int i) b of (n, b) \<Rightarrow> (bs_insert (vr_names b ! i) n bs, b)))"

definition vr_current :: "qt \<Rightarrow> 'h odbc \<Rightarrow> 'h virtuoso_result \<Rightarrow> binding_set \<times> 'h virtuoso_result" where
  "vr_current q O' b = fold (vr_current_step q O') [0..<vr_bindingCount b] (empty_bindings, b)"

definition virtuoso_backend :: "qt \<Rightarrow> 'h odbc \<Rightarrow> ('h virtuoso_result, binding_set) backend" where
  "virtuoso_backend q O' = \<lparr> b_next = vr_next q O', b_current = (\<lambda>b. Some (vr_current q O' b)), b_close = vr_close, b_error = vr_error \<rparr>"


section \<open>The iterator delivers the rows\<close>

definition row_ok :: "nat \<Rightarrow> cell list \<Rightarrow> bool" where
  "row_ok n row \<longleftrightarrow> length row = n \<and> (\<forall>c\<in>set row. cell_readable c)"

definition row_bindings :: "qstring list \<Rightarrow> node list \<Rightarrow> binding_set" where
  "row_bindings names nodes = bs_of (zip names nodes)"

definition cached :: "'h virtuoso_result \<Rightarrow> node list \<Rightarrow> bool" where
  "cached b nodes \<longleftrightarrow> bindingCache b = nodes \<and> bindingCachedFlags b = replicate (length nodes) True \<and> length nodes = length (vr_names b)"

text \<open>A binding result with a number of rows to come, at a row or before the first one.\<close>

definition vr_at :: "qt \<Rightarrow> ('h \<Rightarrow> cell list list) \<Rightarrow> 'h virtuoso_result \<Rightarrow> binding_set option \<Rightarrow> binding_set list \<Rightarrow> bool" where
  "vr_at q left b h xs \<longleftrightarrow> m_resultType b = BindingResult \<and> fst (graphIterator b) = None \<and>
     length (bindingCache b) = length (vr_names b) \<and> length (bindingCachedFlags b) = length (vr_names b) \<and>
     (\<exists>r. m_queryResult b = Some r \<and> (\<forall>row\<in>set (left (hstmt r)). row_ok (length (vr_names b)) row) \<and>
        xs = map (\<lambda>row. row_bindings (vr_names b) (map (cell_node q) row)) (left (hstmt r))) \<and>
     (\<forall>x. h = Some x \<longrightarrow> (\<exists>nodes. cached b nodes \<and> x = row_bindings (vr_names b) nodes))"

definition vr_ended :: "'h virtuoso_result \<Rightarrow> bool" where
  "vr_ended b \<longleftrightarrow> fst (graphIterator b) = None"

lemma binding_cached:
  assumes "cached b nodes" "m_resultType b = BindingResult" "m_queryResult b = Some r" "i < length nodes"
  shows "vr_binding_at q O' (int i) b = (nodes ! i, b)"
  using assms by (simp add: vr_binding_at_def cached_def vr_isBinding_def vr_bindingCount_def)

lemma current_cached:
  assumes "cached b nodes" "m_resultType b = BindingResult" "m_queryResult b = Some r"
  shows "vr_current q O' b = (row_bindings (vr_names b) nodes, b)"
proof -
  have len: "length nodes = length (vr_names b)" using assms(1) by (simp add: cached_def)
  have "fold (vr_current_step q O') [0..<n] (empty_bindings, b) = (row_bindings (take n (vr_names b)) (take n nodes), b)"
    if "n \<le> length nodes" for n
    using that
  proof (induction n)
    case 0
    then show ?case by (simp add: row_bindings_def bs_of_def)
  next
    case (Suc n)
    then show ?case using binding_cached[OF assms, of n q O'] len
      by (simp add: vr_current_step_def row_bindings_def bs_of_def take_Suc_conv_app_nth)
  qed
  then show ?thesis using len by (simp add: vr_current_def vr_bindingCount_def)
qed

context odbc_driver
begin

lemma cache_row_fills:
  assumes "length (row_at (hstmt r)) = k + d" "\<forall>c\<in>set (row_at (hstmt r)). cell_readable c" "\<forall>i\<ge>k. bytes_read (hstmt r) (Suc i) = 0"
    and "length (bindingCache b) = k + d" "length (bindingCachedFlags b) = k + d"
  shows "\<exists>h' e. cache_row q O' [k..<k + d] b r = (True, b\<lparr>m_queryResult := Some (r\<lparr>hstmt := h', qr_error := e\<rparr>),
      bindingCache := take k (bindingCache b) @ map (cell_node q) (drop k (row_at (hstmt r))),
      bindingCachedFlags := take k (bindingCachedFlags b) @ replicate d True\<rparr>) \<and> same_row col_names row_at rows_left (hstmt r) h'"
  using assms
proof (induction d arbitrary: k b r)
  case 0
  then show ?case by (intro exI[of _ "hstmt r"] exI[of _ "qr_error r"]) simp
next
  case (Suc d)
  let ?row = "row_at (hstmt r)" and ?n = "cell_node q (row_at (hstmt r) ! k)"
  have "\<exists>h'. getData q O' (Suc k) r = (?n, r\<lparr>hstmt := h', qr_error := NoError\<rparr>) \<and>
      same_row col_names row_at rows_left (hstmt r) h' \<and> (\<forall>i. i \<noteq> Suc k \<longrightarrow> bytes_read h' i = bytes_read (hstmt r) i)"
    using Suc.prems by (intro get_node) auto
  then obtain h1 where h1: "getData q O' (Suc k) r = (?n, r\<lparr>hstmt := h1, qr_error := NoError\<rparr>)"
      "same_row col_names row_at rows_left (hstmt r) h1" "\<forall>i. i \<noteq> Suc k \<longrightarrow> bytes_read h1 i = bytes_read (hstmt r) i"
    by blast
  let ?b = "b\<lparr>bindingCache := (bindingCache b)[k := ?n], bindingCachedFlags := (bindingCachedFlags b)[k := True]\<rparr>"
    and ?r = "r\<lparr>hstmt := h1, qr_error := NoError\<rparr>"
  have row: "row_at h1 = ?row" using h1(2) by (simp add: same_row_def)
  have "\<exists>h' e. cache_row q O' [Suc k..<Suc k + d] ?b ?r = (True, ?b\<lparr>m_queryResult := Some (?r\<lparr>hstmt := h', qr_error := e\<rparr>),
      bindingCache := take (Suc k) (bindingCache ?b) @ map (cell_node q) (drop (Suc k) (row_at (hstmt ?r))),
      bindingCachedFlags := take (Suc k) (bindingCachedFlags ?b) @ replicate d True\<rparr>) \<and> same_row col_names row_at rows_left (hstmt ?r) h'"
    using Suc.prems h1(3) row by (intro Suc.IH) auto
  then obtain h2 e where h2: "cache_row q O' [Suc k..<Suc k + d] ?b ?r = (True, ?b\<lparr>m_queryResult := Some (?r\<lparr>hstmt := h2, qr_error := e\<rparr>),
      bindingCache := take (Suc k) (bindingCache ?b) @ map (cell_node q) (drop (Suc k) ?row),
      bindingCachedFlags := take (Suc k) (bindingCachedFlags ?b) @ replicate d True\<rparr>)" "same_row col_names row_at rows_left h1 h2"
    using row by auto
  have up: "[k..<k + Suc d] = k # [Suc k..<Suc k + d]" by (simp add: upt_conv_Cons)
  have parts: "take (Suc k) ((bindingCache b)[k := ?n]) = take k (bindingCache b) @ [?n]"
      "take (Suc k) ((bindingCachedFlags b)[k := True]) = take k (bindingCachedFlags b) @ [True]"
      "map (cell_node q) (drop k ?row) = ?n # map (cell_node q) (drop (Suc k) ?row)"
    using Suc.prems by (simp_all add: take_Suc_conv_app_nth Cons_nth_drop_Suc[symmetric])
  have "cache_row q O' [k..<k + Suc d] b r = (True, b\<lparr>m_queryResult := Some (r\<lparr>hstmt := h2, qr_error := e\<rparr>),
      bindingCache := take k (bindingCache b) @ map (cell_node q) (drop k ?row),
      bindingCachedFlags := take k (bindingCachedFlags b) @ replicate (Suc d) True\<rparr>)"
    unfolding up cache_row.simps(2) Suc_eq_plus1[symmetric] h1(1) using h2(1) parts by (simp add: err_occurred_def Let_def)
  then show ?case using same_row_trans[OF h1(2) h2(2)] by blast
qed

lemma result_delivers: "delivers (virtuoso_backend q O') (vr_at q rows_left) vr_ended vr_ended"
proof (unfold_locales, goal_cases)
  case (1 b h x xs)
  then obtain r row rows where b: "m_resultType b = BindingResult" "fst (graphIterator b) = None" "length (bindingCache b) = length (vr_names b)"
      "length (bindingCachedFlags b) = length (vr_names b)" "m_queryResult b = Some r"
      "\<forall>row\<in>set (rows_left (hstmt r)). row_ok (length (vr_names b)) row" "rows_left (hstmt r) = row # rows"
      "x = row_bindings (vr_names b) (map (cell_node q) row)" "xs = map (\<lambda>row. row_bindings (vr_names b) (map (cell_node q) row)) rows"
    unfolding vr_at_def by (auto simp: Cons_eq_map_conv)
  let ?n = "length (vr_names b)" and ?b = "b\<lparr>bindingCachedFlags := replicate (length (vr_names b)) False\<rparr>"
  obtain h1 where h1: "sqlFetch O' (hstmt r) = (FetchedRow, h1)" "row_at h1 = row" "rows_left h1 = rows" "bytes_read h1 = (\<lambda>_. 0)"
    using fetch_row[OF b(7)] by blast
  have row: "length row = ?n" "\<forall>c\<in>set row. cell_readable c" using b(6,7) by (auto simp: row_ok_def)
  have "\<exists>h' e. cache_row q O' [0..<0 + ?n] ?b (r\<lparr>hstmt := h1\<rparr>) = (True, ?b\<lparr>m_queryResult := Some (r\<lparr>hstmt := h1\<rparr>\<lparr>hstmt := h', qr_error := e\<rparr>),
      bindingCache := take 0 (bindingCache ?b) @ map (cell_node q) (drop 0 (row_at (hstmt (r\<lparr>hstmt := h1\<rparr>)))),
      bindingCachedFlags := take 0 (bindingCachedFlags ?b) @ replicate ?n True\<rparr>) \<and> same_row col_names row_at rows_left (hstmt (r\<lparr>hstmt := h1\<rparr>)) h'"
    using row h1 b by (intro cache_row_fills) auto
  then obtain h2 e where h2: "cache_row q O' [0..<?n] ?b (r\<lparr>hstmt := h1\<rparr>) = (True, b\<lparr>m_queryResult := Some (r\<lparr>hstmt := h2, qr_error := e\<rparr>),
      bindingCache := map (cell_node q) row, bindingCachedFlags := replicate ?n True\<rparr>)" "rows_left h2 = rows"
    using h1 by (auto simp: same_row_def)
  let ?b2 = "b\<lparr>m_queryResult := Some (r\<lparr>hstmt := h2, qr_error := e\<rparr>), bindingCache := map (cell_node q) row,
      bindingCachedFlags := replicate ?n True\<rparr>"
  have "vr_next q O' b = Some (True, ?b2)"
    using b(1,4,5) h1(1) h2(1) by (simp add: vr_next_def fetchRow_def vr_bindingCount_def Let_def)
  moreover have "vr_at q rows_left ?b2 (Some x) xs"
    using b h2(2) row by (auto simp: vr_at_def cached_def)
  ultimately show ?case by (auto simp: virtuoso_backend_def)
next
  case (2 b h)
  then obtain r where b: "m_resultType b = BindingResult" "fst (graphIterator b) = None" "m_queryResult b = Some r" "rows_left (hstmt r) = []"
    unfolding vr_at_def by auto
  then show ?case using fetch_end[OF b(4)]
    by (auto simp: virtuoso_backend_def vr_next_def fetchRow_def vr_ended_def Let_def)
next
  case (3 b x xs)
  then obtain r nodes where "m_resultType b = BindingResult" "m_queryResult b = Some r" "cached b nodes" "x = row_bindings (vr_names b) nodes"
    unfolding vr_at_def by auto
  then show ?case using 3 current_cached[of b nodes r q O'] by (simp add: virtuoso_backend_def)
next
  case (4 b)
  then show ?case by (cases "graphIterator b") (auto simp: virtuoso_backend_def vr_close_def it_close_def vr_ended_def)
qed

end


section \<open>Results in memory\<close>

record memory_rows =
  mr_names :: "(qbytes \<times> int) list"
  mr_row :: "cell list"
  mr_left :: "cell list list"
  mr_read :: "nat \<Rightarrow> nat"

definition memory_get :: "nat \<Rightarrow> int \<Rightarrow> memory_rows \<Rightarrow> (qbytes \<times> int) option \<times> memory_rows" where
  "memory_get c n h =
     (case cell_data (mr_row h ! (c - 1)) of
        None \<Rightarrow> (Some ([], - 1), h)
      | Some bs \<Rightarrow> (let k = mr_read h c in
          if k \<noteq> 0 \<and> length bs \<le> k then (None, h)
          else (Some (take (nat (n - 1)) (drop k bs), int (length bs - k)),
                h\<lparr>mr_read := (mr_read h)(c := min (length bs) (k + nat (n - 1)))\<rparr>)))"

definition memory_odbc :: "memory_rows odbc" where
  "memory_odbc = \<lparr> sqlNumResultCols = (\<lambda>h. Some (length (mr_names h))),
     sqlDescribeCol = (\<lambda>c n h. if length (fst (mr_names h ! (c - 1))) < n then Some (mr_names h ! (c - 1)) else None),
     sqlFetch = (\<lambda>h. case mr_left h of [] \<Rightarrow> (NoDataFound, h)
       | row # rows \<Rightarrow> (FetchedRow, h\<lparr>mr_row := row, mr_left := rows, mr_read := (\<lambda>_. 0)\<rparr>)),
     sqlGetData = memory_get,
     sqlRowDesc = (\<lambda>h. True),
     sqlDescInt = (\<lambda>c f h. cell_int f (mr_row h ! (c - 1))),
     sqlDescText = (\<lambda>c f n h. case cell_text f (mr_row h ! (c - 1)) of None \<Rightarrow> None
       | Some t \<Rightarrow> Some (take (n - 1) t, int (length t))),
     sqlGetDiag = (\<lambda>h. []) \<rparr>"

definition memory_rows_of :: "qstring list \<Rightarrow> cell list list \<Rightarrow> memory_rows" where
  "memory_rows_of names rows = \<lparr> mr_names = map (\<lambda>n. (ascii n, 12)) names, mr_row = [], mr_left = rows, mr_read = (\<lambda>_. 0) \<rparr>"

interpretation memory_driver: odbc_driver memory_odbc mr_names mr_row mr_left mr_read
proof (unfold_locales, goal_cases)
  case (9 c h f n)
  then show ?case by (cases "cell_text f (mr_row h ! c)") (auto simp: memory_odbc_def)
qed (auto simp: memory_odbc_def memory_get_def Let_def)

section \<open>Nodes of the server\<close>

text \<open>The names of the columns fit into the buffer for them.\<close>

definition names_fit :: "(qbytes \<times> int) list \<Rightarrow> bool" where
  "names_fit ns \<longleftrightarrow> (\<forall>n\<in>set ns. length (fst n) < 50)"

definition special_names :: "qstring list \<Rightarrow> bool" where
  "special_names names \<longleftrightarrow> names \<in> {[''__ASK_RETVAL''], [''callret-0''], [''fmtaggret-'']}"

context odbc_driver
begin

lemma describe_all:
  assumes "k + d = length (col_names (hstmt r))" "names_fit (col_names (hstmt r))"
  shows "describe_loop O' [Suc k..<Suc (k + d)] r = r\<lparr>m_columns := m_columns r @ map (\<lambda>n. latin1 (c_string (fst n))) (drop k (col_names (hstmt r))),
     m_columTypes := m_columTypes r @ map snd (drop k (col_names (hstmt r)))\<rparr>"
  using assms
proof (induction d arbitrary: k r)
  case 0
  then show ?case by simp
next
  case (Suc d)
  have len: "k < length (col_names (hstmt r))" using Suc.prems by simp
  then have "sqlDescribeCol O' (Suc k) 50 (hstmt r) = Some (col_names (hstmt r) ! k)"
    using Suc.prems(2) by (intro describe_column) (auto simp: names_fit_def)
  moreover have "[Suc k..<Suc (k + Suc d)] = Suc k # [Suc (Suc k)..<Suc (Suc k + d)]" by (simp add: upt_conv_Cons del: upt_Suc)
  ultimately show ?case
    using Suc.IH[of "Suc k" "r\<lparr>m_columns := m_columns r @ [latin1 (c_string (fst (col_names (hstmt r) ! k)))],
        m_columTypes := m_columTypes r @ [snd (col_names (hstmt r) ! k)]\<rparr>"] Suc.prems len
    by (cases "col_names (hstmt r) ! k") (simp add: Cons_nth_drop_Suc[symmetric] del: upt_Suc)
qed

lemma columns_of_result:
  assumes "names_fit (col_names h)"
  shows "resultColumns O' (new_query_result h) = (map (\<lambda>n. latin1 (c_string (fst n))) (col_names h),
     (new_query_result h)\<lparr>m_columns := map (\<lambda>n. latin1 (c_string (fst n))) (col_names h), m_columTypes := map snd (col_names h)\<rparr>)"
  using describe_all[of 0 "length (col_names h)" "new_query_result h"] assms
  by (simp add: resultColumns_def num_columns new_query_result_def del: upt_Suc)


end


lemma represented_readable: "represents q c n \<Longrightarrow> cell_small c \<Longrightarrow> cell_readable c"
  by (erule representsE) (auto simp: cell_readable_def mk_cell_def)

definition rows_shown :: "qt \<Rightarrow> qstring list \<Rightarrow> cell list list \<Rightarrow> node list list \<Rightarrow> bool" where
  "rows_shown q names rows nodess \<longleftrightarrow> list_all2 (list_all2 (represents q)) rows nodess \<and>
     (\<forall>row\<in>set rows. length row = length names \<and> (\<forall>c\<in>set row. cell_small c))"

lemma cells_nodes:
  assumes "qt_url_ok q" "qt_utf8_ok q" "list_all2 (represents q) row nodes"
  shows "map (cell_node q) row = nodes"
  using assms(3) by (induction rule: list_all2_induct) (simp_all add: cell_node_represents[OF assms(1,2)])

lemma all_represented:
  assumes "list_all2 (list_all2 (represents q)) rows nodess" "row \<in> set rows" "c \<in> set row"
  shows "\<exists>n. represents q c n"
proof -
  obtain nodes where "list_all2 (represents q) row nodes" using assms(1,2) by (metis in_set_conv_nth list_all2_conv_all_nth)
  then show ?thesis using assms(3) by (metis in_set_conv_nth list_all2_conv_all_nth)
qed

lemma shown_rows:
  assumes "qt_url_ok q" "qt_utf8_ok q" "rows_shown q names rows nodess"
  shows "map (\<lambda>row. f (map (cell_node q) row)) rows = map f nodess" "\<forall>row\<in>set rows. row_ok (length names) row"
proof -
  have "list_all2 (list_all2 (represents q)) rows nodess" using assms(3) by (simp add: rows_shown_def)
  then show "map (\<lambda>row. f (map (cell_node q) row)) rows = map f nodess"
    by (induction rule: list_all2_induct) (simp_all add: cells_nodes[OF assms(1,2)])
  show "\<forall>row\<in>set rows. row_ok (length names) row"
    using all_represented[of q rows nodess] represented_readable assms(3) by (fastforce simp: row_ok_def rows_shown_def)
qed

definition name_of :: "qbytes \<times> int \<Rightarrow> qstring" where
  "name_of n = latin1 (c_string (fst n))"

definition empty_columns :: "qstring list \<Rightarrow> 'h \<Rightarrow> int list \<Rightarrow> 'h query_result" where
  "empty_columns names h ts = \<lparr> hstmt = h, m_columns = names, m_columTypes = ts, qr_error = NoError \<rparr>"

context odbc_driver
begin

lemma new_result_columns:
  assumes "names_fit (col_names h)"
  shows "resultColumns O' (new_query_result h) =
     (map name_of (col_names h), empty_columns (map name_of (col_names h)) h (map snd (col_names h)))"
proof -
  have "map name_of (col_names h) = map (\<lambda>n. latin1 (c_string (fst n))) (col_names h)" by (simp add: name_of_def)
  then show ?thesis using columns_of_result[OF assms] by (simp add: empty_columns_def new_query_result_def)
qed

lemma binding_result:
  assumes "names_fit (col_names h)" "\<not> special_names (map name_of (col_names h))"
    and "qt_url_ok q" "qt_utf8_ok q" "rows_shown q (map name_of (col_names h)) (rows_left h) nodess"
  shows "vr_at q rows_left (new_virtuoso_result q O' turtle noise eg (new_query_result h)) None
     (map (row_bindings (map name_of (col_names h))) nodess)"
proof -
  let ?names = "map name_of (col_names h)"
  have "new_virtuoso_result q O' turtle noise eg (new_query_result h) =
      (blank_result noise eg ?names (empty_columns ?names h (map snd (col_names h))))\<lparr>m_resultType := BindingResult\<rparr>"
    using assms(2) by (simp add: new_virtuoso_result_def new_result_columns[OF assms(1)] special_names_def Let_def)
  then show ?thesis
    using shown_rows(1)[OF assms(3-5), of "row_bindings ?names"] shown_rows(2)[OF assms(3-5)]
    by (simp add: vr_at_def blank_result_def empty_columns_def invalid_iterator_def)
qed

text \<open>Reading to the end.\<close>

lemma all_rows:
  assumes "names_fit (col_names h)" "\<not> special_names (map name_of (col_names h))"
    and "qt_url_ok q" "qt_utf8_ok q" "rows_shown q (map name_of (col_names h)) (rows_left h) nodess"
  shows "\<exists>b' e'. allElements (virtuoso_backend q O') d (new_iterator (new_virtuoso_result q O' turtle noise eg (new_query_result h)))
     = Some (map (row_bindings (map name_of (col_names h))) nodess, (Some b', e'))"
  using delivers.all_elements[OF result_delivers binding_result[OF assms], where d = d and e = NoError] by (fastforce simp: new_iterator_def)

text \<open>The answer of a boolean query.\<close>

lemma ask_result:
  assumes "names_fit (col_names h)" "map name_of (col_names h) = [''__ASK_RETVAL'']" "qt_url_ok q" "qt_utf8_ok q"
    and "rows_left h = [] \<and> \<not> v \<or> (\<exists>c i. rows_left h = [[c]] \<and> cell_small c \<and> represents q c (LiteralNode (lit_int i)) \<and> lit_toInt q (lit_int i) = i \<and> (v \<longleftrightarrow> i \<noteq> 0))"
  shows "vr_boolValue (new_virtuoso_result q O' turtle noise eg (new_query_result h)) = v"
proof -
  let ?names = "map name_of (col_names h)" and ?r = "empty_columns (map name_of (col_names h)) h (map snd (col_names h))"
  have new: "new_virtuoso_result q O' turtle noise eg (new_query_result h) = read_ask q O' (blank_result noise eg ?names ?r) ?r"
    by (simp add: new_virtuoso_result_def new_result_columns[OF assms(1)] assms(2) Let_def)
  show ?thesis
  proof (cases "rows_left h = []")
    case True
    obtain h' where "sqlFetch O' h = (NoDataFound, h')" using fetch_end[OF True] by blast
    then show ?thesis using True assms(5) unfolding new by (simp add: read_ask_def fetchRow_def empty_columns_def vr_boolValue_def)
  next
    case False
    then obtain c i where c: "rows_left h = [[c]]" "cell_small c" "represents q c (LiteralNode (lit_int i))" "lit_toInt q (lit_int i) = i" "v \<longleftrightarrow> i \<noteq> 0"
      using assms(5) by blast
    obtain h1 where h1: "sqlFetch O' h = (FetchedRow, h1)" "row_at h1 = [c]" "bytes_read h1 = (\<lambda>_. 0)"
      using fetch_row[OF c(1)] by blast
    have f: "fetchRow O' ?r = (True, ?r\<lparr>hstmt := h1\<rparr>)" using h1(1) by (simp add: fetchRow_def empty_columns_def)
    have "\<exists>h'. getData q O' (Suc 0) (?r\<lparr>hstmt := h1\<rparr>) = (cell_node q (row_at (hstmt (?r\<lparr>hstmt := h1\<rparr>)) ! 0), ?r\<lparr>hstmt := h1\<rparr>\<lparr>hstmt := h', qr_error := NoError\<rparr>) \<and>
        same_row col_names row_at rows_left (hstmt (?r\<lparr>hstmt := h1\<rparr>)) h' \<and> (\<forall>i. i \<noteq> Suc 0 \<longrightarrow> bytes_read h' i = bytes_read (hstmt (?r\<lparr>hstmt := h1\<rparr>)) i)"
      using h1 represented_readable[OF c(3,2)] by (intro get_node) auto
    then obtain r' where g: "getData q O' (Suc 0) (?r\<lparr>hstmt := h1\<rparr>) = (LiteralNode (lit_int i), r')"
      using h1(2) cell_node_represents[OF assms(3,4) c(3)] by auto
    show ?thesis unfolding new using c(4,5) by (simp add: read_ask_def f g vr_boolValue_def)
  qed
qed

end

text \<open>Claim C9: over a driver that keeps the contract of its calls, iterating a result to its end delivers every row of the server once and in
  order, bound to the names of the columns, provided that column names have fewer than 50 characters and are none of the three forms of ASK,
  call and graph results, that every row is as long as the names, and that each cell is small (data below 2^31 bytes, names of type and
  language below 100) and of a kind for which the relation represents gives a node: IRIs and blank nodes without zero characters, plain texts
  that do not begin with nodeID://, texts with a language, the stand-ins for booleans and binaries, other typed literals with a valid value,
  and 32-bit integers. Each binding is then the node of its cell, and values longer than one read of the driver arrive whole. For other cells
  it does not hold: decimal_is_lost, text_becomes_blank_node and long_names_vanish.\<close>

theorem virtuoso_rows_arrive:
  assumes "odbc_driver O' cols at left reads" "qt_url_ok q" "qt_utf8_ok q"
    and "names_fit (cols h)" "\<not> special_names (map name_of (cols h))"
    and "rows_shown q (map name_of (cols h)) (left h) nodess"
  shows "\<exists>b' e'. allElements (virtuoso_backend q O') empty_bindings
       (new_iterator (new_virtuoso_result q O' turtle noise eg (new_query_result h)))
     = Some (map (row_bindings (map name_of (cols h))) nodess, (Some b', e'))"
  by (rule odbc_driver.all_rows[OF assms(1,4,5,2,3,6)])

definition example_rows :: memory_rows where
  "example_rows = memory_rows_of [''x''] [[mk_cell (Some (ascii (replicate 150 (CHR ''a'')))) VIRTUOSO_DV_STRING 2]]"

theorem virtuoso_rows_arrive_witness:
  "\<exists>b' e'. allElements (virtuoso_backend plain_qt memory_odbc) empty_bindings
       (new_iterator (new_virtuoso_result plain_qt memory_odbc None False True (new_query_result example_rows)))
     = Some ([row_bindings [''x''] [LiteralNode (Plain (replicate 150 (CHR ''a'')) (LanguageTag None))]], (Some b', e'))"
proof -
  let ?t = "replicate 150 (CHR ''a'')"
  have n: "map name_of (mr_names example_rows) = [''x'']" "names_fit (mr_names example_rows)"
    by (simp_all add: example_rows_def memory_rows_of_def name_of_def names_fit_def)
  have utf8: "str_toUtf8 plain_qt s = ascii s" for s by (simp add: plain_qt_def ascii_def)
  have "take 9 (ascii ?t) \<noteq> ascii ''nodeID://''" by (simp add: numeral_eq_Suc)
  then have "represents plain_qt (mk_cell (Some (str_toUtf8 plain_qt ?t)) VIRTUOSO_DV_STRING 2) (LiteralNode (Plain ?t (LanguageTag None)))"
    by (intro plain) (simp_all only: utf8 zero_in_ascii set_replicate, simp_all)
  then have rows: "rows_shown plain_qt [''x''] (mr_left example_rows) [[LiteralNode (Plain ?t (LanguageTag None))]]"
    by (simp add: rows_shown_def example_rows_def memory_rows_of_def utf8 cell_small_def mk_cell_def)
  have s: "\<not> special_names (map name_of (mr_names example_rows))" by (simp add: n(1) special_names_def)
  show ?thesis
    using virtuoso_rows_arrive[OF memory_driver.odbc_driver_axioms plain_qt_url_ok plain_qt_utf8_ok n(2) s, unfolded n(1), OF rows]
    by simp
qed

section \<open>Faults\<close>

text \<open>The graph that stands for no graph is turned back only when a value is not in the cache, and after next every value is.\<close>

lemma default_graph_shows:
  "(case vr_next plain_qt memory_odbc (new_virtuoso_result plain_qt memory_odbc None False True (new_query_result
       (memory_rows_of [''g''] [[mk_cell (Some (ascii defaultGraphString)) VIRTUOSO_DV_STRING 1]]))) of
      Some (go, b) \<Rightarrow> (go, fst (vr_binding plain_qt memory_odbc ''g'' b)))
   = (True, ResourceNode (defaultGraph plain_qt))"
  by code_simp

text \<open>A name of 50 characters makes its column and the later ones vanish.\<close>

lemma long_names_vanish:
  "fst (resultColumns memory_odbc (new_query_result (memory_rows_of [replicate 50 (CHR ''x''), ''y''] []))) = []"
  by code_simp

text \<open>The boolean value of a result that is not boolean was never set.\<close>

lemma bool_never_set:
  "vr_boolValue (new_virtuoso_result plain_qt memory_odbc None noise True (new_query_result (memory_rows_of [''x''] []))) = noise"
  by code_simp

end
