(* ===== verification/Virtuoso_Model.thy ===== *)
theory Virtuoso_Model
  imports Virtuoso_Result Model_Stack Soprano_Types
begin

text \<open>
  The Virtuoso storage model (backends/virtuoso/virtuosomodel.cpp, odbcconnection.cpp): the texts and parameters of its statements,
  running them on a connection, and the operations of the model with the signals they emit. The server is a record
  of the calls of ODBC over a state of its own; the table of datatypes of toN3 goes through the model.
\<close>

section \<open>Texts\<close>

text \<open>QString::arg with several arguments: the markers with the lowest number take the first, and so on.\<close>

definition arg_of :: "nat list \<Rightarrow> qstring list \<Rightarrow> piece \<Rightarrow> qstring" where
  "arg_of ns as p = (case p of
       Chr c \<Rightarrow> [c]
     | Marker n t \<Rightarrow> (case map_of (zip ns as) n of Some a \<Rightarrow> a | None \<Rightarrow> t))"

definition q_args :: "qstring \<Rightarrow> qstring list \<Rightarrow> qstring" where
  "q_args s as = concat (map (arg_of (sort (remdups (concat (map marker_number (pieces s))))) as) (pieces s))"

text \<open>A blank node is put into brackets.\<close>

definition nodeToN3 :: "qt \<Rightarrow> node \<Rightarrow> type_cache \<Rightarrow> qstring \<times> type_cache" where
  "nodeToN3 q n tc = (case node_toN3 q n tc of (t, tc) \<Rightarrow> (if node_isBlank n then ''<'' @ t @ ''>'' else t, tc))"

definition batch_param :: qstring where
  "batch_param = ''bif:__rdf_long_from_batch_params(??,??,??)''"

definition quoted_param :: qstring where
  "quoted_param = ''`'' @ batch_param @ ''`''"

definition context_text :: "qt \<Rightarrow> bool \<Rightarrow> node \<Rightarrow> type_cache \<Rightarrow> qstring \<times> type_cache" where
  "context_text q param n tc =
     (if node_isValid n then (if param \<and> \<not> node_isBlank n then (batch_param, tc) else nodeToN3 q n tc) else (''?g'', tc))"

definition subject_text :: "qt \<Rightarrow> bool \<Rightarrow> node \<Rightarrow> type_cache \<Rightarrow> qstring \<times> type_cache" where
  "subject_text q param n tc =
     (if node_isValid n then (if param \<and> \<not> node_isBlank n then (quoted_param, tc) else nodeToN3 q n tc) else (''?s'', tc))"

definition predicate_text :: "qt \<Rightarrow> bool \<Rightarrow> node \<Rightarrow> type_cache \<Rightarrow> qstring \<times> type_cache" where
  "predicate_text q param n tc = (if node_isValid n then (if param then (quoted_param, tc) else nodeToN3 q n tc) else (''?p'', tc))"

definition fakeBooleanType :: "qt \<Rightarrow> qurl" where "fakeBooleanType q = url_fromEncodedStrict q fakeBooleanTypeString"
definition fakeBase64BinaryType :: "qt \<Rightarrow> qurl" where "fakeBase64BinaryType q = url_fromEncodedStrict q fakeBase64BinaryTypeString"

definition object_text :: "qt \<Rightarrow> bool \<Rightarrow> bool \<Rightarrow> node \<Rightarrow> type_cache \<Rightarrow> qstring \<times> type_cache" where
  "object_text q fake param n tc =
     (if node_isValid n then
        (if param \<and> \<not> node_isBlank n then (quoted_param, tc)
         else if fake \<and> lit_is_type TBool (node_literal n) then
           node_toN3 q (node_of_literal (fromString_uri q (if lit_toBool q (node_literal n) then ''true'' else ''false'') (fakeBooleanType q))) tc
         else if lit_is_type TByteArray (node_literal n) then
           node_toN3 q (node_of_literal (fromString_uri q (lit_toString q (node_literal n)) (fakeBase64BinaryType q))) tc
         else nodeToN3 q n tc)
      else (''?o'', tc))"

definition statementToConstructGraphPattern :: "qt \<Rightarrow> bool \<Rightarrow> statement \<Rightarrow> bool \<Rightarrow> bool \<Rightarrow> type_cache \<Rightarrow> qstring \<times> type_cache" where
  "statementToConstructGraphPattern q fake s withContext param tc =
     (case (if withContext then context_text q param (context_node s) tc else ([], tc)) of (g, tc) \<Rightarrow>
      (case subject_text q param (subject s) tc of (a, tc) \<Rightarrow>
      (case predicate_text q param (predicate s) tc of (b, tc) \<Rightarrow>
      (case object_text q fake param (object s) tc of (c, tc) \<Rightarrow>
        ((if withContext then ''graph '' @ g @ '' { '' else []) @ a @ '' '' @ b @ '' '' @ c @ (if withContext then '' . }'' else []), tc)))))"

subsection \<open>Booleans in queries\<close>

text \<open>The characters of a word: letters, digits and the underscore.\<close>

definition is_word :: "char \<Rightarrow> bool" where
  "is_word c \<longleftrightarrow> (let n = ccode c in (48 \<le> n \<and> n \<le> 57) \<or> (65 \<le> n \<and> n \<le> 90) \<or> n = 95 \<or> (97 \<le> n \<and> n \<le> 122) \<or>
     n \<in> {170, 178, 179, 181, 185, 186, 188, 189, 190} \<or> (192 \<le> n \<and> n \<noteq> 215 \<and> n \<noteq> 247))"

definition strip_ci :: "qstring \<Rightarrow> qstring \<Rightarrow> (qstring \<times> qstring) option" where
  "strip_ci p s = (if toLower (take (length p) s) = toLower p then Some (take (length p) s, drop (length p) s) else None)"

text \<open>The type behind the value: the IRI in brackets, or a prefix and the name.\<close>

definition match_boolean_type :: "qstring \<Rightarrow> qstring option" where
  "match_boolean_type s = (case strip_ci ''<http://www.w3.org/2001/XMLSchema#boolean>'' s of
       Some (_, rest) \<Rightarrow> Some rest
     | None \<Rightarrow> (let w = takeWhile is_word s in if w = [] then None else map_option snd (strip_ci '':boolean'' (drop (length w) s))))"

definition match_value :: "qstring \<Rightarrow> (qstring \<times> qstring) option" where
  "match_value s = (case strip_ci ''true'' s of Some m \<Rightarrow> Some m | None \<Rightarrow> strip_ci ''false'' s)"

text \<open>The value of a typed boolean at the start of a text, and the text behind it.\<close>

definition match_boolean :: "qstring \<Rightarrow> (qstring \<times> qstring) option" where
  "match_boolean s = (case s of
       [] \<Rightarrow> None
     | c # cs \<Rightarrow>
         if c \<noteq> dquote \<and> c \<noteq> CHR 0x27 then None
         else (case match_value cs of
             None \<Rightarrow> None
           | Some (v, rest) \<Rightarrow>
               (case strip_ci (c # ''^^'') rest of
                  None \<Rightarrow> None
                | Some (_, rest) \<Rightarrow> map_option (\<lambda>rest. (v, rest)) (match_boolean_type rest))))"

lemma strip_ci_shorter: "strip_ci p s = Some (a, b) \<Longrightarrow> length b \<le> length s"
  by (auto simp: strip_ci_def split: if_splits)

lemma match_value_shorter: "match_value s = Some (a, b) \<Longrightarrow> length b \<le> length s"
  using strip_ci_shorter by (fastforce simp: match_value_def split: option.splits)

lemma match_type_shorter: "match_boolean_type s = Some b \<Longrightarrow> length b \<le> length s"
  using strip_ci_shorter by (fastforce simp: match_boolean_type_def Let_def split: option.splits if_splits)

lemma match_boolean_shorter:
  assumes "match_boolean s = Some (v, rest)"
  shows "length rest < length s"
proof -
  obtain c cs t u w where s: "s = c # cs" "match_value cs = Some (v, t)" "strip_ci (c # ''^^'') t = Some (w, u)" "match_boolean_type u = Some rest"
    using assms by (auto simp: match_boolean_def split: list.splits option.splits if_splits)
  show ?thesis using match_value_shorter[OF s(2)] strip_ci_shorter[OF s(3)] match_type_shorter[OF s(4)] s(1) by simp
qed

function replace_booleans :: "qstring \<Rightarrow> qstring" where
  "replace_booleans s = (case match_boolean s of
       Some (v, rest) \<Rightarrow> [CHR 0x27] @ v @ [CHR 0x27] @ ''^^<'' @ fakeBooleanTypeString @ ''>'' @ replace_booleans rest
     | None \<Rightarrow> (case s of [] \<Rightarrow> [] | c # cs \<Rightarrow> c # replace_booleans cs))"
  by pat_completeness auto
termination by (relation "measure length") (auto dest: match_boolean_shorter)

declare replace_booleans.simps [simp del]

definition replaceFakeTypesInQuery :: "bool \<Rightarrow> qstring \<Rightarrow> qstring" where
  "replaceFakeTypesInQuery fake s = (if \<not> fake then s else replace_booleans s)"

section \<open>Commands\<close>

text \<open>What is bound to the places of a command. A value with the length SQL_NTS ends at its first null.\<close>

datatype sql_param = SShort int | SChar qbytes

definition sql_text :: "qbytes \<Rightarrow> sql_param" where
  "sql_text bs = SChar (c_string bs)"

fun bind_param_node :: "qt \<Rightarrow> node \<Rightarrow> sql_param list" where
  "bind_param_node q (ResourceNode u) = [SShort 1, sql_text (ascii (encoded u)), sql_text (ascii (encoded u))]"
| "bind_param_node q (LiteralNode l) =
     (let value = sql_text (str_toUtf8 q (lit_toString q l)) in
      if \<not> url_isEmpty (dataTypeUri l) then [SShort 4, value, sql_text (ascii (encoded (dataTypeUri l)))]
      else if tag_isValid (lit_language l) then [SShort 5, value, sql_text (str_toUtf8 q (tag_toString (lit_language l)))]
      else [SShort 3, value, SChar []])"
| "bind_param_node q _ = []"

definition bind_params :: "qt \<Rightarrow> node list \<Rightarrow> sql_param list" where
  "bind_params q nodes = concat (map (bind_param_node q) nodes)"

text \<open>The server: whether a thread gets a connection, whether a statement handle is had, and running a text with
  parameters, which fails with diagnostic records or gives a handle. \<open>turtle\<close> and \<open>memory_noise\<close> are for the results.\<close>

record ('w, 'h) virtuoso =
  v_connect :: "'w \<Rightarrow> error option \<times> 'w"
  v_alloc :: "'w \<Rightarrow> qbytes list option"
  v_exec :: "qstring \<Rightarrow> sql_param list \<Rightarrow> 'w \<Rightarrow> (qbytes list + 'h) \<times> 'w"
  v_odbc :: "'h odbc"
  v_turtle :: turtle
  memory_noise :: bool

datatype signal = StatementAdded statement | StatementsAdded | StatementRemoved statement | StatementsRemoved

record 'w virtuoso_model =
  v_world :: 'w
  conn_error :: error
  pool_error :: error
  v_error :: error
  v_types :: type_cache
  v_signals :: "signal list"
  m_virtuosoVersion :: qstring
  m_noStatementSignals :: bool
  m_fakeBooleans :: bool
  m_supportEmptyGraphs :: bool

definition new_virtuoso_model :: "qstring \<Rightarrow> bool \<Rightarrow> bool \<Rightarrow> 'w \<Rightarrow> 'w virtuoso_model" where
  "new_virtuoso_model version fake emptyGraphs w = \<lparr> v_world = w, conn_error = NoError, pool_error = NoError, v_error = NoError,
     v_types = Map.empty, v_signals = [], m_virtuosoVersion = version, m_noStatementSignals = False,
     m_fakeBooleans = fake, m_supportEmptyGraphs = emptyGraphs \<rparr>"

definition v_setError :: "error \<Rightarrow> 'w virtuoso_model \<Rightarrow> 'w virtuoso_model" where
  "v_setError e st = st\<lparr>v_error := kept_error e\<rparr>"

definition v_invalid :: "qstring \<Rightarrow> 'w virtuoso_model \<Rightarrow> 'w virtuoso_model" where
  "v_invalid m st = v_setError (mk_error m (error_code_num ErrorInvalidArgument)) st"

definition v_emit :: "signal list \<Rightarrow> 'w virtuoso_model \<Rightarrow> 'w virtuoso_model" where
  "v_emit ss st = (if m_noStatementSignals st then st else st\<lparr>v_signals := v_signals st @ ss\<rparr>)"

definition v_connection :: "('w, 'h) virtuoso \<Rightarrow> 'w virtuoso_model \<Rightarrow> bool \<times> 'w virtuoso_model" where
  "v_connection V st = (case v_connect V (v_world st) of
     (None, w) \<Rightarrow> (True, st\<lparr>v_world := w, pool_error := NoError\<rparr>)
   | (Some e, w) \<Rightarrow> (False, st\<lparr>v_world := w, pool_error := e\<rparr>))"

text \<open>Connection::execute.\<close>

definition v_execute :: "qt \<Rightarrow> ('w, 'h) virtuoso \<Rightarrow> qstring \<Rightarrow> node list \<Rightarrow> 'w virtuoso_model \<Rightarrow> 'h option \<times> 'w virtuoso_model" where
  "v_execute q V request params st = (case v_alloc V (v_world st) of
     Some diag \<Rightarrow> (None, st\<lparr>conn_error := convertSqlError diag []\<rparr>)
   | None \<Rightarrow> (case v_exec V request (bind_params q params) (v_world st) of
       (Inl diag, w) \<Rightarrow> (None, st\<lparr>v_world := w, conn_error :=
          convertSqlError diag (''SQLExecDirect failed on query '' @ [CHR 0x27] @ request @ [CHR 0x27])\<rparr>)
     | (Inr h, w) \<Rightarrow> (Some h, st\<lparr>v_world := w, conn_error := NoError\<rparr>)))"

text \<open>The result of a command is never anything but ErrorNone.\<close>

definition executeCommand :: "qt \<Rightarrow> ('w, 'h) virtuoso \<Rightarrow> qstring \<Rightarrow> node list \<Rightarrow> 'w virtuoso_model \<Rightarrow> error_code \<times> 'w virtuoso_model" where
  "executeCommand q V command params st = (case v_execute q V command params st of (h, st) \<Rightarrow> (ErrorNone, st))"

definition sqlQuery :: "qt \<Rightarrow> ('w, 'h) virtuoso \<Rightarrow> qstring \<Rightarrow> 'w virtuoso_model \<Rightarrow> 'h virtuoso_result option \<times> 'w virtuoso_model" where
  "sqlQuery q V query st = (case v_connection V st of
     (True, st) \<Rightarrow> (case v_execute q V query [] st of
         (Some h, st) \<Rightarrow>
           (Some (new_virtuoso_result q (v_odbc V) (v_turtle V) (memory_noise V) (m_supportEmptyGraphs st) (new_query_result h)),
            v_setError NoError st)
       | (None, st) \<Rightarrow> (None, v_setError (conn_error st) st))
   | (False, st) \<Rightarrow> (None, v_setError (pool_error st) st))"

definition sparqlQuery :: "qt \<Rightarrow> ('w, 'h) virtuoso \<Rightarrow> qstring \<Rightarrow> 'w virtuoso_model \<Rightarrow> 'h virtuoso_result option \<times> 'w virtuoso_model" where
  "sparqlQuery q V query st = sqlQuery q V (''sparql '' @ query) st"

text \<open>A command: done, or the error of the pool. The error of the connection is not looked at.\<close>

definition v_pattern :: "qt \<Rightarrow> statement \<Rightarrow> bool \<Rightarrow> bool \<Rightarrow> 'w virtuoso_model \<Rightarrow> qstring \<times> 'w virtuoso_model" where
  "v_pattern q s withContext param st = (case statementToConstructGraphPattern q (m_fakeBooleans st) s withContext param (v_types st) of
     (t, tc) \<Rightarrow> (t, st\<lparr>v_types := tc\<rparr>))"

definition v_context_text :: "qt \<Rightarrow> statement \<Rightarrow> 'w virtuoso_model \<Rightarrow> qstring \<times> 'w virtuoso_model" where
  "v_context_text q s st = (case node_toN3 q (context_node s) (v_types st) of (t, tc) \<Rightarrow> (t, st\<lparr>v_types := tc\<rparr>))"

definition v_code :: "'w virtuoso_model \<Rightarrow> error_code" where
  "v_code st = convertErrorCode (err_code (v_error st))"

section \<open>Operations\<close>

definition in_default_graph :: "qt \<Rightarrow> statement \<Rightarrow> statement" where
  "in_default_graph q s = setContext (node_of_url (defaultGraph q)) s"

text \<open>The nodes for the parameters; a context that is none or blank gives the default graph.\<close>

definition param_nodes :: "qt \<Rightarrow> statement \<Rightarrow> node list" where
  "param_nodes q s =
     [if node_isValid (context_node s) \<and> \<not> node_isBlank (context_node s) then context_node s else node_of_url (defaultGraph q)] @
     (if node_isValid (subject s) \<and> \<not> node_isBlank (subject s) then [subject s] else []) @
     (if node_isValid (predicate s) then [predicate s] else []) @
     (if node_isValid (object s) \<and> \<not> node_isBlank (object s) then [object s] else [])"

text \<open>The statement with a graph, or the error for it.\<close>

definition with_graph :: "qt \<Rightarrow> qstring \<Rightarrow> statement \<Rightarrow> 'w virtuoso_model \<Rightarrow> statement + 'w virtuoso_model" where
  "with_graph q m s st =
     (if node_isValid (context_node s) then Inl s
      else if m_supportEmptyGraphs st then Inl (in_default_graph q s)
      else Inr (v_invalid m st))"

definition vm_addStatement :: "qt \<Rightarrow> ('w, 'h) virtuoso \<Rightarrow> statement \<Rightarrow> 'w virtuoso_model \<Rightarrow> error_code \<times> 'w virtuoso_model" where
  "vm_addStatement q V statement st =
     (if \<not> stmt_isValid statement then (ErrorInvalidArgument, v_invalid ''Cannot add invalid statement.'' st)
      else (case with_graph q ''Cannot add statement with invalid context'' statement st of
          Inr st \<Rightarrow> (ErrorInvalidArgument, st)
        | Inl s \<Rightarrow> (case v_pattern q s True True st of (t, st) \<Rightarrow>
            (case v_connection V st of
               (True, st) \<Rightarrow> (case executeCommand q V (''sparql insert into '' @ t) (param_nodes q statement) st of (c, st) \<Rightarrow>
                  if c = ErrorNone then
                    (ErrorNone, v_emit [StatementAdded statement, StatementsAdded] (v_setError NoError st))
                  else (let st = v_setError (conn_error st) st in (v_code st, st)))
             | (False, st) \<Rightarrow> (let st = v_setError (pool_error st) st in (v_code st, st))))))"

definition graph_filter :: qstring where
  "graph_filter = ''select distinct ?g where { graph ?g { ?s ?p ?o . } . FILTER(?g != <%1> && ?g != <%2>) . }''"

text \<open>A column read to the end; a graph or a value has no columns of that kind.\<close>

definition column_nodes :: "qt \<Rightarrow> ('w, 'h) virtuoso \<Rightarrow> 'h virtuoso_result option \<Rightarrow> node list option" where
  "column_nodes q V r = (case r of
       None \<Rightarrow> None
     | Some b \<Rightarrow> map_option fst (allElements (bindings_by_offset (virtuoso_backend q (v_odbc V)) 0) EmptyNode (iterate_result (new_iterator b))))"

definition vm_listContexts :: "qt \<Rightarrow> ('w, 'h) virtuoso \<Rightarrow> 'w virtuoso_model \<Rightarrow> node list option \<times> 'w virtuoso_model" where
  "vm_listContexts q V st =
     (case sparqlQuery q V (q_args graph_filter [defaultGraphString, openlinkVirtualGraphString]) st of (r, st) \<Rightarrow> (column_nodes q V r, st))"

definition vm_boolValue :: "'h virtuoso_result option \<Rightarrow> bool" where
  "vm_boolValue r = (case r of None \<Rightarrow> False | Some b \<Rightarrow> vr_boolValue b)"

definition vm_containsAnyStatement :: "qt \<Rightarrow> ('w, 'h) virtuoso \<Rightarrow> statement \<Rightarrow> 'w virtuoso_model \<Rightarrow> bool \<times> 'w virtuoso_model" where
  "vm_containsAnyStatement q V s st =
     (case (if node_isValid (context_node s) then
              (case v_context_text q s st of (g, st) \<Rightarrow> (case v_pattern q s False False st of (t, st) \<Rightarrow>
                (q_args ''ask from %1 where { %2 . }'' [g, t], st)))
            else (case v_pattern q s True False st of (t, st) \<Rightarrow> (q_arg ''ask where { %1 . }'' t, st))) of
       (query, st) \<Rightarrow> (case sparqlQuery q V query st of (r, st) \<Rightarrow> (vm_boolValue r, st)))"

text \<open>For a statement without graph the error code is returned as a truth value.\<close>

definition vm_containsStatement :: "qt \<Rightarrow> ('w, 'h) virtuoso \<Rightarrow> statement \<Rightarrow> 'w virtuoso_model \<Rightarrow> bool \<times> 'w virtuoso_model" where
  "vm_containsStatement q V s st =
     (if \<not> stmt_isValid s then (False, v_invalid ''Cannot call containsStatement on invalid statements'' st)
      else (case with_graph q ''Found invalid context'' s st of
          Inr st \<Rightarrow> (error_code_num ErrorInvalidArgument \<noteq> 0, st)
        | Inl s \<Rightarrow> vm_containsAnyStatement q V s st))"

definition v_column :: "node \<Rightarrow> qstring \<Rightarrow> qstring" where
  "v_column n v = (if node_isValid n then [] else v)"

definition result_statements :: "qt \<Rightarrow> ('w, 'h) virtuoso \<Rightarrow> statement \<Rightarrow> 'h virtuoso_result option \<Rightarrow> statement list option" where
  "result_statements q V p r = (case r of
       None \<Rightarrow> None
     | Some b \<Rightarrow> map_option fst (allElements
         (constructed (virtuoso_backend q (v_odbc V)) p (v_column (subject p) ''s'') (v_column (predicate p) ''p'')
            (v_column (object p) ''o'') (v_column (context_node p) ''g'')) empty_statement (iterate_result (new_iterator b))))"

definition vm_listStatements :: "qt \<Rightarrow> ('w, 'h) virtuoso \<Rightarrow> statement \<Rightarrow> 'w virtuoso_model \<Rightarrow> statement list option \<times> 'w virtuoso_model" where
  "vm_listStatements q V p st =
     (case (if node_isValid (context_node p) then
              (case v_context_text q p st of (g, st) \<Rightarrow> (case v_pattern q p False False st of (t, st) \<Rightarrow>
                (q_args ''select * from %1 where { %2 . }'' [g, t], st)))
            else (case v_pattern q p True False st of (t, st) \<Rightarrow>
                (q_args ''select * where { %1 . FILTER(?g != <%2>) . }'' [t, openlinkVirtualGraphString], st))) of
       (query, st) \<Rightarrow> (case sparqlQuery q V query st of (r, st) \<Rightarrow> (result_statements q V p r, st)))"

definition virtual_graph_refused :: qstring where
  "virtual_graph_refused = ''Cannot remove statements from the virtual openlink graph. Virtuoso would not like that.''"

definition in_virtual_graph :: "qt \<Rightarrow> statement \<Rightarrow> bool" where
  "in_virtual_graph q s \<longleftrightarrow> node_isValid (context_node s) \<and> node_uri (context_node s) = openlinkVirtualGraph q"

text \<open>Signals of a removal; the error of the connection becomes the one of the model.\<close>

definition vm_removeStatement :: "qt \<Rightarrow> ('w, 'h) virtuoso \<Rightarrow> statement \<Rightarrow> 'w virtuoso_model \<Rightarrow> error_code \<times> 'w virtuoso_model" where
  "vm_removeStatement q V statement st =
     (if \<not> stmt_isValid statement then (ErrorInvalidArgument, v_invalid ''Cannot remove invalid statement.'' st)
      else (case with_graph q ''Cannot remove statement with invalid context'' statement st of
          Inr st \<Rightarrow> (ErrorInvalidArgument, st)
        | Inl s \<Rightarrow>
            if in_virtual_graph q statement then (ErrorInvalidArgument, v_invalid virtual_graph_refused st)
            else (case v_pattern q s True False st of (t, st) \<Rightarrow>
              (case v_connection V st of
                 (True, st) \<Rightarrow> (case executeCommand q V (''sparql '' @ q_arg ''delete from %1'' t) [] st of (c, st) \<Rightarrow>
                    (let st = (if c = ErrorNone then v_emit [StatementRemoved statement, StatementsRemoved] st else st);
                         st = v_setError (conn_error st) st
                     in (v_code st, st)))
               | (False, st) \<Rightarrow> (let st = v_setError (pool_error st) st in (v_code st, st))))))"

text \<open>The end of removeAllStatements: the command, its signals and its error. The signal names no graph for the
  default graph; a model without empty graphs takes it for an invalid argument, after the data went.\<close>

definition remove_all_command :: "qt \<Rightarrow> ('w, 'h) virtuoso \<Rightarrow> qstring \<Rightarrow> statement \<Rightarrow> 'w virtuoso_model \<Rightarrow> error_code \<times> 'w virtuoso_model" where
  "remove_all_command q V query statement st = (case v_connection V st of
     (True, st) \<Rightarrow> (case executeCommand q V (''sparql '' @ query) [] st of (c, st) \<Rightarrow>
        (if c = ErrorNone \<and> \<not> m_noStatementSignals st \<and> node_eq q (context_node statement) (node_of_url (defaultGraph q)) \<and>
            \<not> m_supportEmptyGraphs st then
           (ErrorInvalidArgument, v_invalid ''Cannot remove statement with invalid context'' (v_emit [StatementsRemoved] st))
         else
           (let signalled = (if node_eq q (context_node statement) (node_of_url (defaultGraph q)) then setContext EmptyNode statement else statement);
                st = (if c = ErrorNone then v_emit [StatementsRemoved, StatementRemoved signalled] st else st);
                st = v_setError (conn_error st) st
            in (v_code st, st))))
   | (False, st) \<Rightarrow> (let st = v_setError (pool_error st) st in (v_code st, st)))"

definition remove_in_graph :: "qt \<Rightarrow> ('w, 'h) virtuoso \<Rightarrow> statement \<Rightarrow> 'w virtuoso_model \<Rightarrow> error_code \<times> 'w virtuoso_model" where
  "remove_in_graph q V s st =
     (if in_virtual_graph q s then (ErrorInvalidArgument, v_invalid virtual_graph_refused st)
      else if \<not> node_isValid (subject s) \<and> \<not> node_isValid (predicate s) \<and> \<not> node_isValid (object s) then
        (case v_context_text q s st of (g, st) \<Rightarrow> remove_all_command q V (q_arg ''clear graph %1'' g) s st)
      else (case v_context_text q s st of (g, st) \<Rightarrow> (case v_pattern q s False False st of (t, st) \<Rightarrow> (case v_pattern q s True False st of (u, st) \<Rightarrow>
        remove_all_command q V (q_args ''delete from %1 { %2 } where { %3 }'' [g, t, u]) s st))))"

fun remove_graphs :: "qt \<Rightarrow> ('w, 'h) virtuoso \<Rightarrow> statement \<Rightarrow> node list \<Rightarrow> 'w virtuoso_model \<Rightarrow> error_code \<times> 'w virtuoso_model" where
  "remove_graphs q V s [] st = (ErrorNone, st)"
| "remove_graphs q V s (g # gs) st =
     (case with_graph q ''Cannot remove statement with invalid context'' (setContext g s) st of
        Inr st \<Rightarrow> (ErrorInvalidArgument, st)
      | Inl s' \<Rightarrow> (case remove_in_graph q V s' st of (c, st) \<Rightarrow>
          if c \<noteq> ErrorNone then (c, st) else remove_graphs q V s gs st))"

text \<open>Versions are compared as text.\<close>

definition new_enough :: "qstring \<Rightarrow> bool" where
  "new_enough version \<longleftrightarrow> ''6.1.5'' \<le> version"

definition graphs_query :: qstring where
  "graphs_query = ''select distinct ?g where { %1 . FILTER(?g != <%2>) . }''"

definition vm_removeAllStatements :: "qt \<Rightarrow> ('w, 'h) virtuoso \<Rightarrow> statement \<Rightarrow> 'w virtuoso_model \<Rightarrow> error_code \<times> 'w virtuoso_model" where
  "vm_removeAllStatements q V s st =
     (if node_isValid (context_node s) then remove_in_graph q V s st
      else if new_enough (m_virtuosoVersion st) then
        (case v_pattern q s True False st of (t, st) \<Rightarrow> remove_all_command q V (q_arg ''delete { %1 } where { %1 }'' t) s st)
      else (case v_pattern q s True False st of (t, st) \<Rightarrow>
        (case sparqlQuery q V (q_args graphs_query [t, openlinkVirtualGraphString]) st of (r, st) \<Rightarrow>
          remove_graphs q V s (case column_nodes q V r of None \<Rightarrow> [] | Some ns \<Rightarrow> ns) st)))"

definition count_query :: qstring where
  "count_query = ''select count(*) where { graph ?g { ?s ?p ?o . } . FILTER(?g != <%1>) . }''"

text \<open>\<open>None\<close> is a call that does not come back.\<close>

definition vm_statementCount :: "qt \<Rightarrow> ('w, 'h) virtuoso \<Rightarrow> 'w virtuoso_model \<Rightarrow> int option \<times> 'w virtuoso_model" where
  "vm_statementCount q V st = (case sparqlQuery q V (q_arg count_query openlinkVirtualGraphString) st of
     (None, st) \<Rightarrow> (Some (- 1), st)
   | (Some b, st) \<Rightarrow> (case it_next (virtuoso_backend q (v_odbc V)) (new_iterator b) of
       Some (True, (Some b, e)) \<Rightarrow> (Some (sint (lit_toInt q (node_literal (fst (vr_binding_at q (v_odbc V) 0 b))))), st)
     | Some _ \<Rightarrow> (Some (- 1), st)
     | None \<Rightarrow> (None, st)))"

definition vm_createBlankNode :: "'w virtuoso_model \<Rightarrow> node \<times> 'w virtuoso_model" where
  "vm_createBlankNode st = (EmptyNode,
     v_setError (mk_error ''createBlankNode not supported by the Virtuoso backend'' (error_code_num ErrorNotSupported)) st)"

definition vm_executeQuery :: "qt \<Rightarrow> ('w, 'h) virtuoso \<Rightarrow> qstring \<Rightarrow> u16 \<Rightarrow> qstring \<Rightarrow> 'w virtuoso_model \<Rightarrow>
    'h virtuoso_result option \<times> 'w virtuoso_model" where
  "vm_executeQuery q V query lang user st =
     (if lang = 1 then sparqlQuery q V (replaceFakeTypesInQuery (m_fakeBooleans st) query) st
      else if lang = 0x1000 \<and> toLower user = ''sql'' then sqlQuery q V (replaceFakeTypesInQuery (m_fakeBooleans st) query) st
      else (None, v_setError (mk_error (q_arg ''Unsupported query language %1.'' (queryLanguageToString lang user)) (error_code_num ErrorUnknown)) st))"

end
