(* ===== verification/Virtuoso_Store.thy ===== *)
theory Virtuoso_Store
  imports Virtuoso_Model Sparql_Store
begin

text \<open>
  The Virtuoso model against the store of its server. The locale \<open>virtuoso_server\<close> says what the server owes: the answers
  to the texts the model sends, as rows of an ODBC driver that keeps its contract. A server with a store in memory satisfies it.
  The calls of the model then are operations on the graphs of the store; a statement without graph is one of the
  default graph.
\<close>

section \<open>The commands of a model\<close>

datatype command =
    InsertStatement statement
  | DeleteStatement statement
  | SelectIn statement
  | SelectAny statement
  | AskIn statement
  | AskAny statement
  | ClearGraph statement
  | DeleteWhere statement
  | DeleteAll statement
  | GraphsOf statement
  | Contexts
  | CountAll

definition v_text :: "qt \<Rightarrow> bool \<Rightarrow> statement \<Rightarrow> bool \<Rightarrow> qstring" where
  "v_text q fake p c = fst (statementToConstructGraphPattern q fake p c False Map.empty)"

definition graph_text :: "qt \<Rightarrow> statement \<Rightarrow> qstring" where
  "graph_text q p = fst (node_toN3 q (context_node p) Map.empty)"

fun command_text :: "qt \<Rightarrow> bool \<Rightarrow> command \<Rightarrow> qstring" where
  "command_text q fake (InsertStatement s) = ''sparql insert into '' @ fst (statementToConstructGraphPattern q fake s True True Map.empty)"
| "command_text q fake (DeleteStatement s) = ''sparql '' @ q_arg ''delete from %1'' (v_text q fake s True)"
| "command_text q fake (SelectIn p) = ''sparql '' @ q_args ''select * from %1 where { %2 . }'' [graph_text q p, v_text q fake p False]"
| "command_text q fake (SelectAny p) = ''sparql '' @ q_args ''select * where { %1 . FILTER(?g != <%2>) . }'' [v_text q fake p True, openlinkVirtualGraphString]"
| "command_text q fake (AskIn p) = ''sparql '' @ q_args ''ask from %1 where { %2 . }'' [graph_text q p, v_text q fake p False]"
| "command_text q fake (AskAny p) = ''sparql '' @ q_arg ''ask where { %1 . }'' (v_text q fake p True)"
| "command_text q fake (ClearGraph p) = ''sparql '' @ q_arg ''clear graph %1'' (graph_text q p)"
| "command_text q fake (DeleteWhere p) = ''sparql '' @ q_args ''delete from %1 { %2 } where { %3 }'' [graph_text q p, v_text q fake p False, v_text q fake p True]"
| "command_text q fake (DeleteAll p) = ''sparql '' @ q_arg ''delete { %1 } where { %1 }'' (v_text q fake p True)"
| "command_text q fake (GraphsOf p) = ''sparql '' @ q_args graphs_query [v_text q fake p True, openlinkVirtualGraphString]"
| "command_text q fake Contexts = ''sparql '' @ q_args graph_filter [defaultGraphString, openlinkVirtualGraphString]"
| "command_text q fake CountAll = ''sparql '' @ q_arg count_query openlinkVirtualGraphString"

fun command_params :: "qt \<Rightarrow> command \<Rightarrow> sql_param list" where
  "command_params q (InsertStatement s) = bind_params q (param_nodes q s)"
| "command_params q _ = []"

section \<open>What the commands mean\<close>

definition virtual_node :: "qt \<Rightarrow> node" where "virtual_node q = node_of_url (openlinkVirtualGraph q)"
definition default_node :: "qt \<Rightarrow> node" where "default_node q = node_of_url (defaultGraph q)"

text \<open>Without a graph in the pattern, the virtual graph of the server is left out.\<close>

definition listed :: "qt \<Rightarrow> statement \<Rightarrow> statement \<Rightarrow> bool" where
  "listed q p s \<longleftrightarrow> answers p s \<and> (node_isValid (context_node p) \<or> context_node s \<noteq> virtual_node q)"

fun command_effect :: "qt \<Rightarrow> command \<Rightarrow> graph \<Rightarrow> graph" where
  "command_effect q (InsertStatement s) g = graph_addStatement q s g"
| "command_effect q (DeleteStatement s) g = graph_removeStatement q s g"
| "command_effect q (ClearGraph p) g = filter (\<lambda>s. \<not> answers p s) g"
| "command_effect q (DeleteWhere p) g = filter (\<lambda>s. \<not> answers p s) g"
| "command_effect q (DeleteAll p) g = filter (\<lambda>s. \<not> answers p s) g"
| "command_effect q _ g = g"

definition graphs_of :: "(statement \<Rightarrow> bool) \<Rightarrow> graph \<Rightarrow> node list" where
  "graphs_of f g = remdups (map context_node (filter f g))"

text \<open>The columns and rows of an answer. A boolean is a row with the number 1, or no row.\<close>

definition bool_rows :: "bool \<Rightarrow> node list list" where
  "bool_rows v = (if v then [[LiteralNode (lit_int 1)]] else [])"

fun command_answer :: "qt \<Rightarrow> command \<Rightarrow> graph \<Rightarrow> qstring list \<times> node list list" where
  "command_answer q (SelectIn p) g = (select_vars p, map (\<lambda>s. map snd (select_row p s)) (filter (listed q p) g))"
| "command_answer q (SelectAny p) g = (select_vars p, map (\<lambda>s. map snd (select_row p s)) (filter (listed q p) g))"
| "command_answer q (AskIn p) g = ([''__ASK_RETVAL''], bool_rows (list_ex (answers p) g))"
| "command_answer q (AskAny p) g = ([''__ASK_RETVAL''], bool_rows (list_ex (answers p) g))"
| "command_answer q (GraphsOf p) g = ([''g''], map (\<lambda>n. [n]) (graphs_of (listed q p) g))"
| "command_answer q Contexts g =
     ([''g''], map (\<lambda>n. [n]) (graphs_of (\<lambda>s. context_node s \<noteq> default_node q \<and> context_node s \<noteq> virtual_node q) g))"
| "command_answer q CountAll g =
     ([''callret-0''], [[LiteralNode (lit_int (of_nat (length (filter (\<lambda>s. context_node s \<noteq> virtual_node q) g))))]])"
| "command_answer q _ g = ([], [])"

definition answer_shown :: "qt \<Rightarrow> (qbytes \<times> int) list \<Rightarrow> cell list list \<Rightarrow> qstring list \<times> node list list \<Rightarrow> bool" where
  "answer_shown q cols rows a \<longleftrightarrow> map name_of cols = fst a \<and> names_fit cols \<and> (\<forall>c\<in>set cols. snd c \<notin> {- 1, - 4, - 10}) \<and>
     rows_shown q (fst a) rows (snd a)"

section \<open>The contract of a server\<close>

text \<open>\<open>understood\<close> are the commands the server knows, \<open>showable\<close> the nodes it can show in a cell.\<close>

locale virtuoso_server = odbc_driver "v_odbc V" cols at left reads
  for V :: "('w, 'h) virtuoso" and cols at left reads +
  fixes q :: qt and fake :: bool and contents :: "'w \<Rightarrow> graph" and understood :: "command set" and showable :: "node \<Rightarrow> bool"
  assumes connects: "\<exists>w'. v_connect V w = (None, w') \<and> contents w' = contents w"
    and statement_handle: "v_alloc V w = None"
    and carries_out: "c \<in> understood \<Longrightarrow> (\<forall>s\<in>set (contents w). \<forall>n\<in>{subject s, predicate s, object s, context_node s}. showable n) \<Longrightarrow>
      \<exists>h w'. v_exec V (command_text q fake c) (command_params q c) w = (Inr h, w') \<and> contents w' = command_effect q c (contents w) \<and>
        answer_shown q (cols h) (left h) (command_answer q c (contents w))"

definition all_showable :: "(node \<Rightarrow> bool) \<Rightarrow> graph \<Rightarrow> bool" where
  "all_showable f g \<longleftrightarrow> (\<forall>s\<in>set g. \<forall>n\<in>{subject s, predicate s, object s, context_node s}. f n)"

section \<open>The table of datatypes\<close>

text \<open>Only literals have a datatype, and only an object is one; the table does not change its text.\<close>

definition types_agree :: "qt \<Rightarrow> statement \<Rightarrow> 'w virtuoso_model \<Rightarrow> bool" where
  "types_agree q p st \<longleftrightarrow> \<not> node_isLiteral (subject p) \<and> \<not> node_isLiteral (predicate p) \<and>
     (node_isValid (context_node p) \<longrightarrow> node_isResource (context_node p)) \<and>
     fst (object_text q (m_fakeBooleans st) False (object p) (v_types st)) = fst (object_text q (m_fakeBooleans st) False (object p) Map.empty)"

lemma literalToN3_again: "fst (literalToN3 q l (snd (literalToN3 q l tc))) = fst (literalToN3 q l tc)"
  by (cases "lit_isPlain l"; cases "tc (lit_type l)") (simp_all add: literalToN3_def Let_def)

lemma toN3_again: "fst (node_toN3 q n (snd (node_toN3 q n tc))) = fst (node_toN3 q n tc)"
  by (cases n) (simp_all add: literalToN3_again)

lemma nodeToN3_again: "fst (nodeToN3 q n (snd (nodeToN3 q n tc))) = fst (nodeToN3 q n tc)"
proof -
  have s: "nodeToN3 q n tc = ((if node_isBlank n then ''<'' @ fst (node_toN3 q n tc) @ ''>'' else fst (node_toN3 q n tc)), snd (node_toN3 q n tc))" for tc
    by (cases "node_toN3 q n tc") (simp add: nodeToN3_def)
  show ?thesis unfolding s fst_conv snd_conv toN3_again ..
qed

definition printed :: "qt \<Rightarrow> bool \<Rightarrow> node \<Rightarrow> node" where
  "printed q fake n =
     (if fake \<and> lit_is_type TBool (node_literal n) then
        node_of_literal (fromString_uri q (if lit_toBool q (node_literal n) then ''true'' else ''false'') (fakeBooleanType q))
      else if lit_is_type TByteArray (node_literal n) then
        node_of_literal (fromString_uri q (lit_toString q (node_literal n)) (fakeBase64BinaryType q))
      else n)"

lemma literal_not_blank: "\<not> node_isBlank (node_of_literal l)"
  by (simp add: node_of_literal_def node_test_defs)

lemma not_blank_N3: "\<not> node_isBlank n \<Longrightarrow> nodeToN3 q n tc = node_toN3 q n tc"
  by (cases "node_toN3 q n tc") (simp add: nodeToN3_def)

lemma object_text_printed: "object_text q fake False n tc = (if node_isValid n then nodeToN3 q (printed q fake n) tc else (''?o'', tc))"
  by (auto simp: object_text_def printed_def not_blank_N3[OF literal_not_blank] simp del: lit_is_type.simps)

lemma object_text_again: "fst (object_text q fake False n (snd (object_text q fake False n tc))) = fst (object_text q fake False n tc)"
  by (simp add: object_text_printed nodeToN3_again)

lemma toN3_plain: "\<not> node_isLiteral n \<Longrightarrow> \<exists>t. \<forall>tc. node_toN3 q n tc = (t, tc)"
  by (cases n) (simp_all add: node_test_defs)

lemma parts_plain:
  assumes "\<not> node_isLiteral n"
  shows "\<exists>t. \<forall>tc. context_text q c n tc = (t, tc)" "\<exists>t. \<forall>tc. subject_text q c n tc = (t, tc)" "\<exists>t. \<forall>tc. predicate_text q c n tc = (t, tc)"
proof -
  obtain t where "\<forall>tc. node_toN3 q n tc = (t, tc)" using toN3_plain[OF assms] by blast
  then have "\<exists>t. \<forall>tc. nodeToN3 q n tc = (t, tc)" by (simp add: nodeToN3_def)
  then obtain u where u: "nodeToN3 q n tc = (u, tc)" for tc by blast
  show "\<exists>t. \<forall>tc. context_text q c n tc = (t, tc)" unfolding context_text_def u by (cases "node_isValid n"; cases "c \<and> \<not> node_isBlank n"; cases c) simp_all
  show "\<exists>t. \<forall>tc. subject_text q c n tc = (t, tc)" unfolding subject_text_def u by (cases "node_isValid n"; cases "c \<and> \<not> node_isBlank n"; cases c) simp_all
  show "\<exists>t. \<forall>tc. predicate_text q c n tc = (t, tc)" unfolding predicate_text_def u by (cases "node_isValid n"; cases "c \<and> \<not> node_isBlank n"; cases c) simp_all
qed

lemma pattern_plain:
  assumes "\<not> node_isLiteral (subject p)" "\<not> node_isLiteral (predicate p)" "node_isValid (context_node p) \<Longrightarrow> node_isResource (context_node p)"
    and "fst (object_text q fake param (object p) tc) = fst (object_text q fake param (object p) Map.empty)"
  shows "statementToConstructGraphPattern q fake p c param tc =
     (fst (statementToConstructGraphPattern q fake p c param Map.empty), snd (object_text q fake param (object p) tc))"
proof -
  have "\<not> node_isLiteral (context_node p)" using assms(3) by (cases "context_node p") (auto simp: node_test_defs)
  then obtain g a b where t: "context_text q param (context_node p) tc = (g, tc)" "subject_text q param (subject p) tc = (a, tc)"
      "predicate_text q param (predicate p) tc = (b, tc)" for tc
    using parts_plain(1)[of "context_node p" q param] parts_plain(2)[OF assms(1), of q param] parts_plain(3)[OF assms(2), of q param] by blast
  obtain o1 t1 where o1: "object_text q fake param (object p) tc = (o1, t1)" by fastforce
  obtain t2 where o2: "object_text q fake param (object p) Map.empty = (o1, t2)" using assms(4) o1 by (cases "object_text q fake param (object p) Map.empty") auto
  show ?thesis by (simp add: statementToConstructGraphPattern_def t o1 o2)
qed

lemma command_pattern_sent:
  assumes "types_agree q p st"
  shows "\<exists>tc. v_pattern q p c False st = (v_text q (m_fakeBooleans st) p c, st\<lparr>v_types := tc\<rparr>) \<and> types_agree q p (st\<lparr>v_types := tc\<rparr>)"
proof -
  let ?tc = "snd (object_text q (m_fakeBooleans st) False (object p) (v_types st))"
  have "v_pattern q p c False st = (v_text q (m_fakeBooleans st) p c, st\<lparr>v_types := ?tc\<rparr>)"
    using pattern_plain[of p q "m_fakeBooleans st" False "v_types st" c] assms by (simp add: v_pattern_def v_text_def types_agree_def)
  moreover have "types_agree q p (st\<lparr>v_types := ?tc\<rparr>)" using assms object_text_again by (simp add: types_agree_def)
  ultimately show ?thesis by blast
qed

lemma graph_sent:
  assumes "types_agree q p st" "node_isValid (context_node p)"
  shows "v_context_text q p st = (graph_text q p, st)"
proof -
  have "\<not> node_isLiteral (context_node p)" using assms by (cases "context_node p") (auto simp: node_test_defs types_agree_def)
  then obtain t where "\<forall>tc. node_toN3 q (context_node p) tc = (t, tc)" using toN3_plain by blast
  then show ?thesis by (simp add: v_context_text_def graph_text_def)
qed

lemma insert_sent:
  assumes "\<not> node_isLiteral (subject s)" "\<not> node_isLiteral (predicate s)" "node_isResource (context_node s)" "node_isValid (object s)"
  shows "v_pattern q s True True st = (fst (statementToConstructGraphPattern q (m_fakeBooleans st) s True True Map.empty), st)"
proof -
  have o: "object_text q fake True (object s) tc = (fst (object_text q fake True (object s) Map.empty), tc)" for fake tc
    using assms(4) by (cases "object s") (auto simp: object_text_def node_test_defs nodeToN3_def lit_is_type.simps lit_type_def)
  show ?thesis using pattern_plain[of s q "m_fakeBooleans st" True "v_types st" True] assms o[of "m_fakeBooleans st" "v_types st"]
    by (simp add: v_pattern_def)
qed


section \<open>Running commands\<close>

definition ran :: "'w \<Rightarrow> 'w virtuoso_model \<Rightarrow> 'w virtuoso_model" where
  "ran w st = st\<lparr>v_world := w, conn_error := NoError, pool_error := NoError\<rparr>"

lemma ran_fields [simp]: "v_world (ran w st) = w" "conn_error (ran w st) = NoError" "m_fakeBooleans (ran w st) = m_fakeBooleans st"
    "m_noStatementSignals (ran w st) = m_noStatementSignals st" "m_supportEmptyGraphs (ran w st) = m_supportEmptyGraphs st"
    "v_types (ran w st) = v_types st" "v_signals (ran w st) = v_signals st" "v_error (ran w st) = v_error st"
    "m_virtuosoVersion (ran w st) = m_virtuosoVersion st"
  by (simp_all add: ran_def)

lemma bind_nothing [simp]: "bind_params q [] = []"
  by (simp add: bind_params_def)

lemma select_row_fills:
  assumes "answers p s"
  shows "fill_template (v_column (subject p) ''s'') (v_column (predicate p) ''p'') (v_column (object p) ''o'') (v_column (context_node p) ''g'') p
     (bs_of (select_row p s)) = s"
  using assms
  by (cases "node_isValid (context_node p)"; cases "node_isValid (subject p)"; cases "node_isValid (predicate p)"; cases "node_isValid (object p)")
     (simp_all add: fill_template_def v_column_def value_of_bs_of select_row_def binding_of_def answers_def fits_def
        setContext_def setSubject_def setPredicate_def setObject_def Let_def)

lemma select_row_bindings: "row_bindings (select_vars p) (map snd (select_row p s)) = bs_of (select_row p s)"
proof -
  have "select_vars p = map fst (select_row p s)" by (simp add: select_vars_def select_row_def binding_of_def)
  then show ?thesis by (simp add: row_bindings_def zip_map_fst_snd)
qed

lemma select_not_special: "\<not> special_names (select_vars p)"
  by (simp add: special_names_def select_vars_def select_row_def binding_of_def)

lemma bool_lit: "lit_toInt q (lit_int i) = i \<Longrightarrow> (LiteralNode (lit_int i) = LiteralNode (lit_int j)) = (i = j)"
  by (simp add: lit_int_def)

text \<open>QVariant::toInt of an int.\<close>

definition qt_int_ok :: "qt \<Rightarrow> bool" where
  "qt_int_ok q \<longleftrightarrow> (\<forall>i. fst (variant_toInt q (VInt i)) = i)"

lemma qt_int_lit: "qt_int_ok q \<Longrightarrow> lit_toInt q (lit_int i) = i"
  by (simp add: qt_int_ok_def lit_toInt_def lit_int_def)

context virtuoso_server
begin

lemma command_runs:
  assumes "c \<in> understood" "m_fakeBooleans st = fake" "all_showable showable (contents (v_world st))" "bind_params q params = command_params q c"
  shows "\<exists>w h. (\<exists>st1. v_connection V st = (True, st1) \<and> m_supportEmptyGraphs st1 = m_supportEmptyGraphs st \<and>
        v_execute q V (command_text q fake c) params st1 = (Some h, ran w st)) \<and>
     contents w = command_effect q c (contents (v_world st)) \<and> answer_shown q (cols h) (left h) (command_answer q c (contents (v_world st)))"
proof -
  obtain w1 where w1: "v_connect V (v_world st) = (None, w1)" "contents w1 = contents (v_world st)" using connects by blast
  then obtain h w2 where w2: "v_exec V (command_text q fake c) (command_params q c) w1 = (Inr h, w2)"
      "contents w2 = command_effect q c (contents (v_world st))" "answer_shown q (cols h) (left h) (command_answer q c (contents (v_world st)))"
    using carries_out[OF assms(1), of w1] assms(3) by (auto simp: all_showable_def)
  show ?thesis
    using w1 w2 by (intro exI[of _ w2] exI[of _ h]) (simp add: v_connection_def v_execute_def statement_handle assms(4) ran_def)
qed

lemma query_runs:
  assumes "c \<in> understood" "m_fakeBooleans st = fake" "all_showable showable (contents (v_world st))" "command_params q c = []"
    and "command_text q fake c = ''sparql '' @ text"
  shows "\<exists>w h. sparqlQuery q V text st = (Some (new_virtuoso_result q (v_odbc V) (v_turtle V) (memory_noise V) (m_supportEmptyGraphs st)
        (new_query_result h)), (ran w st)\<lparr>v_error := NoError\<rparr>) \<and>
     contents w = command_effect q c (contents (v_world st)) \<and> answer_shown q (cols h) (left h) (command_answer q c (contents (v_world st)))"
proof -
  obtain w h st1 where "v_connection V st = (True, st1)" "m_supportEmptyGraphs st1 = m_supportEmptyGraphs st"
      "v_execute q V (command_text q fake c) [] st1 = (Some h, ran w st)"
      "contents w = command_effect q c (contents (v_world st))" "answer_shown q (cols h) (left h) (command_answer q c (contents (v_world st)))"
    using command_runs[OF assms(1-3), of "[]"] assms(4) by auto
  then show ?thesis by (intro exI[of _ w] exI[of _ h]) (simp add: sparqlQuery_def sqlQuery_def assms(5) v_setError_def)
qed

lemma update_runs:
  assumes "c \<in> understood" "m_fakeBooleans st = fake" "all_showable showable (contents (v_world st))" "bind_params q params = command_params q c"
    and "command_text q fake c = text"
  shows "\<exists>w st1. v_connection V st = (True, st1) \<and> executeCommand q V text params st1 = (ErrorNone, ran w st) \<and>
     contents w = command_effect q c (contents (v_world st))"
  using command_runs[OF assms(1-4)] by (fastforce simp: executeCommand_def assms(5))

text \<open>Rows as statements.\<close>

lemma listed_statements:
  assumes "qt_url_ok q" "qt_utf8_ok q"
    and "answer_shown q (cols h) (left h) (select_vars p, map (\<lambda>s. map snd (select_row p s)) (filter (listed q p) g))"
  shows "result_statements q V p (Some (new_virtuoso_result q (v_odbc V) (v_turtle V) (memory_noise V) eg (new_query_result h))) = Some (filter (listed q p) g)"
proof -
  let ?b = "new_virtuoso_result q (v_odbc V) (v_turtle V) (memory_noise V) eg (new_query_result h)"
  let ?f = "fill_template (v_column (subject p) ''s'') (v_column (predicate p) ''p'') (v_column (object p) ''o'') (v_column (context_node p) ''g'') p"
  have cols: "names_fit (cols h)" "map name_of (cols h) = select_vars p"
      "rows_shown q (map name_of (cols h)) (left h) (map (\<lambda>s. map snd (select_row p s)) (filter (listed q p) g))"
    using assms(3) by (auto simp: answer_shown_def)
  have rows: "map (row_bindings (map name_of (cols h))) (map (\<lambda>s. map snd (select_row p s)) (filter (listed q p) g))
      = map (\<lambda>s. bs_of (select_row p s)) (filter (listed q p) g)"
    by (simp add: cols(2) select_row_bindings)
  have plain_names: "\<not> special_names (map name_of (cols h))" by (simp add: cols(2) select_not_special)
  have at: "vr_at q left ?b None (map (\<lambda>s. bs_of (select_row p s)) (filter (listed q p) g))"
    using binding_result[OF cols(1) plain_names assms(1,2) cols(3), of "v_turtle V" "memory_noise V" eg] unfolding rows .
  have "map ?f (map (\<lambda>s. bs_of (select_row p s)) (filter (listed q p) g)) = filter (listed q p) g"
    by (auto simp: listed_def select_row_fills intro!: map_idI)
  then show ?thesis
    using adapter_all[where d = empty_statement and e = NoError, OF query_adapter[where f = ?f and d = "?f empty_bindings", OF result_delivers] at]
    by (auto simp: result_statements_def constructed_def iterate_result_def it_isValid_def new_iterator_def)
qed

lemma listed_nodes:
  assumes "qt_url_ok q" "qt_utf8_ok q" "answer_shown q (cols h) (left h) ([''g''], map (\<lambda>n. [n]) ns)"
  shows "column_nodes q V (Some (new_virtuoso_result q (v_odbc V) (v_turtle V) (memory_noise V) eg (new_query_result h))) = Some ns"
proof -
  let ?b = "new_virtuoso_result q (v_odbc V) (v_turtle V) (memory_noise V) eg (new_query_result h)"
  have cols: "names_fit (cols h)" "map name_of (cols h) = [''g'']" "rows_shown q (map name_of (cols h)) (left h) (map (\<lambda>n. [n]) ns)"
    using assms(3) by (auto simp: answer_shown_def)
  have at: "vr_at q left ?b None (map (\<lambda>n. bs_of [(''g'', n)]) ns)"
    using binding_result[OF cols(1) _ assms(1,2) cols(3), of "v_turtle V" "memory_noise V" eg] cols(2)
    by (simp add: special_names_def row_bindings_def o_def)
  have "value_at (bs_of [(''g'', n)]) 0 = n" for n by (simp add: bs_of_def bs_insert_def empty_bindings_def value_at_def)
  then show ?thesis
    using adapter_all[where d = EmptyNode and e = NoError, OF query_adapter[where f = "\<lambda>r. value_at r 0" and d = EmptyNode, OF result_delivers] at]
    by (auto simp: o_def column_nodes_def bindings_by_offset_def iterate_result_def it_isValid_def new_iterator_def)
qed

lemma asked_value:
  assumes "qt_url_ok q" "qt_utf8_ok q" "qt_int_ok q" "answer_shown q (cols h) (left h) ([''__ASK_RETVAL''], bool_rows v)"
  shows "vr_boolValue (new_virtuoso_result q (v_odbc V) t noise eg (new_query_result h)) = v"
proof -
  have cols: "names_fit (cols h)" "map name_of (cols h) = [''__ASK_RETVAL'']" and rows: "rows_shown q [''__ASK_RETVAL''] (left h) (bool_rows v)"
    using assms(4) by (auto simp: answer_shown_def)
  have "left h = [] \<and> \<not> v \<or> (\<exists>c i. left h = [[c]] \<and> cell_small c \<and> represents q c (LiteralNode (lit_int i)) \<and> lit_toInt q (lit_int i) = i \<and> (v \<longleftrightarrow> i \<noteq> 0))"
    using rows qt_int_lit[OF assms(3)]
    by (cases v) (auto simp: rows_shown_def bool_rows_def list_all2_Cons2 intro!: exI[of _ 1])
  then show ?thesis by (rule ask_result[OF cols assms(1,2)])
qed

end


section \<open>The calls of the model\<close>

definition stored :: "qt \<Rightarrow> statement \<Rightarrow> statement" where
  "stored q s = (if node_isValid (context_node s) then s else in_default_graph q s)"

definition select_command :: "statement \<Rightarrow> command" where
  "select_command p = (if node_isValid (context_node p) then SelectIn p else SelectAny p)"

definition ask_command :: "statement \<Rightarrow> command" where
  "ask_command p = (if node_isValid (context_node p) then AskIn p else AskAny p)"

definition remove_command :: "statement \<Rightarrow> command" where
  "remove_command p = (if \<not> node_isValid (subject p) \<and> \<not> node_isValid (predicate p) \<and> \<not> node_isValid (object p) then ClearGraph p else DeleteWhere p)"

lemma default_graph_valid: "qt_url_ok q \<Longrightarrow> default_node q = ResourceNode (QUrl defaultGraphString)"
proof -
  assume q: "qt_url_ok q"
  have "url_fromEncodedStrict q (encoded (QUrl defaultGraphString)) = QUrl defaultGraphString" using q unfolding qt_url_ok_def by blast
  then show ?thesis by (simp add: default_node_def defaultGraph_def node_of_url_def url_isEmpty_def) (simp add: defaultGraphString_def)
qed

lemma virtual_graph_valid: "qt_url_ok q \<Longrightarrow> virtual_node q = ResourceNode (openlinkVirtualGraph q)"
proof -
  assume q: "qt_url_ok q"
  have "url_fromEncodedStrict q (encoded (QUrl openlinkVirtualGraphString)) = QUrl openlinkVirtualGraphString" using q unfolding qt_url_ok_def by blast
  then show ?thesis by (simp add: virtual_node_def openlinkVirtualGraph_def node_of_url_def url_isEmpty_def) (simp add: openlinkVirtualGraphString_def)
qed

lemma stored_parts:
  "subject (stored q s) = subject s" "predicate (stored q s) = predicate s" "object (stored q s) = object s"
  "context_node (stored q s) = (if node_isValid (context_node s) then context_node s else default_node q)"
  by (simp_all add: stored_def in_default_graph_def setContext_def default_node_def)

lemma stored_context: "qt_url_ok q \<Longrightarrow> stmt_isValid s \<Longrightarrow> node_isResource (context_node (stored q s)) \<and> node_isValid (context_node (stored q s))"
  by (auto simp: stored_parts default_graph_valid node_test_defs stmt_isValid_def Let_def split: if_splits)

lemma stored_params: "qt_url_ok q \<Longrightarrow> stmt_isValid s \<Longrightarrow> param_nodes q (stored q s) = param_nodes q s"
  using stored_context[of q s] default_graph_valid[of q]
  by (auto simp: param_nodes_def stored_parts default_node_def node_test_defs stmt_isValid_def Let_def split: if_splits)

lemma with_graph_stored: "m_supportEmptyGraphs st \<or> node_isValid (context_node s) \<Longrightarrow> with_graph q m s st = Inl (stored q s)"
  by (auto simp: with_graph_def stored_def)

lemma ran_error: "v_setError NoError (ran w st) = (ran w st)\<lparr>v_error := NoError\<rparr>"
  by (simp add: v_setError_def)

lemma no_error_code [simp]: "convertErrorCode (err_code NoError) = ErrorNone" "convertErrorCode 0 = ErrorNone"
  by (simp_all add: convertErrorCode_def)

definition signalled :: "signal list \<Rightarrow> 'w virtuoso_model \<Rightarrow> 'w virtuoso_model \<Rightarrow> bool" where
  "signalled ss st st' \<longleftrightarrow> v_signals st' = v_signals st @ (if m_noStatementSignals st then [] else ss)"

context virtuoso_server
begin

lemma list_runs:
  assumes "qt_url_ok q" "qt_utf8_ok q" "types_agree q p st" "select_command p \<in> understood"
    and "m_fakeBooleans st = fake" "all_showable showable (contents (v_world st))"
  shows "\<exists>st'. vm_listStatements q V p st = (Some (filter (listed q p) (contents (v_world st))), st') \<and> v_error st' = NoError \<and>
    contents (v_world st') = contents (v_world st)"
proof (cases "node_isValid (context_node p)")
  case True
  obtain tc where tc: "v_pattern q p False False st = (v_text q (m_fakeBooleans st) p False, st\<lparr>v_types := tc\<rparr>)" using command_pattern_sent[OF assms(3)] by blast
  obtain w h where "sparqlQuery q V (q_args ''select * from %1 where { %2 . }'' [graph_text q p, v_text q fake p False]) (st\<lparr>v_types := tc\<rparr>) =
      (Some (new_virtuoso_result q (v_odbc V) (v_turtle V) (memory_noise V) (m_supportEmptyGraphs st) (new_query_result h)),
       (ran w (st\<lparr>v_types := tc\<rparr>))\<lparr>v_error := NoError\<rparr>)" "contents w = contents (v_world st)"
      "answer_shown q (cols h) (left h) (select_vars p, map (\<lambda>s. map snd (select_row p s)) (filter (listed q p) (contents (v_world st))))"
    using query_runs[of "SelectIn p" "st\<lparr>v_types := tc\<rparr>"] assms(4-6) True by (auto simp: select_command_def)
  then show ?thesis using True graph_sent[OF assms(3) True] tc assms(5) listed_statements[OF assms(1,2)] by (simp add: vm_listStatements_def)
next
  case False
  obtain tc where tc: "v_pattern q p True False st = (v_text q (m_fakeBooleans st) p True, st\<lparr>v_types := tc\<rparr>)" using command_pattern_sent[OF assms(3)] by blast
  obtain w h where "sparqlQuery q V (q_args ''select * where { %1 . FILTER(?g != <%2>) . }'' [v_text q fake p True, openlinkVirtualGraphString]) (st\<lparr>v_types := tc\<rparr>) =
      (Some (new_virtuoso_result q (v_odbc V) (v_turtle V) (memory_noise V) (m_supportEmptyGraphs st) (new_query_result h)),
       (ran w (st\<lparr>v_types := tc\<rparr>))\<lparr>v_error := NoError\<rparr>)" "contents w = contents (v_world st)"
      "answer_shown q (cols h) (left h) (select_vars p, map (\<lambda>s. map snd (select_row p s)) (filter (listed q p) (contents (v_world st))))"
    using query_runs[of "SelectAny p" "st\<lparr>v_types := tc\<rparr>"] assms(4-6) False by (auto simp: select_command_def)
  then show ?thesis using False tc assms(5) listed_statements[OF assms(1,2)] by (simp add: vm_listStatements_def)
qed

lemma ask_runs:
  assumes "qt_url_ok q" "qt_utf8_ok q" "qt_int_ok q" "types_agree q p st" "ask_command p \<in> understood"
    and "m_fakeBooleans st = fake" "all_showable showable (contents (v_world st))"
  shows "\<exists>st'. vm_containsAnyStatement q V p st = (list_ex (answers p) (contents (v_world st)), st') \<and> v_error st' = NoError \<and>
    contents (v_world st') = contents (v_world st)"
proof (cases "node_isValid (context_node p)")
  case True
  obtain tc where tc: "v_pattern q p False False st = (v_text q (m_fakeBooleans st) p False, st\<lparr>v_types := tc\<rparr>)" using command_pattern_sent[OF assms(4)] by blast
  obtain w h where "sparqlQuery q V (q_args ''ask from %1 where { %2 . }'' [graph_text q p, v_text q fake p False]) (st\<lparr>v_types := tc\<rparr>) =
      (Some (new_virtuoso_result q (v_odbc V) (v_turtle V) (memory_noise V) (m_supportEmptyGraphs st) (new_query_result h)),
       (ran w (st\<lparr>v_types := tc\<rparr>))\<lparr>v_error := NoError\<rparr>)" "contents w = contents (v_world st)"
      "answer_shown q (cols h) (left h) ([''__ASK_RETVAL''], bool_rows (list_ex (answers p) (contents (v_world st))))"
    using query_runs[of "AskIn p" "st\<lparr>v_types := tc\<rparr>"] assms(5-7) True by (auto simp: ask_command_def)
  then show ?thesis using True graph_sent[OF assms(4) True] tc assms(6) asked_value[OF assms(1-3)] by (simp add: vm_containsAnyStatement_def vm_boolValue_def)
next
  case False
  obtain tc where tc: "v_pattern q p True False st = (v_text q (m_fakeBooleans st) p True, st\<lparr>v_types := tc\<rparr>)" using command_pattern_sent[OF assms(4)] by blast
  obtain w h where "sparqlQuery q V (q_arg ''ask where { %1 . }'' (v_text q fake p True)) (st\<lparr>v_types := tc\<rparr>) =
      (Some (new_virtuoso_result q (v_odbc V) (v_turtle V) (memory_noise V) (m_supportEmptyGraphs st) (new_query_result h)),
       (ran w (st\<lparr>v_types := tc\<rparr>))\<lparr>v_error := NoError\<rparr>)" "contents w = contents (v_world st)"
      "answer_shown q (cols h) (left h) ([''__ASK_RETVAL''], bool_rows (list_ex (answers p) (contents (v_world st))))"
    using query_runs[of "AskAny p" "st\<lparr>v_types := tc\<rparr>"] assms(5-7) False by (auto simp: ask_command_def)
  then show ?thesis using False tc assms(6) asked_value[OF assms(1-3)] by (simp add: vm_containsAnyStatement_def vm_boolValue_def)
qed

lemma contains_runs:
  assumes "stmt_isValid s" "m_supportEmptyGraphs st \<or> node_isValid (context_node s)"
  shows "vm_containsStatement q V s st = vm_containsAnyStatement q V (stored q s) st"
  using assms by (simp add: vm_containsStatement_def with_graph_stored)

lemma add_runs:
  assumes "qt_url_ok q" "stmt_isValid s" "InsertStatement (stored q s) \<in> understood" "m_supportEmptyGraphs st \<or> node_isValid (context_node s)"
    and "m_fakeBooleans st = fake" "all_showable showable (contents (v_world st))"
  shows "\<exists>st'. vm_addStatement q V s st = (ErrorNone, st') \<and> v_error st' = NoError \<and> signalled [StatementAdded s, StatementsAdded] st st' \<and>
    contents (v_world st') = graph_addStatement q (stored q s) (contents (v_world st))"
proof -
  have c: "node_isResource (context_node (stored q s))" using stored_context[OF assms(1,2)] by blast
  have t: "v_pattern q (stored q s) True True st = (fst (statementToConstructGraphPattern q (m_fakeBooleans st) (stored q s) True True Map.empty), st)"
    using assms(2) c by (intro insert_sent) (auto simp: stored_parts stmt_isValid_def node_test_defs Let_def split: if_splits)
  obtain w st1 where "v_connection V st = (True, st1)" "contents w = graph_addStatement q (stored q s) (contents (v_world st))"
      "executeCommand q V (''sparql insert into '' @ fst (statementToConstructGraphPattern q fake (stored q s) True True Map.empty)) (param_nodes q s) st1 = (ErrorNone, ran w st)"
    using update_runs[OF assms(3,5,6), of "param_nodes q s"] stored_params[OF assms(1,2)] by auto
  then show ?thesis using assms(2,5) t
    by (simp add: vm_addStatement_def with_graph_stored[OF assms(4)] ran_error v_emit_def signalled_def)
qed

lemma remove_runs:
  assumes "qt_url_ok q" "stmt_isValid s" "DeleteStatement (stored q s) \<in> understood" "m_supportEmptyGraphs st \<or> node_isValid (context_node s)"
    and "types_agree q (stored q s) st" "\<not> in_virtual_graph q s" "m_fakeBooleans st = fake" "all_showable showable (contents (v_world st))"
  shows "\<exists>st'. vm_removeStatement q V s st = (ErrorNone, st') \<and> v_error st' = NoError \<and> signalled [StatementRemoved s, StatementsRemoved] st st' \<and>
    contents (v_world st') = graph_removeStatement q (stored q s) (contents (v_world st))"
proof -
  obtain tc where tc: "v_pattern q (stored q s) True False st = (v_text q (m_fakeBooleans st) (stored q s) True, st\<lparr>v_types := tc\<rparr>)"
    using command_pattern_sent[OF assms(5)] by blast
  obtain w st1 where "v_connection V (st\<lparr>v_types := tc\<rparr>) = (True, st1)" "contents w = graph_removeStatement q (stored q s) (contents (v_world st))"
      "executeCommand q V (''sparql '' @ q_arg ''delete from %1'' (v_text q fake (stored q s) True)) [] st1 = (ErrorNone, ran w (st\<lparr>v_types := tc\<rparr>))"
    using update_runs[OF assms(3), of "st\<lparr>v_types := tc\<rparr>" "[]"] assms(7,8) by auto
  then show ?thesis using assms(2,6,7) tc
    by (simp add: vm_removeStatement_def with_graph_stored[OF assms(4)] v_setError_def v_emit_def signalled_def v_code_def kept_error_def)
qed

lemma remove_all_runs:
  assumes "c \<in> understood" "command_params q c = []" "command_text q fake c = ''sparql '' @ text"
    and "m_supportEmptyGraphs st \<or> m_noStatementSignals st \<or> \<not> node_eq q (context_node s) (default_node q)"
    and "m_fakeBooleans st = fake" "all_showable showable (contents (v_world st))"
  shows "\<exists>st'. remove_all_command q V text s st = (ErrorNone, st') \<and> v_error st' = NoError \<and>
    contents (v_world st') = command_effect q c (contents (v_world st)) \<and> m_fakeBooleans st' = fake \<and> v_types st' = v_types st \<and>
    m_supportEmptyGraphs st' = m_supportEmptyGraphs st \<and> m_noStatementSignals st' = m_noStatementSignals st"
proof -
  obtain w st1 where "v_connection V st = (True, st1)" "contents w = command_effect q c (contents (v_world st))"
      "executeCommand q V (''sparql '' @ text) [] st1 = (ErrorNone, ran w st)"
    using update_runs[OF assms(1,5,6), of "[]" "''sparql '' @ text"] assms(2,3) by auto
  then show ?thesis using assms(4,5)
    by (auto simp: remove_all_command_def default_node_def v_setError_def v_emit_def v_code_def kept_error_def Let_def)
qed

end


text \<open>What stays the same through a call.\<close>

definition same_settings :: "'w virtuoso_model \<Rightarrow> 'w virtuoso_model \<Rightarrow> bool" where
  "same_settings st st' \<longleftrightarrow> m_fakeBooleans st' = m_fakeBooleans st \<and> m_supportEmptyGraphs st' = m_supportEmptyGraphs st \<and>
     m_noStatementSignals st' = m_noStatementSignals st"

lemma same_settings_trans: "same_settings a b \<Longrightarrow> same_settings b c \<Longrightarrow> same_settings a c"
  by (simp add: same_settings_def)

lemma same_settings_types [simp]: "same_settings st (st\<lparr>v_types := tc\<rparr>)" "same_settings st (ran w st)" "same_settings st (st\<lparr>v_error := e\<rparr>)"
  by (simp_all add: same_settings_def)

lemma all_showable_filter: "all_showable f g \<Longrightarrow> all_showable f (filter P g)"
  by (simp add: all_showable_def)

context virtuoso_server
begin

lemma remove_in_graph_runs:
  assumes "node_isValid (context_node p)" "types_agree q p st" "remove_command p \<in> understood" "\<not> in_virtual_graph q p"
    and "m_supportEmptyGraphs st" "m_fakeBooleans st = fake" "all_showable showable (contents (v_world st))"
  shows "\<exists>st'. remove_in_graph q V p st = (ErrorNone, st') \<and> v_error st' = NoError \<and> same_settings st st' \<and> types_agree q p st' \<and>
    contents (v_world st') = filter (\<lambda>s. \<not> answers p s) (contents (v_world st))"
proof (cases "\<not> node_isValid (subject p) \<and> \<not> node_isValid (predicate p) \<and> \<not> node_isValid (object p)")
  case True
  then have c: "ClearGraph p \<in> understood" using assms(3) by (simp add: remove_command_def)
  obtain st' where "remove_all_command q V (q_arg ''clear graph %1'' (graph_text q p)) p st = (ErrorNone, st')" "v_error st' = NoError"
      "contents (v_world st') = filter (\<lambda>s. \<not> answers p s) (contents (v_world st))" "m_fakeBooleans st' = fake" "v_types st' = v_types st"
      "m_supportEmptyGraphs st' = m_supportEmptyGraphs st" "m_noStatementSignals st' = m_noStatementSignals st"
    using remove_all_runs[OF c, of "q_arg ''clear graph %1'' (graph_text q p)" st p] assms(5-7) by auto
  then show ?thesis using True assms(2,4,6) graph_sent[OF assms(2,1)]
    by (simp add: remove_in_graph_def same_settings_def types_agree_def)
next
  case False
  then have c: "DeleteWhere p \<in> understood" using assms(3) by (auto simp: remove_command_def)
  obtain tc where tc: "v_pattern q p False False st = (v_text q fake p False, st\<lparr>v_types := tc\<rparr>)" "types_agree q p (st\<lparr>v_types := tc\<rparr>)"
    using command_pattern_sent[OF assms(2)] assms(6) by blast
  obtain td where td: "v_pattern q p True False (st\<lparr>v_types := tc\<rparr>) = (v_text q fake p True, st\<lparr>v_types := td\<rparr>)" "types_agree q p (st\<lparr>v_types := td\<rparr>)"
    using command_pattern_sent[OF tc(2), of True] assms(6) by auto
  let ?text = "q_args ''delete from %1 { %2 } where { %3 }'' [graph_text q p, v_text q fake p False, v_text q fake p True]"
  obtain st' where "remove_all_command q V ?text p (st\<lparr>v_types := td\<rparr>) = (ErrorNone, st')" "v_error st' = NoError"
      "contents (v_world st') = filter (\<lambda>s. \<not> answers p s) (contents (v_world st))" "m_fakeBooleans st' = fake" "v_types st' = td"
      "m_supportEmptyGraphs st' = m_supportEmptyGraphs st" "m_noStatementSignals st' = m_noStatementSignals st"
    using remove_all_runs[OF c, of ?text "st\<lparr>v_types := td\<rparr>" p] assms(5-7) by auto
  then show ?thesis using False assms(4,6) graph_sent[OF assms(2,1)] tc(1) td
    by (auto simp: remove_in_graph_def same_settings_def types_agree_def)
qed

lemma remove_graphs_runs:
  assumes "qt_url_ok q" "\<forall>n\<in>set ns. node_isResource n \<and> n \<noteq> virtual_node q \<and> remove_command (setContext n p) \<in> understood" "\<not> node_isValid (context_node p)"
    and "types_agree q p st" "m_supportEmptyGraphs st" "m_fakeBooleans st = fake" "all_showable showable (contents (v_world st))"
  shows "\<exists>st'. remove_graphs q V p ns st = (ErrorNone, st') \<and>
    contents (v_world st') = filter (\<lambda>s. \<not> (\<exists>n\<in>set ns. answers (setContext n p) s)) (contents (v_world st))"
  using assms
proof (induction ns arbitrary: st)
  case Nil
  then show ?case by simp
next
  case (Cons n ns)
  let ?p = "setContext n p"
  have n: "node_isResource n" "n \<noteq> virtual_node q" "remove_command ?p \<in> understood" using Cons.prems(2) by simp_all
  then have v: "node_isValid n" by (cases n) (simp_all add: node_test_defs)
  have agree: "types_agree q ?p st" using Cons.prems(4) n(1) by (simp add: types_agree_def setContext_def)
  have "\<not> in_virtual_graph q ?p"
    using n(1,2) virtual_graph_valid[OF Cons.prems(1)] by (cases n) (auto simp: in_virtual_graph_def setContext_def node_test_defs)
  then obtain st1 where st1: "remove_in_graph q V ?p st = (ErrorNone, st1)" "same_settings st st1" "types_agree q ?p st1"
      "contents (v_world st1) = filter (\<lambda>s. \<not> answers ?p s) (contents (v_world st))"
    using remove_in_graph_runs[OF _ agree n(3)] v Cons.prems(5-7) by (auto simp: setContext_def)
  have "types_agree q p st1" using st1(2,3) Cons.prems(3,4) by (auto simp: types_agree_def same_settings_def setContext_def)
  moreover have "all_showable showable (contents (v_world st1))" using Cons.prems(7) by (simp add: st1(4) all_showable_filter)
  ultimately obtain st2 where "remove_graphs q V p ns st1 = (ErrorNone, st2)"
      "contents (v_world st2) = filter (\<lambda>s. \<not> (\<exists>n\<in>set ns. answers (setContext n p) s)) (contents (v_world st1))"
    using Cons.IH[of st1] Cons.prems(1,2,3,5,6) st1(2) by (auto simp: same_settings_def)
  moreover have "with_graph q m ?p st = Inl ?p" for m using v by (simp add: with_graph_def setContext_def)
  ultimately show ?case using st1(1,4) by (auto intro!: filter_cong)
qed

text \<open>A server of version 6.1.5: the virtual graph is not left out.\<close>

lemma delete_all_runs:
  assumes "\<not> node_isValid (context_node p)" "new_enough (m_virtuosoVersion st)" "types_agree q p st" "DeleteAll p \<in> understood"
    and "m_supportEmptyGraphs st" "m_fakeBooleans st = fake" "all_showable showable (contents (v_world st))"
  shows "\<exists>st'. vm_removeAllStatements q V p st = (ErrorNone, st') \<and> contents (v_world st') = filter (\<lambda>s. \<not> answers p s) (contents (v_world st))"
proof -
  obtain tc where tc: "v_pattern q p True False st = (v_text q fake p True, st\<lparr>v_types := tc\<rparr>)" using command_pattern_sent[OF assms(3)] assms(6) by blast
  obtain st' where "remove_all_command q V (q_arg ''delete { %1 } where { %1 }'' (v_text q fake p True)) p (st\<lparr>v_types := tc\<rparr>) = (ErrorNone, st')"
      "contents (v_world st') = filter (\<lambda>s. \<not> answers p s) (contents (v_world st))"
    using remove_all_runs[OF assms(4), of "q_arg ''delete { %1 } where { %1 }'' (v_text q fake p True)" "st\<lparr>v_types := tc\<rparr>" p] assms(5-7) by auto
  then show ?thesis using assms(1,2) tc by (simp add: vm_removeAllStatements_def)
qed

lemma remove_by_graphs_runs:
  assumes "qt_url_ok q" "qt_utf8_ok q" "\<not> node_isValid (context_node p)" "\<not> new_enough (m_virtuosoVersion st)" "types_agree q p st"
    and "GraphsOf p \<in> understood" "\<forall>s\<in>set (contents (v_world st)). listed q p s \<longrightarrow> node_isResource (context_node s) \<and> remove_command (setContext (context_node s) p) \<in> understood"
    and "m_supportEmptyGraphs st" "m_fakeBooleans st = fake" "all_showable showable (contents (v_world st))"
  shows "\<exists>st'. vm_removeAllStatements q V p st = (ErrorNone, st') \<and> contents (v_world st') = filter (\<lambda>s. \<not> listed q p s) (contents (v_world st))"
proof -
  let ?g = "contents (v_world st)" and ?ns = "graphs_of (listed q p) (contents (v_world st))"
  obtain tc where tc: "v_pattern q p True False st = (v_text q fake p True, st\<lparr>v_types := tc\<rparr>)" "types_agree q p (st\<lparr>v_types := tc\<rparr>)"
    using command_pattern_sent[OF assms(5)] assms(9) by blast
  obtain w h where w: "sparqlQuery q V (q_args graphs_query [v_text q fake p True, openlinkVirtualGraphString]) (st\<lparr>v_types := tc\<rparr>) =
      (Some (new_virtuoso_result q (v_odbc V) (v_turtle V) (memory_noise V) (m_supportEmptyGraphs st) (new_query_result h)),
       (ran w (st\<lparr>v_types := tc\<rparr>))\<lparr>v_error := NoError\<rparr>)" "contents w = ?g" "answer_shown q (cols h) (left h) ([''g''], map (\<lambda>n. [n]) ?ns)"
    using query_runs[OF assms(6), of "st\<lparr>v_types := tc\<rparr>"] assms(9,10) by auto
  have ns: "\<forall>n\<in>set ?ns. node_isResource n \<and> n \<noteq> virtual_node q \<and> remove_command (setContext n p) \<in> understood"
    using assms(3,7) by (auto simp: graphs_of_def listed_def)
  obtain st' where st': "remove_graphs q V p ?ns ((ran w (st\<lparr>v_types := tc\<rparr>))\<lparr>v_error := NoError\<rparr>) = (ErrorNone, st')"
      "contents (v_world st') = filter (\<lambda>s. \<not> (\<exists>n\<in>set ?ns. answers (setContext n p) s)) ?g"
    using remove_graphs_runs[OF assms(1) ns assms(3), of "(ran w (st\<lparr>v_types := tc\<rparr>))\<lparr>v_error := NoError\<rparr>"] tc(2) assms(8-10) w(2)
    by (auto simp: types_agree_def)
  have "(\<exists>n\<in>set ?ns. answers (setContext n p) s) \<longleftrightarrow> listed q p s" if s: "s \<in> set ?g" for s
    using s assms(3) ns by (auto simp: graphs_of_def listed_def answers_def fits_def setContext_def)
  then have "filter (\<lambda>s. \<not> (\<exists>n\<in>set ?ns. answers (setContext n p) s)) ?g = filter (\<lambda>s. \<not> listed q p s) ?g"
    by (intro filter_cong) auto
  then show ?thesis using assms(3,4) tc(1) w(1) st' listed_nodes[OF assms(1,2) w(3)] by (simp add: vm_removeAllStatements_def)
qed

end


definition visible :: "qt \<Rightarrow> statement \<Rightarrow> bool" where
  "visible q s \<longleftrightarrow> context_node s \<noteq> virtual_node q"

context virtuoso_server
begin

lemma single_value:
  assumes "qt_url_ok q" "qt_utf8_ok q" "answer_shown q (cols h) (left h) ([''callret-0''], [[n]])"
  shows "\<exists>b r. new_virtuoso_result q (v_odbc V) t noise eg (new_query_result h) = b \<and> m_resultType b = MethodCallResult \<and>
     m_methodCallResultIterated b = False \<and> m_queryResult b = Some r \<and> vr_names b = [''callret-0''] \<and> bindingCache b = [n] \<and> bindingCachedFlags b = [True]"
proof -
  let ?r = "empty_columns [''callret-0''] h (map snd (cols h))"
  have cols: "names_fit (cols h)" "map name_of (cols h) = [''callret-0'']" "\<forall>c\<in>set (cols h). snd c \<notin> {- 1, - 4, - 10}"
      "rows_shown q [''callret-0''] (left h) [[n]]"
    using assms(3) by (auto simp: answer_shown_def)
  obtain c where c: "left h = [[c]]" "represents q c n" "cell_small c"
    using cols(4) by (auto simp: rows_shown_def list_all2_Cons2)
  obtain h1 where h1: "sqlFetch (v_odbc V) h = (FetchedRow, h1)" "at h1 = [c]" "reads h1 = (\<lambda>_. 0)" using fetch_row[OF c(1)] by blast
  have "\<exists>h'. getData q (v_odbc V) (Suc 0) (?r\<lparr>hstmt := h1\<rparr>) = (cell_node q (at (hstmt (?r\<lparr>hstmt := h1\<rparr>)) ! 0), ?r\<lparr>hstmt := h1\<rparr>\<lparr>hstmt := h', qr_error := NoError\<rparr>) \<and>
      same_row cols at left (hstmt (?r\<lparr>hstmt := h1\<rparr>)) h' \<and> (\<forall>i. i \<noteq> Suc 0 \<longrightarrow> reads h' i = reads (hstmt (?r\<lparr>hstmt := h1\<rparr>)) i)"
    using h1 represented_readable[OF c(2,3)] by (intro get_node) auto
  then obtain h2 where g: "getData q (v_odbc V) (Suc 0) (?r\<lparr>hstmt := h1\<rparr>) = (n, ?r\<lparr>hstmt := h2\<rparr>)"
    using h1(2) cell_node_represents[OF assms(1,2) c(2)] by (auto simp: empty_columns_def)
  obtain nt where nt: "cols h = [nt]" using cols(2) by (cases "cols h") auto
  have blob: "\<not> isBlob 1 (?r\<lparr>hstmt := h2\<rparr>)" using cols(3) nt by (simp add: isBlob_def empty_columns_def)
  have f: "fetchRow (v_odbc V) ?r = (True, ?r\<lparr>hstmt := h1\<rparr>)" using h1(1) by (simp add: fetchRow_def empty_columns_def)
  have err: "\<not> err_occurred (qr_error (?r\<lparr>hstmt := h2\<rparr>))" by (simp add: empty_columns_def)
  have "new_virtuoso_result q (v_odbc V) t noise eg (new_query_result h) = read_single q (v_odbc V) t (blank_result noise eg [''callret-0''] ?r) ?r"
    by (simp add: new_virtuoso_result_def new_result_columns[OF cols(1)] cols(2) Let_def)
  then show ?thesis using blob err by (simp add: read_single_def f g Let_def blank_result_def)
qed

lemma count_runs:
  assumes "qt_url_ok q" "qt_utf8_ok q" "qt_int_ok q" "CountAll \<in> understood" "m_fakeBooleans st = fake" "all_showable showable (contents (v_world st))"
    and "length (filter (visible q) (contents (v_world st))) < 2 ^ 31"
  shows "fst (vm_statementCount q V st) = Some (int (length (filter (visible q) (contents (v_world st)))))"
proof -
  let ?n = "length (filter (visible q) (contents (v_world st)))"
  obtain w h where w: "sparqlQuery q V (q_arg count_query openlinkVirtualGraphString) st =
      (Some (new_virtuoso_result q (v_odbc V) (v_turtle V) (memory_noise V) (m_supportEmptyGraphs st) (new_query_result h)), (ran w st)\<lparr>v_error := NoError\<rparr>)"
      "answer_shown q (cols h) (left h) ([''callret-0''], [[LiteralNode (lit_int (of_nat ?n))]])"
    using query_runs[OF assms(4-6), of "q_arg count_query openlinkVirtualGraphString"] by (auto simp: visible_def[abs_def])
  have word: "sint (of_nat ?n :: 32 word) = int ?n"
    using assms(7) unfolding signed_of_nat by (subst signed_take_bit_int_eq_self) auto
  show ?thesis
    using single_value[OF assms(1,2) w(2), of "v_turtle V" "memory_noise V" "m_supportEmptyGraphs st"] word qt_int_lit[OF assms(3)]
    by (auto simp: vm_statementCount_def w(1) it_next_def new_iterator_def virtuoso_backend_def vr_next_def vr_binding_at_def vr_isBinding_def vr_bindingCount_def)
qed

lemma contexts_run:
  assumes "qt_url_ok q" "qt_utf8_ok q" "Contexts \<in> understood" "m_fakeBooleans st = fake" "all_showable showable (contents (v_world st))"
  shows "fst (vm_listContexts q V st) = Some (graphs_of (\<lambda>s. context_node s \<noteq> default_node q \<and> visible q s) (contents (v_world st)))"
proof -
  obtain w h where w: "sparqlQuery q V (q_args graph_filter [defaultGraphString, openlinkVirtualGraphString]) st =
      (Some (new_virtuoso_result q (v_odbc V) (v_turtle V) (memory_noise V) (m_supportEmptyGraphs st) (new_query_result h)), (ran w st)\<lparr>v_error := NoError\<rparr>)"
      "answer_shown q (cols h) (left h) ([''g''], map (\<lambda>n. [n]) (graphs_of (\<lambda>s. context_node s \<noteq> default_node q \<and> visible q s) (contents (v_world st))))"
    using query_runs[OF assms(3-5), of "q_args graph_filter [defaultGraphString, openlinkVirtualGraphString]"] by (auto simp: visible_def[abs_def])
  then show ?thesis using listed_nodes[OF assms(1,2) w(2)] by (simp add: vm_listContexts_def)
qed

end

section \<open>A server with a store in memory\<close>

definition cell_of :: "qt \<Rightarrow> node \<Rightarrow> cell" where
  "cell_of q n = (case n of
       EmptyNode \<Rightarrow> mk_cell None 204 0
     | ResourceNode u \<Rightarrow> mk_cell (Some (ascii (encoded u))) VIRTUOSO_DV_STRING 1
     | BlankNode i \<Rightarrow> mk_cell (Some (ascii (''nodeID://'' @ i))) VIRTUOSO_DV_STRING 0
     | LiteralNode (Plain s t) \<Rightarrow>
         if tag_empty t then mk_cell (Some (str_toUtf8 q s)) VIRTUOSO_DV_STRING 2
         else (mk_cell (Some (str_toUtf8 q s)) VIRTUOSO_DV_RDF 0)\<lparr>cell_lang := Some (ascii (tag_toString t))\<rparr>
     | LiteralNode l \<Rightarrow>
         if dataTypeUri l = xsd XsdInt then mk_cell (Some (str_toUtf8 q (lit_toString q l))) VIRTUOSO_DV_LONG_INT 0
         else (mk_cell (Some (str_toUtf8 q (lit_toString q l))) VIRTUOSO_DV_RDF 0)\<lparr>cell_type := Some (ascii (encoded (dataTypeUri l)))\<rparr>)"

definition cell_shows :: "qt \<Rightarrow> node \<Rightarrow> bool" where
  "cell_shows q n \<longleftrightarrow> represents q (cell_of q n) n \<and> cell_small (cell_of q n)"

definition run_command :: "qt \<Rightarrow> command \<Rightarrow> graph \<Rightarrow> memory_rows \<times> graph" where
  "run_command q c g = (case command_answer q c g of (names, rows) \<Rightarrow> (memory_rows_of names (map (map (cell_of q)) rows), command_effect q c g))"

definition memory_exec :: "qt \<Rightarrow> bool \<Rightarrow> command list \<Rightarrow> qstring \<Rightarrow> sql_param list \<Rightarrow> graph \<Rightarrow> (qbytes list + memory_rows) \<times> graph" where
  "memory_exec q fake cs text params g = (case find (\<lambda>c. command_text q fake c = text \<and> command_params q c = params) cs of
     Some c \<Rightarrow> (case run_command q c g of (h, g) \<Rightarrow> (Inr h, g))
   | None \<Rightarrow> (Inl [ascii ''syntax error''], g))"

definition memory_virtuoso :: "qt \<Rightarrow> bool \<Rightarrow> command list \<Rightarrow> (graph, memory_rows) virtuoso" where
  "memory_virtuoso q fake cs = \<lparr> v_connect = (\<lambda>g. (None, g)), v_alloc = (\<lambda>g. None), v_exec = memory_exec q fake cs,
     v_odbc = memory_odbc, v_turtle = None, memory_noise = False \<rparr>"

text \<open>The commands that are told apart by their texts and parameters, and whose counts and values a cell can show.\<close>

definition told_apart :: "qt \<Rightarrow> bool \<Rightarrow> command list \<Rightarrow> command set" where
  "told_apart q fake cs = {c \<in> set cs. (\<forall>c'\<in>set cs. command_text q fake c' = command_text q fake c \<and> command_params q c' = command_params q c \<longrightarrow> c' = c) \<and>
     (\<forall>i. cell_shows q (LiteralNode (lit_int i)))}"

lemma answer_names: "\<forall>n\<in>set (fst (command_answer q c g)). length n < 50 \<and> CHR 0x00 \<notin> set n"
  by (cases c) (auto simp: select_vars_def select_row_def binding_of_def)

lemma answer_shape: "\<forall>row\<in>set (snd (command_answer q c g)). length row = length (fst (command_answer q c g))"
  by (cases c) (auto simp: select_vars_def select_row_def binding_of_def bool_rows_def)

lemma answer_nodes:
  assumes "row \<in> set (snd (command_answer q c g))" "n \<in> set row"
  shows "(\<exists>i. n = LiteralNode (lit_int i)) \<or> (\<exists>s\<in>set g. n \<in> {subject s, predicate s, object s, context_node s})"
  using assms by (cases c) (auto simp: bool_rows_def select_row_def binding_of_def graphs_of_def split: if_splits)

lemma memory_answer_shown:
  assumes "\<forall>i. cell_shows q (LiteralNode (lit_int i))" "\<forall>s\<in>set g. \<forall>n\<in>{subject s, predicate s, object s, context_node s}. cell_shows q n"
  shows "answer_shown q (mr_names (fst (run_command q c g))) (mr_left (fst (run_command q c g))) (command_answer q c g)"
proof -
  obtain names rows where a: "command_answer q c g = (names, rows)" by fastforce
  have ok: "cell_shows q n" if "row \<in> set rows" "n \<in> set row" for row n
    using answer_nodes[of row q c g n] that a assms by auto
  have "list_all2 (list_all2 (represents q)) (map (map (cell_of q)) rows) rows"
    using ok by (auto simp: list.rel_map list.rel_refl_strong cell_shows_def intro!: list.rel_refl_strong)
  moreover have "length row = length names" if "row \<in> set rows" for row using answer_shape[of q c g] that a by auto
  moreover have "map name_of (map (\<lambda>n. (ascii n, 12)) names) = names"
    using answer_names[of q c g] a by (auto simp: name_of_def intro!: map_idI)
  ultimately show ?thesis
    using ok answer_names[of q c g] a
    by (auto simp: answer_shown_def run_command_def memory_rows_of_def names_fit_def rows_shown_def cell_shows_def)
qed

lemma find_told: "c \<in> told_apart q fake cs \<Longrightarrow> find (\<lambda>c'. command_text q fake c' = command_text q fake c \<and> command_params q c' = command_params q c) cs = Some c"
proof -
  assume c: "c \<in> told_apart q fake cs"
  then have "\<exists>x\<in>set cs. command_text q fake x = command_text q fake c \<and> command_params q x = command_params q c" by (auto simp: told_apart_def)
  then obtain c' where c': "find (\<lambda>c'. command_text q fake c' = command_text q fake c \<and> command_params q c' = command_params q c) cs = Some c'"
    by (cases "find (\<lambda>c'. command_text q fake c' = command_text q fake c \<and> command_params q c' = command_params q c) cs") (auto simp: find_None_iff)
  then have "c' \<in> set cs" "command_text q fake c' = command_text q fake c" "command_params q c' = command_params q c" by (auto simp: find_Some_iff)
  then show ?thesis using c c' by (auto simp: told_apart_def)
qed

interpretation memory_virtuoso: virtuoso_server "memory_virtuoso q fake cs" mr_names mr_row mr_left mr_read q fake "\<lambda>g. g"
  "told_apart q fake cs" "cell_shows q" for q fake cs
proof -
  have d: "odbc_driver (v_odbc (memory_virtuoso q fake cs)) mr_names mr_row mr_left mr_read"
    using memory_driver.odbc_driver_axioms by (simp add: memory_virtuoso_def)
  show "virtuoso_server (memory_virtuoso q fake cs) mr_names mr_row mr_left mr_read q fake (\<lambda>g. g) (told_apart q fake cs) (cell_shows q)"
  proof (intro virtuoso_server.intro[OF d] virtuoso_server_axioms.intro, goal_cases)
    case (3 c w)
    then have "\<forall>i. cell_shows q (LiteralNode (lit_int i))" by (simp add: told_apart_def)
    then show ?case using memory_answer_shown[of q w c] find_told[OF 3(1)] 3(2)
      by (cases "run_command q c w") (auto simp: memory_virtuoso_def memory_exec_def run_command_def split: prod.splits)
  qed (simp_all add: memory_virtuoso_def)
qed


section \<open>The model is the store of its server\<close>

definition commands_for :: "qt \<Rightarrow> statement \<Rightarrow> command set" where
  "commands_for q p = {select_command p, ask_command p, ask_command (stored q p), InsertStatement (stored q p), DeleteStatement (stored q p),
     if node_isValid (context_node p) then remove_command p else DeleteAll p}"

lemma stored_agrees: "qt_url_ok q \<Longrightarrow> types_agree q p st \<Longrightarrow> types_agree q (stored q p) st"
  using default_graph_valid[of q] by (auto simp: types_agree_def stored_parts node_test_defs split: if_splits)


definition virtuoso_example :: statement where
  "virtuoso_example = mk_statement (ResourceNode (QUrl ''a'')) (ResourceNode (QUrl ''p'')) (LiteralNode (Plain ''v'' (LanguageTag None))) EmptyNode"

definition example_commands :: "command list" where
  "example_commands = (let s = stored plain_qt virtuoso_example in
     [select_command virtuoso_example, ask_command virtuoso_example, ask_command s, InsertStatement s, DeleteStatement s, DeleteAll virtuoso_example,
      CountAll, Contexts])"

lemma plain_qt_int_ok: "qt_int_ok plain_qt"
  by (simp add: qt_int_ok_def plain_qt_def)

lemma show_int_length: "length (show_int (sint (i :: 32 word))) < 2 ^ 31 \<and> CHR 0x00 \<notin> set (show_int (sint i))"
proof -
  have d: "CHR 0x00 \<notin> set (show_nat n)" for n using show_nat_digits[of n] by (auto simp: list_all_iff is_digit_def ccode_def)
  have "nat \<bar>sint i\<bar> < 10 ^ Suc 9" using sint_ge[of i] sint_lt[of i] by auto
  then have "length (show_nat (nat \<bar>sint i\<bar>)) \<le> 10" using length_show_nat[of "nat \<bar>sint i\<bar>" 9] by simp
  then show ?thesis using d by (auto simp: show_int_def split: if_splits)
qed

lemma plain_ints_shown: "cell_shows plain_qt (LiteralNode (lit_int i))"
proof -
  have u: "str_toUtf8 plain_qt s = ascii s" for s by (simp add: plain_qt_def ascii_def)
  have t: "dataTypeUri (lit_int i) = xsd XsdInt" "lit_toString plain_qt (lit_int i) = show_int (sint i)"
    by (simp_all add: lit_int_def url_isEmpty_def dataTypeUriFromType_def variantHash_def lit_toString_def)
  have c: "cell_of plain_qt (LiteralNode (lit_int i)) = mk_cell (Some (str_toUtf8 plain_qt (show_int (sint i)))) VIRTUOSO_DV_LONG_INT 0"
    using t by (simp add: cell_of_def lit_int_def)
  show ?thesis using show_int_length[of i]
    by (auto simp: cell_shows_def c u cell_small_def mk_cell_def intro!: integer[of plain_qt, unfolded u mk_cell_def])
qed

lemma example_graph: "visible plain_qt (stored plain_qt virtuoso_example)" "context_node (stored plain_qt virtuoso_example) = default_node plain_qt"
  by code_simp+

lemma example_shown: "\<forall>n\<in>{subject s, predicate s, object s, context_node s}. cell_shows plain_qt n" if "s = stored plain_qt virtuoso_example"
proof -
  have c: "length bs < 100 \<Longrightarrow> length (c_string bs) < 2147483648" for bs
    using length_takeWhile_le[of "\<lambda>b. b \<noteq> 0" bs] by (simp add: c_string_def)
  have r: "cell_shows plain_qt (ResourceNode u)" if "encoded u \<noteq> []" "take 2 (encoded u) \<noteq> ''_:''" "CHR 0x00 \<notin> set (encoded u)" "length (encoded u) < 100" for u
    using that c[of "map byte_of_char (encoded u)"]
    by (auto simp: cell_shows_def cell_of_def cell_small_def mk_cell_def ascii_def intro: iri[unfolded mk_cell_def ascii_def])
  have u: "str_toUtf8 plain_qt t = ascii t" for t by (simp add: plain_qt_def ascii_def)
  have "represents plain_qt (mk_cell (Some (ascii ''v'')) VIRTUOSO_DV_STRING 2) (LiteralNode (Plain ''v'' (LanguageTag None)))"
    using plain[of plain_qt "''v''"] unfolding u by (simp add: ascii_def byte_of_char_def)
  then have l: "cell_shows plain_qt (LiteralNode (Plain ''v'' (LanguageTag None)))"
    using c[of "ascii ''v''"] by (simp add: cell_shows_def cell_of_def cell_small_def u mk_cell_def ascii_def tag_empty_def tag_toString_def)
  have d: "default_node plain_qt = ResourceNode (QUrl defaultGraphString)" by (rule default_graph_valid[OF plain_qt_url_ok])
  have g: "cell_shows plain_qt (default_node plain_qt)" unfolding d by (rule r; simp add: defaultGraphString_def)
  have "subject s = ResourceNode (QUrl ''a'')" "predicate s = ResourceNode (QUrl ''p'')" "object s = LiteralNode (Plain ''v'' (LanguageTag None))"
    "context_node s = default_node plain_qt"
    unfolding that by code_simp+
  then show ?thesis using r[of "QUrl ''a''"] r[of "QUrl ''p''"] l g by simp
qed


section \<open>Faults\<close>

text \<open>A command that fails counts as done: adding reports success and emits its signals, and nothing was added.\<close>

lemma failed_add_unnoticed:
  "(case vm_addStatement plain_qt (memory_virtuoso plain_qt False []) virtuoso_example (new_virtuoso_model ''7.0.0'' False True []) of
      (c, st) \<Rightarrow> (c, v_error st, v_signals st, v_world st))
   = (ErrorNone, NoError, [StatementAdded virtuoso_example, StatementsAdded], [])"
  by code_simp

text \<open>A removal that fails reports its error, and the signals that it was done.\<close>

lemma failed_remove_signals:
  "(case vm_removeStatement plain_qt (memory_virtuoso plain_qt False []) virtuoso_example (new_virtuoso_model ''7.0.0'' False True []) of
      (c, st) \<Rightarrow> (c, v_signals st))
   = (ErrorUnknown, [StatementRemoved virtuoso_example, StatementsRemoved])"
  by code_simp

text \<open>Without empty graphs every valid statement that names no graph is contained.\<close>

lemma error_is_true:
  "stmt_isValid s \<Longrightarrow> \<not> node_isValid (context_node s) \<Longrightarrow> \<not> m_supportEmptyGraphs st \<Longrightarrow> fst (vm_containsStatement q V s st)"
  by (simp add: vm_containsStatement_def with_graph_def)

text \<open>A boolean is inserted as itself and asked for under the type that stands for it.\<close>

lemma boolean_inserted_and_asked:
  "let s = mk_statement (ResourceNode (QUrl ''a'')) (ResourceNode (QUrl ''p'')) (LiteralNode (lit_bool True)) (ResourceNode (QUrl ''g''))
   in last (bind_params plain_qt (param_nodes plain_qt s)) = sql_text (ascii (encoded (xsd XsdBoolean))) \<and>
      v_text plain_qt True s False = ''<a> <p> '' @ [dquote] @ ''true'' @ [dquote] @ ''^^<'' @ fakeBooleanTypeString @ ''>''"
  by code_simp

text \<open>For a blank graph the text has no place for the parameter of the graph: the others move.\<close>

lemma blank_graph_moves_parameters:
  "let s = mk_statement (ResourceNode (QUrl ''a'')) (ResourceNode (QUrl ''p'')) (ResourceNode (QUrl ''o'')) (BlankNode ''b'')
   in length (bind_params plain_qt (param_nodes plain_qt s)) = 12 \<and>
      fst (statementToConstructGraphPattern plain_qt True s True True Map.empty) =
        ''graph <_:b> { '' @ quoted_param @ '' '' @ quoted_param @ '' '' @ quoted_param @ '' . }''"
  by code_simp

text \<open>Versions are compared as text: 6.1.10 and 10.0 come before 6.1.5.\<close>

lemma versions_as_text: "\<not> new_enough ''6.1.10''" "\<not> new_enough ''10.0.0''" "new_enough ''6.1.6''"
  by code_simp+

text \<open>Every boolean with a prefix is taken for one of XML Schema, whatever follows the name.\<close>

lemma any_prefix_is_boolean:
  "replaceFakeTypesInQuery True (''ask { ?x ?y '' @ [dquote] @ ''true'' @ [dquote] @ ''^^my:booleanFlag }'') =
     ''ask { ?x ?y '' @ [CHR 0x27] @ ''true'' @ [CHR 0x27] @ ''^^<'' @ fakeBooleanTypeString @ ''>Flag }''"
  by code_simp

end
