(* ===== verification/Odbc_Pool.thy ===== *)
theory Odbc_Pool
  imports Odbc_Result
begin

text \<open>
  The pool of ODBC connections (backends/virtuoso/odbcconnectionpool.cpp, odbcenvironment.cpp and the life of an odbcconnection.cpp): every
  thread has a connection of its own, made when it first asks and deleted when the thread ends. A mutex makes every call one step;
  the threads are interleaved by a step relation.
\<close>

section \<open>Connections\<close>

text \<open>What the driver manager says when a connection is made.\<close>

record driver_manager =
  env_allocated :: bool
  dbc_allocated :: bool
  dbc_connected :: "qbytes list option"

text \<open>A connection is a number; \<open>results\<close> are the open results of a connection, \<open>environments\<close> the connections with an environment and a
  handle, \<open>run_commands\<close> what was executed on each.\<close>

record 't pool =
  connectString :: qstring
  setupCommands :: "qstring list"
  openConnections :: "'t \<rightharpoonup> nat"
  next_connection :: nat
  connected :: "nat set"
  run_commands :: "(nat \<times> qstring) list"
  p_pool_error :: error

definition new_pool :: "qstring \<Rightarrow> qstring list \<Rightarrow> 't pool" where
  "new_pool s cs = \<lparr> connectString = s, setupCommands = cs, openConnections = Map.empty, next_connection = 0, connected = {},
     run_commands = [], p_pool_error = NoError \<rparr>"

definition createEnvironment :: "driver_manager \<Rightarrow> bool" where
  "createEnvironment D = env_allocated D"

text \<open>Connection::executeCommand returns no other code than ErrorNone.\<close>

definition command_code :: "qstring \<Rightarrow> error_code" where
  "command_code c = ErrorNone"

text \<open>The setup stops at the first command that fails.\<close>

fun run_setup :: "nat \<Rightarrow> qstring list \<Rightarrow> 't pool \<Rightarrow> bool \<times> 't pool" where
  "run_setup i [] P = (True, P)"
| "run_setup i (c # cs) P =
     (let P = P\<lparr>run_commands := run_commands P @ [(i, c)]\<rparr> in
      if command_code c \<noteq> ErrorNone then (False, P) else run_setup i cs P)"

definition createConnection :: "driver_manager \<Rightarrow> 't pool \<Rightarrow> nat option \<times> 't pool" where
  "createConnection D P =
     (if \<not> createEnvironment D then (None, P\<lparr>p_pool_error := mk_error ''Unable to create ODBC environment.'' (error_code_num ErrorUnknown)\<rparr>)
      else if \<not> dbc_allocated D then (None, P\<lparr>p_pool_error := mk_error ''Failed to allocate SQL handle'' (error_code_num ErrorUnknown)\<rparr>)
      else (case dbc_connected D of
          Some diag \<Rightarrow> (None, P\<lparr>p_pool_error := convertSqlError diag []\<rparr>)
        | None \<Rightarrow>
           (let i = next_connection P; P = P\<lparr>p_pool_error := NoError, next_connection := Suc i, connected := insert i (connected P)\<rparr>
            in case run_setup i (setupCommands P) P of
                (True, P) \<Rightarrow> (Some i, P)
              | (False, P) \<Rightarrow> (None, P\<lparr>connected := connected P - {i}\<rparr>))))"

definition pool_connection :: "driver_manager \<Rightarrow> 't \<Rightarrow> 't pool \<Rightarrow> nat option \<times> 't pool" where
  "pool_connection D t P = (case openConnections P t of
     Some i \<Rightarrow> (Some i, P)
   | None \<Rightarrow> (case createConnection D P of
       (Some i, P) \<Rightarrow> (Some i, P\<lparr>openConnections := (openConnections P)(t \<mapsto> i)\<rparr>)
     | (None, P) \<Rightarrow> (None, P)))"

text \<open>The destructor of a connection takes it out of the table by its value.\<close>

definition delete_connection :: "nat \<Rightarrow> 't pool \<Rightarrow> 't pool" where
  "delete_connection i P = P\<lparr>openConnections := (\<lambda>t. if openConnections P t = Some i then None else openConnections P t),
     connected := connected P - {i}\<rparr>"

text \<open>The signals at the end of a thread delete its connection.\<close>

definition thread_ends :: "'t \<Rightarrow> 't pool \<Rightarrow> 't pool" where
  "thread_ends t P = (case openConnections P t of None \<Rightarrow> P | Some i \<Rightarrow> delete_connection i P)"

text \<open>The destructor of the pool deletes one connection after the other, in the order of a table it gets.\<close>

fun delete_pool :: "'t list \<Rightarrow> 't pool \<Rightarrow> 't pool" where
  "delete_pool [] P = P"
| "delete_pool (t # ts) P = delete_pool ts (thread_ends t P)"

section \<open>Interleaving\<close>

datatype 't pool_event = Asked 't "nat option" | Ended 't | Deleted nat

inductive pool_step :: "'t pool_event \<Rightarrow> 't pool \<Rightarrow> 't pool \<Rightarrow> bool" where
  ask: "pool_connection D t P = (r, P') \<Longrightarrow> pool_step (Asked t r) P P'"
| end_thread: "pool_step (Ended t) P (thread_ends t P)"
| delete: "pool_step (Deleted i) P (delete_connection i P)"

inductive_cases pool_stepE: "pool_step e P P'"

inductive pool_run :: "'t pool_event list \<Rightarrow> 't pool \<Rightarrow> 't pool \<Rightarrow> bool" where
  no_events: "pool_run [] P P"
| one_more: "pool_run es P Q \<Longrightarrow> pool_step e Q R \<Longrightarrow> pool_run (es @ [e]) P R"

text \<open>Every open connection belongs to one thread, all of them are alive, and the next number is new.\<close>

definition pool_inv :: "'t pool \<Rightarrow> bool" where
  "pool_inv P \<longleftrightarrow> inj_on (openConnections P) (dom (openConnections P)) \<and> ran (openConnections P) = connected P \<and>
     (\<forall>i\<in>connected P. i < next_connection P)"

lemma run_setup_all: "run_setup i cs P = (True, P\<lparr>run_commands := run_commands P @ map (Pair i) cs\<rparr>)"
  by (induction cs arbitrary: P) (simp_all add: command_code_def)

lemma createConnection_cases:
  "createConnection D P = (None, P') \<Longrightarrow> openConnections P' = openConnections P \<and> connected P' = connected P \<and> next_connection P' = next_connection P"
  "createConnection D P = (Some i, P') \<Longrightarrow> i = next_connection P \<and> openConnections P' = openConnections P \<and>
     connected P' = insert i (connected P) \<and> next_connection P' = Suc i"
  by (auto simp: createConnection_def run_setup_all Let_def split: if_splits option.splits)

lemma pool_inv_connection:
  assumes "pool_inv P" "pool_connection D t P = (r, P')"
  shows "pool_inv P'"
proof (cases "openConnections P t")
  case (Some i)
  then show ?thesis using assms by (simp add: pool_connection_def)
next
  case None
  show ?thesis
  proof (cases "createConnection D P")
    case (Pair s Q)
    show ?thesis
    proof (cases s)
      case None': None
      then show ?thesis using assms None Pair createConnection_cases(1)[of D P Q] by (auto simp: pool_connection_def pool_inv_def)
    next
      case (Some i)
      have Q: "i = next_connection P" "openConnections Q = openConnections P" "connected Q = insert i (connected P)" "next_connection Q = Suc i"
        using createConnection_cases(2)[of D P i Q] Pair Some by auto
      have P': "P' = Q\<lparr>openConnections := (openConnections P)(t \<mapsto> i)\<rparr>" using assms(2) None Pair Some Q(2) by (auto simp: pool_connection_def)
      have new: "i \<notin> ran (openConnections P)" using assms(1) Q(1) by (auto simp: pool_inv_def)
      then have "inj_on (openConnections P') (dom (openConnections P'))"
        using assms(1) None by (auto simp: P' pool_inv_def inj_on_def dom_def ran_def)
      moreover have "ran (openConnections P') = connected P'" using assms(1) None Q by (simp add: P' pool_inv_def ran_map_upd)
      ultimately show ?thesis using assms(1) Q by (auto simp: P' pool_inv_def)
    qed
  qed
qed

lemma ran_delete: "ran (openConnections (delete_connection i P)) = ran (openConnections P) - {i}"
proof -
  have "(\<exists>t. openConnections (delete_connection i P) t = Some x) \<longleftrightarrow> (\<exists>t. openConnections P t = Some x) \<and> x \<noteq> i" for x
    by (auto simp: delete_connection_def) force
  then show ?thesis by (auto simp: ran_def)
qed

lemma pool_inv_delete: "pool_inv P \<Longrightarrow> pool_inv (delete_connection i P)"
  unfolding pool_inv_def ran_delete by (auto simp: delete_connection_def inj_on_def dom_def split: if_splits)

lemma pool_inv_end: "pool_inv P \<Longrightarrow> pool_inv (thread_ends t P)"
  by (auto simp: thread_ends_def pool_inv_delete split: option.splits)

lemma pool_inv_step: "pool_step e P P' \<Longrightarrow> pool_inv P \<Longrightarrow> pool_inv P'"
  by (erule pool_stepE) (auto simp: pool_inv_connection pool_inv_end pool_inv_delete)

lemma pool_inv_run: "pool_run es P P' \<Longrightarrow> pool_inv P \<Longrightarrow> pool_inv P'"
  by (induction rule: pool_run.induct) (auto intro: pool_inv_step)

lemma pool_inv_new: "pool_inv (new_pool s cs)"
  by (simp add: pool_inv_def new_pool_def)

text \<open>A thread keeps its connection until it ends or the connection is deleted.\<close>

lemma connection_kept:
  assumes "pool_step e P P'" "openConnections P t = Some i" "e \<noteq> Ended t" "e \<noteq> Deleted i" "pool_inv P"
  shows "openConnections P' t = Some i"
  using assms
proof cases
  case (ask D t' r)
  then show ?thesis using assms(2)
    by (auto simp: pool_connection_def split: option.splits prod.splits dest!: createConnection_cases)
next
  case (end_thread t')
  have "i \<noteq> j" if "openConnections P t' = Some j" for j
    using that assms(2,5) end_thread assms(3) by (auto simp: pool_inv_def inj_on_def dom_def)
  then show ?thesis using end_thread assms(2) by (auto simp: thread_ends_def delete_connection_def split: option.splits)
next
  case (delete j)
  then show ?thesis using assms(2,4) by (simp add: delete_connection_def)
qed

lemma delete_pool_inv: "pool_inv P \<Longrightarrow> pool_inv (delete_pool ts P)"
  by (induction ts arbitrary: P) (auto intro: pool_inv_end)

lemma delete_pool_dom: "pool_inv P \<Longrightarrow> dom (openConnections (delete_pool ts P)) = dom (openConnections P) - set ts"
proof (induction ts arbitrary: P)
  case (Cons t ts)
  have "dom (openConnections (thread_ends t P)) = dom (openConnections P) - {t}"
    using Cons.prems by (auto simp: thread_ends_def delete_connection_def pool_inv_def inj_on_def dom_def split: option.splits)
  then show ?case using Cons.IH[OF pool_inv_end[OF Cons.prems, of t]] by auto
qed simp

text \<open>Claim C35: whatever the threads do, no two of them share a connection, and every connection that is alive belongs to
  one thread; a connection just given to a thread is alive and the thread's own; deleting the pool leaves no connection behind.\<close>

theorem pool_connections_apart:
  assumes "pool_run es (new_pool s cs) P"
  shows "(\<forall>t u i. openConnections P t = Some i \<and> openConnections P u = Some i \<longrightarrow> t = u) \<and>
    (\<forall>i. i \<in> connected P \<longleftrightarrow> (\<exists>t. openConnections P t = Some i)) \<and>
    (\<forall>D t i P'. pool_connection D t P = (Some i, P') \<longrightarrow> openConnections P' t = Some i \<and> i \<in> connected P') \<and>
    (dom (openConnections P) \<subseteq> set ts \<longrightarrow> connected (delete_pool ts P) = {})"
proof -
  have inv: "pool_inv P" by (rule pool_inv_run[OF assms pool_inv_new])
  have given: "openConnections P' t = Some i \<and> i \<in> connected P'" if "pool_connection D t P = (Some i, P')" for D t i P'
  proof -
    have "openConnections P' t = Some i" using that by (auto simp: pool_connection_def split: option.splits prod.splits)
    then show ?thesis using pool_inv_connection[OF inv that] by (auto simp: pool_inv_def ran_def)
  qed
  have "connected (delete_pool ts P) = {}" if d: "dom (openConnections P) \<subseteq> set ts"
  proof -
    have "dom (openConnections (delete_pool ts P)) = {}" using delete_pool_dom[OF inv, of ts] d by auto
    then have "openConnections (delete_pool ts P) = Map.empty" by simp
    then have "ran (openConnections (delete_pool ts P)) = {}" by simp
    then show ?thesis using delete_pool_inv[OF inv, of ts] by (simp add: pool_inv_def)
  qed
  then show ?thesis using inv given by (auto simp: pool_inv_def inj_on_def dom_def ran_def)
qed

theorem pool_connections_apart_witness:
  "connected (delete_pool [1, 2] (snd (pool_connection \<lparr> env_allocated = True, dbc_allocated = True, dbc_connected = None \<rparr> (1 :: nat)
     (new_pool ''dsn'' [''set result_timeout=2000''])))) = {}"
proof -
  let ?D = "\<lparr> env_allocated = True, dbc_allocated = True, dbc_connected = None \<rparr>" and ?P = "new_pool ''dsn'' [''set result_timeout=2000''] :: nat pool"
  obtain r Q where Q: "pool_connection ?D 1 ?P = (r, Q)" by fastforce
  have run: "pool_run ([] @ [Asked 1 r]) ?P Q" by (rule one_more[OF no_events ask[OF Q]])
  have "dom (openConnections Q) \<subseteq> set [1, 2]"
    using Q by (auto simp: pool_connection_def createConnection_def createEnvironment_def run_setup_all new_pool_def Let_def)
  then show ?thesis using pool_connections_apart[OF run, of "[1, 2]"] Q by simp
qed

text \<open>A setup command that the server refuses is not noticed: the connection counts as ready.\<close>

lemma setup_never_fails:
  "createConnection \<lparr> env_allocated = True, dbc_allocated = True, dbc_connected = None \<rparr> (new_pool s cs :: nat pool) =
     (Some 0, (new_pool s cs)\<lparr>next_connection := 1, connected := {0}, run_commands := map (Pair 0) cs\<rparr>)"
  by (simp add: createConnection_def createEnvironment_def run_setup_all new_pool_def Let_def)

end
