(* ===== verification/Virtuoso_Control.thy ===== *)
theory Virtuoso_Control
  imports Backend_Settings Soprano_Error
begin

text \<open>
  The Virtuoso server as a process (backends/virtuoso/virtuosocontroller.cpp, server/lockfile.cpp): locking a file, starting the
  server, waiting for it to come up, its end and shutting it down, as a state machine. The operating system, the other processes and the output of
  the server are arguments.
\<close>

section \<open>Lock files\<close>

text \<open>The calls of the operating system; \<open>os_open\<close> gives -1 when a file cannot be opened.\<close>

record 'w os =
  os_open :: "qstring \<Rightarrow> 'w \<Rightarrow> int \<times> 'w"
  os_lock :: "int \<Rightarrow> 'w \<Rightarrow> bool \<times> 'w"
  os_owner :: "int \<Rightarrow> 'w \<Rightarrow> int"
  os_close :: "int \<Rightarrow> 'w \<Rightarrow> 'w"

record lock_file =
  lock_path :: qstring
  lock_fd :: int

definition new_lock_file :: "qstring \<Rightarrow> lock_file" where
  "new_lock_file path = \<lparr> lock_path = path, lock_fd = - 1 \<rparr>"

definition releaseLock :: "'w os \<Rightarrow> lock_file \<Rightarrow> 'w \<Rightarrow> lock_file \<times> 'w" where
  "releaseLock S l w = (l\<lparr>lock_fd := - 1\<rparr>, if lock_fd l > 0 then os_close S (lock_fd l) w else w)"

definition setFileName :: "'w os \<Rightarrow> qstring \<Rightarrow> lock_file \<Rightarrow> 'w \<Rightarrow> lock_file \<times> 'w" where
  "setFileName S path l w = (case releaseLock S l w of (l, w) \<Rightarrow> (l\<lparr>lock_path := path\<rparr>, w))"

text \<open>Success, or the process that owns the lock when it could be asked. A file that cannot be locked is closed and its number kept.\<close>

definition aquireLock :: "'w os \<Rightarrow> lock_file \<Rightarrow> 'w \<Rightarrow> (bool \<times> int option) \<times> lock_file \<times> 'w" where
  "aquireLock S l w = (case releaseLock S l w of (l, w) \<Rightarrow>
     (case os_open S (lock_path l) w of (fd, w) \<Rightarrow>
       (let l = l\<lparr>lock_fd := fd\<rparr> in
        if fd = - 1 then ((False, None), l, w)
        else (case os_lock S fd w of
            (True, w) \<Rightarrow> ((True, None), l, w)
          | (False, w) \<Rightarrow> ((False, Some (os_owner S fd w)), l, os_close S fd w)))))"

text \<open>A system in memory: the open files with their names, and the files others have locked.\<close>

record files =
  open_files :: "(int \<times> qstring) list"
  locked_by_others :: "qstring \<rightharpoonup> int"

definition free_fd :: "(int \<times> qstring) list \<Rightarrow> int" where
  "free_fd fs = (case find (\<lambda>n. int n \<notin> fst ` set fs) [3..<4 + length fs] of Some n \<Rightarrow> int n | None \<Rightarrow> - 1)"

definition memory_os :: "files os" where
  "memory_os = \<lparr> os_open = (\<lambda>path w. (free_fd (open_files w), w\<lparr>open_files := (free_fd (open_files w), path) # open_files w\<rparr>)),
     os_lock = (\<lambda>fd w. (case map_of (open_files w) fd of Some path \<Rightarrow> locked_by_others w path = None | None \<Rightarrow> False, w)),
     os_owner = (\<lambda>fd w. case map_of (open_files w) fd of Some path \<Rightarrow> (case locked_by_others w path of Some p \<Rightarrow> p | None \<Rightarrow> 0) | None \<Rightarrow> 0),
     os_close = (\<lambda>fd w. w\<lparr>open_files := filter (\<lambda>f. fst f \<noteq> fd) (open_files w)\<rparr>) \<rparr>"

text \<open>Fault: releasing a lock that was not had closes a file of somebody else, opened in between under the same number.\<close>

lemma failed_lock_closes_another_file:
  "(case aquireLock memory_os (new_lock_file ''db.lock'') \<lparr> open_files = [], locked_by_others = [''db.lock'' \<mapsto> 77] \<rparr> of (r, l, w) \<Rightarrow>
      (case os_open memory_os ''data'' w of (fd, w) \<Rightarrow> (r, open_files w, open_files (snd (releaseLock memory_os l w)))))
   = ((False, Some 77), [(3, ''data'')], [])"
  by code_simp

section \<open>The controller\<close>

datatype exit_status = NormalExit | ForcedExit | CrashExit | ThirdPartyExit

datatype status = NotRunning | StartingUp | Running | ShuttingDown | Killing

text \<open>Of the lock only whether it is held, of the process only whether it runs. \<open>config_exists\<close>: the file of the configuration is there.
  \<open>emitted_stopped\<close> are the signals.\<close>

record controller =
  c_status :: status
  c_last :: exit_status
  c_locked :: bool
  c_process :: bool
  c_debug :: bool
  config_exists :: bool
  c_port :: int
  c_error :: error
  emitted_stopped :: "exit_status list"

definition new_controller :: controller where
  "new_controller = \<lparr> c_status = NotRunning, c_last = NormalExit, c_locked = False, c_process = False, c_debug = False,
     config_exists = False, c_port = 0, c_error = NoError, emitted_stopped = [] \<rparr>"

definition c_fail :: "qstring \<Rightarrow> controller \<Rightarrow> controller" where
  "c_fail m st = st\<lparr>c_error := mk_error m (error_code_num ErrorUnknown)\<rparr>"

text \<open>The process ended; \<open>crash\<close> tells how.\<close>

definition slotProcessFinished :: "bool \<Rightarrow> controller \<Rightarrow> controller" where
  "slotProcessFinished crash st =
     (let last = (if crash then CrashExit else if c_status st = Killing then ForcedExit
                  else if c_status st \<noteq> ShuttingDown then ThirdPartyExit else NormalExit)
      in st\<lparr>config_exists := config_exists st \<and> c_debug st, c_locked := False, c_process := False, c_last := last,
            c_status := NotRunning, emitted_stopped := emitted_stopped st @ [last]\<rparr>)"

fun starts_with :: "qstring \<Rightarrow> qstring \<Rightarrow> bool" where
  "starts_with [] s = True"
| "starts_with (p # ps) [] = False"
| "starts_with (p # ps) (c # cs) = (p = c \<and> starts_with ps cs)"

fun contains_text :: "qstring \<Rightarrow> qstring \<Rightarrow> bool" where
  "contains_text p [] = (p = [])"
| "contains_text p (c # cs) = (starts_with p (c # cs) \<or> contains_text p cs)"

text \<open>What is heard of the starting server: a line, or its end. A broken transaction log makes the controller start it again.\<close>

datatype server_output = OutputLine qstring | ServerExits bool

fun waitForVirtuosoToInitialize :: "server_output list \<Rightarrow> controller \<Rightarrow> bool \<times> controller" where
  "waitForVirtuosoToInitialize [] st = (c_status st = Running, st)"
| "waitForVirtuosoToInitialize (OutputLine l # es) st =
     (if contains_text ''Delete transaction log'' l then waitForVirtuosoToInitialize es st
      else if contains_text ''Server online at'' l then (True, st\<lparr>c_status := Running\<rparr>)
      else waitForVirtuosoToInitialize es st)"
| "waitForVirtuosoToInitialize (ServerExits crash # es) st =
     (let st = slotProcessFinished crash st in (c_status st = Running, st))"

text \<open>Waiting for another server to go down: one second between the probes, counted from 30.\<close>

fun wait_down :: "(nat \<Rightarrow> int) \<Rightarrow> nat \<Rightarrow> nat \<Rightarrow> nat" where
  "wait_down probe k 0 = 0"
| "wait_down probe k (Suc m) = (if probe k > 0 \<and> m > 0 then Suc (wait_down probe (Suc k) m) else 0)"

lemma wait_down_bound: "wait_down probe k m \<le> m - 1"
  by (induction probe k m rule: wait_down.induct) auto

text \<open>The surroundings of a start: a free port, the lock or its owner, the process ids of running servers as they are probed, whether the program
  starts, and its output.\<close>

record surroundings =
  free_port :: int
  lock_owner :: "int option"
  probes :: "nat \<Rightarrow> int"
  program_starts :: bool
  server_said :: "server_output list"

definition start :: "qt \<Rightarrow> setting list \<Rightarrow> bool \<Rightarrow> surroundings \<Rightarrow> controller \<Rightarrow> bool \<times> controller" where
  "start q settings debug S st = (case c_status st of
     StartingUp \<Rightarrow> (False, c_fail ''Virtuoso is already starting up.'' st)
   | Running \<Rightarrow> (False, c_fail ''Virtuoso is already running.'' st)
   | ShuttingDown \<Rightarrow> (False, c_fail ''Virtuoso is not stopped yet.'' st)
   | Killing \<Rightarrow> (False, c_fail ''Virtuoso is not stopped yet.'' st)
   | NotRunning \<Rightarrow>
      (let st = st\<lparr>config_exists := True, c_port := free_port S, c_debug := debug, c_status := StartingUp, c_locked := False\<rparr>;
           storageDir = variant_toText q (valueInSettings settings BackendOptionStorageDir [])
       in case lock_owner S of
            Some pid \<Rightarrow> (False, c_fail (q_arg (q_arg (''Another instance of Soprano (%1) is already running on the data in '' @ [CHR 0x27] @ ''%2'' @ [CHR 0x27] @ ''.'')
              (show_int pid)) storageDir) st)
          | None \<Rightarrow>
             (let st = st\<lparr>c_locked := True\<rparr> in
              if \<not> program_starts S then (False, c_fail ''Failed to start Virtuoso'' st)
              else (case waitForVirtuosoToInitialize (server_said S) (st\<lparr>c_process := True\<rparr>) of
                  (True, st) \<Rightarrow> (True, st\<lparr>c_error := NoError, c_status := Running\<rparr>)
                | (False, st) \<Rightarrow> (False, c_fail ''Failed to start Virtuoso'' st)))))"

text \<open>The processes that are interrupted on the way, and the seconds waited for: a start by force does not ask whether the other server
  went down.\<close>

definition forced_start :: "qt \<Rightarrow> setting list \<Rightarrow> surroundings \<Rightarrow> int list \<times> nat \<times> bool" where
  "forced_start q settings S =
     (let pid = probes S 0 in
      if pid > 0 \<and> variant_toBool q (valueInSettings_user settings ''forcedstart'' (VBool False))
      then ([pid], wait_down (\<lambda>k. probes S (Suc k)) 0 30, True)
      else ([], 0, pid = 0))"

text \<open>How a server takes an interrupt: it ends within 30 seconds, or it is killed.\<close>

datatype reaction = EndsInTime bool | KilledAfterwards bool

definition shutdown :: "reaction \<Rightarrow> controller \<Rightarrow> bool \<times> controller" where
  "shutdown r st =
     (if c_process st then
        (let st = st\<lparr>c_status := ShuttingDown\<rparr> in
         case r of
           EndsInTime crash \<Rightarrow> (True, (slotProcessFinished crash st)\<lparr>c_error := NoError, c_locked := False\<rparr>)
         | KilledAfterwards crash \<Rightarrow>
             (let st = (c_fail ''Virtuoso did not shut down after 30 seconds. Process killed.'' st)\<lparr>c_status := Killing\<rparr>
              in (False, (slotProcessFinished crash st)\<lparr>c_locked := False\<rparr>)))
      else (False, (c_fail ''Virtuoso not running. Cannot shutdown.'' st)\<lparr>c_locked := False\<rparr>))"

text \<open>The signal of the model: whether the end was scheduled.\<close>

definition virtuosoStopped :: "exit_status \<Rightarrow> bool" where
  "virtuosoStopped s \<longleftrightarrow> \<not> (s = CrashExit \<or> s = ThirdPartyExit)"

section \<open>Reachable states\<close>

datatype ctl_event = Start "setting list" bool surroundings bool | Shutdown reaction bool | ProcessEnds bool

inductive ctl_step :: "qt \<Rightarrow> ctl_event \<Rightarrow> controller \<Rightarrow> controller \<Rightarrow> bool" for q where
  start_server: "start q ss d S st = (r, st') \<Longrightarrow> ctl_step q (Start ss d S r) st st'"
| shut_server: "shutdown k st = (r, st') \<Longrightarrow> ctl_step q (Shutdown k r) st st'"
| server_ends: "c_process st \<Longrightarrow> ctl_step q (ProcessEnds crash) st (slotProcessFinished crash st)"

inductive_cases ctl_stepE: "ctl_step q e st st'"

inductive ctl_run :: "qt \<Rightarrow> ctl_event list \<Rightarrow> controller \<Rightarrow> bool" for q where
  fresh: "ctl_run q [] new_controller"
| step: "ctl_run q es st \<Longrightarrow> ctl_step q e st st' \<Longrightarrow> ctl_run q (es @ [e]) st'"

text \<open>A process runs only under the lock. Between the calls the controller is never shutting down, it runs only with a process, and
  when it is not running there is none.\<close>

definition ctl_inv :: "controller \<Rightarrow> bool" where
  "ctl_inv st \<longleftrightarrow> (c_process st \<longrightarrow> c_locked st) \<and> (c_status st = Running \<longrightarrow> c_process st) \<and>
     (c_status st = NotRunning \<longrightarrow> \<not> c_process st \<and> \<not> c_locked st) \<and> c_status st \<notin> {ShuttingDown, Killing}"

lemma finished_inv: "ctl_inv (slotProcessFinished crash st)"
  by (simp add: slotProcessFinished_def ctl_inv_def Let_def)

lemma wait_result:
  assumes "waitForVirtuosoToInitialize es st = (r, st')" "c_process st" "c_locked st" "c_status st = StartingUp"
  shows "(r \<longrightarrow> c_process st' \<and> c_locked st' \<and> c_status st' = Running) \<and> (\<not> r \<longrightarrow> ctl_inv st' \<and> c_status st' \<noteq> Running)"
  using assms
proof (induction es arbitrary: st)
  case Nil
  then show ?case by (auto simp: ctl_inv_def)
next
  case (Cons e es)
  note prems = Cons.prems
  show ?case
  proof (cases e)
    case (OutputLine l)
    show ?thesis
    proof (cases "\<not> contains_text ''Delete transaction log'' l \<and> contains_text ''Server online at'' l")
      case True
      then show ?thesis using prems OutputLine by auto
    next
      case False
      then have "waitForVirtuosoToInitialize es st = (r, st')" using prems(1) OutputLine by (simp split: if_splits)
      then show ?thesis by (rule Cons.IH[OF _ prems(2-4)])
    qed
  next
    case (ServerExits crash)
    then have "r = (c_status (slotProcessFinished crash st) = Running)" "st' = slotProcessFinished crash st" using prems(1) by (auto simp: Let_def)
    then show ?thesis using finished_inv[of crash st] by (simp add: slotProcessFinished_def Let_def)
  qed
qed

lemma start_inv:
  assumes "ctl_inv st" "start q ss d S st = (r, st')"
  shows "ctl_inv st'" "r \<longleftrightarrow> c_status st = NotRunning \<and> c_status st' = Running"
proof -
  have "ctl_inv st' \<and> (r \<longleftrightarrow> c_status st = NotRunning \<and> c_status st' = Running)"
  proof (cases "c_status st = NotRunning \<and> lock_owner S = None \<and> program_starts S")
    case True
    let ?st = "st\<lparr>config_exists := True, c_port := free_port S, c_debug := d, c_status := StartingUp, c_locked := True, c_process := True\<rparr>"
    obtain ok st1 where w: "waitForVirtuosoToInitialize (server_said S) ?st = (ok, st1)" by fastforce
    show ?thesis using wait_result[OF w] w assms(2) True
      by (cases ok) (auto simp: start_def ctl_inv_def c_fail_def Let_def)
  next
    case False
    then show ?thesis using assms
      by (cases "c_status st"; cases "lock_owner S") (auto simp: start_def ctl_inv_def c_fail_def Let_def)
  qed
  then show "ctl_inv st'" "r \<longleftrightarrow> c_status st = NotRunning \<and> c_status st' = Running" by blast+
qed

lemma shutdown_inv: "ctl_inv st \<Longrightarrow> shutdown k st = (r, st') \<Longrightarrow> ctl_inv st'"
  by (cases k) (auto simp: shutdown_def slotProcessFinished_def ctl_inv_def c_fail_def Let_def split: if_splits)


lemma step_inv: "ctl_step q e st st' \<Longrightarrow> ctl_inv st \<Longrightarrow> ctl_inv st'"
proof (induction rule: ctl_step.induct)
  case (start_server ss d S st r st')
  show ?case by (rule start_inv(1)[OF start_server(2,1)])
next
  case (shut_server k st r st')
  show ?case by (rule shutdown_inv[OF shut_server(2,1)])
qed (rule finished_inv)

lemma run_inv: "ctl_run q es st \<Longrightarrow> ctl_inv st"
proof (induction rule: ctl_run.induct)
  case fresh
  then show ?case by (simp add: ctl_inv_def new_controller_def)
next
  case (step es st e st')
  show ?case by (rule step_inv[OF step(2,3)])
qed

text \<open>How the last end is reported.\<close>

lemma shutdown_report:
  assumes "shutdown k st = (r, st')" "c_process st"
  shows "c_status st' = NotRunning \<and> \<not> c_locked st' \<and> \<not> c_process st' \<and> (r \<longleftrightarrow> (\<exists>c. k = EndsInTime c)) \<and>
    emitted_stopped st' = emitted_stopped st @ [c_last st'] \<and>
    c_last st' = (case k of EndsInTime crash \<Rightarrow> if crash then CrashExit else NormalExit | KilledAfterwards crash \<Rightarrow> if crash then CrashExit else ForcedExit)"
  using assms by (cases k) (auto simp: shutdown_def slotProcessFinished_def c_fail_def Let_def)

text \<open>Claim C34: whatever happens to a controller, its process runs only while the lock of the data is held, it reports to be running
  only with a process, and a controller that is not running has neither process nor lock; starting succeeds only from there and
  only when the server came up. Shutting a running server down always ends in this state and reports the end once, as scheduled unless it
  crashed.\<close>

theorem controller_safe:
  assumes "ctl_run q es st"
  shows "(c_process st \<longrightarrow> c_locked st) \<and> (c_status st = Running \<longrightarrow> c_process st) \<and>
    (c_status st = NotRunning \<longrightarrow> \<not> c_process st \<and> \<not> c_locked st) \<and>
    (\<forall>ss d S r st'. start q ss d S st = (r, st') \<longrightarrow> (r \<longleftrightarrow> c_status st = NotRunning \<and> c_status st' = Running)) \<and>
    (\<forall>k r st'. shutdown k st = (r, st') \<and> c_process st \<longrightarrow> c_status st' = NotRunning \<and> \<not> c_locked st' \<and>
       emitted_stopped st' = emitted_stopped st @ [c_last st'] \<and>
       (virtuosoStopped (c_last st') \<longleftrightarrow> k \<in> {EndsInTime False, KilledAfterwards False}))"
proof -
  have inv: "ctl_inv st" by (rule run_inv[OF assms])
  have "c_status st' = NotRunning \<and> \<not> c_locked st' \<and> emitted_stopped st' = emitted_stopped st @ [c_last st'] \<and>
       (virtuosoStopped (c_last st') \<longleftrightarrow> k \<in> {EndsInTime False, KilledAfterwards False})" if "shutdown k st = (r, st')" "c_process st" for k r st'
    using shutdown_report[OF that] by (cases k) (auto simp: virtuosoStopped_def)
  then show ?thesis using inv start_inv(2)[OF inv] by (auto simp: ctl_inv_def)
qed

definition good_start :: surroundings where
  "good_start = \<lparr> free_port = 1113, lock_owner = None, probes = (\<lambda>_. 0), program_starts = True,
     server_said = [OutputLine ''22:10:05 Server online at 1113 (pid 4711)''] \<rparr>"

theorem controller_safe_witness:
  "c_status (snd (shutdown (EndsInTime False) (snd (start plain_qt [] False good_start new_controller)))) = NotRunning"
proof -
  obtain r st where st: "start plain_qt [] False good_start new_controller = (r, st)" by fastforce
  have "c_process (snd (start plain_qt [] False good_start new_controller))" by code_simp
  then have p: "c_process st" by (simp add: st)
  have run: "ctl_run plain_qt ([] @ [Start [] False good_start r]) st" by (rule ctl_run.step[OF fresh start_server[OF st]])
  obtain k st' where "shutdown (EndsInTime False) st = (k, st')" by fastforce
  then show ?thesis using controller_safe[OF run] p by (simp add: st)
qed

section \<open>Faults\<close>

text \<open>A start without the lock, or of a program that does not start, leaves the controller starting up: it refuses every later start.\<close>

definition stuck_starting :: "controller \<Rightarrow> bool" where
  "stuck_starting st \<longleftrightarrow> c_status st = StartingUp \<and> \<not> c_process st"

lemma failed_start_sticks:
  assumes "c_status st = NotRunning" "\<not> c_process st" "lock_owner S \<noteq> None \<or> \<not> program_starts S"
  shows "stuck_starting (snd (start q ss d S st))"
  using assms by (auto simp: start_def stuck_starting_def c_fail_def Let_def split: option.splits)

lemma stuck_for_ever: "stuck_starting st \<Longrightarrow> ctl_step q e st st' \<Longrightarrow> stuck_starting st' \<and> (\<forall>ss d S r. e = Start ss d S r \<longrightarrow> \<not> r)"
  by (erule ctl_stepE) (auto simp: stuck_starting_def start_def shutdown_def c_fail_def)

text \<open>A server that had to be killed ends by a signal: the end is reported as a crash, as not scheduled.\<close>

lemma killed_is_unscheduled:
  "c_process st \<Longrightarrow> c_last (snd (shutdown (KilledAfterwards True) st)) = CrashExit \<and> \<not> virtuosoStopped CrashExit"
  by (simp add: shutdown_def slotProcessFinished_def c_fail_def virtuosoStopped_def Let_def)

text \<open>The wait for another server is 29 seconds at most.\<close>

lemma wait_is_short: "wait_down (\<lambda>_. 1) 0 30 = 29" "wait_down probe 0 30 \<le> 29"
  using wait_down_bound[of probe 0 30] by (code_simp, simp)

end
