(* ===== verification/Virtuoso_Backend.thy ===== *)
theory Virtuoso_Backend
  imports Backend_Settings Soprano_Error "HOL-Library.Char_ord" "HOL-Library.List_Lexorder" "HOL-Library.Multiset"
begin

text \<open>
  The Virtuoso plugin (backends/virtuoso/virtuosobackend.cpp, virtuosoconfigurator.cpp and the configuration file of virtuosocontroller.cpp): the version
  of the server, what createModel decides from the settings, deleting the data of a model, and the commands that bring the
  indexes of a database to what the settings ask for.
\<close>

section \<open>The version\<close>

fun prefix_at :: "qstring \<Rightarrow> qstring \<Rightarrow> bool" where
  "prefix_at [] s = True"
| "prefix_at (p # ps) [] = False"
| "prefix_at (p # ps) (c # cs) = (p = c \<and> prefix_at ps cs)"

text \<open>QString::indexOf of a text.\<close>

fun text_index :: "qstring \<Rightarrow> qstring \<Rightarrow> nat \<Rightarrow> nat option" where
  "text_index p [] i = (if p = [] then Some i else None)"
| "text_index p (c # cs) i = (if prefix_at p (c # cs) then Some i else text_index p cs (Suc i))"

definition parseVirtuosoVersion :: "qstring \<Rightarrow> qstring" where
  "parseVirtuosoVersion erroutput = (case text_index ''Version'' erroutput 0 of
     Some vp \<Rightarrow> if vp > 0 then
         (let vp = vp + 8 in
          case index_of (\<lambda>c. c = CHR 0x20) erroutput vp of
            Some e \<Rightarrow> mid erroutput vp (e - vp)
          | None \<Rightarrow> drop vp erroutput)
       else []
   | None \<Rightarrow> [])"

lemma version_of_server:
  "parseVirtuosoVersion (''Virtuoso Open Source Edition (multi threaded)'' @ [newline] @ ''Version 6.1.5.3127-pthreads as of Mar'') = ''6.1.5.3127-pthreads''"
  by code_simp

text \<open>\<open>driver\<close> and \<open>binary\<close> are what is found on the disk. Versions are compared as text.\<close>

definition isAvailable :: "qstring \<Rightarrow> qstring \<Rightarrow> qstring \<Rightarrow> bool" where
  "isAvailable driver binary said =
     (if driver = [] then False else if binary = [] then False
      else (let vs = parseVirtuosoVersion said in if vs = [] then False else \<not> vs < ''5.0.12''))"

lemma old_version_accepted: "isAvailable ''d'' ''b'' ''Virtuoso Version 5.0.2 of'' \<and> \<not> isAvailable ''d'' ''b'' ''Virtuoso Version 10.0.0 of''"
  by code_simp

section \<open>Creating a model\<close>

text \<open>What createModel does with the settings: refuse, connect to a server, or start one; with the text it connects by and the
  commands for every connection.\<close>

datatype plan = Refuse qstring | Connect qstring "qstring list" | StartLocal bool

definition as_text :: "qt \<Rightarrow> qvariant \<Rightarrow> qstring" where "as_text q v = variant_toText q v"
definition as_int :: "qt \<Rightarrow> qvariant \<Rightarrow> int" where "as_int q v = sint (fst (variant_toInt q v))"

definition connect_text :: "qstring \<Rightarrow> int \<Rightarrow> qstring \<Rightarrow> qstring \<Rightarrow> qstring \<Rightarrow> qstring" where
  "connect_text host port uid pwd driver = ''host='' @ host @ '':'' @ show_int port @ '';uid='' @ uid @ '';pwd='' @ pwd @ '';driver='' @ driver"

definition setup_commands :: "int \<Rightarrow> qstring list" where
  "setup_commands timeout = (if timeout > 1000 then [''set result_timeout='' @ show_int timeout] else [])"

definition connect_plan :: "qstring \<Rightarrow> int \<Rightarrow> qstring \<Rightarrow> qstring \<Rightarrow> qstring \<Rightarrow> int \<Rightarrow> plan" where
  "connect_plan host port uid pwd driver timeout =
     (if driver = [] then Refuse ''Could not find Virtuoso ODBC driver'' else Connect (connect_text host port uid pwd driver) (setup_commands timeout))"

definition createModel_plan :: "qt \<Rightarrow> setting list \<Rightarrow> qstring \<Rightarrow> qstring \<Rightarrow> qstring \<Rightarrow> plan" where
  "createModel_plan q ss driver binary version =
     (let host = as_text q (valueInSettings ss BackendOptionHost []); port = as_int q (valueInSettings ss BackendOptionPort []);
          uid = as_text q (valueInSettings ss BackendOptionUsername []); pwd = as_text q (valueInSettings ss BackendOptionPassword []);
          path = as_text q (valueInSettings ss BackendOptionStorageDir []);
          timeout = as_int q (valueInSettings_user ss ''QueryTimeout'' (VInt 0))
      in if host = [] \<and> port = 0 \<and> uid = [] \<and> pwd = [] then
           (if path = [] then Refuse ''Need a database storage path set to start a local Virtuoso instance.''
            else if binary = [] then Refuse ''Unable to find the Virtuoso binary.''
            else if version = [] then Refuse (q_arg ''Failed to determine version of Virtuoso binary at %1'' binary)
            else StartLocal (variant_toBool q (valueInSettings ss BackendOptionUser ''debugmode'')))
         else connect_plan host port uid pwd driver timeout)"

text \<open>After a local start, at the port of the controller.\<close>

definition local_plan :: "qstring \<Rightarrow> int \<Rightarrow> int \<Rightarrow> plan" where
  "local_plan driver port timeout = connect_plan ''localhost'' port ''dba'' ''dba'' driver timeout"

text \<open>The version the model is told: a low one for a server that was running.\<close>

definition model_version :: "bool \<Rightarrow> qstring \<Rightarrow> qstring" where
  "model_version localServer version = (if localServer then version else ''1.0.0'')"

definition database_files :: "qstring list" where
  "database_files = map (\<lambda>s. ''soprano-virtuoso'' @ s) [''.db'', ''.log'', ''.trx'', ''.pxa'', ''-temp.db'', ''-temp.trx'']"

text \<open>The files of a directory and those that cannot be removed. The first that cannot ends it.\<close>

fun remove_files :: "qstring set \<Rightarrow> qstring list \<Rightarrow> qstring set \<Rightarrow> (qstring option) \<times> qstring set" where
  "remove_files stuck [] fs = (None, fs)"
| "remove_files stuck (f # rest) fs =
     (if f \<in> fs then (if f \<in> stuck then (Some f, fs) else remove_files stuck rest (fs - {f})) else remove_files stuck rest fs)"

definition deleteModelData :: "qstring \<Rightarrow> qstring set \<Rightarrow> qstring set \<Rightarrow> (error + unit) \<times> qstring set" where
  "deleteModelData path stuck fs =
     (if path = [] then (Inl (mk_error ''No storage path set. Cannot delete model data.'' (error_code_num ErrorInvalidArgument)), fs)
      else (case remove_files stuck database_files fs of
          (None, fs) \<Rightarrow> (Inr (), fs)
        | (Some f, fs) \<Rightarrow> (Inl (mk_error (''Failed to remove file '' @ [CHR 0x27] @ path @ ''/'' @ f) (error_code_num ErrorUnknown)), fs)))"

lemma remove_files_none: "remove_files stuck ns fs = (None, fs') \<Longrightarrow> fs' = fs - set ns"
  by (induction stuck ns fs rule: remove_files.induct) (auto split: if_splits)

lemma deleteModelData_deletes: "deleteModelData path stuck fs = (Inr (), fs') \<Longrightarrow> fs' = fs - set database_files"
  by (auto simp: deleteModelData_def split: if_splits prod.splits option.splits dest: remove_files_none)

definition virtuoso_features :: int where
  "virtuoso_features = or 0x10 (or 1 (or 2 (or 4 (or 8 0x40))))"

section \<open>The configuration file\<close>

definition int_setting :: "qt \<Rightarrow> setting list \<Rightarrow> qstring \<Rightarrow> int \<Rightarrow> int" where
  "int_setting q ss name d = as_int q (valueInSettings_user ss name (VInt (word_of_int d)))"

definition storage_file :: "qt \<Rightarrow> setting list \<Rightarrow> qstring \<Rightarrow> qstring" where
  "storage_file q ss f =
     (let dir = as_text q (valueInSettings ss BackendOptionStorageDir []) in (if dir \<noteq> [] \<and> last dir = CHR ''/'' then dir else dir @ ''/'') @ f)"

definition storage_entries :: "qt \<Rightarrow> setting list \<Rightarrow> (qstring \<times> qstring \<times> qstring) list" where
  "storage_entries q ss =
     (let file = storage_file q ss
      in [(''Database'', ''DatabaseFile'', file ''soprano-virtuoso.db''), (''Database'', ''ErrorLogFile'', file ''soprano-virtuoso.log''),
          (''Database'', ''TransactionFile'', file ''soprano-virtuoso.trx''), (''Database'', ''xa_persistent_file'', file ''soprano-virtuoso.pxa''),
          (''TempDatabase'', ''DatabaseFile'', file ''soprano-virtuoso-temp.db''), (''TempDatabase'', ''TransactionFile'', file ''soprano-virtuoso-temp.trx'')])"

definition config_entries :: "qt \<Rightarrow> setting list \<Rightarrow> int \<Rightarrow> (qstring \<times> qstring \<times> qstring) list" where
  "config_entries q ss port =
     (let buffers = int_setting q ss ''NumberOfBuffers'' (int_setting q ss ''buffers'' 2000);
          threads = int_setting q ss ''ServerThreads'' (int_setting q ss ''threads'' 100);
          dirty = int_setting q ss ''MaxDirtyBuffers'' ((let n = sint (word_of_int (2 * buffers) :: 32 word) in sgn n * (\<bar>n\<bar> div 3)));
          checkpoint = int_setting q ss ''CheckpointInterval'' (- 1);
          autosize = int_setting q ss ''MinAutoCheckpointSize'' (- 1)
      in storage_entries q ss @
         [(''TempDatabase'', ''MaxCheckpointRemap'', ''1000''), (''Parameters'', ''LiteMode'', ''1''), (''Parameters'', ''ServerPort'', show_int port),
          (''Parameters'', ''DisableTcpSocket'', ''1''), (''Parameters'', ''PrefixResultNames'', ''0''), (''Parameters'', ''ServerThreads'', show_int threads),
          (''Parameters'', ''NumberOfBuffers'', show_int buffers), (''Parameters'', ''MaxDirtyBuffers'', show_int dirty),
          (''Parameters'', ''SchedulerInterval'', ''5''), (''Parameters'', ''FreeTextBatchSize'', ''1000'')] @
         (if checkpoint \<ge> 0 then [(''Parameters'', ''CheckpointInterval'', show_int checkpoint)] else []) @
         (if autosize \<ge> 0 then [(''Parameters'', ''MinAutoCheckpointSize'', show_int autosize)] else []) @
         [(''I18N'', ''XAnyNormalization'', ''3'')])"

text \<open>The files of the configuration are the ones deleteModelData deletes.\<close>

lemma config_file:
  assumes "f \<in> set database_files"
  shows "\<exists>g k. (g, k, storage_file q ss f) \<in> set (config_entries q ss port)"
proof -
  have "(\<lambda>(g, k, v). v) ` set (storage_entries q ss) = storage_file q ss ` set database_files"
    by (simp add: storage_entries_def database_files_def Let_def)
  then have "storage_file q ss f \<in> (\<lambda>(g, k, v). v) ` set (storage_entries q ss)" by (metis assms imageI)
  then obtain e where e: "e \<in> set (storage_entries q ss)" "storage_file q ss f = (\<lambda>(g, k, v). v) e" by (rule imageE)
  obtain g k v where c: "e = (g, k, v)" by (cases e)
  have "set (storage_entries q ss) \<subseteq> set (config_entries q ss port)" unfolding config_entries_def Let_def set_append by (rule Un_upper1)
  from subsetD [OF this e(1)] have "(g, k, v) \<in> set (config_entries q ss port)" unfolding c .
  moreover have "v = storage_file q ss f" using e(2) unfolding c prod.case by (rule sym)
  ultimately show ?thesis by (intro exI) (erule subst)
qed

section \<open>Indexes\<close>

definition normalizeIndexNames :: "qstring list \<Rightarrow> qstring list" where
  "normalizeIndexNames is = map toUpper is"

definition verifyIndex :: "qstring \<Rightarrow> bool" where
  "verifyIndex i =
     (if length i \<noteq> 4 then False else if CHR ''S'' \<notin> set i then False else if CHR ''P'' \<notin> set i then False
      else if CHR ''O'' \<notin> set i then False else if CHR ''G'' \<notin> set i then False else True)"

definition defaultIndexes :: "qstring list" where
  "defaultIndexes = [''SPOG'', ''POSG'', ''OPSG'', ''GSPO'', ''GPOS'']"

text \<open>An index orders the four columns.\<close>

lemma verifyIndex_orders: "verifyIndex i \<longleftrightarrow> mset i = mset ''SPOG''"
proof
  assume v: "verifyIndex i"
  then have "set ''SPOG'' \<subseteq> set i" "length i = length ''SPOG''" by (auto simp: verifyIndex_def split: if_splits)
  moreover have "distinct ''SPOG''" by simp
  ultimately have s: "set i = set ''SPOG'' \<and> distinct i"
    by (metis List.finite_set card_distinct card_length card_seteq distinct_card)
  then show "mset i = mset ''SPOG''" by (intro set_eq_iff_mset_eq_distinct[THEN iffD1]) auto
next
  assume m: "mset i = mset ''SPOG''"
  then have "length i = 4" using mset_eq_length[OF m] by simp
  moreover have "set i = set ''SPOG''" by (rule mset_eq_setD[OF m])
  ultimately show "verifyIndex i" by (simp add: verifyIndex_def)
qed

definition drop_command :: "qstring \<Rightarrow> qstring" where
  "drop_command i = ''DROP INDEX RDF_QUAD_'' @ toUpper i"

definition create_command :: "qstring \<Rightarrow> qstring" where
  "create_command i = fold (\<lambda>a s. q_arg s a) [i, [i ! 0], [i ! 1], [i ! 2], [i ! 3], if i ! 3 \<noteq> CHR ''O'' then ''bitmap'' else []]
     ''create %6 index RDF_QUAD_%1 on DB.DBA.RDF_QUAD (%2, %3, %4, %5) partition (O varchar (-1, 0hexffff))''"

lemma create_command_text: "create_command ''GSPO'' = ''create  index RDF_QUAD_GSPO on DB.DBA.RDF_QUAD (G, S, P, O) partition (O varchar (-1, 0hexffff))''"
  by code_simp

text \<open>The changes: the indexes to drop and to create. A set of Qt goes through its elements in an order of its own, here that of
  the lists.\<close>

definition index_changes :: "qstring list \<Rightarrow> qstring list \<Rightarrow> qstring list \<times> qstring list" where
  "index_changes requested current =
     (let indexes = normalizeIndexNames requested;
          indexes = (if indexes = [] then defaultIndexes else indexes);
          indexes = sort indexes; current = sort current
      in if current = [] \<or> indexes \<noteq> current then
           (filter (\<lambda>i. i \<notin> set indexes) (remdups current), filter (\<lambda>i. i \<notin> set current \<and> verifyIndex i) (remdups indexes))
         else ([], []))"

definition updateIndexes :: "qstring \<Rightarrow> qstring list \<Rightarrow> qstring list" where
  "updateIndexes indexes current =
     (case index_changes (filter (\<lambda>s. s \<noteq> []) (split_on (CHR '','') indexes)) current of (ds, cs) \<Rightarrow> map drop_command ds @ map create_command cs)"

definition wanted_indexes :: "qstring list \<Rightarrow> qstring set" where
  "wanted_indexes requested = (if requested = [] then set defaultIndexes else toUpper ` set requested)"

text \<open>carrying out the changes leaves exactly the indexes that are asked for, those that order the four columns or
  were there before; the default indexes when none is named.\<close>

theorem index_changes_reach_wanted:
  assumes "index_changes requested current = (drops, creates)"
  shows "(set current - set drops) \<union> set creates = {i \<in> wanted_indexes requested. verifyIndex i \<or> i \<in> set current}
    \<and> set drops \<subseteq> set current \<and> set creates \<inter> set current = {} \<and> distinct (drops @ creates)"
proof -
  let ?ix = "if normalizeIndexNames requested = [] then defaultIndexes else normalizeIndexNames requested"
  have w: "set ?ix = wanted_indexes requested" by (simp add: wanted_indexes_def normalizeIndexNames_def)
  show ?thesis
  proof (cases "sort current = [] \<or> sort ?ix \<noteq> sort current")
    case True
    then have "drops = filter (\<lambda>i. i \<notin> set ?ix) (remdups (sort current))"
        "creates = filter (\<lambda>i. i \<notin> set current \<and> verifyIndex i) (remdups (sort ?ix))"
      using assms by (auto simp: index_changes_def Let_def simp del: sort_key_simps split: if_splits)
    then show ?thesis unfolding w[symmetric] by auto
  next
    case False
    then have d: "drops = []" "creates = []" using assms by (auto simp: index_changes_def Let_def)
    have "set current = set ?ix" using False by (metis set_sort)
    then show ?thesis using d unfolding w[symmetric] by auto
  qed
qed

theorem index_changes_reach_wanted_witness:
  "(set [''SPOG'', ''POGS''] - set [''POGS'']) \<union> set [''GSPO''] = {i \<in> wanted_indexes [''spog'', ''gspo'', ''xyz'']. verifyIndex i \<or> i \<in> set [''SPOG'', ''POGS'']}"
proof -
  have "index_changes [''spog'', ''gspo'', ''xyz''] [''SPOG'', ''POGS''] = ([''POGS''], [''GSPO''])" by code_simp
  then show ?thesis using index_changes_reach_wanted by blast
qed

section \<open>The full text index\<close>

definition updateFulltextIndexRules :: "bool \<Rightarrow> qstring option \<Rightarrow> qstring option" where
  "updateFulltextIndexRules enable rule =
     (let haveRule = (rule \<noteq> None); ruleName = (case rule of Some name \<Rightarrow> if name \<noteq> [] then name else ''Soprano'' | None \<Rightarrow> ''Soprano'')
      in if enable \<and> \<not> haveRule then Some (''DB.DBA.RDF_OBJ_FT_RULE_ADD( null, null, '' @ [CHR 0x27] @ ruleName @ [CHR 0x27] @ '' )'')
         else if \<not> enable \<and> haveRule then Some (''DB.DBA.RDF_OBJ_FT_RULE_DEL( null, null, '' @ [CHR 0x27] @ ruleName @ [CHR 0x27] @ '' )'')
         else None)"

text \<open>\<open>rule\<close> is the name read for an existing rule. The texts sent for a state: a number is the interval of a batch update, \<open>sync\<close> turns
  batches off, anything else turns the index off.\<close>

definition updateFulltextIndexState :: "qstring \<Rightarrow> qstring option \<Rightarrow> qstring list" where
  "updateFulltextIndexState state rule =
     (let interval = (parse_in (- (2 ^ 31)) (2 ^ 31 - 1) state \<noteq> None); syncUpdating = (toLower state = ''sync''); enable = syncUpdating \<or> interval
      in (case updateFulltextIndexRules enable rule of None \<Rightarrow> [] | Some c \<Rightarrow> [c]) @
         [''DB.DBA.VT_BATCH_UPDATE ('' @ [CHR 0x27] @ ''DB.DBA.RDF_OBJ'' @ [CHR 0x27] @ '', '' @ [CHR 0x27] @
          (if enable \<and> \<not> syncUpdating then ''ON'' else ''OFF'') @ [CHR 0x27] @ '', '' @ (if enable \<and> interval then state else ''null'') @ '')''])"

definition configureServer :: "qt \<Rightarrow> setting list \<Rightarrow> qstring list \<Rightarrow> qstring option \<Rightarrow> qstring list" where
  "configureServer q ss current rule =
     (let indexes = as_text q (valueInSettings_user ss ''indexes'' VInvalid);
          fulltext = as_text q (valueInSettings ss BackendOptionUser ''fulltextindex'')
      in (if indexes \<noteq> [] then updateIndexes indexes current else []) @
         (if fulltext \<noteq> [] then updateFulltextIndexState fulltext rule else []))"

lemma fulltext_states:
  "updateFulltextIndexState ''sync'' None = [''DB.DBA.RDF_OBJ_FT_RULE_ADD( null, null, '' @ [CHR 0x27] @ ''Soprano'' @ [CHR 0x27] @ '' )'',
     ''DB.DBA.VT_BATCH_UPDATE ('' @ [CHR 0x27] @ ''DB.DBA.RDF_OBJ'' @ [CHR 0x27] @ '', '' @ [CHR 0x27] @ ''OFF'' @ [CHR 0x27] @ '', null)'']"
  by code_simp

end
