(* ===== verification/Query_Class.thy ===== *)
theory Query_Class
  imports Rdf_Node
begin

text \<open>
  The classes of parsed queries (soprano/query/query.h, query.cpp). A class is described by what tells it from the others: the base with its
  private data, that is the sorts of the objects it owns, what its setter does with the object it replaces, and what its
  clone and accept name. The behaviour all of them share is in Query_Heap.
\<close>

section \<open>Sorts and data\<close>

text \<open>The C++ types of the pointers: what is expected at a place.\<close>

datatype query_sort = RTermSort | VariableSort | BooleanSort | NumericalSort | StringSort | QueryTermsSort | QuerySort

text \<open>A Variable is an RTerm.\<close>

definition fits_sort :: "query_sort \<Rightarrow> query_sort \<Rightarrow> bool" where
  "fits_sort s t \<longleftrightarrow> s = t \<or> (s = VariableSort \<and> t = RTermSort)"

text \<open>The QVariant of a Numerical; a float is a type of its own there.\<close>

datatype number = NoNumber | IntNumber "32 word" | DoubleNumber u64 | FloatNumber "32 word"

datatype query_type = INVALID_QUERY | GRAPH_QUERY | SELECT_QUERY | BOOLEAN_QUERY

text \<open>The members of the private classes beside the pointers. The type of a query is not set by the constructor without
  arguments.\<close>

datatype query_data =
    NoData
  | NameData qstring
  | NodeData node
  | NumberData number
  | TextData qstring
  | TimesData qdatetime qdatetime
  | RegexpData qstring qstring
  | QueryData "(qstring \<times> qurl) list" "query_type option"

datatype data_kind = NoKind | NameKind | NodeKind | NumberKind | TextKind | TimesKind | RegexpKind | QueryKind

fun kind_of_data :: "query_data \<Rightarrow> data_kind" where
  "kind_of_data NoData = NoKind" | "kind_of_data (NameData _) = NameKind" | "kind_of_data (NodeData _) = NodeKind"
| "kind_of_data (NumberData _) = NumberKind" | "kind_of_data (TextData _) = TextKind" | "kind_of_data (TimesData _ _) = TimesKind"
| "kind_of_data (RegexpData _ _) = RegexpKind" | "kind_of_data (QueryData _ _) = QueryKind"

text \<open>What a copy of the private data takes over: the copy constructor of Query::Private forgets the prefixes.\<close>

fun copy_data :: "query_data \<Rightarrow> query_data" where
  "copy_data (QueryData ps t) = QueryData [] t"
| "copy_data d = d"

text \<open>A setter compares the new pointer with the old one before it deletes that, or it deletes the old one in any case, or it
  forgets the old one; some classes only append.\<close>

datatype query_setter = NoSetter | CheckedSetter | PlainSetter | DeletingSetter | Appender

record query_base =
  base_sort :: query_sort
  slot_sorts :: "query_sort list"
  rest_sort :: "query_sort option"
  setter :: query_setter
  kind :: data_kind

section \<open>Bases\<close>

definition Variable_base :: query_base where
  "Variable_base = \<lparr> base_sort = VariableSort, slot_sorts = [], rest_sort = None,
     setter = NoSetter, kind = NameKind \<rparr>"

definition Node_base :: query_base where
  "Node_base = \<lparr> base_sort = RTermSort, slot_sorts = [], rest_sort = None,
     setter = NoSetter, kind = NodeKind \<rparr>"

definition Numerical_base :: query_base where
  "Numerical_base = \<lparr> base_sort = NumericalSort, slot_sorts = [], rest_sort = None,
     setter = NoSetter, kind = NumberKind \<rparr>"

definition String_base :: query_base where
  "String_base = \<lparr> base_sort = StringSort, slot_sorts = [], rest_sort = None,
     setter = NoSetter, kind = TextKind \<rparr>"

definition UnaryBooleanExpression :: query_base where
  "UnaryBooleanExpression = \<lparr> base_sort = BooleanSort, slot_sorts = [BooleanSort], rest_sort = None,
     setter = CheckedSetter, kind = NoKind \<rparr>"

definition UnaryRTermBooleanExpression :: query_base where
  "UnaryRTermBooleanExpression = \<lparr> base_sort = BooleanSort, slot_sorts = [RTermSort], rest_sort = None,
     setter = PlainSetter, kind = NoKind \<rparr>"

definition UnaryRTermStringExpression :: query_base where
  "UnaryRTermStringExpression = \<lparr> base_sort = StringSort, slot_sorts = [RTermSort], rest_sort = None,
     setter = PlainSetter, kind = NoKind \<rparr>"

definition UnaryRTermNumericalExpression :: query_base where
  "UnaryRTermNumericalExpression = \<lparr> base_sort = NumericalSort, slot_sorts = [RTermSort], rest_sort = None,
     setter = PlainSetter, kind = NoKind \<rparr>"

definition UnaryNumericalExpression :: query_base where
  "UnaryNumericalExpression = \<lparr> base_sort = NumericalSort, slot_sorts = [NumericalSort], rest_sort = None,
     setter = CheckedSetter, kind = NoKind \<rparr>"

definition IsBound_base :: query_base where
  "IsBound_base = \<lparr> base_sort = BooleanSort, slot_sorts = [VariableSort], rest_sort = None,
     setter = PlainSetter, kind = NoKind \<rparr>"

definition BooleanSetExpression :: query_base where
  "BooleanSetExpression = \<lparr> base_sort = BooleanSort, slot_sorts = [], rest_sort = Some BooleanSort,
     setter = Appender, kind = NoKind \<rparr>"

definition BinaryNumericalBooleanExpression :: query_base where
  "BinaryNumericalBooleanExpression = \<lparr> base_sort = BooleanSort, slot_sorts = [NumericalSort, NumericalSort], rest_sort = None,
     setter = PlainSetter, kind = NoKind \<rparr>"

definition BinaryStringBooleanExpression :: query_base where
  "BinaryStringBooleanExpression = \<lparr> base_sort = BooleanSort, slot_sorts = [StringSort, StringSort], rest_sort = None,
     setter = PlainSetter, kind = NoKind \<rparr>"

definition BinaryDateTimeBooleanExpression :: query_base where
  "BinaryDateTimeBooleanExpression = \<lparr> base_sort = BooleanSort, slot_sorts = [], rest_sort = None,
     setter = NoSetter, kind = TimesKind \<rparr>"

definition BinaryRTermBooleanExpression :: query_base where
  "BinaryRTermBooleanExpression = \<lparr> base_sort = BooleanSort, slot_sorts = [RTermSort, RTermSort], rest_sort = None,
     setter = PlainSetter, kind = NoKind \<rparr>"

definition BinaryNumericalExpression :: query_base where
  "BinaryNumericalExpression = \<lparr> base_sort = NumericalSort, slot_sorts = [NumericalSort, NumericalSort], rest_sort = None,
     setter = PlainSetter, kind = NoKind \<rparr>"

definition Regexp_base :: query_base where
  "Regexp_base = \<lparr> base_sort = BooleanSort, slot_sorts = [StringSort], rest_sort = None,
     setter = CheckedSetter, kind = RegexpKind \<rparr>"

definition TriplePattern_base :: query_base where
  "TriplePattern_base = \<lparr> base_sort = BooleanSort, slot_sorts = [RTermSort, RTermSort, RTermSort], rest_sort = None,
     setter = DeletingSetter, kind = NoKind \<rparr>"

definition QueryTerms_base :: query_base where
  "QueryTerms_base = \<lparr> base_sort = QueryTermsSort, slot_sorts = [], rest_sort = Some VariableSort,
     setter = Appender, kind = NoKind \<rparr>"

definition Query_base :: query_base where
  "Query_base = \<lparr> base_sort = QuerySort, slot_sorts = [BooleanSort, QueryTermsSort], rest_sort = None,
     setter = DeletingSetter, kind = QueryKind \<rparr>"

lemmas base_defs =
  Variable_base_def Node_base_def Numerical_base_def String_base_def UnaryBooleanExpression_def UnaryRTermBooleanExpression_def
  UnaryRTermStringExpression_def UnaryRTermNumericalExpression_def UnaryNumericalExpression_def IsBound_base_def BooleanSetExpression_def BinaryNumericalBooleanExpression_def
  BinaryStringBooleanExpression_def BinaryDateTimeBooleanExpression_def BinaryRTermBooleanExpression_def BinaryNumericalExpression_def Regexp_base_def TriplePattern_base_def
  QueryTerms_base_def Query_base_def

section \<open>Classes\<close>

datatype query_class =
    CVariable | CNumerical | CNode | CString | CNot | CNegate
  | CIsBound | CIsIRI | CIsBlank | CIsLiteral | CStringValue | CNumericalValue
  | CLangValue | CDataTypeValue | CLogicOr | CLogicAnd | CNumericalEqual | CNumericalNotEqual
  | CStringEqual | CStringNotEqual | CDateTimeEqual | CDateTimeNotEqual | CNumericalLessThan | CNumericalGreaterThan
  | CNumericalLessThanEqual | CNumericalGreaterThanEqual | CStringLessThan | CStringGreaterThan | CStringLessThanEqual | CStringGreaterThanEqual
  | CDateTimeLessThan | CDateTimeGreaterThan | CDateTimeLessThanEqual | CDateTimeGreaterThanEqual | CNumericalMultiply | CNumericalDivide
  | CNumericalAdd | CNumericalSubtract | CRTermEqual | CRTermNotEqual | CLangMatches | CRegexp
  | CTriplePattern | CQueryTerms | CQuery

text \<open>What clone makes, and the function of the visitor accept calls; terms are not visited.\<close>

record query_class_info =
  info_base :: query_base
  info_clone :: query_class
  info_visit :: "query_class option"

definition Variable_class :: query_class_info where
  "Variable_class = \<lparr> info_base = Variable_base, info_clone = CVariable, info_visit = None \<rparr>"

definition Numerical_class :: query_class_info where
  "Numerical_class = \<lparr> info_base = Numerical_base, info_clone = CNumerical, info_visit = Some CNumerical \<rparr>"

definition Node_class :: query_class_info where
  "Node_class = \<lparr> info_base = Node_base, info_clone = CNode, info_visit = None \<rparr>"

definition String_class :: query_class_info where
  "String_class = \<lparr> info_base = String_base, info_clone = CString, info_visit = Some CString \<rparr>"

definition Not_class :: query_class_info where
  "Not_class = \<lparr> info_base = UnaryBooleanExpression, info_clone = CNot, info_visit = Some CNot \<rparr>"

definition Negate_class :: query_class_info where
  "Negate_class = \<lparr> info_base = UnaryNumericalExpression, info_clone = CNegate, info_visit = Some CNegate \<rparr>"

definition IsBound_class :: query_class_info where
  "IsBound_class = \<lparr> info_base = IsBound_base, info_clone = CIsBound, info_visit = Some CIsBound \<rparr>"

definition IsIRI_class :: query_class_info where
  "IsIRI_class = \<lparr> info_base = UnaryRTermBooleanExpression, info_clone = CIsIRI, info_visit = Some CIsIRI \<rparr>"

definition IsBlank_class :: query_class_info where
  "IsBlank_class = \<lparr> info_base = UnaryRTermBooleanExpression, info_clone = CIsBlank, info_visit = Some CIsBlank \<rparr>"

definition IsLiteral_class :: query_class_info where
  "IsLiteral_class = \<lparr> info_base = UnaryRTermBooleanExpression, info_clone = CIsLiteral, info_visit = Some CIsLiteral \<rparr>"

definition StringValue_class :: query_class_info where
  "StringValue_class = \<lparr> info_base = UnaryRTermStringExpression, info_clone = CStringValue, info_visit = Some CStringValue \<rparr>"

definition NumericalValue_class :: query_class_info where
  "NumericalValue_class = \<lparr> info_base = UnaryRTermNumericalExpression, info_clone = CNumericalValue, info_visit = Some CNumericalValue \<rparr>"

definition LangValue_class :: query_class_info where
  "LangValue_class = \<lparr> info_base = UnaryRTermStringExpression, info_clone = CLangValue, info_visit = Some CLangValue \<rparr>"

definition DataTypeValue_class :: query_class_info where
  "DataTypeValue_class = \<lparr> info_base = UnaryRTermStringExpression, info_clone = CDataTypeValue, info_visit = Some CDataTypeValue \<rparr>"

definition LogicOr_class :: query_class_info where
  "LogicOr_class = \<lparr> info_base = BooleanSetExpression, info_clone = CLogicOr, info_visit = Some CLogicOr \<rparr>"

definition LogicAnd_class :: query_class_info where
  "LogicAnd_class = \<lparr> info_base = BooleanSetExpression, info_clone = CLogicAnd, info_visit = Some CLogicAnd \<rparr>"

definition NumericalEqual_class :: query_class_info where
  "NumericalEqual_class = \<lparr> info_base = BinaryNumericalBooleanExpression, info_clone = CNumericalEqual, info_visit = Some CNumericalEqual \<rparr>"

definition NumericalNotEqual_class :: query_class_info where
  "NumericalNotEqual_class = \<lparr> info_base = BinaryNumericalBooleanExpression, info_clone = CNumericalNotEqual, info_visit = Some CNumericalNotEqual \<rparr>"

definition StringEqual_class :: query_class_info where
  "StringEqual_class = \<lparr> info_base = BinaryStringBooleanExpression, info_clone = CStringEqual, info_visit = Some CStringEqual \<rparr>"

definition StringNotEqual_class :: query_class_info where
  "StringNotEqual_class = \<lparr> info_base = BinaryStringBooleanExpression, info_clone = CStringNotEqual, info_visit = Some CStringNotEqual \<rparr>"

definition DateTimeEqual_class :: query_class_info where
  "DateTimeEqual_class = \<lparr> info_base = BinaryDateTimeBooleanExpression, info_clone = CDateTimeEqual, info_visit = Some CDateTimeEqual \<rparr>"

definition DateTimeNotEqual_class :: query_class_info where
  "DateTimeNotEqual_class = \<lparr> info_base = BinaryDateTimeBooleanExpression, info_clone = CDateTimeNotEqual, info_visit = Some CDateTimeNotEqual \<rparr>"

definition NumericalLessThan_class :: query_class_info where
  "NumericalLessThan_class = \<lparr> info_base = BinaryNumericalBooleanExpression, info_clone = CNumericalLessThan, info_visit = Some CNumericalLessThan \<rparr>"

definition NumericalGreaterThan_class :: query_class_info where
  "NumericalGreaterThan_class = \<lparr> info_base = BinaryNumericalBooleanExpression, info_clone = CNumericalGreaterThan, info_visit = Some CNumericalGreaterThan \<rparr>"

definition NumericalLessThanEqual_class :: query_class_info where
  "NumericalLessThanEqual_class = \<lparr> info_base = BinaryNumericalBooleanExpression, info_clone = CNumericalLessThanEqual, info_visit = Some CNumericalLessThanEqual \<rparr>"

definition NumericalGreaterThanEqual_class :: query_class_info where
  "NumericalGreaterThanEqual_class = \<lparr> info_base = BinaryNumericalBooleanExpression, info_clone = CNumericalGreaterThanEqual, info_visit = Some CNumericalGreaterThanEqual \<rparr>"

definition StringLessThan_class :: query_class_info where
  "StringLessThan_class = \<lparr> info_base = BinaryStringBooleanExpression, info_clone = CStringLessThan, info_visit = Some CStringLessThan \<rparr>"

definition StringGreaterThan_class :: query_class_info where
  "StringGreaterThan_class = \<lparr> info_base = BinaryStringBooleanExpression, info_clone = CStringGreaterThan, info_visit = Some CStringGreaterThan \<rparr>"

definition StringLessThanEqual_class :: query_class_info where
  "StringLessThanEqual_class = \<lparr> info_base = BinaryStringBooleanExpression, info_clone = CStringLessThanEqual, info_visit = Some CStringLessThanEqual \<rparr>"

definition StringGreaterThanEqual_class :: query_class_info where
  "StringGreaterThanEqual_class = \<lparr> info_base = BinaryStringBooleanExpression, info_clone = CStringGreaterThanEqual, info_visit = Some CStringGreaterThanEqual \<rparr>"

definition DateTimeLessThan_class :: query_class_info where
  "DateTimeLessThan_class = \<lparr> info_base = BinaryDateTimeBooleanExpression, info_clone = CDateTimeLessThan, info_visit = Some CDateTimeLessThan \<rparr>"

definition DateTimeGreaterThan_class :: query_class_info where
  "DateTimeGreaterThan_class = \<lparr> info_base = BinaryDateTimeBooleanExpression, info_clone = CDateTimeGreaterThan, info_visit = Some CDateTimeGreaterThan \<rparr>"

definition DateTimeLessThanEqual_class :: query_class_info where
  "DateTimeLessThanEqual_class = \<lparr> info_base = BinaryDateTimeBooleanExpression, info_clone = CDateTimeLessThanEqual, info_visit = Some CDateTimeLessThanEqual \<rparr>"

definition DateTimeGreaterThanEqual_class :: query_class_info where
  "DateTimeGreaterThanEqual_class = \<lparr> info_base = BinaryDateTimeBooleanExpression, info_clone = CDateTimeGreaterThanEqual, info_visit = Some CDateTimeGreaterThanEqual \<rparr>"

definition NumericalMultiply_class :: query_class_info where
  "NumericalMultiply_class = \<lparr> info_base = BinaryNumericalExpression, info_clone = CNumericalMultiply, info_visit = Some CNumericalMultiply \<rparr>"

definition NumericalDivide_class :: query_class_info where
  "NumericalDivide_class = \<lparr> info_base = BinaryNumericalExpression, info_clone = CNumericalDivide, info_visit = Some CNumericalDivide \<rparr>"

definition NumericalAdd_class :: query_class_info where
  "NumericalAdd_class = \<lparr> info_base = BinaryNumericalExpression, info_clone = CNumericalAdd, info_visit = Some CNumericalAdd \<rparr>"

definition NumericalSubtract_class :: query_class_info where
  "NumericalSubtract_class = \<lparr> info_base = BinaryNumericalExpression, info_clone = CNumericalSubtract, info_visit = Some CNumericalSubtract \<rparr>"

definition RTermEqual_class :: query_class_info where
  "RTermEqual_class = \<lparr> info_base = BinaryRTermBooleanExpression, info_clone = CRTermEqual, info_visit = Some CRTermEqual \<rparr>"

definition RTermNotEqual_class :: query_class_info where
  "RTermNotEqual_class = \<lparr> info_base = BinaryRTermBooleanExpression, info_clone = CRTermNotEqual, info_visit = Some CRTermNotEqual \<rparr>"

definition LangMatches_class :: query_class_info where
  "LangMatches_class = \<lparr> info_base = BinaryStringBooleanExpression, info_clone = CLangMatches, info_visit = Some CLangMatches \<rparr>"

definition Regexp_class :: query_class_info where
  "Regexp_class = \<lparr> info_base = Regexp_base, info_clone = CRegexp, info_visit = Some CRegexp \<rparr>"

definition TriplePattern_class :: query_class_info where
  "TriplePattern_class = \<lparr> info_base = TriplePattern_base, info_clone = CTriplePattern, info_visit = Some CTriplePattern \<rparr>"

definition QueryTerms_class :: query_class_info where
  "QueryTerms_class = \<lparr> info_base = QueryTerms_base, info_clone = CQueryTerms, info_visit = None \<rparr>"

definition Query_class :: query_class_info where
  "Query_class = \<lparr> info_base = Query_base, info_clone = CQuery, info_visit = None \<rparr>"

lemmas class_defs =
  Variable_class_def Numerical_class_def Node_class_def String_class_def Not_class_def Negate_class_def
  IsBound_class_def IsIRI_class_def IsBlank_class_def IsLiteral_class_def StringValue_class_def NumericalValue_class_def
  LangValue_class_def DataTypeValue_class_def LogicOr_class_def LogicAnd_class_def NumericalEqual_class_def NumericalNotEqual_class_def
  StringEqual_class_def StringNotEqual_class_def DateTimeEqual_class_def DateTimeNotEqual_class_def NumericalLessThan_class_def NumericalGreaterThan_class_def
  NumericalLessThanEqual_class_def NumericalGreaterThanEqual_class_def StringLessThan_class_def StringGreaterThan_class_def StringLessThanEqual_class_def StringGreaterThanEqual_class_def
  DateTimeLessThan_class_def DateTimeGreaterThan_class_def DateTimeLessThanEqual_class_def DateTimeGreaterThanEqual_class_def NumericalMultiply_class_def NumericalDivide_class_def
  NumericalAdd_class_def NumericalSubtract_class_def RTermEqual_class_def RTermNotEqual_class_def LangMatches_class_def Regexp_class_def
  TriplePattern_class_def QueryTerms_class_def Query_class_def

primrec class_info :: "query_class \<Rightarrow> query_class_info" where
  "class_info CVariable = Variable_class"
| "class_info CNumerical = Numerical_class"
| "class_info CNode = Node_class"
| "class_info CString = String_class"
| "class_info CNot = Not_class"
| "class_info CNegate = Negate_class"
| "class_info CIsBound = IsBound_class"
| "class_info CIsIRI = IsIRI_class"
| "class_info CIsBlank = IsBlank_class"
| "class_info CIsLiteral = IsLiteral_class"
| "class_info CStringValue = StringValue_class"
| "class_info CNumericalValue = NumericalValue_class"
| "class_info CLangValue = LangValue_class"
| "class_info CDataTypeValue = DataTypeValue_class"
| "class_info CLogicOr = LogicOr_class"
| "class_info CLogicAnd = LogicAnd_class"
| "class_info CNumericalEqual = NumericalEqual_class"
| "class_info CNumericalNotEqual = NumericalNotEqual_class"
| "class_info CStringEqual = StringEqual_class"
| "class_info CStringNotEqual = StringNotEqual_class"
| "class_info CDateTimeEqual = DateTimeEqual_class"
| "class_info CDateTimeNotEqual = DateTimeNotEqual_class"
| "class_info CNumericalLessThan = NumericalLessThan_class"
| "class_info CNumericalGreaterThan = NumericalGreaterThan_class"
| "class_info CNumericalLessThanEqual = NumericalLessThanEqual_class"
| "class_info CNumericalGreaterThanEqual = NumericalGreaterThanEqual_class"
| "class_info CStringLessThan = StringLessThan_class"
| "class_info CStringGreaterThan = StringGreaterThan_class"
| "class_info CStringLessThanEqual = StringLessThanEqual_class"
| "class_info CStringGreaterThanEqual = StringGreaterThanEqual_class"
| "class_info CDateTimeLessThan = DateTimeLessThan_class"
| "class_info CDateTimeGreaterThan = DateTimeGreaterThan_class"
| "class_info CDateTimeLessThanEqual = DateTimeLessThanEqual_class"
| "class_info CDateTimeGreaterThanEqual = DateTimeGreaterThanEqual_class"
| "class_info CNumericalMultiply = NumericalMultiply_class"
| "class_info CNumericalDivide = NumericalDivide_class"
| "class_info CNumericalAdd = NumericalAdd_class"
| "class_info CNumericalSubtract = NumericalSubtract_class"
| "class_info CRTermEqual = RTermEqual_class"
| "class_info CRTermNotEqual = RTermNotEqual_class"
| "class_info CLangMatches = LangMatches_class"
| "class_info CRegexp = Regexp_class"
| "class_info CTriplePattern = TriplePattern_class"
| "class_info CQueryTerms = QueryTerms_class"
| "class_info CQuery = Query_class"

abbreviation class_base :: "query_class \<Rightarrow> query_base" where
  "class_base c \<equiv> info_base (class_info c)"

text \<open>Every class clones itself and is visited as itself, and classes with pointers have setters for them.\<close>

lemma clone_class [simp]: "info_clone (class_info c) = c"
  by (cases c) (simp_all add: class_defs)

lemma visit_class: "info_visit (class_info c) = None \<or> info_visit (class_info c) = Some c"
  by (cases c) (simp_all add: class_defs)

lemma visited_sorts: "info_visit (class_info c) = Some c \<longleftrightarrow> base_sort (class_base c) \<in> {BooleanSort, NumericalSort, StringSort}"
  by (cases c) (simp_all add: class_defs base_defs)

lemma slots_or_rest: "slot_sorts (class_base c) = [] \<or> rest_sort (class_base c) = None"
  by (cases c) (simp_all add: class_defs base_defs)

lemma appender_rest: "setter (class_base c) = Appender \<longleftrightarrow> rest_sort (class_base c) \<noteq> None"
  by (cases c) (simp_all add: class_defs base_defs)

lemma slots_setter: "slot_sorts (class_base c) \<noteq> [] \<Longrightarrow> setter (class_base c) \<in> {CheckedSetter, PlainSetter, DeletingSetter}"
  by (cases c) (simp_all add: class_defs base_defs)

text \<open>Numericals.\<close>

definition isDouble :: "number \<Rightarrow> bool" where
  "isDouble n \<longleftrightarrow> (case n of DoubleNumber _ \<Rightarrow> True | _ \<Rightarrow> False)"

definition isFloat :: "number \<Rightarrow> bool" where
  "isFloat n \<longleftrightarrow> (case n of FloatNumber _ \<Rightarrow> True | _ \<Rightarrow> False)"

definition isDecimal :: "number \<Rightarrow> bool" where
  "isDecimal n \<longleftrightarrow> isDouble n \<or> isFloat n"

definition isInteger :: "number \<Rightarrow> bool" where
  "isInteger n \<longleftrightarrow> (case n of IntNumber _ \<Rightarrow> True | _ \<Rightarrow> False)"

lemma number_cases: "n \<noteq> NoNumber \<Longrightarrow> isDecimal n \<noteq> isInteger n"
  by (cases n) (simp_all add: isDecimal_def isDouble_def isFloat_def isInteger_def)

end
