(* ===== verification/Query_Heap.thy ===== *)
theory Query_Heap
  imports Query_Class "HOL-Library.Multiset" "HOL-Library.Monad_Syntax"
begin

text \<open>
  The objects of parsed queries in memory (soprano/query/query.cpp). Every object holds a QSharedDataPointer to private data,
  which objects share; the private data own further objects through plain pointers. Copying an object shares its data, and
  the first change of shared data copies them first. An access to memory that is not there makes an operation \<open>None\<close>.
\<close>

section \<open>Memory\<close>

type_synonym ptr = nat

record query_private =
  refs :: nat
  kids :: "ptr option list"
  qdata :: query_data

record query_heap =
  objects :: "ptr \<rightharpoonup> query_class \<times> ptr"
  privates :: "ptr \<rightharpoonup> query_private"
  next_ptr :: ptr

definition empty_heap :: query_heap where
  "empty_heap = \<lparr> objects = Map.empty, privates = Map.empty, next_ptr = 0 \<rparr>"

text \<open>The pointers that are not null.\<close>

primrec pointers :: "ptr option list \<Rightarrow> ptr list" where
  "pointers [] = []"
| "pointers (k # ks) = (case k of None \<Rightarrow> pointers ks | Some x \<Rightarrow> x # pointers ks)"

definition private_of :: "ptr \<Rightarrow> query_heap \<Rightarrow> query_private option" where
  "private_of x H = (case objects H x of None \<Rightarrow> None | Some (c, p) \<Rightarrow> privates H p)"

text \<open>Changing the private data of an object in place.\<close>

definition write_private :: "ptr \<Rightarrow> ptr option list \<Rightarrow> query_data \<Rightarrow> query_heap \<Rightarrow> query_heap option" where
  "write_private x ks d H = (case objects H x of None \<Rightarrow> None | Some (c, p) \<Rightarrow>
     (case privates H p of None \<Rightarrow> None | Some P \<Rightarrow>
       Some (H\<lparr>privates := (privates H)(p \<mapsto> P\<lparr>kids := ks, qdata := d\<rparr>)\<rparr>)))"

section \<open>Making, copying and deleting\<close>

text \<open>A constructor: an object with private data of its own.\<close>

definition new_object :: "query_class \<Rightarrow> ptr option list \<Rightarrow> query_data \<Rightarrow> query_heap \<Rightarrow> ptr \<times> query_heap" where
  "new_object c ks d H = (next_ptr H,
     H\<lparr>objects := (objects H)(next_ptr H \<mapsto> (c, Suc (next_ptr H))),
       privates := (privates H)(Suc (next_ptr H) \<mapsto> \<lparr> refs = 1, kids = ks, qdata = d \<rparr>), next_ptr := next_ptr H + 2\<rparr>)"

text \<open>The copy constructor behind clone: the data are shared.\<close>

definition clone_object :: "ptr \<Rightarrow> query_heap \<Rightarrow> (ptr \<times> query_heap) option" where
  "clone_object x H = (case objects H x of None \<Rightarrow> None | Some (c, p) \<Rightarrow>
     (case privates H p of None \<Rightarrow> None | Some P \<Rightarrow>
       Some (next_ptr H, H\<lparr>objects := (objects H)(next_ptr H \<mapsto> (info_clone (class_info c), p)),
         privates := (privates H)(p \<mapsto> P\<lparr>refs := Suc (refs P)\<rparr>), next_ptr := Suc (next_ptr H)\<rparr>)))"

text \<open>The copy constructors of the private classes clone every object that is not null.\<close>

fun clone_kids :: "ptr option list \<Rightarrow> query_heap \<Rightarrow> (ptr option list \<times> query_heap) option" where
  "clone_kids [] H = Some ([], H)"
| "clone_kids (None # ks) H = do { (ks', H) \<leftarrow> clone_kids ks H; Some (None # ks', H) }"
| "clone_kids (Some x # ks) H = do { (y, H) \<leftarrow> clone_object x H; (ks', H) \<leftarrow> clone_kids ks H; Some (Some y # ks', H) }"

text \<open>QSharedDataPointer::detach, on every access that may write.\<close>

definition detach :: "ptr \<Rightarrow> query_heap \<Rightarrow> query_heap option" where
  "detach x H = (case objects H x of None \<Rightarrow> None | Some (c, p) \<Rightarrow> (case privates H p of None \<Rightarrow> None | Some P \<Rightarrow>
     (if refs P = 1 then Some H
      else do {
        (ks, H) \<leftarrow> clone_kids (kids P) H;
        P' \<leftarrow> privates H p;
        Some (H\<lparr>objects := (objects H)(x \<mapsto> (c, next_ptr H)),
          privates := (privates H)(p \<mapsto> P'\<lparr>refs := refs P' - 1\<rparr>, next_ptr H \<mapsto> \<lparr> refs = 1, kids = ks, qdata = copy_data (qdata P) \<rparr>),
          next_ptr := Suc (next_ptr H)\<rparr>) })))"

text \<open>Deleting objects in turn. The last user of private data deletes them, and their destructor the objects they own. A pointer to memory
  that is being freed is not read again: it is taken out first.\<close>

partial_function (option) release_objects :: "ptr list \<Rightarrow> query_heap \<Rightarrow> query_heap option" where
  "release_objects xs H = (case xs of [] \<Rightarrow> Some H | x # xs \<Rightarrow> (case objects H x of None \<Rightarrow> None | Some (c, p) \<Rightarrow>
     (case privates H p of None \<Rightarrow> None | Some P \<Rightarrow>
        if refs P = 1 then release_objects (pointers (kids P) @ xs) (H\<lparr>objects := (objects H)(x := None), privates := (privates H)(p := None)\<rparr>)
        else release_objects xs (H\<lparr>objects := (objects H)(x := None), privates := (privates H)(p \<mapsto> P\<lparr>refs := refs P - 1\<rparr>)\<rparr>))))"

definition delete_object :: "ptr option \<Rightarrow> query_heap \<Rightarrow> query_heap option" where
  "delete_object k H = (case k of None \<Rightarrow> Some H | Some x \<Rightarrow> release_objects [x] H)"

section \<open>Changing\<close>

definition store_kid :: "nat \<Rightarrow> ptr option \<Rightarrow> ptr \<Rightarrow> query_heap \<Rightarrow> query_heap option" where
  "store_kid i k x H = do { P \<leftarrow> private_of x H; if i < length (kids P) then write_private x ((kids P)[i := k]) (qdata P) H else None }"

definition kid_at :: "nat \<Rightarrow> ptr \<Rightarrow> query_heap \<Rightarrow> ptr option option" where
  "kid_at i x H = do { P \<leftarrow> private_of x H; if i < length (kids P) then Some (kids P ! i) else None }"

definition replace_kid :: "nat \<Rightarrow> ptr option \<Rightarrow> ptr option \<Rightarrow> ptr \<Rightarrow> query_heap \<Rightarrow> query_heap option" where
  "replace_kid i old k x H = do { H \<leftarrow> store_kid i None x H; H \<leftarrow> delete_object old H; store_kid i k x H }"

text \<open>setExpression compares with the pointer in the data that have just been detached; setSubject and its like delete without a
  question; setFirst and its like only store.\<close>

definition set_checked :: "nat \<Rightarrow> ptr option \<Rightarrow> ptr \<Rightarrow> query_heap \<Rightarrow> query_heap option" where
  "set_checked i k x H = do { H \<leftarrow> detach x H; old \<leftarrow> kid_at i x H; if k \<noteq> old then replace_kid i old k x H else Some H }"

definition set_deleting :: "nat \<Rightarrow> ptr option \<Rightarrow> ptr \<Rightarrow> query_heap \<Rightarrow> query_heap option" where
  "set_deleting i k x H = do { H \<leftarrow> detach x H; old \<leftarrow> kid_at i x H; replace_kid i old k x H }"

definition set_plain :: "nat \<Rightarrow> ptr option \<Rightarrow> ptr \<Rightarrow> query_heap \<Rightarrow> query_heap option" where
  "set_plain i k x H = do { H \<leftarrow> detach x H; store_kid i k x H }"

definition set_kid :: "nat \<Rightarrow> ptr option \<Rightarrow> ptr \<Rightarrow> query_heap \<Rightarrow> query_heap option" where
  "set_kid i k x H = (case objects H x of None \<Rightarrow> None | Some (c, p) \<Rightarrow> (case setter (class_base c) of
       CheckedSetter \<Rightarrow> set_checked i k x H
     | DeletingSetter \<Rightarrow> set_deleting i k x H
     | PlainSetter \<Rightarrow> set_plain i k x H
     | _ \<Rightarrow> None))"

text \<open>addConditon and addVariable.\<close>

definition append_kid :: "ptr \<Rightarrow> ptr \<Rightarrow> query_heap \<Rightarrow> query_heap option" where
  "append_kid k x H = do { H \<leftarrow> detach x H; P \<leftarrow> private_of x H; write_private x (kids P @ [Some k]) (qdata P) H }"

text \<open>Setters of other members.\<close>

definition change_data :: "(query_data \<Rightarrow> query_data) \<Rightarrow> ptr \<Rightarrow> query_heap \<Rightarrow> query_heap option" where
  "change_data f x H = do { H \<leftarrow> detach x H; P \<leftarrow> private_of x H; write_private x (kids P) (f (qdata P)) H }"

text \<open>Reading through an access that may write: Regexp::pattern, Query::prefixes, Numerical::isDouble.\<close>

definition read_data :: "ptr \<Rightarrow> query_heap \<Rightarrow> (query_data \<times> query_heap) option" where
  "read_data x H = do { H \<leftarrow> detach x H; P \<leftarrow> private_of x H; Some (qdata P, H) }"

text \<open>operator=: the data of the other object are shared, the old ones lose a user.\<close>

definition assign_object :: "ptr \<Rightarrow> ptr \<Rightarrow> query_heap \<Rightarrow> query_heap option" where
  "assign_object x y H = (case objects H x of None \<Rightarrow> None | Some (c, p) \<Rightarrow> (case objects H y of None \<Rightarrow> None | Some (c', q) \<Rightarrow>
     (if p = q then Some H else do {
        P \<leftarrow> privates H p; Q \<leftarrow> privates H q;
        let H = H\<lparr>objects := (objects H)(x \<mapsto> (c, q)), privates := (privates H)(q \<mapsto> Q\<lparr>refs := Suc (refs Q)\<rparr>)\<rparr>;
        if refs P = 1 then release_objects (pointers (kids P)) (H\<lparr>privates := (privates H)(p := None)\<rparr>)
        else Some (H\<lparr>privates := (privates H)(p \<mapsto> P\<lparr>refs := refs P - 1\<rparr>)\<rparr>) })))"

section \<open>Members\<close>

definition setValue_text :: "qstring \<Rightarrow> query_data \<Rightarrow> query_data" where
  "setValue_text s d = (case d of TextData _ \<Rightarrow> TextData s | d \<Rightarrow> d)"

definition setFirst_time :: "qdatetime \<Rightarrow> query_data \<Rightarrow> query_data" where
  "setFirst_time t d = (case d of TimesData _ u \<Rightarrow> TimesData t u | d \<Rightarrow> d)"

definition setSecond_time :: "qdatetime \<Rightarrow> query_data \<Rightarrow> query_data" where
  "setSecond_time t d = (case d of TimesData u _ \<Rightarrow> TimesData u t | d \<Rightarrow> d)"

definition setPattern :: "qstring \<Rightarrow> query_data \<Rightarrow> query_data" where
  "setPattern s d = (case d of RegexpData _ f \<Rightarrow> RegexpData s f | d \<Rightarrow> d)"

definition setFlags :: "qstring \<Rightarrow> query_data \<Rightarrow> query_data" where
  "setFlags s d = (case d of RegexpData p _ \<Rightarrow> RegexpData p s | d \<Rightarrow> d)"

definition addPrefix :: "qstring \<times> qurl \<Rightarrow> query_data \<Rightarrow> query_data" where
  "addPrefix p d = (case d of QueryData ps t \<Rightarrow> QueryData (ps @ [p]) t | d \<Rightarrow> d)"

definition setQueryType :: "query_type \<Rightarrow> query_data \<Rightarrow> query_data" where
  "setQueryType t d = (case d of QueryData ps _ \<Rightarrow> QueryData ps (Some t) | d \<Rightarrow> d)"

definition query_isValid :: "query_type \<Rightarrow> bool" where
  "query_isValid t \<longleftrightarrow> t = INVALID_QUERY"

definition selectAll :: "query_private \<Rightarrow> bool" where
  "selectAll P \<longleftrightarrow> kids P = []"

definition query_variables :: "query_private \<Rightarrow> ptr option list" where
  "query_variables P = kids P"

definition condition_count :: "query_private \<Rightarrow> nat" where
  "condition_count P = length (kids P)"

lemmas member_defs = setValue_text_def setFirst_time_def setSecond_time_def setPattern_def setFlags_def addPrefix_def setQueryType_def

lemma members_keep_kind:
  "kind_of_data (setValue_text s d) = kind_of_data d" "kind_of_data (setFirst_time t d) = kind_of_data d"
  "kind_of_data (setSecond_time t d) = kind_of_data d" "kind_of_data (setPattern s d) = kind_of_data d"
  "kind_of_data (setFlags s d) = kind_of_data d" "kind_of_data (addPrefix p d) = kind_of_data d" "kind_of_data (setQueryType qt d) = kind_of_data d"
  by (cases d; simp add: member_defs)+

text \<open>setQueryTerms assigns to the terms inside the query.\<close>

definition setQueryTerms :: "ptr \<Rightarrow> ptr \<Rightarrow> query_heap \<Rightarrow> query_heap option" where
  "setQueryTerms x y H = do { H \<leftarrow> detach x H; t \<leftarrow> kid_at 1 x H; t' \<leftarrow> t; assign_object t' y H }"

end
