(* ===== verification/Query_Sharing.thy ===== *)
theory Query_Sharing
  imports Query_Heap
begin

text \<open>
  What an object of a query means, and the invariant of the memory: every object is a root or owned by one pointer, the counters
  are right and ownership has no cycles. All operations keep it, and what an object means changes only by calls on this object.
\<close>

section \<open>Meaning\<close>

datatype query_value = QueryValue query_class query_data "query_value option list"

inductive denotes :: "query_heap \<Rightarrow> ptr \<Rightarrow> query_value \<Rightarrow> bool" for H where
  denotes: "objects H x = Some (c, p) \<Longrightarrow> privates H p = Some P \<Longrightarrow> list_all2 (rel_option (denotes H)) (kids P) vs \<Longrightarrow>
    denotes H x (QueryValue c (qdata P) vs)"
monos list.rel_mono_strong option.rel_mono_strong

inductive_cases denotesE: "denotes H x v"

lemma in_pointers: "k \<in> set (pointers ks) \<longleftrightarrow> Some k \<in> set ks"
  by (induction ks) (auto split: option.splits)

lemma rel_kids_mono:
  assumes "\<And>k v. k \<in> set (pointers ks) \<Longrightarrow> R k v \<Longrightarrow> S k v" "list_all2 (rel_option R) ks vs"
  shows "list_all2 (rel_option S) ks vs"
proof (rule list.rel_mono_strong[OF assms(2)])
  fix k v assume k: "k \<in> set ks" and r: "rel_option R k v"
  show "rel_option S k v"
  proof (cases k rule: option.exhaust)
    case None
    then show ?thesis using r by simp
  next
    case (Some x)
    then have "x \<in> set (pointers ks)" using k by (simp add: in_pointers)
    then show ?thesis using r Some assms(1) by (auto simp: option_rel_Some1)
  qed
qed

lemma list_all2_rel_option:
  "list_all2 (rel_option R) ks vs \<longleftrightarrow> length ks = length vs \<and>
     (\<forall>i < length ks. (ks ! i = None \<longleftrightarrow> vs ! i = None) \<and> (\<forall>k. ks ! i = Some k \<longrightarrow> (\<exists>v. vs ! i = Some v \<and> R k v)))"
proof -
  have o: "rel_option R a b \<longleftrightarrow> (a = None \<longleftrightarrow> b = None) \<and> (\<forall>k. a = Some k \<longrightarrow> (\<exists>v. b = Some v \<and> R k v))" for a b
    by (cases a; cases b) auto
  show ?thesis by (auto simp: list_all2_conv_all_nth o)
qed

lemma denotes_unique: "denotes H x v \<Longrightarrow> denotes H x v' \<Longrightarrow> v = v'"
proof (induction arbitrary: v' rule: denotes.induct)
  case (denotes x c p P vs)
  from denotes.prems obtain vs' where v': "v' = QueryValue c (qdata P) vs'" and r: "list_all2 (rel_option (denotes H)) (kids P) vs'"
    using denotes.hyps(1,2) by (auto elim: denotesE)
  have "vs = vs'"
  proof (rule nth_equalityI)
    show "length vs = length vs'" using list_all2_lengthD[OF denotes.IH] list_all2_lengthD[OF r] by simp
    fix i assume i: "i < length vs"
    have il: "i < length (kids P)" using i list_all2_lengthD[OF denotes.IH] by simp
    have a: "rel_option (\<lambda>x v. denotes H x v \<and> (\<forall>w. denotes H x w \<longrightarrow> v = w)) (kids P ! i) (vs ! i)"
      using list_all2_nthD[OF denotes.IH il] .
    have b: "rel_option (denotes H) (kids P ! i) (vs' ! i)" using list_all2_nthD[OF r il] .
    show "vs ! i = vs' ! i"
    proof (cases "kids P ! i")
      case None
      then show ?thesis using a b by simp
    next
      case (Some k)
      then obtain v w where "vs ! i = Some v" "vs' ! i = Some w" "\<forall>w. denotes H k w \<longrightarrow> v = w" "denotes H k w"
        using a b by (auto simp: option_rel_Some1)
      then show ?thesis by simp
    qed
  qed
  then show ?case using v' by simp
qed

text \<open>The meaning depends on what is reachable only.\<close>

definition agree :: "ptr set \<Rightarrow> query_heap \<Rightarrow> query_heap \<Rightarrow> bool" where
  "agree S H H' \<longleftrightarrow> (\<forall>x c p P. x \<in> S \<longrightarrow> objects H x = Some (c, p) \<longrightarrow> privates H p = Some P \<longrightarrow>
     set (pointers (kids P)) \<subseteq> S \<and> (\<exists>p' P'. objects H' x = Some (c, p') \<and> privates H' p' = Some P' \<and> kids P' = kids P \<and> qdata P' = qdata P))"

lemma agree_denotes:
  assumes a: "agree S H H'"
  shows "denotes H x v \<Longrightarrow> x \<in> S \<Longrightarrow> denotes H' x v"
proof (induction rule: denotes.induct)
  case (denotes x c p P vs)
  from a denotes.prems denotes.hyps obtain p' P' where s: "set (pointers (kids P)) \<subseteq> S"
    and P': "objects H' x = Some (c, p')" "privates H' p' = Some P'" "kids P' = kids P" "qdata P' = qdata P"
    unfolding agree_def by blast
  have "list_all2 (rel_option (denotes H')) (kids P) vs"
    unfolding list_all2_conv_all_nth
  proof (intro conjI allI impI)
    show "length (kids P) = length vs" using list_all2_lengthD[OF denotes.IH] .
    fix i assume i: "i < length (kids P)"
    have "Some k \<in> set (kids P) \<Longrightarrow> k \<in> S" for k using s by (auto simp: in_pointers)
    then have "kids P ! i = Some k \<Longrightarrow> k \<in> S" for k using nth_mem[OF i] by metis
    then show "rel_option (denotes H') (kids P ! i) (vs ! i)"
      using list_all2_nthD[OF denotes.IH i] by (cases "kids P ! i"; cases "vs ! i") auto
  qed
  then show ?case using denotes.intros[OF P'(1,2)] P'(3,4) by simp
qed

lemma denotes_same_data:
  assumes "objects H x = Some (c, p)" "objects H y = Some (c, p)"
  shows "denotes H x v \<Longrightarrow> denotes H y v"
  using assms by (auto elim!: denotesE intro: denotes.intros)

section \<open>The invariant\<close>

definition all_kids :: "query_heap \<Rightarrow> ptr multiset" where
  "all_kids H = (\<Sum>p \<in> dom (privates H). mset (pointers (kids (the (privates H p)))))"

definition users :: "query_heap \<Rightarrow> ptr \<Rightarrow> ptr set" where
  "users H p = {x. \<exists>c. objects H x = Some (c, p)}"

definition ranked :: "query_heap \<Rightarrow> bool" where
  "ranked H \<longleftrightarrow> (\<exists>rank :: ptr \<Rightarrow> nat. \<forall>p P k c p'. privates H p = Some P \<longrightarrow> k \<in> set (pointers (kids P)) \<longrightarrow>
     objects H k = Some (c, p') \<longrightarrow> rank p' < rank p)"

definition heap_ok :: "ptr multiset \<Rightarrow> query_heap \<Rightarrow> bool" where
  "heap_ok R H \<longleftrightarrow> finite (dom (objects H)) \<and> finite (dom (privates H)) \<and>
     (\<forall>x \<in> dom (objects H). x < next_ptr H) \<and> (\<forall>p \<in> dom (privates H). p < next_ptr H) \<and>
     (\<forall>x c p. objects H x = Some (c, p) \<longrightarrow> p \<in> dom (privates H)) \<and>
     (\<forall>p P. privates H p = Some P \<longrightarrow> refs P = card (users H p) \<and> 0 < refs P) \<and>
     all_kids H + R = mset_set (dom (objects H)) \<and> ranked H"

lemma heap_ok_empty: "heap_ok {#} empty_heap"
  by (simp add: heap_ok_def empty_heap_def all_kids_def ranked_def)

lemma greatest_of:
  fixes f :: "'a \<Rightarrow> nat"
  assumes "finite A" "A \<noteq> {}"
  obtains x where "x \<in> A" "\<And>y. y \<in> A \<Longrightarrow> f y \<le> f x"
proof -
  have "Max (f ` A) \<in> f ` A" using assms by simp
  then obtain x where "x \<in> A" "Max (f ` A) = f x" by auto
  then show thesis using that assms Max_ge[of "f ` A"] by (metis finite_imageI image_eqI)
qed

text \<open>Without roots there is nothing left.\<close>

lemma no_roots_no_memory:
  assumes ok: "heap_ok {#} H"
  shows "objects H = Map.empty \<and> privates H = Map.empty"
proof -
  obtain rank :: "ptr \<Rightarrow> nat" where rank: "\<And>p P k c p'. privates H p = Some P \<Longrightarrow> k \<in> set (pointers (kids P)) \<Longrightarrow>
     objects H k = Some (c, p') \<Longrightarrow> rank p' < rank p" using ok unfolding heap_ok_def ranked_def by blast
  have fin: "finite (dom (objects H))" "finite (dom (privates H))" using ok by (auto simp: heap_ok_def)
  have "dom (privates H) = {}"
  proof (rule ccontr)
    assume "dom (privates H) \<noteq> {}"
    then obtain p where p: "p \<in> dom (privates H)" and m: "\<And>q. q \<in> dom (privates H) \<Longrightarrow> rank q \<le> rank p"
      using greatest_of[OF fin(2)] by blast
    then obtain P where P: "privates H p = Some P" by auto
    have "users H p \<noteq> {}" using ok P unfolding heap_ok_def by (metis card.empty less_irrefl)
    then obtain x c where x: "objects H x = Some (c, p)" by (auto simp: users_def)
    then have "x \<in># all_kids H" using ok fin by (auto simp: heap_ok_def)
    then obtain q where q: "q \<in> dom (privates H)" "x \<in># mset (pointers (kids (the (privates H q))))"
      using fin(2) by (auto simp: all_kids_def set_mset_sum)
    then have "rank p < rank q" using rank x by (metis domIff option.exhaust_sel set_mset_mset)
    then show False using m[OF q(1)] by simp
  qed
  moreover have "dom (objects H) = {}"
  proof (rule ccontr)
    assume "dom (objects H) \<noteq> {}"
    then obtain x c p where "objects H x = Some (c, p)" by (metis domIff ex_in_conv option.exhaust surj_pair)
    then have "p \<in> dom (privates H)" using ok unfolding heap_ok_def by blast
    then show False using \<open>dom (privates H) = {}\<close> by simp
  qed
  ultimately show ?thesis by simp
qed

section \<open>Reading the invariant\<close>

lemma heap_okD:
  assumes "heap_ok R H"
  shows "finite (dom (objects H))" "finite (dom (privates H))" "x \<in> dom (objects H) \<Longrightarrow> x < next_ptr H"
    "p \<in> dom (privates H) \<Longrightarrow> p < next_ptr H" "objects H x = Some (c, p) \<Longrightarrow> p \<in> dom (privates H)"
    "privates H p = Some P \<Longrightarrow> refs P = card (users H p)" "privates H p = Some P \<Longrightarrow> 0 < refs P"
    "all_kids H + R = mset_set (dom (objects H))" "ranked H"
  using assms unfolding heap_ok_def by blast+

lemma fresh_object: "heap_ok R H \<Longrightarrow> next_ptr H \<le> x \<Longrightarrow> objects H x = None"
  using heap_okD(3)[of R H x] by (metis domIff linorder_not_le)

lemma fresh_private: "heap_ok R H \<Longrightarrow> next_ptr H \<le> p \<Longrightarrow> privates H p = None"
  using heap_okD(4)[of R H p] by (metis domIff linorder_not_le)

lemma in_all_kids: "finite (dom (privates H)) \<Longrightarrow> k \<in># all_kids H \<longleftrightarrow> (\<exists>p P. privates H p = Some P \<and> k \<in> set (pointers (kids P)))"
  by (force simp: all_kids_def set_mset_sum)

lemma kid_exists: "heap_ok R H \<Longrightarrow> privates H p = Some P \<Longrightarrow> k \<in> set (pointers (kids P)) \<Longrightarrow> k \<in> dom (objects H)"
proof -
  assume ok: "heap_ok R H" and "privates H p = Some P" "k \<in> set (pointers (kids P))"
  then have "k \<in># all_kids H" using in_all_kids[OF heap_okD(2)[OF ok]] by blast
  then have "k \<in># mset_set (dom (objects H))" using heap_okD(8)[OF ok] by (metis union_iff)
  then show ?thesis using heap_okD(1)[OF ok] by simp
qed

lemma root_exists: "heap_ok R H \<Longrightarrow> x \<in># R \<Longrightarrow> x \<in> dom (objects H)"
  using heap_okD(8)[of R H] heap_okD(1)[of R H] by (metis elem_mset_set union_iff)

text \<open>A root is owned by no pointer, and it is a root once.\<close>

lemma root_count:
  assumes ok: "heap_ok R H" and x: "x \<in># R"
  shows "x \<notin># all_kids H" "count R x = 1"
proof -
  have "count (mset_set (dom (objects H))) x \<le> 1" by (simp add: count_mset_set')
  then have "count (all_kids H) x + count R x \<le> 1" by (metis count_union heap_okD(8)[OF ok])
  moreover have "0 < count R x" using x by simp
  ultimately have "count (all_kids H) x = 0 \<and> count R x = 1" by linarith
  then show "x \<notin># all_kids H" "count R x = 1" by (simp_all add: not_in_iff)
qed

lemma root_not_kid: "heap_ok R H \<Longrightarrow> x \<in># R \<Longrightarrow> privates H p = Some P \<Longrightarrow> x \<notin> set (pointers (kids P))"
  using root_count(1)[of R H x] in_all_kids[OF heap_okD(2)[of R H], of x] by blast

lemma root_private:
  assumes ok: "heap_ok R H" and x: "x \<in># R"
  obtains c p P where "objects H x = Some (c, p)" "privates H p = Some P"
proof -
  obtain c p where o: "objects H x = Some (c, p)" using root_exists[OF ok x] by (metis domD surj_pair)
  then show thesis using that heap_okD(5)[OF ok o] by (metis domD)
qed

lemma unshared_user: "heap_ok R H \<Longrightarrow> privates H p = Some P \<Longrightarrow> refs P = 1 \<Longrightarrow> objects H x = Some (c, p) \<Longrightarrow> objects H y = Some (c', p) \<Longrightarrow> y = x"
proof -
  assume ok: "heap_ok R H" and P: "privates H p = Some P" "refs P = 1" and o: "objects H x = Some (c, p)" "objects H y = Some (c', p)"
  have "card (users H p) = 1" using heap_okD(6)[OF ok P(1)] P(2) by simp
  then obtain z where "users H p = {z}" by (metis card_1_singletonE)
  moreover have "x \<in> users H p" "y \<in> users H p" using o by (auto simp: users_def)
  ultimately show "y = x" by simp
qed

text \<open>Every object means something.\<close>

lemma denotes_exists:
  assumes ok: "heap_ok R H" and "x \<in> dom (objects H)"
  shows "\<exists>v. denotes H x v"
proof -
  obtain rank :: "ptr \<Rightarrow> nat" where rank: "\<And>p P k c p'. privates H p = Some P \<Longrightarrow> k \<in> set (pointers (kids P)) \<Longrightarrow>
     objects H k = Some (c, p') \<Longrightarrow> rank p' < rank p" using heap_okD(9)[OF ok] unfolding ranked_def by blast
  have "objects H x = Some (c, p) \<Longrightarrow> \<exists>v. denotes H x v" for c p x
  proof (induction "rank p" arbitrary: x c p rule: less_induct)
    case less
    obtain P where P: "privates H p = Some P" using heap_okD(5)[OF ok less.prems] by auto
    have k: "\<exists>v. denotes H k v" if "Some k \<in> set (kids P)" for k
    proof -
      have "k \<in> dom (objects H)" using kid_exists[OF ok P] that by (simp add: in_pointers)
      then obtain c' p' where o: "objects H k = Some (c', p')" by auto
      show ?thesis using less.hyps[OF rank[OF P _ o] o] that by (simp add: in_pointers)
    qed
    define vs where "vs = map (map_option (\<lambda>k. SOME v. denotes H k v)) (kids P)"
    have some: "denotes H k (SOME v. denotes H k v)" if "Some k \<in> set (kids P)" for k using someI_ex[OF k[OF that]] .
    have "rel_option (denotes H) (kids P ! i) (vs ! i)" if i: "i < length (kids P)" for i
      using some nth_mem[OF i] i by (cases "kids P ! i") (auto simp: vs_def)
    then have "list_all2 (rel_option (denotes H)) (kids P) vs" by (simp add: list_all2_conv_all_nth vs_def)
    then show ?case using denotes.intros[OF less.prems P] by blast
  qed
  then show ?thesis using assms(2) by (metis domD surj_pair)
qed

section \<open>Growing and shrinking\<close>

lemma heap_okI:
  assumes "finite (dom (objects H))" "finite (dom (privates H))" "\<And>x. x \<in> dom (objects H) \<Longrightarrow> x < next_ptr H"
    "\<And>p. p \<in> dom (privates H) \<Longrightarrow> p < next_ptr H" "\<And>x c p. objects H x = Some (c, p) \<Longrightarrow> p \<in> dom (privates H)"
    "\<And>p P. privates H p = Some P \<Longrightarrow> refs P = card (users H p) \<and> 0 < refs P"
    "all_kids H + R = mset_set (dom (objects H))" "ranked H"
  shows "heap_ok R H"
  using assms unfolding heap_ok_def by blast

lemma all_kids_insert:
  assumes "finite (dom (privates H))" "privates H' = (privates H)(p \<mapsto> P)" "privates H p = None"
  shows "all_kids H' = all_kids H + mset (pointers (kids P))"
proof -
  have p: "p \<notin> dom (privates H)" using assms(3) by auto
  have "(\<Sum>q \<in> dom (privates H). mset (pointers (kids (the (privates H' q))))) = all_kids H"
    unfolding all_kids_def using p by (intro sum.cong) (auto simp: assms(2))
  then show ?thesis using assms(1) p by (simp add: all_kids_def assms(2))
qed

lemma all_kids_remove:
  assumes "finite (dom (privates H))" "privates H' = (privates H)(p := None)" "privates H p = Some P"
  shows "all_kids H' + mset (pointers (kids P)) = all_kids H"
proof -
  have "privates H = (privates H')(p \<mapsto> P)" "privates H' p = None" using assms by auto
  moreover have "finite (dom (privates H'))" using assms(1,2) by simp
  ultimately show ?thesis using all_kids_insert[of H' H p P] by simp
qed

lemma all_kids_update:
  assumes "finite (dom (privates H))" "privates H' = (privates H)(p \<mapsto> P')" "privates H p = Some P"
  shows "all_kids H' + mset (pointers (kids P)) = all_kids H + mset (pointers (kids P'))"
proof -
  let ?M = "H\<lparr>privates := (privates H)(p := None)\<rparr>"
  have "all_kids ?M + mset (pointers (kids P)) = all_kids H" by (rule all_kids_remove[OF assms(1) _ assms(3)]) simp
  moreover have "all_kids H' = all_kids ?M + mset (pointers (kids P'))" by (rule all_kids_insert) (use assms in auto)
  ultimately show ?thesis by (metis union_assoc union_commute)
qed

lemma all_kids_same:
  assumes "finite (dom (privates H))" "privates H' = (privates H)(p \<mapsto> P')" "privates H p = Some P" "kids P' = kids P"
  shows "all_kids H' = all_kids H"
  using all_kids_update[OF assms(1-3)] assms(4) by simp

definition grows :: "query_heap \<Rightarrow> query_heap \<Rightarrow> bool" where
  "grows H H' \<longleftrightarrow> (\<forall>x \<in> dom (objects H). objects H' x = objects H x) \<and>
     (\<forall>p P. privates H p = Some P \<longrightarrow> (\<exists>P'. privates H' p = Some P' \<and> kids P' = kids P \<and> qdata P' = qdata P \<and> refs P \<le> refs P'))"

definition shrinks :: "query_heap \<Rightarrow> query_heap \<Rightarrow> bool" where
  "shrinks H H' \<longleftrightarrow> (\<forall>x. objects H' x = None \<or> objects H' x = objects H x) \<and>
     (\<forall>p P'. privates H' p = Some P' \<longrightarrow> (\<exists>P. privates H p = Some P \<and> kids P' = kids P \<and> qdata P' = qdata P \<and> refs P' \<le> refs P))"

lemma heap_grows_refl [simp]: "grows H H" by (auto simp: grows_def)
lemma shrinks_refl [simp]: "shrinks H H" by (auto simp: shrinks_def)

lemma heap_grows_trans:
  assumes "grows H H1" "grows H1 H2"
  shows "grows H H2"
  unfolding grows_def
proof (intro conjI ballI allI impI)
  fix x assume "x \<in> dom (objects H)"
  then show "objects H2 x = objects H x" using assms unfolding grows_def by (metis domIff)
next
  fix p P assume "privates H p = Some P"
  then obtain P1 where "privates H1 p = Some P1" "kids P1 = kids P \<and> qdata P1 = qdata P \<and> refs P \<le> refs P1" using assms(1) unfolding grows_def by blast
  moreover then obtain P2 where "privates H2 p = Some P2" "kids P2 = kids P1 \<and> qdata P2 = qdata P1 \<and> refs P1 \<le> refs P2"
    using assms(2) unfolding grows_def by blast
  ultimately show "\<exists>P'. privates H2 p = Some P' \<and> kids P' = kids P \<and> qdata P' = qdata P \<and> refs P \<le> refs P'" by auto
qed

lemma shrinks_trans:
  assumes "shrinks H H1" "shrinks H1 H2"
  shows "shrinks H H2"
  unfolding shrinks_def
proof (intro conjI allI impI)
  fix x show "objects H2 x = None \<or> objects H2 x = objects H x" using assms unfolding shrinks_def by metis
next
  fix p P' assume "privates H2 p = Some P'"
  then obtain P1 where "privates H1 p = Some P1" "kids P' = kids P1 \<and> qdata P' = qdata P1 \<and> refs P' \<le> refs P1" using assms(2) unfolding shrinks_def by blast
  moreover then obtain P where "privates H p = Some P" "kids P1 = kids P \<and> qdata P1 = qdata P \<and> refs P1 \<le> refs P"
    using assms(1) unfolding shrinks_def by blast
  ultimately show "\<exists>P. privates H p = Some P \<and> kids P' = kids P \<and> qdata P' = qdata P \<and> refs P' \<le> refs P" by auto
qed

lemma grows_denotes:
  assumes ok: "heap_ok R H" and g: "grows H H'" and x: "x \<in> dom (objects H)" and d: "denotes H x v"
  shows "denotes H' x v"
proof (rule agree_denotes[OF _ d x])
  show "agree (dom (objects H)) H H'"
    unfolding agree_def
  proof (intro allI impI conjI)
    fix x c p P assume a: "x \<in> dom (objects H)" "objects H x = Some (c, p)" "privates H p = Some P"
    show "set (pointers (kids P)) \<subseteq> dom (objects H)" using kid_exists[OF ok a(3)] by blast
    have "objects H' x = Some (c, p)" using g a(1,2) by (simp add: grows_def)
    moreover obtain P' where "privates H' p = Some P'" "kids P' = kids P" "qdata P' = qdata P" using g a(3) unfolding grows_def by blast
    ultimately show "\<exists>p' P'. objects H' x = Some (c, p') \<and> privates H' p' = Some P' \<and> kids P' = kids P \<and> qdata P' = qdata P" by blast
  qed
qed

lemma shrinks_denotes:
  assumes ok: "heap_ok R H'" and s: "shrinks H H'" and x: "x \<in> dom (objects H')" and d: "denotes H x v"
  shows "denotes H' x v"
proof (rule agree_denotes[OF _ d x])
  show "agree (dom (objects H')) H H'"
    unfolding agree_def
  proof (intro allI impI conjI)
    fix x c p P assume a: "x \<in> dom (objects H')" "objects H x = Some (c, p)" "privates H p = Some P"
    have o: "objects H' x = Some (c, p)" using s a(1,2) unfolding shrinks_def by (metis domIff)
    then obtain P' where P': "privates H' p = Some P'" using heap_okD(5)[OF ok o] by auto
    have k: "kids P' = kids P" "qdata P' = qdata P" using s P' a(3) unfolding shrinks_def by fastforce+
    show "set (pointers (kids P)) \<subseteq> dom (objects H')" using kid_exists[OF ok P'] k by auto
    show "\<exists>p' P'. objects H' x = Some (c, p') \<and> privates H' p' = Some P' \<and> kids P' = kids P \<and> qdata P' = qdata P" using o P' k by blast
  qed
qed

section \<open>New objects and copies\<close>

text \<open>A rank above all others.\<close>

lemma ranked_bound:
  assumes ok: "heap_ok R H"
  obtains rank :: "ptr \<Rightarrow> nat" and B where
    "\<And>p P k c p'. privates H p = Some P \<Longrightarrow> k \<in> set (pointers (kids P)) \<Longrightarrow> objects H k = Some (c, p') \<Longrightarrow> rank p' < rank p"
    "\<And>p. p \<in> dom (privates H) \<Longrightarrow> rank p < B"
proof -
  obtain rank :: "ptr \<Rightarrow> nat" where r: "\<And>p P k c p'. privates H p = Some P \<Longrightarrow> k \<in> set (pointers (kids P)) \<Longrightarrow>
     objects H k = Some (c, p') \<Longrightarrow> rank p' < rank p" using heap_okD(9)[OF ok] unfolding ranked_def by blast
  have "rank p < Suc (Max (rank ` dom (privates H)))" if "p \<in> dom (privates H)" for p
    using heap_okD(2)[OF ok] that by (simp add: le_imp_less_Suc)
  then show thesis using that r by blast
qed

lemma new_object_ok:
  assumes ok: "heap_ok (mset (pointers ks) + R) H" and n: "new_object c ks d H = (x, H')"
  shows "heap_ok (add_mset x R) H'" "grows H H'" "x \<notin> dom (objects H)"
    "list_all2 (rel_option (denotes H)) ks vs \<Longrightarrow> denotes H' x (QueryValue c d vs)"
proof -
  let ?p = "Suc (next_ptr H)"
  have H': "x = next_ptr H" "objects H' = (objects H)(x \<mapsto> (c, ?p))"
    "privates H' = (privates H)(?p \<mapsto> \<lparr> refs = 1, kids = ks, qdata = d \<rparr>)" "next_ptr H' = next_ptr H + 2"
    using n by (auto simp: new_object_def)
  have fx: "objects H x = None" and fp: "privates H ?p = None" using fresh_object[OF ok] fresh_private[OF ok] H'(1) by auto
  show x: "x \<notin> dom (objects H)" using fx by auto
  have g: "grows H H'" using fx fp by (auto simp: grows_def H'(2,3))
  then show "grows H H'" .
  have kd: "k \<in> dom (objects H)" if "k \<in> set (pointers ks)" for k using root_exists[OF ok, of k] that by simp
  have up: "users H' ?p = {x}" using heap_okD(5)[OF ok] fp by (auto simp: users_def H'(2))
  have uo: "users H' p = users H p" if "p \<noteq> ?p" for p using that fx by (auto simp: users_def H'(2))
  obtain rank :: "ptr \<Rightarrow> nat" and B where r: "\<And>p P k c p'. privates H p = Some P \<Longrightarrow> k \<in> set (pointers (kids P)) \<Longrightarrow>
     objects H k = Some (c, p') \<Longrightarrow> rank p' < rank p" "\<And>p. p \<in> dom (privates H) \<Longrightarrow> rank p < B" using ranked_bound[OF ok] by blast
  show "heap_ok (add_mset x R) H'"
  proof (rule heap_okI)
    show "finite (dom (objects H'))" "finite (dom (privates H'))" using heap_okD(1,2)[OF ok] by (simp_all add: H'(2,3))
    show "y < next_ptr H'" if "y \<in> dom (objects H')" for y using that heap_okD(3)[OF ok, of y] by (force simp: H' split: if_splits)
    show "p < next_ptr H'" if "p \<in> dom (privates H')" for p using that heap_okD(4)[OF ok, of p] by (force simp: H'(3,4) split: if_splits)
    show "p \<in> dom (privates H')" if "objects H' y = Some (c', p)" for y c' p
      using that heap_okD(5)[OF ok, of y c' p] by (auto simp: H'(2,3) split: if_splits)
    show "refs P = card (users H' p) \<and> 0 < refs P" if "privates H' p = Some P" for p P
    proof (cases "p = ?p")
      case True
      then have "P = \<lparr> refs = 1, kids = ks, qdata = d \<rparr>" using that by (simp add: H'(3))
      then show ?thesis using True up by simp
    next
      case False
      then show ?thesis using that uo[OF False] heap_okD(6,7)[OF ok, of p P] by (simp add: H'(3))
    qed
    have "all_kids H' = all_kids H + mset (pointers ks)" using all_kids_insert[OF heap_okD(2)[OF ok] H'(3) fp] by simp
    then have "all_kids H' + add_mset x R = add_mset x (all_kids H + (mset (pointers ks) + R))" by simp
    also have "\<dots> = add_mset x (mset_set (dom (objects H)))" by (simp only: heap_okD(8)[OF ok])
    also have "\<dots> = mset_set (dom (objects H'))" using x heap_okD(1)[OF ok] by (simp add: H'(2))
    finally show "all_kids H' + add_mset x R = mset_set (dom (objects H'))" .
    have "(rank(?p := B)) p' < (rank(?p := B)) p" if a: "privates H' p = Some P" "k \<in> set (pointers (kids P))" "objects H' k = Some (c', p')" for p P k c' p'
    proof -
      have k: "k \<in> dom (objects H)"
      proof (cases "p = ?p")
        case True
        then have "P = \<lparr> refs = 1, kids = ks, qdata = d \<rparr>" using a(1) by (simp add: H'(3))
        then show ?thesis using kd a(2) by simp
      next
        case False
        then show ?thesis using a(1,2) kid_exists[OF ok, of p P k] by (auto simp: H'(3))
      qed
      then have "k \<noteq> x" using x by blast
      then have o: "objects H k = Some (c', p')" using a(3) by (simp add: H'(2))
      then have p': "p' \<noteq> ?p" "p' \<in> dom (privates H)" using heap_okD(5)[OF ok o] fp by auto
      then show ?thesis using a(1,2) r(1)[OF _ a(2) o] r(2)[OF p'(2)] by (cases "p = ?p") (auto simp: H'(3))
    qed
    then show "ranked H'" unfolding ranked_def by blast
  qed
  assume vs: "list_all2 (rel_option (denotes H)) ks vs"
  have "list_all2 (rel_option (denotes H')) ks vs" by (rule rel_kids_mono[OF _ vs]) (use grows_denotes[OF ok g] kd in blast)
  then show "denotes H' x (QueryValue c d vs)"
    using denotes.intros[of H' x c ?p "\<lparr> refs = 1, kids = ks, qdata = d \<rparr>" vs] by (simp add: H'(2,3))
qed

text \<open>One more object for private data that are there.\<close>

lemma share_ok:
  assumes ok: "heap_ok R H" and o: "objects H x = Some (c, p)" and P: "privates H p = Some P" and fy: "objects H y = None"
    and Hs: "objects H' = (objects H)(y \<mapsto> (c, p))" "privates H' = (privates H)(p \<mapsto> P\<lparr>refs := Suc (refs P)\<rparr>)"
      "next_ptr H \<le> next_ptr H'" "y < next_ptr H'"
  shows "heap_ok (add_mset y R) H'" "grows H H'"
proof -
  have uo: "users H' q = (if q = p then insert y (users H q) else users H q)" for q using fy by (auto simp: users_def Hs(1))
  have yu: "y \<notin> users H p" using fy by (simp add: users_def)
  have fu: "finite (users H p)" using finite_subset[OF _ heap_okD(1)[OF ok], of "users H p"] by (auto simp: users_def)
  show "grows H H'" using fy P by (auto simp: grows_def Hs)
  show "heap_ok (add_mset y R) H'"
  proof (rule heap_okI)
    show "finite (dom (objects H'))" "finite (dom (privates H'))" using heap_okD(1,2)[OF ok] by (simp_all add: Hs(1,2))
    show "z < next_ptr H'" if "z \<in> dom (objects H')" for z
      using that heap_okD(3)[OF ok, of z] Hs(3,4) by (force simp: Hs(1) split: if_splits)
    show "q < next_ptr H'" if "q \<in> dom (privates H')" for q
      using that heap_okD(4)[OF ok, of q] P Hs(3) by (force simp: Hs(2) split: if_splits)
    show "q \<in> dom (privates H')" if "objects H' z = Some (c', q)" for z c' q
      using that heap_okD(5)[OF ok, of z c' q] P by (auto simp: Hs(1,2) split: if_splits)
    show "refs Q = card (users H' q) \<and> 0 < refs Q" if "privates H' q = Some Q" for q Q
      using that heap_okD(6,7)[OF ok, of q] P fu yu by (auto simp: Hs(2) uo split: if_splits)
    have "all_kids H' = all_kids H" by (rule all_kids_same[OF heap_okD(2)[OF ok] Hs(2) P]) simp
    moreover have "mset_set (dom (objects H')) = add_mset y (mset_set (dom (objects H)))"
      using heap_okD(1)[OF ok] fy by (simp add: Hs(1) domIff)
    ultimately show "all_kids H' + add_mset y R = mset_set (dom (objects H'))" using heap_okD(8)[OF ok] by (metis union_mset_add_mset_right)
    obtain rank :: "ptr \<Rightarrow> nat" where r: "\<And>p P k c p'. privates H p = Some P \<Longrightarrow> k \<in> set (pointers (kids P)) \<Longrightarrow>
       objects H k = Some (c, p') \<Longrightarrow> rank p' < rank p" using heap_okD(9)[OF ok] unfolding ranked_def by blast
    have "rank q' < rank q" if a: "privates H' q = Some Q" "k \<in> set (pointers (kids Q))" "objects H' k = Some (c', q')" for q Q k c' q'
    proof -
      obtain Q0 where Q0: "privates H q = Some Q0" "kids Q0 = kids Q" using a(1) P by (auto simp: Hs(2) split: if_splits)
      then have "k \<in> dom (objects H)" using kid_exists[OF ok Q0(1)] a(2) by simp
      then have "objects H k = Some (c', q')" using a(3) fy by (auto simp: Hs(1) split: if_splits)
      then show ?thesis using r[OF Q0(1)] a(2) Q0(2) by simp
    qed
    then show "ranked H'" unfolding ranked_def by blast
  qed
qed

lemma clone_object_ok:
  assumes ok: "heap_ok R H" and x: "x \<in> dom (objects H)"
  shows "\<exists>y H'. clone_object x H = Some (y, H') \<and> heap_ok (add_mset y R) H' \<and> grows H H' \<and> objects H' y = objects H x \<and>
    y = next_ptr H \<and> dom (objects H') = insert y (dom (objects H)) \<and> dom (privates H') = dom (privates H)"
proof -
  obtain c p where o: "objects H x = Some (c, p)" using x by auto
  obtain P where P: "privates H p = Some P" using heap_okD(5)[OF ok o] by auto
  define y where "y = next_ptr H"
  define H' where "H' = H\<lparr>objects := (objects H)(y \<mapsto> (c, p)), privates := (privates H)(p \<mapsto> P\<lparr>refs := Suc (refs P)\<rparr>), next_ptr := Suc y\<rparr>"
  have Hs: "objects H' = (objects H)(y \<mapsto> (c, p))" "privates H' = (privates H)(p \<mapsto> P\<lparr>refs := Suc (refs P)\<rparr>)"
    "next_ptr H \<le> next_ptr H'" "y < next_ptr H'" by (simp_all add: H'_def y_def)
  have c: "clone_object x H = Some (y, H')" by (simp add: clone_object_def o P H'_def y_def)
  have fy: "objects H y = None" using fresh_object[OF ok] by (simp add: y_def)
  have "objects H' y = objects H x" "dom (objects H') = insert y (dom (objects H))" "dom (privates H') = dom (privates H)"
    using o P by (auto simp: Hs(1,2))
  then show ?thesis using c share_ok[OF ok o P fy Hs] y_def by blast
qed

lemma pointers_Some [simp]: "pointers (Some x # ks) = x # pointers ks" by simp
lemma pointers_None [simp]: "pointers (None # ks) = pointers ks" by simp

lemma clone_kids_ok:
  assumes "heap_ok R H" "set (pointers ks) \<subseteq> dom (objects H)"
  shows "\<exists>ks' H'. clone_kids ks H = Some (ks', H') \<and> heap_ok (mset (pointers ks') + R) H' \<and> grows H H' \<and>
    list_all2 (rel_option (\<lambda>k k'. objects H' k' = objects H k)) ks ks' \<and> set (pointers ks') \<inter> dom (objects H) = {} \<and>
    dom (objects H') = dom (objects H) \<union> set (pointers ks') \<and> dom (privates H') = dom (privates H)"
  using assms
proof (induction ks H arbitrary: R rule: clone_kids.induct)
  case (1 H)
  then show ?case by simp
next
  case (2 ks H)
  have "set (pointers ks) \<subseteq> dom (objects H)" using 2(3) by simp
  from 2(1)[OF 2(2) this] obtain ks' H' where r: "clone_kids ks H = Some (ks', H')" "heap_ok (mset (pointers ks') + R) H'" "grows H H'"
    "list_all2 (rel_option (\<lambda>k k'. objects H' k' = objects H k)) ks ks'" "set (pointers ks') \<inter> dom (objects H) = {}"
    "dom (objects H') = dom (objects H) \<union> set (pointers ks')" "dom (privates H') = dom (privates H)" by blast
  then show ?case by (intro exI[of _ "None # ks'"] exI[of _ H']) simp
next
  case (3 x ks H)
  have x: "x \<in> dom (objects H)" using 3(3) by simp
  from clone_object_ok[OF 3(2) x] obtain y H1 where y: "clone_object x H = Some (y, H1)" "heap_ok (add_mset y R) H1" "grows H H1"
    "objects H1 y = objects H x" "y = next_ptr H" "dom (objects H1) = insert y (dom (objects H))" "dom (privates H1) = dom (privates H)" by blast
  have ks: "set (pointers ks) \<subseteq> dom (objects H1)" using 3(3) y(6) by auto
  have "\<exists>ks' H'. clone_kids ks H1 = Some (ks', H') \<and> heap_ok (mset (pointers ks') + add_mset y R) H' \<and> grows H1 H' \<and>
    list_all2 (rel_option (\<lambda>k k'. objects H' k' = objects H1 k)) ks ks' \<and> set (pointers ks') \<inter> dom (objects H1) = {} \<and>
    dom (objects H') = dom (objects H1) \<union> set (pointers ks') \<and> dom (privates H') = dom (privates H1)"
    by (rule 3(1)[OF y(1) refl y(2) ks])
  then obtain ks' H' where r: "clone_kids ks H1 = Some (ks', H')" "heap_ok (mset (pointers ks') + add_mset y R) H'" "grows H1 H'"
    "list_all2 (rel_option (\<lambda>k k'. objects H' k' = objects H1 k)) ks ks'" "set (pointers ks') \<inter> dom (objects H1) = {}"
    "dom (objects H') = dom (objects H1) \<union> set (pointers ks')" "dom (privates H') = dom (privates H1)" by blast
  have yd: "y \<notin> dom (objects H)" using fresh_object[OF 3(2)] y(5) by auto
  have "objects H' y = objects H x" using r(3) y(4) y(6) unfolding grows_def by (metis insertI1)
  moreover have "list_all2 (rel_option (\<lambda>k k'. objects H' k' = objects H k)) ks ks'"
  proof (rule list.rel_mono_strong[OF r(4)])
    fix k k' assume "k \<in> set ks" "rel_option (\<lambda>k k'. objects H' k' = objects H1 k) k k'"
    moreover have "objects H1 z = objects H z" if "Some z \<in> set ks" for z
    proof -
      have "z \<in> dom (objects H)" using 3(3) that by (simp add: in_pointers[symmetric] subset_iff)
      then show ?thesis using y(3) unfolding grows_def by blast
    qed
    ultimately show "rel_option (\<lambda>k k'. objects H' k' = objects H k) k k'"
      by (cases k rule: option.exhaust; cases k' rule: option.exhaust) auto
  qed
  ultimately show ?case using y r yd heap_grows_trans[OF y(3) r(3)]
    by (intro exI[of _ "Some y # ks'"] exI[of _ H']) auto
qed

section \<open>Detaching\<close>

text \<open>An object that is not owned and alone uses its data may change them: nothing else changes its meaning.\<close>

lemma swap_private:
  assumes ok: "heap_ok R H" and x: "x \<in># R"
    and o': "\<And>y. y \<noteq> x \<Longrightarrow> objects H' y = objects H y"
    and p': "\<And>y c p P. y \<noteq> x \<Longrightarrow> objects H y = Some (c, p) \<Longrightarrow> privates H p = Some P \<Longrightarrow>
      \<exists>P'. privates H' p = Some P' \<and> kids P' = kids P \<and> qdata P' = qdata P"
    and y: "y \<in> dom (objects H)" "y \<noteq> x" and d: "denotes H y v"
  shows "denotes H' y v"
proof (rule agree_denotes[OF _ d])
  show "y \<in> dom (objects H) - {x}" using y by simp
  show "agree (dom (objects H) - {x}) H H'"
    unfolding agree_def
  proof (intro allI impI conjI)
    fix y c p P assume a: "y \<in> dom (objects H) - {x}" "objects H y = Some (c, p)" "privates H p = Some P"
    show "set (pointers (kids P)) \<subseteq> dom (objects H) - {x}" using kid_exists[OF ok a(3)] root_not_kid[OF ok x a(3)] by blast
    show "\<exists>p' P'. objects H' y = Some (c, p') \<and> privates H' p' = Some P' \<and> kids P' = kids P \<and> qdata P' = qdata P"
      using o'[of y] p'[of y c p P] a by auto
  qed
qed

text \<open>A root takes private data of its own.\<close>

lemma repoint_ok:
  assumes ok: "heap_ok (mset (pointers ks) + R) H1" and x: "x \<in># mset (pointers ks) + R" and o1: "objects H1 x = Some (c, p)" and P1: "privates H1 p = Some P1"
    and q: "q = next_ptr H1" and Q: "Q = \<lparr> refs = 1, kids = ks, qdata = d \<rparr>" and rP: "1 < refs P1" and xk: "x \<notin> set (pointers ks)"
    and same: "\<And>k. k \<in> set (pointers ks) \<Longrightarrow> \<exists>k0 \<in> set (pointers (kids P1)). objects H1 k = objects H1 k0"
    and Hs: "objects H' = (objects H1)(x \<mapsto> (c, q))" "privates H' = (privates H1)(p \<mapsto> P1\<lparr>refs := refs P1 - 1\<rparr>, q \<mapsto> Q)" "next_ptr H' = Suc (next_ptr H1)"
  shows "heap_ok R H'"
proof -
  have fq: "privates H1 q = None" using fresh_private[OF ok] by (simp add: q)
  have qp: "q \<noteq> p" using fq P1 by auto
  have fu: "finite (users H1 p)" using finite_subset[OF _ heap_okD(1)[OF ok], of "users H1 p"] by (auto simp: users_def)
  have xu: "x \<in> users H1 p" using o1 by (simp add: users_def)
  have uq: "users H' q = {x}" using heap_okD(5)[OF ok] fq by (auto simp: users_def Hs(1))
  have up: "users H' p = users H1 p - {x}" using qp by (auto simp: users_def Hs(1))
  have uo: "users H' r = users H1 r" if "r \<noteq> p" "r \<noteq> q" for r using that o1 by (auto simp: users_def Hs(1))
  show ?thesis
  proof (rule heap_okI)
    show "finite (dom (objects H'))" "finite (dom (privates H'))" using heap_okD(1,2)[OF ok] by (simp_all add: Hs(1,2))
    show "z < next_ptr H'" if "z \<in> dom (objects H')" for z
    proof -
      have "z \<in> dom (objects H1)" using that o1 by (auto simp: Hs(1) split: if_splits)
      then show ?thesis using heap_okD(3)[OF ok] by (simp add: Hs(3) less_SucI)
    qed
    show "r < next_ptr H'" if "r \<in> dom (privates H')" for r
    proof -
      have "r \<in> dom (privates H1) \<or> r = q" using that P1 by (auto simp: Hs(2) split: if_splits)
      then show ?thesis using heap_okD(4)[OF ok] q by (force simp: Hs(3))
    qed
    show "r \<in> dom (privates H')" if "objects H' z = Some (c', r)" for z c' r
      using that heap_okD(5)[OF ok, of z c' r] P1 by (auto simp: Hs split: if_splits)
    show "refs Z = card (users H' r) \<and> 0 < refs Z" if Z: "privates H' r = Some Z" for r Z
    proof -
      consider "r = q" | "r = p" | "r \<noteq> p" "r \<noteq> q" by blast
      then show ?thesis
      proof cases
        case 1
        then have "Z = Q" using Z by (simp add: Hs(2))
        then show ?thesis using 1 uq by (simp add: Q)
      next
        case 2
        then have "refs Z = refs P1 - 1" using Z qp by (auto simp: Hs(2))
        then show ?thesis using 2 up xu fu heap_okD(6)[OF ok P1] rP by simp
      next
        case 3
        then have "privates H1 r = Some Z" using Z by (simp add: Hs(2))
        then show ?thesis using uo[OF 3] heap_okD(6,7)[OF ok] by simp
      qed
    qed
    let ?M = "H1\<lparr>privates := (privates H1)(p \<mapsto> P1\<lparr>refs := refs P1 - 1\<rparr>)\<rparr>"
    have "all_kids ?M = all_kids H1" by (rule all_kids_same[where P' = "P1\<lparr>refs := refs P1 - 1\<rparr>", OF heap_okD(2)[OF ok] _ P1]) simp_all
    moreover have "all_kids H' = all_kids ?M + mset (pointers (kids Q))"
      by (rule all_kids_insert[where p = q and P = Q]) (use heap_okD(2)[OF ok] fq qp in \<open>auto simp: Hs(2)\<close>)
    ultimately have "all_kids H' + R = all_kids H1 + (mset (pointers ks) + R)" by (simp add: Q)
    also have "\<dots> = mset_set (dom (objects H1))" by (rule heap_okD(8)[OF ok])
    also have "\<dots> = mset_set (dom (objects H'))" using o1 by (simp add: Hs(1) insert_absorb domI)
    finally show "all_kids H' + R = mset_set (dom (objects H'))" .
    obtain rank :: "ptr \<Rightarrow> nat" where r: "\<And>p P k c p'. privates H1 p = Some P \<Longrightarrow> k \<in> set (pointers (kids P)) \<Longrightarrow>
       objects H1 k = Some (c, p') \<Longrightarrow> rank p' < rank p" using heap_okD(9)[OF ok] unfolding ranked_def by blast
    have "(rank(q := rank p)) s' < (rank(q := rank p)) s" if a: "privates H' s = Some Z" "k \<in> set (pointers (kids Z))" "objects H' k = Some (c', s')" for s Z k c' s'
    proof (cases "s = q")
      case True
      then have Z: "Z = Q" using a(1) by (simp add: Hs(2))
      then have k: "k \<in> set (pointers ks)" using a(2) by (simp add: Q)
      then have "k \<noteq> x" using xk by blast
      then have o2: "objects H1 k = Some (c', s')" using a(3) by (simp add: Hs(1))
      have sq: "s' \<noteq> q" using heap_okD(5)[OF ok o2] fq by auto
      obtain k0 where "k0 \<in> set (pointers (kids P1))" "objects H1 k = objects H1 k0" using same[OF k] by blast
      then have "rank s' < rank p" using r[OF P1, of k0 c' s'] o2 by simp
      then show ?thesis using True sq by simp
    next
      case False
      then obtain Z1 where Z1: "privates H1 s = Some Z1" "kids Z1 = kids Z" using a(1) P1 by (auto simp: Hs(2) split: if_splits)
      have k: "k \<in> dom (objects H1)" using kid_exists[OF ok Z1(1)] a(2) Z1(2) by simp
      have "k \<noteq> x" using root_not_kid[OF ok x Z1(1)] a(2) Z1(2) by metis
      then have o2: "objects H1 k = Some (c', s')" using a(3) by (simp add: Hs(1))
      have "s' \<noteq> q" using heap_okD(5)[OF ok o2] fq by auto
      then show ?thesis using r[OF Z1(1) _ o2] a(2) Z1(2) False by simp
    qed
    then show "ranked H'" unfolding ranked_def by blast
  qed
qed

lemma detach_ok:
  assumes ok: "heap_ok R H" and x: "x \<in># R" and o: "objects H x = Some (c, p)" and P: "privates H p = Some P"
  shows "\<exists>H' p' P'. detach x H = Some H' \<and> heap_ok R H' \<and> objects H' x = Some (c, p') \<and> privates H' p' = Some P' \<and> refs P' = 1 \<and>
    qdata P' = (if refs P = 1 then qdata P else copy_data (qdata P)) \<and> length (kids P') = length (kids P) \<and>
    (\<forall>y v. y \<in> dom (objects H) \<longrightarrow> y \<noteq> x \<longrightarrow> denotes H y v \<longrightarrow> denotes H' y v) \<and>
    (\<forall>vs. list_all2 (rel_option (denotes H)) (kids P) vs \<longrightarrow> list_all2 (rel_option (denotes H')) (kids P') vs)"
proof (cases "refs P = 1")
  case True
  then have "detach x H = Some H" by (simp add: detach_def o P)
  then show ?thesis using True ok o P by auto
next
  case False
  have kp: "set (pointers (kids P)) \<subseteq> dom (objects H)" using kid_exists[OF ok P] by blast
  from clone_kids_ok[OF ok kp] obtain ks H1 where ks: "clone_kids (kids P) H = Some (ks, H1)" "heap_ok (mset (pointers ks) + R) H1" "grows H H1"
    "list_all2 (rel_option (\<lambda>k k'. objects H1 k' = objects H k)) (kids P) ks" "set (pointers ks) \<inter> dom (objects H) = {}"
    "dom (objects H1) = dom (objects H) \<union> set (pointers ks)" "dom (privates H1) = dom (privates H)" by blast
  have xd: "x \<in> dom (objects H)" using o by auto
  obtain P1 where P1: "privates H1 p = Some P1" "kids P1 = kids P" "qdata P1 = qdata P" "refs P \<le> refs P1" using ks(3) P unfolding grows_def by blast
  have o1: "objects H1 x = Some (c, p)" using ks(3) o xd unfolding grows_def by simp
  define q where "q = next_ptr H1"
  define Q where "Q = \<lparr> refs = 1, kids = ks, qdata = copy_data (qdata P) \<rparr>"
  define H' where "H' = H1\<lparr>objects := (objects H1)(x \<mapsto> (c, q)), privates := (privates H1)(p \<mapsto> P1\<lparr>refs := refs P1 - 1\<rparr>, q \<mapsto> Q), next_ptr := Suc q\<rparr>"
  have Hs: "objects H' = (objects H1)(x \<mapsto> (c, q))" "privates H' = (privates H1)(p \<mapsto> P1\<lparr>refs := refs P1 - 1\<rparr>, q \<mapsto> Q)"
    "next_ptr H' = Suc (next_ptr H1)" by (simp_all add: H'_def q_def)
  have d: "detach x H = Some H'" using False by (simp add: detach_def o P ks(1) P1(1) H'_def q_def Q_def)
  have fq: "privates H1 q = None" using fresh_private[OF ks(2)] by (simp add: q_def)
  have x1: "x \<in># mset (pointers ks) + R" using x by simp
  have rP: "refs P > 1" using False heap_okD(7)[OF ok P] by linarith
  have xk: "x \<notin> set (pointers ks)" using ks(5) xd by blast
  have same: "\<exists>k0 \<in> set (pointers (kids P1)). objects H1 k = objects H1 k0" if k: "k \<in> set (pointers ks)" for k
  proof -
    from k have "Some k \<in> set ks" by (simp add: in_pointers)
    then obtain i where i: "i < length ks" "ks ! i = Some k" by (metis in_set_conv_nth)
    have il: "i < length (kids P)" using i(1) list_all2_lengthD[OF ks(4)] by simp
    from list_all2_nthD[OF ks(4) il] i(2) obtain k0 where k0: "kids P ! i = Some k0" "objects H1 k = objects H k0"
      by (auto simp: option_rel_Some2)
    then have "Some k0 \<in> set (kids P)" using nth_mem[OF il] by simp
    then have kk: "k0 \<in> set (pointers (kids P))" by (simp add: in_pointers)
    then have "objects H1 k0 = objects H k0" using ks(3) kp unfolding grows_def by blast
    then show ?thesis using kk k0(2) P1(2) by (auto intro: bexI[of _ k0])
  qed
  have "heap_ok R H'" by (rule repoint_ok[OF ks(2) x1 o1 P1(1) q_def Q_def _ xk same Hs]) (use rP P1(4) in simp)
  moreover have o2: "objects H' x = Some (c, q)" "privates H' q = Some Q" by (simp_all add: Hs)
  have swap: "denotes H' y v" if "y \<in> dom (objects H1)" "y \<noteq> x" "denotes H1 y v" for y v
  proof (rule swap_private[OF ks(2) x1 _ _ that])
    show "objects H' z = objects H1 z" if "z \<noteq> x" for z using that by (simp add: Hs(1))
    fix z c' r Z assume z: "objects H1 z = Some (c', r)" "privates H1 r = Some Z"
    then show "\<exists>P'. privates H' r = Some P' \<and> kids P' = kids Z \<and> qdata P' = qdata Z"
      using fq P1(1) by (cases "r = p") (auto simp: Hs(2))
  qed
  have others: "denotes H' y v" if "y \<in> dom (objects H)" "y \<noteq> x" "denotes H y v" for y v
    using swap grows_denotes[OF ok ks(3) that(1,3)] that(1,2) ks(6) by blast
  have "list_all2 (rel_option (denotes H')) ks vs" if vs: "list_all2 (rel_option (denotes H)) (kids P) vs" for vs
    unfolding list_all2_conv_all_nth
  proof (intro conjI allI impI)
    show "length ks = length vs" using list_all2_lengthD[OF vs] list_all2_lengthD[OF ks(4)] by simp
    fix i assume i: "i < length ks"
    have il: "i < length (kids P)" using i list_all2_lengthD[OF ks(4)] by simp
    show "rel_option (denotes H') (ks ! i) (vs ! i)"
    proof (cases "ks ! i")
      case None
      then show ?thesis using list_all2_nthD[OF ks(4) il] list_all2_nthD[OF vs il] by simp
    next
      case (Some k)
      then obtain k0 where k0: "kids P ! i = Some k0" "objects H1 k = objects H k0" using list_all2_nthD[OF ks(4) il] by (auto simp: option_rel_Some2)
      then obtain v where v: "vs ! i = Some v" "denotes H k0 v" using list_all2_nthD[OF vs il] by (auto simp: option_rel_Some1)
      have "Some k \<in> set ks" using Some i by (metis nth_mem)
      then have kk: "k \<in> set (pointers ks)" by (simp add: in_pointers)
      have "Some k0 \<in> set (kids P)" using k0(1) nth_mem[OF il] by simp
      then have k0d: "k0 \<in> dom (objects H)" using kp by (simp add: in_pointers[symmetric] subset_iff)
      obtain c' r where "objects H k0 = Some (c', r)" using k0d by auto
      moreover have "objects H1 k0 = objects H k0" using ks(3) k0d unfolding grows_def by blast
      ultimately have "denotes H1 k v" using denotes_same_data[of H1 k0 c' r k v] grows_denotes[OF ok ks(3) k0d v(2)] k0(2) by simp
      moreover have "k \<in> dom (objects H1)" "k \<noteq> x" using kk ks(6) xk by auto
      ultimately have "denotes H' k v" using swap by blast
      then show ?thesis using Some v(1) by simp
    qed
  qed
  then have "\<forall>vs. list_all2 (rel_option (denotes H)) (kids P) vs \<longrightarrow> list_all2 (rel_option (denotes H')) (kids Q) vs" by (simp add: Q_def)
  moreover have "length (kids Q) = length (kids P)" using list_all2_lengthD[OF ks(4)] by (simp add: Q_def)
  moreover have "qdata Q = (if refs P = 1 then qdata P else copy_data (qdata P))" "refs Q = 1" using False by (simp_all add: Q_def)
  ultimately show ?thesis using d o2 others by blast
qed

section \<open>Writing\<close>

lemma write_private_ok:
  assumes ok: "heap_ok R H" and x: "x \<in># R" and o: "objects H x = Some (c, p)" and P: "privates H p = Some P" and u: "refs P = 1"
    and R': "mset (pointers ks) + R' = mset (pointers (kids P)) + R" and xk: "x \<notin> set (pointers ks)"
  shows "\<exists>H'. write_private x ks d H = Some H' \<and> heap_ok R' H' \<and> x \<in># R' \<and> objects H' = objects H \<and>
    privates H' p = Some (P\<lparr>kids := ks, qdata := d\<rparr>) \<and>
    (\<forall>y v. y \<in> dom (objects H) \<longrightarrow> y \<noteq> x \<longrightarrow> denotes H y v \<longrightarrow> denotes H' y v) \<and>
    (\<forall>vs. list_all2 (rel_option (denotes H)) ks vs \<longrightarrow> denotes H' x (QueryValue c d vs))"
proof -
  define Q where "Q = P\<lparr>kids := ks, qdata := d\<rparr>"
  define H' where "H' = H\<lparr>privates := (privates H)(p \<mapsto> Q)\<rparr>"
  have Hs: "objects H' = objects H" "privates H' = (privates H)(p \<mapsto> Q)" "next_ptr H' = next_ptr H" by (simp_all add: H'_def)
  have w: "write_private x ks d H = Some H'" by (simp add: write_private_def o P H'_def Q_def)
  have alone: "y = x" if "objects H y = Some (c', p)" for y c' using unshared_user[OF ok P u o that] .
  have us: "users H' r = users H r" for r by (simp add: users_def Hs(1))
  have xR': "x \<in># R'" using R' x xk by (metis set_mset_mset union_iff)
  have kd: "k \<in> dom (objects H)" if "k \<in> set (pointers ks)" for k
  proof -
    have "k \<in># mset (pointers (kids P)) + R" using that R' by (metis set_mset_mset union_iff)
    then show ?thesis using kid_exists[OF ok P, of k] root_exists[OF ok, of k] by auto
  qed
  obtain rank :: "ptr \<Rightarrow> nat" and B where r: "\<And>p P k c p'. privates H p = Some P \<Longrightarrow> k \<in> set (pointers (kids P)) \<Longrightarrow>
     objects H k = Some (c, p') \<Longrightarrow> rank p' < rank p" "\<And>p. p \<in> dom (privates H) \<Longrightarrow> rank p < B" using ranked_bound[OF ok] by blast
  have "heap_ok R' H'"
  proof (rule heap_okI)
    show "finite (dom (objects H'))" "finite (dom (privates H'))" using heap_okD(1,2)[OF ok] by (simp_all add: Hs)
    show "y < next_ptr H'" if "y \<in> dom (objects H')" for y using that heap_okD(3)[OF ok] by (simp add: Hs)
    show "q < next_ptr H'" if "q \<in> dom (privates H')" for q
      using that heap_okD(4)[OF ok, of q] heap_okD(4)[OF ok, of p] P by (cases "q = p") (auto simp: Hs)
    show "q \<in> dom (privates H')" if "objects H' y = Some (c', q)" for y c' q using that heap_okD(5)[OF ok] by (simp add: Hs)
    show "refs Z = card (users H' q) \<and> 0 < refs Z" if "privates H' q = Some Z" for q Z
      using that heap_okD(6,7)[OF ok, of q] P by (cases "q = p") (auto simp: Hs(2) us Q_def)
    have "all_kids H' + mset (pointers (kids P)) = all_kids H + mset (pointers ks)"
      using all_kids_update[OF heap_okD(2)[OF ok] Hs(2) P] by (simp add: Q_def)
    then have "all_kids H' + R' + mset (pointers (kids P)) = all_kids H + (mset (pointers ks) + R')" by (simp add: ac_simps)
    also have "\<dots> = all_kids H + (mset (pointers (kids P)) + R)" by (simp only: R')
    also have "\<dots> = all_kids H + R + mset (pointers (kids P))" by (simp add: ac_simps)
    finally have "all_kids H' + R' = all_kids H + R" by simp
    then show "all_kids H' + R' = mset_set (dom (objects H'))" using heap_okD(8)[OF ok] by (simp add: Hs(1))
    have "(rank(p := B)) q' < (rank(p := B)) q" if a: "privates H' q = Some Z" "k \<in> set (pointers (kids Z))" "objects H' k = Some (c', q')" for q Z k c' q'
    proof -
      have o': "objects H k = Some (c', q')" using a(3) by (simp add: Hs(1))
      have "k \<noteq> x"
      proof (cases "q = p")
        case True
        then show ?thesis using a(1,2) xk by (auto simp: Hs(2) Q_def)
      next
        case False
        then show ?thesis using a(1,2) root_not_kid[OF ok x, of q Z] by (auto simp: Hs(2))
      qed
      then have "q' \<noteq> p" using alone o' by blast
      then show ?thesis using a(1,2) r(1)[of q Z k c' q'] r(2)[of q'] o' heap_okD(5)[OF ok o'] by (cases "q = p") (auto simp: Hs(2))
    qed
    then show "ranked H'" unfolding ranked_def by blast
  qed
  moreover have swap: "denotes H' y v" if "y \<in> dom (objects H)" "y \<noteq> x" "denotes H y v" for y v
  proof (rule swap_private[OF ok x _ _ that])
    show "objects H' z = objects H z" if "z \<noteq> x" for z by (simp add: Hs(1))
    fix z c' q Z assume z: "z \<noteq> x" "objects H z = Some (c', q)" "privates H q = Some Z"
    then have "q \<noteq> p" using alone by blast
    then show "\<exists>P'. privates H' q = Some P' \<and> kids P' = kids Z \<and> qdata P' = qdata Z" using z(3) by (simp add: Hs(2))
  qed
  moreover have "denotes H' x (QueryValue c d vs)" if vs: "list_all2 (rel_option (denotes H)) ks vs" for vs
  proof -
    have "k \<noteq> x" if "k \<in> set (pointers ks)" for k using that xk by blast
    then have "list_all2 (rel_option (denotes H')) ks vs" by (intro rel_kids_mono[OF _ vs]) (use swap kd in blast)
    then show ?thesis using denotes.intros[of H' x c p Q vs] by (simp add: Hs o Q_def)
  qed
  ultimately show ?thesis using w xR' Hs Q_def by auto
qed

section \<open>Deleting\<close>

text \<open>One step of a deletion.\<close>

lemma drop_root:
  assumes ok: "heap_ok (add_mset x R) H" and o: "objects H x = Some (c, p)" and P: "privates H p = Some P"
    and H': "objects H' = (objects H)(x := None)" "next_ptr H' = next_ptr H"
    and p': "privates H' = (if refs P = 1 then (privates H)(p := None) else (privates H)(p \<mapsto> P\<lparr>refs := refs P - 1\<rparr>))"
  shows "heap_ok ((if refs P = 1 then mset (pointers (kids P)) else {#}) + R) H'" "shrinks H H'"
proof -
  have fu: "finite (users H p)" using finite_subset[OF _ heap_okD(1)[OF ok], of "users H p"] by (auto simp: users_def)
  have xu: "x \<in> users H p" using o by (simp add: users_def)
  have us: "users H' q = users H q - {x}" for q by (auto simp: users_def H'(1))
  have uo: "users H q - {x} = users H q" if "q \<noteq> p" for q using that o by (auto simp: users_def)
  show s: "shrinks H H'" using P by (auto simp: shrinks_def H'(1) p')
  show "heap_ok ((if refs P = 1 then mset (pointers (kids P)) else {#}) + R) H'"
  proof (rule heap_okI)
    show "finite (dom (objects H'))" "finite (dom (privates H'))" using heap_okD(1,2)[OF ok] by (simp_all add: H'(1) p')
    show "y < next_ptr H'" if "y \<in> dom (objects H')" for y using that heap_okD(3)[OF ok, of y] by (auto simp: H' split: if_splits)
    show "q < next_ptr H'" if "q \<in> dom (privates H')" for q
      using that heap_okD(4)[OF ok, of q] P by (auto simp: H'(2) p' split: if_splits)
    show "q \<in> dom (privates H')" if q: "objects H' y = Some (c', q)" for y c' q
    proof -
      have y: "y \<noteq> x" "objects H y = Some (c', q)" using q by (auto simp: H'(1) split: if_splits)
      then have "q \<noteq> p" if "refs P = 1" using unshared_user[OF ok P that o] by blast
      then show ?thesis using heap_okD(5)[OF ok y(2)] by (auto simp: p')
    qed
    show "refs Z = card (users H' q) \<and> 0 < refs Z" if Z: "privates H' q = Some Z" for q Z
    proof (cases "q = p")
      case True
      then have "refs P \<noteq> 1" "refs Z = refs P - 1" using Z by (auto simp: p' split: if_splits)
      then show ?thesis using True heap_okD(6,7)[OF ok P] fu xu by (simp add: us)
    next
      case False
      then have "privates H q = Some Z" using Z by (auto simp: p' split: if_splits)
      then show ?thesis using heap_okD(6,7)[OF ok, of q Z] us[of q] uo[OF False] by simp
    qed
    have "all_kids H' + (if refs P = 1 then mset (pointers (kids P)) else {#}) = all_kids H"
    proof (cases "refs P = 1")
      case True
      then show ?thesis using all_kids_remove[OF heap_okD(2)[OF ok] _ P, of H'] by (simp add: p')
    next
      case False
      then show ?thesis using all_kids_same[OF heap_okD(2)[OF ok] _ P, of H' "P\<lparr>refs := refs P - 1\<rparr>"] by (simp add: p')
    qed
    then have "all_kids H' + ((if refs P = 1 then mset (pointers (kids P)) else {#}) + R) = all_kids H + R" by (metis union_assoc)
    also have "\<dots> = mset_set (dom (objects H)) - {#x#}" using heap_okD(8)[OF ok] by (metis add_mset_remove_trivial union_mset_add_mset_right)
    also have "\<dots> = mset_set (dom (objects H'))" using heap_okD(1)[OF ok] o by (simp add: H'(1) mset_set_Diff domI)
    finally show "all_kids H' + ((if refs P = 1 then mset (pointers (kids P)) else {#}) + R) = mset_set (dom (objects H'))" .
    obtain rank :: "ptr \<Rightarrow> nat" where r: "\<And>p P k c p'. privates H p = Some P \<Longrightarrow> k \<in> set (pointers (kids P)) \<Longrightarrow>
       objects H k = Some (c, p') \<Longrightarrow> rank p' < rank p" using heap_okD(9)[OF ok] unfolding ranked_def by blast
    have "rank q' < rank q" if a: "privates H' q = Some Z" "k \<in> set (pointers (kids Z))" "objects H' k = Some (c', q')" for q Z k c' q'
    proof -
      obtain Z0 where "privates H q = Some Z0" "kids Z0 = kids Z" using s a(1) unfolding shrinks_def by metis
      moreover have "objects H k = Some (c', q')" using a(3) by (auto simp: H'(1) split: if_splits)
      ultimately show ?thesis using r a(2) by metis
    qed
    then show "ranked H'" unfolding ranked_def by blast
  qed
qed

lemma release_Nil [simp]: "release_objects [] H = Some H"
  by (subst release_objects.simps) simp

lemma release_step:
  "release_objects (x # xs) H = (case objects H x of None \<Rightarrow> None | Some (c, p) \<Rightarrow> (case privates H p of None \<Rightarrow> None | Some P \<Rightarrow>
     (if refs P = 1 then release_objects (pointers (kids P) @ xs) (H\<lparr>objects := (objects H)(x := None), privates := (privates H)(p := None)\<rparr>)
      else release_objects xs (H\<lparr>objects := (objects H)(x := None), privates := (privates H)(p \<mapsto> P\<lparr>refs := refs P - 1\<rparr>)\<rparr>))))"
  by (subst release_objects.simps) simp

declare release_objects.simps [code del]
lemmas release_code [code] = release_Nil release_step

lemma release_Cons:
  "objects H x = Some (c, p) \<Longrightarrow> privates H p = Some P \<Longrightarrow> release_objects (x # xs) H =
     (if refs P = 1 then release_objects (pointers (kids P) @ xs) (H\<lparr>objects := (objects H)(x := None), privates := (privates H)(p := None)\<rparr>)
      else release_objects xs (H\<lparr>objects := (objects H)(x := None), privates := (privates H)(p \<mapsto> P\<lparr>refs := refs P - 1\<rparr>)\<rparr>))"
  by (subst release_objects.simps) simp

lemma release_ok:
  assumes "heap_ok (mset xs + R) H"
  shows "\<exists>H'. release_objects xs H = Some H' \<and> heap_ok R H' \<and> shrinks H H'"
  using assms
proof (induction "card (dom (objects H))" arbitrary: xs H rule: less_induct)
  case less
  show ?case
  proof (cases xs)
    case Nil
    then show ?thesis using less.prems by simp
  next
    case (Cons x ys)
    have ok: "heap_ok (add_mset x (mset ys + R)) H" using less.prems Cons by simp
    obtain c p P where o: "objects H x = Some (c, p)" and P: "privates H p = Some P" using root_private[OF ok, of x] by auto
    define H1 where "H1 = H\<lparr>objects := (objects H)(x := None), privates := (if refs P = 1 then (privates H)(p := None) else (privates H)(p \<mapsto> P\<lparr>refs := refs P - 1\<rparr>))\<rparr>"
    define zs where "zs = (if refs P = 1 then pointers (kids P) else []) @ ys"
    have r: "release_objects xs H = release_objects zs H1" using o P by (simp add: Cons release_Cons H1_def zs_def)
    have H1: "objects H1 = (objects H)(x := None)" "next_ptr H1 = next_ptr H"
      "privates H1 = (if refs P = 1 then (privates H)(p := None) else (privates H)(p \<mapsto> P\<lparr>refs := refs P - 1\<rparr>))" by (simp_all add: H1_def)
    have ok1: "heap_ok ((if refs P = 1 then mset (pointers (kids P)) else {#}) + (mset ys + R)) H1" and s1: "shrinks H H1"
      using drop_root[OF ok o P H1(1,2,3)] by auto
    have z: "heap_ok (mset zs + R) H1" using ok1 by (simp add: zs_def ac_simps split: if_splits)
    have "card (dom (objects H1)) < card (dom (objects H))"
      unfolding H1(1) using heap_okD(1)[OF ok] o by (intro psubset_card_mono) auto
    from less.hyps[OF this z] obtain H' where "release_objects zs H1 = Some H'" "heap_ok R H'" "shrinks H1 H'" by blast
    then show ?thesis using r shrinks_trans[OF s1] by auto
  qed
qed

text \<open>Deleting roots never touches freed memory, leaves nothing of them, and changes nothing else.\<close>

lemma delete_object_ok:
  assumes "heap_ok (mset (pointers [k]) + R) H"
  shows "\<exists>H'. delete_object k H = Some H' \<and> heap_ok R H' \<and> shrinks H H'"
  using assms release_ok[of "[the k]" R H] by (cases k) (auto simp: delete_object_def)

text \<open>Assigning: the object gives up its data and joins those of the other.\<close>

lemma assign_object_ok:
  assumes ok: "heap_ok R H" and x: "x \<in># R" and y: "y \<in> dom (objects H)"
    and o: "objects H x = Some (c, p)" "objects H y = Some (c, q)" and pq: "p \<noteq> q"
  shows "\<exists>H'. assign_object x y H = Some H' \<and> heap_ok R H' \<and> objects H' x = Some (c, q) \<and>
    (\<forall>z v. z \<in># R \<longrightarrow> z \<noteq> x \<longrightarrow> denotes H z v \<longrightarrow> denotes H' z v) \<and> (\<forall>v. y \<in># R \<longrightarrow> denotes H y v \<longrightarrow> denotes H' x v)"
proof -
  obtain P where P: "privates H p = Some P" using heap_okD(5)[OF ok o(1)] by auto
  obtain Q where Q: "privates H q = Some Q" using heap_okD(5)[OF ok o(2)] by auto
  obtain R0 where R0: "R = add_mset x R0" using x by (metis mset_add)
  have xy: "x \<noteq> y" using o pq by auto
  define D where "D = H\<lparr>objects := (objects H)(x := None), privates := (if refs P = 1 then (privates H)(p := None) else (privates H)(p \<mapsto> P\<lparr>refs := refs P - 1\<rparr>))\<rparr>"
  define M where "M = D\<lparr>objects := (objects D)(x \<mapsto> (c, q)), privates := (privates D)(q \<mapsto> Q\<lparr>refs := Suc (refs Q)\<rparr>)\<rparr>"
  let ?ks = "if refs P = 1 then pointers (kids P) else []"
  have d: "heap_ok ((if refs P = 1 then mset (pointers (kids P)) else {#}) + R0) D" "shrinks H D"
    using drop_root[OF ok[unfolded R0] o(1) P, of D] by (simp_all add: D_def)
  have oD: "objects D y = Some (c, q)" "privates D q = Some Q" "objects D x = None" using o(2) xy pq Q by (simp_all add: D_def)
  have xn: "x < next_ptr D" using heap_okD(3)[OF ok, of x] o(1) by (simp add: D_def domI)
  have m: "heap_ok (add_mset x ((if refs P = 1 then mset (pointers (kids P)) else {#}) + R0)) M" "grows D M"
    using share_ok[OF d(1) oD(1,2,3), of M] xn by (simp_all add: M_def)
  then have m': "heap_ok (mset ?ks + R) M" by (simp add: R0 split: if_splits)
  from release_ok[OF m'] obtain H' where h: "release_objects ?ks M = Some H'" "heap_ok R H'" "shrinks M H'" by blast
  have "assign_object x y H = release_objects ?ks M"
    using pq P Q by (simp add: assign_object_def o M_def D_def Let_def fun_upd_twist)
  moreover have kept: "objects H' z = objects M z" if "z \<in># R" for z using h(3) root_exists[OF h(2) that] unfolding shrinks_def by (metis domIff)
  moreover have ox: "objects H' x = Some (c, q)" using kept[OF x] by (simp add: M_def)
  moreover have rest: "denotes H' z v" if z: "z \<in># R" "z \<noteq> x" "denotes H z v" for z v
  proof -
    have "z \<in> dom (objects D)" using root_exists[OF ok z(1)] z(2) by (simp add: D_def)
    then have "denotes D z v" "z \<in> dom (objects D)" using shrinks_denotes[OF d(1,2) _ z(3)] by blast+
    then have "denotes M z v" using grows_denotes[OF d(1) m(2)] by blast
    then show ?thesis using shrinks_denotes[OF h(2,3) root_exists[OF h(2) z(1)]] by blast
  qed
  moreover have "denotes H' x v" if v: "y \<in># R" "denotes H y v" for v
  proof -
    have "objects H' y = Some (c, q)" using kept[OF v(1)] oD(1) xy by (simp add: M_def)
    then show ?thesis using denotes_same_data[of H' y c q x v] rest[OF v(1) _ v(2)] xy ox by blast
  qed
  ultimately show ?thesis using h(1,2) by auto
qed

end
