(* ===== verification/Query_Values.thy ===== *)
theory Query_Values
  imports Query_Sharing
begin

text \<open>
  Parsed queries as values (soprano/query/query.cpp): with the objects a client owns seen as independent trees, every call changes the tree
  of the object it is made on, and no other, although all of them share data.
\<close>

section \<open>Calls\<close>

datatype query_call =
    NewObject query_class "ptr option list" query_data
  | Clone ptr
  | SetKid nat "ptr option" ptr
  | AppendKid ptr ptr
  | ChangeData "query_data \<Rightarrow> query_data" ptr
  | ReadData ptr
  | Assign ptr ptr
  | Delete ptr

fun run_call :: "query_call \<Rightarrow> query_heap \<Rightarrow> (ptr option \<times> query_heap) option" where
  "run_call (NewObject c ks d) H = (case new_object c ks d H of (x, H) \<Rightarrow> Some (Some x, H))"
| "run_call (Clone x) H = map_option (\<lambda>(y, H). (Some y, H)) (clone_object x H)"
| "run_call (SetKid i k x) H = map_option (Pair None) (set_kid i k x H)"
| "run_call (AppendKid k x) H = map_option (Pair None) (append_kid k x H)"
| "run_call (ChangeData f x) H = map_option (Pair None) (change_data f x H)"
| "run_call (ReadData x) H = map_option (\<lambda>(d, H). (None, H)) (read_data x H)"
| "run_call (Assign x y) H = map_option (Pair None) (assign_object x y H)"
| "run_call (Delete x) H = map_option (Pair None) (delete_object (Some x) H)"

section \<open>The values\<close>

type_synonym query_env = "ptr \<rightharpoonup> query_value"

definition kid_value :: "query_env \<Rightarrow> ptr option \<Rightarrow> query_value option" where
  "kid_value env k = (case k of None \<Rightarrow> None | Some x \<Rightarrow> env x)"

definition without :: "query_env \<Rightarrow> ptr option list \<Rightarrow> query_env" where
  "without env ks = env |` (- set (pointers ks))"

primrec value_kids :: "query_value \<Rightarrow> query_value option list" where
  "value_kids (QueryValue c d vs) = vs"

primrec value_data :: "query_value \<Rightarrow> query_data" where
  "value_data (QueryValue c d vs) = d"

primrec value_class :: "query_value \<Rightarrow> query_class" where
  "value_class (QueryValue c d vs) = c"

text \<open>What a call does to the values; an object handed over to another is no longer the client's.\<close>

fun spec_call :: "query_call \<Rightarrow> ptr option \<Rightarrow> query_env \<Rightarrow> query_env" where
  "spec_call (NewObject c ks d) r env = (case r of None \<Rightarrow> env | Some x \<Rightarrow> (without env ks)(x \<mapsto> QueryValue c d (map (kid_value env) ks)))"
| "spec_call (Clone x) r env = (case r of None \<Rightarrow> env | Some y \<Rightarrow> env(y := env x))"
| "spec_call (SetKid i k x) r env = (case env x of None \<Rightarrow> env | Some (QueryValue c d vs) \<Rightarrow>
     (without env [k])(x \<mapsto> QueryValue c d (vs[i := kid_value env k])))"
| "spec_call (AppendKid k x) r env = (case env x of None \<Rightarrow> env | Some (QueryValue c d vs) \<Rightarrow>
     (without env [Some k])(x \<mapsto> QueryValue c d (vs @ [env k])))"
| "spec_call (ChangeData f x) r env = (case env x of None \<Rightarrow> env | Some (QueryValue c d vs) \<Rightarrow> env(x \<mapsto> QueryValue c (f d) vs))"
| "spec_call (ReadData x) r env = env"
| "spec_call (Assign x y) r env = env(x := env y)"
| "spec_call (Delete x) r env = env(x := None)"

text \<open>What a caller owes: the objects are its own, and those it hands over are different from each other and from the one called.
  The prefixes of a query are left out, a copy loses them.\<close>

definition owned :: "query_env \<Rightarrow> ptr option list \<Rightarrow> bool" where
  "owned env ks \<longleftrightarrow> distinct (pointers ks) \<and> set (pointers ks) \<subseteq> dom env"

definition changeable :: "query_env \<Rightarrow> ptr \<Rightarrow> bool" where
  "changeable env x \<longleftrightarrow> (case env x of None \<Rightarrow> False | Some v \<Rightarrow> copy_data (value_data v) = value_data v)"

fun applicable :: "query_call \<Rightarrow> query_env \<Rightarrow> bool" where
  "applicable (NewObject c ks d) env = owned env ks"
| "applicable (Clone x) env = (env x \<noteq> None)"
| "applicable (SetKid i k x) env = (changeable env x \<and> owned env [k] \<and> k \<noteq> Some x \<and> i < length (value_kids (the (env x))) \<and>
     setter (class_base (value_class (the (env x)))) \<in> {CheckedSetter, DeletingSetter, PlainSetter})"
| "applicable (AppendKid k x) env = (changeable env x \<and> env k \<noteq> None \<and> k \<noteq> x)"
| "applicable (ChangeData f x) env = changeable env x"
| "applicable (ReadData x) env = changeable env x"
| "applicable (Assign x y) env = (env x \<noteq> None \<and> env y \<noteq> None \<and> value_class (the (env x)) = value_class (the (env y)))"
| "applicable (Delete x) env = (env x \<noteq> None)"

text \<open>The setters that only store leave the old object to nobody.\<close>

fun lost_objects :: "query_call \<Rightarrow> query_env \<Rightarrow> nat" where
  "lost_objects (SetKid i k x) env = (case env x of None \<Rightarrow> 0 | Some (QueryValue c d vs) \<Rightarrow>
     (if setter (class_base c) = PlainSetter \<and> vs ! i \<noteq> None then 1 else 0))"
| "lost_objects _ env = 0"

section \<open>The memory behind the values\<close>

definition stands_for :: "query_heap \<Rightarrow> ptr multiset \<Rightarrow> query_env \<Rightarrow> bool" where
  "stands_for H lost env \<longleftrightarrow> finite (dom env) \<and> heap_ok (mset_set (dom env) + lost) H \<and> (\<forall>x v. env x = Some v \<longrightarrow> denotes H x v)"

lemma stands_forD:
  assumes "stands_for H lost env"
  shows "finite (dom env)" "heap_ok (mset_set (dom env) + lost) H" "env x = Some v \<Longrightarrow> denotes H x v"
    "env x = Some v \<Longrightarrow> x \<in># mset_set (dom env) + lost" "env x = Some v \<Longrightarrow> x \<in> dom (objects H)"
proof -
  show f: "finite (dom env)" and ok: "heap_ok (mset_set (dom env) + lost) H" and "env x = Some v \<Longrightarrow> denotes H x v" using assms by (auto simp: stands_for_def)
  from f show m: "env x = Some v \<Longrightarrow> x \<in># mset_set (dom env) + lost" by (simp add: domI)
  show "env x = Some v \<Longrightarrow> x \<in> dom (objects H)" by (rule root_exists[OF ok m])
qed

lemma stands_for_empty: "stands_for empty_heap {#} Map.empty"
  by (simp add: stands_for_def heap_ok_empty)

lemma pointers_append [simp]: "pointers (ks @ js) = pointers ks @ pointers js"
  by (induction ks) (auto split: option.splits)

lemma pointers_update:
  "i < length ks \<Longrightarrow> mset (pointers (ks[i := k])) + mset (pointers [ks ! i]) = mset (pointers ks) + mset (pointers [k])"
proof (induction ks arbitrary: i)
  case (Cons a ks)
  then show ?case by (cases i; cases a; cases k) (auto split: option.splits)
qed simp

lemma dom_without: "dom (without env ks) = dom env - set (pointers ks)"
  by (auto simp: without_def)

lemma without_Some: "without env ks x = Some v \<longleftrightarrow> env x = Some v \<and> x \<notin> set (pointers ks)"
  by (auto simp: without_def restrict_map_def)

lemma without_roots: "finite (dom env) \<Longrightarrow> owned env ks \<Longrightarrow> mset (pointers ks) + mset_set (dom (without env ks)) = mset_set (dom env)"
proof -
  assume f: "finite (dom env)" and o: "owned env ks"
  then have "mset (pointers ks) = mset_set (set (pointers ks))" "set (pointers ks) \<subseteq> dom env" by (auto simp: owned_def mset_set_set)
  then show ?thesis using f by (simp add: dom_without mset_set_Diff subset_imp_msubset_mset_set)
qed

lemma kid_values: "stands_for H lost env \<Longrightarrow> set (pointers ks) \<subseteq> dom env \<Longrightarrow> list_all2 (rel_option (denotes H)) ks (map (kid_value env) ks)"
  unfolding list_all2_conv_all_nth
proof (intro conjI allI impI)
  fix i assume s: "stands_for H lost env" "set (pointers ks) \<subseteq> dom env" and i: "i < length ks"
  show "rel_option (denotes H) (ks ! i) (map (kid_value env) ks ! i)"
  proof (cases "ks ! i")
    case None
    then show ?thesis using i by (simp add: kid_value_def)
  next
    case (Some k)
    then have "Some k \<in> set ks" using i by (metis nth_mem)
    then have "k \<in> dom env" using s(2) by (simp add: in_pointers[symmetric] subset_iff)
    then obtain v where "env k = Some v" by auto
    then show ?thesis using Some i stands_forD(3)[OF s(1)] by (simp add: kid_value_def)
  qed
qed simp

text \<open>A root detached: its data are its own and mean what they meant.\<close>

lemma detach_root:
  assumes s: "stands_for H lost env" and x: "env x = Some (QueryValue c d vs)" and d: "copy_data d = d"
  shows "\<exists>H' p P. detach x H = Some H' \<and> stands_for H' lost env \<and> objects H' x = Some (c, p) \<and> privates H' p = Some P \<and> refs P = 1 \<and>
    qdata P = d \<and> list_all2 (rel_option (denotes H')) (kids P) vs"
proof -
  note ok = stands_forD(2)[OF s] and r = stands_forD(4)[OF s x]
  from stands_forD(3)[OF s x] obtain p P where o: "objects H x = Some (c, p)" and P: "privates H p = Some P" "qdata P = d"
    "list_all2 (rel_option (denotes H)) (kids P) vs" by (auto elim: denotesE)
  from detach_ok[OF ok r o P(1)] obtain H' p' P' where h: "detach x H = Some H'" "heap_ok (mset_set (dom env) + lost) H'"
    "objects H' x = Some (c, p')" "privates H' p' = Some P'" "refs P' = 1" "qdata P' = (if refs P = 1 then qdata P else copy_data (qdata P))"
    "\<forall>y v. y \<in> dom (objects H) \<longrightarrow> y \<noteq> x \<longrightarrow> denotes H y v \<longrightarrow> denotes H' y v"
    "\<forall>vs. list_all2 (rel_option (denotes H)) (kids P) vs \<longrightarrow> list_all2 (rel_option (denotes H')) (kids P') vs" by blast
  have q: "qdata P' = d" using h(6) P(2) d by simp
  have k: "list_all2 (rel_option (denotes H')) (kids P') vs" using h(8) P(3) by blast
  have "denotes H' y v" if "env y = Some v" for y v
  proof (cases "y = x")
    case True
    then have "v = QueryValue c d vs" using that x by simp
    then show ?thesis using denotes.intros[OF h(3,4) k] q True by simp
  next
    case False
    then show ?thesis using h(7) stands_forD(3,5)[OF s that] by blast
  qed
  then have "stands_for H' lost env" using h(2) stands_forD(1)[OF s] by (simp add: stands_for_def)
  then show ?thesis using h(1,3,4,5) q k by blast
qed

text \<open>A root with data of its own changed in place.\<close>

lemma write_root:
  assumes s: "stands_for H lost env" and x: "env x = Some v" and o: "objects H x = Some (c, p)" "privates H p = Some P" "refs P = 1"
    and e: "dom env' \<subseteq> dom env" "\<And>y. y \<noteq> x \<Longrightarrow> y \<in> dom env' \<Longrightarrow> env' y = env y" "env' x = Some (QueryValue c d vs)"
    and m: "mset (pointers ks) + (mset_set (dom env') + lost') = mset (pointers (kids P)) + (mset_set (dom env) + lost)"
    and k: "list_all2 (rel_option (denotes H)) ks vs" and xk: "x \<notin> set (pointers ks)"
  shows "\<exists>H'. write_private x ks d H = Some H' \<and> stands_for H' lost' env' \<and> objects H' = objects H \<and> privates H' p = Some (P\<lparr>kids := ks, qdata := d\<rparr>) \<and>
    (\<forall>y v. y \<in> dom (objects H) \<longrightarrow> y \<noteq> x \<longrightarrow> denotes H y v \<longrightarrow> denotes H' y v)"
proof -
  from write_private_ok[OF stands_forD(2)[OF s] stands_forD(4)[OF s x] o m xk, of d] obtain H' where
    h: "write_private x ks d H = Some H'" "heap_ok (mset_set (dom env') + lost') H'" "objects H' = objects H" "privates H' p = Some (P\<lparr>kids := ks, qdata := d\<rparr>)"
    "\<forall>y v. y \<in> dom (objects H) \<longrightarrow> y \<noteq> x \<longrightarrow> denotes H y v \<longrightarrow> denotes H' y v"
    "\<forall>vs. list_all2 (rel_option (denotes H)) ks vs \<longrightarrow> denotes H' x (QueryValue c d vs)" by blast
  have "denotes H' y w" if w: "env' y = Some w" for y w
  proof (cases "y = x")
    case True
    then have "w = QueryValue c d vs" using e(3) w by simp
    then show ?thesis using h(6) k True by simp
  next
    case False
    then have "env y = Some w" using e(2) w by (metis domI)
    then show ?thesis using h(5) False stands_forD(3,5)[OF s] by blast
  qed
  then have "stands_for H' lost' env'" using h(2) finite_subset[OF e(1) stands_forD(1)[OF s]] by (simp add: stands_for_def)
  then show ?thesis using h(1,3,4,5) by blast
qed

text \<open>Only values are forgotten.\<close>

lemma stands_for_shrinks:
  assumes s: "stands_for H lost env" and h: "heap_ok (mset_set (dom env') + lost') H'" "shrinks H H'" and e: "\<And>x v. env' x = Some v \<Longrightarrow> env x = Some v"
  shows "stands_for H' lost' env'"
proof -
  have d: "dom env' \<subseteq> dom env" using e by auto
  then have f: "finite (dom env')" using stands_forD(1)[OF s] by (rule finite_subset)
  have "denotes H' x v" if x: "env' x = Some v" for x v
  proof -
    have "x \<in> dom (objects H')" using root_exists[OF h(1), of x] x f by (simp add: domI)
    then show ?thesis using shrinks_denotes[OF h(1,2)] stands_forD(3)[OF s e[OF x]] by blast
  qed
  then show ?thesis using f h(1) by (simp add: stands_for_def)
qed

lemma shrinks_unshared:
  assumes ok: "heap_ok R H'" and s: "shrinks H H'" and x: "x \<in># R" and o: "objects H x = Some (c, p)" "privates H p = Some P" "refs P = 1"
  shows "objects H' x = Some (c, p) \<and> (\<exists>P'. privates H' p = Some P' \<and> kids P' = kids P \<and> qdata P' = qdata P \<and> refs P' = 1)"
proof -
  have o': "objects H' x = Some (c, p)" using s o(1) root_exists[OF ok x] unfolding shrinks_def by (metis domIff)
  then obtain P' where P': "privates H' p = Some P'" using heap_okD(5)[OF ok o'] by auto
  then have "kids P' = kids P \<and> qdata P' = qdata P \<and> refs P' \<le> refs P" using s o(2) unfolding shrinks_def by fastforce
  then show ?thesis using o' P' o(3) heap_okD(7)[OF ok P'] by auto
qed

lemma kid_roots:
  assumes "finite (dom env)" "owned env [k]" "k \<noteq> Some x" "env x = Some v"
  shows "mset (pointers [k]) + mset_set (dom ((without env [k])(x \<mapsto> w))) = mset_set (dom env)"
proof -
  have "x \<in> dom (without env [k])" using assms(3,4) by (auto simp: dom_without split: option.splits)
  then have "dom ((without env [k])(x \<mapsto> w)) = dom (without env [k])" by auto
  then show ?thesis using without_roots[OF assms(1,2)] by simp
qed

lemma update_not_in: "x \<notin> set (pointers ks) \<Longrightarrow> k \<noteq> Some x \<Longrightarrow> x \<notin> set (pointers (ks[i := k]))"
  using set_update_subset_insert[of ks i k] by (auto simp: in_pointers)

text \<open>Storing a pointer in a slot: the old one, if it is still there, belongs to nobody.\<close>

lemma store_root:
  assumes s: "stands_for H lost env" and x: "env x = Some v" and o: "objects H x = Some (c, p)" "privates H p = Some P" "refs P = 1" "qdata P = d"
    and vs: "list_all2 (rel_option (denotes H)) (kids P) vs" and i: "i < length vs" and k: "owned env [k]" "k \<noteq> Some x"
  shows "\<exists>H' P'. store_kid i k x H = Some H' \<and>
    stands_for H' (mset (pointers [kids P ! i]) + lost) ((without env [k])(x \<mapsto> QueryValue c d (vs[i := kid_value env k]))) \<and>
    objects H' x = Some (c, p) \<and> privates H' p = Some P' \<and> refs P' = 1 \<and> qdata P' = d \<and> kids P' = (kids P)[i := k] \<and>
    list_all2 (rel_option (denotes H')) ((kids P)[i := k]) (vs[i := kid_value env k])"
proof -
  let ?env = "(without env [k])(x \<mapsto> QueryValue c d (vs[i := kid_value env k]))"
  have l: "i < length (kids P)" using i list_all2_lengthD[OF vs] by simp
  have kv: "rel_option (denotes H) k (kid_value env k)" using kid_values[OF s, of "[k]"] k(1) by (simp add: owned_def)
  have vs': "list_all2 (rel_option (denotes H)) ((kids P)[i := k]) (vs[i := kid_value env k])" by (rule list_all2_update_cong[OF vs kv])
  have xk: "x \<notin> set (pointers (kids P))" using root_not_kid[OF stands_forD(2)[OF s] stands_forD(4)[OF s x] o(2)] .
  have xk': "x \<notin> set (pointers ((kids P)[i := k]))" by (rule update_not_in[OF xk k(2)])
  have swap: "U + (M + (J + L)) = K + ((N + M) + L)" if "U + J = K + N" for U M J L K N :: "ptr multiset"
  proof -
    have "U + (M + (J + L)) = (U + J) + (M + L)" by (simp add: ac_simps)
    also have "\<dots> = (K + N) + (M + L)" by (simp only: that)
    finally show ?thesis by (simp add: ac_simps)
  qed
  have m: "mset (pointers ((kids P)[i := k])) + (mset_set (dom ?env) + (mset (pointers [kids P ! i]) + lost)) = mset (pointers (kids P)) + (mset_set (dom env) + lost)"
    unfolding kid_roots[OF stands_forD(1)[OF s] k x, symmetric, of "QueryValue c d (vs[i := kid_value env k])"]
    by (rule swap[OF pointers_update[OF l]])
  have e1: "dom ?env \<subseteq> dom env" using x by (auto simp: without_Some split: if_splits)
  have e2: "?env y = env y" if "y \<noteq> x" "y \<in> dom ?env" for y using that by (auto simp: without_Some)
  have e3: "?env x = Some (QueryValue c d (vs[i := kid_value env k]))" by simp
  from write_root[OF s x o(1-3) e1 e2 e3 m vs' xk'] obtain H' where
    h: "write_private x ((kids P)[i := k]) d H = Some H'" "stands_for H' (mset (pointers [kids P ! i]) + lost) ?env" "objects H' = objects H"
    "privates H' p = Some (P\<lparr>kids := (kids P)[i := k], qdata := d\<rparr>)" "\<forall>y v. y \<in> dom (objects H) \<longrightarrow> y \<noteq> x \<longrightarrow> denotes H y v \<longrightarrow> denotes H' y v"
    by blast
  have "list_all2 (rel_option (denotes H')) ((kids P)[i := k]) (vs[i := kid_value env k])"
  proof (rule rel_kids_mono[OF _ vs'])
    fix y w assume y: "y \<in> set (pointers ((kids P)[i := k]))" "denotes H y w"
    then have "y \<in> dom (objects H)" by (auto elim: denotesE)
    moreover have "y \<noteq> x" using y(1) xk' by blast
    ultimately show "denotes H' y w" using h(5) y(2) by blast
  qed
  moreover have "store_kid i k x H = Some H'" using h(1) l o by (simp add: store_kid_def private_of_def)
  ultimately show ?thesis using h(2-4) o by auto
qed

lemma replace_root:
  assumes s: "stands_for H lost env" and x: "env x = Some (QueryValue c d vs)" and o: "objects H x = Some (c, p)" "privates H p = Some P" "refs P = 1" "qdata P = d"
    and vs: "list_all2 (rel_option (denotes H)) (kids P) vs" and i: "i < length vs" and k: "owned env [k]" "k \<noteq> Some x"
  shows "\<exists>H'. replace_kid i (kids P ! i) k x H = Some H' \<and> stands_for H' lost ((without env [k])(x \<mapsto> QueryValue c d (vs[i := kid_value env k])))"
proof -
  let ?e1 = "env(x \<mapsto> QueryValue c d (vs[i := None]))"
  have w: "(without env [None])(x \<mapsto> QueryValue c d (vs[i := kid_value env None])) = ?e1" by (auto simp: without_def kid_value_def)
  have "owned env [None]" by (simp add: owned_def)
  from store_root[OF s x o vs i this] obtain H1 P1 where h1: "store_kid i None x H = Some H1" "stands_for H1 (mset (pointers [kids P ! i]) + lost) ?e1"
    "objects H1 x = Some (c, p)" "privates H1 p = Some P1" "refs P1 = 1" "qdata P1 = d" "kids P1 = (kids P)[i := None]"
    "list_all2 (rel_option (denotes H1)) ((kids P)[i := None]) (vs[i := None])" unfolding w by (auto simp: kid_value_def)
  have ok1: "heap_ok (mset (pointers [kids P ! i]) + (mset_set (dom ?e1) + lost)) H1" using stands_forD(2)[OF h1(2)] by (simp only: ac_simps)
  from delete_object_ok[OF ok1] obtain H2 where h2: "delete_object (kids P ! i) H1 = Some H2" "heap_ok (mset_set (dom ?e1) + lost) H2" "shrinks H1 H2" by blast
  have s2: "stands_for H2 lost ?e1" by (rule stands_for_shrinks[OF h1(2) h2(2,3)]) simp
  have x1: "?e1 x = Some (QueryValue c d (vs[i := None]))" by simp
  from shrinks_unshared[OF h2(2,3) stands_forD(4)[OF s2 x1] h1(3-5)] obtain P2 where o2: "objects H2 x = Some (c, p)" "privates H2 p = Some P2"
    "kids P2 = (kids P)[i := None]" "qdata P2 = d" "refs P2 = 1" using h1(6,7) by auto
  have kd: "set (pointers (kids P2)) \<subseteq> dom (objects H2)" using kid_exists[OF h2(2) o2(2)] by blast
  have vs2: "list_all2 (rel_option (denotes H2)) (kids P2) (vs[i := None])"
    by (rule rel_kids_mono[OF _ h1(8)[folded o2(3)]]) (use shrinks_denotes[OF h2(2,3)] kd in blast)
  have k1: "owned ?e1 [k]" using k(1) x by (auto simp: owned_def split: option.splits)
  have i2: "i < length (vs[i := None])" using i by simp
  from store_root[OF s2 x1 o2(1,2,5,4) vs2 i2 k1 k(2)] obtain H3 where h3: "store_kid i k x H2 = Some H3"
    "stands_for H3 (mset (pointers [kids P2 ! i]) + lost) ((without ?e1 [k])(x \<mapsto> QueryValue c d ((vs[i := None])[i := kid_value ?e1 k])))" by blast
  have "kids P2 ! i = None" using o2(3) i list_all2_lengthD[OF vs] by simp
  moreover have "kid_value ?e1 k = kid_value env k" using k(2) by (auto simp: kid_value_def split: option.splits)
  moreover have "(without ?e1 [k])(x \<mapsto> QueryValue c d (vs[i := kid_value env k])) = (without env [k])(x \<mapsto> QueryValue c d (vs[i := kid_value env k]))"
    by (auto simp: without_def restrict_map_def fun_eq_iff)
  ultimately have "stands_for H3 lost ((without env [k])(x \<mapsto> QueryValue c d (vs[i := kid_value env k])))" using h3(2) by simp
  then show ?thesis using h1(1) h2(1) h3(1) by (simp add: replace_kid_def)
qed

section \<open>Every call\<close>

lemma changeableE:
  assumes "changeable env x"
  obtains c d vs where "env x = Some (QueryValue c d vs)" "copy_data d = d"
proof -
  obtain v where v: "env x = Some v" "copy_data (value_data v) = value_data v" using assms by (auto simp: changeable_def split: option.splits)
  then show thesis using that by (cases v) simp
qed

definition refines_call :: "query_call \<Rightarrow> query_heap \<Rightarrow> ptr multiset \<Rightarrow> query_env \<Rightarrow> bool" where
  "refines_call call H lost env \<longleftrightarrow> (\<exists>r H' lost'. run_call call H = Some (r, H') \<and> (\<forall>x. r = Some x \<longrightarrow> env x = None) \<and>
     stands_for H' lost' (spec_call call r env) \<and> size lost' = size lost + lost_objects call env)"

lemma new_refines:
  assumes s: "stands_for H lost env" and a: "owned env ks"
  shows "refines_call (NewObject c ks d) H lost env"
proof -
  obtain x H' where n: "new_object c ks d H = (x, H')" by (cases "new_object c ks d H")
  note f = stands_forD(1)[OF s]
  have "heap_ok (mset (pointers ks) + (mset_set (dom (without env ks)) + lost)) H"
    using stands_forD(2)[OF s] unfolding without_roots[OF f a, symmetric] by (simp add: ac_simps)
  note h = new_object_ok[OF this n]
  have x: "env x = None" using stands_forD(5)[OF s, of x] h(3) by (cases "env x") auto
  let ?env = "(without env ks)(x \<mapsto> QueryValue c d (map (kid_value env) ks))"
  have "mset_set (dom ?env) = add_mset x (mset_set (dom (without env ks)))" using f x by (simp add: dom_without domIff)
  then have "heap_ok (mset_set (dom ?env) + lost) H'" using h(1) by simp
  moreover have "denotes H' y v" if "?env y = Some v" for y v
  proof (cases "y = x")
    case True
    then show ?thesis using that h(4)[OF kid_values[OF s]] a by (simp add: owned_def)
  next
    case False
    then have "env y = Some v" using that by (simp add: without_Some)
    then show ?thesis using grows_denotes[OF stands_forD(2)[OF s] h(2)] stands_forD(3,5)[OF s] by blast
  qed
  ultimately have "stands_for H' lost ?env" using f by (simp add: stands_for_def dom_without)
  then show ?thesis using n x by (auto simp: refines_call_def)
qed

lemma clone_refines:
  assumes s: "stands_for H lost env" and a: "env x = Some v"
  shows "refines_call (Clone x) H lost env"
proof -
  from clone_object_ok[OF stands_forD(2)[OF s] stands_forD(5)[OF s a]] obtain y H' where
    h: "clone_object x H = Some (y, H')" "heap_ok (add_mset y (mset_set (dom env) + lost)) H'" "grows H H'" "objects H' y = objects H x" "y = next_ptr H" by blast
  have y: "env y = None" using stands_forD(5)[OF s, of y] fresh_object[OF stands_forD(2)[OF s], of y] h(5) by (cases "env y") auto
  let ?env = "env(y := env x)"
  have dm: "dom ?env = insert y (dom env)" using a by auto
  then have "heap_ok (mset_set (dom ?env) + lost) H'" using h(2) stands_forD(1)[OF s] y by (simp add: domIff)
  moreover have keep: "denotes H' z w" if "env z = Some w" for z w
    using grows_denotes[OF stands_forD(2)[OF s] h(3)] stands_forD(3,5)[OF s that] by blast
  moreover have "denotes H' y v"
  proof -
    obtain c p where o: "objects H x = Some (c, p)" using stands_forD(5)[OF s a] by auto
    then have "objects H' x = Some (c, p)" using h(3) unfolding grows_def by (metis domI)
    then show ?thesis using denotes_same_data[of H' x c p y v] keep[OF a] h(4) o by simp
  qed
  ultimately have "stands_for H' lost ?env" using stands_forD(1)[OF s] a dm by (auto simp: stands_for_def)
  then show ?thesis using h(1) y by (auto simp: refines_call_def)
qed

lemma set_kid_refines:
  assumes s: "stands_for H lost env" and a: "applicable (SetKid i k x) env"
  shows "refines_call (SetKid i k x) H lost env"
proof -
  from a obtain c d vs where x: "env x = Some (QueryValue c d vs)" and d: "copy_data d = d" and k: "owned env [k]" "k \<noteq> Some x"
    and i: "i < length vs" and c: "setter (class_base c) \<in> {CheckedSetter, DeletingSetter, PlainSetter}"
    by (auto elim!: changeableE)
  from detach_root[OF s x d] obtain H1 p P where h: "detach x H = Some H1" "stands_for H1 lost env" "objects H1 x = Some (c, p)" "privates H1 p = Some P"
    "refs P = 1" "qdata P = d" "list_all2 (rel_option (denotes H1)) (kids P) vs" by blast
  have l: "i < length (kids P)" using i list_all2_lengthD[OF h(7)] by simp
  obtain p0 where o: "objects H x = Some (c, p0)" using stands_forD(3)[OF s x] by (auto elim: denotesE)
  have at: "kid_at i x H1 = Some (kids P ! i)" using h(3,4) l by (simp add: kid_at_def private_of_def)
  let ?env = "(without env [k])(x \<mapsto> QueryValue c d (vs[i := kid_value env k]))"
  have old: "kids P ! i = None \<longleftrightarrow> vs ! i = None" using list_all2_nthD[OF h(7) l] by (cases "kids P ! i"; cases "vs ! i") auto
  show ?thesis
  proof (cases "setter (class_base c) = PlainSetter")
    case True
    from store_root[OF h(2) x h(3-7) i k] obtain H' where h': "store_kid i k x H1 = Some H'"
      "stands_for H' (mset (pointers [kids P ! i]) + lost) ?env" by blast
    have "set_kid i k x H = Some H'" using True h(1) h'(1) o by (simp add: set_kid_def set_plain_def)
    moreover have "size (mset (pointers [kids P ! i]) + lost) = size lost + lost_objects (SetKid i k x) env"
      using True old x by (auto split: option.splits)
    ultimately show ?thesis using h'(2) x unfolding refines_call_def
      by (intro exI[of _ None] exI[of _ H'] exI[of _ "mset (pointers [kids P ! i]) + lost"]) simp
  next
    case False
    from replace_root[OF h(2) x h(3-7) i k] obtain H' where h': "replace_kid i (kids P ! i) k x H1 = Some H'" "stands_for H' lost ?env" by blast
    have lo: "lost_objects (SetKid i k x) env = 0" using False x by simp
    have kr: "kids P ! i \<noteq> k \<or> k = None"
    proof (cases k)
      case (Some y)
      then obtain w where "env y = Some w" using k(1) by (auto simp: owned_def)
      then have "y \<notin> set (pointers (kids P))" using root_not_kid[OF stands_forD(2)[OF h(2)] stands_forD(4)[OF h(2)] h(4)] by blast
      then show ?thesis using Some nth_mem[OF l] by (auto simp: in_pointers)
    qed simp
    show ?thesis
    proof (cases "setter (class_base c) = CheckedSetter \<and> kids P ! i = k")
      case True
      then have kn: "k = None" "vs ! i = None" using kr old by auto
      then have "?env = env" using x by (auto simp: without_def kid_value_def list_update_id[of vs i, unfolded kn(2)])
      moreover have "set_kid i k x H = Some H1" using True h(1) at o by (simp add: set_kid_def set_checked_def)
      ultimately show ?thesis using h(2) x lo unfolding refines_call_def by (intro exI[of _ None] exI[of _ H1] exI[of _ lost]) simp
    next
      case F2: False
      then have "set_kid i k x H = Some H'" using False c h(1) at h'(1) o by (auto simp: set_kid_def set_checked_def set_deleting_def)
      then show ?thesis using h'(2) x lo unfolding refines_call_def by (intro exI[of _ None] exI[of _ H'] exI[of _ lost]) simp
    qed
  qed
qed

lemma append_kid_refines:
  assumes s: "stands_for H lost env" and a: "applicable (AppendKid k x) env"
  shows "refines_call (AppendKid k x) H lost env"
proof -
  from a obtain c d vs w where x: "env x = Some (QueryValue c d vs)" and d: "copy_data d = d" and k: "env k = Some w" "k \<noteq> x"
    by (auto elim!: changeableE)
  from detach_root[OF s x d] obtain H1 p P where h: "detach x H = Some H1" "stands_for H1 lost env" "objects H1 x = Some (c, p)" "privates H1 p = Some P"
    "refs P = 1" "qdata P = d" "list_all2 (rel_option (denotes H1)) (kids P) vs" by blast
  let ?env = "(without env [Some k])(x \<mapsto> QueryValue c d (vs @ [env k]))"
  have ow: "owned env [Some k]" "Some k \<noteq> Some x" using k by (auto simp: owned_def)
  have xk: "x \<notin> set (pointers (kids P @ [Some k]))"
    using root_not_kid[OF stands_forD(2)[OF h(2)] stands_forD(4)[OF h(2) x] h(4)] k(2) by simp
  have m: "mset (pointers (kids P @ [Some k])) + (mset_set (dom ?env) + lost) = mset (pointers (kids P)) + (mset_set (dom env) + lost)"
    unfolding kid_roots[OF stands_forD(1)[OF s] ow x, symmetric, of "QueryValue c d (vs @ [env k])"] by simp
  have vs: "list_all2 (rel_option (denotes H1)) (kids P @ [Some k]) (vs @ [env k])"
    using h(7) stands_forD(3)[OF h(2) k(1)] k(1) by (intro list_all2_appendI) simp_all
  have e1: "dom ?env \<subseteq> dom env" using x by (auto simp: without_Some split: if_splits)
  have e2: "?env y = env y" if "y \<noteq> x" "y \<in> dom ?env" for y using that by (auto simp: without_Some)
  have e3: "?env x = Some (QueryValue c d (vs @ [env k]))" by simp
  from write_root[OF h(2) x h(3-5) e1 e2 e3 m vs xk] obtain H' where "write_private x (kids P @ [Some k]) d H1 = Some H'" "stands_for H' lost ?env" by blast
  then show ?thesis using h x unfolding refines_call_def
    by (intro exI[of _ None] exI[of _ H'] exI[of _ lost]) (simp add: append_kid_def private_of_def)
qed

lemma change_data_refines:
  assumes s: "stands_for H lost env" and a: "changeable env x"
  shows "refines_call (ChangeData f x) H lost env" "refines_call (ReadData x) H lost env"
proof -
  from a obtain c d vs where x: "env x = Some (QueryValue c d vs)" and d: "copy_data d = d"
    by (auto elim!: changeableE)
  from detach_root[OF s x d] obtain H1 p P where h: "detach x H = Some H1" "stands_for H1 lost env" "objects H1 x = Some (c, p)" "privates H1 p = Some P"
    "refs P = 1" "qdata P = d" "list_all2 (rel_option (denotes H1)) (kids P) vs" by blast
  let ?env = "env(x \<mapsto> QueryValue c (f d) vs)"
  have dm: "dom ?env = dom env" using x by auto
  have e2: "?env y = env y" if "y \<noteq> x" "y \<in> dom ?env" for y using that by simp
  have e3: "?env x = Some (QueryValue c (f d) vs)" by simp
  have m: "mset (pointers (kids P)) + (mset_set (dom ?env) + lost) = mset (pointers (kids P)) + (mset_set (dom env) + lost)" by (simp only: dm)
  from write_root[OF h(2) x h(3-5) equalityD1[OF dm] e2 e3 m h(7) root_not_kid[OF stands_forD(2)[OF h(2)] stands_forD(4)[OF h(2) x] h(4)]]
  obtain H' where "write_private x (kids P) (f d) H1 = Some H'" "stands_for H' lost ?env" by blast
  then show "refines_call (ChangeData f x) H lost env" using h x unfolding refines_call_def
    by (intro exI[of _ None] exI[of _ H'] exI[of _ lost]) (simp add: change_data_def private_of_def)
  show "refines_call (ReadData x) H lost env" using h unfolding refines_call_def
    by (intro exI[of _ None] exI[of _ H1] exI[of _ lost]) (simp add: read_data_def private_of_def)
qed

lemma delete_refines:
  assumes s: "stands_for H lost env" and x: "env x = Some v"
  shows "refines_call (Delete x) H lost env"
proof -
  have "mset_set (dom env) = add_mset x (mset_set (dom (env(x := None))))"
    using stands_forD(1)[OF s] x mset_set.remove[of "dom env" x] by (simp add: domI)
  then have "heap_ok (mset (pointers [Some x]) + (mset_set (dom (env(x := None))) + lost)) H" using stands_forD(2)[OF s] by simp
  from delete_object_ok[OF this] obtain H' where h: "delete_object (Some x) H = Some H'" "heap_ok (mset_set (dom (env(x := None))) + lost) H'" "shrinks H H'" by blast
  have "stands_for H' lost (env(x := None))" by (rule stands_for_shrinks[OF s h(2,3)]) (simp split: if_splits)
  then show ?thesis using h(1) unfolding refines_call_def by (intro exI[of _ None] exI[of _ H'] exI[of _ lost]) simp
qed

lemma assign_refines:
  assumes s: "stands_for H lost env" and x: "env x = Some v" and y: "env y = Some w" and c: "value_class v = value_class w"
  shows "refines_call (Assign x y) H lost env"
proof -
  from stands_forD(3)[OF s x] obtain p where ox: "objects H x = Some (value_class v, p)" by (auto elim: denotesE)
  from stands_forD(3)[OF s y] obtain q where oy: "objects H y = Some (value_class v, q)" using c by (auto elim: denotesE)
  show ?thesis
  proof (cases "p = q")
    case True
    have "denotes H x w" using denotes_same_data[OF oy ox[unfolded True]] stands_forD(3)[OF s y] .
    then have "v = w" using denotes_unique stands_forD(3)[OF s x] by blast
    then have "env(x := env y) = env" using x y by auto
    moreover have "assign_object x y H = Some H" using ox oy True by (simp add: assign_object_def)
    ultimately show ?thesis using s unfolding refines_call_def by (intro exI[of _ None] exI[of _ H] exI[of _ lost]) simp
  next
    case False
    from assign_object_ok[OF stands_forD(2)[OF s] stands_forD(4)[OF s x] stands_forD(5)[OF s y] ox oy False] obtain H' where
      h: "assign_object x y H = Some H'" "heap_ok (mset_set (dom env) + lost) H'"
        "\<forall>z v. z \<in># mset_set (dom env) + lost \<longrightarrow> z \<noteq> x \<longrightarrow> denotes H z v \<longrightarrow> denotes H' z v"
        "\<forall>v. y \<in># mset_set (dom env) + lost \<longrightarrow> denotes H y v \<longrightarrow> denotes H' x v" by blast
    have dm: "dom (env(x := env y)) = dom env" using x y by auto
    have "denotes H' z u" if "(env(x := env y)) z = Some u" for z u
    proof (cases "z = x")
      case True
      then have "u = w" using that y by simp
      then show ?thesis using True h(4) stands_forD(3,4)[OF s y] by blast
    next
      case False
      then have "env z = Some u" using that by simp
      then show ?thesis using False h(3) stands_forD(3,4)[OF s] by blast
    qed
    then have "stands_for H' lost (env(x := env y))" using h(2) dm stands_forD(1)[OF s] by (simp add: stands_for_def)
    then show ?thesis using h(1) unfolding refines_call_def by (intro exI[of _ None] exI[of _ H'] exI[of _ lost]) simp
  qed
qed

lemma call_refines:
  assumes s: "stands_for H lost env" and a: "applicable call env"
  shows "refines_call call H lost env"
proof (cases call)
  case (NewObject c ks d) then show ?thesis using new_refines[OF s] a by simp
next
  case (Clone x) then show ?thesis using clone_refines[OF s] a by auto
next
  case (SetKid i k x) then show ?thesis using set_kid_refines[OF s] a by simp
next
  case (AppendKid k x) then show ?thesis using append_kid_refines[OF s] a by simp
next
  case (ChangeData f x) then show ?thesis using change_data_refines(1)[OF s] a by simp
next
  case (ReadData x) then show ?thesis using change_data_refines(2)[OF s] a by simp
next
  case (Assign x y) then show ?thesis using assign_refines[OF s] a by auto
next
  case (Delete x) then show ?thesis using delete_refines[OF s] a by auto
qed

section \<open>Types\<close>

abbreviation value_sort :: "query_value \<Rightarrow> query_sort" where
  "value_sort v \<equiv> base_sort (class_base (value_class v))"

definition fits_slot :: "query_value option \<Rightarrow> query_sort \<Rightarrow> bool" where
  "fits_slot v s \<longleftrightarrow> (case v of None \<Rightarrow> True | Some w \<Rightarrow> fits_sort (value_sort w) s)"

definition fits_class :: "query_class \<Rightarrow> query_data \<Rightarrow> query_value option list \<Rightarrow> bool" where
  "fits_class c d vs \<longleftrightarrow> kind_of_data d = kind (class_base c) \<and>
     (case rest_sort (class_base c) of None \<Rightarrow> list_all2 fits_slot vs (slot_sorts (class_base c)) | Some s \<Rightarrow> list_all (\<lambda>v. fits_slot v s) vs)"

text \<open>A tree in which every place holds what the C++ type of its pointer says.\<close>

fun typed_value :: "query_value \<Rightarrow> bool" where
  "typed_value (QueryValue c d vs) \<longleftrightarrow> fits_class c d vs \<and> (\<forall>v \<in> set vs. case v of None \<Rightarrow> True | Some w \<Rightarrow> typed_value w)"

definition typed_env :: "query_env \<Rightarrow> bool" where
  "typed_env env \<longleftrightarrow> (\<forall>x v. env x = Some v \<longrightarrow> typed_value v)"

text \<open>A call the C++ compiler accepts.\<close>

fun typed_call :: "query_call \<Rightarrow> query_env \<Rightarrow> bool" where
  "typed_call (NewObject c ks d) env = fits_class c d (map (kid_value env) ks)"
| "typed_call (SetKid i k x) env = (case env x of None \<Rightarrow> False | Some v \<Rightarrow> fits_slot (kid_value env k) (slot_sorts (class_base (value_class v)) ! i))"
| "typed_call (AppendKid k x) env = (case env x of None \<Rightarrow> False | Some v \<Rightarrow>
     (case rest_sort (class_base (value_class v)) of None \<Rightarrow> False | Some s \<Rightarrow> fits_slot (env k) s))"
| "typed_call (ChangeData f x) env = (\<forall>d. kind_of_data (f d) = kind_of_data d)"
| "typed_call _ env = True"

lemma typed_kid: "typed_env env \<Longrightarrow> case kid_value env k of None \<Rightarrow> True | Some w \<Rightarrow> typed_value w"
  by (auto simp: kid_value_def typed_env_def split: option.splits)

lemma typed_without: "typed_env env \<Longrightarrow> typed_value v \<Longrightarrow> typed_env ((without env ks)(x \<mapsto> v))"
  by (auto simp: typed_env_def without_Some)

lemma typed_set:
  assumes v: "typed_value (QueryValue c d vs)" and s: "setter (class_base c) \<in> {CheckedSetter, DeletingSetter, PlainSetter}" and i: "i < length vs"
    and k: "fits_slot w (slot_sorts (class_base c) ! i)" "case w of None \<Rightarrow> True | Some w \<Rightarrow> typed_value w"
  shows "typed_value (QueryValue c d (vs[i := w]))"
proof -
  have r: "rest_sort (class_base c) = None" using s appender_rest[of c] by auto
  then have l: "list_all2 fits_slot vs (slot_sorts (class_base c))" using v by (simp add: fits_class_def)
  have "list_all2 fits_slot (vs[i := w]) (slot_sorts (class_base c))"
    using list_all2_update_cong[OF l k(1), of i] by (simp add: list_update_id)
  moreover have "\<forall>u \<in> set (vs[i := w]). case u of None \<Rightarrow> True | Some w \<Rightarrow> typed_value w"
    using set_update_subset_insert[of vs i w] v k(2) by auto
  ultimately show ?thesis using v r by (simp add: fits_class_def)
qed

lemma spec_typed:
  assumes "typed_env env" "applicable call env" "typed_call call env"
  shows "typed_env (spec_call call r env)"
proof (cases call)
  case (NewObject c ks d)
  then have "typed_value (QueryValue c d (map (kid_value env) ks))" using assms typed_kid[OF assms(1)] by auto
  then show ?thesis using NewObject typed_without[OF assms(1)] assms(1) by (simp split: option.split)
next
  case (SetKid i k x)
  then obtain c d vs where x: "env x = Some (QueryValue c d vs)" and i: "i < length vs"
    and s: "setter (class_base c) \<in> {CheckedSetter, DeletingSetter, PlainSetter}" and f: "fits_slot (kid_value env k) (slot_sorts (class_base c) ! i)"
    using assms(2,3) by (auto elim!: changeableE)
  have "typed_value (QueryValue c d vs)" using assms(1) x unfolding typed_env_def by blast
  from typed_set[OF this s i f typed_kid[OF assms(1)]] show ?thesis using SetKid x typed_without[OF assms(1)] by simp
next
  case (AppendKid k x)
  then obtain c d vs s w where x: "env x = Some (QueryValue c d vs)" and s: "rest_sort (class_base c) = Some s" and f: "fits_slot (env k) s" and k: "env k = Some w"
    using assms(2,3) by (auto elim!: changeableE split: option.splits)
  have "typed_value (QueryValue c d vs)" "typed_value w" using assms(1) x k unfolding typed_env_def by blast+
  then have "typed_value (QueryValue c d (vs @ [env k]))" using s f k by (auto simp: fits_class_def)
  then show ?thesis using AppendKid x typed_without[OF assms(1)] by simp
next
  case (ChangeData f x)
  then obtain c d vs where x: "env x = Some (QueryValue c d vs)" using assms(2) by (auto elim!: changeableE)
  then have "typed_value (QueryValue c d vs)" using assms(1) unfolding typed_env_def by blast
  then have "typed_value (QueryValue c (f d) vs)" using assms(3) ChangeData by (simp add: fits_class_def)
  then show ?thesis using ChangeData x assms(1) by (simp add: typed_env_def)
qed (use assms in \<open>auto simp: typed_env_def split: option.splits if_splits\<close>)

section \<open>Properties\<close>

text \<open>Claim C10: every applicable call of the query classes succeeds and acts on independent trees: the tree of the object called changes as the
  call says, those handed over are gone, all others stay although data are shared; only setters that store without deleting lose an object.
  Applicable means: the objects named are owned by the client, those handed over are distinct and not the one called, the place set exists and
  belongs to a class with setters, an assignment is between objects of one class, and setting, appending, changing and reading are made only
  on an object whose data are copied whole (changeable), which leaves out every query that has prefixes. For those it is false: detaching
  loses the prefixes (shared_query_loses_prefixes).\<close>

theorem query_objects_are_values:
  assumes "stands_for H lost env" "applicable call env"
  shows "\<exists>r H' lost'. run_call call H = Some (r, H') \<and> (\<forall>x. r = Some x \<longrightarrow> env x = None) \<and>
     stands_for H' lost' (spec_call call r env) \<and> size lost' = size lost + lost_objects call env"
  using call_refines[OF assms] unfolding refines_call_def .

theorem query_objects_are_values_witness:
  "\<exists>x H'. run_call (NewObject CNot [None] NoData) empty_heap = Some (Some x, H') \<and> stands_for H' {#} [x \<mapsto> QueryValue CNot NoData [None]]"
proof -
  have a: "applicable (NewObject CNot [None] NoData) Map.empty" by (simp add: owned_def)
  have e: "(without Map.empty [None])(x \<mapsto> v) = [x \<mapsto> v]" for x v by (auto simp: without_def)
  from query_objects_are_values[OF stands_for_empty a] obtain r H' lost' where
    "run_call (NewObject CNot [None] NoData) empty_heap = Some (r, H')" "stands_for H' lost' (spec_call (NewObject CNot [None] NoData) r Map.empty)"
    "size lost' = size ({#} :: ptr multiset) + lost_objects (NewObject CNot [None] NoData) Map.empty" by blast
  then show ?thesis by (auto simp: new_object_def e kid_value_def)
qed

text \<open>Claim C12: when all trees of a client are well typed, a call that is applicable (ownership, distinct arguments and no prefixes, as for the
  claim before) and that the C++ compiler accepts (typed_call) succeeds and leaves every tree the client then owns well typed: each place
  holds an object of the class its pointer is declared with. A call that compiles without being applicable may leave a dangling pointer:
  own_subject_freed.\<close>

theorem query_objects_stay_typed:
  assumes "stands_for H lost env" "typed_env env" "applicable call env" "typed_call call env"
  shows "\<exists>r H'. run_call call H = Some (r, H') \<and> (\<forall>x v. spec_call call r env x = Some v \<longrightarrow> denotes H' x v \<and> typed_value v)"
proof -
  from call_refines[OF assms(1,3)] obtain r H' lost' where r: "run_call call H = Some (r, H')" "stands_for H' lost' (spec_call call r env)"
    unfolding refines_call_def by blast
  then show ?thesis using spec_typed[OF assms(2-4), of r] stands_forD(3)[OF r(2)] by (auto simp: typed_env_def)
qed

theorem query_objects_stay_typed_witness:
  "\<exists>r H'. run_call (NewObject CString [] (TextData ''x'')) empty_heap = Some (r, H') \<and> typed_value (QueryValue CString (TextData ''x'') [])"
proof -
  have "typed_env Map.empty" "applicable (NewObject CString [] (TextData ''x'')) Map.empty" "typed_call (NewObject CString [] (TextData ''x'')) Map.empty"
    by (simp_all add: typed_env_def owned_def fits_class_def class_defs base_defs)
  from query_objects_stay_typed[OF stands_for_empty this] show ?thesis by (auto simp: new_object_def split: if_splits)
qed

text \<open>Programs of such calls, with the objects that were lost on the way.\<close>

inductive query_run :: "query_heap \<Rightarrow> query_env \<Rightarrow> nat \<Rightarrow> bool" where
  start: "query_run empty_heap Map.empty 0"
| call: "query_run H env n \<Longrightarrow> applicable call env \<Longrightarrow> run_call call H = Some (r, H') \<Longrightarrow>
    query_run H' (spec_call call r env) (n + lost_objects call env)"

lemma query_run_stands: "query_run H env n \<Longrightarrow> \<exists>lost. stands_for H lost env \<and> size lost = n"
proof (induction rule: query_run.induct)
  case start
  then show ?case using stands_for_empty by (intro exI[of _ "{#}"]) simp
next
  case (call H env n call r H')
  then obtain lost where s: "stands_for H lost env" "size lost = n" by blast
  from call_refines[OF s(1) call.hyps(2)] call.hyps(3) s(2) show ?case unfolding refines_call_def by auto
qed

text \<open>Claim C11: no program of such calls ever touches memory that was freed, and when the client has given up all its objects and no
  setter lost one, nothing is left in memory: each object was freed exactly once.\<close>

theorem query_memory_safe:
  assumes "query_run H env n"
  shows "(\<forall>call. applicable call env \<longrightarrow> run_call call H \<noteq> None) \<and>
    (env = Map.empty \<and> n = 0 \<longrightarrow> objects H = Map.empty \<and> privates H = Map.empty)"
proof -
  from query_run_stands[OF assms] obtain lost where s: "stands_for H lost env" "size lost = n" by blast
  have "run_call call H \<noteq> None" if "applicable call env" for call using call_refines[OF s(1) that] unfolding refines_call_def by auto
  moreover have "objects H = Map.empty \<and> privates H = Map.empty" if "env = Map.empty" "n = 0"
    using no_roots_no_memory[of H] stands_forD(2)[OF s(1)] s(2) that by simp
  ultimately show ?thesis by blast
qed

definition two_calls :: query_heap where
  "two_calls = snd (the (run_call (Delete 0) (snd (the (run_call (NewObject CVariable [] (NameData ''x'')) empty_heap)))))"

theorem query_memory_safe_witness: "objects two_calls = Map.empty"
proof -
  let ?H = "snd (the (run_call (NewObject CVariable [] (NameData ''x'')) empty_heap))"
  have 1: "run_call (NewObject CVariable [] (NameData ''x'')) empty_heap = Some (Some 0, ?H)" by (simp add: new_object_def empty_heap_def)
  have "query_run ?H [0 \<mapsto> QueryValue CVariable (NameData ''x'') []] 0"
    using query_run.call[OF query_run.start _ 1] by (simp add: owned_def without_def)
  moreover have 2: "run_call (Delete 0) ?H = Some (None, two_calls)"
    by (simp add: two_calls_def new_object_def empty_heap_def delete_object_def release_Cons)
  ultimately have "query_run two_calls Map.empty 0" using query_run.call[of ?H "[0 \<mapsto> QueryValue CVariable (NameData ''x'') []]" 0 "Delete 0" None two_calls] by simp
  from query_memory_safe[OF this] show ?thesis by simp
qed

section \<open>Faults\<close>

definition then_call :: "query_call \<Rightarrow> query_heap option \<Rightarrow> query_heap option" where
  "then_call call H = Option.bind H (\<lambda>H. map_option snd (run_call call H))"

definition program :: "query_call list \<Rightarrow> query_heap option" where
  "program calls = fold then_call calls (Some empty_heap)"

text \<open>An expression given back to the object that owns it: with shared data the comparison sees the pointer of the copy just made, the old
  object gets a second owner and is freed twice.\<close>

lemma own_expression_freed_twice:
  "program [NewObject CNot [None] NoData, NewObject CNot [Some 0] NoData, Clone 2, SetKid 0 (Some 0) 2] \<noteq> None"
  "program [NewObject CNot [None] NoData, NewObject CNot [Some 0] NoData, Clone 2, SetKid 0 (Some 0) 2, Delete 2, Delete 4] = None"
  by code_simp+

text \<open>setSubject deletes before it asks: the subject set to itself is freed and kept.\<close>

lemma own_subject_freed:
  "program [NewObject CVariable [] (NameData ''x''), NewObject CTriplePattern [Some 0, None, None] NoData, SetKid 0 (Some 0) 2, Delete 2] = None"
  by code_simp

text \<open>setFirst forgets the old operand: it stays in memory for ever.\<close>

lemma first_operand_lost:
  "map_option (\<lambda>H. objects H 0) (program [NewObject CString [] (TextData ''a''), NewObject CStringEqual [Some 0, None] NoData, SetKid 0 None 2, Delete 2])
     = Some (Some (CString, 1))"
  by code_simp

text \<open>A query whose data are shared loses its prefixes with the first change, and even when they are read.\<close>

lemma shared_query_loses_prefixes:
  "map_option (\<lambda>H. map_option qdata (private_of 2 H)) (program [NewObject CQueryTerms [] NoData,
     NewObject CQuery [None, Some 0] (QueryData [(''rdf'', QUrl ''r'')] (Some SELECT_QUERY)), Clone 2, ReadData 2])
   = Some (Some (QueryData [] (Some SELECT_QUERY)))"
  by code_simp

text \<open>A query is called valid exactly when its type is the invalid one.\<close>

lemma valid_is_invalid: "query_isValid INVALID_QUERY" "\<not> query_isValid SELECT_QUERY"
  by (simp_all add: query_isValid_def)

end
