(* ===== verification/Redland_Lock.thy ===== *)
theory Redland_Lock
  imports Soprano_Prelude "HOL-Library.Multiset"
begin

text \<open>
  The lock of the redland backend (backends/redland/multimutex.cpp): a read-write lock that lets one thread at a time read, and
  that thread as often as it likes. Threads are state machines with one step for every statement of the three functions; the
  invariant says who holds what at each of them. A second group of definitions runs a function of one thread to its end, which is
  what the model of the backend uses; the steps of a thread left alone lead to the same state.
\<close>

section \<open>State\<close>

text \<open>mainMutex is a QReadWriteLock: its readers, one entry for every time a thread has it, and its writer.\<close>

record 't multi_mutex =
  main_readers :: "'t multiset"
  main_writer :: "'t option"
  lockMutex :: "'t option"
  readMutex :: "'t option"
  lockingThread :: "'t option"
  lockCnt :: int
  lockedForWrite :: bool

definition new_multi_mutex :: "'t multi_mutex" where
  "new_multi_mutex = \<lparr> main_readers = {#}, main_writer = None, lockMutex = None, readMutex = None, lockingThread = None, lockCnt = 0,
     lockedForWrite = False \<rparr>"

text \<open>QReadWriteLock::unlock takes the lock from its writer, or from a reader.\<close>

definition main_unlock :: "'t \<Rightarrow> 't multi_mutex \<Rightarrow> 't multi_mutex" where
  "main_unlock t m = (if main_writer m \<noteq> None then m\<lparr>main_writer := None\<rparr> else m\<lparr>main_readers := main_readers m - {#t#}\<rparr>)"

section \<open>Steps\<close>

text \<open>Where a thread is: the statement it executes next.\<close>

datatype lock_pc =
    Outside
  | ReadEnter | ReadTest | ReadAgain | ReadLeave | ReadRelease | ReadQueue | ReadMain | ReadOwner | ReadFirst
  | WriteMain | WriteFlag
  | UnlockEnter | UnlockTest | UnlockFlag | UnlockWriter | UnlockCount | UnlockOwner | UnlockMain | UnlockRead | UnlockLeave

text \<open>\<open>reads\<close> is the number of times a thread has the lock for reading, \<open>writing\<close> whether it has it for writing.\<close>

record lock_thread =
  pc :: lock_pc
  reads :: nat
  writing :: bool

definition new_lock_thread :: lock_thread where
  "new_lock_thread = \<lparr> pc = Outside, reads = 0, writing = False \<rparr>"

text \<open>Calls. The lock is not taken by a thread that writes, not for writing by a thread that reads, and given back only by a thread
  that has it.\<close>

inductive lock_call :: "lock_thread \<Rightarrow> lock_thread \<Rightarrow> bool" where
  call_lockForRead: "pc l = Outside \<Longrightarrow> \<not> writing l \<Longrightarrow> lock_call l (l\<lparr>pc := ReadEnter\<rparr>)"
| call_lockForWrite: "pc l = Outside \<Longrightarrow> \<not> writing l \<Longrightarrow> reads l = 0 \<Longrightarrow> lock_call l (l\<lparr>pc := WriteMain\<rparr>)"
| call_unlock: "pc l = Outside \<Longrightarrow> writing l \<or> 0 < reads l \<Longrightarrow> lock_call l (l\<lparr>pc := UnlockEnter\<rparr>)"

text \<open>The statements. A step is missing where a thread waits.\<close>

fun lockForRead_step :: "'t \<Rightarrow> lock_pc \<Rightarrow> 't multi_mutex \<times> lock_thread \<Rightarrow> ('t multi_mutex \<times> lock_thread) option" where
  "lockForRead_step t ReadEnter (m, l) = (if lockMutex m = None then Some (m\<lparr>lockMutex := Some t\<rparr>, l\<lparr>pc := ReadTest\<rparr>) else None)"
| "lockForRead_step t ReadTest (m, l) = Some (m, l\<lparr>pc := (if lockingThread m = Some t then ReadAgain else ReadRelease)\<rparr>)"
| "lockForRead_step t ReadAgain (m, l) = Some (m\<lparr>lockCnt := lockCnt m + 1\<rparr>, l\<lparr>pc := ReadLeave, reads := Suc (reads l)\<rparr>)"
| "lockForRead_step t ReadLeave (m, l) = Some (m\<lparr>lockMutex := None\<rparr>, l\<lparr>pc := Outside\<rparr>)"
| "lockForRead_step t ReadRelease (m, l) = Some (m\<lparr>lockMutex := None\<rparr>, l\<lparr>pc := ReadQueue\<rparr>)"
| "lockForRead_step t ReadQueue (m, l) = (if readMutex m = None then Some (m\<lparr>readMutex := Some t\<rparr>, l\<lparr>pc := ReadMain\<rparr>) else None)"
| "lockForRead_step t ReadMain (m, l) =
     (if main_writer m = None then Some (m\<lparr>main_readers := add_mset t (main_readers m)\<rparr>, l\<lparr>pc := ReadOwner\<rparr>) else None)"
| "lockForRead_step t ReadOwner (m, l) = Some (m\<lparr>lockingThread := Some t\<rparr>, l\<lparr>pc := ReadFirst\<rparr>)"
| "lockForRead_step t ReadFirst (m, l) = Some (m\<lparr>lockCnt := lockCnt m + 1\<rparr>, l\<lparr>pc := Outside, reads := Suc (reads l)\<rparr>)"
| "lockForRead_step t _ _ = None"

fun lockForWrite_step :: "'t \<Rightarrow> lock_pc \<Rightarrow> 't multi_mutex \<times> lock_thread \<Rightarrow> ('t multi_mutex \<times> lock_thread) option" where
  "lockForWrite_step t WriteMain (m, l) =
     (if main_writer m = None \<and> main_readers m = {#} then Some (m\<lparr>main_writer := Some t\<rparr>, l\<lparr>pc := WriteFlag\<rparr>) else None)"
| "lockForWrite_step t WriteFlag (m, l) = Some (m\<lparr>lockedForWrite := True\<rparr>, l\<lparr>pc := Outside, writing := True\<rparr>)"
| "lockForWrite_step t _ _ = None"

fun unlock_step :: "'t \<Rightarrow> lock_pc \<Rightarrow> 't multi_mutex \<times> lock_thread \<Rightarrow> ('t multi_mutex \<times> lock_thread) option" where
  "unlock_step t UnlockEnter (m, l) = (if lockMutex m = None then Some (m\<lparr>lockMutex := Some t\<rparr>, l\<lparr>pc := UnlockTest\<rparr>) else None)"
| "unlock_step t UnlockTest (m, l) = Some (m, l\<lparr>pc :=
     (if lockedForWrite m then UnlockFlag else if lockingThread m = Some t then UnlockCount else UnlockLeave)\<rparr>)"
| "unlock_step t UnlockFlag (m, l) = Some (m\<lparr>lockedForWrite := False\<rparr>, l\<lparr>pc := UnlockWriter, writing := False\<rparr>)"
| "unlock_step t UnlockWriter (m, l) = Some (main_unlock t m, l\<lparr>pc := UnlockLeave\<rparr>)"
| "unlock_step t UnlockCount (m, l) = Some (m\<lparr>lockCnt := lockCnt m - 1\<rparr>,
     l\<lparr>pc := (if lockCnt m - 1 = 0 then UnlockOwner else UnlockLeave), reads := reads l - 1\<rparr>)"
| "unlock_step t UnlockOwner (m, l) = Some (m\<lparr>lockingThread := None\<rparr>, l\<lparr>pc := UnlockMain\<rparr>)"
| "unlock_step t UnlockMain (m, l) = Some (main_unlock t m, l\<lparr>pc := UnlockRead\<rparr>)"
| "unlock_step t UnlockRead (m, l) = Some (m\<lparr>readMutex := None\<rparr>, l\<lparr>pc := UnlockLeave\<rparr>)"
| "unlock_step t UnlockLeave (m, l) = Some (m\<lparr>lockMutex := None\<rparr>, l\<lparr>pc := Outside\<rparr>)"
| "unlock_step t _ _ = None"

definition statement_step :: "'t \<Rightarrow> 't multi_mutex \<times> lock_thread \<Rightarrow> ('t multi_mutex \<times> lock_thread) option" where
  "statement_step t s = (case lockForRead_step t (pc (snd s)) s of Some r \<Rightarrow> Some r | None \<Rightarrow>
     (case lockForWrite_step t (pc (snd s)) s of Some r \<Rightarrow> Some r | None \<Rightarrow> unlock_step t (pc (snd s)) s))"

inductive multi_step :: "'t multi_mutex \<times> ('t \<Rightarrow> lock_thread) \<Rightarrow> 't multi_mutex \<times> ('t \<Rightarrow> lock_thread) \<Rightarrow> bool" where
  call: "lock_call (ls t) l \<Longrightarrow> multi_step (m, ls) (m, ls(t := l))"
| step: "statement_step t (m, ls t) = Some (m', l) \<Longrightarrow> multi_step (m, ls) (m', ls(t := l))"

inductive multi_reach :: "'t multi_mutex \<times> ('t \<Rightarrow> lock_thread) \<Rightarrow> bool" where
  init: "multi_reach (new_multi_mutex, \<lambda>t. new_lock_thread)"
| step: "multi_reach s \<Longrightarrow> multi_step s s' \<Longrightarrow> multi_reach s'"

section \<open>The invariant\<close>

text \<open>What a thread holds follows from where it is.\<close>

definition has_lockMutex :: "lock_thread \<Rightarrow> bool" where
  "has_lockMutex l \<longleftrightarrow> pc l \<in> {ReadTest, ReadAgain, ReadLeave, ReadRelease, UnlockTest, UnlockFlag, UnlockWriter, UnlockCount, UnlockOwner,
     UnlockMain, UnlockRead, UnlockLeave}"

definition has_readMutex :: "lock_thread \<Rightarrow> bool" where
  "has_readMutex l \<longleftrightarrow> 0 < reads l \<or> pc l \<in> {ReadMain, ReadOwner, ReadFirst, UnlockOwner, UnlockMain, UnlockRead}"

definition has_read :: "lock_thread \<Rightarrow> bool" where
  "has_read l \<longleftrightarrow> 0 < reads l \<or> pc l \<in> {ReadOwner, ReadFirst, UnlockOwner, UnlockMain}"

definition is_owner :: "lock_thread \<Rightarrow> bool" where
  "is_owner l \<longleftrightarrow> 0 < reads l \<or> pc l \<in> {ReadFirst, UnlockOwner}"

definition has_write :: "lock_thread \<Rightarrow> bool" where
  "has_write l \<longleftrightarrow> writing l \<or> pc l \<in> {WriteFlag, UnlockWriter}"

text \<open>The calls a thread makes keep their order.\<close>

definition thread_fits :: "lock_thread \<Rightarrow> bool" where
  "thread_fits l \<longleftrightarrow> (writing l \<longrightarrow> reads l = 0 \<and> pc l \<in> {Outside, UnlockEnter, UnlockTest, UnlockFlag}) \<and>
     (pc l \<in> {ReadRelease, ReadQueue, ReadMain, ReadOwner, ReadFirst, WriteMain, WriteFlag, UnlockFlag, UnlockWriter, UnlockOwner, UnlockMain, UnlockRead} \<longrightarrow>
        reads l = 0) \<and>
     (pc l \<in> {ReadAgain, ReadLeave, UnlockCount} \<longrightarrow> 0 < reads l) \<and>
     (pc l \<in> {UnlockEnter, UnlockTest} \<longrightarrow> writing l \<or> 0 < reads l) \<and>
     (pc l = UnlockFlag \<longrightarrow> writing l)"

definition owner_value :: "('t \<Rightarrow> lock_thread) \<Rightarrow> 't option \<Rightarrow> (lock_thread \<Rightarrow> bool) \<Rightarrow> 'a \<Rightarrow> ('t \<Rightarrow> 'a) \<Rightarrow> 'a" where
  "owner_value ls r f z g = (case r of Some t \<Rightarrow> if f (ls t) then g t else z | None \<Rightarrow> z)"

definition multi_inv :: "'t multi_mutex \<times> ('t \<Rightarrow> lock_thread) \<Rightarrow> bool" where
  "multi_inv s \<longleftrightarrow> (case s of (m, ls) \<Rightarrow>
     (\<forall>t. thread_fits (ls t)) \<and>
     (\<forall>t. lockMutex m = Some t \<longleftrightarrow> has_lockMutex (ls t)) \<and>
     (\<forall>t. readMutex m = Some t \<longleftrightarrow> has_readMutex (ls t)) \<and>
     (\<forall>t. main_writer m = Some t \<longleftrightarrow> has_write (ls t)) \<and>
     main_readers m = owner_value ls (readMutex m) has_read {#} (\<lambda>t. {#t#}) \<and>
     lockingThread m = owner_value ls (readMutex m) is_owner None Some \<and>
     lockCnt m = owner_value ls (readMutex m) has_readMutex 0 (\<lambda>t. int (reads (ls t))) \<and>
     (lockedForWrite m \<longleftrightarrow> (\<exists>t. writing (ls t))) \<and>
     (main_writer m \<noteq> None \<longrightarrow> main_readers m = {#}))"


lemmas multi_defs = has_lockMutex_def has_readMutex_def has_read_def is_owner_def has_write_def thread_fits_def

lemma multi_invD:
  assumes "multi_inv (m, ls)"
  shows "thread_fits (ls t)" "lockMutex m = Some t \<longleftrightarrow> has_lockMutex (ls t)" "readMutex m = Some t \<longleftrightarrow> has_readMutex (ls t)"
    "main_writer m = Some t \<longleftrightarrow> has_write (ls t)" "main_readers m = owner_value ls (readMutex m) has_read {#} (\<lambda>t. {#t#})"
    "lockingThread m = owner_value ls (readMutex m) is_owner None Some"
    "lockCnt m = owner_value ls (readMutex m) has_readMutex 0 (\<lambda>t. int (reads (ls t)))"
    "lockedForWrite m \<longleftrightarrow> (\<exists>t. writing (ls t))" "main_writer m \<noteq> None \<Longrightarrow> main_readers m = {#}"
  using assms unfolding multi_inv_def prod.case by blast+

text \<open>A step of one thread: what it holds afterwards decides who has what.\<close>

definition hands_over :: "'t \<Rightarrow> bool \<Rightarrow> 't option \<Rightarrow> 't option \<Rightarrow> bool" where
  "hands_over t b r r' \<longleftrightarrow> (if b then r' = Some t \<and> (r = None \<or> r = Some t) else r' = (if r = Some t then None else r))"

lemma hands_over_owner:
  assumes "hands_over t b r r'" "\<And>u. r = Some u \<longleftrightarrow> P u"
  shows "r' = Some u \<longleftrightarrow> (if u = t then b else P u)"
  using assms(1) assms(2)[of t] assms(2)[of u] unfolding hands_over_def by (cases r; auto split: if_splits)

lemma inv_update:
  assumes I: "multi_inv (m, ls)" and "thread_fits l"
    and "hands_over t (has_lockMutex l) (lockMutex m) (lockMutex m')" "hands_over t (has_readMutex l) (readMutex m) (readMutex m')"
      "hands_over t (has_write l) (main_writer m) (main_writer m')"
    and mine: "has_readMutex (ls t) \<or> has_readMutex l \<Longrightarrow> main_readers m' = (if has_read l then {#t#} else {#}) \<and>
      lockingThread m' = (if is_owner l then Some t else None) \<and> lockCnt m' = int (reads l)"
    and other: "\<not> has_readMutex (ls t) \<Longrightarrow> \<not> has_readMutex l \<Longrightarrow>
      main_readers m' = main_readers m \<and> lockingThread m' = lockingThread m \<and> lockCnt m' = lockCnt m"
    and flag: "lockedForWrite m' = (if writing (ls t) \<or> writing l then writing l else lockedForWrite m)"
    and alone: "main_writer m' \<noteq> None \<Longrightarrow> main_readers m' = {#}"
  shows "multi_inv (m', ls(t := l))"
proof -
  note D = multi_invD[OF I]
  have sub: "has_read k \<Longrightarrow> has_readMutex k" "is_owner k \<Longrightarrow> has_readMutex k" "writing k \<Longrightarrow> has_write k" for k
    by (auto simp: multi_defs)
  have r: "readMutex m' = Some u \<longleftrightarrow> has_readMutex ((ls(t := l)) u)" for u
    using hands_over_owner[OF assms(4), of "\<lambda>u. has_readMutex (ls u)" u] D(3) by simp
  have w: "main_writer m' = Some u \<longleftrightarrow> has_write ((ls(t := l)) u)" for u
    using hands_over_owner[OF assms(5), of "\<lambda>u. has_write (ls u)" u] D(4) by simp
  have vals: "main_readers m' = owner_value (ls(t := l)) (readMutex m') has_read {#} (\<lambda>t. {#t#}) \<and>
      lockingThread m' = owner_value (ls(t := l)) (readMutex m') is_owner None Some \<and>
      lockCnt m' = owner_value (ls(t := l)) (readMutex m') has_readMutex 0 (\<lambda>u. int (reads ((ls(t := l)) u)))"
  proof (cases "has_readMutex (ls t) \<or> has_readMutex l")
    case True
    have z: "\<not> has_readMutex l \<Longrightarrow> readMutex m' = None \<and> \<not> has_read l \<and> \<not> is_owner l \<and> reads l = 0"
      using True D(3)[of t] assms(4) sub[of l] by (auto simp: hands_over_def has_readMutex_def)
    show ?thesis using mine[OF True] r[of t] z by (cases "has_readMutex l") (auto simp: owner_value_def)
  next
    case False
    then have "readMutex m' = readMutex m" using assms(4) D(3)[of t] by (auto simp: hands_over_def)
    moreover have "readMutex m \<noteq> Some t" using False D(3) by simp
    ultimately show ?thesis using other False D(5-7) by (auto simp: owner_value_def split: option.splits)
  qed
  have f: "lockedForWrite m' \<longleftrightarrow> (\<exists>u. writing ((ls(t := l)) u))"
  proof (cases "writing (ls t) \<or> writing l")
    case True
    then have "\<not> writing (ls u)" if "u \<noteq> t" for u
      using w[of t] w[of u] D(4)[of t] D(4)[of u] sub(3)[of "ls t"] sub(3)[of l] sub(3)[of "ls u"] that by auto
    then show ?thesis using True flag by auto
  next
    case False
    then show ?thesis using flag D(8) by auto
  qed
  show ?thesis unfolding multi_inv_def prod.case
    using assms(2) D(1) hands_over_owner[OF assms(3), of "\<lambda>u. has_lockMutex (ls u)"] D(2) r w vals f alone by auto
qed

lemma held_values:
  assumes "multi_inv (m, ls)"
  shows "has_readMutex (ls t) \<Longrightarrow> main_readers m = (if has_read (ls t) then {#t#} else {#}) \<and>
      lockingThread m = (if is_owner (ls t) then Some t else None) \<and> lockCnt m = int (reads (ls t))"
    and "readMutex m = None \<Longrightarrow> main_readers m = {#} \<and> lockingThread m = None \<and> lockCnt m = 0"
  using multi_invD(3)[OF assms, of t] multi_invD(5-7)[OF assms] by (simp_all add: owner_value_def)

lemma owner_known: "multi_inv (m, ls) \<Longrightarrow> lockingThread m = Some t \<longleftrightarrow> is_owner (ls t)"
proof -
  assume I: "multi_inv (m, ls)"
  have "is_owner (ls t) \<Longrightarrow> has_readMutex (ls t)" by (auto simp: multi_defs)
  then show ?thesis using multi_invD(3)[OF I, of t] multi_invD(6)[OF I]
    by (cases "readMutex m") (auto simp: owner_value_def split: if_splits)
qed

lemma writer_known: "multi_inv (m, ls) \<Longrightarrow> has_write (ls t) \<or> has_read (ls t) \<Longrightarrow> lockedForWrite m \<longleftrightarrow> writing (ls t)"
proof -
  assume I: "multi_inv (m, ls)" and h: "has_write (ls t) \<or> has_read (ls t)"
  have "u = t" if "writing (ls u)" for u
  proof (rule ccontr)
    assume "u \<noteq> t"
    have "main_writer m = Some u" using that multi_invD(4)[OF I, of u] by (simp add: has_write_def)
    with \<open>u \<noteq> t\<close> have "\<not> has_write (ls t)" "main_readers m = {#}" using multi_invD(4)[OF I, of t] multi_invD(9)[OF I] by auto
    with h held_values(1)[OF I, of t] show False by (auto simp: has_read_def has_readMutex_def)
  qed
  then show ?thesis using multi_invD(8)[OF I] by auto
qed

lemma step_facts:
  assumes "multi_inv (m, ls)"
  shows "thread_fits (ls t)" "lockMutex m = Some t \<longleftrightarrow> has_lockMutex (ls t)" "readMutex m = Some t \<longleftrightarrow> has_readMutex (ls t)"
    "main_writer m = Some t \<longleftrightarrow> has_write (ls t)" "main_writer m \<noteq> None \<Longrightarrow> main_readers m = {#}"
    "has_readMutex (ls t) \<Longrightarrow> main_readers m = (if has_read (ls t) then {#t#} else {#})"
    "has_readMutex (ls t) \<Longrightarrow> lockCnt m = int (reads (ls t)) \<and> lockingThread m = (if is_owner (ls t) then Some t else None)"
    "readMutex m = None \<Longrightarrow> main_readers m = {#} \<and> lockingThread m = None \<and> lockCnt m = 0"
    "lockingThread m = Some t \<longleftrightarrow> is_owner (ls t)" "has_write (ls t) \<or> has_read (ls t) \<Longrightarrow> lockedForWrite m \<longleftrightarrow> writing (ls t)"
  using multi_invD(1-4)[OF assms, of t] multi_invD(9)[OF assms] held_values(1)[OF assms, of t] held_values(2)[OF assms] owner_known[OF assms, of t]
    writer_known[OF assms, of t] by blast+

lemmas step_defs = multi_defs hands_over_def main_unlock_def

lemma read_step_inv:
  assumes I: "multi_inv (m, ls)" and "lockForRead_step t (pc (ls t)) (m, ls t) = Some (m', l)"
  shows "multi_inv (m', ls(t := l))"
proof -
  note D = step_facts(1-4,6,7,9,10)[OF I, of t] step_facts(5,8)[OF I]
  show ?thesis
  proof (cases "pc (ls t)")
    case ReadEnter
    from assms(2) D ReadEnter show ?thesis by (intro inv_update[OF I]) (clarsimp simp: step_defs split: if_splits; fail)+
  next
    case ReadTest
    from assms(2) D ReadTest show ?thesis by (intro inv_update[OF I]) (clarsimp simp: step_defs split: if_splits; fail)+
  next
    case ReadAgain
    from assms(2) D ReadAgain show ?thesis by (intro inv_update[OF I]) (clarsimp simp: step_defs split: if_splits; fail)+
  next
    case ReadLeave
    from assms(2) D ReadLeave show ?thesis by (intro inv_update[OF I]) (clarsimp simp: step_defs split: if_splits; fail)+
  next
    case ReadRelease
    from assms(2) D ReadRelease show ?thesis by (intro inv_update[OF I]) (clarsimp simp: step_defs split: if_splits; fail)+
  next
    case ReadQueue
    from assms(2) D ReadQueue show ?thesis by (intro inv_update[OF I]) (clarsimp simp: step_defs split: if_splits; fail)+
  next
    case ReadMain
    from assms(2) D ReadMain show ?thesis by (intro inv_update[OF I]) (clarsimp simp: step_defs split: if_splits; fail)+
  next
    case ReadOwner
    from assms(2) D ReadOwner show ?thesis by (intro inv_update[OF I]) (clarsimp simp: step_defs split: if_splits; fail)+
  next
    case ReadFirst
    from assms(2) D ReadFirst show ?thesis by (intro inv_update[OF I]) (clarsimp simp: step_defs split: if_splits; fail)+
  qed (insert assms(2), simp_all)
qed

lemma write_step_inv:
  assumes I: "multi_inv (m, ls)" and "lockForWrite_step t (pc (ls t)) (m, ls t) = Some (m', l)"
  shows "multi_inv (m', ls(t := l))"
proof -
  note D = step_facts(1-4,6,7,9,10)[OF I, of t] step_facts(5,8)[OF I]
  show ?thesis
  proof (cases "pc (ls t)")
    case WriteMain
    from assms(2) D WriteMain show ?thesis by (intro inv_update[OF I]) (clarsimp simp: step_defs split: if_splits; fail)+
  next
    case WriteFlag
    from assms(2) D WriteFlag show ?thesis by (intro inv_update[OF I]) (clarsimp simp: step_defs split: if_splits; fail)+
  qed (insert assms(2), simp_all)
qed

lemma unlock_step_inv:
  assumes I: "multi_inv (m, ls)" and "unlock_step t (pc (ls t)) (m, ls t) = Some (m', l)"
  shows "multi_inv (m', ls(t := l))"
proof -
  note D = step_facts(1-4,6,7,9,10)[OF I, of t] step_facts(5,8)[OF I]
  show ?thesis
  proof (cases "pc (ls t)")
    case UnlockEnter
    from assms(2) D UnlockEnter show ?thesis by (intro inv_update[OF I]) (clarsimp simp: step_defs split: if_splits; fail)+
  next
    case UnlockTest
    from assms(2) D UnlockTest show ?thesis by (intro inv_update[OF I]) (clarsimp simp: step_defs split: if_splits; fail)+
  next
    case UnlockFlag
    from assms(2) D UnlockFlag show ?thesis by (intro inv_update[OF I]) (clarsimp simp: step_defs split: if_splits; fail)+
  next
    case UnlockWriter
    from assms(2) D UnlockWriter show ?thesis by (intro inv_update[OF I]) (clarsimp simp: step_defs split: if_splits; fail)+
  next
    case UnlockCount
    from assms(2) D UnlockCount show ?thesis by (intro inv_update[OF I]) (clarsimp simp: step_defs split: if_splits; fail)+
  next
    case UnlockOwner
    from assms(2) D UnlockOwner show ?thesis by (intro inv_update[OF I]) (clarsimp simp: step_defs split: if_splits; fail)+
  next
    case UnlockMain
    from assms(2) D UnlockMain show ?thesis by (intro inv_update[OF I]) (clarsimp simp: step_defs split: if_splits; fail)+
  next
    case UnlockRead
    from assms(2) D UnlockRead show ?thesis by (intro inv_update[OF I]) (clarsimp simp: step_defs split: if_splits; fail)+
  next
    case UnlockLeave
    from assms(2) D UnlockLeave show ?thesis by (intro inv_update[OF I]) (clarsimp simp: step_defs split: if_splits; fail)+
  qed (insert assms(2), simp_all)
qed


section \<open>What the lock gives\<close>

lemma statement_step_inv: "multi_inv (m, ls) \<Longrightarrow> statement_step t (m, ls t) = Some (m', l) \<Longrightarrow> multi_inv (m', ls(t := l))"
  using read_step_inv[of m ls t m' l] write_step_inv[of m ls t m' l] unlock_step_inv[of m ls t m' l]
  by (auto simp: statement_step_def split: option.splits)

lemma lock_call_inv:
  assumes I: "multi_inv (m, ls)" and "lock_call (ls t) l"
  shows "multi_inv (m, ls(t := l))"
  using assms(2) step_facts(1-4,6,7,9,10)[OF I, of t] step_facts(5,8)[OF I]
  by (cases rule: lock_call.cases) ((intro inv_update[OF I]; clarsimp simp: step_defs split: if_splits; fail)+)

lemma multi_step_inv: "multi_step s s' \<Longrightarrow> multi_inv s \<Longrightarrow> multi_inv s'"
  by (induction rule: multi_step.induct) (simp_all add: lock_call_inv statement_step_inv)

lemma multi_reach_inv: "multi_reach s \<Longrightarrow> multi_inv s"
proof (induction rule: multi_reach.induct)
  case init
  show ?case by (simp add: multi_inv_def new_multi_mutex_def new_lock_thread_def multi_defs owner_value_def)
qed (rule multi_step_inv)

lemma multi_exclusion:
  assumes "multi_reach (m, ls)" "t \<noteq> u"
  shows "\<not> (writing (ls t) \<and> (writing (ls u) \<or> 0 < reads (ls u)))" "\<not> (0 < reads (ls t) \<and> 0 < reads (ls u))"
proof -
  note I = multi_reach_inv[OF assms(1)]
  have w: "writing (ls v) \<Longrightarrow> main_writer m = Some v" for v using multi_invD(4)[OF I, of v] by (simp add: has_write_def)
  have r: "0 < reads (ls v) \<Longrightarrow> readMutex m = Some v \<and> main_readers m \<noteq> {#}" for v
    using multi_invD(3)[OF I, of v] held_values(1)[OF I, of v] by (simp add: has_readMutex_def has_read_def)
  show "\<not> (writing (ls t) \<and> (writing (ls u) \<or> 0 < reads (ls u)))"
    using w[of t] w[of u] r[of u] multi_invD(9)[OF I] assms(2) by auto
  show "\<not> (0 < reads (ls t) \<and> 0 < reads (ls u))" using r[of t] r[of u] assms(2) by (metis option.inject)
qed

text \<open>A thread inside a function either goes on or waits for one that does, or for one that has the lock and is elsewhere. Qt lets no
  reader pass a writer that waits; the step promised here is none that does.\<close>

definition can_go :: "'t multi_mutex \<times> ('t \<Rightarrow> lock_thread) \<Rightarrow> 't \<Rightarrow> bool" where
  "can_go s t \<longleftrightarrow> statement_step t (fst s, snd s t) \<noteq> None \<and> (pc (snd s t) = ReadMain \<longrightarrow> (\<forall>u. pc (snd s u) \<noteq> WriteMain))"

definition elsewhere :: "'t multi_mutex \<times> ('t \<Rightarrow> lock_thread) \<Rightarrow> 't \<Rightarrow> bool" where
  "elsewhere s t \<longleftrightarrow> pc (snd s t) = Outside \<and> (writing (snd s t) \<or> 0 < reads (snd s t))"

lemma step_possible:
  "statement_step t (m, l) \<noteq> None \<longleftrightarrow> (case pc l of Outside \<Rightarrow> False | ReadEnter \<Rightarrow> lockMutex m = None | UnlockEnter \<Rightarrow> lockMutex m = None
     | ReadQueue \<Rightarrow> readMutex m = None | ReadMain \<Rightarrow> main_writer m = None | WriteMain \<Rightarrow> main_writer m = None \<and> main_readers m = {#} | _ \<Rightarrow> True)"
  by (cases "pc l") (simp_all add: statement_step_def)

lemma can_go_iff:
  "can_go (m, ls) t \<longleftrightarrow> (case pc (ls t) of Outside \<Rightarrow> False | ReadEnter \<Rightarrow> lockMutex m = None | UnlockEnter \<Rightarrow> lockMutex m = None
     | ReadQueue \<Rightarrow> readMutex m = None | ReadMain \<Rightarrow> main_writer m = None \<and> (\<forall>u. pc (ls u) \<noteq> WriteMain)
     | WriteMain \<Rightarrow> main_writer m = None \<and> main_readers m = {#} | _ \<Rightarrow> True)"
  unfolding can_go_def fst_conv snd_conv step_possible by (cases "pc (ls t)") simp_all

lemma holder_goes:
  assumes I: "multi_inv (m, ls)" and "has_write (ls t) \<or> has_read (ls t)"
  shows "\<exists>u. can_go (m, ls) u \<or> elsewhere (m, ls) u"
proof (cases "lockMutex m")
  case (Some u)
  with multi_invD(2)[OF I, of u] have "can_go (m, ls) u" by (auto simp: can_go_iff has_lockMutex_def)
  then show ?thesis by blast
next
  case None
  with multi_invD(2)[OF I, of t] have "\<not> has_lockMutex (ls t)" by simp
  with assms(2) multi_invD(1)[OF I, of t] None have "can_go (m, ls) t \<or> elsewhere (m, ls) t"
    unfolding can_go_iff elsewhere_def fst_conv snd_conv by (cases "pc (ls t)") (auto simp: multi_defs)
  then show ?thesis by blast
qed

lemma writer_goes:
  assumes I: "multi_inv (m, ls)" and "pc (ls t) = WriteMain"
  shows "\<exists>u. can_go (m, ls) u \<or> elsewhere (m, ls) u"
proof (cases "main_writer m")
  case (Some u)
  then show ?thesis using holder_goes[OF I, of u] multi_invD(4)[OF I, of u] by simp
next
  case None
  show ?thesis
  proof (cases "main_readers m = {#}")
    case True
    with None assms(2) have "can_go (m, ls) t" by (simp add: can_go_iff)
    then show ?thesis by blast
  next
    case False
    then obtain u where "has_read (ls u)" using multi_invD(5)[OF I] by (auto simp: owner_value_def split: option.splits if_splits)
    then show ?thesis using holder_goes[OF I] by blast
  qed
qed

lemma reader_goes:
  assumes I: "multi_inv (m, ls)" and "pc (ls t) = ReadMain"
  shows "\<exists>u. can_go (m, ls) u \<or> elsewhere (m, ls) u"
proof (cases "\<exists>w. pc (ls w) = WriteMain")
  case True
  then show ?thesis using writer_goes[OF I] by blast
next
  case False
  show ?thesis
  proof (cases "main_writer m")
    case None
    with False assms(2) have "can_go (m, ls) t" by (simp add: can_go_iff)
    then show ?thesis by blast
  next
    case (Some u)
    then show ?thesis using holder_goes[OF I, of u] multi_invD(4)[OF I, of u] by simp
  qed
qed

lemma multi_progress:
  assumes "multi_reach (m, ls)" "pc (ls t) \<noteq> Outside"
  shows "\<exists>u. can_go (m, ls) u \<or> elsewhere (m, ls) u"
proof (rule ccontr)
  note I = multi_reach_inv[OF assms(1)]
  assume no: "\<not> ?thesis"
  have "lockMutex m = None"
  proof (cases "lockMutex m")
    case (Some u)
    with multi_invD(2)[OF I, of u] have "can_go (m, ls) u" by (auto simp: can_go_iff has_lockMutex_def)
    with no show ?thesis by blast
  qed
  moreover have "pc (ls t) \<noteq> ReadQueue \<or> readMutex m = None"
  proof (cases "readMutex m")
    case (Some u)
    have "has_read (ls u) \<or> pc (ls u) = ReadMain \<or> pc (ls u) = UnlockRead" using Some multi_invD(3)[OF I, of u] by (auto simp: multi_defs)
    moreover have "pc (ls u) \<noteq> UnlockRead"
    proof
      assume "pc (ls u) = UnlockRead"
      then have "can_go (m, ls) u" by (simp add: can_go_iff)
      with no show False by blast
    qed
    ultimately show ?thesis using holder_goes[OF I, of u] reader_goes[OF I, of u] no by blast
  qed simp
  ultimately have "can_go (m, ls) t"
    using assms(2) reader_goes[OF I, of t] writer_goes[OF I, of t] no by (cases "pc (ls t)") (auto simp: can_go_iff)
  with no show False by blast
qed

section \<open>A function from its call to its return\<close>

text \<open>The three functions when no other thread acts in between. None: the thread waits.\<close>

definition multi_lockForRead :: "'t \<Rightarrow> 't multi_mutex \<Rightarrow> 't multi_mutex option" where
  "multi_lockForRead t m = (if lockMutex m \<noteq> None then None
     else if lockingThread m = Some t then Some (m\<lparr>lockCnt := lockCnt m + 1\<rparr>)
     else if readMutex m \<noteq> None \<or> main_writer m \<noteq> None then None
     else Some (m\<lparr>readMutex := Some t, main_readers := add_mset t (main_readers m), lockingThread := Some t, lockCnt := lockCnt m + 1\<rparr>))"

definition multi_lockForWrite :: "'t \<Rightarrow> 't multi_mutex \<Rightarrow> 't multi_mutex option" where
  "multi_lockForWrite t m =
     (if main_writer m \<noteq> None \<or> main_readers m \<noteq> {#} then None else Some (m\<lparr>main_writer := Some t, lockedForWrite := True\<rparr>))"

definition multi_unlock :: "'t \<Rightarrow> 't multi_mutex \<Rightarrow> 't multi_mutex option" where
  "multi_unlock t m = (if lockMutex m \<noteq> None then None
     else if lockedForWrite m then Some (main_unlock t (m\<lparr>lockedForWrite := False\<rparr>))
     else if lockingThread m = Some t then
       (let m = m\<lparr>lockCnt := lockCnt m - 1\<rparr> in if lockCnt m = 0 then Some ((main_unlock t (m\<lparr>lockingThread := None\<rparr>))\<lparr>readMutex := None\<rparr>) else Some m)
     else Some m)"

fun run_thread :: "nat \<Rightarrow> 't \<Rightarrow> 't multi_mutex \<times> lock_thread \<Rightarrow> 't multi_mutex \<times> lock_thread" where
  "run_thread 0 t s = s"
| "run_thread (Suc n) t s = (case statement_step t s of None \<Rightarrow> s | Some s' \<Rightarrow> run_thread n t s')"

lemma run_thread_reach: "multi_reach (m, ls) \<Longrightarrow> run_thread n t (m, ls t) = (m', l) \<Longrightarrow> multi_reach (m', ls(t := l))"
proof (induction n arbitrary: m ls)
  case (Suc n)
  show ?case
  proof (cases "statement_step t (m, ls t)")
    case (Some s)
    obtain m1 l1 where s: "s = (m1, l1)" by (cases s)
    have "multi_reach (m1, ls(t := l1))" using Suc.prems(1) Some unfolding s by (blast intro: multi_reach.step multi_step.step)
    from Suc.IH[OF this] Suc.prems(2) Some s show ?thesis by (simp add: fun_upd_def cong: if_cong)
  next
    case None
    with Suc.prems(2) have "m' = m" "l = ls t" by simp_all
    with Suc.prems(1) show ?thesis by (simp only: fun_upd_triv)
  qed
qed auto

lemma run_lockForRead:
  "multi_lockForRead t m = Some m' \<Longrightarrow> run_thread 7 t (m, l\<lparr>pc := ReadEnter\<rparr>) = (m', l\<lparr>pc := Outside, reads := Suc (reads l)\<rparr>)"
  "multi_lockForRead t m = None \<Longrightarrow> statement_step t (run_thread 7 t (m, l\<lparr>pc := ReadEnter\<rparr>)) = None \<and>
     pc (snd (run_thread 7 t (m, l\<lparr>pc := ReadEnter\<rparr>))) \<noteq> Outside"
  by (auto simp: multi_lockForRead_def statement_step_def numeral_eq_Suc split: if_splits)

lemma run_lockForWrite:
  "run_thread 7 t (m, l\<lparr>pc := WriteMain\<rparr>) = (case multi_lockForWrite t m of
     Some m' \<Rightarrow> (m', l\<lparr>pc := Outside, writing := True\<rparr>)
   | None \<Rightarrow> (m, l\<lparr>pc := WriteMain\<rparr>))"
  by (simp add: multi_lockForWrite_def statement_step_def numeral_eq_Suc)

lemma run_unlock:
  "multi_unlock t m = Some m' \<Longrightarrow> fst (run_thread 7 t (m, l\<lparr>pc := UnlockEnter\<rparr>)) = m' \<and>
     pc (snd (run_thread 7 t (m, l\<lparr>pc := UnlockEnter\<rparr>))) = Outside"
  by (auto simp: multi_unlock_def statement_step_def numeral_eq_Suc main_unlock_def Let_def split: if_splits)

text \<open>What a thread gets when no one else has the lock.\<close>

definition lock_idle :: "'t multi_mutex \<Rightarrow> bool" where
  "lock_idle m \<longleftrightarrow> lockMutex m = None \<and> readMutex m = None \<and> main_writer m = None \<and> main_readers m = {#} \<and> lockingThread m = None \<and> lockCnt m = 0 \<and>
     \<not> lockedForWrite m"

definition read_by :: "'t \<Rightarrow> nat \<Rightarrow> 't multi_mutex \<Rightarrow> 't multi_mutex" where
  "read_by t n m = (if n = 0 then m else
     m\<lparr>readMutex := Some t, main_readers := {#t#}, lockingThread := Some t, lockCnt := int n\<rparr>)"

lemma new_multi_mutex_idle: "lock_idle new_multi_mutex" by (simp add: lock_idle_def new_multi_mutex_def)

lemma lock_read_by [simp]:
  assumes "lock_idle m"
  shows "multi_lockForRead t (read_by t n m) = Some (read_by t (Suc n) m)"
    and "multi_unlock t (read_by t (Suc n) m) = Some (read_by t n m)"
    and "0 < n \<Longrightarrow> multi_lockForWrite u (read_by t n m) = None"
    and "0 < n \<Longrightarrow> t \<noteq> u \<Longrightarrow> multi_lockForRead u (read_by t n m) = None"
    and "0 < n \<Longrightarrow> t \<noteq> u \<Longrightarrow> multi_unlock u (read_by t n m) = Some (read_by t n m)"
  using assms by (auto simp: multi_lockForRead_def multi_unlock_def multi_lockForWrite_def read_by_def lock_idle_def main_unlock_def Let_def)

lemma lock_write_unlock:
  assumes "lock_idle m"
  shows "\<exists>m'. multi_lockForWrite t m = Some m' \<and> multi_unlock t m' = Some m \<and> multi_lockForRead t m' = None \<and> multi_lockForWrite t m' = None"
  using assms by (auto simp: multi_lockForRead_def multi_unlock_def multi_lockForWrite_def lock_idle_def main_unlock_def)

section \<open>Faults\<close>

text \<open>A thread that reads waits for itself when it asks to write, and one that writes when it asks to read. An unlock by another
  thread than the reading one does nothing: the lock stays.\<close>

lemma reader_blocks_own_write: "multi_lockForWrite t (the (multi_lockForRead t new_multi_mutex)) = None"
  by (simp add: multi_lockForWrite_def multi_lockForRead_def new_multi_mutex_def)

lemma writer_blocks_own_read: "multi_lockForRead t (the (multi_lockForWrite t new_multi_mutex)) = None"
  by (simp add: multi_lockForWrite_def multi_lockForRead_def new_multi_mutex_def)

lemma foreign_unlock_keeps_lock:
  "t \<noteq> u \<Longrightarrow> let m = the (multi_lockForRead t new_multi_mutex) in multi_unlock u m = Some m \<and> multi_lockForWrite u m = None"
  by (simp add: multi_lockForWrite_def multi_lockForRead_def multi_unlock_def new_multi_mutex_def Let_def)

text \<open>The fields are said to be protected by lockMutex; a reader that enters changes two of them without it.\<close>

lemma fields_changed_unprotected:
  "lockForRead_step t ReadOwner (m, l) = Some (m\<lparr>lockingThread := Some t\<rparr>, l\<lparr>pc := ReadFirst\<rparr>) \<and> \<not> has_lockMutex (l\<lparr>pc := ReadOwner\<rparr>)"
  by (simp add: has_lockMutex_def)


section \<open>The lock is one\<close>

text \<open>Claim C23: in every state reached by any number of threads that keep the protocol of the lock (lock_call: a thread that writes does not lock
  again, a thread that reads does not lock for writing, only a thread that has the lock unlocks), a thread that writes is alone and at most
  one thread reads; and while a thread is inside a function of the lock, some thread can go on without passing a waiting writer, or has the
  lock and is outside. Calls outside of the protocol do block: reader_blocks_own_write, writer_blocks_own_read and
  open_iterator_blocks_writing.\<close>

theorem redland_lock_correct:
  assumes "multi_reach (m, ls)" "t \<noteq> u" "pc (ls v) \<noteq> Outside"
  shows "\<not> (writing (ls t) \<and> (writing (ls u) \<or> 0 < reads (ls u))) \<and> \<not> (0 < reads (ls t) \<and> 0 < reads (ls u)) \<and>
    (\<exists>w. can_go (m, ls) w \<or> elsewhere (m, ls) w)"
  using multi_exclusion[OF assms(1,2)] multi_progress[OF assms(1,3)] by blast+

theorem redland_lock_correct_witness:
  "\<exists>m ls. multi_reach (m, ls) \<and> 0 < reads (ls (0::nat)) \<and> pc (ls 1) = WriteMain \<and> \<not> writing (ls 1) \<and> (\<exists>w. can_go (m, ls) w \<or> elsewhere (m, ls) w)"
proof -
  let ?ls0 = "\<lambda>t::nat. new_lock_thread"
  have c: "lock_call new_lock_thread (new_lock_thread\<lparr>pc := ReadEnter\<rparr>)" "lock_call new_lock_thread (new_lock_thread\<lparr>pc := WriteMain\<rparr>)"
    by (rule call_lockForRead call_lockForWrite; simp add: new_lock_thread_def)+
  have 0: "multi_reach (new_multi_mutex, ?ls0(0 := new_lock_thread\<lparr>pc := ReadEnter\<rparr>))"
    by (intro multi_reach.step[OF multi_reach.init] multi_step.call) (rule c)
  let ?m = "the (multi_lockForRead (0::nat) new_multi_mutex)" and ?l = "new_lock_thread\<lparr>pc := Outside, reads := Suc (reads new_lock_thread)\<rparr>"
  have "multi_lockForRead (0::nat) new_multi_mutex = Some ?m" by (simp add: multi_lockForRead_def new_multi_mutex_def)
  from run_thread_reach[OF 0, of 7 0] run_lockForRead(1)[OF this, of new_lock_thread]
  have 1: "multi_reach (?m, (?ls0(0 := new_lock_thread\<lparr>pc := ReadEnter\<rparr>))(0 := ?l))" by simp
  let ?ls = "((?ls0(0 := new_lock_thread\<lparr>pc := ReadEnter\<rparr>))(0 := ?l))(1 := new_lock_thread\<lparr>pc := WriteMain\<rparr>)"
  have 2: "multi_reach (?m, ?ls)"
    by (intro multi_reach.step[OF 1] multi_step.call) (simp add: c)
  have "pc (?ls 1) \<noteq> Outside" by simp
  from redland_lock_correct[OF 2 zero_neq_one this] have "\<exists>w. can_go (?m, ?ls) w \<or> elsewhere (?m, ?ls) w" by (elim conjE)
  moreover have "0 < reads (?ls 0)" "pc (?ls 1) = WriteMain" "\<not> writing (?ls 1)" by (simp_all add: new_lock_thread_def)
  ultimately show ?thesis using 2 by blast
qed

end
