(* ===== verification/Redland_World.thy ===== *)
theory Redland_World
  imports Rdf_Node Soprano_Error Sparql_Result
begin

text \<open>
  The world of the redland backend (backends/redland/redlandworld.cpp): its log, and the conversion of nodes and statements to those
  of librdf and back. librdf is a parameter: the record \<open>librdf\<close> has a field for every function the backend calls. The locale
  \<open>librdf_nodes\<close> states what its documentation says of nodes and statements; a conversion there and back then gives the node
  again. A ledger counts the objects of librdf that were made and not freed.
\<close>

section \<open>librdf\<close>

datatype log_level = LogNone | LogDebug | LogInfo | LogWarn | LogError | LogFatal

datatype log_facility = FromNone | FromConcepts | FromDigest | FromFiles | FromHash | FromInit | FromIterator | FromList | FromModel
  | FromNode | FromParser | FromQuery | FromSerializer | FromStatement | FromStorage | FromStream | FromUri | FromUtf8 | FromMemory | FromOther

record log_message =
  msg_level :: log_level
  msg_facility :: log_facility
  msg_code :: int
  msg_text :: qstring
  msg_locator :: "(int \<times> int \<times> int) option"

text \<open>The state \<open>'w\<close> of librdf with the storage behind the model; URIs, nodes and statements as the values they are; streams and iterators
  as what is left of them; queries and their results. The null pointer is None. Functions on the model return 0 when they succeed.\<close>

record ('w, 'u, 'n, 's, 'x, 'i, 'q, 'r) librdf =
  rdf_log :: "'w \<Rightarrow> log_message list"
  new_uri :: "qbytes \<Rightarrow> 'u option"
  uri_as_string :: "'u \<Rightarrow> qbytes"
  node_from_uri_string :: "qbytes \<Rightarrow> 'n option"
  node_from_blank_identifier :: "qbytes \<Rightarrow> 'n option"
  new_blank_identifier :: "'w \<Rightarrow> 'n option \<times> 'w"
  node_from_typed_literal :: "qbytes \<Rightarrow> qbytes \<Rightarrow> 'u option \<Rightarrow> 'n option"
  rdf_is_resource :: "'n option \<Rightarrow> bool"
  rdf_is_blank :: "'n option \<Rightarrow> bool"
  rdf_is_literal :: "'n option \<Rightarrow> bool"
  rdf_uri :: "'n option \<Rightarrow> 'u"
  rdf_blank_identifier :: "'n option \<Rightarrow> qbytes"
  rdf_literal_value :: "'n option \<Rightarrow> qbytes"
  rdf_literal_language :: "'n option \<Rightarrow> qbytes"
  rdf_literal_datatype :: "'n option \<Rightarrow> 'u option"
  statement_from_nodes :: "'n option \<Rightarrow> 'n option \<Rightarrow> 'n option \<Rightarrow> 's option"
  rdf_subject :: "'s option \<Rightarrow> 'n option"
  rdf_predicate :: "'s option \<Rightarrow> 'n option"
  rdf_object :: "'s option \<Rightarrow> 'n option"
  stream_end :: "'x \<Rightarrow> bool"
  stream_next :: "'x \<Rightarrow> 'x"
  stream_object :: "'x \<Rightarrow> 's option"
  stream_context :: "'x \<Rightarrow> 'n option"
  iterator_end :: "'i \<Rightarrow> bool"
  iterator_next :: "'i \<Rightarrow> 'i"
  iterator_object :: "'i \<Rightarrow> 'n option"
  find_statements :: "'s option \<Rightarrow> 'w \<Rightarrow> 'x option \<times> 'w"
  find_in_context :: "'s option \<Rightarrow> 'n \<Rightarrow> 'w \<Rightarrow> 'x option \<times> 'w"
  context_as_stream :: "'n \<Rightarrow> 'w \<Rightarrow> 'x option \<times> 'w"
  contains_context :: "'n \<Rightarrow> 'w \<Rightarrow> bool \<times> 'w"
  get_contexts :: "'w \<Rightarrow> 'i option \<times> 'w"
  add_statement :: "'s \<Rightarrow> 'w \<Rightarrow> int \<times> 'w"
  context_add_statement :: "'n option \<Rightarrow> 's \<Rightarrow> 'w \<Rightarrow> int \<times> 'w"
  remove_statement :: "'s \<Rightarrow> 'w \<Rightarrow> int \<times> 'w"
  context_remove_statement :: "'n option \<Rightarrow> 's \<Rightarrow> 'w \<Rightarrow> int \<times> 'w"
  context_remove_statements :: "'n option \<Rightarrow> 'w \<Rightarrow> int \<times> 'w"
  model_sync :: "'w \<Rightarrow> 'w"
  model_size :: "'w \<Rightarrow> int \<times> 'w"
  new_query :: "qbytes \<Rightarrow> qbytes \<Rightarrow> 'w \<Rightarrow> 'q option \<times> 'w"
  query_execute :: "'q \<Rightarrow> 'w \<Rightarrow> 'r option \<times> 'w"
  results_is_graph :: "'r \<Rightarrow> bool"
  results_is_bindings :: "'r \<Rightarrow> bool"
  results_is_boolean :: "'r \<Rightarrow> bool"
  results_boolean :: "'r \<Rightarrow> int"
  results_names :: "'r \<Rightarrow> qbytes list option"
  results_finished :: "'r \<Rightarrow> bool"
  results_next :: "'r \<Rightarrow> int \<times> 'r"
  results_value :: "'r \<Rightarrow> int \<Rightarrow> 'n option"
  results_value_by_name :: "'r \<Rightarrow> qbytes \<Rightarrow> 'n option"
  results_as_stream :: "'r \<Rightarrow> 'x option"

text \<open>A C string ends at its first zero byte.\<close>

definition c_text :: "qbytes \<Rightarrow> qbytes" where
  "c_text b = takeWhile (\<lambda>x. x \<noteq> 0) b"

definition toEncoded :: "qurl \<Rightarrow> qbytes" where "toEncoded u = map byte_of_char (encoded u)"
definition toLatin1 :: "qstring \<Rightarrow> qbytes" where "toLatin1 s = map byte_of_char s"
definition fromLatin1 :: "qbytes \<Rightarrow> qstring" where "fromLatin1 b = map char_of_byte b"

section \<open>The log\<close>

fun redlandLogFacilityToString :: "log_facility \<Rightarrow> qstring" where
  "redlandLogFacilityToString FromConcepts = ''concepts''"
| "redlandLogFacilityToString FromDigest = ''digest''"
| "redlandLogFacilityToString FromFiles = ''files''"
| "redlandLogFacilityToString FromHash = ''hash''"
| "redlandLogFacilityToString FromInit = ''init''"
| "redlandLogFacilityToString FromIterator = ''iterator''"
| "redlandLogFacilityToString FromList = ''list''"
| "redlandLogFacilityToString FromModel = ''model''"
| "redlandLogFacilityToString FromNode = ''node''"
| "redlandLogFacilityToString FromParser = ''parser''"
| "redlandLogFacilityToString FromQuery = ''query''"
| "redlandLogFacilityToString FromSerializer = ''serializer''"
| "redlandLogFacilityToString FromStatement = ''statement''"
| "redlandLogFacilityToString FromStorage = ''storage''"
| "redlandLogFacilityToString FromStream = ''stream''"
| "redlandLogFacilityToString FromUri = ''uri''"
| "redlandLogFacilityToString FromUtf8 = ''utf8''"
| "redlandLogFacilityToString FromMemory = ''memory''"
| "redlandLogFacilityToString _ = ''unknown''"

fun redlandLogLevelToString :: "log_level \<Rightarrow> qstring" where
  "redlandLogLevelToString LogDebug = ''debugging message''"
| "redlandLogLevelToString LogInfo = ''information''"
| "redlandLogLevelToString LogWarn = ''warning''"
| "redlandLogLevelToString LogError = ''error''"
| "redlandLogLevelToString LogFatal = ''fatal''"
| "redlandLogLevelToString LogNone = ''unknown''"

text \<open>Only errors and fatal errors are kept, in the error cache of the world.\<close>

definition log_text :: "log_message \<Rightarrow> qstring" where
  "log_text m = q_arg (q_arg (q_arg ''%1: %2 (%3)'' (redlandLogFacilityToString (msg_facility m))) (msg_text m)) (redlandLogLevelToString (msg_level m))"

definition redlandLogHandler :: "log_message \<Rightarrow> error \<Rightarrow> error" where
  "redlandLogHandler m e =
     (if msg_level m = LogError \<or> msg_level m = LogFatal then
        (let code = error_code_num ErrorUnknown + msg_code m in
         kept (case msg_locator m of
             Some (l, c, b) \<Rightarrow> ParserError \<lparr> line = l, column = c, byte_pos = b, fileName = [] \<rparr> (log_text m) code
           | None \<Rightarrow> mk_error (log_text m) code))
      else e)"

text \<open>The error of the world after the messages it got so far; nothing clears it.\<close>

definition world_error :: "('w, 'u, 'n, 's, 'x, 'i, 'q, 'r) librdf \<Rightarrow> 'w \<Rightarrow> error" where
  "world_error L w = fold redlandLogHandler (rdf_log L w) NoError"

definition world_lastError :: "('w, 'u, 'n, 's, 'x, 'i, 'q, 'r) librdf \<Rightarrow> error \<Rightarrow> 'w \<Rightarrow> error" where
  "world_lastError L fallBackError w = (if err_occurred (world_error L w) then world_error L w else fallBackError)"

section \<open>Nodes and statements\<close>

datatype rdf_object = LibUri | LibNode | LibStatement | LibStream | LibIterator | LibQuery | LibResults

type_synonym ledger = "rdf_object \<Rightarrow> int"

definition made :: "rdf_object \<Rightarrow> 'a option \<Rightarrow> ledger \<Rightarrow> ledger" where
  "made k x l = (case x of None \<Rightarrow> l | Some _ \<Rightarrow> l(k := l k + 1))"

definition freed :: "rdf_object \<Rightarrow> 'a option \<Rightarrow> ledger \<Rightarrow> ledger" where
  "freed k x l = (case x of None \<Rightarrow> l | Some _ \<Rightarrow> l(k := l k - 1))"

definition literal_uri :: "('w, 'u, 'n, 's, 'x, 'i, 'q, 'r) librdf \<Rightarrow> node \<Rightarrow> 'u option" where
  "literal_uri L n = (if \<not> lit_isPlain (node_literal n) then new_uri L (c_text (toEncoded (node_dataType n))) else None)"

definition world_createNode :: "qt \<Rightarrow> ('w, 'u, 'n, 's, 'x, 'i, 'q, 'r) librdf \<Rightarrow> node \<Rightarrow> ledger \<Rightarrow> 'n option \<times> ledger" where
  "world_createNode q L n l =
     (if node_isResource n then (let r = node_from_uri_string L (c_text (toEncoded (node_uri n))) in (r, made LibNode r l))
      else if node_isBlank n then (let r = node_from_blank_identifier L (c_text (str_toUtf8 q (node_identifier n))) in (r, made LibNode r l))
      else if node_isLiteral n then
        (let u = literal_uri L n;
             r = node_from_typed_literal L (c_text (str_toUtf8 q (lit_toString q (node_literal n)))) (c_text (str_toUtf8 q (node_language n))) u
         in (r, made LibNode r (made LibUri u l)))
      else (None, l))"

text \<open>A new statement takes over its nodes.\<close>

definition world_createStatement :: "qt \<Rightarrow> ('w, 'u, 'n, 's, 'x, 'i, 'q, 'r) librdf \<Rightarrow> statement \<Rightarrow> ledger \<Rightarrow> 's option \<times> ledger" where
  "world_createStatement q L s l =
     (case world_createNode q L (subject s) l of (a, l) \<Rightarrow>
      case world_createNode q L (predicate s) l of (b, l) \<Rightarrow>
      case world_createNode q L (object s) l of (c, l) \<Rightarrow>
        (let r = statement_from_nodes L a b c in (r, made LibStatement r (freed LibNode c (freed LibNode b (freed LibNode a l))))))"

definition world_readNode :: "qt \<Rightarrow> ('w, 'u, 'n, 's, 'x, 'i, 'q, 'r) librdf \<Rightarrow> 'n option \<Rightarrow> node" where
  "world_readNode q L n =
     (if rdf_is_resource L n then node_of_url (url_fromEncodedStrict q (fromLatin1 (uri_as_string L (rdf_uri L n))))
      else if rdf_is_blank L n then node_of_id (str_fromUtf8 q (rdf_blank_identifier L n))
      else if rdf_is_literal L n then
        (case rdf_literal_datatype L n of
           None \<Rightarrow> node_of_literal (createPlainLiteral (str_fromUtf8 q (rdf_literal_value L n)) (tag_of_string (fromLatin1 (rdf_literal_language L n))))
         | Some u \<Rightarrow> node_of_literal (fromString_uri q (str_fromUtf8 q (rdf_literal_value L n)) (url_fromEncodedStrict q (fromLatin1 (uri_as_string L u)))))
      else EmptyNode)"

definition world_readStatement :: "qt \<Rightarrow> ('w, 'u, 'n, 's, 'x, 'i, 'q, 'r) librdf \<Rightarrow> 's option \<Rightarrow> statement" where
  "world_readStatement q L s =
     mk_statement (world_readNode q L (rdf_subject L s)) (world_readNode q L (rdf_predicate L s)) (world_readNode q L (rdf_object L s)) EmptyNode"

section \<open>What librdf promises of nodes\<close>

text \<open>The nodes that keep their text: no zero bytes, the language in ASCII.\<close>

definition no_zero :: "qbytes \<Rightarrow> bool" where "no_zero b \<longleftrightarrow> list_all (\<lambda>x. x \<noteq> 0) b"

fun redland_shown :: "qt \<Rightarrow> node \<Rightarrow> bool" where
  "redland_shown q EmptyNode = False"
| "redland_shown q (ResourceNode u) \<longleftrightarrow> \<not> url_isEmpty u \<and> no_zero (toEncoded u)"
| "redland_shown q (BlankNode i) \<longleftrightarrow> i \<noteq> [] \<and> str_toUtf8 q i \<noteq> [] \<and> no_zero (str_toUtf8 q i)"
| "redland_shown q (LiteralNode l) \<longleftrightarrow> no_zero (str_toUtf8 q (lit_toString q l)) \<and>
     (case l of NullLiteral \<Rightarrow> False
      | Plain s t \<Rightarrow> tag_wf t \<and> list_all (\<lambda>c. 0 < ccode c \<and> ccode c < 128) (tag_toString t)
      | Typed v u \<Rightarrow> lit_wf l \<and> variant_printable q v \<and> \<not> url_isEmpty u \<and> no_zero (toEncoded u))"

lemma no_zero_text: "no_zero b \<Longrightarrow> c_text b = b"
  by (simp add: no_zero_def c_text_def takeWhile_eq_all_conv list_all_iff)

lemma url_back: "fromLatin1 (toEncoded u) = encoded u"
  by (simp add: fromLatin1_def toEncoded_def o_def)

lemma utf8_nil: "qt_ascii_ok q \<Longrightarrow> str_toUtf8 q [] = []"
  by (simp add: qt_ascii_ok_def)

lemma byte_of_char_zero: "ccode c \<noteq> 0 \<Longrightarrow> byte_of_char c \<noteq> 0"
proof
  assume "ccode c \<noteq> 0" "byte_of_char c = 0"
  then have "c = char_of_byte 0" by (metis char_of_byte_of_char)
  then show False using \<open>ccode c \<noteq> 0\<close> by (simp add: ccode_def char_of_byte_def)
qed

lemma ascii_language:
  assumes "qt_ascii_ok q" "list_all (\<lambda>c. 0 < ccode c \<and> ccode c < 128) s"
  shows "fromLatin1 (c_text (str_toUtf8 q s)) = s"
proof -
  have "list_all (\<lambda>c. ccode c < 128) s" using assms(2) by (simp add: list_all_iff)
  then have e: "str_toUtf8 q s = map byte_of_char s" using assms(1) by (simp add: qt_ascii_ok_def)
  have "c_text (map byte_of_char s) = map byte_of_char s"
    using assms(2) by (intro no_zero_text) (simp add: no_zero_def list_all_iff byte_of_char_zero)
  then show ?thesis unfolding e by (simp add: fromLatin1_def o_def)
qed

text \<open>Nodes are told apart by their kind and contents. A literal has a language or a datatype.\<close>

locale librdf_nodes =
  fixes L :: "('w, 'u, 'n, 's, 'x, 'i, 'q, 'r) librdf"
  assumes null: "\<not> rdf_is_resource L None" "\<not> rdf_is_blank L None" "\<not> rdf_is_literal L None"
    and uri: "b \<noteq> [] \<Longrightarrow> \<exists>u. new_uri L b = Some u \<and> uri_as_string L u = b"
    and resource: "b \<noteq> [] \<Longrightarrow> \<exists>n. node_from_uri_string L b = Some n \<and> rdf_is_resource L (Some n) \<and> uri_as_string L (rdf_uri L (Some n)) = b"
    and blank: "b \<noteq> [] \<Longrightarrow> \<exists>n. node_from_blank_identifier L b = Some n \<and> \<not> rdf_is_resource L (Some n) \<and> rdf_is_blank L (Some n) \<and>
      rdf_blank_identifier L (Some n) = b"
    and literal: "g = [] \<or> t = None \<Longrightarrow> \<exists>n. node_from_typed_literal L v g t = Some n \<and> \<not> rdf_is_resource L (Some n) \<and> \<not> rdf_is_blank L (Some n) \<and>
      rdf_is_literal L (Some n) \<and> rdf_literal_value L (Some n) = v \<and> rdf_literal_language L (Some n) = g \<and> rdf_literal_datatype L (Some n) = t"
    and statement: "\<exists>s. statement_from_nodes L x y z = Some s \<and> rdf_subject L (Some s) = x \<and> rdf_predicate L (Some s) = y \<and> rdf_object L (Some s) = z"
begin

lemma shown_node:
  assumes "qt_ascii_ok q" "qt_url_ok q" "qt_utf8_ok q" "qt_date_ok q" "qt_base64_ok q" "redland_shown q n"
  shows "\<exists>r. fst (world_createNode q L n l) = Some r \<and> world_readNode q L (Some r) = n"
proof (cases n)
  case EmptyNode
  then show ?thesis using assms(6) by simp
next
  case (ResourceNode u)
  then have b: "c_text (toEncoded u) = toEncoded u" "toEncoded u \<noteq> []" using assms(6) by (auto simp: no_zero_text toEncoded_def url_isEmpty_def)
  from resource[OF b(2)] obtain r where "node_from_uri_string L (toEncoded u) = Some r" "rdf_is_resource L (Some r)"
    "uri_as_string L (rdf_uri L (Some r)) = toEncoded u" by blast
  then show ?thesis using ResourceNode assms(2,6) b
    by (auto simp: world_createNode_def world_readNode_def node_test_defs Let_def url_back node_of_url_def qt_url_ok_def)
next
  case (BlankNode i)
  then have b: "c_text (str_toUtf8 q i) = str_toUtf8 q i" "str_toUtf8 q i \<noteq> []" using assms(6) by (auto simp: no_zero_text)
  from blank[OF b(2)] obtain r where "node_from_blank_identifier L (str_toUtf8 q i) = Some r" "\<not> rdf_is_resource L (Some r)"
    "rdf_is_blank L (Some r)" "rdf_blank_identifier L (Some r) = str_toUtf8 q i" by blast
  then show ?thesis using BlankNode assms(3,6) b
    by (auto simp: world_createNode_def world_readNode_def node_test_defs Let_def node_of_id_def qt_utf8_ok_def)
next
  case (LiteralNode v)
  let ?u = "literal_uri L n" and ?g = "c_text (str_toUtf8 q (node_language n))"
  have t: "c_text (str_toUtf8 q (lit_toString q v)) = str_toUtf8 q (lit_toString q v)" using assms(6) LiteralNode by (simp add: no_zero_text)
  have k: "?g = [] \<or> ?u = None"
    using assms(6) LiteralNode utf8_nil[OF assms(1)] by (cases v) (auto simp: literal_uri_def node_language_def tag_toString_def c_text_def)
  obtain r where r: "node_from_typed_literal L (str_toUtf8 q (lit_toString q v)) ?g ?u = Some r" "\<not> rdf_is_resource L (Some r)" "\<not> rdf_is_blank L (Some r)"
      "rdf_is_literal L (Some r)" "rdf_literal_value L (Some r) = str_toUtf8 q (lit_toString q v)" "rdf_literal_language L (Some r) = ?g"
      "rdf_literal_datatype L (Some r) = ?u"
    using literal[OF k, of "str_toUtf8 q (lit_toString q v)"] by blast
  have c: "fst (world_createNode q L n l) = Some r" using r(1) LiteralNode t by (simp add: world_createNode_def node_test_defs Let_def)
  show ?thesis
  proof (cases v)
    case NullLiteral
    then show ?thesis using assms(6) LiteralNode by simp
  next
    case (Plain s g)
    then have "?u = None" using LiteralNode by (simp add: literal_uri_def)
    moreover have "fromLatin1 ?g = tag_toString g" using assms(1,6) LiteralNode Plain by (simp add: node_language_def ascii_language)
    ultimately have "world_readNode q L (Some r) = n"
      using r assms(3,6) LiteralNode Plain
      by (simp add: world_readNode_def qt_utf8_ok_def createPlainLiteral_def node_of_literal_def lit_isValid_def lit_toString_def)
    then show ?thesis using c by blast
  next
    case (Typed x u)
    then have u: "dataTypeUri v = u" "encoded u \<noteq> []" "c_text (toEncoded u) = toEncoded u" "toEncoded u \<noteq> []"
      using assms(6) LiteralNode by (auto simp: url_isEmpty_def no_zero_text toEncoded_def)
    from uri[OF u(4)] obtain w where w: "?u = Some w" "uri_as_string L w = toEncoded u"
      using u Typed LiteralNode by (auto simp: literal_uri_def)
    have "fromString_uri q (lit_toString q v) u = v"
      using literal_text_roundtrip_core[of q x u] assms(4-6) LiteralNode Typed u(1) by auto
    then have "world_readNode q L (Some r) = n"
      using r w assms(2,3,6) LiteralNode Typed
      by (simp add: world_readNode_def qt_utf8_ok_def url_back qt_url_ok_def node_of_literal_def lit_isValid_def)
    then show ?thesis using c by blast
  qed
qed

end

end
