(* ===== verification/Redland_Iterator.thy ===== *)
theory Redland_Iterator
  imports Redland_World Redland_Lock Result_Iterator Virtuoso_Model "HOL-Library.Monad_Syntax"
begin

text \<open>
  The state of a redland model (backends/redland/redlandmodel.cpp, class Private) and its iterators over statements and nodes
  (redlandstatementiterator.cpp, redlandnodeiteratorbackend.cpp). An iterator holds the lock of the model for reading until it is
  closed. Every function has the calling thread as an argument; None is a call that does not come back, for it waits for the lock,
  or a use of memory that is not there.
\<close>

section \<open>State\<close>

text \<open>An iterator: whether it still knows its model, the stream, the context of the statements when the stream does not say it.\<close>

record 'x statement_iterator =
  si_model :: bool
  m_stream :: "'x option"
  m_forceContext :: node
  m_initialized :: bool
  si_error :: error

record 'i node_iterator =
  ni_model :: bool
  m_iterator :: "'i option"
  ni_initialized :: bool

record ('x, 'r) redland_result =
  qr_model :: bool
  qr_result :: "'r option"
  qr_stream :: "'x option"
  qr_names :: "qstring list"
  qr_first :: bool
  qr_isBool :: bool
  qr_isGraph :: bool
  qr_isBinding :: bool
  qr_boolResult :: bool

text \<open>The lists name the open iterators, the tables hold the objects. The errors are kept for each thread.\<close>

record ('t, 'w, 'x, 'i, 'r) redland_model =
  rm_world :: 'w
  readWriteLock :: "'t multi_mutex"
  iterators :: "nat list"
  nodeIterators :: "nat list"
  open_results :: "nat list"
  statement_its :: "nat \<rightharpoonup> 'x statement_iterator"
  node_its :: "nat \<rightharpoonup> 'i node_iterator"
  result_its :: "nat \<rightharpoonup> ('x, 'r) redland_result"
  next_object :: nat
  live :: ledger
  rm_errors :: "'t error_cache"
  rm_signals :: "signal list"

definition new_redland_model :: "'w \<Rightarrow> ('t, 'w, 'x, 'i, 'r) redland_model" where
  "new_redland_model w = \<lparr> rm_world = w, readWriteLock = new_multi_mutex, iterators = [], nodeIterators = [], open_results = [],
     statement_its = Map.empty, node_its = Map.empty, result_its = Map.empty, next_object = 0, live = (\<lambda>_. 0), rm_errors = Map.empty, rm_signals = [] \<rparr>"

definition rm_setError :: "'t \<Rightarrow> error \<Rightarrow> ('t, 'w, 'x, 'i, 'r) redland_model \<Rightarrow> ('t, 'w, 'x, 'i, 'r) redland_model" where
  "rm_setError t e st = st\<lparr>rm_errors := setError t e (rm_errors st)\<rparr>"

definition rm_clearError :: "'t \<Rightarrow> ('t, 'w, 'x, 'i, 'r) redland_model \<Rightarrow> ('t, 'w, 'x, 'i, 'r) redland_model" where
  "rm_clearError t st = st\<lparr>rm_errors := clearError t (rm_errors st)\<rparr>"

definition rm_lockForRead :: "'t \<Rightarrow> ('t, 'w, 'x, 'i, 'r) redland_model \<Rightarrow> ('t, 'w, 'x, 'i, 'r) redland_model option" where
  "rm_lockForRead t st = do { m \<leftarrow> multi_lockForRead t (readWriteLock st); Some (st\<lparr>readWriteLock := m\<rparr>) }"

definition rm_lockForWrite :: "'t \<Rightarrow> ('t, 'w, 'x, 'i, 'r) redland_model \<Rightarrow> ('t, 'w, 'x, 'i, 'r) redland_model option" where
  "rm_lockForWrite t st = do { m \<leftarrow> multi_lockForWrite t (readWriteLock st); Some (st\<lparr>readWriteLock := m\<rparr>) }"

definition rm_unlock :: "'t \<Rightarrow> ('t, 'w, 'x, 'i, 'r) redland_model \<Rightarrow> ('t, 'w, 'x, 'i, 'r) redland_model option" where
  "rm_unlock t st = do { m \<leftarrow> multi_unlock t (readWriteLock st); Some (st\<lparr>readWriteLock := m\<rparr>) }"

definition removeIterator :: "'t \<Rightarrow> nat \<Rightarrow> ('t, 'w, 'x, 'i, 'r) redland_model \<Rightarrow> ('t, 'w, 'x, 'i, 'r) redland_model option" where
  "removeIterator t i st = rm_unlock t (st\<lparr>iterators := removeAll i (iterators st)\<rparr>)"

definition removeNodeIterator :: "'t \<Rightarrow> nat \<Rightarrow> ('t, 'w, 'x, 'i, 'r) redland_model \<Rightarrow> ('t, 'w, 'x, 'i, 'r) redland_model option" where
  "removeNodeIterator t i st = rm_unlock t (st\<lparr>nodeIterators := removeAll i (nodeIterators st)\<rparr>)"

definition removeQueryResult :: "'t \<Rightarrow> nat \<Rightarrow> ('t, 'w, 'x, 'i, 'r) redland_model \<Rightarrow> ('t, 'w, 'x, 'i, 'r) redland_model option" where
  "removeQueryResult t i st = rm_unlock t (st\<lparr>open_results := removeAll i (open_results st)\<rparr>)"

section \<open>Statements\<close>

definition invalid_redland_iterator :: error where
  "invalid_redland_iterator = mk_error ''Invalid iterator'' (error_code_num ErrorUnknown)"

definition si_close :: "'t \<Rightarrow> nat \<Rightarrow> ('t, 'w, 'x, 'i, 'r) redland_model \<Rightarrow> ('t, 'w, 'x, 'i, 'r) redland_model option" where
  "si_close t i st = do {
     it \<leftarrow> statement_its st i;
     st \<leftarrow> (if si_model it then removeIterator t i (st\<lparr>live := freed LibStream (m_stream it) (live st)\<rparr>)
            else Some (st\<lparr>live := freed LibStream (m_stream it) (live st)\<rparr>));
     Some (st\<lparr>statement_its := (statement_its st)(i \<mapsto> it\<lparr>m_stream := None, si_model := False, si_error := NoError\<rparr>)\<rparr>) }"

definition si_next :: "'t \<Rightarrow> ('w, 'u, 'n, 's, 'x, 'i, 'q, 'r) librdf \<Rightarrow> nat \<Rightarrow> ('t, 'w, 'x, 'i, 'r) redland_model \<Rightarrow>
    (bool \<times> ('t, 'w, 'x, 'i, 'r) redland_model) option" where
  "si_next t L i st = do {
     it \<leftarrow> statement_its st i;
     case m_stream it of
       None \<Rightarrow> Some (False, st\<lparr>statement_its := (statement_its st)(i \<mapsto> it\<lparr>si_error := invalid_redland_iterator\<rparr>)\<rparr>)
     | Some x \<Rightarrow>
         (let x = (if m_initialized it then stream_next L x else x);
              st = st\<lparr>statement_its := (statement_its st)(i \<mapsto> it\<lparr>m_stream := Some x, m_initialized := True, si_error := NoError\<rparr>)\<rparr>
          in if stream_end L x then do { st \<leftarrow> si_close t i st; Some (False, st) } else Some (True, st)) }"

definition stream_statement :: "qt \<Rightarrow> ('w, 'u, 'n, 's, 'x, 'i, 'q, 'r) librdf \<Rightarrow> node \<Rightarrow> 'x \<Rightarrow> statement" where
  "stream_statement q L force x =
     (case stream_object L x of
        None \<Rightarrow> empty_statement
      | Some s \<Rightarrow> (let copy = world_readStatement q L (Some s) in
          case stream_context L x of
            Some c \<Rightarrow> setContext (world_readNode q L (Some c)) copy
          | None \<Rightarrow> if node_isValid force then setContext force copy else copy))"

definition si_current :: "qt \<Rightarrow> ('w, 'u, 'n, 's, 'x, 'i, 'q, 'r) librdf \<Rightarrow> nat \<Rightarrow> ('t, 'w, 'x, 'i, 'r) redland_model \<Rightarrow>
    (statement \<times> ('t, 'w, 'x, 'i, 'r) redland_model) option" where
  "si_current q L i st = do {
     it \<leftarrow> statement_its st i;
     case m_stream it of
       None \<Rightarrow> Some (empty_statement, st\<lparr>statement_its := (statement_its st)(i \<mapsto> it\<lparr>si_error := invalid_redland_iterator\<rparr>)\<rparr>)
     | Some x \<Rightarrow>
         if stream_end L x then
           Some (empty_statement, st\<lparr>statement_its := (statement_its st)(i \<mapsto> it\<lparr>si_error := invalid_redland_iterator\<rparr>)\<rparr>)
         else Some (stream_statement q L (m_forceContext it) x, st\<lparr>statement_its := (statement_its st)(i \<mapsto> it\<lparr>si_error := NoError\<rparr>)\<rparr>) }"

text \<open>The destructor closes once more.\<close>

definition si_delete :: "'t \<Rightarrow> nat \<Rightarrow> ('t, 'w, 'x, 'i, 'r) redland_model \<Rightarrow> ('t, 'w, 'x, 'i, 'r) redland_model option" where
  "si_delete t i st = do { st \<leftarrow> si_close t i st; Some (st\<lparr>statement_its := (statement_its st)(i := None)\<rparr>) }"

definition si_lastError :: "nat \<Rightarrow> ('t, 'w, 'x, 'i, 'r) redland_model \<Rightarrow> error" where
  "si_lastError i st = (case statement_its st i of None \<Rightarrow> NoError | Some it \<Rightarrow> si_error it)"

definition redland_statements :: "'t \<Rightarrow> qt \<Rightarrow> ('w, 'u, 'n, 's, 'x, 'i, 'q, 'r) librdf \<Rightarrow>
    (nat \<times> ('t, 'w, 'x, 'i, 'r) redland_model, statement) backend" where
  "redland_statements t q L = \<lparr>
     b_next = (\<lambda>(i, st). map_option (\<lambda>(b, st). (b, (i, st))) (si_next t L i st)),
     b_current = (\<lambda>(i, st). map_option (\<lambda>(s, st). (s, (i, st))) (si_current q L i st)),
     b_close = (\<lambda>(i, st). map_option (\<lambda>st. (i, st)) (si_close t i st)),
     b_error = (\<lambda>(i, st). si_lastError i st) \<rparr>"

section \<open>Nodes\<close>

definition ni_close :: "'t \<Rightarrow> nat \<Rightarrow> ('t, 'w, 'x, 'i, 'r) redland_model \<Rightarrow> ('t, 'w, 'x, 'i, 'r) redland_model option" where
  "ni_close t i st = do {
     it \<leftarrow> node_its st i;
     st \<leftarrow> (if ni_model it then removeNodeIterator t i (st\<lparr>live := freed LibIterator (m_iterator it) (live st)\<rparr>)
            else Some (st\<lparr>live := freed LibIterator (m_iterator it) (live st)\<rparr>));
     Some (st\<lparr>node_its := (node_its st)(i \<mapsto> it\<lparr>m_iterator := None, ni_model := False\<rparr>)\<rparr>) }"

text \<open>The iterator is advanced before it is asked whether there is one: after the end the null pointer is handed to librdf,
  which is undefined.\<close>

definition ni_next :: "'t \<Rightarrow> ('w, 'u, 'n, 's, 'x, 'i, 'q, 'r) librdf \<Rightarrow> nat \<Rightarrow> ('t, 'w, 'x, 'i, 'r) redland_model \<Rightarrow>
    (bool \<times> ('t, 'w, 'x, 'i, 'r) redland_model) option" where
  "ni_next t L i st = do {
     it \<leftarrow> node_its st i;
     if ni_initialized it \<and> m_iterator it = None then None
     else (let it = (if ni_initialized it then it\<lparr>m_iterator := map_option (iterator_next L) (m_iterator it)\<rparr> else it\<lparr>ni_initialized := True\<rparr>);
               st = st\<lparr>node_its := (node_its st)(i \<mapsto> it)\<rparr>
       in case m_iterator it of
            None \<Rightarrow> Some (False, st)
          | Some x \<Rightarrow> if iterator_end L x then do { st \<leftarrow> ni_close t i st; Some (False, st) } else Some (True, st)) }"

definition ni_current :: "qt \<Rightarrow> ('w, 'u, 'n, 's, 'x, 'i, 'q, 'r) librdf \<Rightarrow> nat \<Rightarrow> ('t, 'w, 'x, 'i, 'r) redland_model \<Rightarrow> node option" where
  "ni_current q L i st = do {
     it \<leftarrow> node_its st i;
     Some (case m_iterator it of None \<Rightarrow> EmptyNode
       | Some x \<Rightarrow> if iterator_end L x then EmptyNode
           else (case iterator_object L x of None \<Rightarrow> EmptyNode | Some n \<Rightarrow> world_readNode q L (Some n))) }"

definition ni_delete :: "'t \<Rightarrow> nat \<Rightarrow> ('t, 'w, 'x, 'i, 'r) redland_model \<Rightarrow> ('t, 'w, 'x, 'i, 'r) redland_model option" where
  "ni_delete t i st = do { st \<leftarrow> ni_close t i st; Some (st\<lparr>node_its := (node_its st)(i := None)\<rparr>) }"

definition redland_nodes :: "'t \<Rightarrow> qt \<Rightarrow> ('w, 'u, 'n, 's, 'x, 'i, 'q, 'r) librdf \<Rightarrow>
    (nat \<times> ('t, 'w, 'x, 'i, 'r) redland_model, node) backend" where
  "redland_nodes t q L = \<lparr>
     b_next = (\<lambda>(i, st). map_option (\<lambda>(b, st). (b, (i, st))) (ni_next t L i st)),
     b_current = (\<lambda>(i, st). map_option (\<lambda>n. (n, (i, st))) (ni_current q L i st)),
     b_close = (\<lambda>(i, st). map_option (\<lambda>st. (i, st)) (ni_close t i st)),
     b_error = (\<lambda>_. NoError) \<rparr>"

section \<open>What the iterators deliver\<close>

text \<open>The statements a stream stands before.\<close>

fun stream_shows :: "qt \<Rightarrow> ('w, 'u, 'n, 's, 'x, 'i, 'q, 'r) librdf \<Rightarrow> node \<Rightarrow> 'x \<Rightarrow> statement list \<Rightarrow> bool" where
  "stream_shows q L f x [] \<longleftrightarrow> stream_end L x"
| "stream_shows q L f x (s # ss) \<longleftrightarrow> \<not> stream_end L x \<and> stream_statement q L f x = s \<and> stream_shows q L f (stream_next L x) ss"

text \<open>The model before and after the iterator \<open>i\<close> is closed: the stream is freed and one lock is given back.\<close>

definition with_iterator :: "nat \<Rightarrow> 'x statement_iterator \<Rightarrow> ('t, 'w, 'x, 'i, 'r) redland_model \<Rightarrow> ('t, 'w, 'x, 'i, 'r) redland_model" where
  "with_iterator i it st = st\<lparr>statement_its := (statement_its st)(i \<mapsto> it)\<rparr>"

definition without_iterator :: "'t \<Rightarrow> nat \<Rightarrow> ('t, 'w, 'x, 'i, 'r) redland_model \<Rightarrow> ('t, 'w, 'x, 'i, 'r) redland_model" where
  "without_iterator t i st = st\<lparr>live := (live st)(LibStream := live st LibStream - 1), iterators := removeAll i (iterators st),
     readWriteLock := the (multi_unlock t (readWriteLock st))\<rparr>"

definition si_at :: "'t \<Rightarrow> qt \<Rightarrow> ('w, 'u, 'n, 's, 'x, 'i, 'q, 'r) librdf \<Rightarrow> node \<Rightarrow> nat \<Rightarrow> ('t, 'w, 'x, 'i, 'r) redland_model \<Rightarrow>
    nat \<times> ('t, 'w, 'x, 'i, 'r) redland_model \<Rightarrow> statement option \<Rightarrow> statement list \<Rightarrow> bool" where
  "si_at t q L f i st0 b h ss \<longleftrightarrow> multi_unlock t (readWriteLock st0) \<noteq> None \<and>
     (\<exists>it x. b = (i, with_iterator i it st0) \<and> si_model it \<and> m_stream it = Some x \<and> m_forceContext it = f \<and>
        (if m_initialized it then \<not> stream_end L x \<and> h = Some (stream_statement q L f x) \<and> stream_shows q L f (stream_next L x) ss
         else h = None \<and> stream_shows q L f x ss))"

definition si_closed :: "'t \<Rightarrow> nat \<Rightarrow> ('t, 'w, 'x, 'i, 'r) redland_model \<Rightarrow> nat \<times> ('t, 'w, 'x, 'i, 'r) redland_model \<Rightarrow> bool" where
  "si_closed t i st0 b \<longleftrightarrow> (\<exists>it. b = (i, with_iterator i it (without_iterator t i st0)) \<and> \<not> si_model it \<and> m_stream it = None)"

lemma with_iterator_simps [simp]:
  "statement_its (with_iterator i it st) i = Some it" "readWriteLock (with_iterator i it st) = readWriteLock st" "live (with_iterator i it st) = live st"
  "(with_iterator i it st)\<lparr>statement_its := (statement_its (with_iterator i it st))(i \<mapsto> it')\<rparr> = with_iterator i it' st"
  by (simp_all add: with_iterator_def)

lemma close_open:
  assumes "si_model it" "m_stream it = Some x" "multi_unlock t (readWriteLock st) \<noteq> None"
  shows "si_close t i (with_iterator i it st) = Some (with_iterator i (it\<lparr>m_stream := None, si_model := False, si_error := NoError\<rparr>) (without_iterator t i st))"
  using assms by (auto simp: si_close_def with_iterator_def without_iterator_def removeIterator_def rm_unlock_def freed_def)

lemma close_again:
  assumes "\<not> si_model it" "m_stream it = None"
  shows "si_close t i (with_iterator i it st) = Some (with_iterator i (it\<lparr>si_error := NoError\<rparr>) st)"
  using assms by (cases it) (simp add: si_close_def with_iterator_def freed_def)

lemma closed_closes:
  assumes "si_closed t i st0 b"
  shows "\<exists>b'. b_close (redland_statements t q L) b = Some b' \<and> si_closed t i st0 b'"
proof -
  from assms obtain it where it: "b = (i, with_iterator i it (without_iterator t i st0))" "\<not> si_model it" "m_stream it = None"
    by (auto simp: si_closed_def)
  have "si_closed t i st0 (i, with_iterator i (it\<lparr>si_error := NoError\<rparr>) (without_iterator t i st0))"
    unfolding si_closed_def using it by (intro exI[of _ "it\<lparr>si_error := NoError\<rparr>"]) simp
  then show ?thesis using it by (simp add: redland_statements_def close_again)
qed

interpretation redland_listing: delivers "redland_statements t q L" "si_at t q L f i st0" "si_closed t i st0" "si_closed t i st0" for t q L f i st0
proof
  fix b h and s :: statement and ss
  assume "si_at t q L f i st0 b h (s # ss)"
  then obtain it x where i: "multi_unlock t (readWriteLock st0) \<noteq> None" "b = (i, with_iterator i it st0)" "si_model it" "m_stream it = Some x"
      "m_forceContext it = f" "stream_shows q L f (if m_initialized it then stream_next L x else x) (s # ss)"
    by (auto simp: si_at_def split: if_splits)
  let ?it = "it\<lparr>m_stream := Some (if m_initialized it then stream_next L x else x), m_initialized := True, si_error := NoError\<rparr>"
  have "b_next (redland_statements t q L) b = Some (True, (i, with_iterator i ?it st0))"
    using i by (auto simp: redland_statements_def si_next_def Let_def)
  moreover have "si_at t q L f i st0 (i, with_iterator i ?it st0) (Some s) ss"
    unfolding si_at_def using i by (intro conjI exI[of _ ?it] exI[of _ "if m_initialized it then stream_next L x else x"]) auto
  ultimately show "\<exists>b'. b_next (redland_statements t q L) b = Some (True, b') \<and> si_at t q L f i st0 b' (Some s) ss" by blast
next
  fix b h
  assume "si_at t q L f i st0 b h []"
  then obtain it x where i: "multi_unlock t (readWriteLock st0) \<noteq> None" "b = (i, with_iterator i it st0)" "si_model it" "m_stream it = Some x"
      "stream_end L (if m_initialized it then stream_next L x else x)"
    by (auto simp: si_at_def split: if_splits)
  let ?it = "it\<lparr>m_stream := Some (if m_initialized it then stream_next L x else x), m_initialized := True, si_error := NoError\<rparr>"
  have "si_close t i (with_iterator i ?it st0) =
      Some (with_iterator i (?it\<lparr>m_stream := None, si_model := False, si_error := NoError\<rparr>) (without_iterator t i st0))"
    using i by (intro close_open) simp_all
  then show "\<exists>b'. b_next (redland_statements t q L) b = Some (False, b') \<and> si_closed t i st0 b'"
    using i by (auto simp: redland_statements_def si_next_def Let_def si_closed_def)
next
  fix b and s :: statement and ss
  assume "si_at t q L f i st0 b (Some s) ss"
  then obtain it x where i: "multi_unlock t (readWriteLock st0) \<noteq> None" "b = (i, with_iterator i it st0)" "si_model it" "m_stream it = Some x"
      "m_forceContext it = f" "m_initialized it" "\<not> stream_end L x" "s = stream_statement q L f x" "stream_shows q L f (stream_next L x) ss"
    by (auto simp: si_at_def split: if_splits)
  let ?it = "it\<lparr>si_error := NoError\<rparr>"
  have "b_current (redland_statements t q L) b = Some (s, (i, with_iterator i ?it st0))"
    using i by (simp add: redland_statements_def si_current_def)
  moreover have "si_at t q L f i st0 (i, with_iterator i ?it st0) (Some s) ss"
    unfolding si_at_def using i by (intro conjI exI[of _ ?it] exI[of _ x]) auto
  ultimately show "\<exists>b'. b_current (redland_statements t q L) b = Some (s, b') \<and> si_at t q L f i st0 b' (Some s) ss" by blast
qed (rule closed_closes; assumption)+

end
