(* ===== verification/Redland_Model.thy ===== *)
theory Redland_Model
  imports Redland_Iterator Soprano_Types
begin

text \<open>
  The operations of the redland model (backends/redland/redlandmodel.cpp), with what it inherits from StorageModel
  (soprano/storagemodel.cpp), and the results of its queries (backends/redland/redlandqueryresult.cpp). Every lock, unlock, new
  object of librdf and freed one is where the source has it.
\<close>

section \<open>Finding statements\<close>

definition isContextOnlyStatement :: "statement \<Rightarrow> bool" where
  "isContextOnlyStatement s \<longleftrightarrow> \<not> node_isValid (subject s) \<and> \<not> node_isValid (predicate s) \<and> \<not> node_isValid (object s) \<and> node_isValid (context_node s)"

definition isRedlandStatementEmpty :: "('w, 'u, 'n, 's, 'x, 'i, 'q, 'r) librdf \<Rightarrow> 's option \<Rightarrow> bool" where
  "isRedlandStatementEmpty L s \<longleftrightarrow> s = None \<or> (rdf_subject L s = None \<and> rdf_predicate L s = None \<and> rdf_object L s = None)"

definition redlandFind :: "('w, 'u, 'n, 's, 'x, 'i, 'q, 'r) librdf \<Rightarrow> 's option \<Rightarrow> 'n option \<Rightarrow> 'w \<Rightarrow> 'x option \<times> 'w" where
  "redlandFind L s context w = (case context of
       None \<Rightarrow> find_statements L s w
     | Some c \<Rightarrow> if isRedlandStatementEmpty L s then context_as_stream L c w else find_in_context L s c w)"

definition redlandFindStatements :: "qt \<Rightarrow> ('w, 'u, 'n, 's, 'x, 'i, 'q, 'r) librdf \<Rightarrow> statement \<Rightarrow> ('t, 'w, 'x, 'i, 'r) redland_model \<Rightarrow>
    'x option \<times> ('t, 'w, 'x, 'i, 'r) redland_model" where
  "redlandFindStatements q L s st =
     (case world_createNode q L (context_node s) (live st) of (ctx, l) \<Rightarrow>
      case world_createStatement q L s l of (rs, l) \<Rightarrow>
      case redlandFind L rs ctx (rm_world st) of (x, w) \<Rightarrow>
        (x, st\<lparr>rm_world := w, live := freed LibStatement rs (freed LibNode ctx (made LibStream x l))\<rparr>))"

text \<open>1: found, 0: not found, -1: an error. The stream is freed again.\<close>

definition redlandContains :: "('w, 'u, 'n, 's, 'x, 'i, 'q, 'r) librdf \<Rightarrow> 's option \<Rightarrow> 'n option \<Rightarrow> 'w \<Rightarrow> int \<times> 'w" where
  "redlandContains L s context w =
     (case context of
        Some c \<Rightarrow>
          if isRedlandStatementEmpty L s then (case contains_context L c w of (b, w) \<Rightarrow> (if b then 1 else 0, w))
          else (case redlandFind L s context w of (Some x, w) \<Rightarrow> (if \<not> stream_end L x then 1 else 0, w) | (None, w) \<Rightarrow> (- 1, w))
      | None \<Rightarrow> (case redlandFind L s context w of (Some x, w) \<Rightarrow> (if \<not> stream_end L x then 1 else 0, w) | (None, w) \<Rightarrow> (- 1, w)))"

definition redlandContainsStatement :: "qt \<Rightarrow> ('w, 'u, 'n, 's, 'x, 'i, 'q, 'r) librdf \<Rightarrow> statement \<Rightarrow> ('t, 'w, 'x, 'i, 'r) redland_model \<Rightarrow>
    int \<times> ('t, 'w, 'x, 'i, 'r) redland_model" where
  "redlandContainsStatement q L s st =
     (case world_createStatement q L s (live st) of (rs, l) \<Rightarrow>
      case (if node_isValid (context_node s) then world_createNode q L (context_node s) l else (None, l)) of (c, l) \<Rightarrow>
      case redlandContains L rs c (rm_world st) of (r, w) \<Rightarrow> (r, st\<lparr>rm_world := w, live := freed LibNode c (freed LibStatement rs l)\<rparr>))"

section \<open>Adding\<close>

definition rm_emit :: "signal list \<Rightarrow> ('t, 'w, 'x, 'i, 'r) redland_model \<Rightarrow> ('t, 'w, 'x, 'i, 'r) redland_model" where
  "rm_emit ss st = st\<lparr>rm_signals := rm_signals st @ ss\<rparr>"

text \<open>setError with the last error of the world, or another.\<close>

definition rm_worldError :: "'t \<Rightarrow> ('w, 'u, 'n, 's, 'x, 'i, 'q, 'r) librdf \<Rightarrow> error \<Rightarrow> ('t, 'w, 'x, 'i, 'r) redland_model \<Rightarrow>
    ('t, 'w, 'x, 'i, 'r) redland_model" where
  "rm_worldError t L fallBackError st = rm_setError t (world_lastError L fallBackError (rm_world st)) st"

definition rm_fail :: "'t \<Rightarrow> error_code \<Rightarrow> ('t, 'w, 'x, 'i, 'r) redland_model \<Rightarrow> (error_code \<times> ('t, 'w, 'x, 'i, 'r) redland_model) option" where
  "rm_fail t c st = do { st \<leftarrow> rm_unlock t st; Some (c, st) }"

definition not_converted :: error where
  "not_converted = mk_error ''Could not convert to redland statement'' (error_code_num ErrorInvalidArgument)"

definition rm_addStatement :: "'t \<Rightarrow> qt \<Rightarrow> ('w, 'u, 'n, 's, 'x, 'i, 'q, 'r) librdf \<Rightarrow> statement \<Rightarrow> ('t, 'w, 'x, 'i, 'r) redland_model \<Rightarrow>
    (error_code \<times> ('t, 'w, 'x, 'i, 'r) redland_model) option" where
  "rm_addStatement t q L s st =
     (if \<not> stmt_isValid s then
        Some (ErrorInvalidArgument, rm_setError t (mk_error ''Cannot add invalid statement'' (error_code_num ErrorInvalidArgument)) st)
      else do {
        st \<leftarrow> rm_lockForWrite t (rm_clearError t st);
        let (rs, l) = world_createStatement q L s (live st);
        let st = st\<lparr>live := l\<rparr>;
        case rs of
          None \<Rightarrow> rm_fail t ErrorInvalidArgument (rm_worldError t L not_converted st)
        | Some r \<Rightarrow>
          if rdf_subject L rs = None \<or> rdf_predicate L rs = None \<or> rdf_object L rs = None
          then rm_fail t ErrorInvalidArgument (rm_worldError t L not_converted st)
          else do {
            let (ctx, l) = (if node_isEmpty (context_node s) then (None, live st) else world_createNode q L (context_node s) (live st));
            let (e, w) = (if node_isEmpty (context_node s) then add_statement L r (rm_world st) else context_add_statement L ctx r (rm_world st));
            let st = st\<lparr>rm_world := w, live := freed LibStatement rs (freed LibNode ctx l)\<rparr>;
            if e \<noteq> 0 then rm_fail t ErrorUnknown (rm_worldError t L (mk_error
                (if node_isEmpty (context_node s) then q_arg ''Failed to add statement. Redland error code %1.'' (show_int e) else ''Failed to add statement'')
                (error_code_num ErrorUnknown)) st)
            else do {
              st \<leftarrow> rm_unlock t (st\<lparr>rm_world := model_sync L (rm_world st)\<rparr>);
              Some (ErrorNone, rm_emit [StatementAdded s, StatementsAdded] st)
            }
          }
      })"

section \<open>Listing\<close>

definition rm_listContexts :: "'t \<Rightarrow> ('w, 'u, 'n, 's, 'x, 'i, 'q, 'r) librdf \<Rightarrow> ('t, 'w, 'x, 'i, 'r) redland_model \<Rightarrow>
    (nat option \<times> ('t, 'w, 'x, 'i, 'r) redland_model) option" where
  "rm_listContexts t L st = do {
     st \<leftarrow> rm_lockForRead t (rm_clearError t st);
     let (iter, w) = get_contexts L (rm_world st);
     let st = st\<lparr>rm_world := w, live := made LibIterator iter (live st)\<rparr>;
     case iter of
       None \<Rightarrow> do { st \<leftarrow> rm_unlock t (rm_worldError t L NoError st); Some (None, st) }
     | Some x \<Rightarrow> (let i = next_object st in
         Some (Some i, st\<lparr>node_its := (node_its st)(i \<mapsto> \<lparr> ni_model = True, m_iterator = Some x, ni_initialized = False \<rparr>),
           nodeIterators := nodeIterators st @ [i], next_object := Suc i\<rparr>)) }"

definition rm_listStatements :: "'t \<Rightarrow> qt \<Rightarrow> ('w, 'u, 'n, 's, 'x, 'i, 'q, 'r) librdf \<Rightarrow> statement \<Rightarrow> ('t, 'w, 'x, 'i, 'r) redland_model \<Rightarrow>
    (nat option \<times> ('t, 'w, 'x, 'i, 'r) redland_model) option" where
  "rm_listStatements t q L partial st = do {
     st \<leftarrow> rm_lockForRead t st;
     let (stream, st) = redlandFindStatements q L partial (rm_clearError t st);
     case stream of
       None \<Rightarrow> do { st \<leftarrow> rm_unlock t (rm_worldError t L NoError st); Some (None, st) }
     | Some x \<Rightarrow> (let i = next_object st in
         Some (Some i, st\<lparr>statement_its := (statement_its st)(i \<mapsto> \<lparr> si_model = True, m_stream = Some x, m_forceContext = context_node partial,
             m_initialized = False, si_error = NoError \<rparr>),
           iterators := iterators st @ [i], next_object := Suc i\<rparr>)) }"

text \<open>All statements of a temporary iterator, which is destroyed afterwards; none when it is invalid.\<close>

definition rm_allStatements :: "'t \<Rightarrow> qt \<Rightarrow> ('w, 'u, 'n, 's, 'x, 'i, 'q, 'r) librdf \<Rightarrow> statement \<Rightarrow> ('t, 'w, 'x, 'i, 'r) redland_model \<Rightarrow>
    (statement list \<times> ('t, 'w, 'x, 'i, 'r) redland_model) option" where
  "rm_allStatements t q L partial st = do {
     (it, st) \<leftarrow> rm_listStatements t q L partial st;
     case it of
       None \<Rightarrow> Some ([], st)
     | Some i \<Rightarrow> do {
         (ss, it) \<leftarrow> allElements (redland_statements t q L) empty_statement (new_iterator (i, st));
         (i, st) \<leftarrow> fst it;
         st \<leftarrow> si_delete t i st;
         Some (ss, st) } }"

section \<open>Asking\<close>

text \<open>StorageModel::containsStatement: the loop over the iterator, left at the first statement that is equal.\<close>

partial_function (option) find_equal :: "('b, statement) backend \<Rightarrow> qt \<Rightarrow> statement \<Rightarrow> 'b front \<Rightarrow> (bool \<times> 'b front) option" where
  "find_equal B q s it = (case it_next B it of
       None \<Rightarrow> None
     | Some (hasNext, it) \<Rightarrow>
         if \<not> hasNext then Some (False, it)
         else (case it_current B empty_statement it of
             None \<Rightarrow> None
           | Some (x, it) \<Rightarrow> if stmt_eq q x s then Some (True, it) else find_equal B q s it))"

definition storage_containsStatement :: "'t \<Rightarrow> qt \<Rightarrow> ('w, 'u, 'n, 's, 'x, 'i, 'q, 'r) librdf \<Rightarrow> statement \<Rightarrow> ('t, 'w, 'x, 'i, 'r) redland_model \<Rightarrow>
    (bool \<times> ('t, 'w, 'x, 'i, 'r) redland_model) option" where
  "storage_containsStatement t q L s st =
     (if \<not> stmt_isValid s then
        Some (False, rm_setError t (mk_error ''Cannot check for invalid statement'' (error_code_num ErrorInvalidArgument)) st)
      else do {
        (it, st) \<leftarrow> rm_listStatements t q L s st;
        case it of
          None \<Rightarrow> Some (False, st)
        | Some i \<Rightarrow> do {
            (found, it) \<leftarrow> find_equal (redland_statements t q L) q s (new_iterator (i, st));
            (i, st) \<leftarrow> fst it;
            st \<leftarrow> si_delete t i st;
            Some (found, st) } })"

definition contains_answer :: "'t \<Rightarrow> ('w, 'u, 'n, 's, 'x, 'i, 'q, 'r) librdf \<Rightarrow> int \<Rightarrow> ('t, 'w, 'x, 'i, 'r) redland_model \<Rightarrow>
    bool \<times> ('t, 'w, 'x, 'i, 'r) redland_model" where
  "contains_answer t L c st = (0 < c, if c < 0 then rm_worldError t L NoError st else rm_clearError t st)"

text \<open>The locker gives the lock back when it goes out of scope.\<close>

definition rm_containsStatement :: "'t \<Rightarrow> qt \<Rightarrow> ('w, 'u, 'n, 's, 'x, 'i, 'q, 'r) librdf \<Rightarrow> statement \<Rightarrow> ('t, 'w, 'x, 'i, 'r) redland_model \<Rightarrow>
    (bool \<times> ('t, 'w, 'x, 'i, 'r) redland_model) option" where
  "rm_containsStatement t q L s st =
     (if stmt_isValid s then do {
        st \<leftarrow> rm_lockForRead t st;
        (b, st) \<leftarrow> (if node_isValid (context_node s) then (case redlandContainsStatement q L s st of (c, st) \<Rightarrow> Some (contains_answer t L c st))
           else storage_containsStatement t q L s st);
        st \<leftarrow> rm_unlock t st;
        Some (b, st) }
      else Some (False, rm_setError t (mk_error ''Cannot check for invalid statement'' (error_code_num ErrorInvalidArgument)) st))"

definition rm_containsAnyStatement :: "'t \<Rightarrow> qt \<Rightarrow> ('w, 'u, 'n, 's, 'x, 'i, 'q, 'r) librdf \<Rightarrow> statement \<Rightarrow> ('t, 'w, 'x, 'i, 'r) redland_model \<Rightarrow>
    (bool \<times> ('t, 'w, 'x, 'i, 'r) redland_model) option" where
  "rm_containsAnyStatement t q L s st = do {
     st \<leftarrow> rm_lockForRead t st;
     let (c, st) = redlandContainsStatement q L s st;
     let (b, st) = contains_answer t L c st;
     st \<leftarrow> rm_unlock t st;
     Some (b, st) }"

definition rm_statementCount :: "'t \<Rightarrow> ('w, 'u, 'n, 's, 'x, 'i, 'q, 'r) librdf \<Rightarrow> ('t, 'w, 'x, 'i, 'r) redland_model \<Rightarrow>
    (int \<times> ('t, 'w, 'x, 'i, 'r) redland_model) option" where
  "rm_statementCount t L st = do {
     st \<leftarrow> rm_lockForRead t st;
     let st = rm_clearError t st;
     let (n, w) = model_size L (rm_world st);
     let st = st\<lparr>rm_world := w\<rparr>;
     st \<leftarrow> rm_unlock t (if n < 0 then rm_worldError t L NoError st else st);
     Some (n, st) }"

definition rm_isEmpty :: "'t \<Rightarrow> ('w, 'u, 'n, 's, 'x, 'i, 'q, 'r) librdf \<Rightarrow> ('t, 'w, 'x, 'i, 'r) redland_model \<Rightarrow>
    (bool \<times> ('t, 'w, 'x, 'i, 'r) redland_model) option" where
  "rm_isEmpty t L st = do { (n, st) \<leftarrow> rm_statementCount t L st; Some (n = 0, st) }"

text \<open>The node of librdf is not freed.\<close>

definition rm_createBlankNode :: "'t \<Rightarrow> qt \<Rightarrow> ('w, 'u, 'n, 's, 'x, 'i, 'q, 'r) librdf \<Rightarrow> ('t, 'w, 'x, 'i, 'r) redland_model \<Rightarrow>
    node \<times> ('t, 'w, 'x, 'i, 'r) redland_model" where
  "rm_createBlankNode t q L st =
     (case new_blank_identifier L (rm_world st) of (r, w) \<Rightarrow>
        (let n = world_readNode q L r;
             st = (rm_clearError t st)\<lparr>rm_world := w, live := made LibNode r (live st)\<rparr>
         in (n, if node_isEmpty n then rm_worldError t L NoError st else st)))"

section \<open>Removing\<close>

text \<open>The signal is sent from inside, while the caller has the lock.\<close>

definition removeOneStatement :: "'t \<Rightarrow> qt \<Rightarrow> ('w, 'u, 'n, 's, 'x, 'i, 'q, 'r) librdf \<Rightarrow> statement \<Rightarrow> ('t, 'w, 'x, 'i, 'r) redland_model \<Rightarrow>
    error_code \<times> ('t, 'w, 'x, 'i, 'r) redland_model" where
  "removeOneStatement t q L s st =
     (let st = rm_clearError t st in
      if \<not> stmt_isValid s then
        (ErrorInvalidArgument, rm_setError t (mk_error ''Cannot remove invalid statement'' (error_code_num ErrorInvalidArgument)) st)
      else (case world_createStatement q L s (live st) of
          (None, l) \<Rightarrow> (ErrorInvalidArgument, rm_worldError t L NoError (st\<lparr>live := l\<rparr>))
        | (Some r, l) \<Rightarrow>
            (case (if node_isEmpty (context_node s) then (None, l) else world_createNode q L (context_node s) l) of (ctx, l) \<Rightarrow>
             case (if node_isEmpty (context_node s) then remove_statement L r (rm_world st) else context_remove_statement L ctx r (rm_world st)) of (e, w) \<Rightarrow>
               (let st = st\<lparr>rm_world := w, live := freed LibStatement (Some r) (freed LibNode ctx l)\<rparr> in
                if e \<noteq> 0 then (ErrorUnknown, rm_worldError t L NoError st)
                else (ErrorNone, rm_emit [StatementRemoved s] st)))))"

definition rm_removeStatement :: "'t \<Rightarrow> qt \<Rightarrow> ('w, 'u, 'n, 's, 'x, 'i, 'q, 'r) librdf \<Rightarrow> statement \<Rightarrow> ('t, 'w, 'x, 'i, 'r) redland_model \<Rightarrow>
    (error_code \<times> ('t, 'w, 'x, 'i, 'r) redland_model) option" where
  "rm_removeStatement t q L s st = do {
     st \<leftarrow> rm_lockForWrite t st;
     let (r, st) = removeOneStatement t q L s st;
     st \<leftarrow> rm_unlock t (st\<lparr>rm_world := model_sync L (rm_world st)\<rparr>);
     Some (r, if r = ErrorNone then rm_emit [StatementsRemoved] st else st) }"

fun remove_each :: "'t \<Rightarrow> qt \<Rightarrow> ('w, 'u, 'n, 's, 'x, 'i, 'q, 'r) librdf \<Rightarrow> statement list \<Rightarrow> ('t, 'w, 'x, 'i, 'r) redland_model \<Rightarrow>
    error_code \<times> ('t, 'w, 'x, 'i, 'r) redland_model" where
  "remove_each t q L [] st = (ErrorNone, st)"
| "remove_each t q L (s # ss) st = (case removeOneStatement t q L s st of (e, st) \<Rightarrow> if e \<noteq> ErrorNone then (e, st) else remove_each t q L ss st)"

definition rm_removeContext :: "'t \<Rightarrow> qt \<Rightarrow> ('w, 'u, 'n, 's, 'x, 'i, 'q, 'r) librdf \<Rightarrow> statement \<Rightarrow> ('t, 'w, 'x, 'i, 'r) redland_model \<Rightarrow>
    (error_code \<times> ('t, 'w, 'x, 'i, 'r) redland_model) option" where
  "rm_removeContext t q L s st = do {
     st \<leftarrow> rm_lockForWrite t st;
     let (ctx, l) = world_createNode q L (context_node s) (live st);
     let (e, w) = context_remove_statements L ctx (rm_world st);
     let st = st\<lparr>rm_world := w, live := freed LibNode ctx l\<rparr>;
     if e \<noteq> 0 then rm_fail t ErrorUnknown (rm_worldError t L NoError st)
     else do {
       st \<leftarrow> rm_unlock t (st\<lparr>rm_world := model_sync L (rm_world st)\<rparr>);
       Some (ErrorNone, rm_emit [StatementRemoved s, StatementsRemoved] st) } }"

definition rm_removeAllStatements :: "'t \<Rightarrow> qt \<Rightarrow> ('w, 'u, 'n, 's, 'x, 'i, 'q, 'r) librdf \<Rightarrow> statement \<Rightarrow> ('t, 'w, 'x, 'i, 'r) redland_model \<Rightarrow>
    (error_code \<times> ('t, 'w, 'x, 'i, 'r) redland_model) option" where
  "rm_removeAllStatements t q L s st =
     (let st = rm_clearError t st in
      if isContextOnlyStatement s then rm_removeContext t q L s st
      else if \<not> stmt_isValid s \<or> \<not> node_isValid (context_node s) then do {
        (ss, st) \<leftarrow> rm_allStatements t q L s st;
        st \<leftarrow> rm_lockForWrite t st;
        let (e, st) = remove_each t q L ss st;
        if e \<noteq> ErrorNone then rm_fail t e st
        else do {
          st \<leftarrow> rm_unlock t (st\<lparr>rm_world := model_sync L (rm_world st)\<rparr>);
          Some (ErrorNone, if ss \<noteq> [] then rm_emit [StatementsRemoved] st else st) } }
      else rm_removeStatement t q L s st)"

section \<open>Queries\<close>

definition qr_new :: "qt \<Rightarrow> ('w, 'u, 'n, 's, 'x, 'i, 'q, 'r) librdf \<Rightarrow> 'r \<Rightarrow> ('x, 'r) redland_result" where
  "qr_new q L r = \<lparr> qr_model = True, qr_result = Some r, qr_stream = None,
     qr_names = (case results_names L r of None \<Rightarrow> [] | Some ns \<Rightarrow> map (str_fromUtf8 q) ns), qr_first = True,
     qr_isBool = results_is_boolean L r, qr_isGraph = results_is_graph L r, qr_isBinding = results_is_bindings L r,
     qr_boolResult = (results_is_boolean L r \<and> 0 < results_boolean L r) \<rparr>"

text \<open>The query is freed only when it could not be run.\<close>

definition rm_executeQuery :: "'t \<Rightarrow> qt \<Rightarrow> ('w, 'u, 'n, 's, 'x, 'i, 'q, 'r) librdf \<Rightarrow> qstring \<Rightarrow> u16 \<Rightarrow> qstring \<Rightarrow> ('t, 'w, 'x, 'i, 'r) redland_model \<Rightarrow>
    (nat option \<times> ('t, 'w, 'x, 'i, 'r) redland_model) option" where
  "rm_executeQuery t q L query lang user st = do {
     st \<leftarrow> rm_lockForRead t st;
     let st = rm_clearError t st;
     let (rq, w) = new_query L (c_text (toLatin1 (toLower (queryLanguageToString lang user)))) (c_text (toLatin1 query)) (rm_world st);
     let st = st\<lparr>rm_world := w, live := made LibQuery rq (live st)\<rparr>;
     case rq of
       None \<Rightarrow> do { st \<leftarrow> rm_unlock t (rm_worldError t L NoError st); Some (None, st) }
     | Some x \<Rightarrow> do {
         let (r, w) = query_execute L x (rm_world st);
         let st = st\<lparr>rm_world := w, live := made LibResults r (live st)\<rparr>;
         case r of
           None \<Rightarrow> do { st \<leftarrow> rm_unlock t (rm_worldError t L NoError (st\<lparr>live := freed LibQuery rq (live st)\<rparr>)); Some (None, st) }
         | Some r \<Rightarrow> (let i = next_object st in
             Some (Some i, st\<lparr>result_its := (result_its st)(i \<mapsto> qr_new q L r), open_results := open_results st @ [i], next_object := Suc i\<rparr>)) } }"

definition qr_close :: "'t \<Rightarrow> nat \<Rightarrow> ('t, 'w, 'x, 'i, 'r) redland_model \<Rightarrow> ('t, 'w, 'x, 'i, 'r) redland_model option" where
  "qr_close t i st = do {
     d \<leftarrow> result_its st i;
     let l = (if qr_result d = None then live st else freed LibStream (qr_stream d) (freed LibResults (qr_result d) (live st)));
     let d = (if qr_result d = None then d else d\<lparr>qr_result := None, qr_stream := None\<rparr>);
     st \<leftarrow> (if qr_model d then removeQueryResult t i (st\<lparr>live := l\<rparr>) else Some (st\<lparr>live := l\<rparr>));
     Some (st\<lparr>result_its := (result_its st)(i \<mapsto> d\<lparr>qr_model := False\<rparr>)\<rparr>) }"

definition qr_next :: "'t \<Rightarrow> ('w, 'u, 'n, 's, 'x, 'i, 'q, 'r) librdf \<Rightarrow> nat \<Rightarrow> ('t, 'w, 'x, 'i, 'r) redland_model \<Rightarrow>
    (bool \<times> ('t, 'w, 'x, 'i, 'r) redland_model) option" where
  "qr_next t L i st = do {
     d \<leftarrow> result_its st i;
     case qr_result d of
       None \<Rightarrow> Some (False, st)
     | Some r \<Rightarrow>
         if qr_isBool d then Some (False, st)
         else if qr_isBinding d then do {
           let (hasNext, r) = (if qr_first d then (\<not> results_finished L r, r) else (case results_next L r of (e, r) \<Rightarrow> (e = 0, r)));
           let st = st\<lparr>result_its := (result_its st)(i \<mapsto> d\<lparr>qr_result := Some r, qr_first := False\<rparr>)\<rparr>;
           if \<not> hasNext then do { st \<leftarrow> qr_close t i st; Some (False, st) } else Some (True, st) }
         else if qr_isGraph d then do {
           let x = (if qr_first d then results_as_stream L r else qr_stream d);
           let st = st\<lparr>live := (if qr_first d then made LibStream x (live st) else live st),
             result_its := (result_its st)(i \<mapsto> d\<lparr>qr_stream := x, qr_first := False\<rparr>)\<rparr>;
           case x of
             None \<Rightarrow> Some (False, st)
           | Some x \<Rightarrow> if stream_end L x then do { st \<leftarrow> qr_close t i st; Some (False, st) } else Some (True, st) }
         else Some (False, st) }"

text \<open>Reading the current statement moves the stream.\<close>

definition qr_currentStatement :: "qt \<Rightarrow> ('w, 'u, 'n, 's, 'x, 'i, 'q, 'r) librdf \<Rightarrow> nat \<Rightarrow> ('t, 'w, 'x, 'i, 'r) redland_model \<Rightarrow>
    (statement \<times> ('t, 'w, 'x, 'i, 'r) redland_model) option" where
  "qr_currentStatement q L i st = do {
     d \<leftarrow> result_its st i;
     Some (case qr_stream d of
         None \<Rightarrow> (empty_statement, st)
       | Some x \<Rightarrow> (case stream_object L x of
           None \<Rightarrow> (empty_statement, st)
         | Some s \<Rightarrow> (world_readStatement q L (Some s), st\<lparr>result_its := (result_its st)(i \<mapsto> d\<lparr>qr_stream := Some (stream_next L x)\<rparr>)\<rparr>))) }"

definition qr_binding :: "qt \<Rightarrow> ('w, 'u, 'n, 's, 'x, 'i, 'q, 'r) librdf \<Rightarrow> (qstring + int) \<Rightarrow> ('x, 'r) redland_result \<Rightarrow> node" where
  "qr_binding q L k d = (case qr_result d of
       None \<Rightarrow> EmptyNode
     | Some r \<Rightarrow> (case (case k of Inl name \<Rightarrow> results_value_by_name L r (c_text (toLatin1 name)) | Inr offset \<Rightarrow> results_value L r offset) of
           None \<Rightarrow> EmptyNode
         | Some n \<Rightarrow> world_readNode q L (Some n)))"

definition qr_bindingCount :: "('x, 'r) redland_result \<Rightarrow> nat" where
  "qr_bindingCount d = length (qr_names d)"

definition qr_delete :: "'t \<Rightarrow> nat \<Rightarrow> ('t, 'w, 'x, 'i, 'r) redland_model \<Rightarrow> ('t, 'w, 'x, 'i, 'r) redland_model option" where
  "qr_delete t i st = do { st \<leftarrow> qr_close t i st; Some (st\<lparr>result_its := (result_its st)(i := None)\<rparr>) }"

section \<open>The end of a model\<close>

text \<open>The loops of the destructor: the position grows while closing takes the element out of the list, so that the elements
  move. A position behind the end never meets it: the loop reads memory that is not there.\<close>

fun close_loop :: "nat \<Rightarrow> (('t, 'w, 'x, 'i, 'r) redland_model \<Rightarrow> nat list) \<Rightarrow>
    (nat \<Rightarrow> ('t, 'w, 'x, 'i, 'r) redland_model \<Rightarrow> ('t, 'w, 'x, 'i, 'r) redland_model option) \<Rightarrow> nat \<Rightarrow> ('t, 'w, 'x, 'i, 'r) redland_model \<Rightarrow>
    ('t, 'w, 'x, 'i, 'r) redland_model option" where
  "close_loop 0 list close p st = (if p = length (list st) then Some st else None)"
| "close_loop (Suc n) list close p st =
     (if p = length (list st) then Some st
      else if p > length (list st) then None
      else do { st \<leftarrow> close (list st ! p) st; close_loop n list close (Suc p) st })"

definition delete_model :: "'t \<Rightarrow> ('t, 'w, 'x, 'i, 'r) redland_model \<Rightarrow> ('t, 'w, 'x, 'i, 'r) redland_model option" where
  "delete_model t st = do {
     st \<leftarrow> close_loop (length (iterators st)) iterators (si_close t) 0 st;
     st \<leftarrow> close_loop (length (nodeIterators st)) nodeIterators (ni_close t) 0 st;
     close_loop (length (open_results st)) open_results (qr_close t) 0 st }"

end
