(* ===== verification/Redland_Store.thy ===== *)
theory Redland_Store
  imports Redland_Model Sparql_Store
begin

text \<open>
  The redland model against the store of librdf. The locale \<open>librdf_storage\<close> says what librdf owes to the model: what the functions
  on a model do to its statements, each with a context or none, and what its streams show. An in-memory store satisfies it. The
  operations of the model then are operations on a set of statements; each gives back the locks and the objects of librdf it took.
\<close>

section \<open>The contract\<close>

type_synonym 'n quad = "'n option \<times> 'n option \<times> 'n option \<times> 'n option"

definition part_fits :: "'n option \<Rightarrow> 'n option \<Rightarrow> bool" where
  "part_fits p n \<longleftrightarrow> p = None \<or> n = p"

definition triple_fits :: "('w, 'u, 'n, 's, 'x, 'i, 'q, 'r) librdf \<Rightarrow> 's \<Rightarrow> 'n quad \<Rightarrow> bool" where
  "triple_fits L s y \<longleftrightarrow> (case y of (a, b, c, g) \<Rightarrow>
     part_fits (rdf_subject L (Some s)) a \<and> part_fits (rdf_predicate L (Some s)) b \<and> part_fits (rdf_object L (Some s)) c)"

definition quad_context :: "'n quad \<Rightarrow> 'n option" where "quad_context y = (case y of (a, b, c, g) \<Rightarrow> g)"

definition quad_of :: "('w, 'u, 'n, 's, 'x, 'i, 'q, 'r) librdf \<Rightarrow> 's \<Rightarrow> 'n option \<Rightarrow> 'n quad" where
  "quad_of L s g = (rdf_subject L (Some s), rdf_predicate L (Some s), rdf_object L (Some s), g)"

text \<open>A stream over one context need not say it.\<close>

fun stream_quads :: "('w, 'u, 'n, 's, 'x, 'i, 'q, 'r) librdf \<Rightarrow> bool \<Rightarrow> 'x \<Rightarrow> 'n quad list \<Rightarrow> bool" where
  "stream_quads L one x [] \<longleftrightarrow> stream_end L x"
| "stream_quads L one x (y # ys) \<longleftrightarrow> \<not> stream_end L x \<and>
     (\<exists>s. stream_object L x = Some s \<and> quad_of L s (quad_context y) = y) \<and>
     (stream_context L x = quad_context y \<or> (one \<and> stream_context L x = None)) \<and> stream_quads L one (stream_next L x) ys"

text \<open>Nothing is said of adding a statement that is there: redland may then have it twice.\<close>

locale librdf_storage = librdf_nodes L for L :: "('w, 'u, 'n, 's, 'x, 'i, 'q, 'r) librdf" +
  fixes contents :: "'w \<Rightarrow> 'n quad set"
  assumes finds: "\<exists>x w' ys. find_statements L (Some s) w = (Some x, w') \<and> contents w' = contents w \<and> stream_quads L False x ys \<and> distinct ys \<and>
      set ys = {y \<in> contents w. triple_fits L s y}"
    and finds_in_context: "\<exists>x w' ys. find_in_context L (Some s) c w = (Some x, w') \<and> contents w' = contents w \<and> stream_quads L True x ys \<and>
      distinct ys \<and> set ys = {y \<in> contents w. triple_fits L s y \<and> quad_context y = Some c}"
    and streams_context: "\<exists>x w' ys. context_as_stream L c w = (Some x, w') \<and> contents w' = contents w \<and> stream_quads L True x ys \<and> distinct ys \<and>
      set ys = {y \<in> contents w. quad_context y = Some c}"
    and has_context: "\<exists>w'. contains_context L c w = (\<exists>y\<in>contents w. quad_context y = Some c, w') \<and> contents w' = contents w"
    and adds: "quad_of L s None \<notin> contents w \<Longrightarrow> \<exists>w'. add_statement L s w = (0, w') \<and> contents w' = insert (quad_of L s None) (contents w)"
    and context_adds: "quad_of L s (Some c) \<notin> contents w \<Longrightarrow>
      \<exists>w'. context_add_statement L (Some c) s w = (0, w') \<and> contents w' = insert (quad_of L s (Some c)) (contents w)"
    and removes: "quad_of L s None \<in> contents w \<Longrightarrow> \<exists>w'. remove_statement L s w = (0, w') \<and> contents w' = contents w - {quad_of L s None}"
    and context_removes: "quad_of L s (Some c) \<in> contents w \<Longrightarrow>
      \<exists>w'. context_remove_statement L (Some c) s w = (0, w') \<and> contents w' = contents w - {quad_of L s (Some c)}"
    and context_clears: "\<exists>w'. context_remove_statements L (Some c) w = (0, w') \<and> contents w' = {y \<in> contents w. quad_context y \<noteq> Some c}"
    and syncs: "contents (model_sync L w) = contents w"

section \<open>Statements and what librdf keeps of them\<close>

definition rdf_node_of :: "qt \<Rightarrow> ('w, 'u, 'n, 's, 'x, 'i, 'q, 'r) librdf \<Rightarrow> node \<Rightarrow> 'n option" where
  "rdf_node_of q L n = fst (world_createNode q L n (\<lambda>_. 0))"

definition rdf_quad :: "qt \<Rightarrow> ('w, 'u, 'n, 's, 'x, 'i, 'q, 'r) librdf \<Rightarrow> statement \<Rightarrow> 'n quad" where
  "rdf_quad q L s = (rdf_node_of q L (subject s), rdf_node_of q L (predicate s), rdf_node_of q L (object s), rdf_node_of q L (context_node s))"

text \<open>Patterns have parts that librdf keeps, or none; so have statements, but only the context may be missing.\<close>

definition pattern_shown :: "qt \<Rightarrow> statement \<Rightarrow> bool" where
  "pattern_shown q p \<longleftrightarrow> (\<forall>n\<in>{subject p, predicate p, object p, context_node p}. n = EmptyNode \<or> redland_shown q n)"

definition statement_shown :: "qt \<Rightarrow> statement \<Rightarrow> bool" where
  "statement_shown q s \<longleftrightarrow> pattern_shown q s \<and> subject s \<noteq> EmptyNode \<and> predicate s \<noteq> EmptyNode \<and> object s \<noteq> EmptyNode"

definition stored :: "qt \<Rightarrow> ('w, 'u, 'n, 's, 'x, 'i, 'q, 'r) librdf \<Rightarrow> 'n quad set \<Rightarrow> statement set" where
  "stored q L C = {s. statement_shown q s \<and> stmt_isValid s \<and> rdf_quad q L s \<in> C}"

definition all_shown :: "qt \<Rightarrow> ('w, 'u, 'n, 's, 'x, 'i, 'q, 'r) librdf \<Rightarrow> 'n quad set \<Rightarrow> bool" where
  "all_shown q L C \<longleftrightarrow> C \<subseteq> rdf_quad q L ` {s. statement_shown q s \<and> stmt_isValid s}"

definition fits_all :: "statement \<Rightarrow> statement \<Rightarrow> bool" where
  "fits_all p s \<longleftrightarrow> fits (subject p) (subject s) \<and> fits (predicate p) (predicate s) \<and> fits (object p) (object s) \<and> fits (context_node p) (context_node s)"

definition qt_ok :: "qt \<Rightarrow> bool" where
  "qt_ok q \<longleftrightarrow> qt_ascii_ok q \<and> qt_url_ok q \<and> qt_utf8_ok q \<and> qt_date_ok q \<and> qt_base64_ok q"

lemma createNode_fst: "fst (world_createNode q L n l) = rdf_node_of q L n"
  by (simp add: rdf_node_of_def world_createNode_def Let_def)

lemma createNode_ledger:
  "k \<noteq> LibUri \<Longrightarrow> snd (world_createNode q L n l) k = made LibNode (rdf_node_of q L n) l k"
  by (auto simp: rdf_node_of_def world_createNode_def Let_def made_def split: option.splits)

lemma no_node [simp]: "rdf_node_of q L EmptyNode = None"
  by (simp add: rdf_node_of_def world_createNode_def node_test_defs)

lemma no_node_made [simp]: "world_createNode q L EmptyNode l = (None, l)"
  by (simp add: world_createNode_def node_test_defs)

lemma empty_iff [simp]: "node_isEmpty n \<longleftrightarrow> n = EmptyNode" "node_isValid n \<longleftrightarrow> n \<noteq> EmptyNode"
  by (cases n; simp add: node_test_defs)+

context librdf_nodes begin

lemma read_back:
  assumes "qt_ok q" "n = EmptyNode \<or> redland_shown q n"
  shows "world_readNode q L (rdf_node_of q L n) = n" "rdf_node_of q L n = None \<longleftrightarrow> n = EmptyNode"
proof -
  have "n = EmptyNode \<or> (\<exists>r. rdf_node_of q L n = Some r \<and> world_readNode q L (Some r) = n)"
    using shown_node[of q n "\<lambda>_. 0"] assms unfolding qt_ok_def createNode_fst by blast
  moreover have "world_readNode q L None = EmptyNode" by (simp add: world_readNode_def null)
  ultimately show "world_readNode q L (rdf_node_of q L n) = n" "rdf_node_of q L n = None \<longleftrightarrow> n = EmptyNode"
    using assms(2) by auto
qed

lemma node_of_inject:
  assumes "qt_ok q" "n = EmptyNode \<or> redland_shown q n" "m = EmptyNode \<or> redland_shown q m"
  shows "rdf_node_of q L n = rdf_node_of q L m \<longleftrightarrow> n = m"
  by (metis assms read_back(1))

lemma part_fits_node:
  assumes "qt_ok q" "p = EmptyNode \<or> redland_shown q p" "n = EmptyNode \<or> redland_shown q n"
  shows "part_fits (rdf_node_of q L p) (rdf_node_of q L n) \<longleftrightarrow> fits p n"
  using read_back(2)[OF assms(1,2)] node_of_inject[OF assms(1,3,2)] by (auto simp: part_fits_def fits_def)

lemma quad_inject:
  assumes "qt_ok q" "pattern_shown q s" "pattern_shown q s'"
  shows "rdf_quad q L s = rdf_quad q L s' \<longleftrightarrow> s = s'"
proof
  assume "rdf_quad q L s = rdf_quad q L s'"
  then have "subject s = subject s'" "predicate s = predicate s'" "object s = object s'" "context_node s = context_node s'"
    using assms(2,3) by (simp_all add: rdf_quad_def pattern_shown_def node_of_inject[OF assms(1)])
  then show "s = s'" by (intro statement.equality) simp_all
qed simp

text \<open>The statement made for a pattern, and the ledger before and after.\<close>

lemma createStatement_quad:
  "\<exists>r. fst (world_createStatement q L s l) = Some r \<and> (\<forall>c. quad_of L r c = (rdf_node_of q L (subject s), rdf_node_of q L (predicate s), rdf_node_of q L (object s), c)) \<and>
     (\<forall>k. k \<noteq> LibUri \<longrightarrow> snd (world_createStatement q L s l) k = made LibStatement (Some r) l k)"
proof -
  obtain a l1 where 1: "world_createNode q L (subject s) l = (a, l1)" by fastforce
  obtain b l2 where 2: "world_createNode q L (predicate s) l1 = (b, l2)" by fastforce
  obtain c l3 where 3: "world_createNode q L (object s) l2 = (c, l3)" by fastforce
  have nodes: "a = rdf_node_of q L (subject s)" "b = rdf_node_of q L (predicate s)" "c = rdf_node_of q L (object s)"
    using createNode_fst[of q L "subject s" l] createNode_fst[of q L "predicate s" l1] createNode_fst[of q L "object s" l2] 1 2 3 by auto
  have led: "k \<noteq> LibUri \<Longrightarrow> l1 k = made LibNode a l k" "k \<noteq> LibUri \<Longrightarrow> l2 k = made LibNode b l1 k" "k \<noteq> LibUri \<Longrightarrow> l3 k = made LibNode c l2 k" for k
    using createNode_ledger[of k q L "subject s" l] createNode_ledger[of k q L "predicate s" l1] createNode_ledger[of k q L "object s" l2] 1 2 3 nodes by auto
  obtain r where r: "statement_from_nodes L a b c = Some r" "rdf_subject L (Some r) = a" "rdf_predicate L (Some r) = b" "rdf_object L (Some r) = c"
    using statement by blast
  have "world_createStatement q L s l = (Some r, made LibStatement (Some r) (freed LibNode c (freed LibNode b (freed LibNode a l3))))"
    by (simp add: world_createStatement_def 1 2 3 r Let_def)
  moreover have "k \<noteq> LibUri \<Longrightarrow> freed LibNode c (freed LibNode b (freed LibNode a l3)) k = l k" for k
    using led[of k] by (auto simp: made_def freed_def split: option.splits)
  ultimately show ?thesis using r nodes by (auto simp: quad_of_def made_def)
qed

end


section \<open>Searching\<close>

context librdf_nodes begin

lemma stream_statement_of:
  assumes "qt_ok q" "statement_shown q s" "stream_object L x = Some r" "quad_of L r (rdf_node_of q L (context_node s)) = rdf_quad q L s"
    "stream_context L x = rdf_node_of q L (context_node s) \<or> (one \<and> stream_context L x = None)"
    "if one then f = context_node s \<and> f \<noteq> EmptyNode else f = EmptyNode"
  shows "stream_statement q L f x = s"
proof -
  have p: "world_readNode q L (rdf_node_of q L n) = n" if "n \<in> {subject s, predicate s, object s, context_node s}" for n
    using read_back(1)[OF assms(1), of n] assms(2) that unfolding statement_shown_def pattern_shown_def by blast
  have parts: "rdf_subject L (Some r) = rdf_node_of q L (subject s)" "rdf_predicate L (Some r) = rdf_node_of q L (predicate s)"
      "rdf_object L (Some r) = rdf_node_of q L (object s)"
    using assms(4) by (simp_all add: quad_of_def rdf_quad_def)
  have copy: "world_readStatement q L (Some r) = mk_statement (subject s) (predicate s) (object s) EmptyNode"
    by (simp add: world_readStatement_def parts p)
  have set: "setContext (context_node s) (mk_statement (subject s) (predicate s) (object s) EmptyNode) = s"
    by (simp add: mk_statement_def setContext_def)
  show ?thesis
  proof (cases "stream_context L x")
    case (Some c)
    then have "rdf_node_of q L (context_node s) = Some c" using assms(5) by auto
    then have "world_readNode q L (Some c) = context_node s" using p[of "context_node s"] by simp
    then show ?thesis using assms(3) Some by (simp add: stream_statement_def copy set)
  next
    case None
    have "rdf_node_of q L (context_node s) = None \<longleftrightarrow> context_node s = EmptyNode"
      using read_back(2)[OF assms(1), of "context_node s"] assms(2) by (simp add: statement_shown_def pattern_shown_def)
    then have "context_node s = EmptyNode \<or> one" using None assms(5) by auto
    then show ?thesis using assms(3,6) None set by (auto simp: stream_statement_def copy setContext_def mk_statement_def split: if_splits)
  qed
qed

lemma stream_shows_quads:
  assumes "qt_ok q" "\<forall>s\<in>set ss. statement_shown q s \<and> (if one then f = context_node s \<and> f \<noteq> EmptyNode else f = EmptyNode)"
    "stream_quads L one x (map (rdf_quad q L) ss)"
  shows "stream_shows q L f x ss"
  using assms(2,3)
proof (induction ss arbitrary: x)
  case (Cons s ss)
  have c: "quad_context (rdf_quad q L s) = rdf_node_of q L (context_node s)" by (simp add: quad_context_def rdf_quad_def)
  obtain r where "stream_object L x = Some r" "quad_of L r (rdf_node_of q L (context_node s)) = rdf_quad q L s"
    "stream_context L x = rdf_node_of q L (context_node s) \<or> (one \<and> stream_context L x = None)"
    using Cons.prems(2) unfolding list.map stream_quads.simps c by blast
  then have "stream_statement q L f x = s" using stream_statement_of[OF assms(1)] Cons.prems(1) by (meson list.set_intros(1))
  moreover have "stream_shows q L f (stream_next L x) ss" using Cons.prems by (intro Cons.IH) auto
  ultimately show ?case using Cons.prems(2) by simp
qed simp

lemma shown_statements:
  assumes "qt_ok q" "all_shown q L C" "set ys \<subseteq> C" "distinct ys"
  obtains ss where "ys = map (rdf_quad q L) ss" "distinct ss" "\<forall>s\<in>set ss. statement_shown q s \<and> stmt_isValid s"
proof -
  have "\<exists>s. statement_shown q s \<and> stmt_isValid s \<and> rdf_quad q L s = y" if "y \<in> set ys" for y
    using that assms(2,3) unfolding all_shown_def by blast
  then obtain g where g: "\<And>y. y \<in> set ys \<Longrightarrow> statement_shown q (g y) \<and> stmt_isValid (g y) \<and> rdf_quad q L (g y) = y" by metis
  have "ys = map (rdf_quad q L) (map g ys)" using g by (simp add: map_idI o_def)
  moreover have "distinct (map g ys)" using assms(4) g by (metis distinct_map inj_onI)
  moreover have "\<forall>s\<in>set (map g ys). statement_shown q s \<and> stmt_isValid s" using g by simp
  ultimately show ?thesis by (rule that)
qed

lemma triple_fits_statement:
  assumes "qt_ok q" "pattern_shown q p" "pattern_shown q s"
    and "\<forall>c. quad_of L r c = (rdf_node_of q L (subject p), rdf_node_of q L (predicate p), rdf_node_of q L (object p), c)"
  shows "triple_fits L r (rdf_quad q L s) \<longleftrightarrow> fits (subject p) (subject s) \<and> fits (predicate p) (predicate s) \<and> fits (object p) (object s)"
    "part_fits (rdf_node_of q L (context_node p)) (quad_context (rdf_quad q L s)) \<longleftrightarrow> fits (context_node p) (context_node s)"
  using assms(2-4) by (simp_all add: triple_fits_def rdf_quad_def quad_of_def quad_context_def pattern_shown_def part_fits_node[OF assms(1)])

end

context librdf_storage begin

text \<open>The three ways to search are one: the statements that fit, in the context that is asked for.\<close>

lemma find_quads:
  shows "\<exists>x w' ys. redlandFind L (Some r) ctx w = (Some x, w') \<and> contents w' = contents w \<and> stream_quads L (ctx \<noteq> None) x ys \<and> distinct ys \<and>
    set ys = {y \<in> contents w. triple_fits L r y \<and> part_fits ctx (quad_context y)}"
proof (cases ctx)
  case None
  then show ?thesis using finds[of r w] by (auto simp: redlandFind_def part_fits_def)
next
  case (Some c)
  show ?thesis
  proof (cases "isRedlandStatementEmpty L (Some r)")
    case True
    then have "triple_fits L r y" for y by (simp add: triple_fits_def isRedlandStatementEmpty_def part_fits_def split: prod.split)
    then show ?thesis using streams_context[of c w] Some True by (auto simp: redlandFind_def part_fits_def)
  next
    case False
    then show ?thesis using finds_in_context[of r c w] Some by (auto simp: redlandFind_def part_fits_def)
  qed
qed

lemma find_pattern:
  assumes "qt_ok q" "all_shown q L (contents w)" "pattern_shown q p"
  shows "\<exists>x w' ss. redlandFind L (fst (world_createStatement q L p l)) (rdf_node_of q L (context_node p)) w = (Some x, w') \<and> contents w' = contents w \<and>
    stream_shows q L (context_node p) x ss \<and> distinct ss \<and> set ss = {s \<in> stored q L (contents w). fits_all p s}"
proof -
  let ?ctx = "rdf_node_of q L (context_node p)"
  obtain r where r: "fst (world_createStatement q L p l) = Some r"
      "\<forall>c. quad_of L r c = (rdf_node_of q L (subject p), rdf_node_of q L (predicate p), rdf_node_of q L (object p), c)"
    using createStatement_quad by blast
  obtain x w' ys where f: "redlandFind L (Some r) ?ctx w = (Some x, w')" "contents w' = contents w" "stream_quads L (?ctx \<noteq> None) x ys" "distinct ys"
      "set ys = {y \<in> contents w. triple_fits L r y \<and> part_fits ?ctx (quad_context y)}"
    using find_quads by blast
  have "set ys \<subseteq> contents w" using f(5) by blast
  from shown_statements[OF assms(1,2) this f(4)] obtain ss where
    ss: "ys = map (rdf_quad q L) ss" "distinct ss" "\<forall>s\<in>set ss. statement_shown q s \<and> stmt_isValid s" by blast
  have fit: "triple_fits L r (rdf_quad q L s) \<and> part_fits ?ctx (quad_context (rdf_quad q L s)) \<longleftrightarrow> fits_all p s" if "statement_shown q s" for s
    using triple_fits_statement[OF assms(1,3) _ r(2), of s] that by (auto simp: statement_shown_def fits_all_def)
  have set: "set ss = {s \<in> stored q L (contents w). fits_all p s}"
  proof (intro set_eqI iffI)
    fix s assume s: "s \<in> set ss"
    then have "rdf_quad q L s \<in> set ys" using ss(1) by simp
    then show "s \<in> {s \<in> stored q L (contents w). fits_all p s}" using s ss(3) f(5) fit[of s] by (simp add: stored_def)
  next
    fix s assume s: "s \<in> {s \<in> stored q L (contents w). fits_all p s}"
    then have "rdf_quad q L s \<in> set ys" using f(5) fit[of s] by (simp add: stored_def)
    then obtain s' where "s' \<in> set ss" "rdf_quad q L s' = rdf_quad q L s" using ss(1) by auto
    then show "s \<in> set ss" using quad_inject[OF assms(1), of s' s] ss(3) s by (auto simp: stored_def statement_shown_def)
  qed
  have ctx: "?ctx = None \<longleftrightarrow> context_node p = EmptyNode" using read_back(2)[OF assms(1)] assms(3) by (simp add: pattern_shown_def)
  have "\<forall>s\<in>set ss. statement_shown q s \<and> (if ?ctx \<noteq> None then context_node p = context_node s \<and> context_node p \<noteq> EmptyNode else context_node p = EmptyNode)"
    using set ss(3) ctx by (auto simp: fits_all_def fits_def)
  from stream_shows_quads[OF assms(1) this] f(3) ss(1) have "stream_shows q L (context_node p) x ss" by simp
  then show ?thesis using f(1,2) r(1) ss(2) set by auto
qed

lemma contains_pattern:
  assumes "qt_ok q" "all_shown q L (contents w)" "pattern_shown q p"
  shows "\<exists>w'. redlandContains L (fst (world_createStatement q L p l)) (rdf_node_of q L (context_node p)) w =
      (if \<exists>s\<in>stored q L (contents w). fits_all p s then 1 else 0, w') \<and> contents w' = contents w"
proof -
  let ?ctx = "rdf_node_of q L (context_node p)" and ?r = "fst (world_createStatement q L p l)"
  obtain x w' ss where f: "redlandFind L ?r ?ctx w = (Some x, w')" "contents w' = contents w" "stream_shows q L (context_node p) x ss"
      "set ss = {s \<in> stored q L (contents w). fits_all p s}"
    using find_pattern[OF assms] by blast
  have e: "stream_end L x \<longleftrightarrow> \<not> (\<exists>s\<in>stored q L (contents w). fits_all p s)"
    using f(3,4) by (cases ss) auto
  show ?thesis
  proof (cases "?ctx = None \<or> \<not> isRedlandStatementEmpty L ?r")
    case True
    then show ?thesis using f(1,2) e by (auto simp: redlandContains_def split: option.split)
  next
    case False
    then obtain c where c: "?ctx = Some c" "isRedlandStatementEmpty L ?r" by (cases ?ctx) auto
    obtain r where r: "?r = Some r"
        "\<forall>c. quad_of L r c = (rdf_node_of q L (subject p), rdf_node_of q L (predicate p), rdf_node_of q L (object p), c)"
      using createStatement_quad by blast
    have "quad_of L r None = (None, None, None, None)" using c(2) r(1) by (simp add: quad_of_def isRedlandStatementEmpty_def)
    then have p: "subject p = EmptyNode" "predicate p = EmptyNode" "object p = EmptyNode"
      using r(2) read_back(2)[OF assms(1)] assms(3) by (simp_all add: pattern_shown_def)
    have q: "quad_context (rdf_quad q L s) = Some c \<longleftrightarrow> fits_all p s" if "statement_shown q s" for s
      using triple_fits_statement(2)[OF assms(1,3) _ r(2), of s] that c(1) p
      by (auto simp: statement_shown_def fits_all_def fits_def part_fits_def)
    have "(\<exists>y\<in>contents w. quad_context y = Some c) \<longleftrightarrow> (\<exists>s\<in>stored q L (contents w). fits_all p s)"
      using assms(2) q by (fastforce simp: all_shown_def stored_def)
    then show ?thesis using has_context[of c w] c by (auto simp: redlandContains_def)
  qed
qed

end


section \<open>Listing and asking\<close>

text \<open>What an operation leaves as it was: the lock, the open iterators, and the objects of librdf but for URIs.\<close>

definition kept_outside :: "('t, 'w, 'x, 'i, 'r) redland_model \<Rightarrow> ('t, 'w, 'x, 'i, 'r) redland_model \<Rightarrow> bool" where
  "kept_outside st st' \<longleftrightarrow> readWriteLock st' = readWriteLock st \<and> iterators st' = iterators st \<and> nodeIterators st' = nodeIterators st \<and>
     open_results st' = open_results st \<and> statement_its st' = statement_its st \<and> node_its st' = node_its st \<and> result_its st' = result_its st \<and>
     (\<forall>k. k \<noteq> LibUri \<longrightarrow> live st' k = live st k) \<and> next_object st \<le> next_object st'"

definition fresh_objects :: "('t, 'w, 'x, 'i, 'r) redland_model \<Rightarrow> bool" where
  "fresh_objects st \<longleftrightarrow> (\<forall>i. next_object st \<le> i \<longrightarrow> statement_its st i = None \<and> i \<notin> set (iterators st))"

lemma kept_fresh: "kept_outside st st' \<Longrightarrow> fresh_objects st \<Longrightarrow> fresh_objects st'"
  by (auto simp: kept_outside_def fresh_objects_def)

lemma kept_trans: "kept_outside st st' \<Longrightarrow> kept_outside st' st'' \<Longrightarrow> kept_outside st st''"
  by (auto simp: kept_outside_def)

text \<open>A search frees what it made, but for the stream.\<close>

lemma find_ledger:
  assumes "redlandFindStatements q L p st = (x, st')" "k \<noteq> LibUri" "librdf_nodes L"
  shows "live st' k = made LibStream x (live st) k"
proof -
  obtain ctx l1 where 1: "world_createNode q L (context_node p) (live st) = (ctx, l1)" by fastforce
  obtain rs l2 where 2: "world_createStatement q L p l1 = (rs, l2)" by fastforce
  have "l1 k = made LibNode ctx (live st) k"
    using createNode_ledger[OF assms(2), of q L "context_node p" "live st"] createNode_fst[of q L "context_node p" "live st"] 1 by simp
  moreover have "l2 k = made LibStatement rs l1 k"
    using librdf_nodes.createStatement_quad[OF assms(3), of q p l1] assms(2) 2 by auto
  moreover have "live st' k = freed LibStatement rs (freed LibNode ctx (made LibStream x l2)) k"
    using assms(1) by (auto simp: redlandFindStatements_def 1 2 split: prod.splits)
  ultimately show ?thesis by (auto simp: made_def freed_def split: option.splits)
qed

lemma find_equal_list:
  assumes "si_at t q L f i st0 b h xs"
  shows "\<exists>b' e'. find_equal (redland_statements t q L) q s (Some b, e) = Some (list_ex (\<lambda>x. stmt_eq q x s) xs, (Some b', e')) \<and>
    (si_closed t i st0 b' \<or> (\<exists>x ys. si_at t q L f i st0 b' (Some x) ys))"
  using assms
proof (induction xs arbitrary: b h e)
  case Nil
  then show ?case using redland_listing.front_last[of t q L f i st0 b h e] by (subst find_equal.simps) auto
next
  case (Cons x xs)
  obtain b1 e1 where 1: "it_next (redland_statements t q L) (Some b, e) = Some (True, (Some b1, e1))" "si_at t q L f i st0 b1 (Some x) xs"
    using redland_listing.front_more[OF Cons.prems, of e] by blast
  obtain b2 e2 where 2: "it_current (redland_statements t q L) empty_statement (Some b1, e1) = Some (x, (Some b2, e2))" "si_at t q L f i st0 b2 (Some x) xs"
    using redland_listing.front_here[OF 1(2)] by blast
  show ?case
  proof (cases "stmt_eq q x s")
    case True
    then show ?thesis using 2(2) by (subst find_equal.simps) (auto simp: 1(1) 2(1))
  next
    case False
    then show ?thesis using Cons.IH[OF 2(2), of e2] by (subst find_equal.simps) (simp add: 1(1) 2(1))
  qed
qed

context librdf_storage begin

lemma open_iterator:
  assumes "qt_ok q" "lock_idle m" "readWriteLock st = read_by t n m" "all_shown q L (contents (rm_world st))" "fresh_objects st" "pattern_shown q p"
  shows "\<exists>i it st0 ss. rm_listStatements t q L p st = Some (Some i, with_iterator i it st0) \<and>
    si_at t q L (context_node p) i st0 (i, with_iterator i it st0) None ss \<and> distinct ss \<and>
    set ss = {s \<in> stored q L (contents (rm_world st)). fits_all p s} \<and> contents (rm_world st0) = contents (rm_world st) \<and>
    kept_outside st (without_iterator t i st0) \<and> rm_signals st0 = rm_signals st \<and> statement_its st0 i = None"
proof -
  let ?st1 = "rm_clearError t (st\<lparr>readWriteLock := read_by t (Suc n) m\<rparr>)"
  obtain ctx l1 where 1: "world_createNode q L (context_node p) (live st) = (ctx, l1)" by fastforce
  obtain rs l2 where 2: "world_createStatement q L p l1 = (rs, l2)" by fastforce
  have ctx: "ctx = rdf_node_of q L (context_node p)" using createNode_fst[of q L "context_node p" "live st"] 1 by simp
  obtain x w' ss where f: "redlandFind L rs ctx (rm_world st) = (Some x, w')" "contents w' = contents (rm_world st)"
      "stream_shows q L (context_node p) x ss" "distinct ss" "set ss = {s \<in> stored q L (contents (rm_world st)). fits_all p s}"
    using find_pattern[OF assms(1,4,6), of l1] unfolding ctx[symmetric] 2 fst_conv by blast
  let ?st2 = "?st1\<lparr>rm_world := w', live := freed LibStatement rs (freed LibNode ctx (made LibStream (Some x) l2))\<rparr>"
  have find: "redlandFindStatements q L p ?st1 = (Some x, ?st2)"
    by (simp add: redlandFindStatements_def rm_clearError_def 1 2 f(1))
  let ?i = "next_object st"
  let ?st0 = "?st2\<lparr>iterators := iterators st @ [?i], next_object := Suc ?i\<rparr>"
  let ?it = "\<lparr> si_model = True, m_stream = Some x, m_forceContext = context_node p, m_initialized = False, si_error = NoError \<rparr>"
  have open': "rm_listStatements t q L p st = Some (Some ?i, with_iterator ?i ?it ?st0)"
    using assms(2,3) find by (simp add: rm_listStatements_def rm_lockForRead_def with_iterator_def rm_clearError_def Let_def)
  have un: "multi_unlock t (readWriteLock ?st0) = Some (read_by t n m)" using assms(2) by (simp add: rm_clearError_def)
  have at: "si_at t q L (context_node p) ?i ?st0 (?i, with_iterator ?i ?it ?st0) None ss"
    unfolding si_at_def using un f(3) by (intro conjI exI[of _ ?it] exI[of _ x]) auto
  have "live ?st2 k = made LibStream (Some x) (live st) k" if "k \<noteq> LibUri" for k
    using find_ledger[OF find that librdf_nodes_axioms] by (simp add: rm_clearError_def)
  then have "kept_outside st (without_iterator t ?i ?st0)"
    using un assms(3,5) by (auto simp: kept_outside_def without_iterator_def rm_clearError_def made_def fresh_objects_def)
  moreover have "statement_its ?st0 ?i = None" using assms(5) by (simp add: fresh_objects_def rm_clearError_def)
  ultimately show ?thesis using open' at f(2,4,5) by (intro exI[of _ ?i] exI[of _ ?it] exI[of _ ?st0] exI[of _ ss]) (auto simp: rm_clearError_def)
qed

lemma delete_closed:
  assumes "si_closed t i st0 b \<or> (\<exists>s ys. si_at t q L f i st0 b (Some s) ys)" "statement_its st0 i = None"
  shows "fst b = i \<and> si_delete t i (snd b) = Some (without_iterator t i st0)"
proof -
  have u: "(without_iterator t i st0)\<lparr>statement_its := (statement_its (without_iterator t i st0))(i := None)\<rparr> = without_iterator t i st0"
    using assms(2) by (simp add: without_iterator_def fun_upd_idem)
  have w: "(with_iterator i it (without_iterator t i st0))\<lparr>statement_its := (statement_its (with_iterator i it (without_iterator t i st0)))(i := None)\<rparr> =
      without_iterator t i st0" for it
    using u by (simp add: with_iterator_def)
  from assms(1) show ?thesis
  proof
    assume "si_closed t i st0 b"
    then obtain it where "b = (i, with_iterator i it (without_iterator t i st0))" "\<not> si_model it" "m_stream it = None"
      by (auto simp: si_closed_def)
    then show ?thesis by (simp add: si_delete_def close_again w)
  next
    assume "\<exists>s ys. si_at t q L f i st0 b (Some s) ys"
    then obtain it x where "b = (i, with_iterator i it st0)" "si_model it" "m_stream it = Some x" "multi_unlock t (readWriteLock st0) \<noteq> None"
      by (auto simp: si_at_def)
    then show ?thesis by (simp add: si_delete_def close_open w)
  qed
qed

lemma list_statements:
  assumes "qt_ok q" "lock_idle m" "readWriteLock st = read_by t n m" "all_shown q L (contents (rm_world st))" "fresh_objects st" "pattern_shown q p"
  shows "\<exists>ss st'. rm_allStatements t q L p st = Some (ss, st') \<and> distinct ss \<and> set ss = {s \<in> stored q L (contents (rm_world st)). fits_all p s} \<and>
    contents (rm_world st') = contents (rm_world st) \<and> kept_outside st st' \<and> rm_signals st' = rm_signals st"
proof -
  obtain i it st0 ss where o: "rm_listStatements t q L p st = Some (Some i, with_iterator i it st0)"
      "si_at t q L (context_node p) i st0 (i, with_iterator i it st0) None ss" "distinct ss"
      "set ss = {s \<in> stored q L (contents (rm_world st)). fits_all p s}" "contents (rm_world st0) = contents (rm_world st)"
      "kept_outside st (without_iterator t i st0)" "rm_signals st0 = rm_signals st" "statement_its st0 i = None"
    using open_iterator[OF assms] by blast
  obtain b e where a: "allElements (redland_statements t q L) empty_statement (Some (i, with_iterator i it st0), NoError) = Some (ss, (Some b, e))"
      "si_closed t i st0 b"
    using redland_listing.all_elements[OF o(2)] by blast
  have "fst b = i \<and> si_delete t i (snd b) = Some (without_iterator t i st0)" using delete_closed[of t i st0 b q] a(2) o(8) by blast
  then have "rm_allStatements t q L p st = Some (ss, without_iterator t i st0)"
    using o(1) a(1) by (cases b) (simp add: rm_allStatements_def new_iterator_def)
  then show ?thesis using o(3-7) by (auto simp: without_iterator_def)
qed

end


section \<open>Adding and removing\<close>

lemma stored_insert:
  assumes "librdf_nodes L" "qt_ok q" "statement_shown q s" "stmt_isValid s"
  shows "stored q L (insert (rdf_quad q L s) C) = insert s (stored q L C)" "stored q L (C - {rdf_quad q L s}) = stored q L C - {s}"
  using librdf_nodes.quad_inject[OF assms(1,2), of _ s] assms(3,4) by (auto simp: stored_def statement_shown_def)

lemma all_shown_insert:
  "statement_shown q s \<Longrightarrow> stmt_isValid s \<Longrightarrow> all_shown q L C \<Longrightarrow> all_shown q L (insert (rdf_quad q L s) C)"
  "all_shown q L C \<Longrightarrow> all_shown q L (C - D)"
  by (auto simp: all_shown_def)

context librdf_storage begin

lemma redland_contains_any:
  assumes "qt_ok q" "lock_idle m" "readWriteLock st = read_by t n m" "all_shown q L (contents (rm_world st))" "pattern_shown q p"
  shows "\<exists>st'. redlandContainsStatement q L p st = (if \<exists>s\<in>stored q L (contents (rm_world st)). fits_all p s then 1 else 0, st') \<and>
    contents (rm_world st') = contents (rm_world st) \<and> kept_outside st st' \<and> rm_signals st' = rm_signals st"
proof -
  obtain rs l1 where 1: "world_createStatement q L p (live st) = (rs, l1)" by fastforce
  obtain c l2 where 2: "(if node_isValid (context_node p) then world_createNode q L (context_node p) l1 else (None, l1)) = (c, l2)" by fastforce
  have c: "c = rdf_node_of q L (context_node p)" "k \<noteq> LibUri \<Longrightarrow> l2 k = made LibNode c l1 k" for k
    using 2 createNode_fst[of q L "context_node p" l1] createNode_ledger[of k q L "context_node p" l1] by (auto simp: made_def split: if_splits)
  have l1: "k \<noteq> LibUri \<Longrightarrow> l1 k = made LibStatement rs (live st) k" for k
    using createStatement_quad[of q p "live st"] 1 by auto
  obtain w' where w: "redlandContains L rs c (rm_world st) = (if \<exists>s\<in>stored q L (contents (rm_world st)). fits_all p s then 1 else 0, w')"
      "contents w' = contents (rm_world st)"
    using contains_pattern[OF assms(1,4,5), of "live st"] unfolding c(1)[symmetric] 1 fst_conv by blast
  let ?st' = "st\<lparr>rm_world := w', live := freed LibNode c (freed LibStatement rs l2)\<rparr>"
  have "freed LibNode c (freed LibStatement rs l2) k = live st k" if "k \<noteq> LibUri" for k
    using c(2)[OF that] l1[OF that] by (auto simp: made_def freed_def split: option.splits)
  then have "kept_outside st ?st'" by (simp add: kept_outside_def)
  moreover have "redlandContainsStatement q L p st = (if \<exists>s\<in>stored q L (contents (rm_world st)). fits_all p s then 1 else 0, ?st')"
    unfolding redlandContainsStatement_def 1 prod.case 2 w(1) by simp
  ultimately show ?thesis using w(2) by (intro exI[of _ ?st']) simp
qed

lemma locked_answer:
  assumes "lock_idle m" "readWriteLock st = read_by t n m" "kept_outside (st\<lparr>readWriteLock := read_by t (Suc n) m\<rparr>) st1"
  shows "\<exists>st2. rm_unlock t st1 = Some st2 \<and> rm_unlock t (rm_clearError t st1) = Some (rm_clearError t st2) \<and> kept_outside st st2 \<and>
    rm_world st2 = rm_world st1 \<and> rm_signals st2 = rm_signals st1"
  using assms by (auto simp: rm_unlock_def rm_clearError_def kept_outside_def)

lemma containsAny_statement:
  assumes "qt_ok q" "lock_idle m" "readWriteLock st = read_by t n m" "all_shown q L (contents (rm_world st))" "pattern_shown q p"
  shows "\<exists>st'. rm_containsAnyStatement t q L p st = Some (\<exists>s\<in>stored q L (contents (rm_world st)). fits_all p s, st') \<and>
    contents (rm_world st') = contents (rm_world st) \<and> kept_outside st st' \<and> rm_signals st' = rm_signals st"
proof -
  let ?st = "st\<lparr>readWriteLock := read_by t (Suc n) m\<rparr>"
  obtain st1 where c: "redlandContainsStatement q L p ?st = (if \<exists>s\<in>stored q L (contents (rm_world st)). fits_all p s then 1 else 0, st1)"
      "contents (rm_world st1) = contents (rm_world st)" "kept_outside ?st st1" "rm_signals st1 = rm_signals st"
    using redland_contains_any[OF assms(1,2) _ _ assms(5), of ?st t "Suc n"] assms(4) by auto
  obtain st2 where u: "rm_unlock t (rm_clearError t st1) = Some (rm_clearError t st2)" "kept_outside st st2" "rm_world st2 = rm_world st1"
      "rm_signals st2 = rm_signals st1"
    using locked_answer[OF assms(2,3) c(3)] by blast
  have "rm_containsAnyStatement t q L p st = Some (\<exists>s\<in>stored q L (contents (rm_world st)). fits_all p s, rm_clearError t st2)"
    using assms(2,3) c(1) u(1) by (auto simp: rm_containsAnyStatement_def rm_lockForRead_def contains_answer_def)
  then show ?thesis using c u by (auto simp: kept_outside_def rm_clearError_def)
qed

lemma storage_contains:
  assumes "qt_ok q" "lock_idle m" "readWriteLock st = read_by t n m" "all_shown q L (contents (rm_world st))" "fresh_objects st"
    "statement_shown q s" "stmt_isValid s" "context_node s = EmptyNode" "stmt_eq q s s"
  shows "\<exists>st'. storage_containsStatement t q L s st = Some (s \<in> stored q L (contents (rm_world st)), st') \<and>
    contents (rm_world st') = contents (rm_world st) \<and> kept_outside st st' \<and> rm_signals st' = rm_signals st"
proof -
  have p: "pattern_shown q s" using assms(6) by (simp add: statement_shown_def)
  obtain i it st0 ss where o: "rm_listStatements t q L s st = Some (Some i, with_iterator i it st0)"
      "si_at t q L (context_node s) i st0 (i, with_iterator i it st0) None ss" "distinct ss"
      "set ss = {x \<in> stored q L (contents (rm_world st)). fits_all s x}" "contents (rm_world st0) = contents (rm_world st)"
      "kept_outside st (without_iterator t i st0)" "rm_signals st0 = rm_signals st" "statement_its st0 i = None"
    using open_iterator[OF assms(1-5) p] by blast
  obtain b e where a: "find_equal (redland_statements t q L) q s (Some (i, with_iterator i it st0), NoError) = Some (list_ex (\<lambda>x. stmt_eq q x s) ss, (Some b, e))"
      "si_closed t i st0 b \<or> (\<exists>x ys. si_at t q L (context_node s) i st0 b (Some x) ys)"
    using find_equal_list[OF o(2)] by blast
  have d: "fst b = i \<and> si_delete t i (snd b) = Some (without_iterator t i st0)" using delete_closed[OF a(2) o(8)] .
  have eq: "x = s" if "fits_all s x" "stmt_eq q x s" for x
  proof -
    have "context_node x = context_node s" using that(2) assms(8) by (simp add: stmt_eq_def)
    then show ?thesis using that(1) assms(6) by (intro statement.equality) (simp_all add: fits_all_def fits_def statement_shown_def)
  qed
  have self: "fits_all s s" by (simp add: fits_all_def fits_def)
  have "list_ex (\<lambda>x. stmt_eq q x s) ss \<longleftrightarrow> s \<in> stored q L (contents (rm_world st))"
    using eq o(4) self assms(9) by (auto simp: list_ex_iff)
  then have "storage_containsStatement t q L s st = Some (s \<in> stored q L (contents (rm_world st)), without_iterator t i st0)"
    using o(1) a(1) d assms(7) by (cases b) (simp add: storage_containsStatement_def new_iterator_def)
  then show ?thesis using o(5-7) by (auto simp: without_iterator_def)
qed

lemma contains_statement:
  assumes "qt_ok q" "lock_idle m" "readWriteLock st = read_by t n m" "all_shown q L (contents (rm_world st))" "fresh_objects st"
    "statement_shown q s" "stmt_isValid s" "stmt_eq q s s"
  shows "\<exists>st'. rm_containsStatement t q L s st = Some (s \<in> stored q L (contents (rm_world st)), st') \<and>
    contents (rm_world st') = contents (rm_world st) \<and> kept_outside st st' \<and> rm_signals st' = rm_signals st"
proof -
  let ?st = "st\<lparr>readWriteLock := read_by t (Suc n) m\<rparr>"
  have lock: "rm_lockForRead t st = Some ?st" using assms(2,3) by (simp add: rm_lockForRead_def)
  have f: "fresh_objects ?st" using assms(5) by (simp add: fresh_objects_def)
  show ?thesis
  proof (cases "context_node s = EmptyNode")
    case True
    obtain st1 where c: "storage_containsStatement t q L s ?st = Some (s \<in> stored q L (contents (rm_world st)), st1)"
        "contents (rm_world st1) = contents (rm_world st)" "kept_outside ?st st1" "rm_signals st1 = rm_signals st"
      using storage_contains[OF assms(1,2) _ _ f assms(6,7) True assms(8), of t "Suc n"] assms(4) by auto
    obtain st2 where u: "rm_unlock t st1 = Some st2" "kept_outside st st2" "rm_world st2 = rm_world st1" "rm_signals st2 = rm_signals st1"
      using locked_answer[OF assms(2,3) c(3)] by blast
    show ?thesis using True assms(7) lock c u by (simp add: rm_containsStatement_def)
  next
    case False
    have any: "(\<exists>x\<in>stored q L (contents (rm_world st)). fits_all s x) \<longleftrightarrow> s \<in> stored q L (contents (rm_world st))"
    proof
      assume "\<exists>x\<in>stored q L (contents (rm_world st)). fits_all s x"
      then obtain x where "x \<in> stored q L (contents (rm_world st))" "fits_all s x" by blast
      moreover have "x = s" using calculation(2) assms(6) False
        by (intro statement.equality) (simp_all add: fits_all_def fits_def statement_shown_def)
      ultimately show "s \<in> stored q L (contents (rm_world st))" by simp
    qed (auto simp: fits_all_def fits_def)
    have "pattern_shown q s" using assms(6) by (simp add: statement_shown_def)
    then obtain st1 where c: "redlandContainsStatement q L s ?st = (if s \<in> stored q L (contents (rm_world st)) then 1 else 0, st1)"
        "contents (rm_world st1) = contents (rm_world st)" "kept_outside ?st st1" "rm_signals st1 = rm_signals st"
      using redland_contains_any[OF assms(1,2), of ?st t "Suc n" s] assms(4) any by auto
    obtain st2 where u: "rm_unlock t (rm_clearError t st1) = Some (rm_clearError t st2)" "kept_outside st st2" "rm_world st2 = rm_world st1"
        "rm_signals st2 = rm_signals st1"
      using locked_answer[OF assms(2,3) c(3)] by blast
    have "rm_containsStatement t q L s st = Some (s \<in> stored q L (contents (rm_world st)), rm_clearError t st2)"
      using False assms(7) lock c(1) u(1) by (simp add: rm_containsStatement_def contains_answer_def)
    then show ?thesis using c u by (auto simp: kept_outside_def rm_clearError_def)
  qed
qed

end


context librdf_storage begin

lemma writing_lock:
  fixes st :: "('t, 'w, 'x, 'i, 'r) redland_model"
  assumes "lock_idle m" "readWriteLock st = m"
  obtains m' where "rm_lockForWrite t st = Some (st\<lparr>readWriteLock := m'\<rparr>)"
    "\<And>st'::('t, 'w, 'x, 'i, 'r) redland_model. readWriteLock st' = m' \<Longrightarrow> rm_unlock t st' = Some (st'\<lparr>readWriteLock := m\<rparr>)"
proof -
  obtain m' where "multi_lockForWrite t m = Some m'" "multi_unlock t m' = Some m" using lock_write_unlock[OF assms(1), of t] by blast
  then show ?thesis using assms(2) by (intro that[of m']) (simp_all add: rm_lockForWrite_def rm_unlock_def)
qed

lemma statement_quad:
  assumes "qt_ok q" "statement_shown q s" "\<forall>c. quad_of L r c = (rdf_node_of q L (subject s), rdf_node_of q L (predicate s), rdf_node_of q L (object s), c)"
  shows "rdf_subject L (Some r) \<noteq> None \<and> rdf_predicate L (Some r) \<noteq> None \<and> rdf_object L (Some r) \<noteq> None"
    "quad_of L r (rdf_node_of q L (context_node s)) = rdf_quad q L s"
    "rdf_node_of q L (context_node s) = None \<longleftrightarrow> context_node s = EmptyNode"
proof -
  have "quad_of L r None = (rdf_node_of q L (subject s), rdf_node_of q L (predicate s), rdf_node_of q L (object s), None)" using assms(3) by blast
  then show "rdf_subject L (Some r) \<noteq> None \<and> rdf_predicate L (Some r) \<noteq> None \<and> rdf_object L (Some r) \<noteq> None"
    using assms(2) read_back(2)[OF assms(1), of "subject s"] read_back(2)[OF assms(1), of "predicate s"] read_back(2)[OF assms(1), of "object s"]
    unfolding quad_of_def statement_shown_def pattern_shown_def by auto
  show "quad_of L r (rdf_node_of q L (context_node s)) = rdf_quad q L s" using assms(3) by (simp add: rdf_quad_def)
  show "rdf_node_of q L (context_node s) = None \<longleftrightarrow> context_node s = EmptyNode"
    using assms(2) read_back(2)[OF assms(1)] by (simp add: statement_shown_def pattern_shown_def)
qed

text \<open>The part both share: librdf is handed the statement, with its context or without.\<close>

lemma hand_over:
  assumes "qt_ok q" "statement_shown q s"
  shows "\<exists>r l1 ctx l2. world_createStatement q L s (live st) = (Some r, l1) \<and>
    (if node_isEmpty (context_node s) then (None, l1) else world_createNode q L (context_node s) l1) = (ctx, l2) \<and>
    rdf_subject L (Some r) \<noteq> None \<and> rdf_predicate L (Some r) \<noteq> None \<and> rdf_object L (Some r) \<noteq> None \<and>
    ctx = rdf_node_of q L (context_node s) \<and> quad_of L r ctx = rdf_quad q L s \<and> (ctx = None \<longleftrightarrow> context_node s = EmptyNode) \<and>
    (\<forall>k. k \<noteq> LibUri \<longrightarrow> freed LibStatement (Some r) (freed LibNode ctx l2) k = live st k)"
proof -
  obtain r where r: "fst (world_createStatement q L s (live st)) = Some r"
      "\<forall>c. quad_of L r c = (rdf_node_of q L (subject s), rdf_node_of q L (predicate s), rdf_node_of q L (object s), c)"
      "\<forall>k. k \<noteq> LibUri \<longrightarrow> snd (world_createStatement q L s (live st)) k = made LibStatement (Some r) (live st) k"
    using createStatement_quad by blast
  obtain l1 where l1: "world_createStatement q L s (live st) = (Some r, l1)" using r(1) by (cases "world_createStatement q L s (live st)") auto
  obtain ctx l2 where l2: "(if node_isEmpty (context_node s) then (None, l1) else world_createNode q L (context_node s) l1) = (ctx, l2)" by fastforce
  have c: "ctx = rdf_node_of q L (context_node s)"
    using l2 createNode_fst[of q L "context_node s" l1] by (auto split: if_splits)
  have "l2 k = made LibNode ctx l1 k" if "k \<noteq> LibUri" for k
    using l2 createNode_ledger[OF that, of q L "context_node s" l1] by (auto simp: c made_def split: if_splits)
  then have "freed LibStatement (Some r) (freed LibNode ctx l2) k = live st k" if "k \<noteq> LibUri" for k
    using that r(3) l1 by (auto simp: made_def freed_def split: option.splits)
  then show ?thesis using l1 l2 c statement_quad[OF assms r(2)] by metis
qed

lemma adding:
  fixes st :: "('a, 'w, 'x, 'i, 'r) redland_model"
  assumes "qt_ok q" "lock_idle (readWriteLock st)" "all_shown q L (contents (rm_world st))" "statement_shown q s" "stmt_isValid s"
    "s \<notin> stored q L (contents (rm_world st))"
  shows "\<exists>st'. rm_addStatement t q L s st = Some (ErrorNone, st') \<and> contents (rm_world st') = insert (rdf_quad q L s) (contents (rm_world st)) \<and>
    kept_outside st st' \<and> rm_signals st' = rm_signals st @ [StatementAdded s, StatementsAdded]"
proof -
  obtain m' where m: "rm_lockForWrite t (rm_clearError t st) = Some ((rm_clearError t st)\<lparr>readWriteLock := m'\<rparr>)"
      "\<And>st'::('a, 'w, 'x, 'i, 'r) redland_model. readWriteLock st' = m' \<Longrightarrow> rm_unlock t st' = Some (st'\<lparr>readWriteLock := readWriteLock st\<rparr>)"
    using writing_lock[OF assms(2), of "rm_clearError t st" t] by (auto simp: rm_clearError_def)
  obtain r l1 ctx l2 where h: "world_createStatement q L s (live st) = (Some r, l1)"
      "(if node_isEmpty (context_node s) then (None, l1) else world_createNode q L (context_node s) l1) = (ctx, l2)"
      "rdf_subject L (Some r) \<noteq> None" "rdf_predicate L (Some r) \<noteq> None" "rdf_object L (Some r) \<noteq> None"
      "quad_of L r ctx = rdf_quad q L s" "ctx = None \<longleftrightarrow> context_node s = EmptyNode"
      "\<forall>k. k \<noteq> LibUri \<longrightarrow> freed LibStatement (Some r) (freed LibNode ctx l2) k = live st k"
    using hand_over[OF assms(1,4), of st] by (elim exE conjE) (rule that)
  have new: "quad_of L r ctx \<notin> contents (rm_world st)" using assms(4-6) h(6) by (simp add: stored_def)
  obtain w where w: "(if node_isEmpty (context_node s) then add_statement L r (rm_world st) else context_add_statement L ctx r (rm_world st)) = (0, w)"
      "contents w = insert (rdf_quad q L s) (contents (rm_world st))"
  proof (cases ctx)
    case None
    with adds[of r "rm_world st"] new h(6,7) show ?thesis by (auto intro: that)
  next
    case (Some c)
    with context_adds[of r c "rm_world st"] new h(6,7) show ?thesis by (auto intro: that)
  qed
  let ?l = "freed LibStatement (Some r) (freed LibNode ctx l2)"
  let ?st' = "rm_emit [StatementAdded s, StatementsAdded] ((rm_clearError t st)\<lparr>live := ?l, rm_world := model_sync L w\<rparr>)"
  have "rm_addStatement t q L s st = Some (ErrorNone, ?st')"
    unfolding rm_addStatement_def using assms(5) m h w
    by (cases "node_isEmpty (context_node s)") (simp_all add: rm_clearError_def Let_def del: empty_iff not_None_eq)
  moreover have "kept_outside st ?st'" using h(8) by (simp add: kept_outside_def rm_emit_def rm_clearError_def)
  ultimately show ?thesis using w(2) by (auto simp: syncs rm_emit_def rm_clearError_def)
qed

lemma removing_one:
  assumes "qt_ok q" "s \<in> stored q L (contents (rm_world st))"
  shows "\<exists>st'. removeOneStatement t q L s st = (ErrorNone, st') \<and> contents (rm_world st') = contents (rm_world st) - {rdf_quad q L s} \<and>
    kept_outside st st' \<and> rm_signals st' = rm_signals st @ [StatementRemoved s]"
proof -
  have s: "statement_shown q s" "stmt_isValid s" "rdf_quad q L s \<in> contents (rm_world st)" using assms(2) by (simp_all add: stored_def)
  obtain r l1 ctx l2 where h: "world_createStatement q L s (live st) = (Some r, l1)"
      "(if node_isEmpty (context_node s) then (None, l1) else world_createNode q L (context_node s) l1) = (ctx, l2)"
      "quad_of L r ctx = rdf_quad q L s" "ctx = None \<longleftrightarrow> context_node s = EmptyNode"
      "\<forall>k. k \<noteq> LibUri \<longrightarrow> freed LibStatement (Some r) (freed LibNode ctx l2) k = live st k"
    using hand_over[OF assms(1) s(1), of st] by (elim exE conjE) (rule that)
  obtain w where w: "(if node_isEmpty (context_node s) then remove_statement L r (rm_world st) else context_remove_statement L ctx r (rm_world st)) = (0, w)"
      "contents w = contents (rm_world st) - {rdf_quad q L s}"
  proof (cases ctx)
    case None
    with removes[of r "rm_world st"] s(3) h(3,4) show ?thesis by (auto intro: that)
  next
    case (Some c)
    with context_removes[of r c "rm_world st"] s(3) h(3,4) show ?thesis by (auto intro: that)
  qed
  let ?l = "freed LibStatement (Some r) (freed LibNode ctx l2)"
  let ?st' = "rm_emit [StatementRemoved s] ((rm_clearError t st)\<lparr>rm_world := w, live := ?l\<rparr>)"
  have "removeOneStatement t q L s st = (ErrorNone, ?st')"
    unfolding removeOneStatement_def using s(2) h(1,2) w(1)
    by (cases "node_isEmpty (context_node s)") (simp_all add: rm_clearError_def Let_def del: empty_iff not_None_eq)
  moreover have "kept_outside st ?st'" using h(5) by (simp add: kept_outside_def rm_emit_def rm_clearError_def)
  ultimately show ?thesis using w(2) by (auto simp: rm_emit_def rm_clearError_def)
qed

lemma removing_each:
  assumes "qt_ok q" "distinct ss" "set ss \<subseteq> stored q L (contents (rm_world st))"
  shows "\<exists>st'. remove_each t q L ss st = (ErrorNone, st') \<and> contents (rm_world st') = contents (rm_world st) - rdf_quad q L ` set ss \<and>
    kept_outside st st' \<and> rm_signals st' = rm_signals st @ map StatementRemoved ss"
  using assms(2,3)
proof (induction ss arbitrary: st)
  case Nil
  then show ?case by (simp add: kept_outside_def)
next
  case (Cons s ss)
  then have s: "s \<in> stored q L (contents (rm_world st))" by simp
  obtain st1 where 1: "removeOneStatement t q L s st = (ErrorNone, st1)" "contents (rm_world st1) = contents (rm_world st) - {rdf_quad q L s}"
      "kept_outside st st1" "rm_signals st1 = rm_signals st @ [StatementRemoved s]"
    using removing_one[OF assms(1) s] by blast
  have "set ss \<subseteq> stored q L (contents (rm_world st1))"
    unfolding 1(2) using Cons.prems stored_insert(2)[OF librdf_nodes_axioms assms(1), of s] s by (auto simp: stored_def)
  with Cons.IH[of st1] Cons.prems(1) obtain st2 where 2: "remove_each t q L ss st1 = (ErrorNone, st2)"
      "contents (rm_world st2) = contents (rm_world st1) - rdf_quad q L ` set ss" "kept_outside st1 st2"
      "rm_signals st2 = rm_signals st1 @ map StatementRemoved ss" by auto
  show ?case using 1 2 kept_trans[OF 1(3) 2(3)] by auto
qed

lemma removing:
  fixes st :: "('a, 'w, 'x, 'i, 'r) redland_model"
  assumes "qt_ok q" "lock_idle (readWriteLock st)" "s \<in> stored q L (contents (rm_world st))"
  shows "\<exists>st'. rm_removeStatement t q L s st = Some (ErrorNone, st') \<and> contents (rm_world st') = contents (rm_world st) - {rdf_quad q L s} \<and>
    kept_outside st st' \<and> rm_signals st' = rm_signals st @ [StatementRemoved s, StatementsRemoved]"
proof -
  obtain m' where m: "rm_lockForWrite t st = Some (st\<lparr>readWriteLock := m'\<rparr>)"
      "\<And>st'::('a, 'w, 'x, 'i, 'r) redland_model. readWriteLock st' = m' \<Longrightarrow> rm_unlock t st' = Some (st'\<lparr>readWriteLock := readWriteLock st\<rparr>)"
    using writing_lock[OF assms(2), of st t] by auto
  obtain st1 where 1: "removeOneStatement t q L s (st\<lparr>readWriteLock := m'\<rparr>) = (ErrorNone, st1)"
      "contents (rm_world st1) = contents (rm_world st) - {rdf_quad q L s}" "kept_outside (st\<lparr>readWriteLock := m'\<rparr>) st1"
      "rm_signals st1 = rm_signals st @ [StatementRemoved s]"
    using removing_one[OF assms(1), of s "st\<lparr>readWriteLock := m'\<rparr>" t] assms(3) by auto
  have "readWriteLock st1 = m'" using 1(3) by (simp add: kept_outside_def)
  then have "rm_removeStatement t q L s st =
      Some (ErrorNone, rm_emit [StatementsRemoved] (st1\<lparr>rm_world := model_sync L (rm_world st1), readWriteLock := readWriteLock st\<rparr>))"
    using m 1(1) by (simp add: rm_removeStatement_def)
  then show ?thesis using 1 by (auto simp: syncs rm_emit_def kept_outside_def)
qed

lemma removing_context:
  fixes st :: "('a, 'w, 'x, 'i, 'r) redland_model"
  assumes "qt_ok q" "lock_idle (readWriteLock st)" "redland_shown q (context_node p)" "all_shown q L (contents (rm_world st))"
  shows "\<exists>st'. rm_removeContext t q L p st = Some (ErrorNone, st') \<and>
    contents (rm_world st') = {y \<in> contents (rm_world st). quad_context y \<noteq> rdf_node_of q L (context_node p)} \<and> kept_outside st st' \<and>
    rm_signals st' = rm_signals st @ [StatementRemoved p, StatementsRemoved]"
proof -
  obtain m' where m: "rm_lockForWrite t st = Some (st\<lparr>readWriteLock := m'\<rparr>)"
      "\<And>st'::('a, 'w, 'x, 'i, 'r) redland_model. readWriteLock st' = m' \<Longrightarrow> rm_unlock t st' = Some (st'\<lparr>readWriteLock := readWriteLock st\<rparr>)"
    using writing_lock[OF assms(2), of st t] by auto
  obtain ctx l where c: "world_createNode q L (context_node p) (live st) = (ctx, l)" by fastforce
  have k: "ctx = rdf_node_of q L (context_node p)" "k \<noteq> LibUri \<Longrightarrow> l k = made LibNode ctx (live st) k" for k
    using createNode_fst[of q L "context_node p" "live st"] createNode_ledger[of k q L "context_node p" "live st"] c by auto
  have "context_node p \<noteq> EmptyNode" using assms(3) by auto
  then obtain g where g: "ctx = Some g" using k(1) read_back(2)[OF assms(1), of "context_node p"] assms(3) by (cases ctx) auto
  obtain w where w: "context_remove_statements L ctx (rm_world st) = (0, w)" "contents w = {y \<in> contents (rm_world st). quad_context y \<noteq> ctx}"
    using context_clears[of g "rm_world st"] g by blast
  let ?st' = "rm_emit [StatementRemoved p, StatementsRemoved] (st\<lparr>live := freed LibNode ctx l, rm_world := model_sync L w\<rparr>)"
  have "rm_removeContext t q L p st = Some (ErrorNone, ?st')" using m c w(1) by (simp add: rm_removeContext_def)
  moreover have "kept_outside st ?st'" using k(2) g by (auto simp: kept_outside_def rm_emit_def made_def freed_def)
  ultimately show ?thesis using w(2) k(1) by (auto simp: syncs rm_emit_def)
qed

end


text \<open>removeAllStatements: the context at once, the statements that fit one by one, or the one statement.\<close>

context librdf_storage begin

lemma stored_without:
  assumes "qt_ok q" "\<forall>s\<in>S. statement_shown q s"
  shows "stored q L (C - rdf_quad q L ` S) = stored q L C - S"
  using quad_inject[OF assms(1)] assms(2) by (fastforce simp: stored_def statement_shown_def)

lemma stored_outside_context:
  assumes "qt_ok q" "redland_shown q (context_node p)" "isContextOnlyStatement p"
  shows "stored q L {y \<in> C. quad_context y \<noteq> rdf_node_of q L (context_node p)} = {s \<in> stored q L C. \<not> fits_all p s}"
proof -
  have "quad_context (rdf_quad q L s) = rdf_node_of q L (context_node p) \<longleftrightarrow> fits_all p s" if "statement_shown q s" for s
    using that assms node_of_inject[OF assms(1), of "context_node s" "context_node p"]
    by (auto simp: quad_context_def rdf_quad_def fits_all_def fits_def isContextOnlyStatement_def statement_shown_def pattern_shown_def)
  then show ?thesis by (auto simp: stored_def)
qed

lemma removing_all:
  fixes st :: "('a, 'w, 'x, 'i, 'r) redland_model"
  assumes "qt_ok q" "lock_idle (readWriteLock st)" "all_shown q L (contents (rm_world st))" "fresh_objects st" "pattern_shown q p"
    "stmt_isValid p \<and> node_isValid (context_node p) \<longrightarrow> p \<in> stored q L (contents (rm_world st))"
  shows "\<exists>st'. rm_removeAllStatements t q L p st = Some (ErrorNone, st') \<and>
    stored q L (contents (rm_world st')) = {s \<in> stored q L (contents (rm_world st)). \<not> fits_all p s} \<and>
    all_shown q L (contents (rm_world st')) \<and> kept_outside st st'"
proof -
  let ?st = "rm_clearError t st" and ?C = "contents (rm_world st)"
  have st: "readWriteLock ?st = readWriteLock st" "rm_world ?st = rm_world st" "kept_outside ?st x \<longleftrightarrow> kept_outside st x" "fresh_objects ?st" for x
    using assms(4) by (simp_all add: rm_clearError_def kept_outside_def fresh_objects_def)
  consider (graph) "isContextOnlyStatement p" | (some) "\<not> isContextOnlyStatement p" "\<not> stmt_isValid p \<or> \<not> node_isValid (context_node p)"
    | (one) "\<not> isContextOnlyStatement p" "stmt_isValid p \<and> node_isValid (context_node p)" by blast
  then show ?thesis
  proof cases
    case graph
    then have c: "redland_shown q (context_node p)" using assms(5) by (simp add: isContextOnlyStatement_def pattern_shown_def)
    have r: "\<exists>st'. rm_removeContext t q L p ?st = Some (ErrorNone, st') \<and>
        contents (rm_world st') = {y \<in> ?C. quad_context y \<noteq> rdf_node_of q L (context_node p)} \<and> kept_outside st st'"
      using removing_context[OF assms(1) _ c, of ?st t] assms(2,3) unfolding st by blast
    moreover have "all_shown q L {y \<in> ?C. quad_context y \<noteq> rdf_node_of q L (context_node p)}" using assms(3) by (auto simp: all_shown_def)
    ultimately show ?thesis using graph stored_outside_context[OF assms(1) c graph, of ?C]
      by (auto simp: rm_removeAllStatements_def)
  next
    case some
    obtain ss st1 where l: "rm_allStatements t q L p ?st = Some (ss, st1)" "distinct ss" "set ss = {s \<in> stored q L ?C. fits_all p s}"
        "contents (rm_world st1) = ?C" "kept_outside st st1"
      using list_statements[OF assms(1,2), of ?st t 0 p] assms(3,5) st(4) unfolding st by (auto simp: read_by_def)
    have lock1: "readWriteLock st1 = readWriteLock st" using l(5) by (simp add: kept_outside_def)
    obtain m' where m: "rm_lockForWrite t st1 = Some (st1\<lparr>readWriteLock := m'\<rparr>)"
        "\<And>st'::('a, 'w, 'x, 'i, 'r) redland_model. readWriteLock st' = m' \<Longrightarrow> rm_unlock t st' = Some (st'\<lparr>readWriteLock := readWriteLock st\<rparr>)"
      using writing_lock[OF assms(2) lock1, of t] by metis
    obtain st2 where r: "remove_each t q L ss (st1\<lparr>readWriteLock := m'\<rparr>) = (ErrorNone, st2)" "contents (rm_world st2) = ?C - rdf_quad q L ` set ss"
        "kept_outside (st1\<lparr>readWriteLock := m'\<rparr>) st2"
      using removing_each[OF assms(1) l(2), of "st1\<lparr>readWriteLock := m'\<rparr>" t] l(3,4) by auto
    have "readWriteLock st2 = m'" using r(3) by (simp add: kept_outside_def)
    then have u: "rm_unlock t (st2\<lparr>rm_world := model_sync L (rm_world st2)\<rparr>) =
        Some (st2\<lparr>rm_world := model_sync L (rm_world st2), readWriteLock := readWriteLock st\<rparr>)" using m(2) by simp
    have k: "kept_outside st (st2\<lparr>rm_world := model_sync L (rm_world st2), readWriteLock := readWriteLock st\<rparr>)"
      using l(5) r(3) by (auto simp: kept_outside_def)
    have set: "\<forall>s\<in>set ss. statement_shown q s" using l(3) by (auto simp: stored_def)
    have C: "stored q L (?C - rdf_quad q L ` set ss) = {s \<in> stored q L ?C. \<not> fits_all p s}"
      unfolding stored_without[OF assms(1) set] using l(3) by auto
    have "\<exists>ss'. rm_removeAllStatements t q L p st = Some (ErrorNone, rm_emit ss' (st2\<lparr>rm_world := model_sync L (rm_world st2), readWriteLock := readWriteLock st\<rparr>))"
      using some l(1) m(1) r(1) u by (cases "ss = []") (auto simp: rm_removeAllStatements_def rm_emit_def intro: exI[of _ "[]"])
    then show ?thesis using C k r(2) all_shown_insert(2)[OF assms(3)] by (auto simp: syncs rm_emit_def kept_outside_def)
  next
    case one
    then have p: "p \<in> stored q L ?C" using assms(6) by blast
    have fit: "fits_all p s \<longleftrightarrow> s = p" if "s \<in> stored q L ?C" for s
    proof
      assume "fits_all p s"
      then show "s = p" using p one by (intro statement.equality) (simp_all add: fits_all_def fits_def stored_def statement_shown_def)
    qed (simp add: fits_all_def fits_def)
    obtain st' where "rm_removeStatement t q L p ?st = Some (ErrorNone, st')" "contents (rm_world st') = ?C - {rdf_quad q L p}" "kept_outside st st'"
      using removing[OF assms(1), of ?st p t] assms(2) p unfolding st by blast
    moreover have "stored q L (?C - {rdf_quad q L p}) = {s \<in> stored q L ?C. \<not> fits_all p s}"
      using stored_insert(2)[OF librdf_nodes_axioms assms(1), of p ?C] p fit by (auto simp: stored_def)
    ultimately show ?thesis using one all_shown_insert(2)[OF assms(3)] by (auto simp: rm_removeAllStatements_def)
  qed
qed

end

end
