(* ===== verification/Redland_Memory.thy ===== *)
theory Redland_Memory
  imports Redland_Store
begin

text \<open>
  A librdf in memory: nodes as values, a list of statements with contexts, streams and iterators as lists. It keeps the contract, so the
  laws of the redland model hold of something. What the model does wrong is shown on it.
\<close>

section \<open>The library\<close>

datatype mem_node = MemUri qbytes | MemBlank qbytes | MemLiteral qbytes qbytes "qbytes option"

type_synonym mem_statement = "mem_node option \<times> mem_node option \<times> mem_node option"

type_synonym mem_rdf = "(mem_node quad list, qbytes, mem_node, mem_statement, mem_node quad list, mem_node list, unit, mem_node quad list) librdf"

definition mem_quad :: "mem_statement \<Rightarrow> mem_node option \<Rightarrow> mem_node quad" where
  "mem_quad s g = (case s of (a, b, c) \<Rightarrow> (a, b, c, g))"

definition mem_fits :: "mem_statement option \<Rightarrow> mem_node option \<Rightarrow> mem_node quad \<Rightarrow> bool" where
  "mem_fits s g y = (case y of (a, b, c, h) \<Rightarrow> part_fits g h \<and>
     (case s of None \<Rightarrow> True | Some (x, z, u) \<Rightarrow> part_fits x a \<and> part_fits z b \<and> part_fits u c))"

definition memory_librdf :: mem_rdf where
  "memory_librdf = \<lparr>
     rdf_log = (\<lambda>w. []),
     new_uri = Some,
     uri_as_string = (\<lambda>u. u),
     node_from_uri_string = (\<lambda>b. Some (MemUri b)),
     node_from_blank_identifier = (\<lambda>b. Some (MemBlank b)),
     new_blank_identifier = (\<lambda>w. (Some (MemBlank [1]), w)),
     node_from_typed_literal = (\<lambda>v g u. Some (MemLiteral v g u)),
     rdf_is_resource = (\<lambda>n. case n of Some (MemUri b) \<Rightarrow> True | _ \<Rightarrow> False),
     rdf_is_blank = (\<lambda>n. case n of Some (MemBlank b) \<Rightarrow> True | _ \<Rightarrow> False),
     rdf_is_literal = (\<lambda>n. case n of Some (MemLiteral v g u) \<Rightarrow> True | _ \<Rightarrow> False),
     rdf_uri = (\<lambda>n. case n of Some (MemUri b) \<Rightarrow> b | _ \<Rightarrow> []),
     rdf_blank_identifier = (\<lambda>n. case n of Some (MemBlank b) \<Rightarrow> b | _ \<Rightarrow> []),
     rdf_literal_value = (\<lambda>n. case n of Some (MemLiteral v g u) \<Rightarrow> v | _ \<Rightarrow> []),
     rdf_literal_language = (\<lambda>n. case n of Some (MemLiteral v g u) \<Rightarrow> g | _ \<Rightarrow> []),
     rdf_literal_datatype = (\<lambda>n. case n of Some (MemLiteral v g u) \<Rightarrow> u | _ \<Rightarrow> None),
     statement_from_nodes = (\<lambda>a b c. Some (a, b, c)),
     rdf_subject = (\<lambda>s. case s of Some (a, b, c) \<Rightarrow> a | None \<Rightarrow> None),
     rdf_predicate = (\<lambda>s. case s of Some (a, b, c) \<Rightarrow> b | None \<Rightarrow> None),
     rdf_object = (\<lambda>s. case s of Some (a, b, c) \<Rightarrow> c | None \<Rightarrow> None),
     stream_end = (\<lambda>x. x = []),
     stream_next = tl,
     stream_object = (\<lambda>x. case x of (a, b, c, g) # ys \<Rightarrow> Some (a, b, c) | [] \<Rightarrow> None),
     stream_context = (\<lambda>x. case x of (a, b, c, g) # ys \<Rightarrow> g | [] \<Rightarrow> None),
     iterator_end = (\<lambda>x. x = []),
     iterator_next = tl,
     iterator_object = (\<lambda>x. case x of n # ns \<Rightarrow> Some n | [] \<Rightarrow> None),
     find_statements = (\<lambda>s w. (Some (remdups (filter (mem_fits s None) w)), w)),
     find_in_context = (\<lambda>s g w. (Some (remdups (filter (mem_fits s (Some g)) w)), w)),
     context_as_stream = (\<lambda>g w. (Some (remdups (filter (mem_fits None (Some g)) w)), w)),
     contains_context = (\<lambda>g w. (list_ex (\<lambda>y. quad_context y = Some g) w, w)),
     get_contexts = (\<lambda>w. (Some (concat (map (\<lambda>y. case quad_context y of None \<Rightarrow> [] | Some g \<Rightarrow> [g]) w)), w)),
     add_statement = (\<lambda>s w. (0, w @ [mem_quad s None])),
     context_add_statement = (\<lambda>g s w. (0, w @ [mem_quad s g])),
     remove_statement = (\<lambda>s w. (0, removeAll (mem_quad s None) w)),
     context_remove_statement = (\<lambda>g s w. (0, removeAll (mem_quad s g) w)),
     context_remove_statements = (\<lambda>g w. (0, filter (\<lambda>y. quad_context y \<noteq> g) w)),
     model_sync = (\<lambda>w. w),
     model_size = (\<lambda>w. (int (length w), w)),
     new_query = (\<lambda>l t w. (Some (), w)),
     query_execute = (\<lambda>x w. (Some w, w)),
     results_is_graph = (\<lambda>r. True),
     results_is_bindings = (\<lambda>r. False),
     results_is_boolean = (\<lambda>r. False),
     results_boolean = (\<lambda>r. 0),
     results_names = (\<lambda>r. None),
     results_finished = (\<lambda>r. True),
     results_next = (\<lambda>r. (1, r)),
     results_value = (\<lambda>r i. None),
     results_value_by_name = (\<lambda>r n. None),
     results_as_stream = Some \<rparr>"

lemma memory_stream: "stream_quads memory_librdf one ys ys"
proof (induction ys)
  case (Cons y ys)
  then show ?case by (cases y) (auto simp: memory_librdf_def quad_context_def quad_of_def)
qed (simp add: memory_librdf_def)

lemma memory_fits:
  "mem_fits (Some s) None y \<longleftrightarrow> triple_fits memory_librdf s y"
  "mem_fits (Some s) (Some g) y \<longleftrightarrow> triple_fits memory_librdf s y \<and> quad_context y = Some g"
  "mem_fits None (Some g) y \<longleftrightarrow> quad_context y = Some g"
  by (auto simp: mem_fits_def triple_fits_def quad_context_def memory_librdf_def part_fits_def split: prod.splits)

lemma memory_quad: "quad_of memory_librdf s g = mem_quad s g"
  by (cases s) (simp add: quad_of_def mem_quad_def memory_librdf_def)

interpretation memory_rdf: librdf_storage memory_librdf set
proof
  fix s w
  have "find_statements memory_librdf (Some s) w = (Some (remdups (filter (mem_fits (Some s) None) w)), w)" by (simp add: memory_librdf_def)
  then show "\<exists>x w' ys. find_statements memory_librdf (Some s) w = (Some x, w') \<and> set w' = set w \<and> stream_quads memory_librdf False x ys \<and> distinct ys \<and>
      set ys = {y \<in> set w. triple_fits memory_librdf s y}"
    using memory_stream by (fastforce simp: memory_fits)
next
  fix s c w
  have "find_in_context memory_librdf (Some s) c w = (Some (remdups (filter (mem_fits (Some s) (Some c)) w)), w)" by (simp add: memory_librdf_def)
  then show "\<exists>x w' ys. find_in_context memory_librdf (Some s) c w = (Some x, w') \<and> set w' = set w \<and> stream_quads memory_librdf True x ys \<and>
      distinct ys \<and> set ys = {y \<in> set w. triple_fits memory_librdf s y \<and> quad_context y = Some c}"
    using memory_stream by (fastforce simp: memory_fits)
next
  fix c w
  have "context_as_stream memory_librdf c w = (Some (remdups (filter (mem_fits None (Some c)) w)), w)" by (simp add: memory_librdf_def)
  then show "\<exists>x w' ys. context_as_stream memory_librdf c w = (Some x, w') \<and> set w' = set w \<and> stream_quads memory_librdf True x ys \<and>
      distinct ys \<and> set ys = {y \<in> set w. quad_context y = Some c}"
    using memory_stream by (fastforce simp: memory_fits)
qed (auto simp: memory_quad, auto simp: memory_librdf_def list_ex_iff)


section \<open>The model as a set of statements\<close>

text \<open>Claim C7: while librdf keeps its contract, the lock is idle, the numbers of new objects are fresh, everything stored, asked for and changed
  is made of nodes that librdf gives back as they were, and the statement added or removed is valid and equal to itself, the redland model is
  a set of statements: listing returns each stored statement that fits the pattern once; containsAnyStatement and containsStatement answer as
  the set does; removeAllStatements removes all that fit, where a complete pattern with a context must be one of the stored statements; adding
  a statement that is NOT stored inserts it, and removing one that IS stored deletes it. Each of these calls returns ErrorNone or its answer,
  gives back its lock and frees the nodes, statements and streams it made. Nothing is said of adding a statement that is stored already, which
  librdf may then keep twice (the comment in redlandmodel.cpp), or of removing one that is not stored.\<close>

theorem redland_model_refines:
  assumes "librdf_storage L contents" "qt_ok q" "lock_idle (readWriteLock st)" "fresh_objects st" "all_shown q L (contents (rm_world st))"
    and "pattern_shown q p" "stmt_isValid p \<and> node_isValid (context_node p) \<longrightarrow> p \<in> stored q L (contents (rm_world st))"
    and "statement_shown q s" "stmt_isValid s" "stmt_eq q s s"
  shows "(\<exists>ss st'. rm_allStatements t q L p st = Some (ss, st') \<and> distinct ss \<and>
        set ss = {x \<in> stored q L (contents (rm_world st)). fits_all p x} \<and> contents (rm_world st') = contents (rm_world st) \<and> kept_outside st st') \<and>
    (\<exists>st'. rm_containsAnyStatement t q L p st = Some (\<exists>x\<in>stored q L (contents (rm_world st)). fits_all p x, st') \<and>
        contents (rm_world st') = contents (rm_world st) \<and> kept_outside st st') \<and>
    (\<exists>st'. rm_containsStatement t q L s st = Some (s \<in> stored q L (contents (rm_world st)), st') \<and>
        contents (rm_world st') = contents (rm_world st) \<and> kept_outside st st') \<and>
    (\<exists>st'. rm_removeAllStatements t q L p st = Some (ErrorNone, st') \<and>
        stored q L (contents (rm_world st')) = {x \<in> stored q L (contents (rm_world st)). \<not> fits_all p x} \<and>
        all_shown q L (contents (rm_world st')) \<and> kept_outside st st') \<and>
    (\<exists>st'. (if s \<in> stored q L (contents (rm_world st)) then rm_removeStatement t q L s st = Some (ErrorNone, st') \<and>
          stored q L (contents (rm_world st')) = stored q L (contents (rm_world st)) - {s}
        else rm_addStatement t q L s st = Some (ErrorNone, st') \<and>
          stored q L (contents (rm_world st')) = insert s (stored q L (contents (rm_world st)))) \<and>
        all_shown q L (contents (rm_world st')) \<and> kept_outside st st')"
proof -
  note N = librdf_storage.axioms(1)[OF assms(1)]
  note I = stored_insert[OF N assms(2,8,9), of "contents (rm_world st)"]
  have free: "readWriteLock st = read_by t 0 (readWriteLock st)" by (simp add: read_by_def)
  note list = librdf_storage.list_statements[OF assms(1-3) free assms(5,4,6)]
    and any = librdf_storage.containsAny_statement[OF assms(1-3) free assms(5,6)]
    and exact = librdf_storage.contains_statement[OF assms(1-3) free assms(5,4,8-10)]
    and clear = librdf_storage.removing_all[OF assms(1-3,5,4,6,7), of t]
  have change: "\<exists>st'. (if s \<in> stored q L (contents (rm_world st)) then rm_removeStatement t q L s st = Some (ErrorNone, st') \<and>
          stored q L (contents (rm_world st')) = stored q L (contents (rm_world st)) - {s}
        else rm_addStatement t q L s st = Some (ErrorNone, st') \<and>
          stored q L (contents (rm_world st')) = insert s (stored q L (contents (rm_world st)))) \<and>
        all_shown q L (contents (rm_world st')) \<and> kept_outside st st'"
  proof (cases "s \<in> stored q L (contents (rm_world st))")
    case True
    from librdf_storage.removing[OF assms(1-3) True, of t] obtain st' where r: "rm_removeStatement t q L s st = Some (ErrorNone, st')"
      "contents (rm_world st') = contents (rm_world st) - {rdf_quad q L s}" "kept_outside st st'" by blast
    then show ?thesis using True I(2) all_shown_insert(2)[OF assms(5)] by (intro exI[of _ st']) simp
  next
    case False
    from librdf_storage.adding[OF assms(1-3,5,8,9) False, of t] obtain st' where a: "rm_addStatement t q L s st = Some (ErrorNone, st')"
      "contents (rm_world st') = insert (rdf_quad q L s) (contents (rm_world st))" "kept_outside st st'" by blast
    then show ?thesis using False I(1) all_shown_insert(1)[OF assms(8,9,5)] by (intro exI[of _ st']) simp
  qed
  show ?thesis using list any exact clear change by blast
qed

lemma plain_qt_all_ok: "qt_ok plain_qt"
  using plain_qt_ok by (simp add: qt_ok_def qt_ascii_ok_def) (simp add: plain_qt_def)

definition sample :: statement where
  "sample = mk_statement (ResourceNode (QUrl ''a'')) (ResourceNode (QUrl ''b'')) (ResourceNode (QUrl ''c'')) (ResourceNode (QUrl ''g''))"

lemma sample_shown: "statement_shown plain_qt sample" "stmt_isValid sample" "stmt_eq plain_qt sample sample"
  by (simp_all add: sample_def mk_statement_def statement_shown_def pattern_shown_def stmt_isValid_def node_test_defs url_isEmpty_def no_zero_def
      toEncoded_def byte_of_char_def stmt_eq_def)

theorem redland_model_refines_witness:
  "\<exists>st'. rm_addStatement () plain_qt memory_librdf sample (new_redland_model []) = Some (ErrorNone, st') \<and>
     stored plain_qt memory_librdf (set (rm_world st')) = {sample}"
proof -
  let ?st = "new_redland_model [] :: (unit, mem_node quad list, mem_node quad list, mem_node list, mem_node quad list) redland_model"
  have "lock_idle (readWriteLock ?st)" "fresh_objects ?st" "all_shown plain_qt memory_librdf (set (rm_world ?st))"
    by (simp_all add: new_redland_model_def new_multi_mutex_idle fresh_objects_def all_shown_def)
  moreover have "pattern_shown plain_qt empty_statement"
    "stmt_isValid empty_statement \<and> node_isValid (context_node empty_statement) \<longrightarrow> empty_statement \<in> stored plain_qt memory_librdf (set (rm_world ?st))"
    by (simp_all add: pattern_shown_def empty_statement_def mk_statement_def)
  moreover have none: "stored plain_qt memory_librdf (set (rm_world ?st)) = {}" by (simp add: stored_def new_redland_model_def)
  ultimately show ?thesis
    using redland_model_refines[OF memory_rdf.librdf_storage_axioms plain_qt_all_ok _ _ _ _ _ sample_shown, of ?st empty_statement "()"] by auto
qed


section \<open>Faults\<close>

type_synonym mem_model = "(nat, mem_node quad list, mem_node quad list, mem_node list, mem_node quad list) redland_model"

definition some_world :: "mem_node quad list" where
  "some_world = [(Some (MemUri [1]), Some (MemUri [2]), Some (MemUri [3]), Some (MemUri [4])), (Some (MemUri [1]), Some (MemUri [2]), Some (MemUri [5]), Some (MemUri [6]))]"

definition some_model :: mem_model where "some_model = new_redland_model some_world"

text \<open>A thread that has an iterator open and adds a statement waits for ever, as every call of a thread that writes while it reads.\<close>

lemma open_iterator_blocks_writing:
  assumes "lock_idle m" "readWriteLock st = read_by t (Suc n) m" "stmt_isValid s"
  shows "rm_addStatement t q L s st = None" "rm_removeStatement t q L s st = None"
  using assms by (simp_all add: rm_addStatement_def rm_removeStatement_def rm_lockForWrite_def rm_clearError_def)

text \<open>An iterator that another thread closes never gives its lock back: nobody can write any more.\<close>

lemma foreign_close_keeps_lock:
  assumes "lock_idle m" "readWriteLock st = read_by t (Suc n) m" "t \<noteq> u" "statement_its st i = Some it"
  shows "\<exists>st'. si_close u i st = Some st' \<and> readWriteLock st' = readWriteLock st \<and> multi_lockForWrite v (readWriteLock st') = None"
  using assms by (auto simp: si_close_def removeIterator_def rm_unlock_def)

text \<open>The signal for a removed statement is sent while the thread has the lock for writing: a slot that reads the model waits for ever.\<close>

lemma signal_sent_under_lock:
  assumes "lock_idle (readWriteLock st)" "rm_lockForWrite t st = Some st1" "removeOneStatement t q L s st1 = (ErrorNone, st2)"
  shows "last (rm_signals st2) = StatementRemoved s \<and> rm_lockForRead t st2 = None"
proof -
  have l: "readWriteLock st2 = readWriteLock st1" and s: "last (rm_signals st2) = StatementRemoved s"
    using assms(3) by (auto simp: removeOneStatement_def Let_def rm_emit_def rm_clearError_def rm_setError_def rm_worldError_def split: prod.splits option.splits if_splits)
  have "multi_lockForWrite t (readWriteLock st) = Some (readWriteLock st1)" using assms(2) by (auto simp: rm_lockForWrite_def split: bind_splits)
  then have "multi_lockForRead t (readWriteLock st1) = None" using lock_write_unlock[OF assms(1), of t] by auto
  then show ?thesis using l s by (simp add: rm_lockForRead_def)
qed

text \<open>When the listing fails nothing is removed, and the result is ErrorNone. A failure librdf says nothing about leaves no error either.\<close>

lemma failed_listing_is_success:
  "map_option fst (rm_removeAllStatements 0 plain_qt (memory_librdf\<lparr>find_statements := \<lambda>s w. (None, w)\<rparr>) empty_statement some_model) = Some ErrorNone"
  by code_simp

lemma failure_without_error:
  "map_option (\<lambda>(i, st). (i, lastError 0 (rm_errors st)))
     (rm_listStatements 0 plain_qt (memory_librdf\<lparr>find_statements := \<lambda>s w. (None, w)\<rparr>) empty_statement some_model) = Some (None, NoError)"
  by code_simp

text \<open>A context librdf cannot make is taken for no context: the statements of all are listed, of the one that was asked for as it seems.\<close>

definition bad_context :: statement where
  "bad_context = mk_statement EmptyNode EmptyNode EmptyNode (ResourceNode (QUrl ''bad''))"

lemma bad_context_lists_all:
  "map_option (\<lambda>(i, st). map_option m_stream (statement_its st (the i)))
     (rm_listStatements 0 plain_qt (memory_librdf\<lparr>node_from_uri_string := \<lambda>b. None\<rparr>) bad_context some_model) = Some (Some (Some some_world))"
  by code_simp

text \<open>Objects that are never freed: the statement that lacks a term, the URI of a datatype, the node of a new blank node, a query that ran.\<close>

lemma invalid_statement_leaks:
  "map_option (\<lambda>(e, st). (e, live st LibStatement)) (rm_addStatement 0 plain_qt (memory_librdf\<lparr>node_from_uri_string := \<lambda>b. None\<rparr>) sample some_model) =
     Some (ErrorInvalidArgument, 1)"
  by code_simp

lemma datatype_uri_leaks:
  "map_option (\<lambda>(e, st). (e, live st LibUri))
     (rm_addStatement 0 plain_qt memory_librdf (setObject (LiteralNode (Typed (VInt 1) (xsd XsdInt))) sample) some_model) = Some (ErrorNone, 1)"
  by code_simp

lemma blank_node_leaks: "live (snd (rm_createBlankNode 0 plain_qt memory_librdf some_model)) LibNode = 1"
  by code_simp

lemma query_leaks:
  "map_option (\<lambda>st. (live st LibQuery, live st LibResults))
     (case rm_executeQuery 0 plain_qt memory_librdf ''construct'' 1 [] some_model of Some (Some i, st) \<Rightarrow> qr_close 0 i st | _ \<Rightarrow> None) = Some (1, 0)"
  by code_simp

text \<open>Reading the current statement of a graph result twice gives two statements.\<close>

lemma current_statement_moves:
  "(case rm_executeQuery 0 plain_qt memory_librdf ''construct'' 1 [] some_model of
      Some (Some i, st) \<Rightarrow> do {
        (b, st) \<leftarrow> qr_next 0 memory_librdf i st;
        (s1, st) \<leftarrow> qr_currentStatement plain_qt memory_librdf i st;
        (s2, st) \<leftarrow> qr_currentStatement plain_qt memory_librdf i st;
        Some (b, object s1, object s2) }
    | _ \<Rightarrow> None) = Some (True, ResourceNode (QUrl [char_of_byte 3]), ResourceNode (QUrl [char_of_byte 5]))"
  by code_simp

text \<open>A node iterator that is asked again after its end hands a null pointer to librdf.\<close>

lemma finished_node_iterator_undefined:
  "map_option (\<lambda>(i, st). Option.bind (ni_next 0 memory_librdf (the i) st) (\<lambda>(b, st). map_option fst (ni_next 0 memory_librdf (the i) st)))
     (rm_listContexts 0 memory_librdf (new_redland_model [] :: mem_model)) = Some None"
  by code_simp

text \<open>A model that is deleted with one iterator open reads beyond its list; with two, one stays open.\<close>

definition with_listings :: "nat \<Rightarrow> mem_model option" where
  "with_listings n = ((\<lambda>st. st \<bind> (\<lambda>st. map_option snd (rm_listStatements 0 plain_qt memory_librdf empty_statement st))) ^^ n) (Some some_model)"

lemma delete_with_one_open: "with_listings 1 \<noteq> None \<and> Option.bind (with_listings 1) (delete_model 0) = None"
  by code_simp

lemma delete_with_two_open: "map_option iterators (Option.bind (with_listings 2) (delete_model 0)) = Some [1]"
  by code_simp

end
