(* ===== verification/Redland_Backend.thy ===== *)
theory Redland_Backend
  imports Redland_Memory Virtuoso_Backend "HOL-Library.AList"
begin

text \<open>
  The plugin of the redland backend (backends/redland/redlandbackend.cpp): the settings as options of librdf, the storage and the
  model made of them, and the files that are deleted with the data. A hash of options is an association list; the order in which Qt
  prints it is not fixed. What librdf makes of the texts and what a directory contains are parameters.
\<close>

section \<open>Options\<close>

type_synonym options = "(qstring \<times> qstring) list"

definition option_value :: "qstring \<Rightarrow> options \<Rightarrow> qstring" where
  "option_value k h = (case map_of h k of Some v \<Rightarrow> v | None \<Rightarrow> [])"

definition createRedlandOptionString :: "options \<Rightarrow> qstring" where
  "createRedlandOptionString h = join_with '','' (map (\<lambda>(k, v). q_arg (q_arg (''%1='' @ [CHR 0x27] @ ''%2'' @ [CHR 0x27]) k) v) h)"

definition default_options :: options where
  "default_options = [(''contexts'', ''yes''), (''storageType'', ''hashes''), (''hash-type'', ''memory''), (''name'', ''soprano'')]"

definition option_step :: "qt \<Rightarrow> setting \<Rightarrow> options \<Rightarrow> options" where
  "option_step q s h =
     (if setting_option s = BackendOptionUser then AList.update (userOptionName s) (as_text q (set_value s)) h
      else if setting_option s = BackendOptionStorageMemory then
        AList.update ''hash-type'' (if variant_toBool q (set_value s) then ''memory'' else ''bdb'') h
      else if setting_option s = BackendOptionStorageDir then
        AList.update ''hash-type'' ''bdb'' (AList.update ''dir'' (as_text q (set_value s)) h)
      else h)"

text \<open>\<open>files_in\<close>: the files of a directory.\<close>

definition redland_options :: "qt \<Rightarrow> (qstring \<Rightarrow> qstring list) \<Rightarrow> setting list \<Rightarrow> options" where
  "redland_options q files_in settings =
     (let h = fold (option_step q) settings default_options in
      if map_of h ''dir'' \<noteq> None \<and> option_value ''dir'' h \<noteq> [] \<and> files_in (option_value ''dir'' h) = [] \<and> map_of h ''new'' = None
      then AList.update ''new'' ''yes'' h else h)"

text \<open>The type, the name and the options of the storage.\<close>

definition storage_texts :: "qt \<Rightarrow> (qstring \<Rightarrow> qstring list) \<Rightarrow> setting list \<Rightarrow> qstring \<times> qstring \<times> qstring" where
  "storage_texts q files_in settings =
     (let h = redland_options q files_in settings in
      (option_value ''storageType'' h, option_value ''name'' h, createRedlandOptionString (AList.delete ''name'' (AList.delete ''storageType'' h))))"

section \<open>Models\<close>

record ('s, 'm) rdf_factory =
  new_storage :: "qbytes \<Rightarrow> qbytes \<Rightarrow> qbytes \<Rightarrow> 's option"
  new_rdf_model :: "'s \<Rightarrow> 'm option"
  factory_error :: error

text \<open>The model, or the last error of the world; and the storages that were made and are not freed.\<close>

definition redland_createModel :: "qt \<Rightarrow> ('s, 'm) rdf_factory \<Rightarrow> (qstring \<Rightarrow> qstring list) \<Rightarrow> setting list \<Rightarrow> (error + 's \<times> 'm) \<times> 's list" where
  "redland_createModel q F files_in settings =
     (case storage_texts q files_in settings of (typ', name, os) \<Rightarrow>
        (case new_storage F (c_text (str_toUtf8 q typ')) (c_text (str_toUtf8 q name)) (c_text (str_toUtf8 q os)) of
           None \<Rightarrow> (Inl (factory_error F), [])
         | Some s \<Rightarrow> (case new_rdf_model F s of
             None \<Rightarrow> (Inl (factory_error F), [])
           | Some m \<Rightarrow> (Inr (s, m), [s]))))"

text \<open>The loop over the settings ends with the first directory.\<close>

fun data_place :: "qt \<Rightarrow> setting list \<Rightarrow> qstring \<Rightarrow> qstring \<times> qstring" where
  "data_place q [] name = ([], name)"
| "data_place q (s # ss) name =
     (if setting_option s = BackendOptionUser \<and> userOptionName s = ''name'' then data_place q ss (as_text q (set_value s))
      else if setting_option s = BackendOptionStorageDir then (as_text q (set_value s), name)
      else data_place q ss name)"

text \<open>\<open>finds\<close>: the files of a directory a pattern selects; \<open>stuck\<close>: those that cannot be removed.\<close>

definition redland_deleteModelData :: "qt \<Rightarrow> (qstring \<Rightarrow> qstring \<Rightarrow> qstring list) \<Rightarrow> qstring set \<Rightarrow> setting list \<Rightarrow> qstring set \<Rightarrow> error \<times> qstring set" where
  "redland_deleteModelData q finds stuck settings fs =
     (case data_place q settings ''soprano'' of (path, name) \<Rightarrow>
        if path = [] then (mk_error ''No storage path set.'' (error_code_num ErrorInvalidArgument), fs)
        else (case remove_files stuck (finds path (name @ ''-*.db'')) fs of
            (None, fs) \<Rightarrow> (NoError, fs)
          | (Some f, fs) \<Rightarrow> (mk_error (''Failed to remove file '' @ [CHR 0x27] @ path @ ''/'' @ f) (error_code_num ErrorUnknown), fs)))"

definition redland_features :: int where
  "redland_features = or 0x80 (or 1 (or 4 (or 2 (or 8 0x40))))"

section \<open>What the settings give\<close>

lemma option_value_update [simp]: "option_value k (AList.update l v h) = (if k = l then v else option_value k h)"
  by (simp add: option_value_def update_conv')

lemma fold_option_other:
  assumes "\<forall>s\<in>set settings. setting_option s = BackendOptionUser \<longrightarrow> userOptionName s \<noteq> k" "k \<noteq> ''hash-type''" "k \<noteq> ''dir''"
  shows "option_value k (fold (option_step q) settings h) = option_value k h"
  using assms(1)
proof (induction settings arbitrary: h)
  case (Cons s ss)
  have "option_value k (option_step q s h) = option_value k h" using Cons.prems assms(2,3) by (auto simp: option_step_def)
  then show ?case using Cons by simp
qed simp

text \<open>Unless the settings say otherwise a storage is of type hashes, has contexts and is called soprano.\<close>

lemma storage_defaults:
  assumes "\<forall>s\<in>set settings. setting_option s = BackendOptionUser \<longrightarrow> userOptionName s \<notin> {''storageType'', ''name'', ''contexts''}"
  shows "option_value ''storageType'' (redland_options q files_in settings) = ''hashes''" "option_value ''name'' (redland_options q files_in settings) = ''soprano''"
    "option_value ''contexts'' (redland_options q files_in settings) = ''yes''"
proof -
  have "option_value k (fold (option_step q) settings default_options) = option_value k default_options" if "k \<in> {''storageType'', ''name'', ''contexts''}" for k
    using assms that by (intro fold_option_other) auto
  then show "option_value ''storageType'' (redland_options q files_in settings) = ''hashes''" "option_value ''name'' (redland_options q files_in settings) = ''soprano''"
    "option_value ''contexts'' (redland_options q files_in settings) = ''yes''"
    by (simp_all add: redland_options_def Let_def) (simp_all add: option_value_def default_options_def)
qed

text \<open>A name that comes after the directory is used for the storage, but not when its data are deleted: the files stay.\<close>

definition named_settings :: "setting list" where
  "named_settings = [option_setting BackendOptionStorageDir (VString ''d''), user_setting ''name'' (VString ''x'')]"

lemma later_name_not_deleted:
  "fst (snd (storage_texts plain_qt (\<lambda>d. []) named_settings)) = ''x'' \<and> data_place plain_qt named_settings ''soprano'' = (''d'', ''soprano'')"
  by (simp add: storage_texts_def redland_options_def named_settings_def default_options_def option_step_def option_setting_def user_setting_def mk_setting_def
      option_value_def as_text_def plain_qt_def Let_def)

text \<open>A quote in a value ends it: the rest is taken for options.\<close>

lemma quote_adds_option:
  "createRedlandOptionString [(''dir'', ''a'' @ [CHR 0x27] @ '',new='' @ [CHR 0x27] @ ''yes'')] =
   createRedlandOptionString [(''dir'', ''a''), (''new'', ''yes'')]"
  by code_simp

end
