(* ===== verification/Async_Query.thy ===== *)
theory Async_Query
  imports Binding_Set Soprano_Error "HOL-Library.Sublist"
begin

text \<open>
  Queries that run in a thread of their own (soprano/util/asyncquery.cpp): the thread goes through the result and waits after
  every row until the client asks for the next one. A step is what the thread or the client does between two points at which the
  other can notice; events wait in the queue of the client's thread. With a client that follows the documentation every run ends, with
  all rows delivered in order; other clients can lose rows and hang.
\<close>

section \<open>State\<close>

text \<open>What the model answers: the iterator, the rows as currentStatement and currentBindings show them, and the errors left behind.\<close>

record query_answer =
  qa_isValid :: bool
  qa_isGraph :: bool
  qa_isBinding :: bool
  qa_boolValue :: bool
  qa_names :: "qstring list"
  qa_rows :: "(statement \<times> binding_set) list"
  qa_modelError :: error
  qa_iteratorError :: error

datatype aq_type = UnknownResult | GraphResult | BindingResult | BooleanResult

datatype aq_event = NextReadyEvent | FinishedEvent

text \<open>Where the thread is: before and in the loop, about to take the mutex, with it, waiting, woken up, behind the loop, finished.\<close>

datatype aq_worker = AStart | ATest | ANext | ATestAgain | ALock | AHold | AWait | AWoken | AEnd | ADone

record async_query =
  aq_closed :: bool
  aq_statement :: statement
  aq_bindings :: binding_set
  aq_boolValue :: bool
  aq_names :: "qstring list"
  aq_type :: aq_type
  aq_error :: error
  aq_worker :: aq_worker
  aq_left :: "(statement \<times> binding_set) list"
  aq_row :: "statement \<times> binding_set"
  aq_events :: "aq_event list"
  aq_lastError :: error

text \<open>executeQuery.\<close>

definition aq_executeQuery :: "query_answer \<Rightarrow> async_query" where
  "aq_executeQuery A = \<lparr> aq_closed = False, aq_statement = empty_statement, aq_bindings = empty_bindings, aq_boolValue = False, aq_names = [],
     aq_type = UnknownResult, aq_error = NoError, aq_worker = AStart, aq_left = qa_rows A, aq_row = (empty_statement, empty_bindings),
     aq_events = [], aq_lastError = NoError \<rparr>"

text \<open>The mutex is held across steps by the thread only; the client takes it and gives it back within one step.\<close>

definition aq_locked :: "async_query \<Rightarrow> bool" where
  "aq_locked s \<longleftrightarrow> aq_worker s = AHold"

definition aq_wakeAll :: "async_query \<Rightarrow> async_query" where
  "aq_wakeAll s = (if aq_worker s = AWait then s\<lparr>aq_worker := AWoken\<rparr> else s)"

section \<open>The thread\<close>

definition answer_error :: "query_answer \<Rightarrow> error" where
  "answer_error A = (if \<not> err_occurred (qa_modelError A) then qa_iteratorError A else qa_modelError A)"

definition aq_store_row :: "query_answer \<Rightarrow> async_query \<Rightarrow> async_query" where
  "aq_store_row A s = (if aq_type s = GraphResult then s\<lparr>aq_statement := fst (aq_row s)\<rparr>
     else s\<lparr>aq_bindings := snd (aq_row s), aq_names := (if aq_names s = [] then qa_names A else aq_names s)\<rparr>)"

text \<open>None: the thread waits, or is finished.\<close>

definition aq_run :: "query_answer \<Rightarrow> async_query \<Rightarrow> async_query option" where
  "aq_run A s = (case aq_worker s of
       AStart \<Rightarrow> Some (if \<not> qa_isValid A then s\<lparr>aq_worker := AEnd\<rparr>
         else if qa_isGraph A then s\<lparr>aq_type := GraphResult, aq_worker := ATest\<rparr>
         else if qa_isBinding A then s\<lparr>aq_type := BindingResult, aq_worker := ATest\<rparr>
         else s\<lparr>aq_boolValue := qa_boolValue A, aq_type := BooleanResult, aq_worker := AEnd\<rparr>)
     | ATest \<Rightarrow> Some (s\<lparr>aq_worker := if aq_closed s then AEnd else ANext\<rparr>)
     | ANext \<Rightarrow> Some (case aq_left s of [] \<Rightarrow> s\<lparr>aq_worker := AEnd\<rparr> | r # rs \<Rightarrow> s\<lparr>aq_worker := ATestAgain, aq_left := rs, aq_row := r\<rparr>)
     | ATestAgain \<Rightarrow> Some (s\<lparr>aq_worker := if aq_closed s then AEnd else ALock\<rparr>)
     | ALock \<Rightarrow> Some ((aq_store_row A s)\<lparr>aq_worker := AHold, aq_events := aq_events s @ [NextReadyEvent]\<rparr>)
     | AHold \<Rightarrow> Some (s\<lparr>aq_worker := AWait\<rparr>)
     | AWait \<Rightarrow> None
     | AWoken \<Rightarrow> Some (s\<lparr>aq_worker := ATest\<rparr>)
     | AEnd \<Rightarrow> Some (s\<lparr>aq_error := answer_error A, aq_worker := ADone, aq_events := aq_events s @ [FinishedEvent]\<rparr>)
     | ADone \<Rightarrow> None)"

section \<open>The calls of the client\<close>

text \<open>None: the call blocks until the thread gives the mutex back.\<close>

definition aq_read :: "(async_query \<Rightarrow> 'a) \<Rightarrow> async_query \<Rightarrow> 'a option" where
  "aq_read f s = (if aq_locked s then None else Some (f s))"

definition aq_currentStatement :: "async_query \<Rightarrow> statement option" where "aq_currentStatement = aq_read aq_statement"
definition aq_currentBindings :: "async_query \<Rightarrow> binding_set option" where "aq_currentBindings = aq_read aq_bindings"
definition aq_get_boolValue :: "async_query \<Rightarrow> bool option" where "aq_get_boolValue = aq_read aq_boolValue"
definition aq_binding_name :: "qstring \<Rightarrow> async_query \<Rightarrow> node option" where "aq_binding_name v = aq_read (\<lambda>s. value_of (aq_bindings s) v)"
definition aq_binding_at :: "int \<Rightarrow> async_query \<Rightarrow> node option" where "aq_binding_at i = aq_read (\<lambda>s. value_at (aq_bindings s) i)"
definition aq_bindingCount :: "async_query \<Rightarrow> nat option" where "aq_bindingCount = aq_read (\<lambda>s. length (aq_names s))"
definition aq_bindingNames :: "async_query \<Rightarrow> qstring list option" where "aq_bindingNames = aq_read aq_names"
definition aq_isGraph :: "async_query \<Rightarrow> bool option" where "aq_isGraph = aq_read (\<lambda>s. aq_type s = GraphResult)"
definition aq_isBinding :: "async_query \<Rightarrow> bool option" where "aq_isBinding = aq_read (\<lambda>s. aq_type s = BindingResult)"
definition aq_isBool :: "async_query \<Rightarrow> bool option" where "aq_isBool = aq_read (\<lambda>s. aq_type s = BooleanResult)"

definition aq_next :: "async_query \<Rightarrow> (bool \<times> async_query) option" where
  "aq_next s = (if aq_worker s = ADone then Some (False, s) else if aq_locked s then None else Some (True, aq_wakeAll s))"

definition aq_close :: "async_query \<Rightarrow> async_query option" where
  "aq_close s = (if aq_locked s then None else Some (aq_wakeAll (s\<lparr>aq_closed := True\<rparr>)))"

text \<open>The destructor closes the query and returns once the thread is finished.\<close>

definition aq_destroyed :: "async_query \<Rightarrow> bool" where
  "aq_destroyed s \<longleftrightarrow> aq_closed s \<and> aq_worker s = ADone"

definition aq_s_finished :: "async_query \<Rightarrow> async_query" where
  "aq_s_finished s = s\<lparr>aq_lastError := aq_error s\<rparr>"

section \<open>A client that follows the documentation\<close>

text \<open>It reads the row when nextReady is emitted, then asks for the next one or closes the query.\<close>

datatype aq_client = KLoop | KSlot | KRead | KOver

type_synonym aq_system = "aq_client \<times> (statement \<times> binding_set) list \<times> async_query"

inductive aq_step :: "query_answer \<Rightarrow> aq_system \<Rightarrow> aq_system \<Rightarrow> bool" for A where
  aq_thread: "aq_run A s = Some s' \<Longrightarrow> aq_step A (k, seen, s) (k, seen, s')"
| aq_ready: "aq_events s = NextReadyEvent # es \<Longrightarrow> aq_step A (KLoop, seen, s) (KSlot, seen, s\<lparr>aq_events := es\<rparr>)"
| aq_reads: "aq_currentStatement s = Some t \<Longrightarrow> aq_currentBindings s = Some b \<Longrightarrow> aq_step A (KSlot, seen, s) (KRead, seen @ [(t, b)], s)"
| aq_goes_on: "aq_next s = Some (x, s') \<Longrightarrow> aq_step A (KRead, seen, s) (KLoop, seen, s')"
| aq_closes: "aq_close s = Some s' \<Longrightarrow> aq_step A (KRead, seen, s) (KLoop, seen, s')"
| aq_finishes: "aq_events s = FinishedEvent # es \<Longrightarrow> aq_step A (KLoop, seen, s) (KOver, seen, aq_s_finished (s\<lparr>aq_events := es\<rparr>))"

definition aq_init :: "query_answer \<Rightarrow> aq_system" where
  "aq_init A = (KLoop, [], aq_executeQuery A)"

definition aq_reach :: "query_answer \<Rightarrow> aq_system \<Rightarrow> bool" where
  "aq_reach A = (aq_step A)\<^sup>*\<^sup>* (aq_init A)"

text \<open>What it is to see.\<close>

definition delivered :: "query_answer \<Rightarrow> (statement \<times> binding_set) list" where
  "delivered A = (if \<not> qa_isValid A then []
     else if qa_isGraph A then map (\<lambda>r. (fst r, empty_bindings)) (qa_rows A)
     else if qa_isBinding A then map (\<lambda>r. (empty_statement, snd r)) (qa_rows A) else [])"

section \<open>Every run delivers and ends\<close>

definition shown :: "query_answer \<Rightarrow> statement \<times> binding_set \<Rightarrow> statement \<times> binding_set" where
  "shown A r = (if qa_isGraph A then (fst r, empty_bindings) else (empty_statement, snd r))"

definition aq_typed :: "query_answer \<Rightarrow> async_query \<Rightarrow> bool" where
  "aq_typed A s \<longleftrightarrow> qa_isValid A \<and> (qa_isGraph A \<or> qa_isBinding A) \<and>
     aq_type s = (if qa_isGraph A then GraphResult else BindingResult) \<and>
     (qa_isGraph A \<longrightarrow> aq_bindings s = empty_bindings) \<and> (\<not> qa_isGraph A \<longrightarrow> aq_statement s = empty_statement)"

text \<open>In the loop: the rows seen, the row in between, the rows left.\<close>

definition aq_at :: "query_answer \<Rightarrow> (statement \<times> binding_set) list \<Rightarrow> (statement \<times> binding_set) list \<Rightarrow> async_query \<Rightarrow> bool" where
  "aq_at A seen here s \<longleftrightarrow> aq_typed A s \<and> delivered A = seen @ here @ map (shown A) (aq_left s)"

abbreviation aq_shows :: "async_query \<Rightarrow> statement \<times> binding_set" where
  "aq_shows s \<equiv> (aq_statement s, aq_bindings s)"

fun aq_inv :: "query_answer \<Rightarrow> aq_system \<Rightarrow> bool" where
  "aq_inv A (k, seen, s) \<longleftrightarrow> (case aq_worker s of
       AStart \<Rightarrow> (k, seen, s) = aq_init A
     | ATest \<Rightarrow> k = KLoop \<and> aq_events s = [] \<and> aq_at A seen [] s
     | ANext \<Rightarrow> k = KLoop \<and> aq_events s = [] \<and> aq_at A seen [] s \<and> \<not> aq_closed s
     | ATestAgain \<Rightarrow> k = KLoop \<and> aq_events s = [] \<and> aq_at A seen [shown A (aq_row s)] s \<and> \<not> aq_closed s
     | ALock \<Rightarrow> k = KLoop \<and> aq_events s = [] \<and> aq_at A seen [shown A (aq_row s)] s \<and> \<not> aq_closed s
     | AHold \<Rightarrow> \<not> aq_closed s \<and> (k = KLoop \<and> aq_events s = [NextReadyEvent] \<or> k = KSlot \<and> aq_events s = []) \<and> aq_at A seen [aq_shows s] s
     | AWait \<Rightarrow> \<not> aq_closed s \<and> ((k = KLoop \<and> aq_events s = [NextReadyEvent] \<or> k = KSlot \<and> aq_events s = []) \<and> aq_at A seen [aq_shows s] s \<or>
          k = KRead \<and> aq_events s = [] \<and> aq_at A seen [] s)
     | AWoken \<Rightarrow> k = KLoop \<and> aq_events s = [] \<and> aq_at A seen [] s
     | AEnd \<Rightarrow> k = KLoop \<and> aq_events s = [] \<and> prefix seen (delivered A) \<and> (aq_closed s \<or> seen = delivered A)
     | ADone \<Rightarrow> (k = KLoop \<and> aq_events s = [FinishedEvent] \<or> k = KOver \<and> aq_lastError s = answer_error A) \<and> aq_error s = answer_error A \<and>
          prefix seen (delivered A) \<and> (aq_closed s \<or> seen = delivered A))"

declare aq_inv.simps [simp del]

lemma aq_inv_init: "aq_inv A (aq_init A)"
  by (simp add: aq_init_def aq_inv.simps aq_executeQuery_def)


lemma store_row_shows:
  "aq_typed A s \<Longrightarrow> aq_typed A (aq_store_row A s) \<and> aq_shows (aq_store_row A s) = shown A (aq_row s)"
  by (auto simp: aq_typed_def aq_store_row_def shown_def)

lemma store_row_keeps [simp]:
  "aq_closed (aq_store_row A s) = aq_closed s" "aq_worker (aq_store_row A s) = aq_worker s" "aq_left (aq_store_row A s) = aq_left s"
  "aq_events (aq_store_row A s) = aq_events s"
  by (simp_all add: aq_store_row_def)

lemma at_cong:
  "aq_at A seen here (s\<lparr>aq_worker := w\<rparr>) = aq_at A seen here s" "aq_at A seen here (s\<lparr>aq_events := es\<rparr>) = aq_at A seen here s"
  "aq_at A seen here (s\<lparr>aq_closed := c\<rparr>) = aq_at A seen here s"
  by (simp_all add: aq_at_def aq_typed_def)

lemma at_start:
  assumes "qa_isValid A" "qa_isGraph A \<or> qa_isBinding A"
  shows "aq_at A [] [] ((aq_executeQuery A)\<lparr>aq_type := (if qa_isGraph A then GraphResult else BindingResult), aq_worker := w\<rparr>)"
  using assms by (auto simp: aq_at_def aq_typed_def aq_executeQuery_def delivered_def shown_def)

lemma at_next: "aq_at A seen [] s \<Longrightarrow> aq_left s = r # rs \<Longrightarrow> aq_at A seen [shown A r] (s\<lparr>aq_worker := w, aq_left := rs, aq_row := r\<rparr>)"
  by (simp add: aq_at_def aq_typed_def)

lemma at_store:
  "aq_at A seen [shown A (aq_row s)] s \<Longrightarrow> aq_at A seen [aq_shows (aq_store_row A s)] (aq_store_row A s)"
  using store_row_shows[of A s] by (simp add: aq_at_def)

lemma at_prefix: "aq_at A seen here s \<Longrightarrow> prefix seen (delivered A)"
  by (simp add: aq_at_def)

lemma at_end: "aq_at A seen [] s \<Longrightarrow> aq_left s = [] \<Longrightarrow> seen = delivered A"
  by (simp add: aq_at_def)

lemma inv_thread:
  assumes "aq_inv A (k, seen, s)" "aq_run A s = Some s'"
  shows "aq_inv A (k, seen, s')"
proof (cases "aq_worker s")
  case AStart
  then have s: "k = KLoop" "seen = []" "s = aq_executeQuery A" using assms(1) by (simp_all add: aq_inv.simps aq_init_def)
  show ?thesis
  proof (cases "qa_isValid A \<and> (qa_isGraph A \<or> qa_isBinding A)")
    case True
    then have "s' = s\<lparr>aq_type := (if qa_isGraph A then GraphResult else BindingResult), aq_worker := ATest\<rparr>"
      using assms(2) AStart by (auto simp: aq_run_def)
    then show ?thesis using at_start True by (simp add: aq_inv.simps s) (simp add: aq_executeQuery_def)
  next
    case False
    then show ?thesis using assms(2) AStart by (auto simp: aq_run_def aq_inv.simps s delivered_def aq_executeQuery_def split: if_splits)
  qed
next
  case ANext
  then show ?thesis using assms at_next at_end at_prefix by (cases "aq_left s") (fastforce simp: aq_run_def aq_inv.simps at_cong)+
next
  case ALock
  then show ?thesis using assms at_store by (auto simp: aq_run_def aq_inv.simps at_cong)
qed (use assms at_prefix in \<open>auto simp: aq_run_def aq_inv.simps at_cong split: if_splits\<close>)

lemma inv_step: "aq_step A x y \<Longrightarrow> aq_inv A x \<Longrightarrow> aq_inv A y"
proof (induction rule: aq_step.induct)
  case (aq_thread s s' k seen)
  then show ?case using inv_thread by blast
next
  case (aq_ready s es seen)
  then show ?case by (cases "aq_worker s") (auto simp: aq_inv.simps aq_init_def aq_executeQuery_def at_cong)
next
  case (aq_reads s t b seen)
  then show ?case
    by (cases "aq_worker s") (auto simp: aq_inv.simps aq_init_def aq_executeQuery_def aq_currentStatement_def aq_currentBindings_def aq_read_def aq_locked_def aq_at_def)
next
  case (aq_goes_on s x s' seen)
  then show ?case
    by (cases "aq_worker s") (auto simp: aq_inv.simps aq_init_def aq_next_def aq_wakeAll_def aq_locked_def at_cong)
next
  case (aq_closes s s' seen)
  then show ?case
    by (cases "aq_worker s") (auto simp: aq_inv.simps aq_init_def aq_close_def aq_wakeAll_def aq_locked_def at_cong)
next
  case (aq_finishes s es seen)
  then show ?case by (cases "aq_worker s") (auto simp: aq_inv.simps aq_init_def aq_executeQuery_def aq_s_finished_def)
qed

lemma reach_inv: "aq_reach A x \<Longrightarrow> aq_inv A x"
  unfolding aq_reach_def by (induction rule: rtranclp_induct) (auto intro: aq_inv_init inv_step)


text \<open>One schedule that a run can follow: the thread as long as it can, then the client.\<close>

fun aq_advance :: "query_answer \<Rightarrow> aq_system \<Rightarrow> aq_system option" where
  "aq_advance A (k, seen, s) = (case aq_run A s of
       Some s' \<Rightarrow> Some (k, seen, s')
     | None \<Rightarrow> (case k of
           KLoop \<Rightarrow> (case aq_events s of
               [] \<Rightarrow> None
             | NextReadyEvent # es \<Rightarrow> Some (KSlot, seen, s\<lparr>aq_events := es\<rparr>)
             | FinishedEvent # es \<Rightarrow> Some (KOver, seen, aq_s_finished (s\<lparr>aq_events := es\<rparr>)))
         | KSlot \<Rightarrow> (case (aq_currentStatement s, aq_currentBindings s) of
               (Some t, Some b) \<Rightarrow> Some (KRead, seen @ [(t, b)], s)
             | _ \<Rightarrow> None)
         | KRead \<Rightarrow> map_option (\<lambda>(x, s'). (KLoop, seen, s')) (aq_next s)
         | KOver \<Rightarrow> None))"

lemma advance_step: "aq_advance A x = Some y \<Longrightarrow> aq_step A x y"
  by (cases x) (auto split: option.splits aq_client.splits list.splits aq_event.splits intro: aq_step.intros)

fun aq_follow :: "query_answer \<Rightarrow> nat \<Rightarrow> aq_system \<Rightarrow> aq_system" where
  "aq_follow A 0 x = x"
| "aq_follow A (Suc n) x = (case aq_advance A x of None \<Rightarrow> x | Some y \<Rightarrow> aq_follow A n y)"

lemma follow_reach: "aq_reach A x \<Longrightarrow> aq_reach A (aq_follow A n x)"
proof (induction n arbitrary: x)
  case (Suc n)
  show ?case
  proof (cases "aq_advance A x")
    case (Some y)
    then have "aq_reach A y" using Suc.prems advance_step unfolding aq_reach_def by (meson rtranclp.rtrancl_into_rtrancl)
    then show ?thesis using Suc.IH Some by simp
  qed (use Suc.prems in simp)
qed simp

lemma inv_advance: "aq_inv A (k, seen, s) \<Longrightarrow> k \<noteq> KOver \<Longrightarrow> aq_advance A (k, seen, s) \<noteq> None"
proof -
  assume i: "aq_inv A (k, seen, s)" "k \<noteq> KOver"
  show ?thesis
  proof (cases "aq_worker s")
    case AWait
    then show ?thesis using i
      by (auto simp: aq_inv.simps aq_run_def aq_currentStatement_def aq_currentBindings_def aq_read_def aq_locked_def aq_next_def)
  next
    case ADone
    then show ?thesis using i by (auto simp: aq_inv.simps aq_run_def)
  qed (simp_all add: aq_run_def)
qed

text \<open>What is left to do: rows, places in the loop, events.\<close>

fun aq_worker_rank :: "aq_worker \<Rightarrow> nat" where
  "aq_worker_rank AStart = 6"
| "aq_worker_rank ATest = 5"
| "aq_worker_rank ANext = 4"
| "aq_worker_rank ATestAgain = 18"
| "aq_worker_rank ALock = 17"
| "aq_worker_rank AHold = 9"
| "aq_worker_rank AWait = 8"
| "aq_worker_rank AWoken = 7"
| "aq_worker_rank AEnd = 3"
| "aq_worker_rank ADone = 0"

fun aq_client_rank :: "aq_client \<Rightarrow> nat" where
  "aq_client_rank KLoop = 1"
| "aq_client_rank KSlot = 3"
| "aq_client_rank KRead = 2"
| "aq_client_rank KOver = 0"

fun event_rank :: "aq_event \<Rightarrow> nat" where
  "event_rank NextReadyEvent = 4"
| "event_rank FinishedEvent = 2"

fun aq_rank :: "aq_system \<Rightarrow> nat" where
  "aq_rank (k, seen, s) = 20 * length (aq_left s) + aq_worker_rank (aq_worker s) + aq_client_rank k + sum_list (map event_rank (aq_events s))"

lemma rank_less: "aq_step A x y \<Longrightarrow> aq_rank y < aq_rank x"
proof (induction rule: aq_step.induct)
  case (aq_thread s s' k seen)
  then show ?case by (cases "aq_worker s") (auto simp: aq_run_def split: if_splits list.splits)
next
  case (aq_goes_on s x s' seen)
  then show ?case by (auto simp: aq_next_def aq_wakeAll_def split: if_splits)
next
  case (aq_closes s s' seen)
  then show ?case by (auto simp: aq_close_def aq_wakeAll_def split: if_splits)
qed (auto simp: aq_s_finished_def)

text \<open>Claim C30: A query in a thread of its own: a client that reads every row when it is told to, and then asks for the next one or closes the query, has
  at any time seen the first rows of the answer, in order; when the query is finished it has seen all of them, or has closed the query,
  and the error is the one of the answer; until then something can always happen, and every run ends.\<close>

theorem async_query_delivers:
  assumes "aq_reach A (k, seen, s)"
  shows "prefix seen (delivered A) \<and>
    (k = KOver \<longrightarrow> (aq_closed s \<or> seen = delivered A) \<and> aq_lastError s = answer_error A) \<and>
    (k \<noteq> KOver \<longrightarrow> (\<exists>x. aq_step A (k, seen, s) x)) \<and>
    (\<forall>x. aq_step A (k, seen, s) x \<longrightarrow> aq_rank x < aq_rank (k, seen, s))"
proof (intro conjI)
  have i: "aq_inv A (k, seen, s)" using reach_inv[OF assms] .
  show "prefix seen (delivered A)"
    using i at_prefix by (cases "aq_worker s") (auto simp: aq_inv.simps aq_init_def)
  show "k = KOver \<longrightarrow> (aq_closed s \<or> seen = delivered A) \<and> aq_lastError s = answer_error A"
    using i by (cases "aq_worker s") (auto simp: aq_inv.simps aq_init_def)
  show "k \<noteq> KOver \<longrightarrow> (\<exists>x. aq_step A (k, seen, s) x)"
    using inv_advance[OF i] advance_step by blast
qed (use rank_less in blast)

text \<open>An answer with two rows, followed to its end.\<close>

definition two_rows :: query_answer where
  "two_rows = \<lparr> qa_isValid = True, qa_isGraph = False, qa_isBinding = True, qa_boolValue = False, qa_names = [''x''],
     qa_rows = [(empty_statement, bs_insert ''x'' (node_of_id ''a'') empty_bindings), (empty_statement, bs_insert ''x'' (node_of_id ''b'') empty_bindings)],
     qa_modelError = NoError, qa_iteratorError = NoError \<rparr>"

lemma init_reach: "aq_reach A (aq_init A)"
  by (simp add: aq_reach_def)

theorem async_query_delivers_witness:
  "\<exists>s. aq_follow two_rows 30 (aq_init two_rows) = (KOver, delivered two_rows, s) \<and> length (delivered two_rows) = 2 \<and> aq_lastError s = NoError"
proof -
  obtain k seen s where f: "aq_follow two_rows 30 (aq_init two_rows) = (k, seen, s)" by (metis prod_cases3)
  have "(\<lambda>(k, seen, s). k = KOver \<and> \<not> aq_closed s) (aq_follow two_rows 30 (aq_init two_rows))" by code_simp
  then have "k = KOver \<and> \<not> aq_closed s" by (simp add: f)
  moreover have "aq_reach two_rows (k, seen, s)" using follow_reach[OF init_reach, of two_rows 30] unfolding f .
  moreover have "answer_error two_rows = NoError" "length (delivered two_rows) = 2" by (simp_all add: answer_error_def two_rows_def delivered_def)
  ultimately show ?thesis using async_query_delivers[of two_rows k seen s] f by simp
qed

section \<open>Other clients\<close>

text \<open>Closing or deleting a query while its thread is between the test and the mutex: the thread waits for a call that never comes, and the
  destructor waits for the thread.\<close>

fun aq_runs :: "query_answer \<Rightarrow> nat \<Rightarrow> async_query \<Rightarrow> async_query" where
  "aq_runs A 0 s = s"
| "aq_runs A (Suc n) s = (case aq_run A s of None \<Rightarrow> s | Some s' \<Rightarrow> aq_runs A n s')"

definition closed_late :: async_query where
  "closed_late = aq_runs two_rows 10 (the (aq_close (aq_runs two_rows 4 (aq_executeQuery two_rows))))"

lemma closed_query_hangs:
  "aq_closed closed_late" "aq_worker closed_late = AWait" "aq_run two_rows closed_late = None" "\<not> aq_destroyed closed_late"
  by code_simp+

text \<open>Asking twice: the second call wakes the thread on the next row, which nobody has read.\<close>

definition asked_twice :: async_query where
  "asked_twice = (let s1 = aq_runs two_rows 10 (aq_executeQuery two_rows);
       s2 = aq_runs two_rows 10 (snd (the (aq_next s1)))
     in aq_runs two_rows 10 (snd (the (aq_next s2))))"

lemma row_lost:
  "aq_events asked_twice = [NextReadyEvent, NextReadyEvent, FinishedEvent]"
  "value_of (aq_bindings asked_twice) ''x'' = node_of_id ''b''"
  by code_simp+

text \<open>After the last row next still reports success.\<close>

lemma next_after_last:
  "(let s1 = aq_runs two_rows 10 (aq_executeQuery two_rows); s2 = aq_runs two_rows 10 (snd (the (aq_next s1)))
    in aq_left s2 = [] \<and> map_option fst (aq_next s2) = Some True)"
  by code_simp

end
