(* ===== verification/Signal_Cache.thy ===== *)
theory Signal_Cache
  imports Main
begin

text \<open>
  The model that collects signals (soprano/util/signalcachemodel.cpp): a change of the parent starts a timer, and when it fires
  one signal announces all changes so far. Receivers of a signal run at once and may change the model themselves; no change is forgotten
  unless a receiver makes one of the kind it was told of.
\<close>

datatype sc_kind = StatementsAdded | StatementsRemoved

record signal_cache =
  addTimer :: bool
  removeTimer :: bool
  sc_cacheTime :: int

definition new_signal_cache :: signal_cache where
  "new_signal_cache = \<lparr> addTimer = False, removeTimer = False, sc_cacheTime = 50 \<rparr>"

definition setCacheTime :: "int \<Rightarrow> signal_cache \<Rightarrow> signal_cache" where
  "setCacheTime msec st = st\<lparr>sc_cacheTime := max 0 msec\<rparr>"

definition parentStatementsAdded :: "signal_cache \<Rightarrow> signal_cache" where
  "parentStatementsAdded st = (if \<not> addTimer st then st\<lparr>addTimer := True\<rparr> else st)"

definition parentStatementsRemoved :: "signal_cache \<Rightarrow> signal_cache" where
  "parentStatementsRemoved st = (if \<not> removeTimer st then st\<lparr>removeTimer := True\<rparr> else st)"

fun parent_changed :: "sc_kind \<Rightarrow> signal_cache \<Rightarrow> signal_cache" where
  "parent_changed StatementsAdded = parentStatementsAdded"
| "parent_changed StatementsRemoved = parentStatementsRemoved"

fun sc_active :: "sc_kind \<Rightarrow> signal_cache \<Rightarrow> bool" where
  "sc_active StatementsAdded = addTimer"
| "sc_active StatementsRemoved = removeTimer"

fun sc_stop :: "sc_kind \<Rightarrow> signal_cache \<Rightarrow> signal_cache" where
  "sc_stop StatementsAdded st = st\<lparr>addTimer := False\<rparr>"
| "sc_stop StatementsRemoved st = st\<lparr>removeTimer := False\<rparr>"

text \<open>What happened, the last thing first.\<close>

datatype sc_note = Changed sc_kind | Signalled sc_kind

definition sc_change :: "sc_kind \<Rightarrow> sc_note list \<times> signal_cache \<Rightarrow> sc_note list \<times> signal_cache" where
  "sc_change k = (\<lambda>(happened, st). (Changed k # happened, parent_changed k st))"

text \<open>timerEvent: the signal is emitted, and its receivers run, before the timer is stopped.\<close>

definition sc_timerEvent :: "(sc_kind \<Rightarrow> sc_kind list) \<Rightarrow> sc_kind \<Rightarrow> sc_note list \<times> signal_cache \<Rightarrow> sc_note list \<times> signal_cache" where
  "sc_timerEvent receivers k = (\<lambda>(happened, st). case fold sc_change (receivers k) (Signalled k # happened, st) of (happened, st) \<Rightarrow> (happened, sc_stop k st))"

datatype sc_event = ParentChange sc_kind | Timeout sc_kind | SetTime int

fun sc_step :: "(sc_kind \<Rightarrow> sc_kind list) \<Rightarrow> sc_event \<Rightarrow> sc_note list \<times> signal_cache \<Rightarrow> sc_note list \<times> signal_cache" where
  "sc_step receivers (ParentChange k) x = sc_change k x"
| "sc_step receivers (Timeout k) x = (if sc_active k (snd x) then sc_timerEvent receivers k x else x)"
| "sc_step receivers (SetTime t) (happened, st) = (happened, setCacheTime t st)"

definition sc_run :: "(sc_kind \<Rightarrow> sc_kind list) \<Rightarrow> sc_event list \<Rightarrow> sc_note list \<times> signal_cache" where
  "sc_run receivers es = fold (sc_step receivers) es ([], new_signal_cache)"

section \<open>No change is forgotten\<close>

text \<open>There is a change that no signal has followed.\<close>

fun unannounced :: "sc_kind \<Rightarrow> sc_note list \<Rightarrow> bool" where
  "unannounced k [] = False"
| "unannounced k (Changed k' # happened) = (k' = k \<or> unannounced k happened)"
| "unannounced k (Signalled k' # happened) = (k' \<noteq> k \<and> unannounced k happened)"

lemma active_changed: "sc_active k (parent_changed k' st) = (k' = k \<or> sc_active k st)"
  by (cases k; cases k') (simp_all add: parentStatementsAdded_def parentStatementsRemoved_def)

lemma active_stop: "sc_active k (sc_stop k' st) = (k' \<noteq> k \<and> sc_active k st)"
  by (cases k; cases k') simp_all

lemma active_setTime: "sc_active k (setCacheTime t st) = sc_active k st"
  by (cases k) (simp_all add: setCacheTime_def)

definition in_step :: "sc_note list \<times> signal_cache \<Rightarrow> sc_kind \<Rightarrow> bool" where
  "in_step x k \<longleftrightarrow> sc_active k (snd x) = unannounced k (fst x)"

lemma in_step_changes: "in_step x k \<Longrightarrow> in_step (fold sc_change ks x) k"
  by (induction ks arbitrary: x) (auto simp: in_step_def sc_change_def active_changed split: prod.splits)

lemma unannounced_changes: "unannounced k (fst (fold sc_change ks x)) = (k \<in> set ks \<or> unannounced k (fst x))"
  by (induction ks arbitrary: x) (auto simp: sc_change_def split: prod.splits)

lemma in_step_timer:
  assumes x: "in_step x k'" and r: "k \<notin> set (receivers k)"
  shows "in_step (sc_timerEvent receivers k x) k'"
proof -
  obtain happened st where p: "x = (happened, st)" by (cases x)
  let ?y = "fold sc_change (receivers k) (Signalled k # happened, st)"
  show ?thesis
  proof (cases "k' = k")
    case True
    then show ?thesis using unannounced_changes[of k "receivers k" "(Signalled k # happened, st)"] r
      by (cases "fold sc_change (receivers k) (Signalled k # happened, st)") (simp add: p sc_timerEvent_def in_step_def active_stop)
  next
    case False
    then have "in_step (Signalled k # happened, st) k'" using x by (auto simp: p in_step_def)
    then have "in_step ?y k'" by (rule in_step_changes)
    then show ?thesis using False by (auto simp: p sc_timerEvent_def in_step_def active_stop split: prod.splits)
  qed
qed

text \<open>While no receiver makes a change of the kind it is told of, a timer runs just when there is something to announce.\<close>

lemma signals_announce_changes:
  assumes "\<And>k. k \<notin> set (receivers k)"
  shows "sc_active k (snd (sc_run receivers es)) = unannounced k (fst (sc_run receivers es))"
proof -
  have step: "in_step (sc_step receivers e x) k" if "in_step x k" for e x
  proof (cases e)
    case (ParentChange k')
    then show ?thesis using in_step_changes[OF that, of "[k']"] by simp
  next
    case (Timeout k')
    then show ?thesis using in_step_timer[OF that] assms that by simp
  next
    case (SetTime t)
    then show ?thesis using that by (cases x) (simp add: in_step_def active_setTime)
  qed
  have "in_step (fold (sc_step receivers) es x) k" if "in_step x k" for x
    using that
  proof (induction es arbitrary: x)
    case (Cons e es)
    show ?case using Cons.IH[OF step[OF Cons.prems]] by simp
  qed simp
  moreover have "in_step ([], new_signal_cache) k" by (cases k) (simp_all add: in_step_def new_signal_cache_def)
  ultimately show ?thesis by (simp add: sc_run_def in_step_def)
qed

text \<open>A change that a receiver of statementsAdded makes by adding something is never announced.\<close>

lemma change_by_receiver_lost:
  "let (happened, st) = sc_run (\<lambda>k. if k = StatementsAdded then [StatementsAdded] else []) [ParentChange StatementsAdded, Timeout StatementsAdded]
   in unannounced StatementsAdded happened \<and> \<not> sc_active StatementsAdded st"
  by (simp add: sc_run_def sc_change_def sc_timerEvent_def new_signal_cache_def parentStatementsAdded_def)

end
