(* ===== verification/Ini_File.thy ===== *)
theory Ini_File
  imports Soprano_Prelude "HOL-Library.AList"
begin

text \<open>
  Configuration files (soprano/inifile.cpp), desktop files (desktopfile.cpp) and the files that describe plugins
  (sopranopluginfile.cpp). A file in the usual form is read as the table it stands for; what the expression for an entry does with
  other equal signs and with blanks, and what reading an entry does to the table, is stated at the end.
\<close>

section \<open>IniFile\<close>

type_synonym ini_group = "(qstring \<times> qstring) list"
type_synonym ini_entries = "(qstring \<times> ini_group) list"

record ini_file =
  ini_fileName :: qstring
  ini_entries :: ini_entries

definition new_ini_file :: ini_file where
  "new_ini_file = \<lparr> ini_fileName = [], ini_entries = [] \<rparr>"

definition group_of :: "ini_entries \<Rightarrow> qstring \<Rightarrow> ini_group" where
  "group_of es g = (case map_of es g of None \<Rightarrow> [] | Some m \<Rightarrow> m)"

text \<open>entries[group][key] = value.\<close>

definition ini_put :: "qstring \<Rightarrow> qstring \<Rightarrow> qstring \<Rightarrow> ini_entries \<Rightarrow> ini_entries" where
  "ini_put g k v es = AList.update g (AList.update k v (group_of es g)) es"

text \<open>groupEx: everything between the brackets.\<close>

definition match_group :: "qstring \<Rightarrow> qstring option" where
  "match_group ln = (if 2 \<le> length ln \<and> hd ln = CHR ''['' \<and> last ln = CHR '']'' then Some (butlast (tl ln)) else None)"

text \<open>entryEx: the key is as long as it can be, without a blank, up to an equal sign.\<close>

definition match_entry :: "qstring \<Rightarrow> (qstring \<times> qstring) option" where
  "match_entry ln =
     (let front = rev (takeWhile (\<lambda>c. \<not> is_space c) ln); rest = dropWhile (\<lambda>c. \<not> is_space c) ln in
      case dropWhile (\<lambda>c. c \<noteq> CHR ''='') front of
        [] \<Rightarrow> None
      | e # key \<Rightarrow> Some (rev key, rev (takeWhile (\<lambda>c. c \<noteq> CHR ''='') front) @ rest))"

fun ini_lines :: "qstring \<Rightarrow> ini_entries \<Rightarrow> qstring list \<Rightarrow> ini_entries option" where
  "ini_lines g es [] = Some es"
| "ini_lines g es (ln # lns) =
     (if ln = [] \<or> hd ln = CHR ''#'' then ini_lines g es lns
      else (case match_group ln of
          Some g \<Rightarrow> ini_lines g es lns
        | None \<Rightarrow> (case match_entry ln of
              Some (k, v) \<Rightarrow> ini_lines g (ini_put g k v es) lns
            | None \<Rightarrow> None)))"

definition ini_close :: "ini_file \<Rightarrow> ini_file" where
  "ini_close f = f\<lparr>ini_entries := []\<rparr>"

text \<open>\<open>files\<close>: the lines of the files that can be read.\<close>

definition ini_open :: "(qstring \<rightharpoonup> qstring list) \<Rightarrow> qstring \<Rightarrow> ini_file \<Rightarrow> bool \<times> ini_file" where
  "ini_open files path f = (case files path of
       None \<Rightarrow> (False, ini_close f)
     | Some lns \<Rightarrow> (case ini_lines [] [] lns of
           None \<Rightarrow> (False, ini_close f)
         | Some es \<Rightarrow> (True, f\<lparr>ini_fileName := path, ini_entries := es\<rparr>)))"

definition ini_groups :: "ini_file \<Rightarrow> qstring list" where
  "ini_groups f = map fst (ini_entries f)"

text \<open>readEntry uses the writing operator of the tables: what is missing is entered.\<close>

definition ini_readEntry :: "qstring \<Rightarrow> qstring \<Rightarrow> ini_file \<Rightarrow> qstring \<times> ini_file" where
  "ini_readEntry g k f =
     (let v = (case map_of (group_of (ini_entries f) g) k of None \<Rightarrow> [] | Some v \<Rightarrow> v)
      in (v, f\<lparr>ini_entries := ini_put g k v (ini_entries f)\<rparr>))"

section \<open>DesktopFile and SopranoPluginFile\<close>

definition desktopEntryGroup :: qstring where
  "desktopEntryGroup = ''Desktop Entry''"

definition desktop_open :: "(qstring \<rightharpoonup> qstring list) \<Rightarrow> qstring \<Rightarrow> ini_file \<Rightarrow> bool \<times> ini_file" where
  "desktop_open files path f = (case ini_open files path f of
       (True, f) \<Rightarrow> (length (ini_groups f) = 1 \<and> ini_groups f ! 0 = desktopEntryGroup, f)
     | (False, f) \<Rightarrow> (False, f))"

definition desktop_name :: "ini_file \<Rightarrow> qstring \<times> ini_file" where "desktop_name = ini_readEntry desktopEntryGroup ''Name''"
definition desktop_comment :: "ini_file \<Rightarrow> qstring \<times> ini_file" where "desktop_comment = ini_readEntry desktopEntryGroup ''Comment''"
definition desktop_type :: "ini_file \<Rightarrow> qstring \<times> ini_file" where "desktop_type = ini_readEntry desktopEntryGroup ''Type''"
definition desktop_serviceTypes :: "ini_file \<Rightarrow> qstring \<times> ini_file" where
  "desktop_serviceTypes = ini_readEntry desktopEntryGroup ''ServiceTypes''"

definition pf_library :: "ini_file \<Rightarrow> qstring \<times> ini_file" where "pf_library = ini_readEntry desktopEntryGroup ''X-Soprano-Library''"
definition pf_pluginName :: "ini_file \<Rightarrow> qstring \<times> ini_file" where "pf_pluginName = ini_readEntry desktopEntryGroup ''X-Soprano-Plugin-Name''"
definition pf_pluginAuthor :: "ini_file \<Rightarrow> qstring \<times> ini_file" where "pf_pluginAuthor = ini_readEntry desktopEntryGroup ''X-Soprano-Plugin-Author''"
definition pf_pluginEmail :: "ini_file \<Rightarrow> qstring \<times> ini_file" where "pf_pluginEmail = ini_readEntry desktopEntryGroup ''X-Soprano-Plugin-EMail''"
definition pf_pluginWebsite :: "ini_file \<Rightarrow> qstring \<times> ini_file" where "pf_pluginWebsite = ini_readEntry desktopEntryGroup ''X-Soprano-Plugin-Website''"
definition pf_pluginLicense :: "ini_file \<Rightarrow> qstring \<times> ini_file" where "pf_pluginLicense = ini_readEntry desktopEntryGroup ''X-Soprano-Plugin-License''"
definition pf_pluginVersion :: "ini_file \<Rightarrow> qstring \<times> ini_file" where "pf_pluginVersion = ini_readEntry desktopEntryGroup ''X-Soprano-Plugin-Version''"
definition pf_sopranoVersion :: "ini_file \<Rightarrow> qstring \<times> ini_file" where "pf_sopranoVersion = ini_readEntry desktopEntryGroup ''X-Soprano-Version''"

definition pf_open :: "(qstring \<rightharpoonup> qstring list) \<Rightarrow> qstring \<Rightarrow> ini_file \<Rightarrow> bool \<times> ini_file" where
  "pf_open files path f = (case desktop_open files path f of
       (True, f) \<Rightarrow> (case pf_library f of (l, f) \<Rightarrow> if l = [] then (False, f) else (case pf_sopranoVersion f of (v, f) \<Rightarrow> (v \<noteq> [], f)))
     | (False, f) \<Rightarrow> (False, f))"

section \<open>Reading what is written\<close>

datatype ini_item = IEmpty | IComment qstring | IGroup qstring | IEntry qstring qstring

fun ini_written :: "ini_item \<Rightarrow> qstring" where
  "ini_written IEmpty = []"
| "ini_written (IComment t) = CHR ''#'' # t"
| "ini_written (IGroup g) = CHR ''['' # g @ '']''"
| "ini_written (IEntry k v) = k @ CHR ''='' # v"

text \<open>Keys without blanks, equal signs, and the marks of groups and comments; values with no equal sign before their first blank.\<close>

fun ini_wf :: "ini_item \<Rightarrow> bool" where
  "ini_wf (IEntry k v) \<longleftrightarrow> list_all (\<lambda>c. \<not> is_space c \<and> c \<noteq> CHR ''='') k \<and> (k \<noteq> [] \<longrightarrow> hd k \<noteq> CHR ''#'' \<and> hd k \<noteq> CHR ''['') \<and>
     CHR ''='' \<notin> set (takeWhile (\<lambda>c. \<not> is_space c) v)"
| "ini_wf _ \<longleftrightarrow> True"

fun ini_meant :: "ini_item \<Rightarrow> qstring \<times> ini_entries \<Rightarrow> qstring \<times> ini_entries" where
  "ini_meant (IGroup g) (h, es) = (g, es)"
| "ini_meant (IEntry k v) (g, es) = (g, ini_put g k v es)"
| "ini_meant _ x = x"

lemma entry_read:
  assumes "ini_wf (IEntry k v)"
  shows "match_entry (k @ CHR ''='' # v) = Some (k, v)"
proof -
  let ?w = "takeWhile (\<lambda>c. \<not> is_space c) v"
  have k: "\<forall>c\<in>set k. \<not> is_space c" and e: "\<not> is_space CHR ''=''" using assms by (simp_all add: list_all_iff is_space_def ccode_def)
  have "takeWhile (\<lambda>c. \<not> is_space c) (k @ CHR ''='' # v) = k @ CHR ''='' # ?w"
    "dropWhile (\<lambda>c. \<not> is_space c) (k @ CHR ''='' # v) = dropWhile (\<lambda>c. \<not> is_space c) v"
    using k e by (simp_all add: takeWhile_append dropWhile_append)
  moreover have "dropWhile (\<lambda>c. c \<noteq> CHR ''='') (rev ?w @ CHR ''='' # rev k) = CHR ''='' # rev k"
    "takeWhile (\<lambda>c. c \<noteq> CHR ''='') (rev ?w @ CHR ''='' # rev k) = rev ?w"
    using assms by (auto simp: dropWhile_append takeWhile_append)
  ultimately show ?thesis by (simp add: match_entry_def Let_def)
qed

lemma item_read:
  assumes "ini_wf x"
  shows "ini_lines g es (ini_written x # lns) = (case ini_meant x (g, es) of (g, es) \<Rightarrow> ini_lines g es lns)"
proof (cases x)
  case (IGroup h)
  then show ?thesis by (simp add: match_group_def)
next
  case (IEntry k v)
  have h: "k @ CHR ''='' # v \<noteq> []" "hd (k @ CHR ''='' # v) \<noteq> CHR ''#''" "hd (k @ CHR ''='' # v) \<noteq> CHR ''[''"
    using assms IEntry by (cases k; simp)+
  then have "match_group (k @ CHR ''='' # v) = None" by (simp add: match_group_def)
  then show ?thesis using h entry_read assms IEntry by simp
qed simp_all

lemma items_read:
  "list_all ini_wf xs \<Longrightarrow> ini_lines g es (map ini_written xs) = Some (snd (fold ini_meant xs (g, es)))"
proof (induction xs arbitrary: g es)
  case (Cons x xs)
  then show ?case using item_read[of x g es "map ini_written xs"] by (cases "ini_meant x (g, es)") (simp del: ini_lines.simps)
qed simp

text \<open>A file in the usual form is opened and holds what it says.\<close>

lemma ini_file_roundtrip:
  "files path = Some (map ini_written xs) \<Longrightarrow> list_all ini_wf xs \<Longrightarrow>
     ini_open files path f = (True, f\<lparr>ini_fileName := path, ini_entries := snd (fold ini_meant xs ([], []))\<rparr>)"
  using items_read by (simp add: ini_open_def)

text \<open>Reading an entry leaves the others as they are, and shows what was put there.\<close>

lemma group_of_put: "group_of (ini_put g k v es) h = (if h = g then AList.update k v (group_of es g) else group_of es h)"
  by (simp add: ini_put_def group_of_def update_conv)

lemma read_put:
  "fst (ini_readEntry g' k' (f\<lparr>ini_entries := ini_put g k v es\<rparr>)) =
     (if g' = g \<and> k' = k then v else fst (ini_readEntry g' k' (f\<lparr>ini_entries := es\<rparr>)))"
  by (auto simp: ini_readEntry_def group_of_put update_conv Let_def)

lemma read_again:
  "fst (ini_readEntry g' k' (snd (ini_readEntry g k f))) = fst (ini_readEntry g' k' f)"
  by (auto simp: ini_readEntry_def group_of_put update_conv Let_def split: option.splits)

section \<open>Faults\<close>

text \<open>An equal sign in a value goes to the key.\<close>

lemma equal_sign_goes_to_key: "match_entry ''Comment=a=b'' = Some (''Comment=a'', ''b'')"
  by (simp add: match_entry_def is_space_def ccode_def)

text \<open>A blank before the equal sign, as the format of desktop files allows, and the whole file is refused.\<close>

lemma blank_refuses_file: "ini_lines [] [] [''[Desktop Entry]'', ''Name = x''] = None"
  by (simp add: match_group_def match_entry_def is_space_def ccode_def)

text \<open>Asking for an entry of a group that is not there makes the group.\<close>

lemma reading_makes_group: "ini_groups (snd (ini_readEntry ''A'' ''b'' new_ini_file)) = [''A'']"
  by (simp add: ini_readEntry_def new_ini_file_def ini_groups_def ini_put_def group_of_def)

text \<open>A second group, as for an action, and it is no desktop file.\<close>

lemma two_groups_refused:
  "fst (desktop_open [''f'' \<mapsto> [''[Desktop Entry]'', ''Name=x'', ''[Desktop Action A]'', ''Name=y'']] ''f'' new_ini_file) = False"
  by code_simp

end
