(* ===== verification/Plugin_Manager.thy ===== *)
theory Plugin_Manager
  imports Ini_File Backend_Settings
begin

text \<open>
  The search for plugins: directories and libraries (soprano/sopranodirs.cpp), the stub that loads a library when it is asked for
  (pluginstub.cpp), the manager (pluginmanager.cpp) and the backend in use (global.cpp). The file system, the environment, the loader of
  libraries and the order in which a hash table shows its keys are parameters.
\<close>

section \<open>The surroundings\<close>

text \<open>What a loaded library holds: an object that is one of the kinds of plugins, or something else.\<close>

datatype plugin_kind = BackendPlugin | ParserPlugin | SerializerPlugin

record 'p plugin_env =
  pe_files :: "qstring \<rightharpoonup> qstring list"
  pe_desktopFiles :: "qstring \<Rightarrow> qstring list"
  pe_isLibrary :: "qstring \<Rightarrow> bool"
  pe_isFile :: "qstring \<Rightarrow> bool"
  pe_absolute :: "qstring \<Rightarrow> qstring"
  pe_variable :: "qstring \<Rightarrow> qstring"
  pe_libraryPaths :: "qstring list"
  pe_instance :: "qstring \<Rightarrow> 'p option"
  pe_kind :: "'p \<Rightarrow> plugin_kind option"
  pe_name :: "'p \<Rightarrow> qstring"
  pe_available :: "'p \<Rightarrow> bool"
  pe_order :: "qstring list \<Rightarrow> qstring list"
  pe_dataDir :: qstring
  pe_fullLibDir :: qstring
  pe_libDir :: qstring
  pe_binDir :: qstring
  pe_versionMajor :: int

section \<open>Directories\<close>

definition envDirList :: "'p plugin_env \<Rightarrow> qstring \<Rightarrow> qstring list" where
  "envDirList E var = (if pe_variable E var \<noteq> [] then split_on CHR '':'' (pe_variable E var) else [])"

definition libDirs :: "'p plugin_env \<Rightarrow> qstring list" where
  "libDirs E = pe_libraryPaths E @ [pe_fullLibDir E] @ [''/usr/'' @ pe_libDir E] @ [''/usr/local/'' @ pe_libDir E] @ envDirList E ''LD_LIBRARY_PATH''"

definition dataDirs :: "'p plugin_env \<Rightarrow> qstring list" where
  "dataDirs E = [pe_dataDir E] @ envDirList E ''SOPRANO_DIRS'' @ envDirList E ''XDG_DATA_DIRS''"

definition exeDirs :: "'p plugin_env \<Rightarrow> qstring list" where
  "exeDirs E = [pe_binDir E] @ envDirList E ''PATH''"

definition lib_extensions :: "qstring list" where
  "lib_extensions = [''.so'', ''.dylib'', ''.bundle'', ''.sl'', ''.dll'', ''d.dll'']"

text \<open>The part behind the last slash decides, together with that slash.\<close>

definition makeLibNames :: "'p plugin_env \<Rightarrow> qstring \<Rightarrow> qstring list" where
  "makeLibNames E libname =
     (if CHR ''.'' \<notin> set (rev (takeWhile (\<lambda>c. c \<noteq> CHR ''/'') (rev libname)))
      then concat (map (\<lambda>e. (if pe_isLibrary E (libname @ e) then [libname @ e] else []) @
                            (if pe_isLibrary E (''lib'' @ libname @ e) then [''lib'' @ libname @ e] else [])) lib_extensions)
      else [libname])"

definition ends_with_text :: "qstring \<Rightarrow> qstring \<Rightarrow> bool" where
  "ends_with_text t s \<longleftrightarrow> length t \<le> length s \<and> drop (length s - length t) s = t"

text \<open>The places a library is looked for, in their order.\<close>

definition library_places :: "qstring list \<Rightarrow> qstring list \<Rightarrow> qstring \<Rightarrow> qstring list" where
  "library_places dirs subDirs lib =
     (if lib \<noteq> [] \<and> hd lib = CHR ''/'' then [lib] else concat (map (\<lambda>d. map (\<lambda>s. d @ ''/'' @ s @ lib) subDirs) dirs))"

definition findLibraryPath :: "'p plugin_env \<Rightarrow> qstring \<Rightarrow> qstring list \<Rightarrow> qstring list \<Rightarrow> qstring" where
  "findLibraryPath E libName extraDirs subDirs =
     (let dirs = libDirs E @ extraDirs;
          subs = map (\<lambda>s. if ends_with_text ''/'' s then s else s @ ''/'') subDirs @ [[]] in
      case List.find (pe_isFile E) (concat (map (library_places dirs subs) (makeLibNames E libName))) of
        None \<Rightarrow> []
      | Some p \<Rightarrow> pe_absolute E p)"

text \<open>QString::section from the first part up to the kth from the end.\<close>

definition section_upto :: "bool \<Rightarrow> nat \<Rightarrow> qstring \<Rightarrow> qstring" where
  "section_upto trailing k s =
     (let parts = split_on CHR ''/'' s in
      if length parts < k then []
      else join_with ''/'' (take (length parts - k + 1) parts) @ (if trailing \<and> 1 < k then ''/'' else []))"

definition section_last :: "qstring \<Rightarrow> qstring" where
  "section_last s = last (split_on CHR ''/'' s)"

definition findPluginLib :: "'p plugin_env \<Rightarrow> ini_file \<Rightarrow> qstring \<times> ini_file" where
  "findPluginLib E f = (case pf_library f of (lib, f') \<Rightarrow>
     (findLibraryPath E lib [section_upto False 2 (ini_fileName f), section_upto True 5 (ini_fileName f) @ pe_libDir E] [''soprano''], f'))"

definition pluginFileSearchPaths :: "'p plugin_env \<Rightarrow> qstring list" where
  "pluginFileSearchPaths E = map (\<lambda>p. p @ ''/soprano/plugins'') (dataDirs E)"

section \<open>PluginStub\<close>

record 'p plugin_stub =
  ps_name :: qstring
  ps_libPath :: qstring
  ps_plugin :: "'p option"

definition new_stub :: "qstring \<Rightarrow> qstring \<Rightarrow> 'p plugin_stub" where
  "new_stub name libPath = \<lparr> ps_name = name, ps_libPath = libPath, ps_plugin = None \<rparr>"

definition stub_plugin :: "'p plugin_env \<Rightarrow> 'p plugin_stub \<Rightarrow> 'p option \<times> 'p plugin_stub" where
  "stub_plugin E stub = (case ps_plugin stub of
       Some p \<Rightarrow> (Some p, stub)
     | None \<Rightarrow> (case pe_instance E (ps_libPath stub) of
           None \<Rightarrow> (None, stub)
         | Some p \<Rightarrow> (case pe_kind E p of
               None \<Rightarrow> (None, stub)
             | Some k \<Rightarrow>
                 (let stub = stub\<lparr>ps_name := (if ps_name stub = [] then pe_name E p else ps_name stub), ps_plugin := Some p\<rparr> in
                  if \<not> pe_available E p then (None, stub) else (Some p, stub)))))"

text \<open>qobject_cast.\<close>

definition cast_plugin :: "'p plugin_env \<Rightarrow> plugin_kind \<Rightarrow> 'p option \<Rightarrow> 'p option" where
  "cast_plugin E k x = (case x of None \<Rightarrow> None | Some p \<Rightarrow> if pe_kind E p = Some k then Some p else None)"

section \<open>PluginManager\<close>

type_synonym 'p stubs = "(qstring \<times> 'p plugin_stub) list"

record 'p plugin_manager =
  pm_loaded :: bool
  pm_backends :: "'p stubs"
  pm_parsers :: "'p stubs"
  pm_serializers :: "'p stubs"
  pm_queryParsers :: "'p stubs"
  pm_querySerializers :: "'p stubs"
  pm_searchPaths :: "qstring list"
  pm_useDefaults :: bool

definition setPluginSearchPath :: "qstring list \<Rightarrow> bool \<Rightarrow> 'p plugin_manager \<Rightarrow> 'p plugin_manager" where
  "setPluginSearchPath paths useDefaults pm = pm\<lparr>pm_searchPaths := paths, pm_useDefaults := useDefaults\<rparr>"

definition new_plugin_manager :: "'p plugin_manager" where
  "new_plugin_manager = setPluginSearchPath [] True \<lparr> pm_loaded = False, pm_backends = [], pm_parsers = [], pm_serializers = [],
     pm_queryParsers = [], pm_querySerializers = [], pm_searchPaths = [], pm_useDefaults = False \<rparr>"

text \<open>The tables of the three kinds that can be asked for.\<close>

fun pm_table :: "plugin_kind \<Rightarrow> 'p plugin_manager \<Rightarrow> 'p stubs" where
  "pm_table BackendPlugin = pm_backends"
| "pm_table ParserPlugin = pm_parsers"
| "pm_table SerializerPlugin = pm_serializers"

fun set_table :: "plugin_kind \<Rightarrow> 'p stubs \<Rightarrow> 'p plugin_manager \<Rightarrow> 'p plugin_manager" where
  "set_table BackendPlugin t pm = pm\<lparr>pm_backends := t\<rparr>"
| "set_table ParserPlugin t pm = pm\<lparr>pm_parsers := t\<rparr>"
| "set_table SerializerPlugin t pm = pm\<lparr>pm_serializers := t\<rparr>"

definition addPlugin :: "'p plugin_env \<Rightarrow> 'p plugin_stub \<Rightarrow> 'p plugin_manager \<Rightarrow> bool \<times> 'p plugin_manager" where
  "addPlugin E stub pm = (case stub_plugin E stub of
       (Some p, stub) \<Rightarrow> (case pe_kind E p of
           Some k \<Rightarrow> (True, set_table k (AList.update (ps_name stub) stub (pm_table k pm)) pm)
         | None \<Rightarrow> (False, pm))
     | (None, stub) \<Rightarrow> (False, pm))"

definition toUInt_or_0 :: "qstring \<Rightarrow> int" where
  "toUInt_or_0 s = (case parse_in 0 (2 ^ 32 - 1) s of None \<Rightarrow> 0 | Some v \<Rightarrow> v)"

definition major_of :: "qstring \<Rightarrow> int" where
  "major_of v = toUInt_or_0 (takeWhile (\<lambda>c. c \<noteq> CHR ''.'') v)"

fun contains_part :: "qstring \<Rightarrow> qstring \<Rightarrow> bool" where
  "contains_part t [] \<longleftrightarrow> t = []"
| "contains_part t (c # s) \<longleftrightarrow> take (length t) (c # s) = t \<or> contains_part t s"

definition insert_new :: "qstring \<Rightarrow> 'p plugin_stub \<Rightarrow> 'p stubs \<Rightarrow> 'p stubs" where
  "insert_new name stub t = (if map_of t name = None then AList.update name stub t else t)"

definition plugin_file_name :: "qstring \<Rightarrow> qstring \<Rightarrow> qstring" where
  "plugin_file_name name path =
     (if name \<noteq> [] then name
      else (let n = section_last path in if ends_with_text ''.desktop'' n then take (length n - 8) n else n))"

definition loadPlugin :: "'p plugin_env \<Rightarrow> qstring \<Rightarrow> 'p plugin_manager \<Rightarrow> 'p plugin_manager" where
  "loadPlugin E path pm = (case pf_open (pe_files E) path new_ini_file of
       (False, f) \<Rightarrow> pm
     | (True, f) \<Rightarrow> (case pf_sopranoVersion f of (v, f) \<Rightarrow>
         if major_of v \<noteq> pe_versionMajor E then pm
         else (case findPluginLib E f of (libPath, f) \<Rightarrow>
           if libPath = [] then pm
           else (case desktop_serviceTypes f of (t, f) \<Rightarrow> (case pf_pluginName f of (name, f) \<Rightarrow>
             (let name = plugin_file_name name (ini_fileName f); stub = new_stub name libPath in
              if contains_part ''Soprano/Backend'' t then pm\<lparr>pm_backends := insert_new name stub (pm_backends pm)\<rparr>
              else if contains_part ''Soprano/Parser'' t then pm\<lparr>pm_parsers := insert_new name stub (pm_parsers pm)\<rparr>
              else if contains_part ''Soprano/Serializer'' t then pm\<lparr>pm_serializers := insert_new name stub (pm_serializers pm)\<rparr>
              else if contains_part ''Soprano/QueryParser'' t then pm\<lparr>pm_queryParsers := insert_new name stub (pm_queryParsers pm)\<rparr>
              else if contains_part ''Soprano/QuerySerializer'' t then pm\<lparr>pm_querySerializers := insert_new name stub (pm_querySerializers pm)\<rparr>
              else pm))))))"

definition plugin_files :: "'p plugin_env \<Rightarrow> 'p plugin_manager \<Rightarrow> qstring list" where
  "plugin_files E pm = concat (map (pe_desktopFiles E) (pm_searchPaths pm @ (if pm_useDefaults pm then pluginFileSearchPaths E else [])))"

definition loadAllPlugins :: "'p plugin_env \<Rightarrow> 'p plugin_manager \<Rightarrow> 'p plugin_manager" where
  "loadAllPlugins E pm = (if \<not> pm_loaded pm then (fold (loadPlugin E) (plugin_files E pm) pm)\<lparr>pm_loaded := True\<rparr> else pm)"

text \<open>discoverBackendByName, discoverParserByName, discoverSerializerByName: the name, then the name with the kind behind it.\<close>

fun kind_suffix :: "plugin_kind \<Rightarrow> qstring" where
  "kind_suffix BackendPlugin = ''backend''"
| "kind_suffix ParserPlugin = ''parser''"
| "kind_suffix SerializerPlugin = ''serializer''"

lemma ends_with_suffix [simp]: "ends_with_text t (s @ t)"
  by (simp add: ends_with_text_def)

function discover_by_name :: "'p plugin_env \<Rightarrow> plugin_kind \<Rightarrow> qstring \<Rightarrow> 'p plugin_manager \<Rightarrow> 'p option \<times> 'p plugin_manager" where
  "discover_by_name E k name pm =
     (let pm = loadAllPlugins E pm in
      case map_of (pm_table k pm) name of
        Some stub \<Rightarrow> (case stub_plugin E stub of (p, stub) \<Rightarrow> (cast_plugin E k p, set_table k (AList.update name stub (pm_table k pm)) pm))
      | None \<Rightarrow> if \<not> ends_with_text (kind_suffix k) name then discover_by_name E k (name @ kind_suffix k) pm else (None, pm))"
  by pat_completeness auto
termination
  by (relation "measure (\<lambda>(E, k, name, pm). if ends_with_text (kind_suffix k) name then 0 else 1)") auto

declare discover_by_name.simps [simp del]

definition discoverBackendByName :: "'p plugin_env \<Rightarrow> qstring \<Rightarrow> 'p plugin_manager \<Rightarrow> 'p option \<times> 'p plugin_manager" where
  "discoverBackendByName E = discover_by_name E BackendPlugin"
definition discoverParserByName :: "'p plugin_env \<Rightarrow> qstring \<Rightarrow> 'p plugin_manager \<Rightarrow> 'p option \<times> 'p plugin_manager" where
  "discoverParserByName E = discover_by_name E ParserPlugin"
definition discoverSerializerByName :: "'p plugin_env \<Rightarrow> qstring \<Rightarrow> 'p plugin_manager \<Rightarrow> 'p option \<times> 'p plugin_manager" where
  "discoverSerializerByName E = discover_by_name E SerializerPlugin"

text \<open>The loops over a table: every stub they come to is loaded.\<close>

fun first_plugin :: "'p plugin_env \<Rightarrow> plugin_kind \<Rightarrow> ('p \<Rightarrow> bool) \<Rightarrow> qstring list \<Rightarrow> 'p stubs \<Rightarrow> 'p option \<times> 'p stubs" where
  "first_plugin E k test [] t = (None, t)"
| "first_plugin E k test (n # ns) t = (case map_of t n of
       None \<Rightarrow> first_plugin E k test ns t
     | Some stub \<Rightarrow> (case stub_plugin E stub of (p, stub) \<Rightarrow>
         (case cast_plugin E k p of
            Some b \<Rightarrow> if test b then (Some b, AList.update n stub t) else first_plugin E k test ns (AList.update n stub t)
          | None \<Rightarrow> first_plugin E k test ns (AList.update n stub t))))"

definition discover_first :: "'p plugin_env \<Rightarrow> plugin_kind \<Rightarrow> ('p \<Rightarrow> bool) \<Rightarrow> 'p plugin_manager \<Rightarrow> 'p option \<times> 'p plugin_manager" where
  "discover_first E k test pm =
     (let pm = loadAllPlugins E pm in
      case first_plugin E k test (pe_order E (map fst (pm_table k pm))) (pm_table k pm) of (r, t) \<Rightarrow> (r, set_table k t pm))"

text \<open>\<open>features p\<close>: the features a backend states.\<close>

definition discoverBackendByFeatures ::
    "'p plugin_env \<Rightarrow> ('p \<Rightarrow> int \<times> qstring list) \<Rightarrow> int \<Rightarrow> qstring list \<Rightarrow> 'p plugin_manager \<Rightarrow> 'p option \<times> 'p plugin_manager" where
  "discoverBackendByFeatures E features wanted user =
     discover_first E BackendPlugin (\<lambda>p. supportsFeatures (fst (features p)) (snd (features p)) wanted user)"

text \<open>SerializationUser and SerializationUnknown are both zero.\<close>

definition supportsSerialization :: "int \<Rightarrow> qstring list \<Rightarrow> int \<Rightarrow> qstring \<Rightarrow> bool" where
  "supportsSerialization supported supportedUser s user =
     (if s = 0 then user \<in> set supportedUser else and supported s \<noteq> 0)"


text \<open>\<open>serializations p\<close>: the formats a parser or serializer states.\<close>

definition discoverParserForSerialization ::
    "'p plugin_env \<Rightarrow> ('p \<Rightarrow> int \<times> qstring list) \<Rightarrow> int \<Rightarrow> qstring \<Rightarrow> 'p plugin_manager \<Rightarrow> 'p option \<times> 'p plugin_manager" where
  "discoverParserForSerialization E serializations s user =
     discover_first E ParserPlugin (\<lambda>p. supportsSerialization (fst (serializations p)) (snd (serializations p)) s user)"

definition discoverSerializerForSerialization ::
    "'p plugin_env \<Rightarrow> ('p \<Rightarrow> int \<times> qstring list) \<Rightarrow> int \<Rightarrow> qstring \<Rightarrow> 'p plugin_manager \<Rightarrow> 'p option \<times> 'p plugin_manager" where
  "discoverSerializerForSerialization E serializations s user =
     discover_first E SerializerPlugin (\<lambda>p. supportsSerialization (fst (serializations p)) (snd (serializations p)) s user)"

fun collect_plugins :: "'p plugin_env \<Rightarrow> plugin_kind \<Rightarrow> qstring list \<Rightarrow> 'p stubs \<Rightarrow> 'p list \<times> 'p stubs" where
  "collect_plugins E k [] t = ([], t)"
| "collect_plugins E k (n # ns) t = (case map_of t n of
       None \<Rightarrow> collect_plugins E k ns t
     | Some stub \<Rightarrow> (case stub_plugin E stub of (p, stub) \<Rightarrow>
         (case collect_plugins E k ns (AList.update n stub t) of (ps, t) \<Rightarrow>
            ((case cast_plugin E k p of Some b \<Rightarrow> b # ps | None \<Rightarrow> ps), t))))"

definition allPlugins :: "'p plugin_env \<Rightarrow> plugin_kind \<Rightarrow> 'p plugin_manager \<Rightarrow> 'p list \<times> 'p plugin_manager" where
  "allPlugins E k pm =
     (let pm = loadAllPlugins E pm in
      case collect_plugins E k (pe_order E (map fst (pm_table k pm))) (pm_table k pm) of (ps, t) \<Rightarrow> (ps, set_table k t pm))"

definition allBackends :: "'p plugin_env \<Rightarrow> 'p plugin_manager \<Rightarrow> 'p list \<times> 'p plugin_manager" where "allBackends E = allPlugins E BackendPlugin"
definition allParsers :: "'p plugin_env \<Rightarrow> 'p plugin_manager \<Rightarrow> 'p list \<times> 'p plugin_manager" where "allParsers E = allPlugins E ParserPlugin"
definition allSerializers :: "'p plugin_env \<Rightarrow> 'p plugin_manager \<Rightarrow> 'p list \<times> 'p plugin_manager" where "allSerializers E = allPlugins E SerializerPlugin"

text \<open>Plugins from a path: without a kind, and of a kind.\<close>

definition loadCustomPlugin :: "'p plugin_env \<Rightarrow> qstring \<Rightarrow> 'p plugin_manager \<Rightarrow> bool \<times> 'p plugin_manager" where
  "loadCustomPlugin E path = addPlugin E (new_stub [] path)"

definition loadCustom :: "'p plugin_env \<Rightarrow> plugin_kind \<Rightarrow> qstring \<Rightarrow> 'p plugin_manager \<Rightarrow> 'p option \<times> 'p plugin_manager" where
  "loadCustom E k path pm = (case stub_plugin E (new_stub [] path) of (p, stub) \<Rightarrow>
     (case cast_plugin E k p of
        Some pp \<Rightarrow> (case addPlugin E stub pm of (ok, pm) \<Rightarrow> if ok then (Some pp, pm) else (None, pm))
      | None \<Rightarrow> (None, pm)))"

definition loadCustomBackend :: "'p plugin_env \<Rightarrow> qstring \<Rightarrow> 'p plugin_manager \<Rightarrow> 'p option \<times> 'p plugin_manager" where
  "loadCustomBackend E = loadCustom E BackendPlugin"
definition loadCustomParser :: "'p plugin_env \<Rightarrow> qstring \<Rightarrow> 'p plugin_manager \<Rightarrow> 'p option \<times> 'p plugin_manager" where
  "loadCustomParser E = loadCustom E ParserPlugin"
definition loadCustomSerializer :: "'p plugin_env \<Rightarrow> qstring \<Rightarrow> 'p plugin_manager \<Rightarrow> 'p option \<times> 'p plugin_manager" where
  "loadCustomSerializer E = loadCustom E SerializerPlugin"

section \<open>The backend in use\<close>

record 'p global_state =
  gl_manager :: "'p plugin_manager"
  gl_default :: "'p option"

definition setUsedBackend :: "'p option \<Rightarrow> 'p global_state \<Rightarrow> 'p global_state" where
  "setUsedBackend b g = g\<lparr>gl_default := b\<rparr>"

definition initSoprano :: "'p plugin_env \<Rightarrow> 'p global_state \<Rightarrow> 'p global_state" where
  "initSoprano E g = (case gl_default g of
       Some b \<Rightarrow> g
     | None \<Rightarrow> (case discover_by_name E BackendPlugin ''redland'' (gl_manager g) of (b, pm) \<Rightarrow> setUsedBackend b (g\<lparr>gl_manager := pm\<rparr>)))"

definition usedBackend :: "'p plugin_env \<Rightarrow> 'p global_state \<Rightarrow> 'p option \<times> 'p global_state" where
  "usedBackend E g = (let g = initSoprano E g in (gl_default g, g))"

definition gl_createModel :: "'p plugin_env \<Rightarrow> ('p \<Rightarrow> 's \<Rightarrow> 'm option) \<Rightarrow> 's \<Rightarrow> 'p global_state \<Rightarrow> 'm option \<times> 'p global_state" where
  "gl_createModel E createModel settings g =
     (let g = initSoprano E g in (case gl_default g of Some b \<Rightarrow> createModel b settings | None \<Rightarrow> None, g))"

section \<open>Which file gives a plugin\<close>

text \<open>What a plugin file says: its kind, its name, its library.\<close>

datatype described_kind = Described plugin_kind | DescribedQueryParser | DescribedQuerySerializer

definition described :: "qstring \<Rightarrow> described_kind option" where
  "described t = (if contains_part ''Soprano/Backend'' t then Some (Described BackendPlugin)
     else if contains_part ''Soprano/Parser'' t then Some (Described ParserPlugin)
     else if contains_part ''Soprano/Serializer'' t then Some (Described SerializerPlugin)
     else if contains_part ''Soprano/QueryParser'' t then Some DescribedQueryParser
     else if contains_part ''Soprano/QuerySerializer'' t then Some DescribedQuerySerializer else None)"

definition plugin_of_file :: "'p plugin_env \<Rightarrow> qstring \<Rightarrow> (described_kind \<times> qstring \<times> qstring) option" where
  "plugin_of_file E path = (case pf_open (pe_files E) path new_ini_file of
       (False, f) \<Rightarrow> None
     | (True, f) \<Rightarrow>
         (let lib = fst (findPluginLib E f) in
          if major_of (fst (pf_sopranoVersion f)) \<noteq> pe_versionMajor E \<or> lib = [] then None
          else map_option (\<lambda>k. (k, plugin_file_name (fst (pf_pluginName f)) path, lib)) (described (fst (desktop_serviceTypes f)))))"

lemma readEntry_name: "ini_fileName (snd (ini_readEntry g k f)) = ini_fileName f"
  by (simp add: ini_readEntry_def Let_def)

lemma open_name: "pf_open files path f0 = (True, f) \<Longrightarrow> ini_fileName f = path"
  by (auto simp: pf_open_def desktop_open_def ini_open_def pf_library_def pf_sopranoVersion_def ini_readEntry_def Let_def
      split: prod.splits bool.splits option.splits if_splits)

fun put_plugin :: "described_kind \<Rightarrow> qstring \<Rightarrow> 'p plugin_stub \<Rightarrow> 'p plugin_manager \<Rightarrow> 'p plugin_manager" where
  "put_plugin (Described k) n stub pm = set_table k (insert_new n stub (pm_table k pm)) pm"
| "put_plugin DescribedQueryParser n stub pm = pm\<lparr>pm_queryParsers := insert_new n stub (pm_queryParsers pm)\<rparr>"
| "put_plugin DescribedQuerySerializer n stub pm = pm\<lparr>pm_querySerializers := insert_new n stub (pm_querySerializers pm)\<rparr>"

lemma findPluginLib_keeps:
  "snd (findPluginLib E f) = snd (pf_library f)"
  "ini_fileName g = ini_fileName f \<Longrightarrow> fst (pf_library g) = fst (pf_library f) \<Longrightarrow> fst (findPluginLib E g) = fst (findPluginLib E f)"
  by (simp_all add: findPluginLib_def case_prod_beta)

lemma loadPlugin_reads:
  "loadPlugin E path pm = (case plugin_of_file E path of None \<Rightarrow> pm | Some (k, n, lib) \<Rightarrow> put_plugin k n (new_stub n lib) pm)"
proof (cases "pf_open (pe_files E) path new_ini_file")
  case (Pair ok f)
  show ?thesis
  proof (cases ok)
    case True
    let ?f1 = "snd (pf_sopranoVersion f)" let ?f2 = "snd (findPluginLib E ?f1)" let ?f3 = "snd (desktop_serviceTypes ?f2)" let ?f4 = "snd (pf_pluginName ?f3)"
    have "ini_fileName f = path" using open_name[of "pe_files E" path new_ini_file f] Pair True by simp
    then have names: "ini_fileName ?f1 = path" "ini_fileName ?f4 = path"
      by (simp_all add: findPluginLib_keeps pf_sopranoVersion_def pf_library_def desktop_serviceTypes_def pf_pluginName_def readEntry_name)
    have "fst (pf_library ?f1) = fst (pf_library f)" by (simp add: pf_library_def pf_sopranoVersion_def read_again)
    then have lib: "fst (findPluginLib E ?f1) = fst (findPluginLib E f)" using findPluginLib_keeps(2)[of ?f1 f] names \<open>ini_fileName f = path\<close> by simp
    have st: "fst (desktop_serviceTypes ?f2) = fst (desktop_serviceTypes f)" "fst (pf_pluginName ?f3) = fst (pf_pluginName f)"
      by (simp_all add: findPluginLib_keeps pf_sopranoVersion_def pf_library_def desktop_serviceTypes_def pf_pluginName_def read_again)
    show ?thesis
      by (simp add: loadPlugin_def plugin_of_file_def Pair True case_prod_beta Let_def names lib st described_def)
  qed (simp add: loadPlugin_def plugin_of_file_def Pair)
qed

lemma table_set: "pm_table k (set_table k' t pm) = (if k = k' then t else pm_table k pm)"
  by (cases k; cases k') simp_all

lemma insert_new_lookup: "map_of (insert_new n stub t) m = (case map_of t m of Some s \<Rightarrow> Some s | None \<Rightarrow> if m = n then Some stub else None)"
  by (auto simp: insert_new_def update_conv split: option.splits)

text \<open>The first file in the search order that describes a plugin of this kind and name gives it, unless the table has one.\<close>

definition file_gives :: "'p plugin_env \<Rightarrow> plugin_kind \<Rightarrow> qstring \<Rightarrow> qstring \<Rightarrow> bool" where
  "file_gives E k n path = (case plugin_of_file E path of None \<Rightarrow> False | Some (d, m, lib) \<Rightarrow> d = Described k \<and> m = n)"

definition stub_of_file :: "'p plugin_env \<Rightarrow> qstring \<Rightarrow> 'p plugin_stub" where
  "stub_of_file E path = (case plugin_of_file E path of None \<Rightarrow> new_stub [] [] | Some (d, m, lib) \<Rightarrow> new_stub m lib)"

lemma first_file_wins:
  "map_of (pm_table k (fold (loadPlugin E) paths pm)) n = (case map_of (pm_table k pm) n of
       Some s \<Rightarrow> Some s
     | None \<Rightarrow> map_option (stub_of_file E) (List.find (file_gives E k n) paths))"
proof (induction paths arbitrary: pm)
  case (Cons path paths)
  have "map_of (pm_table k (loadPlugin E path pm)) n = (case map_of (pm_table k pm) n of
       Some s \<Rightarrow> Some s | None \<Rightarrow> if file_gives E k n path then Some (stub_of_file E path) else None)"
  proof (cases "plugin_of_file E path")
    case (Some x)
    obtain d m lib where x: "x = (d, m, lib)" by (cases x)
    show ?thesis
    proof (cases d)
      case (Described k')
      then show ?thesis using Some x
        by (auto simp: loadPlugin_reads table_set insert_new_lookup file_gives_def stub_of_file_def split: option.splits)
    qed (use Some x in \<open>cases k; auto simp: loadPlugin_reads file_gives_def split: option.splits\<close>)+
  qed (auto simp: loadPlugin_reads file_gives_def split: option.splits)
  then show ?case using Cons.IH[of "loadPlugin E path pm"] by (auto split: option.splits)
qed (simp split: option.split)

lemma loaded_once: "loadAllPlugins E (loadAllPlugins E pm) = loadAllPlugins E pm"
  by (simp add: loadAllPlugins_def)

text \<open>Changing the search path after that changes nothing.\<close>

lemma search_path_too_late:
  "pm_loaded pm \<Longrightarrow> pm_table k (loadAllPlugins E (setPluginSearchPath ps b pm)) = pm_table k pm"
  by (cases k) (simp_all add: loadAllPlugins_def setPluginSearchPath_def)

section \<open>What is found\<close>

text \<open>What a stub in a table gives.\<close>

definition stub_gives :: "'p plugin_env \<Rightarrow> plugin_kind \<Rightarrow> 'p stubs \<Rightarrow> qstring \<Rightarrow> 'p option" where
  "stub_gives E k t n = (case map_of t n of None \<Rightarrow> None | Some stub \<Rightarrow> cast_plugin E k (fst (stub_plugin E stub)))"

lemma stub_gives_other: "m \<noteq> n \<Longrightarrow> stub_gives E k (AList.update n stub t) m = stub_gives E k t m"
  by (simp add: stub_gives_def update_conv)

lemma stub_gives_others:
  "n \<notin> set ns \<Longrightarrow> List.map_filter (stub_gives E k (AList.update n stub t)) ns = List.map_filter (stub_gives E k t) ns"
  by (induction ns) (auto simp: stub_gives_other map_filter_simps split: option.splits)

text \<open>A loop over a table finds the first plugin in its order that passes the test, and a loop over all finds all.\<close>

lemma first_plugin_finds:
  "distinct ns \<Longrightarrow> fst (first_plugin E k test ns t) = List.find test (List.map_filter (stub_gives E k t) ns)"
proof (induction ns arbitrary: t)
  case (Cons n ns)
  have n: "n \<notin> set ns" "distinct ns" using Cons.prems by simp_all
  show ?case
  proof (cases "map_of t n")
    case None
    then show ?thesis using Cons.IH n by (simp add: stub_gives_def map_filter_simps)
  next
    case (Some stub)
    obtain p stub' where s: "stub_plugin E stub = (p, stub')" by (cases "stub_plugin E stub")
    then have g: "stub_gives E k t n = cast_plugin E k p" using Some by (simp add: stub_gives_def)
    show ?thesis
      using Cons.IH[OF n(2), of "AList.update n stub' t"] stub_gives_others[OF n(1), of E k stub' t]
      by (cases "cast_plugin E k p") (simp_all add: Some s g map_filter_simps)
  qed
qed (simp add: map_filter_simps)

lemma collect_finds: "distinct ns \<Longrightarrow> fst (collect_plugins E k ns t) = List.map_filter (stub_gives E k t) ns"
proof (induction ns arbitrary: t)
  case (Cons n ns)
  have n: "n \<notin> set ns" "distinct ns" using Cons.prems by simp_all
  show ?case
  proof (cases "map_of t n")
    case None
    then show ?thesis using Cons.IH n by (simp add: stub_gives_def map_filter_simps)
  next
    case (Some stub)
    obtain p stub' where s: "stub_plugin E stub = (p, stub')" by (cases "stub_plugin E stub")
    then have g: "stub_gives E k t n = cast_plugin E k p" using Some by (simp add: stub_gives_def)
    show ?thesis
      using Cons.IH[OF n(2), of "AList.update n stub' t"] stub_gives_others[OF n(1), of E k stub' t]
      by (cases "cast_plugin E k p") (simp_all add: Some s g map_filter_simps case_prod_beta)
  qed
qed (simp add: map_filter_simps)

text \<open>A name is looked up as it is, then with its kind behind it.\<close>

lemma discover_finds:
  assumes "loadAllPlugins E pm = pm"
  shows "fst (discover_by_name E k name pm) =
    (if map_of (pm_table k pm) name \<noteq> None \<or> ends_with_text (kind_suffix k) name then stub_gives E k (pm_table k pm) name
     else stub_gives E k (pm_table k pm) (name @ kind_suffix k))"
proof -
  have known: "fst (discover_by_name E k m pm) = stub_gives E k (pm_table k pm) m"
    if "map_of (pm_table k pm) m \<noteq> None \<or> ends_with_text (kind_suffix k) m" for m
    using that assms by (subst discover_by_name.simps) (auto simp: stub_gives_def split: option.splits prod.splits)
  show ?thesis
  proof (cases "map_of (pm_table k pm) name \<noteq> None \<or> ends_with_text (kind_suffix k) name")
    case False
    then have "discover_by_name E k name pm = discover_by_name E k (name @ kind_suffix k) pm"
      using assms by (subst discover_by_name.simps) simp
    then show ?thesis using known[of "name @ kind_suffix k"] False by simp
  qed (use known in simp)
qed

section \<open>Faults\<close>

text \<open>A plugin that is not available is refused once; the stub keeps it, and hands it out the next time.\<close>

lemma unavailable_handed_out:
  assumes "ps_plugin stub = None" "pe_instance E (ps_libPath stub) = Some p" "pe_kind E p = Some k" "\<not> pe_available E p"
  shows "fst (stub_plugin E stub) = None \<and> fst (stub_plugin E (snd (stub_plugin E stub))) = Some p"
  using assms by (simp add: stub_plugin_def Let_def)

text \<open>So the backend in use is one that said it cannot be used, when the first caller asks again.\<close>

definition broken_env :: "unit plugin_env" where
  "broken_env = \<lparr> pe_files = Map.empty, pe_desktopFiles = (\<lambda>_. []), pe_isLibrary = (\<lambda>_. True), pe_isFile = (\<lambda>_. True), pe_absolute = (\<lambda>p. p),
     pe_variable = (\<lambda>_. []), pe_libraryPaths = [], pe_instance = (\<lambda>_. Some ()), pe_kind = (\<lambda>_. Some BackendPlugin), pe_name = (\<lambda>_. ''redlandbackend''),
     pe_available = (\<lambda>_. False), pe_order = (\<lambda>ns. ns), pe_dataDir = [], pe_fullLibDir = [], pe_libDir = [], pe_binDir = [], pe_versionMajor = 2 \<rparr>"

lemma unavailable_backend_used:
  "(let g = \<lparr> gl_manager = new_plugin_manager\<lparr>pm_loaded := True, pm_backends := [(''redlandbackend'', new_stub ''redlandbackend'' ''lib'')]\<rparr>, gl_default = None \<rparr>;
        (b1, g1) = usedBackend broken_env g; (b2, g2) = usedBackend broken_env g1
    in b1 = None \<and> b2 = Some ())"
  by code_simp

end
