(* ===== verification/Schema_Model.thy ===== *)
theory Schema_Model
  imports Model_Stack Vocabulary
begin

text \<open>
  The filter with convenience calls for RDF Schema (soprano/rdfschemamodel.cpp). Every call is a listing or a question to the parent.
  Over a store the calls show what is stated there, with an empty node for anything; direct relations are all that are stated, and nothing
  is inferred.
\<close>

definition rdfs_base :: qstring where
  "rdfs_base = ''http://www.w3.org/2000/01/rdf-schema#''"

datatype rdfs_term = RdfsClass | RdfsSubClassOf | RdfsSubPropertyOf | RdfsDomain | RdfsRange

fun rdfs_name :: "rdfs_term \<Rightarrow> qstring" where
  "rdfs_name RdfsClass = ''Class''"
| "rdfs_name RdfsSubClassOf = ''subClassOf''"
| "rdfs_name RdfsSubPropertyOf = ''subPropertyOf''"
| "rdfs_name RdfsDomain = ''domain''"
| "rdfs_name RdfsRange = ''range''"

definition rdfs :: "rdfs_term \<Rightarrow> node" where
  "rdfs t = node_of_url (QUrl (rdfs_base @ rdfs_name t))"

definition rdf_node :: "rdf_term \<Rightarrow> node" where
  "rdf_node t = node_of_url (rdf t)"

text \<open>The pattern of a triple, in any context.\<close>

definition triple_pattern :: "node \<Rightarrow> node \<Rightarrow> node \<Rightarrow> statement" where
  "triple_pattern s p ob = mk_statement s p ob EmptyNode"

type_synonym 's listing = "'s \<Rightarrow> statement list option \<times> 's"
type_synonym 's question = "'s \<Rightarrow> bool \<times> 's"

definition rs_classes :: "'s model \<Rightarrow> 's listing" where
  "rs_classes M = m_listStatements M (triple_pattern EmptyNode (rdf_node RdfType) (rdfs RdfsClass))"

definition directSubClassOf :: "'s model \<Rightarrow> node \<Rightarrow> node \<Rightarrow> 's listing" where
  "directSubClassOf M a b = m_listStatements M (triple_pattern a (rdfs RdfsSubClassOf) b)"

definition directSubPropertyOf :: "'s model \<Rightarrow> node \<Rightarrow> node \<Rightarrow> 's listing" where
  "directSubPropertyOf M a b = m_listStatements M (triple_pattern a (rdfs RdfsSubPropertyOf) b)"

definition directType :: "'s model \<Rightarrow> node \<Rightarrow> node \<Rightarrow> 's listing" where
  "directType M a b = m_listStatements M (triple_pattern a (rdf_node RdfType) b)"

definition rs_domain :: "'s model \<Rightarrow> node \<Rightarrow> node \<Rightarrow> 's listing" where
  "rs_domain M p d = m_listStatements M (triple_pattern p (rdfs RdfsDomain) d)"

definition rs_properties :: "'s model \<Rightarrow> 's listing" where
  "rs_properties M = m_listStatements M (triple_pattern EmptyNode (rdf_node RdfType) (rdf_node RdfProperty))"

definition rs_range :: "'s model \<Rightarrow> node \<Rightarrow> node \<Rightarrow> 's listing" where
  "rs_range M p r = m_listStatements M (triple_pattern p (rdfs RdfsRange) r)"

definition subClassOf :: "'s model \<Rightarrow> node \<Rightarrow> node \<Rightarrow> 's listing" where
  "subClassOf M a b = directSubClassOf M a b"

definition subPropertyOf :: "'s model \<Rightarrow> node \<Rightarrow> node \<Rightarrow> 's listing" where
  "subPropertyOf M a b = directSubPropertyOf M a b"

definition rs_type :: "'s model \<Rightarrow> node \<Rightarrow> node \<Rightarrow> 's listing" where
  "rs_type M a b = directType M a b"

definition isClass :: "'s model \<Rightarrow> node \<Rightarrow> 's question" where
  "isClass M n = m_containsAnyStatement M (triple_pattern n (rdf_node RdfType) (rdfs RdfsClass))"

definition isProperty :: "'s model \<Rightarrow> node \<Rightarrow> 's question" where
  "isProperty M n = m_containsAnyStatement M (triple_pattern n (rdf_node RdfType) (rdf_node RdfProperty))"

definition isDirectSubClassOf :: "'s model \<Rightarrow> node \<Rightarrow> node \<Rightarrow> 's question" where
  "isDirectSubClassOf M a b = m_containsAnyStatement M (triple_pattern a (rdfs RdfsSubClassOf) b)"

definition isDirectSubPropertyOf :: "'s model \<Rightarrow> node \<Rightarrow> node \<Rightarrow> 's question" where
  "isDirectSubPropertyOf M a b = m_containsAnyStatement M (triple_pattern a (rdfs RdfsSubPropertyOf) b)"

definition isDirectType :: "'s model \<Rightarrow> node \<Rightarrow> node \<Rightarrow> 's question" where
  "isDirectType M a b = m_containsAnyStatement M (triple_pattern a (rdf_node RdfType) b)"

text \<open>next of an iterator: an invalid one has nothing.\<close>

definition has_next :: "statement list option \<times> 's \<Rightarrow> bool \<times> 's" where
  "has_next x = ((case fst x of Some (s # ss) \<Rightarrow> True | _ \<Rightarrow> False), snd x)"

definition isSubClassOf :: "'s model \<Rightarrow> node \<Rightarrow> node \<Rightarrow> 's question" where
  "isSubClassOf M a b \<sigma> = has_next (subClassOf M a b \<sigma>)"

definition isSubPropertyOf :: "'s model \<Rightarrow> node \<Rightarrow> node \<Rightarrow> 's question" where
  "isSubPropertyOf M a b \<sigma> = has_next (subPropertyOf M a b \<sigma>)"

definition isType :: "'s model \<Rightarrow> node \<Rightarrow> node \<Rightarrow> 's question" where
  "isType M a b \<sigma> = has_next (rs_type M a b \<sigma>)"

section \<open>Over a store\<close>

text \<open>What is stated: an empty node stands for any.\<close>

definition stated :: "qt \<Rightarrow> graph \<Rightarrow> node \<Rightarrow> node \<Rightarrow> node \<Rightarrow> bool" where
  "stated q g s p ob \<longleftrightarrow> (\<exists>x\<in>set g. node_matches q (subject x) s \<and> node_matches q (predicate x) p \<and> node_matches q (object x) ob)"

lemma matches_empty: "node_matches q n EmptyNode"
  by (simp add: node_matches_def node_test_defs)

context store_model
begin

lemma asked: "fst (has_next (m_listStatements M (triple_pattern s p ob) \<sigma>)) = stated q (contents \<sigma>) s p ob"
proof -
  have "fst (has_next (m_listStatements M (triple_pattern s p ob) \<sigma>)) =
      (filter (\<lambda>x. stmt_matches q x (triple_pattern s p ob)) (contents \<sigma>) \<noteq> [])"
    using list_matches[of "triple_pattern s p ob" \<sigma>]
    by (cases "filter (\<lambda>x. stmt_matches q x (triple_pattern s p ob)) (contents \<sigma>)") (simp_all add: has_next_def)
  then show ?thesis
    by (auto simp: filter_empty_conv stated_def stmt_matches_def triple_pattern_def mk_statement_def matches_empty)
qed

text \<open>The three relations are the stated ones, not their closure.\<close>

lemma schema_relations:
  "fst (isSubClassOf M a b \<sigma>) = stated q (contents \<sigma>) a (rdfs RdfsSubClassOf) b"
  "fst (isSubPropertyOf M a b \<sigma>) = stated q (contents \<sigma>) a (rdfs RdfsSubPropertyOf) b"
  "fst (isType M a b \<sigma>) = stated q (contents \<sigma>) a (rdf_node RdfType) b"
  by (simp_all add: isSubClassOf_def isSubPropertyOf_def isType_def subClassOf_def subPropertyOf_def rs_type_def directSubClassOf_def
      directSubPropertyOf_def directType_def asked)

end

text \<open>The same in the store in memory, with the questions that ask the model.\<close>

lemma memory_asked: "fst (m_containsAnyStatement (memory_model q answer) (triple_pattern s p ob) (g, e)) = stated q g s p ob"
  by (simp add: memory_model_def graph_containsAnyStatement_def list_ex_iff stated_def stmt_matches_def triple_pattern_def mk_statement_def matches_empty)

lemma memory_relations:
  "fst (isSubClassOf (memory_model q answer) a b (g, e)) = fst (isDirectSubClassOf (memory_model q answer) a b (g, e))"
  "fst (isSubPropertyOf (memory_model q answer) a b (g, e)) = fst (isDirectSubPropertyOf (memory_model q answer) a b (g, e))"
  "fst (isType (memory_model q answer) a b (g, e)) = fst (isDirectType (memory_model q answer) a b (g, e))"
  by (simp_all add: memory.schema_relations isDirectSubClassOf_def isDirectSubPropertyOf_def isDirectType_def memory_asked)

text \<open>A relation that follows from two stated ones is not seen, and one with a class in between is called direct.\<close>

definition class_named :: "qstring \<Rightarrow> node" where
  "class_named n = ResourceNode (QUrl n)"

definition subclass_statement :: "qstring \<Rightarrow> qstring \<Rightarrow> statement" where
  "subclass_statement a b = mk_statement (class_named a) (rdfs RdfsSubClassOf) (class_named b) EmptyNode"

lemma subclass_not_transitive:
  "fst (isSubClassOf (memory_model plain_qt (\<lambda>_ _. None)) (class_named ''a'') (class_named ''c'')
     ([subclass_statement ''a'' ''b'', subclass_statement ''b'' ''c''], NoError)) = False"
  by code_simp

lemma direct_with_class_between:
  "fst (isDirectSubClassOf (memory_model plain_qt (\<lambda>_ _. None)) (class_named ''a'') (class_named ''c'')
     ([subclass_statement ''a'' ''b'', subclass_statement ''b'' ''c'', subclass_statement ''a'' ''c''], NoError))"
  by code_simp

end
