(* ===== verification/Spec2Isabelle.thy ===== *)
theory Spec2Isabelle
  imports Language_Tag Date_Time Vocabulary Literal_Value Rdf_Node Soprano_Error Text_Escape NQuads N3_Parser
    Binding_Set Data_Stream Statement_Graph Model_Stack Nrl_Model Rw_Lock Async_Model Async_Iterator
    Result_Iterator Server_Protocol Client_Protocol Remote_Model Remote_Iterator
    Inference_Rule Inference_Model Inference_Query Inference_Closure Inference_Cases Inference_Divergence Rule_Parser
    Mutex_Model Sparql_Xml Sparql_Result Sparql_Model Sparql_Store Sparql_Async
    Clucene_Doc Clucene_Index Clucene_Store Clucene_Memory Index_Filter Index_Hits
    Soprano_Types Backend_Settings Odbc_Result Virtuoso_Result Virtuoso_Model Virtuoso_Store Odbc_Pool Virtuoso_Control Virtuoso_Backend
    Query_Class Query_Heap Query_Sharing Query_Values
    Redland_Lock Redland_World Redland_Iterator Redland_Model Redland_Store Redland_Memory Redland_Backend
    Async_Query Signal_Cache Ini_File Plugin_Manager Schema_Model
begin

text \<open>
  Verification of the core of Soprano, a framework for RDF data (C++ and Qt 4).

  \<^bold>\<open>The program.\<close> RDF data are statements of nodes: resources, blank nodes and literals. A model stores
  statements; filter models are stacked on storage models; iterators deliver what a model lists or a query
  finds. Parsers and serializers turn statements into text and back. A server makes models available over a
  socket, a client presents them as models again. Wrappers make a model asynchronous, bound to NRL, or
  read-only, and a read-write lock orders the threads.

  \<^bold>\<open>How it is modelled.\<close> A class is a record or a datatype, a function of the C++ text one definition, an
  error a value, a loop a recursive function; a loop that need not end is a partial function with an option
  result, or a state machine. Qt is a parameter: the record \<open>qt\<close> of Soprano_Prelude holds the conversions of
  QString, QUrl, QDate and base 64 the code calls, and what the code relies on (a conversion and its inverse) are named
  predicates, which the concrete record \<open>plain_qt\<close> satisfies. Storage backends are plugins: a model is a record
  of its virtual functions over a state of its own.

  \<^bold>\<open>Data\<close> (folder soprano).
  \<^item> Soprano_Prelude: strings, bytes, numbers and what is used of Qt.
  \<^item> Language_Tag (languagetag.cpp): RFC 4647 filtering and lookup, validity, the tables of codes. The
    filters are compared with a declarative reading of the RFC.
  \<^item> Date_Time (datetime.cpp): parsing and printing of dates, times and time zones; round trips.
  \<^item> Vocabulary (vocabulary/xsd.cpp, rdf.cpp), Literal_Value (literalvalue.cpp), Rdf_Node (node.cpp,
    statement.cpp): equality is an equivalence, hashing respects it, matching respects it, text round trips.
  \<^item> Binding_Set (bindingset.cpp), Statement_Graph (graph.cpp): operations against a map and a set.
  \<^item> Result_Iterator (iterator.h, statementiterator.cpp, queryresultiterator.cpp, util/simple*iterator.cpp): the
    locale \<open>delivers\<close> is the contract of a backend; lists satisfy it and every adapter passes it on.

  \<^bold>\<open>Text.\<close> Text_Escape and NQuads (serializers/nquads, parsers/nquads), N3_Parser (n3nodeparser.cpp against
  Node::toN3): what is written is read back, for texts the notation can carry and up to an image that is stated (the N-Quads
  parser changes blank nodes and plain literals); the N-Quads parser ends on every input.

  \<^bold>\<open>Models.\<close> Soprano_Error (error.cpp): the error cache keeps threads apart. Model_Stack (model.cpp,
  filtermodel.cpp, util/readonlymodel.cpp, util/dummymodel.cpp): a filter is transparent, a read-only model
  protects its parent, bulk operations report errors. Nrl_Model (nrlmodel.cpp): cardinalities and graphs.

  \<^bold>\<open>Inference.\<close> Inference_Rule (inference/nodepattern.cpp, statementpattern.cpp, inferencerule.cpp, inferenceruleset.cpp):
  patterns, rules and the texts of their queries. Inference_Model (inference/inferencemodel.cpp): the filter that
  applies the rules. Inference_Query: the locale \<open>rule_store\<close> says what a store owes to the rules, the answers to
  their queries; it is satisfied by a store in memory with a solver. Inference_Closure: inference ends and computes
  the deductive closure, for rules that cannot fire on the model's own metadata. Inference_Divergence: with rule rdfs2 it need
  not end. Rule_Parser (inference/inferenceruleparser.cpp): the reader of rule files and the standard rule sets; a rule that is
  written in the usual way is read as it is meant, whatever the matcher chooses.

  \<^bold>\<open>Concurrency.\<close> Rw_Lock (util/extreadwritelock.cpp): the lock as a step relation over any number of threads, with
  an invariant for exclusion and for the wake-ups. Async_Model (util/asyncmodel.cpp, asynccommand.cpp): the command
  queue with its timers. Async_Iterator (util/asynciteratorbackend.h): the bounded cache between worker and
  client as a step relation with a decreasing measure, so every run ends. Mutex_Model (util/mutexmodel.cpp,
  util/mutexiteratorbase.h): the model behind a lock; every call it forwards runs under the lock, and what
  it forgets to guard is stated beside it. Async_Query (util/asyncquery.cpp): a query in a thread of its own; a client that follows the
  documentation gets every row and every run ends, others can lose rows or hang. Signal_Cache (util/signalcachemodel.cpp): timers that
  collect signals; no change is forgotten unless a receiver makes it.

  \<^bold>\<open>Client and server.\<close> Data_Stream (datastream.cpp): the wire format; the locale \<open>codec\<close> is the contract of a writer and
  a reader, up to the image of a value the format keeps. Server_Protocol (server/serverconnection.cpp, modelpool.cpp, commands.h): every command handler.
  Client_Protocol (client/clientconnection.cpp, clientmodel.cpp, client*iteratorbackend.cpp): every request, with
  timeouts and write errors. Remote_Model and Remote_Iterator put both sides together: calls through a connection
  refine calls of the model at the server, and listings arrive complete and close what they opened.

  \<^bold>\<open>SPARQL client\<close> (folder client/sparql). Sparql_Xml (sparqlxmlresultparser.cpp): documents of the XML results format,
  the objects they are read into and their text. Sparql_Result (sparqlqueryresult.cpp): the iterator over them, which delivers the
  rows of the document. Sparql_Model (sparqlmodel.cpp, sparqlprotocol.cpp): the texts of the queries, the requests, and
  the calls of a model made of them. Sparql_Store: the locale \<open>sparql_endpoint\<close>, what an endpoint owes to the texts, and the
  calls of the model as operations on its store. Sparql_Async: requests and replies in any order.

  \<^bold>\<open>Full text index\<close> (folder index). Clucene_Doc: documents, their fields and what CLucene does with them; the locale
  \<open>lucene_document\<close>. Clucene_Index (cluceneindex.cpp): readers, writers and searchers of the index, its cache of
  documents, transactions and every operation. Clucene_Store: the locale \<open>lucene_directory\<close>, what a directory of
  CLucene owes to the index, the invariant of the index over it, and the statements an index shows. Clucene_Memory: a directory in
  memory satisfies the locale; every operation refines one on statements, and a search finds what matches.
  Index_Filter (indexfiltermodel.cpp): the filter that keeps index and parent in step while the index tells apart what is removed
  and what stays; the locale \<open>indexed_store\<close>.
  Index_Hits (indexqueryhit.cpp, queryhit*.cpp): the iterators over hits.

  \<^bold>\<open>Virtuoso backend\<close> (folder backends/virtuoso). Odbc_Result (odbcqueryresult.cpp, virtuosotools.cpp): columns, cells and the
  nodes they stand for; the locale \<open>odbc_driver\<close> is the contract of the calls of ODBC. Virtuoso_Result
  (virtuosoqueryresultiteratorbackend.cpp): the iterator over a result. Virtuoso_Model (virtuosomodel.cpp, odbcconnection.cpp): the texts of
  the commands, their parameters, every operation. Virtuoso_Store: the locale \<open>virtuoso_server\<close>, what a server owes to the commands, and the
  operations as operations on its statements, removal by a pattern on old and new servers, counting and the graphs included. Odbc_Pool (odbcconnectionpool.cpp): a connection per thread.
  Virtuoso_Control (virtuosocontroller.cpp, server/lockfile.cpp): the server process as a state machine under a lock file.
  Virtuoso_Backend (virtuosobackend.cpp, virtuosoconfigurator.cpp): versions, files, indexes. Backend_Settings
  (soprano/backend.cpp) and Soprano_Types (soprano/sopranotypes.cpp): settings as a map, names of serializations and languages.

  \<^bold>\<open>Redland backend\<close> (folder backends/redland). Redland_Lock (multimutex.cpp): the lock that lets one thread read, as a step
  relation with an invariant, and its functions run to their end. Redland_World (redlandworld.cpp): the record \<open>librdf\<close> of the
  functions of the library, the locale \<open>librdf_nodes\<close>, nodes there and back. Redland_Iterator (redlandstatementiterator.cpp,
  redlandnodeiteratorbackend.cpp): the state of a model and its iterators, which deliver what a stream shows. Redland_Model
  (redlandmodel.cpp, redlandqueryresult.cpp, soprano/storagemodel.cpp): every operation, with its locks and a ledger of the objects of
  librdf. Redland_Store: the locale \<open>librdf_storage\<close>; the operations as operations on a set of statements, adding one that is
  not there and removing one that is. Redland_Memory: a librdf in
  memory satisfies it; the faults. Redland_Backend (redlandbackend.cpp): the options of a storage and the files of a model.

  \<^bold>\<open>Query objects\<close> (folder soprano/query). Query_Class (query.h, query.cpp): the classes, their bases, members and private data.
  Query_Heap: the memory they live in, with shared data and counts of users; copying, detaching, setters, assignment, deletion.
  Query_Sharing: the trees objects stand for and the invariant of the memory. Query_Values: calls of a client as operations on
  trees; no call touches freed memory while objects are handed over once and queries with prefixes are not changed.

  \<^bold>\<open>Plugins and schema\<close> (folder soprano). Ini_File (inifile.cpp, desktopfile.cpp, sopranopluginfile.cpp): configuration files as tables, read
  back as written. Plugin_Manager (sopranodirs.cpp, pluginstub.cpp, pluginmanager.cpp, global.cpp): which file gives a plugin, what a
  search finds, the backend in use. Schema_Model (rdfschemamodel.cpp): questions about classes and properties over a store.

  \<^bold>\<open>Bounds and fuel.\<close> Integers of the wire format and of hashes are words of their width; counts of statements are
  integers that the protocol sends in 32 bits. Fuel is used nowhere a bound is not proved: the N-Quads decoder and
  read_all are partial functions and their results are proved for all inputs in question. The fuel of inference is the depth
  of its recursion; more than the cube of the number of nodes of the store and the rules is enough, and for rdfs2 no fuel is.

  \<^bold>\<open>Faults.\<close> Where modelling showed that the code does not do what it means to, a lemma near the definition shows it
  on a concrete input (for example \<open>race_loses_elements\<close>, \<open>unknown_model_leaves_payload\<close>).

  \<^bold>\<open>Not modelled.\<close> The external libraries (CLucene, ODBC and the Virtuoso server, librdf) are parameters with contracts. The raptor and
  rasqal plugins and the sesame2 backend hand every call to libraries of other projects (C callbacks, the Java virtual machine) and
  have little logic of their own. The D-Bus interface, the sockets, the server process and its threads and the
  command line tools are operating system matters; the server's part in the protocol is in Server_Protocol. The remaining
  vocabularies are tables of constants made by a tool. Of the asynchronous model the holder of results (util/asyncresult.cpp) and the second
  cache of its iterator over query results (util/asyncqueryresultiteratorbackend.h) are not modelled.
\<close>

end
